(* ===== verification/Prelude.thy ===== *)
theory Prelude
  imports Complex_Main "HOL-Library.AList" "HOL-Library.List_Lexorder" "HOL-Library.Char_ord"
begin

text \<open>
  Shared ground of the development: Python values as they arrive from JSON columns and request
  bodies, the exceptions the code raises, dictionaries as association lists in insertion order
  (\<^const>\<open>AList.update\<close> writes in place or appends, as a Python dict does), the semantics of
  a SQL recursive UNION query, and the generic lemmas the component theories use.
\<close>

named_theorems py_simps \<open>evaluation of Python values and dictionaries\<close>

named_theorems table_simps \<open>evaluation of table operations\<close>

subsection \<open>Python values\<close>

text \<open>
  A JSON-like Python value. \<open>PNonFinite\<close> is a float that is an infinity or not a number. An object
  of a pydantic model stands for the dict its \<open>model_dump\<close> gives.
\<close>

datatype py =
    PNone
  | PBool bool
  | PInt int
  | PFloat rat
  | PNonFinite
  | PStr string
  | PList "py list"
  | PDict "(string \<times> py) list"

type_synonym pydict = "(string \<times> py) list"

text \<open>Python's truth value of an object.\<close>

fun truthy :: "py \<Rightarrow> bool" where
  "truthy PNone = False"
| "truthy (PBool b) = b"
| "truthy (PInt i) = (i \<noteq> 0)"
| "truthy (PFloat r) = (r \<noteq> 0)"
| "truthy PNonFinite = True"
| "truthy (PStr s) = (s \<noteq> [])"
| "truthy (PList xs) = (xs \<noteq> [])"
| "truthy (PDict d) = (d \<noteq> [])"

definition is_dict :: "py \<Rightarrow> bool" where
  "is_dict v = (case v of PDict _ \<Rightarrow> True | _ \<Rightarrow> False)"

definition dget :: "('k \<times> 'v) list \<Rightarrow> 'k \<Rightarrow> 'v \<Rightarrow> 'v" where
  "dget d k dflt = (case map_of d k of Some v \<Rightarrow> v | None \<Rightarrow> dflt)"

text \<open>\<open>d.get(k)\<close> on a dict.\<close>

definition pget :: "pydict \<Rightarrow> string \<Rightarrow> py" where
  "pget d k = dget d k PNone"

text \<open>\<open>(v or {})\<close> where \<open>v\<close> is a dict or None: the dict's entries.\<close>

definition dict_or_empty :: "py \<Rightarrow> pydict" where
  "dict_or_empty v = (case v of PDict d \<Rightarrow> d | _ \<Rightarrow> [])"

definition str_of :: "py \<Rightarrow> string option" where
  "str_of v = (case v of PStr s \<Rightarrow> Some s | _ \<Rightarrow> None)"

lemma dget_Nil [simp, py_simps]: "dget [] k x = x"
  by (simp add: dget_def)

lemma dget_Cons [py_simps]: "dget ((k, v) # d) k' x = (if k' = k then v else dget d k' x)"
  by (simp add: dget_def)

lemma dget_update [simp]: "dget (AList.update k v d) k' x = (if k' = k then v else dget d k' x)"
  by (simp add: dget_def update_conv')

lemma pget_Nil [simp, py_simps]: "pget [] k = PNone"
  by (simp add: pget_def)

lemma pget_Cons [py_simps]: "pget ((k, v) # d) k' = (if k' = k then v else pget d k')"
  by (simp add: pget_def dget_Cons)

lemma update_new: "k \<notin> fst ` set d \<Longrightarrow> AList.update k v d = d @ [(k, v)]"
  by (induction d) auto

lemma find_Some: "find P xs = Some x \<Longrightarrow> x \<in> set xs \<and> P x"
  by (auto simp: find_Some_iff in_set_conv_nth)

lemma find_append: "find P (xs @ ys) = (case find P xs of Some x \<Rightarrow> Some x | None \<Rightarrow> find P ys)"
  by (induction xs) simp_all

lemma find_map: "find P (map f xs) = map_option f (find (P \<circ> f) xs)"
  by (induction xs) simp_all

lemma length_filter_mono: "(\<And>x. x \<in> set xs \<Longrightarrow> P x \<Longrightarrow> Q x) \<Longrightarrow> length (filter P xs) \<le> length (filter Q xs)"
  by (induction xs) (auto simp: le_Suc_eq)

definition append_new :: "'a \<Rightarrow> 'a list \<Rightarrow> 'a list" where
  "append_new x xs = (if x \<in> set xs then xs else xs @ [x])"

lemma fold_append_new: "distinct (ys @ xs) \<Longrightarrow> fold append_new xs ys = ys @ xs"
  by (induction xs arbitrary: ys) (auto simp: append_new_def)

lemma set_fold_append_new: "set (fold append_new xs ys) = set xs \<union> set ys"
  by (induction xs arbitrary: ys) (auto simp: append_new_def)

lemma distinct_fold_append_new: "distinct ys \<Longrightarrow> distinct (fold append_new xs ys)"
  by (induction xs arbitrary: ys) (auto simp: append_new_def)

text \<open>\<open>list(dict.fromkeys(xs))\<close>: the first occurrences, in order.\<close>

definition dict_fromkeys :: "'a list \<Rightarrow> 'a list" where
  "dict_fromkeys xs = fold append_new xs []"

lemma set_dict_fromkeys [simp]: "set (dict_fromkeys xs) = set xs"
  by (simp add: dict_fromkeys_def set_fold_append_new)

text \<open>\<open>{**a, **b}\<close>.\<close>

definition dict_merge :: "('k \<times> 'v) list \<Rightarrow> ('k \<times> 'v) list \<Rightarrow> ('k \<times> 'v) list" where
  "dict_merge a b = fold (\<lambda>(k, v) d. AList.update k v d) b a"

lemma map_of_dict_merge:
  "distinct (map fst b) \<Longrightarrow> map_of (dict_merge a b) k = (case map_of b k of Some v \<Rightarrow> Some v | None \<Rightarrow> map_of a k)"
proof (induction b rule: rev_induct)
  case (snoc kv b)
  obtain k' v where kv: "kv = (k', v)" by (cases kv)
  have "map_of b k' = None" using snoc.prems kv by (simp add: map_of_eq_None_iff)
  with snoc kv show ?case by (auto simp: dict_merge_def update_conv' split: option.splits)
qed (simp add: dict_merge_def)

lemma map_of_filter_key: "map_of (filter (\<lambda>(k, v). P k) d) k = (if P k then map_of d k else None)"
  by (induction d) auto

text \<open>\<open>str.strip()\<close> on ASCII white space.\<close>

definition is_space :: "char \<Rightarrow> bool" where
  "is_space c \<longleftrightarrow> c \<in> {CHR '' '', CHR 0x09, CHR 0x0A, CHR 0x0B, CHR 0x0C, CHR 0x0D, CHR 0x1C, CHR 0x1D, CHR 0x1E, CHR 0x1F}"

definition py_strip :: "string \<Rightarrow> string" where
  "py_strip s = rev (dropWhile is_space (rev (dropWhile is_space s)))"

text \<open>\<open>str.lower()\<close> on an ASCII character.\<close>

definition ascii_lower :: "char \<Rightarrow> char" where
  "ascii_lower c = (let n = of_char c :: nat in if 65 \<le> n \<and> n \<le> 90 then char_of (n + 32) else c)"

lemma image_set_filter: "f ` set (filter (\<lambda>x. P (f x)) xs) = {k \<in> f ` set xs. P k}"
  by auto

lemma update_all:
  "\<forall>p \<in> set d. P (snd p) \<Longrightarrow> P v \<Longrightarrow> \<forall>p \<in> set (AList.update k v d). P (snd p)"
  by (induction d) auto

declare truthy.simps [py_simps] is_dict_def [py_simps] dict_or_empty_def [py_simps] str_of_def [py_simps]

subsection \<open>Exceptions\<close>

datatype py_error =
    ValueError string
  | TypeError
  | KeyError
  | AttributeError
  | IntegrityError
  | GroupHierarchyError string nat
  | HTTPException nat string
  | RecursionError
  | RuntimeError string

type_synonym 'a result = "py_error + 'a"

definition bind_result :: "'a result \<Rightarrow> ('a \<Rightarrow> 'b result) \<Rightarrow> 'b result" where
  "bind_result r f = (case r of Inl e \<Rightarrow> Inl e | Inr x \<Rightarrow> f x)"

lemma bind_result_simps [simp]:
  "bind_result (Inl e) f = Inl e" "bind_result (Inr x) f = f x"
  by (simp_all add: bind_result_def)

lemma bind_result_Inr_iff:
  "bind_result r f = Inr y \<longleftrightarrow> (\<exists>x. r = Inr x \<and> f x = Inr y)"
  by (cases r) auto

fun fold_result :: "('a \<Rightarrow> 's \<Rightarrow> 's result) \<Rightarrow> 'a list \<Rightarrow> 's \<Rightarrow> 's result" where
  "fold_result f [] s = Inr s"
| "fold_result f (x # xs) s = bind_result (f x s) (fold_result f xs)"

text \<open>Values that can be elements of sets and keys of dicts.\<close>

fun hashable :: "py \<Rightarrow> bool" where
  "hashable (PList _) = False"
| "hashable (PDict _) = False"
| "hashable _ = True"

fun map_result :: "('a \<Rightarrow> 'b result) \<Rightarrow> 'a list \<Rightarrow> 'b list result" where
  "map_result f [] = Inr []"
| "map_result f (x # xs) = bind_result (f x) (\<lambda>y. bind_result (map_result f xs) (\<lambda>ys. Inr (y # ys)))"

lemma fold_result_induct:
  assumes "fold_result f xs s = Inr s'" and "I [] s"
    and "\<And>ys x t t'. I ys t \<Longrightarrow> x \<in> set xs \<Longrightarrow> f x t = Inr t' \<Longrightarrow> (\<exists>zs. ys @ x # zs = xs) \<Longrightarrow> I (ys @ [x]) t'"
  shows "I xs s'"
proof -
  have "I (ys @ zs) s'" if "fold_result f zs t = Inr s'" "I ys t" "ys @ zs = xs" for ys zs t
    using that
  proof (induction zs arbitrary: ys t)
    case (Cons x zs)
    from Cons.prems(1) obtain t' where t': "f x t = Inr t'" "fold_result f zs t' = Inr s'"
      by (auto simp: bind_result_Inr_iff)
    have "I (ys @ [x]) t'" using Cons.prems by (intro assms(3) [OF _ _ t'(1)]) auto
    with Cons.IH [OF t'(2) this] Cons.prems(3) show ?case by simp
  qed simp
  with assms(1,2) show ?thesis by (metis append_Nil)
qed

lemma fold_result_succeeds:
  "I s \<Longrightarrow> (\<And>x t. x \<in> set xs \<Longrightarrow> I t \<Longrightarrow> \<exists>t'. f x t = Inr t' \<and> I t') \<Longrightarrow> \<exists>s'. fold_result f xs s = Inr s' \<and> I s'"
  by (induction xs arbitrary: s) (fastforce simp: bind_result_Inr_iff)+

subsection \<open>Recursive UNION queries\<close>

text \<open>
  The rows of \<open>WITH RECURSIVE chain AS (seed UNION step)\<close>, where the step joins the chain with a
  table: \<open>edges\<close> lists, for every row of the join, the chain row it needs and the row it yields.
  Each round joins only the rows the last round added and drops the rows already present, until a
  round adds none.
\<close>

function cte_union :: "('a \<times> 'a) list \<Rightarrow> 'a list \<Rightarrow> 'a list \<Rightarrow> 'a list" where
  "cte_union edges seen [] = seen"
| "cte_union edges seen (x # xs) =
     (let added = remdups (map snd (filter (\<lambda>e. fst e \<in> set (x # xs) \<and> snd e \<notin> set seen) edges))
      in cte_union edges (seen @ added) added)"
  by pat_completeness auto
termination
proof (relation "measures [\<lambda>(edges, seen, work). card (snd ` set edges - set seen), \<lambda>(edges, seen, work). length work]")
  fix edges :: "('a \<times> 'a) list" and seen x xs added
  assume added: "added = remdups (map snd (filter (\<lambda>e. fst e \<in> set (x # xs) \<and> snd e \<notin> set seen) edges))"
  show "((edges, seen @ added, added), edges, seen, x # xs)
    \<in> measures [\<lambda>(edges, seen, work). card (snd ` set edges - set seen), \<lambda>(edges, seen, work). length work]"
  proof (cases "added = []")
    case True
    then show ?thesis by simp
  next
    case False
    then obtain a where "a \<in> set added" by (cases added) auto
    then have "a \<in> snd ` set edges - set seen" "a \<notin> snd ` set edges - set (seen @ added)"
      by (auto simp: added)
    then have "card (snd ` set edges - set (seen @ added)) < card (snd ` set edges - set seen)"
      by (intro psubset_card_mono) auto
    then show ?thesis by simp
  qed
qed simp

definition recursive_union :: "('a \<times> 'a) list \<Rightarrow> 'a list \<Rightarrow> 'a list" where
  "recursive_union edges seed = (let start = remdups seed in cte_union edges start start)"

lemma cte_union_step:
  "set (seen @ remdups (map snd (filter (\<lambda>e. fst e \<in> set work \<and> snd e \<notin> set seen) edges)))
     = set seen \<union> set edges `` set work"
  by (force simp: Image_def)

lemma set_cte_union:
  assumes "set work \<subseteq> set seen"
    and "\<And>a b. a \<in> set seen \<Longrightarrow> a \<notin> set work \<Longrightarrow> (a, b) \<in> set edges \<Longrightarrow> b \<in> set seen"
  shows "set (cte_union edges seen work) = (set edges)\<^sup>* `` set seen"
  using assms
proof (induction edges seen work rule: cte_union.induct)
  case (1 edges seen)
  then have "set edges `` set seen \<subseteq> set seen" by auto
  then show ?case by (simp add: Image_closed_trancl)
next
  case (2 edges seen x xs)
  let ?added = "remdups (map snd (filter (\<lambda>e. fst e \<in> set (x # xs) \<and> snd e \<notin> set seen) edges))"
  have all: "set (seen @ ?added) = set seen \<union> set edges `` set (x # xs)"
    by (rule cte_union_step)
  have closed: "b \<in> set (seen @ ?added)"
    if "a \<in> set (seen @ ?added)" "a \<notin> set ?added" "(a, b) \<in> set edges" for a b
  proof -
    from that(1,2) have "a \<in> set seen" by auto
    with that(3) "2.prems"(2) [of a b] have "b \<in> set seen \<union> set edges `` set (x # xs)"
      by blast
    then show ?thesis by (simp only: all)
  qed
  have "set (cte_union edges (seen @ ?added) ?added) = (set edges)\<^sup>* `` set (seen @ ?added)"
    using closed by (intro "2.IH") auto
  also have "\<dots> = (set edges)\<^sup>* `` set seen"
    using "2.prems"(1) unfolding all
    by (auto simp: Image_def intro: converse_rtrancl_into_rtrancl)
  finally show ?case by (simp add: Let_def)
qed

lemma set_recursive_union: "set (recursive_union edges seed) = (set edges)\<^sup>* `` set seed"
  unfolding recursive_union_def Let_def by (subst set_cte_union) auto

lemma distinct_cte_union: "distinct seen \<Longrightarrow> distinct (cte_union edges seen work)"
proof (induction edges seen work rule: cte_union.induct)
  case (2 edges seen x xs)
  have "distinct (seen @ remdups (map snd (filter (\<lambda>e. fst e \<in> set (x # xs) \<and> snd e \<notin> set seen) edges)))"
    using "2.prems" by auto
  from "2.IH" [OF refl this] show ?case by (simp add: Let_def)
qed simp

lemma distinct_recursive_union: "distinct (recursive_union edges seed)"
  by (simp add: recursive_union_def Let_def distinct_cte_union)

end
