(* ===== verification/Access_Grants.thy ===== *)
theory Access_Grants
  imports Prelude
begin

text \<open>
  The access grant table of \<^verbatim>\<open>models/access_grants.py\<close>: its rows, the conversions between the old
  \<open>access_control\<close> JSON dict and grants, the normalisation of grant payloads, and the operations
  that change the table. A row's identifier is a fresh uuid; the supply \<open>uuid :: nat \<Rightarrow> string\<close>
  gives the values of the successive \<open>uuid.uuid4()\<close> calls of an operation and \<open>now\<close> is
  \<open>int(time.time())\<close>. The order of the table's list is the order the database returns rows in.
\<close>

subsection \<open>Rows\<close>

definition PRINCIPAL_TYPE_ANYONE :: string where "PRINCIPAL_TYPE_ANYONE = ''anyone''"
definition PRINCIPAL_TYPE_GROUP :: string where "PRINCIPAL_TYPE_GROUP = ''group''"
definition PRINCIPAL_TYPE_USER :: string where "PRINCIPAL_TYPE_USER = ''user''"
definition WILDCARD_PRINCIPAL_ID :: string where "WILDCARD_PRINCIPAL_ID = ''*''"

lemmas principal_defs [py_simps] =
  PRINCIPAL_TYPE_ANYONE_def PRINCIPAL_TYPE_GROUP_def PRINCIPAL_TYPE_USER_def WILDCARD_PRINCIPAL_ID_def

record access_grant =
  ag_id :: string
  ag_resource_type :: string
  ag_resource_id :: string
  ag_principal_type :: string
  ag_principal_id :: string
  ag_permission :: string
  ag_created_at :: int

text \<open>The columns of the unique constraint \<open>uq_access_grant_grant\<close>.\<close>

type_synonym grant_key = "string \<times> string \<times> string \<times> string \<times> string"

definition ag_key :: "access_grant \<Rightarrow> grant_key" where
  "ag_key g = (ag_resource_type g, ag_resource_id g, ag_principal_type g, ag_principal_id g, ag_permission g)"

definition mk_grant :: "string \<Rightarrow> int \<Rightarrow> grant_key \<Rightarrow> access_grant" where
  "mk_grant i now k = (case k of (rt, rid, pt, pid, perm) \<Rightarrow>
     \<lparr>ag_id = i, ag_resource_type = rt, ag_resource_id = rid, ag_principal_type = pt,
      ag_principal_id = pid, ag_permission = perm, ag_created_at = now\<rparr>)"

text \<open>What the database enforces on commit: the primary key and the unique constraint.\<close>

definition grants_ok :: "access_grant list \<Rightarrow> bool" where
  "grants_ok t \<longleftrightarrow> distinct (map ag_id t) \<and> distinct (map ag_key t)"

definition commit_grants :: "access_grant list \<Rightarrow> access_grant list \<Rightarrow> (access_grant list \<times> access_grant list) result" where
  "commit_grants t added = (if grants_ok (t @ added) then Inr (t @ added, added) else Inl IntegrityError)"

definition of_resource :: "string \<Rightarrow> string \<Rightarrow> access_grant \<Rightarrow> bool" where
  "of_resource rt rid g \<longleftrightarrow> ag_resource_type g = rt \<and> ag_resource_id g = rid"

record access_grant_response =
  agr_id :: string
  agr_principal_type :: string
  agr_principal_id :: string
  agr_permission :: string

definition from_grant :: "access_grant \<Rightarrow> access_grant_response" where
  "from_grant g = \<lparr>agr_id = ag_id g, agr_principal_type = ag_principal_type g,
     agr_principal_id = ag_principal_id g, agr_permission = ag_permission g\<rparr>"

subsection \<open>Conversions with the legacy access control dict\<close>

text \<open>
  The legacy JSON: \<open>None\<close>, or a dict from \<open>read\<close>/\<open>write\<close> to dicts from \<open>group_ids\<close>/\<open>user_ids\<close>
  to lists of identifiers.
\<close>

type_synonym perm_data = "(string \<times> string list) list"
type_synonym access_control = "(string \<times> perm_data) list"

definition permission_grants :: "string \<Rightarrow> string \<Rightarrow> string \<Rightarrow> perm_data \<Rightarrow> grant_key list" where
  "permission_grants rt rid permission perm_data =
     (if perm_data = [] then []
      else map (\<lambda>group_id. (rt, rid, ''group'', group_id, permission)) (dget perm_data ''group_ids'' [])
         @ map (\<lambda>user_id. (rt, rid, ''user'', user_id, permission)) (dget perm_data ''user_ids'' []))"

definition access_control_to_grants :: "string \<Rightarrow> string \<Rightarrow> access_control option \<Rightarrow> grant_key list" where
  "access_control_to_grants rt rid ac =
     (case ac of
        None \<Rightarrow> (if rt \<noteq> ''file'' then [(rt, rid, ''user'', ''*'', ''read'')] else [])
      | Some d \<Rightarrow>
          (if d = [] then []
           else concat (map (\<lambda>permission. permission_grants rt rid permission (dget d permission []))
                          [''read'', ''write''])))"

record legacy_perms =
  read_group_ids :: "string list"
  read_user_ids :: "string list"
  write_group_ids :: "string list"
  write_user_ids :: "string list"

fun collect_grants :: "access_grant list \<Rightarrow> legacy_perms \<Rightarrow> bool \<Rightarrow> legacy_perms \<times> bool" where
  "collect_grants [] r is_public = (r, is_public)"
| "collect_grants (g # gs) r is_public =
     (if ag_principal_type g = ''user'' \<and> ag_principal_id g = ''*'' \<and> ag_permission g = ''read''
      then collect_grants gs r True
      else if ag_permission g \<noteq> ''read'' \<and> ag_permission g \<noteq> ''write''
      then collect_grants gs r is_public
      else if ag_principal_type g = ''group'' then
        (if ag_permission g = ''read''
         then collect_grants gs (r\<lparr>read_group_ids := append_new (ag_principal_id g) (read_group_ids r)\<rparr>) is_public
         else collect_grants gs (r\<lparr>write_group_ids := append_new (ag_principal_id g) (write_group_ids r)\<rparr>) is_public)
      else if ag_principal_type g = ''user'' then
        (if ag_permission g = ''read''
         then collect_grants gs (r\<lparr>read_user_ids := append_new (ag_principal_id g) (read_user_ids r)\<rparr>) is_public
         else collect_grants gs (r\<lparr>write_user_ids := append_new (ag_principal_id g) (write_user_ids r)\<rparr>) is_public)
      else collect_grants gs r is_public)"

definition legacy_dict :: "legacy_perms \<Rightarrow> access_control" where
  "legacy_dict r =
     [(''read'', [(''group_ids'', read_group_ids r), (''user_ids'', read_user_ids r)]),
      (''write'', [(''group_ids'', write_group_ids r), (''user_ids'', write_user_ids r)])]"

definition no_legacy :: legacy_perms where
  "no_legacy = \<lparr>read_group_ids = [], read_user_ids = [], write_group_ids = [], write_user_ids = []\<rparr>"

definition grants_to_access_control :: "access_grant list \<Rightarrow> access_control option" where
  "grants_to_access_control grants =
     (if grants = [] then Some []
      else case collect_grants grants no_legacy False of
             (r, is_public) \<Rightarrow> if is_public then None else Some (legacy_dict r))"

subsection \<open>Normalisation of grant payloads\<close>

record norm_grant =
  n_id :: string
  n_principal_type :: string
  n_principal_id :: string
  n_permission :: string

type_synonym norm_key = "string \<times> string \<times> string"

definition norm_key :: "norm_grant \<Rightarrow> norm_key" where
  "norm_key g = (n_principal_type g, n_principal_id g, n_permission g)"

text \<open>A normalised grant is itself a dict, passed on to code that reads payloads.\<close>

definition norm_py :: "norm_grant \<Rightarrow> py" where
  "norm_py g = PDict [(''id'', PStr (n_id g)), (''principal_type'', PStr (n_principal_type g)),
     (''principal_id'', PStr (n_principal_id g)), (''permission'', PStr (n_permission g))]"

text \<open>The checks of one payload entry: the key under which it is kept, or None when it is skipped.\<close>

definition grant_entry_key :: "py \<Rightarrow> norm_key option" where
  "grant_entry_key grant =
     (case grant of
        PDict d \<Rightarrow>
          (let principal_type = pget d ''principal_type''; principal_id = pget d ''principal_id'';
               permission = pget d ''permission''
           in if principal_type \<notin> {PStr PRINCIPAL_TYPE_USER, PStr PRINCIPAL_TYPE_GROUP, PStr PRINCIPAL_TYPE_ANYONE}
              then None
              else if permission \<notin> {PStr ''read'', PStr ''write''} then None
              else if str_of principal_id = None \<or> str_of principal_id = Some [] then None
              else if principal_type = PStr PRINCIPAL_TYPE_ANYONE \<and>
                      (principal_id \<noteq> PStr WILDCARD_PRINCIPAL_ID \<or> permission \<noteq> PStr ''read'') then None
              else Some (the (str_of principal_type), the (str_of principal_id), the (str_of permission)))
      | _ \<Rightarrow> None)"

definition grant_entry_id :: "py \<Rightarrow> string \<Rightarrow> string" where
  "grant_entry_id grant fresh =
     (case grant of
        PDict d \<Rightarrow> (case pget d ''id'' of PStr s \<Rightarrow> if s \<noteq> [] then s else fresh | _ \<Rightarrow> fresh)
      | _ \<Rightarrow> fresh)"

fun normalize_loop :: "(nat \<Rightarrow> string) \<Rightarrow> nat \<Rightarrow> py list \<Rightarrow> (norm_key \<times> norm_grant) list \<Rightarrow> (norm_key \<times> norm_grant) list" where
  "normalize_loop uuid n [] deduped = deduped"
| "normalize_loop uuid n (grant # gs) deduped =
     (case grant_entry_key grant of
        None \<Rightarrow> normalize_loop uuid (Suc n) gs deduped
      | Some (pt, pid, perm) \<Rightarrow>
          normalize_loop uuid (Suc n) gs
            (AList.update (pt, pid, perm)
               \<lparr>n_id = grant_entry_id grant (uuid n), n_principal_type = pt, n_principal_id = pid,
                n_permission = perm\<rparr> deduped))"

definition normalize_access_grants :: "(nat \<Rightarrow> string) \<Rightarrow> py list \<Rightarrow> norm_grant list" where
  "normalize_access_grants uuid access_grants =
     (if access_grants = [] then [] else map snd (normalize_loop uuid 0 access_grants []))"

definition has_public_read_access_grant :: "(nat \<Rightarrow> string) \<Rightarrow> py list \<Rightarrow> bool" where
  "has_public_read_access_grant uuid gs =
     list_ex (\<lambda>g. n_principal_type g = PRINCIPAL_TYPE_USER \<and> n_principal_id g = WILDCARD_PRINCIPAL_ID
                 \<and> n_permission g = ''read'') (normalize_access_grants uuid gs)"

definition has_public_write_access_grant :: "(nat \<Rightarrow> string) \<Rightarrow> py list \<Rightarrow> bool" where
  "has_public_write_access_grant uuid gs =
     list_ex (\<lambda>g. n_principal_type g = PRINCIPAL_TYPE_USER \<and> n_principal_id g = WILDCARD_PRINCIPAL_ID
                 \<and> n_permission g = ''write'') (normalize_access_grants uuid gs)"

definition has_anyone_read_access_grant :: "(nat \<Rightarrow> string) \<Rightarrow> py list \<Rightarrow> bool" where
  "has_anyone_read_access_grant uuid gs =
     list_ex (\<lambda>g. n_principal_type g = PRINCIPAL_TYPE_ANYONE \<and> n_principal_id g = WILDCARD_PRINCIPAL_ID
                 \<and> n_permission g = ''read'') (normalize_access_grants uuid gs)"

definition has_user_access_grant :: "(nat \<Rightarrow> string) \<Rightarrow> py list \<Rightarrow> bool" where
  "has_user_access_grant uuid gs =
     list_ex (\<lambda>g. n_principal_type g = PRINCIPAL_TYPE_USER \<and> n_principal_id g \<noteq> WILDCARD_PRINCIPAL_ID)
       (normalize_access_grants uuid gs)"

text \<open>\<open>grant.get(k)\<close> on a dict, \<open>getattr(grant, k, None)\<close> on anything else.\<close>

definition grant_field :: "py \<Rightarrow> string \<Rightarrow> py" where
  "grant_field grant k = (case grant of PDict d \<Rightarrow> pget d k | _ \<Rightarrow> PNone)"

definition strip_user_access_grants :: "py list \<Rightarrow> py list" where
  "strip_user_access_grants gs =
     filter (\<lambda>grant. \<not> (grant_field grant ''principal_type'' = PStr PRINCIPAL_TYPE_USER
                      \<and> grant_field grant ''principal_id'' \<noteq> PStr WILDCARD_PRINCIPAL_ID)) gs"

definition strip_anyone_access_grants :: "py list \<Rightarrow> py list" where
  "strip_anyone_access_grants gs =
     filter (\<lambda>grant. grant_field grant ''principal_type'' \<noteq> PStr PRINCIPAL_TYPE_ANYONE) gs"

subsection \<open>Table operations\<close>

definition grant_access :: "string \<Rightarrow> int \<Rightarrow> grant_key \<Rightarrow> access_grant list \<Rightarrow> (access_grant list \<times> access_grant) result" where
  "grant_access uuid now k t =
     (case find (\<lambda>g. ag_key g = k) t of
        Some existing \<Rightarrow> Inr (t, existing)
      | None \<Rightarrow>
          (let grant = mk_grant uuid now k
           in bind_result (commit_grants t [grant]) (\<lambda>(t', _). Inr (t', grant))))"

definition revoke_access :: "grant_key \<Rightarrow> access_grant list \<Rightarrow> access_grant list \<times> bool" where
  "revoke_access k t = (filter (\<lambda>g. ag_key g \<noteq> k) t, length (filter (\<lambda>g. ag_key g = k) t) > 0)"

definition revoke_all_access :: "string \<Rightarrow> string \<Rightarrow> access_grant list \<Rightarrow> access_grant list \<times> nat" where
  "revoke_all_access rt rid t =
     (filter (\<lambda>g. \<not> of_resource rt rid g) t, length (filter (of_resource rt rid) t))"

text \<open>New rows for a list of keys, the \<open>i\<close>-th with the \<open>i\<close>-th uuid.\<close>

definition new_grants :: "(nat \<Rightarrow> string) \<Rightarrow> int \<Rightarrow> grant_key list \<Rightarrow> access_grant list" where
  "new_grants uuid now ks = map (\<lambda>(i, k). mk_grant (uuid i) now k) (enumerate 0 ks)"

definition set_access_control ::
  "(nat \<Rightarrow> string) \<Rightarrow> int \<Rightarrow> string \<Rightarrow> string \<Rightarrow> access_control option \<Rightarrow> access_grant list
    \<Rightarrow> (access_grant list \<times> access_grant list) result" where
  "set_access_control uuid now rt rid ac t =
     (let kept = filter (\<lambda>g. \<not> of_resource rt rid g) t;
          grant_dicts = access_control_to_grants rt rid ac
      in commit_grants kept (new_grants uuid now grant_dicts))"

text \<open>
  \<open>replace_access_grants\<close> draws the uuids of the normalisation first, \<open>length\<close> of the payload of
  them at most, then one for each row. It leaves the commit to its caller.
\<close>

definition replace_access_grants ::
  "(nat \<Rightarrow> string) \<Rightarrow> int \<Rightarrow> string \<Rightarrow> string \<Rightarrow> py list \<Rightarrow> access_grant list \<Rightarrow> access_grant list \<times> access_grant list" where
  "replace_access_grants uuid now rt rid access_grants t =
     (let kept = filter (\<lambda>g. \<not> of_resource rt rid g) t;
          normalized_grants = normalize_access_grants uuid access_grants
      in (kept, new_grants (\<lambda>i. uuid (length access_grants + i)) now
                  (map (\<lambda>g. (rt, rid, n_principal_type g, n_principal_id g, n_permission g)) normalized_grants)))"

definition set_access_grants ::
  "(nat \<Rightarrow> string) \<Rightarrow> int \<Rightarrow> string \<Rightarrow> string \<Rightarrow> py list \<Rightarrow> access_grant list
    \<Rightarrow> (access_grant list \<times> access_grant list) result" where
  "set_access_grants uuid now rt rid access_grants t =
     (case replace_access_grants uuid now rt rid access_grants t of
        (kept, results) \<Rightarrow> commit_grants kept results)"

definition get_grants_by_resource :: "string \<Rightarrow> string \<Rightarrow> access_grant list \<Rightarrow> access_grant list" where
  "get_grants_by_resource rt rid t = filter (of_resource rt rid) t"

definition get_access_control :: "string \<Rightarrow> string \<Rightarrow> access_grant list \<Rightarrow> access_control option" where
  "get_access_control rt rid t = grants_to_access_control (filter (of_resource rt rid) t)"

definition get_grants_by_resources :: "string \<Rightarrow> string list \<Rightarrow> access_grant list \<Rightarrow> (string \<times> access_grant list) list" where
  "get_grants_by_resources rt rids t =
     (if rids = [] then []
      else fold (\<lambda>g d. AList.update (ag_resource_id g) (dget d (ag_resource_id g) [] @ [g]) d)
             (filter (\<lambda>g. ag_resource_type g = rt \<and> ag_resource_id g \<in> set rids) t)
             (fold (\<lambda>rid d. AList.update rid [] d) rids []))"

definition has_anyone_access :: "string \<Rightarrow> string \<Rightarrow> string \<Rightarrow> access_grant list \<Rightarrow> bool" where
  "has_anyone_access rt rid permission t =
     (filter (\<lambda>g. of_resource rt rid g \<and> ag_principal_type g = PRINCIPAL_TYPE_ANYONE
               \<and> ag_principal_id g = WILDCARD_PRINCIPAL_ID \<and> ag_permission g = permission) t \<noteq> [])"

subsection \<open>Lemmas: normalisation\<close>

lemma map_fst_normalize_loop:
  "fst ` set (normalize_loop uuid n gs d) = fst ` set d \<union> {k. \<exists>g\<in>set gs. grant_entry_key g = Some k}"
  by (induction uuid n gs d rule: normalize_loop.induct)
     (auto simp: dom_update [unfolded dom_map_of_conv_image_fst] split: option.splits)

lemma normalize_loop_distinct:
  "distinct (map fst d) \<Longrightarrow> distinct (map fst (normalize_loop uuid n gs d))"
  by (induction uuid n gs d rule: normalize_loop.induct)
     (auto simp: distinct_update split: option.splits)

definition keyed :: "(norm_key \<times> norm_grant) list \<Rightarrow> bool" where
  "keyed d \<longleftrightarrow> (\<forall>(k, g) \<in> set d. norm_key g = k)"

lemma keyed_update: "keyed d \<Longrightarrow> norm_key g = k \<Longrightarrow> keyed (AList.update k g d)"
  by (induction d) (auto simp: keyed_def)

lemma keyed_normalize_loop: "keyed d \<Longrightarrow> keyed (normalize_loop uuid n gs d)"
  by (induction gs arbitrary: n d)
     (simp_all add: keyed_update norm_key_def split: option.split)

lemma keyed_map: "keyed d \<Longrightarrow> map norm_key (map snd d) = map fst d"
  by (auto simp: keyed_def)

lemma normalize_keys:
  "map norm_key (normalize_access_grants uuid gs) = map fst (normalize_loop uuid 0 gs [])"
  by (simp add: normalize_access_grants_def keyed_map [OF keyed_normalize_loop] keyed_def
      flip: map_map)

lemma normalize_distinct: "distinct (map norm_key (normalize_access_grants uuid gs))"
  by (simp add: normalize_keys normalize_loop_distinct)

lemma normalize_key_set:
  "norm_key ` set (normalize_access_grants uuid gs) = {k. \<exists>g\<in>set gs. grant_entry_key g = Some k}"
proof -
  have "norm_key ` set (normalize_access_grants uuid gs) = set (map norm_key (normalize_access_grants uuid gs))"
    by simp
  also have "\<dots> = fst ` set (normalize_loop uuid 0 gs [])"
    by (simp add: normalize_keys)
  finally show ?thesis by (simp add: map_fst_normalize_loop)
qed

lemma norm_grant_key_valid:
  "grant_entry_key g = Some (pt, pid, perm) \<Longrightarrow>
     pt \<in> {''user'', ''group'', ''anyone''} \<and> perm \<in> {''read'', ''write''} \<and> pid \<noteq> [] \<and>
     (pt = ''anyone'' \<longrightarrow> pid = ''*'' \<and> perm = ''read'')"
  by (auto simp: grant_entry_key_def Let_def py_simps split: py.splits if_splits)

lemma grant_entry_key_norm_py:
  "grant_entry_key h = Some (norm_key g) \<Longrightarrow> grant_entry_key (norm_py g) = Some (norm_key g)"
  by (frule norm_grant_key_valid [where pt = "n_principal_type g" and pid = "n_principal_id g" and perm = "n_permission g",
        folded norm_key_def])
     (auto simp: grant_entry_key_def Let_def norm_py_def norm_key_def py_simps)

lemma grant_entry_id_norm_py: "n_id g \<noteq> [] \<Longrightarrow> grant_entry_id (norm_py g) u = n_id g"
  by (simp add: grant_entry_id_def norm_py_def py_simps)

lemma normalize_loop_norm_py:
  assumes "\<forall>g\<in>set ns. n_id g \<noteq> [] \<and> grant_entry_key (norm_py g) = Some (norm_key g)"
    and "distinct (map fst d @ map norm_key ns)"
  shows "normalize_loop uuid n (map norm_py ns) d = d @ map (\<lambda>g. (norm_key g, g)) ns"
  using assms
proof (induction ns arbitrary: n d)
  case (Cons g ns)
  obtain pt pid perm where k: "norm_key g = (pt, pid, perm)" by (cases "norm_key g") auto
  have self: "\<lparr>n_id = n_id g, n_principal_type = pt, n_principal_id = pid, n_permission = perm\<rparr> = g"
    using k by (simp add: norm_key_def)
  have upd: "AList.update (pt, pid, perm) g d = d @ [(norm_key g, g)]"
    using Cons.prems(2) k by (intro trans [OF update_new]) auto
  have "normalize_loop uuid n (map norm_py (g # ns)) d
      = normalize_loop uuid (Suc n) (map norm_py ns) (d @ [(norm_key g, g)])"
    using Cons.prems(1) k by (simp add: grant_entry_id_norm_py self upd)
  also have "\<dots> = (d @ [(norm_key g, g)]) @ map (\<lambda>g. (norm_key g, g)) ns"
    using Cons.prems by (intro Cons.IH) auto
  finally show ?case by simp
qed simp

lemma normalize_loop_ids:
  assumes "\<And>n. uuid n \<noteq> []"
  shows "\<forall>p \<in> set d. n_id (snd p) \<noteq> [] \<Longrightarrow> \<forall>p \<in> set (normalize_loop uuid n gs d). n_id (snd p) \<noteq> []"
proof (induction gs arbitrary: n d)
  case (Cons g gs)
  have "grant_entry_id g (uuid n) \<noteq> []"
    using assms by (auto simp: grant_entry_id_def split: py.splits)
  with Cons.prems have "\<forall>p \<in> set (AList.update (pt, pid, perm)
      \<lparr>n_id = grant_entry_id g (uuid n), n_principal_type = pt, n_principal_id = pid, n_permission = perm\<rparr> d).
      n_id (snd p) \<noteq> []" for pt pid perm
    by (intro update_all) auto
  note upd = Cons.IH [where n = "Suc n", OF this]
  show ?case
  proof (cases "grant_entry_key g")
    case None
    with Cons.IH [OF Cons.prems] show ?thesis by simp
  next
    case (Some k)
    obtain pt pid perm where "k = (pt, pid, perm)" by (cases k) auto
    with Some upd [of pt pid perm] show ?thesis by simp
  qed
qed simp

lemma normalize_of_normalized:
  assumes "\<And>n. uuid n \<noteq> []"
  shows "normalize_access_grants uuid' (map norm_py (normalize_access_grants uuid gs))
       = normalize_access_grants uuid gs"
proof -
  let ?ns = "normalize_access_grants uuid gs"
  have ids: "n_id g \<noteq> []" if "g \<in> set ?ns" for g
    using that normalize_loop_ids [of uuid "[]" 0 gs] assms
    by (auto simp: normalize_access_grants_def split: if_splits)
  have "grant_entry_key (norm_py g) = Some (norm_key g)" if "g \<in> set ?ns" for g
    using that normalize_key_set [of uuid gs] grant_entry_key_norm_py by blast
  with ids have "normalize_loop uuid' 0 (map norm_py ?ns) [] = map (\<lambda>g. (norm_key g, g)) ?ns"
    by (subst normalize_loop_norm_py) (auto simp: normalize_distinct)
  then show ?thesis by (auto simp: normalize_access_grants_def comp_def)
qed

subsection \<open>Lemmas: table operations\<close>

lemma ag_key_mk_grant [simp]: "ag_key (mk_grant i now k) = k"
  by (simp add: ag_key_def mk_grant_def split: prod.split)

lemma ag_id_mk_grant [simp]: "ag_id (mk_grant i now k) = i"
  by (simp add: mk_grant_def split: prod.split)

lemma map_ag_key_new_grants [simp]: "map ag_key (new_grants uuid now ks) = ks"
  by (simp add: new_grants_def comp_def case_prod_unfold)

lemma new_grants_Nil_iff [simp]: "new_grants uuid now ks = [] \<longleftrightarrow> ks = []"
  using map_ag_key_new_grants [of uuid now ks] by (metis list.map_disc_iff)

lemma set_ag_key_new_grants: "ag_key ` set (new_grants uuid now ks) = set ks"
  by (simp flip: set_map)

lemma map_ag_id_new_grants [simp]: "map ag_id (new_grants uuid now ks) = map uuid [0..<length ks]"
  by (rule nth_equalityI) (auto simp: new_grants_def case_prod_unfold nth_enumerate_eq)

lemma set_ag_id_new_grants: "ag_id ` set (new_grants uuid now ks) = uuid ` {0..<length ks}"
  unfolding set_map [symmetric] map_ag_id_new_grants by simp

lemma of_resource_key: "of_resource rt rid g \<longleftrightarrow> fst (ag_key g) = rt \<and> fst (snd (ag_key g)) = rid"
  by (simp add: of_resource_def ag_key_def)

lemma grants_ok_filter: "grants_ok t \<Longrightarrow> grants_ok (filter P t)"
  by (auto simp: grants_ok_def intro: distinct_map_filter)

lemma grants_ok_append:
  "grants_ok (t @ u) \<longleftrightarrow> grants_ok t \<and> grants_ok u \<and>
     ag_id ` set t \<inter> ag_id ` set u = {} \<and> ag_key ` set t \<inter> ag_key ` set u = {}"
  by (auto simp: grants_ok_def)

lemma commit_grants_Inr:
  "commit_grants t added = Inr (t', res) \<longleftrightarrow> grants_ok (t @ added) \<and> t' = t @ added \<and> res = added"
  by (auto simp: commit_grants_def)

lemma set_access_grants_keys:
  assumes "set_access_grants uuid now rt rid gs t = Inr (t', res)"
  shows "grants_ok t'"
    and "ag_key ` set t' = {k \<in> ag_key ` set t. \<not> (fst k = rt \<and> fst (snd k) = rid)}
           \<union> {(rt, rid, k) | k. \<exists>g\<in>set gs. grant_entry_key g = Some k}"
proof -
  let ?kept = "filter (\<lambda>g. \<not> of_resource rt rid g) t"
  let ?ks = "map (\<lambda>g. (rt, rid, n_principal_type g, n_principal_id g, n_permission g)) (normalize_access_grants uuid gs)"
  let ?new = "new_grants (\<lambda>i. uuid (length gs + i)) now ?ks"
  from assms have t': "t' = ?kept @ ?new" and ok: "grants_ok (?kept @ ?new)"
    by (auto simp: set_access_grants_def replace_access_grants_def Let_def commit_grants_Inr)
  from t' ok show "grants_ok t'" by simp
  have "ag_key ` set ?new = set ?ks"
    by (rule set_ag_key_new_grants)
  also have "\<dots> = (\<lambda>k. (rt, rid, k)) ` norm_key ` set (normalize_access_grants uuid gs)"
    by (simp add: norm_key_def image_image)
  also have "\<dots> = {(rt, rid, k) | k. \<exists>g\<in>set gs. grant_entry_key g = Some k}"
    unfolding normalize_key_set by blast
  finally have new: "ag_key ` set ?new = {(rt, rid, k) | k. \<exists>g\<in>set gs. grant_entry_key g = Some k}" .
  have kept: "ag_key ` set ?kept = {k \<in> ag_key ` set t. \<not> (fst k = rt \<and> fst (snd k) = rid)}"
    unfolding of_resource_key by (rule image_set_filter)
  show "ag_key ` set t' = {k \<in> ag_key ` set t. \<not> (fst k = rt \<and> fst (snd k) = rid)}
           \<union> {(rt, rid, k) | k. \<exists>g\<in>set gs. grant_entry_key g = Some k}"
    by (simp only: t' set_append image_Un new kept)
qed

lemma distinct_resource_keys:
  assumes "distinct (map norm_key ns)"
  shows "distinct (map (\<lambda>g. (rt, rid, n_principal_type g, n_principal_id g, n_permission g)) ns)"
proof -
  have "map (\<lambda>g. (rt, rid, n_principal_type g, n_principal_id g, n_permission g)) ns
      = map (\<lambda>k. (rt, rid, k)) (map norm_key ns)"
    by (simp add: norm_key_def)
  moreover have "distinct (map (\<lambda>k. (rt, rid, k)) (map norm_key ns))"
    using assms by (subst distinct_map) (simp add: inj_on_def)
  ultimately show ?thesis by (simp only:)
qed

lemma distinct_supply:
  assumes "inj (uuid :: nat \<Rightarrow> string)"
  shows "distinct (map (\<lambda>i. uuid (m + i)) [0..<n])"
proof -
  have "inj_on (\<lambda>i. uuid (m + i)) (set [0..<n])"
    using inj_eq [OF assms] by (intro inj_onI) simp
  then show ?thesis unfolding distinct_map by simp
qed

lemma set_access_grants_succeeds:
  assumes "grants_ok t" and "inj uuid" and "\<And>i. uuid i \<notin> ag_id ` set t"
  shows "\<exists>t' res. set_access_grants uuid now rt rid gs t = Inr (t', res)"
proof -
  let ?kept = "filter (\<lambda>g. \<not> of_resource rt rid g) t"
  let ?ks = "map (\<lambda>g. (rt, rid, n_principal_type g, n_principal_id g, n_permission g)) (normalize_access_grants uuid gs)"
  let ?u = "\<lambda>i. uuid (length gs + i)"
  let ?new = "new_grants ?u now ?ks"
  have "distinct ?ks"
    by (rule distinct_resource_keys [OF normalize_distinct])
  then have new: "grants_ok ?new"
    unfolding grants_ok_def map_ag_id_new_grants map_ag_key_new_grants
    using distinct_supply [OF assms(2)] by blast
  have ids: "ag_id ` set ?kept \<inter> ag_id ` set ?new = {}"
    unfolding set_ag_id_new_grants using assms(3) by (auto simp: image_iff dest: sym)
  have keys: "ag_key ` set ?kept \<inter> ag_key ` set ?new = {}"
    unfolding set_ag_key_new_grants by (auto simp: of_resource_def ag_key_def)
  have "grants_ok (?kept @ ?new)"
    unfolding grants_ok_append using grants_ok_filter [OF assms(1)] new ids keys by blast
  then show ?thesis
    by (simp add: set_access_grants_def replace_access_grants_def Let_def commit_grants_def)
qed

lemma grant_access_ok:
  assumes "grants_ok t" and "grant_access u now k t = Inr (t', g)"
  shows "grants_ok t'" "g \<in> set t'" "ag_key g = k" "ag_key ` set t' = insert k (ag_key ` set t)"
  using assms
  by (force simp: grant_access_def Let_def bind_result_Inr_iff commit_grants_Inr
      split: option.splits dest: find_Some)+

lemma grant_access_succeeds:
  assumes "grants_ok t" and "u \<notin> ag_id ` set t"
  shows "\<exists>t' g. grant_access u now k t = Inr (t', g)"
proof (cases "find (\<lambda>g. ag_key g = k) t")
  case None
  then have "grants_ok (t @ [mk_grant u now k])"
    using assms by (auto simp: grants_ok_def find_None_iff)
  with None show ?thesis by (simp add: grant_access_def Let_def commit_grants_def)
qed (simp add: grant_access_def)

lemma revoke_access_ok:
  "grants_ok t \<Longrightarrow> grants_ok (fst (revoke_access k t))"
  "ag_key ` set (fst (revoke_access k t)) = ag_key ` set t - {k}"
  "snd (revoke_access k t) \<longleftrightarrow> k \<in> ag_key ` set t"
  by (auto simp: revoke_access_def grants_ok_filter filter_empty_conv)

lemma revoke_all_access_ok:
  "grants_ok t \<Longrightarrow> grants_ok (fst (revoke_all_access rt rid t))"
  "ag_key ` set (fst (revoke_all_access rt rid t)) = {k \<in> ag_key ` set t. \<not> (fst k = rt \<and> fst (snd k) = rid)}"
  by (auto simp: revoke_all_access_def grants_ok_filter of_resource_key simp del: split_paired_Ex)

subsection \<open>Lemmas: the legacy dict\<close>

text \<open>The principals of one kind and permission, in table order.\<close>

definition principals :: "string \<Rightarrow> string \<Rightarrow> access_grant list \<Rightarrow> string list" where
  "principals pt perm gs =
     map ag_principal_id (filter (\<lambda>g. ag_principal_type g = pt \<and> ag_permission g = perm) gs)"

lemma principals_append [simp]: "principals pt perm (gs @ hs) = principals pt perm gs @ principals pt perm hs"
  by (simp add: principals_def)

definition public_read :: "access_grant \<Rightarrow> bool" where
  "public_read g \<longleftrightarrow> ag_principal_type g = ''user'' \<and> ag_principal_id g = ''*'' \<and> ag_permission g = ''read''"

lemma collect_grants_eq:
  "collect_grants gs r b =
     (\<lparr>read_group_ids = fold append_new (principals ''group'' ''read'' gs) (read_group_ids r),
       read_user_ids = fold append_new (filter (\<lambda>i. i \<noteq> ''*'') (principals ''user'' ''read'' gs)) (read_user_ids r),
       write_group_ids = fold append_new (principals ''group'' ''write'' gs) (write_group_ids r),
       write_user_ids = fold append_new (principals ''user'' ''write'' gs) (write_user_ids r)\<rparr>,
      b \<or> list_ex public_read gs)"
  by (induction gs r b rule: collect_grants.induct)
     (simp_all add: principals_def public_read_def)

lemma principals_new_grants:
  "principals pt perm (new_grants uuid now ks) =
     map (\<lambda>(_, _, _, pid, _). pid) (filter (\<lambda>(_, _, pt', _, perm'). pt' = pt \<and> perm' = perm) ks)"
proof -
  have "principals pt perm (map (\<lambda>(i, k). mk_grant (uuid i) now k) (enumerate n ks)) =
     map (\<lambda>(_, _, _, pid, _). pid) (filter (\<lambda>(_, _, pt', _, perm'). pt' = pt \<and> perm' = perm) ks)" for n
    by (induction ks arbitrary: n) (auto simp: principals_def mk_grant_def)
  then show ?thesis by (simp add: new_grants_def)
qed

lemma public_read_new_grants:
  "list_ex public_read (new_grants uuid now ks) \<longleftrightarrow> (\<exists>rt rid. (rt, rid, ''user'', ''*'', ''read'') \<in> set ks)"
proof -
  have "list_ex public_read (map (\<lambda>(i, k). mk_grant (uuid i) now k) (enumerate n ks))
     \<longleftrightarrow> (\<exists>rt rid. (rt, rid, ''user'', ''*'', ''read'') \<in> set ks)" for n
    by (induction ks arbitrary: n) (auto simp: public_read_def mk_grant_def, blast)
  then show ?thesis by (simp add: new_grants_def)
qed

lemma legacy_dict_grants:
  "access_control_to_grants rt rid (Some (legacy_dict r)) =
     map (\<lambda>i. (rt, rid, ''group'', i, ''read'')) (read_group_ids r) @
     map (\<lambda>i. (rt, rid, ''user'', i, ''read'')) (read_user_ids r) @
     map (\<lambda>i. (rt, rid, ''group'', i, ''write'')) (write_group_ids r) @
     map (\<lambda>i. (rt, rid, ''user'', i, ''write'')) (write_user_ids r)"
  by (simp add: access_control_to_grants_def legacy_dict_def permission_grants_def py_simps)

definition legacy_wf :: "legacy_perms \<Rightarrow> bool" where
  "legacy_wf r \<longleftrightarrow> distinct (read_group_ids r) \<and> distinct (read_user_ids r) \<and>
     distinct (write_group_ids r) \<and> distinct (write_user_ids r) \<and> ''*'' \<notin> set (read_user_ids r)"

lemma grants_to_access_control_roundtrip:
  assumes "legacy_wf r"
  shows "grants_to_access_control (new_grants uuid now (access_control_to_grants rt rid (Some (legacy_dict r))))
       = Some (if r = no_legacy then [] else legacy_dict r)"
proof -
  let ?gs = "new_grants uuid now (access_control_to_grants rt rid (Some (legacy_dict r)))"
  have nonempty: "?gs = [] \<longleftrightarrow> r = no_legacy"
    by (cases r) (auto simp: legacy_dict_grants no_legacy_def)
  have star: "filter (\<lambda>i. i \<noteq> ''*'') (read_user_ids r) = read_user_ids r"
    using assms by (auto simp: legacy_wf_def intro: filter_True)
  have "collect_grants ?gs no_legacy False = (r, False)"
    unfolding collect_grants_eq public_read_new_grants principals_new_grants legacy_dict_grants
    using assms by (auto simp: legacy_wf_def fold_append_new no_legacy_def star filter_map comp_def)
  with nonempty show ?thesis by (simp add: grants_to_access_control_def)
qed

end
