(* ===== verification/User_Groups.thy ===== *)
theory User_Groups
  imports Access_Grants "HOL-Library.Product_Lexorder"
begin

text \<open>
  The user groups of \<^verbatim>\<open>models/groups.py\<close>: a forest of groups with members, kept in the tables
  \<open>group\<close> and \<open>group_member\<close>, and the queries that read the hierarchy with recursive SQL. An
  operation inside \<open>hierarchy_transaction\<close> is one step on the database (the transaction takes a
  lock and rolls back on an exception, so an error leaves the database as it was); it also returns
  the users whose sessions \<open>refresh_group_sessions\<close> refreshes.
\<close>

subsection \<open>Rows and forms\<close>

record group_row =
  g_parent_group_id :: "string option"
  g_id :: string
  g_user_id :: string
  g_name :: string
  g_description :: string
  g_data :: py
  g_meta :: py
  g_permissions :: py
  g_created_at :: int
  g_updated_at :: int

record group_member =
  gm_id :: string
  gm_group_id :: string
  gm_user_id :: string
  gm_created_at :: int
  gm_updated_at :: int

record group_db =
  db_groups :: "group_row list"
  db_members :: "group_member list"
  db_grants :: "access_grant list"

text \<open>
  \<open>gf_parent_set\<close>: whether \<open>parent_group_id\<close> is in the form's \<open>model_fields_set\<close>.
\<close>

record group_form =
  gf_parent_group_id :: "string option"
  gf_parent_set :: bool
  gf_name :: string
  gf_description :: string
  gf_permissions :: py
  gf_data :: py

definition nonblank_string :: "py \<Rightarrow> bool" where
  "nonblank_string v = (case v of PStr s \<Rightarrow> py_strip s \<noteq> [] | _ \<Rightarrow> False)"

definition validate_default_models :: "py \<Rightarrow> py result" where
  "validate_default_models data =
     (case data of
        PDict d \<Rightarrow>
          (case map_of d ''config'' of
             None \<Rightarrow> Inr data
           | Some (PDict config) \<Rightarrow>
               (case map_of config ''default_models'' of
                  None \<Rightarrow> Inr data
                | Some PNone \<Rightarrow> Inr data
                | Some (PList models) \<Rightarrow>
                    (if list_ex (\<lambda>m. \<not> nonblank_string m) models
                     then Inl (ValueError ''Default models must be a list of non-empty model IDs.'')
                     else Inr (PDict (AList.update ''config''
                            (PDict (AList.update ''default_models''
                               (PList (dict_fromkeys (map (\<lambda>m. PStr (py_strip (the (str_of m)))) models)))
                               config)) d)))
                | Some _ \<Rightarrow> Inl (ValueError ''Default models must be a list of non-empty model IDs.''))
           | Some _ \<Rightarrow> Inl (ValueError ''Group config must be an object.''))
      | _ \<Rightarrow> Inr data)"

text \<open>\<open>((group.data or {}).get('config') or {}).get('default_models') or None\<close>\<close>

definition default_models_of :: "py \<Rightarrow> py" where
  "default_models_of data =
     (let m = pget (dict_or_empty (pget (dict_or_empty data) ''config'')) ''default_models''
      in if truthy m then m else PNone)"

definition group_default_models :: "group_row \<Rightarrow> py" where
  "group_default_models g = default_models_of (g_data g)"

subsection \<open>Which group's default models apply\<close>

definition group_by_id :: "group_row list \<Rightarrow> string option \<Rightarrow> group_row option" where
  "group_by_id gs i = find (\<lambda>g. Some (g_id g) = i) (rev gs)"

text \<open>The inner loop: climb until a group whose depth is known, a group on the path, or the top.\<close>

function climb :: "group_row list \<Rightarrow> (string \<times> int) list \<Rightarrow> group_row option \<Rightarrow> string list \<Rightarrow> string list \<times> group_row option" where
  "climb gs depths None path = (path, None)"
| "climb gs depths (Some g) path =
     (if g_id g \<in> fst ` set depths \<or> g_id g \<in> set path then (path, Some g)
      else climb gs depths (group_by_id gs (g_parent_group_id g)) (path @ [g_id g]))"
  by pat_completeness auto
termination
proof (relation "measure (\<lambda>(gs, depths, cur, path).
    card ((g_id ` set gs \<union> (case cur of None \<Rightarrow> {} | Some g \<Rightarrow> {g_id g})) - set path))")
  fix gs :: "group_row list" and depths :: "(string \<times> int) list" and g :: group_row and path
  assume "\<not> (g_id g \<in> fst ` set depths \<or> g_id g \<in> set path)"
  then have new: "g_id g \<notin> set path" by simp
  let ?up = "group_by_id gs (g_parent_group_id g)"
  let ?ids = "\<lambda>cur. g_id ` set gs \<union> (case cur of None \<Rightarrow> {} | Some h \<Rightarrow> {g_id h})"
  have up: "?ids ?up = g_id ` set gs"
    by (auto simp: group_by_id_def dest!: find_Some split: option.splits)
  have "(?ids ?up - set (path @ [g_id g])) \<subset> (?ids (Some g) - set path)"
    unfolding up using new by auto
  then show "((gs, depths, ?up, path @ [g_id g]), gs, depths, Some g, path)
    \<in> measure (\<lambda>(gs, depths, cur, path).
        card ((g_id ` set gs \<union> (case cur of None \<Rightarrow> {} | Some g \<Rightarrow> {g_id g})) - set path))"
    by (auto intro!: psubset_card_mono)
qed simp

text \<open>\<open>for group_id in reversed(path): depth += 1; depths[group_id] = depth\<close>\<close>

fun number_path :: "string list \<Rightarrow> int \<Rightarrow> (string \<times> int) list \<Rightarrow> (string \<times> int) list" where
  "number_path [] depth depths = depths"
| "number_path (i # is) depth depths = number_path is (depth + 1) (AList.update i (depth + 1) depths)"

definition group_depths :: "group_row list \<Rightarrow> (string \<times> int) list" where
  "group_depths gs =
     fold (\<lambda>g depths.
         case climb gs depths (Some g) [] of
           (path, current) \<Rightarrow>
             number_path (rev path)
               (case current of None \<Rightarrow> - 1 | Some c \<Rightarrow> dget depths (g_id c) (- 1)) depths)
       gs []"

definition resolve_group_default_models :: "group_row list \<Rightarrow> py \<times> string option" where
  "resolve_group_default_models gs =
     (let depths = group_depths gs;
          configured = filter (\<lambda>g. truthy (group_default_models g)) gs
      in if configured = [] then (PNone, None)
         else let winner = arg_min_list (\<lambda>g. (- dget depths (g_id g) 0, g_created_at g, g_id g)) configured
              in (group_default_models winner, Some (g_id winner)))"

subsection \<open>Recursive queries\<close>

definition parent_edges :: "group_row list \<Rightarrow> (string \<times> string) list" where
  "parent_edges gs = [(g_id g, p). g \<leftarrow> gs, p \<leftarrow> (case g_parent_group_id g of None \<Rightarrow> [] | Some p \<Rightarrow> [p])]"

definition ancestor_groups :: "group_row list \<Rightarrow> string list \<Rightarrow> string list" where
  "ancestor_groups gs group_ids =
     recursive_union (parent_edges gs) [g_id g. g \<leftarrow> gs, g_id g \<in> set group_ids]"

text \<open>Rows \<open>(root_id, group_id)\<close>: a step goes from a parent to its children.\<close>

definition descendant_groups :: "group_row list \<Rightarrow> string list \<Rightarrow> (string \<times> string) list" where
  "descendant_groups gs group_ids =
     (let roots = [g_id g. g \<leftarrow> gs, g_id g \<in> set group_ids]
      in recursive_union [((r, p), (r, c)). r \<leftarrow> roots, (c, p) \<leftarrow> parent_edges gs] [(r, r). r \<leftarrow> roots])"

definition user_group_memberships :: "group_db \<Rightarrow> string list \<Rightarrow> bool \<Rightarrow> (string \<times> string) list" where
  "user_group_memberships db user_ids include_inherited =
     (let direct = [(gm_user_id m, gm_group_id m). m \<leftarrow> db_members db, gm_user_id m \<in> set user_ids]
      in if \<not> include_inherited then direct
         else recursive_union [((u, c), (u, p)). u \<leftarrow> map fst direct, (c, p) \<leftarrow> parent_edges (db_groups db)] direct)"

definition group_user_memberships :: "group_db \<Rightarrow> string list \<Rightarrow> bool \<Rightarrow> (string \<times> string) list" where
  "group_user_memberships db group_ids include_inherited =
     (if \<not> include_inherited
      then [(gm_group_id m, gm_user_id m). m \<leftarrow> db_members db, gm_group_id m \<in> set group_ids]
      else remdups [(r, gm_user_id m). (r, d) \<leftarrow> descendant_groups (db_groups db) group_ids,
                                          m \<leftarrow> db_members db, gm_group_id m = d])"

definition get_groups_by_member_ids :: "group_db \<Rightarrow> string list \<Rightarrow> bool \<Rightarrow> (string \<times> group_row list) list" where
  "get_groups_by_member_ids db user_ids include_inherited =
     (let memberships = user_group_memberships db user_ids include_inherited;
          rows = sort_key (\<lambda>(u, g). (- g_updated_at g, g_id g))
                   [(u, g). (u, gid) \<leftarrow> memberships, g \<leftarrow> db_groups db, g_id g = gid]
      in map (\<lambda>u. (u, map snd (filter (\<lambda>r. fst r = u) rows))) (dict_fromkeys user_ids))"

definition get_groups_by_member_id :: "group_db \<Rightarrow> string \<Rightarrow> bool \<Rightarrow> group_row list" where
  "get_groups_by_member_id db user_id include_inherited =
     dget (get_groups_by_member_ids db [user_id] include_inherited) user_id []"

definition get_ancestor_ids :: "group_db \<Rightarrow> string \<Rightarrow> string set" where
  "get_ancestor_ids db group_id = set (ancestor_groups (db_groups db) [group_id])"

definition get_group_by_id :: "group_db \<Rightarrow> string \<Rightarrow> group_row option" where
  "get_group_by_id db i = find (\<lambda>g. g_id g = i) (db_groups db)"

definition get_all_groups :: "group_db \<Rightarrow> group_row list" where
  "get_all_groups db = sort_key (\<lambda>g. - g_updated_at g) (db_groups db)"

definition get_group_by_name :: "group_db \<Rightarrow> string \<Rightarrow> group_row option" where
  "get_group_by_name db name = find (\<lambda>g. g_name g = name) (db_groups db)"

definition get_group_user_ids_by_ids :: "group_db \<Rightarrow> string list \<Rightarrow> bool \<Rightarrow> (string \<times> string list) list" where
  "get_group_user_ids_by_ids db group_ids include_inherited =
     (let memberships = group_user_memberships db group_ids include_inherited
      in map (\<lambda>gid. (gid, map snd (filter (\<lambda>r. fst r = gid) memberships))) (dict_fromkeys group_ids))"

definition get_group_user_ids_by_id :: "group_db \<Rightarrow> string \<Rightarrow> bool \<Rightarrow> string list" where
  "get_group_user_ids_by_id db group_id include_inherited =
     dget (get_group_user_ids_by_ids db [group_id] include_inherited) group_id []"

text \<open>A group without members has no row in the \<open>GROUP BY\<close> result.\<close>

definition get_group_member_counts_by_ids :: "group_db \<Rightarrow> string list \<Rightarrow> bool \<Rightarrow> (string \<times> nat) list" where
  "get_group_member_counts_by_ids db ids include_inherited =
     (let memberships = group_user_memberships db ids include_inherited
      in map (\<lambda>gid. (gid, length (filter (\<lambda>r. fst r = gid) memberships))) (remdups (map fst memberships)))"

definition get_group_member_count_by_id :: "group_db \<Rightarrow> string \<Rightarrow> bool \<Rightarrow> nat" where
  "get_group_member_count_by_id db gid include_inherited =
     dget (get_group_member_counts_by_ids db [gid] include_inherited) gid 0"

subsection \<open>Operations that change the hierarchy\<close>

definition validate_parent :: "group_row list \<Rightarrow> string option \<Rightarrow> string option \<Rightarrow> unit result" where
  "validate_parent gs group_id parent_id =
     (case parent_id of
        None \<Rightarrow> Inr ()
      | Some p \<Rightarrow>
          (if p = [] then Inl (GroupHierarchyError ''Parent group must be a group ID or null.'' 400)
           else if p \<notin> g_id ` set gs then Inl (GroupHierarchyError ''Parent group not found.'' 404)
           else if group_id \<in> Some ` set (ancestor_groups gs [p])
           then Inl (GroupHierarchyError ''A group cannot be its own parent or a descendant of itself.'' 400)
           else Inr ()))"

text \<open>\<open>_ensure_default_share_config\<close>, with \<open>share\<close> the configured \<open>DEFAULT_GROUP_SHARE_PERMISSION\<close>.\<close>

definition ensure_default_share_config :: "py \<Rightarrow> py \<Rightarrow> py" where
  "ensure_default_share_config share data =
     (let d = dict_or_empty data;
          d = (if map_of d ''config'' = None then AList.update ''config'' (PDict []) d else d);
          config = dict_or_empty (pget d ''config'');
          config = (if map_of config ''share'' = None then AList.update ''share'' share config else config)
      in PDict (AList.update ''config'' (PDict config) d))"

definition insert_new_group :: "py \<Rightarrow> string \<Rightarrow> int \<Rightarrow> string \<Rightarrow> group_form \<Rightarrow> group_db \<Rightarrow> (group_db \<times> group_row) result" where
  "insert_new_group share uuid now user_id form db =
     bind_result (validate_parent (db_groups db) None (gf_parent_group_id form)) (\<lambda>_.
       let grp = \<lparr>g_parent_group_id = gf_parent_group_id form, g_id = uuid, g_user_id = user_id,
                    g_name = gf_name form, g_description = gf_description form,
                    g_data = ensure_default_share_config share (gf_data form), g_meta = PNone,
                    g_permissions = gf_permissions form, g_created_at = now, g_updated_at = now\<rparr>
       in if uuid \<in> g_id ` set (db_groups db) then Inl IntegrityError
          else Inr (db\<lparr>db_groups := db_groups db @ [grp]\<rparr>, grp))"

definition map_group :: "string \<Rightarrow> (group_row \<Rightarrow> group_row) \<Rightarrow> group_row list \<Rightarrow> group_row list" where
  "map_group i f gs = map (\<lambda>g. if g_id g = i then f g else g) gs"

definition merge_group_data :: "py \<Rightarrow> py \<Rightarrow> py" where
  "merge_group_data old_data new_data =
     PDict (AList.update ''config''
        (PDict (dict_merge (dict_or_empty (pget (dict_or_empty old_data) ''config''))
                           (dict_or_empty (pget (dict_or_empty new_data) ''config''))))
        (dict_merge (dict_or_empty old_data) (dict_or_empty new_data)))"

definition update_group_by_id :: "int \<Rightarrow> string \<Rightarrow> group_form \<Rightarrow> group_db \<Rightarrow> (group_db \<times> group_row \<times> string list) result" where
  "update_group_by_id now i form db =
     (case find (\<lambda>g. g_id g = i) (db_groups db) of
        None \<Rightarrow> Inl (GroupHierarchyError ''Group not found.'' 404)
      | Some grp \<Rightarrow>
          bind_result (if gf_parent_set form then validate_parent (db_groups db) (Some i) (gf_parent_group_id form)
                       else Inr ()) (\<lambda>_.
            let parent' = (if gf_parent_set form then gf_parent_group_id form else g_parent_group_id grp);
                data_given = (gf_data form \<noteq> PNone);
                data' = (if data_given then merge_group_data (g_data grp) (gf_data form) else g_data grp);
                defaults_changed = (data_given \<and> default_models_of data' \<noteq> group_default_models grp);
                parent_changed = (parent' \<noteq> g_parent_group_id grp);
                permissions_given = (gf_permissions form \<noteq> PNone);
                affected =
                  (if parent_changed \<or> defaults_changed \<or>
                      (permissions_given \<and> gf_permissions form \<noteq> g_permissions grp)
                   then map snd (group_user_memberships db [i] True) else []);
                grp' = grp\<lparr>g_parent_group_id := parent', g_name := gf_name form,
                    g_description := gf_description form, g_data := data',
                    g_permissions := (if permissions_given then gf_permissions form else g_permissions grp),
                    g_updated_at := now\<rparr>
            in Inr (db\<lparr>db_groups := map_group i (\<lambda>_. grp') (db_groups db)\<rparr>, grp', affected)))"

definition delete_group_by_id :: "int \<Rightarrow> string \<Rightarrow> group_db \<Rightarrow> (group_db \<times> string list) result" where
  "delete_group_by_id now i db =
     (case find (\<lambda>g. g_id g = i) (db_groups db) of
        None \<Rightarrow> Inl (GroupHierarchyError ''Group not found.'' 404)
      | Some grp \<Rightarrow>
          (let affected = map snd (group_user_memberships db [i] True);
               promoted = map (\<lambda>g. if g_parent_group_id g = Some i
                                  then g\<lparr>g_parent_group_id := g_parent_group_id grp, g_updated_at := now\<rparr>
                                  else g) (db_groups db)
           in Inr (db\<lparr>db_groups := filter (\<lambda>g. g_id g \<noteq> i) promoted,
                      db_members := filter (\<lambda>m. gm_group_id m \<noteq> i) (db_members db),
                      db_grants := filter (\<lambda>a. \<not> (ag_principal_type a = ''group'' \<and> ag_principal_id a = i))
                                     (db_grants db)\<rparr>,
                   affected)))"

definition delete_all_groups :: "group_db \<Rightarrow> group_db \<times> string list" where
  "delete_all_groups db =
     (db\<lparr>db_groups := [], db_members := [],
         db_grants := filter (\<lambda>a. ag_principal_type a \<noteq> ''group'') (db_grants db)\<rparr>,
      remdups (map gm_user_id (db_members db)))"

subsection \<open>Operations on the members\<close>

definition mk_members :: "(nat \<Rightarrow> string) \<Rightarrow> int \<Rightarrow> (string \<times> string) list \<Rightarrow> group_member list" where
  "mk_members uuid now pairs =
     map (\<lambda>(n, gid, uid). \<lparr>gm_id = uuid n, gm_group_id = gid, gm_user_id = uid,
                            gm_created_at = now, gm_updated_at = now\<rparr>) (enumerate 0 pairs)"

definition touch_groups :: "int \<Rightarrow> (string \<Rightarrow> bool) \<Rightarrow> group_row list \<Rightarrow> group_row list" where
  "touch_groups now P gs = map (\<lambda>g. if P (g_id g) then g\<lparr>g_updated_at := now\<rparr> else g) gs"

definition members_of :: "group_db \<Rightarrow> string \<Rightarrow> string list" where
  "members_of db gid = map gm_user_id (filter (\<lambda>m. gm_group_id m = gid) (db_members db))"

definition groups_of :: "group_db \<Rightarrow> string \<Rightarrow> string list" where
  "groups_of db uid = map gm_group_id (filter (\<lambda>m. gm_user_id m = uid) (db_members db))"

text \<open>The sets \<open>a - b\<close> and \<open>a ^ b\<close> of two lists, in some order.\<close>

definition diff_list :: "'a list \<Rightarrow> 'a list \<Rightarrow> 'a list" where
  "diff_list a b = remdups (filter (\<lambda>x. x \<notin> set b) a)"

definition symdiff_list :: "'a list \<Rightarrow> 'a list \<Rightarrow> 'a list" where
  "symdiff_list a b = diff_list a b @ diff_list b a"

definition set_group_user_ids_by_id ::
  "(nat \<Rightarrow> string) \<Rightarrow> int \<Rightarrow> string \<Rightarrow> string list \<Rightarrow> group_db \<Rightarrow> (group_db \<times> string list) result" where
  "set_group_user_ids_by_id uuid now gid user_ids db =
     (if gid \<notin> g_id ` set (db_groups db) then Inl (GroupHierarchyError ''Group not found.'' 404)
      else
        (let previous = members_of db gid;
             kept = filter (\<lambda>m. \<not> (gm_group_id m = gid \<and> gm_user_id m \<in> set previous - set user_ids)) (db_members db);
             added = mk_members uuid now (map (\<lambda>u. (gid, u)) (diff_list user_ids previous))
         in Inr (db\<lparr>db_members := kept @ added,
                    db_groups := touch_groups now (\<lambda>i. i = gid) (db_groups db)\<rparr>,
                 symdiff_list previous user_ids)))"

definition add_users_to_group ::
  "(nat \<Rightarrow> string) \<Rightarrow> int \<Rightarrow> string \<Rightarrow> string list \<Rightarrow> group_db \<Rightarrow> (group_db \<times> string list) result" where
  "add_users_to_group uuid now gid user_ids db =
     (if gid \<notin> g_id ` set (db_groups db) then Inl (GroupHierarchyError ''Group not found.'' 404)
      else
        (let added = diff_list user_ids (members_of db gid)
         in Inr (db\<lparr>db_members := db_members db @ mk_members uuid now (map (\<lambda>u. (gid, u)) added),
                    db_groups := touch_groups now (\<lambda>i. i = gid) (db_groups db)\<rparr>,
                 added)))"

definition remove_users_from_group ::
  "int \<Rightarrow> string \<Rightarrow> string list \<Rightarrow> group_db \<Rightarrow> (group_db \<times> string list) result" where
  "remove_users_from_group now gid user_ids db =
     (if gid \<notin> g_id ` set (db_groups db) then Inl (GroupHierarchyError ''Group not found.'' 404)
      else
        (let removed = filter (\<lambda>u. u \<in> set user_ids) (members_of db gid)
         in Inr (db\<lparr>db_members := filter (\<lambda>m. \<not> (gm_group_id m = gid \<and> gm_user_id m \<in> set removed)) (db_members db),
                    db_groups := touch_groups now (\<lambda>i. i = gid) (db_groups db)\<rparr>,
                 removed)))"

definition remove_user_from_all_groups :: "int \<Rightarrow> string \<Rightarrow> group_db \<Rightarrow> group_db \<times> string list" where
  "remove_user_from_all_groups now uid db =
     (db\<lparr>db_groups := touch_groups now (\<lambda>i. i \<in> set (groups_of db uid)) (db_groups db),
         db_members := filter (\<lambda>m. gm_user_id m \<noteq> uid) (db_members db)\<rparr>,
      [uid])"

definition sync_groups_by_group_names ::
  "(nat \<Rightarrow> string) \<Rightarrow> int \<Rightarrow> string \<Rightarrow> string list \<Rightarrow> group_db \<Rightarrow> group_db \<times> string list" where
  "sync_groups_by_group_names uuid now uid group_names db =
     (let target = map g_id (filter (\<lambda>g. g_name g \<in> set group_names) (db_groups db));
          previous = groups_of db uid;
          kept = filter (\<lambda>m. \<not> (gm_user_id m = uid \<and> gm_group_id m \<in> set previous - set target)) (db_members db)
      in (db\<lparr>db_members := kept @ mk_members uuid now (map (\<lambda>g. (g, uid)) (diff_list target previous)),
             db_groups := touch_groups now (\<lambda>i. i \<in> set (symdiff_list previous target)) (db_groups db)\<rparr>,
          if set previous \<noteq> set target then [uid] else []))"

text \<open>
  One group for each name that no group had when the operation began; a name listed twice is
  created twice, since the set of existing names is read once.
\<close>

fun create_groups :: "py \<Rightarrow> (nat \<Rightarrow> string) \<Rightarrow> nat \<Rightarrow> int \<Rightarrow> string \<Rightarrow> string set \<Rightarrow> string list \<Rightarrow> group_db \<Rightarrow> group_db \<times> group_row list" where
  "create_groups share uuid n now user_id existing [] db = (db, [])"
| "create_groups share uuid n now user_id existing (name # names) db =
     (if name \<in> existing then create_groups share uuid (Suc n) now user_id existing names db
      else
        (let grp = \<lparr>g_parent_group_id = None, g_id = uuid n, g_user_id = user_id, g_name = name,
                      g_description = [], g_data = PDict [(''config'', PDict [(''share'', share)])],
                      g_meta = PNone, g_permissions = PNone, g_created_at = now, g_updated_at = now\<rparr>
         in if uuid n \<in> g_id ` set (db_groups db)
            then create_groups share uuid (Suc n) now user_id existing names db
            else case create_groups share uuid (Suc n) now user_id existing names
                        (db\<lparr>db_groups := db_groups db @ [grp]\<rparr>) of
                   (db', new_groups) \<Rightarrow> (db', grp # new_groups)))"

definition create_groups_by_group_names ::
  "py \<Rightarrow> (nat \<Rightarrow> string) \<Rightarrow> int \<Rightarrow> string \<Rightarrow> string list \<Rightarrow> group_db \<Rightarrow> group_db \<times> group_row list" where
  "create_groups_by_group_names share uuid now user_id group_names db =
     create_groups share uuid 0 now user_id (g_name ` set (get_all_groups db)) group_names db"

subsection \<open>The hierarchy as a relation\<close>

definition parent_rel :: "group_row list \<Rightarrow> (string \<times> string) set" where
  "parent_rel gs = {(g_id g, p) | g p. g \<in> set gs \<and> g_parent_group_id g = Some p}"

lemma set_parent_edges [simp]: "set (parent_edges gs) = parent_rel gs"
  by (force simp: parent_edges_def parent_rel_def split: option.splits)

lemma set_ancestor_groups:
  "set (ancestor_groups gs ids) = (parent_rel gs)\<^sup>* `` (g_id ` set gs \<inter> set ids)"
proof -
  have "set [g_id g. g \<leftarrow> gs, g_id g \<in> set ids] = g_id ` set gs \<inter> set ids" by auto
  then show ?thesis by (simp add: ancestor_groups_def set_recursive_union)
qed

lemma rtrancl_tagged:
  assumes "u \<in> U"
  shows "((u, a), x) \<in> {((v, a), (v, b)) | v a b. v \<in> U \<and> (a, b) \<in> r}\<^sup>* \<longleftrightarrow> fst x = u \<and> (a, snd x) \<in> r\<^sup>*"
    (is "_ \<in> ?T\<^sup>* \<longleftrightarrow> _")
proof
  assume "((u, a), x) \<in> ?T\<^sup>*"
  then show "fst x = u \<and> (a, snd x) \<in> r\<^sup>*"
    by (induction rule: rtrancl_induct) (auto intro: rtrancl_into_rtrancl)
next
  have "(a, b) \<in> r\<^sup>* \<Longrightarrow> ((u, a), (u, b)) \<in> ?T\<^sup>*" for b
  proof (induction rule: rtrancl_induct)
    case (step c d)
    from step.hyps(2) assms have "((u, c), (u, d)) \<in> ?T" by blast
    with step.IH show ?case by (rule rtrancl_into_rtrancl)
  qed simp
  moreover assume "fst x = u \<and> (a, snd x) \<in> r\<^sup>*"
  ultimately show "((u, a), x) \<in> ?T\<^sup>*" by (cases x) auto
qed

lemma tagged_edges:
  "set [((v, a), (v, b)). v \<leftarrow> us, (a, b) \<leftarrow> es] = {((v, a), (v, b)) | v a b. v \<in> set us \<and> (a, b) \<in> set es}"
  by force

lemma set_user_group_memberships:
  "(u, g) \<in> set (user_group_memberships db uids inherited) \<longleftrightarrow>
     u \<in> set uids \<and> (\<exists>d. d \<in> set (groups_of db u) \<and>
       (if inherited then (d, g) \<in> (parent_rel (db_groups db))\<^sup>* else g = d))"
proof -
  let ?direct = "[(gm_user_id m, gm_group_id m). m \<leftarrow> db_members db, gm_user_id m \<in> set uids]"
  have direct: "(u, d) \<in> set ?direct \<longleftrightarrow> u \<in> set uids \<and> d \<in> set (groups_of db u)" for u d
    by (auto simp: groups_of_def)
  show ?thesis
  proof (cases inherited)
    case True
    let ?U = "set (map fst ?direct)"
    let ?T = "{((v, a), (v, b)) | v a b. v \<in> ?U \<and> (a, b) \<in> parent_rel (db_groups db)}"
    have "set [((u, c), (u, p)). u \<leftarrow> map fst ?direct, (c, p) \<leftarrow> parent_edges (db_groups db)] = ?T"
      by (subst tagged_edges) simp
    then have "set (user_group_memberships db uids True) = ?T\<^sup>* `` set ?direct"
      by (simp add: user_group_memberships_def Let_def set_recursive_union)
    then have "(u, g) \<in> set (user_group_memberships db uids True)
        \<longleftrightarrow> (\<exists>v d. (v, d) \<in> set ?direct \<and> ((v, d), (u, g)) \<in> ?T\<^sup>*)"
      by (auto simp: Image_def)
    also have "\<dots> \<longleftrightarrow> (\<exists>v d. (v, d) \<in> set ?direct \<and> v = u \<and> (d, g) \<in> (parent_rel (db_groups db))\<^sup>*)"
    proof (intro ex_cong1 conj_cong refl)
      fix v d assume "(v, d) \<in> set ?direct"
      then have "v \<in> ?U" by force
      from rtrancl_tagged [OF this, of d "(u, g)" "parent_rel (db_groups db)"]
      show "((v, d), (u, g)) \<in> ?T\<^sup>* \<longleftrightarrow> v = u \<and> (d, g) \<in> (parent_rel (db_groups db))\<^sup>*"
        by (simp add: eq_commute)
    qed
    finally show ?thesis using True direct by auto
  next
    case False
    then show ?thesis using direct by (simp add: user_group_memberships_def Let_def)
  qed
qed

lemma tagged_edges_converse:
  "set [((v, b), (v, a)). v \<leftarrow> us, (a, b) \<leftarrow> es]
     = {((v, b), (v, a)) | v b a. v \<in> set us \<and> (b, a) \<in> (set es)\<inverse>}"
  by force

lemma set_descendant_groups:
  "(r, d) \<in> set (descendant_groups gs ids) \<longleftrightarrow>
     r \<in> g_id ` set gs \<and> r \<in> set ids \<and> (d, r) \<in> (parent_rel gs)\<^sup>*"
proof -
  let ?roots = "[g_id g. g \<leftarrow> gs, g_id g \<in> set ids]"
  let ?T = "{((v, b), (v, a)) | v b a. v \<in> set ?roots \<and> (b, a) \<in> (parent_rel gs)\<inverse>}"
  have roots: "set ?roots = g_id ` set gs \<inter> set ids" by auto
  have "set (descendant_groups gs ids) = ?T\<^sup>* `` set [(r, r). r \<leftarrow> ?roots]"
    unfolding descendant_groups_def Let_def set_recursive_union tagged_edges_converse by simp
  then have "(r, d) \<in> set (descendant_groups gs ids) \<longleftrightarrow> (\<exists>v \<in> set ?roots. ((v, v), (r, d)) \<in> ?T\<^sup>*)"
    by (auto simp: Image_def)
  also have "\<dots> \<longleftrightarrow> (\<exists>v \<in> set ?roots. r = v \<and> (v, d) \<in> ((parent_rel gs)\<inverse>)\<^sup>*)"
    by (intro bex_cong refl) (simp only: rtrancl_tagged fst_conv snd_conv)
  finally show ?thesis unfolding roots by (auto simp: rtrancl_converse)
qed

lemma dget_map_self: "dget (map (\<lambda>x. (x, f x)) xs) x d = (if x \<in> set xs then f x else d)"
  by (induction xs) (auto simp: dget_Cons)

lemma set_get_groups_by_member_id:
  "g \<in> set (get_groups_by_member_id db u inherited) \<longleftrightarrow>
     g \<in> set (db_groups db) \<and> (\<exists>d \<in> set (groups_of db u).
       if inherited then (d, g_id g) \<in> (parent_rel (db_groups db))\<^sup>* else g_id g = d)"
proof -
  have "g \<in> set (get_groups_by_member_id db u inherited) \<longleftrightarrow>
      g \<in> set (db_groups db) \<and> (u, g_id g) \<in> set (user_group_memberships db [u] inherited)"
    by (force simp: get_groups_by_member_id_def get_groups_by_member_ids_def Let_def dget_map_self image_iff)
  then show ?thesis by (auto simp: set_user_group_memberships)
qed

lemma set_group_user_memberships:
  "(gid, u) \<in> set (group_user_memberships db ids inherited) \<longleftrightarrow> gid \<in> set ids \<and>
     (if inherited then gid \<in> g_id ` set (db_groups db) \<and>
        (\<exists>d. (d, gid) \<in> (parent_rel (db_groups db))\<^sup>* \<and> u \<in> set (members_of db d))
      else u \<in> set (members_of db gid))"
proof (cases inherited)
  case True
  have "(gid, u) \<in> set (group_user_memberships db ids True) \<longleftrightarrow>
      (\<exists>d. (gid, d) \<in> set (descendant_groups (db_groups db) ids) \<and> u \<in> set (members_of db d))"
    by (force simp: group_user_memberships_def members_of_def)
  with True show ?thesis by (auto simp: set_descendant_groups)
qed (auto simp: group_user_memberships_def members_of_def)

lemma set_get_group_user_ids_by_id:
  "u \<in> set (get_group_user_ids_by_id db gid inherited) \<longleftrightarrow>
     (if inherited then gid \<in> g_id ` set (db_groups db) \<and>
        (\<exists>d. (d, gid) \<in> (parent_rel (db_groups db))\<^sup>* \<and> u \<in> set (members_of db d))
      else u \<in> set (members_of db gid))"
proof -
  have "u \<in> set (get_group_user_ids_by_id db gid inherited) \<longleftrightarrow>
      (gid, u) \<in> set (group_user_memberships db [gid] inherited)"
    by (force simp: get_group_user_ids_by_id_def get_group_user_ids_by_ids_def Let_def dget_map_self image_iff)
  then show ?thesis by (simp add: set_group_user_memberships)
qed

lemma members_groups_of: "u \<in> set (members_of db d) \<longleftrightarrow> d \<in> set (groups_of db u)"
  by (auto simp: members_of_def groups_of_def)

subsection \<open>The interface the access checks use\<close>

text \<open>
  What access control asks of the groups: the groups of a user and the users of a group, which
  must agree. The access checks go from a user to groups, the listings of users with access go
  from a group to users.
\<close>

locale membership =
  fixes user_groups :: "string \<Rightarrow> string set"
    and group_users :: "string \<Rightarrow> string set"
  assumes dual: "g \<in> user_groups u \<longleftrightarrow> u \<in> group_users g"
begin

lemma users_of_groups: "u \<in> (\<Union>g \<in> G. group_users g) \<longleftrightarrow> user_groups u \<inter> G \<noteq> {}"
  using dual by blast

end

text \<open>The ids of a user's groups, and a group's users, both with inheritance.\<close>

definition inherited_group_ids :: "group_db \<Rightarrow> string \<Rightarrow> string set" where
  "inherited_group_ids db u = g_id ` set (get_groups_by_member_id db u True)"

definition inherited_user_ids :: "group_db \<Rightarrow> string \<Rightarrow> string set" where
  "inherited_user_ids db gid = set (get_group_user_ids_by_id db gid True)"

lemma in_inherited_group_ids:
  "gid \<in> inherited_group_ids db u \<longleftrightarrow> gid \<in> g_id ` set (db_groups db) \<and>
     (\<exists>d \<in> set (groups_of db u). (d, gid) \<in> (parent_rel (db_groups db))\<^sup>*)"
  by (simp add: inherited_group_ids_def image_iff Bex_def set_get_groups_by_member_id) blast

interpretation hierarchy: membership "inherited_group_ids db" "inherited_user_ids db" for db
  by unfold_locales
     (auto simp: in_inherited_group_ids inherited_user_ids_def set_get_group_user_ids_by_id members_groups_of)

subsection \<open>The invariant of the hierarchy\<close>

text \<open>
  Group ids are unique, every parent and every member's group exists, and the parent links have
  no cycle. The last is what \<open>validate_parent\<close> protects: no constraint of the database does.
\<close>

definition hierarchy_inv :: "group_db \<Rightarrow> bool" where
  "hierarchy_inv db \<longleftrightarrow>
     distinct (map g_id (db_groups db)) \<and>
     Range (parent_rel (db_groups db)) \<subseteq> g_id ` set (db_groups db) \<and>
     gm_group_id ` set (db_members db) \<subseteq> g_id ` set (db_groups db) \<and>
     acyclic (parent_rel (db_groups db))"

lemma hierarchy_invD:
  assumes "hierarchy_inv db"
  shows "distinct (map g_id (db_groups db))"
    and "Range (parent_rel (db_groups db)) \<subseteq> g_id ` set (db_groups db)"
    and "gm_group_id ` set (db_members db) \<subseteq> g_id ` set (db_groups db)"
    and "acyclic (parent_rel (db_groups db))"
  using assms by (auto simp: hierarchy_inv_def)

lemma parent_rel_append [simp]: "parent_rel (gs @ hs) = parent_rel gs \<union> parent_rel hs"
  by (auto simp: parent_rel_def)

lemma parent_rel_single:
  "parent_rel [g] = (case g_parent_group_id g of None \<Rightarrow> {} | Some p \<Rightarrow> {(g_id g, p)})"
  by (auto simp: parent_rel_def split: option.splits)

lemma Range_parent_rel: "Range (parent_rel gs) = {p. \<exists>g \<in> set gs. g_parent_group_id g = Some p}"
  by (auto simp: parent_rel_def)

lemma Domain_parent_rel: "Domain (parent_rel gs) \<subseteq> g_id ` set gs"
  by (auto simp: parent_rel_def)

lemma not_reach_fresh: "y \<notin> Range r \<Longrightarrow> x \<noteq> y \<Longrightarrow> (x, y) \<notin> r\<^sup>*"
  by (auto elim: rtranclE)

lemma validate_parent_Inr:
  "validate_parent gs i (Some p) = Inr () \<Longrightarrow> p \<in> g_id ` set gs \<and>
     (\<forall>c. i = Some c \<longrightarrow> (p, c) \<notin> (parent_rel gs)\<^sup>*)"
  by (auto simp: validate_parent_def set_ancestor_groups split: if_splits)

text \<open>The relation depends only on the groups' ids and parents.\<close>

definition link :: "group_row \<Rightarrow> string \<times> string option" where
  "link g = (g_id g, g_parent_group_id g)"

lemma parent_rel_links: "parent_rel gs = {(i, p). (i, Some p) \<in> set (map link gs)}"
  by (auto simp: parent_rel_def link_def)

lemma map_link_touch [simp]: "map link (touch_groups now P gs) = map link gs"
  by (simp add: touch_groups_def link_def)

lemma parent_rel_touch [simp]: "parent_rel (touch_groups now P gs) = parent_rel gs"
  by (simp only: parent_rel_links map_link_touch)

lemma map_g_id_touch [simp]: "map g_id (touch_groups now P gs) = map g_id gs"
  by (simp add: touch_groups_def)

lemma g_id_touch [simp]: "g_id ` set (touch_groups now P gs) = g_id ` set gs"
  unfolding set_map [symmetric] map_g_id_touch ..

lemma insert_new_group_inv:
  assumes inv: "hierarchy_inv db" and ok: "insert_new_group share uuid now u form db = Inr (db', g)"
  shows "hierarchy_inv db'"
proof -
  note hierarchy_invD [OF inv]
  from ok have valid: "validate_parent (db_groups db) None (gf_parent_group_id form) = Inr ()"
    and fresh: "uuid \<notin> g_id ` set (db_groups db)"
    and db': "db' = db\<lparr>db_groups := db_groups db @ [g]\<rparr>"
    and g: "g_id g = uuid" "g_parent_group_id g = gf_parent_group_id form"
    by (auto simp: insert_new_group_def Let_def bind_result_Inr_iff split: if_splits)
  have new: "acyclic (parent_rel (db_groups db @ [g]))"
    "Range (parent_rel (db_groups db @ [g])) \<subseteq> g_id ` set (db_groups db)"
  proof -
    show "acyclic (parent_rel (db_groups db @ [g]))"
    proof (cases "gf_parent_group_id form")
      case None
      then show ?thesis using hierarchy_invD(4) [OF inv] g by (simp add: parent_rel_single)
    next
      case (Some p)
      with valid have "p \<in> g_id ` set (db_groups db)" by (auto dest: validate_parent_Inr)
      with fresh have "p \<noteq> uuid" by blast
      moreover have "uuid \<notin> Range (parent_rel (db_groups db))" using hierarchy_invD(2) [OF inv] fresh by blast
      ultimately have "(p, uuid) \<notin> (parent_rel (db_groups db))\<^sup>*" by (rule not_reach_fresh [rotated])
      then show ?thesis
        using hierarchy_invD(4) [OF inv] g Some by (simp add: parent_rel_single acyclic_insert)
    qed
    show "Range (parent_rel (db_groups db @ [g])) \<subseteq> g_id ` set (db_groups db)"
      using hierarchy_invD(2) [OF inv] valid g
      by (cases "gf_parent_group_id form") (auto simp: parent_rel_single dest: validate_parent_Inr)
  qed
  then show ?thesis
    using hierarchy_invD [OF inv] fresh g db' by (auto simp: hierarchy_inv_def)
qed

lemma parent_rel_map_group:
  assumes "g_id g' = i"
  shows "parent_rel (map_group i (\<lambda>_. g') gs) \<subseteq>
     parent_rel gs \<union> {(i, p) | p. g_parent_group_id g' = Some p}"
  using assms by (auto simp: parent_rel_def map_group_def)

lemma map_g_id_map_group: "g_id g' = i \<Longrightarrow> map g_id (map_group i (\<lambda>_. g') gs) = map g_id gs"
  by (auto simp: map_group_def)

lemma update_group_by_id_Inr:
  assumes "update_group_by_id now i form db = Inr (db', g', affected)"
  shows "\<exists>g \<in> set (db_groups db). g_id g = i \<and> g_id g' = i \<and>
    db' = db\<lparr>db_groups := map_group i (\<lambda>_. g') (db_groups db)\<rparr> \<and>
    (if gf_parent_set form
     then g_parent_group_id g' = gf_parent_group_id form \<and>
       validate_parent (db_groups db) (Some i) (gf_parent_group_id form) = Inr ()
     else g_parent_group_id g' = g_parent_group_id g)"
proof (cases "find (\<lambda>g. g_id g = i) (db_groups db)")
  case (Some g)
  with find_Some [OF Some] assms show ?thesis
    by (intro bexI [of _ g]) (auto simp: update_group_by_id_def Let_def bind_result_Inr_iff)
qed (use assms in \<open>simp add: update_group_by_id_def\<close>)

lemma update_group_by_id_inv:
  assumes inv: "hierarchy_inv db" and ok: "update_group_by_id now i form db = Inr (db', g', affected)"
  shows "hierarchy_inv db'"
proof -
  from update_group_by_id_Inr [OF ok] obtain g where
    g: "g \<in> set (db_groups db)" "g_id g = i" "g_id g' = i"
    and db': "db' = db\<lparr>db_groups := map_group i (\<lambda>_. g') (db_groups db)\<rparr>"
    and parent: "if gf_parent_set form
     then g_parent_group_id g' = gf_parent_group_id form \<and>
       validate_parent (db_groups db) (Some i) (gf_parent_group_id form) = Inr ()
     else g_parent_group_id g' = g_parent_group_id g"
    by blast
  let ?R = "parent_rel (db_groups db)"
  have ids: "map g_id (map_group i (\<lambda>_. g') (db_groups db)) = map g_id (db_groups db)"
    using g(3) by (rule map_g_id_map_group)
  then have idset: "g_id ` set (map_group i (\<lambda>_. g') (db_groups db)) = g_id ` set (db_groups db)"
    unfolding set_map [symmetric] by simp
  obtain R' where R': "parent_rel (map_group i (\<lambda>_. g') (db_groups db)) \<subseteq> R'"
    "acyclic R'" "Range R' \<subseteq> g_id ` set (db_groups db)"
  proof (cases "gf_parent_set form \<and> g_parent_group_id g' \<noteq> None")
    case True
    then obtain p where p: "g_parent_group_id g' = Some p" "gf_parent_group_id form = Some p" using parent by auto
    from parent True p have "p \<in> g_id ` set (db_groups db)" "(p, i) \<notin> ?R\<^sup>*"
      by (auto dest: validate_parent_Inr)
    with hierarchy_invD(2,4) [OF inv] have "acyclic (insert (i, p) ?R)"
      "Range (insert (i, p) ?R) \<subseteq> g_id ` set (db_groups db)" by (auto simp: acyclic_insert)
    moreover have "parent_rel (map_group i (\<lambda>_. g') (db_groups db)) \<subseteq> insert (i, p) ?R"
      using parent_rel_map_group [OF g(3), of "db_groups db"] p by auto
    ultimately show ?thesis by (rule that [rotated])
  next
    case False
    then have "(i, p) \<in> ?R" if "g_parent_group_id g' = Some p" for p
      using that parent g by (auto simp: parent_rel_def split: if_splits)
    then have "parent_rel (map_group i (\<lambda>_. g') (db_groups db)) \<subseteq> ?R"
      using parent_rel_map_group [OF g(3), of "db_groups db"] by blast
    then show ?thesis using hierarchy_invD(4,2) [OF inv] by (rule that)
  qed
  have "acyclic (parent_rel (map_group i (\<lambda>_. g') (db_groups db)))"
    using R'(1,2) by (blast intro: acyclic_subset)
  moreover have "Range (parent_rel (map_group i (\<lambda>_. g') (db_groups db))) \<subseteq> g_id ` set (db_groups db)"
    using R'(1,3) by blast
  ultimately show ?thesis
    using hierarchy_invD(1,3) [OF inv] ids idset by (simp add: hierarchy_inv_def db')
qed

text \<open>Deleting a group splices it out of the parent relation.\<close>

definition spliced :: "(string \<times> string) set \<Rightarrow> string \<Rightarrow> (string \<times> string) set" where
  "spliced R i = {(x, y) \<in> R. x \<noteq> i \<and> y \<noteq> i} \<union> {(x, y). x \<noteq> i \<and> (x, i) \<in> R \<and> (i, y) \<in> R}"

lemma spliced_trancl: "spliced R i \<subseteq> R\<^sup>+"
  by (auto simp: spliced_def intro: trancl.intros)

lemma acyclic_spliced: "acyclic R \<Longrightarrow> acyclic (spliced R i)"
  using acyclic_subset [OF _ spliced_trancl] by (simp add: acyclic_def)

lemma rtrancl_spliced:
  assumes "acyclic R" and "single_valued R" and "x \<noteq> i" and "y \<noteq> i"
  shows "(x, y) \<in> (spliced R i)\<^sup>* \<longleftrightarrow> (x, y) \<in> R\<^sup>*"
proof
  have "(spliced R i)\<^sup>* \<subseteq> (R\<^sup>+)\<^sup>*" by (rule rtrancl_mono [OF spliced_trancl])
  then show "(x, y) \<in> (spliced R i)\<^sup>* \<Longrightarrow> (x, y) \<in> R\<^sup>*" by auto
next
  assume "(x, y) \<in> R\<^sup>*"
  then have "if x = i then \<exists>p. (i, p) \<in> R \<and> (p, y) \<in> (spliced R i)\<^sup>* else (x, y) \<in> (spliced R i)\<^sup>*"
  proof (induction rule: converse_rtrancl_induct)
    case base
    then show ?case using assms(4) by simp
  next
    case (step a b)
    have irrefl: "(z, z) \<notin> R" for z using assms(1) by (auto simp: acyclic_def)
    show ?case
    proof (cases "a = i")
      case True
      with step irrefl show ?thesis by (auto split: if_splits)
    next
      case a: False
      show ?thesis
      proof (cases "b = i")
        case True
        with step.IH obtain p where "(i, p) \<in> R" "(p, y) \<in> (spliced R i)\<^sup>*" by auto
        moreover from this step.hyps(1) True a have "(a, p) \<in> spliced R i" by (simp add: spliced_def)
        ultimately show ?thesis using a by (auto intro: converse_rtrancl_into_rtrancl)
      next
        case False
        with step.hyps(1) a have "(a, b) \<in> spliced R i" by (simp add: spliced_def)
        with step.IH False a show ?thesis by (auto intro: converse_rtrancl_into_rtrancl)
      qed
    qed
  qed
  with assms(3) show "(x, y) \<in> (spliced R i)\<^sup>*" by simp
qed

lemma single_valued_parent_rel: "distinct (map g_id gs) \<Longrightarrow> single_valued (parent_rel gs)"
  by (auto simp: single_valued_def parent_rel_def distinct_map inj_on_def)

lemma delete_group_by_id_Inr:
  assumes "delete_group_by_id now i db = Inr (db', affected)"
  shows "\<exists>grp \<in> set (db_groups db). g_id grp = i \<and>
    db' = db\<lparr>db_groups := filter (\<lambda>g. g_id g \<noteq> i)
             (map (\<lambda>g. if g_parent_group_id g = Some i
                then g\<lparr>g_parent_group_id := g_parent_group_id grp, g_updated_at := now\<rparr> else g) (db_groups db)),
          db_members := filter (\<lambda>m. gm_group_id m \<noteq> i) (db_members db),
          db_grants := filter (\<lambda>a. \<not> (ag_principal_type a = ''group'' \<and> ag_principal_id a = i)) (db_grants db)\<rparr> \<and>
    affected = map snd (group_user_memberships db [i] True)"
proof (cases "find (\<lambda>g. g_id g = i) (db_groups db)")
  case (Some g)
  with find_Some [OF Some] assms show ?thesis
    by (intro bexI [of _ g]) (auto simp: delete_group_by_id_def Let_def)
qed (use assms in \<open>simp add: delete_group_by_id_def\<close>)

lemma in_parent_rel: "(x, y) \<in> parent_rel gs \<longleftrightarrow> (\<exists>g \<in> set gs. g_id g = x \<and> g_parent_group_id g = Some y)"
  by (auto simp: parent_rel_def)

lemma bex_filter_map: "(\<exists>x \<in> set (filter P (map f xs)). Q x) \<longleftrightarrow> (\<exists>x \<in> set xs. P (f x) \<and> Q (f x))"
  by auto

lemma parent_rel_promoted:
  assumes "grp \<in> set gs" and "distinct (map g_id gs)" and "(g_id grp, g_id grp) \<notin> parent_rel gs"
  shows "parent_rel (filter (\<lambda>g. g_id g \<noteq> g_id grp)
           (map (\<lambda>g. if g_parent_group_id g = Some (g_id grp)
              then g\<lparr>g_parent_group_id := g_parent_group_id grp, g_updated_at := now\<rparr> else g) gs))
       = spliced (parent_rel gs) (g_id grp)" (is "?L = ?R")
proof (rule set_eqI)
  fix e :: "string \<times> string"
  obtain x y where e: "e = (x, y)" by (cases e)
  let ?i = "g_id grp"
  have out: "(?i, y) \<in> parent_rel gs \<longleftrightarrow> g_parent_group_id grp = Some y" for y
    using assms(1,2) by (auto simp: parent_rel_def distinct_map inj_on_def)
  have "(x, y) \<in> ?L \<longleftrightarrow> x \<noteq> ?i \<and> (\<exists>g \<in> set gs. g_id g = x \<and>
      (if g_parent_group_id g = Some ?i then g_parent_group_id grp = Some y else g_parent_group_id g = Some y))"
    unfolding in_parent_rel bex_filter_map by auto
  also have "\<dots> \<longleftrightarrow> x \<noteq> ?i \<and> ((x, ?i) \<in> parent_rel gs \<and> (?i, y) \<in> parent_rel gs \<or> (x, y) \<in> parent_rel gs \<and> y \<noteq> ?i)"
    unfolding out by (auto simp: parent_rel_def)
  finally show "e \<in> ?L \<longleftrightarrow> e \<in> ?R" by (auto simp: e spliced_def)
qed

lemma delete_group_by_id_parent_rel:
  assumes inv: "hierarchy_inv db" and ok: "delete_group_by_id now i db = Inr (db', affected)"
  shows "parent_rel (db_groups db') = spliced (parent_rel (db_groups db)) i"
    and "g_id ` set (db_groups db') = g_id ` set (db_groups db) - {i}"
    and "map g_id (db_groups db') = filter (\<lambda>x. x \<noteq> i) (map g_id (db_groups db))"
    and "db_members db' = filter (\<lambda>m. gm_group_id m \<noteq> i) (db_members db)"
proof -
  from delete_group_by_id_Inr [OF ok] obtain grp where grp: "grp \<in> set (db_groups db)" "i = g_id grp"
    and db': "db' = db\<lparr>db_groups := filter (\<lambda>g. g_id g \<noteq> i)
             (map (\<lambda>g. if g_parent_group_id g = Some i
                then g\<lparr>g_parent_group_id := g_parent_group_id grp, g_updated_at := now\<rparr> else g) (db_groups db)),
          db_members := filter (\<lambda>m. gm_group_id m \<noteq> i) (db_members db),
          db_grants := filter (\<lambda>a. \<not> (ag_principal_type a = ''group'' \<and> ag_principal_id a = i)) (db_grants db)\<rparr>"
    by blast
  have "(g_id grp, g_id grp) \<notin> parent_rel (db_groups db)"
    using hierarchy_invD(4) [OF inv] by (auto simp: acyclic_def)
  from parent_rel_promoted [OF grp(1) hierarchy_invD(1) [OF inv] this]
  show "parent_rel (db_groups db') = spliced (parent_rel (db_groups db)) i" by (simp add: db' grp(2))
  show ids: "map g_id (db_groups db') = filter (\<lambda>x. x \<noteq> i) (map g_id (db_groups db))"
    by (simp add: db' filter_map comp_def if_distrib cong: if_cong)
  from arg_cong [OF ids, of set] show "g_id ` set (db_groups db') = g_id ` set (db_groups db) - {i}"
    by auto
  show "db_members db' = filter (\<lambda>m. gm_group_id m \<noteq> i) (db_members db)" by (simp add: db')
qed

lemma delete_group_by_id_inv:
  assumes inv: "hierarchy_inv db" and ok: "delete_group_by_id now i db = Inr (db', affected)"
  shows "hierarchy_inv db'"
proof -
  note eqs = delete_group_by_id_parent_rel [OF inv ok]
  have "Range (parent_rel (db_groups db')) \<subseteq> Range (parent_rel (db_groups db)) - {i}"
    unfolding eqs(1) using hierarchy_invD(4) [OF inv] by (auto simp: spliced_def acyclic_def)
  then have "Range (parent_rel (db_groups db')) \<subseteq> g_id ` set (db_groups db')"
    unfolding eqs(2) using hierarchy_invD(2) [OF inv] by blast
  moreover have "gm_group_id ` set (db_members db') \<subseteq> g_id ` set (db_groups db')"
    unfolding eqs(2,4) using hierarchy_invD(3) [OF inv] by auto
  moreover have "distinct (map g_id (db_groups db'))"
    unfolding eqs(3) using hierarchy_invD(1) [OF inv] by simp
  moreover have "acyclic (parent_rel (db_groups db'))"
    unfolding eqs(1) using hierarchy_invD(4) [OF inv] by (rule acyclic_spliced)
  ultimately show ?thesis by (simp add: hierarchy_inv_def)
qed

subsection \<open>Members\<close>

lemma gm_pair_mk_members:
  "map (\<lambda>m. (gm_group_id m, gm_user_id m)) (mk_members uuid now pairs) = pairs"
  by (rule nth_equalityI) (auto simp: mk_members_def case_prod_unfold nth_enumerate_eq)

lemma gm_pairs_mk_members:
  "(\<lambda>m. (gm_group_id m, gm_user_id m)) ` set (mk_members uuid now pairs) = set pairs"
  unfolding set_map [symmetric] gm_pair_mk_members ..

lemma in_members_of:
  "u \<in> set (members_of db gid) \<longleftrightarrow> (gid, u) \<in> (\<lambda>m. (gm_group_id m, gm_user_id m)) ` set (db_members db)"
  by (auto simp: members_of_def)

lemma gm_group_ids: "gm_group_id ` set ms = fst ` (\<lambda>m. (gm_group_id m, gm_user_id m)) ` set ms"
  by (simp add: image_image)

lemma set_diff_list [simp]: "set (diff_list a b) = set a - set b"
  by (auto simp: diff_list_def)

lemma set_symdiff_list [simp]: "set (symdiff_list a b) = (set a - set b) \<union> (set b - set a)"
  by (auto simp: symdiff_list_def)

text \<open>What a change of the members does to the pairs \<open>(group, user)\<close>.\<close>

abbreviation member_pairs :: "group_db \<Rightarrow> (string \<times> string) set" where
  "member_pairs db \<equiv> (\<lambda>m. (gm_group_id m, gm_user_id m)) ` set (db_members db)"

lemma pairs_of_members: "member_pairs db = {(g, u). u \<in> set (members_of db g)}"
  by (auto simp: in_members_of)

lemma pairs_of_groups: "member_pairs db = {(g, u). g \<in> set (groups_of db u)}"
  by (auto simp: pairs_of_members members_groups_of)

lemma pairs_filter:
  "(\<lambda>m. (gm_group_id m, gm_user_id m)) ` set (filter (\<lambda>m. P (gm_group_id m) (gm_user_id m)) ms)
     = {p \<in> (\<lambda>m. (gm_group_id m, gm_user_id m)) ` set ms. P (fst p) (snd p)}"
  by auto

lemma set_group_user_ids_by_id_pairs:
  assumes "set_group_user_ids_by_id uuid now gid uids db = Inr (db', refreshed)"
  shows "member_pairs db' = {p \<in> member_pairs db. fst p \<noteq> gid} \<union> {gid} \<times> set uids"
    and "set refreshed = {u. (gid, u) \<in> member_pairs db} - set uids \<union> (set uids - {u. (gid, u) \<in> member_pairs db})"
    and "parent_rel (db_groups db') = parent_rel (db_groups db)" "map g_id (db_groups db') = map g_id (db_groups db)"
    and "gid \<in> g_id ` set (db_groups db)"
proof -
  let ?kept = "filter (\<lambda>m. \<not> (gm_group_id m = gid \<and> gm_user_id m \<in> set (members_of db gid) - set uids)) (db_members db)"
  let ?added = "map (\<lambda>u. (gid, u)) (diff_list uids (members_of db gid))"
  from assms have db': "db' = db\<lparr>db_members := ?kept @ mk_members uuid now ?added,
      db_groups := touch_groups now (\<lambda>i. i = gid) (db_groups db)\<rparr>"
    and r: "refreshed = symdiff_list (members_of db gid) uids"
    and g: "gid \<in> g_id ` set (db_groups db)"
    by (auto simp: set_group_user_ids_by_id_def Let_def split: if_splits)
  then have mem: "db_members db' = ?kept @ mk_members uuid now ?added" by simp
  have "member_pairs db' = {p \<in> member_pairs db. \<not> (fst p = gid \<and> snd p \<in> set (members_of db gid) - set uids)} \<union> set ?added"
    using pairs_filter [of "\<lambda>g u. \<not> (g = gid \<and> u \<in> set (members_of db gid) - set uids)" "db_members db"]
    by (simp only: mem set_append image_Un gm_pairs_mk_members)
  then show "member_pairs db' = {p \<in> member_pairs db. fst p \<noteq> gid} \<union> {gid} \<times> set uids"
    unfolding pairs_of_members by auto
  show "set refreshed = {u. (gid, u) \<in> member_pairs db} - set uids \<union> (set uids - {u. (gid, u) \<in> member_pairs db})"
    unfolding r pairs_of_members by simp
  show "parent_rel (db_groups db') = parent_rel (db_groups db)" "map g_id (db_groups db') = map g_id (db_groups db)"
    by (simp_all add: db')
  show "gid \<in> g_id ` set (db_groups db)" by (rule g)
qed

lemma add_users_to_group_pairs:
  assumes "add_users_to_group uuid now gid uids db = Inr (db', refreshed)"
  shows "member_pairs db' = member_pairs db \<union> {gid} \<times> set uids"
    and "parent_rel (db_groups db') = parent_rel (db_groups db)" "map g_id (db_groups db') = map g_id (db_groups db)"
    and "gid \<in> g_id ` set (db_groups db)"
proof -
  let ?added = "map (\<lambda>u. (gid, u)) (diff_list uids (members_of db gid))"
  from assms have db': "db' = db\<lparr>db_members := db_members db @ mk_members uuid now ?added,
      db_groups := touch_groups now (\<lambda>i. i = gid) (db_groups db)\<rparr>"
    and g: "gid \<in> g_id ` set (db_groups db)"
    by (auto simp: add_users_to_group_def Let_def split: if_splits)
  have "member_pairs db' = member_pairs db \<union> set ?added"
    by (simp add: db' image_Un gm_pairs_mk_members)
  then show "member_pairs db' = member_pairs db \<union> {gid} \<times> set uids"
    unfolding pairs_of_members by auto
  show "parent_rel (db_groups db') = parent_rel (db_groups db)" "map g_id (db_groups db') = map g_id (db_groups db)"
    by (simp_all add: db')
  show "gid \<in> g_id ` set (db_groups db)" by (rule g)
qed

lemma remove_users_from_group_pairs:
  assumes "remove_users_from_group now gid uids db = Inr (db', refreshed)"
  shows "member_pairs db' = member_pairs db - {gid} \<times> set uids"
    and "parent_rel (db_groups db') = parent_rel (db_groups db)" "map g_id (db_groups db') = map g_id (db_groups db)"
proof -
  let ?db = "db\<lparr>db_members := filter (\<lambda>m. \<not> (gm_group_id m = gid \<and>
        gm_user_id m \<in> set (filter (\<lambda>u. u \<in> set uids) (members_of db gid)))) (db_members db),
      db_groups := touch_groups now (\<lambda>i. i = gid) (db_groups db)\<rparr>"
  from assms have "gid \<in> g_id ` set (db_groups db)"
    by (auto simp: remove_users_from_group_def split: if_splits)
  then have "remove_users_from_group now gid uids db = Inr (?db, filter (\<lambda>u. u \<in> set uids) (members_of db gid))"
    unfolding remove_users_from_group_def Let_def by (intro if_not_P) simp
  from this [unfolded assms sum.inject prod.inject] have db': "db' = ?db" by (rule conjunct1)
  then show "member_pairs db' = member_pairs db - {gid} \<times> set uids"
    by (auto simp: in_members_of)
  show "parent_rel (db_groups db') = parent_rel (db_groups db)" "map g_id (db_groups db') = map g_id (db_groups db)"
    by (simp_all add: db')
qed

lemma remove_user_from_all_groups_pairs:
  assumes "remove_user_from_all_groups now uid db = (db', refreshed)"
  shows "member_pairs db' = {p \<in> member_pairs db. snd p \<noteq> uid}"
    and "parent_rel (db_groups db') = parent_rel (db_groups db)" "map g_id (db_groups db') = map g_id (db_groups db)"
  using assms by (auto simp: remove_user_from_all_groups_def)

lemma sync_groups_pairs:
  assumes "sync_groups_by_group_names uuid now uid names db = (db', refreshed)"
  shows "member_pairs db' = {p \<in> member_pairs db. snd p \<noteq> uid} \<union>
           {g_id g | g. g \<in> set (db_groups db) \<and> g_name g \<in> set names} \<times> {uid}"
    and "parent_rel (db_groups db') = parent_rel (db_groups db)" "map g_id (db_groups db') = map g_id (db_groups db)"
proof -
  let ?target = "map g_id (filter (\<lambda>g. g_name g \<in> set names) (db_groups db))"
  let ?kept = "filter (\<lambda>m. \<not> (gm_user_id m = uid \<and> gm_group_id m \<in> set (groups_of db uid) - set ?target)) (db_members db)"
  let ?added = "map (\<lambda>g. (g, uid)) (diff_list ?target (groups_of db uid))"
  from assms have db': "db' = db\<lparr>db_members := ?kept @ mk_members uuid now ?added,
      db_groups := touch_groups now (\<lambda>i. i \<in> set (symdiff_list (groups_of db uid) ?target)) (db_groups db)\<rparr>"
    by (auto simp: sync_groups_by_group_names_def Let_def)
  then have mem: "db_members db' = ?kept @ mk_members uuid now ?added" by simp
  have "member_pairs db' = {p \<in> member_pairs db. \<not> (snd p = uid \<and> fst p \<in> set (groups_of db uid) - set ?target)} \<union> set ?added"
    using pairs_filter [of "\<lambda>g u. \<not> (u = uid \<and> g \<in> set (groups_of db uid) - set ?target)" "db_members db"]
    by (simp only: mem set_append image_Un gm_pairs_mk_members)
  then show "member_pairs db' = {p \<in> member_pairs db. snd p \<noteq> uid} \<union>
           {g_id g | g. g \<in> set (db_groups db) \<and> g_name g \<in> set names} \<times> {uid}"
    unfolding pairs_of_groups by auto
  show "parent_rel (db_groups db') = parent_rel (db_groups db)" "map g_id (db_groups db') = map g_id (db_groups db)"
    by (simp_all add: db')
qed

lemma fst_image_subset: "A \<subseteq> B \<union> {p. fst p \<in> C} \<Longrightarrow> fst ` A \<subseteq> fst ` B \<union> C"
  by blast

lemma hierarchy_inv_members:
  assumes "hierarchy_inv db" and "parent_rel (db_groups db') = parent_rel (db_groups db)"
    and ids: "map g_id (db_groups db') = map g_id (db_groups db)"
    and "member_pairs db' \<subseteq> member_pairs db \<union> {p. fst p \<in> g_id ` set (db_groups db)}"
  shows "hierarchy_inv db'"
proof -
  have idset: "g_id ` set (db_groups db') = g_id ` set (db_groups db)"
    unfolding set_map [symmetric] ids ..
  have "gm_group_id ` set (db_members db') \<subseteq> gm_group_id ` set (db_members db) \<union> g_id ` set (db_groups db)"
    unfolding gm_group_ids using assms(4) by (rule fst_image_subset)
  also have "\<dots> \<subseteq> g_id ` set (db_groups db')"
    using hierarchy_invD(3) [OF assms(1)] unfolding idset by blast
  finally show ?thesis using assms(1,2) ids by (simp add: hierarchy_inv_def idset)
qed

lemma create_groups_inv:
  "hierarchy_inv db \<Longrightarrow> hierarchy_inv (fst (create_groups share uuid n now u ex names db))"
proof (induction share uuid n now u ex names db rule: create_groups.induct)
  case (2 share uuid n now u ex name names db)
  have "hierarchy_inv (db\<lparr>db_groups := db_groups db @ [g]\<rparr>)"
    if "g_id g \<notin> g_id ` set (db_groups db)" "g_parent_group_id g = None" for g
    using "2.prems" that by (auto simp: hierarchy_inv_def parent_rel_single)
  with 2 show ?case by (simp add: Let_def case_prod_unfold)
qed simp

subsection \<open>All histories\<close>

text \<open>One operation of the table, whatever its arguments.\<close>

inductive hierarchy_step :: "group_db \<Rightarrow> group_db \<Rightarrow> bool" where
  insert_new: "insert_new_group share uuid now u form db = Inr (db', g) \<Longrightarrow> hierarchy_step db db'"
| update: "update_group_by_id now i form db = Inr (db', g, affected) \<Longrightarrow> hierarchy_step db db'"
| delete: "delete_group_by_id now i db = Inr (db', affected) \<Longrightarrow> hierarchy_step db db'"
| delete_all: "delete_all_groups db = (db', affected) \<Longrightarrow> hierarchy_step db db'"
| set_users: "set_group_user_ids_by_id supply_uuid now gid uids db = Inr (db', affected) \<Longrightarrow> hierarchy_step db db'"
| add_users: "add_users_to_group supply_uuid now gid uids db = Inr (db', affected) \<Longrightarrow> hierarchy_step db db'"
| remove_users: "remove_users_from_group now gid uids db = Inr (db', affected) \<Longrightarrow> hierarchy_step db db'"
| remove_user: "remove_user_from_all_groups now uid db = (db', affected) \<Longrightarrow> hierarchy_step db db'"
| sync: "sync_groups_by_group_names supply_uuid now uid names db = (db', affected) \<Longrightarrow> hierarchy_step db db'"
| create: "create_groups_by_group_names share supply_uuid now u names db = (db', gs) \<Longrightarrow> hierarchy_step db db'"

inductive hierarchy_reachable :: "group_db \<Rightarrow> bool" where
  start: "hierarchy_reachable \<lparr>db_groups = [], db_members = [], db_grants = gs\<rparr>"
| step: "hierarchy_reachable db \<Longrightarrow> hierarchy_step db db' \<Longrightarrow> hierarchy_reachable db'"

lemma hierarchy_step_inv: "hierarchy_step db db' \<Longrightarrow> hierarchy_inv db \<Longrightarrow> hierarchy_inv db'"
proof (induction rule: hierarchy_step.induct)
  case insert_new
  then show ?case by (blast intro: insert_new_group_inv)
next
  case update
  then show ?case by (blast intro: update_group_by_id_inv)
next
  case delete
  then show ?case by (blast intro: delete_group_by_id_inv)
next
  case delete_all
  then show ?case by (auto simp: delete_all_groups_def hierarchy_inv_def parent_rel_def acyclic_def)
next
  case set_users
  note pairs = set_group_user_ids_by_id_pairs [OF set_users(1)]
  show ?case by (rule hierarchy_inv_members [OF set_users(2) pairs(3,4)]) (use pairs(1,5) in auto)
next
  case add_users
  note pairs = add_users_to_group_pairs [OF add_users(1)]
  show ?case by (rule hierarchy_inv_members [OF add_users(2) pairs(2,3)]) (use pairs(1,4) in auto)
next
  case remove_users
  note pairs = remove_users_from_group_pairs [OF remove_users(1)]
  show ?case by (rule hierarchy_inv_members [OF remove_users(2) pairs(2,3)]) (use pairs(1) in auto)
next
  case remove_user
  note pairs = remove_user_from_all_groups_pairs [OF remove_user(1)]
  show ?case by (rule hierarchy_inv_members [OF remove_user(2) pairs(2,3)]) (use pairs(1) in auto)
next
  case sync
  note pairs = sync_groups_pairs [OF sync(1)]
  show ?case by (rule hierarchy_inv_members [OF sync(2) pairs(2,3)]) (use pairs(1) in auto)
next
  case create
  then show ?case
    using create_groups_inv by (metis create_groups_by_group_names_def fst_conv)
qed

lemma hierarchy_reachable_inv: "hierarchy_reachable db \<Longrightarrow> hierarchy_inv db"
proof (induction rule: hierarchy_reachable.induct)
  case start
  then show ?case by (simp add: hierarchy_inv_def parent_rel_def acyclic_def)
qed (rule hierarchy_step_inv)

end
