(* ===== verification/Access_Query.thy ===== *)
theory Access_Query
  imports User_Groups
begin

text \<open>
  The access checks of \<^verbatim>\<open>models/access_grants.py\<close>: whether a user may act on a resource, which
  resources of a list a user may act on, which users may act on a resource and which lost that
  right, and the query filters that restrict a listing to what a user may see. The checks go from
  a user to the user's groups, the listings of users from the groups to their members; the locale
  \<open>membership\<close> of \<^verbatim>\<open>User_Groups\<close> is what makes the two agree.
\<close>

subsection \<open>Users\<close>

record user_row =
  u_id :: string
  u_name :: string
  u_email :: string
  u_role :: string

text \<open>The roles filter of \<open>Users.get_users\<close>: roles to include, and roles to exclude after a \<open>!\<close>.\<close>

definition get_users_by_roles :: "user_row list \<Rightarrow> string list \<Rightarrow> user_row list" where
  "get_users_by_roles users roles =
     (if roles = [] then users
      else
        (let include_roles = filter (\<lambda>r. take 1 r \<noteq> ''!'') roles;
             exclude_roles = map (drop 1) (filter (\<lambda>r. take 1 r = ''!'') roles);
             kept = (if include_roles = [] then users else filter (\<lambda>u. u_role u \<in> set include_roles) users)
         in if exclude_roles = [] then kept else filter (\<lambda>u. u_role u \<notin> set exclude_roles) kept))"

definition get_users_by_user_ids :: "user_row list \<Rightarrow> string list \<Rightarrow> user_row list" where
  "get_users_by_user_ids users ids = filter (\<lambda>u. u_id u \<in> set ids) users"

subsection \<open>Checks for one user\<close>

text \<open>The ids \<open>user_group_ids\<close>, looked up when the caller passes None.\<close>

definition resolve_group_ids :: "group_db \<Rightarrow> string \<Rightarrow> string list option \<Rightarrow> string list" where
  "resolve_group_ids db user_id user_group_ids =
     (case user_group_ids of
        None \<Rightarrow> map g_id (get_groups_by_member_id db user_id True)
      | Some ids \<Rightarrow> ids)"

text \<open>The disjunction \<open>or_(*conditions)\<close>.\<close>

definition principal_matches :: "string \<Rightarrow> string list \<Rightarrow> access_grant \<Rightarrow> bool" where
  "principal_matches user_id group_ids g \<longleftrightarrow>
     (ag_principal_type g = ''user'' \<and> ag_principal_id g = ''*'') \<or>
     (ag_principal_type g = ''user'' \<and> ag_principal_id g = user_id) \<or>
     (group_ids \<noteq> [] \<and> ag_principal_type g = ''group'' \<and> ag_principal_id g \<in> set group_ids)"

definition grants_has_access ::
  "group_db \<Rightarrow> string \<Rightarrow> string \<Rightarrow> string \<Rightarrow> string \<Rightarrow> string list option \<Rightarrow> bool" where
  "grants_has_access db user_id resource_type resource_id permission user_group_ids =
     (let group_ids = resolve_group_ids db user_id user_group_ids
      in find (\<lambda>g. ag_resource_type g = resource_type \<and> ag_resource_id g = resource_id \<and>
                 ag_permission g = permission \<and> principal_matches user_id group_ids g) (db_grants db) \<noteq> None)"

definition get_accessible_resource_ids ::
  "group_db \<Rightarrow> string \<Rightarrow> string \<Rightarrow> string list \<Rightarrow> string \<Rightarrow> string list option \<Rightarrow> string set" where
  "get_accessible_resource_ids db user_id resource_type resource_ids permission user_group_ids =
     (if resource_ids = [] then {}
      else
        (let group_ids = resolve_group_ids db user_id user_group_ids
         in set (map ag_resource_id
              (filter (\<lambda>g. ag_resource_type g = resource_type \<and> ag_resource_id g \<in> set resource_ids \<and>
                 ag_permission g = permission \<and> principal_matches user_id group_ids g) (db_grants db)))))"

subsection \<open>Users with access\<close>

text \<open>
  The loop over the grants: \<open>Inl\<close> when it returns early at a public grant, otherwise the user
  ids and the group ids it collected.
\<close>

fun collect_principals :: "string \<Rightarrow> access_grant list \<Rightarrow> string set \<Rightarrow> string list \<Rightarrow> unit + (string set \<times> string list)" where
  "collect_principals permission [] user_ids group_ids = Inr (user_ids, group_ids)"
| "collect_principals permission (grant # gs) user_ids group_ids =
     (if ag_permission grant \<noteq> permission then collect_principals permission gs user_ids group_ids
      else if ag_principal_type grant = PRINCIPAL_TYPE_USER then
        (if ag_principal_id grant = WILDCARD_PRINCIPAL_ID then Inl ()
         else collect_principals permission gs (insert (ag_principal_id grant) user_ids) group_ids)
      else if ag_principal_type grant = PRINCIPAL_TYPE_GROUP then
        collect_principals permission gs user_ids (group_ids @ [ag_principal_id grant])
      else collect_principals permission gs user_ids group_ids)"

definition get_user_ids_by_access_grants ::
  "group_db \<Rightarrow> user_row list \<Rightarrow> access_grant list \<Rightarrow> string \<Rightarrow> string set" where
  "get_user_ids_by_access_grants db users access_grants permission =
     (case collect_principals permission access_grants {} [] of
        Inl _ \<Rightarrow> set (map u_id (get_users_by_roles users [''!pending'']))
      | Inr (user_ids, group_ids) \<Rightarrow>
          (if group_ids = [] then user_ids
           else user_ids \<union> \<Union> (set (map (set \<circ> snd) (get_group_user_ids_by_ids db group_ids True)))))"

definition get_users_with_access ::
  "group_db \<Rightarrow> user_row list \<Rightarrow> string \<Rightarrow> string \<Rightarrow> string \<Rightarrow> user_row list" where
  "get_users_with_access db users resource_type resource_id permission =
     (let grants = filter (\<lambda>g. of_resource resource_type resource_id g \<and> ag_permission g = permission) (db_grants db);
          ids = get_user_ids_by_access_grants db users grants permission
      in if ids = {} then [] else filter (\<lambda>u. u_id u \<in> ids) users)"

definition principal_set :: "string \<Rightarrow> access_grant list \<Rightarrow> (string \<times> string) set" where
  "principal_set permission gs =
     set (map (\<lambda>g. (ag_principal_type g, ag_principal_id g)) (filter (\<lambda>g. ag_permission g = permission) gs))"

definition get_revoked_user_ids_by_resource ::
  "group_db \<Rightarrow> user_row list \<Rightarrow> string \<Rightarrow> string \<Rightarrow> access_grant list \<Rightarrow> string \<Rightarrow> string set" where
  "get_revoked_user_ids_by_resource db users resource_type resource_id previous permission =
     (let access_grants = get_grants_by_resource resource_type resource_id (db_grants db);
          previous_principals = principal_set permission previous;
          principals = principal_set permission access_grants
      in if previous_principals \<subseteq> principals \<or> (PRINCIPAL_TYPE_USER, WILDCARD_PRINCIPAL_ID) \<in> principals then {}
         else get_user_ids_by_access_grants db users previous permission
            - get_user_ids_by_access_grants db users access_grants permission)"

subsection \<open>Query filters\<close>

text \<open>The subquery \<open>grant_exists\<close> for one document, with the optional user and group conditions.\<close>

definition grant_exists ::
  "access_grant list \<Rightarrow> string \<Rightarrow> string \<Rightarrow> string \<Rightarrow> string \<Rightarrow> string list \<Rightarrow> bool" where
  "grant_exists t resource_type permission user_id doc_id group_ids =
     list_ex (\<lambda>g. ag_resource_type g = resource_type \<and> ag_resource_id g = doc_id \<and> ag_permission g = permission \<and>
       ((ag_principal_type g = ''user'' \<and> ag_principal_id g = ''*'') \<or>
        (user_id \<noteq> [] \<and> ag_principal_type g = ''user'' \<and> ag_principal_id g = user_id) \<or>
        (group_ids \<noteq> [] \<and> ag_principal_type g = ''group'' \<and> ag_principal_id g \<in> set group_ids))) t"

text \<open>
  The filters keep the documents of a query's result. A document has an id and an owner; the
  filter's \<open>user_id\<close> is empty when it is missing.
\<close>

definition has_read_only_permission_filter ::
  "access_grant list \<Rightarrow> ('d \<Rightarrow> string) \<Rightarrow> ('d \<Rightarrow> string) \<Rightarrow> 'd list \<Rightarrow> string list \<Rightarrow> string \<Rightarrow> string \<Rightarrow> 'd list" where
  "has_read_only_permission_filter t doc_id doc_user query group_ids user_id resource_type =
     filter (\<lambda>d. grant_exists t resource_type ''read'' user_id (doc_id d) group_ids \<and>
               \<not> grant_exists t resource_type ''write'' user_id (doc_id d) group_ids \<and>
               (user_id \<noteq> [] \<longrightarrow> doc_user d \<noteq> user_id)) query"

definition has_permission_filter ::
  "access_grant list \<Rightarrow> ('d \<Rightarrow> string) \<Rightarrow> ('d \<Rightarrow> string) \<Rightarrow> 'd list \<Rightarrow> string list \<Rightarrow> string \<Rightarrow> string \<Rightarrow> string \<Rightarrow> 'd list" where
  "has_permission_filter t doc_id doc_user query group_ids user_id resource_type permission =
     (if permission = ''read_only''
      then has_read_only_permission_filter t doc_id doc_user query group_ids user_id resource_type
      else if group_ids = [] \<and> user_id = [] then query
      else filter (\<lambda>d. grant_exists t resource_type permission user_id (doc_id d) group_ids \<or>
                     (user_id \<noteq> [] \<and> doc_user d = user_id)) query)"

subsection \<open>Lemmas\<close>

lemma set_resolve_group_ids_None: "set (resolve_group_ids db u None) = inherited_group_ids db u"
  by (simp add: resolve_group_ids_def inherited_group_ids_def)

lemma grants_has_access_iff:
  "grants_has_access db u rt rid perm gids \<longleftrightarrow>
     (\<exists>g \<in> set (db_grants db). of_resource rt rid g \<and> ag_permission g = perm \<and>
        principal_matches u (resolve_group_ids db u gids) g)"
  by (auto simp: grants_has_access_def Let_def find_None_iff of_resource_def)

lemma principal_matches_None:
  "principal_matches u (resolve_group_ids db u None) g \<longleftrightarrow>
     ag_principal_type g = ''user'' \<and> ag_principal_id g \<in> {''*'', u} \<or>
     ag_principal_type g = ''group'' \<and> ag_principal_id g \<in> inherited_group_ids db u"
  by (auto simp: principal_matches_def simp flip: set_resolve_group_ids_None)

lemma accessible_iff_has_access:
  "get_accessible_resource_ids db u rt rids perm gids
     = {rid \<in> set rids. grants_has_access db u rt rid perm gids}"
  by (auto simp: get_accessible_resource_ids_def grants_has_access_iff Let_def of_resource_def)

lemma principal_set_append [simp]: "principal_set p (gs @ hs) = principal_set p gs \<union> principal_set p hs"
  by (auto simp: principal_set_def)

lemma collect_principals_eq:
  "collect_principals perm gs us gids =
     (if (''user'', ''*'') \<in> principal_set perm gs then Inl ()
      else Inr (us \<union> {u. (''user'', u) \<in> principal_set perm gs},
                gids @ map ag_principal_id (filter (\<lambda>g. ag_permission g = perm \<and> ag_principal_type g = ''group'') gs)))"
  by (induction perm gs us gids rule: collect_principals.induct)
     (auto simp: principal_set_def py_simps image_iff)

lemma union_group_user_ids:
  "\<Union> (set (map (set \<circ> snd) (get_group_user_ids_by_ids db gids True))) = (\<Union>g \<in> set gids. inherited_user_ids db g)"
proof -
  have "set (map snd (filter (\<lambda>r. fst r = g) (group_user_memberships db gids True))) = inherited_user_ids db g"
    if "g \<in> set gids" for g
    using that
    by (auto simp: inherited_user_ids_def set_get_group_user_ids_by_id set_group_user_memberships image_iff)
  then show ?thesis by (auto simp: get_group_user_ids_by_ids_def Let_def)
qed

lemma pending_filter: "set (map u_id (get_users_by_roles users [''!pending''])) = {u_id u | u. u \<in> set users \<and> u_role u \<noteq> ''pending''}"
  by (auto simp: get_users_by_roles_def)

lemma group_principals:
  "set (map ag_principal_id (filter (\<lambda>g. ag_permission g = perm \<and> ag_principal_type g = ''group'') gs))
     = {i. (''group'', i) \<in> principal_set perm gs}"
  by (force simp: principal_set_def)

lemma user_ids_by_grants:
  "get_user_ids_by_access_grants db users gs perm =
     (if (''user'', ''*'') \<in> principal_set perm gs then {u_id u | u. u \<in> set users \<and> u_role u \<noteq> ''pending''}
      else {u. (''user'', u) \<in> principal_set perm gs} \<union>
           (\<Union>g \<in> {i. (''group'', i) \<in> principal_set perm gs}. inherited_user_ids db g))"
proof (cases "(''user'', ''*'') \<in> principal_set perm gs")
  case True
  then show ?thesis
    unfolding get_user_ids_by_access_grants_def collect_principals_eq by (simp add: pending_filter [simplified])
next
  case False
  let ?gids = "map ag_principal_id (filter (\<lambda>g. ag_permission g = perm \<and> ag_principal_type g = ''group'') gs)"
  have "get_user_ids_by_access_grants db users gs perm
      = {u. (''user'', u) \<in> principal_set perm gs} \<union> (\<Union>g \<in> set ?gids. inherited_user_ids db g)"
    using False
    unfolding get_user_ids_by_access_grants_def collect_principals_eq union_group_user_ids
    by (auto simp: filter_empty_conv)
  then show ?thesis unfolding group_principals using False by simp
qed

lemma has_access_principals:
  "grants_has_access db u rt rid perm None \<longleftrightarrow>
     (let ps = principal_set perm (get_grants_by_resource rt rid (db_grants db))
      in (''user'', ''*'') \<in> ps \<or> (''user'', u) \<in> ps \<or> (\<exists>g \<in> inherited_group_ids db u. (''group'', g) \<in> ps))"
proof -
  have in_ps: "(pt, pid) \<in> principal_set perm (get_grants_by_resource rt rid (db_grants db)) \<longleftrightarrow>
      (\<exists>g \<in> set (db_grants db). of_resource rt rid g \<and> ag_permission g = perm \<and>
         ag_principal_type g = pt \<and> ag_principal_id g = pid)" for pt pid
    by (auto simp: principal_set_def get_grants_by_resource_def image_iff)
  show ?thesis
    unfolding grants_has_access_iff principal_matches_None Let_def in_ps by blast
qed

text \<open>Without a public grant, the users found from the grants are exactly those the check admits.\<close>

lemma user_ids_iff_has_access:
  assumes "(''user'', ''*'') \<notin> principal_set perm (get_grants_by_resource rt rid (db_grants db))"
  shows "u \<in> get_user_ids_by_access_grants db users (get_grants_by_resource rt rid (db_grants db)) perm
     \<longleftrightarrow> grants_has_access db u rt rid perm None"
proof -
  let ?ps = "principal_set perm (get_grants_by_resource rt rid (db_grants db))"
  have "u \<in> (\<Union>g \<in> {i. (''group'', i) \<in> ?ps}. inherited_user_ids db g)
      \<longleftrightarrow> inherited_group_ids db u \<inter> {i. (''group'', i) \<in> ?ps} \<noteq> {}"
    by (rule hierarchy.users_of_groups)
  then show ?thesis
    unfolding user_ids_by_grants has_access_principals Let_def using assms by auto
qed

lemma revoked_iff:
  "get_revoked_user_ids_by_resource db users rt rid previous perm =
     {u \<in> get_user_ids_by_access_grants db users previous perm. \<not> grants_has_access db u rt rid perm None}"
  (is "?lhs = ?rhs")
proof -
  let ?cur = "get_grants_by_resource rt rid (db_grants db)"
  let ?ps = "principal_set perm ?cur" and ?prev = "principal_set perm previous"
  consider (public) "(''user'', ''*'') \<in> ?ps"
    | (kept) "(''user'', ''*'') \<notin> ?ps" "?prev \<subseteq> ?ps" | (lost) "(''user'', ''*'') \<notin> ?ps" "\<not> ?prev \<subseteq> ?ps"
    by blast
  then show ?thesis
  proof cases
    case public
    then have "grants_has_access db u rt rid perm None" for u by (simp add: has_access_principals)
    with public show ?thesis by (simp add: get_revoked_user_ids_by_resource_def Let_def py_simps)
  next
    case kept
    then have "u \<in> get_user_ids_by_access_grants db users ?cur perm"
      if "u \<in> get_user_ids_by_access_grants db users previous perm" for u
      using that unfolding user_ids_by_grants by (auto split: if_splits)
    then have "?rhs = {}" using user_ids_iff_has_access [OF kept(1)] by blast
    with kept show ?thesis by (simp add: get_revoked_user_ids_by_resource_def Let_def)
  next
    case lost
    then show ?thesis
      using user_ids_iff_has_access [OF lost(1)]
      by (auto simp: get_revoked_user_ids_by_resource_def Let_def py_simps)
  qed
qed

lemma grant_exists_iff:
  assumes "u \<noteq> []"
  shows "grant_exists (db_grants db) rt perm u d (resolve_group_ids db u gids)
     \<longleftrightarrow> grants_has_access db u rt d perm gids"
  using assms
  by (auto simp: grant_exists_def grants_has_access_iff principal_matches_def of_resource_def list_ex_iff)

end
