(* ===== verification/Permissions.thy ===== *)
theory Permissions
  imports Access_Query
begin

text \<open>
  The permission trees of \<^verbatim>\<open>utils/access_control/__init__.py\<close>: nested dicts whose leaves say whether
  a feature is allowed, filled up from the defaults and combined over a user's groups, and the
  lookup of a dotted key in them. \<open>DEFAULT_USER_PERMISSIONS\<close>, which the code reads from its
  configuration, is the argument \<open>dup\<close>.
\<close>

subsection \<open>Trees\<close>

function (sequential) fill_missing_permissions :: "pydict \<Rightarrow> pydict \<Rightarrow> pydict" where
  "fill_missing_permissions permissions [] = permissions"
| "fill_missing_permissions permissions ((key, value) # rest) =
     fill_missing_permissions
       (case map_of permissions key of
          None \<Rightarrow> AList.update key value permissions
        | Some old \<Rightarrow>
            (case (value, old) of
               (PDict v, PDict p) \<Rightarrow> AList.update key (PDict (fill_missing_permissions p v)) permissions
             | _ \<Rightarrow> permissions)) rest"
  by pat_completeness auto
termination
  by (relation "measure (\<lambda>(_, d). size_list (size_prod (\<lambda>_. 0) size) d)") auto

text \<open>
  \<open>combine_permissions\<close> writes into its first argument. On a value that is not a dict, reading or
  writing a key raises, so the model's first argument is any value.
\<close>

function (sequential) combine_permissions :: "py \<Rightarrow> pydict \<Rightarrow> py result" where
  "combine_permissions permissions [] = Inr permissions"
| "combine_permissions (PDict ps) ((key, PDict v) # rest) =
     bind_result (combine_permissions (dget ps key (PDict [])) v) (\<lambda>merged.
       combine_permissions (PDict (AList.update key merged ps)) rest)"
| "combine_permissions (PDict ps) ((key, value) # rest) =
     combine_permissions
       (PDict (AList.update key
          (case map_of ps key of None \<Rightarrow> value | Some old \<Rightarrow> if truthy old then old else value) ps)) rest"
| "combine_permissions _ (_ # _) = Inl TypeError"
  by pat_completeness auto
termination
  by (relation "measure (\<lambda>(_, d). size_list (size_prod (\<lambda>_. 0) size) d)") auto

text \<open>\<open>key in s\<close> on strings: \<open>key\<close> occurs in \<open>s\<close>.\<close>

fun contains_str :: "string \<Rightarrow> string \<Rightarrow> bool" where
  "contains_str key [] = (key = [])"
| "contains_str key (c # s) = (take (length key) (c # s) = key \<or> contains_str key s)"

fun get_permission :: "py \<Rightarrow> string list \<Rightarrow> bool result" where
  "get_permission permissions [] = Inr (truthy permissions)"
| "get_permission (PDict d) (key # keys) =
     (case map_of d key of None \<Rightarrow> Inr False | Some v \<Rightarrow> get_permission v keys)"
| "get_permission (PStr s) (key # keys) = (if contains_str key s then Inl TypeError else Inr False)"
| "get_permission (PList xs) (key # keys) = (if PStr key \<in> set xs then Inl TypeError else Inr False)"
| "get_permission _ (key # keys) = Inl TypeError"

subsection \<open>A user's permissions\<close>

fun combine_all :: "py \<Rightarrow> group_row list \<Rightarrow> py result" where
  "combine_all permissions [] = Inr permissions"
| "combine_all permissions (g # gs) =
     bind_result (combine_permissions permissions (dict_or_empty (g_permissions g))) (\<lambda>p. combine_all p gs)"

definition get_permissions :: "group_db \<Rightarrow> pydict \<Rightarrow> string \<Rightarrow> pydict \<Rightarrow> py result" where
  "get_permissions db dup user_id default_permissions =
     combine_all (PDict (fill_missing_permissions default_permissions dup))
       (get_groups_by_member_id db user_id True)"

fun any_group_permission :: "group_row list \<Rightarrow> string list \<Rightarrow> bool result" where
  "any_group_permission [] keys = Inr False"
| "any_group_permission (g # gs) keys =
     bind_result (get_permission (PDict (dict_or_empty (g_permissions g))) keys) (\<lambda>b.
       if b then Inr True else any_group_permission gs keys)"

text \<open>\<open>permission_key.split('.')\<close>\<close>

fun split_on :: "char \<Rightarrow> string \<Rightarrow> string list" where
  "split_on c [] = [[]]"
| "split_on c (x # xs) =
     (if x = c then [] # split_on c xs
      else case split_on c xs of [] \<Rightarrow> [[x]] | w # ws \<Rightarrow> (x # w) # ws)"

definition has_permission :: "group_db \<Rightarrow> pydict \<Rightarrow> string \<Rightarrow> string \<Rightarrow> pydict \<Rightarrow> bool result" where
  "has_permission db dup user_id permission_key default_permissions =
     (let permission_hierarchy = split_on (CHR ''.'') permission_key
      in bind_result (any_group_permission (get_groups_by_member_id db user_id True) permission_hierarchy) (\<lambda>b.
           if b then Inr True
           else get_permission (PDict (fill_missing_permissions default_permissions dup)) permission_hierarchy))"

subsection \<open>Trees of one shape\<close>

text \<open>
  A tree conforms to a schema when it has a dict only where the schema has one, no key the schema
  lacks, and no key twice. In the deployed configuration the schema is \<open>DEFAULT_USER_PERMISSIONS\<close>.
\<close>

fun conforms :: "py \<Rightarrow> py \<Rightarrow> bool" where
  "conforms (PDict s) (PDict d) =
     (distinct (map fst d) \<and>
      list_all (\<lambda>e. case map_of s (fst e) of None \<Rightarrow> False | Some s' \<Rightarrow> conforms s' (snd e)) d)"
| "conforms (PDict s) t = False"
| "conforms s (PDict d) = False"
| "conforms s t = True"

text \<open>The path does not go on below a leaf of the schema.\<close>

fun fits :: "py \<Rightarrow> string list \<Rightarrow> bool" where
  "fits s [] = True"
| "fits (PDict s) (k # ks) = (case map_of s k of None \<Rightarrow> True | Some s' \<Rightarrow> fits s' ks)"
| "fits s (k # ks) = False"

text \<open>The permission at a path, with False where the lookup would raise.\<close>

fun perm_at :: "py \<Rightarrow> string list \<Rightarrow> bool" where
  "perm_at t [] = truthy t"
| "perm_at (PDict d) (k # ks) = (case map_of d k of None \<Rightarrow> False | Some v \<Rightarrow> perm_at v ks)"
| "perm_at t (k # ks) = False"

lemma conforms_dict:
  "conforms (PDict s) t \<longleftrightarrow> (\<exists>d. t = PDict d \<and> distinct (map fst d) \<and>
     (\<forall>(k, v) \<in> set d. \<exists>s'. map_of s k = Some s' \<and> conforms s' v))"
  by (cases t) (auto simp: list_all_iff split: option.splits)

lemma conforms_leaf: "\<not> is_dict s \<Longrightarrow> conforms s t \<longleftrightarrow> \<not> is_dict t"
  by (cases s; cases t) (auto simp: is_dict_def)

lemma conforms_is_dict: "conforms s t \<Longrightarrow> is_dict s \<longleftrightarrow> is_dict t"
  by (cases s; cases t) (auto simp: is_dict_def)

lemma get_permission_fits:
  "conforms s t \<Longrightarrow> fits s ks \<Longrightarrow> get_permission t ks = Inr (perm_at t ks)"
proof (induction ks arbitrary: s t)
  case (Cons k ks)
  from Cons.prems(2) obtain sd where s: "s = PDict sd" by (cases s) auto
  with Cons.prems(1) obtain d where t: "t = PDict d"
    and d: "\<forall>(k, v) \<in> set d. \<exists>s'. map_of sd k = Some s' \<and> conforms s' v"
    by (auto simp: conforms_dict)
  show ?case
  proof (cases "map_of d k")
    case (Some v)
    then have "(k, v) \<in> set d" by (rule map_of_SomeD)
    with d obtain s' where "map_of sd k = Some s'" "conforms s' v" by blast
    with Cons.IH [of s' v] Cons.prems(2) s t Some show ?thesis by simp
  qed (simp add: t)
qed simp

lemma conforms_update:
  assumes "conforms (PDict s) (PDict d)" and "map_of s k = Some s'" and "conforms s' v"
  shows "conforms (PDict s) (PDict (AList.update k v d))"
proof -
  have "set (AList.update k v d) \<subseteq> insert (k, v) (set d)"
    by (induction d) auto
  with assms show ?thesis
    unfolding conforms_dict by (auto simp: distinct_update)
qed

lemma conforms_lookup:
  "conforms (PDict s) (PDict d) \<Longrightarrow> map_of d k = Some v \<Longrightarrow> \<exists>s'. map_of s k = Some s' \<and> conforms s' v"
  by (auto simp: conforms_dict dest: map_of_SomeD)

lemma conforms_empty: "conforms (PDict s) (PDict [])"
  by simp

lemma perm_at_update:
  "perm_at (PDict (AList.update k v d)) ks =
     (case ks of [] \<Rightarrow> True | k' # ks' \<Rightarrow> if k' = k then perm_at v ks' else perm_at (PDict d) ks)"
proof (cases ks)
  case Nil
  have "AList.update k v d \<noteq> []" by (cases d) auto
  with Nil show ?thesis by simp
qed (simp add: update_conv')

lemma perm_at_leaf: "\<not> is_dict t \<Longrightarrow> perm_at t (k # ks) = False"
  by (cases t) (auto simp: is_dict_def)

lemma perm_at_empty: "perm_at (PDict []) ks = False"
  by (cases ks) auto

lemma combine_leaf:
  "\<not> is_dict v \<Longrightarrow> combine_permissions (PDict ps) ((key, v) # rest) =
     combine_permissions (PDict (AList.update key
       (case map_of ps key of None \<Rightarrow> v | Some old \<Rightarrow> if truthy old then old else v) ps)) rest"
  by (cases v) (auto simp: is_dict_def)

text \<open>Combining two trees of one shape succeeds and takes the most permissive value at every path.\<close>

lemma combine_permissions_perm_at:
  assumes "conforms (PDict s) (PDict ps)" and "conforms (PDict s) (PDict d)"
  shows "\<exists>q. combine_permissions (PDict ps) d = Inr (PDict q) \<and> conforms (PDict s) (PDict q) \<and>
    (\<forall>ks. perm_at (PDict q) ks \<longleftrightarrow> perm_at (PDict ps) ks \<or> perm_at (PDict d) ks)"
  using assms
proof (induction "size_list (size_prod (\<lambda>_. 0) size) d" arbitrary: s ps d rule: less_induct)
  case less
  show ?case
  proof (cases d)
    case Nil
    with less.prems show ?thesis by (simp add: perm_at_empty)
  next
    case (Cons e rest)
    obtain key v where e: "e = (key, v)" by (cases e)
    from less.prems(2) Cons e have rest: "conforms (PDict s) (PDict rest)" "key \<notin> fst ` set rest"
      and "\<exists>s'. map_of s key = Some s' \<and> conforms s' v"
      by (auto simp: conforms_dict)
    then obtain s' where s': "map_of s key = Some s'" "conforms s' v" by blast
    have IH: "\<exists>q. combine_permissions (PDict (AList.update key w ps)) rest = Inr (PDict q) \<and>
        conforms (PDict s) (PDict q) \<and> (\<forall>ks. perm_at (PDict q) ks \<longleftrightarrow>
          perm_at (PDict (AList.update key w ps)) ks \<or> perm_at (PDict rest) ks)" if "conforms s' w" for w
      using less.hyps [of rest s "AList.update key w ps"] conforms_update [OF less.prems(1) s'(1) that] rest Cons e
      by simp
    have absent: "perm_at (PDict rest) (key # ks) = False" for ks
      using map_of_eq_None_iff [THEN iffD2, OF rest(2)] by simp
    have merge: "\<exists>q. combine_permissions (PDict (AList.update key w ps)) rest = Inr (PDict q) \<and>
        conforms (PDict s) (PDict q) \<and> (\<forall>ks. perm_at (PDict q) ks \<longleftrightarrow> perm_at (PDict ps) ks \<or> perm_at (PDict d) ks)"
      if "conforms s' w" and w: "\<And>ks. perm_at w ks \<longleftrightarrow> perm_at (PDict ps) (key # ks) \<or> perm_at v ks" for w
    proof -
      have "perm_at (PDict (AList.update key w ps)) ks \<or> perm_at (PDict rest) ks \<longleftrightarrow>
          perm_at (PDict ps) ks \<or> perm_at (PDict d) ks" for ks
        using w absent by (cases ks) (auto simp: update_conv' Cons e split: if_splits)
      with IH [OF that(1)] show ?thesis by simp
    qed
    show ?thesis
    proof (cases "is_dict v")
      case True
      then obtain vd where v: "v = PDict vd" by (auto simp: is_dict_def split: py.splits)
      with s'(2) obtain sd where sd: "s' = PDict sd" by (cases s') auto
      have "conforms s' (dget ps key (PDict []))"
        using conforms_lookup [OF less.prems(1), of key] s'(1) sd
        by (cases "map_of ps key") (auto simp: dget_def)
      then obtain od where od: "dget ps key (PDict []) = PDict od" "conforms (PDict sd) (PDict od)"
        using sd by (cases "dget ps key (PDict [])") auto
      obtain w where w: "combine_permissions (PDict od) vd = Inr (PDict w)" "conforms s' (PDict w)"
        "\<And>ks. perm_at (PDict w) ks \<longleftrightarrow> perm_at (PDict od) ks \<or> perm_at v ks"
        using less.hyps [of vd sd od] od(2) s'(2) sd v Cons e by auto
      have "perm_at (PDict od) ks = perm_at (PDict ps) (key # ks)" for ks
        using od(1) by (auto simp: dget_def perm_at_empty split: option.splits)
      with w(3) have "\<And>ks. perm_at (PDict w) ks \<longleftrightarrow> perm_at (PDict ps) (key # ks) \<or> perm_at v ks" by simp
      from merge [OF w(2) this] w(1) od(1) show ?thesis by (simp add: Cons e v)
    next
      case False
      let ?w = "case map_of ps key of None \<Rightarrow> v | Some old \<Rightarrow> if truthy old then old else v"
      have old: "conforms s' old" "\<not> is_dict old" if "map_of ps key = Some old" for old
        using conforms_lookup [OF less.prems(1) that] s' conforms_is_dict [of s' old] conforms_is_dict [of s' v] False
        by auto
      have "conforms s' ?w" using old s'(2) by (auto split: option.splits)
      moreover have "perm_at ?w ks \<longleftrightarrow> perm_at (PDict ps) (key # ks) \<or> perm_at v ks" for ks
        using old False by (cases ks) (auto simp: perm_at_leaf split: option.splits)
      ultimately show ?thesis using merge combine_leaf [OF False] by (simp add: Cons e)
    qed
  qed
qed

lemma combine_all_perm_at:
  assumes "conforms (PDict s) (PDict ps)"
    and "\<forall>g \<in> set gs. conforms (PDict s) (PDict (dict_or_empty (g_permissions g)))"
  shows "\<exists>q. combine_all (PDict ps) gs = Inr (PDict q) \<and> conforms (PDict s) (PDict q) \<and>
    (\<forall>ks. perm_at (PDict q) ks \<longleftrightarrow>
       perm_at (PDict ps) ks \<or> (\<exists>g \<in> set gs. perm_at (PDict (dict_or_empty (g_permissions g))) ks))"
  using assms
proof (induction gs arbitrary: ps)
  case (Cons g gs)
  from Cons.prems obtain p' where p': "combine_permissions (PDict ps) (dict_or_empty (g_permissions g)) = Inr (PDict p')"
    "conforms (PDict s) (PDict p')"
    "\<And>ks. perm_at (PDict p') ks \<longleftrightarrow> perm_at (PDict ps) ks \<or> perm_at (PDict (dict_or_empty (g_permissions g))) ks"
    using combine_permissions_perm_at [of s ps "dict_or_empty (g_permissions g)"] by auto
  from Cons.IH [OF p'(2)] Cons.prems(2) p'(1,3) show ?case by auto
qed simp

lemma any_group_permission_eq:
  assumes "\<forall>g \<in> set gs. conforms (PDict s) (PDict (dict_or_empty (g_permissions g)))" and "fits (PDict s) ks"
  shows "any_group_permission gs ks = Inr (\<exists>g \<in> set gs. perm_at (PDict (dict_or_empty (g_permissions g))) ks)"
  using assms by (induction gs) (auto simp: get_permission_fits simp del: conforms.simps)

lemma fill_leaf_conforms:
  "conforms (PDict s) (PDict p) \<Longrightarrow> map_of s k = Some s' \<Longrightarrow> conforms s' v \<Longrightarrow> map_of p k = None \<Longrightarrow>
     conforms (PDict s) (PDict (AList.update k v p))"
  by (rule conforms_update)

lemma fill_conforms:
  assumes "conforms (PDict s) (PDict p)" and "conforms (PDict s) (PDict d)"
  shows "conforms (PDict s) (PDict (fill_missing_permissions p d))"
  using assms
proof (induction "size_list (size_prod (\<lambda>_. 0) size) d" arbitrary: s p d rule: less_induct)
  case less
  show ?case
  proof (cases d)
    case Nil
    with less.prems show ?thesis by simp
  next
    case (Cons e rest)
    obtain key v where e: "e = (key, v)" by (cases e)
    from less.prems(2) Cons e have rest: "conforms (PDict s) (PDict rest)"
      and "\<exists>s'. map_of s key = Some s' \<and> conforms s' v"
      by (auto simp: conforms_dict)
    then obtain s' where s': "map_of s key = Some s'" "conforms s' v" by blast
    let ?p = "case map_of p key of
          None \<Rightarrow> AList.update key v p
        | Some old \<Rightarrow>
            (case (v, old) of
               (PDict v, PDict o') \<Rightarrow> AList.update key (PDict (fill_missing_permissions o' v)) p
             | _ \<Rightarrow> p)"
    have "conforms (PDict s) (PDict ?p)"
    proof (cases "\<exists>vd od. v = PDict vd \<and> map_of p key = Some (PDict od)")
      case True
      then obtain vd od where v: "v = PDict vd" "map_of p key = Some (PDict od)" by blast
      with s'(2) obtain sd where sd: "s' = PDict sd" by (cases s') auto
      have "conforms (PDict sd) (PDict od)"
        using conforms_lookup [OF less.prems(1) v(2)] s'(1) sd by simp
      then have "conforms s' (PDict (fill_missing_permissions od vd))"
        using less.hyps [of vd sd od] s'(2) sd v Cons e by simp
      with conforms_update [OF less.prems(1) s'(1)] v show ?thesis by simp
    next
      case False
      with conforms_update [OF less.prems(1) s'] less.prems(1) show ?thesis
        by (auto split: option.splits py.splits simp del: conforms.simps)
    qed
    with less.hyps [of rest s ?p] rest Cons e show ?thesis by simp
  qed
qed

lemma has_permission_get_permissions:
  assumes "conforms (PDict dup) (PDict dup)" and "conforms (PDict dup) (PDict defaults)"
    and "\<forall>g \<in> set (get_groups_by_member_id db u True). conforms (PDict dup) (PDict (dict_or_empty (g_permissions g)))"
    and "fits (PDict dup) (split_on (CHR ''.'') key)"
  shows "\<exists>q. get_permissions db dup u defaults = Inr q \<and>
    has_permission db dup u key defaults = get_permission q (split_on (CHR ''.'') key)"
proof -
  let ?ks = "split_on (CHR ''.'') key" and ?gs = "get_groups_by_member_id db u True"
  let ?filled = "fill_missing_permissions defaults dup"
  have filled: "conforms (PDict dup) (PDict ?filled)"
    using assms(1,2) by (intro fill_conforms)
  from combine_all_perm_at [OF this assms(3)] obtain q where
    q: "combine_all (PDict ?filled) ?gs = Inr (PDict q)" "conforms (PDict dup) (PDict q)"
    "perm_at (PDict q) ?ks \<longleftrightarrow> perm_at (PDict ?filled) ?ks \<or>
       (\<exists>g \<in> set ?gs. perm_at (PDict (dict_or_empty (g_permissions g))) ?ks)"
    by blast
  have "has_permission db dup u key defaults = Inr (perm_at (PDict q) ?ks)"
    using q(3) by (auto simp: has_permission_def Let_def any_group_permission_eq [OF assms(3,4)]
        get_permission_fits [OF filled assms(4)])
  with q show ?thesis by (auto simp: get_permissions_def get_permission_fits [OF q(2) assms(4)])
qed

end
