(* ===== verification/Access_Control.thy ===== *)
theory Access_Control
  imports Permissions
begin

text \<open>
  The rest of \<^verbatim>\<open>utils/access_control/\<close>: checks against grant lists kept in configuration, the
  migration of legacy configuration, which audiences a user may share a resource with, the read
  access to a model and to every base model behind it, and access to folders through their
  ancestors. Log messages are left out.
\<close>

subsection \<open>Grants in configuration\<close>

text \<open>The values of \<open>for x in v\<close>.\<close>

definition iter_py :: "py \<Rightarrow> py list result" where
  "iter_py v =
     (case v of
        PList xs \<Rightarrow> Inr xs
      | PDict d \<Rightarrow> Inr (map (PStr \<circ> fst) d)
      | PStr s \<Rightarrow> Inr (map (\<lambda>c. PStr [c]) s)
      | _ \<Rightarrow> Inl TypeError)"

definition config_grant_matches :: "string \<Rightarrow> string list \<Rightarrow> string \<Rightarrow> py \<Rightarrow> bool" where
  "config_grant_matches user_id group_ids permission grant =
     (case grant of
        PDict d \<Rightarrow>
          pget d ''permission'' = PStr permission \<and>
          (pget d ''principal_type'' = PStr ''user'' \<and>
             (pget d ''principal_id'' = PStr ''*'' \<or> pget d ''principal_id'' = PStr user_id) \<or>
           pget d ''principal_type'' = PStr ''group'' \<and> group_ids \<noteq> [] \<and>
             pget d ''principal_id'' \<in> set (map PStr group_ids))
      | _ \<Rightarrow> False)"

definition has_access :: "group_db \<Rightarrow> string \<Rightarrow> string \<Rightarrow> py list \<Rightarrow> string list option \<Rightarrow> bool" where
  "has_access db user_id permission access_grants user_group_ids =
     (if access_grants = [] then False
      else
        (let group_ids = resolve_group_ids db user_id user_group_ids
         in list_ex (config_grant_matches user_id group_ids permission) access_grants))"

definition has_connection_access ::
  "group_db \<Rightarrow> bool \<Rightarrow> user_row \<Rightarrow> pydict \<Rightarrow> string list option \<Rightarrow> bool result" where
  "has_connection_access db BYPASS_ADMIN_ACCESS_CONTROL user connection user_group_ids =
     (if u_role user = ''admin'' \<and> BYPASS_ADMIN_ACCESS_CONTROL then Inr True
      else
        (let config = dict_or_empty (pget connection ''config'');
             access_grants = dget config ''access_grants'' (PList [])
         in if \<not> truthy access_grants then Inr (u_role user = ''admin'')
            else bind_result (iter_py access_grants) (\<lambda>grants.
                   Inr (has_access db (u_id user) ''read'' grants
                          (Some (resolve_group_ids db (u_id user) user_group_ids))))))"

subsection \<open>Migration of legacy configuration\<close>

definition legacy_principals :: "string \<Rightarrow> string \<Rightarrow> py \<Rightarrow> py list result" where
  "legacy_principals principal_type perm ids =
     bind_result (iter_py ids) (\<lambda>xs. Inr (map (\<lambda>i.
       PDict [(''principal_type'', PStr principal_type), (''principal_id'', i), (''permission'', PStr perm)]) xs))"

definition migrate_perm :: "pydict \<Rightarrow> string \<Rightarrow> py list result" where
  "migrate_perm access_control perm =
     (let perm_data = dget access_control perm (PDict [])
      in if \<not> truthy perm_data then Inr []
         else case perm_data of
                PDict pd \<Rightarrow>
                  bind_result (legacy_principals ''group'' perm (dget pd ''group_ids'' (PList []))) (\<lambda>gs.
                  bind_result (legacy_principals ''user'' perm (dget pd ''user_ids'' (PList []))) (\<lambda>us.
                    Inr (gs @ us)))
              | _ \<Rightarrow> Inl AttributeError)"

definition migrate_access_control :: "string \<Rightarrow> string \<Rightarrow> pydict \<Rightarrow> pydict result" where
  "migrate_access_control ac_key grants_key data =
     (if map_of data grants_key \<noteq> None then Inr data
      else if map_of data ac_key = None then Inr data
      else
        bind_result
          (case pget data ac_key of
             PDict access_control \<Rightarrow>
               bind_result (migrate_perm access_control ''read'') (\<lambda>r.
               bind_result (migrate_perm access_control ''write'') (\<lambda>w. Inr (r @ w)))
           | _ \<Rightarrow> Inr [])
          (\<lambda>grants. Inr (AList.delete ac_key (AList.update grants_key (PList grants) data))))"

subsection \<open>Sharing\<close>

text \<open>
  \<open>_SHARING_PERMISSION_KEYS\<close>: the permission keys, split at the dot, for sharing at all, for
  sharing with all users and for sharing with anonymous readers.
\<close>

type_synonym perm_key = "string \<times> string"

definition SHARING_PERMISSION_KEYS :: "(string \<times> perm_key option \<times> perm_key option \<times> perm_key option) list" where
  "SHARING_PERMISSION_KEYS =
     [(''model'', Some (''sharing'', ''models''), Some (''sharing'', ''public_models''), None),
      (''knowledge'', Some (''sharing'', ''knowledge''), Some (''sharing'', ''public_knowledge''), None),
      (''prompt'', Some (''sharing'', ''prompts''), Some (''sharing'', ''public_prompts''), None),
      (''tool'', Some (''sharing'', ''tools''), Some (''sharing'', ''public_tools''), None),
      (''skill'', Some (''sharing'', ''skills''), Some (''sharing'', ''public_skills''), None),
      (''note'', Some (''sharing'', ''notes''), Some (''sharing'', ''public_notes''), None),
      (''folder'', Some (''sharing'', ''folders''), None, None),
      (''channel'', None, Some (''sharing'', ''public_channels''), None),
      (''calendar'', None, Some (''sharing'', ''public_calendars''), None),
      (''shared_chat'', None, Some (''sharing'', ''public_chats''), Some (''sharing'', ''open_chats''))]"

text \<open>\<open>bool(permissions.get(section, {}).get(name, False))\<close>\<close>

definition allowed :: "py \<Rightarrow> perm_key option \<Rightarrow> bool result" where
  "allowed permissions key =
     (case key of
        None \<Rightarrow> Inr False
      | Some (section, name) \<Rightarrow>
          (case permissions of
             PDict ps \<Rightarrow>
               (case dget ps section (PDict []) of
                  PDict s \<Rightarrow> Inr (truthy (dget s name (PBool False)))
                | _ \<Rightarrow> Inl AttributeError)
           | _ \<Rightarrow> Inl AttributeError))"

definition is_public_grant :: "norm_grant \<Rightarrow> bool" where
  "is_public_grant g \<longleftrightarrow> n_principal_type g = ''user'' \<and> n_principal_id g = ''*''"

text \<open>
  \<open>None\<close> and the empty list are returned as they came. The normalised grants stay records here;
  \<open>strip_anyone_access_grants\<close> on their dicts is the filter on the principal type.
\<close>

definition filter_allowed_access_grants ::
  "group_db \<Rightarrow> pydict \<Rightarrow> (nat \<Rightarrow> string) \<Rightarrow> pydict \<Rightarrow> string \<Rightarrow> string \<Rightarrow> py list \<Rightarrow> string \<Rightarrow> norm_grant list result" where
  "filter_allowed_access_grants db dup uuid default_permissions user_id user_role access_grants resource_type =
     (case map_of SHARING_PERMISSION_KEYS resource_type of
        None \<Rightarrow> Inl (ValueError ''Unsupported sharing resource type'')
      | Some (sharing_permission_key, public_permission_key, anyone_permission_key) \<Rightarrow>
          (if access_grants = [] then Inr []
           else
             (let grants = normalize_access_grants uuid access_grants;
                  grants = (if anyone_permission_key = None
                            then filter (\<lambda>g. n_principal_type g \<noteq> PRINCIPAL_TYPE_ANYONE) grants else grants);
                  grants = (if public_permission_key = None
                            then filter (\<lambda>g. \<not> is_public_grant g) grants else grants)
              in if user_role = ''admin'' \<or> grants = [] then Inr grants
                 else
                   bind_result (get_permissions db dup user_id default_permissions) (\<lambda>permissions.
                   bind_result (case sharing_permission_key of None \<Rightarrow> Inr True
                                | Some _ \<Rightarrow> allowed permissions sharing_permission_key) (\<lambda>may_share.
                     if \<not> may_share then Inr []
                     else
                       bind_result (allowed permissions anyone_permission_key) (\<lambda>anyone.
                       bind_result (allowed permissions public_permission_key) (\<lambda>public.
                       bind_result (allowed permissions (Some (''access_grants'', ''allow_users''))) (\<lambda>users.
                       bind_result (allowed permissions (Some (''access_grants'', ''allow_groups''))) (\<lambda>grps.
                         Inr (filter (\<lambda>g.
                             if is_public_grant g then public
                             else if n_principal_type g = ''anyone'' then anyone
                             else if n_principal_type g = ''user'' then users
                             else grps) grants)))))))))) "

definition validate_access_grants ::
  "group_db \<Rightarrow> pydict \<Rightarrow> (nat \<Rightarrow> string) \<Rightarrow> pydict \<Rightarrow> string \<Rightarrow> string \<Rightarrow> py list \<Rightarrow> string \<Rightarrow> norm_grant list result" where
  "validate_access_grants db dup uuid default_permissions user_id user_role access_grants resource_type =
     (let grants = normalize_access_grants uuid access_grants
      in bind_result
           (filter_allowed_access_grants db dup uuid default_permissions user_id user_role
              (map norm_py grants) resource_type)
           (\<lambda>ok. if length ok \<noteq> length grants
                 then Inl (HTTPException 403 ''You do not have permission to share with the requested audience'')
                 else Inr ok))"

subsection \<open>Models and their base models\<close>

record model_row =
  mo_id :: string
  mo_user_id :: string
  mo_base_model_id :: "string option"
  mo_name :: string
  mo_price :: py

definition get_model_by_id :: "model_row list \<Rightarrow> string \<Rightarrow> model_row option" where
  "get_model_by_id models i = find (\<lambda>m. mo_id m = i) models"

definition model_readable :: "group_db \<Rightarrow> string \<Rightarrow> string list option \<Rightarrow> model_row \<Rightarrow> bool" where
  "model_readable db user_id user_group_ids m \<longleftrightarrow>
     user_id = mo_user_id m \<or> grants_has_access db user_id ''model'' (mo_id m) ''read'' user_group_ids"

text \<open>The loop: \<open>seen\<close> is the set of ids already visited.\<close>

function base_model_loop ::
  "group_db \<Rightarrow> model_row list \<Rightarrow> string \<Rightarrow> string option \<Rightarrow> string list option \<Rightarrow> string list \<Rightarrow> string option \<Rightarrow> bool" where
  "base_model_loop db models user_id user_role gids seen base_model_id =
     (case base_model_id of
        None \<Rightarrow> True
      | Some b \<Rightarrow>
          (if b = [] \<or> b \<in> set seen then True
           else case get_model_by_id models b of
                  None \<Rightarrow> user_role = Some ''admin''
                | Some base \<Rightarrow>
                    (if \<not> model_readable db user_id gids base then False
                     else base_model_loop db models user_id user_role gids (b # seen) (mo_base_model_id base))))"
  by pat_completeness auto
termination
  by (relation "measure (\<lambda>(_, models, _, _, _, seen, _). card (mo_id ` set models - set seen))")
     (auto simp: get_model_by_id_def dest!: find_Some intro!: psubset_card_mono)

declare base_model_loop.simps [simp del]

definition has_base_model_access ::
  "group_db \<Rightarrow> model_row list \<Rightarrow> string \<Rightarrow> model_row \<Rightarrow> string option \<Rightarrow> string list option \<Rightarrow> bool" where
  "has_base_model_access db models user_id model_info user_role user_group_ids =
     base_model_loop db models user_id user_role user_group_ids [mo_id model_info] (mo_base_model_id model_info)"

definition check_model_access ::
  "group_db \<Rightarrow> model_row list \<Rightarrow> user_row \<Rightarrow> model_row option \<Rightarrow> bool \<Rightarrow> unit result" where
  "check_model_access db models user model_info bypass_filter =
     (if bypass_filter then Inr ()
      else case model_info of
             Some m \<Rightarrow>
               (if u_role user \<noteq> ''admin'' then
                  (let gids = Some (map g_id (get_groups_by_member_id db (u_id user) True))
                   in if \<not> model_readable db (u_id user) gids m then Inl (HTTPException 403 ''Model not found'')
                      else if \<not> has_base_model_access db models (u_id user) m (Some (u_role user)) gids
                      then Inl (HTTPException 403 ''Model not found'')
                      else Inr ())
                else Inr ())
           | None \<Rightarrow>
               (if u_role user \<noteq> ''admin'' then Inl (HTTPException 403 ''Model not found'') else Inr ()))"

subsection \<open>Lemmas: base models\<close>

definition base_rel :: "model_row list \<Rightarrow> (string \<times> string) set" where
  "base_rel models = {(mo_id m, b) | m b. m \<in> set models \<and> mo_base_model_id m = Some b \<and> b \<noteq> []}"

definition readable_id :: "group_db \<Rightarrow> model_row list \<Rightarrow> string \<Rightarrow> string list option \<Rightarrow> string \<Rightarrow> bool" where
  "readable_id db models user_id gids b \<longleftrightarrow> (\<exists>m \<in> set models. mo_id m = b \<and> model_readable db user_id gids m)"

lemma get_model_by_id_Some: "get_model_by_id models b = Some m \<Longrightarrow> m \<in> set models \<and> mo_id m = b"
  by (auto simp: get_model_by_id_def dest: find_Some)

lemma get_model_by_id_None: "get_model_by_id models b = None \<longleftrightarrow> b \<notin> mo_id ` set models"
  by (auto simp: get_model_by_id_def find_None_iff)

lemma readable_id_eq:
  "distinct (map mo_id models) \<Longrightarrow> m \<in> set models \<Longrightarrow>
     readable_id db models u gids (mo_id m) \<longleftrightarrow> model_readable db u gids m"
  by (auto simp: readable_id_def distinct_map inj_on_def)

lemma base_rel_succ:
  "distinct (map mo_id models) \<Longrightarrow> m \<in> set models \<Longrightarrow>
     (mo_id m, b) \<in> base_rel models \<longleftrightarrow> mo_base_model_id m = Some b \<and> b \<noteq> []"
  by (auto simp: base_rel_def distinct_map inj_on_def)

definition pending_base :: "string option \<Rightarrow> string set" where
  "pending_base base = (case base of None \<Rightarrow> {} | Some b \<Rightarrow> if b = [] then {} else {b})"

lemma base_rel_Image:
  assumes "distinct (map mo_id models)" and "m \<in> set models"
  shows "base_rel models `` {mo_id m} = pending_base (mo_base_model_id m)"
proof -
  have "base_rel models `` {mo_id m} = {b. mo_base_model_id m = Some b \<and> b \<noteq> []}"
    by (simp only: Image_singleton base_rel_succ [OF assms])
  then show ?thesis by (cases "mo_base_model_id m") (auto simp: pending_base_def)
qed

lemma closed_reach: "r `` S \<subseteq> S \<Longrightarrow> r\<^sup>* `` S = S"
  by (rule Image_closed_trancl)

lemma reach_succ: "r\<^sup>* `` (insert b S \<union> r `` {b}) = r\<^sup>* `` insert b S"
proof
  show "r\<^sup>* `` (insert b S \<union> r `` {b}) \<subseteq> r\<^sup>* `` insert b S"
    by (blast intro: converse_rtrancl_into_rtrancl)
qed blast

lemma base_model_loop_iff:
  assumes "distinct (map mo_id models)" and "role \<noteq> Some ''admin''"
    and "\<forall>s \<in> set seen. readable_id db models u gids s"
    and "base_rel models `` set seen \<subseteq> set seen \<union> pending_base base"
  shows "base_model_loop db models u role gids seen base \<longleftrightarrow>
    (\<forall>b \<in> (base_rel models)\<^sup>* `` (set seen \<union> pending_base base). readable_id db models u gids b)"
  using assms
proof (induction db models u role gids seen base rule: base_model_loop.induct)
  case (1 db models u role gids seen base)
  show ?case
  proof (cases "pending_base base \<subseteq> set seen")
    case True
    then have "set seen \<union> pending_base base = set seen" by blast
    with 1(5) have "(base_rel models)\<^sup>* `` (set seen \<union> pending_base base) = set seen"
      by (simp add: closed_reach)
    moreover have "base_model_loop db models u role gids seen base"
      using True by (subst base_model_loop.simps) (auto simp: pending_base_def split: option.splits if_splits)
    ultimately show ?thesis using 1(4) by simp
  next
    case False
    then obtain b where b: "base = Some b" "b \<noteq> []" "b \<notin> set seen" "pending_base base = {b}"
      by (auto simp: pending_base_def split: option.splits if_splits)
    have reach_b: "b \<in> (base_rel models)\<^sup>* `` (set seen \<union> pending_base base)" using b by auto
    show ?thesis
    proof (cases "get_model_by_id models b")
      case None
      then have "\<not> readable_id db models u gids b" by (auto simp: get_model_by_id_None readable_id_def)
      with None b reach_b 1(3) show ?thesis by (subst base_model_loop.simps) auto
    next
      case (Some m)
      then have m: "m \<in> set models" "mo_id m = b" by (auto dest: get_model_by_id_Some)
      show ?thesis
      proof (cases "model_readable db u gids m")
        case False
        with m have "\<not> readable_id db models u gids b" using readable_id_eq [OF 1(2)] by blast
        with False Some b reach_b show ?thesis by (subst base_model_loop.simps) auto
      next
        case True
        have succ: "base_rel models `` {b} = pending_base (mo_base_model_id m)"
          using base_rel_Image [OF 1(2) m(1)] m(2) by simp
        have "base_rel models `` set (b # seen) = base_rel models `` {b} \<union> base_rel models `` set seen" by auto
        then have next_inv: "base_rel models `` set (b # seen) \<subseteq> set (b # seen) \<union> pending_base (mo_base_model_id m)"
          using 1(5) b succ by auto
        have "(base_rel models)\<^sup>* `` (set (b # seen) \<union> pending_base (mo_base_model_id m))
            = (base_rel models)\<^sup>* `` (set seen \<union> pending_base base)"
          using reach_succ [of "base_rel models" b "set seen"]
          by (simp only: succ b(4) list.set Un_insert_right Un_empty_right)
        moreover have "\<forall>s \<in> set (b # seen). readable_id db models u gids s"
          using 1(4) readable_id_eq [OF 1(2) m(1)] m(2) True by simp
        moreover have "base_model_loop db models u role gids seen base
            = base_model_loop db models u role gids (b # seen) (mo_base_model_id m)"
          using Some True b by (subst base_model_loop.simps) simp
        ultimately show ?thesis
          using 1(1) [OF b(1) _ Some _ 1(2,3) _ next_inv] b True by simp
      qed
    qed
  qed
qed

lemma check_model_access_iff:
  assumes "distinct (map mo_id models)" and "m \<in> set models" and "u_role user \<noteq> ''admin''"
  shows "check_model_access db models user (Some m) False = Inr () \<longleftrightarrow>
    (\<forall>b. (mo_id m, b) \<in> (base_rel models)\<^sup>* \<longrightarrow>
       (\<exists>n \<in> set models. mo_id n = b \<and>
          (mo_user_id n = u_id user \<or> grants_has_access db (u_id user) ''model'' b ''read'' None)))"
proof -
  let ?gids = "Some (map g_id (get_groups_by_member_id db (u_id user) True))"
  have none: "grants_has_access db (u_id user) ''model'' b ''read'' ?gids = grants_has_access db (u_id user) ''model'' b ''read'' None" for b
    by (simp add: grants_has_access_def resolve_group_ids_def)
  let ?ok = "readable_id db models (u_id user) ?gids"
  have succ: "base_rel models `` {mo_id m} = pending_base (mo_base_model_id m)"
    by (rule base_rel_Image [OF assms(1,2)])
  have own: "model_readable db (u_id user) ?gids m \<longleftrightarrow> ?ok (mo_id m)"
    by (rule readable_id_eq [OF assms(1,2), symmetric])
  have reach: "(base_rel models)\<^sup>* `` (set [mo_id m] \<union> pending_base (mo_base_model_id m)) = (base_rel models)\<^sup>* `` {mo_id m}"
    using reach_succ [of "base_rel models" "mo_id m" "{}"]
    by (simp only: succ list.set)
  have "check_model_access db models user (Some m) False = Inr () \<longleftrightarrow>
      model_readable db (u_id user) ?gids m \<and> has_base_model_access db models (u_id user) m (Some (u_role user)) ?gids"
    using assms(3) by (simp add: check_model_access_def Let_def)
  also have "\<dots> \<longleftrightarrow> (\<forall>b \<in> (base_rel models)\<^sup>* `` {mo_id m}. ?ok b)"
  proof (cases "?ok (mo_id m)")
    case True
    then have base: "has_base_model_access db models (u_id user) m (Some (u_role user)) ?gids \<longleftrightarrow>
        (\<forall>b \<in> (base_rel models)\<^sup>* `` {mo_id m}. ?ok b)"
      unfolding has_base_model_access_def reach [symmetric]
    proof (intro base_model_loop_iff)
      show "base_rel models `` set [mo_id m] \<subseteq> set [mo_id m] \<union> pending_base (mo_base_model_id m)"
        by (simp add: succ subset_insertI)
    qed (use assms in simp_all)
    then show ?thesis using True by (simp only: own simp_thms)
  next
    case False
    have "mo_id m \<in> (base_rel models)\<^sup>* `` {mo_id m}" by (rule ImageI) simp_all
    then have "\<not> (\<forall>b \<in> (base_rel models)\<^sup>* `` {mo_id m}. ?ok b)" using False bspec by metis
    with False show ?thesis by (simp only: own simp_thms)
  qed
  finally show ?thesis
    by (simp only: readable_id_def model_readable_def none Image_singleton mem_Collect_eq Ball_def) (metis (no_types))
qed

subsection \<open>Lemmas: sharing\<close>

lemma split_on_none: "c \<notin> set s \<Longrightarrow> split_on c s = [s]"
  by (induction s) auto

lemma split_on_append: "c \<notin> set s \<Longrightarrow> split_on c (s @ c # t) = s # split_on c t"
  by (induction s) auto

definition key_name :: "perm_key \<Rightarrow> string" where
  "key_name k = fst k @ CHR ''.'' # snd k"

definition plain_key :: "perm_key \<Rightarrow> bool" where
  "plain_key k \<longleftrightarrow> CHR ''.'' \<notin> set (fst k) \<and> CHR ''.'' \<notin> set (snd k)"

lemma split_key_name: "plain_key k \<Longrightarrow> split_on (CHR ''.'') (key_name k) = [fst k, snd k]"
  by (simp add: plain_key_def key_name_def split_on_append split_on_none)

lemma allowed_get_permission:
  "allowed q (Some k) = Inr b \<Longrightarrow> get_permission q [fst k, snd k] = Inr b"
  by (cases k) (auto simp: allowed_def dget_def split: py.splits option.splits)

lemma fits_one: "is_dict t \<Longrightarrow> fits t [n]"
  by (cases t) (auto simp: is_dict_def split: option.splits)

lemma fits_sections: "list_all (\<lambda>e. is_dict (snd e)) dup \<Longrightarrow> fits (PDict dup) [s, n]"
  by (fastforce simp: list_all_iff fits_one split: option.splits dest: map_of_SomeD)

text \<open>The permission key that guards one audience.\<close>

definition audience_key :: "string \<Rightarrow> norm_grant \<Rightarrow> perm_key option" where
  "audience_key resource_type g =
     (case map_of SHARING_PERMISSION_KEYS resource_type of
        None \<Rightarrow> None
      | Some (_, public_key, anyone_key) \<Rightarrow>
          (if is_public_grant g then public_key
           else if n_principal_type g = ''anyone'' then anyone_key
           else if n_principal_type g = ''user'' then Some (''access_grants'', ''allow_users'')
           else Some (''access_grants'', ''allow_groups'')))"

definition sharing_key :: "string \<Rightarrow> perm_key option" where
  "sharing_key resource_type = (case map_of SHARING_PERMISSION_KEYS resource_type of None \<Rightarrow> None | Some (k, _) \<Rightarrow> k)"

lemma sharing_key_plain: "sharing_key rt = Some k \<Longrightarrow> plain_key k"
  by (auto simp: sharing_key_def SHARING_PERMISSION_KEYS_def plain_key_def split: if_splits)

lemma audience_key_plain: "audience_key rt g = Some k \<Longrightarrow> plain_key k"
  by (auto simp: audience_key_def SHARING_PERMISSION_KEYS_def plain_key_def split: if_splits)

lemma filter_allowed_sub:
  assumes "filter_allowed_access_grants db dup uuid dflt u role gs rt = Inr ok"
  shows "\<exists>P. ok = filter P (normalize_access_grants uuid gs)"
proof -
  have all: "\<exists>P. xs = filter P xs" for xs :: "norm_grant list" by (rule exI [of _ "\<lambda>_. True"]) simp
  have none: "\<exists>P. [] = filter P xs" for xs :: "norm_grant list" by (rule exI [of _ "\<lambda>_. False"]) simp
  have one: "\<exists>P. filter Q xs = filter P xs" for Q and xs :: "norm_grant list" by blast
  from assms show ?thesis
    by (auto simp: filter_allowed_access_grants_def Let_def bind_result_Inr_iff all none one
        split: option.splits if_splits)
qed

lemma filter_allowed_audience:
  assumes "filter_allowed_access_grants db dup uuid dflt u role gs rt = Inr ok"
    and "role \<noteq> ''admin''" and "g \<in> set ok"
  shows "\<exists>q. get_permissions db dup u dflt = Inr q \<and>
    (\<exists>k. audience_key rt g = Some k \<and> allowed q (Some k) = Inr True) \<and>
    (\<forall>k. sharing_key rt = Some k \<longrightarrow> allowed q (Some k) = Inr True)"
proof -
  obtain sk pk ak where keys: "map_of SHARING_PERMISSION_KEYS rt = Some (sk, pk, ak)"
    using assms(1) by (auto simp: filter_allowed_access_grants_def split: option.splits)
  have nonempty: "gs \<noteq> []"
    using assms by (auto simp: filter_allowed_access_grants_def keys)
  let ?ns = "normalize_access_grants uuid gs"
  define ns1 where "ns1 = (if ak = None then filter (\<lambda>g. n_principal_type g \<noteq> PRINCIPAL_TYPE_ANYONE) ?ns else ?ns)"
  define ns2 where "ns2 = (if pk = None then filter (\<lambda>g. \<not> is_public_grant g) ns1 else ns1)"
  note unfolded = assms(1) [unfolded filter_allowed_access_grants_def keys Let_def option.case prod.case,
      folded ns1_def, folded ns2_def]
  have "ns2 \<noteq> []"
  proof
    assume "ns2 = []"
    with unfolded nonempty have "ok = []" by simp
    with assms(3) show False by simp
  qed
  with unfolded assms(2) nonempty obtain q may where
    q: "get_permissions db dup u dflt = Inr q"
    and may: "(case sk of None \<Rightarrow> Inr True | Some _ \<Rightarrow> allowed q sk) = Inr may"
    and ok: "(if \<not> may then Inr [] else
         bind_result (allowed q ak) (\<lambda>any.
         bind_result (allowed q pk) (\<lambda>pub.
         bind_result (allowed q (Some (''access_grants'', ''allow_users''))) (\<lambda>us.
         bind_result (allowed q (Some (''access_grants'', ''allow_groups''))) (\<lambda>grps.
           Inr (filter (\<lambda>g. if is_public_grant g then pub else if n_principal_type g = ''anyone'' then any
             else if n_principal_type g = ''user'' then us else grps) ns2)))))) = Inr ok"
    by (simp only: if_False simp_thms bind_result_Inr_iff) blast
  have may_share: may using ok assms(3) by (cases may) auto
  from ok assms(3) may_share obtain any pub us grps where
    al: "allowed q ak = Inr any" "allowed q pk = Inr pub"
      "allowed q (Some (''access_grants'', ''allow_users'')) = Inr us"
      "allowed q (Some (''access_grants'', ''allow_groups'')) = Inr grps"
    and g: "if is_public_grant g then pub else if n_principal_type g = ''anyone'' then any
            else if n_principal_type g = ''user'' then us else grps"
    by (auto simp only: bind_result_Inr_iff sum.inject set_filter mem_Collect_eq not_True_eq_False if_False)
  have "allowed q (audience_key rt g) = Inr True"
    using g al by (auto simp: audience_key_def keys split: if_splits)
  then have aud: "\<exists>k. audience_key rt g = Some k \<and> allowed q (Some k) = Inr True"
    by (cases "audience_key rt g") (auto simp: allowed_def)
  from may may_share have "\<forall>k. sharing_key rt = Some k \<longrightarrow> allowed q (Some k) = Inr True"
    by (auto simp: sharing_key_def keys)
  with q aud show ?thesis by blast
qed

lemma allowed_has_permission:
  assumes "conforms (PDict dup) (PDict dup)" and "conforms (PDict dup) (PDict defaults)"
    and "\<forall>g \<in> set (get_groups_by_member_id db u True). conforms (PDict dup) (PDict (dict_or_empty (g_permissions g)))"
    and "list_all (\<lambda>e. is_dict (snd e)) dup"
    and "get_permissions db dup u defaults = Inr q" and "allowed q (Some k) = Inr b" and "plain_key k"
  shows "has_permission db dup u (key_name k) defaults = Inr b"
  using has_permission_get_permissions [OF assms(1-3), of "key_name k"] fits_sections [OF assms(4)]
    allowed_get_permission [OF assms(6)] assms(5)
  by (simp add: split_key_name [OF assms(7)])

lemma validate_access_grants_ok:
  assumes "\<And>n. uuid n \<noteq> []"
    and "validate_access_grants db dup uuid dflt u role gs rt = Inr ok"
  shows "ok = normalize_access_grants uuid gs"
proof -
  let ?ns = "normalize_access_grants uuid gs"
  from assms(2) have f: "filter_allowed_access_grants db dup uuid dflt u role (map norm_py ?ns) rt = Inr ok"
    and len: "length ok = length ?ns"
    by (auto simp: validate_access_grants_def Let_def bind_result_Inr_iff split: if_splits)
  from filter_allowed_sub [OF f] obtain P where "ok = filter P ?ns"
    by (auto simp: normalize_of_normalized [OF assms(1)])
  with len show ?thesis by (metis length_filter_less filter_True less_irrefl)
qed

end
