(* ===== verification/Access_Properties.thy ===== *)
theory Access_Properties
  imports Access_Control
begin

text \<open>
  The properties of the access subsystem: the group hierarchy, the grants, the checks that read
  both, the permission trees, sharing and models. Each has a witness on the small database
  \<open>demo_db\<close>: the groups web, below eng, below org; ann in web and bob in org; org may read the
  model m1 and bob may write it.
\<close>

subsection \<open>A small database\<close>

definition demo_group :: "string \<Rightarrow> string option \<Rightarrow> group_row" where
  "demo_group i p = \<lparr>g_parent_group_id = p, g_id = i, g_user_id = ''root'', g_name = i, g_description = [],
     g_data = PDict [(''config'', PDict [(''share'', PBool True)])], g_meta = PNone, g_permissions = PNone,
     g_created_at = 1, g_updated_at = 1\<rparr>"

definition demo_member :: "string \<Rightarrow> string \<Rightarrow> string \<Rightarrow> group_member" where
  "demo_member i g u = \<lparr>gm_id = i, gm_group_id = g, gm_user_id = u, gm_created_at = 1, gm_updated_at = 1\<rparr>"

definition demo_grants :: "access_grant list" where
  "demo_grants = [mk_grant ''g1'' 1 (''model'', ''m1'', ''group'', ''org'', ''read''),
                  mk_grant ''g2'' 1 (''model'', ''m1'', ''user'', ''bob'', ''write'')]"

definition demo_db :: group_db where
  "demo_db = \<lparr>db_groups = [demo_group ''org'' None, demo_group ''eng'' (Some ''org''), demo_group ''web'' (Some ''eng'')],
     db_members = [demo_member ''1'' ''web'' ''ann'', demo_member ''2'' ''org'' ''bob''],
     db_grants = demo_grants\<rparr>"

definition demo_ids :: "nat \<Rightarrow> string" where
  "demo_ids n = replicate (Suc n) (CHR ''u'')"

lemma demo_ids_inj: "inj demo_ids"
  by (auto simp: inj_def demo_ids_def)

lemma demo_ids_nonempty: "demo_ids n \<noteq> []"
  by (simp add: demo_ids_def)

lemmas demo_defs = demo_db_def demo_group_def demo_member_def demo_grants_def mk_grant_def

lemma demo_parent_rel: "parent_rel (db_groups demo_db) = {(''eng'', ''org''), (''web'', ''eng'')}"
  by (simp add: set_parent_edges [symmetric] parent_edges_def demo_defs)

lemma demo_hierarchy_inv: "hierarchy_inv demo_db"
proof -
  have "acyclic (parent_rel (db_groups demo_db))"
    by (rule acyclicI_order [where f = "\<lambda>s. if s = ''org'' then 0 else if s = ''eng'' then 1 else (2::nat)"])
       (auto simp: demo_parent_rel)
  moreover have "Range (parent_rel (db_groups demo_db)) \<subseteq> g_id ` set (db_groups demo_db)"
    unfolding demo_parent_rel by (simp add: demo_defs)
  ultimately show ?thesis by (simp add: hierarchy_inv_def demo_defs)
qed

lemma demo_groups_of [simp]: "groups_of demo_db ''ann'' = [''web'']"
  by (simp add: groups_of_def demo_defs)

lemma demo_id_set: "g_id ` set (db_groups demo_db) = {''org'', ''eng'', ''web''}"
  by (simp add: demo_defs)

lemma demo_inherited: "inherited_group_ids demo_db ''ann'' = {''web'', ''eng'', ''org''}"
proof -
  have "(''web'', ''eng'') \<in> (parent_rel (db_groups demo_db))\<^sup>*" "(''eng'', ''org'') \<in> (parent_rel (db_groups demo_db))\<^sup>*"
    by (auto simp: demo_parent_rel)
  moreover from this have "(''web'', ''org'') \<in> (parent_rel (db_groups demo_db))\<^sup>*" by (rule rtrancl_trans)
  ultimately show ?thesis
    unfolding set_eq_iff in_inherited_group_ids demo_groups_of demo_id_set by auto
qed

subsection \<open>The group hierarchy\<close>

text \<open>
  (C1) Whatever sequence of group operations runs from an empty database (inserting, updating with
  a new parent, deleting, deleting all, setting, adding, removing and syncing members, creating
  by name), group ids stay unique, every parent and every membership names an existing group and
  no group is its own ancestor, so the hierarchy stays a forest.
\<close>

theorem hierarchy_always_forest: "hierarchy_reachable db \<Longrightarrow> hierarchy_inv db"
  by (rule hierarchy_reachable_inv)

definition demo_form :: "string \<Rightarrow> string option \<Rightarrow> group_form" where
  "demo_form name p = \<lparr>gf_parent_group_id = p, gf_parent_set = True, gf_name = name, gf_description = [],
     gf_permissions = PNone, gf_data = PNone\<rparr>"

definition demo_grown :: group_db where
  "demo_grown =
     (case insert_new_group (PBool True) ''b'' 1 ''root'' (demo_form ''B'' (Some ''a''))
             \<lparr>db_groups = [demo_group ''a'' None\<lparr>g_name := ''A''\<rparr>], db_members = [], db_grants = []\<rparr> of
        Inr (db', _) \<Rightarrow> db' | Inl _ \<Rightarrow> \<lparr>db_groups = [], db_members = [], db_grants = []\<rparr>)"

lemma demo_grown_reachable: "hierarchy_reachable demo_grown"
proof -
  let ?e = "\<lparr>db_groups = [], db_members = [], db_grants = []\<rparr> :: group_db"
  let ?a = "\<lparr>db_groups = [demo_group ''a'' None\<lparr>g_name := ''A''\<rparr>], db_members = [], db_grants = []\<rparr> :: group_db"
  have "insert_new_group (PBool True) ''a'' 1 ''root'' (demo_form ''A'' None) ?e
      = Inr (?a, demo_group ''a'' None\<lparr>g_name := ''A''\<rparr>)"
    by (simp add: insert_new_group_def validate_parent_def demo_form_def demo_group_def
        ensure_default_share_config_def Let_def py_simps dict_or_empty_def)
  then have a: "hierarchy_reachable ?a"
    by (rule hierarchy_reachable.step [OF hierarchy_reachable.start hierarchy_step.insert_new])
  have "\<exists>g. insert_new_group (PBool True) ''b'' 1 ''root'' (demo_form ''B'' (Some ''a'')) ?a = Inr (demo_grown, g)"
    by (simp add: insert_new_group_def validate_parent_def demo_form_def demo_group_def demo_grown_def Let_def)
  then show ?thesis by (blast intro: hierarchy_reachable.step [OF a] hierarchy_step.insert_new)
qed

theorem hierarchy_always_forest_witness:
  "hierarchy_inv demo_grown \<and> map g_id (db_groups demo_grown) = [''a'', ''b'']"
  using hierarchy_always_forest [OF demo_grown_reachable]
  by (simp add: insert_new_group_def validate_parent_def demo_form_def demo_group_def demo_grown_def Let_def)

text \<open>
  (C30) Deleting a group promotes its children to its parent: every other group keeps exactly the
  ancestors it had, less the deleted group.
\<close>

theorem delete_keeps_ancestors:
  assumes "hierarchy_inv db" and "delete_group_by_id now i db = Inr (db', affected)" and "x \<noteq> i"
  shows "get_ancestor_ids db' x = get_ancestor_ids db x - {i}"
proof -
  note eqs = delete_group_by_id_parent_rel [OF assms(1,2)]
  let ?R = "parent_rel (db_groups db)"
  have sv: "single_valued ?R" using hierarchy_invD(1) [OF assms(1)] by (rule single_valued_parent_rel)
  have "i \<notin> Range (spliced ?R i)"
    using hierarchy_invD(4) [OF assms(1)] by (auto simp: spliced_def acyclic_def)
  then have gone: "(x, i) \<notin> (spliced ?R i)\<^sup>*" using assms(3) by (rule not_reach_fresh)
  have "(x, y) \<in> (spliced ?R i)\<^sup>* \<longleftrightarrow> (x, y) \<in> ?R\<^sup>* \<and> y \<noteq> i" for y
    using rtrancl_spliced [OF hierarchy_invD(4) [OF assms(1)] sv assms(3), of y] gone by blast
  then show ?thesis
    using assms(3) by (auto simp: get_ancestor_ids_def set_ancestor_groups eqs(1,2))
qed

definition demo_pruned :: group_db where
  "demo_pruned = \<lparr>db_groups = [demo_group ''org'' None, demo_group ''web'' (Some ''org'')\<lparr>g_updated_at := 2\<rparr>],
     db_members = db_members demo_db, db_grants = demo_grants\<rparr>"

lemma demo_delete: "delete_group_by_id 2 ''eng'' demo_db = Inr (demo_pruned, [''ann''])"
  by code_simp

theorem delete_keeps_ancestors_witness:
  "delete_group_by_id 2 ''eng'' demo_db = Inr (demo_pruned, [''ann'']) \<and>
   get_ancestor_ids demo_pruned ''web'' = get_ancestor_ids demo_db ''web'' - {''eng''}"
  using delete_keeps_ancestors [OF demo_hierarchy_inv demo_delete, of "''web''"] demo_delete by simp

text \<open>
  The users that \<open>delete_group_by_id\<close> hands to the session refresh are enough: a user who is
  not among them has the same inherited groups before and after the deletion.
\<close>

theorem delete_refreshes_affected:
  assumes "hierarchy_inv db" and "delete_group_by_id now i db = Inr (db', affected)" and "u \<notin> set affected"
  shows "inherited_group_ids db' u = inherited_group_ids db u"
proof -
  note eqs = delete_group_by_id_parent_rel [OF assms(1,2)]
  let ?R = "parent_rel (db_groups db)"
  have sv: "single_valued ?R" using hierarchy_invD(1) [OF assms(1)] by (rule single_valued_parent_rel)
  have i: "i \<in> g_id ` set (db_groups db)" and aff: "affected = map snd (group_user_memberships db [i] True)"
    using delete_group_by_id_Inr [OF assms(2)] by auto
  have "(i, u) \<notin> set (group_user_memberships db [i] True)"
    using assms(3) by (force simp: aff)
  then have "u \<notin> inherited_user_ids db i"
    by (simp add: inherited_user_ids_def set_get_group_user_ids_by_id set_group_user_memberships)
  then have below: "(d, i) \<notin> ?R\<^sup>*" if "d \<in> set (groups_of db u)" for d
    using that i hierarchy.dual [of i db u] by (auto simp: in_inherited_group_ids)
  then have "i \<notin> set (groups_of db u)" by blast
  then have same: "groups_of db' u = groups_of db u"
    unfolding groups_of_def eqs(4) by (auto intro!: arg_cong [where f = "map gm_group_id"] filter_cong)
  have irr: "(i, i) \<notin> ?R" using hierarchy_invD(4) [OF assms(1)] by (auto simp: acyclic_def)
  have "(d, gid) \<in> (spliced ?R i)\<^sup>* \<longleftrightarrow> (d, gid) \<in> ?R\<^sup>*" if "d \<in> set (groups_of db u)" "gid \<noteq> i" for d gid
    using rtrancl_spliced [OF hierarchy_invD(4) [OF assms(1)] sv _ that(2), of d] below [OF that(1)] by blast
  then have "gid \<in> inherited_group_ids db' u \<longleftrightarrow> gid \<in> inherited_group_ids db u" for gid
    unfolding in_inherited_group_ids eqs(1,2) same using below by (cases "gid = i") simp_all
  then show ?thesis by (rule set_eqI)
qed

theorem delete_refreshes_affected_witness:
  "delete_group_by_id 2 ''eng'' demo_db = Inr (demo_pruned, [''ann'']) \<and>
   inherited_group_ids demo_pruned ''bob'' = inherited_group_ids demo_db ''bob''"
  using delete_refreshes_affected [OF demo_hierarchy_inv demo_delete, of "''bob''"] demo_delete by simp

text \<open>
  The two directions of the membership queries agree, cycles or not: a group is among a
  user's groups, inherited ones included, exactly when the user is among that group's users,
  members of its descendants included.
\<close>

theorem member_queries_agree:
  "gid \<in> g_id ` set (get_groups_by_member_id db u True) \<longleftrightarrow> u \<in> set (get_group_user_ids_by_id db gid True)"
  using hierarchy.dual [of gid db u] by (simp only: inherited_group_ids_def inherited_user_ids_def)

text \<open>
  Setting a group's members: afterwards the direct members of the group are the given users,
  memberships of other groups and the hierarchy are as before, and the users handed to the session
  refresh are exactly those who joined or left.
\<close>

theorem set_group_user_ids_effect:
  assumes "set_group_user_ids_by_id uuid now gid uids db = Inr (db', refreshed)"
  shows "set (members_of db' h) = (if h = gid then set uids else set (members_of db h)) \<and>
    parent_rel (db_groups db') = parent_rel (db_groups db) \<and>
    set refreshed = (set (members_of db gid) - set uids) \<union> (set uids - set (members_of db gid))"
proof -
  note pairs = set_group_user_ids_by_id_pairs [OF assms]
  have "u \<in> set (members_of db' h) \<longleftrightarrow> u \<in> (if h = gid then set uids else set (members_of db h))" for u
    unfolding in_members_of pairs(1) by (auto simp: in_members_of)
  moreover have "{u. (gid, u) \<in> member_pairs db} = set (members_of db gid)" by (auto simp: in_members_of)
  ultimately show ?thesis using pairs(2,3) by (simp add: set_eq_iff)
qed

theorem set_group_user_ids_effect_witness:
  "\<exists>db' refreshed. set_group_user_ids_by_id demo_ids 5 ''org'' [''ann'', ''cat''] demo_db = Inr (db', refreshed) \<and>
     set (members_of db' ''org'') = {''ann'', ''cat''} \<and> set refreshed = {''ann'', ''bob'', ''cat''}"
proof -
  have mem: "members_of demo_db ''org'' = [''bob'']" by code_simp
  obtain db' r where ok: "set_group_user_ids_by_id demo_ids 5 ''org'' [''ann'', ''cat''] demo_db = Inr (db', r)"
    by (simp add: set_group_user_ids_by_id_def Let_def demo_id_set)
  from set_group_user_ids_effect [OF this, of "''org''"] show ?thesis
    by (intro exI [of _ db'] exI [of _ r]) (auto simp: ok mem)
qed

subsection \<open>Grants\<close>

text \<open>
  Replacing the grants of a resource succeeds when the fresh row ids are new, keeps ids and
  grant keys unique, leaves every other resource's grants alone, and leaves the resource with
  exactly the valid entries of the list it was given.
\<close>

theorem set_access_grants_effect:
  assumes "grants_ok t" and "inj uuid" and "\<And>i. uuid i \<notin> ag_id ` set t"
  shows "\<exists>t' res. set_access_grants uuid now rt rid gs t = Inr (t', res) \<and> grants_ok t' \<and>
    ag_key ` set t' = {k \<in> ag_key ` set t. \<not> (fst k = rt \<and> fst (snd k) = rid)}
           \<union> {(rt, rid, k) | k. \<exists>g\<in>set gs. grant_entry_key g = Some k}"
proof -
  from set_access_grants_succeeds [OF assms] obtain t' res where
    run: "set_access_grants uuid now rt rid gs t = Inr (t', res)" by blast
  from run set_access_grants_keys [OF run] show ?thesis by (intro exI conjI)
qed

lemma demo_grants_ok: "grants_ok demo_grants"
  by (simp add: grants_ok_def demo_grants_def)

lemma demo_ids_fresh: "demo_ids i \<notin> ag_id ` set demo_grants"
  by (simp add: demo_grants_def demo_ids_def mk_grant_def)

definition demo_entry :: "string \<Rightarrow> string \<Rightarrow> string \<Rightarrow> py" where
  "demo_entry pt pid perm =
     PDict [(''principal_type'', PStr pt), (''principal_id'', PStr pid), (''permission'', PStr perm)]"

lemma demo_entry_keys:
  "grant_entry_key (demo_entry ''user'' ''*'' ''read'') = Some (''user'', ''*'', ''read'')"
  "grant_entry_key (demo_entry ''robot'' ''r'' ''read'') = None"
  by (simp_all add: demo_entry_def grant_entry_key_def Let_def py_simps)

theorem set_access_grants_effect_witness:
  "\<exists>t' res. set_access_grants demo_ids 9 ''model'' ''m1''
       [demo_entry ''user'' ''*'' ''read'', demo_entry ''robot'' ''r'' ''read''] demo_grants = Inr (t', res) \<and>
     ag_key ` set t' = {(''model'', ''m1'', ''user'', ''*'', ''read'')}"
proof -
  have "{k \<in> ag_key ` set demo_grants. \<not> (fst k = ''model'' \<and> fst (snd k) = ''m1'')} = {}"
    by (auto simp: demo_grants_def)
  moreover have "{(''model'', ''m1'', k) | k. \<exists>g \<in> set [demo_entry ''user'' ''*'' ''read'', demo_entry ''robot'' ''r'' ''read''].
      grant_entry_key g = Some k} = {(''model'', ''m1'', ''user'', ''*'', ''read'')}"
    by (simp add: demo_entry_keys)
  ultimately show ?thesis
    using set_access_grants_effect [OF demo_grants_ok demo_ids_inj demo_ids_fresh, of 9 "''model''" "''m1''"
        "[demo_entry ''user'' ''*'' ''read'', demo_entry ''robot'' ''r'' ''read'']"]
    by (simp only: Un_empty_left) blast
qed

text \<open>
  Normalising grants keeps one entry for each valid grant key that occurs in the list,
  whatever else the list holds, and normalising the result again changes nothing, ids included.
\<close>

theorem normalize_canonical:
  assumes "\<And>n. uuid n \<noteq> []"
  shows "distinct (map norm_key (normalize_access_grants uuid gs)) \<and>
    norm_key ` set (normalize_access_grants uuid gs) = {k. \<exists>g \<in> set gs. grant_entry_key g = Some k} \<and>
    normalize_access_grants uuid' (map norm_py (normalize_access_grants uuid gs)) = normalize_access_grants uuid gs"
  by (intro conjI normalize_distinct normalize_key_set normalize_of_normalized assms)

theorem normalize_canonical_witness:
  "norm_key ` set (normalize_access_grants demo_ids [demo_entry ''user'' ''*'' ''read'', demo_entry ''robot'' ''r'' ''read''])
    = {(''user'', ''*'', ''read'')}"
proof -
  have "{k. \<exists>g \<in> set [demo_entry ''user'' ''*'' ''read'', demo_entry ''robot'' ''r'' ''read'']. grant_entry_key g = Some k}
      = {(''user'', ''*'', ''read'')}"
    by (simp add: demo_entry_keys)
  with normalize_canonical [OF demo_ids_nonempty] show ?thesis by (simp only:)
qed

text \<open>
  A legacy access control dict whose id lists have no duplicates and name no public user
  survives the conversion to grants and back.
\<close>

theorem legacy_round_trip:
  assumes "legacy_wf r"
  shows "grants_to_access_control (new_grants uuid now (access_control_to_grants rt rid (Some (legacy_dict r))))
       = Some (if r = no_legacy then [] else legacy_dict r)"
  using assms by (rule grants_to_access_control_roundtrip)

definition demo_legacy :: legacy_perms where
  "demo_legacy = \<lparr>read_group_ids = [''org''], read_user_ids = [''ann'', ''bob''], write_group_ids = [], write_user_ids = [''bob'']\<rparr>"

theorem legacy_round_trip_witness:
  "grants_to_access_control (new_grants demo_ids 1 (access_control_to_grants ''note'' ''n'' (Some (legacy_dict demo_legacy))))
    = Some (legacy_dict demo_legacy)"
  using legacy_round_trip [of demo_legacy demo_ids 1 "''note''" "''n''"]
  by (simp add: legacy_wf_def demo_legacy_def no_legacy_def)

subsection \<open>Access checks\<close>


definition demo_user :: "string \<Rightarrow> string \<Rightarrow> user_row" where
  "demo_user i role = \<lparr>u_id = i, u_name = i, u_email = i, u_role = role\<rparr>"


text \<open>
  After a change of a resource's grants, the users reported as revoked are exactly those the
  previous grants admitted and the check now turns away.
\<close>

theorem revoked_users_exact:
  "get_revoked_user_ids_by_resource db users rt rid previous perm =
     {u \<in> get_user_ids_by_access_grants db users previous perm. \<not> grants_has_access db u rt rid perm None}"
  by (rule revoked_iff)

text \<open>
  (C22) The listing filters admit what the check admits: for a signed-in user and the groups the
  check itself would look up, a document is kept exactly when the user owns it or has the
  permission, and the read-only filter keeps exactly the documents the user may read but neither
  owns nor may write.
\<close>

theorem permission_filters_iff:
  assumes "u \<noteq> []"
  shows "d \<in> set (has_permission_filter (db_grants db) doc_id doc_user query
            (map g_id (get_groups_by_member_id db u True)) u rt perm) \<longleftrightarrow>
    d \<in> set query \<and>
    (if perm = ''read_only''
     then grants_has_access db u rt (doc_id d) ''read'' None \<and>
          \<not> grants_has_access db u rt (doc_id d) ''write'' None \<and> doc_user d \<noteq> u
     else doc_user d = u \<or> grants_has_access db u rt (doc_id d) perm None)"
proof -
  have ex: "grant_exists (db_grants db) rt p u i (map g_id (get_groups_by_member_id db u True)) \<longleftrightarrow>
      grants_has_access db u rt i p None" for p i
    using grant_exists_iff [OF assms, of db rt p i None] by (simp add: resolve_group_ids_def)
  show ?thesis
    using assms by (auto simp: has_permission_filter_def has_read_only_permission_filter_def ex)
qed

theorem permission_filters_iff_witness:
  "''m1'' \<in> set (has_permission_filter (db_grants demo_db) id (\<lambda>_. ''root'') [''m1'', ''m2'']
      (map g_id (get_groups_by_member_id demo_db ''ann'' True)) ''ann'' ''model'' ''read_only'')"
proof -
  have "grants_has_access demo_db ''ann'' ''model'' ''m1'' ''read'' None"
    "\<not> grants_has_access demo_db ''ann'' ''model'' ''m1'' ''write'' None" by code_simp+
  then show ?thesis
    using permission_filters_iff [of "''ann''" "''m1''" demo_db id "\<lambda>_. ''root''" "[''m1'', ''m2'']" "''model''" "''read_only''"]
    by simp
qed

text \<open>
  The batch query and the single check agree: of a list of resource ids,
  \<open>get_accessible_resource_ids\<close> returns exactly those the check admits, whether the caller passes
  the group ids or not.
\<close>

theorem accessible_ids_exact:
  "get_accessible_resource_ids db u rt rids perm gids = {rid \<in> set rids. grants_has_access db u rt rid perm gids}"
  by (rule accessible_iff_has_access)

subsection \<open>Permissions, sharing and models\<close>

text \<open>
  When the default permissions and the groups' permissions have the shape of the configured
  schema, combining them never raises, and the check of one dotted key, which stops at the first
  group that allows it, gives the value found in the combined tree, the most permissive one.
\<close>

theorem permission_check_matches_tree:
  assumes "conforms (PDict dup) (PDict dup)" and "conforms (PDict dup) (PDict defaults)"
    and "\<forall>g \<in> set (get_groups_by_member_id db u True). conforms (PDict dup) (PDict (dict_or_empty (g_permissions g)))"
    and "fits (PDict dup) (split_on (CHR ''.'') key)"
  shows "\<exists>q. get_permissions db dup u defaults = Inr q \<and>
    has_permission db dup u key defaults = get_permission q (split_on (CHR ''.'') key)"
  using assms by (rule has_permission_get_permissions)

definition demo_schema :: pydict where
  "demo_schema = [(''sharing'', PDict [(''models'', PBool False), (''public_models'', PBool False)]),
     (''access_grants'', PDict [(''allow_users'', PBool True), (''allow_groups'', PBool True)])]"

lemma demo_schema_ok:
  "conforms (PDict demo_schema) (PDict demo_schema)"
  "\<forall>g \<in> set (get_groups_by_member_id demo_db ''ann'' True). conforms (PDict demo_schema) (PDict (dict_or_empty (g_permissions g)))"
  "fits (PDict demo_schema) (split_on (CHR ''.'') ''access_grants.allow_users'')"
  "list_all (\<lambda>e. is_dict (snd e)) demo_schema"
  by code_simp+

theorem permission_check_matches_tree_witness:
  "has_permission demo_db demo_schema ''ann'' ''access_grants.allow_users'' demo_schema = Inr True"
proof -
  from permission_check_matches_tree [OF demo_schema_ok(1) demo_schema_ok(1) demo_schema_ok(2,3)]
  obtain q where q: "get_permissions demo_db demo_schema ''ann'' demo_schema = Inr q"
    "has_permission demo_db demo_schema ''ann'' ''access_grants.allow_users'' demo_schema
       = get_permission q (split_on (CHR ''.'') ''access_grants.allow_users'')" by blast
  moreover have "get_permissions demo_db demo_schema ''ann'' demo_schema = Inr (PDict demo_schema)" by code_simp
  moreover have "get_permission (PDict demo_schema) (split_on (CHR ''.'') ''access_grants.allow_users'') = Inr True"
    by code_simp
  ultimately show ?thesis by simp
qed


definition demo_shared :: "norm_grant list" where
  "demo_shared = [\<lparr>n_id = ''u'', n_principal_type = ''user'', n_principal_id = ''bob'', n_permission = ''read''\<rparr>]"


text \<open>
  \<open>check_model_access\<close> lets a user who is not an administrator use a model exactly when the
  user owns or may read that model and every base model reached from it; a base model missing from
  the table, or one the user may not read, anywhere along the chain blocks it. The walk ends on
  cyclic chains too.
\<close>

theorem model_access_needs_every_base:
  assumes "distinct (map mo_id models)" and "m \<in> set models" and "u_role user \<noteq> ''admin''"
  shows "check_model_access db models user (Some m) False = Inr () \<longleftrightarrow>
    (\<forall>b. (mo_id m, b) \<in> (base_rel models)\<^sup>* \<longrightarrow>
       (\<exists>n \<in> set models. mo_id n = b \<and>
          (mo_user_id n = u_id user \<or> grants_has_access db (u_id user) ''model'' b ''read'' None)))"
  using assms by (rule check_model_access_iff)

definition demo_model :: "string \<Rightarrow> string option \<Rightarrow> model_row" where
  "demo_model i b = \<lparr>mo_id = i, mo_user_id = ''root'', mo_base_model_id = b, mo_name = i, mo_price = PNone\<rparr>"

theorem model_access_needs_every_base_witness:
  "check_model_access demo_db [demo_model ''m1'' (Some ''m2''), demo_model ''m2'' (Some ''m1'')]
     (demo_user ''ann'' ''user'') (Some (demo_model ''m1'' (Some ''m2''))) False \<noteq> Inr ()"
proof -
  let ?ms = "[demo_model ''m1'' (Some ''m2''), demo_model ''m2'' (Some ''m1'')]"
  have "(''m1'', ''m2'') \<in> (base_rel ?ms)\<^sup>*"
    using base_rel_succ [of ?ms "demo_model ''m1'' (Some ''m2'')" "''m2''"]
    by (intro r_into_rtrancl) (simp add: demo_model_def)
  moreover have "\<not> grants_has_access demo_db ''ann'' ''model'' ''m2'' ''read'' None" by code_simp
  ultimately show ?thesis
    using model_access_needs_every_base [of ?ms "demo_model ''m1'' (Some ''m2'')" "demo_user ''ann'' ''user''" demo_db]
    by (auto simp: demo_model_def demo_user_def)
qed

end
