(* ===== verification/Folders.thy ===== *)
theory Folders
  imports Access_Control
begin

text \<open>
  The chat folders of \<^verbatim>\<open>models/folders.py\<close>, each user's forest of rows in the table \<open>folder\<close>, and
  the access to them of \<^verbatim>\<open>utils/access_control/folders.py\<close>, inherited from the folders above; the
  unread counts that \<^verbatim>\<open>routers/folders.py\<close> sums up the forest. No constraint of the database keeps
  the parent links free of cycles, so the code guards every walk with a set of visited ids.
  In a form a field is either absent (\<open>None\<close>) or holds a value of its type.
\<close>

subsection \<open>Rows and forms\<close>

record folder_row =
  fo_id :: string
  fo_parent_id :: "string option"
  fo_user_id :: string
  fo_name :: string
  fo_items :: py
  fo_meta :: py
  fo_data :: py
  fo_is_expanded :: bool
  fo_created_at :: int
  fo_updated_at :: int

record folder_form =
  ff_name :: string
  ff_data :: "pydict option"
  ff_meta :: "pydict option"

record folder_update_form =
  fu_name :: "string option"
  fu_data :: "pydict option"
  fu_meta :: "pydict option"

definition py_of_dict :: "pydict option \<Rightarrow> py" where
  "py_of_dict d = (case d of None \<Rightarrow> PNone | Some d \<Rightarrow> PDict d)"

subsection \<open>Queries\<close>

definition get_folder_by_id_and_user_id :: "folder_row list \<Rightarrow> string \<Rightarrow> string \<Rightarrow> folder_row option" where
  "get_folder_by_id_and_user_id fs i u = find (\<lambda>f. fo_id f = i \<and> fo_user_id f = u) fs"

definition get_folder_by_id :: "folder_row list \<Rightarrow> string \<Rightarrow> folder_row option" where
  "get_folder_by_id fs i = find (\<lambda>f. fo_id f = i) fs"

definition get_folders_by_ids :: "folder_row list \<Rightarrow> string list \<Rightarrow> folder_row list" where
  "get_folders_by_ids fs ids = sort_key (\<lambda>f. - fo_updated_at f) (filter (\<lambda>f. fo_id f \<in> set ids) fs)"

definition get_folders_by_user_id :: "folder_row list \<Rightarrow> string \<Rightarrow> folder_row list" where
  "get_folders_by_user_id fs u = filter (\<lambda>f. fo_user_id f = u) fs"

text \<open>\<open>sql_lower\<close> is the database's \<open>lower\<close>.\<close>

definition get_folder_by_parent_id_and_user_id_and_name ::
  "(string \<Rightarrow> string) \<Rightarrow> folder_row list \<Rightarrow> string option \<Rightarrow> string \<Rightarrow> string \<Rightarrow> folder_row option" where
  "get_folder_by_parent_id_and_user_id_and_name sql_lower fs parent_id u name =
     find (\<lambda>f. fo_parent_id f = parent_id \<and> fo_user_id f = u \<and> sql_lower (fo_name f) = sql_lower name) fs"

definition get_folders_by_parent_id_and_user_id :: "folder_row list \<Rightarrow> string option \<Rightarrow> string \<Rightarrow> folder_row list" where
  "get_folders_by_parent_id_and_user_id fs parent_id u =
     sort_key (\<lambda>f. - fo_updated_at f) (filter (\<lambda>f. fo_parent_id f = parent_id \<and> fo_user_id f = u) fs)"

text \<open>
  The permissions of \<open>get_shared_folder_ids_for_user\<close>: a later grant replaces the recorded one
  unless that is already write.
\<close>

fun highest_permissions :: "access_grant list \<Rightarrow> (string \<times> string) list \<Rightarrow> (string \<times> string) list" where
  "highest_permissions [] folder_perms = folder_perms"
| "highest_permissions (g # gs) folder_perms =
     highest_permissions gs
       (if map_of folder_perms (ag_resource_id g) \<noteq> Some ''write''
        then AList.update (ag_resource_id g) (ag_permission g) folder_perms else folder_perms)"

definition get_shared_folder_ids_for_user ::
  "folder_row list \<Rightarrow> access_grant list \<Rightarrow> string \<Rightarrow> string list \<Rightarrow> (string \<times> string) list" where
  "get_shared_folder_ids_for_user fs grants u group_ids =
     highest_permissions
       (filter (\<lambda>g. ag_resource_type g = ''folder'' \<and>
          (ag_resource_id g \<in> fo_id ` set (filter (\<lambda>f. fo_user_id f = u) fs) \<or> principal_matches u group_ids g)) grants) []"

subsection \<open>Walks down the forest\<close>

text \<open>
  The nested functions \<open>get_children\<close> and \<open>delete_children\<close> with their call stack: entering a
  folder that was not seen calls the function on it, leaving it appends it to the result and, in
  \<open>delete_children\<close>, deletes its row before the next query runs.
\<close>

datatype frame = Enter folder_row | Leave folder_row

fun entered :: "frame \<Rightarrow> string list" where
  "entered (Enter f) = [fo_id f]"
| "entered (Leave f) = []"

definition delete_row :: "string \<Rightarrow> folder_row list \<Rightarrow> folder_row list" where
  "delete_row i fs = filter (\<lambda>f. fo_id f \<noteq> i) fs"

function folder_walk ::
  "bool \<Rightarrow> string \<Rightarrow> folder_row list \<Rightarrow> string set \<Rightarrow> folder_row list \<Rightarrow> frame list \<Rightarrow> folder_row list \<times> folder_row list" where
  "folder_walk deleting u fs seen acc [] = (fs, acc)"
| "folder_walk deleting u fs seen acc (Enter child # stack) =
     (if fo_id child \<in> seen then folder_walk deleting u fs seen acc stack
      else folder_walk deleting u fs (insert (fo_id child) seen) acc
             (map Enter (get_folders_by_parent_id_and_user_id fs (Some (fo_id child)) u) @ Leave child # stack))"
| "folder_walk deleting u fs seen acc (Leave child # stack) =
     folder_walk deleting u (if deleting then delete_row (fo_id child) fs else fs) seen (acc @ [child]) stack"
  by pat_completeness auto
termination
proof (relation "measures [\<lambda>(_, _, fs, seen, _, st). card ((fo_id ` set fs \<union> set (concat (map entered st))) - seen),
    \<lambda>(_, _, _, _, _, st). length st]", goal_cases)
  case (2 deleting u fs seen acc child stack)
  have "card ((fo_id ` set fs \<union> set (concat (map entered stack))) - seen)
      \<le> card ((fo_id ` set fs \<union> set (concat (map entered (Enter child # stack)))) - seen)"
    by (intro card_mono) auto
  then show ?case by auto
next
  case (3 deleting u fs seen acc child stack)
  have "concat (map entered (map Enter (get_folders_by_parent_id_and_user_id fs (Some (fo_id child)) u)))
      = map fo_id (get_folders_by_parent_id_and_user_id fs (Some (fo_id child)) u)" for f
    by (simp add: comp_def concat_map_singleton)
  then have "set (concat (map entered (map Enter (get_folders_by_parent_id_and_user_id fs (Some (fo_id child)) u))))
      \<subseteq> fo_id ` set fs"
    by (auto simp: get_folders_by_parent_id_and_user_id_def)
  with 3 have "(fo_id ` set fs \<union> set (concat (map entered
        (map Enter (get_folders_by_parent_id_and_user_id fs (Some (fo_id child)) u) @ Leave child # stack)))) - insert (fo_id child) seen
      \<subset> (fo_id ` set fs \<union> set (concat (map entered (Enter child # stack)))) - seen"
    by auto
  from psubset_card_mono [OF _ this] show ?case by simp
next
  case (4 deleting u fs seen acc child stack)
  have "card ((fo_id ` set (if deleting then delete_row (fo_id child) fs else fs) \<union> set (concat (map entered stack))) - seen)
      \<le> card ((fo_id ` set fs \<union> set (concat (map entered (Leave child # stack)))) - seen)"
    by (intro card_mono) (auto simp: delete_row_def)
  then show ?case by auto
qed simp

definition get_children_folders_by_id_and_user_id :: "folder_row list \<Rightarrow> string \<Rightarrow> string \<Rightarrow> folder_row list option" where
  "get_children_folders_by_id_and_user_id fs i u =
     (case get_folder_by_id_and_user_id fs i u of
        None \<Rightarrow> None
      | Some f \<Rightarrow>
          Some (snd (folder_walk False u fs {i} []
                  (map Enter (get_folders_by_parent_id_and_user_id fs (Some (fo_id f)) u)))))"

text \<open>The loop of the subtree query: \<open>stack\<close> is the Python list read from its end.\<close>

function subtree_loop :: "string \<Rightarrow> folder_row list \<Rightarrow> string set \<Rightarrow> string list \<Rightarrow> string set" where
  "subtree_loop u fs folder_ids [] = folder_ids"
| "subtree_loop u fs folder_ids (current # stack) =
     (let new = filter (\<lambda>i. i \<notin> folder_ids)
                  (dict_fromkeys (map fo_id (get_folders_by_parent_id_and_user_id fs (Some current) u)))
      in subtree_loop u fs (folder_ids \<union> set new) (rev new @ stack))"
  by pat_completeness auto
termination
proof (relation "measures [\<lambda>(_, fs, ids, _). card (fo_id ` set fs - ids), \<lambda>(_, _, _, st). length st]", goal_cases)
  case (2 u fs ids current stack new)
  have sub: "set new \<subseteq> fo_id ` set fs - ids"
    by (auto simp: 2 get_folders_by_parent_id_and_user_id_def dict_fromkeys_def set_fold_append_new)
  show ?case
  proof (cases "new = []")
    case False
    with sub have "fo_id ` set fs - (ids \<union> set new) \<subset> fo_id ` set fs - ids"
      by (cases new) auto
    from psubset_card_mono [OF _ this] show ?thesis by simp
  qed simp
qed simp

definition get_folder_ids_by_id_and_user_id_in_subtree :: "folder_row list \<Rightarrow> string \<Rightarrow> string \<Rightarrow> string set" where
  "get_folder_ids_by_id_and_user_id_in_subtree fs i u =
     (case get_folder_by_id_and_user_id fs i u of
        None \<Rightarrow> {}
      | Some f \<Rightarrow> subtree_loop u fs {fo_id f} [fo_id f])"

subsection \<open>Operations that change the table\<close>

text \<open>An insert with an id that is in use raises inside the try block, which returns None.\<close>

definition insert_new_folder ::
  "string \<Rightarrow> int \<Rightarrow> string \<Rightarrow> folder_form \<Rightarrow> string option \<Rightarrow> folder_row list \<Rightarrow> folder_row list \<times> folder_row option" where
  "insert_new_folder uuid now u form parent_id fs =
     (let f = \<lparr>fo_id = uuid, fo_parent_id = parent_id, fo_user_id = u, fo_name = ff_name form, fo_items = PNone,
               fo_meta = py_of_dict (ff_meta form), fo_data = py_of_dict (ff_data form), fo_is_expanded = False,
               fo_created_at = now, fo_updated_at = now\<rparr>
      in if uuid \<in> fo_id ` set fs then (fs, None) else (fs @ [f], Some f))"

definition set_row :: "folder_row \<Rightarrow> folder_row list \<Rightarrow> folder_row list" where
  "set_row f fs = map (\<lambda>g. if fo_id g = fo_id f then f else g) fs"

definition update_folder_parent_id_by_id_and_user_id ::
  "int \<Rightarrow> string \<Rightarrow> string \<Rightarrow> string option \<Rightarrow> folder_row list \<Rightarrow> folder_row list \<times> folder_row option" where
  "update_folder_parent_id_by_id_and_user_id now i u parent_id fs =
     (case get_folder_by_id_and_user_id fs i u of
        None \<Rightarrow> (fs, None)
      | Some f \<Rightarrow> (let f' = f\<lparr>fo_parent_id := parent_id, fo_updated_at := now\<rparr> in (set_row f' fs, Some f')))"

definition update_folder_by_id_and_user_id ::
  "int \<Rightarrow> string \<Rightarrow> string \<Rightarrow> folder_update_form \<Rightarrow> folder_row list \<Rightarrow> folder_row list \<times> folder_row option" where
  "update_folder_by_id_and_user_id now i u form fs =
     (case get_folder_by_id_and_user_id fs i u of
        None \<Rightarrow> (fs, None)
      | Some f \<Rightarrow>
          (let existing = find (\<lambda>g. fu_name form = Some (fo_name g) \<and> fo_parent_id g = fo_parent_id f \<and> fo_user_id g = u) fs
           in if (case existing of None \<Rightarrow> False | Some g \<Rightarrow> fo_id g \<noteq> i) then (fs, None)
              else
                (let f' = f\<lparr>fo_name := (case fu_name form of None \<Rightarrow> fo_name f | Some n \<Rightarrow> n),
                            fo_data := (case fu_data form of None \<Rightarrow> fo_data f
                                        | Some d \<Rightarrow> PDict (dict_merge (dict_or_empty (fo_data f)) d)),
                            fo_meta := (case fu_meta form of None \<Rightarrow> fo_meta f
                                        | Some d \<Rightarrow> PDict (dict_merge (dict_or_empty (fo_meta f)) d)),
                            fo_updated_at := now\<rparr>
                 in (set_row f' fs, Some f'))))"

definition update_folder_is_expanded_by_id_and_user_id ::
  "int \<Rightarrow> string \<Rightarrow> string \<Rightarrow> bool \<Rightarrow> folder_row list \<Rightarrow> folder_row list \<times> folder_row option" where
  "update_folder_is_expanded_by_id_and_user_id now i u is_expanded fs =
     (case get_folder_by_id_and_user_id fs i u of
        None \<Rightarrow> (fs, None)
      | Some f \<Rightarrow> (let f' = f\<lparr>fo_is_expanded := is_expanded, fo_updated_at := now\<rparr> in (set_row f' fs, Some f')))"

definition delete_folder_by_id_and_user_id ::
  "string \<Rightarrow> string \<Rightarrow> folder_row list \<Rightarrow> folder_row list \<times> string list" where
  "delete_folder_by_id_and_user_id i u fs =
     (case get_folder_by_id_and_user_id fs i u of
        None \<Rightarrow> (fs, [])
      | Some f \<Rightarrow>
          (case folder_walk True u fs {fo_id f} []
                  (map Enter (get_folders_by_parent_id_and_user_id fs (Some (fo_id f)) u)) of
             (fs', deleted) \<Rightarrow> (delete_row (fo_id f) fs', fo_id f # map fo_id deleted)))"

subsection \<open>Search by name\<close>

definition blank_or_underscore :: "char \<Rightarrow> bool" where
  "blank_or_underscore c \<longleftrightarrow> is_space c \<or> c = CHR ''_''"

text \<open>\<open>re.sub(r'[\s_]+', ' ', name)\<close>\<close>

function collapse_blanks :: "string \<Rightarrow> string" where
  "collapse_blanks [] = []"
| "collapse_blanks (c # s) =
     (if blank_or_underscore c then CHR '' '' # collapse_blanks (dropWhile blank_or_underscore s) else c # collapse_blanks s)"
  by pat_completeness auto
termination
  by (relation "measure length") (auto simp: le_imp_less_Suc length_dropWhile_le)

definition normalize_folder_name :: "string \<Rightarrow> string" where
  "normalize_folder_name name = map ascii_lower (py_strip (collapse_blanks name))"

fun collect_folders :: "folder_row list \<Rightarrow> string \<Rightarrow> string list \<Rightarrow> folder_row list \<Rightarrow> (string \<times> folder_row) list \<Rightarrow> (string \<times> folder_row) list" where
  "collect_folders fs u queries [] results = results"
| "collect_folders fs u queries (f # rest) results =
     collect_folders fs u queries rest
       (if normalize_folder_name (fo_name f) \<in> set queries
        then fold (\<lambda>c r. AList.update (fo_id c) c r)
               (case get_children_folders_by_id_and_user_id fs (fo_id f) u of None \<Rightarrow> [] | Some cs \<Rightarrow> cs)
               (AList.update (fo_id f) f results)
        else results)"

definition search_folders_by_names :: "folder_row list \<Rightarrow> string \<Rightarrow> string list \<Rightarrow> folder_row list" where
  "search_folders_by_names fs u queries =
     (if queries = [] then []
      else map snd (collect_folders fs u (map normalize_folder_name queries) (get_folders_by_user_id fs u) []))"

definition search_folders_by_name_contains :: "folder_row list \<Rightarrow> string \<Rightarrow> string \<Rightarrow> folder_row list" where
  "search_folders_by_name_contains fs u query =
     filter (\<lambda>f. contains_str (normalize_folder_name query) (normalize_folder_name (fo_name f)))
       (get_folders_by_user_id fs u)"

subsection \<open>Access\<close>

definition parent_folder :: "folder_row list \<Rightarrow> folder_row \<Rightarrow> folder_row option" where
  "parent_folder fs f =
     (case fo_parent_id f of None \<Rightarrow> None | Some p \<Rightarrow> if p = [] then None else get_folder_by_id fs p)"

function folder_access_loop ::
  "group_db \<Rightarrow> folder_row list \<Rightarrow> string \<Rightarrow> string \<Rightarrow> string set \<Rightarrow> folder_row option \<Rightarrow> bool" where
  "folder_access_loop db fs u permission seen None = False"
| "folder_access_loop db fs u permission seen (Some f) =
     (if fo_id f \<in> seen then False
      else if fo_user_id f = u then True
      else if grants_has_access db u ''folder'' (fo_id f) permission None then True
      else folder_access_loop db fs u permission (insert (fo_id f) seen) (parent_folder fs f))"
  by pat_completeness auto
termination
proof (relation "measure (\<lambda>(_, fs, _, _, seen, f). card (fo_id ` (set fs \<union> set_option f) - seen))", goal_cases)
  case (2 db fs u permission seen f)
  have "set_option (parent_folder fs f) \<subseteq> set fs"
    by (auto simp: parent_folder_def get_folder_by_id_def split: option.splits if_splits dest: find_Some)
  with 2 have "fo_id ` (set fs \<union> set_option (parent_folder fs f)) - insert (fo_id f) seen
      \<subset> fo_id ` (set fs \<union> set_option (Some f)) - seen" by auto
  from psubset_card_mono [OF _ this] show ?case by simp
qed simp

definition has_folder_access :: "group_db \<Rightarrow> folder_row list \<Rightarrow> string \<Rightarrow> folder_row \<Rightarrow> string \<Rightarrow> bool" where
  "has_folder_access db fs u f permission = folder_access_loop db fs u permission {} (Some f)"

definition has_folder_write_access :: "group_db \<Rightarrow> folder_row list \<Rightarrow> string \<Rightarrow> string \<Rightarrow> bool" where
  "has_folder_write_access db fs u folder_id =
     (case get_folder_by_id fs folder_id of None \<Rightarrow> False | Some f \<Rightarrow> has_folder_access db fs u f ''write'')"

text \<open>\<open>get_owned_folder_root_id\<close>: \<open>shared_root_id\<close> is the last shared folder met so far.\<close>

function owned_root_loop ::
  "group_db \<Rightarrow> folder_row list \<Rightarrow> string \<Rightarrow> string set \<Rightarrow> string option \<Rightarrow> string option \<Rightarrow> string option" where
  "owned_root_loop db fs u seen shared_root_id folder_id =
     (case folder_id of
        None \<Rightarrow> None
      | Some i \<Rightarrow>
          (if i = [] \<or> i \<in> seen then None
           else case get_folder_by_id fs i of
                  None \<Rightarrow> None
                | Some f \<Rightarrow>
                    (if fo_user_id f \<noteq> u then None
                     else
                       (let shared = (if get_grants_by_resource ''folder'' (fo_id f) (db_grants db) \<noteq> []
                                      then Some (fo_id f) else shared_root_id)
                        in if fo_parent_id f = None \<or> fo_parent_id f = Some []
                           then (case shared of None \<Rightarrow> Some (fo_id f)
                                 | Some r \<Rightarrow> if r = [] then Some (fo_id f) else Some r)
                           else owned_root_loop db fs u (insert i seen) shared (fo_parent_id f)))))"
  by pat_completeness auto
termination
  by (relation "measure (\<lambda>(_, fs, _, seen, _, _). card (fo_id ` set fs - seen))")
     (auto simp: get_folder_by_id_def dest!: find_Some intro!: psubset_card_mono)

declare owned_root_loop.simps [simp del]

definition has_chat_move_access ::
  "group_db \<Rightarrow> folder_row list \<Rightarrow> string \<Rightarrow> string option \<Rightarrow> string option \<Rightarrow> bool" where
  "has_chat_move_access db fs u source_folder_id target_folder_id =
     (let source_root_id = owned_root_loop db fs u {} None source_folder_id
      in source_root_id \<noteq> None \<and> source_root_id = owned_root_loop db fs u {} None target_folder_id)"

subsection \<open>Unread counts\<close>

text \<open>\<open>direct\<close> are the counts of \<open>Chats.count_unread_by_folder_ids\<close>, by folder.\<close>

function add_upwards :: "(string \<times> string option) list \<Rightarrow> nat \<Rightarrow> string set \<Rightarrow> string option \<Rightarrow> (string \<Rightarrow> nat) \<Rightarrow> string \<Rightarrow> nat" where
  "add_upwards parent_by_id n seen current counts =
     (case current of
        None \<Rightarrow> counts
      | Some i \<Rightarrow>
          (if i = [] \<or> i \<in> seen then counts
           else add_upwards parent_by_id n (insert i seen) (Option.bind (map_of parent_by_id i) (\<lambda>p. p))
                  (if map_of parent_by_id i \<noteq> None then counts(i := counts i + n) else counts)))"
  by pat_completeness auto
termination
proof (relation "measure (\<lambda>(parents, _, seen, current, _).
    card (insert [] (fst ` set parents \<union> set_option current \<union> (\<Union>p \<in> set parents. set_option (snd p))) - seen))", goal_cases)
  case (2 parents n seen current counts i)
  let ?A = "\<lambda>current. insert [] (fst ` set parents \<union> set_option current \<union> (\<Union>p \<in> set parents. set_option (snd p)))"
  have "set_option (Option.bind (map_of parents i) (\<lambda>p. p)) \<subseteq> (\<Union>p \<in> set parents. set_option (snd p))"
    by (cases "map_of parents i") (force dest: map_of_SomeD)+
  with 2 have "?A (Option.bind (map_of parents i) (\<lambda>p. p)) - insert i seen \<subset> ?A current - seen" by auto
  from psubset_card_mono [OF _ this] show ?case by simp
qed simp

declare add_upwards.simps [simp del]

definition get_folder_unread_counts :: "folder_row list \<Rightarrow> string \<Rightarrow> (string \<times> nat) list \<Rightarrow> (string \<times> nat) list" where
  "get_folder_unread_counts fs u direct =
     (let parent_by_id = map (\<lambda>f. (fo_id f, fo_parent_id f)) (get_folders_by_user_id fs u);
          counts = fold (\<lambda>(i, n) c. add_upwards parent_by_id n {} (Some i) c) direct (\<lambda>_. 0)
      in map (\<lambda>i. (i, counts i)) (dict_fromkeys (map fst parent_by_id)))"

subsection \<open>Lemmas: walks down the forest\<close>

definition child_rel :: "string \<Rightarrow> folder_row list \<Rightarrow> (string \<times> string) set" where
  "child_rel u fs = {(p, fo_id c) | p c. c \<in> set fs \<and> fo_user_id c = u \<and> fo_parent_id c = Some p}"

lemma set_get_folders_by_parent:
  "set (get_folders_by_parent_id_and_user_id fs p u) = {f \<in> set fs. fo_parent_id f = p \<and> fo_user_id f = u}"
  by (auto simp: get_folders_by_parent_id_and_user_id_def)

lemma child_rel_Image: "child_rel u fs `` {i} = fo_id ` set (get_folders_by_parent_id_and_user_id fs (Some i) u)"
  by (auto simp: child_rel_def set_get_folders_by_parent)

fun leaving :: "frame \<Rightarrow> string list" where
  "leaving (Enter f) = []"
| "leaving (Leave f) = [fo_id f]"

definition entering_ids :: "frame list \<Rightarrow> string list" where
  "entering_ids st = concat (map entered st)"

definition leaving_ids :: "frame list \<Rightarrow> string list" where
  "leaving_ids st = concat (map leaving st)"

lemma stack_ids [simp]:
  "entering_ids [] = []" "leaving_ids [] = []"
  "entering_ids (Enter f # st) = fo_id f # entering_ids st" "leaving_ids (Enter f # st) = leaving_ids st"
  "entering_ids (Leave f # st) = entering_ids st" "leaving_ids (Leave f # st) = fo_id f # leaving_ids st"
  "entering_ids (map Enter fs @ st) = map fo_id fs @ entering_ids st" "leaving_ids (map Enter fs @ st) = leaving_ids st"
  by (simp_all add: entering_ids_def leaving_ids_def comp_def)

text \<open>
  What the walk keeps: the rows left are those not yet deleted; a folder is seen when it is the
  start, was left or is being visited; the children of a seen folder are seen or about to be
  entered; and everything lies below the start.
\<close>

definition walk_inv ::
  "bool \<Rightarrow> string \<Rightarrow> folder_row list \<Rightarrow> string \<Rightarrow> folder_row list \<Rightarrow> string set \<Rightarrow> folder_row list \<Rightarrow> frame list \<Rightarrow> bool" where
  "walk_inv deleting u fs0 start fs seen acc st \<longleftrightarrow>
     fs = (if deleting then filter (\<lambda>f. fo_id f \<notin> fo_id ` set acc) fs0 else fs0) \<and>
     seen = insert start (fo_id ` set acc \<union> set (leaving_ids st)) \<and>
     distinct (start # map fo_id acc @ leaving_ids st) \<and>
     child_rel u fs0 `` seen \<subseteq> seen \<union> set (entering_ids st) \<and>
     seen \<union> set (entering_ids st) \<subseteq> (child_rel u fs0)\<^sup>* `` {start}"

lemma walk_invD:
  assumes "walk_inv deleting u fs0 start fs seen acc st"
  shows "fs = (if deleting then filter (\<lambda>f. fo_id f \<notin> fo_id ` set acc) fs0 else fs0)"
    and "seen = insert start (fo_id ` set acc \<union> set (leaving_ids st))"
    and "distinct (start # map fo_id acc @ leaving_ids st)"
    and "child_rel u fs0 `` seen \<subseteq> seen \<union> set (entering_ids st)"
    and "seen \<union> set (entering_ids st) \<subseteq> (child_rel u fs0)\<^sup>* `` {start}"
  using assms unfolding walk_inv_def by blast+

lemma walk_inv_skip:
  assumes inv: "walk_inv deleting u fs0 start fs seen acc (Enter c # st)" and "fo_id c \<in> seen"
  shows "walk_inv deleting u fs0 start fs seen acc st"
proof -
  note d = walk_invD [OF inv, unfolded stack_ids list.set]
  have "seen \<union> insert (fo_id c) (set (entering_ids st)) = seen \<union> set (entering_ids st)" using assms(2) by blast
  with d show ?thesis unfolding walk_inv_def by (intro conjI) (simp_all only:)
qed

lemma walk_inv_enter:
  assumes inv: "walk_inv deleting u fs0 start fs seen acc (Enter c # st)" and new: "fo_id c \<notin> seen"
  shows "walk_inv deleting u fs0 start fs (insert (fo_id c) seen) acc
    (map Enter (get_folders_by_parent_id_and_user_id fs (Some (fo_id c)) u) @ Leave c # st)"
proof -
  let ?cs = "fo_id ` set (get_folders_by_parent_id_and_user_id fs (Some (fo_id c)) u)"
  note d = walk_invD [OF inv, unfolded stack_ids list.set]
  note fs = d(1) and seen = d(2) and closed = d(4) and below = d(5)
  have "child_rel u fs0 `` {fo_id c} \<subseteq> ?cs \<union> fo_id ` set acc"
    by (auto simp: child_rel_Image set_get_folders_by_parent fs)
  then have c: "child_rel u fs0 `` {fo_id c} \<subseteq> ?cs \<union> seen" using seen by blast
  have "?cs \<subseteq> child_rel u fs0 `` {fo_id c}"
    by (auto simp: child_rel_Image set_get_folders_by_parent fs split: if_splits)
  then have "?cs \<subseteq> (child_rel u fs0)\<^sup>* `` {start}"
    using below by (blast intro: rtrancl_into_rtrancl)
  with below have b: "insert (fo_id c) seen \<union> (?cs \<union> set (entering_ids st)) \<subseteq> (child_rel u fs0)\<^sup>* `` {start}"
    by blast
  have "child_rel u fs0 `` insert (fo_id c) seen = child_rel u fs0 `` {fo_id c} \<union> child_rel u fs0 `` seen" by blast
  with c closed have "child_rel u fs0 `` insert (fo_id c) seen \<subseteq> insert (fo_id c) seen \<union> (?cs \<union> set (entering_ids st))"
    by blast
  moreover have "insert (fo_id c) seen = insert start (fo_id ` set acc \<union> set (leaving_ids (Leave c # st)))"
    unfolding seen by (simp add: insert_commute)
  moreover have "distinct (start # map fo_id acc @ leaving_ids (Leave c # st))"
    using d(3) new seen by auto
  ultimately show ?thesis
    unfolding walk_inv_def stack_ids list.set set_append set_map using fs b by (intro conjI) (simp_all only: stack_ids)
qed

lemma walk_inv_leave:
  assumes inv: "walk_inv deleting u fs0 start fs seen acc (Leave c # st)"
  shows "walk_inv deleting u fs0 start (if deleting then delete_row (fo_id c) fs else fs) seen (acc @ [c]) st"
proof -
  note d = walk_invD [OF inv, unfolded stack_ids list.set]
  have "(if deleting then delete_row (fo_id c) fs else fs)
      = (if deleting then filter (\<lambda>f. fo_id f \<notin> fo_id ` set (acc @ [c])) fs0 else fs0)"
    unfolding d(1) delete_row_def by (auto intro: filter_cong)
  moreover have "seen = insert start (fo_id ` set (acc @ [c]) \<union> set (leaving_ids st))"
    unfolding d(2) by simp
  moreover have "distinct (start # map fo_id (acc @ [c]) @ leaving_ids st)"
    using d(3) by auto
  ultimately show ?thesis
    unfolding walk_inv_def using d(4,5) by (intro conjI)
qed

lemma folder_walk_inv:
  "walk_inv deleting u fs0 start fs seen acc st \<Longrightarrow> folder_walk deleting u fs seen acc st = (fs', acc') \<Longrightarrow>
     \<exists>seen'. walk_inv deleting u fs0 start fs' seen' acc' []"
proof (induction deleting u fs seen acc st rule: folder_walk.induct)
  case (2 deleting u fs seen acc child stack)
  show ?case
  proof (cases "fo_id child \<in> seen")
    case True
    with 2 walk_inv_skip show ?thesis by simp
  next
    case False
    with 2 walk_inv_enter show ?thesis by simp
  qed
next
  case (3 deleting u fs seen acc child stack)
  with walk_inv_leave show ?case by simp
qed auto

lemma walk_inv_start:
  "walk_inv deleting u fs i fs {i} [] (map Enter (get_folders_by_parent_id_and_user_id fs (Some i) u))"
proof -
  have "fo_id ` set (get_folders_by_parent_id_and_user_id fs (Some i) u) = child_rel u fs `` {i}"
    by (simp add: child_rel_Image)
  moreover have "child_rel u fs `` {i} \<subseteq> (child_rel u fs)\<^sup>* `` {i}" by blast
  ultimately show ?thesis
    using stack_ids(7,8) [of _ "[]"] by (auto simp: walk_inv_def)
qed

lemma walk_inv_done:
  assumes "walk_inv deleting u fs0 start fs seen acc []"
  shows "insert start (fo_id ` set acc) = (child_rel u fs0)\<^sup>* `` {start}" and "distinct (start # map fo_id acc)"
    and "fs = (if deleting then filter (\<lambda>f. fo_id f \<notin> fo_id ` set acc) fs0 else fs0)"
proof -
  let ?S = "insert start (fo_id ` set acc)"
  note d = walk_invD [OF assms, unfolded stack_ids list.set Un_empty_right append_Nil2]
  have "child_rel u fs0 `` ?S \<subseteq> ?S" "?S \<subseteq> (child_rel u fs0)\<^sup>* `` {start}"
    using d(4,5) unfolding d(2) .
  moreover have "(child_rel u fs0)\<^sup>* `` {start} \<subseteq> (child_rel u fs0)\<^sup>* `` ?S" by blast
  ultimately show "?S = (child_rel u fs0)\<^sup>* `` {start}"
    by (intro equalityI) (simp_all add: closed_reach)
  show "distinct (start # map fo_id acc)"
    "fs = (if deleting then filter (\<lambda>f. fo_id f \<notin> fo_id ` set acc) fs0 else fs0)"
    by (rule d(3), rule d(1))
qed

lemma delete_folder_spec:
  assumes "delete_folder_by_id_and_user_id i u fs = (fs', deleted)" and "f \<in> set fs" "fo_id f = i" "fo_user_id f = u"
  shows "set deleted = (child_rel u fs)\<^sup>* `` {i}" "distinct deleted" "fs' = filter (\<lambda>f. fo_id f \<notin> set deleted) fs"
proof -
  from assms(2-4) obtain g where g: "get_folder_by_id_and_user_id fs i u = Some g" "fo_id g = i"
    by (cases "get_folder_by_id_and_user_id fs i u")
       (auto simp: get_folder_by_id_and_user_id_def find_None_iff dest: find_Some)
  obtain fs1 acc where walk: "folder_walk True u fs {i} []
      (map Enter (get_folders_by_parent_id_and_user_id fs (Some i) u)) = (fs1, acc)" by fastforce
  from folder_walk_inv [OF walk_inv_start walk] obtain seen where inv: "walk_inv True u fs i fs1 seen acc []" by blast
  note fin = walk_inv_done [OF this]
  from assms(1) g walk have res: "fs' = delete_row i fs1" "deleted = i # map fo_id acc"
    by (auto simp: delete_folder_by_id_and_user_id_def)
  show "set deleted = (child_rel u fs)\<^sup>* `` {i}" using fin(1) by (simp add: res)
  show "distinct deleted" using fin(2) by (simp add: res)
  show "fs' = filter (\<lambda>f. fo_id f \<notin> set deleted) fs"
    using fin(3) by (auto simp: res delete_row_def intro: filter_cong)
qed

lemma subtree_loop_spec:
  assumes "set st \<subseteq> ids" and "ids \<subseteq> (child_rel u fs)\<^sup>* `` {start}" and "start \<in> ids"
    and "child_rel u fs `` (ids - set st) \<subseteq> ids"
  shows "subtree_loop u fs ids st = (child_rel u fs)\<^sup>* `` {start}"
  using assms
proof (induction u fs ids st rule: subtree_loop.induct)
  case (1 u fs ids)
  then have "child_rel u fs `` ids \<subseteq> ids" by simp
  then have "(child_rel u fs)\<^sup>* `` ids = ids" by (rule closed_reach)
  with 1(2,3) show ?case by auto
next
  case (2 u fs ids c st)
  define new where "new = filter (\<lambda>i. i \<notin> ids) (dict_fromkeys (map fo_id (get_folders_by_parent_id_and_user_id fs (Some c) u)))"
  have new: "set new = child_rel u fs `` {c} - ids"
    by (auto simp: new_def child_rel_Image dict_fromkeys_def set_fold_append_new)
  have "child_rel u fs `` {c} \<subseteq> (child_rel u fs)\<^sup>* `` {start}"
    using 2(2,3) by (auto intro: rtrancl_into_rtrancl)
  then have "ids \<union> set new \<subseteq> (child_rel u fs)\<^sup>* `` {start}" using 2(3) new by blast
  moreover have "child_rel u fs `` (ids \<union> set new - set (rev new @ st)) \<subseteq> ids \<union> set new"
    using 2(5) new by auto
  ultimately have "subtree_loop u fs (ids \<union> set new) (rev new @ st) = (child_rel u fs)\<^sup>* `` {start}"
    using 2(2,4) by (intro 2(1) [OF new_def]) auto
  then show ?case by (simp add: Let_def new_def)
qed

lemma subtree_spec:
  assumes "f \<in> set fs" "fo_id f = i" "fo_user_id f = u"
  shows "get_folder_ids_by_id_and_user_id_in_subtree fs i u = (child_rel u fs)\<^sup>* `` {i}"
proof -
  from assms obtain g where "get_folder_by_id_and_user_id fs i u = Some g" "fo_id g = i"
    by (cases "get_folder_by_id_and_user_id fs i u")
       (auto simp: get_folder_by_id_and_user_id_def find_None_iff dest: find_Some)
  moreover have "subtree_loop u fs {i} [i] = (child_rel u fs)\<^sup>* `` {i}"
    by (rule subtree_loop_spec) auto
  ultimately show ?thesis by (simp add: get_folder_ids_by_id_and_user_id_in_subtree_def)
qed

subsection \<open>Lemmas: access from the folders above\<close>

definition folder_rel :: "folder_row list \<Rightarrow> (string \<times> string) set" where
  "folder_rel fs = {(fo_id f, fo_id g) | f g. f \<in> set fs \<and> g \<in> set fs \<and> fo_parent_id f = Some (fo_id g) \<and> fo_id g \<noteq> []}"

lemma get_folder_by_id_eq: "distinct (map fo_id fs) \<Longrightarrow> f \<in> set fs \<Longrightarrow> get_folder_by_id fs (fo_id f) = Some f"
  unfolding get_folder_by_id_def
  by (cases "find (\<lambda>g. fo_id g = fo_id f) fs")
     (auto simp: find_None_iff distinct_map dest!: find_Some dest: inj_onD)

lemma get_folder_by_id_Some: "get_folder_by_id fs i = Some f \<Longrightarrow> f \<in> set fs \<and> fo_id f = i"
  by (auto simp: get_folder_by_id_def dest: find_Some)

lemma parent_folder_Some:
  "parent_folder fs f = Some g \<longleftrightarrow> fo_parent_id f = Some (fo_id g) \<and> fo_id g \<noteq> [] \<and> get_folder_by_id fs (fo_id g) = Some g"
  by (auto simp: parent_folder_def split: option.splits dest: get_folder_by_id_Some)

lemma folder_rel_Image:
  assumes "distinct (map fo_id fs)" and "f \<in> set fs"
  shows "folder_rel fs `` {fo_id f} = fo_id ` set_option (parent_folder fs f)"
proof -
  have "h = f" if "h \<in> set fs" "fo_id h = fo_id f" for h
    using that assms by (auto simp: distinct_map dest: inj_onD)
  then have "folder_rel fs `` {fo_id f} \<subseteq> fo_id ` set_option (parent_folder fs f)"
    using assms by (auto simp: folder_rel_def parent_folder_Some get_folder_by_id_eq)
  moreover have "(fo_id f, fo_id g) \<in> folder_rel fs" if "parent_folder fs f = Some g" for g
    using that assms(2) get_folder_by_id_Some [of fs "fo_id g" g] unfolding parent_folder_Some folder_rel_def by blast
  ultimately show ?thesis by auto
qed

definition folder_admits :: "group_db \<Rightarrow> folder_row list \<Rightarrow> string \<Rightarrow> string \<Rightarrow> string \<Rightarrow> bool" where
  "folder_admits db fs u permission i \<longleftrightarrow>
     (\<exists>f \<in> set fs. fo_id f = i \<and> (fo_user_id f = u \<or> grants_has_access db u ''folder'' i permission None))"

lemma folder_admits_eq:
  "distinct (map fo_id fs) \<Longrightarrow> f \<in> set fs \<Longrightarrow> folder_admits db fs u perm (fo_id f) \<longleftrightarrow>
     fo_user_id f = u \<or> grants_has_access db u ''folder'' (fo_id f) perm None"
  by (auto simp: folder_admits_def distinct_map dest: inj_onD)

lemma folder_access_loop_iff:
  assumes "distinct (map fo_id fs)" and "set_option f \<subseteq> set fs" and "\<forall>s \<in> seen. \<not> folder_admits db fs u perm s"
    and "folder_rel fs `` seen \<subseteq> seen \<union> fo_id ` set_option f"
  shows "folder_access_loop db fs u perm seen f \<longleftrightarrow>
    (\<exists>b \<in> (folder_rel fs)\<^sup>* `` (seen \<union> fo_id ` set_option f). folder_admits db fs u perm b)"
  using assms
proof (induction db fs u perm seen f rule: folder_access_loop.induct)
  case (1 db fs u perm seen)
  then have "(folder_rel fs)\<^sup>* `` seen = seen" by (intro closed_reach) simp
  with 1 show ?case by simp
next
  case (2 db fs u perm seen f)
  let ?R = "folder_rel fs"
  have f: "f \<in> set fs" using 2(3) by simp
  consider (seen) "fo_id f \<in> seen" | (admits) "fo_id f \<notin> seen" "folder_admits db fs u perm (fo_id f)"
    | (up) "fo_id f \<notin> seen" "\<not> folder_admits db fs u perm (fo_id f)" by blast
  then show ?case
  proof cases
    case seen
    then have same: "seen \<union> fo_id ` set_option (Some f) = seen" by auto
    with 2(5) have "?R\<^sup>* `` seen = seen" by (intro closed_reach) (simp only:)
    with same seen 2(4) show ?thesis by (simp only: folder_access_loop.simps if_True) simp
  next
    case admits
    then have "\<exists>b \<in> ?R\<^sup>* `` (seen \<union> fo_id ` set_option (Some f)). folder_admits db fs u perm b"
      by (intro bexI [of _ "fo_id f"]) auto
    moreover have "folder_access_loop db fs u perm seen (Some f)"
      using admits folder_admits_eq [OF 2(2) f, of db u perm] by auto
    ultimately show ?thesis by simp
  next
    case up
    note succ = folder_rel_Image [OF 2(2) f]
    have deny: "\<not> fo_user_id f = u" "\<not> grants_has_access db u ''folder'' (fo_id f) perm None"
      using up(2) folder_admits_eq [OF 2(2) f, of db u perm] by blast+
    have "?R `` insert (fo_id f) seen = ?R `` {fo_id f} \<union> ?R `` seen" by blast
    then have inv: "?R `` insert (fo_id f) seen \<subseteq> insert (fo_id f) seen \<union> fo_id ` set_option (parent_folder fs f)"
      using 2(5) succ by auto
    have "set_option (parent_folder fs f) \<subseteq> set fs"
      by (auto simp: parent_folder_Some dest: get_folder_by_id_Some)
    moreover have "\<forall>s \<in> insert (fo_id f) seen. \<not> folder_admits db fs u perm s" using 2(4) up(2) by blast
    ultimately have "folder_access_loop db fs u perm (insert (fo_id f) seen) (parent_folder fs f) \<longleftrightarrow>
        (\<exists>b \<in> ?R\<^sup>* `` (insert (fo_id f) seen \<union> fo_id ` set_option (parent_folder fs f)). folder_admits db fs u perm b)"
      using inv by (intro 2(1) [OF up(1) deny 2(2)])
    moreover have "?R\<^sup>* `` (insert (fo_id f) seen \<union> fo_id ` set_option (parent_folder fs f))
        = ?R\<^sup>* `` (seen \<union> fo_id ` set_option (Some f))"
      using reach_succ [of ?R "fo_id f" seen] unfolding succ by (simp add: Un_insert_right)
    ultimately show ?thesis using up(1) deny by simp
  qed
qed

lemma has_folder_access_iff:
  assumes "distinct (map fo_id fs)" and "f \<in> set fs"
  shows "has_folder_access db fs u f perm \<longleftrightarrow>
    (\<exists>g \<in> set fs. (fo_id f, fo_id g) \<in> (folder_rel fs)\<^sup>* \<and>
       (fo_user_id g = u \<or> grants_has_access db u ''folder'' (fo_id g) perm None))"
proof -
  have "has_folder_access db fs u f perm \<longleftrightarrow> (\<exists>b \<in> (folder_rel fs)\<^sup>* `` {fo_id f}. folder_admits db fs u perm b)"
    using folder_access_loop_iff [OF assms(1), of "Some f" "{}" db u perm] assms(2)
    by (simp add: has_folder_access_def)
  also have "\<dots> \<longleftrightarrow> (\<exists>g \<in> set fs. (fo_id f, fo_id g) \<in> (folder_rel fs)\<^sup>* \<and> folder_admits db fs u perm (fo_id g))"
    by (auto simp: folder_admits_def)
  finally show ?thesis using folder_admits_eq [OF assms(1)] by (metis (no_types))
qed

subsection \<open>Lemmas: moving chats\<close>

definition folder_shared :: "group_db \<Rightarrow> string \<Rightarrow> bool" where
  "folder_shared db i \<longleftrightarrow> get_grants_by_resource ''folder'' i (db_grants db) \<noteq> []"

definition folder_owned :: "folder_row list \<Rightarrow> string \<Rightarrow> string \<Rightarrow> bool" where
  "folder_owned fs u i \<longleftrightarrow> (\<exists>f \<in> set fs. fo_id f = i \<and> fo_user_id f = u)"

lemma rtrancl_Image_single: "r\<^sup>* `` {a} = insert a (r\<^sup>* `` (r `` {a}))"
  by (auto elim: converse_rtranclE intro: converse_rtrancl_into_rtrancl)

lemma trancl_Image_single: "r\<^sup>+ `` {a} = r\<^sup>* `` (r `` {a})"
  by (auto dest: tranclD intro: rtrancl_into_trancl2)

lemma owned_root_loop_Some:
  assumes "owned_root_loop db fs u seen sh (Some i) = Some r" and "distinct (map fo_id fs)" and "sh \<noteq> Some []"
  shows "(\<forall>b \<in> (folder_rel fs)\<^sup>* `` {i}. folder_owned fs u b) \<and>
    (if \<exists>b \<in> (folder_rel fs)\<^sup>* `` {i}. folder_shared db b
     then r \<in> (folder_rel fs)\<^sup>* `` {i} \<and> folder_shared db r \<and> (\<forall>b \<in> (folder_rel fs)\<^sup>+ `` {r}. \<not> folder_shared db b)
     else case sh of Some s \<Rightarrow> r = s | None \<Rightarrow> r \<in> (folder_rel fs)\<^sup>* `` {i} \<and> folder_rel fs `` {r} = {})"
  using assms
proof (induction db fs u seen sh "Some i" arbitrary: i rule: owned_root_loop.induct)
  case (1 db fs u seen sh)
  let ?R = "folder_rel fs"
  obtain f where f: "i \<noteq> []" "i \<notin> seen" "get_folder_by_id fs i = Some f" "fo_user_id f = u"
    using 1(2) by (subst (asm) owned_root_loop.simps) (auto split: if_splits option.splits)
  then have fi: "f \<in> set fs" "fo_id f = i" by (auto dest: get_folder_by_id_Some)
  then have own: "folder_owned fs u i" using f(4) by (auto simp: folder_owned_def)
  define sh' where "sh' = (if folder_shared db i then Some i else sh)"
  have sh': "sh' \<noteq> Some []" using f(1) 1(4) by (simp add: sh'_def)
  have succ: "?R `` {i} = fo_id ` set_option (parent_folder fs f)"
    using folder_rel_Image [OF 1(3) fi(1)] fi(2) by simp
  note chain = rtrancl_Image_single [of ?R i]
  show ?case
  proof (cases "fo_parent_id f = None \<or> fo_parent_id f = Some []")
    case True
    then have none: "?R `` {i} = {}" unfolding succ by (auto simp: parent_folder_def)
    then have C: "?R\<^sup>* `` {i} = {i}" "?R\<^sup>+ `` {i} = {}" by (simp_all add: chain trancl_Image_single)
    have "Some r = (case sh' of None \<Rightarrow> Some i | Some r \<Rightarrow> Some r)"
      using 1(2) f fi True sh' by (subst (asm) owned_root_loop.simps)
        (auto simp: Let_def sh'_def folder_shared_def split: option.splits if_splits)
    then have "r = (case sh' of None \<Rightarrow> i | Some r \<Rightarrow> r)" by (cases sh') simp_all
    then show ?thesis using own none unfolding C sh'_def by (auto simp: C split: option.splits)
  next
    case False
    then obtain p where p: "fo_parent_id f = Some p" "p \<noteq> []" by auto
    have run: "owned_root_loop db fs u (insert i seen) sh' (Some p) = Some r"
      using 1(2) f fi p by (subst (asm) owned_root_loop.simps) (auto simp: Let_def sh'_def folder_shared_def split: if_splits)
    then obtain g where g: "get_folder_by_id fs p = Some g"
      by (subst (asm) owned_root_loop.simps) (auto split: if_splits option.splits)
    then have "fo_id g = p" by (auto dest: get_folder_by_id_Some)
    then have Ri: "?R `` {i} = {p}" unfolding succ by (simp add: parent_folder_def p g)
    have C: "?R\<^sup>* `` {i} = insert i (?R\<^sup>* `` {p})" "?R\<^sup>+ `` {i} = ?R\<^sup>* `` {p}"
      unfolding chain trancl_Image_single Ri by simp_all
    have "fo_id f = i" by (rule fi(2))
    have IH: "(\<forall>b \<in> ?R\<^sup>* `` {p}. folder_owned fs u b) \<and>
        (if \<exists>b \<in> ?R\<^sup>* `` {p}. folder_shared db b
         then r \<in> ?R\<^sup>* `` {p} \<and> folder_shared db r \<and> (\<forall>b \<in> ?R\<^sup>+ `` {r}. \<not> folder_shared db b)
         else case sh' of Some s \<Rightarrow> r = s | None \<Rightarrow> r \<in> ?R\<^sup>* `` {p} \<and> ?R `` {r} = {})"
      by (rule 1(1) [of i f sh' p]) (use f fi p run 1(3) sh' in \<open>simp_all add: sh'_def folder_shared_def\<close>)
    show ?thesis
    proof (cases "\<exists>b \<in> ?R\<^sup>* `` {p}. folder_shared db b")
      case True
      with IH own show ?thesis unfolding C by auto
    next
      case False
      with IH own show ?thesis
        unfolding C by (cases "folder_shared db i") (auto simp: sh'_def C split: option.splits)
    qed
  qed
qed

lemma has_chat_move_access_root:
  assumes "has_chat_move_access db fs u source target" and "distinct (map fo_id fs)"
  shows "\<exists>i j r. source = Some i \<and> target = Some j \<and>
    (i, r) \<in> (folder_rel fs)\<^sup>* \<and> (j, r) \<in> (folder_rel fs)\<^sup>* \<and>
    (\<forall>b. (i, b) \<in> (folder_rel fs)\<^sup>* \<or> (j, b) \<in> (folder_rel fs)\<^sup>* \<longrightarrow> folder_owned fs u b) \<and>
    (\<forall>b. (r, b) \<in> (folder_rel fs)\<^sup>+ \<longrightarrow> \<not> folder_shared db b) \<and>
    (folder_shared db r \<or> (\<forall>b. (r, b) \<notin> folder_rel fs))"
proof -
  from assms(1) obtain r where r: "owned_root_loop db fs u {} None source = Some r"
    "owned_root_loop db fs u {} None target = Some r"
    by (cases "owned_root_loop db fs u {} None source") (simp_all add: has_chat_move_access_def Let_def)
  then obtain i j where ij: "source = Some i" "target = Some j"
    by (cases source; cases target) (simp_all add: owned_root_loop.simps)
  have spec: "(\<forall>b \<in> (folder_rel fs)\<^sup>* `` {k}. folder_owned fs u b) \<and> (k, r) \<in> (folder_rel fs)\<^sup>* \<and>
      (\<forall>b. (r, b) \<in> (folder_rel fs)\<^sup>+ \<longrightarrow> \<not> folder_shared db b) \<and>
      (folder_shared db r \<or> (\<forall>b. (r, b) \<notin> folder_rel fs))"
    if "owned_root_loop db fs u {} None (Some k) = Some r" for k
  proof -
    note s = owned_root_loop_Some [OF that assms(2)]
    show ?thesis
    proof (cases "\<exists>b \<in> (folder_rel fs)\<^sup>* `` {k}. folder_shared db b")
      case True
      with s show ?thesis by auto
    next
      case False
      with s have "r \<in> (folder_rel fs)\<^sup>* `` {k}" "folder_rel fs `` {r} = {}" "\<forall>b \<in> (folder_rel fs)\<^sup>* `` {k}. folder_owned fs u b"
        by auto
      then show ?thesis by (auto dest: tranclD)
    qed
  qed
  from spec [of i] spec [of j] r ij show ?thesis by blast
qed

subsection \<open>Lemmas: unread counts\<close>

definition upward_rel :: "(string \<times> string option) list \<Rightarrow> (string \<times> string) set" where
  "upward_rel parents = {(i, p). map_of parents i = Some (Some p) \<and> p \<noteq> []}"

definition pending_id :: "string option \<Rightarrow> string set" where
  "pending_id current = {i. current = Some i \<and> i \<noteq> []}"

lemma add_upwards_eq:
  assumes "upward_rel parents `` seen \<subseteq> seen \<union> pending_id current"
  shows "add_upwards parents n seen current counts x =
    counts x + (if x \<in> (upward_rel parents)\<^sup>* `` (seen \<union> pending_id current) - seen \<and> map_of parents x \<noteq> None then n else 0)"
  using assms
proof (induction parents n seen current counts rule: add_upwards.induct)
  case (1 parents n seen current counts)
  let ?R = "upward_rel parents"
  show ?case
  proof (cases "pending_id current \<subseteq> seen")
    case True
    then have "seen \<union> pending_id current = seen" by blast
    with 1(2) have "?R\<^sup>* `` (seen \<union> pending_id current) = seen" by (simp add: closed_reach)
    moreover have "add_upwards parents n seen current counts = counts"
      using True by (subst add_upwards.simps) (auto simp: pending_id_def split: option.splits)
    ultimately show ?thesis by simp
  next
    case False
    then obtain i where i: "current = Some i" "i \<noteq> []" "i \<notin> seen" "pending_id current = {i}"
      by (auto simp: pending_id_def)
    let ?next = "Option.bind (map_of parents i) (\<lambda>p. p)"
    let ?counts = "if map_of parents i \<noteq> None then counts(i := counts i + n) else counts"
    have succ: "?R `` {i} = pending_id ?next"
      by (cases "map_of parents i") (auto simp: upward_rel_def pending_id_def)
    have "?R `` insert i seen = ?R `` {i} \<union> ?R `` seen" by blast
    then have inv: "?R `` insert i seen \<subseteq> insert i seen \<union> pending_id ?next" using 1(2) succ i(4) by auto
    have reach: "?R\<^sup>* `` (insert i seen \<union> pending_id ?next) = ?R\<^sup>* `` (seen \<union> pending_id current)"
      using reach_succ [of ?R i seen] unfolding succ i(4) by simp
    have "add_upwards parents n seen current counts x = add_upwards parents n (insert i seen) ?next ?counts x"
      using i by (subst add_upwards.simps) simp
    also have "\<dots> = ?counts x + (if x \<in> ?R\<^sup>* `` (seen \<union> pending_id current) - insert i seen \<and> map_of parents x \<noteq> None then n else 0)"
      using 1(1) [OF i(1) _ inv] i unfolding reach by simp
    also have "\<dots> = counts x + (if x \<in> ?R\<^sup>* `` (seen \<union> pending_id current) - seen \<and> map_of parents x \<noteq> None then n else 0)"
    proof -
      have "i \<in> ?R\<^sup>* `` (seen \<union> pending_id current)" unfolding i(4) by blast
      then show ?thesis using i(3) by (cases "x = i") simp_all
    qed
    finally show ?thesis .
  qed
qed

lemma fold_add_upwards:
  "fold (\<lambda>(i, n) c. add_upwards parents n {} (Some i) c) direct counts x =
     counts x + sum_list (map (\<lambda>(i, n). if i \<noteq> [] \<and> (i, x) \<in> (upward_rel parents)\<^sup>* \<and> map_of parents x \<noteq> None then n else 0) direct)"
proof (induction direct arbitrary: counts)
  case (Cons d direct)
  obtain i n where d: "d = (i, n)" by (cases d)
  have "add_upwards parents n {} (Some i) counts x =
      counts x + (if i \<noteq> [] \<and> (i, x) \<in> (upward_rel parents)\<^sup>* \<and> map_of parents x \<noteq> None then n else 0)"
    by (subst add_upwards_eq) (auto simp: pending_id_def)
  then show ?case by (simp add: Cons.IH d)
qed simp

lemma upward_rel_user:
  assumes "distinct (map fo_id fs)"
  shows "upward_rel (map (\<lambda>f. (fo_id f, fo_parent_id f)) (get_folders_by_user_id fs u))
    = {(fo_id f, p) | f p. f \<in> set fs \<and> fo_user_id f = u \<and> fo_parent_id f = Some p \<and> p \<noteq> []}"
proof -
  have "map_of (map (\<lambda>f. (fo_id f, fo_parent_id f)) (get_folders_by_user_id fs u)) i = Some (Some p) \<longleftrightarrow>
      (\<exists>f \<in> set fs. fo_user_id f = u \<and> fo_id f = i \<and> fo_parent_id f = Some p)" for i p
    using assms by (subst map_of_eq_Some_iff)
      (auto simp: get_folders_by_user_id_def comp_def image_iff intro: distinct_map_filter)
  then show ?thesis by (auto simp: upward_rel_def)
qed

lemma unread_count_eq:
  assumes "distinct (map fo_id fs)" and "x \<in> fo_id ` {f \<in> set fs. fo_user_id f = u}"
  shows "map_of (get_folder_unread_counts fs u direct) x = Some (sum_list (map (\<lambda>(i, n).
    if i \<noteq> [] \<and> (i, x) \<in> {(fo_id f, p) | f p. f \<in> set fs \<and> fo_user_id f = u \<and> fo_parent_id f = Some p \<and> p \<noteq> []}\<^sup>* then n else 0) direct))"
proof -
  let ?parents = "map (\<lambda>f. (fo_id f, fo_parent_id f)) (get_folders_by_user_id fs u)"
  let ?counts = "fold (\<lambda>(i, n) c. add_upwards ?parents n {} (Some i) c) direct (\<lambda>_. 0)"
  have ids: "fst ` set ?parents = fo_id ` {f \<in> set fs. fo_user_id f = u}"
    by (simp add: get_folders_by_user_id_def image_image)
  have "map_of ?parents x \<noteq> None" using assms(2) by (simp only: map_of_eq_None_iff ids not_not)
  moreover have "map_of (map (\<lambda>i. (i, ?counts i)) (dict_fromkeys (map fst ?parents))) x = Some (?counts x)"
  proof -
    have "x \<in> set (dict_fromkeys (map fst ?parents))" using assms(2) by (simp only: set_dict_fromkeys set_map [of fst] ids)
    then show ?thesis by (simp add: map_of_map_restrict restrict_map_def)
  qed
  ultimately show ?thesis
    unfolding get_folder_unread_counts_def Let_def fold_add_upwards upward_rel_user [OF assms(1)] by simp
qed

subsection \<open>Properties\<close>

definition demo_folder :: "string \<Rightarrow> string option \<Rightarrow> string \<Rightarrow> folder_row" where
  "demo_folder i p u = \<lparr>fo_id = i, fo_parent_id = p, fo_user_id = u, fo_name = i, fo_items = PNone, fo_meta = PNone,
     fo_data = PNone, fo_is_expanded = False, fo_created_at = 1, fo_updated_at = 1\<rparr>"

definition demo_folders :: "folder_row list" where
  "demo_folders = [demo_folder ''top'' None ''ann'', demo_folder ''a'' (Some ''top'') ''ann'',
     demo_folder ''b'' (Some ''a'') ''ann'', demo_folder ''c'' (Some ''a'') ''ann'', demo_folder ''x'' (Some ''x'') ''bob'']"

definition demo_folder_db :: group_db where
  "demo_folder_db = \<lparr>db_groups = [], db_members = [],
     db_grants = [mk_grant ''g'' 1 (''folder'', ''a'', ''user'', ''bob'', ''read'')]\<rparr>"

lemma demo_folders_distinct: "distinct (map fo_id demo_folders)"
  by (simp add: demo_folders_def demo_folder_def)

text \<open>
  Deleting one of a user's folders deletes exactly the rows of its subtree among that user's
  folders, reports each of their ids once, and that set is the one the subtree query computes; no
  other row changes, and cyclic parent links do not make it loop or delete more.
\<close>

theorem delete_removes_subtree:
  assumes "delete_folder_by_id_and_user_id i u fs = (fs', deleted)" and "f \<in> set fs" "fo_id f = i" "fo_user_id f = u"
  shows "set deleted = (child_rel u fs)\<^sup>* `` {i} \<and> distinct deleted \<and>
    fs' = filter (\<lambda>f. fo_id f \<notin> set deleted) fs \<and>
    set deleted = get_folder_ids_by_id_and_user_id_in_subtree fs i u"
  using delete_folder_spec [OF assms] subtree_spec [OF assms(2-4)] by simp

theorem delete_removes_subtree_witness:
  "delete_folder_by_id_and_user_id ''a'' ''ann'' demo_folders
     = ([demo_folder ''top'' None ''ann'', demo_folder ''x'' (Some ''x'') ''bob''], [''a'', ''b'', ''c'']) \<and>
   get_folder_ids_by_id_and_user_id_in_subtree demo_folders ''a'' ''ann'' = {''a'', ''b'', ''c''}"
proof -
  have run: "delete_folder_by_id_and_user_id ''a'' ''ann'' demo_folders
     = ([demo_folder ''top'' None ''ann'', demo_folder ''x'' (Some ''x'') ''bob''], [''a'', ''b'', ''c''])" by code_simp
  have "demo_folder ''a'' (Some ''top'') ''ann'' \<in> set demo_folders" by (simp add: demo_folders_def)
  moreover have "fo_id (demo_folder ''a'' (Some ''top'') ''ann'') = ''a''" "fo_user_id (demo_folder ''a'' (Some ''top'') ''ann'') = ''ann''"
    by (simp_all add: demo_folder_def)
  ultimately have "set [''a'', ''b'', ''c''] = get_folder_ids_by_id_and_user_id_in_subtree demo_folders ''a'' ''ann''"
    using delete_removes_subtree [OF run] by blast
  with run show ?thesis by simp
qed

text \<open>
  (C37) A user may act on a folder exactly when the user owns, or holds a grant with that
  permission on, the folder itself or one of the folders above it.
\<close>

theorem folder_access_inherited:
  assumes "distinct (map fo_id fs)" and "f \<in> set fs"
  shows "has_folder_access db fs u f perm \<longleftrightarrow>
    (\<exists>g \<in> set fs. (fo_id f, fo_id g) \<in> (folder_rel fs)\<^sup>* \<and>
       (fo_user_id g = u \<or> grants_has_access db u ''folder'' (fo_id g) perm None))"
  using assms by (rule has_folder_access_iff)

theorem folder_access_inherited_witness:
  "\<exists>g \<in> set demo_folders. (''b'', fo_id g) \<in> (folder_rel demo_folders)\<^sup>* \<and>
     (fo_user_id g = ''bob'' \<or> grants_has_access demo_folder_db ''bob'' ''folder'' (fo_id g) ''read'' None)"
proof -
  let ?f = "demo_folder ''b'' (Some ''a'') ''ann''"
  have "has_folder_access demo_folder_db demo_folders ''bob'' ?f ''read''" by code_simp
  moreover have "?f \<in> set demo_folders" by (simp add: demo_folders_def)
  ultimately show ?thesis
    using folder_access_inherited [OF demo_folders_distinct, of ?f demo_folder_db "''bob''" "''read''"]
    by (simp add: demo_folder_def)
qed

text \<open>
  A chat moves between two folders only when both lie below one folder such that the user
  owns every folder on the way up from either, no folder above that one is shared, and it is
  itself shared or has nothing above it: a move never leaves a shared subtree and never touches
  a folder of someone else.
\<close>

theorem chat_moves_stay_in_tree:
  assumes "has_chat_move_access db fs u source target" and "distinct (map fo_id fs)"
  shows "\<exists>i j r. source = Some i \<and> target = Some j \<and>
    (i, r) \<in> (folder_rel fs)\<^sup>* \<and> (j, r) \<in> (folder_rel fs)\<^sup>* \<and>
    (\<forall>b. (i, b) \<in> (folder_rel fs)\<^sup>* \<or> (j, b) \<in> (folder_rel fs)\<^sup>* \<longrightarrow> folder_owned fs u b) \<and>
    (\<forall>b. (r, b) \<in> (folder_rel fs)\<^sup>+ \<longrightarrow> \<not> folder_shared db b) \<and>
    (folder_shared db r \<or> (\<forall>b. (r, b) \<notin> folder_rel fs))"
  using assms by (rule has_chat_move_access_root)

theorem chat_moves_stay_in_tree_witness:
  "has_chat_move_access demo_folder_db demo_folders ''ann'' (Some ''b'') (Some ''c'') \<and>
   \<not> has_chat_move_access demo_folder_db demo_folders ''ann'' (Some ''b'') (Some ''top'') \<and>
   (\<exists>r. (''b'', r) \<in> (folder_rel demo_folders)\<^sup>* \<and> (''c'', r) \<in> (folder_rel demo_folders)\<^sup>*)"
proof -
  have may: "has_chat_move_access demo_folder_db demo_folders ''ann'' (Some ''b'') (Some ''c'')"
    "\<not> has_chat_move_access demo_folder_db demo_folders ''ann'' (Some ''b'') (Some ''top'')" by code_simp+
  from chat_moves_stay_in_tree [OF may(1) demo_folders_distinct] may show ?thesis by auto
qed

text \<open>
  The unread count shown at a folder is the sum of the unread counts of the chats directly
  in it and in every folder below it, each counted once, whatever the shape of the parent links.
\<close>

theorem unread_counts_sum_subtree:
  assumes "distinct (map fo_id fs)" and "x \<in> fo_id ` {f \<in> set fs. fo_user_id f = u}"
  shows "map_of (get_folder_unread_counts fs u direct) x = Some (sum_list (map (\<lambda>(i, n).
    if i \<noteq> [] \<and> (i, x) \<in> {(fo_id f, p) | f p. f \<in> set fs \<and> fo_user_id f = u \<and> fo_parent_id f = Some p \<and> p \<noteq> []}\<^sup>* then n else 0) direct))"
  using assms by (rule unread_count_eq)

theorem unread_counts_sum_subtree_witness:
  "sum_list (map (\<lambda>(i, n). if i \<noteq> [] \<and> (i, ''a'') \<in> {(fo_id f, p) | f p. f \<in> set demo_folders \<and> fo_user_id f = ''ann'' \<and>
       fo_parent_id f = Some p \<and> p \<noteq> []}\<^sup>* then n else 0) [(''b'', 2), (''c'', 3), (''top'', 1)]) = (5 :: nat)"
proof -
  have "map_of (get_folder_unread_counts demo_folders ''ann'' [(''b'', 2), (''c'', 3), (''top'', 1)]) ''a'' = Some 5"
    by code_simp
  moreover have "''a'' \<in> fo_id ` {f \<in> set demo_folders. fo_user_id f = ''ann''}"
    by (intro image_eqI [of _ _ "demo_folder ''a'' (Some ''top'') ''ann''"]) (simp_all add: demo_folders_def demo_folder_def)
  ultimately show ?thesis
    using unread_counts_sum_subtree [OF demo_folders_distinct, of "''a''" "''ann''" "[(''b'', 2), (''c'', 3), (''top'', 1)]"]
    by (simp only: option.inject)
qed

end
