(* ===== verification/Rate_Limit.thy ===== *)
theory Rate_Limit
  imports Prelude
begin

text \<open>
  The rate limiter of \<^verbatim>\<open>utils/rate_limit.py\<close>: hits counted per key in buckets of time, in Redis or,
  without Redis or when it fails, in memory. The time is an argument, in whole seconds. Redis is
  the argument \<open>redis\<close>, three commands on a state of its own; a command may raise.
\<close>

subsection \<open>State\<close>

record limiter =
  rl_limit :: int
  rl_window :: int
  rl_bucket_size :: int
  rl_enabled :: bool

type_synonym memory_store = "(int \<times> (string \<times> int) list) list"

record 'r redis =
  r_incr :: "string \<Rightarrow> 'r \<Rightarrow> int result \<times> 'r"
  r_expire :: "string \<Rightarrow> int \<Rightarrow> 'r \<Rightarrow> unit result \<times> 'r"
  r_mget :: "string list \<Rightarrow> 'r \<Rightarrow> int option list result \<times> 'r"

text \<open>\<open>__init__\<close> divides by the bucket size.\<close>

definition num_buckets :: "limiter \<Rightarrow> int" where
  "num_buckets rl = rl_window rl div rl_bucket_size rl"

definition current_bucket :: "limiter \<Rightarrow> int \<Rightarrow> int" where
  "current_bucket rl now = now div rl_bucket_size rl"

subsection \<open>In memory\<close>

definition prune_memory_store :: "limiter \<Rightarrow> int \<Rightarrow> memory_store \<Rightarrow> memory_store" where
  "prune_memory_store rl now_bucket store = filter (\<lambda>e. \<not> fst e < now_bucket - num_buckets rl) store"

definition total_hits :: "string \<Rightarrow> memory_store \<Rightarrow> int" where
  "total_hits key store = sum_list (map (\<lambda>e. dget (snd e) key 0) store)"

definition is_limited_memory :: "limiter \<Rightarrow> int \<Rightarrow> string \<Rightarrow> memory_store \<Rightarrow> bool \<times> memory_store" where
  "is_limited_memory rl now key store =
     (let now_bucket = current_bucket rl now;
          store = prune_memory_store rl now_bucket store;
          counts = dget store now_bucket [];
          store = AList.update now_bucket (AList.update key (dget counts key 0 + 1) counts) store
      in (total_hits key store > rl_limit rl, store))"

definition get_count_memory :: "limiter \<Rightarrow> int \<Rightarrow> string \<Rightarrow> memory_store \<Rightarrow> int \<times> memory_store" where
  "get_count_memory rl now key store =
     (let store = prune_memory_store rl (current_bucket rl now) store in (total_hits key store, store))"

subsection \<open>In Redis\<close>

text \<open>\<open>bucket_key\<close> is the formatted key, with the configured prefix; \<open>lower\<close> folds the key's case.\<close>

definition redis_buckets :: "limiter \<Rightarrow> (string \<Rightarrow> int \<Rightarrow> string) \<Rightarrow> int \<Rightarrow> string \<Rightarrow> string list" where
  "redis_buckets rl bucket_key now_bucket key =
     map (\<lambda>i. bucket_key (map ascii_lower key) (now_bucket - int i)) [0 ..< nat (num_buckets rl + 1)]"

definition redis_total :: "int option list \<Rightarrow> int" where
  "redis_total counts = sum_list (map (\<lambda>c. case c of None \<Rightarrow> 0 | Some n \<Rightarrow> n) counts)"

definition is_limited_redis ::
  "limiter \<Rightarrow> 'r redis \<Rightarrow> (string \<Rightarrow> int \<Rightarrow> string) \<Rightarrow> int \<Rightarrow> string \<Rightarrow> 'r \<Rightarrow> bool result \<times> 'r" where
  "is_limited_redis rl redis bucket_key now key r =
     (let now_bucket = current_bucket rl now;
          k = bucket_key (map ascii_lower key) now_bucket
      in case r_incr redis k r of
           (Inl e, r) \<Rightarrow> (Inl e, r)
         | (Inr attempts, r) \<Rightarrow>
             (case (if attempts = 1 then r_expire redis k (rl_window rl + rl_bucket_size rl) r else (Inr (), r)) of
                (Inl e, r) \<Rightarrow> (Inl e, r)
              | (Inr _, r) \<Rightarrow>
                  (case r_mget redis (redis_buckets rl bucket_key now_bucket key) r of
                     (Inl e, r) \<Rightarrow> (Inl e, r)
                   | (Inr counts, r) \<Rightarrow> (Inr (redis_total counts > rl_limit rl), r))))"

definition get_count_redis ::
  "limiter \<Rightarrow> 'r redis \<Rightarrow> (string \<Rightarrow> int \<Rightarrow> string) \<Rightarrow> int \<Rightarrow> string \<Rightarrow> 'r \<Rightarrow> int result \<times> 'r" where
  "get_count_redis rl redis bucket_key now key r =
     (case r_mget redis (redis_buckets rl bucket_key (current_bucket rl now) key) r of
        (Inl e, r) \<Rightarrow> (Inl e, r)
      | (Inr counts, r) \<Rightarrow> (Inr (redis_total counts), r))"

subsection \<open>The checks\<close>

text \<open>Redis is None when the server runs without it; \<open>now'\<close> is the time the fallback reads.\<close>

definition is_limited ::
  "limiter \<Rightarrow> 'r redis option \<Rightarrow> (string \<Rightarrow> int \<Rightarrow> string) \<Rightarrow> int \<Rightarrow> int \<Rightarrow> string \<Rightarrow> memory_store \<Rightarrow> 'r
     \<Rightarrow> bool \<times> memory_store \<times> 'r" where
  "is_limited rl redis bucket_key now now' key store r =
     (if \<not> rl_enabled rl then (False, store, r)
      else case redis of
             Some rd \<Rightarrow>
               (case is_limited_redis rl rd bucket_key now key r of
                  (Inr b, r) \<Rightarrow> (b, store, r)
                | (Inl _, r) \<Rightarrow> (case is_limited_memory rl now' key store of (b, store) \<Rightarrow> (b, store, r)))
           | None \<Rightarrow> (case is_limited_memory rl now key store of (b, store) \<Rightarrow> (b, store, r)))"

definition get_count ::
  "limiter \<Rightarrow> 'r redis option \<Rightarrow> (string \<Rightarrow> int \<Rightarrow> string) \<Rightarrow> int \<Rightarrow> int \<Rightarrow> string \<Rightarrow> memory_store \<Rightarrow> 'r
     \<Rightarrow> int \<times> memory_store \<times> 'r" where
  "get_count rl redis bucket_key now now' key store r =
     (if \<not> rl_enabled rl then (0, store, r)
      else case redis of
             Some rd \<Rightarrow>
               (case get_count_redis rl rd bucket_key now key r of
                  (Inr n, r) \<Rightarrow> (n, store, r)
                | (Inl _, r) \<Rightarrow> (case get_count_memory rl now' key store of (n, store) \<Rightarrow> (n, store, r)))
           | None \<Rightarrow> (case get_count_memory rl now key store of (n, store) \<Rightarrow> (n, store, r)))"

definition remaining ::
  "limiter \<Rightarrow> 'r redis option \<Rightarrow> (string \<Rightarrow> int \<Rightarrow> string) \<Rightarrow> int \<Rightarrow> int \<Rightarrow> string \<Rightarrow> memory_store \<Rightarrow> 'r
     \<Rightarrow> int \<times> memory_store \<times> 'r" where
  "remaining rl redis bucket_key now now' key store r =
     (case get_count rl redis bucket_key now now' key store r of (used, rest) \<Rightarrow> (max 0 (rl_limit rl - used), rest))"

subsection \<open>Histories in memory\<close>

datatype rl_op = Hit int string | Query int string

fun op_time :: "rl_op \<Rightarrow> int" where
  "op_time (Hit t k) = t"
| "op_time (Query t k) = t"

fun rl_step :: "limiter \<Rightarrow> rl_op \<Rightarrow> memory_store \<Rightarrow> memory_store" where
  "rl_step rl (Hit t k) store = snd (is_limited_memory rl t k store)"
| "rl_step rl (Query t k) store = snd (get_count_memory rl t k store)"

definition rl_run :: "limiter \<Rightarrow> rl_op list \<Rightarrow> memory_store" where
  "rl_run rl ops = fold (rl_step rl) ops []"

text \<open>The hits of a key in the current bucket and the \<open>num_buckets\<close> before it.\<close>

definition hits_in_window :: "limiter \<Rightarrow> rl_op list \<Rightarrow> int \<Rightarrow> string \<Rightarrow> nat" where
  "hits_in_window rl ops now key =
     length (filter (\<lambda>op. \<exists>t. op = Hit t key \<and> current_bucket rl t \<ge> current_bucket rl now - num_buckets rl) ops)"

definition bucket_hits :: "limiter \<Rightarrow> rl_op list \<Rightarrow> int \<Rightarrow> string \<Rightarrow> nat" where
  "bucket_hits rl ops b key = length (filter (\<lambda>op. \<exists>t. op = Hit t key \<and> current_bucket rl t = b) ops)"

definition stored_hits :: "memory_store \<Rightarrow> int \<Rightarrow> string \<Rightarrow> int" where
  "stored_hits store b key = dget (dget store b []) key 0"

text \<open>The store holds the hits of every bucket that a check from now on can count.\<close>

definition tracks :: "limiter \<Rightarrow> rl_op list \<Rightarrow> int \<Rightarrow> memory_store \<Rightarrow> bool" where
  "tracks rl ops bucket store \<longleftrightarrow>
     distinct (map fst store) \<and>
     (\<forall>b key. b \<ge> bucket - num_buckets rl \<longrightarrow> stored_hits store b key = int (bucket_hits rl ops b key))"

lemma distinct_update_keys: "distinct (map fst d) \<Longrightarrow> distinct (map fst (AList.update k v d))"
  by (simp add: distinct_update)

lemma dget_filter: "P k \<Longrightarrow> dget (filter (\<lambda>e. P (fst e)) d) k x = dget d k x"
  by (induction d) (auto simp: dget_def)

lemma tracks_prune:
  assumes "tracks rl ops b store" and "b \<le> b'"
  shows "tracks rl ops b' (prune_memory_store rl b' store)"
proof -
  have "stored_hits (prune_memory_store rl b' store) c key = stored_hits store c key" if "c \<ge> b' - num_buckets rl" for c key
    unfolding stored_hits_def prune_memory_store_def
    using that by (subst dget_filter [where P = "\<lambda>c. \<not> c < b' - num_buckets rl"]) auto
  with assms show ?thesis
    by (auto simp: tracks_def prune_memory_store_def distinct_map_filter)
qed

lemma bucket_hits_snoc:
  "bucket_hits rl (ops @ [op]) b key = bucket_hits rl ops b key +
     (case op of Hit t k \<Rightarrow> if k = key \<and> current_bucket rl t = b then 1 else 0 | Query t k \<Rightarrow> 0)"
  by (auto simp: bucket_hits_def split: rl_op.splits)

lemma tracks_step:
  assumes "tracks rl ops b store" and "b \<le> current_bucket rl (op_time op)"
  shows "tracks rl (ops @ [op]) (current_bucket rl (op_time op)) (rl_step rl op store)"
proof (cases op)
  case (Hit t k)
  let ?b = "current_bucket rl t"
  have pr: "tracks rl ops ?b (prune_memory_store rl ?b store)"
    using tracks_prune [OF assms(1)] assms(2) Hit by simp
  let ?s = "prune_memory_store rl ?b store"
  have "stored_hits (AList.update ?b (AList.update k (dget (dget ?s ?b []) k 0 + 1) (dget ?s ?b [])) ?s) c key
      = stored_hits ?s c key + (if k = key \<and> ?b = c then 1 else 0)" for c key
    by (auto simp: stored_hits_def)
  with pr show ?thesis
    by (auto simp: Hit tracks_def is_limited_memory_def Let_def bucket_hits_snoc distinct_update_keys)
next
  case (Query t k)
  with tracks_prune [OF assms(1)] assms(2) show ?thesis
    by (simp add: get_count_memory_def Let_def tracks_def bucket_hits_snoc)
qed

lemma tracks_run:
  assumes "rl_bucket_size rl > 0" and "sorted (map op_time (ops @ [op]))"
  shows "tracks rl (ops @ [op]) (current_bucket rl (op_time op)) (rl_run rl (ops @ [op]))"
  using assms(2)
proof (induction ops arbitrary: op rule: rev_induct)
  case Nil
  have "tracks rl [] (current_bucket rl (op_time op)) []"
    by (simp add: tracks_def stored_hits_def bucket_hits_def)
  from tracks_step [OF this] show ?case by (simp add: rl_run_def)
next
  case (snoc o' ops)
  then have "tracks rl (ops @ [o']) (current_bucket rl (op_time o')) (rl_run rl (ops @ [o']))"
    by (simp add: sorted_append)
  moreover have "op_time o' \<le> op_time op" using snoc(2) by (simp add: sorted_append)
  then have "current_bucket rl (op_time o') \<le> current_bucket rl (op_time op)"
    using assms(1) by (simp add: current_bucket_def zdiv_mono1)
  ultimately show ?case using tracks_step by (fastforce simp: rl_run_def)
qed

lemma total_hits_sum:
  assumes "distinct (map fst store)"
  shows "total_hits key store = (\<Sum>b \<in> fst ` set store. stored_hits store b key)"
  using assms
proof (induction store)
  case (Cons e store)
  have "stored_hits (e # store) b key = stored_hits store b key" if "b \<in> fst ` set store" for b
    using Cons.prems that by (cases e) (auto simp: stored_hits_def dget_Cons)
  then have "(\<Sum>b \<in> fst ` set store. stored_hits (e # store) b key) = (\<Sum>b \<in> fst ` set store. stored_hits store b key)"
    by (intro sum.cong) auto
  moreover have "stored_hits (e # store) (fst e) key = dget (snd e) key 0"
    by (cases e) (simp add: stored_hits_def dget_Cons)
  ultimately show ?case using Cons by (simp add: total_hits_def)
qed (simp add: total_hits_def)

lemma length_filter_partition:
  assumes "finite B" and "\<And>x. x \<in> set xs \<Longrightarrow> P x \<Longrightarrow> f x \<in> B"
  shows "length (filter P xs) = (\<Sum>b \<in> B. length (filter (\<lambda>x. P x \<and> f x = b) xs))"
  using assms(2)
proof (induction xs)
  case (Cons x xs)
  have "(\<Sum>b \<in> B. length (filter (\<lambda>x. P x \<and> f x = b) (x # xs)))
      = (\<Sum>b \<in> B. (if P x \<and> f x = b then 1 else 0) + length (filter (\<lambda>x. P x \<and> f x = b) xs))"
    by (intro sum.cong) auto
  also have "\<dots> = (\<Sum>b \<in> B. if P x \<and> f x = b then 1 else 0) + length (filter P xs)"
    using Cons by (simp add: sum.distrib)
  also have "(\<Sum>b \<in> B. if P x \<and> f x = b then 1 else 0) = (if P x then 1 else 0 :: nat)"
    using assms(1) Cons.prems [of x] by (cases "P x") (auto simp: sum.delta)
  finally show ?case by simp
qed simp

lemma total_hits_window:
  assumes "tracks rl ops b store" and "\<forall>e \<in> set store. fst e \<ge> b - num_buckets rl"
    and "b = current_bucket rl now"
  shows "total_hits key store = int (hits_in_window rl ops now key)"
proof -
  let ?B = "fst ` set store" and ?P = "\<lambda>op. \<exists>t. op = Hit t key \<and> current_bucket rl t \<ge> b - num_buckets rl"
  have stored: "stored_hits store c key = int (bucket_hits rl ops c key)" if "c \<ge> b - num_buckets rl" for c
    using assms(1) that by (simp add: tracks_def)
  have "current_bucket rl (op_time op) \<in> ?B" if "op \<in> set ops" "?P op" for op
  proof -
    let ?c = "current_bucket rl (op_time op)"
    from that have "bucket_hits rl ops ?c key \<noteq> 0"
      by (auto simp: bucket_hits_def filter_empty_conv)
    with stored [of ?c] that(2) have "stored_hits store ?c key \<noteq> 0" by auto
    then have "dget store ?c [] \<noteq> []" by (auto simp: stored_hits_def)
    then show ?thesis by (auto simp: dget_def split: option.splits dest!: map_of_SomeD intro: image_eqI [rotated])
  qed
  then have "hits_in_window rl ops now key = (\<Sum>c \<in> ?B. length (filter (\<lambda>op. ?P op \<and> current_bucket rl (op_time op) = c) ops))"
    unfolding hits_in_window_def assms(3) [symmetric] by (intro length_filter_partition) auto
  also have "\<dots> = (\<Sum>c \<in> ?B. bucket_hits rl ops c key)"
    using assms(2) unfolding bucket_hits_def
    by (intro sum.cong refl arg_cong [where f = length] filter_cong) auto
  finally have "int (hits_in_window rl ops now key) = (\<Sum>c \<in> ?B. stored_hits store c key)"
    using assms(2) stored by (auto intro!: sum.cong)
  then show ?thesis using total_hits_sum [of store key] assms(1) by (simp add: tracks_def)
qed

lemma pruned_buckets:
  "\<forall>e \<in> set (snd (get_count_memory rl now key store)). fst e \<ge> current_bucket rl now - num_buckets rl"
  "num_buckets rl \<ge> 0 \<Longrightarrow>
     \<forall>e \<in> set (snd (is_limited_memory rl now key store)). fst e \<ge> current_bucket rl now - num_buckets rl"
proof -
  have keys: "fst ` set (AList.update k v d) = insert k (fst ` set d)" for k :: int and v and d :: memory_store
    by (induction d) auto
  show "\<forall>e \<in> set (snd (get_count_memory rl now key store)). fst e \<ge> current_bucket rl now - num_buckets rl"
    by (auto simp: get_count_memory_def Let_def prune_memory_store_def)
  assume "num_buckets rl \<ge> 0"
  let ?b = "current_bucket rl now" and ?s = "prune_memory_store rl (current_bucket rl now) store"
  have "fst ` set (snd (is_limited_memory rl now key store)) = insert ?b (fst ` set ?s)"
    by (simp add: is_limited_memory_def Let_def keys)
  moreover have "fst ` set ?s \<subseteq> {?b - num_buckets rl ..}" by (auto simp: prune_memory_store_def)
  ultimately have "fst ` set (snd (is_limited_memory rl now key store)) \<subseteq> {?b - num_buckets rl ..}"
    using \<open>num_buckets rl \<ge> 0\<close> by auto
  then show "\<forall>e \<in> set (snd (is_limited_memory rl now key store)). fst e \<ge> ?b - num_buckets rl" by auto
qed

lemma rl_run_snoc: "rl_run rl (ops @ [op]) = rl_step rl op (rl_run rl ops)"
  by (simp add: rl_run_def)

lemma hits_in_window_query: "hits_in_window rl (ops @ [Query t k]) now key = hits_in_window rl ops now key"
  by (simp add: hits_in_window_def)

lemma memory_count_eq:
  assumes "rl_bucket_size rl > 0" and "sorted (map op_time ops @ [now])"
  shows "fst (get_count_memory rl now key (rl_run rl ops)) = int (hits_in_window rl ops now key)"
proof -
  have "tracks rl (ops @ [Query now key]) (current_bucket rl now) (rl_run rl (ops @ [Query now key]))"
    using tracks_run [OF assms(1), of ops "Query now key"] assms(2) by simp
  moreover have run: "rl_run rl (ops @ [Query now key]) = snd (get_count_memory rl now key (rl_run rl ops))"
    by (simp add: rl_run_snoc)
  ultimately have "total_hits key (snd (get_count_memory rl now key (rl_run rl ops)))
      = int (hits_in_window rl (ops @ [Query now key]) now key)"
    using pruned_buckets(1) by (intro total_hits_window) auto
  then show ?thesis by (simp add: hits_in_window_query get_count_memory_def Let_def)
qed

lemma memory_limited_iff:
  assumes "rl_bucket_size rl > 0" and "rl_window rl \<ge> 0" and "sorted (map op_time ops @ [now])"
  shows "fst (is_limited_memory rl now key (rl_run rl ops)) \<longleftrightarrow>
    int (hits_in_window rl (ops @ [Hit now key]) now key) > rl_limit rl"
proof -
  have nb: "num_buckets rl \<ge> 0" using assms(1,2) by (simp add: num_buckets_def pos_imp_zdiv_nonneg_iff)
  have "tracks rl (ops @ [Hit now key]) (current_bucket rl now) (rl_run rl (ops @ [Hit now key]))"
    using tracks_run [OF assms(1), of ops "Hit now key"] assms(3) by simp
  moreover have run: "rl_run rl (ops @ [Hit now key]) = snd (is_limited_memory rl now key (rl_run rl ops))"
    by (simp add: rl_run_snoc)
  ultimately have "total_hits key (snd (is_limited_memory rl now key (rl_run rl ops)))
      = int (hits_in_window rl (ops @ [Hit now key]) now key)"
    using pruned_buckets(2) [OF nb] by (intro total_hits_window) auto
  then show ?thesis by (simp add: is_limited_memory_def Let_def)
qed

lemma bucket_recent:
  assumes "rl_bucket_size rl > 0" and "now - t \<le> num_buckets rl * rl_bucket_size rl"
  shows "current_bucket rl t \<ge> current_bucket rl now - num_buckets rl"
proof -
  have "current_bucket rl now - num_buckets rl = (now - num_buckets rl * rl_bucket_size rl) div rl_bucket_size rl"
    using assms(1) div_mult_self1 [of "rl_bucket_size rl" now "- num_buckets rl"] by (simp add: current_bucket_def)
  also have "\<dots> \<le> t div rl_bucket_size rl" using assms by (intro zdiv_mono1) auto
  finally show ?thesis by (simp add: current_bucket_def)
qed

lemma bucket_old:
  assumes "rl_bucket_size rl > 0" and "current_bucket rl t \<ge> current_bucket rl now - num_buckets rl"
  shows "now - t < (num_buckets rl + 1) * rl_bucket_size rl"
proof -
  let ?s = "rl_bucket_size rl"
  have "(now div ?s - t div ?s) * ?s = (now - now mod ?s) - (t - t mod ?s)"
    unfolding left_diff_distrib minus_mod_eq_div_mult ..
  moreover have "now mod ?s < ?s" "t mod ?s \<ge> 0" using assms(1) by simp_all
  moreover have "(now div ?s - t div ?s) * ?s \<le> num_buckets rl * ?s"
    using assms by (intro mult_right_mono) (auto simp: current_bucket_def)
  ultimately have "now - t < num_buckets rl * ?s + ?s" by linarith
  then show ?thesis by (simp add: distrib_right)
qed

subsection \<open>Properties\<close>

text \<open>
  Over any history of checks and queries in memory whose times do not go back, the count of
  a key is the number of its hits in the current bucket and the \<open>num_buckets\<close> before it, and a
  check limits the caller exactly when that number, the new hit included, is above the limit:
  pruning never loses a hit that counts.
\<close>

theorem memory_limiter_exact:
  assumes "rl_bucket_size rl > 0" and "rl_window rl \<ge> 0" and "sorted (map op_time ops @ [now])"
  shows "fst (get_count_memory rl now key (rl_run rl ops)) = int (hits_in_window rl ops now key) \<and>
    (fst (is_limited_memory rl now key (rl_run rl ops)) \<longleftrightarrow>
       int (hits_in_window rl (ops @ [Hit now key]) now key) > rl_limit rl)"
  using memory_count_eq [OF assms(1,3)] memory_limited_iff [OF assms] by blast

definition demo_limiter :: limiter where
  "demo_limiter = \<lparr>rl_limit = 2, rl_window = 120, rl_bucket_size = 60, rl_enabled = True\<rparr>"

definition demo_ops :: "rl_op list" where
  "demo_ops = [Hit 10 ''a'', Hit 70 ''a'', Hit 100 ''b'', Hit 200 ''a'']"

theorem memory_limiter_exact_witness:
  "hits_in_window demo_limiter demo_ops 210 ''a'' = 2 \<and>
   hits_in_window demo_limiter (demo_ops @ [Hit 210 ''a'']) 210 ''a'' = 3"
proof -
  have "fst (get_count_memory demo_limiter 210 ''a'' (rl_run demo_limiter demo_ops)) = 2" by code_simp
  moreover have "fst (is_limited_memory demo_limiter 210 ''a'' (rl_run demo_limiter demo_ops))" by code_simp
  moreover have "hits_in_window demo_limiter (demo_ops @ [Hit 210 ''a'']) 210 ''a''
      = Suc (hits_in_window demo_limiter demo_ops 210 ''a'')"
    by (simp add: hits_in_window_def demo_limiter_def num_buckets_def current_bucket_def)
  ultimately show ?thesis
    using memory_limiter_exact [of demo_limiter demo_ops 210 "''a''"]
    by (simp add: demo_limiter_def demo_ops_def)
qed

text \<open>
  When the bucket size divides the window, the count covers every hit of the last \<open>window\<close>
  seconds and none as old as \<open>window + bucket_size\<close> seconds.
\<close>

theorem memory_window_bounds:
  assumes "rl_bucket_size rl > 0" and "rl_window rl \<ge> 0" and "rl_bucket_size rl dvd rl_window rl"
    and "sorted (map op_time ops @ [now])"
  shows "int (length (filter (\<lambda>op. \<exists>t. op = Hit t key \<and> now - t \<le> rl_window rl) ops))
           \<le> fst (get_count_memory rl now key (rl_run rl ops)) \<and>
         fst (get_count_memory rl now key (rl_run rl ops))
           \<le> int (length (filter (\<lambda>op. \<exists>t. op = Hit t key \<and> now - t < rl_window rl + rl_bucket_size rl) ops))"
proof -
  have w: "num_buckets rl * rl_bucket_size rl = rl_window rl" using assms(3) by (simp add: num_buckets_def)
  have old: "now - t < rl_window rl + rl_bucket_size rl"
    if "current_bucket rl t \<ge> current_bucket rl now - num_buckets rl" for t
    using bucket_old [OF assms(1) that] w by (simp add: algebra_simps)
  show ?thesis
    unfolding memory_count_eq [OF assms(1,4)] hits_in_window_def of_nat_le_iff
    using bucket_recent [OF assms(1)] w old by (intro conjI length_filter_mono) auto
qed

theorem memory_window_bounds_witness:
  "int (length (filter (\<lambda>op. \<exists>t. op = Hit t ''a'' \<and> 210 - t \<le> 120) demo_ops))
     \<le> fst (get_count_memory demo_limiter 210 ''a'' (rl_run demo_limiter demo_ops))"
  using memory_window_bounds [of demo_limiter demo_ops 210 "''a''"]
  by (simp add: demo_limiter_def demo_ops_def)

end
