(* ===== verification/Chat_Fork.thy ===== *)
theory Chat_Fork
  imports Prelude
begin

text \<open>
  Forking a chat, \<^verbatim>\<open>utils/chat_fork.py\<close>: \<open>build_fork_history\<close> follows the parent links from a message
  to the root and copies that branch into a new history, a chain without side branches. A message
  is a dict, as the client stored it. The copies in the ordered list are the objects of the
  \<open>messages\<close> dict, so a later write to one of them shows in both: the model looks the list up in
  the final dict.
\<close>

subsection \<open>The branch\<close>

type_synonym messages_map = "(string \<times> py) list"

function fork_branch :: "messages_map \<Rightarrow> py \<Rightarrow> string list \<Rightarrow> (string \<times> pydict) list \<Rightarrow> (string \<times> pydict) list result" where
  "fork_branch messages_map message_id seen branch =
     (if \<not> truthy message_id then Inr branch
      else case message_id of
             PStr i \<Rightarrow>
               (if i \<in> set seen then Inl (ValueError ''message branch contains a cycle'')
                else case map_of messages_map i of
                       Some (PDict message) \<Rightarrow>
                         fork_branch messages_map (pget message ''parentId'') (i # seen) (branch @ [(i, message)])
                     | _ \<Rightarrow> Inl (ValueError ''message not found''))
           | PList _ \<Rightarrow> Inl TypeError
           | PDict _ \<Rightarrow> Inl TypeError
           | _ \<Rightarrow> Inl (ValueError ''message not found''))"
  by pat_completeness auto
termination
proof (relation "measure (\<lambda>(mm, _, seen, _). card (fst ` set mm - set seen))", goal_cases)
  case (2 mm mid seen branch i v message)
  then have "i \<in> fst ` set mm" by (auto dest!: map_of_SomeD intro: rev_image_eqI)
  with 2 have "fst ` set mm - set (i # seen) \<subset> fst ` set mm - set seen" by auto
  from psubset_card_mono [OF _ this] show ?case by simp
qed simp

declare fork_branch.simps [simp del]

subsection \<open>The copy\<close>

definition copy_message :: "string \<Rightarrow> string option \<Rightarrow> pydict \<Rightarrow> pydict" where
  "copy_message i parent_id message =
     AList.update ''childrenIds'' (PList [])
       (AList.update ''parentId'' (case parent_id of None \<Rightarrow> PNone | Some p \<Rightarrow> PStr p)
          (AList.update ''id'' (PStr i) message))"

fun fork_loop :: "(string \<times> pydict) list \<Rightarrow> string option \<Rightarrow> (string \<times> pydict) list \<Rightarrow> (string \<times> pydict) list" where
  "fork_loop [] parent_id fork_messages = fork_messages"
| "fork_loop ((i, message) # rest) parent_id fork_messages =
     (let fork_messages =
            (case parent_id of
               None \<Rightarrow> fork_messages
             | Some p \<Rightarrow> AList.update p (AList.update ''childrenIds'' (PList [PStr i]) (dget fork_messages p [])) fork_messages)
      in fork_loop rest (Some i) (AList.update i (copy_message i parent_id message) fork_messages))"

record fork_history =
  fh_messages :: "(string \<times> pydict) list"
  fh_currentId :: string

definition build_fork_history :: "messages_map \<Rightarrow> string \<Rightarrow> (fork_history \<times> pydict list) result" where
  "build_fork_history messages_map source_message_id =
     (if messages_map = [] then Inl (ValueError ''chat has no messages to fork'')
      else bind_result (fork_branch messages_map (PStr source_message_id) [] []) (\<lambda>branch.
             let fork_messages = fork_loop (rev branch) None []
             in Inr (\<lparr>fh_messages = fork_messages, fh_currentId = source_message_id\<rparr>,
                     map (\<lambda>e. dget fork_messages (fst e) []) (rev branch))))"

subsection \<open>Specification\<close>

text \<open>The ids from a link up to the root: every id names a message, the last one has no parent.\<close>

fun upward_chain :: "messages_map \<Rightarrow> py \<Rightarrow> string list \<Rightarrow> bool" where
  "upward_chain mm link [] = (\<not> truthy link)"
| "upward_chain mm link (i # is) =
     (link = PStr i \<and> i \<noteq> [] \<and>
      (case map_of mm i of Some (PDict m) \<Rightarrow> upward_chain mm (pget m ''parentId'') is | _ \<Rightarrow> False))"

definition message_at :: "messages_map \<Rightarrow> string \<Rightarrow> pydict" where
  "message_at mm i = (case map_of mm i of Some (PDict m) \<Rightarrow> m | _ \<Rightarrow> [])"

text \<open>A chain of messages: each names the one before it as parent and the one after it as only child.\<close>

fun linked :: "string option \<Rightarrow> (string \<times> pydict) list \<Rightarrow> (string \<times> pydict) list" where
  "linked parent_id [] = []"
| "linked parent_id ((i, m) # rest) =
     (i, AList.update ''childrenIds'' (PList (map (PStr \<circ> fst) (take 1 rest))) (copy_message i parent_id m))
       # linked (Some i) rest"

subsection \<open>Lemmas\<close>

lemma fork_branch_Inr:
  "fork_branch mm link seen branch = Inr b \<longleftrightarrow>
     (\<exists>is. upward_chain mm link is \<and> distinct is \<and> set is \<inter> set seen = {} \<and> b = branch @ map (\<lambda>i. (i, message_at mm i)) is)"
proof (induction mm link seen branch rule: fork_branch.induct)
  case (1 mm link seen branch)
  consider (ended) "\<not> truthy link" | (bad) "truthy link" "\<nexists>i. link = PStr i"
    | (cycle) i where "link = PStr i" "i \<noteq> []" "i \<in> set seen"
    | (missing) i where "link = PStr i" "i \<noteq> []" "i \<notin> set seen" "\<nexists>m. map_of mm i = Some (PDict m)"
    | (found) i m where "link = PStr i" "i \<noteq> []" "i \<notin> set seen" "map_of mm i = Some (PDict m)"
    by (cases link) auto
  then show ?case
  proof cases
    case ended
    then have "upward_chain mm link is \<longleftrightarrow> is = []" for "is" by (cases "is") auto
    with ended show ?thesis by (simp add: fork_branch.simps [of mm link]) blast
  next
    case bad
    then have no: "\<not> upward_chain mm link is" for "is" by (cases "is") auto
    from bad have "\<exists>e. fork_branch mm link seen branch = Inl e"
      by (subst fork_branch.simps) (cases link; simp)
    with no show ?thesis by auto
  next
    case cycle
    then have no: "\<not> (upward_chain mm link is \<and> set is \<inter> set seen = {})" for "is" by (cases "is") auto
    from cycle have "\<exists>e. fork_branch mm link seen branch = Inl e" by (subst fork_branch.simps) simp
    with no show ?thesis by auto
  next
    case missing
    then have no: "\<not> upward_chain mm link is" for "is"
      by (cases "is") (auto split: option.splits py.splits)
    from missing have "\<exists>e. fork_branch mm link seen branch = Inl e"
      by (subst fork_branch.simps) (auto split: option.splits py.splits)
    with no show ?thesis by auto
  next
    case found
    have chain: "upward_chain mm link is \<longleftrightarrow> (\<exists>is'. is = i # is' \<and> upward_chain mm (pget m ''parentId'') is')" for "is"
      using found by (cases "is") auto
    have run: "fork_branch mm link seen branch = fork_branch mm (pget m ''parentId'') (i # seen) (branch @ [(i, m)])"
      using found by (subst fork_branch.simps) simp
    have "fork_branch mm link seen branch = Inr b \<longleftrightarrow> (\<exists>is. upward_chain mm (pget m ''parentId'') is \<and> distinct is \<and> set is \<inter> set (i # seen) = {} \<and>
        b = (branch @ [(i, m)]) @ map (\<lambda>i. (i, message_at mm i)) is)"
      unfolding run using 1 [of i "PDict m" m] found by simp
    also have "\<dots> \<longleftrightarrow> (\<exists>is. upward_chain mm link is \<and> distinct is \<and> set is \<inter> set seen = {} \<and>
        b = branch @ map (\<lambda>i. (i, message_at mm i)) is)"
    proof -
      have at: "message_at mm i = m" by (simp add: message_at_def found(4))
      have "(\<exists>is. upward_chain mm link is \<and> distinct is \<and> set is \<inter> set seen = {} \<and> b = branch @ map (\<lambda>i. (i, message_at mm i)) is)
          \<longleftrightarrow> (\<exists>is. upward_chain mm (pget m ''parentId'') is \<and> distinct (i # is) \<and> set (i # is) \<inter> set seen = {} \<and>
               b = branch @ map (\<lambda>i. (i, message_at mm i)) (i # is))"
        unfolding chain by blast
      also have "\<dots> \<longleftrightarrow> (\<exists>is. upward_chain mm (pget m ''parentId'') is \<and> distinct is \<and> set is \<inter> set (i # seen) = {} \<and>
          b = (branch @ [(i, m)]) @ map (\<lambda>i. (i, message_at mm i)) is)"
        using found(3) by (intro arg_cong [where f = Ex] ext) (auto simp: at)
      finally show ?thesis by (rule sym)
    qed
    finally show ?thesis .
  qed
qed

lemma update_append_new: "k \<notin> fst ` set d \<Longrightarrow> AList.update k v (d @ e) = d @ AList.update k v e"
  by (induction d) auto

lemma dget_append_new: "k \<notin> fst ` set d \<Longrightarrow> dget (d @ e) k x = dget e k x"
  by (induction d) (auto simp: dget_def)

lemma fork_loop_linked:
  assumes "distinct (map fst (pre @ (p, c) # rest))"
  shows "fork_loop rest (Some p) (pre @ [(p, c)]) =
    pre @ (p, if rest = [] then c else AList.update ''childrenIds'' (PList (map (PStr \<circ> fst) (take 1 rest))) c) # linked (Some p) rest"
  using assms
proof (induction rest arbitrary: pre p c)
  case (Cons e rest)
  obtain i m where e: "e = (i, m)" by (cases e)
  let ?c = "AList.update ''childrenIds'' (PList [PStr i]) c"
  have "fork_loop (e # rest) (Some p) (pre @ [(p, c)])
      = fork_loop rest (Some i) ((pre @ [(p, ?c)]) @ [(i, copy_message i (Some p) m)])"
    using Cons.prems by (simp add: e Let_def dget_append_new update_append_new dget_Cons)
  also have "\<dots> = (pre @ [(p, ?c)]) @ (i, if rest = [] then copy_message i (Some p) m
      else AList.update ''childrenIds'' (PList (map (PStr \<circ> fst) (take 1 rest))) (copy_message i (Some p) m)) # linked (Some i) rest"
    using Cons.prems by (intro Cons.IH) (auto simp: e)
  also have "(if rest = [] then copy_message i (Some p) m
      else AList.update ''childrenIds'' (PList (map (PStr \<circ> fst) (take 1 rest))) (copy_message i (Some p) m))
      = AList.update ''childrenIds'' (PList (map (PStr \<circ> fst) (take 1 rest))) (copy_message i (Some p) m)"
    by (simp add: copy_message_def)
  finally show ?case by (simp add: e)
qed simp

lemma fork_loop_eq:
  assumes "distinct (map fst branch)"
  shows "fork_loop branch None [] = linked None branch"
proof (cases branch)
  case (Cons e rest)
  obtain i m where e: "e = (i, m)" by (cases e)
  from fork_loop_linked [of "[]" i "copy_message i None m" rest] assms Cons e
  show ?thesis by (simp add: Let_def copy_message_def)
qed simp

lemma map_fst_linked [simp]: "map fst (linked p branch) = map fst branch"
  by (induction p branch rule: linked.induct) auto

lemma dget_self: "distinct (map fst d) \<Longrightarrow> map (\<lambda>e. dget d (fst e) x) d = map snd d"
  by (auto simp: dget_def)

lemma build_fork_history_iff:
  assumes "mm \<noteq> []"
  shows "build_fork_history mm source = Inr (h, ordered) \<longleftrightarrow>
    (\<exists>is. upward_chain mm (PStr source) is \<and> distinct is \<and> fh_currentId h = source \<and>
       fh_messages h = linked None (map (\<lambda>i. (i, message_at mm i)) (rev is)) \<and> ordered = map snd (fh_messages h))"
proof -
  have out: "map (\<lambda>e. dget (fork_loop (rev b) None []) (fst e) []) (rev b) = map snd (linked None (rev b))"
    "fork_loop (rev b) None [] = linked None (rev b)" if "distinct (map fst b)" for b :: "(string \<times> pydict) list"
  proof -
    from that have d: "distinct (map fst (rev b))" by (simp add: rev_map [symmetric])
    then show eq: "fork_loop (rev b) None [] = linked None (rev b)" by (rule fork_loop_eq)
    have "map (\<lambda>e. dget (linked None (rev b)) (fst e) []) (rev b) = map (\<lambda>i. dget (linked None (rev b)) i []) (map fst (rev b))"
      by (simp only: map_map comp_def)
    also have "\<dots> = map (\<lambda>e. dget (linked None (rev b)) (fst e) []) (linked None (rev b))"
      unfolding map_fst_linked [of None "rev b", symmetric] by (simp only: map_map comp_def)
    also have "\<dots> = map snd (linked None (rev b))" using d by (intro dget_self) simp
    finally show "map (\<lambda>e. dget (fork_loop (rev b) None []) (fst e) []) (rev b) = map snd (linked None (rev b))"
      unfolding eq .
  qed
  have ids: "map fst (map (\<lambda>i. (i, message_at mm i)) is) = is" for "is" by (simp add: comp_def)
  show ?thesis
    using assms out [of "map (\<lambda>i. (i, message_at mm i)) _", unfolded ids]
    by (cases h) (auto simp: build_fork_history_def bind_result_Inr_iff fork_branch_Inr Let_def rev_map)
qed

subsection \<open>Properties\<close>

text \<open>
  Forking a chat that has messages succeeds exactly when the parent links from the source
  message lead, through messages that exist and without visiting one twice, to a message without
  a parent. The new history then holds exactly that branch, from the root to the source, each
  message linked to the one before it as parent and to the one after it as only child and
  otherwise unchanged, with the source as current message; every other chat raises.
\<close>

theorem fork_is_the_branch:
  assumes "mm \<noteq> []"
  shows "build_fork_history mm source = Inr (h, ordered) \<longleftrightarrow>
    (\<exists>is. upward_chain mm (PStr source) is \<and> distinct is \<and> fh_currentId h = source \<and>
       fh_messages h = linked None (map (\<lambda>i. (i, message_at mm i)) (rev is)) \<and> ordered = map snd (fh_messages h))"
  using assms by (rule build_fork_history_iff)

definition demo_messages :: messages_map where
  "demo_messages = [(''a'', PDict [(''content'', PStr ''hi''), (''parentId'', PNone), (''childrenIds'', PList [PStr ''b'', PStr ''c''])]),
     (''b'', PDict [(''content'', PStr ''x''), (''parentId'', PStr ''a'')]),
     (''c'', PDict [(''content'', PStr ''y''), (''parentId'', PStr ''a'')])]"

definition demo_fork :: fork_history where
  "demo_fork = \<lparr>fh_messages =
     [(''a'', [(''content'', PStr ''hi''), (''parentId'', PNone), (''childrenIds'', PList [PStr ''b'']), (''id'', PStr ''a'')]),
      (''b'', [(''content'', PStr ''x''), (''parentId'', PStr ''a''), (''id'', PStr ''b''), (''childrenIds'', PList [])])],
     fh_currentId = ''b''\<rparr>"

theorem fork_is_the_branch_witness:
  "build_fork_history demo_messages ''b'' = Inr (demo_fork, map snd (fh_messages demo_fork))"
proof -
  have "upward_chain demo_messages (PStr ''b'') [''b'', ''a'']" by code_simp
  moreover have "fh_messages demo_fork = linked None (map (\<lambda>i. (i, message_at demo_messages i)) (rev [''b'', ''a'']))"
    "fh_currentId demo_fork = ''b''" by code_simp+
  moreover have "demo_messages \<noteq> []" "distinct [''b'', ''a'']" by (simp_all add: demo_messages_def)
  ultimately show ?thesis
    using fork_is_the_branch [of demo_messages "''b''" demo_fork "map snd (fh_messages demo_fork)"] by blast
qed

end
