(* ===== verification/Py_Numbers.thy ===== *)
theory Py_Numbers
  imports Prelude
begin

text \<open>
  The conversions and comparisons of Python values the components use: the numerals that
  \<open>int\<close>, \<open>float\<close> and \<open>Decimal\<close> read, equality of JSON values, \<open>str.split\<close> and \<open>str.lstrip\<close>.
  A Decimal is the rational it denotes. The numerals of infinities and of not-a-number are left
  out: they are read as errors.
\<close>

subsection \<open>Numerals\<close>

definition is_decimal_digit :: "char \<Rightarrow> bool" where
  "is_decimal_digit c \<longleftrightarrow> 48 \<le> (of_char c :: nat) \<and> (of_char c :: nat) \<le> 57"

fun digits_value :: "string \<Rightarrow> nat \<Rightarrow> nat" where
  "digits_value [] n = n"
| "digits_value (c # cs) n = digits_value cs (10 * n + (of_char c - 48))"

text \<open>\<open>str(n)\<close> for a natural number.\<close>

definition digit :: "nat \<Rightarrow> char" where
  "digit n = char_of (48 + n)"

fun decimal :: "nat \<Rightarrow> string" where
  "decimal n = (if n < 10 then [digit n] else decimal (n div 10) @ [digit (n mod 10)])"

declare decimal.simps [simp del]

definition read_digits :: "string \<Rightarrow> nat" where
  "read_digits s = foldl (\<lambda>n c. 10 * n + (of_char c - 48)) 0 s"

lemma read_digits_append: "read_digits (s @ [c]) = 10 * read_digits s + (of_char c - 48)"
  by (simp add: read_digits_def)

lemma of_char_digit: "n < 10 \<Longrightarrow> of_char (digit n) - 48 = n"
  by (simp add: digit_def of_char_of)

lemma read_digits_decimal: "read_digits (decimal n) = n"
proof (induction n rule: decimal.induct)
  case (1 n)
  show ?case
  proof (cases "n < 10")
    case True
    then show ?thesis by (subst decimal.simps) (simp add: read_digits_def of_char_digit)
  next
    case False
    with 1 show ?thesis by (subst decimal.simps) (simp add: read_digits_append of_char_digit)
  qed
qed

lemma read_digits_zeros: "read_digits (replicate k (CHR ''0'') @ s) = read_digits s"
proof -
  have "foldl (\<lambda>n c. 10 * n + (of_char c - 48)) (0 :: nat) (replicate k (CHR ''0'')) = 0"
    by (induction k) simp_all
  then show ?thesis by (simp add: read_digits_def)
qed

lemma is_decimal_digit_digit: "n < 10 \<Longrightarrow> is_decimal_digit (digit n)"
  by (simp add: is_decimal_digit_def digit_def of_char_of)

lemma decimal_digits: "c \<in> set (decimal n) \<Longrightarrow> is_decimal_digit c"
proof (induction n rule: decimal.induct)
  case (1 n)
  then show ?case by (subst (asm) (2) decimal.simps) (auto simp: is_decimal_digit_digit split: if_splits)
qed

definition read_nat :: "string \<Rightarrow> nat option" where
  "read_nat s = (if s \<noteq> [] \<and> list_all is_decimal_digit s then Some (digits_value s 0) else None)"

definition split_sign :: "string \<Rightarrow> int \<times> string" where
  "split_sign s = (case s of c # cs \<Rightarrow> if c = CHR ''-'' then (- 1, cs) else if c = CHR ''+'' then (1, cs) else (1, s) | [] \<Rightarrow> (1, s))"

definition read_int :: "string \<Rightarrow> int option" where
  "read_int s = (case split_sign s of (sg, ds) \<Rightarrow> map_option (\<lambda>n. sg * int n) (read_nat ds))"

definition split_at :: "(char \<Rightarrow> bool) \<Rightarrow> string \<Rightarrow> string \<times> string option" where
  "split_at P s = (takeWhile (\<lambda>c. \<not> P c) s, case dropWhile (\<lambda>c. \<not> P c) s of [] \<Rightarrow> None | _ # r \<Rightarrow> Some r)"

text \<open>\<open>digits [. digits] [e exponent]\<close> with an optional sign; one side of the point may be empty.\<close>

definition read_numeral :: "string \<Rightarrow> rat option" where
  "read_numeral s =
     (let (sg, s) = split_sign s;
          (mant, ex) = split_at (\<lambda>c. c = CHR ''e'' \<or> c = CHR ''E'') s;
          (ip, fp) = split_at (\<lambda>c. c = CHR ''.'') mant;
          fp = (case fp of None \<Rightarrow> [] | Some f \<Rightarrow> f)
      in case (read_nat (ip @ fp), case ex of None \<Rightarrow> Some 0 | Some e \<Rightarrow> read_int e) of
           (Some n, Some e) \<Rightarrow>
             (let m = of_int sg * of_nat n / 10 ^ length fp
              in Some (if e \<ge> 0 then m * 10 ^ nat e else m / 10 ^ nat (- e)))
         | _ \<Rightarrow> None)"

text \<open>White space around a numeral and underscores are skipped.\<close>

definition parse_numeral :: "string \<Rightarrow> rat option" where
  "parse_numeral s = read_numeral (filter (\<lambda>c. c \<noteq> CHR ''_'') (py_strip s))"

definition parse_integer :: "string \<Rightarrow> int option" where
  "parse_integer s = read_int (filter (\<lambda>c. c \<noteq> CHR ''_'') (py_strip s))"

text \<open>\<open>Decimal(v)\<close>.\<close>

fun to_decimal :: "py \<Rightarrow> rat result" where
  "to_decimal (PBool b) = Inr (if b then 1 else 0)"
| "to_decimal (PInt i) = Inr (of_int i)"
| "to_decimal (PFloat r) = Inr r"
| "to_decimal (PStr s) = (case parse_numeral s of Some r \<Rightarrow> Inr r | None \<Rightarrow> Inl (ValueError ''InvalidOperation''))"
| "to_decimal (PList _) = Inl (ValueError ''argument must be a sequence of length 3'')"
| "to_decimal _ = Inl TypeError"

text \<open>\<open>int(v)\<close>, \<open>None\<close> where it raises.\<close>

fun to_int :: "py \<Rightarrow> int option" where
  "to_int (PBool b) = Some (if b then 1 else 0)"
| "to_int (PInt i) = Some i"
| "to_int (PFloat r) = Some (if r \<ge> 0 then \<lfloor>r\<rfloor> else \<lceil>r\<rceil>)"
| "to_int (PStr s) = parse_integer s"
| "to_int _ = None"

text \<open>\<open>float(v)\<close>, rounded by \<open>fl\<close>; \<open>None\<close> where it raises.\<close>

fun to_float :: "(rat \<Rightarrow> rat) \<Rightarrow> py \<Rightarrow> rat option" where
  "to_float fl (PBool b) = Some (if b then 1 else 0)"
| "to_float fl (PInt i) = Some (fl (of_int i))"
| "to_float fl (PFloat r) = Some r"
| "to_float fl (PStr s) = map_option fl (parse_numeral s)"
| "to_float fl _ = None"

fun py_number :: "py \<Rightarrow> rat option" where
  "py_number (PBool b) = Some (if b then 1 else 0)"
| "py_number (PInt i) = Some (of_int i)"
| "py_number (PFloat r) = Some r"
| "py_number _ = None"

subsection \<open>Equality of values\<close>

text \<open>\<open>==\<close>: numbers by value, whatever their type, lists item by item, dicts as maps.\<close>

function (sequential) py_eq :: "py \<Rightarrow> py \<Rightarrow> bool" where
  "py_eq (PStr a) (PStr b) = (a = b)"
| "py_eq PNone PNone = True"
| "py_eq (PList xs) (PList ys) = (length xs = length ys \<and> list_all (\<lambda>(x, y). py_eq x y) (zip xs ys))"
| "py_eq (PDict a) (PDict b) =
     (length a = length b \<and> list_all (\<lambda>(k, v). case map_of b k of Some w \<Rightarrow> py_eq v w | None \<Rightarrow> False) a)"
| "py_eq a b = (case (py_number a, py_number b) of (Some x, Some y) \<Rightarrow> x = y | _ \<Rightarrow> False)"
  by pat_completeness auto
termination
proof (relation "measure (size \<circ> fst)", goal_cases)
  case (2 xs ys p x y)
  then have "x \<in> set xs" by (auto dest: set_zip_leftD)
  then have "size x \<le> size_list size xs" by (rule size_list_estimation') simp
  then show ?case by simp
next
  case (3 a b p k v w)
  then have "(k, v) \<in> set a" by simp
  then have "size v \<le> size_list (size_prod (\<lambda>x. 0) size) a" by (rule size_list_estimation') simp
  then show ?case by simp
qed simp

subsection \<open>Strings\<close>

text \<open>\<open>s.lstrip(chars)\<close> drops leading characters that occur in \<open>chars\<close>.\<close>

definition py_lstrip :: "string \<Rightarrow> string \<Rightarrow> string" where
  "py_lstrip chars s = dropWhile (\<lambda>c. c \<in> set chars) s"

text \<open>\<open>s.split(c)\<close> for one character.\<close>

fun py_split :: "char \<Rightarrow> string \<Rightarrow> string list" where
  "py_split c [] = [[]]"
| "py_split c (x # xs) =
     (if x = c then [] # py_split c xs
      else case py_split c xs of [] \<Rightarrow> [[x]] | y # ys \<Rightarrow> (x # y) # ys)"

end
