(* ===== verification/Bot_Scheduler.thy ===== *)
theory Bot_Scheduler
  imports Py_Numbers "HOL-Library.List_Lexorder" "HOL-Library.Char_ord" "HOL-Library.Product_Lexorder"
begin

text \<open>
  The shard scheduler of the bot gateway, \<^verbatim>\<open>utils/bot_gateway_scheduler.py\<close>: load units of a
  connection, and the plan that assigns every enabled connection to a shard, sticky first and
  best fit for the rest. Floating point numbers are rationals; \<open>fl\<close> rounds the result of an
  operation to a float. The time is an argument.
\<close>

subsection \<open>Load units\<close>

record load_sample =
  event_rate_5m :: rat
  event_rate_30m :: rat
  processing_seconds_per_minute :: rat
  processing_seconds_per_minute_30m :: rat
  attachment_mib_per_minute :: rat
  attachment_mib_per_minute_30m :: rat
  account_errors_10m :: rat

definition calculate_load_units :: "(rat \<Rightarrow> rat) \<Rightarrow> load_sample \<Rightarrow> int" where
  "calculate_load_units fl sample =
     (let event_rate = max (event_rate_5m sample) (event_rate_30m sample);
          processing_seconds = max (processing_seconds_per_minute sample) (processing_seconds_per_minute_30m sample);
          attachment_mib = max (attachment_mib_per_minute sample) (attachment_mib_per_minute_30m sample);
          s = fl (1 + fl (max 0 event_rate / 5));
          s = fl (s + fl (max 0 processing_seconds / 15));
          s = fl (s + fl (max 0 attachment_mib / 20));
          s = fl (s + fl (3 * max 0 (account_errors_10m sample)))
      in min 12 (max 1 (ceiling s)))"

definition sample_number :: "pydict \<Rightarrow> string \<Rightarrow> rat" where
  "sample_number metrics key = (case py_number (dget metrics key (PInt 0)) of Some r \<Rightarrow> r | None \<Rightarrow> 0)"

definition load_sample_from_config :: "py \<Rightarrow> load_sample" where
  "load_sample_from_config config =
     (let metrics = (case pget (dict_or_empty config) ''runtime_metrics'' of PDict d \<Rightarrow> d | _ \<Rightarrow> [])
      in \<lparr>event_rate_5m = sample_number metrics ''event_rate_5m'',
          event_rate_30m = sample_number metrics ''event_rate_30m'',
          processing_seconds_per_minute = sample_number metrics ''processing_seconds_per_minute'',
          processing_seconds_per_minute_30m = sample_number metrics ''processing_seconds_per_minute_30m'',
          attachment_mib_per_minute = sample_number metrics ''attachment_mib_per_minute'',
          attachment_mib_per_minute_30m = sample_number metrics ''attachment_mib_per_minute_30m'',
          account_errors_10m = sample_number metrics ''account_errors_10m''\<rparr>)"

subsection \<open>Connections\<close>

record connection =
  c_id :: string
  c_channel :: string
  c_shard_id :: "string option"
  c_enabled :: bool
  c_status :: string
  c_load_units :: int
  c_config :: py

definition MOVE_COOLDOWN_SECONDS :: int where
  "MOVE_COOLDOWN_SECONDS = 30 * 60"

definition connection_can_move :: "connection \<Rightarrow> int \<Rightarrow> bool" where
  "connection_can_move c now =
     (let config = dict_or_empty (c_config c);
          in_cooldown = (case py_number (dget config ''last_shard_move_at'' (PInt 0)) of
                           Some t \<Rightarrow> t > of_int (now - MOVE_COOLDOWN_SECONDS)
                         | None \<Rightarrow> False)
      in \<not> (c_status c = ''awaiting_scan'' \<or>
             truthy (pget config ''half_open'') \<or>
             truthy (pget config ''credential_migration_in_progress'') \<or>
             truthy (pget config ''control_operation_in_progress'') \<or>
             in_cooldown))"

text \<open>
  \<open>int(config.get(key, 0) or 0)\<close>. \<open>parse_int\<close> is \<open>int\<close> on a string, None where it raises.
\<close>

definition int_setting :: "(string \<Rightarrow> int option) \<Rightarrow> connection \<Rightarrow> string \<Rightarrow> int result" where
  "int_setting parse_int c key =
     (let v = dget (dict_or_empty (c_config c)) key (PInt 0)
      in if \<not> truthy v then Inr 0
         else case v of
                PInt n \<Rightarrow> Inr n
              | PBool b \<Rightarrow> Inr 1
              | PFloat r \<Rightarrow> Inr (if r \<ge> 0 then floor r else ceiling r)
              | PStr s \<Rightarrow> (case parse_int s of Some n \<Rightarrow> Inr n | None \<Rightarrow> Inl (ValueError ''invalid literal for int()''))
              | PNonFinite \<Rightarrow> Inl (ValueError ''cannot convert float to integer'')
              | _ \<Rightarrow> Inl TypeError)"

text \<open>\<open>item.load_units >= 8 or account_error_streak >= 3\<close>, which reads the config only for a light load.\<close>

definition isolates :: "(string \<Rightarrow> int option) \<Rightarrow> connection \<Rightarrow> bool result" where
  "isolates parse_int c =
     (if c_load_units c \<ge> 8 then Inr True
      else bind_result (int_setting parse_int c ''account_error_streak'') (\<lambda>n. Inr (n \<ge> 3)))"

subsection \<open>Shard names\<close>

definition pad3 :: "string \<Rightarrow> string" where
  "pad3 s = replicate (3 - length s) (CHR ''0'') @ s"

definition shard_name :: "string \<Rightarrow> nat \<Rightarrow> string" where
  "shard_name channel index = channel @ ''-shard-'' @ pad3 (decimal index)"

lemma shard_name_inj: "shard_name channel i = shard_name channel j \<longleftrightarrow> i = j"
proof
  assume "shard_name channel i = shard_name channel j"
  then have "read_digits (pad3 (decimal i)) = read_digits (pad3 (decimal j))" by (simp add: shard_name_def)
  then show "i = j" by (simp add: pad3_def read_digits_zeros read_digits_decimal)
qed simp

lemma finite_shard_names: "finite (known :: string set) \<Longrightarrow> finite {j. shard_name channel j \<in> known}"
  by (rule finite_vimageI [of known "shard_name channel", unfolded vimage_def])
     (simp_all add: inj_def shard_name_inj)

function next_shard_loop :: "string \<Rightarrow> string list \<Rightarrow> nat \<Rightarrow> string" where
  "next_shard_loop channel known index =
     (if shard_name channel index \<in> set known then next_shard_loop channel known (index + 1)
      else shard_name channel index)"
  by pat_completeness auto
termination
proof (relation "measure (\<lambda>(channel, known, index). card {j. j \<ge> index \<and> shard_name channel j \<in> set known})", goal_cases)
  case (2 channel known index)
  then have "index \<in> {j. j \<ge> index \<and> shard_name channel j \<in> set known} - {j. j \<ge> index + 1 \<and> shard_name channel j \<in> set known}"
    by simp
  moreover have "{j. j \<ge> index + 1 \<and> shard_name channel j \<in> set known} \<subseteq> {j. j \<ge> index \<and> shard_name channel j \<in> set known}"
    by auto
  ultimately have "{j. j \<ge> index + 1 \<and> shard_name channel j \<in> set known} \<subset> {j. j \<ge> index \<and> shard_name channel j \<in> set known}"
    by blast
  moreover have "finite {j. j \<ge> index \<and> shard_name channel j \<in> set known}"
    using finite_shard_names [of "set known" channel] by simp
  ultimately show ?case by (simp add: psubset_card_mono)
qed simp

declare next_shard_loop.simps [simp del]

definition next_shard :: "string \<Rightarrow> string list \<Rightarrow> string" where
  "next_shard channel known = next_shard_loop channel known 0"

lemma next_shard_fresh: "next_shard channel known \<notin> set known"
proof -
  have "next_shard_loop channel known i \<notin> set known" for i
    by (induction channel known i rule: next_shard_loop.induct) (subst next_shard_loop.simps, simp)
  then show ?thesis by (simp add: next_shard_def)
qed

subsection \<open>The plan\<close>

record sched =
  s_assignments :: "(string \<times> string) list"
  s_accounts :: "(string \<times> int) list"
  s_load :: "(string \<times> int) list"
  s_channel :: "(string \<times> string) list"
  s_dedicated :: "string list"

definition empty_sched :: sched where
  "empty_sched = \<lparr>s_assignments = [], s_accounts = [], s_load = [], s_channel = [], s_dedicated = []\<rparr>"

text \<open>The bookkeeping for one assignment, the same in \<open>retain\<close> and in the best fit pass.\<close>

definition place :: "connection \<Rightarrow> string \<Rightarrow> bool \<Rightarrow> sched \<Rightarrow> sched" where
  "place c shard isolate st =
     \<lparr>s_assignments = AList.update (c_id c) shard (s_assignments st),
      s_accounts = AList.update shard (dget (s_accounts st) shard 0 + 1) (s_accounts st),
      s_load = AList.update shard (dget (s_load st) shard 0 + c_load_units c) (s_load st),
      s_channel = AList.update shard (c_channel c) (s_channel st),
      s_dedicated = (if isolate then List.insert shard (s_dedicated st) else s_dedicated st)\<rparr>"

text \<open>The shard a connection is on; the empty id counts as none.\<close>

definition current_shard :: "connection \<Rightarrow> string option" where
  "current_shard c = (if c_shard_id c = Some [] then None else c_shard_id c)"

definition retain :: "(string \<Rightarrow> int option) \<Rightarrow> connection \<Rightarrow> sched \<Rightarrow> sched result" where
  "retain parse_int c st =
     (case current_shard c of
        None \<Rightarrow> Inr st
      | Some shard \<Rightarrow> bind_result (isolates parse_int c) (\<lambda>isolate. Inr (place c shard isolate st)))"

definition pinned_step :: "(string \<Rightarrow> int option) \<Rightarrow> int \<Rightarrow> connection \<Rightarrow> sched \<Rightarrow> sched result" where
  "pinned_step parse_int now c st =
     (if current_shard c \<noteq> None \<and> \<not> connection_can_move c now then retain parse_int c st else Inr st)"

definition existing_shard_accounts :: "connection list \<Rightarrow> (string \<times> int) list" where
  "existing_shard_accounts items =
     fold (\<lambda>c d. case current_shard c of None \<Rightarrow> d | Some s \<Rightarrow> AList.update s (dget d s 0 + 1) d) items []"

definition sticky_step ::
  "(rat \<Rightarrow> rat) \<Rightarrow> (string \<Rightarrow> int option) \<Rightarrow> int \<Rightarrow> int \<Rightarrow> (string \<times> int) list \<Rightarrow> connection \<Rightarrow> sched \<Rightarrow> sched result" where
  "sticky_step fl parse_int account_capacity load_capacity existing c st =
     (case current_shard c of
        None \<Rightarrow> Inr st
      | Some shard \<Rightarrow>
          (if map_of (s_assignments st) (c_id c) \<noteq> None then Inr st
           else
             (let projected_accounts = dget (s_accounts st) shard 0 + 1;
                  projected_load = dget (s_load st) shard 0 + c_load_units c
              in bind_result (int_setting parse_int c ''overloaded_windows'') (\<lambda>overloaded_windows.
                 bind_result (int_setting parse_int c ''underloaded_windows'') (\<lambda>underloaded_windows.
                 bind_result (isolates parse_int c) (\<lambda>isolate.
                   let sticky_limit = floor (fl (of_int load_capacity * fl (6 / 5)));
                       requires_isolation = (isolate \<and> dget existing shard 0 > 1)
                   in if \<not> requires_isolation \<and> projected_accounts \<le> account_capacity \<and>
                         (projected_load \<le> sticky_limit \<or> overloaded_windows < 3) \<and> underloaded_windows < 30
                      then retain parse_int c st else Inr st))))))"

text \<open>\<open>max(xs, key=key)\<close>: the first of the greatest.\<close>

fun max_by :: "('a \<Rightarrow> 'b::linorder) \<Rightarrow> 'a \<Rightarrow> 'a list \<Rightarrow> 'a" where
  "max_by key best [] = best"
| "max_by key best (x # xs) = max_by key (if key best < key x then x else best) xs"

definition best_fit_shard :: "int \<Rightarrow> int \<Rightarrow> connection \<Rightarrow> bool \<Rightarrow> sched \<Rightarrow> string" where
  "best_fit_shard account_capacity load_capacity c isolate st =
     (let known = map fst (filter (\<lambda>e. snd e = c_channel c) (s_channel st));
          candidates = filter (\<lambda>s. s \<notin> set (s_dedicated st) \<and> dget (s_accounts st) s 0 < account_capacity \<and>
                                  dget (s_load st) s 0 + c_load_units c \<le> load_capacity) known
      in case candidates of
           [] \<Rightarrow> next_shard (c_channel c) known
         | s # ss \<Rightarrow>
             (if isolate then next_shard (c_channel c) known
              else max_by (\<lambda>s. (dget (s_load st) s 0, dget (s_accounts st) s 0, s)) s ss))"

definition best_fit_step :: "(string \<Rightarrow> int option) \<Rightarrow> int \<Rightarrow> int \<Rightarrow> connection \<Rightarrow> sched \<Rightarrow> sched result" where
  "best_fit_step parse_int account_capacity load_capacity c st =
     bind_result (isolates parse_int c) (\<lambda>isolate.
       Inr (place c (best_fit_shard account_capacity load_capacity c isolate st) isolate st))"

record move =
  mv_connection_id :: string
  mv_channel :: string
  mv_from :: "string option"
  mv_to :: string
  mv_load_units :: int
  mv_reason :: string

record shard_info =
  sh_id :: string
  sh_channel :: string
  sh_accounts :: int
  sh_load_units :: int
  sh_account_capacity :: int
  sh_load_capacity :: int

record plan =
  p_moves :: "move list"
  p_shards :: "shard_info list"
  p_assignments :: "(string \<times> string) list"

definition move_to :: "int \<Rightarrow> connection \<Rightarrow> string \<Rightarrow> move list" where
  "move_to now c target =
     (if Some target = c_shard_id c \<or> \<not> connection_can_move c now then []
      else [\<lparr>mv_connection_id = c_id c, mv_channel = c_channel c, mv_from = c_shard_id c, mv_to = target,
             mv_load_units = c_load_units c,
             mv_reason = (if c_shard_id c = None then ''new_assignment'' else ''capacity_rebalance'')\<rparr>])"

definition moves_of :: "connection list \<Rightarrow> int \<Rightarrow> (string \<times> string) list \<Rightarrow> move list" where
  "moves_of items now assignments =
     (let by_id = fold (\<lambda>c d. AList.update (c_id c) c d) items []
      in concat (map (\<lambda>(connection_id, target).
           case map_of by_id connection_id of None \<Rightarrow> [] | Some c \<Rightarrow> move_to now c target) (sort assignments)))"

definition shards_of :: "int \<Rightarrow> int \<Rightarrow> sched \<Rightarrow> shard_info list" where
  "shards_of account_capacity load_capacity st =
     map (\<lambda>s. \<lparr>sh_id = s, sh_channel = dget (s_channel st) s [], sh_accounts = dget (s_accounts st) s 0,
               sh_load_units = dget (s_load st) s 0, sh_account_capacity = account_capacity,
               sh_load_capacity = load_capacity\<rparr>) (sort (map fst (s_channel st)))"

definition schedule ::
  "(rat \<Rightarrow> rat) \<Rightarrow> (string \<Rightarrow> int option) \<Rightarrow> connection list \<Rightarrow> int \<Rightarrow> int \<Rightarrow> int \<Rightarrow> sched result" where
  "schedule fl parse_int items account_capacity load_capacity now =
     (let ordered = sort_key c_id items;
          existing = existing_shard_accounts items
      in bind_result (fold_result (pinned_step parse_int now) ordered empty_sched) (\<lambda>st.
         bind_result (fold_result (sticky_step fl parse_int account_capacity load_capacity existing) ordered st) (\<lambda>st.
           fold_result (best_fit_step parse_int account_capacity load_capacity)
             (sort_key (\<lambda>c. (- c_load_units c, c_id c))
                (filter (\<lambda>c. map_of (s_assignments st) (c_id c) = None) items)) st)))"

definition build_rebalance_plan ::
  "(rat \<Rightarrow> rat) \<Rightarrow> (string \<Rightarrow> int option) \<Rightarrow> connection list \<Rightarrow> int \<Rightarrow> int \<Rightarrow> int \<Rightarrow> plan result" where
  "build_rebalance_plan fl parse_int connections account_capacity load_capacity now =
     (let items = filter c_enabled connections
      in bind_result (schedule fl parse_int items account_capacity load_capacity now) (\<lambda>st.
           Inr \<lparr>p_moves = moves_of items now (s_assignments st),
                p_shards = shards_of account_capacity load_capacity st,
                p_assignments = s_assignments st\<rparr>))"

subsection \<open>Lemmas: placements\<close>

text \<open>The state after a sequence of placements, and what it says of them.\<close>

type_synonym placement = "connection \<times> string \<times> bool"

definition built :: "placement list \<Rightarrow> sched" where
  "built pl = fold (\<lambda>(c, s, i). place c s i) pl empty_sched"

lemma built_snoc: "built (pl @ [(c, s, i)]) = place c s i (built pl)"
  by (simp add: built_def)

lemma built_Nil: "built [] = empty_sched"
  by (simp add: built_def)

definition on_shard :: "string \<Rightarrow> placement list \<Rightarrow> placement list" where
  "on_shard s pl = filter (\<lambda>p. fst (snd p) = s) pl"

lemma built_accounts: "dget (s_accounts (built pl)) s 0 = int (length (on_shard s pl))"
  by (induction pl rule: rev_induct) (auto simp: built_Nil empty_sched_def built_snoc place_def on_shard_def)

lemma built_load: "dget (s_load (built pl)) s 0 = sum_list (map (c_load_units \<circ> fst) (on_shard s pl))"
  by (induction pl rule: rev_induct) (auto simp: built_Nil empty_sched_def built_snoc place_def on_shard_def)

lemma built_channel: "map_of (s_channel (built pl)) s =
    (if on_shard s pl = [] then None else Some (c_channel (fst (last (on_shard s pl)))))"
  by (induction pl rule: rev_induct)
     (auto simp: built_Nil empty_sched_def built_snoc place_def on_shard_def update_conv')

lemma built_dedicated: "s \<in> set (s_dedicated (built pl)) \<longleftrightarrow> (\<exists>c. (c, s, True) \<in> set pl)"
proof (induction pl rule: rev_induct)
  case (snoc p pl)
  obtain c t i where p: "p = (c, t, i)" by (cases p)
  show ?case unfolding p built_snoc place_def using snoc by (cases i) auto
qed (simp add: built_Nil empty_sched_def)

lemma built_assigned: "map_of (s_assignments (built pl)) i = None \<longleftrightarrow> i \<notin> (c_id \<circ> fst) ` set pl"
proof (induction pl rule: rev_induct)
  case (snoc p pl)
  obtain c t b where p: "p = (c, t, b)" by (cases p)
  have "map_of (s_assignments (built (pl @ [p]))) i = (if i = c_id c then Some t else map_of (s_assignments (built pl)) i)"
    unfolding p built_snoc place_def by (simp add: update_conv')
  with snoc show ?case by (simp add: p)
qed (simp add: built_Nil empty_sched_def)

lemma built_assignments:
  assumes "distinct (map (c_id \<circ> fst) pl)"
  shows "map_of (s_assignments (built pl)) i = Some s \<longleftrightarrow> (\<exists>c b. (c, s, b) \<in> set pl \<and> c_id c = i)"
  using assms
proof (induction pl rule: rev_induct)
  case (snoc p pl)
  obtain c t b where p: "p = (c, t, b)" by (cases p)
  have eq: "map_of (s_assignments (built (pl @ [p]))) i = (if i = c_id c then Some t else map_of (s_assignments (built pl)) i)"
    unfolding p built_snoc place_def by (simp add: update_conv')
  have "c_id c' \<noteq> c_id c" if "(c', s', b') \<in> set pl" for c' s' b'
    using snoc.prems that by (force simp: p)
  with snoc show ?case unfolding eq by (auto simp: p)
qed (simp add: built_Nil empty_sched_def)

lemma fst_set_update: "fst ` set (AList.update k v d) = insert k (fst ` set d)"
  by (induction d) auto

lemma built_keys: "distinct (map fst (s_assignments (built pl)))" "distinct (map fst (s_channel (built pl)))"
proof -
  show "distinct (map fst (s_assignments (built pl)))"
    by (induction pl rule: rev_induct)
       (auto simp: built_Nil empty_sched_def built_snoc place_def intro: distinct_update)
  show "distinct (map fst (s_channel (built pl)))"
    by (induction pl rule: rev_induct)
       (auto simp: built_Nil empty_sched_def built_snoc place_def intro: distinct_update)
qed

lemma built_channel_keys: "fst ` set (s_channel (built pl)) = (fst \<circ> snd) ` set pl"
proof (induction pl rule: rev_induct)
  case (snoc p pl)
  obtain c t b where p: "p = (c, t, b)" by (cases p)
  have "fst ` set (s_channel (built (pl @ [p]))) = insert t (fst ` set (s_channel (built pl)))"
    unfolding p built_snoc place_def by (simp add: fst_set_update)
  with snoc show ?case by (simp add: p)
qed (simp add: built_Nil empty_sched_def)

text \<open>The shards of a connection's channel that are in use.\<close>

lemma known_shards:
  "set (map fst (filter (\<lambda>e. snd e = ch) (s_channel (built pl)))) =
     {s. on_shard s pl \<noteq> [] \<and> c_channel (fst (last (on_shard s pl))) = ch}"
proof -
  have "s \<in> set (map fst (filter (\<lambda>e. snd e = ch) (s_channel (built pl)))) \<longleftrightarrow> map_of (s_channel (built pl)) s = Some ch" for s
    using map_of_eq_Some_iff [OF built_keys(2), of pl s ch] by force
  then show ?thesis unfolding set_eq_iff mem_Collect_eq by (simp only: built_channel split: if_splits) simp
qed

lemma max_by_in: "max_by key best xs \<in> insert best (set xs)"
  by (induction key best xs rule: max_by.induct) auto

text \<open>What the best fit pass chooses: a shard in use with room, or one no placement of that channel uses.\<close>

lemma best_fit_shard_cases:
  obtains (fresh) index where "best_fit_shard ac lc c alone (built pl) = shard_name (c_channel c) index"
      "\<not> (on_shard (shard_name (c_channel c) index) pl \<noteq> [] \<and>
          c_channel (fst (last (on_shard (shard_name (c_channel c) index) pl))) = c_channel c)"
  | (used) "\<not> alone" "\<not> (\<exists>d. (d, best_fit_shard ac lc c alone (built pl), True) \<in> set pl)"
      "int (length (on_shard (best_fit_shard ac lc c alone (built pl)) pl)) < ac"
      "sum_list (map (c_load_units \<circ> fst) (on_shard (best_fit_shard ac lc c alone (built pl)) pl)) + c_load_units c \<le> lc"
      "on_shard (best_fit_shard ac lc c alone (built pl)) pl \<noteq> []"
      "c_channel (fst (last (on_shard (best_fit_shard ac lc c alone (built pl)) pl))) = c_channel c"
proof -
  define known where "known = map fst (filter (\<lambda>e. snd e = c_channel c) (s_channel (built pl)))"
  define candidates where "candidates = filter (\<lambda>s. s \<notin> set (s_dedicated (built pl)) \<and> dget (s_accounts (built pl)) s 0 < ac \<and>
      dget (s_load (built pl)) s 0 + c_load_units c \<le> lc) known"
  have form: "\<exists>index. next_shard_loop ch kn i = shard_name ch index" for ch kn i
    by (induction ch kn i rule: next_shard_loop.induct) (subst next_shard_loop.simps, auto)
  have new: thesis if "best_fit_shard ac lc c alone (built pl) = next_shard (c_channel c) known"
  proof -
    from form obtain index where i: "next_shard (c_channel c) known = shard_name (c_channel c) index"
      unfolding next_shard_def by blast
    moreover have "shard_name (c_channel c) index \<notin> set known" using next_shard_fresh i by metis
    ultimately show thesis using that unfolding known_def known_shards by (intro fresh) auto
  qed
  show thesis
  proof (cases "alone \<or> candidates = []")
    case True
    then show thesis
      by (intro new) (auto simp: best_fit_shard_def Let_def known_def candidates_def split: list.splits)
  next
    case False
    then obtain t ts where ts: "candidates = t # ts" by (cases candidates) auto
    have "best_fit_shard ac lc c alone (built pl)
        = max_by (\<lambda>s. (dget (s_load (built pl)) s 0, dget (s_accounts (built pl)) s 0, s)) t ts"
      unfolding best_fit_shard_def Let_def known_def [symmetric] candidates_def [symmetric] ts using False by simp
    then have choice: "best_fit_shard ac lc c alone (built pl) \<in> set candidates"
      using max_by_in [of _ t ts] by (simp add: ts)
    let ?s = "best_fit_shard ac lc c alone (built pl)"
    from choice have "?s \<in> set known" and ok: "?s \<notin> set (s_dedicated (built pl))" "dget (s_accounts (built pl)) ?s 0 < ac"
      "dget (s_load (built pl)) ?s 0 + c_load_units c \<le> lc"
      by (auto simp: candidates_def)
    then have "on_shard ?s pl \<noteq> []" "c_channel (fst (last (on_shard ?s pl))) = c_channel c"
      unfolding known_def known_shards by blast+
    with False ok show thesis by (intro used) (auto simp: built_dedicated built_accounts built_load)
  qed
qed

subsection \<open>Lemmas: a shard name tells its channel\<close>

lemma pad3_digits: "c \<in> set (pad3 (decimal n)) \<Longrightarrow> is_decimal_digit c"
  using decimal_digits by (auto simp: pad3_def is_decimal_digit_def split: if_splits)

lemma drop_index: "dropWhile is_decimal_digit (rev (shard_name ch i)) = rev (ch @ ''-shard-'')"
proof -
  have "dropWhile is_decimal_digit (rev (shard_name ch i)) = dropWhile is_decimal_digit (rev (ch @ ''-shard-''))"
  proof -
    have "rev (shard_name ch i) = rev (pad3 (decimal i)) @ rev (ch @ ''-shard-'')" by (simp add: shard_name_def)
    moreover have "x \<in> set (rev (pad3 (decimal i))) \<Longrightarrow> is_decimal_digit x" for x using pad3_digits by simp
    ultimately show ?thesis by (simp only: dropWhile_append2)
  qed
  also have "\<dots> = rev (ch @ ''-shard-'')" by (simp add: is_decimal_digit_def)
  finally show ?thesis .
qed

lemma shard_name_channel: "shard_name ch i = shard_name ch' j \<Longrightarrow> ch = ch'"
  using drop_index [of ch i] drop_index [of ch' j] by simp

subsection \<open>Lemmas: the three passes\<close>

text \<open>No connection sits on a shard named after another channel.\<close>

definition named_by_channel :: "placement list \<Rightarrow> bool" where
  "named_by_channel pl \<longleftrightarrow> (\<forall>c s b ch i. (c, s, b) \<in> set pl \<and> s = shard_name ch i \<longrightarrow> c_channel c = ch)"

definition keeps_shard :: "placement list \<Rightarrow> bool" where
  "keeps_shard pl \<longleftrightarrow> (\<forall>c s b. (c, s, b) \<in> set pl \<longrightarrow> current_shard c = Some s)"

definition within_capacity :: "int \<Rightarrow> placement list \<Rightarrow> placement list \<Rightarrow> bool" where
  "within_capacity ac pinned pl \<longleftrightarrow>
     (\<forall>s. int (length (on_shard s pl)) \<le> max ac (int (length (on_shard s pinned))))"

lemma retain_Inr:
  "retain parse c (built pl) = Inr st \<Longrightarrow> current_shard c = Some s \<Longrightarrow> \<exists>b. st = built (pl @ [(c, s, b)])"
  by (auto simp: retain_def bind_result_Inr_iff built_snoc)

lemma pinned_pass:
  assumes "fold_result (pinned_step parse now) xs empty_sched = Inr st"
  shows "\<exists>pl. st = built pl \<and> keeps_shard pl \<and>
    map fst pl = filter (\<lambda>c. current_shard c \<noteq> None \<and> \<not> connection_can_move c now) xs"
  using assms
proof (rule fold_result_induct)
  show "\<exists>pl. empty_sched = built pl \<and> keeps_shard pl \<and>
      map fst pl = filter (\<lambda>c. current_shard c \<noteq> None \<and> \<not> connection_can_move c now) []"
    by (intro exI [of _ "[]"]) (simp add: built_Nil keeps_shard_def)
next
  fix ys c t t'
  assume "\<exists>pl. t = built pl \<and> keeps_shard pl \<and> map fst pl = filter (\<lambda>c. current_shard c \<noteq> None \<and> \<not> connection_can_move c now) ys"
    and step: "pinned_step parse now c t = Inr t'"
  then obtain pl where pl: "t = built pl" "keeps_shard pl"
    "map fst pl = filter (\<lambda>c. current_shard c \<noteq> None \<and> \<not> connection_can_move c now) ys" by blast
  show "\<exists>pl. t' = built pl \<and> keeps_shard pl \<and>
      map fst pl = filter (\<lambda>c. current_shard c \<noteq> None \<and> \<not> connection_can_move c now) (ys @ [c])"
  proof (cases "current_shard c \<noteq> None \<and> \<not> connection_can_move c now")
    case True
    then obtain s where s: "current_shard c = Some s" by auto
    with True step pl(1) obtain b where "t' = built (pl @ [(c, s, b)])"
      by (auto simp: pinned_step_def dest: retain_Inr)
    then show ?thesis using pl(2,3) True s
      by (intro exI [of _ "pl @ [(c, s, b)]"]) (auto simp: keeps_shard_def)
  next
    case False
    with step pl show ?thesis by (intro exI [of _ pl]) (auto simp: pinned_step_def)
  qed
qed

lemma on_shard_snoc: "on_shard s (pl @ [(c, t, b)]) = on_shard s pl @ (if t = s then [(c, t, b)] else [])"
  by (simp add: on_shard_def)

lemma within_capacity_snoc:
  "within_capacity ac pinned pl \<Longrightarrow> int (length (on_shard s pl)) + 1 \<le> ac \<Longrightarrow> within_capacity ac pinned (pl @ [(c, s, b)])"
  by (auto simp: within_capacity_def on_shard_snoc)

lemma sticky_pass:
  assumes "fold_result (sticky_step fl parse ac lc existing) xs (built pl1) = Inr st"
    and "distinct (map (c_id \<circ> fst) pl1)"
  shows "\<exists>pl2. st = built (pl1 @ pl2) \<and> keeps_shard pl2 \<and> fst ` set pl2 \<subseteq> set xs \<and>
    distinct (map (c_id \<circ> fst) (pl1 @ pl2)) \<and> within_capacity ac pl1 (pl1 @ pl2)"
  (is "?I xs st")
  using assms(1)
proof (rule fold_result_induct [where I = "\<lambda>_. ?I xs"])
  show "?I xs (built pl1)"
    using assms(2) by (intro exI [of _ "[]"]) (auto simp: keeps_shard_def within_capacity_def comp_def)
next
  fix ys c t t'
  assume "?I xs t" and c: "c \<in> set xs" and step: "sticky_step fl parse ac lc existing c t = Inr t'"
  then obtain pl2 where pl: "t = built (pl1 @ pl2)" "keeps_shard pl2" "fst ` set pl2 \<subseteq> set xs"
    "distinct (map (c_id \<circ> fst) (pl1 @ pl2))" "within_capacity ac pl1 (pl1 @ pl2)" by blast
  show "?I xs t'"
  proof (cases "t' = t")
    case True
    with pl show ?thesis by blast
  next
    case False
    then obtain s where s: "current_shard c = Some s" "map_of (s_assignments t) (c_id c) = None"
      "dget (s_accounts t) s 0 + 1 \<le> ac" "retain parse c t = Inr t'"
      using step by (auto simp: sticky_step_def Let_def bind_result_Inr_iff split: option.splits if_splits)
    then obtain b where t': "t' = built ((pl1 @ pl2) @ [(c, s, b)])"
      using retain_Inr pl(1) by blast
    have new: "c_id c \<notin> (c_id \<circ> fst) ` set (pl1 @ pl2)" using s(2) unfolding pl(1) built_assigned .
    have room: "int (length (on_shard s (pl1 @ pl2))) + 1 \<le> ac" using s(3) by (simp only: pl(1) built_accounts)
    have "within_capacity ac pl1 ((pl1 @ pl2) @ [(c, s, b)])"
      using pl(5) room by (rule within_capacity_snoc)
    moreover have "distinct (map (c_id \<circ> fst) ((pl1 @ pl2) @ [(c, s, b)]))" using pl(4) new by auto
    ultimately show ?thesis
      using pl(2,3) t' c s(1) by (intro exI [of _ "pl2 @ [(c, s, b)]"]) (auto simp: keeps_shard_def comp_def)
  qed
qed

definition alone_on_shard :: "placement list \<Rightarrow> placement list \<Rightarrow> bool" where
  "alone_on_shard pl3 pl \<longleftrightarrow> (\<forall>c s. (c, s, True) \<in> set pl3 \<longrightarrow> on_shard s pl = [(c, s, True)])"

lemma alone_on_shard_snoc:
  "alone_on_shard pl3 pl \<Longrightarrow> (\<And>d. (d, s, True) \<notin> set pl3) \<Longrightarrow> (b \<Longrightarrow> on_shard s pl = []) \<Longrightarrow>
     alone_on_shard (pl3 @ [(c, s, b)]) (pl @ [(c, s, b)])"
  by (auto simp: alone_on_shard_def on_shard_snoc)

lemma last_on_shard:
  assumes "on_shard s pl \<noteq> []"
  shows "\<exists>d b. last (on_shard s pl) = (d, s, b) \<and> (d, s, b) \<in> set pl"
proof -
  obtain p where p: "last (on_shard s pl) = p" by blast
  with last_in_set [OF assms] have "p \<in> set (on_shard s pl)" by blast
  then have "p \<in> set pl" "fst (snd p) = s" by (simp_all add: on_shard_def)
  with p show ?thesis by (cases p) auto
qed

lemma fresh_shard_unused:
  assumes "named_by_channel pl"
    and "\<not> (on_shard (shard_name ch i) pl \<noteq> [] \<and> c_channel (fst (last (on_shard (shard_name ch i) pl))) = ch)"
  shows "on_shard (shard_name ch i) pl = []"
proof (rule ccontr)
  assume ne: "on_shard (shard_name ch i) pl \<noteq> []"
  from last_on_shard [OF this] obtain d b where "last (on_shard (shard_name ch i) pl) = (d, shard_name ch i, b)"
    "(d, shard_name ch i, b) \<in> set pl" by blast
  moreover from this(2) have "c_channel d = ch" using assms(1) unfolding named_by_channel_def by blast
  ultimately show False using ne assms(2) by simp
qed

lemma named_by_channel_snoc:
  "named_by_channel (pl @ [(c, s, b)]) \<longleftrightarrow> named_by_channel pl \<and> (\<forall>ch i. s = shard_name ch i \<longrightarrow> c_channel c = ch)"
  unfolding named_by_channel_def set_append list.set Un_iff insert_iff empty_iff prod.inject by blast

lemma best_fit_pass:
  assumes "fold_result (best_fit_step parse ac lc) us (built pl) = Inr st"
  shows "\<exists>pl3. st = built (pl @ pl3) \<and> map fst pl3 = us \<and> (\<forall>(c, s, b) \<in> set pl3. isolates parse c = Inr b) \<and>
    (named_by_channel pl \<and> ac \<ge> 1 \<and> within_capacity ac pinned pl \<longrightarrow>
       named_by_channel (pl @ pl3) \<and> within_capacity ac pinned (pl @ pl3) \<and> alone_on_shard pl3 (pl @ pl3))"
  (is "?I us st")
  using assms
proof (rule fold_result_induct [where I = ?I])
  show "?I [] (built pl)" by (intro exI [of _ "[]"]) (simp add: alone_on_shard_def)
next
  fix ys c t t'
  assume "?I ys t" and step: "best_fit_step parse ac lc c t = Inr t'"
  then obtain pl3 where pl3: "t = built (pl @ pl3)" "map fst pl3 = ys" "\<forall>(c, s, b) \<in> set pl3. isolates parse c = Inr b"
    and good: "named_by_channel pl \<and> ac \<ge> 1 \<and> within_capacity ac pinned pl \<Longrightarrow>
       named_by_channel (pl @ pl3) \<and> within_capacity ac pinned (pl @ pl3) \<and> alone_on_shard pl3 (pl @ pl3)" by blast
  from step obtain b where b: "t' = place c (best_fit_shard ac lc c b t) b t" and iso_b: "isolates parse c = Inr b"
    by (auto simp: best_fit_step_def bind_result_Inr_iff)
  let ?s = "best_fit_shard ac lc c b (built (pl @ pl3))" and ?pl = "pl @ pl3"
  have t': "t' = built (?pl @ [(c, ?s, b)])" unfolding b pl3(1) built_snoc ..
  have "named_by_channel (?pl @ [(c, ?s, b)]) \<and> within_capacity ac pinned (?pl @ [(c, ?s, b)]) \<and>
      alone_on_shard (pl3 @ [(c, ?s, b)]) (?pl @ [(c, ?s, b)])"
    if hyp: "named_by_channel pl \<and> ac \<ge> 1 \<and> within_capacity ac pinned pl"
  proof -
    from good [OF hyp] have named: "named_by_channel ?pl" and cap: "within_capacity ac pinned ?pl"
      and alone: "alone_on_shard pl3 ?pl" by blast+
    show ?thesis
    proof (rule best_fit_shard_cases [of ac lc c b "pl @ pl3"], goal_cases fresh used)
      case (fresh index)
      have empty: "on_shard ?s ?pl = []" using fresh_shard_unused [OF named fresh(2)] fresh(1) by simp
      have "named_by_channel (?pl @ [(c, ?s, b)])"
        unfolding named_by_channel_snoc fresh(1) using named shard_name_channel [of "c_channel c" index] by blast
      moreover have "within_capacity ac pinned (?pl @ [(c, ?s, b)])"
        using cap hyp empty by (intro within_capacity_snoc) auto
      moreover have "alone_on_shard (pl3 @ [(c, ?s, b)]) (?pl @ [(c, ?s, b)])"
        using alone empty by (intro alone_on_shard_snoc) (auto simp: alone_on_shard_def)
      ultimately show ?case by blast
    next
      case used
      from last_on_shard [OF used(5)] obtain d b' where l: "last (on_shard ?s ?pl) = (d, ?s, b')" "(d, ?s, b') \<in> set ?pl"
        by blast
      then have "c_channel d = c_channel c" using used(6) by simp
      with l(2) named have "c_channel c = ch" if "?s = shard_name ch i" for ch i
        using that unfolding named_by_channel_def by metis
      then have "named_by_channel (?pl @ [(c, ?s, b)])"
        unfolding named_by_channel_snoc using named by blast
      moreover have "within_capacity ac pinned (?pl @ [(c, ?s, b)])"
        using cap used(3) by (intro within_capacity_snoc) auto
      moreover have "alone_on_shard (pl3 @ [(c, ?s, b)]) (?pl @ [(c, ?s, b)])"
        using alone used(1,2) by (intro alone_on_shard_snoc) auto
      ultimately show ?case by blast
    qed
  qed
  then show "?I (ys @ [c]) t'"
    using t' pl3(2,3) iso_b by (intro exI [of _ "pl3 @ [(c, ?s, b)]"]) simp
qed

subsection \<open>Lemmas: the schedule\<close>

definition pinned :: "int \<Rightarrow> connection \<Rightarrow> bool" where
  "pinned now c \<longleftrightarrow> current_shard c \<noteq> None \<and> \<not> connection_can_move c now"

lemma distinct_sort_key: "distinct (map f xs) \<Longrightarrow> distinct (map f (sort_key g xs))"
  by (metis distinct_map distinct_sort set_sort)

lemma disjoint_image: "A \<inter> f ` {x \<in> B. f x \<notin> A} = {}"
  by auto

lemma schedule_passes:
  assumes "schedule fl parse items ac lc now = Inr st" and "distinct (map c_id items)"
  obtains pl1 pl2 pl3 where "st = built (pl1 @ pl2 @ pl3)" "distinct (map (c_id \<circ> fst) (pl1 @ pl2 @ pl3))"
    "fst ` set (pl1 @ pl2 @ pl3) = set items" "map fst pl1 = filter (pinned now) (sort_key c_id items)"
    "keeps_shard (pl1 @ pl2)" "\<forall>(c, s, b) \<in> set pl3. isolates parse c = Inr b"
    "named_by_channel (pl1 @ pl2) \<and> ac \<ge> 1 \<Longrightarrow>
       within_capacity ac pl1 (pl1 @ pl2 @ pl3) \<and> alone_on_shard pl3 (pl1 @ pl2 @ pl3)"
proof -
  let ?ordered = "sort_key c_id items"
  from assms(1) obtain st1 st2 where
    run1: "fold_result (pinned_step parse now) ?ordered empty_sched = Inr st1" and
    run2: "fold_result (sticky_step fl parse ac lc (existing_shard_accounts items)) ?ordered st1 = Inr st2" and
    run3: "fold_result (best_fit_step parse ac lc) (sort_key (\<lambda>c. (- c_load_units c, c_id c))
      (filter (\<lambda>c. map_of (s_assignments st2) (c_id c) = None) items)) st2 = Inr st"
    by (auto simp: schedule_def Let_def bind_result_Inr_iff)
  from pinned_pass [OF run1] obtain pl1 where pl1: "st1 = built pl1" "keeps_shard pl1"
    "map fst pl1 = filter (pinned now) ?ordered" by (auto simp: pinned_def [abs_def])
  have ids: "map (c_id \<circ> fst) pl = map c_id (map fst pl)" for pl :: "placement list" by simp
  have d1: "distinct (map (c_id \<circ> fst) pl1)"
    unfolding ids pl1(3) using distinct_sort_key [OF assms(2)] by (rule distinct_map_filter)
  from sticky_pass [OF run2 [unfolded pl1(1)] d1] obtain pl2 where pl2: "st2 = built (pl1 @ pl2)" "keeps_shard pl2"
    "fst ` set pl2 \<subseteq> set items" "distinct (map (c_id \<circ> fst) (pl1 @ pl2))" "within_capacity ac pl1 (pl1 @ pl2)" by auto
  define us where "us = sort_key (\<lambda>c. (- c_load_units c, c_id c)) (filter (\<lambda>c. map_of (s_assignments st2) (c_id c) = None) items)"
  from best_fit_pass [OF run3 [folded us_def, unfolded pl2(1)], of pl1] obtain pl3 where
    pl3: "st = built ((pl1 @ pl2) @ pl3)" "map fst pl3 = us"
    and iso3: "\<forall>(c, s, b) \<in> set pl3. isolates parse c = Inr b"
    and good3: "named_by_channel (pl1 @ pl2) \<and> ac \<ge> 1 \<and> within_capacity ac pl1 (pl1 @ pl2) \<Longrightarrow>
       within_capacity ac pl1 ((pl1 @ pl2) @ pl3) \<and> alone_on_shard pl3 ((pl1 @ pl2) @ pl3)" by blast
  have us: "set us = {c \<in> set items. c_id c \<notin> c_id ` fst ` set (pl1 @ pl2)}"
    unfolding us_def pl2(1) built_assigned by (simp add: image_comp)
  have fst1: "fst ` set pl1 = {c \<in> set items. pinned now c}"
    using arg_cong [OF pl1(3), of set] by auto
  have sub: "fst ` set (pl1 @ pl2) \<subseteq> set items" using fst1 pl2(3) by auto
  have fst3: "fst ` set pl3 = set us" using arg_cong [OF pl3(2), of set] by simp
  have inj: "c = c'" if "c \<in> set items" "c' \<in> set items" "c_id c = c_id c'" for c c'
    using that assms(2) by (auto simp: distinct_map dest: inj_onD)
  have all: "fst ` set (pl1 @ pl2 @ pl3) = set items"
  proof -
    have "c \<in> fst ` set (pl1 @ pl2)" if "c \<in> set items" "c \<notin> set us" for c
    proof -
      from that have "c_id c \<in> c_id ` fst ` set (pl1 @ pl2)" unfolding us by blast
      then obtain d where d: "d \<in> fst ` set (pl1 @ pl2)" "c_id d = c_id c" by (metis imageE)
      with sub have "d \<in> set items" by blast
      from inj [OF that(1) this d(2) [symmetric]] d(1) show ?thesis by (simp only:)
    qed
    moreover have "fst ` set (pl1 @ pl2 @ pl3) = fst ` set (pl1 @ pl2) \<union> set us" using fst3 by (simp add: image_Un Un_assoc)
    moreover have "set us \<subseteq> set items" by (auto simp: us)
    ultimately show ?thesis using sub by blast
  qed
  have "distinct (map c_id us)"
    unfolding us_def using assms(2) by (intro distinct_sort_key distinct_map_filter)
  moreover have "c_id ` fst ` set (pl1 @ pl2) \<inter> c_id ` set us = {}" unfolding us by (rule disjoint_image)
  ultimately have "distinct (map c_id (map fst (pl1 @ pl2)) @ map c_id us)"
    using pl2(4) [unfolded ids] by (simp only: distinct_append set_map simp_thms)
  then have "distinct (map (c_id \<circ> fst) (pl1 @ pl2 @ pl3))"
    unfolding ids by (simp add: pl3(2) [symmetric])
  moreover have "keeps_shard (pl1 @ pl2)" using pl1(2) pl2(2) unfolding keeps_shard_def set_append Un_iff by blast
  ultimately show thesis
    using pl3(1) good3 iso3 pl1(3) pl2(5) all by (intro that) simp_all
qed

lemma plan_schedule:
  assumes "build_rebalance_plan fl parse conns ac lc now = Inr p"
  obtains st where "schedule fl parse (filter c_enabled conns) ac lc now = Inr st"
    "p_assignments p = s_assignments st" "p_shards p = shards_of ac lc st"
    "p_moves p = moves_of (filter c_enabled conns) now (s_assignments st)"
  using assms by (auto simp: build_rebalance_plan_def Let_def bind_result_Inr_iff)

text \<open>The enabled connections that the assignments put on a shard.\<close>

definition assigned_to :: "connection list \<Rightarrow> (string \<times> string) list \<Rightarrow> string \<Rightarrow> connection set" where
  "assigned_to conns assignments s = {c \<in> set conns. c_enabled c \<and> map_of assignments (c_id c) = Some s}"

lemma placed_iff:
  assumes "distinct (map (c_id \<circ> fst) pl)" and "fst ` set pl = set items" and "distinct (map c_id items)" and "c \<in> set items"
  shows "map_of (s_assignments (built pl)) (c_id c) = Some s \<longleftrightarrow> (\<exists>b. (c, s, b) \<in> set pl)"
proof -
  have "d = c" if "(d, t, b) \<in> set pl" "c_id d = c_id c" for d t b
  proof -
    from that(1) have "d \<in> set items" using assms(2) by force
    with that(2) assms(3,4) show ?thesis by (auto simp: distinct_map dest: inj_onD)
  qed
  then show ?thesis unfolding built_assignments [OF assms(1)] by blast
qed

lemma distinct_fst: "distinct (map (f \<circ> fst) pl) \<Longrightarrow> distinct (map fst pl)"
  by (metis distinct_map map_map)

lemma on_shard_assigned:
  assumes "distinct (map (c_id \<circ> fst) pl)" and "fst ` set pl = set items" and "distinct (map c_id items)"
    and "items = filter c_enabled conns"
  shows "set (map fst (on_shard s pl)) = assigned_to conns (s_assignments (built pl)) s"
    and "distinct (map fst (on_shard s pl))"
proof -
  show "distinct (map fst (on_shard s pl))"
    unfolding on_shard_def using distinct_fst [OF assms(1)] by (rule distinct_map_filter)
  have "c \<in> set (map fst (on_shard s pl)) \<longleftrightarrow> c \<in> assigned_to conns (s_assignments (built pl)) s" for c
  proof -
    have "c \<in> set (map fst (on_shard s pl)) \<longleftrightarrow> (\<exists>b. (c, s, b) \<in> set pl)" by (force simp: on_shard_def)
    also have "\<dots> \<longleftrightarrow> c \<in> set items \<and> map_of (s_assignments (built pl)) (c_id c) = Some s"
      using placed_iff [OF assms(1-3), of c s] assms(2) by force
    finally show ?thesis by (simp add: assigned_to_def assms(4))
  qed
  then show "set (map fst (on_shard s pl)) = assigned_to conns (s_assignments (built pl)) s" by blast
qed

lemma shard_counts:
  assumes "distinct (map (c_id \<circ> fst) pl)" and "fst ` set pl = set items" and "distinct (map c_id items)"
    and "items = filter c_enabled conns"
  shows "int (length (on_shard s pl)) = int (card (assigned_to conns (s_assignments (built pl)) s))"
    and "sum_list (map (c_load_units \<circ> fst) (on_shard s pl))
       = (\<Sum>c \<in> assigned_to conns (s_assignments (built pl)) s. c_load_units c)"
proof -
  note on = on_shard_assigned [OF assms, of s]
  show "int (length (on_shard s pl)) = int (card (assigned_to conns (s_assignments (built pl)) s))"
    using distinct_card [OF on(2)] unfolding on(1) by simp
  have "sum_list (map c_load_units (map fst (on_shard s pl))) = sum c_load_units (set (map fst (on_shard s pl)))"
    using on(2) by (rule sum_list_distinct_conv_sum_set)
  then show "sum_list (map (c_load_units \<circ> fst) (on_shard s pl))
      = (\<Sum>c \<in> assigned_to conns (s_assignments (built pl)) s. c_load_units c)"
    unfolding on(1) by simp
qed

lemma in_shards_of:
  "sh \<in> set (shards_of ac lc (built pl)) \<Longrightarrow>
     sh_accounts sh = int (length (on_shard (sh_id sh) pl)) \<and>
     sh_load_units sh = sum_list (map (c_load_units \<circ> fst) (on_shard (sh_id sh) pl))"
  by (auto simp: shards_of_def built_accounts built_load)

lemma enabled_ids: "distinct (map c_id conns) \<Longrightarrow> distinct (map c_id (filter c_enabled conns))"
  by (rule distinct_map_filter)

lemma map_of_by_id:
  assumes "distinct (map c_id items)"
  shows "map_of (fold (\<lambda>c d. AList.update (c_id c) c d) items []) i = Some c \<longleftrightarrow> c \<in> set items \<and> c_id c = i"
  using assms
proof (induction items rule: rev_induct)
  case (snoc x xs)
  have "map_of (fold (\<lambda>c d. AList.update (c_id c) c d) (xs @ [x]) []) i
      = (if i = c_id x then Some x else map_of (fold (\<lambda>c d. AList.update (c_id c) c d) xs []) i)"
    by (simp add: update_conv')
  moreover have "c_id x \<notin> c_id ` set xs" using snoc.prems by simp
  then have "c_id d \<noteq> c_id x" if "d \<in> set xs" for d using that by (metis imageI)
  ultimately show ?case using snoc by auto
qed simp

lemma move_to_id: "m \<in> set (move_to now c target) \<Longrightarrow> mv_connection_id m = c_id c"
  by (auto simp: move_to_def split: if_splits)

lemma in_concat_pairs:
  "m \<in> set (concat (map (\<lambda>(i, t). g i t) xs)) \<longleftrightarrow> (\<exists>i t. (i, t) \<in> set xs \<and> m \<in> set (g i t))"
  by (induction xs) auto

lemma in_moves_of:
  assumes "distinct (map c_id items)" and "distinct (map fst assignments)"
  shows "m \<in> set (moves_of items now assignments) \<longleftrightarrow>
    (\<exists>c \<in> set items. \<exists>target. map_of assignments (c_id c) = Some target \<and> m \<in> set (move_to now c target))"
proof -
  let ?by_id = "fold (\<lambda>c d. AList.update (c_id c) c d) items []"
  have one: "m \<in> set (case map_of ?by_id i of None \<Rightarrow> [] | Some c \<Rightarrow> move_to now c target) \<longleftrightarrow>
      (\<exists>c. map_of ?by_id i = Some c \<and> m \<in> set (move_to now c target))" for i target
    by (cases "map_of ?by_id i") simp_all
  have "m \<in> set (moves_of items now assignments) \<longleftrightarrow>
      (\<exists>i target. (i, target) \<in> set assignments \<and> (\<exists>c. map_of ?by_id i = Some c \<and> m \<in> set (move_to now c target)))"
    unfolding moves_of_def Let_def in_concat_pairs one set_sort by (rule refl)
  then show ?thesis
    unfolding map_of_by_id [OF assms(1)] map_of_eq_Some_iff [OF assms(2)] by blast
qed

subsection \<open>Properties\<close>

text \<open>
  A plan assigns every enabled connection, and no other, to a shard; a connection that may
  not move keeps the shard it is on; and each shard is reported with the number of connections
  the plan puts on it and the sum of their load units.
\<close>

theorem plan_assigns_every_connection:
  assumes "build_rebalance_plan fl parse conns ac lc now = Inr p" and "distinct (map c_id conns)"
  shows "(\<forall>i. map_of (p_assignments p) i \<noteq> None \<longleftrightarrow> (\<exists>c \<in> set conns. c_enabled c \<and> c_id c = i)) \<and>
    (\<forall>c \<in> set conns. c_enabled c \<and> current_shard c \<noteq> None \<and> \<not> connection_can_move c now \<longrightarrow>
       map_of (p_assignments p) (c_id c) = current_shard c) \<and>
    (\<forall>sh \<in> set (p_shards p). sh_accounts sh = int (card (assigned_to conns (p_assignments p) (sh_id sh))) \<and>
       sh_load_units sh = (\<Sum>c \<in> assigned_to conns (p_assignments p) (sh_id sh). c_load_units c))"
proof -
  let ?items = "filter c_enabled conns"
  note d = enabled_ids [OF assms(2)]
  from plan_schedule [OF assms(1)] obtain st where st: "schedule fl parse ?items ac lc now = Inr st"
    and p: "p_assignments p = s_assignments st" "p_shards p = shards_of ac lc st" by blast
  from schedule_passes [OF st d] obtain pl1 pl2 pl3 where
    pl: "st = built (pl1 @ pl2 @ pl3)" "distinct (map (c_id \<circ> fst) (pl1 @ pl2 @ pl3))"
      "fst ` set (pl1 @ pl2 @ pl3) = set ?items" and
    pl1: "map fst pl1 = filter (pinned now) (sort_key c_id ?items)" "keeps_shard (pl1 @ pl2)" by blast
  have "map_of (p_assignments p) i \<noteq> None \<longleftrightarrow> i \<in> c_id ` set ?items" for i
    unfolding p pl(1) built_assigned pl(3) [symmetric] by (simp only: image_comp not_not)
  moreover have "map_of (p_assignments p) (c_id c) = current_shard c"
    if "c \<in> set ?items" "pinned now c" for c
  proof -
    from that have "c \<in> set (map fst pl1)" unfolding pl1(1) by simp
    then obtain s b where "(c, s, b) \<in> set pl1" by auto
    with pl1(2) have "current_shard c = Some s" "(c, s, b) \<in> set (pl1 @ pl2 @ pl3)"
      unfolding keeps_shard_def by auto
    moreover from this(2) have "map_of (p_assignments p) (c_id c) = Some s"
      unfolding p pl(1) placed_iff [OF pl(2,3) d that(1)] by blast
    ultimately show ?thesis by (simp only:)
  qed
  moreover have "sh_accounts sh = int (card (assigned_to conns (p_assignments p) (sh_id sh))) \<and>
       sh_load_units sh = (\<Sum>c \<in> assigned_to conns (p_assignments p) (sh_id sh). c_load_units c)"
    if "sh \<in> set (p_shards p)" for sh
    using in_shards_of [of sh ac lc "pl1 @ pl2 @ pl3"] that shard_counts [OF pl(2,3) d refl, of "sh_id sh"]
    unfolding p pl(1) by simp
  ultimately show ?thesis by (auto simp: pinned_def)
qed

text \<open>Rounding for the witnesses: none, and no string is a number.\<close>

definition demo_connection :: "string \<Rightarrow> string option \<Rightarrow> string \<Rightarrow> int \<Rightarrow> connection" where
  "demo_connection i shard status load = \<lparr>c_id = i, c_channel = ''tg'', c_shard_id = shard, c_enabled = True,
     c_status = status, c_load_units = load, c_config = PDict []\<rparr>"

definition demo_connections :: "connection list" where
  "demo_connections = [demo_connection ''a'' (Some ''tg-shard-000'') ''awaiting_scan'' 5,
     demo_connection ''b'' (Some ''tg-shard-000'') ''connected'' 2, demo_connection ''c'' None ''connected'' 9,
     demo_connection ''d'' None ''connected'' 1]"

definition demo_plan :: plan where
  "demo_plan = (case build_rebalance_plan id (\<lambda>_. None) demo_connections 2 12 5000 of
     Inr p \<Rightarrow> p | Inl _ \<Rightarrow> \<lparr>p_moves = [], p_shards = [], p_assignments = []\<rparr>)"

lemma demo_plan_run: "build_rebalance_plan id (\<lambda>_. None) demo_connections 2 12 5000 = Inr demo_plan"
proof -
  have "case build_rebalance_plan id (\<lambda>_. None) demo_connections 2 12 5000 of Inl _ \<Rightarrow> False | Inr _ \<Rightarrow> True" by code_simp
  then show ?thesis by (simp add: demo_plan_def split: sum.splits)
qed

lemma demo_connections_distinct: "distinct (map c_id demo_connections)"
  by (simp add: demo_connections_def demo_connection_def)

lemma demo_a:
  "demo_connection ''a'' (Some ''tg-shard-000'') ''awaiting_scan'' 5 \<in> set demo_connections"
  "\<not> connection_can_move (demo_connection ''a'' (Some ''tg-shard-000'') ''awaiting_scan'' 5) 5000"
  "current_shard (demo_connection ''a'' (Some ''tg-shard-000'') ''awaiting_scan'' 5) = Some ''tg-shard-000''"
  "c \<in> set demo_connections \<Longrightarrow> c_id c = ''a'' \<Longrightarrow> c = demo_connection ''a'' (Some ''tg-shard-000'') ''awaiting_scan'' 5"
  by (auto simp: demo_connections_def connection_can_move_def current_shard_def demo_connection_def Let_def)

theorem plan_assigns_every_connection_witness:
  "map_of (p_assignments demo_plan) ''a'' = Some ''tg-shard-000''"
proof -
  have "map_of (p_assignments demo_plan) (c_id (demo_connection ''a'' (Some ''tg-shard-000'') ''awaiting_scan'' 5))
      = current_shard (demo_connection ''a'' (Some ''tg-shard-000'') ''awaiting_scan'' 5)"
    using plan_assigns_every_connection [OF demo_plan_run demo_connections_distinct, THEN conjunct2, THEN conjunct1,
        THEN bspec, OF demo_a(1)] demo_a(2,3) by (simp add: demo_connection_def)
  then show ?thesis unfolding demo_a(3) by (simp add: demo_connection_def)
qed

text \<open>
  The moves of a plan are exactly the enabled connections that may move and whose assigned
  shard is not the one they are on, each from its shard to the assigned one; carrying them out
  reaches the assignments, and no connection in a scan, a migration, a control operation or its
  cooldown is ever moved.
\<close>

theorem plan_moves_exact:
  assumes "build_rebalance_plan fl parse conns ac lc now = Inr p" and "distinct (map c_id conns)"
  shows "m \<in> set (p_moves p) \<longleftrightarrow>
    (\<exists>c \<in> set conns. c_enabled c \<and> connection_can_move c now \<and> Some (mv_to m) \<noteq> c_shard_id c \<and>
       map_of (p_assignments p) (c_id c) = Some (mv_to m) \<and> m \<in> set (move_to now c (mv_to m)))"
proof -
  note d = enabled_ids [OF assms(2)]
  from plan_schedule [OF assms(1)] obtain st where st: "schedule fl parse (filter c_enabled conns) ac lc now = Inr st"
    and p: "p_assignments p = s_assignments st" "p_moves p = moves_of (filter c_enabled conns) now (s_assignments st)" by blast
  from schedule_passes [OF st d] obtain pl where pl: "st = built pl" by blast
  have "distinct (map fst (s_assignments st))" unfolding pl by (rule built_keys(1))
  note moves = in_moves_of [OF d this, of m now]
  have target: "target = mv_to m \<and> connection_can_move c now \<and> Some target \<noteq> c_shard_id c"
    if "m \<in> set (move_to now c target)" for c target
    using that by (auto simp: move_to_def split: if_splits)
  show ?thesis
    unfolding p moves set_filter using target by blast
qed

theorem plan_moves_exact_witness:
  "''a'' \<notin> mv_connection_id ` set (p_moves demo_plan)"
proof
  assume "''a'' \<in> mv_connection_id ` set (p_moves demo_plan)"
  then obtain m where m: "m \<in> set (p_moves demo_plan)" "mv_connection_id m = ''a''" by auto
  from m(1) obtain c where "c \<in> set demo_connections" "connection_can_move c 5000" "m \<in> set (move_to 5000 c (mv_to m))"
    using plan_moves_exact [OF demo_plan_run demo_connections_distinct] by blast
  moreover from this(3) have "mv_connection_id m = c_id c" by (rule move_to_id)
  ultimately show False using demo_a(2,4) m(2) by auto
qed

text \<open>
  (C34) When no connection sits on a shard named after another channel, no shard of the plan holds
  more connections than the account capacity, unless that many of its connections may not move;
  and a connection of eight or more load units that the plan places on a new shard has it for
  itself.
\<close>

theorem plan_respects_capacity:
  assumes "build_rebalance_plan fl parse conns ac lc now = Inr p" and "distinct (map c_id conns)" and "ac \<ge> 1"
    and "\<forall>c \<in> set conns. \<forall>ch i. c_shard_id c = Some (shard_name ch i) \<longrightarrow> c_channel c = ch"
  shows "int (card (assigned_to conns (p_assignments p) s))
       \<le> max ac (int (length (filter (\<lambda>c. c_enabled c \<and> current_shard c = Some s \<and> \<not> connection_can_move c now) conns))) \<and>
    (\<forall>c \<in> set conns. c_enabled c \<and> c_load_units c \<ge> 8 \<and> map_of (p_assignments p) (c_id c) = Some s \<and>
       current_shard c \<noteq> Some s \<longrightarrow> assigned_to conns (p_assignments p) s = {c})"
proof -
  let ?items = "filter c_enabled conns"
  note d = enabled_ids [OF assms(2)]
  from plan_schedule [OF assms(1)] obtain st where st: "schedule fl parse ?items ac lc now = Inr st"
    and p: "p_assignments p = s_assignments st" by blast
  from schedule_passes [OF st d] obtain pl1 pl2 pl3 where
    pl: "st = built (pl1 @ pl2 @ pl3)" "distinct (map (c_id \<circ> fst) (pl1 @ pl2 @ pl3))"
      "fst ` set (pl1 @ pl2 @ pl3) = set ?items" and
    pl1: "map fst pl1 = filter (pinned now) (sort_key c_id ?items)" and keep: "keeps_shard (pl1 @ pl2)" and
    iso3: "\<forall>(c, s, b) \<in> set pl3. isolates parse c = Inr b" and
    good: "named_by_channel (pl1 @ pl2) \<and> ac \<ge> 1 \<Longrightarrow>
       within_capacity ac pl1 (pl1 @ pl2 @ pl3) \<and> alone_on_shard pl3 (pl1 @ pl2 @ pl3)" by blast
  have "named_by_channel (pl1 @ pl2)"
    unfolding named_by_channel_def
  proof (intro allI impI, elim conjE)
    fix c t b ch i assume "(c, t, b) \<in> set (pl1 @ pl2)" "t = shard_name ch i"
    moreover from this(1) have "c \<in> set conns" using pl(3) by force
    ultimately show "c_channel c = ch"
      using keep assms(4) unfolding keeps_shard_def current_shard_def by (metis option.distinct(1))
  qed
  with good assms(3) have cap: "within_capacity ac pl1 (pl1 @ pl2 @ pl3)" and alone: "alone_on_shard pl3 (pl1 @ pl2 @ pl3)"
    by blast+
  have "length (on_shard s pl1) = length (filter (\<lambda>c. current_shard c = Some s) (map fst pl1))"
  proof -
    have "fst (snd q) = s \<longleftrightarrow> current_shard (fst q) = Some s" if "q \<in> set pl1" for q
    proof -
      obtain c t b where q: "q = (c, t, b)" by (cases q)
      with that keep have "current_shard c = Some t" unfolding keeps_shard_def set_append Un_iff by blast
      with q show ?thesis by auto
    qed
    then show ?thesis unfolding on_shard_def filter_map by (simp cong: filter_cong)
  qed
  also have "\<dots> = length (filter (\<lambda>c. c_enabled c \<and> current_shard c = Some s \<and> \<not> connection_can_move c now) conns)"
    unfolding pl1 filter_sort by (auto simp: pinned_def intro!: arg_cong [where f = length] filter_cong)
  finally have "int (card (assigned_to conns (p_assignments p) s))
      \<le> max ac (int (length (filter (\<lambda>c. c_enabled c \<and> current_shard c = Some s \<and> \<not> connection_can_move c now) conns)))"
    using cap shard_counts(1) [OF pl(2,3) d refl, of s] unfolding within_capacity_def p pl(1) by metis
  moreover have "assigned_to conns (p_assignments p) s = {c}"
    if c: "c \<in> set conns" "c_enabled c" "c_load_units c \<ge> 8" "map_of (p_assignments p) (c_id c) = Some s" "current_shard c \<noteq> Some s" for c
  proof -
    have "c \<in> set ?items" using c by simp
    from c(4) [unfolded p pl(1) placed_iff [OF pl(2,3) d this]] obtain b where "(c, s, b) \<in> set (pl1 @ pl2 @ pl3)" ..
    with keep c(5) have "(c, s, b) \<in> set pl3" unfolding keeps_shard_def by auto
    moreover from this iso3 c(3) have b by (auto simp: isolates_def)
    ultimately have "on_shard s (pl1 @ pl2 @ pl3) = [(c, s, True)]" using alone by (auto simp: alone_on_shard_def)
    then show ?thesis using on_shard_assigned(1) [OF pl(2,3) d refl, of s] by (simp add: p pl(1))
  qed
  ultimately show ?thesis by blast
qed

lemma demo_names:
  "\<forall>c \<in> set demo_connections. \<forall>ch i. c_shard_id c = Some (shard_name ch i) \<longrightarrow> c_channel c = ch"
proof -
  have "shard_name ''tg'' 0 = ''tg-shard-000''" by code_simp
  then have "ch = ''tg''" if "''tg-shard-000'' = shard_name ch i" for ch i
    using that shard_name_channel by metis
  then show ?thesis by (auto simp: demo_connections_def demo_connection_def)
qed

theorem plan_respects_capacity_witness:
  "card (assigned_to demo_connections (p_assignments demo_plan) ''tg-shard-000'') \<le> 2"
proof -
  have "length (filter (\<lambda>c. c_enabled c \<and> current_shard c = Some ''tg-shard-000'' \<and> \<not> connection_can_move c 5000) demo_connections) \<le> 2"
    by code_simp
  with plan_respects_capacity [OF demo_plan_run demo_connections_distinct _ demo_names, of "''tg-shard-000''"]
  show ?thesis by simp
qed

end
