(* ===== verification/Bot_Gateway.thy ===== *)
theory Bot_Gateway
  imports Prelude
begin

text \<open>
  The tables of the bot gateway and their operations, \<^verbatim>\<open>models/bot_gateway.py\<close>: bindings of external
  identities to users, the codes that make them, conversations, groups, claimed events and consumed
  nonces. An operation commits one transaction, so it is one step on the tables; the time and the
  fresh ids are arguments. Foreign keys are not part of the state.
\<close>

subsection \<open>Tables\<close>

record bg_connection =
  cn_id :: string
  cn_channel :: string
  cn_name :: string
  cn_enabled :: bool
  cn_status :: string
  cn_credentials_configured :: bool
  cn_account_id :: "string option"
  cn_account_name :: "string option"
  cn_config :: py
  cn_last_error :: "string option"
  cn_last_seen_at :: "int option"
  cn_created_by :: "string option"
  cn_owner_user_id :: "string option"
  cn_shard_id :: "string option"
  cn_account_key :: "string option"
  cn_assignment_generation :: "int option"
  cn_last_runtime_node_id :: "string option"
  cn_last_runtime_at :: "int option"
  cn_created_at :: int
  cn_updated_at :: int

record bg_binding =
  bd_id :: string
  bd_connection_id :: string
  bd_user_id :: string
  bd_external_user_id :: string
  bd_display_name :: "string option"
  bd_enabled :: bool
  bd_blocked :: bool
  bd_blocked_at :: "int option"
  bd_blocked_by :: "string option"
  bd_unbind_requested_at :: "int option"
  bd_last_seen_at :: "int option"
  bd_created_at :: int
  bd_updated_at :: int

record bg_conversation =
  cv_id :: string
  cv_connection_id :: string
  cv_binding_id :: string
  cv_user_id :: string
  cv_conversation_type :: string
  cv_external_conversation_id :: string
  cv_external_sender_id :: string
  cv_session_key :: string
  cv_chat_id :: "string option"
  cv_model_id :: "string option"
  cv_last_event_at :: "int option"
  cv_created_at :: int
  cv_updated_at :: int

record bg_code =
  co_id :: string
  co_user_id :: string
  co_channel :: "string option"
  co_code_hash :: string
  co_expires_at :: int
  co_consumed_at :: "int option"
  co_consumed_by_binding_id :: "string option"
  co_created_at :: int

record bg_group =
  gr_id :: string
  gr_connection_id :: string
  gr_external_group_id :: string
  gr_name :: "string option"
  gr_allowed :: bool
  gr_member_count :: "int option"
  gr_discovered_at :: int
  gr_last_seen_at :: int
  gr_updated_by :: "string option"
  gr_created_at :: int
  gr_updated_at :: int

datatype event_status = Processing | Completed | Failed

record bg_event =
  ev_id :: string
  ev_connection_id :: string
  ev_event_id :: string
  ev_request_hash :: string
  ev_request_nonce :: string
  ev_status :: event_status
  ev_conversation_type :: string
  ev_external_conversation_id :: string
  ev_external_sender_id :: string
  ev_binding_id :: "string option"
  ev_conversation_id :: "string option"
  ev_chat_id :: "string option"
  ev_assistant_message_id :: "string option"
  ev_response :: py
  ev_error :: "string option"
  ev_attempts :: int
  ev_received_at :: int
  ev_completed_at :: "int option"
  ev_updated_at :: int

record bg_nonce =
  no_nonce :: string
  no_expires_at :: int
  no_created_at :: int

record bg_history =
  hi_id :: string
  hi_user_id :: "string option"
  hi_connection_id :: "string option"
  hi_channel :: string
  hi_external_user_id :: "string option"
  hi_display_name :: "string option"
  hi_action :: string
  hi_actor_user_id :: "string option"
  hi_metadata :: py
  hi_created_at :: int

record bg_setting =
  us_user_id :: string
  us_default_model_id :: "string option"
  us_updated_at :: int

record bg_credential =
  ce_id :: string
  ce_connection_id :: string
  ce_channel :: string
  ce_account_digest :: string
  ce_envelope :: string
  ce_key_version :: int
  ce_schema_version :: int
  ce_created_at :: int
  ce_updated_at :: int

record bg_shard =
  bs_id :: string
  bs_channel :: string
  bs_account_capacity :: int
  bs_load_capacity :: int
  bs_created_at :: int
  bs_updated_at :: int

record bg_node =
  nd_id :: string
  nd_advertise_url :: "string option"
  nd_capabilities :: py
  nd_created_at :: int
  nd_updated_at :: int
  nd_last_seen_at :: "int option"

record bg_checkpoint =
  cp_connection_id :: string
  cp_payload :: string
  cp_payload_sha256 :: string
  cp_updated_at :: int

record bg_operation =
  ct_id :: string
  ct_kind :: string
  ct_payload :: py
  ct_status :: string
  ct_actor_user_id :: "string option"
  ct_created_at :: int
  ct_updated_at :: int
  ct_completed_at :: "int option"

text \<open>The tables, and the time of the next cleanup, which the table object keeps.\<close>

record gateway =
  bg_connections :: "bg_connection list"
  bg_bindings :: "bg_binding list"
  bg_conversations :: "bg_conversation list"
  bg_codes :: "bg_code list"
  bg_groups :: "bg_group list"
  bg_events :: "bg_event list"
  bg_nonces :: "bg_nonce list"
  bg_histories :: "bg_history list"
  bg_settings :: "bg_setting list"
  bg_credentials :: "bg_credential list"
  bg_shards :: "bg_shard list"
  bg_nodes :: "bg_node list"
  bg_checkpoints :: "bg_checkpoint list"
  bg_operations :: "bg_operation list"
  bg_next_cleanup_at :: int

definition empty_gateway :: gateway where
  "empty_gateway = \<lparr>bg_connections = [], bg_bindings = [], bg_conversations = [], bg_codes = [], bg_groups = [], bg_events = [],
     bg_nonces = [], bg_histories = [], bg_settings = [], bg_credentials = [], bg_shards = [], bg_nodes = [], bg_checkpoints = [],
     bg_operations = [], bg_next_cleanup_at = 0\<rparr>"

text \<open>\<open>UPDATE ... WHERE\<close> and its row count.\<close>

definition upd_rows :: "('a \<Rightarrow> bool) \<Rightarrow> ('a \<Rightarrow> 'a) \<Rightarrow> 'a list \<Rightarrow> 'a list" where
  "upd_rows P f rows = map (\<lambda>x. if P x then f x else x) rows"

definition count_rows :: "('a \<Rightarrow> bool) \<Rightarrow> 'a list \<Rightarrow> nat" where
  "count_rows P rows = length (filter P rows)"

lemma count_rows_0: "count_rows P rows = 0 \<longleftrightarrow> (\<forall>x \<in> set rows. \<not> P x)"
  by (auto simp: count_rows_def filter_empty_conv)

lemma upd_rows_none: "\<forall>x \<in> set rows. \<not> P x \<Longrightarrow> upd_rows P f rows = rows"
  by (auto simp: upd_rows_def intro: map_idI)

lemma in_upd_rows: "y \<in> set (upd_rows P f rows) \<longleftrightarrow> (\<exists>x \<in> set rows. y = (if P x then f x else x))"
  by (auto simp: upd_rows_def)

lemma map_upd_rows: "(\<And>x. g (f x) = g x) \<Longrightarrow> map g (upd_rows P f rows) = map g rows"
  by (simp add: upd_rows_def)

definition build_bot_gateway_session_key :: "string \<Rightarrow> string \<Rightarrow> string \<Rightarrow> string \<times> string \<times> string" where
  "build_bot_gateway_session_key conversation_type conversation_id sender_id =
     (if conversation_type = ''private'' then (''private:'' @ sender_id, sender_id, [])
      else (''group:'' @ conversation_id @ '':'' @ sender_id, conversation_id, sender_id))"

subsection \<open>Events\<close>

definition EVENT_RETENTION_SECONDS :: int where
  "EVENT_RETENTION_SECONDS = 30 * 24 * 60 * 60"

definition BINDING_CODE_RETENTION_SECONDS :: int where
  "BINDING_CODE_RETENTION_SECONDS = 24 * 60 * 60"

definition CLEANUP_INTERVAL_SECONDS :: int where
  "CLEANUP_INTERVAL_SECONDS = 10 * 60"

definition claim_request_nonce :: "int \<Rightarrow> string \<Rightarrow> int \<Rightarrow> gateway \<Rightarrow> bool \<times> gateway" where
  "claim_request_nonce now nonce expires_at db =
     (let nonces = filter (\<lambda>n. \<not> (no_nonce n = nonce \<and> no_expires_at n \<le> now)) (bg_nonces db)
      in if nonce \<in> no_nonce ` set nonces then (False, db)
         else (True, db\<lparr>bg_nonces := nonces @ [\<lparr>no_nonce = nonce, no_expires_at = max expires_at (now + 1), no_created_at = now\<rparr>]\<rparr>))"

text \<open>Nothing is deleted before the next cleanup is due, unless it is forced.\<close>

definition cleanup_expired_records :: "int \<Rightarrow> int \<Rightarrow> bool \<Rightarrow> gateway \<Rightarrow> (nat \<times> nat \<times> nat) \<times> gateway" where
  "cleanup_expired_records now event_retention force db =
     (if \<not> force \<and> now < bg_next_cleanup_at db then ((0, 0, 0), db)
      else let P = \<lambda>n. no_expires_at n \<le> now;
               Q = \<lambda>e. ev_updated_at e \<le> now - max 1 event_retention;
               R = \<lambda>c. co_expires_at c \<le> now - BINDING_CODE_RETENTION_SECONDS
           in ((count_rows P (bg_nonces db), count_rows Q (bg_events db), count_rows R (bg_codes db)),
               db\<lparr>bg_nonces := filter (\<lambda>n. \<not> P n) (bg_nonces db), bg_events := filter (\<lambda>e. \<not> Q e) (bg_events db),
                  bg_codes := filter (\<lambda>c. \<not> R c) (bg_codes db), bg_next_cleanup_at := now + CLEANUP_INTERVAL_SECONDS\<rparr>))"

record event_request =
  rq_connection_id :: string
  rq_event_id :: string
  rq_hash :: string
  rq_nonce :: string
  rq_conversation_type :: string
  rq_external_conversation_id :: string
  rq_external_sender_id :: string
  rq_lease_seconds :: int

definition same_event :: "event_request \<Rightarrow> bg_event \<Rightarrow> bool" where
  "same_event rq e \<longleftrightarrow> ev_connection_id e = rq_connection_id rq \<and> ev_event_id e = rq_event_id rq"

definition new_event :: "string \<Rightarrow> int \<Rightarrow> event_request \<Rightarrow> bg_event" where
  "new_event uuid now rq = \<lparr>ev_id = uuid, ev_connection_id = rq_connection_id rq, ev_event_id = rq_event_id rq,
     ev_request_hash = rq_hash rq, ev_request_nonce = rq_nonce rq, ev_status = Processing,
     ev_conversation_type = rq_conversation_type rq, ev_external_conversation_id = rq_external_conversation_id rq,
     ev_external_sender_id = rq_external_sender_id rq, ev_binding_id = None, ev_conversation_id = None, ev_chat_id = None,
     ev_assistant_message_id = None, ev_response = PNone, ev_error = None, ev_attempts = 1, ev_received_at = now,
     ev_completed_at = None, ev_updated_at = now\<rparr>"

definition reclaimable :: "int \<Rightarrow> event_request \<Rightarrow> bg_event \<Rightarrow> bool" where
  "reclaimable now rq e \<longleftrightarrow> ev_request_hash e = rq_hash rq \<and>
     (ev_status e = Failed \<or> (ev_status e = Processing \<and> ev_updated_at e \<le> now - max 1 (rq_lease_seconds rq)))"

definition reclaim :: "int \<Rightarrow> event_request \<Rightarrow> bg_event \<Rightarrow> bg_event" where
  "reclaim now rq e = e\<lparr>ev_request_nonce := rq_nonce rq, ev_status := Processing, ev_error := None,
     ev_attempts := ev_attempts e + 1, ev_completed_at := None, ev_updated_at := now\<rparr>"

definition claim_event :: "string \<Rightarrow> int \<Rightarrow> event_request \<Rightarrow> gateway \<Rightarrow> (bg_event \<times> bool) result \<times> gateway" where
  "claim_event uuid now rq db =
     (if uuid \<notin> ev_id ` set (bg_events db) \<and> \<not> list_ex (same_event rq) (bg_events db)
      then (Inr (new_event uuid now rq, True), db\<lparr>bg_events := bg_events db @ [new_event uuid now rq]\<rparr>)
      else case find (same_event rq) (bg_events db) of
             None \<Rightarrow> (Inl IntegrityError, db)
           | Some existing \<Rightarrow>
               if ev_request_hash existing \<noteq> rq_hash rq then (Inl (ValueError ''Event ID was reused with a different payload''), db)
               else if ev_status existing = Completed then (Inr (existing, False), db)
               else let P = \<lambda>e. ev_id e = ev_id existing \<and> reclaimable now rq e;
                        events = upd_rows P (reclaim now rq) (bg_events db)
                    in (Inr (case find (\<lambda>e. ev_id e = ev_id existing) events of Some e \<Rightarrow> e | None \<Rightarrow> existing,
                          count_rows P (bg_events db) = 1), db\<lparr>bg_events := events\<rparr>))"

text \<open>The worker that holds an event: the record is being processed under its nonce.\<close>

definition held_by :: "string \<Rightarrow> string \<Rightarrow> bg_event \<Rightarrow> bool" where
  "held_by record_id nonce e \<longleftrightarrow> ev_id e = record_id \<and> ev_status e = Processing \<and> ev_request_nonce e = nonce"

definition update_held :: "string \<Rightarrow> string \<Rightarrow> (bg_event \<Rightarrow> bg_event) \<Rightarrow> gateway \<Rightarrow> bool \<times> gateway" where
  "update_held record_id nonce f db =
     (count_rows (held_by record_id nonce) (bg_events db) = 1,
      db\<lparr>bg_events := upd_rows (held_by record_id nonce) f (bg_events db)\<rparr>)"

definition renew_event_lease :: "int \<Rightarrow> string \<Rightarrow> string \<Rightarrow> gateway \<Rightarrow> bool \<times> gateway" where
  "renew_event_lease now record_id nonce = update_held record_id nonce (\<lambda>e. e\<lparr>ev_updated_at := now\<rparr>)"

definition set_event_target ::
  "int \<Rightarrow> string \<Rightarrow> string \<Rightarrow> string \<Rightarrow> string \<Rightarrow> string \<Rightarrow> string \<Rightarrow> gateway \<Rightarrow> bool \<times> gateway" where
  "set_event_target now record_id nonce binding_id conversation_id chat_id assistant_message_id =
     update_held record_id nonce (\<lambda>e. e\<lparr>ev_binding_id := Some binding_id, ev_conversation_id := Some conversation_id,
       ev_chat_id := Some chat_id, ev_assistant_message_id := Some assistant_message_id, ev_updated_at := now\<rparr>)"

definition complete_event :: "int \<Rightarrow> string \<Rightarrow> string \<Rightarrow> py \<Rightarrow> gateway \<Rightarrow> bool \<times> gateway" where
  "complete_event now record_id nonce response =
     update_held record_id nonce (\<lambda>e. e\<lparr>ev_status := Completed, ev_response := response, ev_error := None,
       ev_completed_at := Some now, ev_updated_at := now\<rparr>)"

definition fail_event :: "int \<Rightarrow> string \<Rightarrow> string \<Rightarrow> string \<Rightarrow> gateway \<Rightarrow> bool \<times> gateway" where
  "fail_event now record_id nonce error =
     update_held record_id nonce (\<lambda>e. e\<lparr>ev_status := Failed, ev_error := Some (take 4000 error),
       ev_completed_at := Some now, ev_updated_at := now\<rparr>)"

subsection \<open>Binding codes\<close>

definition create_binding_code :: "string \<Rightarrow> int \<Rightarrow> string \<Rightarrow> string \<Rightarrow> string option \<Rightarrow> int \<Rightarrow> gateway \<Rightarrow> unit result \<times> gateway" where
  "create_binding_code uuid now user_id code_hash channel expires_at db =
     (let codes = upd_rows (\<lambda>c. co_user_id c = user_id \<and> co_consumed_at c = None \<and> co_channel c = channel)
                    (\<lambda>c. c\<lparr>co_consumed_at := Some now\<rparr>) (bg_codes db)
      in if uuid \<in> co_id ` set codes \<or> code_hash \<in> co_code_hash ` set codes then (Inl IntegrityError, db)
         else (Inr (), db\<lparr>bg_codes := codes @ [\<lparr>co_id = uuid, co_user_id = user_id, co_channel = channel, co_code_hash = code_hash,
            co_expires_at = expires_at, co_consumed_at = None, co_consumed_by_binding_id = None, co_created_at = now\<rparr>]\<rparr>))"

text \<open>The checks of \<open>bind_with_code\<close>; \<open>role\<close> gives the role of an existing user.\<close>

definition check_code :: "(string \<Rightarrow> string option) \<Rightarrow> int \<Rightarrow> string \<Rightarrow> string \<Rightarrow> gateway \<Rightarrow> bg_code result" where
  "check_code role now channel code_hash db =
     (case find (\<lambda>c. co_code_hash c = code_hash) (bg_codes db) of
        None \<Rightarrow> Inl (ValueError ''invalid_or_expired_code'')
      | Some code \<Rightarrow>
          if co_consumed_at code \<noteq> None \<or> co_expires_at code \<le> now then Inl (ValueError ''invalid_or_expired_code'')
          else if co_channel code \<noteq> None \<and> co_channel code \<noteq> Some channel then Inl (ValueError ''channel_mismatch'')
          else if role (co_user_id code) \<notin> {Some ''user'', Some ''admin''} then Inl (ValueError ''user_unavailable'')
          else Inr code)"

definition check_identity :: "string \<Rightarrow> string \<Rightarrow> string \<Rightarrow> gateway \<Rightarrow> bg_binding option result" where
  "check_identity connection_id external_user_id user_id db =
     (case find (\<lambda>b. bd_connection_id b = connection_id \<and> bd_external_user_id b = external_user_id) (bg_bindings db) of
        None \<Rightarrow> Inr None
      | Some b \<Rightarrow>
          if bd_blocked b then Inl (ValueError ''identity_blocked'')
          else if bd_enabled b \<and> bd_user_id b \<noteq> user_id then Inl (ValueError ''identity_already_bound'')
          else Inr (Some b))"

definition consume_code :: "int \<Rightarrow> bg_code \<Rightarrow> string \<Rightarrow> gateway \<Rightarrow> nat \<times> gateway" where
  "consume_code now code binding_id db =
     (let P = \<lambda>c. co_id c = co_id code \<and> co_consumed_at c = None \<and> co_expires_at c > now
      in (count_rows P (bg_codes db),
          db\<lparr>bg_codes := upd_rows P (\<lambda>c. c\<lparr>co_consumed_at := Some now, co_consumed_by_binding_id := Some binding_id\<rparr>) (bg_codes db)\<rparr>))"

definition new_binding :: "string \<Rightarrow> int \<Rightarrow> string \<Rightarrow> string \<Rightarrow> string \<Rightarrow> string option \<Rightarrow> int option \<Rightarrow> bg_binding" where
  "new_binding uuid now connection_id user_id external_user_id display_name last_seen =
     \<lparr>bd_id = uuid, bd_connection_id = connection_id, bd_user_id = user_id, bd_external_user_id = external_user_id,
      bd_display_name = display_name, bd_enabled = True, bd_blocked = False, bd_blocked_at = None, bd_blocked_by = None,
      bd_unbind_requested_at = None, bd_last_seen_at = last_seen, bd_created_at = now, bd_updated_at = now\<rparr>"

definition rebind :: "int \<Rightarrow> string \<Rightarrow> string option \<Rightarrow> bg_binding \<Rightarrow> bg_binding" where
  "rebind now user_id display_name b = b\<lparr>bd_user_id := user_id, bd_display_name := display_name, bd_enabled := True,
     bd_unbind_requested_at := None, bd_last_seen_at := Some now, bd_updated_at := now\<rparr>"

definition bind_with_code ::
  "(string \<Rightarrow> string option) \<Rightarrow> string \<Rightarrow> int \<Rightarrow> string \<Rightarrow> string \<Rightarrow> string \<Rightarrow> string option \<Rightarrow> string \<Rightarrow> gateway
     \<Rightarrow> (bg_binding \<times> bool) result \<times> gateway" where
  "bind_with_code role uuid now connection_id channel external_user_id display_name code_hash db =
     (case bind_result (check_code role now channel code_hash db) (\<lambda>code.
             bind_result (check_identity connection_id external_user_id (co_user_id code) db) (\<lambda>binding. Inr (code, binding))) of
        Inl e \<Rightarrow> (Inl e, db)
      | Inr (code, None) \<Rightarrow>
          (let b = new_binding uuid now connection_id (co_user_id code) external_user_id display_name (Some now)
           in if uuid \<in> bd_id ` set (bg_bindings db) then (Inl IntegrityError, db)
              else (case consume_code now code uuid (db\<lparr>bg_bindings := bg_bindings db @ [b]\<rparr>) of
                      (n, db') \<Rightarrow> if n \<noteq> 1 then (Inl (ValueError ''invalid_or_expired_code''), db) else (Inr (b, True), db')))
      | Inr (code, Some b) \<Rightarrow>
          (let P = \<lambda>x. bd_id x = bd_id b \<and> \<not> bd_blocked x;
               db1 = db\<lparr>bg_bindings := upd_rows P (rebind now (co_user_id code) display_name) (bg_bindings db),
                        bg_conversations := filter (\<lambda>c. cv_binding_id c \<noteq> bd_id b) (bg_conversations db)\<rparr>
           in if count_rows P (bg_bindings db) \<noteq> 1 then (Inl (ValueError ''identity_blocked''), db)
              else (case consume_code now code (bd_id b) db1 of
                      (n, db') \<Rightarrow> if n \<noteq> 1 then (Inl (ValueError ''invalid_or_expired_code''), db) else (Inr (rebind now (co_user_id code) display_name b, False), db'))))"

subsection \<open>Bindings\<close>

definition get_enabled_binding :: "gateway \<Rightarrow> string \<Rightarrow> string \<Rightarrow> bg_binding option" where
  "get_enabled_binding db connection_id external_user_id =
     find (\<lambda>b. bd_connection_id b = connection_id \<and> bd_external_user_id b = external_user_id \<and> bd_enabled b \<and> \<not> bd_blocked b) (bg_bindings db)"

definition add_binding_history :: "bg_history \<Rightarrow> gateway \<Rightarrow> gateway" where
  "add_binding_history h db = db\<lparr>bg_histories := bg_histories db @ [h]\<rparr>"

definition list_binding_history :: "string option \<Rightarrow> nat \<Rightarrow> gateway \<Rightarrow> bg_history list" where
  "list_binding_history user_id limit db =
     take limit (sort_key (\<lambda>h. - hi_created_at h)
       (case user_id of None \<Rightarrow> bg_histories db | Some u \<Rightarrow> filter (\<lambda>h. hi_user_id h = Some u) (bg_histories db)))"

text \<open>\<open>str(config.get('trusted_external_user_id') or '').strip()\<close>.\<close>

definition trusted_external_user_id :: "(py \<Rightarrow> string) \<Rightarrow> bg_connection \<Rightarrow> string" where
  "trusted_external_user_id to_str c =
     (let v = pget (dict_or_empty (cn_config c)) ''trusted_external_user_id''
      in py_strip (if truthy v then (case v of PStr s \<Rightarrow> s | _ \<Rightarrow> to_str v) else []))"

text \<open>\<open>to_str\<close> is \<open>str\<close> on a value that is not a string; \<open>uuid 0\<close> and \<open>uuid 1\<close> are the fresh ids.\<close>

definition ensure_owner_binding ::
  "(py \<Rightarrow> string) \<Rightarrow> (nat \<Rightarrow> string) \<Rightarrow> int \<Rightarrow> string \<Rightarrow> string \<Rightarrow> string option \<Rightarrow> gateway \<Rightarrow> bg_binding option result \<times> gateway" where
  "ensure_owner_binding to_str uuid now connection_id external_user_id display_name db =
     (case find (\<lambda>c. cn_id c = connection_id) (bg_connections db) of
        None \<Rightarrow> (Inr None, db)
      | Some c \<Rightarrow>
          (case cn_owner_user_id c of
             None \<Rightarrow> (Inr None, db)
           | Some owner \<Rightarrow>
               if owner = [] then (Inr None, db)
               else if trusted_external_user_id to_str c = [] \<or> trusted_external_user_id to_str c \<noteq> external_user_id then (Inr None, db)
               else (case find (\<lambda>b. bd_connection_id b = connection_id \<and> bd_external_user_id b = external_user_id) (bg_bindings db) of
                       None \<Rightarrow>
                         if list_ex (\<lambda>b. bd_connection_id b = connection_id \<and> bd_enabled b \<and> \<not> bd_blocked b) (bg_bindings db) then (Inr None, db)
                         else if uuid 0 \<in> bd_id ` set (bg_bindings db) then (Inl IntegrityError, db)
                         else (let b = new_binding (uuid 0) now connection_id owner external_user_id display_name None;
                                   h = \<lparr>hi_id = uuid 1, hi_user_id = Some owner, hi_connection_id = Some connection_id, hi_channel = cn_channel c,
                                         hi_external_user_id = Some external_user_id, hi_display_name = display_name, hi_action = ''auto_bound'',
                                         hi_actor_user_id = Some owner, hi_metadata = PDict [(''source'', PStr ''personal_connection'')],
                                         hi_created_at = now\<rparr>
                               in (Inr (Some b), add_binding_history h (db\<lparr>bg_bindings := bg_bindings db @ [b]\<rparr>)))
                     | Some b \<Rightarrow>
                         if bd_user_id b \<noteq> owner \<or> bd_blocked b \<or> \<not> bd_enabled b then (Inr None, db)
                         else (let f = \<lambda>x. x\<lparr>bd_updated_at := now, bd_display_name :=
                                      (case display_name of Some (ch # s) \<Rightarrow> display_name | _ \<Rightarrow> bd_display_name x)\<rparr>
                               in (Inr (Some (f b)), db\<lparr>bg_bindings := upd_rows (\<lambda>x. bd_id x = bd_id b) f (bg_bindings db)\<rparr>)))))"

definition list_bindings :: "string option \<Rightarrow> bool \<Rightarrow> gateway \<Rightarrow> (bg_binding \<times> string \<times> string) list" where
  "list_bindings user_id include_disabled db =
     concat (map (\<lambda>b. map (\<lambda>c. (b, cn_channel c, if bd_blocked b then ''blocked'' else if bd_enabled b then ''active'' else ''disabled''))
                     (filter (\<lambda>c. cn_id c = bd_connection_id b) (bg_connections db)))
       (sort_key (\<lambda>b. - bd_updated_at b)
         (filter (\<lambda>b. (case user_id of None \<Rightarrow> True | Some u \<Rightarrow> bd_user_id b = u) \<and> (include_disabled \<or> bd_enabled b)) (bg_bindings db))))"

definition request_unbind :: "int \<Rightarrow> string \<Rightarrow> string \<Rightarrow> gateway \<Rightarrow> bool \<times> gateway" where
  "request_unbind now binding_id user_id db =
     (case find (\<lambda>b. bd_id b = binding_id) (bg_bindings db) of
        None \<Rightarrow> (False, db)
      | Some b \<Rightarrow>
          if \<not> bd_enabled b \<or> bd_user_id b \<noteq> user_id then (False, db)
          else (True, db\<lparr>bg_bindings := upd_rows (\<lambda>x. bd_id x = binding_id)
                  (\<lambda>x. x\<lparr>bd_unbind_requested_at := Some now, bd_updated_at := now\<rparr>) (bg_bindings db)\<rparr>))"

definition delete_conversations :: "string \<Rightarrow> gateway \<Rightarrow> gateway" where
  "delete_conversations binding_id db = db\<lparr>bg_conversations := filter (\<lambda>c. cv_binding_id c \<noteq> binding_id) (bg_conversations db)\<rparr>"

definition block_binding :: "int \<Rightarrow> string \<Rightarrow> string \<Rightarrow> gateway \<Rightarrow> bool \<times> gateway" where
  "block_binding now binding_id blocked_by db =
     (if count_rows (\<lambda>b. bd_id b = binding_id) (bg_bindings db) \<noteq> 1 then (False, db)
      else (True, delete_conversations binding_id (db\<lparr>bg_bindings := upd_rows (\<lambda>b. bd_id b = binding_id)
              (\<lambda>b. b\<lparr>bd_enabled := False, bd_blocked := True, bd_blocked_at := Some now, bd_blocked_by := Some blocked_by,
                     bd_unbind_requested_at := None, bd_updated_at := now\<rparr>) (bg_bindings db)\<rparr>)))"

definition unblock_binding :: "int \<Rightarrow> string \<Rightarrow> gateway \<Rightarrow> bool \<times> gateway" where
  "unblock_binding now binding_id db =
     (let P = \<lambda>b. bd_id b = binding_id \<and> bd_blocked b
      in (count_rows P (bg_bindings db) = 1,
          db\<lparr>bg_bindings := upd_rows P (\<lambda>b. b\<lparr>bd_enabled := False, bd_blocked := False, bd_blocked_at := None,
            bd_blocked_by := None, bd_updated_at := now\<rparr>) (bg_bindings db)\<rparr>))"

definition unbind :: "int \<Rightarrow> string \<Rightarrow> string option \<Rightarrow> bool \<Rightarrow> gateway \<Rightarrow> bool \<times> gateway" where
  "unbind now binding_id user_id require_confirmation db =
     (case find (\<lambda>b. bd_id b = binding_id) (bg_bindings db) of
        None \<Rightarrow> (False, db)
      | Some b \<Rightarrow>
          if user_id \<noteq> None \<and> user_id \<noteq> Some (bd_user_id b) then (False, db)
          else if require_confirmation \<and> (case bd_unbind_requested_at b of None \<Rightarrow> True | Some t \<Rightarrow> t < now - 5 * 60) then (False, db)
          else (True, delete_conversations binding_id (db\<lparr>bg_bindings := upd_rows (\<lambda>x. bd_id x = binding_id)
                  (\<lambda>x. x\<lparr>bd_enabled := False, bd_unbind_requested_at := None, bd_updated_at := now\<rparr>) (bg_bindings db)\<rparr>)))"

definition touch_binding :: "int \<Rightarrow> string \<Rightarrow> string option \<Rightarrow> gateway \<Rightarrow> gateway" where
  "touch_binding now binding_id display_name db =
     db\<lparr>bg_bindings := upd_rows (\<lambda>b. bd_id b = binding_id)
        (\<lambda>b. b\<lparr>bd_last_seen_at := Some now, bd_updated_at := now, bd_display_name :=
           (case display_name of Some (ch # s) \<Rightarrow> display_name | _ \<Rightarrow> bd_display_name b)\<rparr>) (bg_bindings db)\<rparr>"

subsection \<open>Conversations and groups\<close>

definition get_or_create_conversation ::
  "string \<Rightarrow> int \<Rightarrow> bg_binding \<Rightarrow> string \<Rightarrow> string \<Rightarrow> string \<Rightarrow> gateway \<Rightarrow> bg_conversation result \<times> gateway" where
  "get_or_create_conversation uuid now b conversation_type conversation_id sender_id db =
     (case build_bot_gateway_session_key conversation_type conversation_id sender_id of
        (session_key, conv, sender) \<Rightarrow>
          (case find (\<lambda>c. cv_binding_id c = bd_id b \<and> cv_session_key c = session_key) (bg_conversations db) of
             Some c \<Rightarrow> (Inr c, db)
           | None \<Rightarrow>
               (let c = \<lparr>cv_id = uuid, cv_connection_id = bd_connection_id b, cv_binding_id = bd_id b, cv_user_id = bd_user_id b,
                          cv_conversation_type = conversation_type, cv_external_conversation_id = conv, cv_external_sender_id = sender,
                          cv_session_key = session_key, cv_chat_id = None, cv_model_id = None, cv_last_event_at = Some now,
                          cv_created_at = now, cv_updated_at = now\<rparr>
                in if uuid \<in> cv_id ` set (bg_conversations db) then (Inl IntegrityError, db)
                   else (Inr c, db\<lparr>bg_conversations := bg_conversations db @ [c]\<rparr>))))"

definition get_conversation :: "gateway \<Rightarrow> string \<Rightarrow> string \<Rightarrow> string option \<Rightarrow> bg_conversation option" where
  "get_conversation db conversation_id user_id binding_id =
     (case find (\<lambda>c. cv_id c = conversation_id) (bg_conversations db) of
        None \<Rightarrow> None
      | Some c \<Rightarrow> if cv_user_id c \<noteq> user_id \<or> (binding_id \<noteq> None \<and> binding_id \<noteq> Some (cv_binding_id c)) then None else Some c)"

definition list_conversations :: "gateway \<Rightarrow> string \<Rightarrow> int \<Rightarrow> string option \<Rightarrow> bg_conversation list" where
  "list_conversations db user_id limit binding_id =
     take (nat (max 1 (min limit 100))) (sort_key (\<lambda>c. - cv_updated_at c)
       (filter (\<lambda>c. cv_user_id c = user_id \<and> (binding_id = None \<or> binding_id = Some (cv_binding_id c))) (bg_conversations db)))"

text \<open>The values of the dict given; other keys are ignored.\<close>

datatype conversation_value = Chat_id "string option" | Model_id "string option" | Last_event_at "int option" | Other_key string

fun set_conversation_value :: "conversation_value \<Rightarrow> bg_conversation \<Rightarrow> bg_conversation" where
  "set_conversation_value (Chat_id v) c = c\<lparr>cv_chat_id := v\<rparr>"
| "set_conversation_value (Model_id v) c = c\<lparr>cv_model_id := v\<rparr>"
| "set_conversation_value (Last_event_at v) c = c\<lparr>cv_last_event_at := v\<rparr>"
| "set_conversation_value (Other_key k) c = c"

definition update_conversation :: "int \<Rightarrow> string \<Rightarrow> conversation_value list \<Rightarrow> gateway \<Rightarrow> bg_conversation option \<times> gateway" where
  "update_conversation now conversation_id values db =
     (case find (\<lambda>c. cv_id c = conversation_id) (bg_conversations db) of
        None \<Rightarrow> (None, db)
      | Some c \<Rightarrow>
          (let f = \<lambda>c. (fold set_conversation_value values c)\<lparr>cv_updated_at := now\<rparr>
           in (Some (f c), db\<lparr>bg_conversations := upd_rows (\<lambda>c. cv_id c = conversation_id) f (bg_conversations db)\<rparr>)))"

definition upsert_group ::
  "string \<Rightarrow> int \<Rightarrow> string \<Rightarrow> string \<Rightarrow> string option \<Rightarrow> int option \<Rightarrow> bool option \<Rightarrow> string option \<Rightarrow> gateway \<Rightarrow> bg_group result \<times> gateway" where
  "upsert_group uuid now connection_id external_group_id name member_count allowed updated_by db =
     (case find (\<lambda>g. gr_connection_id g = connection_id \<and> gr_external_group_id g = external_group_id) (bg_groups db) of
        None \<Rightarrow>
          (let g = \<lparr>gr_id = uuid, gr_connection_id = connection_id, gr_external_group_id = external_group_id, gr_name = name,
                     gr_allowed = (allowed = Some True), gr_member_count = member_count, gr_discovered_at = now, gr_last_seen_at = now,
                     gr_updated_by = updated_by, gr_created_at = now, gr_updated_at = now\<rparr>
           in if uuid \<in> gr_id ` set (bg_groups db) then (Inl IntegrityError, db) else (Inr g, db\<lparr>bg_groups := bg_groups db @ [g]\<rparr>))
      | Some g \<Rightarrow>
          (let f = \<lambda>g. g\<lparr>gr_name := (case name of Some (ch # s) \<Rightarrow> name | _ \<Rightarrow> gr_name g),
                     gr_allowed := (case allowed of Some a \<Rightarrow> a | None \<Rightarrow> gr_allowed g),
                     gr_member_count := (case member_count of Some n \<Rightarrow> Some n | None \<Rightarrow> gr_member_count g),
                     gr_last_seen_at := now,
                     gr_updated_by := (case updated_by of Some u \<Rightarrow> Some u | None \<Rightarrow> gr_updated_by g), gr_updated_at := now\<rparr>
           in (Inr (f g), db\<lparr>bg_groups := upd_rows (\<lambda>x. gr_id x = gr_id g) f (bg_groups db)\<rparr>)))"

definition list_groups :: "gateway \<Rightarrow> string \<Rightarrow> bg_group list" where
  "list_groups db connection_id =
     sort_key (\<lambda>g. - gr_last_seen_at g) (sort_key gr_external_group_id (filter (\<lambda>g. gr_connection_id g = connection_id) (bg_groups db)))"

end
