(* ===== verification/Bot_Events.thy ===== *)
theory Bot_Events
  imports Bot_Gateway
begin

text \<open>
  The events of the bot gateway as a state machine. Workers claim an event, renew the claim, and
  complete or fail it, each under the nonce of its own request; other workers retry the same event
  when it failed or its lease ran out. Shown here: what a claim answers, that a completed event is
  final, that a worker whose claim was taken over can change nothing any more, and that a request
  nonce is consumed once.
\<close>

subsection \<open>Histories\<close>

datatype bot_op =
    Claim string int event_request
  | Renew int string string
  | Target int string string string string string string
  | Complete int string string py
  | Fail int string string string
  | Consume_nonce int string int
  | Cleanup int int bool

fun bot_exec :: "bot_op \<Rightarrow> gateway \<Rightarrow> bool \<times> gateway" where
  "bot_exec (Claim uuid now rq) db = (case claim_event uuid now rq db of (Inr (_, granted), db) \<Rightarrow> (granted, db) | (Inl _, db) \<Rightarrow> (False, db))"
| "bot_exec (Renew now r n) db = renew_event_lease now r n db"
| "bot_exec (Target now r n b c ch m) db = set_event_target now r n b c ch m db"
| "bot_exec (Complete now r n resp) db = complete_event now r n resp db"
| "bot_exec (Fail now r n err) db = fail_event now r n err db"
| "bot_exec (Consume_nonce now n ex) db = claim_request_nonce now n ex db"
| "bot_exec (Cleanup now ret force) db = (True, snd (cleanup_expired_records now ret force db))"

fun bot_run :: "bot_op list \<Rightarrow> gateway \<Rightarrow> bool list \<times> gateway" where
  "bot_run [] db = ([], db)"
| "bot_run (op # ops) db = (case bot_exec op db of (b, db) \<Rightarrow> (case bot_run ops db of (bs, db) \<Rightarrow> (b # bs, db)))"

text \<open>The primary key and the unique constraint on connection and event id.\<close>

definition event_key :: "bg_event \<Rightarrow> string \<times> string" where
  "event_key e = (ev_connection_id e, ev_event_id e)"

definition events_ok :: "gateway \<Rightarrow> bool" where
  "events_ok db \<longleftrightarrow> distinct (map ev_id (bg_events db)) \<and> distinct (map event_key (bg_events db))"

lemma same_event_key: "same_event rq e \<longleftrightarrow> event_key e = (rq_connection_id rq, rq_event_id rq)"
  by (auto simp: same_event_def event_key_def)

lemma count_rows_unique:
  assumes "distinct (map ev_id rows)" and "e \<in> set rows"
  shows "count_rows (\<lambda>x. ev_id x = ev_id e \<and> P x) rows = (if P e then 1 else 0)"
proof -
  have same: "x = e" if "x \<in> set rows" "ev_id x = ev_id e" for x
    using that assms by (auto simp: distinct_map dest: inj_onD)
  show ?thesis
  proof (cases "P e")
    case True
    have "distinct (filter (\<lambda>x. ev_id x = ev_id e \<and> P x) rows)" using assms(1) by (simp add: distinct_map)
    moreover have "set (filter (\<lambda>x. ev_id x = ev_id e \<and> P x) rows) = {e}" using same assms(2) True by auto
    ultimately have "length (filter (\<lambda>x. ev_id x = ev_id e \<and> P x) rows) = card {e}" by (metis distinct_card)
    with True show ?thesis by (simp add: count_rows_def)
  next
    case False
    then have "count_rows (\<lambda>x. ev_id x = ev_id e \<and> P x) rows = 0" using same by (auto simp: count_rows_0)
    with False show ?thesis by simp
  qed
qed

lemma find_same_event:
  assumes "events_ok db" and "e \<in> set (bg_events db)" and "same_event rq e"
  shows "find (same_event rq) (bg_events db) = Some e"
proof -
  have "find (same_event rq) (bg_events db) \<noteq> None" using assms(2,3) by (auto simp: find_None_iff)
  then obtain x where x: "find (same_event rq) (bg_events db) = Some x" by auto
  then have "x \<in> set (bg_events db)" "same_event rq x" by (auto dest: find_Some)
  then have "event_key x = event_key e" using assms(3) by (simp add: same_event_key)
  moreover have "inj_on event_key (set (bg_events db))" using assms(1) by (simp add: events_ok_def distinct_map)
  ultimately have "x = e" using \<open>x \<in> _\<close> assms(2) by (auto dest: inj_onD)
  with x show ?thesis by simp
qed

subsection \<open>One claim\<close>

lemma reclaim_sel [simp]:
  "ev_id (reclaim now rq e) = ev_id e" "event_key (reclaim now rq e) = event_key e" "ev_request_nonce (reclaim now rq e) = rq_nonce rq"
  by (simp_all add: reclaim_def event_key_def)

lemma claim_known:
  assumes ok: "events_ok db" and e: "e \<in> set (bg_events db)" "same_event rq e"
  shows "claim_event uuid now rq db =
    (if ev_request_hash e \<noteq> rq_hash rq then (Inl (ValueError ''Event ID was reused with a different payload''), db)
     else if reclaimable now rq e then
       (Inr (reclaim now rq e, True), db\<lparr>bg_events := upd_rows (\<lambda>x. ev_id x = ev_id e) (reclaim now rq) (bg_events db)\<rparr>)
     else (Inr (e, False), db))"
proof -
  have ids: "distinct (map ev_id (bg_events db))" using ok by (simp add: events_ok_def)
  have same: "x = e" if "x \<in> set (bg_events db)" "ev_id x = ev_id e" for x
    using that e(1) ids by (auto simp: distinct_map dest: inj_onD)
  have ex: "list_ex (same_event rq) (bg_events db)" using e by (auto simp: list_ex_iff)
  note f = find_same_event [OF ok e]
  let ?P = "\<lambda>x. ev_id x = ev_id e \<and> reclaimable now rq x"
  note c = count_rows_unique [OF ids e(1), of "reclaimable now rq"]
  show ?thesis
  proof (cases "reclaimable now rq e")
    case True
    have u: "upd_rows ?P (reclaim now rq) (bg_events db) = upd_rows (\<lambda>x. ev_id x = ev_id e) (reclaim now rq) (bg_events db)"
      unfolding upd_rows_def using same True by (intro map_cong) auto
    have r: "reclaim now rq e \<in> set (upd_rows (\<lambda>x. ev_id x = ev_id e) (reclaim now rq) (bg_events db))"
      using e(1) by (auto simp: in_upd_rows)
    have only: "x = reclaim now rq e"
      if "x \<in> set (upd_rows (\<lambda>x. ev_id x = ev_id e) (reclaim now rq) (bg_events db))" "ev_id x = ev_id e" for x
      using that same by (auto simp: in_upd_rows split: if_splits)
    have "find (\<lambda>x. ev_id x = ev_id e) (upd_rows (\<lambda>x. ev_id x = ev_id e) (reclaim now rq) (bg_events db)) = Some (reclaim now rq e)"
    proof -
      let ?rows = "upd_rows (\<lambda>x. ev_id x = ev_id e) (reclaim now rq) (bg_events db)"
      have "find (\<lambda>x. ev_id x = ev_id e) ?rows \<noteq> None" using r by (auto simp: find_None_iff)
      then obtain x where "find (\<lambda>x. ev_id x = ev_id e) ?rows = Some x" by auto
      with only show ?thesis using find_Some by fastforce
    qed
    moreover have "ev_request_hash e = rq_hash rq" "ev_status e \<noteq> Completed" using True by (auto simp: reclaimable_def)
    ultimately show ?thesis using True ex f u c by (simp add: claim_event_def Let_def)
  next
    case False
    have "upd_rows ?P (reclaim now rq) (bg_events db) = bg_events db" using same False by (intro upd_rows_none) auto
    moreover have "find (\<lambda>x. ev_id x = ev_id e) (bg_events db) = Some e"
    proof -
      have "find (\<lambda>x. ev_id x = ev_id e) (bg_events db) \<noteq> None" using e(1) by (auto simp: find_None_iff)
      then obtain x where "find (\<lambda>x. ev_id x = ev_id e) (bg_events db) = Some x" by auto
      with same show ?thesis using find_Some by fastforce
    qed
    ultimately show ?thesis using False ex f c by (simp add: claim_event_def Let_def)
  qed
qed

lemma claim_unknown:
  assumes "\<forall>e \<in> set (bg_events db). \<not> same_event rq e"
  shows "claim_event uuid now rq db =
    (if uuid \<in> ev_id ` set (bg_events db) then (Inl IntegrityError, db)
     else (Inr (new_event uuid now rq, True), db\<lparr>bg_events := bg_events db @ [new_event uuid now rq]\<rparr>))"
proof -
  have "find (same_event rq) (bg_events db) = None" using assms by (simp add: find_None_iff)
  moreover have "\<not> list_ex (same_event rq) (bg_events db)" using assms by (simp add: list_ex_iff)
  ultimately show ?thesis by (auto simp: claim_event_def)
qed

subsection \<open>Any operation\<close>

definition record_op :: "bot_op \<Rightarrow> (string \<times> string) option" where
  "record_op op = (case op of Renew now r n \<Rightarrow> Some (r, n) | Target now r n b c ch m \<Rightarrow> Some (r, n)
     | Complete now r n resp \<Rightarrow> Some (r, n) | Fail now r n err \<Rightarrow> Some (r, n) | _ \<Rightarrow> None)"

text \<open>An operation on a held record changes neither its ids nor its nonce.\<close>

lemma exec_record_op:
  assumes "record_op op = Some (r, n)"
  shows "\<exists>f. bot_exec op db = update_held r n f db \<and>
    (\<forall>e. ev_id (f e) = ev_id e \<and> event_key (f e) = event_key e \<and> ev_request_nonce (f e) = ev_request_nonce e)"
  using assms
  by (cases op) (auto simp: record_op_def renew_event_lease_def set_event_target_def complete_event_def fail_event_def event_key_def)

lemma exec_events:
  assumes "events_ok db" and "bot_exec op db = (b, db')"
  obtains (none) "bg_events db' = bg_events db" "record_op op = None" "\<forall>uuid now rq. op = Claim uuid now rq \<longrightarrow> \<not> b"
  | (claimed) uuid now rq where "op = Claim uuid now rq" "b" "uuid \<notin> ev_id ` set (bg_events db)"
      "\<forall>e \<in> set (bg_events db). \<not> same_event rq e" "bg_events db' = bg_events db @ [new_event uuid now rq]"
  | (reclaimed) uuid now rq e where "op = Claim uuid now rq" "b" "e \<in> set (bg_events db)" "same_event rq e" "reclaimable now rq e"
      "bg_events db' = upd_rows (\<lambda>x. ev_id x = ev_id e) (reclaim now rq) (bg_events db)"
  | (held) r n f where "record_op op = Some (r, n)" "b \<longleftrightarrow> count_rows (held_by r n) (bg_events db) = 1"
      "bg_events db' = upd_rows (held_by r n) f (bg_events db)"
      "\<And>e. ev_id (f e) = ev_id e \<and> event_key (f e) = event_key e \<and> ev_request_nonce (f e) = ev_request_nonce e"
  | (cleaned) now ret force where "op = Cleanup now ret force"
      "bg_events db' = filter (\<lambda>e. \<not> ev_updated_at e \<le> now - max 1 ret) (bg_events db)"
proof (cases "record_op op")
  case (Some rn)
  obtain r n where rn: "rn = (r, n)" by (cases rn)
  from exec_record_op [OF Some [unfolded rn], of db] obtain f where f: "bot_exec op db = update_held r n f db"
    "\<And>e. ev_id (f e) = ev_id e \<and> event_key (f e) = event_key e \<and> ev_request_nonce (f e) = ev_request_nonce e" by blast
  with assms(2) Some rn show ?thesis by (intro held [of r n f]) (auto simp: update_held_def)
next
  case None
  show ?thesis
  proof (cases op)
    case (Claim uuid now rq)
    show ?thesis
    proof (cases "\<exists>e \<in> set (bg_events db). same_event rq e")
      case True
      then obtain e where e: "e \<in> set (bg_events db)" "same_event rq e" by blast
      note c = claim_known [OF assms(1) e, of uuid now]
      show ?thesis
      proof (cases "reclaimable now rq e")
        case True
        then have "\<not> ev_request_hash e \<noteq> rq_hash rq" by (simp add: reclaimable_def)
        with assms(2) c True have "b" "bg_events db' = upd_rows (\<lambda>x. ev_id x = ev_id e) (reclaim now rq) (bg_events db)"
          unfolding Claim by auto
        then show ?thesis by (rule reclaimed [OF Claim _ e True])
      next
        case False
        with assms(2) c have "db' = db \<and> \<not> b" unfolding Claim by (auto split: if_splits)
        then show ?thesis using None by (intro none) simp_all
      qed
    next
      case False
      then have u: "\<forall>e \<in> set (bg_events db). \<not> same_event rq e" by blast
      note c = claim_unknown [OF u, of uuid now]
      show ?thesis
      proof (cases "uuid \<in> ev_id ` set (bg_events db)")
        case True
        with assms(2) c have "db' = db \<and> \<not> b" unfolding Claim by simp
        then show ?thesis using None by (intro none) simp_all
      next
        case False
        from assms(2) have "(b, db') = (True, db\<lparr>bg_events := bg_events db @ [new_event uuid now rq]\<rparr>)"
          unfolding Claim bot_exec.simps c if_not_P [OF False] by simp
        then have "b" "bg_events db' = bg_events db @ [new_event uuid now rq]" by simp_all
        then show ?thesis by (rule claimed [OF Claim _ False u])
      qed
    qed
  next
    case (Cleanup now ret force)
    show ?thesis
    proof (cases "\<not> force \<and> now < bg_next_cleanup_at db")
      case True
      with assms(2) have "bg_events db' = bg_events db" unfolding Cleanup by (simp add: cleanup_expired_records_def)
      then show ?thesis using None Cleanup by (intro none) simp_all
    next
      case False
      with assms(2) have "bg_events db' = filter (\<lambda>e. \<not> ev_updated_at e \<le> now - max 1 ret) (bg_events db)"
        unfolding Cleanup by (simp add: cleanup_expired_records_def Let_def) auto
      then show ?thesis by (rule cleaned [OF Cleanup])
    qed
  next
    case (Consume_nonce now n ex)
    with assms(2) have "bg_events db' = bg_events db" by (auto simp: claim_request_nonce_def Let_def split: if_splits)
    then show ?thesis using None Consume_nonce by (intro none) simp_all
  qed (use None in \<open>simp_all add: record_op_def\<close>)
qed

lemma exec_events_ok:
  assumes "events_ok db" and "bot_exec op db = (b, db')"
  shows "events_ok db'"
  using assms
proof (cases rule: exec_events)
  case none
  then show ?thesis using assms(1) by (simp add: events_ok_def)
next
  case (claimed uuid now rq)
  have "event_key (new_event uuid now rq) \<notin> event_key ` set (bg_events db)"
    using claimed(4) by (auto simp: same_event_key) (auto simp: event_key_def new_event_def)
  with claimed(3) assms(1) show ?thesis by (simp add: events_ok_def claimed(5)) (simp add: new_event_def)
next
  case (reclaimed uuid now rq e)
  then show ?thesis using assms(1) by (simp add: events_ok_def map_upd_rows)
next
  case (held r n f)
  then show ?thesis using assms(1) by (simp add: events_ok_def map_upd_rows)
next
  case (cleaned now ret force)
  then show ?thesis using assms(1) by (simp add: events_ok_def distinct_map_filter)
qed

lemma same_id: "events_ok db \<Longrightarrow> x \<in> set (bg_events db) \<Longrightarrow> y \<in> set (bg_events db) \<Longrightarrow> ev_id x = ev_id y \<Longrightarrow> x = y"
  by (auto simp: events_ok_def distinct_map dest: inj_onD)

lemma same_key:
  assumes "events_ok db" and "x \<in> set (bg_events db)" and "y \<in> set (bg_events db)" and "same_event rq x" and "same_event rq y"
  shows "x = y"
  using find_same_event [OF assms(1,2,4)] find_same_event [OF assms(1,3,5)] by simp

lemma held_count:
  assumes "events_ok db" and "e \<in> set (bg_events db)"
  shows "count_rows (held_by (ev_id e) n) (bg_events db) = (if held_by (ev_id e) n e then 1 else 0)"
proof -
  have "held_by (ev_id e) n = (\<lambda>x. ev_id x = ev_id e \<and> ev_status x = Processing \<and> ev_request_nonce x = n)"
    by (simp add: held_by_def fun_eq_iff)
  then show ?thesis
    using count_rows_unique [of "bg_events db" e "\<lambda>x. ev_status x = Processing \<and> ev_request_nonce x = n"] assms
    by (simp add: events_ok_def held_by_def)
qed

text \<open>An operation that could change the record of an event.\<close>

definition touches :: "bg_event \<Rightarrow> bot_op \<Rightarrow> bool" where
  "touches e op \<longleftrightarrow> (\<exists>uuid now rq. op = Claim uuid now rq \<and> same_event rq e) \<or> (\<exists>n. record_op op = Some (ev_id e, n))"

definition keeps_event :: "bg_event \<Rightarrow> bot_op \<Rightarrow> bool" where
  "keeps_event e op \<longleftrightarrow> (\<forall>now ret force. op = Cleanup now ret force \<longrightarrow> now - max 1 ret < ev_updated_at e)"

lemma completed_step:
  assumes ok: "events_ok db" and e: "e \<in> set (bg_events db)" "ev_status e = Completed"
    and x: "bot_exec op db = (b, db')" and keep: "keeps_event e op"
  shows "e \<in> set (bg_events db') \<and> (touches e op \<longrightarrow> \<not> b)"
  using ok x
proof (cases rule: exec_events)
  case none
  then show ?thesis using e(1) by (auto simp: touches_def)
next
  case (claimed uuid now rq)
  then show ?thesis using e(1) by (auto simp: touches_def record_op_def)
next
  case (reclaimed uuid now rq e0)
  have "e0 \<noteq> e" using reclaimed(5) e(2) by (auto simp: reclaimable_def)
  then have "ev_id e \<noteq> ev_id e0" "\<not> same_event rq e"
    using same_id [OF ok e(1) reclaimed(3)] same_key [OF ok e(1) reclaimed(3) _ reclaimed(4)] by auto
  then show ?thesis using e(1) reclaimed(1,6) by (auto simp: touches_def record_op_def in_upd_rows intro!: bexI [of _ e])
next
  case (held r n f)
  have "\<not> held_by r n e" using e(2) by (simp add: held_by_def)
  then have "e \<in> set (bg_events db')" using e(1) held(3) by (auto simp: in_upd_rows intro!: bexI [of _ e])
  moreover have "\<not> b" if "r = ev_id e"
    using held(2) held_count [OF ok e(1), of n] that \<open>\<not> held_by r n e\<close> by simp
  ultimately show ?thesis using held(1) by (auto simp: touches_def record_op_def)
next
  case (cleaned now ret force)
  then show ?thesis using e(1) keep by (auto simp: keeps_event_def touches_def record_op_def)
qed

lemma completed_run:
  assumes "events_ok db" and "e \<in> set (bg_events db)" and "ev_status e = Completed"
    and "\<forall>op \<in> set ops. keeps_event e op" and "bot_run ops db = (bs, db')"
  shows "e \<in> set (bg_events db') \<and> length bs = length ops \<and> (\<forall>i < length ops. touches e (ops ! i) \<longrightarrow> \<not> bs ! i)"
  using assms
proof (induction ops arbitrary: db bs)
  case (Cons op ops)
  obtain b db1 where x: "bot_exec op db = (b, db1)" by fastforce
  obtain bs1 where bs: "bot_run ops db1 = (bs1, db')" "bs = b # bs1" using Cons.prems(5) x by (auto split: prod.splits)
  note s = completed_step [OF Cons.prems(1-3) x]
  with Cons.IH [OF exec_events_ok [OF Cons.prems(1) x] _ Cons.prems(3) _ bs(1)] Cons.prems(4)
  show ?case by (auto simp: bs(2) nth_Cons split: nat.splits)
qed simp

text \<open>The record of \<open>e\<close>, if it is there, is still under the nonce of \<open>e\<close>.\<close>

definition under_nonce :: "bg_event \<Rightarrow> gateway \<Rightarrow> bool" where
  "under_nonce e db \<longleftrightarrow> (\<forall>x \<in> set (bg_events db). ev_id x = ev_id e \<longrightarrow> ev_request_nonce x = ev_request_nonce e \<and> event_key x = event_key e)"

definition new_ids :: "bg_event \<Rightarrow> bot_op list \<Rightarrow> bool" where
  "new_ids e ops \<longleftrightarrow> (\<forall>uuid now rq. Claim uuid now rq \<in> set ops \<longrightarrow> uuid \<noteq> ev_id e)"

lemma fenced_step:
  assumes ok: "events_ok db" and u: "under_nonce e db" and x: "bot_exec op db = (b, db')" and ids: "new_ids e [op]"
    and lost: "\<And>uuid now rq. op = Claim uuid now rq \<Longrightarrow> same_event rq e \<Longrightarrow> \<not> b"
  shows "under_nonce e db' \<and> (\<forall>n. record_op op = Some (ev_id e, n) \<and> n \<noteq> ev_request_nonce e \<longrightarrow> \<not> b)"
  using ok x
proof (cases rule: exec_events)
  case none
  then show ?thesis using u by (simp add: under_nonce_def)
next
  case (claimed uuid now rq)
  have "uuid \<noteq> ev_id e" using ids claimed(1) by (auto simp: new_ids_def)
  then show ?thesis using u claimed(1,5) by (auto simp: under_nonce_def record_op_def new_event_def)
next
  case (reclaimed uuid now rq e0)
  have "\<not> same_event rq e" using lost [OF reclaimed(1)] reclaimed(2) by blast
  then have "ev_id e0 \<noteq> ev_id e" using u reclaimed(3,4) by (auto simp: under_nonce_def same_event_key)
  then show ?thesis using u reclaimed(1,6) by (auto simp: under_nonce_def record_op_def in_upd_rows split: if_splits)
next
  case (held r n f)
  have "under_nonce e db'" using u held(3,4) by (auto simp: under_nonce_def in_upd_rows split: if_splits)
  moreover have "\<not> b" if "r = ev_id e" "n \<noteq> ev_request_nonce e"
  proof -
    have "\<forall>y \<in> set (bg_events db). \<not> held_by r n y" using u that by (auto simp: under_nonce_def held_by_def)
    then show ?thesis using held(2) by (simp add: count_rows_0 [THEN iffD2])
  qed
  ultimately show ?thesis using held(1) by auto
next
  case (cleaned now ret force)
  then show ?thesis using u by (auto simp: under_nonce_def record_op_def)
qed

lemma fenced_run:
  assumes "events_ok db" and "under_nonce e db" and "new_ids e ops" and "bot_run ops db = (bs, db')"
    and "\<And>i uuid now rq. i < length ops \<Longrightarrow> ops ! i = Claim uuid now rq \<Longrightarrow> same_event rq e \<Longrightarrow> \<not> bs ! i"
  shows "length bs = length ops \<and> (\<forall>i < length ops. \<forall>n. record_op (ops ! i) = Some (ev_id e, n) \<and> n \<noteq> ev_request_nonce e \<longrightarrow> \<not> bs ! i)"
  using assms
proof (induction ops arbitrary: db bs)
  case (Cons op ops)
  obtain b db1 where x: "bot_exec op db = (b, db1)" by fastforce
  obtain bs1 where bs: "bot_run ops db1 = (bs1, db')" "bs = b # bs1" using Cons.prems(4) x by (auto split: prod.splits)
  have ids: "new_ids e [op]" "new_ids e ops" using Cons.prems(3) by (auto simp: new_ids_def)
  have "\<not> b" if "op = Claim uuid now rq" "same_event rq e" for uuid now rq
    using Cons.prems(5) [of 0 uuid now rq] that bs(2) by simp
  note s = fenced_step [OF Cons.prems(1,2) x ids(1) this]
  have "\<not> bs1 ! i" if "i < length ops" "ops ! i = Claim uuid now rq" "same_event rq e" for i uuid now rq
    using Cons.prems(5) [of "Suc i" uuid now rq] that bs(2) by simp
  from Cons.IH [OF exec_events_ok [OF Cons.prems(1) x] conjunct1 [OF s] ids(2) bs(1) this] s
  show ?case by (auto simp: bs(2) nth_Cons split: nat.splits)
qed simp

subsection \<open>Nonces\<close>

definition before_expiry :: "int \<Rightarrow> bot_op \<Rightarrow> bool" where
  "before_expiry t op = (case op of Cleanup now ret force \<Rightarrow> now < t | Consume_nonce now n ex \<Rightarrow> now < t | _ \<Rightarrow> True)"

lemma exec_nonces:
  assumes "x \<in> set (bg_nonces db)" and "before_expiry (no_expires_at x) op" and "bot_exec op db = (b, db')"
  shows "x \<in> set (bg_nonces db') \<and> (\<forall>now ex. op = Consume_nonce now (no_nonce x) ex \<longrightarrow> \<not> b)"
proof (cases op)
  case (Claim uuid now rq)
  have "bg_nonces (snd (claim_event uuid now rq db)) = bg_nonces db"
    by (simp add: claim_event_def Let_def split: option.splits)
  then have "bg_nonces db' = bg_nonces db" using assms(3) Claim by (auto split: prod.splits sum.splits)
  with assms(1) Claim show ?thesis by simp
next
  case (Consume_nonce now n ex)
  have "x \<in> set (filter (\<lambda>m. \<not> (no_nonce m = n \<and> no_expires_at m \<le> now)) (bg_nonces db))"
    using assms(1,2) by (auto simp: Consume_nonce before_expiry_def)
  with assms(1,3) show ?thesis unfolding Consume_nonce
    by (auto simp: claim_request_nonce_def Let_def split: if_splits)
next
  case (Cleanup now ret force)
  with assms show ?thesis by (auto simp: before_expiry_def cleanup_expired_records_def Let_def)
qed (use assms in \<open>auto simp: renew_event_lease_def set_event_target_def complete_event_def fail_event_def update_held_def\<close>)

lemma nonce_kept:
  assumes "x \<in> set (bg_nonces db)" and "\<forall>op \<in> set ops. before_expiry (no_expires_at x) op"
  shows "x \<in> set (bg_nonces (snd (bot_run ops db)))"
  using assms
proof (induction ops arbitrary: db)
  case (Cons op ops)
  obtain b db1 where "bot_exec op db = (b, db1)" by fastforce
  with Cons.IH [of db1] exec_nonces [of x db op b db1] Cons.prems show ?case by (simp add: case_prod_beta)
qed simp

subsection \<open>Properties\<close>

text \<open>
  (C15) A completed event is final. Whatever the workers do afterwards, with any nonces and times and
  in any order, its record stays exactly as it is until the retention cleanup removes it, and every
  attempt to claim, renew, retarget, complete or fail it is refused: an event is answered once.
\<close>

theorem completed_event_final:
  assumes "events_ok db" and "e \<in> set (bg_events db)" and "ev_status e = Completed"
    and "\<forall>op \<in> set ops. keeps_event e op" and "bot_run ops db = (bs, db')"
  shows "e \<in> set (bg_events db') \<and> (\<forall>i < length ops. touches e (ops ! i) \<longrightarrow> \<not> bs ! i)"
  using completed_run [OF assms] by blast

definition demo_rq :: "string \<Rightarrow> event_request" where
  "demo_rq nonce = \<lparr>rq_connection_id = ''c'', rq_event_id = ''e'', rq_hash = ''h'', rq_nonce = nonce, rq_conversation_type = ''private'',
     rq_external_conversation_id = ''x'', rq_external_sender_id = ''s'', rq_lease_seconds = 60\<rparr>"

definition demo_event :: bg_event where
  "demo_event = new_event ''r'' 100 (demo_rq ''n1'')"

definition demo_gateway :: "bg_event list \<Rightarrow> gateway" where
  "demo_gateway es = empty_gateway\<lparr>bg_events := es\<rparr>"

lemma demo_events_ok: "events_ok (demo_gateway [e])"
  by (simp add: events_ok_def demo_gateway_def empty_gateway_def)

theorem completed_event_final_witness:
  "demo_event\<lparr>ev_status := Completed\<rparr> \<in> set (bg_events (snd (bot_run [Claim ''q'' 900 (demo_rq ''n2''), Complete 901 ''r'' ''n2'' PNone]
     (demo_gateway [demo_event\<lparr>ev_status := Completed\<rparr>]))))"
proof -
  let ?e = "demo_event\<lparr>ev_status := Completed\<rparr>" and ?ops = "[Claim ''q'' 900 (demo_rq ''n2''), Complete 901 ''r'' ''n2'' PNone]"
  obtain bs db' where r: "bot_run ?ops (demo_gateway [?e]) = (bs, db')" by fastforce
  have "?e \<in> set (bg_events (demo_gateway [?e]))" "ev_status ?e = Completed" by (simp_all add: demo_gateway_def empty_gateway_def)
  moreover have "\<forall>op \<in> set ?ops. keeps_event ?e op" by (simp add: keeps_event_def)
  ultimately have "?e \<in> set (bg_events db')" using completed_event_final [OF demo_events_ok _ _ _ r] by blast
  then show ?thesis unfolding r by simp
qed

text \<open>
  A worker whose event was taken over is fenced off. As long as no claim on an event is granted
  after the one that set its nonce, no renewal, target, completion or failure under another nonce
  succeeds, whatever else happens in between.
\<close>

theorem lost_lease_is_fenced:
  assumes "events_ok db" and "e \<in> set (bg_events db)" and "new_ids e ops" and "bot_run ops db = (bs, db')"
    and "\<forall>i < length ops. \<forall>uuid now rq. ops ! i = Claim uuid now rq \<and> same_event rq e \<longrightarrow> \<not> bs ! i"
  shows "\<forall>i < length ops. \<forall>n. record_op (ops ! i) = Some (ev_id e, n) \<and> n \<noteq> ev_request_nonce e \<longrightarrow> \<not> bs ! i"
proof -
  have "under_nonce e db" using same_id [OF assms(1) _ assms(2)] by (auto simp: under_nonce_def)
  from fenced_run [OF assms(1) this assms(3,4)] assms(5) show ?thesis by blast
qed

theorem lost_lease_is_fenced_witness:
  "\<not> fst (bot_run [Complete 200 ''r'' ''old'' PNone, Renew 210 ''r'' ''n1''] (demo_gateway [demo_event])) ! 0"
proof -
  let ?ops = "[Complete 200 ''r'' ''old'' PNone, Renew 210 ''r'' ''n1'']"
  obtain bs db' where r: "bot_run ?ops (demo_gateway [demo_event]) = (bs, db')" by fastforce
  have m: "demo_event \<in> set (bg_events (demo_gateway [demo_event]))" "new_ids demo_event ?ops"
    by (simp_all add: demo_gateway_def empty_gateway_def new_ids_def)
  have "\<forall>i < length ?ops. \<forall>uuid now rq. ?ops ! i = Claim uuid now rq \<and> same_event rq demo_event \<longrightarrow> \<not> bs ! i"
    by (auto simp: less_Suc_eq)
  from lost_lease_is_fenced [OF demo_events_ok m r this] have "\<not> bs ! 0"
    by (auto simp: record_op_def demo_event_def new_event_def demo_rq_def dest!: spec [of _ 0])
  then show ?thesis unfolding r by simp
qed

text \<open>
  What a claim answers. A new event is granted. A known event with another payload is an error.
  A failed event, and one whose lease ran out, is granted to the caller, with one more attempt; a
  completed one and one that is being worked on are returned as they are and not granted.
\<close>

theorem claim_outcome:
  assumes "events_ok db" and "uuid \<notin> ev_id ` set (bg_events db)"
  shows "((\<forall>e \<in> set (bg_events db). \<not> same_event rq e) \<longrightarrow>
      claim_event uuid now rq db = (Inr (new_event uuid now rq, True), db\<lparr>bg_events := bg_events db @ [new_event uuid now rq]\<rparr>)) \<and>
    (\<forall>e \<in> set (bg_events db). same_event rq e \<longrightarrow> claim_event uuid now rq db =
      (if ev_request_hash e \<noteq> rq_hash rq then (Inl (ValueError ''Event ID was reused with a different payload''), db)
       else if ev_status e = Failed \<or> ev_status e = Processing \<and> ev_updated_at e \<le> now - max 1 (rq_lease_seconds rq) then
         (Inr (reclaim now rq e, True), db\<lparr>bg_events := upd_rows (\<lambda>x. ev_id x = ev_id e) (reclaim now rq) (bg_events db)\<rparr>)
       else (Inr (e, False), db)))"
proof (intro conjI impI ballI)
  show "claim_event uuid now rq db = (Inr (new_event uuid now rq, True), db\<lparr>bg_events := bg_events db @ [new_event uuid now rq]\<rparr>)"
    if "\<forall>e \<in> set (bg_events db). \<not> same_event rq e"
    unfolding claim_unknown [OF that] if_not_P [OF assms(2)] ..
  show "claim_event uuid now rq db =
      (if ev_request_hash e \<noteq> rq_hash rq then (Inl (ValueError ''Event ID was reused with a different payload''), db)
       else if ev_status e = Failed \<or> ev_status e = Processing \<and> ev_updated_at e \<le> now - max 1 (rq_lease_seconds rq) then
         (Inr (reclaim now rq e, True), db\<lparr>bg_events := upd_rows (\<lambda>x. ev_id x = ev_id e) (reclaim now rq) (bg_events db)\<rparr>)
       else (Inr (e, False), db))" if "e \<in> set (bg_events db)" "same_event rq e" for e
    unfolding claim_known [OF assms(1) that] by (simp add: reclaimable_def)
qed

theorem claim_outcome_witness:
  "claim_event ''q'' 170 (demo_rq ''n2'') (demo_gateway [demo_event]) =
     (Inr (reclaim 170 (demo_rq ''n2'') demo_event, True), demo_gateway [reclaim 170 (demo_rq ''n2'') demo_event])"
proof -
  have "''q'' \<notin> ev_id ` set (bg_events (demo_gateway [demo_event]))" by (simp add: demo_gateway_def empty_gateway_def demo_event_def new_event_def)
  from claim_outcome [OF demo_events_ok this, of "demo_rq ''n2''" 170] show ?thesis
    by (simp add: demo_gateway_def empty_gateway_def upd_rows_def demo_event_def new_event_def demo_rq_def same_event_def)
qed

text \<open>
  A request cannot be replayed: once a nonce was consumed, consuming it again is refused until
  it expires, whatever other requests and cleanups run before then.
\<close>

theorem nonce_consumed_once:
  assumes "claim_request_nonce now nonce expires_at db = (True, db1)"
    and "\<forall>op \<in> set ops. before_expiry (max expires_at (now + 1)) op" and "now' < max expires_at (now + 1)"
  shows "\<not> fst (claim_request_nonce now' nonce expires_at' (snd (bot_run ops db1)))"
proof -
  let ?x = "\<lparr>no_nonce = nonce, no_expires_at = max expires_at (now + 1), no_created_at = now\<rparr>"
  have "?x \<in> set (bg_nonces db1)" using assms(1) by (auto simp: claim_request_nonce_def Let_def split: if_splits)
  from nonce_kept [OF this] assms(2) have "?x \<in> set (bg_nonces (snd (bot_run ops db1)))" by simp
  then have "?x \<in> set (filter (\<lambda>n. \<not> (no_nonce n = nonce \<and> no_expires_at n \<le> now')) (bg_nonces (snd (bot_run ops db1))))"
    using assms(3) by (auto simp: less_max_iff_disj)
  then have "nonce \<in> no_nonce ` set (filter (\<lambda>n. \<not> (no_nonce n = nonce \<and> no_expires_at n \<le> now')) (bg_nonces (snd (bot_run ops db1))))"
    by (rule image_eqI [rotated]) simp
  then show ?thesis by (simp only: claim_request_nonce_def Let_def if_True fst_conv not_False_eq_True)
qed

theorem nonce_consumed_once_witness:
  "\<not> fst (claim_request_nonce 150 ''n'' 900 (snd (bot_run [Cleanup 120 60 True, Consume_nonce 130 ''m'' 400]
      (snd (claim_request_nonce 100 ''n'' 160 (demo_gateway []))))))"
proof -
  obtain b db1 where r: "claim_request_nonce 100 ''n'' 160 (demo_gateway []) = (b, db1)" by fastforce
  then have "b" by (auto simp: claim_request_nonce_def demo_gateway_def empty_gateway_def)
  with r have "claim_request_nonce 100 ''n'' 160 (demo_gateway []) = (True, db1)" by simp
  from nonce_consumed_once [OF this, of "[Cleanup 120 60 True, Consume_nonce 130 ''m'' 400]" 150 900] r show ?thesis
    by (simp add: before_expiry_def)
qed

end
