(* ===== verification/Json.thy ===== *)
theory Json
  imports Py_Numbers
begin

text \<open>
  The \<open>json\<close> module as the components use it: \<open>json.dumps(v, ensure_ascii=False)\<close>, which on ASCII
  text is \<open>json.dumps(v)\<close>, and \<open>json.loads\<close>, with the round trip between them. A string stands for
  its UTF-8 bytes, a lone surrogate for the three bytes UTF-8 would give it. \<open>float_repr\<close> prints a
  float, \<open>fl\<close> rounds a numeral to one. The nesting depth is not bounded.
\<close>

subsection \<open>Printing\<close>

definition hex_digit :: "nat \<Rightarrow> char" where
  "hex_digit n = char_of (if n < 10 then 48 + n else 87 + n)"

definition simple_escapes :: "(char \<times> char) list" where
  "simple_escapes = [(CHR 0x22, CHR 0x22), (CHR 0x5C, CHR 0x5C), (CHR 0x0A, CHR ''n''), (CHR 0x0D, CHR ''r''),
     (CHR 0x09, CHR ''t''), (CHR 0x0C, CHR ''f''), (CHR 0x08, CHR ''b'')]"

definition escape_char :: "char \<Rightarrow> string" where
  "escape_char c =
     (case map_of simple_escapes c of
        Some e \<Rightarrow> [CHR 0x5C, e]
      | None \<Rightarrow> (let n = of_char c :: nat in if n < 32 then CHR 0x5C # ''u00'' @ [hex_digit (n div 16), hex_digit (n mod 16)] else [c]))"

definition json_string :: "string \<Rightarrow> string" where
  "json_string s = CHR 0x22 # concat (map escape_char s) @ [CHR 0x22]"

definition int_str :: "int \<Rightarrow> string" where
  "int_str i = (if i < 0 then CHR ''-'' # decimal (nat (- i)) else decimal (nat i))"

text \<open>\<open>str\<close>; \<open>to_str\<close> is \<open>str\<close> of a float, list or dict.\<close>

fun py_str :: "(py \<Rightarrow> string) \<Rightarrow> py \<Rightarrow> string" where
  "py_str to_str (PStr s) = s"
| "py_str to_str PNone = ''None''"
| "py_str to_str (PBool b) = (if b then ''True'' else ''False'')"
| "py_str to_str (PInt i) = int_str i"
| "py_str to_str v = to_str v"

fun join :: "string \<Rightarrow> string list \<Rightarrow> string" where
  "join sep [] = []"
| "join sep [x] = x"
| "join sep (x # y # xs) = x @ sep @ join sep (y # xs)"

text \<open>\<open>sp\<close> follows a comma or colon: a space, or nothing with \<open>separators=(',', ':')\<close>.\<close>

fun json_dumps :: "string \<Rightarrow> (py \<Rightarrow> string) \<Rightarrow> py \<Rightarrow> string" where
  "json_dumps sp float_repr PNone = ''null''"
| "json_dumps sp float_repr (PBool b) = (if b then ''true'' else ''false'')"
| "json_dumps sp float_repr (PInt i) = int_str i"
| "json_dumps sp float_repr (PStr s) = json_string s"
| "json_dumps sp float_repr (PList xs) = ''['' @ join (CHR '','' # sp) (map (json_dumps sp float_repr) xs) @ '']''"
| "json_dumps sp float_repr (PDict d) = ''{'' @ join (CHR '','' # sp) (map (\<lambda>(k, v). json_string k @ CHR '':'' # sp @ json_dumps sp float_repr v) d) @ ''}''"
| "json_dumps sp float_repr v = float_repr v"

subsection \<open>Parsing\<close>

definition is_ws :: "char \<Rightarrow> bool" where
  "is_ws c \<longleftrightarrow> c \<in> {CHR '' '', CHR 0x09, CHR 0x0A, CHR 0x0D}"

definition skip_ws :: "string \<Rightarrow> string" where
  "skip_ws s = dropWhile is_ws s"

fun eat :: "string \<Rightarrow> string \<Rightarrow> string option" where
  "eat [] s = Some s"
| "eat (c # cs) (x # s) = (if x = c then eat cs s else None)"
| "eat (c # cs) [] = None"

definition hex_value :: "char \<Rightarrow> nat option" where
  "hex_value c =
     (let n = of_char c
      in if 48 \<le> n \<and> n \<le> 57 then Some (n - 48) else if 97 \<le> n \<and> n \<le> 102 then Some (n - 87)
         else if 65 \<le> n \<and> n \<le> 70 then Some (n - 55) else None)"

definition hex4 :: "char \<Rightarrow> char \<Rightarrow> char \<Rightarrow> char \<Rightarrow> nat option" where
  "hex4 a b c d =
     (case (hex_value a, hex_value b, hex_value c, hex_value d) of
        (Some a, Some b, Some c, Some d) \<Rightarrow> Some (16 * (16 * (16 * a + b) + c) + d)
      | _ \<Rightarrow> None)"

text \<open>The bytes of a code point.\<close>

definition utf8 :: "nat \<Rightarrow> string" where
  "utf8 n =
     (if n < 0x80 then [char_of n]
      else if n < 0x800 then [char_of (0xC0 + n div 64), char_of (0x80 + n mod 64)]
      else if n < 0x10000 then [char_of (0xE0 + n div 4096), char_of (0x80 + n div 64 mod 64), char_of (0x80 + n mod 64)]
      else [char_of (0xF0 + n div 262144), char_of (0x80 + n div 4096 mod 64), char_of (0x80 + n div 64 mod 64), char_of (0x80 + n mod 64)])"

definition prepend :: "string \<Rightarrow> (string \<times> string) option \<Rightarrow> (string \<times> string) option" where
  "prepend t r = map_option (\<lambda>(u, r). (t @ u, r)) r"

definition unescape :: "char \<Rightarrow> char option" where
  "unescape e = (if e = CHR ''/'' then Some e else map_of (map (\<lambda>(a, b). (b, a)) simple_escapes) e)"

text \<open>The second half of a surrogate pair, if the text goes on with one.\<close>

definition low_surrogate :: "string \<Rightarrow> (nat \<times> string) option" where
  "low_surrogate s =
     (case s of x # u # a # b # c # d # r \<Rightarrow>
        if x = CHR 0x5C \<and> u = CHR ''u'' then
          (case hex4 a b c d of Some n \<Rightarrow> if 0xDC00 \<le> n \<and> n \<le> 0xDFFF then Some (n, r) else None | None \<Rightarrow> None)
        else None
      | _ \<Rightarrow> None)"

lemma low_surrogate_shorter: "low_surrogate s = Some (n, r) \<Longrightarrow> length r < length s"
  by (auto simp: low_surrogate_def split: list.splits if_splits option.splits)

text \<open>A string, after its opening quote.\<close>

function (sequential) parse_str :: "string \<Rightarrow> (string \<times> string) option" where
  "parse_str [] = None"
| "parse_str (c # cs) =
     (if c = CHR 0x22 then Some ([], cs)
      else if c \<noteq> CHR 0x5C then (if (of_char c :: nat) < 32 then None else prepend [c] (parse_str cs))
      else case cs of
             [] \<Rightarrow> None
           | e # r \<Rightarrow>
               if e \<noteq> CHR ''u'' then (case unescape e of Some x \<Rightarrow> prepend [x] (parse_str r) | None \<Rightarrow> None)
               else (case r of
                       a # b # c # d # t \<Rightarrow>
                         (case hex4 a b c d of
                            None \<Rightarrow> None
                          | Some n \<Rightarrow>
                              (case (if 0xD800 \<le> n \<and> n \<le> 0xDBFF then low_surrogate t else None) of
                                 Some (m, u) \<Rightarrow> prepend (utf8 (0x10000 + 0x400 * (n - 0xD800) + (m - 0xDC00))) (parse_str u)
                               | None \<Rightarrow> prepend (utf8 n) (parse_str t)))
                     | _ \<Rightarrow> None))"
  by pat_completeness auto
termination
  by (relation "measure length") (auto dest: low_surrogate_shorter split: if_splits)

text \<open>A number, by the regular expression of the scanner.\<close>

definition fraction :: "string \<Rightarrow> string \<times> string" where
  "fraction s = (case s of c # r \<Rightarrow>
       if c = CHR ''.'' \<and> takeWhile is_decimal_digit r \<noteq> [] then (c # takeWhile is_decimal_digit r, dropWhile is_decimal_digit r) else ([], s)
     | [] \<Rightarrow> ([], s))"

definition exponent :: "string \<Rightarrow> string \<times> string" where
  "exponent s = (case s of c # r \<Rightarrow>
       let sg = (case r of x # _ \<Rightarrow> if x = CHR ''+'' \<or> x = CHR ''-'' then [x] else [] | [] \<Rightarrow> []);
           t = drop (length sg) r
       in if (c = CHR ''e'' \<or> c = CHR ''E'') \<and> takeWhile is_decimal_digit t \<noteq> []
          then (c # sg @ takeWhile is_decimal_digit t, dropWhile is_decimal_digit t) else ([], s)
     | [] \<Rightarrow> ([], s))"

definition parse_unsigned :: "(rat \<Rightarrow> rat) \<Rightarrow> bool \<Rightarrow> string \<Rightarrow> (py \<times> string) option" where
  "parse_unsigned fl neg s =
     (let ds = (case s of c # _ \<Rightarrow> if c = CHR ''0'' then [c] else takeWhile is_decimal_digit s | [] \<Rightarrow> []);
          (fr, r) = fraction (drop (length ds) s);
          (ex, r) = exponent r;
          sg = (if neg then ''-'' else [])
      in if ds = [] then None
         else if fr = [] \<and> ex = [] then Some (PInt ((if neg then - 1 else 1) * int (digits_value ds 0)), r)
         else map_option (\<lambda>q. (PFloat (fl q), r)) (read_numeral (sg @ ds @ fr @ ex)))"

definition parse_number :: "(rat \<Rightarrow> rat) \<Rightarrow> string \<Rightarrow> (py \<times> string) option" where
  "parse_number fl s =
     (case eat ''-'' s of
        Some t \<Rightarrow> (case eat ''Infinity'' t of Some r \<Rightarrow> Some (PNonFinite, r) | None \<Rightarrow> parse_unsigned fl True t)
      | None \<Rightarrow>
          (case (eat ''NaN'' s, eat ''Infinity'' s) of
             (Some r, _) \<Rightarrow> Some (PNonFinite, r)
           | (_, Some r) \<Rightarrow> Some (PNonFinite, r)
           | _ \<Rightarrow> parse_unsigned fl False s))"

text \<open>
  Values, items and members. The number bounds the nesting of the calls; twice the length of the text
  is always enough.
\<close>

fun parse_value :: "(rat \<Rightarrow> rat) \<Rightarrow> nat \<Rightarrow> string \<Rightarrow> (py \<times> string) option"
and parse_items :: "(rat \<Rightarrow> rat) \<Rightarrow> nat \<Rightarrow> string \<Rightarrow> py list \<Rightarrow> (py \<times> string) option"
and parse_members :: "(rat \<Rightarrow> rat) \<Rightarrow> nat \<Rightarrow> string \<Rightarrow> pydict \<Rightarrow> (py \<times> string) option" where
  "parse_value fl 0 s = None"
| "parse_value fl (Suc n) s =
     (case s of
        [] \<Rightarrow> None
      | c # cs \<Rightarrow>
          if c = CHR 0x22 then map_option (\<lambda>(t, r). (PStr t, r)) (parse_str cs)
          else if c = CHR ''{'' then
            (case eat ''}'' (skip_ws cs) of Some r \<Rightarrow> Some (PDict [], r) | None \<Rightarrow> parse_members fl n (skip_ws cs) [])
          else if c = CHR ''['' then
            (case eat '']'' (skip_ws cs) of Some r \<Rightarrow> Some (PList [], r) | None \<Rightarrow> parse_items fl n (skip_ws cs) [])
          else (case (eat ''null'' s, eat ''true'' s, eat ''false'' s) of
                  (Some r, _, _) \<Rightarrow> Some (PNone, r)
                | (_, Some r, _) \<Rightarrow> Some (PBool True, r)
                | (_, _, Some r) \<Rightarrow> Some (PBool False, r)
                | _ \<Rightarrow> parse_number fl s))"
| "parse_items fl 0 s acc = None"
| "parse_items fl (Suc n) s acc =
     (case parse_value fl n s of
        None \<Rightarrow> None
      | Some (v, r) \<Rightarrow>
          (case (eat '']'' (skip_ws r), eat '','' (skip_ws r)) of
             (Some t, _) \<Rightarrow> Some (PList (acc @ [v]), t)
           | (_, Some t) \<Rightarrow> parse_items fl n (skip_ws t) (acc @ [v])
           | _ \<Rightarrow> None))"
| "parse_members fl 0 s d = None"
| "parse_members fl (Suc n) s d =
     (case Option.bind (eat [CHR 0x22] s) parse_str of
        None \<Rightarrow> None
      | Some (k, r) \<Rightarrow>
          (case eat '':'' (skip_ws r) of
             None \<Rightarrow> None
           | Some t \<Rightarrow>
               (case parse_value fl n (skip_ws t) of
                  None \<Rightarrow> None
                | Some (v, r) \<Rightarrow>
                    (case (eat ''}'' (skip_ws r), eat '','' (skip_ws r)) of
                       (Some t, _) \<Rightarrow> Some (PDict (AList.update k v d), t)
                     | (_, Some t) \<Rightarrow> parse_members fl n (skip_ws t) (AList.update k v d)
                     | _ \<Rightarrow> None))))"

definition json_error :: py_error where
  "json_error = ValueError ''JSONDecodeError''"

definition json_loads :: "(rat \<Rightarrow> rat) \<Rightarrow> string \<Rightarrow> py result" where
  "json_loads fl s =
     (case parse_value fl (2 * length s) (skip_ws s) of
        Some (v, r) \<Rightarrow> if skip_ws r = [] then Inr v else Inl json_error
      | None \<Rightarrow> Inl json_error)"

subsection \<open>The bound on the calls\<close>

text \<open>Every parser consumes text, so that the length of the text bounds the calls.\<close>

lemma eat_Some: "eat p s = Some r \<longleftrightarrow> s = p @ r"
  by (induction p s rule: eat.induct) auto

lemma skip_ws_length: "length (skip_ws s) \<le> length s"
  by (simp add: skip_ws_def length_dropWhile_le)

lemma prepend_Some: "prepend t x = Some (u, r) \<longleftrightarrow> (\<exists>v. x = Some (v, r) \<and> u = t @ v)"
  by (auto simp: prepend_def)

lemma parse_str_length: "parse_str s = Some (t, r) \<Longrightarrow> length r < length s"
proof (induction s arbitrary: t r rule: measure_induct_rule [of length])
  case (less s)
  note IH = less(1)
  show ?case
  proof (cases s)
    case (Cons c cs)
    from less(2) Cons show ?thesis
      by (auto split: if_splits list.splits option.splits prod.splits simp: prepend_Some
        dest!: IH [rotated] low_surrogate_shorter)
  qed (use less in simp)
qed

lemma fraction_length: "length (snd (fraction s)) \<le> length s"
  by (auto simp: fraction_def length_dropWhile_le le_SucI split: list.splits)

lemma exponent_length: "length (snd (exponent s)) \<le> length s"
proof (cases s)
  case (Cons c r)
  have "length (dropWhile is_decimal_digit (drop k r)) \<le> Suc (length r)" for k
    using length_dropWhile_le [of is_decimal_digit "drop k r"] by simp
  with Cons show ?thesis by (simp add: exponent_def Let_def)
qed (simp add: exponent_def)

lemma parse_unsigned_length:
  assumes "parse_unsigned fl neg s = Some (v, r)"
  shows "length r < length s"
proof -
  let ?ds = "case s of c # _ \<Rightarrow> if c = CHR ''0'' then [c] else takeWhile is_decimal_digit s | [] \<Rightarrow> []"
  obtain fr r1 where f: "fraction (drop (length ?ds) s) = (fr, r1)" by fastforce
  obtain ex r2 where e: "exponent r1 = (ex, r2)" by fastforce
  have ds: "?ds \<noteq> []" and r: "r = r2" using assms by (auto simp: parse_unsigned_def f e Let_def split: if_splits)
  have "s \<noteq> []" using ds by (cases s) simp_all
  moreover have "length r2 \<le> length r1" using exponent_length [of r1] e by simp
  moreover have "length r1 \<le> length s - length ?ds" using fraction_length [of "drop (length ?ds) s"] f by simp
  ultimately show ?thesis using ds r by (cases "length ?ds") (auto split: list.splits)
qed

lemma parse_number_length: "parse_number fl s = Some (v, r) \<Longrightarrow> length r < length s"
  by (auto simp: parse_number_def eat_Some split: option.splits dest: parse_unsigned_length)

lemma parse_length_all:
  "(\<forall>s v r. parse_value fl n s = Some (v, r) \<longrightarrow> length r < length s) \<and>
   (\<forall>s acc v r. parse_items fl n s acc = Some (v, r) \<longrightarrow> length r < length s) \<and>
   (\<forall>s d v r. parse_members fl n s d = Some (v, r) \<longrightarrow> length r < length s)"
proof (induction n)
  case (Suc n)
  then have val: "parse_value fl n s = Some (v, r) \<Longrightarrow> length r < length s"
    and items: "parse_items fl n s acc = Some (v, r) \<Longrightarrow> length r < length s"
    and mems: "parse_members fl n s d = Some (v, r) \<Longrightarrow> length r < length s" for s v r acc d by blast+
  note shorter = less_le_trans [OF _ skip_ws_length]
  have eaten: "length t < length s" if "skip_ws s = c # t" for s c t using skip_ws_length [of s] that by simp
  show ?case
  proof (intro conjI allI impI)
    fix s v r assume "parse_value fl (Suc n) s = Some (v, r)"
    then show "length r < length s"
      by (cases s)
        (auto simp: eat_Some split: if_splits option.splits
          dest!: parse_str_length parse_number_length items mems eaten shorter)
  next
    fix s acc v r assume "parse_items fl (Suc n) s acc = Some (v, r)"
    then show "length r < length s"
      by (auto simp: eat_Some split: option.splits dest!: val items eaten shorter)
  next
    fix s d v r assume "parse_members fl (Suc n) s d = Some (v, r)"
    then show "length r < length s"
      by (auto simp: eat_Some split: option.splits bind_splits dest!: val mems eaten parse_str_length shorter)
  qed
qed simp

lemma parse_enough_all:
  "(\<forall>m s. 2 * length s \<le> n \<longrightarrow> 2 * length s \<le> m \<longrightarrow> parse_value fl n s = parse_value fl m s) \<and>
   (\<forall>m s acc. 2 * length s < n \<longrightarrow> 2 * length s < m \<longrightarrow> parse_items fl n s acc = parse_items fl m s acc) \<and>
   (\<forall>m s d. 2 * length s < n \<longrightarrow> 2 * length s < m \<longrightarrow> parse_members fl n s d = parse_members fl m s d)"
proof (induction n)
  case 0
  have "parse_value fl 0 [] = parse_value fl m []" for m by (cases m) simp_all
  then show ?case by simp
next
  case (Suc n)
  then have val: "2 * length s \<le> n \<Longrightarrow> 2 * length s \<le> m \<Longrightarrow> parse_value fl n s = parse_value fl m s"
    and items: "2 * length s < n \<Longrightarrow> 2 * length s < m \<Longrightarrow> parse_items fl n s acc = parse_items fl m s acc"
    and mems: "2 * length s < n \<Longrightarrow> 2 * length s < m \<Longrightarrow> parse_members fl n s d = parse_members fl m s d" for m s acc d by blast+
  show ?case
  proof (intro conjI allI impI)
    fix m and s :: string assume len: "2 * length s \<le> Suc n" "2 * length s \<le> m"
    show "parse_value fl (Suc n) s = parse_value fl m s"
    proof (cases s)
      case (Cons c cs)
      with len obtain k where m: "m = Suc k" by (cases m) simp_all
      with len Cons skip_ws_length [of cs] have "2 * length (skip_ws cs) < n" "2 * length (skip_ws cs) < k" by simp_all
      from items [OF this, of "[]"] mems [OF this, of "[]"] show ?thesis by (simp add: Cons m cong: option.case_cong if_cong)
    qed (cases m; simp)
  next
    fix m acc and s :: string assume len: "2 * length s < Suc n" "2 * length s < m"
    then obtain k where m: "m = Suc k" by (cases m) simp_all
    have v: "parse_value fl n s = parse_value fl k s" using val [of s k] len m by simp
    have "parse_items fl n (skip_ws t) a = parse_items fl k (skip_ws t) a" if "parse_value fl k s = Some (v, r)" "eat '','' (skip_ws r) = Some t" for v r t a
    proof -
      have "length r < length s" using parse_length_all that(1) by blast
      then have "length (skip_ws t) < length s" using that(2) skip_ws_length [of r] skip_ws_length [of t] by (simp add: eat_Some)
      with len m show ?thesis by (intro items) simp_all
    qed
    with v show "parse_items fl (Suc n) s acc = parse_items fl m s acc"
      by (simp add: m split: option.splits)
  next
    fix m d and s :: string assume len: "2 * length s < Suc n" "2 * length s < m"
    then obtain k where m: "m = Suc k" by (cases m) simp_all
    show "parse_members fl (Suc n) s d = parse_members fl m s d"
    proof (cases "Option.bind (eat [CHR 0x22] s) parse_str")
      case (Some kr)
      obtain key r where kr: "kr = (key, r)" by fastforce
      from Some kr obtain u where "s = CHR 0x22 # u" "parse_str u = Some (key, r)" by (auto simp: eat_Some bind_eq_Some_conv)
      then have r: "length r < length s" using parse_str_length by fastforce
      have v: "parse_value fl n (skip_ws t) = parse_value fl k (skip_ws t)" if "eat '':'' (skip_ws r) = Some t" for t
        using that len m r skip_ws_length [of r] skip_ws_length [of t] by (intro val) (simp_all add: eat_Some)
      have w: "parse_members fl n (skip_ws x) a = parse_members fl k (skip_ws x) a"
        if "eat '':'' (skip_ws r) = Some t" "parse_value fl k (skip_ws t) = Some (v, q)" "eat '','' (skip_ws q) = Some x" for t v q x a
      proof -
        have "length q < length (skip_ws t)" using parse_length_all that(2) by blast
        then have "length (skip_ws x) < length s" using that(1,3) r skip_ws_length [of r] skip_ws_length [of t] skip_ws_length [of q] skip_ws_length [of x]
          by (simp add: eat_Some)
        with len m show ?thesis by (intro mems) simp_all
      qed
      from Some kr v w show ?thesis by (simp add: m split: option.splits)
    qed (simp add: m)
  qed
qed

lemma parse_enough: "2 * length s \<le> n \<Longrightarrow> parse_value fl n s = parse_value fl (2 * length s) s"
  using parse_enough_all [of n fl] by blast

text \<open>The parsers with enough calls, and their equations.\<close>

definition pvalue :: "(rat \<Rightarrow> rat) \<Rightarrow> string \<Rightarrow> (py \<times> string) option" where
  "pvalue fl s = parse_value fl (2 * length s) s"

definition pitems :: "(rat \<Rightarrow> rat) \<Rightarrow> string \<Rightarrow> py list \<Rightarrow> (py \<times> string) option" where
  "pitems fl s acc = parse_items fl (Suc (2 * length s)) s acc"

definition pmembers :: "(rat \<Rightarrow> rat) \<Rightarrow> string \<Rightarrow> pydict \<Rightarrow> (py \<times> string) option" where
  "pmembers fl s d = parse_members fl (Suc (2 * length s)) s d"

lemma to_pvalue: "2 * length s \<le> n \<Longrightarrow> parse_value fl n s = pvalue fl s"
  unfolding pvalue_def by (rule parse_enough)

lemma to_pitems: "2 * length s < n \<Longrightarrow> parse_items fl n s acc = pitems fl s acc"
  unfolding pitems_def using parse_enough_all [of n fl] lessI [of "2 * length s"] by blast

lemma to_pmembers: "2 * length s < n \<Longrightarrow> parse_members fl n s d = pmembers fl s d"
  unfolding pmembers_def using parse_enough_all [of n fl] lessI [of "2 * length s"] by blast

lemma pvalue_Cons:
  "pvalue fl (c # cs) =
     (if c = CHR 0x22 then map_option (\<lambda>(t, r). (PStr t, r)) (parse_str cs)
      else if c = CHR ''{'' then
        (case eat ''}'' (skip_ws cs) of Some r \<Rightarrow> Some (PDict [], r) | None \<Rightarrow> pmembers fl (skip_ws cs) [])
      else if c = CHR ''['' then
        (case eat '']'' (skip_ws cs) of Some r \<Rightarrow> Some (PList [], r) | None \<Rightarrow> pitems fl (skip_ws cs) [])
      else (case (eat ''null'' (c # cs), eat ''true'' (c # cs), eat ''false'' (c # cs)) of
              (Some r, _, _) \<Rightarrow> Some (PNone, r)
            | (_, Some r, _) \<Rightarrow> Some (PBool True, r)
            | (_, _, Some r) \<Rightarrow> Some (PBool False, r)
            | _ \<Rightarrow> parse_number fl (c # cs)))"
proof -
  have "2 * length (skip_ws cs) < Suc (2 * length cs)" using skip_ws_length [of cs] by simp
  note fuel = to_pitems [OF this, of fl "[]"] to_pmembers [OF this, of fl "[]"]
  have "2 * length (c # cs) = Suc (Suc (2 * length cs))" by simp
  then have "pvalue fl (c # cs) = parse_value fl (Suc (Suc (2 * length cs))) (c # cs)" by (simp only: pvalue_def)
  then show ?thesis by (simp only: parse_value.simps list.case fuel)
qed

lemma pitems_step:
  assumes "pvalue fl s = Some (v, r)"
  shows "eat '']'' (skip_ws r) = Some t \<Longrightarrow> pitems fl s acc = Some (PList (acc @ [v]), t)"
    and "eat '','' (skip_ws r) = Some t \<Longrightarrow> pitems fl s acc = pitems fl (skip_ws t) (acc @ [v])"
proof -
  have v: "parse_value fl (2 * length s) s = Some (v, r)" using assms by (simp add: pvalue_def)
  then show "eat '']'' (skip_ws r) = Some t \<Longrightarrow> pitems fl s acc = Some (PList (acc @ [v]), t)" by (simp add: pitems_def)
  assume t: "eat '','' (skip_ws r) = Some t"
  have "length r < length s" using parse_length_all v by blast
  with t have "length (skip_ws t) < length s" using skip_ws_length [of r] skip_ws_length [of t] by (simp add: eat_Some)
  with v t to_pitems [of "skip_ws t" "2 * length s" fl] show "pitems fl s acc = pitems fl (skip_ws t) (acc @ [v])"
    by (simp add: pitems_def [of fl s] eat_Some)
qed

lemma pmembers_step:
  assumes "parse_str u = Some (k, q)" and "eat '':'' (skip_ws q) = Some w" and "pvalue fl (skip_ws w) = Some (v, r)"
  shows "eat ''}'' (skip_ws r) = Some t \<Longrightarrow> pmembers fl (CHR 0x22 # u) d = Some (PDict (AList.update k v d), t)"
    and "eat '','' (skip_ws r) = Some t \<Longrightarrow> pmembers fl (CHR 0x22 # u) d = pmembers fl (skip_ws t) (AList.update k v d)"
proof -
  let ?n = "Suc (Suc (2 * length u))"
  have q: "length q < length u" using assms(1) by (rule parse_str_length)
  have w: "length (skip_ws w) < length u" using assms(2) q skip_ws_length [of q] skip_ws_length [of w] by (simp add: eat_Some)
  with assms(3) to_pvalue [of "skip_ws w" ?n fl] have v: "parse_value fl ?n (skip_ws w) = Some (v, r)" by simp
  show "eat ''}'' (skip_ws r) = Some t \<Longrightarrow> pmembers fl (CHR 0x22 # u) d = Some (PDict (AList.update k v d), t)"
    using v assms(1,2) by (simp add: pmembers_def)
  assume t: "eat '','' (skip_ws r) = Some t"
  have "length r < length (skip_ws w)" using parse_length_all v by blast
  with t w have "2 * length (skip_ws t) < ?n" using skip_ws_length [of r] skip_ws_length [of t] by (simp add: eat_Some)
  from to_pmembers [OF this] v t assms(1,2) show "pmembers fl (CHR 0x22 # u) d = pmembers fl (skip_ws t) (AList.update k v d)"
    by (simp add: pmembers_def [of fl "CHR 0x22 # u"] eat_Some)
qed

subsection \<open>The round trip\<close>

text \<open>The values whose text gives them back: no floats, and each key of a dict once.\<close>

fun json_ok :: "py \<Rightarrow> bool" where
  "json_ok (PFloat r) = False"
| "json_ok PNonFinite = False"
| "json_ok (PList xs) = list_all json_ok xs"
| "json_ok (PDict d) = (distinct (map fst d) \<and> list_all (\<lambda>(k, v). json_ok v) d)"
| "json_ok v = True"

lemma hex_value_digit: "n < 16 \<Longrightarrow> hex_value (hex_digit n) = Some n"
  by (auto simp: hex_value_def hex_digit_def Let_def of_char_of)

lemma simple_escape:
  assumes "map_of simple_escapes c = Some e"
  shows "e \<noteq> CHR ''u'' \<and> unescape e = Some c"
proof -
  have "(c, e) \<in> set simple_escapes" using assms by (rule map_of_SomeD)
  then show ?thesis by (auto simp: simple_escapes_def unescape_def)
qed

lemma parse_control:
  assumes "(of_char c :: nat) < 32"
  shows "parse_str (CHR 0x5C # ''u00'' @ hex_digit (of_char c div 16) # hex_digit (of_char c mod 16) # t) = prepend [c] (parse_str t)"
proof -
  have z: "hex_value (CHR ''0'') = Some 0" by (simp add: hex_value_def)
  have "hex4 (CHR ''0'') (CHR ''0'') (hex_digit (of_char c div 16)) (hex_digit (of_char c mod 16)) = Some (of_char c)"
    using assms by (simp add: hex4_def z hex_value_digit div_less_iff_less_mult)
  moreover have "utf8 (of_char c) = [c]" using assms by (simp add: utf8_def)
  ultimately show ?thesis using assms by simp
qed

lemma parse_escape: "parse_str (escape_char c @ t) = prepend [c] (parse_str t)"
proof (cases "map_of simple_escapes c")
  case (Some e)
  with simple_escape [OF Some] show ?thesis by (simp add: escape_char_def)
next
  case None
  then have "c \<noteq> CHR 0x22" "c \<noteq> CHR 0x5C" by (auto simp: simple_escapes_def split: if_splits)
  with None parse_control [of c t] show ?thesis by (simp add: escape_char_def Let_def)
qed

lemma parse_escapes: "parse_str (concat (map escape_char s) @ CHR 0x22 # r) = Some (s, r)"
  by (induction s) (simp_all add: parse_escape prepend_def)

lemma decimal_first: "decimal n = ''0'' \<or> (\<exists>c cs. decimal n = c # cs \<and> c \<noteq> CHR ''0'')"
proof (induction n rule: decimal.induct)
  case (1 n)
  show ?case
  proof (cases "n < 10")
    case True
    have "digit n = CHR ''0'' \<longleftrightarrow> n = 0"
    proof -
      have "CHR ''0'' = digit 0" by code_simp
      then show ?thesis using of_char_digit [OF True] of_char_digit [of 0] by fastforce
    qed
    with True show ?thesis by (subst decimal.simps) (auto simp: decimal.simps [of n])
  next
    case False
    then have "decimal (n div 10) \<noteq> ''0''" using read_digits_decimal [of "n div 10"] by (auto simp: read_digits_def)
    with False 1 show ?thesis by (auto simp: decimal.simps [of n])
  qed
qed

definition num_end :: "string \<Rightarrow> bool" where
  "num_end r \<longleftrightarrow> (case r of [] \<Rightarrow> True | c # _ \<Rightarrow> c \<in> {CHR '','', CHR '']'', CHR ''}''})"

lemma digits_value_read: "digits_value s n = foldl (\<lambda>n c. 10 * n + (of_char c - 48)) n s"
  by (induction s arbitrary: n) simp_all

lemma takeWhile_digits:
  assumes "list_all is_decimal_digit ds" and "num_end r"
  shows "takeWhile is_decimal_digit (ds @ r) = ds"
proof -
  have "takeWhile is_decimal_digit r = []" using assms(2) by (cases r) (auto simp: num_end_def is_decimal_digit_def)
  with assms(1) show ?thesis by (simp add: takeWhile_append2 list_all_iff)
qed

lemma decimal_nonempty: "decimal n \<noteq> []"
  by (simp add: decimal.simps [of n])

lemma parse_decimal:
  assumes "num_end r"
  shows "parse_unsigned fl neg (decimal n @ r) = Some (PInt ((if neg then - 1 else 1) * int n), r)"
proof -
  have d: "list_all is_decimal_digit (decimal n)" by (simp add: list_all_iff decimal_digits)
  have r: "fraction r = ([], r)" "exponent r = ([], r)" using assms by (cases r; auto simp: fraction_def exponent_def num_end_def Let_def)+
  have ds: "(case decimal n @ r of [] \<Rightarrow> [] | c # _ \<Rightarrow> if c = CHR ''0'' then [c] else takeWhile is_decimal_digit (decimal n @ r)) = decimal n"
    using decimal_first [of n] takeWhile_digits [OF d assms] by auto
  have v: "digits_value (decimal n) 0 = n" using read_digits_decimal [of n] by (simp add: digits_value_read read_digits_def)
  show ?thesis unfolding parse_unsigned_def ds by (simp add: r v decimal_nonempty)
qed

lemma parse_int:
  assumes "num_end r"
  shows "parse_number fl (int_str i @ r) = Some (PInt i, r)"
proof (cases "i < 0")
  case True
  obtain c cs where c: "decimal (nat (- i)) = c # cs" using decimal_nonempty by (cases "decimal (nat (- i))") auto
  then have "is_decimal_digit c" using decimal_digits [of c "nat (- i)"] by simp
  then have "eat ''Infinity'' (decimal (nat (- i)) @ r) = None" by (auto simp: c is_decimal_digit_def)
  with True parse_decimal [OF assms, of fl True "nat (- i)"] show ?thesis by (simp add: parse_number_def int_str_def)
next
  case False
  obtain c cs where c: "decimal (nat i) = c # cs" using decimal_nonempty by (cases "decimal (nat i)") auto
  then have "is_decimal_digit c" using decimal_digits [of c "nat i"] by simp
  then have "eat ''-'' (decimal (nat i) @ r) = None" "eat ''Infinity'' (decimal (nat i) @ r) = None" "eat ''NaN'' (decimal (nat i) @ r) = None"
    by (auto simp: c is_decimal_digit_def)
  with False parse_decimal [OF assms, of fl False "nat i"] show ?thesis by (simp add: parse_number_def int_str_def)
qed

lemma int_str_first: "\<exists>c cs. int_str i = c # cs \<and> (c = CHR ''-'' \<or> is_decimal_digit c)"
proof -
  obtain c cs where c: "decimal (nat i) = c # cs" using decimal_nonempty by (cases "decimal (nat i)") auto
  then have "is_decimal_digit c" using decimal_digits [of c "nat i"] by simp
  with c show ?thesis by (simp add: int_str_def)
qed

text \<open>No text of a value starts with white space or a closing bracket.\<close>

lemma dumps_first:
  assumes "json_ok v"
  obtains c cs where "json_dumps sp rf v = c # cs" "\<not> is_ws c" "c \<noteq> CHR '']''" "c \<noteq> CHR ''}''"
proof (cases v)
  case (PInt i)
  with int_str_first [of i] obtain c cs where "json_dumps sp rf v = c # cs" "c = CHR ''-'' \<or> is_decimal_digit c" by auto
  then show ?thesis by (intro that) (auto simp: is_ws_def is_decimal_digit_def)
next
  case (PBool b)
  then show ?thesis by (cases b) (auto intro!: that simp: is_ws_def)
qed (use assms in \<open>auto intro!: that simp: is_ws_def json_string_def\<close>)

lemma skip_ws_dumps: "json_ok v \<Longrightarrow> skip_ws (json_dumps sp rf v @ r) = json_dumps sp rf v @ r"
  by (rule dumps_first [of v sp rf]) (auto simp: skip_ws_def)

lemma skip_ws_Cons: "\<not> is_ws c \<Longrightarrow> skip_ws (c # r) = c # r"
  by (simp add: skip_ws_def)

lemma skip_ws_sep: "list_all is_ws sp \<Longrightarrow> skip_ws (sp @ t) = skip_ws t"
  by (induction sp) (simp_all add: skip_ws_def)

lemma num_end_Cons: "num_end (CHR '','' # r)" "num_end (CHR '']'' # r)" "num_end (CHR ''}'' # r)"
  by (simp_all add: num_end_def)

lemma parse_items_dumps:
  assumes sp: "list_all is_ws sp" and a: "list_all json_ok (x # xs)"
    and b: "\<And>y r. y \<in> set (x # xs) \<Longrightarrow> num_end r \<Longrightarrow> pvalue fl (json_dumps sp rf y @ r) = Some (y, r)"
  shows "pitems fl (join (CHR '','' # sp) (map (json_dumps sp rf) (x # xs)) @ '']'' @ r) acc = Some (PList (acc @ x # xs), r)"
  using a b
proof (induction xs arbitrary: x acc)
  case Nil
  have "pvalue fl (json_dumps sp rf x @ CHR '']'' # r) = Some (x, CHR '']'' # r)" using Nil(2) num_end_Cons by simp
  from pitems_step(1) [OF this] show ?case by (simp add: skip_ws_Cons is_ws_def)
next
  case (Cons y ys)
  let ?t = "join (CHR '','' # sp) (map (json_dumps sp rf) (y # ys)) @ '']'' @ r"
  have v: "pvalue fl (json_dumps sp rf x @ CHR '','' # sp @ ?t) = Some (x, CHR '','' # sp @ ?t)"
    using Cons.prems(2) num_end_Cons by simp
  have "skip_ws (sp @ ?t) = ?t"
  proof -
    have "json_ok y" using Cons.prems(1) by simp
    then obtain c cs where "json_dumps sp rf y = c # cs" "\<not> is_ws c" by (rule dumps_first)
    then have "\<exists>u. ?t = c # u" by (cases ys) auto
    with \<open>\<not> is_ws c\<close> show ?thesis unfolding skip_ws_sep [OF sp] by (auto simp: skip_ws_def)
  qed
  with pitems_step(2) [OF v, of "sp @ ?t" acc]
  have "pitems fl (json_dumps sp rf x @ CHR '','' # sp @ ?t) acc = pitems fl ?t (acc @ [x])"
    by (simp add: skip_ws_Cons is_ws_def)
  also have "\<dots> = Some (PList (acc @ x # y # ys), r)" using Cons.IH [of y "acc @ [x]"] Cons.prems by simp
  finally show ?case by simp
qed

lemma parse_members_dumps:
  assumes sp: "list_all is_ws sp" and a: "list_all (\<lambda>(k, v). json_ok v) (p # ps)" "distinct (map fst d @ map fst (p # ps))"
    and b: "\<And>k v r. (k, v) \<in> set (p # ps) \<Longrightarrow> num_end r \<Longrightarrow> pvalue fl (json_dumps sp rf v @ r) = Some (v, r)"
  shows "pmembers fl (join (CHR '','' # sp) (map (\<lambda>(k, v). json_string k @ CHR '':'' # sp @ json_dumps sp rf v) (p # ps)) @ ''}'' @ r) d = Some (PDict (d @ p # ps), r)"
  using a b
proof (induction ps arbitrary: p d)
  case Nil
  obtain k v where p: "p = (k, v)" by fastforce
  let ?w = "json_dumps sp rf v @ CHR ''}'' # r"
  have v: "pvalue fl (skip_ws (sp @ ?w)) = Some (v, CHR ''}'' # r)"
    using Nil.prems(1,3) num_end_Cons skip_ws_dumps [of v sp rf] by (simp add: p skip_ws_sep [OF sp])
  have "pmembers fl (CHR 0x22 # concat (map escape_char k) @ CHR 0x22 # CHR '':'' # sp @ ?w) d = Some (PDict (AList.update k v d), r)"
    by (rule pmembers_step(1) [OF parse_escapes _ v]) (simp_all add: skip_ws_Cons is_ws_def)
  moreover have "AList.update k v d = d @ [(k, v)]" using Nil.prems(2) by (intro update_new) (auto simp: p)
  ultimately show ?case by (simp add: p json_string_def)
next
  case (Cons q qs)
  obtain k v where p: "p = (k, v)" by fastforce
  let ?t = "join (CHR '','' # sp) (map (\<lambda>(k, v). json_string k @ CHR '':'' # sp @ json_dumps sp rf v) (q # qs)) @ ''}'' @ r"
  let ?w = "json_dumps sp rf v @ CHR '','' # sp @ ?t"
  have "skip_ws (sp @ ?w) = ?w" using Cons.prems(1) skip_ws_dumps [of v sp rf] by (simp add: p skip_ws_sep [OF sp])
  moreover have "pvalue fl ?w = Some (v, CHR '','' # sp @ ?t)" by (rule Cons.prems(3) [of k]) (simp_all add: p num_end_Cons)
  ultimately have v: "pvalue fl (skip_ws (sp @ ?w)) = Some (v, CHR '','' # sp @ ?t)" by (simp only:)
  have "\<exists>u. ?t = CHR 0x22 # u" by (cases qs) (auto simp: json_string_def split: prod.splits)
  then have ws: "skip_ws (sp @ ?t) = ?t" unfolding skip_ws_sep [OF sp] by (auto simp: skip_ws_def is_ws_def)
  have new: "AList.update k v d = d @ [(k, v)]" using Cons.prems(2) by (intro update_new) (auto simp: p)
  have "pmembers fl (CHR 0x22 # concat (map escape_char k) @ CHR 0x22 # CHR '':'' # sp @ ?w) d =
      pmembers fl (skip_ws (sp @ ?t)) (AList.update k v d)"
    by (rule pmembers_step(2) [OF parse_escapes _ v]) (simp_all add: skip_ws_Cons is_ws_def)
  also have "\<dots> = Some (PDict (d @ p # q # qs), r)"
  proof -
    have "list_all (\<lambda>(k, v). json_ok v) (q # qs)" "distinct (map fst (d @ [(k, v)]) @ map fst (q # qs))"
      using Cons.prems(1,2) by (auto simp: p)
    moreover have "pvalue fl (json_dumps sp rf w @ u) = Some (w, u)" if "(j, w) \<in> set (q # qs)" "num_end u" for j w u
      by (rule Cons.prems(3) [of j]) (use that in simp_all)
    ultimately show ?thesis unfolding ws new p using Cons.IH [of q "d @ [(k, v)]"] by simp
  qed
  finally show ?case by (simp add: p json_string_def)
qed

lemma pvalue_dumps:
  assumes sp: "list_all is_ws sp" and a: "json_ok v" "num_end r"
  shows "pvalue fl (json_dumps sp rf v @ r) = Some (v, r)"
  using a
proof (induction v arbitrary: r)
  case (PInt i)
  obtain c cs where c: "int_str i = c # cs" "c = CHR ''-'' \<or> is_decimal_digit c" using int_str_first by blast
  then have "c \<notin> {CHR 0x22, CHR ''{'', CHR ''['', CHR ''n'', CHR ''t'', CHR ''f''}" by (auto simp: is_decimal_digit_def)
  with c(1) parse_int [OF PInt(2), of fl i] show ?case by (simp add: pvalue_Cons)
next
  case (PStr s)
  then show ?case by (simp add: json_string_def pvalue_Cons parse_escapes)
next
  case (PList xs)
  show ?case
  proof (cases xs)
    case (Cons x ys)
    let ?t = "join (CHR '','' # sp) (map (json_dumps sp rf) xs) @ '']'' @ r"
    have ok: "list_all json_ok (x # ys)" using PList(2) Cons by simp
    then have "json_ok x" by simp
    then obtain c cs where c: "json_dumps sp rf x = c # cs" "\<not> is_ws c" "c \<noteq> CHR '']''" by (rule dumps_first [of x sp rf])
    then have "\<exists>u. ?t = c # u" unfolding Cons by (cases ys) auto
    with c(2,3) have "skip_ws ?t = ?t" "eat '']'' ?t = None" by (auto simp: skip_ws_def)
    moreover have "pvalue fl (json_dumps sp rf y @ u) = Some (y, u)" if "y \<in> set (x # ys)" "num_end u" for y u
      by (rule PList(1)) (use that ok Cons in \<open>auto simp: list_all_iff\<close>)
    then have "pitems fl ?t [] = Some (PList xs, r)"
      using parse_items_dumps [OF sp ok, of fl rf r "[]"] unfolding Cons by simp
    ultimately show ?thesis by (simp add: pvalue_Cons)
  qed (simp add: pvalue_Cons skip_ws_def is_ws_def)
next
  case (PDict d)
  show ?case
  proof (cases d)
    case (Cons p ps)
    let ?t = "join (CHR '','' # sp) (map (\<lambda>(k, v). json_string k @ CHR '':'' # sp @ json_dumps sp rf v) d) @ ''}'' @ r"
    have ok: "list_all (\<lambda>(k, v). json_ok v) (p # ps)" "distinct (map fst [] @ map fst (p # ps))" using PDict(2) Cons by simp_all
    have "\<exists>u. ?t = CHR 0x22 # u" unfolding Cons by (cases ps) (auto simp: json_string_def split: prod.splits)
    then have "skip_ws ?t = ?t" "eat ''}'' ?t = None" by (auto simp: skip_ws_def is_ws_def)
    moreover have "pvalue fl (json_dumps sp rf v @ r) = Some (v, r)" if "(k, v) \<in> set (p # ps)" "num_end r" for k v r
      using PDict(1) [of "(k, v)" v r] that ok(1) Cons by (auto simp: list_all_iff)
    then have "pmembers fl ?t [] = Some (PDict d, r)"
      using parse_members_dumps [OF sp ok, of fl rf r] unfolding Cons by simp
    ultimately show ?thesis by (simp add: pvalue_Cons)
  qed (simp add: pvalue_Cons skip_ws_def is_ws_def)
qed (auto simp: pvalue_Cons)

lemma json_loads_dumps: "list_all is_ws sp \<Longrightarrow> json_ok v \<Longrightarrow> json_loads fl (json_dumps sp rf v) = Inr v"
  using pvalue_dumps [of sp v "[]" fl rf] skip_ws_dumps [of v sp rf "[]"] to_pvalue [of "json_dumps sp rf v" "2 * length (json_dumps sp rf v)" fl]
  by (simp add: json_loads_def num_end_def skip_ws_def)

end
