(* ===== verification/Bot_Crypto.thy ===== *)
theory Bot_Crypto
  imports Json
begin

text \<open>
  Encryption of bot credentials and account checkpoints, \<^verbatim>\<open>utils/bot_gateway_crypto.py\<close>, with the
  \<open>base64\<close> it uses. The \<open>cryptography\<close> package is a parameter: HKDF, HMAC and AES-GCM, and so are the
  configured master key and the random initialisation vector. A string stands for its UTF-8 bytes.
  The messages of errors leave out the values they quote.
\<close>

subsection \<open>Base64\<close>

definition b64_char :: "nat \<Rightarrow> char" where
  "b64_char n = (if n < 26 then char_of (65 + n) else if n < 52 then char_of (71 + n) else if n < 62 then char_of (n - 4)
     else if n = 62 then CHR ''+'' else CHR ''/'')"

definition b64_value :: "char \<Rightarrow> nat option" where
  "b64_value c =
     (let n = of_char c
      in if 65 \<le> n \<and> n \<le> 90 then Some (n - 65) else if 97 \<le> n \<and> n \<le> 122 then Some (n - 71)
         else if 48 \<le> n \<and> n \<le> 57 then Some (n + 4) else if c = CHR ''+'' then Some 62 else if c = CHR ''/'' then Some 63 else None)"

definition quad :: "nat \<Rightarrow> nat \<Rightarrow> nat \<Rightarrow> string" where
  "quad a b c = [b64_char (a div 4), b64_char (a mod 4 * 16 + b div 16), b64_char (b mod 16 * 4 + c div 64), b64_char (c mod 64)]"

fun b64encode :: "string \<Rightarrow> string" where
  "b64encode [] = []"
| "b64encode [a] = take 2 (quad (of_char a) 0 0) @ ''==''"
| "b64encode [a, b] = take 3 (quad (of_char a) (of_char b) 0) @ ''=''"
| "b64encode (a # b # c # r) = quad (of_char a) (of_char b) (of_char c) @ b64encode r"

text \<open>\<open>b64decode(s, validate=True)\<close>, None where it raises.\<close>

fun b64decode :: "string \<Rightarrow> string option" where
  "b64decode [] = Some []"
| "b64decode (a # b # c # d # r) =
     (case (b64_value a, b64_value b) of
        (Some x, Some y) \<Rightarrow>
          if c = CHR ''='' then (if d = CHR ''='' \<and> r = [] then Some [char_of (x * 4 + y div 16)] else None)
          else (case b64_value c of
                  None \<Rightarrow> None
                | Some z \<Rightarrow>
                    if d = CHR ''='' then (if r = [] then Some [char_of (x * 4 + y div 16), char_of (y mod 16 * 16 + z div 4)] else None)
                    else (case (b64_value d, b64decode r) of
                            (Some w, Some t) \<Rightarrow> Some (char_of (x * 4 + y div 16) # char_of (y mod 16 * 16 + z div 4) # char_of (z mod 4 * 64 + w) # t)
                          | _ \<Rightarrow> None))
      | _ \<Rightarrow> None)"
| "b64decode _ = None"

lemma b64_value_char: "n < 64 \<Longrightarrow> b64_value (b64_char n) = Some n \<and> b64_char n \<noteq> CHR ''=''"
proof -
  assume n: "n < 64"
  have eq: "b64_value (CHR ''='') = None" by (simp add: b64_value_def)
  consider "n < 26" | "26 \<le> n" "n < 52" | "52 \<le> n" "n < 62" | "n = 62" | "n = 63" using n by linarith
  then have "b64_value (b64_char n) = Some n" by cases (auto simp: b64_value_def b64_char_def Let_def of_char_of)
  with eq show ?thesis by (metis option.distinct(1))
qed

lemma sextets:
  fixes a b c :: nat
  assumes "a < 256" "b < 256" "c < 256"
  shows "a div 4 < 64" "a mod 4 * 16 + b div 16 < 64" "b mod 16 * 4 + c div 64 < 64" "c mod 64 < 64"
    "a div 4 * 4 + (a mod 4 * 16 + b div 16) div 16 = a"
    "(a mod 4 * 16 + b div 16) mod 16 * 16 + (b mod 16 * 4 + c div 64) div 4 = b"
    "(b mod 16 * 4 + c div 64) mod 4 * 64 + c mod 64 = c"
proof -
  have b: "b div 16 < 16" and c: "c div 64 < 4" using assms by simp_all
  show "a div 4 < 64" "c mod 64 < 64" using assms by simp_all
  have "a mod 4 < 4" "b mod 16 < 16" by simp_all
  with b c show "a mod 4 * 16 + b div 16 < 64" "b mod 16 * 4 + c div 64 < 64" by linarith+
  have "(a mod 4 * 16 + b div 16) div 16 = a mod 4" "(a mod 4 * 16 + b div 16) mod 16 = b div 16"
    "(b mod 16 * 4 + c div 64) div 4 = b mod 16" "(b mod 16 * 4 + c div 64) mod 4 = c div 64" using b c by simp_all
  then show "a div 4 * 4 + (a mod 4 * 16 + b div 16) div 16 = a"
    "(a mod 4 * 16 + b div 16) mod 16 * 16 + (b mod 16 * 4 + c div 64) div 4 = b"
    "(b mod 16 * 4 + c div 64) mod 4 * 64 + c mod 64 = c" by simp_all
qed

lemma b64decode_encode: "b64decode (b64encode s) = Some s"
proof (induction s rule: b64encode.induct)
  case (2 a)
  note s = sextets [OF nat_of_char_less_256 [of a], of 0 0]
  from s(1,2,5) b64_value_char [OF s(1)] b64_value_char [OF s(2)] show ?case by (simp add: quad_def)
next
  case (3 a b)
  note s = sextets [OF nat_of_char_less_256 [of a] nat_of_char_less_256 [of b], of 0]
  from s(5,6) b64_value_char [OF s(1)] b64_value_char [OF s(2)] b64_value_char [OF s(3)] show ?case by (simp add: quad_def)
next
  case (4 a b c r)
  note s = sextets [OF nat_of_char_less_256 [of a] nat_of_char_less_256 [of b] nat_of_char_less_256 [of c]]
  from s(5-7) 4 b64_value_char [OF s(1)] b64_value_char [OF s(2)] b64_value_char [OF s(3)] b64_value_char [OF s(4)]
  show ?case by (simp add: quad_def)
qed simp

subsection \<open>UTF-8\<close>

definition is_cont :: "char \<Rightarrow> bool" where
  "is_cont c \<longleftrightarrow> (let n = of_char c :: nat in 128 \<le> n \<and> n \<le> 191)"

text \<open>Whether bytes decode: no overlong forms, no surrogates, nothing beyond the last code point.\<close>

fun utf8_ok :: "string \<Rightarrow> bool" where
  "utf8_ok [] = True"
| "utf8_ok (a # r) =
     (let n = of_char a :: nat
      in if n < 128 then utf8_ok r
         else if 194 \<le> n \<and> n \<le> 223 then (case r of b # r \<Rightarrow> is_cont b \<and> utf8_ok r | _ \<Rightarrow> False)
         else if 224 \<le> n \<and> n \<le> 239 then
           (case r of b # c # r \<Rightarrow> is_cont b \<and> is_cont c \<and> (n = 224 \<longrightarrow> (of_char b :: nat) \<ge> 160) \<and> (n = 237 \<longrightarrow> (of_char b :: nat) < 160) \<and> utf8_ok r
            | _ \<Rightarrow> False)
         else if 240 \<le> n \<and> n \<le> 244 then
           (case r of b # c # d # r \<Rightarrow> is_cont b \<and> is_cont c \<and> is_cont d \<and> (n = 240 \<longrightarrow> (of_char b :: nat) \<ge> 144) \<and> (n = 244 \<longrightarrow> (of_char b :: nat) < 144) \<and> utf8_ok r
            | _ \<Rightarrow> False)
         else False)"

subsection \<open>Keys\<close>

text \<open>
  \<open>hkdf info key\<close>, \<open>hmac key message\<close> in hexadecimal, \<open>seal key iv plaintext aad\<close>, \<open>unseal key iv data aad\<close>,
  which is None where the package raises.
\<close>

record crypto =
  k_master :: string
  k_hkdf :: "string \<Rightarrow> string \<Rightarrow> string"
  k_hmac :: "string \<Rightarrow> string \<Rightarrow> string"
  k_seal :: "string \<Rightarrow> string \<Rightarrow> string \<Rightarrow> string \<Rightarrow> string"
  k_unseal :: "string \<Rightarrow> string \<Rightarrow> string \<Rightarrow> string \<Rightarrow> string option"
  k_float_repr :: "py \<Rightarrow> string"
  k_fl :: "rat \<Rightarrow> rat"
  k_to_str :: "py \<Rightarrow> string"

definition CREDENTIAL_SCHEMA_VERSION :: int where
  "CREDENTIAL_SCHEMA_VERSION = 1"

definition CREDENTIAL_KEY_BYTES :: nat where
  "CREDENTIAL_KEY_BYTES = 32"

definition CREDENTIAL_IV_BYTES :: nat where
  "CREDENTIAL_IV_BYTES = 12"

definition CHECKPOINT_SCHEMA_VERSION :: int where
  "CHECKPOINT_SCHEMA_VERSION = 1"

fun from_hex :: "string \<Rightarrow> string option" where
  "from_hex [] = Some []"
| "from_hex (a # b # r) =
     (case (hex_value a, hex_value b, from_hex r) of (Some x, Some y, Some t) \<Rightarrow> Some (char_of (16 * x + y) # t) | _ \<Rightarrow> None)"
| "from_hex [a] = None"

definition bot_gateway_credential_master_key :: "crypto \<Rightarrow> string result" where
  "bot_gateway_credential_master_key env =
     (let val = py_strip (k_master env)
      in if val = [] then Inl (ValueError ''BOT_GATEWAY_CREDENTIAL_MASTER_KEY is not configured'')
         else case (if length val = 64 \<and> list_all (\<lambda>c. hex_value c \<noteq> None) val then from_hex val else b64decode val) of
                None \<Rightarrow> Inl (ValueError ''BOT_GATEWAY_CREDENTIAL_MASTER_KEY must be 64 hex characters or base64'')
              | Some key \<Rightarrow>
                  if length key \<noteq> CREDENTIAL_KEY_BYTES
                  then Inl (ValueError ''BOT_GATEWAY_CREDENTIAL_MASTER_KEY must decode to exactly 32 bytes'') else Inr key)"

text \<open>A key version is the text it is printed as, with its value.\<close>

definition derive_key :: "crypto \<Rightarrow> string \<Rightarrow> py \<Rightarrow> string result" where
  "derive_key env purpose key_version =
     (if \<not> py_eq key_version (PInt 1) then Inl (ValueError ''unsupported credential key version'')
      else bind_result (bot_gateway_credential_master_key env) (\<lambda>key.
        Inr (k_hkdf env (''ryanai-bot-gateway:'' @ purpose @ '':v'' @ py_str (k_to_str env) key_version) key)))"

subsection \<open>Account identities\<close>

definition normalize_channel :: "py \<Rightarrow> string result" where
  "normalize_channel channel =
     (let normalized = (case channel of PStr s \<Rightarrow> map ascii_lower (py_strip s) | _ \<Rightarrow> [])
      in if normalized \<notin> {''wechat'', ''qq''} then Inl (ValueError ''unsupported bot channel'') else Inr normalized)"

definition normalize_account_key :: "py \<Rightarrow> py \<Rightarrow> string result" where
  "normalize_account_key channel account_key =
     bind_result (normalize_channel channel) (\<lambda>normalized_channel.
       case account_key of
         PStr s \<Rightarrow>
           (let normalized = py_strip s
            in if normalized = [] then Inl (ValueError ''account identity key must not be empty'')
               else if normalized_channel = ''qq'' \<and> list_all is_decimal_digit normalized then Inr (decimal (digits_value normalized 0))
               else Inr normalized)
       | _ \<Rightarrow> Inl (ValueError ''account identity key must be a string''))"

definition credential_account_digest :: "crypto \<Rightarrow> py \<Rightarrow> py \<Rightarrow> string result" where
  "credential_account_digest env channel account_key =
     bind_result (normalize_channel channel) (\<lambda>channel.
     bind_result (normalize_account_key (PStr channel) account_key) (\<lambda>account_key.
     bind_result (derive_key env ''account-digest'' (PInt 1)) (\<lambda>key.
       Inr (k_hmac env key (''ryanai-bot-credential-digest-v1:'' @ channel @ '':'' @ account_key)))))"

definition extract_account_key :: "py \<Rightarrow> py \<Rightarrow> string result" where
  "extract_account_key channel credentials =
     bind_result (normalize_channel channel) (\<lambda>channel.
       case credentials of
         PDict d \<Rightarrow>
           (let account_key = (if channel = ''wechat'' then dget d ''accountId'' (pget d ''account_id'') else dget d ''app_id'' (pget d ''appId''))
            in if \<not> truthy account_key \<or> str_of account_key = None
               then Inl (ValueError ''credentials are missing the account identity key'')
               else normalize_account_key (PStr channel) account_key)
       | _ \<Rightarrow> Inl (ValueError ''credentials must be a JSON object''))"

subsection \<open>Credentials\<close>

definition credential_aad :: "crypto \<Rightarrow> string \<Rightarrow> py \<Rightarrow> py \<Rightarrow> string result" where
  "credential_aad env connection_id channel key_version =
     bind_result (normalize_channel channel) (\<lambda>channel.
       Inr (''ryanai-bot-credential-v1:'' @ connection_id @ '':'' @ channel @ '':schema_v'' @ int_str CREDENTIAL_SCHEMA_VERSION @
            '':key_v'' @ py_str (k_to_str env) key_version))"

text \<open>\<open>iv\<close> is the random initialisation vector. The key version is 1, the default of every call.\<close>

definition encrypt_bot_credentials :: "crypto \<Rightarrow> string \<Rightarrow> py \<Rightarrow> string \<Rightarrow> py \<Rightarrow> py result" where
  "encrypt_bot_credentials env iv credentials connection_id channel =
     (if \<not> is_dict credentials then Inl (ValueError ''credentials must be a JSON object'')
      else bind_result (normalize_channel channel) (\<lambda>channel.
        bind_result (derive_key env ''credential-encryption'' (PInt 1)) (\<lambda>key.
          let plaintext = json_dumps '' '' (k_float_repr env) credentials
          in if \<not> utf8_ok plaintext then Inl (ValueError ''surrogates not allowed'')
             else bind_result (credential_aad env connection_id (PStr channel) (PInt 1)) (\<lambda>aad.
               let sealed = k_seal env key iv plaintext aad;
                   ciphertext = take (length sealed - 16) sealed;
                   tag = drop (length sealed - 16) sealed
               in Inr (PDict [(''version'', PInt 1), (''key_version'', PInt 1), (''schema_version'', PInt CREDENTIAL_SCHEMA_VERSION),
                    (''iv'', PStr (b64encode iv)), (''tag'', PStr (b64encode tag)), (''ciphertext'', PStr (b64encode ciphertext))])))))"

definition is_int :: "py \<Rightarrow> bool" where
  "is_int v = (case v of PInt _ \<Rightarrow> True | PBool _ \<Rightarrow> True | _ \<Rightarrow> False)"

text \<open>The end of the decryption: what the cipher opened must be the JSON text of a dict.\<close>

definition read_payload :: "crypto \<Rightarrow> string option \<Rightarrow> pydict result" where
  "read_payload env opened =
     (case opened of
        None \<Rightarrow> Inl (ValueError ''credential decryption failed: wrong master key or tampered envelope'')
      | Some plaintext \<Rightarrow>
          (case (if utf8_ok plaintext then json_loads (k_fl env) plaintext else Inl json_error) of
             Inl _ \<Rightarrow> Inl (ValueError ''decrypted credential payload is not valid JSON'')
           | Inr (PDict d) \<Rightarrow> Inr d
           | Inr _ \<Rightarrow> Inl (ValueError ''decrypted credential payload is not an object'')))"

definition decrypt_bot_credentials :: "crypto \<Rightarrow> py \<Rightarrow> string \<Rightarrow> py \<Rightarrow> pydict result" where
  "decrypt_bot_credentials env envelope connection_id channel =
     (case envelope of
        PDict e \<Rightarrow>
          (let key_version = pget e ''key_version''; text = (\<lambda>k. b64decode (py_str (k_to_str env) (pget e k)))
           in if \<not> py_eq (pget e ''version'') (PInt 1) then Inl (ValueError ''unsupported credential envelope version'')
              else if \<not> is_int key_version \<or> the (py_number key_version) < 1 then Inl (ValueError ''invalid credential envelope key_version'')
              else if \<not> py_eq (pget e ''schema_version'') (PInt CREDENTIAL_SCHEMA_VERSION)
              then Inl (ValueError ''unsupported credential envelope schema_version'')
              else case (text ''iv'', text ''tag'', text ''ciphertext'') of
                     (Some iv, Some tag, Some ciphertext) \<Rightarrow>
                       if length iv \<noteq> CREDENTIAL_IV_BYTES then Inl (ValueError ''invalid credential envelope iv'')
                       else bind_result (credential_aad env connection_id channel key_version) (\<lambda>aad.
                         read_payload env
                           (case derive_key env ''credential-encryption'' key_version of
                              Inl _ \<Rightarrow> None | Inr key \<Rightarrow> k_unseal env key iv (ciphertext @ tag) aad))
                   | _ \<Rightarrow> Inl (ValueError ''invalid credential envelope encoding''))
      | _ \<Rightarrow> Inl (ValueError ''invalid credential envelope''))"

subsection \<open>Checkpoints\<close>

definition checkpoint_aad :: "crypto \<Rightarrow> string \<Rightarrow> string \<Rightarrow> string" where
  "checkpoint_aad env connection_id key_version =
     ''ryanai-bot-checkpoint-v1:'' @ connection_id @ '':schema_v'' @ int_str CHECKPOINT_SCHEMA_VERSION @ '':key_v'' @ key_version"

definition encrypt_bot_checkpoint :: "crypto \<Rightarrow> string \<Rightarrow> string \<Rightarrow> string \<Rightarrow> py result" where
  "encrypt_bot_checkpoint env iv payload connection_id =
     bind_result (derive_key env ''checkpoint-encryption'' (PInt 1)) (\<lambda>key.
       Inr (PDict [(''version'', PInt 1), (''key_version'', PInt 1), (''schema_version'', PInt CHECKPOINT_SCHEMA_VERSION),
         (''iv'', PStr (b64encode iv)), (''ciphertext'', PStr (b64encode (k_seal env key iv payload (checkpoint_aad env connection_id (int_str 1)))))]))"

definition decrypt_bot_checkpoint :: "crypto \<Rightarrow> py \<Rightarrow> string \<Rightarrow> string result" where
  "decrypt_bot_checkpoint env envelope connection_id =
     (let failed = Inl (ValueError ''checkpoint decryption failed'')
      in case envelope of
           PDict e \<Rightarrow>
             (case Option.bind (map_of e ''key_version'') to_int of
                None \<Rightarrow> failed
              | Some key_version \<Rightarrow>
                  if \<not> py_eq (pget e ''version'') (PInt 1) \<or> \<not> py_eq (pget e ''schema_version'') (PInt CHECKPOINT_SCHEMA_VERSION) then failed
                  else (case (map_option (py_str (k_to_str env)) (map_of e ''iv''), map_option (py_str (k_to_str env)) (map_of e ''ciphertext'')) of
                          (Some iv, Some sealed) \<Rightarrow>
                            (case (b64decode iv, b64decode sealed, derive_key env ''checkpoint-encryption'' (PInt key_version)) of
                               (Some iv, Some sealed, Inr key) \<Rightarrow>
                                 (case k_unseal env key iv sealed (checkpoint_aad env connection_id (int_str key_version)) of
                                    Some payload \<Rightarrow> Inr payload | None \<Rightarrow> failed)
                             | _ \<Rightarrow> failed)
                        | _ \<Rightarrow> failed))
         | _ \<Rightarrow> failed)"

subsection \<open>What the cipher promises\<close>

text \<open>
  AES-GCM opens what it sealed under the same key, vector and associated data, and raises when the
  associated data is another.
\<close>

definition authenticates :: "crypto \<Rightarrow> bool" where
  "authenticates env \<longleftrightarrow> (\<forall>key iv m aad aad'. k_unseal env key iv (k_seal env key iv m aad) aad' = (if aad' = aad then Some m else None))"

lemma normalize_channel_cases:
  assumes "normalize_channel channel = Inr ch"
  shows "ch \<in> {''wechat'', ''qq''}" and "normalize_channel (PStr ch) = Inr ch"
proof -
  from assms show ch: "ch \<in> {''wechat'', ''qq''}" by (auto simp: normalize_channel_def Let_def split: if_splits)
  have "normalize_channel (PStr ''wechat'') = Inr ''wechat''" "normalize_channel (PStr ''qq'') = Inr ''qq''" by code_simp+
  with ch show "normalize_channel (PStr ch) = Inr ch" by blast
qed

lemma framed_eq: "p @ x @ '':'' @ y @ s = p @ x' @ '':'' @ y' @ s \<Longrightarrow> x @ '':'' @ y = x' @ '':'' @ y'"
proof -
  assume "p @ x @ '':'' @ y @ s = p @ x' @ '':'' @ y' @ s"
  then have "(x @ '':'' @ y) @ s = (x' @ '':'' @ y') @ s" by (simp only: same_append_eq append_assoc)
  then show ?thesis by (simp only: append_same_eq)
qed

text \<open>The associated data determines the connection and the channel.\<close>

lemma credential_aad_inj:
  assumes "credential_aad env c ch k = Inr aad" and "credential_aad env c' ch' k = Inr aad"
  shows "c = c' \<and> normalize_channel ch = normalize_channel ch'"
proof -
  obtain n n' where n: "normalize_channel ch = Inr n" "normalize_channel ch' = Inr n'" using assms
    by (cases "normalize_channel ch"; cases "normalize_channel ch'") (auto simp: credential_aad_def)
  let ?suffix = "'':schema_v'' @ int_str CREDENTIAL_SCHEMA_VERSION @ '':key_v'' @ py_str (k_to_str env) k"
  have "''ryanai-bot-credential-v1:'' @ c @ '':'' @ n @ ?suffix = ''ryanai-bot-credential-v1:'' @ c' @ '':'' @ n' @ ?suffix"
    using assms unfolding credential_aad_def n bind_result_simps by (simp only: sum.inject)
  then have "c @ '':'' @ n = c' @ '':'' @ n'" by (rule framed_eq)
  then have "rev (c @ '':'' @ n) = rev (c' @ '':'' @ n')" by (rule arg_cong)
  then have r: "rev n @ '':'' @ rev c = rev n' @ '':'' @ rev c'" by simp
  have "n \<in> {''wechat'', ''qq''}" "n' \<in> {''wechat'', ''qq''}" using normalize_channel_cases(1) n by auto
  with r have "n = n'" "c = c'" by auto
  with n show ?thesis by simp
qed

lemma encrypt_credentials_envelope:
  assumes "encrypt_bot_credentials env iv credentials c channel = Inr envelope"
  obtains key aad where "derive_key env ''credential-encryption'' (PInt 1) = Inr key" "credential_aad env c channel (PInt 1) = Inr aad"
    "is_dict credentials" "utf8_ok (json_dumps '' '' (k_float_repr env) credentials)"
    "\<And>c' channel'. length iv = CREDENTIAL_IV_BYTES \<Longrightarrow> decrypt_bot_credentials env envelope c' channel' =
       bind_result (credential_aad env c' channel' (PInt 1)) (\<lambda>aad'.
         read_payload env (k_unseal env key iv (k_seal env key iv (json_dumps '' '' (k_float_repr env) credentials) aad) aad'))"
proof -
  have d: "is_dict credentials" using assms by (auto simp: encrypt_bot_credentials_def split: if_splits)
  obtain ch where ch: "normalize_channel channel = Inr ch" using assms d
    by (cases "normalize_channel channel") (auto simp: encrypt_bot_credentials_def)
  obtain key where key: "derive_key env ''credential-encryption'' (PInt 1) = Inr key" using assms d ch
    by (cases "derive_key env ''credential-encryption'' (PInt 1)") (auto simp: encrypt_bot_credentials_def)
  have u: "utf8_ok (json_dumps '' '' (k_float_repr env) credentials)" using assms d ch key
    by (auto simp: encrypt_bot_credentials_def Let_def split: if_splits)
  obtain aad where aad: "credential_aad env c channel (PInt 1) = Inr aad" using ch by (auto simp: credential_aad_def)
  have aad': "credential_aad env c (PStr ch) (PInt 1) = Inr aad"
    using aad ch normalize_channel_cases(2) [OF ch] by (simp add: credential_aad_def)
  have "py_eq (PInt 1) (PInt 1)" by simp
  then show thesis using assms d ch key u aad'
    by (intro that [OF key aad d u])
      (auto simp: encrypt_bot_credentials_def Let_def decrypt_bot_credentials_def py_simps b64decode_encode is_int_def CREDENTIAL_SCHEMA_VERSION_def)
qed

lemma credentials_round_trip:
  assumes "authenticates env" and "length iv = CREDENTIAL_IV_BYTES" and "json_ok (PDict credentials)"
    and "encrypt_bot_credentials env iv (PDict credentials) c channel = Inr envelope"
    and "normalize_channel channel' = normalize_channel channel"
  shows "decrypt_bot_credentials env envelope c channel' = Inr credentials"
  using assms(4)
proof (rule encrypt_credentials_envelope)
  fix key aad
  assume aad: "credential_aad env c channel (PInt 1) = Inr aad" and u: "utf8_ok (json_dumps '' '' (k_float_repr env) (PDict credentials))"
    and d: "\<And>c' channel'. length iv = CREDENTIAL_IV_BYTES \<Longrightarrow> decrypt_bot_credentials env envelope c' channel' =
       bind_result (credential_aad env c' channel' (PInt 1)) (\<lambda>aad'.
         read_payload env (k_unseal env key iv (k_seal env key iv (json_dumps '' '' (k_float_repr env) (PDict credentials)) aad) aad'))"
  have "credential_aad env c channel' (PInt 1) = Inr aad" using aad assms(5) by (simp add: credential_aad_def)
  then show ?thesis using assms(1) u json_loads_dumps [OF _ assms(3), of "'' ''"] by (simp add: is_ws_def d [OF assms(2)] authenticates_def read_payload_def)
qed

lemma credentials_not_replayed:
  assumes "authenticates env" and "length iv = CREDENTIAL_IV_BYTES"
    and "encrypt_bot_credentials env iv credentials c channel = Inr envelope"
    and "c' \<noteq> c \<or> normalize_channel channel' \<noteq> normalize_channel channel"
  shows "isl (decrypt_bot_credentials env envelope c' channel')"
  using assms(3)
proof (rule encrypt_credentials_envelope)
  fix key aad
  assume aad: "credential_aad env c channel (PInt 1) = Inr aad"
    and d: "\<And>c' channel'. length iv = CREDENTIAL_IV_BYTES \<Longrightarrow> decrypt_bot_credentials env envelope c' channel' =
       bind_result (credential_aad env c' channel' (PInt 1)) (\<lambda>aad'.
         read_payload env (k_unseal env key iv (k_seal env key iv (json_dumps '' '' (k_float_repr env) credentials) aad) aad'))"
  show ?thesis
  proof (cases "credential_aad env c' channel' (PInt 1)")
    case (Inr aad')
    have "aad' \<noteq> aad" using credential_aad_inj [OF aad, of c' channel'] Inr assms(4) by auto
    with assms(1) Inr show ?thesis by (simp add: d [OF assms(2)] authenticates_def read_payload_def)
  qed (simp add: d [OF assms(2)])
qed

lemma checkpoint_round_trip:
  assumes "authenticates env" and "encrypt_bot_checkpoint env iv payload c = Inr envelope"
  shows "decrypt_bot_checkpoint env envelope c' = (if c' = c then Inr payload else Inl (ValueError ''checkpoint decryption failed''))"
proof -
  obtain key where key: "derive_key env ''checkpoint-encryption'' (PInt 1) = Inr key" using assms(2)
    by (cases "derive_key env ''checkpoint-encryption'' (PInt 1)") (auto simp: encrypt_bot_checkpoint_def)
  have aad: "checkpoint_aad env c' k = checkpoint_aad env c k \<longleftrightarrow> c' = c" for k by (simp add: checkpoint_aad_def)
  have "k_unseal env key iv (k_seal env key iv payload (checkpoint_aad env c k)) (checkpoint_aad env c' k) = (if c' = c then Some payload else None)" for k
    using assms(1) aad by (simp add: authenticates_def)
  moreover have "py_eq (PInt 1) (PInt 1)" by simp
  ultimately show ?thesis using key assms(2)
    by (auto simp: encrypt_bot_checkpoint_def decrypt_bot_checkpoint_def py_simps b64decode_encode CHECKPOINT_SCHEMA_VERSION_def)
qed

subsection \<open>Account identities are normal forms\<close>

lemma dropWhile_prefix: "dropWhile P (ys @ zs) = ys @ zs \<Longrightarrow> dropWhile P ys = ys"
proof (cases ys)
  case (Cons y ys')
  assume "dropWhile P (ys @ zs) = ys @ zs"
  then have "\<not> P y" using Cons dropWhile_eq_self_iff [of P "y # ys' @ zs"] by simp
  with Cons show ?thesis by simp
qed simp

lemma strip_strip: "py_strip (py_strip s) = py_strip s"
proof -
  define d where "d = dropWhile is_space s"
  define t where "t = dropWhile is_space (rev d)"
  have "rev d = takeWhile is_space (rev d) @ t" by (simp add: t_def)
  then have "d = rev t @ rev (takeWhile is_space (rev d))" by (metis rev_append rev_rev_ident)
  moreover have "dropWhile is_space d = d" by (simp add: d_def)
  ultimately have "dropWhile is_space (rev t) = rev t" by (metis dropWhile_prefix)
  moreover have "dropWhile is_space t = t" by (simp add: t_def)
  ultimately show ?thesis by (simp add: py_strip_def d_def [symmetric] t_def [symmetric])
qed

lemma strip_digits: "list_all is_decimal_digit s \<Longrightarrow> py_strip s = s"
proof -
  have "\<not> is_space c" if "is_decimal_digit c" for c using that by (auto simp: is_space_def is_decimal_digit_def)
  moreover assume "list_all is_decimal_digit s"
  ultimately have "dropWhile is_space s = s" "dropWhile is_space (rev s) = rev s"
    by (auto simp: list_all_iff dropWhile_eq_self_iff hd_rev)
  then show ?thesis by (simp add: py_strip_def)
qed

lemma account_key_normal:
  assumes "normalize_account_key channel key = Inr k"
  shows "normalize_account_key channel (PStr k) = Inr k"
proof -
  obtain ch s where ch: "normalize_channel channel = Inr ch" "key = PStr s" "py_strip s \<noteq> []"
    and k: "k = (if ch = ''qq'' \<and> list_all is_decimal_digit (py_strip s) then decimal (digits_value (py_strip s) 0) else py_strip s)"
    using assms by (cases "normalize_channel channel"; cases key) (auto simp: normalize_account_key_def Let_def split: if_splits)
  show ?thesis
  proof (cases "ch = ''qq'' \<and> list_all is_decimal_digit (py_strip s)")
    case True
    let ?n = "digits_value (py_strip s) 0"
    have d: "list_all is_decimal_digit (decimal ?n)" by (simp add: list_all_iff decimal_digits)
    have "digits_value (decimal ?n) 0 = ?n" using read_digits_decimal [of ?n] by (simp add: digits_value_read read_digits_def)
    with True d strip_digits [OF d] show ?thesis by (simp add: normalize_account_key_def ch k decimal_nonempty)
  next
    case False
    with ch k show ?thesis by (auto simp: normalize_account_key_def strip_strip)
  qed
qed

end
