(* ===== verification/Bot_Connections.thy ===== *)
theory Bot_Connections
  imports Bot_Gateway Bot_Crypto Bot_Scheduler
begin

text \<open>
  Connections of the bot gateway and what belongs to them, \<^verbatim>\<open>models/bot_gateway.py\<close>: encrypted
  credentials with the uniqueness of an account, checkpoints, settings, runtime metrics, shard
  assignments with their fencing generations, nodes and the record of control operations.
\<close>

subsection \<open>Credentials\<close>

definition set_credential :: "int \<Rightarrow> string \<Rightarrow> string \<Rightarrow> string \<Rightarrow> bg_credential \<Rightarrow> bg_credential" where
  "set_credential now channel digest envelope c =
     c\<lparr>ce_envelope := envelope, ce_channel := channel, ce_account_digest := digest, ce_updated_at := now\<rparr>"

definition resolve_digest_conflict :: "string \<Rightarrow> string \<Rightarrow> string \<Rightarrow> string \<Rightarrow> int \<Rightarrow> gateway \<Rightarrow> unit result \<times> gateway" where
  "resolve_digest_conflict connection_id digest envelope channel now db =
     (case find (\<lambda>c. ce_account_digest c = digest) (bg_credentials db) of
        Some existing \<Rightarrow>
          if ce_connection_id existing = connection_id
          then (Inr (), db\<lparr>bg_credentials := upd_rows (\<lambda>c. ce_id c = ce_id existing)
                  (\<lambda>c. c\<lparr>ce_envelope := envelope, ce_channel := channel, ce_updated_at := now\<rparr>) (bg_credentials db)\<rparr>)
          else (Inl (ValueError ''account_already_bound''), db)
      | None \<Rightarrow>
          (case find (\<lambda>c. ce_connection_id c = connection_id) (bg_credentials db) of
             Some existing \<Rightarrow>
               (Inr (), db\<lparr>bg_credentials := upd_rows (\<lambda>c. ce_id c = ce_id existing) (set_credential now channel digest envelope) (bg_credentials db)\<rparr>)
           | None \<Rightarrow> (Inl (RuntimeError ''credential upsert lost the race''), db)))"

text \<open>The upsert of one row; the unique columns are the id, the connection and the account digest.\<close>

definition put_credential :: "string \<Rightarrow> int \<Rightarrow> string \<Rightarrow> string \<Rightarrow> string \<Rightarrow> string \<Rightarrow> gateway \<Rightarrow> unit result \<times> gateway" where
  "put_credential uuid now connection_id channel digest envelope db =
     (case find (\<lambda>c. ce_connection_id c = connection_id) (bg_credentials db) of
        Some item \<Rightarrow>
          if list_ex (\<lambda>c. ce_id c \<noteq> ce_id item \<and> ce_account_digest c = digest) (bg_credentials db)
          then resolve_digest_conflict connection_id digest envelope channel now db
          else (Inr (), db\<lparr>bg_credentials := upd_rows (\<lambda>c. ce_id c = ce_id item) (set_credential now channel digest envelope) (bg_credentials db)\<rparr>)
      | None \<Rightarrow>
          if uuid \<in> ce_id ` set (bg_credentials db) \<or> digest \<in> ce_account_digest ` set (bg_credentials db)
          then resolve_digest_conflict connection_id digest envelope channel now db
          else (Inr (), db\<lparr>bg_credentials := bg_credentials db @ [\<lparr>ce_id = uuid, ce_connection_id = connection_id, ce_channel = channel,
                  ce_account_digest = digest, ce_envelope = envelope, ce_key_version = 1, ce_schema_version = 1,
                  ce_created_at = now, ce_updated_at = now\<rparr>]\<rparr>))"

definition save_credential ::
  "crypto \<Rightarrow> string \<Rightarrow> string \<Rightarrow> int \<Rightarrow> string \<Rightarrow> string \<Rightarrow> py \<Rightarrow> gateway \<Rightarrow> (string \<times> string \<times> string) result \<times> gateway" where
  "save_credential env iv uuid now connection_id channel credentials db =
     (case bind_result (extract_account_key (PStr channel) credentials) (\<lambda>account_key.
             bind_result (credential_account_digest env (PStr channel) (PStr account_key)) (\<lambda>digest.
             bind_result (encrypt_bot_credentials env iv credentials connection_id (PStr channel)) (\<lambda>envelope.
               Inr (digest, json_dumps '' '' (k_float_repr env) envelope)))) of
        Inl e \<Rightarrow> (Inl e, db)
      | Inr (digest, envelope) \<Rightarrow>
          (case put_credential uuid now connection_id channel digest envelope db of
             (Inl e, db) \<Rightarrow> (Inl e, db)
           | (Inr _, db) \<Rightarrow> (Inr (connection_id, channel, digest), db)))"

definition get_credential :: "crypto \<Rightarrow> gateway \<Rightarrow> string \<Rightarrow> pydict option result" where
  "get_credential env db connection_id =
     (case find (\<lambda>c. ce_connection_id c = connection_id) (bg_credentials db) of
        None \<Rightarrow> Inr None
      | Some item \<Rightarrow>
          (case json_loads (k_fl env) (ce_envelope item) of
             Inl _ \<Rightarrow> Inl (ValueError ''stored credential envelope is corrupt'')
           | Inr envelope \<Rightarrow> bind_result (decrypt_bot_credentials env envelope connection_id (PStr (ce_channel item))) (\<lambda>d. Inr (Some d))))"

definition delete_credential :: "string \<Rightarrow> gateway \<Rightarrow> gateway" where
  "delete_credential connection_id db = db\<lparr>bg_credentials := filter (\<lambda>c. ce_connection_id c \<noteq> connection_id) (bg_credentials db)\<rparr>"

definition list_credential_digests :: "gateway \<Rightarrow> (string \<times> string \<times> string) list" where
  "list_credential_digests db = map (\<lambda>c. (ce_connection_id c, ce_channel c, ce_account_digest c)) (bg_credentials db)"

definition connection_has_credential :: "gateway \<Rightarrow> string \<Rightarrow> bool" where
  "connection_has_credential db connection_id = list_ex (\<lambda>c. ce_connection_id c = connection_id) (bg_credentials db)"

subsection \<open>Checkpoints\<close>

definition save_checkpoint :: "crypto \<Rightarrow> string \<Rightarrow> int \<Rightarrow> string \<Rightarrow> string \<Rightarrow> string \<Rightarrow> gateway \<Rightarrow> unit result \<times> gateway" where
  "save_checkpoint env iv now connection_id payload sha256 db =
     (case encrypt_bot_checkpoint env iv payload connection_id of
        Inl e \<Rightarrow> (Inl e, db)
      | Inr e \<Rightarrow>
          (let envelope = json_dumps [] (k_float_repr env) e;
               row = \<lparr>cp_connection_id = connection_id, cp_payload = envelope, cp_payload_sha256 = sha256, cp_updated_at = now\<rparr>
           in (Inr (), db\<lparr>bg_checkpoints :=
                (if connection_id \<in> cp_connection_id ` set (bg_checkpoints db)
                 then upd_rows (\<lambda>c. cp_connection_id c = connection_id) (\<lambda>c. row) (bg_checkpoints db)
                 else bg_checkpoints db @ [row])\<rparr>)))"

definition get_checkpoint :: "crypto \<Rightarrow> gateway \<Rightarrow> string \<Rightarrow> (string \<times> string) option result" where
  "get_checkpoint env db connection_id =
     (case find (\<lambda>c. cp_connection_id c = connection_id) (bg_checkpoints db) of
        None \<Rightarrow> Inr None
      | Some item \<Rightarrow>
          (case json_loads (k_fl env) (cp_payload item) of
             Inl _ \<Rightarrow> Inl (ValueError ''stored checkpoint envelope is corrupt'')
           | Inr envelope \<Rightarrow> bind_result (decrypt_bot_checkpoint env envelope connection_id) (\<lambda>p. Inr (Some (p, cp_payload_sha256 item)))))"

subsection \<open>Connections and settings\<close>

definition new_connection :: "string \<Rightarrow> string \<Rightarrow> string \<Rightarrow> bool \<Rightarrow> string option \<Rightarrow> int \<Rightarrow> bg_connection" where
  "new_connection i channel name enabled owner now =
     \<lparr>cn_id = i, cn_channel = channel, cn_name = name, cn_enabled = enabled, cn_status = ''logged_out'', cn_credentials_configured = False,
      cn_account_id = None, cn_account_name = None, cn_config = PDict [], cn_last_error = None, cn_last_seen_at = None,
      cn_created_by = owner, cn_owner_user_id = owner, cn_shard_id = None, cn_account_key = None, cn_assignment_generation = Some 0,
      cn_last_runtime_node_id = None, cn_last_runtime_at = None, cn_created_at = now, cn_updated_at = now\<rparr>"

text \<open>The names of the two default connections, in UTF-8.\<close>

definition wechat_name :: string where
  "wechat_name = map char_of [0xE4, 0xB8, 0xAA, 0xE4, 0xBA, 0xBA, 0xE5, 0xBE, 0xAE, 0xE4, 0xBF, 0xA1, 0xE6, 0x9C, 0xBA, 0xE5, 0x99, 0xA8, 0xE4, 0xBA, 0xBA :: nat]"

definition qq_name :: string where
  "qq_name = map char_of [0xE4, 0xB8, 0xAA, 0xE4, 0xBA, 0xBA :: nat] @ '' QQ '' @ map char_of [0xE6, 0x9C, 0xBA, 0xE5, 0x99, 0xA8, 0xE4, 0xBA, 0xBA :: nat]"

definition list_connections :: "gateway \<Rightarrow> bg_connection list" where
  "list_connections db = sort_key cn_channel (bg_connections db)"

definition ensure_default_connections :: "int \<Rightarrow> gateway \<Rightarrow> bg_connection list \<times> gateway" where
  "ensure_default_connections now db =
     (let add = \<lambda>(i, channel, name) cs. if i \<in> cn_id ` set cs then cs else cs @ [new_connection i channel name False None now];
          db' = db\<lparr>bg_connections := fold add [(''wechat-default'', ''wechat'', wechat_name), (''qq-default'', ''qq'', qq_name)] (bg_connections db)\<rparr>
      in (list_connections db', db'))"

definition get_connection :: "gateway \<Rightarrow> string \<Rightarrow> bg_connection option" where
  "get_connection db connection_id = find (\<lambda>c. cn_id c = connection_id) (bg_connections db)"

definition get_user_connection :: "gateway \<Rightarrow> string \<Rightarrow> string \<Rightarrow> bg_connection option" where
  "get_user_connection db user_id channel = find (\<lambda>c. cn_owner_user_id c = Some user_id \<and> cn_channel c = channel) (bg_connections db)"

definition ensure_user_connection :: "int \<Rightarrow> string \<Rightarrow> string \<Rightarrow> bool \<Rightarrow> gateway \<Rightarrow> bg_connection result \<times> gateway" where
  "ensure_user_connection now user_id channel enabled db =
     (case get_user_connection db user_id channel of
        None \<Rightarrow>
          (let item = new_connection (''bot-'' @ channel @ ''-'' @ user_id) channel (channel @ '' bot'') enabled (Some user_id) now
           in if cn_id item \<in> cn_id ` set (bg_connections db) then (Inl IntegrityError, db)
              else (Inr item, db\<lparr>bg_connections := bg_connections db @ [item]\<rparr>))
      | Some c \<Rightarrow>
          (let f = \<lambda>c. c\<lparr>cn_enabled := enabled, cn_updated_at := now\<rparr>
           in (Inr (f c), db\<lparr>bg_connections := upd_rows (\<lambda>x. cn_id x = cn_id c) f (bg_connections db)\<rparr>)))"

definition get_user_setting :: "int \<Rightarrow> string \<Rightarrow> gateway \<Rightarrow> bg_setting \<times> gateway" where
  "get_user_setting now user_id db =
     (case find (\<lambda>s. us_user_id s = user_id) (bg_settings db) of
        Some s \<Rightarrow> (s, db)
      | None \<Rightarrow> (let s = \<lparr>us_user_id = user_id, us_default_model_id = None, us_updated_at = now\<rparr> in (s, db\<lparr>bg_settings := bg_settings db @ [s]\<rparr>)))"

definition update_user_setting :: "int \<Rightarrow> string \<Rightarrow> string option \<Rightarrow> gateway \<Rightarrow> bg_setting \<times> gateway" where
  "update_user_setting now user_id default_model_id db =
     (let s = \<lparr>us_user_id = user_id, us_default_model_id = default_model_id, us_updated_at = now\<rparr>
      in (s, db\<lparr>bg_settings :=
           (if user_id \<in> us_user_id ` set (bg_settings db) then upd_rows (\<lambda>x. us_user_id x = user_id) (\<lambda>x. s) (bg_settings db)
            else bg_settings db @ [s])\<rparr>))"

datatype connection_value =
    Enabled bool
  | Status string
  | Credentials_configured bool
  | Account_id "string option"
  | Account_name "string option"
  | Configured py
  | Last_error "string option"
  | Last_seen_at "int option"
  | Named string
  | Other_column string

fun set_connection_value :: "connection_value \<Rightarrow> bg_connection \<Rightarrow> bg_connection" where
  "set_connection_value (Enabled b) c = c\<lparr>cn_enabled := b\<rparr>"
| "set_connection_value (Status s) c = c\<lparr>cn_status := s\<rparr>"
| "set_connection_value (Credentials_configured b) c = c\<lparr>cn_credentials_configured := b\<rparr>"
| "set_connection_value (Account_id a) c = c\<lparr>cn_account_id := a\<rparr>"
| "set_connection_value (Account_name a) c = c\<lparr>cn_account_name := a\<rparr>"
| "set_connection_value (Configured v) c = c\<lparr>cn_config := v\<rparr>"
| "set_connection_value (Last_error e) c = c\<lparr>cn_last_error := e\<rparr>"
| "set_connection_value (Last_seen_at t) c = c\<lparr>cn_last_seen_at := t\<rparr>"
| "set_connection_value (Named s) c = c\<lparr>cn_name := s\<rparr>"
| "set_connection_value (Other_column k) c = c"

definition update_connection :: "int \<Rightarrow> string \<Rightarrow> connection_value list \<Rightarrow> bool \<Rightarrow> gateway \<Rightarrow> bg_connection option \<times> gateway" where
  "update_connection now connection_id values touch_updated_at db =
     (case get_connection db connection_id of
        None \<Rightarrow> (None, db)
      | Some c \<Rightarrow>
          (let f = \<lambda>c. (fold set_connection_value values c)\<lparr>cn_updated_at := (if touch_updated_at then now else cn_updated_at c)\<rparr>
           in (Some (f c), db\<lparr>bg_connections := upd_rows (\<lambda>x. cn_id x = connection_id) f (bg_connections db)\<rparr>)))"

definition runtime_config_keys :: "string list" where
  "runtime_config_keys = [''account_error_streak'', ''control_operation_in_progress'', ''credential_migration_in_progress'', ''half_open'',
     ''last_shard_move_at'', ''overloaded_windows'', ''runtime_metrics'', ''scheduler_window_minute'', ''trusted_external_user_id'',
     ''underloaded_windows'']"

definition next_generation :: "bg_connection \<Rightarrow> int" where
  "next_generation c = (case cn_assignment_generation c of Some g \<Rightarrow> g | None \<Rightarrow> 0) + 1"

definition cleared :: "int \<Rightarrow> bg_connection \<Rightarrow> bg_connection" where
  "cleared now c = c\<lparr>cn_config := PDict (filter (\<lambda>(k, v). k \<notin> set runtime_config_keys) (dict_or_empty (cn_config c))),
     cn_status := ''logged_out'', cn_credentials_configured := False, cn_account_id := None, cn_account_name := None, cn_account_key := None,
     cn_shard_id := None, cn_last_error := None, cn_last_seen_at := None, cn_last_runtime_node_id := None, cn_last_runtime_at := None,
     cn_assignment_generation := Some (next_generation c), cn_updated_at := now\<rparr>"

definition clear_connection_credentials :: "int \<Rightarrow> string \<Rightarrow> gateway \<Rightarrow> bg_connection option \<times> gateway" where
  "clear_connection_credentials now connection_id db =
     (case get_connection db connection_id of
        None \<Rightarrow> (None, db)
      | Some c \<Rightarrow>
          (Some (cleared now c),
           db\<lparr>bg_connections := upd_rows (\<lambda>x. cn_id x = connection_id) (cleared now) (bg_connections db),
              bg_credentials := filter (\<lambda>c. ce_connection_id c \<noteq> connection_id) (bg_credentials db),
              bg_checkpoints := filter (\<lambda>c. cp_connection_id c \<noteq> connection_id) (bg_checkpoints db)\<rparr>))"

definition delete_owned_connection :: "string \<Rightarrow> string \<Rightarrow> gateway \<Rightarrow> bool \<times> gateway" where
  "delete_owned_connection connection_id owner_user_id db =
     (let owned = \<lambda>c. cn_id c = connection_id \<and> cn_owner_user_id c = Some owner_user_id;
          binding_ids = map bd_id (filter (\<lambda>b. bd_connection_id b = connection_id) (bg_bindings db))
      in if \<not> list_ex owned (bg_connections db) then (False, db)
         else if count_rows owned (bg_connections db) \<noteq> 1 then (False, db)
         else (True, db\<lparr>bg_events := filter (\<lambda>e. ev_connection_id e \<noteq> connection_id) (bg_events db),
                 bg_conversations := filter (\<lambda>c. cv_connection_id c \<noteq> connection_id) (bg_conversations db),
                 bg_codes := upd_rows (\<lambda>c. \<exists>b \<in> set binding_ids. co_consumed_by_binding_id c = Some b)
                   (\<lambda>c. c\<lparr>co_consumed_by_binding_id := None\<rparr>) (bg_codes db),
                 bg_bindings := filter (\<lambda>b. bd_connection_id b \<noteq> connection_id) (bg_bindings db),
                 bg_groups := filter (\<lambda>g. gr_connection_id g \<noteq> connection_id) (bg_groups db),
                 bg_credentials := filter (\<lambda>c. ce_connection_id c \<noteq> connection_id) (bg_credentials db),
                 bg_checkpoints := filter (\<lambda>c. cp_connection_id c \<noteq> connection_id) (bg_checkpoints db),
                 bg_histories := upd_rows (\<lambda>h. hi_connection_id h = Some connection_id) (\<lambda>h. h\<lparr>hi_connection_id := None\<rparr>) (bg_histories db),
                 bg_connections := filter (\<lambda>c. \<not> owned c) (bg_connections db)\<rparr>))"

subsection \<open>Runtime metrics and assignments\<close>

text \<open>\<open>int(v or 0)\<close>.\<close>

definition int_or_0 :: "py \<Rightarrow> int result" where
  "int_or_0 v =
     (if \<not> truthy v then Inr 0
      else case to_int v of
             Some n \<Rightarrow> Inr n
           | None \<Rightarrow> Inl (case v of PStr _ \<Rightarrow> ValueError ''invalid literal for int()'' | PNonFinite \<Rightarrow> ValueError ''cannot convert float to integer'' | _ \<Rightarrow> TypeError))"

definition enabled_row :: "string \<Rightarrow> bg_connection \<Rightarrow> bool" where
  "enabled_row connection_id c \<longleftrightarrow> cn_enabled c \<and> cn_id c = connection_id"

definition metrics_step :: "string \<Rightarrow> int \<Rightarrow> string \<times> pydict \<Rightarrow> bg_connection list \<Rightarrow> bg_connection list result" where
  "metrics_step node_id now entry rows =
     (case entry of (connection_id, metrics) \<Rightarrow>
        if \<not> list_ex (enabled_row connection_id) rows then Inr rows
        else bind_result (int_or_0 (dget metrics ''account_error_streak'' (PInt 0))) (\<lambda>streak.
          Inr (upd_rows (enabled_row connection_id)
            (\<lambda>c. c\<lparr>cn_config := PDict (AList.update ''account_error_streak'' (PInt streak)
                     (AList.update ''runtime_metrics'' (PDict metrics) (dict_or_empty (cn_config c)))),
                    cn_last_runtime_node_id := Some node_id, cn_last_runtime_at := Some now\<rparr>) rows)))"

definition shard_loads :: "(rat \<Rightarrow> rat) \<Rightarrow> bg_connection list \<Rightarrow> (string \<times> int) list" where
  "shard_loads fl rows =
     fold (\<lambda>c d. case cn_shard_id c of
                   Some (ch # s) \<Rightarrow> AList.update (ch # s) (dget d (ch # s) 0 +
                     calculate_load_units fl (load_sample_from_config (PDict (dict_or_empty (cn_config c))))) d
                 | _ \<Rightarrow> d) (filter cn_enabled rows) []"

definition windows :: "bool \<Rightarrow> string \<Rightarrow> pydict \<Rightarrow> int result" where
  "windows active key config = (if active then bind_result (int_or_0 (dget config key (PInt 0))) (\<lambda>n. Inr (n + 1)) else Inr 0)"

definition window_config :: "(rat \<Rightarrow> rat) \<Rightarrow> int \<Rightarrow> int \<Rightarrow> (string \<times> int) list \<Rightarrow> bg_connection \<Rightarrow> py result" where
  "window_config fl now load_capacity loads c =
     (let config = dict_or_empty (cn_config c);
          minute = now div 60;
          load = dget loads (case cn_shard_id c of Some s \<Rightarrow> s | None \<Rightarrow> []) 0;
          sticky = fl (of_int load_capacity * fl (6 / 5));
          sticky_limit = (if sticky \<ge> 0 then \<lfloor>sticky\<rfloor> else \<lceil>sticky\<rceil>);
          low_limit = fl (of_int load_capacity * fl (2 / 5))
      in if py_eq (pget config ''scheduler_window_minute'') (PInt minute) then Inr (cn_config c)
         else bind_result (windows (load > sticky_limit) ''overloaded_windows'' config) (\<lambda>over.
           bind_result (windows (of_int load < low_limit) ''underloaded_windows'' (AList.update ''overloaded_windows'' (PInt over) config)) (\<lambda>under.
             Inr (PDict (AList.update ''scheduler_window_minute'' (PInt minute)
               (AList.update ''underloaded_windows'' (PInt under) (AList.update ''overloaded_windows'' (PInt over) config)))))))"

definition window_step :: "(rat \<Rightarrow> rat) \<Rightarrow> int \<Rightarrow> int \<Rightarrow> (string \<times> int) list \<Rightarrow> string \<times> pydict \<Rightarrow> bg_connection list \<Rightarrow> bg_connection list result" where
  "window_step fl now load_capacity loads entry rows =
     (case find (enabled_row (fst entry)) rows of
        None \<Rightarrow> Inr rows
      | Some c \<Rightarrow>
          bind_result (window_config fl now load_capacity loads c) (\<lambda>config.
            Inr (upd_rows (enabled_row (fst entry)) (\<lambda>c. c\<lparr>cn_config := config, cn_updated_at := now\<rparr>) rows)))"

definition update_connection_runtime_metrics ::
  "(rat \<Rightarrow> rat) \<Rightarrow> int \<Rightarrow> string \<Rightarrow> (string \<times> pydict) list \<Rightarrow> int \<Rightarrow> gateway \<Rightarrow> nat result \<times> gateway" where
  "update_connection_runtime_metrics fl now node_id metrics load_capacity db =
     (case bind_result (fold_result (metrics_step node_id now) metrics (bg_connections db)) (\<lambda>rows.
             fold_result (window_step fl now load_capacity (shard_loads fl rows)) metrics rows) of
        Inl e \<Rightarrow> (Inl e, db)
      | Inr rows \<Rightarrow>
          (Inr (length (filter (\<lambda>(i, m). list_ex (enabled_row i) (bg_connections db)) metrics)), db\<lparr>bg_connections := rows\<rparr>))"

definition set_connection_runtime ::
  "int \<Rightarrow> string \<Rightarrow> string option \<Rightarrow> string option \<Rightarrow> int option \<Rightarrow> string option \<Rightarrow> int option \<Rightarrow> gateway \<Rightarrow> gateway" where
  "set_connection_runtime now connection_id shard_id account_key assignment_generation last_runtime_node_id last_runtime_at db =
     db\<lparr>bg_connections := upd_rows (\<lambda>c. cn_id c = connection_id)
        (\<lambda>c. c\<lparr>cn_shard_id := (case shard_id of Some s \<Rightarrow> Some s | None \<Rightarrow> cn_shard_id c),
               cn_account_key := (case account_key of Some a \<Rightarrow> Some a | None \<Rightarrow> cn_account_key c),
               cn_assignment_generation := (case assignment_generation of Some g \<Rightarrow> Some g | None \<Rightarrow> cn_assignment_generation c),
               cn_last_runtime_node_id := (case last_runtime_node_id of Some n \<Rightarrow> Some n | None \<Rightarrow> cn_last_runtime_node_id c),
               cn_last_runtime_at := (case last_runtime_at of Some t \<Rightarrow> Some t | None \<Rightarrow> cn_last_runtime_at c),
               cn_updated_at := now\<rparr>) (bg_connections db)\<rparr>"

definition assigned :: "int \<Rightarrow> (string \<times> string) list \<Rightarrow> bg_connection \<Rightarrow> bg_connection" where
  "assigned now assignments c =
     (case map_of assignments (cn_id c) of
        None \<Rightarrow> c
      | Some target \<Rightarrow>
          if cn_shard_id c = Some target then c
          else c\<lparr>cn_shard_id := Some target, cn_assignment_generation := Some (next_generation c),
                 cn_config := PDict (AList.update ''last_shard_move_at'' (PInt now) (dict_or_empty (cn_config c))), cn_updated_at := now\<rparr>)"

definition apply_shard_assignments :: "int \<Rightarrow> (string \<times> string) list \<Rightarrow> gateway \<Rightarrow> bg_connection list \<times> gateway" where
  "apply_shard_assignments now assignments db =
     (map (assigned now assignments) (filter (\<lambda>c. cn_id c \<in> fst ` set assignments) (bg_connections db)),
      db\<lparr>bg_connections := map (assigned now assignments) (bg_connections db)\<rparr>)"

subsection \<open>Nodes, shards and control operations\<close>

definition refresh_node :: "int \<Rightarrow> string option \<Rightarrow> py \<Rightarrow> bg_node \<Rightarrow> bg_node" where
  "refresh_node now advertise_url capabilities n =
     n\<lparr>nd_advertise_url := (case advertise_url of Some u \<Rightarrow> Some u | None \<Rightarrow> nd_advertise_url n),
       nd_capabilities := (if capabilities = PNone then nd_capabilities n else capabilities), nd_last_seen_at := Some now, nd_updated_at := now\<rparr>"

definition touch_node :: "int \<Rightarrow> string \<Rightarrow> string option \<Rightarrow> py \<Rightarrow> gateway \<Rightarrow> bool \<times> gateway" where
  "touch_node now node_id advertise_url capabilities db =
     (if node_id \<notin> nd_id ` set (bg_nodes db) then (False, db)
      else (True, db\<lparr>bg_nodes := upd_rows (\<lambda>n. nd_id n = node_id) (refresh_node now advertise_url capabilities) (bg_nodes db)\<rparr>))"

definition upsert_node :: "int \<Rightarrow> string \<Rightarrow> string option \<Rightarrow> py \<Rightarrow> gateway \<Rightarrow> bg_node \<times> gateway" where
  "upsert_node now node_id advertise_url capabilities db =
     (case find (\<lambda>n. nd_id n = node_id) (bg_nodes db) of
        Some n \<Rightarrow> (refresh_node now advertise_url capabilities n, snd (touch_node now node_id advertise_url capabilities db))
      | None \<Rightarrow>
          (let n = \<lparr>nd_id = node_id, nd_advertise_url = advertise_url, nd_capabilities = capabilities, nd_created_at = now, nd_updated_at = now,
                     nd_last_seen_at = Some now\<rparr> in (n, db\<lparr>bg_nodes := bg_nodes db @ [n]\<rparr>)))"

definition list_nodes :: "gateway \<Rightarrow> bg_node list" where
  "list_nodes db = sort_key nd_id (bg_nodes db)"

definition list_shards :: "gateway \<Rightarrow> bg_shard list" where
  "list_shards db = sort_key bs_id (bg_shards db)"

definition record_control_operation :: "string \<Rightarrow> int \<Rightarrow> string \<Rightarrow> py \<Rightarrow> string option \<Rightarrow> string \<Rightarrow> gateway \<Rightarrow> bg_operation result \<times> gateway" where
  "record_control_operation uuid now kind payload actor_user_id status db =
     (let item = \<lparr>ct_id = uuid, ct_kind = kind, ct_payload = payload, ct_status = status, ct_actor_user_id = actor_user_id,
                   ct_created_at = now, ct_updated_at = now, ct_completed_at = (if status = ''completed'' then Some now else None)\<rparr>
      in if uuid \<in> ct_id ` set (bg_operations db) then (Inl IntegrityError, db)
         else (Inr item, db\<lparr>bg_operations := bg_operations db @ [item]\<rparr>))"

definition list_control_operations :: "gateway \<Rightarrow> string option \<Rightarrow> int option \<Rightarrow> int \<Rightarrow> bg_operation list" where
  "list_control_operations db kind since limit =
     take (nat (max 1 (min limit 1000))) (sort_key (\<lambda>x. - ct_created_at x)
       (filter (\<lambda>x. (case kind of Some k \<Rightarrow> ct_kind x = k | None \<Rightarrow> True) \<and> (case since of Some t \<Rightarrow> ct_created_at x \<ge> t | None \<Rightarrow> True))
          (bg_operations db)))"

subsection \<open>An account belongs to one connection\<close>

definition credentials_ok :: "gateway \<Rightarrow> bool" where
  "credentials_ok db \<longleftrightarrow> distinct (map ce_id (bg_credentials db)) \<and> distinct (map ce_connection_id (bg_credentials db)) \<and>
     distinct (map ce_account_digest (bg_credentials db))"

lemma unique_row: "distinct (map f xs) \<Longrightarrow> x \<in> set xs \<Longrightarrow> y \<in> set xs \<Longrightarrow> f x = f y \<Longrightarrow> x = y"
  by (auto simp: distinct_map dest: inj_onD)

lemma credentials_ok_filter: "credentials_ok db \<Longrightarrow> bg_credentials db' = filter P (bg_credentials db) \<Longrightarrow> credentials_ok db'"
  by (simp add: credentials_ok_def distinct_map_filter)

text \<open>A conflict, seen from inside the table, is another connection's account.\<close>

lemma conflict_other:
  assumes ok: "credentials_ok db" and "\<exists>c \<in> set (bg_credentials db). ce_account_digest c = digest \<and> ce_connection_id c \<noteq> connection_id"
  shows "resolve_digest_conflict connection_id digest envelope channel now db = (Inl (ValueError ''account_already_bound''), db)"
proof -
  obtain c where c: "c \<in> set (bg_credentials db)" "ce_account_digest c = digest" "ce_connection_id c \<noteq> connection_id" using assms(2) by blast
  then obtain x where x: "find (\<lambda>c. ce_account_digest c = digest) (bg_credentials db) = Some x"
    by (cases "find (\<lambda>c. ce_account_digest c = digest) (bg_credentials db)") (auto simp: find_None_iff)
  have "x = c" using ok c find_Some [OF x] by (intro unique_row [of ce_account_digest "bg_credentials db"]) (auto simp: credentials_ok_def)
  with x c(3) show ?thesis by (simp add: resolve_digest_conflict_def)
qed

text \<open>What an upsert does: it refuses another connection's account, and writes the connection's row otherwise.\<close>

lemma put_credential_taken:
  assumes ok: "credentials_ok db" and taken: "\<exists>c \<in> set (bg_credentials db). ce_account_digest c = digest \<and> ce_connection_id c \<noteq> connection_id"
  shows "put_credential uuid now connection_id channel digest envelope db = (Inl (ValueError ''account_already_bound''), db)"
proof (cases "find (\<lambda>c. ce_connection_id c = connection_id) (bg_credentials db)")
  case None
  have "digest \<in> ce_account_digest ` set (bg_credentials db)" using taken by auto
  with None conflict_other [OF ok taken] show ?thesis by (simp add: put_credential_def)
next
  case (Some item)
  then have item: "item \<in> set (bg_credentials db)" "ce_connection_id item = connection_id" by (auto dest: find_Some)
  obtain c where c: "c \<in> set (bg_credentials db)" "ce_account_digest c = digest" "ce_connection_id c \<noteq> connection_id" using taken by blast
  have "ce_id c \<noteq> ce_id item" using unique_row [of ce_id "bg_credentials db" c item] ok item c by (auto simp: credentials_ok_def)
  then have "list_ex (\<lambda>c. ce_id c \<noteq> ce_id item \<and> ce_account_digest c = digest) (bg_credentials db)" using c by (auto simp: list_ex_iff)
  with Some conflict_other [OF ok taken] show ?thesis by (simp add: put_credential_def)
qed

lemma put_credential_cases:
  assumes ok: "credentials_ok db" and put: "put_credential uuid now connection_id channel digest envelope db = (res, db')"
  obtains (refused) e where "res = Inl e" "db' = db"
  | (inserted) "res = Inr ()" "uuid \<notin> ce_id ` set (bg_credentials db)" "connection_id \<notin> ce_connection_id ` set (bg_credentials db)"
      "digest \<notin> ce_account_digest ` set (bg_credentials db)"
      "db' = db\<lparr>bg_credentials := bg_credentials db @ [\<lparr>ce_id = uuid, ce_connection_id = connection_id, ce_channel = channel,
         ce_account_digest = digest, ce_envelope = envelope, ce_key_version = 1, ce_schema_version = 1, ce_created_at = now, ce_updated_at = now\<rparr>]\<rparr>"
  | (updated) item where "res = Inr ()" "item \<in> set (bg_credentials db)" "ce_connection_id item = connection_id"
      "\<And>c. c \<in> set (bg_credentials db) \<Longrightarrow> ce_id c \<noteq> ce_id item \<Longrightarrow> ce_account_digest c \<noteq> digest"
      "db' = db\<lparr>bg_credentials := upd_rows (\<lambda>c. ce_id c = ce_id item) (set_credential now channel digest envelope) (bg_credentials db)\<rparr>"
proof (cases "\<exists>c \<in> set (bg_credentials db). ce_account_digest c = digest \<and> ce_connection_id c \<noteq> connection_id")
  case True
  show thesis by (rule refused [of "ValueError ''account_already_bound''"]) (use put_credential_taken [OF ok True] put in simp_all)
next
  case free: False
  show thesis
  proof (cases "find (\<lambda>c. ce_connection_id c = connection_id) (bg_credentials db)")
    case None
    then have conn: "connection_id \<notin> ce_connection_id ` set (bg_credentials db)" by (auto simp: find_None_iff)
    then have dig: "digest \<notin> ce_account_digest ` set (bg_credentials db)" using free by auto
    then have none: "find (\<lambda>c. ce_account_digest c = digest) (bg_credentials db) = None" by (auto simp: find_None_iff)
    show thesis
    proof (cases "uuid \<in> ce_id ` set (bg_credentials db)")
      case True
      show thesis by (rule refused [of "RuntimeError ''credential upsert lost the race''"]) (use put None none True in \<open>simp_all add: put_credential_def resolve_digest_conflict_def\<close>)
    next
      case False
      show thesis by (rule inserted) (use put None False conn dig in \<open>simp_all add: put_credential_def\<close>)
    qed
  next
    case (Some item)
    then have item: "item \<in> set (bg_credentials db)" "ce_connection_id item = connection_id" by (auto dest: find_Some)
    have other: "ce_account_digest c \<noteq> digest" if "c \<in> set (bg_credentials db)" "ce_id c \<noteq> ce_id item" for c
      using free ok item that unique_row [of ce_connection_id "bg_credentials db" c item] by (auto simp: credentials_ok_def)
    then have "\<not> list_ex (\<lambda>c. ce_id c \<noteq> ce_id item \<and> ce_account_digest c = digest) (bg_credentials db)" by (auto simp: list_ex_iff)
    with put Some have "res = Inr () \<and> db' = db\<lparr>bg_credentials := upd_rows (\<lambda>c. ce_id c = ce_id item) (set_credential now channel digest envelope) (bg_credentials db)\<rparr>"
      by (simp add: put_credential_def)
    with item other show thesis by (intro updated) simp_all
  qed
qed

lemma distinct_map_upd:
  assumes "distinct (map f xs)" and "distinct (map k xs)" and "\<And>x. k (g x) = k x"
    and "\<And>x. x \<in> set xs \<Longrightarrow> k x \<noteq> i \<Longrightarrow> f x \<noteq> v" and "\<And>x. f (g x) = v"
  shows "distinct (map f (upd_rows (\<lambda>x. k x = i) g xs))"
  using assms(1,2,4)
proof (induction xs)
  case (Cons x xs)
  have IH: "distinct (map f (upd_rows (\<lambda>x. k x = i) g xs))" by (rule Cons.IH) (use Cons.prems in auto)
  have sub: "f y \<in> insert v (f ` set xs)" if "y \<in> set (upd_rows (\<lambda>x. k x = i) g xs)" for y
    using that assms(5) unfolding in_upd_rows by (auto split: if_splits)
  show ?case
  proof (cases "k x = i")
    case True
    have ne: "y \<in> set xs \<Longrightarrow> k y \<noteq> i" for y using Cons.prems(2) True by (auto simp: image_iff)
    then have "upd_rows (\<lambda>x. k x = i) g xs = xs" by (intro upd_rows_none) simp
    moreover have "v \<notin> f ` set xs" using Cons.prems(3) ne by auto
    ultimately show ?thesis using True Cons.prems(1) assms(5) by (auto simp: upd_rows_def)
  next
    case False
    then have "f x \<noteq> v" "f x \<notin> f ` set xs" using Cons.prems by auto
    then have "f x \<notin> f ` set (upd_rows (\<lambda>x. k x = i) g xs)" using sub by fastforce
    moreover have "upd_rows (\<lambda>x. k x = i) g (x # xs) = x # upd_rows (\<lambda>x. k x = i) g xs" using False by (simp add: upd_rows_def)
    ultimately show ?thesis using IH by simp
  qed
qed (simp add: upd_rows_def)

lemma put_credentials_ok:
  assumes ok: "credentials_ok db" and put: "put_credential uuid now connection_id channel digest envelope db = (res, db')"
  shows "credentials_ok db'"
  using ok put
proof (cases rule: put_credential_cases)
  case inserted
  with ok show ?thesis by (auto simp: credentials_ok_def)
next
  case (updated item)
  have m: "map ce_id (bg_credentials db') = map ce_id (bg_credentials db)"
    "map ce_connection_id (bg_credentials db') = map ce_connection_id (bg_credentials db)"
    by (simp_all add: updated(5) map_upd_rows set_credential_def)
  have "distinct (map ce_account_digest (bg_credentials db'))" unfolding updated(5)
    using ok updated(4) by (simp, intro distinct_map_upd [where v = digest]) (simp_all add: credentials_ok_def set_credential_def)
  with ok m show ?thesis by (simp add: credentials_ok_def)
qed (use ok in simp)

text \<open>A successful upsert is what a lookup finds, and no other connection's row changes.\<close>

lemma put_credential_lookup:
  assumes ok: "credentials_ok db" and put: "put_credential uuid now connection_id channel digest envelope db = (Inr u, db')"
  obtains item where "find (\<lambda>c. ce_connection_id c = connection_id) (bg_credentials db') = Some item"
    "ce_envelope item = envelope" "ce_channel item = channel" "ce_account_digest item = digest"
    "\<And>c. c \<noteq> connection_id \<Longrightarrow>
      find (\<lambda>x. ce_connection_id x = c) (bg_credentials db') = find (\<lambda>x. ce_connection_id x = c) (bg_credentials db)"
  using ok put
proof (cases rule: put_credential_cases)
  case inserted
  then have "find (\<lambda>c. ce_connection_id c = connection_id) (bg_credentials db) = None" by (auto simp: find_None_iff)
  moreover have "find (\<lambda>x. ce_connection_id x = c) (bg_credentials db') = find (\<lambda>x. ce_connection_id x = c) (bg_credentials db)" if "c \<noteq> connection_id" for c
    using that by (simp add: inserted(5) find_append split: option.split)
  ultimately show thesis by (intro that [of "last (bg_credentials db')"]) (simp_all add: inserted(5) find_append)
next
  case (updated item)
  let ?f = "set_credential now channel digest envelope"
  have at: "ce_id x = ce_id item \<longleftrightarrow> ce_connection_id x = connection_id" if "x \<in> set (bg_credentials db)" for x
    using ok updated(2,3) that unique_row [of ce_id _ x item] unique_row [of ce_connection_id _ x item] by (auto simp: credentials_ok_def)
  then have rows: "bg_credentials db' = map (\<lambda>x. if ce_connection_id x = connection_id then ?f x else x) (bg_credentials db)"
    by (simp add: updated(5) upd_rows_def)
  have keep: "ce_connection_id (if ce_connection_id x = connection_id then ?f x else x) = ce_connection_id x" for x
    by (simp add: set_credential_def)
  have found: "find (\<lambda>x. ce_connection_id x = c) (bg_credentials db') =
      map_option (\<lambda>x. if ce_connection_id x = connection_id then ?f x else x) (find (\<lambda>x. ce_connection_id x = c) (bg_credentials db))" for c
    by (simp add: rows find_map o_def keep)
  obtain x where x: "find (\<lambda>c. ce_connection_id c = connection_id) (bg_credentials db) = Some x"
    using updated(2,3) by (cases "find (\<lambda>c. ce_connection_id c = connection_id) (bg_credentials db)") (auto simp: find_None_iff)
  have same: "find (\<lambda>x. ce_connection_id x = c) (bg_credentials db') = find (\<lambda>x. ce_connection_id x = c) (bg_credentials db)" if "c \<noteq> connection_id" for c
    using that by (cases "find (\<lambda>x. ce_connection_id x = c) (bg_credentials db)") (auto simp: found dest: find_Some)
  show thesis by (rule that [of "?f x"]) (use found [of connection_id] x find_Some [OF x] same in \<open>simp_all add: set_credential_def\<close>)
qed simp

subsection \<open>Deleting a connection\<close>

lemma delete_owned_False: "delete_owned_connection c u db = (False, db') \<Longrightarrow> db' = db"
  by (auto simp: delete_owned_connection_def Let_def split: if_splits)

lemma delete_owned_True:
  assumes "delete_owned_connection c u db = (True, db')"
  shows "bg_bindings db' = filter (\<lambda>b. bd_connection_id b \<noteq> c) (bg_bindings db)"
    and "bg_conversations db' = filter (\<lambda>v. cv_connection_id v \<noteq> c) (bg_conversations db)"
    and "bg_events db' = filter (\<lambda>e. ev_connection_id e \<noteq> c) (bg_events db)"
    and "bg_groups db' = filter (\<lambda>g. gr_connection_id g \<noteq> c) (bg_groups db)"
    and "bg_credentials db' = filter (\<lambda>r. ce_connection_id r \<noteq> c) (bg_credentials db)"
    and "bg_checkpoints db' = filter (\<lambda>r. cp_connection_id r \<noteq> c) (bg_checkpoints db)"
    and "bg_connections db' = filter (\<lambda>r. \<not> (cn_id r = c \<and> cn_owner_user_id r = Some u)) (bg_connections db)"
    and "bg_codes db' = upd_rows (\<lambda>k. \<exists>b \<in> set (map bd_id (filter (\<lambda>b. bd_connection_id b = c) (bg_bindings db))). co_consumed_by_binding_id k = Some b)
      (\<lambda>k. k\<lparr>co_consumed_by_binding_id := None\<rparr>) (bg_codes db)"
    and "bg_histories db' = upd_rows (\<lambda>h. hi_connection_id h = Some c) (\<lambda>h. h\<lparr>hi_connection_id := None\<rparr>) (bg_histories db)"
proof -
  let ?owned = "\<lambda>r. cn_id r = c \<and> cn_owner_user_id r = Some u"
  have "list_ex ?owned (bg_connections db)" "count_rows ?owned (bg_connections db) = 1"
    using assms by (auto simp: delete_owned_connection_def Let_def split: if_splits)
  with assms have "db' = snd (delete_owned_connection c u db)" by simp
  note d = this [unfolded delete_owned_connection_def Let_def, simplified \<open>list_ex ?owned _\<close> \<open>count_rows ?owned _ = 1\<close>, simplified]
  show "bg_bindings db' = filter (\<lambda>b. bd_connection_id b \<noteq> c) (bg_bindings db)"
    "bg_conversations db' = filter (\<lambda>v. cv_connection_id v \<noteq> c) (bg_conversations db)"
    "bg_events db' = filter (\<lambda>e. ev_connection_id e \<noteq> c) (bg_events db)"
    "bg_groups db' = filter (\<lambda>g. gr_connection_id g \<noteq> c) (bg_groups db)"
    "bg_credentials db' = filter (\<lambda>r. ce_connection_id r \<noteq> c) (bg_credentials db)"
    "bg_checkpoints db' = filter (\<lambda>r. cp_connection_id r \<noteq> c) (bg_checkpoints db)"
    "bg_connections db' = filter (\<lambda>r. \<not> (cn_id r = c \<and> cn_owner_user_id r = Some u)) (bg_connections db)"
    "bg_codes db' = upd_rows (\<lambda>k. \<exists>b \<in> set (map bd_id (filter (\<lambda>b. bd_connection_id b = c) (bg_bindings db))). co_consumed_by_binding_id k = Some b)
      (\<lambda>k. k\<lparr>co_consumed_by_binding_id := None\<rparr>) (bg_codes db)"
    "bg_histories db' = upd_rows (\<lambda>h. hi_connection_id h = Some c) (\<lambda>h. h\<lparr>hi_connection_id := None\<rparr>) (bg_histories db)"
    by (simp_all add: d)
qed

end
