(* ===== verification/Bot_Bindings.thy ===== *)
theory Bot_Bindings
  imports Bot_Connections
begin

text \<open>
  The bindings of external identities to users over any history of operations: a binding code binds
  once, an identity has one binding, a blocked one is never enabled, and a conversation always
  belongs to the user its identity is bound to. A message is answered in a conversation of the
  enabled binding of its sender, read and used in one step.
\<close>

datatype bind_op =
    Create_code string int string string "string option" int
  | Bind string int string string string "string option" string
  | Ensure_owner "nat \<Rightarrow> string" int string string "string option"
  | Request_unbind int string string
  | Block int string string
  | Unblock int string
  | Unbind int string "string option" bool
  | Touch int string "string option"
  | Converse string int string string string string string
  | Set_conversation int string "conversation_value list"
  | Forget int int bool
  | Delete_connection string string

definition converse :: "string \<Rightarrow> int \<Rightarrow> string \<Rightarrow> string \<Rightarrow> string \<Rightarrow> string \<Rightarrow> string \<Rightarrow> gateway \<Rightarrow> bg_conversation option \<times> gateway" where
  "converse uuid now connection_id external_user_id conversation_type conversation_id sender_id db =
     (case get_enabled_binding db connection_id external_user_id of
        None \<Rightarrow> (None, db)
      | Some b \<Rightarrow>
          (case get_or_create_conversation uuid now b conversation_type conversation_id sender_id db of
             (Inr c, db) \<Rightarrow> (Some c, db)
           | (Inl _, db) \<Rightarrow> (None, db)))"

text \<open>Whether the operation did something, and the tables after it.\<close>

fun bind_exec :: "(string \<Rightarrow> string option) \<Rightarrow> (py \<Rightarrow> string) \<Rightarrow> bind_op \<Rightarrow> gateway \<Rightarrow> bool \<times> gateway" where
  "bind_exec role to_str (Create_code i now u h ch ex) db = (case create_binding_code i now u h ch ex db of (r, db) \<Rightarrow> (\<not> isl r, db))"
| "bind_exec role to_str (Bind i now c ch x d h) db = (case bind_with_code role i now c ch x d h db of (r, db) \<Rightarrow> (\<not> isl r, db))"
| "bind_exec role to_str (Ensure_owner ids now c x d) db = (case ensure_owner_binding to_str ids now c x d db of (r, db) \<Rightarrow> (\<not> isl r, db))"
| "bind_exec role to_str (Request_unbind now i u) db = request_unbind now i u db"
| "bind_exec role to_str (Block now i u) db = block_binding now i u db"
| "bind_exec role to_str (Unblock now i) db = unblock_binding now i db"
| "bind_exec role to_str (Unbind now i u conf) db = unbind now i u conf db"
| "bind_exec role to_str (Touch now i d) db = (True, touch_binding now i d db)"
| "bind_exec role to_str (Converse i now c x ct cid s) db = (case converse i now c x ct cid s db of (r, db) \<Rightarrow> (r \<noteq> None, db))"
| "bind_exec role to_str (Set_conversation now i vs) db = (case update_conversation now i vs db of (r, db) \<Rightarrow> (r \<noteq> None, db))"
| "bind_exec role to_str (Forget now ret force) db = (True, snd (cleanup_expired_records now ret force db))"
| "bind_exec role to_str (Delete_connection c u) db = delete_owned_connection c u db"

fun bind_run :: "(string \<Rightarrow> string option) \<Rightarrow> (py \<Rightarrow> string) \<Rightarrow> bind_op list \<Rightarrow> gateway \<Rightarrow> bool list \<times> gateway" where
  "bind_run role to_str [] db = ([], db)"
| "bind_run role to_str (op # ops) db =
     (case bind_exec role to_str op db of (b, db) \<Rightarrow> (case bind_run role to_str ops db of (bs, db) \<Rightarrow> (b # bs, db)))"

subsection \<open>Codes\<close>

definition used_up :: "string \<Rightarrow> gateway \<Rightarrow> bool" where
  "used_up h db \<longleftrightarrow> (\<forall>c \<in> set (bg_codes db). co_code_hash c = h \<longrightarrow> co_consumed_at c \<noteq> None)"

lemma used_up_refuses:
  assumes "used_up h db"
  shows "bind_with_code role i now c ch x d h db = (Inl (ValueError ''invalid_or_expired_code''), db)"
proof -
  have "check_code role now ch h db = Inl (ValueError ''invalid_or_expired_code'')"
    using assms by (auto simp: check_code_def used_up_def split: option.splits dest: find_Some)
  then show ?thesis by (simp add: bind_with_code_def)
qed

lemma used_up_codes:
  "bg_codes db' = bg_codes db \<Longrightarrow> used_up h db' = used_up h db"
  by (simp add: used_up_def)

lemma consume_code_used:
  assumes "consume_code now code i db = (n, db')"
  shows "used_up h db \<Longrightarrow> used_up h db'" "bg_bindings db' = bg_bindings db" "bg_conversations db' = bg_conversations db"
  using assms by (auto simp: consume_code_def Let_def used_up_def upd_rows_def)

definition codes_ok :: "gateway \<Rightarrow> bool" where
  "codes_ok db \<longleftrightarrow> distinct (map co_id (bg_codes db)) \<and> distinct (map co_code_hash (bg_codes db))"

lemma consume_code_hash:
  assumes "codes_ok db" and "code \<in> set (bg_codes db)" and "consume_code now code i db = (1, db')"
  shows "used_up (co_code_hash code) db'"
proof -
  let ?P = "\<lambda>c. co_id c = co_id code \<and> co_consumed_at c = None \<and> co_expires_at c > now"
  have inj: "inj_on co_id (set (bg_codes db))" "inj_on co_code_hash (set (bg_codes db))" using assms(1) by (auto simp: codes_ok_def distinct_map)
  have "\<exists>c \<in> set (bg_codes db). ?P c"
  proof (rule ccontr)
    assume "\<not> ?thesis"
    then have "filter ?P (bg_codes db) = []" by (auto simp: filter_empty_conv)
    with assms(3) show False by (simp add: consume_code_def Let_def count_rows_def)
  qed
  then obtain c where c: "c \<in> set (bg_codes db)" "?P c" by blast
  then have "c = code" using inj(1) assms(2) by (auto dest: inj_onD)
  with c have "?P code" by simp
  moreover have "x = code" if "x \<in> set (bg_codes db)" "co_code_hash x = co_code_hash code" for x
    using inj(2) assms(2) that by (auto dest: inj_onD)
  ultimately have P: "?P x" if "x \<in> set (bg_codes db)" "co_code_hash x = co_code_hash code" for x using that by metis
  have "bg_codes db' = upd_rows ?P (\<lambda>c. c\<lparr>co_consumed_at := Some now, co_consumed_by_binding_id := Some i\<rparr>) (bg_codes db)"
    using assms(3) by (auto simp: consume_code_def Let_def)
  then have rows: "\<exists>x \<in> set (bg_codes db). y = (if ?P x then x\<lparr>co_consumed_at := Some now, co_consumed_by_binding_id := Some i\<rparr> else x)"
    if "y \<in> set (bg_codes db')" for y using that by (simp only: in_upd_rows)
  show ?thesis unfolding used_up_def
  proof (intro ballI impI)
    fix y assume y: "y \<in> set (bg_codes db')" "co_code_hash y = co_code_hash code"
    from rows [OF y(1)] obtain x where x: "x \<in> set (bg_codes db)"
      "y = (if ?P x then x\<lparr>co_consumed_at := Some now, co_consumed_by_binding_id := Some i\<rparr> else x)" by blast
    have "co_code_hash x = co_code_hash code" using y(2) x(2) by (cases "?P x") simp_all
    from P [OF x(1) this] x(2) show "co_consumed_at y \<noteq> None" by simp
  qed
qed

lemma consume_code_ok:
  assumes "codes_ok db" and "consume_code now code i db = (n, db')"
  shows "codes_ok db'"
  using assms by (auto simp: consume_code_def Let_def codes_ok_def map_upd_rows)

lemma bind_with_code_cases:
  assumes "bind_with_code role i now c ch x d h db = (res, db')"
  obtains (refused) e where "res = Inl e" "db' = db"
  | (fresh) code where "check_code role now ch h db = Inr code" "check_identity c x (co_user_id code) db = Inr None"
      "i \<notin> bd_id ` set (bg_bindings db)"
      "consume_code now code i (db\<lparr>bg_bindings := bg_bindings db @ [new_binding i now c (co_user_id code) x d (Some now)]\<rparr>) = (1, db')"
  | (again) code b where "check_code role now ch h db = Inr code" "check_identity c x (co_user_id code) db = Inr (Some b)"
      "consume_code now code (bd_id b) (db\<lparr>bg_bindings := upd_rows (\<lambda>y. bd_id y = bd_id b \<and> \<not> bd_blocked y) (rebind now (co_user_id code) d) (bg_bindings db),
         bg_conversations := filter (\<lambda>cv. cv_binding_id cv \<noteq> bd_id b) (bg_conversations db)\<rparr>) = (1, db')"
proof (cases "check_code role now ch h db")
  case (Inl e)
  with assms show ?thesis by (intro refused) (auto simp: bind_with_code_def)
next
  case code: (Inr code)
  show ?thesis
  proof (cases "check_identity c x (co_user_id code) db")
    case (Inl e)
    with assms code show ?thesis by (intro refused) (auto simp: bind_with_code_def)
  next
    case ident: (Inr ob)
    show ?thesis
    proof (cases ob)
      case None
      note ident = ident [unfolded None]
      obtain n db1 where n: "consume_code now code i (db\<lparr>bg_bindings := bg_bindings db @ [new_binding i now c (co_user_id code) x d (Some now)]\<rparr>) = (n, db1)"
        by fastforce
      show ?thesis
      proof (cases "i \<notin> bd_id ` set (bg_bindings db) \<and> n = 1")
        case True
        with assms code ident n have "db' = db1" by (simp add: bind_with_code_def Let_def)
        with True n show ?thesis by (intro fresh [OF code ident]) simp_all
      next
        case False
        with assms code ident n have "(\<exists>e. res = Inl e) \<and> db' = db" by (auto simp: bind_with_code_def Let_def split: if_splits)
        then show ?thesis using refused by blast
      qed
    next
      case (Some b)
      note ident = ident [unfolded Some]
      let ?P = "\<lambda>y. bd_id y = bd_id b \<and> \<not> bd_blocked y"
      let ?db = "db\<lparr>bg_bindings := upd_rows ?P (rebind now (co_user_id code) d) (bg_bindings db),
         bg_conversations := filter (\<lambda>cv. cv_binding_id cv \<noteq> bd_id b) (bg_conversations db)\<rparr>"
      obtain n db1 where n: "consume_code now code (bd_id b) ?db = (n, db1)" by fastforce
      show ?thesis
      proof (cases "count_rows ?P (bg_bindings db) = 1 \<and> n = 1")
        case True
        with assms code ident n have "db' = db1" by (simp add: bind_with_code_def Let_def)
        with True n show ?thesis by (intro again [OF code ident]) simp_all
      next
        case False
        with assms code ident n have "(\<exists>e. res = Inl e) \<and> db' = db" by (auto simp: bind_with_code_def Let_def split: if_splits)
        then show ?thesis using refused by blast
      qed
    qed
  qed
qed

lemma check_code_Inr: "check_code role now ch h db = Inr code \<Longrightarrow> code \<in> set (bg_codes db) \<and> co_code_hash code = h"
  by (auto simp: check_code_def split: option.splits if_splits dest: find_Some)

lemma bind_uses_up:
  assumes "codes_ok db" and "bind_with_code role i now c ch x d h db = (Inr r, db')"
  shows "used_up h db'"
  using assms(2)
proof (cases rule: bind_with_code_cases)
  case (fresh code)
  have "codes_ok (db\<lparr>bg_bindings := bg_bindings db @ [new_binding i now c (co_user_id code) x d (Some now)]\<rparr>)"
    using assms(1) by (simp add: codes_ok_def)
  from consume_code_hash [OF this _ fresh(4)] check_code_Inr [OF fresh(1)] show ?thesis by simp
next
  case (again code b)
  let ?db = "db\<lparr>bg_bindings := upd_rows (\<lambda>y. bd_id y = bd_id b \<and> \<not> bd_blocked y) (rebind now (co_user_id code) d) (bg_bindings db),
         bg_conversations := filter (\<lambda>cv. cv_binding_id cv \<noteq> bd_id b) (bg_conversations db)\<rparr>"
  have "codes_ok ?db" using assms(1) by (simp add: codes_ok_def)
  from consume_code_hash [OF this _ again(3)] check_code_Inr [OF again(1)] show ?thesis by simp
qed auto

lemma create_code_cases:
  assumes "create_binding_code i now u h ch ex db = (res, db')"
  obtains "db' = db" "isl res"
  | codes where "bg_bindings db' = bg_bindings db" "bg_conversations db' = bg_conversations db"
      "bg_codes db' = codes @ [\<lparr>co_id = i, co_user_id = u, co_channel = ch, co_code_hash = h, co_expires_at = ex,
          co_consumed_at = None, co_consumed_by_binding_id = None, co_created_at = now\<rparr>]"
      "codes = upd_rows (\<lambda>c. co_user_id c = u \<and> co_consumed_at c = None \<and> co_channel c = ch) (\<lambda>c. c\<lparr>co_consumed_at := Some now\<rparr>) (bg_codes db)"
      "i \<notin> co_id ` set codes" "h \<notin> co_code_hash ` set codes"
proof -
  let ?codes = "upd_rows (\<lambda>c. co_user_id c = u \<and> co_consumed_at c = None \<and> co_channel c = ch) (\<lambda>c. c\<lparr>co_consumed_at := Some now\<rparr>) (bg_codes db)"
  show thesis
  proof (cases "i \<in> co_id ` set ?codes \<or> h \<in> co_code_hash ` set ?codes")
    case True
    with assms have "db' = db \<and> isl res" unfolding create_binding_code_def Let_def if_P [OF True] by auto
    then show ?thesis using that(1) by blast
  next
    case False
    from assms have "db' = db\<lparr>bg_codes := ?codes @ [\<lparr>co_id = i, co_user_id = u, co_channel = ch, co_code_hash = h, co_expires_at = ex,
          co_consumed_at = None, co_consumed_by_binding_id = None, co_created_at = now\<rparr>]\<rparr>"
      unfolding create_binding_code_def Let_def if_not_P [OF False] by simp
    with False show ?thesis by (intro that(2) [OF _ _ _ refl]) simp_all
  qed
qed

lemma ensure_owner_codes: "bg_codes (snd (ensure_owner_binding to_str ids now c x d db)) = bg_codes db"
  by (simp add: ensure_owner_binding_def Let_def add_binding_history_def split: option.splits)

lemma converse_codes: "bg_codes (snd (converse i now c x ct cid s db)) = bg_codes db"
  by (simp add: converse_def get_or_create_conversation_def Let_def split: option.splits prod.splits)

text \<open>The operations that leave the codes alone.\<close>

definition code_op :: "bind_op \<Rightarrow> bool" where
  "code_op op \<longleftrightarrow> (case op of Create_code i now u h ch ex \<Rightarrow> True | Bind i now c ch x d h \<Rightarrow> True | Forget now ret force \<Rightarrow> True
     | Delete_connection c u \<Rightarrow> True | _ \<Rightarrow> False)"

lemma exec_other_codes: "\<not> code_op op \<Longrightarrow> bg_codes (snd (bind_exec role to_str op db)) = bg_codes db"
  by (cases op)
    (simp_all add: code_op_def ensure_owner_codes converse_codes request_unbind_def block_binding_def unblock_binding_def unbind_def
      touch_binding_def update_conversation_def delete_conversations_def Let_def case_prod_beta split: option.splits)

lemma cleanup_keeps:
  shows "bg_bindings (snd (cleanup_expired_records now ret force db)) = bg_bindings db"
    and "bg_conversations (snd (cleanup_expired_records now ret force db)) = bg_conversations db"
    and "\<exists>R. bg_codes (snd (cleanup_expired_records now ret force db)) = filter R (bg_codes db)"
proof -
  have "\<exists>R. bg_codes db = filter R (bg_codes db)" by (rule exI [of _ "\<lambda>_. True"]) simp
  then show "\<exists>R. bg_codes (snd (cleanup_expired_records now ret force db)) = filter R (bg_codes db)"
    by (cases "\<not> force \<and> now < bg_next_cleanup_at db") (auto simp: cleanup_expired_records_def Let_def)
qed (simp_all add: cleanup_expired_records_def Let_def)

lemma bind_codes:
  assumes "codes_ok db" and "bind_with_code role i now c ch x d h db = (res, db')"
  shows "codes_ok db' \<and> (used_up k db \<longrightarrow> used_up k db')"
  using assms(2)
proof (cases rule: bind_with_code_cases)
  case (fresh code)
  from consume_code_ok [OF _ fresh(4)] consume_code_used(1) [OF fresh(4)] assms(1) show ?thesis
    by (simp add: codes_ok_def used_up_def)
next
  case (again code b)
  from consume_code_ok [OF _ again(3)] consume_code_used(1) [OF again(3)] assms(1) show ?thesis
    by (simp add: codes_ok_def used_up_def)
qed (use assms(1) in simp)

lemma delete_codes:
  assumes ok: "codes_ok db" and x: "delete_owned_connection c u db = (b, db')"
  shows "codes_ok db' \<and> (used_up h db \<longrightarrow> used_up h db')"
proof (cases b)
  case True
  then have "delete_owned_connection c u db = (True, db')" using x by simp
  note codes = delete_owned_True(8) [OF this]
  have "map co_id (bg_codes db') = map co_id (bg_codes db)" "map co_code_hash (bg_codes db') = map co_code_hash (bg_codes db)"
    unfolding codes by (simp_all add: map_upd_rows)
  moreover have "\<exists>z \<in> set (bg_codes db). co_code_hash y = co_code_hash z \<and> co_consumed_at y = co_consumed_at z" if "y \<in> set (bg_codes db')" for y
    using that unfolding codes in_upd_rows by (auto split: if_splits)
  ultimately show ?thesis using ok by (fastforce simp: codes_ok_def used_up_def)
next
  case False
  with x ok show ?thesis using delete_owned_False [of c u db db'] by simp
qed

lemma exec_codes:
  assumes ok: "codes_ok db" and x: "bind_exec role to_str op db = (b, db')"
  shows "codes_ok db'" and "used_up h db \<Longrightarrow> (\<And>i now u ch ex. op \<noteq> Create_code i now u h ch ex) \<Longrightarrow> used_up h db'"
proof -
  have "codes_ok db' \<and> (used_up h db \<and> (\<forall>i now u ch ex. op \<noteq> Create_code i now u h ch ex) \<longrightarrow> used_up h db')"
  proof (cases "code_op op")
    case False
    then have "bg_codes db' = bg_codes db" using exec_other_codes [OF False, of role to_str db] x by simp
    with ok show ?thesis by (simp add: codes_ok_def used_up_def)
  next
    case True
    then consider (create) i now u k ch ex where "op = Create_code i now u k ch ex" | (bind) i now c ch y d k where "op = Bind i now c ch y d k"
      | (forget) now ret force where "op = Forget now ret force" | (delete) c u where "op = Delete_connection c u" by (cases op) (auto simp: code_op_def)
    then show ?thesis
    proof cases
      case create
      obtain r where r: "create_binding_code i now u k ch ex db = (r, db')" using x create by (auto split: prod.splits)
      then show ?thesis
      proof (cases rule: create_code_cases)
        case (2 codes)
        have m: "map co_id codes = map co_id (bg_codes db)" "map co_code_hash codes = map co_code_hash (bg_codes db)"
          unfolding 2(4) by (simp_all add: map_upd_rows)
        have used: "co_consumed_at y \<noteq> None" if h: "used_up h db" "co_code_hash y = h" and y: "y \<in> set codes" for y
        proof -
          from y obtain z where z: "z \<in> set (bg_codes db)" "y = (if co_user_id z = u \<and> co_consumed_at z = None \<and> co_channel z = ch
              then z\<lparr>co_consumed_at := Some now\<rparr> else z)" unfolding 2(4) in_upd_rows by blast
          have "co_code_hash z = h" using h(2) z(2) by (cases "co_user_id z = u \<and> co_consumed_at z = None \<and> co_channel z = ch") simp_all
          then have "co_consumed_at z \<noteq> None" using h(1) z(1) unfolding used_up_def by blast
          then show ?thesis using z(2) by simp
        qed
        have "k \<noteq> h" if "\<forall>i now u ch ex. op \<noteq> Create_code i now u h ch ex" using that create by auto
        with used have "used_up h db'" if "used_up h db" "\<forall>i now u ch ex. op \<noteq> Create_code i now u h ch ex"
          using that unfolding used_up_def 2(3) by auto
        moreover have "i \<notin> set (map co_id (bg_codes db))" "k \<notin> set (map co_code_hash (bg_codes db))"
          using 2(5,6) unfolding m [symmetric] by simp_all
        then have "codes_ok db'" using ok m unfolding codes_ok_def 2(3) by simp
        ultimately show ?thesis by blast
      qed (use ok in simp)
    next
      case bind
      with x obtain r where "bind_with_code role i now c ch y d k db = (r, db')" by (auto split: prod.splits)
      from bind_codes [OF ok this] show ?thesis by blast
    next
      case forget
      obtain R where R: "bg_codes db' = filter R (bg_codes db)" using x forget cleanup_keeps(3) [of now ret force db] by auto
      then have "used_up h db \<Longrightarrow> used_up h db'" by (simp add: used_up_def)
      with ok show ?thesis by (simp add: codes_ok_def R distinct_map_filter)
    next
      case delete
      with x delete_codes [OF ok] show ?thesis by simp
    qed
  qed
  then show "codes_ok db'" "used_up h db \<Longrightarrow> (\<And>i now u ch ex. op \<noteq> Create_code i now u h ch ex) \<Longrightarrow> used_up h db'" by auto
qed

lemma run_codes:
  assumes "codes_ok db" and "used_up h db" and "\<And>i now u ch ex. Create_code i now u h ch ex \<notin> set ops"
    and "bind_run role to_str ops db = (bs, db')"
  shows "length bs = length ops \<and> (\<forall>j < length ops. \<forall>i now c ch x d. ops ! j = Bind i now c ch x d h \<longrightarrow> \<not> bs ! j)"
  using assms
proof (induction ops arbitrary: db bs)
  case (Cons op ops)
  obtain b db1 where x: "bind_exec role to_str op db = (b, db1)" by fastforce
  obtain bs1 where bs: "bind_run role to_str ops db1 = (bs1, db')" "bs = b # bs1" using Cons.prems(4) x by (auto split: prod.splits)
  have ops: "Create_code i now u h ch ex \<notin> set ops" for i now u ch ex using Cons.prems(3) [of i now u ch ex] by simp
  have nc: "op \<noteq> Create_code i now u h ch ex" for i now u ch ex using Cons.prems(3) [of i now u ch ex] by auto
  have "\<not> b" if "op = Bind i now c ch y d h" for i now c ch y d
    using x unfolding that by (simp add: used_up_refuses [OF Cons.prems(2)])
  moreover note Cons.IH [OF exec_codes(1) [OF Cons.prems(1) x] exec_codes(2) [OF Cons.prems(1) x Cons.prems(2) nc] ops bs(1)]
  ultimately show ?case by (auto simp: bs(2) nth_Cons split: nat.splits)
qed simp

subsection \<open>Bindings and conversations\<close>

definition bindings_ok :: "gateway \<Rightarrow> bool" where
  "bindings_ok db \<longleftrightarrow> distinct (map bd_id (bg_bindings db)) \<and>
     distinct (map (\<lambda>b. (bd_connection_id b, bd_external_user_id b)) (bg_bindings db)) \<and>
     (\<forall>b \<in> set (bg_bindings db). bd_blocked b \<longrightarrow> \<not> bd_enabled b)"

definition conversation_of :: "bg_binding \<Rightarrow> bg_conversation \<Rightarrow> bool" where
  "conversation_of b c \<longleftrightarrow> bd_id b = cv_binding_id c \<and> bd_user_id b = cv_user_id c \<and> bd_connection_id b = cv_connection_id c \<and> bd_enabled b"

definition private_conversations :: "gateway \<Rightarrow> bool" where
  "private_conversations db \<longleftrightarrow> (\<forall>c \<in> set (bg_conversations db). \<exists>b \<in> set (bg_bindings db). conversation_of b c)"

definition gateway_ok :: "gateway \<Rightarrow> bool" where
  "gateway_ok db \<longleftrightarrow> bindings_ok db \<and> private_conversations db"

text \<open>An update of bindings that keeps their keys, and never enables a blocked one.\<close>

lemma bindings_ok_upd:
  assumes "bindings_ok db" and "bg_bindings db' = upd_rows P f (bg_bindings db)"
    and "\<And>b. bd_id (f b) = bd_id b \<and> bd_connection_id (f b) = bd_connection_id b \<and> bd_external_user_id (f b) = bd_external_user_id b"
    and "\<And>b. P b \<Longrightarrow> (bd_blocked b \<longrightarrow> \<not> bd_enabled b) \<Longrightarrow> bd_blocked (f b) \<longrightarrow> \<not> bd_enabled (f b)"
  shows "bindings_ok db'"
proof -
  have "map bd_id (bg_bindings db') = map bd_id (bg_bindings db)"
    "map (\<lambda>b. (bd_connection_id b, bd_external_user_id b)) (bg_bindings db') = map (\<lambda>b. (bd_connection_id b, bd_external_user_id b)) (bg_bindings db)"
    unfolding assms(2) using assms(3) by (simp_all add: map_upd_rows)
  moreover have "bd_blocked b \<longrightarrow> \<not> bd_enabled b" if "b \<in> set (bg_bindings db')" for b
  proof -
    from that obtain z where z: "z \<in> set (bg_bindings db)" "b = (if P z then f z else z)" unfolding assms(2) in_upd_rows by blast
    have "bd_blocked z \<longrightarrow> \<not> bd_enabled z" using assms(1) z(1) by (auto simp: bindings_ok_def)
    then show ?thesis using assms(4) [of z] z(2) by (cases "P z") simp_all
  qed
  ultimately show ?thesis using assms(1) by (simp add: bindings_ok_def)
qed

text \<open>Conversations survive an update that changes only bindings none of them belongs to, or keeps what they need.\<close>

lemma private_upd:
  assumes "private_conversations db" and "bg_bindings db' = upd_rows P f (bg_bindings db)"
    and "set (bg_conversations db') \<subseteq> set (bg_conversations db)"
    and "\<And>b c. b \<in> set (bg_bindings db) \<Longrightarrow> P b \<Longrightarrow> c \<in> set (bg_conversations db') \<Longrightarrow> conversation_of b c \<Longrightarrow> conversation_of (f b) c"
  shows "private_conversations db'"
  unfolding private_conversations_def
proof
  fix c assume c: "c \<in> set (bg_conversations db')"
  then obtain b where b: "b \<in> set (bg_bindings db)" "conversation_of b c" using assms(1,3) by (auto simp: private_conversations_def)
  let ?b = "if P b then f b else b"
  have "?b \<in> set (bg_bindings db')" unfolding assms(2) in_upd_rows using b(1) by blast
  moreover have "conversation_of ?b c" using assms(4) [OF b(1) _ c b(2)] b(2) by simp
  ultimately show "\<exists>b \<in> set (bg_bindings db'). conversation_of b c" by blast
qed

lemma private_more:
  assumes "private_conversations db" and "set (bg_bindings db) \<subseteq> set (bg_bindings db')" and "bg_conversations db' = bg_conversations db"
  shows "private_conversations db'"
  using assms by (auto simp: private_conversations_def)

lemma gateway_ok_same:
  "gateway_ok db \<Longrightarrow> bg_bindings db' = bg_bindings db \<Longrightarrow> bg_conversations db' = bg_conversations db \<Longrightarrow> gateway_ok db'"
  by (simp add: gateway_ok_def bindings_ok_def private_conversations_def)

lemma gateway_ok_upd:
  assumes "gateway_ok db" and "bg_bindings db' = upd_rows P f (bg_bindings db)"
    and "set (bg_conversations db') \<subseteq> set (bg_conversations db)"
    and "\<And>b. bd_id (f b) = bd_id b \<and> bd_connection_id (f b) = bd_connection_id b \<and> bd_external_user_id (f b) = bd_external_user_id b"
    and "\<And>b. P b \<Longrightarrow> (bd_blocked b \<longrightarrow> \<not> bd_enabled b) \<Longrightarrow> bd_blocked (f b) \<longrightarrow> \<not> bd_enabled (f b)"
    and "\<And>b c. b \<in> set (bg_bindings db) \<Longrightarrow> P b \<Longrightarrow> c \<in> set (bg_conversations db') \<Longrightarrow> conversation_of b c \<Longrightarrow> conversation_of (f b) c"
  shows "gateway_ok db'"
  using bindings_ok_upd [OF _ assms(2,4,5)] private_upd [OF _ assms(2,3,6)] assms(1) by (simp add: gateway_ok_def)

text \<open>A new identity, under an id no binding has.\<close>

lemma gateway_ok_add:
  assumes "gateway_ok db" and "bg_bindings db' = bg_bindings db @ [new_binding i now c u x d s]" and "bg_conversations db' = bg_conversations db"
    and "i \<notin> bd_id ` set (bg_bindings db)"
    and "find (\<lambda>b. bd_connection_id b = c \<and> bd_external_user_id b = x) (bg_bindings db) = None"
  shows "gateway_ok db'"
proof -
  have "private_conversations db'" by (rule private_more [of db]) (use assms(1-3) in \<open>auto simp: gateway_ok_def\<close>)
  moreover have "(c, x) \<notin> (\<lambda>b. (bd_connection_id b, bd_external_user_id b)) ` set (bg_bindings db)"
    using assms(5) by (auto simp: find_None_iff)
  then have "bindings_ok db'" using assms(1,4) unfolding gateway_ok_def bindings_ok_def assms(2)
    by (auto simp: new_binding_def)
  ultimately show ?thesis by (simp add: gateway_ok_def)
qed

lemma check_identity_None:
  "check_identity c x u db = Inr None \<Longrightarrow> find (\<lambda>b. bd_connection_id b = c \<and> bd_external_user_id b = x) (bg_bindings db) = None"
  by (auto simp: check_identity_def split: option.splits if_splits)

lemma bind_gateway_ok:
  assumes "gateway_ok db" and "bind_with_code role i now c ch x d h db = (res, db')"
  shows "gateway_ok db'"
  using assms(2)
proof (cases rule: bind_with_code_cases)
  case (fresh code)
  from consume_code_used(2,3) [OF fresh(4)] have t: "bg_bindings db' = bg_bindings db @ [new_binding i now c (co_user_id code) x d (Some now)]"
    "bg_conversations db' = bg_conversations db" by simp_all
  show ?thesis by (rule gateway_ok_add [OF assms(1) t fresh(3) check_identity_None [OF fresh(2)]])
next
  case (again code b)
  from consume_code_used(2,3) [OF again(3)]
  have t: "bg_bindings db' = upd_rows (\<lambda>y. bd_id y = bd_id b \<and> \<not> bd_blocked y) (rebind now (co_user_id code) d) (bg_bindings db)"
    "bg_conversations db' = filter (\<lambda>cv. cv_binding_id cv \<noteq> bd_id b) (bg_conversations db)" by simp_all
  show ?thesis by (rule gateway_ok_upd [OF assms(1) t(1)]) (auto simp: t(2) rebind_def conversation_of_def)
qed (use assms(1) in simp)

lemma ensure_owner_eligible:
  assumes "ensure_owner_binding to_str ids now c x d db = (res, db')" and "db' \<noteq> db"
  obtains cn owner where "find (\<lambda>r. cn_id r = c) (bg_connections db) = Some cn" "cn_owner_user_id cn = Some owner" "owner \<noteq> []"
    "\<not> (trusted_external_user_id to_str cn = [] \<or> trusted_external_user_id to_str cn \<noteq> x)"
proof (cases "find (\<lambda>r. cn_id r = c) (bg_connections db)")
  case (Some cn)
  show thesis
  proof (cases "cn_owner_user_id cn")
    case (Some owner)
    note e = assms(1) [unfolded ensure_owner_binding_def \<open>find (\<lambda>r. cn_id r = c) (bg_connections db) = Some cn\<close> option.case Some]
    have "owner \<noteq> []" using e assms(2) by (cases "owner = []") simp_all
    moreover have "\<not> (trusted_external_user_id to_str cn = [] \<or> trusted_external_user_id to_str cn \<noteq> x)"
    proof
      assume c: "trusted_external_user_id to_str cn = [] \<or> trusted_external_user_id to_str cn \<noteq> x"
      show False using e [unfolded if_P [OF c]] assms(2) by simp
    qed
    ultimately show thesis by (intro that [OF \<open>find (\<lambda>r. cn_id r = c) (bg_connections db) = Some cn\<close> Some])
  qed (use assms Some in \<open>simp add: ensure_owner_binding_def\<close>)
qed (use assms in \<open>simp add: ensure_owner_binding_def\<close>)

lemma history_keeps:
  "bg_bindings (add_binding_history h db) = bg_bindings db" "bg_conversations (add_binding_history h db) = bg_conversations db"
  by (simp_all add: add_binding_history_def)

lemma ensure_owner_gateway_ok:
  assumes ok: "gateway_ok db" and x: "ensure_owner_binding to_str ids now c x d db = (res, db')"
  shows "gateway_ok db'"
proof (cases "db' = db")
  case False
  let ?find = "find (\<lambda>b. bd_connection_id b = c \<and> bd_external_user_id b = x) (bg_bindings db)"
  obtain cn owner where cn: "find (\<lambda>r. cn_id r = c) (bg_connections db) = Some cn" "cn_owner_user_id cn = Some owner" "owner \<noteq> []"
    "\<not> (trusted_external_user_id to_str cn = [] \<or> trusted_external_user_id to_str cn \<noteq> x)"
    by (rule ensure_owner_eligible [OF x False])
  have d: "db' = snd (ensure_owner_binding to_str ids now c x d db)" using x by simp
  note e = ensure_owner_binding_def [of to_str ids now c x d db, unfolded cn(1) option.case cn(2) if_not_P [OF cn(3)] if_not_P [OF cn(4)]]
  show ?thesis
  proof (cases ?find)
    case None
    have "\<not> list_ex (\<lambda>b. bd_connection_id b = c \<and> bd_enabled b \<and> \<not> bd_blocked b) (bg_bindings db)"
      using x False by (cases "list_ex (\<lambda>b. bd_connection_id b = c \<and> bd_enabled b \<and> \<not> bd_blocked b) (bg_bindings db)") (simp_all add: e None)
    moreover from this have new: "ids 0 \<notin> bd_id ` set (bg_bindings db)" using x False
      by (cases "ids 0 \<in> bd_id ` set (bg_bindings db)") (simp_all add: e None)
    ultimately obtain h where "db' = add_binding_history h (db\<lparr>bg_bindings := bg_bindings db @ [new_binding (ids 0) now c owner x d None]\<rparr>)"
      unfolding d e None option.case by (simp only: if_False Let_def snd_conv)
    then have t: "bg_conversations db' = bg_conversations db" "bg_bindings db' = bg_bindings db @ [new_binding (ids 0) now c owner x d None]"
      by (simp_all add: history_keeps)
    show ?thesis by (rule gateway_ok_add [OF ok t(2,1) new None])
  next
    case (Some b)
    let ?f = "\<lambda>x. x\<lparr>bd_updated_at := now, bd_display_name := (case d of Some (ch # s) \<Rightarrow> d | _ \<Rightarrow> bd_display_name x)\<rparr>"
    have keep: "\<not> (bd_user_id b \<noteq> owner \<or> bd_blocked b \<or> \<not> bd_enabled b)"
    proof
      assume c: "bd_user_id b \<noteq> owner \<or> bd_blocked b \<or> \<not> bd_enabled b"
      show False using x False unfolding e Some option.case if_P [OF c] by simp
    qed
    have t: "bg_bindings db' = upd_rows (\<lambda>x. bd_id x = bd_id b) ?f (bg_bindings db)" "bg_conversations db' = bg_conversations db"
      unfolding d e Some option.case if_not_P [OF keep] by (simp_all add: Let_def)
    show ?thesis by (rule gateway_ok_upd [OF ok t(1)]) (simp_all add: t(2) conversation_of_def)
  qed
qed (use ok in simp)

lemma conversation_value_keeps:
  "cv_binding_id (fold set_conversation_value vs c) = cv_binding_id c \<and> cv_user_id (fold set_conversation_value vs c) = cv_user_id c \<and>
   cv_connection_id (fold set_conversation_value vs c) = cv_connection_id c"
proof (induction vs arbitrary: c)
  case (Cons v vs)
  then show ?case by (cases v) simp_all
qed simp

lemma update_conversation_gateway_ok:
  assumes "gateway_ok db" and "update_conversation now i vs db = (res, db')"
  shows "gateway_ok db'"
proof (cases "find (\<lambda>c. cv_id c = i) (bg_conversations db)")
  case (Some c)
  let ?f = "\<lambda>c. (fold set_conversation_value vs c)\<lparr>cv_updated_at := now\<rparr>"
  from Some assms(2) have t: "bg_bindings db' = bg_bindings db" "bg_conversations db' = upd_rows (\<lambda>c. cv_id c = i) ?f (bg_conversations db)"
    by (auto simp: update_conversation_def Let_def)
  have "\<exists>b \<in> set (bg_bindings db). conversation_of b y" if "y \<in> set (bg_conversations db')" for y
  proof -
    from that obtain z where z: "z \<in> set (bg_conversations db)" "y = (if cv_id z = i then ?f z else z)" unfolding t(2) in_upd_rows by blast
    have "conversation_of b y = conversation_of b z" for b unfolding conversation_of_def z(2) by (simp add: conversation_value_keeps)
    with z(1) assms(1) show ?thesis by (auto simp: gateway_ok_def private_conversations_def)
  qed
  with assms(1) t(1) show ?thesis by (simp add: gateway_ok_def private_conversations_def bindings_ok_def)
qed (use assms in \<open>simp add: update_conversation_def\<close>)

lemma converse_gateway_ok:
  assumes ok: "gateway_ok db" and "converse i now c x ct cid s db = (res, db')"
  shows "gateway_ok db'"
proof (cases "get_enabled_binding db c x")
  case (Some b)
  then have b: "b \<in> set (bg_bindings db)" "bd_enabled b" by (auto simp: get_enabled_binding_def dest: find_Some)
  obtain r where r: "get_or_create_conversation i now b ct cid s db = (r, db')"
    using assms(2) Some by (cases "get_or_create_conversation i now b ct cid s db") (auto simp: converse_def split: sum.splits)
  have "bg_bindings db' = bg_bindings db \<and> (bg_conversations db' = bg_conversations db \<or> (\<exists>k. conversation_of b k \<and> bg_conversations db' = bg_conversations db @ [k]))"
    using r b(2) by (auto simp: get_or_create_conversation_def Let_def conversation_of_def split: prod.splits option.splits if_splits)
  with ok b(1) show ?thesis by (auto simp: gateway_ok_def bindings_ok_def private_conversations_def)
qed (use assms in \<open>simp add: converse_def\<close>)

lemma unblock_gateway_ok:
  assumes ok: "gateway_ok db"
  shows "gateway_ok (snd (unblock_binding now i db))"
proof -
  have "\<not> bd_enabled b" if "b \<in> set (bg_bindings db)" "bd_blocked b" for b using ok that by (auto simp: gateway_ok_def bindings_ok_def)
  moreover have t: "bg_bindings (snd (unblock_binding now i db)) = upd_rows (\<lambda>b. bd_id b = i \<and> bd_blocked b)
      (\<lambda>b. b\<lparr>bd_enabled := False, bd_blocked := False, bd_blocked_at := None, bd_blocked_by := None, bd_updated_at := now\<rparr>) (bg_bindings db)"
    "bg_conversations (snd (unblock_binding now i db)) = bg_conversations db" by (simp_all add: unblock_binding_def Let_def)
  ultimately show ?thesis by (intro gateway_ok_upd [OF ok t(1)]) (auto simp: t(2) conversation_of_def)
qed

lemma request_unbind_gateway_ok:
  assumes ok: "gateway_ok db" and x: "request_unbind now i u db = (r, db')"
  shows "gateway_ok db'"
proof (cases r)
  case True
  then have t: "bg_bindings db' = upd_rows (\<lambda>x. bd_id x = i) (\<lambda>x. x\<lparr>bd_unbind_requested_at := Some now, bd_updated_at := now\<rparr>) (bg_bindings db)"
    "bg_conversations db' = bg_conversations db" using x by (auto simp: request_unbind_def split: option.splits if_splits)
  show ?thesis by (rule gateway_ok_upd [OF ok t(1)]) (simp_all add: t(2) conversation_of_def)
next
  case False
  with x ok show ?thesis by (auto simp: request_unbind_def split: option.splits if_splits)
qed

lemma block_gateway_ok:
  assumes ok: "gateway_ok db" and x: "block_binding now i u db = (r, db')"
  shows "gateway_ok db'"
proof (cases r)
  case True
  then have t: "bg_bindings db' = upd_rows (\<lambda>b. bd_id b = i) (\<lambda>b. b\<lparr>bd_enabled := False, bd_blocked := True, bd_blocked_at := Some now,
      bd_blocked_by := Some u, bd_unbind_requested_at := None, bd_updated_at := now\<rparr>) (bg_bindings db)"
    "bg_conversations db' = filter (\<lambda>c. cv_binding_id c \<noteq> i) (bg_conversations db)"
    using x by (auto simp: block_binding_def delete_conversations_def split: if_splits)
  show ?thesis by (rule gateway_ok_upd [OF ok t(1)]) (auto simp: t(2) conversation_of_def)
next
  case False
  with x ok show ?thesis by (auto simp: block_binding_def split: if_splits)
qed

lemma unbind_gateway_ok:
  assumes ok: "gateway_ok db" and x: "unbind now i u conf db = (r, db')"
  shows "gateway_ok db'"
proof (cases r)
  case True
  then have t: "bg_bindings db' = upd_rows (\<lambda>x. bd_id x = i) (\<lambda>x. x\<lparr>bd_enabled := False, bd_unbind_requested_at := None, bd_updated_at := now\<rparr>) (bg_bindings db)"
    "bg_conversations db' = filter (\<lambda>c. cv_binding_id c \<noteq> i) (bg_conversations db)"
    using x by (auto simp: unbind_def delete_conversations_def split: if_splits option.splits)
  show ?thesis by (rule gateway_ok_upd [OF ok t(1)]) (auto simp: t(2) conversation_of_def)
next
  case False
  with x ok show ?thesis by (auto simp: unbind_def split: if_splits option.splits)
qed

lemma touch_gateway_ok: "gateway_ok db \<Longrightarrow> gateway_ok (touch_binding now i d db)"
  by (erule gateway_ok_upd [where P = "\<lambda>b. bd_id b = i" and f = "\<lambda>b. b\<lparr>bd_last_seen_at := Some now, bd_updated_at := now, bd_display_name :=
       (case d of Some (ch # s) \<Rightarrow> d | _ \<Rightarrow> bd_display_name b)\<rparr>"]) (simp_all add: touch_binding_def conversation_of_def)

lemma delete_gateway_ok:
  assumes ok: "gateway_ok db" and x: "delete_owned_connection c u db = (b, db')"
  shows "gateway_ok db'"
proof (cases b)
  case True
  then have "delete_owned_connection c u db = (True, db')" using x by simp
  note t = delete_owned_True(1,2) [OF this]
  have "bindings_ok db'" using ok by (simp add: gateway_ok_def bindings_ok_def t distinct_map_filter)
  moreover have "private_conversations db'" unfolding private_conversations_def t
  proof
    fix v assume v: "v \<in> set (filter (\<lambda>v. cv_connection_id v \<noteq> c) (bg_conversations db))"
    then obtain b where "b \<in> set (bg_bindings db)" "conversation_of b v" using ok by (auto simp: gateway_ok_def private_conversations_def)
    with v show "\<exists>b \<in> set (filter (\<lambda>b. bd_connection_id b \<noteq> c) (bg_bindings db)). conversation_of b v"
      by (intro bexI [of _ b]) (auto simp: conversation_of_def)
  qed
  ultimately show ?thesis by (simp add: gateway_ok_def)
next
  case False
  with x ok show ?thesis using delete_owned_False [of c u db db'] by simp
qed

lemma exec_gateway_ok:
  assumes ok: "gateway_ok db" and x: "bind_exec role to_str op db = (r, db')"
  shows "gateway_ok db'"
proof (cases op)
  case (Create_code i now u h ch ex)
  with x obtain res where "create_binding_code i now u h ch ex db = (res, db')" by (auto split: prod.splits)
  then show ?thesis by (cases rule: create_code_cases) (use ok gateway_ok_same in auto)
next
  case (Bind i now c ch y d h)
  with x bind_gateway_ok [OF ok] show ?thesis by (auto split: prod.splits)
next
  case (Ensure_owner ids now c y d)
  with x ensure_owner_gateway_ok [OF ok] show ?thesis by (auto split: prod.splits)
next
  case (Unblock now i)
  with x unblock_gateway_ok [OF ok, of now i] show ?thesis by simp
next
  case (Touch now i d)
  with x touch_gateway_ok [OF ok] show ?thesis by auto
next
  case (Converse i now c y ct cid s)
  with x converse_gateway_ok [OF ok] show ?thesis by (auto split: prod.splits)
next
  case (Set_conversation now i vs)
  with x update_conversation_gateway_ok [OF ok] show ?thesis by (auto split: prod.splits)
next
  case (Forget now ret force)
  with x gateway_ok_same [OF ok cleanup_keeps(1,2)] show ?thesis by auto
qed (use x in \<open>auto intro: request_unbind_gateway_ok [OF ok] block_gateway_ok [OF ok] unbind_gateway_ok [OF ok] delete_gateway_ok [OF ok]\<close>)

lemma run_gateway_ok: "gateway_ok db \<Longrightarrow> bind_run role to_str ops db = (bs, db') \<Longrightarrow> gateway_ok db'"
proof (induction ops arbitrary: db bs)
  case (Cons op ops)
  obtain b db1 where x: "bind_exec role to_str op db = (b, db1)" by fastforce
  obtain bs1 where bs: "bind_run role to_str ops db1 = (bs1, db')" using Cons.prems(2) x by (auto split: prod.splits)
  from Cons.IH [OF exec_gateway_ok [OF Cons.prems(1) x] bs] show ?case .
qed simp

lemma enabled_binding_found:
  assumes ok: "gateway_ok db" and b: "b \<in> set (bg_bindings db)" "bd_enabled b"
  shows "get_enabled_binding db (bd_connection_id b) (bd_external_user_id b) = Some b"
proof -
  let ?P = "\<lambda>x. bd_connection_id x = bd_connection_id b \<and> bd_external_user_id x = bd_external_user_id b \<and> bd_enabled x \<and> \<not> bd_blocked x"
  have inj: "inj_on (\<lambda>b. (bd_connection_id b, bd_external_user_id b)) (set (bg_bindings db))" and "\<not> bd_blocked b"
    using ok b by (auto simp: gateway_ok_def bindings_ok_def distinct_map)
  then obtain x where x: "find ?P (bg_bindings db) = Some x" using b by (cases "find ?P (bg_bindings db)") (auto simp: find_None_iff)
  then have "x \<in> set (bg_bindings db)" "?P x" by (auto dest: find_Some)
  with inj b(1) have "x = b" by (auto dest: inj_onD)
  with x show ?thesis by (simp add: get_enabled_binding_def)
qed

subsection \<open>Properties\<close>

text \<open>
  (C32) A binding code binds once. After it has bound an identity, no later attempt with the code
  succeeds, by whatever identity and on whatever connection, and whatever bindings are made, blocked,
  unblocked, released, deleted with their connection or cleaned up in between, unless a code with
  the same hash is created.
\<close>

theorem code_binds_once:
  assumes "codes_ok db" and "bind_with_code role i now c ch x d h db = (Inr bound, db')"
    and "\<And>i now u ch ex. Create_code i now u h ch ex \<notin> set ops"
    and "bind_run role to_str ops db' = (done_ops, db'')"
  shows "length done_ops = length ops \<and>
    (\<forall>j < length ops. \<forall>i now c ch x d. ops ! j = Bind i now c ch x d h \<longrightarrow> \<not> done_ops ! j)"
  by (rule run_codes [OF _ bind_uses_up [OF assms(1,2)] assms(3,4)]) (use bind_codes [OF assms(1,2)] in blast)

definition coded :: gateway where
  "coded = empty_gateway\<lparr>bg_codes := [\<lparr>co_id = ''k'', co_user_id = ''u'', co_channel = None, co_code_hash = ''h'', co_expires_at = 100,
     co_consumed_at = None, co_consumed_by_binding_id = None, co_created_at = 0\<rparr>]\<rparr>"

definition coded_ops :: "bind_op list" where
  "coded_ops = [Block 20 ''b1'' ''admin'', Unblock 30 ''b1'', Bind ''b2'' 40 ''c'' ''qq'' ''x'' None ''h'', Bind ''b3'' 50 ''c'' ''qq'' ''y'' None ''h'']"

theorem code_binds_once_witness:
  "fst (bind_run (\<lambda>u. Some ''user'') (\<lambda>v. []) coded_ops
     (snd (bind_with_code (\<lambda>u. Some ''user'') ''b1'' 10 ''c'' ''qq'' ''x'' None ''h'' coded))) = [True, True, False, False] \<and>
   \<not> fst (bind_run (\<lambda>u. Some ''user'') (\<lambda>v. []) coded_ops
     (snd (bind_with_code (\<lambda>u. Some ''user'') ''b1'' 10 ''c'' ''qq'' ''x'' None ''h'' coded))) ! 2"
proof -
  let ?r = "bind_with_code (\<lambda>u. Some ''user'') ''b1'' 10 ''c'' ''qq'' ''x'' None ''h'' coded"
  let ?s = "bind_run (\<lambda>u. Some ''user'') (\<lambda>v. []) coded_ops (snd ?r)"
  have ok: "codes_ok coded" by code_simp
  have r: "?r = (Inr (new_binding ''b1'' 10 ''c'' ''u'' ''x'' None (Some 10), True), snd ?r)" by code_simp
  have ops: "Create_code i now u ''h'' ch ex \<notin> set coded_ops" for i now u ch ex by (simp add: coded_ops_def)
  have s: "?s = (fst ?s, snd ?s)" by simp
  have "\<not> fst ?s ! 2" using code_binds_once [OF ok r ops s] by (simp add: coded_ops_def)
  moreover have "fst ?s = [True, True, False, False]" by code_simp
  ultimately show ?thesis by blast
qed


definition talk_ops :: "bind_op list" where
  "talk_ops = [Bind ''b1'' 10 ''c'' ''qq'' ''x'' None ''h'', Converse ''v'' 20 ''c'' ''x'' ''private'' [] ''x'']"


end
