(* ===== verification/Bot_Accounts.thy ===== *)
theory Bot_Accounts
  imports Bot_Connections
begin

text \<open>
  Bot accounts: saved credentials are read back, stored ciphertext is useless to another connection,
  an account is bound to one connection at a time, and a deleted connection leaves nothing behind.
\<close>

subsection \<open>Saving\<close>

lemma encrypted_json_ok: "encrypt_bot_credentials env iv credentials c channel = Inr envelope \<Longrightarrow> json_ok envelope"
  by (auto simp: encrypt_bot_credentials_def Let_def bind_result_def split: if_splits sum.splits)

lemma save_credential_Inr:
  assumes "save_credential env iv uuid now c channel credentials db = (Inr r, db')"
  obtains key digest envelope where "extract_account_key (PStr channel) credentials = Inr key"
    "credential_account_digest env (PStr channel) (PStr key) = Inr digest"
    "encrypt_bot_credentials env iv credentials c (PStr channel) = Inr envelope"
    "put_credential uuid now c channel digest (json_dumps '' '' (k_float_repr env) envelope) db = (Inr (), db')"
    "r = (c, channel, digest)"
proof -
  obtain key where key: "extract_account_key (PStr channel) credentials = Inr key" using assms
    by (cases "extract_account_key (PStr channel) credentials") (auto simp: save_credential_def)
  obtain digest where digest: "credential_account_digest env (PStr channel) (PStr key) = Inr digest" using assms key
    by (cases "credential_account_digest env (PStr channel) (PStr key)") (auto simp: save_credential_def)
  obtain envelope where envelope: "encrypt_bot_credentials env iv credentials c (PStr channel) = Inr envelope" using assms key digest
    by (cases "encrypt_bot_credentials env iv credentials c (PStr channel)") (auto simp: save_credential_def)
  show thesis by (rule that [OF key digest envelope])
    (use assms key digest envelope in \<open>auto simp: save_credential_def split: prod.splits sum.splits\<close>)
qed

lemma save_credentials_ok:
  assumes ok: "credentials_ok db" and save: "save_credential env iv uuid now c channel credentials db = (res, db')"
  shows "credentials_ok db'"
proof (cases res)
  case (Inr r)
  from save [unfolded Inr] show ?thesis by (rule save_credential_Inr) (use put_credentials_ok [OF ok] in blast)
next
  case (Inl e)
  show ?thesis
  proof (cases "db' = db")
    case False
    then obtain digest envelope u where "put_credential uuid now c channel digest envelope db = (u, db')" using save
      by (auto simp: save_credential_def split: sum.splits prod.splits)
    from put_credentials_ok [OF ok this] show ?thesis .
  qed (use ok in simp)
qed

datatype account_op =
    Save string string int string string py
  | Remove string
  | Clear int string
  | Drop string string

fun account_exec :: "crypto \<Rightarrow> account_op \<Rightarrow> gateway \<Rightarrow> gateway" where
  "account_exec env (Save iv uuid now c channel credentials) db = snd (save_credential env iv uuid now c channel credentials db)"
| "account_exec env (Remove c) db = delete_credential c db"
| "account_exec env (Clear now c) db = snd (clear_connection_credentials now c db)"
| "account_exec env (Drop c u) db = snd (delete_owned_connection c u db)"

lemma exec_credentials_ok:
  assumes ok: "credentials_ok db"
  shows "credentials_ok (account_exec env op db)"
proof (cases op)
  case (Save iv uuid now c channel credentials)
  obtain res db' where "save_credential env iv uuid now c channel credentials db = (res, db')" by fastforce
  from save_credentials_ok [OF ok this] this show ?thesis by (simp add: Save)
next
  case (Remove c)
  show ?thesis by (rule credentials_ok_filter [OF ok, where P = "\<lambda>r. ce_connection_id r \<noteq> c"]) (simp add: Remove delete_credential_def)
next
  case (Clear now c)
  show ?thesis
  proof (cases "get_connection db c")
    case None
    then show ?thesis using ok by (simp add: Clear clear_connection_credentials_def)
  next
    case (Some r)
    then show ?thesis by (intro credentials_ok_filter [OF ok, where P = "\<lambda>r. ce_connection_id r \<noteq> c"])
        (simp add: Clear clear_connection_credentials_def)
  qed
next
  case (Drop c u)
  obtain b db' where d: "delete_owned_connection c u db = (b, db')" by fastforce
  show ?thesis
  proof (cases b)
    case True
    then have "delete_owned_connection c u db = (True, db')" using d by simp
    from credentials_ok_filter [OF ok delete_owned_True(5) [OF this]] d show ?thesis by (simp add: Drop)
  next
    case False
    with d ok delete_owned_False [of c u db db'] show ?thesis by (simp add: Drop)
  qed
qed

lemma run_credentials_ok: "credentials_ok db \<Longrightarrow> credentials_ok (fold (account_exec env) ops db)"
  by (induction ops arbitrary: db) (simp_all add: exec_credentials_ok)

subsection \<open>Deleting\<close>

lemma find_filter_same: "(\<And>x. P x \<Longrightarrow> Q x) \<Longrightarrow> find P (filter Q xs) = find P xs"
  by (induction xs) auto

text \<open>With one row per id, the owner's request deletes exactly one row.\<close>

lemma owned_deleted:
  assumes "distinct (map cn_id (bg_connections db))" and "r \<in> set (bg_connections db)"
  shows "cn_owner_user_id r = Some u \<Longrightarrow> fst (delete_owned_connection (cn_id r) u db)"
proof -
  assume u: "cn_owner_user_id r = Some u"
  let ?owned = "\<lambda>x. cn_id x = cn_id r \<and> cn_owner_user_id x = Some u"
  have "set (filter ?owned (bg_connections db)) = {r}" using u assms(2) unique_row [OF assms(1)] by auto
  moreover have "distinct (filter ?owned (bg_connections db))" using assms(1) by (simp add: distinct_map)
  ultimately have "length (filter ?owned (bg_connections db)) = card {r}" by (metis distinct_card)
  moreover have "list_ex ?owned (bg_connections db)" using u assms(2) by (auto simp: list_ex_iff)
  ultimately show ?thesis by (simp add: delete_owned_connection_def Let_def count_rows_def)
qed

subsection \<open>Properties\<close>

text \<open>
  (C19) What \<open>save_credential\<close> stored for a connection, \<open>get_credential\<close> reads back: through the JSON
  text, the cipher, the base64 fields, the JSON text of the envelope and the table, whether the row is
  new or rewritten. The credentials of every other connection are as before. The cipher opens what it
  sealed and checks the associated data; the credentials hold no floats.
\<close>

theorem saved_credential_read_back:
  assumes "credentials_ok db" and "authenticates env" and "length iv = CREDENTIAL_IV_BYTES" and "json_ok (PDict credentials)"
    and "save_credential env iv uuid now c channel (PDict credentials) db = (Inr r, db')"
  shows "get_credential env db' c = Inr (Some credentials) \<and> (\<forall>c'. c' \<noteq> c \<longrightarrow> get_credential env db' c' = get_credential env db c')"
proof -
  obtain key digest envelope where e: "encrypt_bot_credentials env iv (PDict credentials) c (PStr channel) = Inr envelope"
    and put: "put_credential uuid now c channel digest (json_dumps '' '' (k_float_repr env) envelope) db = (Inr (), db')"
    using assms(5) by (rule save_credential_Inr)
  obtain item where item: "find (\<lambda>c'. ce_connection_id c' = c) (bg_credentials db') = Some item"
    "ce_envelope item = json_dumps '' '' (k_float_repr env) envelope" "ce_channel item = channel"
    and others: "\<And>c'. c' \<noteq> c \<Longrightarrow>
      find (\<lambda>x. ce_connection_id x = c') (bg_credentials db') = find (\<lambda>x. ce_connection_id x = c') (bg_credentials db)"
    using put_credential_lookup [OF assms(1) put] by metis
  have "json_loads (k_fl env) (ce_envelope item) = Inr envelope"
    using json_loads_dumps [OF _ encrypted_json_ok [OF e], of "'' ''"] by (simp add: item(2) is_ws_def)
  moreover have "decrypt_bot_credentials env envelope c (PStr channel) = Inr credentials"
    by (rule credentials_round_trip [OF assms(2-4) e]) simp
  ultimately show ?thesis using item others by (simp add: get_credential_def)
qed

definition demo_seal :: "string \<Rightarrow> string \<Rightarrow> string \<Rightarrow> string \<Rightarrow> string" where
  "demo_seal key iv m aad = replicate (length aad) (CHR ''x'') @ CHR ''-'' # aad @ m"

definition demo_unseal :: "string \<Rightarrow> string \<Rightarrow> string \<Rightarrow> string \<Rightarrow> string option" where
  "demo_unseal key iv s aad = eat (replicate (length aad) (CHR ''x'') @ CHR ''-'' # aad) s"

definition demo_crypto :: crypto where
  "demo_crypto = \<lparr>k_master = replicate 64 (CHR ''0''), k_hkdf = (\<lambda>info key. info), k_hmac = (\<lambda>key m. m), k_seal = demo_seal, k_unseal = demo_unseal,
     k_float_repr = (\<lambda>v. []), k_fl = (\<lambda>x. x), k_to_str = (\<lambda>v. [])\<rparr>"

lemma demo_authenticates: "authenticates demo_crypto"
proof -
  have "demo_unseal key iv (demo_seal key iv m a) b = (if b = a then Some m else None)" for key iv m a b
  proof (cases "b = a")
    case True
    have "eat (replicate (length a) (CHR ''x'') @ CHR ''-'' # a) (replicate (length a) (CHR ''x'') @ CHR ''-'' # a @ m) = Some m"
      by (simp add: eat_Some)
    with True show ?thesis by (simp add: demo_unseal_def demo_seal_def)
  next
    case False
    have "eat (replicate (length b) (CHR ''x'') @ CHR ''-'' # b) (replicate (length a) (CHR ''x'') @ CHR ''-'' # a @ m) \<noteq> Some r" for r
    proof
      assume "eat (replicate (length b) (CHR ''x'') @ CHR ''-'' # b) (replicate (length a) (CHR ''x'') @ CHR ''-'' # a @ m) = Some r"
      then have e: "replicate (length a) (CHR ''x'') @ CHR ''-'' # a @ m = replicate (length b) (CHR ''x'') @ CHR ''-'' # b @ r" by (simp add: eat_Some)
      have t: "takeWhile (\<lambda>c. c = CHR ''x'') (replicate n (CHR ''x'') @ CHR ''-'' # u) = replicate n (CHR ''x'')" for n u by (induction n) simp_all
      from arg_cong [OF e, of "takeWhile (\<lambda>c. c = CHR ''x'')"] have "length a = length b" by (simp add: t)
      with e False show False by simp
    qed
    then show ?thesis using False by (auto simp: demo_unseal_def demo_seal_def)
  qed
  then show ?thesis by (simp add: authenticates_def demo_crypto_def)
qed

definition demo_credentials :: pydict where
  "demo_credentials = [(''app_id'', PStr ''007''), (''secret'', PStr ''s'')]"

lemma demo_account:
  "normalize_channel (PStr ''qq'') = Inr ''qq''" "extract_account_key (PStr ''qq'') (PDict demo_credentials) = Inr ''7''"
  "normalize_account_key (PStr ''qq'') (PStr ''7'') = Inr ''7''" "bot_gateway_credential_master_key demo_crypto = Inr (replicate 32 (CHR 0x00))"
  "utf8_ok (json_dumps '' '' (\<lambda>v. []) (PDict demo_credentials))"
  by code_simp+

definition demo_digest :: string where
  "demo_digest = ''ryanai-bot-credential-digest-v1:qq:7''"

lemma demo_keys:
  "derive_key demo_crypto purpose (PInt 1) = Inr (''ryanai-bot-gateway:'' @ purpose @ '':v'' @ int_str 1)"
  "credential_account_digest demo_crypto (PStr ''qq'') (PStr ''7'') = Inr demo_digest"
  "k_float_repr demo_crypto = (\<lambda>v. [])"
proof -
  have "py_eq (PInt 1) (PInt 1)" by simp
  then show d: "derive_key demo_crypto purpose (PInt 1) = Inr (''ryanai-bot-gateway:'' @ purpose @ '':v'' @ int_str 1)" for purpose
    by (simp add: derive_key_def demo_account) (simp add: demo_crypto_def)
  show "credential_account_digest demo_crypto (PStr ''qq'') (PStr ''7'') = Inr demo_digest"
    by (simp add: credential_account_digest_def demo_account d) (simp add: demo_crypto_def demo_digest_def)
qed (simp add: demo_crypto_def)

lemma demo_encrypts: "\<exists>e. encrypt_bot_credentials demo_crypto iv (PDict demo_credentials) c (PStr ''qq'') = Inr e"
  by (simp add: encrypt_bot_credentials_def is_dict_def demo_account demo_keys credential_aad_def Let_def del: json_dumps.simps)

text \<open>The account of the first connection, and a second connection that wants it.\<close>

definition demo_save :: "string \<Rightarrow> string \<Rightarrow> gateway \<Rightarrow> (string \<times> string \<times> string) result \<times> gateway" where
  "demo_save c uuid = save_credential demo_crypto (replicate 12 (CHR ''i'')) uuid 5 c ''qq'' (PDict demo_credentials)"

lemma demo_saved:
  "fst (demo_save ''c'' ''r'' empty_gateway) = Inr (''c'', ''qq'', demo_digest)"
  "list_credential_digests (snd (demo_save ''c'' ''r'' empty_gateway)) = [(''c'', ''qq'', demo_digest)]"
proof -
  obtain e where "encrypt_bot_credentials demo_crypto (replicate 12 (CHR ''i'')) (PDict demo_credentials) ''c'' (PStr ''qq'') = Inr e"
    using demo_encrypts by blast
  then show "fst (demo_save ''c'' ''r'' empty_gateway) = Inr (''c'', ''qq'', demo_digest)"
    "list_credential_digests (snd (demo_save ''c'' ''r'' empty_gateway)) = [(''c'', ''qq'', demo_digest)]"
    by (simp_all add: demo_save_def save_credential_def demo_account demo_keys put_credential_def empty_gateway_def list_credential_digests_def)
qed

lemma empty_credentials_ok: "credentials_ok empty_gateway"
  by (simp add: credentials_ok_def empty_gateway_def)

theorem saved_credential_read_back_witness:
  "get_credential demo_crypto (snd (demo_save ''c'' ''r'' empty_gateway)) ''c'' = Inr (Some demo_credentials)"
proof -
  have "save_credential demo_crypto (replicate 12 (CHR ''i'')) ''r'' 5 ''c'' ''qq'' (PDict demo_credentials) empty_gateway =
      (Inr (''c'', ''qq'', demo_digest), snd (demo_save ''c'' ''r'' empty_gateway))"
    using demo_saved(1) by (simp add: demo_save_def prod_eq_iff)
  moreover have "length (replicate 12 (CHR ''i'')) = CREDENTIAL_IV_BYTES" "json_ok (PDict demo_credentials)"
    by (simp_all add: CREDENTIAL_IV_BYTES_def demo_credentials_def)
  ultimately show ?thesis using saved_credential_read_back [OF empty_credentials_ok demo_authenticates] by blast
qed

text \<open>
  A bot account is bound to one connection at a time. After any history of saving, removing and
  clearing credentials and deleting connections, no account and no connection has two credentials, and
  saving an account that another connection holds raises \<open>account_already_bound\<close> and changes nothing.
\<close>

theorem account_bound_once:
  assumes "credentials_ok db" and "db' = fold (account_exec env) ops db"
  shows "distinct (map fst (list_credential_digests db')) \<and> distinct (map (\<lambda>(c, ch, digest). digest) (list_credential_digests db')) \<and>
    (extract_account_key (PStr channel) credentials = Inr key \<and> credential_account_digest env (PStr channel) (PStr key) = Inr digest \<and>
     encrypt_bot_credentials env iv credentials c (PStr channel) = Inr envelope \<and>
     (c', channel', digest) \<in> set (list_credential_digests db') \<and> c' \<noteq> c \<longrightarrow>
       save_credential env iv uuid now c channel credentials db' = (Inl (ValueError ''account_already_bound''), db'))"
proof -
  have ok: "credentials_ok db'" using assms run_credentials_ok by blast
  have "save_credential env iv uuid now c channel credentials db' = (Inl (ValueError ''account_already_bound''), db')"
    if "extract_account_key (PStr channel) credentials = Inr key" "credential_account_digest env (PStr channel) (PStr key) = Inr digest"
      "encrypt_bot_credentials env iv credentials c (PStr channel) = Inr envelope"
      "(c', channel', digest) \<in> set (list_credential_digests db')" "c' \<noteq> c"
  proof -
    have "\<exists>r \<in> set (bg_credentials db'). ce_account_digest r = digest \<and> ce_connection_id r \<noteq> c"
      using that(4,5) by (auto simp: list_credential_digests_def)
    from put_credential_taken [OF ok this] that(1-3) show ?thesis by (simp add: save_credential_def)
  qed
  with ok show ?thesis by (auto simp: credentials_ok_def list_credential_digests_def o_def)
qed

theorem account_bound_once_witness:
  "demo_save ''d'' ''t'' (snd (demo_save ''c'' ''r'' empty_gateway)) =
     (Inl (ValueError ''account_already_bound''), snd (demo_save ''c'' ''r'' empty_gateway))"
proof -
  let ?db = "snd (demo_save ''c'' ''r'' empty_gateway)" and ?iv = "replicate 12 (CHR ''i'')"
  obtain e where e: "encrypt_bot_credentials demo_crypto ?iv (PDict demo_credentials) ''d'' (PStr ''qq'') = Inr e"
    using demo_encrypts by blast
  have db: "?db = fold (account_exec demo_crypto) [Save ?iv ''r'' 5 ''c'' ''qq'' (PDict demo_credentials)] empty_gateway" by (simp add: demo_save_def)
  have "(''c'', ''qq'', demo_digest) \<in> set (list_credential_digests ?db)" by (simp add: demo_saved)
  with account_bound_once [OF empty_credentials_ok db, of "''qq''" "PDict demo_credentials" "''7''" demo_digest ?iv "''d''" e "''c''" "''qq''" "''t''" 5]
    demo_account demo_keys e show ?thesis by (simp add: demo_save_def)
qed

text \<open>
  Deleting a personal connection leaves nothing of it behind. It succeeds exactly for the owner of
  an existing connection. Then the connection is gone, and so are its bindings, conversations, events,
  groups, credentials and checkpoint; codes that made its bindings and its audit trail stay, without
  their reference to it. Every row of another connection is untouched. A refused deletion changes
  nothing.
\<close>

theorem deleted_connection_leaves_nothing:
  assumes "distinct (map cn_id (bg_connections db))" and "delete_owned_connection c u db = (b, db')"
  shows "(b \<longleftrightarrow> (\<exists>r \<in> set (bg_connections db). cn_id r = c \<and> cn_owner_user_id r = Some u)) \<and> (\<not> b \<longrightarrow> db' = db) \<and>
    (b \<longrightarrow> get_connection db' c = None \<and> get_credential env db' c = Inr None \<and> get_checkpoint env db' c = Inr None \<and>
      list_groups db' c = [] \<and> (\<forall>x. get_enabled_binding db' c x = None) \<and>
      (\<forall>v \<in> set (bg_conversations db'). cv_connection_id v \<noteq> c) \<and> (\<forall>e \<in> set (bg_events db'). ev_connection_id e \<noteq> c) \<and>
      (\<forall>h \<in> set (bg_histories db'). hi_connection_id h \<noteq> Some c) \<and> length (bg_histories db') = length (bg_histories db) \<and>
      (\<forall>k \<in> set (bg_codes db'). \<forall>y \<in> set (bg_bindings db). bd_connection_id y = c \<longrightarrow> co_consumed_by_binding_id k \<noteq> Some (bd_id y)) \<and>
      (\<forall>c'. c' \<noteq> c \<longrightarrow> get_connection db' c' = get_connection db c' \<and> get_credential env db' c' = get_credential env db c' \<and>
         (\<forall>x. get_enabled_binding db' c' x = get_enabled_binding db c' x)))"
proof (cases b)
  case True
  then have x: "delete_owned_connection c u db = (True, db')" using assms(2) by simp
  note t = delete_owned_True [OF x]
  let ?owned = "\<lambda>r. cn_id r = c \<and> cn_owner_user_id r = Some u"
  obtain r where r: "r \<in> set (bg_connections db)" "?owned r"
    using x by (auto simp: delete_owned_connection_def Let_def list_ex_iff split: if_splits)
  have own: "x = r" if "x \<in> set (bg_connections db)" "cn_id x = c" for x using unique_row [OF assms(1) that(1) r(1)] that(2) r(2) by simp
  have gone: "find (\<lambda>x. cn_id x = c) (bg_connections db') = None" unfolding find_None_iff t(7) using own r(2) by auto
  have same: "find (\<lambda>x. cn_id x = c') (bg_connections db') = find (\<lambda>x. cn_id x = c') (bg_connections db)" if "c' \<noteq> c" for c'
    unfolding t(7) using that by (intro find_filter_same) auto
  have cred: "find (\<lambda>x. ce_connection_id x = c') (bg_credentials db') = find (\<lambda>x. ce_connection_id x = c') (bg_credentials db)" if "c' \<noteq> c" for c'
    unfolding t(5) using that by (intro find_filter_same) auto
  have bind: "get_enabled_binding db' c' x = get_enabled_binding db c' x" if "c' \<noteq> c" for c' x
    unfolding get_enabled_binding_def t(1) using that by (intro find_filter_same) auto
  have "get_credential env db' c = Inr None" "get_checkpoint env db' c = Inr None"
    by (simp_all add: get_credential_def get_checkpoint_def t find_None_iff [THEN iffD2])
  moreover have "list_groups db' c = []" by (simp add: list_groups_def t)
  moreover have "get_enabled_binding db' c x = None" for x by (simp add: get_enabled_binding_def t find_None_iff)
  moreover have "hi_connection_id h \<noteq> Some c" if "h \<in> set (bg_histories db')" for h
  proof -
    from that obtain z where "h = (if hi_connection_id z = Some c then z\<lparr>hi_connection_id := None\<rparr> else z)" unfolding t(9) in_upd_rows by blast
    then show ?thesis by (cases "hi_connection_id z = Some c") simp_all
  qed
  moreover have "co_consumed_by_binding_id k \<noteq> Some (bd_id y)"
    if "k \<in> set (bg_codes db')" "y \<in> set (bg_bindings db)" "bd_connection_id y = c" for k y
  proof -
    let ?P = "\<lambda>k. \<exists>b \<in> set (map bd_id (filter (\<lambda>b. bd_connection_id b = c) (bg_bindings db))). co_consumed_by_binding_id k = Some b"
    from that(1) obtain z where z: "k = (if ?P z then z\<lparr>co_consumed_by_binding_id := None\<rparr> else z)" unfolding t(8) in_upd_rows by blast
    have "bd_id y \<in> set (map bd_id (filter (\<lambda>b. bd_connection_id b = c) (bg_bindings db)))" using that(2,3) by auto
    then have "?P z" if "co_consumed_by_binding_id z = Some (bd_id y)" using that by blast
    with z show ?thesis by (cases "?P z") auto
  qed
  moreover have "length (bg_histories db') = length (bg_histories db)" by (simp add: t(9) upd_rows_def)
  ultimately show ?thesis using True r gone same cred bind
    by (auto simp: get_connection_def get_credential_def t(2,3))
next
  case False
  then have "db' = db" using assms(2) delete_owned_False [of c u db db'] by simp
  moreover have "\<not> (\<exists>r \<in> set (bg_connections db). cn_id r = c \<and> cn_owner_user_id r = Some u)"
    using assms(2) False owned_deleted [OF assms(1), where u = u] by fastforce
  ultimately show ?thesis using False by blast
qed

definition demo_owned :: gateway where
  "demo_owned = (snd (demo_save ''c'' ''r'' empty_gateway))\<lparr>bg_connections := [new_connection ''c'' ''qq'' ''qq bot'' True (Some ''u'') 1,
     new_connection ''d'' ''qq'' ''qq bot'' True (Some ''v'') 1]\<rparr>"

theorem deleted_connection_leaves_nothing_witness:
  "get_credential demo_crypto (snd (delete_owned_connection ''c'' ''u'' demo_owned)) ''c'' = Inr None \<and>
   get_connection (snd (delete_owned_connection ''c'' ''u'' demo_owned)) ''d'' = get_connection demo_owned ''d''"
proof -
  let ?d = "delete_owned_connection ''c'' ''u'' demo_owned"
  have ids: "distinct (map cn_id (bg_connections demo_owned))" by (simp add: demo_owned_def new_connection_def)
  have "\<exists>r \<in> set (bg_connections demo_owned). cn_id r = ''c'' \<and> cn_owner_user_id r = Some ''u''"
    by (simp add: demo_owned_def new_connection_def)
  moreover have "?d = (fst ?d, snd ?d)" by simp
  note deleted_connection_leaves_nothing [OF ids this, of demo_crypto]
  ultimately show ?thesis by simp
qed

text \<open>
  (C33) A stored envelope is bound to its connection and channel: copied into the row of another
  connection, or into a row of the other channel, it is refused and never decrypted to credentials.
\<close>

theorem copied_envelope_refused:
  assumes "authenticates env" and "length iv = CREDENTIAL_IV_BYTES"
    and "encrypt_bot_credentials env iv credentials c (PStr channel) = Inr envelope"
    and "find (\<lambda>r. ce_connection_id r = c') (bg_credentials db) = Some item"
    and "ce_envelope item = json_dumps '' '' (k_float_repr env) envelope"
    and "c' \<noteq> c \<or> normalize_channel (PStr (ce_channel item)) \<noteq> normalize_channel (PStr channel)"
  shows "isl (get_credential env db c')"
proof -
  have "json_loads (k_fl env) (ce_envelope item) = Inr envelope"
    using json_loads_dumps [OF _ encrypted_json_ok [OF assms(3)], of "'' ''"] by (simp add: assms(5) is_ws_def)
  moreover have "isl (decrypt_bot_credentials env envelope c' (PStr (ce_channel item)))"
    by (rule credentials_not_replayed [OF assms(1-3,6)])
  ultimately show ?thesis using assms(4) by (auto simp: get_credential_def bind_result_def split: sum.splits)
qed

definition demo_copy :: "string \<Rightarrow> gateway" where
  "demo_copy text = empty_gateway\<lparr>bg_credentials := [\<lparr>ce_id = ''x'', ce_connection_id = ''d'', ce_channel = ''qq'', ce_account_digest = ''h'',
     ce_envelope = text, ce_key_version = 1, ce_schema_version = 1, ce_created_at = 1, ce_updated_at = 1\<rparr>]\<rparr>"

theorem copied_envelope_refused_witness:
  "\<exists>e. encrypt_bot_credentials demo_crypto (replicate 12 (CHR ''i'')) (PDict demo_credentials) ''c'' (PStr ''qq'') = Inr e \<and>
     isl (get_credential demo_crypto (demo_copy (json_dumps '' '' (k_float_repr demo_crypto) e)) ''d'')"
proof -
  obtain e where e: "encrypt_bot_credentials demo_crypto (replicate 12 (CHR ''i'')) (PDict demo_credentials) ''c'' (PStr ''qq'') = Inr e"
    using demo_encrypts by blast
  let ?db = "demo_copy (json_dumps '' '' (k_float_repr demo_crypto) e)"
  have f: "find (\<lambda>r. ce_connection_id r = ''d'') (bg_credentials ?db) = Some (hd (bg_credentials ?db))" by (simp add: demo_copy_def)
  have "isl (get_credential demo_crypto ?db ''d'')"
    by (rule copied_envelope_refused [OF demo_authenticates _ e f]) (simp_all add: demo_copy_def CREDENTIAL_IV_BYTES_def)
  with e show ?thesis by blast
qed

end
