(* ===== verification/Bot_Coordination.thy ===== *)
theory Bot_Coordination
  imports Bot_Connections
begin

text \<open>
  The control plane of the bot gateway over Redis, \<^verbatim>\<open>utils/bot_gateway_coordination.py\<close>: the lease
  of a shard, the fence an event must pass, and the sticky targets of shards. Redis is a table of
  strings; what the commands see is a parameter where other processes change it between two of them,
  and one state where the scheduler holds the leader key.
\<close>

subsection \<open>Leases and the fence\<close>

record lease =
  le_node_id :: string
  le_lease_id :: string
  le_epoch :: int
  le_assignment_generation :: int
  le_ttl_ms :: int

text \<open>
  The configured mode, whether a client is there, and \<open>GET\<close> and \<open>PTTL\<close>. \<open>to_str\<close> is \<open>str\<close> of a float,
  list or dict.
\<close>

record coordination =
  m_mode :: string
  m_redis :: bool
  m_get :: "string \<Rightarrow> string option"
  m_pttl :: "string \<Rightarrow> int"
  m_fl :: "rat \<Rightarrow> rat"
  m_to_str :: "py \<Rightarrow> string"

definition prefix_key :: string where
  "prefix_key = ''ryanai:bot-gateway:v1:{coord}''"

definition coordination_mode :: "coordination \<Rightarrow> string" where
  "coordination_mode env = (if m_mode env \<in> {''single'', ''redis''} then m_mode env else ''single'')"

text \<open>\<open>d[key]\<close> on a parsed value, and \<open>int(v)\<close>.\<close>

definition item :: "py \<Rightarrow> string \<Rightarrow> py result" where
  "item v key = (case v of PDict d \<Rightarrow> (case map_of d key of Some x \<Rightarrow> Inr x | None \<Rightarrow> Inl KeyError) | _ \<Rightarrow> Inl TypeError)"

definition int_of :: "py \<Rightarrow> int result" where
  "int_of v = (case to_int v of
       Some n \<Rightarrow> Inr n
     | None \<Rightarrow> Inl (case v of PStr _ \<Rightarrow> ValueError ''invalid literal for int()'' | PNonFinite \<Rightarrow> ValueError ''cannot convert float to integer'' | _ \<Rightarrow> TypeError))"

definition lease_key :: "string \<Rightarrow> string" where
  "lease_key shard_id = prefix_key @ '':shard:'' @ shard_id @ '':lease''"

definition current_shard_lease :: "coordination \<Rightarrow> string \<Rightarrow> lease option result" where
  "current_shard_lease env shard_id =
     (if coordination_mode env \<noteq> ''redis'' then Inr None
      else if \<not> m_redis env then Inl (RuntimeError ''redis coordination is unavailable'')
      else case m_get env (lease_key shard_id) of
             None \<Rightarrow> Inr None
           | Some val \<Rightarrow>
               if val = [] \<or> m_pttl env (lease_key shard_id) \<le> 0 then Inr None
               else bind_result (json_loads (m_fl env) val) (\<lambda>parsed.
                 bind_result (item parsed ''nodeId'') (\<lambda>node.
                 bind_result (item parsed ''leaseId'') (\<lambda>lease.
                 bind_result (bind_result (item parsed ''epoch'') int_of) (\<lambda>epoch.
                 bind_result (bind_result (item parsed ''assignmentGeneration'') int_of) (\<lambda>generation.
                   Inr (Some \<lparr>le_node_id = py_str (m_to_str env) node, le_lease_id = py_str (m_to_str env) lease, le_epoch = epoch,
                     le_assignment_generation = generation, le_ttl_ms = m_pttl env (lease_key shard_id)\<rparr>)))))))"

definition validate_event_fence ::
  "coordination \<Rightarrow> string option \<Rightarrow> string option \<Rightarrow> int option \<Rightarrow> int option \<Rightarrow> string option \<Rightarrow> int \<Rightarrow> bool result" where
  "validate_event_fence env shard_id node_id lease_epoch assignment_generation expected_shard_id expected_assignment_generation =
     (if coordination_mode env \<noteq> ''redis'' then Inr True
      else if shard_id \<in> {None, Some []} \<or> node_id \<in> {None, Some []} \<or> lease_epoch = None \<or> assignment_generation = None \<or>
              shard_id \<noteq> expected_shard_id \<or> assignment_generation \<noteq> Some expected_assignment_generation then Inr False
      else bind_result (current_shard_lease env (the shard_id)) (\<lambda>lease.
             Inr (case lease of
                    None \<Rightarrow> False
                  | Some l \<Rightarrow> Some (le_node_id l) = node_id \<and> Some (le_epoch l) = lease_epoch \<and>
                              Some (le_assignment_generation l) = assignment_generation)))"

subsection \<open>Shard targets\<close>

definition as_dict :: "py \<Rightarrow> pydict" where
  "as_dict v = (case v of PDict d \<Rightarrow> d | _ \<Rightarrow> [])"

definition score_term :: "(rat \<Rightarrow> rat) \<Rightarrow> py \<Rightarrow> rat result" where
  "score_term fl v =
     (case to_float fl v of
        Some x \<Rightarrow> Inr (max 0 x)
      | None \<Rightarrow> Inl (case v of PStr _ \<Rightarrow> ValueError ''could not convert string to float'' | _ \<Rightarrow> TypeError))"

text \<open>\<open>_node_score\<close>; sums and products are rounded one by one.\<close>

definition node_score :: "coordination \<Rightarrow> pydict \<Rightarrow> (rat \<times> string) result" where
  "node_score env snapshot =
     (let fl = m_fl env;
          queue = as_dict (pget snapshot ''queue'');
          shards = (case pget (as_dict (pget snapshot ''operations'')) ''shards'' of PList xs \<Rightarrow> xs | _ \<Rightarrow> [])
      in bind_result (score_term fl (dget snapshot ''cpuPercent'' (PInt 0))) (\<lambda>cpu.
         bind_result (score_term fl (dget snapshot ''rssBytes'' (PInt 0))) (\<lambda>rss.
         bind_result (score_term fl (dget queue ''active'' (PInt 0))) (\<lambda>active.
         bind_result (score_term fl (dget queue ''queued'' (PInt 0))) (\<lambda>queued.
           let s = fl (cpu + fl (rss / (256 * 1024 * 1024)));
               s = fl (s + fl (active * 2));
               s = fl (s + fl (queued * 4));
               s = fl (s + of_nat (length shards * 5))
           in Inr (s, let v = pget snapshot ''nodeId'' in if truthy v then py_str (m_to_str env) v else []))))))"

type_synonym store = "(string \<times> string) list"

definition is_heartbeat :: "string \<Rightarrow> bool" where
  "is_heartbeat key =
     (case eat (prefix_key @ '':node:'') key of Some r \<Rightarrow> length r \<ge> 10 \<and> drop (length r - 10) r = '':heartbeat'' | None \<Rightarrow> False)"

text \<open>A heartbeat adds its node, unless it is no JSON, names no node, or the node is draining.\<close>

definition node_step :: "coordination \<Rightarrow> store \<Rightarrow> string \<Rightarrow> (string \<times> pydict) list \<Rightarrow> (string \<times> pydict) list result" where
  "node_step env store key nodes =
     (case map_of store key of
        None \<Rightarrow> Inr nodes
      | Some raw \<Rightarrow>
          if raw = [] then Inr nodes
          else (case json_loads (m_fl env) raw of
                  Inl _ \<Rightarrow> Inr nodes
                | Inr (PDict snapshot) \<Rightarrow>
                    (let v = pget snapshot ''nodeId''; node_id = (if truthy v then py_str (m_to_str env) v else [])
                     in if node_id = [] \<or> prefix_key @ '':node:'' @ node_id @ '':draining'' \<in> fst ` set store then Inr nodes
                        else Inr (AList.update node_id snapshot nodes))
                | Inr _ \<Rightarrow> Inl AttributeError))"

definition live_nodes :: "coordination \<Rightarrow> store \<Rightarrow> (string \<times> pydict) list result" where
  "live_nodes env store = fold_result (node_step env store) (filter is_heartbeat (map fst store)) []"

text \<open>\<open>min(nodes.values(), key=_node_score)\<close>: the first of the smallest.\<close>

definition smaller :: "rat \<times> string \<Rightarrow> rat \<times> string \<Rightarrow> bool" where
  "smaller a b \<longleftrightarrow> fst a < fst b \<or> fst a = fst b \<and> snd a < snd b"

fun best_node :: "coordination \<Rightarrow> (string \<times> pydict) list \<Rightarrow> ((rat \<times> string) \<times> string) option result" where
  "best_node env [] = Inr None"
| "best_node env ((i, snapshot) # nodes) =
     bind_result (node_score env snapshot) (\<lambda>s.
     bind_result (best_node env nodes) (\<lambda>best.
       Inr (case best of Some (t, j) \<Rightarrow> if smaller t s then Some (t, j) else Some (s, i) | None \<Rightarrow> Some (s, i))))"

text \<open>The shard is counted on its node's snapshot, where that has a dict of operations.\<close>

definition count_shard :: "string \<Rightarrow> pydict \<Rightarrow> pydict" where
  "count_shard shard_id snapshot =
     (case pget snapshot ''operations'' of
        PDict ops \<Rightarrow>
          (case dget ops ''shards'' (PList []) of
             PList xs \<Rightarrow> AList.update ''operations'' (PDict (AList.update ''shards'' (PList (xs @ [PDict [(''shard_id'', PStr shard_id)]])) ops)) snapshot
           | _ \<Rightarrow> snapshot)
      | _ \<Rightarrow> snapshot)"

definition target_key :: "string \<Rightarrow> string" where
  "target_key shard_id = prefix_key @ '':shard:'' @ shard_id @ '':target''"

fun choose_target ::
  "string \<Rightarrow> ((rat \<times> string) \<times> string) option \<Rightarrow> (string \<times> string) list \<times> (string \<times> pydict) list \<times> store
     \<Rightarrow> (string \<times> string) list \<times> (string \<times> pydict) list \<times> store" where
  "choose_target shard_id None st = st"
| "choose_target shard_id (Some (s, node_id)) (targets, nodes, store) =
     (AList.update shard_id node_id targets, map (\<lambda>(i, n). (i, if i = node_id then count_shard shard_id n else n)) nodes,
      AList.update (target_key shard_id) node_id store)"

definition target_step ::
  "coordination \<Rightarrow> string \<Rightarrow> (string \<times> string) list \<times> (string \<times> pydict) list \<times> store \<Rightarrow> ((string \<times> string) list \<times> (string \<times> pydict) list \<times> store) result" where
  "target_step env shard_id st =
     (case st of (targets, nodes, store) \<Rightarrow>
        (case map_of store (target_key shard_id) of
           Some current \<Rightarrow>
             if current \<in> fst ` set nodes then Inr (AList.update shard_id current targets, nodes, store)
             else bind_result (best_node env nodes) (\<lambda>best. Inr (choose_target shard_id best st))
         | None \<Rightarrow> bind_result (best_node env nodes) (\<lambda>best. Inr (choose_target shard_id best st))))"

definition leader_key :: string where
  "leader_key = prefix_key @ '':scheduler:leader''"

text \<open>The leader key is given back only while it is still the caller's.\<close>

definition release :: "string \<Rightarrow> store \<Rightarrow> store" where
  "release leader_id store = (if map_of store leader_key = Some leader_id then filter (\<lambda>(k, v). k \<noteq> leader_key) store else store)"

text \<open>
  The targets, shard by shard. What was written stays written when a node's metrics are no numbers and
  the loop is left by an exception.
\<close>

fun assign_targets ::
  "coordination \<Rightarrow> string \<Rightarrow> string list \<Rightarrow> (string \<times> string) list \<times> (string \<times> pydict) list \<times> store \<Rightarrow> (string \<times> string) list result \<times> store" where
  "assign_targets env leader_id [] (targets, nodes, store) = (Inr targets, release leader_id store)"
| "assign_targets env leader_id (shard # shards) (targets, nodes, store) =
     (case target_step env shard (targets, nodes, store) of
        Inl e \<Rightarrow> (Inl e, release leader_id store)
      | Inr st \<Rightarrow> assign_targets env leader_id shards st)"

definition ensure_shard_targets :: "coordination \<Rightarrow> string \<Rightarrow> string list \<Rightarrow> store \<Rightarrow> (string \<times> string) list result \<times> store" where
  "ensure_shard_targets env leader_id shard_ids store =
     (if coordination_mode env \<noteq> ''redis'' \<or> shard_ids = [] then (Inr [], store)
      else if \<not> m_redis env then (Inl (RuntimeError ''redis coordination is unavailable''), store)
      else if leader_key \<in> fst ` set store then (Inr [], store)
      else let held = store @ [(leader_key, leader_id)]
           in case live_nodes env held of
                Inl e \<Rightarrow> (Inl e, release leader_id held)
              | Inr [] \<Rightarrow> (Inr [], release leader_id held)
              | Inr nodes \<Rightarrow>
                  assign_targets env leader_id (sort (remdups shard_ids)) ([], nodes, held))"

subsection \<open>The fence of an event\<close>

text \<open>The start of the event handler in \<^verbatim>\<open>routers/bot_gateway.py\<close>: the connection and the fence.\<close>

definition generation :: "bg_connection \<Rightarrow> int" where
  "generation c = (case cn_assignment_generation c of Some g \<Rightarrow> g | None \<Rightarrow> 0)"

definition admit_event ::
  "coordination \<Rightarrow> gateway \<Rightarrow> string \<Rightarrow> string \<Rightarrow> string option \<Rightarrow> string option \<Rightarrow> int option \<Rightarrow> int option \<Rightarrow> bg_connection result" where
  "admit_event env db connection_id channel shard_id node_id lease_epoch assignment_generation =
     (case get_connection db connection_id of
        None \<Rightarrow> Inl (HTTPException 404 ''Bot connection not found'')
      | Some c \<Rightarrow>
          if cn_channel c \<noteq> channel then Inl (HTTPException 404 ''Bot connection not found'')
          else (case validate_event_fence env shard_id node_id lease_epoch assignment_generation (cn_shard_id c) (generation c) of
                  Inr True \<Rightarrow> Inr c
                | _ \<Rightarrow> Inl (HTTPException 409 ''stale_fence'')))"

definition reassign :: "(int \<times> (string \<times> string) list) list \<Rightarrow> gateway \<Rightarrow> gateway" where
  "reassign ops db = fold (\<lambda>(now, assignments) db. snd (apply_shard_assignments now assignments db)) ops db"

lemma assigned_id: "cn_id (assigned now as c) = cn_id c"
  by (simp add: assigned_def split: option.splits)

lemma assigned_generation:
  "generation (assigned now as c) = generation c + (if cn_shard_id (assigned now as c) = cn_shard_id c then 0 else 1)"
  by (auto simp: assigned_def generation_def next_generation_def split: option.splits)

lemma get_connection_assigned:
  "get_connection (snd (apply_shard_assignments now as db)) c = map_option (assigned now as) (get_connection db c)"
proof -
  have "(\<lambda>x. cn_id x = c) \<circ> assigned now as = (\<lambda>x. cn_id x = c)" by (simp add: fun_eq_iff assigned_id)
  then show ?thesis by (simp add: get_connection_def apply_shard_assignments_def find_map)
qed

text \<open>Generations never go down, and a change of shard takes a new one.\<close>

lemma reassign_generation:
  "get_connection db c = Some r \<Longrightarrow>
    \<exists>r'. get_connection (reassign ops db) c = Some r' \<and> generation r \<le> generation r' \<and>
      (cn_shard_id r' \<noteq> cn_shard_id r \<longrightarrow> generation r < generation r') \<and> cn_channel r' = cn_channel r"
proof (induction ops arbitrary: db r)
  case (Cons op ops)
  obtain now as where op: "op = (now, as)" by fastforce
  let ?db = "snd (apply_shard_assignments now as db)" and ?r = "assigned now as r"
  have "get_connection ?db c = Some ?r" using Cons.prems by (simp add: get_connection_assigned)
  from Cons.IH [OF this] obtain r' where r': "get_connection (reassign ops ?db) c = Some r'" "generation ?r \<le> generation r'"
    "cn_shard_id r' \<noteq> cn_shard_id ?r \<longrightarrow> generation ?r < generation r'" "cn_channel r' = cn_channel ?r" by blast
  have "cn_channel ?r = cn_channel r" by (simp add: assigned_def split: option.splits)
  moreover have "generation r < generation r'" if "cn_shard_id r' \<noteq> cn_shard_id r"
    using that r'(2,3) assigned_generation [of now as r] by (cases "cn_shard_id ?r = cn_shard_id r") auto
  moreover have "generation r \<le> generation r'" using r'(2) assigned_generation [of now as r] by (simp split: if_splits)
  ultimately show ?case using r' by (intro exI [of _ r']) (simp add: op reassign_def)
qed (simp add: reassign_def)

lemma reassign_append: "reassign (xs @ ys) db = reassign ys (reassign xs db)"
  by (simp add: reassign_def)

lemma stale_generation_refused:
  assumes "coordination_mode env = ''redis''" and "g \<noteq> generation c"
  shows "validate_event_fence env shard node epoch (Some g) expected (generation c) = Inr False"
  using assms by (simp add: validate_event_fence_def)

subsection \<open>Targets are live and sticky\<close>

lemma best_node_Some:
  "best_node env nodes = Inr best \<Longrightarrow> nodes \<noteq> [] \<Longrightarrow> \<exists>s i. best = Some (s, i) \<and> i \<in> fst ` set nodes"
proof (induction nodes arbitrary: best)
  case (Cons p nodes)
  obtain i n where p: "p = (i, n)" by fastforce
  from Cons.prems(1) obtain s rest where s: "node_score env n = Inr s" "best_node env nodes = Inr rest"
    and best: "best = (case rest of Some (t, j) \<Rightarrow> if smaller t s then Some (t, j) else Some (s, i) | None \<Rightarrow> Some (s, i))"
    by (auto simp: p bind_result_Inr_iff)
  show ?case
  proof (cases rest)
    case (Some tj)
    then have "nodes \<noteq> []" using s(2) by (cases nodes) simp_all
    with Cons.IH [OF s(2)] Some obtain t j where "rest = Some (t, j)" "j \<in> fst ` set nodes" by auto
    with best show ?thesis by (cases "smaller t s") (simp_all add: p)
  qed (use best in \<open>simp add: p\<close>)
qed simp

lemma target_key_inj: "target_key a = target_key b \<longleftrightarrow> a = b"
  by (simp add: target_key_def)

lemma target_key_leader: "target_key a \<noteq> leader_key"
  by (simp add: target_key_def leader_key_def)

lemma target_step_Inr:
  assumes "target_step env shard (targets, nodes, store) = Inr st" and "nodes \<noteq> []"
  obtains node nodes' store' where "st = (AList.update shard node targets, nodes', store')" "map fst nodes' = map fst nodes"
    "node \<in> fst ` set nodes" "map_of store' = (map_of store)(target_key shard \<mapsto> node)"
    "\<And>cur. map_of store (target_key shard) = Some cur \<Longrightarrow> cur \<in> fst ` set nodes \<Longrightarrow> node = cur"
proof (cases "\<exists>cur. map_of store (target_key shard) = Some cur \<and> cur \<in> fst ` set nodes")
  case True
  then obtain cur where cur: "map_of store (target_key shard) = Some cur" "cur \<in> fst ` set nodes" by blast
  with assms(1) have st: "st = (AList.update shard cur targets, nodes, store)" by (simp add: target_step_def)
  show thesis by (rule that [OF st refl cur(2)]) (use cur in \<open>auto simp: fun_eq_iff\<close>)
next
  case False
  with assms(1) have "bind_result (best_node env nodes) (\<lambda>best. Inr (choose_target shard best (targets, nodes, store))) = Inr st"
    by (auto simp: target_step_def split: option.splits)
  then obtain best where best: "best_node env nodes = Inr best" "st = choose_target shard best (targets, nodes, store)"
    by (auto simp: bind_result_Inr_iff)
  from best_node_Some [OF best(1) assms(2)] obtain s i where i: "best = Some (s, i)" "i \<in> fst ` set nodes" by blast
  let ?nodes = "map (\<lambda>(j, n). (j, if j = i then count_shard shard n else n)) nodes"
  have st: "st = (AList.update shard i targets, ?nodes, AList.update (target_key shard) i store)" using best(2) i(1) by simp
  have "map fst ?nodes = map fst nodes" by (simp add: o_def case_prod_beta)
  then show thesis by (rule that [OF st _ i(2)]) (use False in \<open>auto simp: update_conv'\<close>)
qed

text \<open>The loop over the shards: what it leaves in the targets and in the store.\<close>

lemma assign_targets_Inr:
  assumes "assign_targets env leader shards (targets, nodes, store) = (Inr ts, store')" and "nodes \<noteq> []" and "distinct shards"
    and "map_of store leader_key = Some leader"
  shows "fst ` set ts = set shards \<union> fst ` set targets \<and> map_of store' leader_key = None \<and>
    (\<forall>k. k \<notin> set shards \<longrightarrow> map_of ts k = map_of targets k) \<and>
    (\<forall>k. k \<noteq> leader_key \<and> k \<notin> target_key ` set shards \<longrightarrow> map_of store' k = map_of store k) \<and>
    (\<forall>shard \<in> set shards. \<exists>node. map_of ts shard = Some node \<and> node \<in> fst ` set nodes \<and> map_of store' (target_key shard) = Some node \<and>
      (\<forall>cur. map_of store (target_key shard) = Some cur \<and> cur \<in> fst ` set nodes \<longrightarrow> node = cur))"
  using assms
proof (induction shards arbitrary: targets nodes store)
  case Nil
  have "map_of (filter (\<lambda>(k, v). k \<noteq> leader_key) store) k = (if k = leader_key then None else map_of store k)" for k
    by (induction store) auto
  with Nil show ?case by (auto simp: release_def)
next
  case (Cons shard shards)
  obtain st where st: "target_step env shard (targets, nodes, store) = Inr st" "assign_targets env leader shards st = (Inr ts, store')"
    using Cons.prems(1) by (auto split: sum.splits)
  obtain node nodes' store1 where t: "st = (AList.update shard node targets, nodes', store1)" "map fst nodes' = map fst nodes"
    "node \<in> fst ` set nodes" "map_of store1 = (map_of store)(target_key shard \<mapsto> node)"
    and sticky: "\<And>cur. map_of store (target_key shard) = Some cur \<Longrightarrow> cur \<in> fst ` set nodes \<Longrightarrow> node = cur"
    by (rule target_step_Inr [OF st(1) Cons.prems(2)]) blast
  have ids: "fst ` set nodes' = fst ` set nodes" using arg_cong [OF t(2), of set] by simp
  have "nodes' \<noteq> []" using ids Cons.prems(2) by auto
  moreover have "map_of store1 leader_key = Some leader" using Cons.prems(4) t(4) target_key_leader [of shard] by auto
  moreover have "distinct shards" using Cons.prems(3) by simp
  ultimately have IH: "fst ` set ts = set shards \<union> fst ` set (AList.update shard node targets)" "map_of store' leader_key = None"
    "\<And>k. k \<notin> set shards \<Longrightarrow> map_of ts k = map_of (AList.update shard node targets) k"
    "\<And>k. k \<noteq> leader_key \<Longrightarrow> k \<notin> target_key ` set shards \<Longrightarrow> map_of store' k = map_of store1 k"
    "\<And>x. x \<in> set shards \<Longrightarrow> \<exists>node. map_of ts x = Some node \<and> node \<in> fst ` set nodes \<and> map_of store' (target_key x) = Some node \<and>
      (\<forall>cur. map_of store1 (target_key x) = Some cur \<and> cur \<in> fst ` set nodes \<longrightarrow> node = cur)"
    using Cons.IH [OF st(2) [unfolded t(1)]] ids by simp_all
  have new: "shard \<notin> set shards" using Cons.prems(3) by simp
  have "map_of store1 (target_key x) = map_of store (target_key x)" if "x \<in> set shards" for x
    using that new t(4) by (auto simp: target_key_inj)
  moreover have "map_of ts shard = Some node" using IH(3) [OF new] by (simp add: update_conv')
  moreover have "target_key shard \<notin> target_key ` set shards" using new by (auto simp: target_key_inj)
  then have "map_of store' (target_key shard) = Some node"
    using IH(4) [OF target_key_leader] t(4) by simp
  moreover have "fst ` set (AList.update shard node targets) = insert shard (fst ` set targets)"
    by (simp add: dom_update [unfolded dom_map_of_conv_image_fst])
  ultimately show ?case using IH t(3,4) sticky by (auto simp: update_conv' image_iff)
qed

lemma live_nodes_not_draining:
  assumes "live_nodes env store = Inr nodes" and "i \<in> fst ` set nodes"
  shows "i \<noteq> [] \<and> prefix_key @ '':node:'' @ i @ '':draining'' \<notin> fst ` set store"
proof -
  let ?I = "\<lambda>ks nodes. \<forall>i \<in> fst ` set nodes. i \<noteq> [] \<and> prefix_key @ '':node:'' @ i @ '':draining'' \<notin> fst ` set store"
  have "?I (filter is_heartbeat (map fst store)) nodes"
  proof (rule fold_result_induct [where I = ?I, OF assms(1) [unfolded live_nodes_def]])
    fix ys x t t' assume I: "?I ys t" and step: "node_step env store x t = Inr t'"
    have "t' = t \<or> (\<exists>i snapshot. t' = AList.update i snapshot t \<and> i \<noteq> [] \<and> prefix_key @ '':node:'' @ i @ '':draining'' \<notin> fst ` set store)"
      using step by (auto simp: node_step_def Let_def split: option.splits if_splits sum.splits py.splits)
    then show "?I (ys @ [x]) t'"
    proof
      assume "\<exists>i snapshot. t' = AList.update i snapshot t \<and> i \<noteq> [] \<and> prefix_key @ '':node:'' @ i @ '':draining'' \<notin> fst ` set store"
      then obtain i snapshot where t': "t' = AList.update i snapshot t" "i \<noteq> []" "prefix_key @ '':node:'' @ i @ '':draining'' \<notin> fst ` set store" by blast
      have "fst ` set t' = insert i (fst ` set t)" unfolding t'(1) by (simp add: dom_update [unfolded dom_map_of_conv_image_fst])
      with I t' show ?thesis by simp
    qed (use I in simp)
  qed simp
  with assms(2) show ?thesis by blast
qed

subsection \<open>Properties\<close>


definition demo_coordination :: coordination where
  "demo_coordination = \<lparr>m_mode = ''redis'', m_redis = True, m_get = (\<lambda>k. None), m_pttl = (\<lambda>k. 0), m_fl = (\<lambda>x. x), m_to_str = (\<lambda>v. [])\<rparr>"

definition demo_moving :: gateway where
  "demo_moving = empty_gateway\<lparr>bg_connections := [new_connection ''c'' ''qq'' ''qq bot'' True (Some ''u'') 1]\<rparr>"


text \<open>
  Shard targets are live and sticky. When the scheduler gets the leader key and finds nodes, it
  answers a target for every shard asked for and no other; the target is a node with a heartbeat that
  is not draining; a stored target that is still such a node is kept; the store then holds the
  targets, nothing else in it changed, and the leader key is given back.
\<close>

theorem targets_live_and_sticky:
  assumes "coordination_mode env = ''redis''" and "m_redis env" and "shard_ids \<noteq> []" and "leader_key \<notin> fst ` set store"
    and "live_nodes env (store @ [(leader_key, leader)]) = Inr nodes" and "nodes \<noteq> []"
    and "ensure_shard_targets env leader shard_ids store = (Inr targets, store')"
  shows "fst ` set targets = set shard_ids \<and> map_of store' leader_key = None \<and>
    (\<forall>k. k \<notin> target_key ` set shard_ids \<longrightarrow> map_of store' k = map_of store k) \<and>
    (\<forall>shard \<in> set shard_ids. \<exists>node. map_of targets shard = Some node \<and> map_of store' (target_key shard) = Some node \<and>
      node \<in> fst ` set nodes \<and> prefix_key @ '':node:'' @ node @ '':draining'' \<notin> fst ` set store \<and>
      (\<forall>cur. map_of store (target_key shard) = Some cur \<and> cur \<in> fst ` set nodes \<longrightarrow> node = cur))"
proof -
  let ?held = "store @ [(leader_key, leader)]"
  have run: "assign_targets env leader (sort (remdups shard_ids)) ([], nodes, ?held) = (Inr targets, store')"
    using assms by (cases nodes) (auto simp: ensure_shard_targets_def Let_def)
  have l: "map_of ?held leader_key = Some leader" "map_of store leader_key = None" using assms(4) by (auto simp: map_add_Some_iff map_of_eq_None_iff)
  have same: "map_of ?held k = map_of store k" if "k \<noteq> leader_key" for k using that by (simp add: map_add_def split: option.splits)
  have drain: "prefix_key @ '':node:'' @ i @ '':draining'' \<notin> fst ` set store" if "i \<in> fst ` set nodes" for i
    using live_nodes_not_draining [OF assms(5) that] by auto
  have a: "fst ` set targets = set shard_ids" "map_of store' leader_key = None"
    "\<And>k. k \<noteq> leader_key \<Longrightarrow> k \<notin> target_key ` set shard_ids \<Longrightarrow> map_of store' k = map_of store k"
    "\<And>shard. shard \<in> set shard_ids \<Longrightarrow> \<exists>node. map_of targets shard = Some node \<and> node \<in> fst ` set nodes \<and>
      map_of store' (target_key shard) = Some node \<and> (\<forall>cur. map_of store (target_key shard) = Some cur \<and> cur \<in> fst ` set nodes \<longrightarrow> node = cur)"
    using assign_targets_Inr [OF run assms(6) _ l(1)] same target_key_leader by auto
  have "map_of store' k = map_of store k" if "k \<notin> target_key ` set shard_ids" for k using a(2,3) l(2) that by (cases "k = leader_key") simp_all
  moreover have "\<exists>node. map_of targets shard = Some node \<and> map_of store' (target_key shard) = Some node \<and>
      node \<in> fst ` set nodes \<and> prefix_key @ '':node:'' @ node @ '':draining'' \<notin> fst ` set store \<and>
      (\<forall>cur. map_of store (target_key shard) = Some cur \<and> cur \<in> fst ` set nodes \<longrightarrow> node = cur)" if "shard \<in> set shard_ids" for shard
  proof -
    from a(4) [OF that] obtain node where "map_of targets shard = Some node" "node \<in> fst ` set nodes" "map_of store' (target_key shard) = Some node"
      "\<forall>cur. map_of store (target_key shard) = Some cur \<and> cur \<in> fst ` set nodes \<longrightarrow> node = cur" by blast
    with drain show ?thesis by (intro exI [of _ node] conjI)
  qed
  ultimately show ?thesis using a(1,2) by (intro conjI allI impI ballI) simp_all
qed

definition demo_store :: store where
  "demo_store = [(prefix_key @ '':node:n1:heartbeat'', [CHR 0x7B, CHR 0x22] @ ''nodeId'' @ [CHR 0x22, CHR 0x3A, CHR 0x22] @ ''n1'' @ [CHR 0x22, CHR 0x7D]),
     (target_key ''s'', ''n1'')]"

theorem targets_live_and_sticky_witness:
  "fst (ensure_shard_targets demo_coordination ''me'' [''s''] demo_store) = Inr [(''s'', ''n1'')] \<and>
   map_of (snd (ensure_shard_targets demo_coordination ''me'' [''s''] demo_store)) leader_key = None"
proof -
  let ?r = "ensure_shard_targets demo_coordination ''me'' [''s''] demo_store"
  have env: "coordination_mode demo_coordination = ''redis''" "m_redis demo_coordination" "[''s''] \<noteq> []" by code_simp+
  have key: "leader_key \<notin> fst ` set demo_store" by code_simp
  have nodes: "live_nodes demo_coordination (demo_store @ [(leader_key, ''me'')]) = Inr [(''n1'', [(''nodeId'', PStr ''n1'')])]" by code_simp
  have run: "fst ?r = Inr [(''s'', ''n1'')]" by code_simp
  then have "?r = (Inr [(''s'', ''n1'')], snd ?r)" by (simp add: prod_eq_iff)
  from targets_live_and_sticky [OF env key nodes _ this] run show ?thesis by simp
qed

end
