(* ===== verification/Credits.thy ===== *)
theory Credits
  imports Prelude
begin

text \<open>
  The credit balances of \<^verbatim>\<open>models/credits.py\<close>: the tables \<open>credit\<close> and \<open>credit_log\<close> and their
  operations. Decimals are rationals; \<open>store\<close> is what the database keeps of a value in a column
  \<open>Numeric(24, 12)\<close>, computed for an update from the stored balance. \<open>default_credit\<close> is the
  configured balance of a new user, None when the setting is not a number. Each operation commits
  one transaction, so it is one step on the tables; the fresh ids and the time are arguments.
\<close>

subsection \<open>Rows\<close>

record credit_row =
  cr_id :: string
  cr_user_id :: string
  cr_credit :: rat
  cr_updated_at :: int
  cr_created_at :: int

record credit_log =
  cl_id :: string
  cl_user_id :: string
  cl_credit :: rat
  cl_detail :: py
  cl_created_at :: int

record credit_db =
  credits :: "credit_row list"
  credit_logs :: "credit_log list"

text \<open>What the deployment fixes: column rounding, the default balance and the message of a refusal.\<close>

record credit_env =
  store :: "rat \<Rightarrow> rat"
  default_credit :: "rat option"
  no_credit_msg :: string

subsection \<open>Balances\<close>

definition get_credit_by_user_id :: "credit_db \<Rightarrow> string \<Rightarrow> credit_row option" where
  "get_credit_by_user_id db u = find (\<lambda>r. cr_user_id r = u) (credits db)"

definition list_credits_by_user_id :: "credit_db \<Rightarrow> string list \<Rightarrow> credit_row list" where
  "list_credits_by_user_id db us = filter (\<lambda>r. cr_user_id r \<in> set us) (credits db)"

text \<open>The model returned holds the default as configured, the row what the column keeps of it.\<close>

definition insert_new_credit :: "credit_env \<Rightarrow> string \<Rightarrow> int \<Rightarrow> string \<Rightarrow> credit_db \<Rightarrow> credit_row option \<times> credit_db" where
  "insert_new_credit env uuid now u db =
     (case default_credit env of
        None \<Rightarrow> (None, db)
      | Some d \<Rightarrow>
          (let m = \<lparr>cr_id = uuid, cr_user_id = u, cr_credit = d, cr_updated_at = now, cr_created_at = now\<rparr>
           in if uuid \<in> cr_id ` set (credits db) \<or> u \<in> cr_user_id ` set (credits db) then (None, db)
              else (Some m, db\<lparr>credits := credits db @ [m\<lparr>cr_credit := store env d\<rparr>]\<rparr>)))"

definition init_credit_by_user_id ::
  "credit_env \<Rightarrow> string \<Rightarrow> int \<Rightarrow> string \<Rightarrow> credit_db \<Rightarrow> credit_row result \<times> credit_db" where
  "init_credit_by_user_id env uuid now u db =
     (case get_credit_by_user_id db u of
        Some r \<Rightarrow> (Inr r, db)
      | None \<Rightarrow>
          (case insert_new_credit env uuid now u db of
             (Some r, db) \<Rightarrow> (Inr r, db)
           | (None, db) \<Rightarrow>
               (case get_credit_by_user_id db u of
                  Some r \<Rightarrow> (Inr r, db)
                | None \<Rightarrow> (Inl (HTTPException 500 ''credit initialize failed''), db))))"

definition update_credit :: "(credit_row \<Rightarrow> bool) \<Rightarrow> (rat \<Rightarrow> rat) \<Rightarrow> int \<Rightarrow> credit_db \<Rightarrow> nat \<times> credit_db" where
  "update_credit P f now db =
     (length (filter P (credits db)),
      db\<lparr>credits := map (\<lambda>r. if P r then r\<lparr>cr_credit := f (cr_credit r), cr_updated_at := now\<rparr> else r) (credits db)\<rparr>)"

definition add_log :: "string \<Rightarrow> string \<Rightarrow> rat \<Rightarrow> py \<Rightarrow> int \<Rightarrow> credit_db \<Rightarrow> credit_db" where
  "add_log i u credit detail now db =
     db\<lparr>credit_logs := credit_logs db @
          [\<lparr>cl_id = i, cl_user_id = u, cl_credit = credit, cl_detail = detail, cl_created_at = now\<rparr>]\<rparr>"

definition set_credit_by_user_id ::
  "credit_env \<Rightarrow> (nat \<Rightarrow> string) \<Rightarrow> int \<Rightarrow> string \<Rightarrow> rat \<Rightarrow> py \<Rightarrow> credit_db \<Rightarrow> credit_row option result \<times> credit_db" where
  "set_credit_by_user_id env uuid now u credit detail db =
     (case init_credit_by_user_id env (uuid 0) now u db of
        (Inl e, db) \<Rightarrow> (Inl e, db)
      | (Inr r, db) \<Rightarrow>
          (let db = add_log (uuid 1) u (store env credit) detail now db;
               db = snd (update_credit (\<lambda>r'. cr_user_id r' = cr_user_id r) (\<lambda>_. store env credit) now db)
           in (Inr (get_credit_by_user_id db u), db)))"

text \<open>
  The deduction is one conditional update: a row whose balance is below the amount does not match
  and nothing changes.
\<close>

definition add_credit_by_user_id ::
  "credit_env \<Rightarrow> (nat \<Rightarrow> string) \<Rightarrow> int \<Rightarrow> string \<Rightarrow> rat \<Rightarrow> py \<Rightarrow> credit_db \<Rightarrow> credit_row option result \<times> credit_db" where
  "add_credit_by_user_id env uuid now u amount detail db =
     (case init_credit_by_user_id env (uuid 0) now u db of
        (Inl e, db) \<Rightarrow> (Inl e, db)
      | (Inr _, db) \<Rightarrow>
          (case update_credit (\<lambda>r. cr_user_id r = u \<and> (amount < 0 \<longrightarrow> cr_credit r \<ge> - amount))
                  (\<lambda>c. store env (c + amount)) now db of
             (updated, db') \<Rightarrow>
               (if updated = 1 then
                  (let balance = (case get_credit_by_user_id db' u of None \<Rightarrow> 0 | Some r \<Rightarrow> cr_credit r);
                       db' = add_log (uuid 1) u balance detail now db'
                   in (Inr (get_credit_by_user_id db' u), db'))
                else (Inl (HTTPException 403 (no_credit_msg env)), db))))"

definition reset_all_credits :: "credit_env \<Rightarrow> int \<Rightarrow> rat \<Rightarrow> credit_db \<Rightarrow> nat \<times> credit_db" where
  "reset_all_credits env now v db = update_credit (\<lambda>_. True) (\<lambda>_. store env v) now db"

subsection \<open>The log\<close>

definition logs_of :: "string list \<Rightarrow> credit_db \<Rightarrow> credit_log list" where
  "logs_of user_ids db = (if user_ids = [] then credit_logs db else filter (\<lambda>l. cl_user_id l \<in> set user_ids) (credit_logs db))"

definition count_credit_log :: "string list \<Rightarrow> credit_db \<Rightarrow> nat" where
  "count_credit_log user_ids db = length (logs_of user_ids db)"

text \<open>An offset or limit of zero is falsy and ignored.\<close>

definition get_credit_log_by_page :: "string list \<Rightarrow> nat option \<Rightarrow> nat option \<Rightarrow> credit_db \<Rightarrow> credit_log list" where
  "get_credit_log_by_page user_ids offset limit db =
     (let rows = sort_key (\<lambda>l. - cl_created_at l) (logs_of user_ids db);
          rows = (case offset of None \<Rightarrow> rows | Some n \<Rightarrow> drop n rows)
      in case limit of None \<Rightarrow> rows | Some n \<Rightarrow> if n = 0 then rows else take n rows)"

definition get_log_by_time :: "int \<Rightarrow> int \<Rightarrow> string list \<Rightarrow> credit_db \<Rightarrow> credit_log list" where
  "get_log_by_time start_time end_time user_ids db =
     sort_key cl_created_at (filter (\<lambda>l. start_time \<le> cl_created_at l \<and> cl_created_at l < end_time) (logs_of user_ids db))"

definition delete_log_by_timestamp :: "int \<Rightarrow> credit_db \<Rightarrow> nat \<times> credit_db" where
  "delete_log_by_timestamp timestamp db =
     (length (filter (\<lambda>l. cl_created_at l < timestamp) (credit_logs db)),
      db\<lparr>credit_logs := filter (\<lambda>l. \<not> cl_created_at l < timestamp) (credit_logs db)\<rparr>)"

subsection \<open>Lemmas: one operation\<close>

text \<open>The balance a user has, counting the default for a user without a row.\<close>

definition balance :: "credit_env \<Rightarrow> credit_db \<Rightarrow> string \<Rightarrow> rat" where
  "balance env db u =
     (case get_credit_by_user_id db u of
        Some r \<Rightarrow> cr_credit r
      | None \<Rightarrow> (case default_credit env of Some d \<Rightarrow> store env d | None \<Rightarrow> 0))"

definition credits_ok :: "credit_db \<Rightarrow> bool" where
  "credits_ok db \<longleftrightarrow> distinct (map cr_user_id (credits db)) \<and> distinct (map cr_id (credits db))"

lemma get_credit_None: "get_credit_by_user_id db u = None \<longleftrightarrow> u \<notin> cr_user_id ` set (credits db)"
  by (auto simp: get_credit_by_user_id_def find_None_iff)

lemma get_credit_Some:
  "credits_ok db \<Longrightarrow> get_credit_by_user_id db u = Some r \<longleftrightarrow> r \<in> set (credits db) \<and> cr_user_id r = u"
proof
  assume ok: "credits_ok db" and r: "r \<in> set (credits db) \<and> cr_user_id r = u"
  then obtain r' where "get_credit_by_user_id db u = Some r'"
    using get_credit_None [of db u] by (cases "get_credit_by_user_id db u") auto
  moreover from this have "r' \<in> set (credits db)" "cr_user_id r' = u"
    by (auto simp: get_credit_by_user_id_def dest: find_Some)
  ultimately show "get_credit_by_user_id db u = Some r"
    using ok r by (auto simp: credits_ok_def distinct_map dest: inj_onD)
qed (auto simp: get_credit_by_user_id_def dest: find_Some)

lemma init_credit_ok:
  assumes "credits_ok db" and "init_credit_by_user_id env uuid now u db = (Inr r, db')"
  shows "credits_ok db'" and "u \<in> cr_user_id ` set (credits db')" and "balance env db' v = balance env db v"
    and "credit_logs db' = credit_logs db" and "cr_user_id r = u"
proof -
  have get: "cr_user_id r' = u" if "get_credit_by_user_id db u = Some r'" for r'
    using that by (auto simp: get_credit_by_user_id_def dest: find_Some)
  consider (old) "get_credit_by_user_id db u = Some r" "db' = db"
    | (new) d where "get_credit_by_user_id db u = None" "default_credit env = Some d"
        "uuid \<notin> cr_id ` set (credits db)" "cr_user_id r = u"
        "db' = db\<lparr>credits := credits db @ [r\<lparr>cr_credit := store env d\<rparr>]\<rparr>" "cr_id r = uuid"
    using assms(2) by (auto simp: init_credit_by_user_id_def insert_new_credit_def Let_def split: option.splits if_splits)
  then have "credits_ok db' \<and> u \<in> cr_user_id ` set (credits db') \<and> balance env db' v = balance env db v \<and>
      credit_logs db' = credit_logs db \<and> cr_user_id r = u"
  proof cases
    case old
    then show ?thesis using assms(1) get_credit_None [of db u] get by auto
  next
    case new
    from new(1) have "u \<notin> cr_user_id ` set (credits db)" by (simp add: get_credit_None)
    then have ok: "credits_ok db'" using assms(1) new by (auto simp: credits_ok_def)
    have "get_credit_by_user_id db' v = (case get_credit_by_user_id db v of Some x \<Rightarrow> Some x
        | None \<Rightarrow> if v = u then Some (r\<lparr>cr_credit := store env d\<rparr>) else None)"
    proof -
      have "find P (xs @ [x]) = (case find P xs of Some y \<Rightarrow> Some y | None \<Rightarrow> if P x then Some x else None)"
        for P :: "credit_row \<Rightarrow> bool" and xs x by (induction xs) auto
      then show ?thesis using new(4,5) by (simp add: get_credit_by_user_id_def eq_commute split: option.splits)
    qed
    then have "balance env db' v = balance env db v"
      using new(1,2) by (auto simp: balance_def split: option.splits)
    with ok new show ?thesis by simp
  qed
  then show "credits_ok db'" "u \<in> cr_user_id ` set (credits db')" "balance env db' v = balance env db v"
    "credit_logs db' = credit_logs db" "cr_user_id r = u" by blast+
qed

lemma update_credit_ok:
  assumes "credits_ok db" and "update_credit P f now db = (n, db')"
  shows "credits_ok db'" and "credit_logs db' = credit_logs db"
    and "cr_user_id ` set (credits db') = cr_user_id ` set (credits db)"
    and "r \<in> set (credits db) \<Longrightarrow> cr_user_id r = v \<Longrightarrow>
           balance env db' v = (if P r then f (cr_credit r) else cr_credit r)"
    and "v \<notin> cr_user_id ` set (credits db) \<Longrightarrow> balance env db' v = balance env db v"
proof -
  let ?g = "\<lambda>r. if P r then r\<lparr>cr_credit := f (cr_credit r), cr_updated_at := now\<rparr> else r"
  from assms(2) have db': "db' = db\<lparr>credits := map ?g (credits db)\<rparr>" by (simp add: update_credit_def)
  have ids: "map cr_user_id (map ?g (credits db)) = map cr_user_id (credits db)"
    "map cr_id (map ?g (credits db)) = map cr_id (credits db)" by simp_all
  have cr: "credits db' = map ?g (credits db)" by (simp add: db')
  show ok: "credits_ok db'" using assms(1) unfolding credits_ok_def cr ids .
  show "credit_logs db' = credit_logs db" by (simp add: db')
  show us: "cr_user_id ` set (credits db') = cr_user_id ` set (credits db)"
    using arg_cong [OF ids(1), of set] unfolding set_map cr .
  show "balance env db' v = (if P r then f (cr_credit r) else cr_credit r)" if "r \<in> set (credits db)" "cr_user_id r = v"
  proof -
    have "?g r \<in> set (credits db')" "cr_user_id (?g r) = v" using that by (auto simp: db')
    then have "get_credit_by_user_id db' v = Some (?g r)" using get_credit_Some [OF ok] by blast
    then show ?thesis by (simp add: balance_def)
  qed
  show "balance env db' v = balance env db v" if "v \<notin> cr_user_id ` set (credits db)"
  proof -
    have "get_credit_by_user_id db' v = None" "get_credit_by_user_id db v = None"
      using that by (simp_all add: get_credit_None us)
    then show ?thesis by (simp add: balance_def)
  qed
qed

lemma balance_add_log [simp]: "balance env (add_log i u c d now db) v = balance env db v"
  by (simp add: balance_def get_credit_by_user_id_def add_log_def)

lemma credits_add_log [simp]: "credits (add_log i u c d now db) = credits db"
  by (simp add: add_log_def)

lemma get_add_log [simp]: "get_credit_by_user_id (add_log i u c d now db) v = get_credit_by_user_id db v"
  by (simp add: get_credit_by_user_id_def)

lemma init_credit_succeeds:
  assumes "default_credit env \<noteq> None" and "uuid \<notin> cr_id ` set (credits db)"
  shows "\<exists>r db'. init_credit_by_user_id env uuid now u db = (Inr r, db')"
  using assms
  by (auto simp: init_credit_by_user_id_def insert_new_credit_def Let_def get_credit_None split: option.splits)

lemma length_filter_user:
  assumes "credits_ok db" and "r \<in> set (credits db)" and "cr_user_id r = u"
  shows "length (filter (\<lambda>r'. cr_user_id r' = u \<and> Q r') (credits db)) = (if Q r then 1 else 0)"
proof -
  have same: "r' = r" if "r' \<in> set (credits db)" "cr_user_id r' = u" for r'
    using that assms by (auto simp: credits_ok_def distinct_map dest: inj_onD)
  have "distinct (filter (\<lambda>r'. cr_user_id r' = u \<and> Q r') (credits db))"
    using assms(1) unfolding credits_ok_def distinct_map by (intro distinct_filter) blast
  from distinct_card [OF this, symmetric] have "length (filter (\<lambda>r'. cr_user_id r' = u \<and> Q r') (credits db))
      = card {r' \<in> set (credits db). cr_user_id r' = u \<and> Q r'}"
    by (simp only: set_filter)
  also have "{r' \<in> set (credits db). cr_user_id r' = u \<and> Q r'} = (if Q r then {r} else {})"
  proof (cases "Q r")
    case True
    with same assms(2,3) have "(r' \<in> set (credits db) \<and> cr_user_id r' = u \<and> Q r') = (r' = r)" for r' by metis
    with True show ?thesis by simp
  next
    case False
    then have "\<not> (cr_user_id r' = u \<and> Q r')" if "r' \<in> set (credits db)" for r' using same [OF that] by metis
    with False show ?thesis by (simp add: Collect_empty_eq)
  qed
  finally show ?thesis by (cases "Q r") simp_all
qed

lemma add_credit_spec:
  assumes "credits_ok db" and "default_credit env \<noteq> None" and "uuid 0 \<notin> cr_id ` set (credits db)"
    and "add_credit_by_user_id env uuid now u amount detail db = (res, db')"
  shows "credits_ok db'"
    and "(\<exists>r. res = Inr r) \<longleftrightarrow> (amount < 0 \<longrightarrow> balance env db u \<ge> - amount)"
    and "balance env db' v = (if v = u \<and> (amount < 0 \<longrightarrow> balance env db u \<ge> - amount)
           then store env (balance env db u + amount) else balance env db v)"
    and "credit_logs db' = credit_logs db @ (if amount < 0 \<longrightarrow> balance env db u \<ge> - amount
           then [\<lparr>cl_id = uuid 1, cl_user_id = u, cl_credit = balance env db' u, cl_detail = detail, cl_created_at = now\<rparr>] else [])"
proof -
  let ?ok = "amount < 0 \<longrightarrow> balance env db u \<ge> - amount"
  from init_credit_succeeds [OF assms(2,3)] obtain r0 db1 where
    init: "init_credit_by_user_id env (uuid 0) now u db = (Inr r0, db1)" by blast
  note i = init_credit_ok [OF assms(1) init]
  from i(2) obtain r where r: "r \<in> set (credits db1)" "cr_user_id r = u" by auto
  then have bal: "cr_credit r = balance env db u"
    using get_credit_Some [OF i(1), of u r] i(3) [of u] by (simp add: balance_def)
  let ?P = "\<lambda>r. cr_user_id r = u \<and> (amount < 0 \<longrightarrow> cr_credit r \<ge> - amount)"
  obtain n db2 where upd: "update_credit ?P (\<lambda>c. store env (c + amount)) now db1 = (n, db2)" by fastforce
  note u = update_credit_ok [OF i(1) upd]
  have "n = length (filter ?P (credits db1))" using upd by (simp add: update_credit_def)
  also have "\<dots> = (if ?ok then 1 else 0)" using length_filter_user [OF i(1) r] by (simp add: bal)
  finally have n: "n = (if ?ok then 1 else 0)" .
  let ?log = "add_log (uuid 1) u (case get_credit_by_user_id db2 u of None \<Rightarrow> 0 | Some r \<Rightarrow> cr_credit r) detail now db2"
  have "(res, db') = (if ?ok then (Inr (get_credit_by_user_id db2 u), ?log) else (Inl (HTTPException 403 (no_credit_msg env)), db1))"
    unfolding assms(4) [symmetric] add_credit_by_user_id_def init prod.case sum.case upd Let_def n by simp
  then have res: "res = (if ?ok then Inr (get_credit_by_user_id db2 u) else Inl (HTTPException 403 (no_credit_msg env)))"
    "db' = (if ?ok then ?log else db1)"
    by (cases ?ok; simp)+
  show "credits_ok db'" using i(1) u(1) by (simp add: res credits_ok_def)
  show "(\<exists>r. res = Inr r) \<longleftrightarrow> ?ok" by (simp add: res)
  have b2: "balance env db2 v = (if v = u \<and> ?ok then store env (balance env db u + amount) else balance env db v)" for v
  proof (cases "v \<in> cr_user_id ` set (credits db1)")
    case True
    then obtain r' where r': "r' \<in> set (credits db1)" "cr_user_id r' = v" by auto
    then have "cr_credit r' = balance env db v"
      using get_credit_Some [OF i(1), of v r'] i(3) [of v] by (simp add: balance_def)
    with u(4) [OF r'] r'(2) show ?thesis by auto
  next
    case False
    with r have "v \<noteq> u" by auto
    with u(5) [OF False] i(3) show ?thesis by simp
  qed
  then show bal': "balance env db' v = (if v = u \<and> ?ok then store env (balance env db u + amount) else balance env db v)" for v
    using i(3) by (cases ?ok) (simp_all add: res(2))
  have "get_credit_by_user_id db2 u \<noteq> None" using u(3) i(2) by (simp add: get_credit_None)
  then have "(case get_credit_by_user_id db2 u of None \<Rightarrow> 0 | Some r \<Rightarrow> cr_credit r) = balance env db2 u"
    by (auto simp: balance_def)
  then show "credit_logs db' = credit_logs db @ (if ?ok
      then [\<lparr>cl_id = uuid 1, cl_user_id = u, cl_credit = balance env db' u, cl_detail = detail, cl_created_at = now\<rparr>] else [])"
    using i(4) u(2) by (cases ?ok) (simp_all add: res(2) bal' [unfolded res(2)], simp add: add_log_def b2)
qed

subsection \<open>Balances stay nonnegative\<close>

definition credits_nonneg :: "credit_db \<Rightarrow> bool" where
  "credits_nonneg db \<longleftrightarrow> (\<forall>r \<in> set (credits db). cr_credit r \<ge> 0)"

text \<open>What the column keeps of a nonnegative value is nonnegative, and so is the default balance.\<close>

definition env_nonneg :: "credit_env \<Rightarrow> bool" where
  "env_nonneg env \<longleftrightarrow> (\<forall>x \<ge> 0. store env x \<ge> 0) \<and> (\<forall>d. default_credit env = Some d \<longrightarrow> d \<ge> 0)"

lemma init_credit_inv:
  assumes "env_nonneg env" and "credits_ok db" and "credits_nonneg db"
    and "init_credit_by_user_id env uuid now u db = (res, db')"
  shows "credits_ok db' \<and> credits_nonneg db'"
  using assms
  by (auto simp: init_credit_by_user_id_def insert_new_credit_def Let_def env_nonneg_def credits_ok_def credits_nonneg_def
      split: option.splits if_splits)

lemma update_credit_inv:
  assumes "credits_ok db" and "credits_nonneg db" and "\<And>r. P r \<Longrightarrow> cr_credit r \<ge> 0 \<Longrightarrow> f (cr_credit r) \<ge> 0"
  shows "credits_ok (snd (update_credit P f now db)) \<and> credits_nonneg (snd (update_credit P f now db))"
proof -
  obtain n db' where "update_credit P f now db = (n, db')" by fastforce
  with update_credit_ok(1) [OF assms(1) this] assms(2,3) show ?thesis
    by (auto simp: credits_nonneg_def update_credit_def)
qed

lemma credits_inv_add_log:
  "credits_ok (add_log i u c d now db) \<longleftrightarrow> credits_ok db" "credits_nonneg (add_log i u c d now db) \<longleftrightarrow> credits_nonneg db"
  by (simp_all add: credits_ok_def credits_nonneg_def)

lemma add_credit_inv:
  assumes "env_nonneg env" and "credits_ok db" and "credits_nonneg db"
    and "add_credit_by_user_id env uuid now u amount detail db = (res, db')"
  shows "credits_ok db' \<and> credits_nonneg db'"
proof -
  obtain r db1 where init: "init_credit_by_user_id env (uuid 0) now u db = (r, db1)" by fastforce
  note i = init_credit_inv [OF assms(1-3) init]
  let ?P = "\<lambda>r. cr_user_id r = u \<and> (amount < 0 \<longrightarrow> cr_credit r \<ge> - amount)"
  obtain n db2 where upd: "update_credit ?P (\<lambda>c. store env (c + amount)) now db1 = (n, db2)" by fastforce
  have "store env (cr_credit r + amount) \<ge> 0" if "?P r" "cr_credit r \<ge> 0" for r
    using assms(1) that by (cases "amount < 0") (auto simp: env_nonneg_def)
  then have "credits_ok (snd (update_credit ?P (\<lambda>c. store env (c + amount)) now db1)) \<and>
      credits_nonneg (snd (update_credit ?P (\<lambda>c. store env (c + amount)) now db1))"
    by (rule update_credit_inv [OF conjunct1 [OF i] conjunct2 [OF i]])
  then have "credits_ok db2 \<and> credits_nonneg db2" by (simp only: upd snd_conv)
  moreover have "db' = db1 \<or> (\<exists>i c d. db' = add_log i u c d now db2)"
    using assms(4) unfolding add_credit_by_user_id_def init prod.case upd Let_def
    by (cases r) (auto split: if_splits)
  ultimately show ?thesis using i by (auto simp: credits_inv_add_log)
qed

lemma set_credit_inv:
  assumes "env_nonneg env" and "credits_ok db" and "credits_nonneg db" and "credit \<ge> 0"
    and "set_credit_by_user_id env uuid now u credit detail db = (res, db')"
  shows "credits_ok db' \<and> credits_nonneg db'"
proof -
  obtain r db1 where init: "init_credit_by_user_id env (uuid 0) now u db = (r, db1)" by fastforce
  note i = init_credit_inv [OF assms(1-3) init]
  have "store env credit \<ge> 0" using assms(1,4) by (simp add: env_nonneg_def)
  with i have "credits_ok (snd (update_credit P (\<lambda>_. store env credit) now (add_log l u c d now db1))) \<and>
      credits_nonneg (snd (update_credit P (\<lambda>_. store env credit) now (add_log l u c d now db1)))" for P l c d
    by (intro update_credit_inv) (simp_all add: credits_inv_add_log)
  with assms(5) i show ?thesis
    unfolding set_credit_by_user_id_def init prod.case Let_def by (cases r) auto
qed

text \<open>
  One operation of the tables. An administrator sets and resets balances to nonnegative values;
  amounts to add or deduct are arbitrary.
\<close>

inductive credit_step :: "credit_env \<Rightarrow> credit_db \<Rightarrow> credit_db \<Rightarrow> bool" for env where
  init: "init_credit_by_user_id env uuid now u db = (res, db') \<Longrightarrow> credit_step env db db'"
| add: "add_credit_by_user_id env ids now u amount detail db = (res', db') \<Longrightarrow> credit_step env db db'"
| set_credit: "credit \<ge> 0 \<Longrightarrow> set_credit_by_user_id env ids now u credit detail db = (res', db') \<Longrightarrow> credit_step env db db'"
| reset: "v \<ge> 0 \<Longrightarrow> reset_all_credits env now v db = (n, db') \<Longrightarrow> credit_step env db db'"
| purge: "delete_log_by_timestamp timestamp db = (n, db') \<Longrightarrow> credit_step env db db'"

inductive credit_reachable :: "credit_env \<Rightarrow> credit_db \<Rightarrow> bool" for env where
  start: "credit_reachable env \<lparr>credits = [], credit_logs = []\<rparr>"
| step: "credit_reachable env db \<Longrightarrow> credit_step env db db' \<Longrightarrow> credit_reachable env db'"

lemma credit_step_inv:
  assumes "credit_step env db db'" and "env_nonneg env" and "credits_ok db" and "credits_nonneg db"
  shows "credits_ok db' \<and> credits_nonneg db'"
  using assms
proof (cases rule: credit_step.cases)
  case (reset v now n)
  then have "db' = snd (update_credit (\<lambda>_. True) (\<lambda>_. store env v) now db)" by (simp add: reset_all_credits_def)
  then show ?thesis
    using reset(1) assms(2-4) by (simp only:) (intro update_credit_inv, auto simp: env_nonneg_def)
next
  case purge
  then show ?thesis using assms(3,4) by (auto simp: delete_log_by_timestamp_def credits_ok_def credits_nonneg_def)
next
  case (init uuid now u res)
  then show ?thesis by (rule init_credit_inv [OF assms(2-4)])
next
  case (add ids now u amount detail res')
  then show ?thesis by (rule add_credit_inv [OF assms(2-4)])
next
  case (set_credit credit ids now u detail res')
  then show ?thesis by (rule set_credit_inv [OF assms(2-4)])
qed

lemma credit_reachable_inv:
  "credit_reachable env db \<Longrightarrow> env_nonneg env \<Longrightarrow> credits_ok db \<and> credits_nonneg db"
proof (induction rule: credit_reachable.induct)
  case start
  then show ?case by (simp add: credits_ok_def credits_nonneg_def)
next
  case step
  then show ?case using credit_step_inv by blast
qed

subsection \<open>The interface: an account that cannot be overdrawn\<close>

text \<open>
  A sequence of charges, in the order in which their transactions commit: each asks to take an
  amount from a user and is accepted or refused. \<open>taken\<close> sums what was accepted from a user.
\<close>

fun run_charges :: "(string \<Rightarrow> rat \<Rightarrow> 'db \<Rightarrow> bool \<times> 'db) \<Rightarrow> (string \<times> rat) list \<Rightarrow> 'db \<Rightarrow> (string \<times> rat \<times> bool) list \<times> 'db" where
  "run_charges charge [] db = ([], db)"
| "run_charges charge ((u, a) # ops) db =
     (case charge u a db of (ok, db) \<Rightarrow> (case run_charges charge ops db of (out, db) \<Rightarrow> ((u, a, ok) # out, db)))"

definition taken :: "string \<Rightarrow> (string \<times> rat \<times> bool) list \<Rightarrow> rat" where
  "taken u out = sum_list (map (\<lambda>(v, a, ok). if v = u \<and> ok then a else 0) out)"

text \<open>
  What the code that charges users relies on: a charge is accepted exactly when the balance covers
  it, takes exactly its amount from that user, and touches no one else. \<open>valid\<close> are the amounts
  the account represents exactly.
\<close>

locale ledger =
  fixes bal :: "'db \<Rightarrow> string \<Rightarrow> rat"
    and charge :: "string \<Rightarrow> rat \<Rightarrow> 'db \<Rightarrow> bool \<times> 'db"
    and inv :: "'db \<Rightarrow> bool"
    and valid :: "rat \<Rightarrow> bool"
  assumes charge_inv: "inv db \<Longrightarrow> valid a \<Longrightarrow> a \<ge> 0 \<Longrightarrow> inv (snd (charge u a db))"
    and charge_accepted: "inv db \<Longrightarrow> valid a \<Longrightarrow> a \<ge> 0 \<Longrightarrow> fst (charge u a db) \<longleftrightarrow> bal db u \<ge> a \<or> a = 0"
    and charge_balance: "inv db \<Longrightarrow> valid a \<Longrightarrow> a \<ge> 0 \<Longrightarrow>
      bal (snd (charge u a db)) v = (if v = u \<and> bal db u \<ge> a then bal db u - a else bal db v)"
begin

lemma run_charges_balance:
  assumes "inv db" and "\<forall>(u, a) \<in> set ops. valid a \<and> a \<ge> 0" and "run_charges charge ops db = (out, db')"
  shows "bal db' u = bal db u - taken u out \<and> (bal db u \<ge> 0 \<longrightarrow> bal db' u \<ge> 0)"
  using assms
proof (induction ops arbitrary: db out)
  case (Cons op ops)
  obtain v a where op: "op = (v, a)" by (cases op)
  obtain ok db1 where c: "charge v a db = (ok, db1)" by (cases "charge v a db")
  obtain out' db2 where r: "run_charges charge ops db1 = (out', db2)" by (cases "run_charges charge ops db1")
  have va: "valid a" "a \<ge> 0" using Cons.prems(2) op by auto
  note laws = charge_inv [OF Cons.prems(1) va, of v] charge_accepted [OF Cons.prems(1) va, of v]
    charge_balance [OF Cons.prems(1) va, of v u]
  from Cons.IH [of db1 out'] laws Cons.prems c r op
  have "bal db' u = bal db1 u - taken u out'" "bal db1 u \<ge> 0 \<longrightarrow> bal db' u \<ge> 0" by auto
  moreover have "out = (v, a, ok) # out'" using Cons.prems(3) op c r by auto
  ultimately show ?case using laws c by (auto simp: taken_def)
qed (simp add: taken_def)

text \<open>A user's charges are all accepted as long as what was taken before leaves enough.\<close>

lemma run_charges_outcome:
  assumes "inv db" and "\<forall>(u, a) \<in> set ops. valid a \<and> a \<ge> 0" and "run_charges charge ops db = (out, db')"
    and "i < length ops"
  shows "out ! i = (fst (ops ! i), snd (ops ! i),
    bal db (fst (ops ! i)) - taken (fst (ops ! i)) (take i out) \<ge> snd (ops ! i) \<or> snd (ops ! i) = 0)"
  using assms
proof (induction ops arbitrary: db out i)
  case (Cons op ops)
  obtain v a where op: "op = (v, a)" by (cases op)
  obtain ok db1 where c: "charge v a db = (ok, db1)" by (cases "charge v a db")
  obtain out' db2 where r: "run_charges charge ops db1 = (out', db2)" by (cases "run_charges charge ops db1")
  have va: "valid a" "a \<ge> 0" using Cons.prems(2) op by auto
  note laws = charge_inv [OF Cons.prems(1) va, of v] charge_accepted [OF Cons.prems(1) va, of v]
    charge_balance [OF Cons.prems(1) va, of v]
  have out: "out = (v, a, ok) # out'" using Cons.prems(3) op c r by auto
  show ?case
  proof (cases i)
    case 0
    with out op laws(2) c show ?thesis by (simp add: taken_def)
  next
    case (Suc j)
    let ?u = "fst (ops ! j)"
    have "out' ! j = (?u, snd (ops ! j), bal db1 ?u - taken ?u (take j out') \<ge> snd (ops ! j) \<or> snd (ops ! j) = 0)"
      using Cons.IH [of db1 out' j] laws(1) Cons.prems(2-4) c r op Suc by auto
    moreover have "bal db1 ?u - taken ?u (take j out') = bal db ?u - taken ?u (take i out)"
      using laws(2) laws(3) [of ?u] c out Suc by (auto simp: taken_def)
    ultimately show ?thesis using Suc out op by simp
  qed
qed simp

end

text \<open>
  A charge as the code makes it: \<open>add_credit_by_user_id\<close> with the negated amount, refused by its
  exception. \<open>new_ids\<close> stands for the fresh ids drawn for the rows.
\<close>

definition charge_credit ::
  "credit_env \<Rightarrow> (credit_db \<Rightarrow> nat \<Rightarrow> string) \<Rightarrow> int \<Rightarrow> py \<Rightarrow> string \<Rightarrow> rat \<Rightarrow> credit_db \<Rightarrow> bool \<times> credit_db" where
  "charge_credit env new_ids now detail u a db =
     (case add_credit_by_user_id env (new_ids db) now u (- a) detail db of
        (Inl _, db') \<Rightarrow> (False, db')
      | (Inr _, db') \<Rightarrow> (True, db'))"

text \<open>What the column and the id generator promise: values on the column's grid are kept exactly.\<close>

locale credit_column =
  fixes env :: credit_env
    and new_ids :: "credit_db \<Rightarrow> nat \<Rightarrow> string"
    and grid :: "rat \<Rightarrow> bool"
  assumes default_set: "default_credit env \<noteq> None"
    and fresh: "new_ids db 0 \<notin> cr_id ` set (credits db)"
    and store_grid: "grid (store env x)"
    and store_exact: "grid x \<Longrightarrow> store env x = x"
    and grid_diff: "grid x \<Longrightarrow> grid y \<Longrightarrow> grid (x - y)"
begin

definition inv :: "credit_db \<Rightarrow> bool" where
  "inv db \<longleftrightarrow> credits_ok db \<and> (\<forall>u. grid (balance env db u))"

lemma charge_credit_spec:
  assumes "inv db" and "grid a" and "a \<ge> 0" and "charge_credit env new_ids now detail u a db = (ok, db')"
  shows "ok \<longleftrightarrow> balance env db u \<ge> a \<or> a = 0" and "inv db'"
    and "balance env db' v = (if v = u \<and> balance env db u \<ge> a then balance env db u - a else balance env db v)"
proof -
  obtain res where add: "add_credit_by_user_id env (new_ids db) now u (- a) detail db = (res, db')"
    and ok: "ok \<longleftrightarrow> (\<exists>r. res = Inr r)"
    using assms(4) by (auto simp: charge_credit_def split: prod.splits sum.splits)
  have i: "credits_ok db" "\<And>u. grid (balance env db u)" using assms(1) by (simp_all add: inv_def)
  note s = add_credit_spec [OF i(1) default_set fresh add]
  show "ok \<longleftrightarrow> balance env db u \<ge> a \<or> a = 0" using s(2) assms(3) unfolding ok by auto
  show bal: "balance env db' v = (if v = u \<and> balance env db u \<ge> a then balance env db u - a else balance env db v)" for v
    using s(3) [of v] assms(3) store_exact [OF grid_diff [OF i(2) assms(2)], of u] store_exact [OF i(2), of u] by auto
  show "inv db'" unfolding inv_def bal using s(1) grid_diff [OF i(2) assms(2)] i(2) by simp
qed

end

sublocale credit_column \<subseteq> ledger "balance env" "charge_credit env new_ids now detail" inv grid for now detail
proof
  show "inv (snd (charge_credit env new_ids now detail u a db))" if "inv db" "grid a" "a \<ge> 0" for db a u
    using charge_credit_spec(2) [OF that] by (metis prod.collapse)
  show "fst (charge_credit env new_ids now detail u a db) = (a \<le> balance env db u \<or> a = 0)"
    if "inv db" "grid a" "a \<ge> 0" for db a u
    using charge_credit_spec(1) [OF that] by (metis prod.collapse)
  show "balance env (snd (charge_credit env new_ids now detail u a db)) v =
      (if v = u \<and> a \<le> balance env db u then balance env db u - a else balance env db v)"
    if "inv db" "grid a" "a \<ge> 0" for db a u v
    using charge_credit_spec(3) [OF that] by (metis prod.collapse)
qed

subsection \<open>The column \<open>Numeric(24, 12)\<close>\<close>

text \<open>Twelve decimal places, halves away from zero.\<close>

definition numeric_12 :: "rat \<Rightarrow> rat" where
  "numeric_12 x = sgn x * of_int (round (\<bar>x\<bar> * 10 ^ 12)) / 10 ^ 12"

definition grid_12 :: "rat \<Rightarrow> bool" where
  "grid_12 x \<longleftrightarrow> x * 10 ^ 12 \<in> \<int>"

lemma grid_12_numeric_12: "grid_12 (numeric_12 x)"
  by (simp add: grid_12_def numeric_12_def sgn_if)

lemma numeric_12_exact: "grid_12 x \<Longrightarrow> numeric_12 x = x"
proof -
  assume "grid_12 x"
  then obtain k where k: "x * 10 ^ 12 = of_int k" by (auto simp: grid_12_def elim: Ints_cases)
  have "\<bar>x\<bar> * 10 ^ 12 = of_int \<bar>k\<bar>" using k by (metis abs_mult abs_numeral of_int_abs power_abs)
  then have "of_int (round (\<bar>x\<bar> * 10 ^ 12)) = \<bar>x\<bar> * (10 ^ 12 :: rat)" by (simp only: round_of_int)
  then show ?thesis by (simp only: numeric_12_def) (simp add: mult.assoc [symmetric] sgn_mult_abs)
qed

lemma grid_12_diff: "grid_12 x \<Longrightarrow> grid_12 y \<Longrightarrow> grid_12 (x - y)"
  by (simp add: grid_12_def left_diff_distrib)

lemma numeric_12_nonneg: "x \<ge> 0 \<Longrightarrow> numeric_12 x \<ge> 0"
proof -
  assume "x \<ge> 0"
  then have "0 \<le> round (\<bar>x\<bar> * 10 ^ 12)" by (metis abs_ge_zero mult_nonneg_nonneg round_0 round_mono zero_le_numeral zero_le_power)
  with \<open>x \<ge> 0\<close> show ?thesis by (simp add: numeric_12_def sgn_if)
qed

definition numeric_env :: "rat \<Rightarrow> string \<Rightarrow> credit_env" where
  "numeric_env d msg = \<lparr>store = numeric_12, default_credit = Some d, no_credit_msg = msg\<rparr>"

text \<open>A generator of ids that are not in the table: longer than every id in it.\<close>

definition longer_id :: "credit_db \<Rightarrow> nat \<Rightarrow> string" where
  "longer_id db n = replicate (Suc (n + sum_list (map (\<lambda>r. length (cr_id r)) (credits db)))) CHR ''f''"

lemma longer_id_fresh: "longer_id db n \<notin> cr_id ` set (credits db)"
proof
  assume "longer_id db n \<in> cr_id ` set (credits db)"
  then obtain r where r: "r \<in> set (credits db)" "cr_id r = longer_id db n" by auto
  from r(1) have "length (cr_id r) \<le> sum_list (map (\<lambda>r. length (cr_id r)) (credits db))"
    by (intro member_le_sum_list) auto
  with r(2) show False by (simp add: longer_id_def)
qed

interpretation numeric: credit_column "numeric_env d msg" longer_id grid_12 for d msg
  by unfold_locales
    (simp_all add: numeric_env_def longer_id_fresh grid_12_numeric_12 numeric_12_exact grid_12_diff)

lemma numeric_inv:
  "credits_ok db \<Longrightarrow> \<forall>r \<in> set (credits db). grid_12 (cr_credit r) \<Longrightarrow> numeric.inv d msg db"
  unfolding numeric.inv_def by (auto simp: balance_def numeric_env_def grid_12_numeric_12 get_credit_Some split: option.splits)

lemma env_nonneg_numeric: "d \<ge> 0 \<Longrightarrow> env_nonneg (numeric_env d msg)"
  by (simp add: env_nonneg_def numeric_env_def numeric_12_nonneg)

subsection \<open>Properties\<close>


lemma init_reachable: "credit_reachable env (snd (init_credit_by_user_id env i now u \<lparr>credits = [], credit_logs = []\<rparr>))"
  by (rule credit_reachable.step [OF credit_reachable.start credit_step.init]) (simp add: prod_eq_iff)


text \<open>
  Adding an amount to a user's credit succeeds exactly when the amount is not a deduction or the
  balance covers it. It then changes that user's balance by the amount, as the column keeps it,
  no other balance, and appends one log entry with the new balance; refused, it changes no balance
  and no log.
\<close>

theorem add_credit_effect:
  assumes "credits_ok db" and "default_credit env \<noteq> None" and "uuid 0 \<notin> cr_id ` set (credits db)"
    and "add_credit_by_user_id env uuid now u amount detail db = (res, db')"
  shows "(if amount < 0 \<longrightarrow> balance env db u \<ge> - amount
     then (\<exists>r. res = Inr r) \<and> (\<forall>v. balance env db' v = (if v = u then store env (balance env db u + amount) else balance env db v)) \<and>
       credit_logs db' = credit_logs db @ [\<lparr>cl_id = uuid 1, cl_user_id = u, cl_credit = balance env db' u, cl_detail = detail, cl_created_at = now\<rparr>]
     else (\<exists>e. res = Inl e) \<and> (\<forall>v. balance env db' v = balance env db v) \<and> credit_logs db' = credit_logs db)"
proof (cases "amount < 0 \<longrightarrow> balance env db u \<ge> - amount")
  case True
  have "\<exists>r. res = Inr r" using add_credit_spec(2) [OF assms] True by blast
  moreover have "balance env db' v = (if v = u then store env (balance env db u + amount) else balance env db v)" for v
    using add_credit_spec(3) [OF assms, of v] unfolding eqTrueI [OF True] by simp
  moreover note add_credit_spec(4) [OF assms]
  ultimately show ?thesis unfolding if_P [OF True] by blast
next
  case False
  from add_credit_spec(2) [OF assms] False have "\<exists>e. res = Inl e" by (cases res) auto
  moreover have "balance env db' v = balance env db v" for v
    using add_credit_spec(3) [OF assms, of v] False by (simp only: simp_thms if_False)
  moreover have "credit_logs db' = credit_logs db"
    using add_credit_spec(4) [OF assms] unfolding if_not_P [OF False] append_Nil2 .
  ultimately show ?thesis unfolding if_not_P [OF False] by blast
qed

definition demo_credits :: credit_db where
  "demo_credits = \<lparr>credits = [\<lparr>cr_id = ''i'', cr_user_id = ''ann'', cr_credit = 5, cr_updated_at = 1, cr_created_at = 1\<rparr>], credit_logs = []\<rparr>"

lemma demo_credits_ok: "credits_ok demo_credits" by (simp add: demo_credits_def credits_ok_def)

theorem add_credit_effect_witness:
  "balance (numeric_env 10 ''no'') (snd (add_credit_by_user_id (numeric_env 10 ''no'') (longer_id demo_credits) 7 ''ann'' (-2) PNone demo_credits)) ''ann'' = 3"
proof -
  let ?env = "numeric_env 10 ''no''"
  obtain res db' where r: "add_credit_by_user_id ?env (longer_id demo_credits) 7 ''ann'' (-2) PNone demo_credits = (res, db')"
    by fastforce
  have "balance ?env demo_credits ''ann'' = 5" by (simp add: balance_def get_credit_by_user_id_def demo_credits_def)
  moreover have "store ?env (5 + - 2) = 3" by (simp add: numeric_env_def numeric_12_exact grid_12_def)
  ultimately show ?thesis
    using add_credit_effect [OF demo_credits_ok _ longer_id_fresh r] r by (simp add: numeric_env_def)
qed

text \<open>
  (C4) Any interleaving of charges against the tables takes from each user exactly the accepted
  amounts; the charge at a position is accepted exactly when what the earlier ones left covers it;
  and a balance that starts nonnegative stays so: concurrent requests cannot spend the same
  credit twice.
\<close>

theorem charges_conserve:
  assumes "credits_ok db" and "\<forall>r \<in> set (credits db). grid_12 (cr_credit r)"
    and "\<forall>(u, a) \<in> set ops. grid_12 a \<and> a \<ge> 0"
    and "run_charges (charge_credit (numeric_env d msg) longer_id now detail) ops db = (out, db')"
  shows "(\<forall>u. balance (numeric_env d msg) db' u = balance (numeric_env d msg) db u - taken u out \<and>
      (balance (numeric_env d msg) db u \<ge> 0 \<longrightarrow> balance (numeric_env d msg) db' u \<ge> 0)) \<and>
    (\<forall>i < length ops. out ! i = (fst (ops ! i), snd (ops ! i),
      balance (numeric_env d msg) db (fst (ops ! i)) - taken (fst (ops ! i)) (take i out) \<ge> snd (ops ! i) \<or> snd (ops ! i) = 0))"
  using numeric.run_charges_balance [OF numeric_inv [OF assms(1,2)] assms(3,4)]
    numeric.run_charges_outcome [OF numeric_inv [OF assms(1,2)] assms(3,4)] by blast

theorem charges_conserve_witness:
  "let (out, db') = run_charges (charge_credit (numeric_env 10 ''no'') longer_id 7 PNone) [(''ann'', 3), (''bob'', 4), (''ann'', 3)] demo_credits
   in out ! 0 = (''ann'', 3, True) \<and> balance (numeric_env 10 ''no'') db' ''bob'' = 10 - taken ''bob'' out"
proof -
  let ?ops = "[(''ann'', 3), (''bob'', 4), (''ann'', 3)] :: (string \<times> rat) list"
  obtain out db' where r: "run_charges (charge_credit (numeric_env 10 ''no'') longer_id 7 PNone) ?ops demo_credits = (out, db')"
    by fastforce
  have g: "\<forall>(u, a) \<in> set ?ops. grid_12 a \<and> a \<ge> 0" by (simp add: grid_12_def)
  have d: "\<forall>r \<in> set (credits demo_credits). grid_12 (cr_credit r)" by (simp add: demo_credits_def grid_12_def)
  have b: "balance (numeric_env 10 ''no'') demo_credits ''ann'' = 5" "balance (numeric_env 10 ''no'') demo_credits ''bob'' = 10"
    by (simp_all add: balance_def get_credit_by_user_id_def demo_credits_def numeric_env_def numeric_12_exact grid_12_def)
  note p = charges_conserve [OF demo_credits_ok d g r]
  from p have "out ! 0 = (''ann'', 3, True)" using b by (auto simp: taken_def dest!: spec [of _ 0])
  with conjunct1 [OF p] r b show ?thesis by simp
qed

end
