(* ===== verification/Credit_Pricing.thy ===== *)
theory Credit_Pricing
  imports Credits Py_Numbers
begin

text \<open>
  Prices and the check made before a request, \<^verbatim>\<open>utils/credit/utils.py\<close>: the price of a model along
  its base models, of features and of configured custom fees, whether a request is free, the
  balance a request needs, and the charge of a standalone feature. \<open>settings\<close> is what
  \<open>Config.get_sync\<close> gives for a key, None when it is neither saved nor registered, \<open>defaults\<close> the
  constants of \<^verbatim>\<open>config.py\<close>;
  \<open>json_loads\<close> and \<open>jsonpath_find\<close> parse a document and give the values a path matches, and
  \<open>round_float\<close> rounds to a float. Decimals are exact.
\<close>

record price_env =
  settings :: "string \<Rightarrow> py"
  defaults :: "string \<Rightarrow> py"
  json_loads :: "string \<Rightarrow> py result"
  jsonpath_find :: "py \<Rightarrow> py \<Rightarrow> py list result"
  round_float :: "rat \<Rightarrow> rat"

definition credit_config :: "price_env \<Rightarrow> string \<Rightarrow> py \<Rightarrow> py" where
  "credit_config env key dflt = (case settings env key of PNone \<Rightarrow> dflt | v \<Rightarrow> v)"

subsection \<open>The price of a model\<close>

record priced_model =
  pm_id :: string
  pm_base_model_id :: "string option"
  pm_price :: "pydict option"

record model_price =
  prompt_price :: rat
  completion_price :: rat
  prompt_long_ctx_tokens :: rat
  prompt_long_ctx_price :: rat
  completion_long_ctx_tokens :: rat
  completion_long_ctx_price :: rat
  prompt_cache_price :: rat
  prompt_long_ctx_cache_price :: rat
  request_price :: rat
  minimum_credit :: rat

definition call_prices :: "rat \<Rightarrow> rat \<Rightarrow> model_price" where
  "call_prices call minimum = \<lparr>prompt_price = 0, completion_price = 0, prompt_long_ctx_tokens = 0,
     prompt_long_ctx_price = 0, completion_long_ctx_tokens = 0, completion_long_ctx_price = 0,
     prompt_cache_price = 0, prompt_long_ctx_cache_price = 0, request_price = call, minimum_credit = minimum\<rparr>"

definition get_model_by_id_sync :: "priced_model list \<Rightarrow> string \<Rightarrow> priced_model option" where
  "get_model_by_id_sync models i = find (\<lambda>m. pm_id m = i) models"

definition base_model :: "priced_model list \<Rightarrow> priced_model \<Rightarrow> priced_model option" where
  "base_model models m =
     (case pm_base_model_id m of
        Some b \<Rightarrow> if b = [] then None else get_model_by_id_sync models b
      | None \<Rightarrow> None)"

definition own_price :: "priced_model \<Rightarrow> model_price result" where
  "own_price m =
     (let model_price = (case pm_price m of Some d \<Rightarrow> d | None \<Rightarrow> [])
      in bind_result (to_decimal (dget model_price ''call_price'' (PInt 0))) (\<lambda>call.
         bind_result (to_decimal (dget model_price ''minimum_credit'' (PInt 0))) (\<lambda>minimum.
         Inr (call_prices call minimum))))"

text \<open>The recursion takes one stack frame per base model; \<open>frames\<close> is what the interpreter has left.\<close>

fun get_model_price :: "nat \<Rightarrow> priced_model list \<Rightarrow> priced_model option \<Rightarrow> model_price result" where
  "get_model_price 0 models model = Inl RecursionError"
| "get_model_price (Suc frames) models None = Inr (call_prices 0 0)"
| "get_model_price (Suc frames) models (Some m) =
     (case base_model models m of
        Some b \<Rightarrow> get_model_price frames models (Some b)
      | None \<Rightarrow> own_price m)"

subsection \<open>Features and custom fees\<close>

text \<open>The setting that holds the price of a feature and the constant that is its default.\<close>

definition feature_setting :: "string \<Rightarrow> (string \<times> string) option" where
  "feature_setting feature =
     map_of [(''image_generation'', ''credit.calculate.feature.image_gen_price'', ''USAGE_CALCULATE_FEATURE_IMAGE_GEN_PRICE''),
        (''code_interpreter'', ''credit.calculate.feature.code_execute_price'', ''USAGE_CALCULATE_FEATURE_CODE_EXECUTE_PRICE''),
        (''web_search'', ''credit.calculate.feature.web_search_price'', ''USAGE_CALCULATE_FEATURE_WEB_SEARCH_PRICE''),
        (''direct_tool_servers'', ''credit.calculate.feature.tool_server_price'', ''USAGE_CALCULATE_FEATURE_TOOL_SERVER_PRICE'')]
       feature"

definition get_feature_price :: "price_env \<Rightarrow> string list \<Rightarrow> rat result" where
  "get_feature_price env features =
     fold_result (\<lambda>feature price.
       case feature_setting feature of
         None \<Rightarrow> Inr price
       | Some (key, dflt) \<Rightarrow>
           bind_result (to_decimal (credit_config env key (defaults env dflt))) (\<lambda>x. Inr (price + x / 1000 / 1000)))
     features 0"

definition load_fees :: "price_env \<Rightarrow> py \<Rightarrow> py result" where
  "load_fees env custom_config = (case custom_config of PStr s \<Rightarrow> json_loads env s | _ \<Rightarrow> Inl TypeError)"

text \<open>One round of the loop: what a configured fee adds; an exception skips the fee.\<close>

definition custom_cost :: "price_env \<Rightarrow> py \<Rightarrow> py \<Rightarrow> int" where
  "custom_cost env body config =
     (case config of
        PDict d \<Rightarrow>
          (case (map_of d ''path'', Option.bind (map_of d ''cost'') to_int, map_of d ''exists'') of
             (Some path, Some cost, Some exists_check) \<Rightarrow>
               if \<not> truthy path \<or> cost \<le> 0 then 0
               else (case jsonpath_find env path body of
                       Inl _ \<Rightarrow> 0
                     | Inr matches \<Rightarrow>
                         if truthy exists_check \<and> matches \<noteq> [] then cost
                         else if \<not> truthy exists_check \<and> list_ex (\<lambda>m. py_eq m (pget d ''value'')) matches then cost
                         else 0)
           | _ \<Rightarrow> 0)
      | _ \<Rightarrow> 0)"

definition get_custom_price :: "price_env \<Rightarrow> py \<Rightarrow> rat" where
  "get_custom_price env body =
     (let custom_config = credit_config env ''credit.calculate.custom_price_config'' (PStr ''[]'')
      in if \<not> truthy custom_config \<or> custom_config = PStr ''[]'' \<or> \<not> is_dict body then 0
         else case load_fees env custom_config of
                Inr (PList configs) \<Rightarrow> of_int (sum_list (map (custom_cost env body) configs)) / 1000 / 1000
              | _ \<Rightarrow> 0)"

subsection \<open>The check before a request\<close>

definition py_get :: "py \<Rightarrow> string \<Rightarrow> py result" where
  "py_get v k = (case v of PDict d \<Rightarrow> Inr (pget d k) | _ \<Rightarrow> Inl AttributeError)"

definition py_items :: "py \<Rightarrow> pydict result" where
  "py_items v = (case v of PDict d \<Rightarrow> Inr d | _ \<Rightarrow> Inl AttributeError)"

definition or_else :: "py \<Rightarrow> py result \<Rightarrow> py result" where
  "or_else a b = (if truthy a then Inr a else b)"

text \<open>\<open>{k for k, v in flags.items() if v}\<close>.\<close>

definition enabled_keys :: "pydict \<Rightarrow> string list" where
  "enabled_keys d = map fst (filter (\<lambda>p. truthy (snd p)) d)"

text \<open>\<open>form_data.get('features') or metadata.get(a) or metadata.get(b) or {}\<close>.\<close>

definition request_flags :: "pydict \<Rightarrow> string \<Rightarrow> string \<Rightarrow> pydict result" where
  "request_flags form a b =
     (let metadata = (if truthy (pget form ''metadata'') then pget form ''metadata'' else PDict [])
      in bind_result (or_else (pget form ''features'')
           (bind_result (py_get metadata a) (\<lambda>x. or_else x
             (bind_result (py_get metadata b) (\<lambda>y. or_else y (Inr (PDict []))))))) py_items)"

definition is_free_request :: "price_env \<Rightarrow> rat list \<Rightarrow> pydict \<Rightarrow> bool result" where
  "is_free_request env prices form =
     (let is_free_model = fold (\<lambda>p s. round_float env (s + round_float env p)) prices 0 \<le> 0
      in bind_result (request_flags form ''features'' ''features_for_credit'') (\<lambda>features.
         bind_result (get_feature_price env (enabled_keys features)) (\<lambda>price.
         Inr (is_free_model \<and> price \<le> 0 \<and> get_custom_price env (PDict form) \<le> 0))))"

text \<open>The balance a request that is not free needs.\<close>

definition required_credit :: "price_env \<Rightarrow> model_price \<Rightarrow> pydict \<Rightarrow> rat result" where
  "required_credit env mp form =
     bind_result (request_flags form ''features_for_credit'' ''features'') (\<lambda>flags.
     bind_result (get_feature_price env (enabled_keys flags)) (\<lambda>feature_price.
     bind_result (to_decimal (credit_config env ''credit.calculate.minimum_cost'' (defaults env ''USAGE_CALCULATE_MINIMUM_COST''))) (\<lambda>minimum_cost.
     let estimated_cost = max ((if request_price mp > 0 then request_price mp else 0) + feature_price
                                + get_custom_price env (PDict form)) minimum_cost
     in Inr (max (minimum_credit mp) estimated_cost))))"

text \<open>The message an insufficient balance leaves in the chat: its chat, its message and the text.\<close>

definition chat_notice :: "pydict \<Rightarrow> py \<Rightarrow> (py \<times> py \<times> py) list" where
  "chat_notice form msg =
     (case (if truthy (pget form ''metadata'') then pget form ''metadata'' else PDict form) of
        PDict metadata \<Rightarrow>
          (let chat_id = pget metadata ''chat_id'';
               message_id = (if truthy (pget metadata ''message_id'') then pget metadata ''message_id'' else pget metadata ''id'')
           in if metadata \<noteq> [] \<and> truthy chat_id \<and> truthy message_id then [(chat_id, message_id, msg)] else [])
      | _ \<Rightarrow> [])"

definition requested_model :: "priced_model list \<Rightarrow> pydict \<Rightarrow> priced_model option" where
  "requested_model models form =
     (case (if truthy (pget form ''model'') then pget form ''model''
            else if truthy (pget form ''model_id'') then pget form ''model_id'' else PStr []) of
        PStr i \<Rightarrow> get_model_by_id_sync models i
      | _ \<Rightarrow> None)"

definition charged_prices :: "model_price \<Rightarrow> rat list" where
  "charged_prices mp = [prompt_price mp, completion_price mp, prompt_long_ctx_price mp, completion_long_ctx_price mp,
     prompt_cache_price mp, prompt_long_ctx_cache_price mp, request_price mp]"

definition msg_text :: "py \<Rightarrow> string" where
  "msg_text v = (case v of PStr s \<Rightarrow> s | _ \<Rightarrow> [])"

definition check_credit_by_user_id ::
  "price_env \<Rightarrow> nat \<Rightarrow> priced_model list \<Rightarrow> credit_env \<Rightarrow> string \<Rightarrow> int \<Rightarrow> string \<Rightarrow> pydict \<Rightarrow> credit_db
     \<Rightarrow> unit result \<times> (py \<times> py \<times> py) list \<times> credit_db" where
  "check_credit_by_user_id env frames models cenv uuid now u form db =
     (case bind_result (get_model_price frames models (requested_model models form)) (\<lambda>mp.
             bind_result (is_free_request env (charged_prices mp) form) (\<lambda>free. Inr (mp, free))) of
        Inl e \<Rightarrow> (Inl e, [], db)
      | Inr (mp, free) \<Rightarrow>
          if free then (Inr (), [], db)
          else (case init_credit_by_user_id cenv uuid now u db of
                  (Inl e, db) \<Rightarrow> (Inl e, [], db)
                | (Inr credit, db) \<Rightarrow>
                    (case required_credit env mp form of
                       Inl e \<Rightarrow> (Inl e, [], db)
                     | Inr required \<Rightarrow>
                         if cr_credit credit < required then
                           (let msg = credit_config env ''credit.no_credit_msg'' (defaults env ''CREDIT_NO_CREDIT_MSG'')
                            in (Inl (HTTPException 403 (msg_text msg)), chat_notice form msg, db))
                         else (Inr (), [], db))))"

definition check_feature_credit_by_user_id ::
  "price_env \<Rightarrow> nat \<Rightarrow> priced_model list \<Rightarrow> credit_env \<Rightarrow> string \<Rightarrow> int \<Rightarrow> string \<Rightarrow> string \<Rightarrow> string option \<Rightarrow> credit_db
     \<Rightarrow> unit result \<times> (py \<times> py \<times> py) list \<times> credit_db" where
  "check_feature_credit_by_user_id env frames models cenv uuid now u feature model_id db =
     check_credit_by_user_id env frames models cenv uuid now u
       [(''model'', PStr (case model_id of Some i \<Rightarrow> i | None \<Rightarrow> [])),
        (''messages'', PList [PDict [(''role'', PStr ''user''), (''content'', PStr feature)]]),
        (''metadata'', PDict [(''features_for_credit'', PDict [(feature, PBool True)])])] db"

subsection \<open>Charging a standalone feature\<close>

definition feature_detail :: "price_env \<Rightarrow> string \<Rightarrow> string option \<Rightarrow> rat \<Rightarrow> py" where
  "feature_detail env feature model_id amount =
     (let name = (case model_id of Some (c # cs) \<Rightarrow> c # cs | _ \<Rightarrow> feature);
          cost = PFloat (round_float env amount)
      in PDict [(''api_path'', PStr []),
           (''api_params'', PDict [(''model'', PDict [(''id'', PStr name), (''name'', PStr name)])]),
           (''desc'', PStr (''updated by standalone '' @ feature)),
           (''usage'', PDict [(''total_price'', cost), (''feature_price'', cost), (''features'', PList [PStr feature]),
              (''is_calculate'', PBool True)])])"

definition charge_feature_by_user_id ::
  "price_env \<Rightarrow> credit_env \<Rightarrow> (nat \<Rightarrow> string) \<Rightarrow> int \<Rightarrow> string \<Rightarrow> string \<Rightarrow> string option \<Rightarrow> credit_db \<Rightarrow> rat result \<times> credit_db" where
  "charge_feature_by_user_id env cenv uuid now u feature model_id db =
     (case get_feature_price env [feature] of
        Inl e \<Rightarrow> (Inl e, db)
      | Inr amount \<Rightarrow>
          if amount \<le> 0 then (Inr 0, db)
          else (case add_credit_by_user_id cenv uuid now u (- amount) (feature_detail env feature model_id amount) db of
                  (Inl e, db) \<Rightarrow> (Inl e, db)
                | (Inr _, db) \<Rightarrow> (Inr amount, db)))"

subsection \<open>Amounts allowed for a top-up\<close>

text \<open>\<open>amount_control\<close> lists amounts and ranges, \<open>1-10,20\<close>; a bound that is no number raises.\<close>

fun check_parts :: "(rat \<Rightarrow> rat) \<Rightarrow> rat \<Rightarrow> string list \<Rightarrow> bool result" where
  "check_parts fl amount [] = Inr False"
| "check_parts fl amount (check # checks) =
     (case map (\<lambda>v. to_float fl (PStr (py_strip v))) (py_split (CHR ''-'') (py_strip check)) of
        [lo, hi] \<Rightarrow>
          (case lo of
             None \<Rightarrow> Inl (ValueError ''could not convert string to float'')
           | Some l \<Rightarrow>
               if \<not> l \<le> amount then check_parts fl amount checks
               else (case hi of
                       None \<Rightarrow> Inl (ValueError ''could not convert string to float'')
                     | Some h \<Rightarrow> if amount \<le> h then Inr True else check_parts fl amount checks))
      | [v] \<Rightarrow>
          (case v of
             None \<Rightarrow> Inl (ValueError ''could not convert string to float'')
           | Some x \<Rightarrow> if x = amount then Inr True else check_parts fl amount checks)
      | _ \<Rightarrow> check_parts fl amount checks)"

definition check_amount :: "(rat \<Rightarrow> rat) \<Rightarrow> rat \<Rightarrow> string \<Rightarrow> bool result" where
  "check_amount fl amount amount_control =
     (if amount_control = [] then Inr True else check_parts fl amount (py_split (CHR '','') amount_control))"

end
