(* ===== verification/Credit_Usage.thy ===== *)
theory Credit_Usage
  imports Credit_Pricing
begin

text \<open>
  The accounting of a completion, \<^verbatim>\<open>utils/credit/usage.py\<close> with the data of
  \<^verbatim>\<open>utils/credit/models.py\<close> and the image tokens of \<^verbatim>\<open>utils/credit/utils.py\<close>: tokens are counted
  from the provider's usage or with an encoder, chunk by chunk for a stream, and the total price is
  taken from the user's credit when the block ends without an error. The tokenizer library and the
  loading of images are arguments; \<open>frames\<close> is the stack the interpreter has left.
\<close>

subsection \<open>Usage\<close>

text \<open>\<open>u_extra\<close> are the other entries of the object, kept for the log.\<close>

record usage =
  prompt_tokens :: int
  completion_tokens :: int
  total_tokens :: int
  prompt_cached :: "int option"
  input_cached :: "int option"
  u_extra :: pydict

definition no_usage :: usage where
  "no_usage = \<lparr>prompt_tokens = 0, completion_tokens = 0, total_tokens = 0, prompt_cached = None, input_cached = None, u_extra = []\<rparr>"

abbreviation validation_error :: py_error where
  "validation_error \<equiv> ValueError ''ValidationError''"

text \<open>\<open>data.pop(a, 0) or data.pop(b, 0) or data.pop(c, 0)\<close>: a key is popped only when reached.\<close>

fun pop_first :: "string list \<Rightarrow> pydict \<Rightarrow> py \<times> pydict" where
  "pop_first [] data = (PInt 0, data)"
| "pop_first [k] data = (dget data k (PInt 0), AList.delete k data)"
| "pop_first (k # ks) data =
     (let v = dget data k (PInt 0); data = AList.delete k data
      in if truthy v then (v, data) else pop_first ks data)"

text \<open>\<open>+\<close> on two numbers, of type int unless one is a float.\<close>

definition num_add :: "(rat \<Rightarrow> rat) \<Rightarrow> py \<Rightarrow> py \<Rightarrow> py result" where
  "num_add fl a b =
     (case (a, b) of
        (PInt x, PInt y) \<Rightarrow> Inr (PInt (x + y))
      | _ \<Rightarrow> (case (py_number a, py_number b) of
                (Some x, Some y) \<Rightarrow>
                  Inr (case (a, b) of
                         (PFloat _, _) \<Rightarrow> PFloat (fl (x + y))
                       | (_, PFloat _) \<Rightarrow> PFloat (fl (x + y))
                       | _ \<Rightarrow> PInt \<lfloor>x + y\<rfloor>)
              | _ \<Rightarrow> Inl TypeError))"

definition format_input :: "(rat \<Rightarrow> rat) \<Rightarrow> pydict \<Rightarrow> pydict result" where
  "format_input fl data =
     (let (prompt, data) = pop_first [''prompt_tokens'', ''promptTokenCount'', ''input_tokens''] data;
          (completion, data) = pop_first [''completion_tokens'', ''candidatesTokenCount'', ''output_tokens''] data;
          total = dget data ''total_tokens'' (PInt 0);
          data = AList.delete ''total_tokens'' data;
          total' = dget data ''totalTokenCount'' (PInt 0)
      in bind_result
           (if truthy total then Inr (total, data)
            else if truthy total' then Inr (total', AList.delete ''totalTokenCount'' data)
            else bind_result (num_add fl prompt completion) (\<lambda>sum. Inr (sum, AList.delete ''totalTokenCount'' data)))
           (\<lambda>(total, data). Inr (AList.update ''total_tokens'' total
              (AList.update ''completion_tokens'' completion (AList.update ''prompt_tokens'' prompt data)))))"

text \<open>A field of type int: an integer, a float without fraction or the numeral of an integer.\<close>

fun int_field :: "py \<Rightarrow> int result" where
  "int_field (PInt i) = Inr i"
| "int_field (PBool b) = Inr (if b then 1 else 0)"
| "int_field (PFloat r) = (if of_int \<lfloor>r\<rfloor> = r then Inr \<lfloor>r\<rfloor> else Inl validation_error)"
| "int_field (PStr s) = (case parse_integer s of Some i \<Rightarrow> Inr i | None \<Rightarrow> Inl validation_error)"
| "int_field _ = Inl validation_error"

text \<open>An optional object with an optional field \<open>cached_tokens\<close>: that field.\<close>

definition cached_field :: "py \<Rightarrow> int option result" where
  "cached_field v =
     (case v of
        PNone \<Rightarrow> Inr None
      | PDict d \<Rightarrow> (case pget d ''cached_tokens'' of PNone \<Rightarrow> Inr None | c \<Rightarrow> bind_result (int_field c) (\<lambda>n. Inr (Some n)))
      | _ \<Rightarrow> Inl validation_error)"

definition completion_usage :: "(rat \<Rightarrow> rat) \<Rightarrow> py \<Rightarrow> usage result" where
  "completion_usage fl v =
     (case v of
        PDict data \<Rightarrow>
          bind_result (format_input fl data) (\<lambda>data.
          bind_result (int_field (pget data ''prompt_tokens'')) (\<lambda>p.
          bind_result (int_field (pget data ''completion_tokens'')) (\<lambda>c.
          bind_result (int_field (pget data ''total_tokens'')) (\<lambda>t.
          bind_result (cached_field (pget data ''prompt_tokens_details'')) (\<lambda>pc.
          bind_result (cached_field (pget data ''input_tokens_details'')) (\<lambda>ic.
          Inr \<lparr>prompt_tokens = p, completion_tokens = c, total_tokens = t, prompt_cached = pc, input_cached = ic,
             u_extra = filter (\<lambda>e. fst e \<notin> {''prompt_tokens'', ''completion_tokens'', ''total_tokens''} \<and> snd e \<noteq> PNone) data\<rparr>))))))
      | _ \<Rightarrow> Inl validation_error)"

subsection \<open>Responses\<close>

text \<open>
  An answer of the provider, or a chunk of one: its usage and, for every choice, the optional
  message (or delta) with its optional content.
\<close>

record completion =
  c_usage :: "usage option"
  c_choices :: "string option option list"

definition content_field :: "py \<Rightarrow> string option option result" where
  "content_field v =
     (case v of
        PNone \<Rightarrow> Inr None
      | PDict d \<Rightarrow> (case pget d ''content'' of PNone \<Rightarrow> Inr (Some None) | PStr s \<Rightarrow> Inr (Some (Some s)) | _ \<Rightarrow> Inl validation_error)
      | _ \<Rightarrow> Inl validation_error)"

text \<open>Both objects of a choice are validated; the one read is \<open>delta\<close> in a stream, else \<open>message\<close>.\<close>

definition choice_field :: "bool \<Rightarrow> py \<Rightarrow> string option option result" where
  "choice_field is_stream v =
     (case v of
        PDict d \<Rightarrow>
          bind_result (content_field (dget d ''message'' (PDict []))) (\<lambda>m.
          bind_result (content_field (dget d ''delta'' (PDict []))) (\<lambda>dl. Inr (if is_stream then dl else m)))
      | _ \<Rightarrow> Inl validation_error)"

definition validate_completion :: "(rat \<Rightarrow> rat) \<Rightarrow> bool \<Rightarrow> py \<Rightarrow> completion result" where
  "validate_completion fl is_stream v =
     (case v of
        PDict d \<Rightarrow>
          bind_result (case dget d ''choices'' (PList []) of PList cs \<Rightarrow> map_result (choice_field is_stream) cs | _ \<Rightarrow> Inl validation_error) (\<lambda>cs.
          bind_result (case pget d ''usage'' of PNone \<Rightarrow> Inr None | u \<Rightarrow> bind_result (completion_usage fl u) (\<lambda>u. Inr (Some u))) (\<lambda>u.
          Inr \<lparr>c_usage = u, c_choices = cs\<rparr>))
      | _ \<Rightarrow> Inl validation_error)"

subsection \<open>Counting tokens\<close>

record 'e tokenizer =
  encoding_for_model :: "string \<Rightarrow> 'e option"
  encode_length :: "'e \<Rightarrow> string \<Rightarrow> nat result"
  image_size :: "string \<Rightarrow> (int \<times> int) result"

type_synonym 'e encoders = "(string \<times> 'e) list"

text \<open>
  An encoder from the cache or the library. The recursive calls pass neither the prefix nor the
  default model on, which are then empty and \<open>gpt-4o\<close>.
\<close>

fun get_encoder :: "nat \<Rightarrow> 'e tokenizer \<Rightarrow> string \<Rightarrow> string \<Rightarrow> string \<Rightarrow> 'e encoders \<Rightarrow> 'e result \<times> 'e encoders" where
  "get_encoder 0 tk model_id prefix default_model cache = (Inl RecursionError, cache)"
| "get_encoder (Suc frames) tk model_id prefix default_model cache =
     (let model_id_ops = (if prefix \<noteq> [] then py_lstrip prefix model_id else model_id)
      in case map_of cache model_id_ops of
           Some e \<Rightarrow> (Inr e, cache)
         | None \<Rightarrow>
             (case encoding_for_model tk model_id_ops of
                None \<Rightarrow> get_encoder frames tk default_model [] ''gpt-4o'' cache
              | Some e \<Rightarrow> get_encoder frames tk model_id [] ''gpt-4o'' (AList.update model_id_ops e cache)))"

definition contains :: "string \<Rightarrow> string \<Rightarrow> bool" where
  "contains s sub = list_ex (\<lambda>i. take (length sub) (drop i s) = sub) [0 ..< Suc (length s)]"

definition image_tiles :: "(rat \<Rightarrow> rat) \<Rightarrow> int \<Rightarrow> int \<Rightarrow> rat" where
  "image_tiles fl width height =
     (let (short_side, other_side) = (if height < width then (height, width) else (width, height));
          (scale, short_side) = (if short_side > 768 then (fl (of_int short_side / 768), 768) else (1, short_side));
          other_side = \<lceil>fl (of_int other_side / scale)\<rceil>
      in fl (fl (of_int (short_side + 511) / 512) * fl (of_int (other_side + 511) / 512)))"

text \<open>\<open>url\<close> and \<open>detail\<close> are absent in an image without them.\<close>

definition calculate_image_token :: "(rat \<Rightarrow> rat) \<Rightarrow> (string \<Rightarrow> (int \<times> int) result) \<Rightarrow> string \<Rightarrow> (string \<times> string) option \<Rightarrow> int result" where
  "calculate_image_token fl load_size model_id img =
     (case img of
        None \<Rightarrow> Inr 0
      | Some (url, detail) \<Rightarrow>
          if url = [] then Inr 0
          else if detail = ''low'' then Inr 85
          else (let (tile_tokens, base_tokens) = (if contains model_id ''gpt-4o-mini'' then (5667, 2833) else (170, 85))
                in if contains model_id ''gemini'' \<or> contains model_id ''claude'' then Inr (3 * base_tokens)
                   else bind_result (load_size url) (\<lambda>(width, height).
                     Inr \<lceil>fl (fl (image_tiles fl width height * tile_tokens) + of_int base_tokens)\<rceil>)))"

text \<open>The parts of a message: a text, a list of typed parts, or a validation error.\<close>

datatype part = Text_part string | Image_part "(string \<times> string) option" | Other_part

definition opt_str :: "py \<Rightarrow> string result" where
  "opt_str v = (case v of PStr s \<Rightarrow> Inr s | PNone \<Rightarrow> Inr [] | _ \<Rightarrow> Inl validation_error)"

definition part_field :: "py \<Rightarrow> part result" where
  "part_field v =
     (case v of
        PDict d \<Rightarrow>
          bind_result (opt_str (pget d ''type'')) (\<lambda>ty.
          bind_result (opt_str (pget d ''text'')) (\<lambda>text.
          bind_result (case dget d ''image_url'' (PDict []) of
              PNone \<Rightarrow> Inr None
            | PDict i \<Rightarrow> bind_result (opt_str (pget i ''url'')) (\<lambda>url. bind_result (opt_str (pget i ''detail'')) (\<lambda>detail. Inr (Some (url, detail))))
            | _ \<Rightarrow> Inl validation_error) (\<lambda>img.
          Inr (if ty = ''text'' then Text_part text else if ty = ''image_url'' then Image_part img else Other_part))))
      | _ \<Rightarrow> Inl validation_error)"

definition message_parts :: "py \<Rightarrow> part list result" where
  "message_parts v =
     (case v of
        PDict d \<Rightarrow>
          (case (map_of d ''role'', dget d ''content'' (PStr [])) of
             (Some (PStr _), PStr s) \<Rightarrow> Inr [Text_part s]
           | (Some (PStr _), PList xs) \<Rightarrow> map_result part_field xs
           | _ \<Rightarrow> Inl validation_error)
      | _ \<Rightarrow> Inl validation_error)"

fun part_tokens :: "(rat \<Rightarrow> rat) \<Rightarrow> 'e tokenizer \<Rightarrow> 'e \<Rightarrow> string \<Rightarrow> part \<Rightarrow> int result" where
  "part_tokens fl tk e model_id (Text_part s) = bind_result (encode_length tk e s) (\<lambda>n. Inr (int n))"
| "part_tokens fl tk e model_id (Image_part img) = calculate_image_token fl (image_size tk) model_id img"
| "part_tokens fl tk e model_id Other_part = Inr 0"

definition count_prompt :: "(rat \<Rightarrow> rat) \<Rightarrow> 'e tokenizer \<Rightarrow> 'e \<Rightarrow> string \<Rightarrow> py \<Rightarrow> int result" where
  "count_prompt fl tk e model_id messages =
     (case messages of
        PList ms \<Rightarrow>
          bind_result (map_result message_parts ms) (\<lambda>parts.
          bind_result (map_result (part_tokens fl tk e model_id) (concat parts)) (\<lambda>ns. Inr (sum_list ns)))
      | _ \<Rightarrow> Inl TypeError)"

definition count_completion :: "'e tokenizer \<Rightarrow> 'e \<Rightarrow> completion \<Rightarrow> int result" where
  "count_completion tk e response =
     (case c_choices response of
        [] \<Rightarrow> Inr 0
      | None # _ \<Rightarrow> Inl AttributeError
      | Some content # _ \<Rightarrow>
          bind_result (encode_length tk e (py_lstrip ''<think>'' (case content of Some s \<Rightarrow> s | None \<Rightarrow> []))) (\<lambda>n. Inr (int n)))"

definition calculate_usage ::
  "(rat \<Rightarrow> rat) \<Rightarrow> nat \<Rightarrow> 'e tokenizer \<Rightarrow> usage \<Rightarrow> string \<Rightarrow> py \<Rightarrow> completion \<Rightarrow> string \<Rightarrow> string \<Rightarrow> 'e encoders
     \<Rightarrow> (bool \<times> usage) result \<times> 'e encoders" where
  "calculate_usage fl frames tk cached_usage model_id messages response prefix default_model cache =
     (case c_usage response of
        Some u \<Rightarrow> (Inr (True, u), cache)
      | None \<Rightarrow>
          (case get_encoder frames tk model_id prefix default_model cache of
             (Inl e, cache) \<Rightarrow> (Inl e, cache)
           | (Inr e, cache) \<Rightarrow>
               (bind_result (if prompt_tokens cached_usage \<noteq> 0 then Inr (prompt_tokens cached_usage)
                             else count_prompt fl tk e model_id messages) (\<lambda>p.
                bind_result (count_completion tk e response) (\<lambda>c.
                Inr (False, no_usage\<lparr>prompt_tokens := p, completion_tokens := c, total_tokens := p + c\<rparr>))), cache)))"

subsection \<open>One request: CreditDeduct\<close>

record deduct =
  d_is_error :: bool
  d_empty_no_cost :: bool
  d_remote_id :: py
  d_user_id :: string
  d_model_id :: string
  d_model :: "priced_model option"
  d_body :: pydict
  d_is_stream :: bool
  d_usage :: usage
  d_prices :: model_price
  d_features :: "string list"
  d_custom_fees :: "(py \<times> py) list"
  d_is_official_usage :: bool

text \<open>\<open>custom_fees[name] = cost\<close>, names compared as Python does.\<close>

fun set_fee :: "py \<Rightarrow> py \<Rightarrow> (py \<times> py) list \<Rightarrow> (py \<times> py) list" where
  "set_fee name cost [] = [(name, cost)]"
| "set_fee name cost ((n, c) # fees) = (if py_eq n name then (n, cost) # fees else (n, c) # set_fee name cost fees)"

text \<open>
  One configured fee: the fees with it, or None where a missing key or a cost that is not a
  number raises out of the loop. An exception of the path or of the name only skips the fee.
\<close>

definition fee_step :: "price_env \<Rightarrow> pydict \<Rightarrow> pydict \<Rightarrow> (py \<times> py) list \<Rightarrow> (py \<times> py) list option" where
  "fee_step env body d fees =
     (case (map_of d ''path'', map_of d ''name'', map_of d ''value'', map_of d ''exists'', map_of d ''cost'') of
        (Some path, Some name, Some v, Some exists_check, Some cost) \<Rightarrow>
          if \<not> truthy path then Some fees
          else (case py_number cost of
                  None \<Rightarrow> None
                | Some c \<Rightarrow>
                    if c \<le> 0 then Some fees
                    else (case jsonpath_find env path (PDict body) of
                            Inl _ \<Rightarrow> Some fees
                          | Inr matches \<Rightarrow>
                              if matches \<noteq> [] \<and> (truthy exists_check \<or> list_ex (\<lambda>m. py_eq m v) matches) \<and> hashable name
                              then Some (set_fee name cost fees) else Some fees))
      | _ \<Rightarrow> None)"

text \<open>The fees found before an exception ends the loop are kept.\<close>

fun fee_loop :: "price_env \<Rightarrow> pydict \<Rightarrow> py list \<Rightarrow> (py \<times> py) list \<Rightarrow> (py \<times> py) list" where
  "fee_loop env body [] fees = fees"
| "fee_loop env body (config # configs) fees =
     (case config of
        PDict d \<Rightarrow> (case fee_step env body d fees of Some fees' \<Rightarrow> fee_loop env body configs fees' | None \<Rightarrow> fees)
      | _ \<Rightarrow> fee_loop env body configs fees)"

definition build_custom_fees :: "price_env \<Rightarrow> pydict \<Rightarrow> (py \<times> py) list" where
  "build_custom_fees env body =
     (let custom_config = credit_config env ''credit.calculate.custom_price_config'' (defaults env ''USAGE_CUSTOM_PRICE_CONFIG'')
      in if \<not> truthy custom_config \<or> custom_config = PStr ''[]'' then []
         else case load_fees env custom_config of
                Inr (PList configs) \<Rightarrow> fee_loop env body configs []
              | _ \<Rightarrow> [])"

text \<open>The flags of all three places that hold features, later ones first.\<close>

definition feature_sources :: "pydict \<Rightarrow> py list" where
  "feature_sources body =
     (let metadata = dict_or_empty (pget body ''metadata'')
      in [pget body ''features'', pget metadata ''features'', pget metadata ''features_for_credit''])"

definition merged_flags :: "pydict \<Rightarrow> pydict" where
  "merged_flags body = fold (\<lambda>source flags. dict_merge flags (dict_or_empty source)) (feature_sources body) []"

definition init_deduct ::
  "price_env \<Rightarrow> nat \<Rightarrow> priced_model list \<Rightarrow> string \<Rightarrow> string \<Rightarrow> pydict \<Rightarrow> bool \<Rightarrow> bool \<Rightarrow> deduct result" where
  "init_deduct env frames models user_id model_id body is_stream is_embedding =
     (let model = get_model_by_id_sync models model_id
      in bind_result (get_model_price frames models model) (\<lambda>prices.
         Inr \<lparr>d_is_error = False,
            d_empty_no_cost = (\<not> is_embedding \<and> truthy (credit_config env ''credit.no_charge_empty_response'' (defaults env ''CREDIT_NO_CHARGE_EMPTY_RESPONSE''))),
            d_remote_id = PStr [], d_user_id = user_id, d_model_id = model_id, d_model = model, d_body = body,
            d_is_stream = is_stream, d_usage = no_usage, d_prices = prices,
            d_features = enabled_keys (merged_flags body), d_custom_fees = build_custom_fees env body,
            d_is_official_usage = False\<rparr>))"

subsubsection \<open>Prices\<close>

definition is_empty_response :: "deduct \<Rightarrow> bool" where
  "is_empty_response d \<longleftrightarrow> completion_tokens (d_usage d) \<le> 0"

definition no_cost :: "deduct \<Rightarrow> bool" where
  "no_cost d \<longleftrightarrow> d_is_error d \<or> (is_empty_response d \<and> d_empty_no_cost d)"

definition prompt_unit_price :: "deduct \<Rightarrow> rat" where
  "prompt_unit_price d =
     (if of_int (prompt_tokens (d_usage d)) \<ge> prompt_long_ctx_tokens (d_prices d) \<and> prompt_long_ctx_tokens (d_prices d) > 0 \<and>
        prompt_long_ctx_price (d_prices d) > 0
      then prompt_long_ctx_price (d_prices d) else prompt_price (d_prices d))"

definition prompt_cache_unit_price :: "deduct \<Rightarrow> rat" where
  "prompt_cache_unit_price d =
     (if of_int (prompt_tokens (d_usage d)) \<ge> prompt_long_ctx_tokens (d_prices d) \<and> prompt_long_ctx_tokens (d_prices d) > 0 \<and>
        prompt_long_ctx_cache_price (d_prices d) > 0
      then prompt_long_ctx_cache_price (d_prices d) else prompt_cache_price (d_prices d))"

definition completion_unit_price :: "deduct \<Rightarrow> rat" where
  "completion_unit_price d =
     (if of_int (completion_tokens (d_usage d)) \<ge> completion_long_ctx_tokens (d_prices d) \<and> completion_long_ctx_tokens (d_prices d) > 0 \<and>
        completion_long_ctx_price (d_prices d) > 0
      then completion_long_ctx_price (d_prices d) else completion_price (d_prices d))"

definition cache_tokens :: "usage \<Rightarrow> int" where
  "cache_tokens u =
     (case prompt_cached u of
        Some n \<Rightarrow> if n \<noteq> 0 then n else (case input_cached u of Some m \<Rightarrow> m | None \<Rightarrow> 0)
      | None \<Rightarrow> (case input_cached u of Some m \<Rightarrow> m | None \<Rightarrow> 0))"

definition deduct_prompt_price :: "deduct \<Rightarrow> rat" where
  "deduct_prompt_price d =
     (if no_cost d then 0
      else let cached = cache_tokens (d_usage d)
           in if cached > 0 \<and> prompt_cache_unit_price d > 0
              then (prompt_cache_unit_price d * of_int cached
                     + prompt_unit_price d * of_int (prompt_tokens (d_usage d) - cached)) / 1000 / 1000
              else prompt_unit_price d * of_int (prompt_tokens (d_usage d)) / 1000 / 1000)"

definition deduct_completion_price :: "deduct \<Rightarrow> rat" where
  "deduct_completion_price d =
     (if no_cost d then 0 else completion_unit_price d * of_int (completion_tokens (d_usage d)) / 1000 / 1000)"

definition deduct_request_price :: "deduct \<Rightarrow> rat" where
  "deduct_request_price d = (if no_cost d then 0 else request_price (d_prices d))"

definition deduct_feature_price :: "price_env \<Rightarrow> deduct \<Rightarrow> rat result" where
  "deduct_feature_price env d = (if no_cost d then Inr 0 else get_feature_price env (d_features d))"

definition sum_fees :: "(rat \<Rightarrow> rat) \<Rightarrow> (py \<times> py) list \<Rightarrow> py result" where
  "sum_fees fl fees = fold_result (\<lambda>(_, cost) total. num_add fl total cost) fees (PInt 0)"

definition deduct_custom_price :: "price_env \<Rightarrow> deduct \<Rightarrow> rat result" where
  "deduct_custom_price env d =
     (if no_cost d then Inr 0
      else bind_result (sum_fees (round_float env) (d_custom_fees d)) (\<lambda>total.
           bind_result (to_decimal total) (\<lambda>x. Inr (x / 1000 / 1000))))"

definition total_price :: "price_env \<Rightarrow> deduct \<Rightarrow> rat result" where
  "total_price env d =
     (if no_cost d then Inr 0
      else bind_result (deduct_feature_price env d) (\<lambda>feature_price.
           bind_result (deduct_custom_price env d) (\<lambda>custom_price.
           bind_result (to_decimal (credit_config env ''credit.calculate.minimum_cost'' (defaults env ''USAGE_CALCULATE_MINIMUM_COST''))) (\<lambda>minimum_cost.
           Inr (max (if request_price (d_prices d) > 0 then deduct_request_price d + feature_price + custom_price
                     else deduct_prompt_price d + deduct_completion_price d + feature_price + custom_price) minimum_cost)))))"

subsubsection \<open>Counting a response\<close>

datatype raw_response = Raw_dict pydict | Raw_str string | Raw_bytes "string option" | Raw_other

text \<open>The text of a response; bytes that are not UTF-8 raise.\<close>

fun raw_text :: "raw_response \<Rightarrow> string result" where
  "raw_text (Raw_str s) = Inr s"
| "raw_text (Raw_bytes b) = (case b of Some s \<Rightarrow> Inr s | None \<Rightarrow> Inl (ValueError ''UnicodeDecodeError''))"
| "raw_text _ = Inr []"

definition clean_response :: "price_env \<Rightarrow> raw_response \<Rightarrow> (string \<Rightarrow> py) \<Rightarrow> py result" where
  "clean_response env response default_response =
     (case response of
        Raw_dict d \<Rightarrow> Inr (PDict d)
      | _ \<Rightarrow> bind_result (raw_text response) (\<lambda>text.
          let t = py_lstrip ''data: '' (py_strip text)
          in if take 6 t = ''[DONE]'' \<or> t = [] then Inr (PDict [])
             else (case json_loads env t of Inr v \<Rightarrow> Inr v | Inl _ \<Rightarrow> Inr (default_response (py_strip text)))))"

definition default_response :: "bool \<Rightarrow> string \<Rightarrow> py" where
  "default_response is_stream text =
     PDict [(''choices'', PList [PDict [(if is_stream then ''delta'' else ''message'', PDict [(''content'', PStr text)])]])]"

definition setting_str :: "price_env \<Rightarrow> string \<Rightarrow> string \<Rightarrow> string" where
  "setting_str env key const = msg_text (credit_config env key (defaults env const))"

text \<open>The usage of a counted response is taken over, replaced by an official one, or added up.\<close>

definition take_usage :: "bool \<Rightarrow> usage \<Rightarrow> deduct \<Rightarrow> deduct" where
  "take_usage is_official u d =
     (if is_official then d\<lparr>d_usage := u, d_is_official_usage := True\<rparr>
      else if d_is_official_usage d then d
      else if d_is_stream d then
        d\<lparr>d_usage := (d_usage d)\<lparr>prompt_tokens := prompt_tokens u,
             completion_tokens := completion_tokens (d_usage d) + completion_tokens u,
             total_tokens := prompt_tokens u + (completion_tokens (d_usage d) + completion_tokens u)\<rparr>\<rparr>
      else d\<lparr>d_usage := u\<rparr>)"

text \<open>The object \<open>_run\<close> works on: a dict, or a reason to stop.\<close>

definition response_object :: "price_env \<Rightarrow> deduct \<Rightarrow> raw_response \<Rightarrow> py result" where
  "response_object env d response =
     (if response = Raw_other then Inr (PDict [])
      else if \<not> truthy (dget (d_body d) ''messages'' (PList [])) then Inl (HTTPException 400 ''prompt messages is empty'')
      else clean_response env response (default_response (d_is_stream d)))"

definition run_response :: "price_env \<Rightarrow> nat \<Rightarrow> 'e tokenizer \<Rightarrow> raw_response \<Rightarrow> deduct \<Rightarrow> 'e encoders \<Rightarrow> unit result \<times> deduct \<times> 'e encoders" where
  "run_response env frames tk response d cache =
     (case response_object env d response of
        Inl e \<Rightarrow> (Inl e, d, cache)
      | Inr obj \<Rightarrow>
          if \<not> truthy obj then (Inr (), d, cache)
          else (case validate_completion (round_float env) (d_is_stream d) obj of
                  Inl e \<Rightarrow> (Inl e, d, cache)
                | Inr completion \<Rightarrow>
                    if truthy (pget (dict_or_empty obj) ''error'') then (Inr (), d\<lparr>d_is_error := True\<rparr>, cache)
                    else (let d = d\<lparr>d_remote_id := dget (dict_or_empty obj) ''id'' (PStr [])\<rparr>
                          in case calculate_usage (round_float env) frames tk (d_usage d) (d_model_id d)
                                    (dget (d_body d) ''messages'' (PList [])) completion
                                    (setting_str env ''credit.calculate.model_prefix_to_remove'' ''USAGE_CALCULATE_MODEL_PREFIX_TO_REMOVE'')
                                    (setting_str env ''credit.calculate.encoding.default_model'' ''USAGE_DEFAULT_ENCODING_MODEL'') cache of
                               (Inl e, cache) \<Rightarrow> (Inl e, d, cache)
                             | (Inr (is_official, u), cache) \<Rightarrow> (Inr (), take_usage is_official u d, cache))))"

text \<open>\<open>run\<close> logs an exception and goes on with what was set before it.\<close>

definition run :: "price_env \<Rightarrow> nat \<Rightarrow> 'e tokenizer \<Rightarrow> raw_response \<Rightarrow> deduct \<Rightarrow> 'e encoders \<Rightarrow> deduct \<times> 'e encoders" where
  "run env frames tk response d cache = snd (run_response env frames tk response d cache)"

subsubsection \<open>The end of the block\<close>

definition fee_float :: "price_env \<Rightarrow> py \<Rightarrow> py" where
  "fee_float env v = (case py_number v of
     Some c \<Rightarrow> PFloat (round_float env (round_float env (c / 1000) / 1000)) | None \<Rightarrow> PNone)"

definition usage_dump :: "usage \<Rightarrow> pydict" where
  "usage_dump u = [(''total_tokens'', PInt (total_tokens u)), (''prompt_tokens'', PInt (prompt_tokens u)),
     (''completion_tokens'', PInt (completion_tokens u))] @ u_extra u"

text \<open>JSON writes a key that is not a string as one; \<open>str_key\<close> is how.\<close>

definition deduct_detail :: "price_env \<Rightarrow> (py \<Rightarrow> string) \<Rightarrow> (priced_model \<Rightarrow> py) \<Rightarrow> deduct \<Rightarrow> rat \<Rightarrow> rat \<Rightarrow> rat \<Rightarrow> py" where
  "deduct_detail env str_key model_dump d cost feature custom =
     (let f = \<lambda>x. PFloat (round_float env x)
      in PDict [(''api_path'', PStr []),
           (''api_params'', PDict [(''model'', case d_model d of Some m \<Rightarrow> model_dump m | None \<Rightarrow> PDict [(''id'', PStr (d_model_id d))]),
              (''is_stream'', PBool (d_is_stream d))]),
           (''desc'', PStr ''updated by CreditDeduct''),
           (''usage'', PDict (dict_merge
              [(''total_price'', f cost), (''prompt_unit_price'', f (prompt_unit_price d)),
               (''prompt_cache_unit_price'', f (prompt_cache_unit_price d)),
               (''completion_unit_price'', f (completion_unit_price d)),
               (''call_price'', f (request_price (d_prices d))), (''feature_price'', f feature),
               (''features'', PList (map PStr (d_features d))), (''custom_fee'', f custom),
               (''custom_fee_detail'', PDict (map (\<lambda>(k, v). (str_key k, fee_float env v)) (d_custom_fees d))),
               (''is_calculate'', PBool (\<not> d_is_official_usage d)), (''is_empty_response'', PBool (is_empty_response d)),
               (''empty_no_cost'', PBool (d_empty_no_cost d))]
              (usage_dump (d_usage d))))])"

definition exit_deduct ::
  "price_env \<Rightarrow> (py \<Rightarrow> string) \<Rightarrow> (priced_model \<Rightarrow> py) \<Rightarrow> credit_env \<Rightarrow> (nat \<Rightarrow> string) \<Rightarrow> int \<Rightarrow> bool \<Rightarrow> deduct \<Rightarrow> credit_db
     \<Rightarrow> unit result \<times> credit_db" where
  "exit_deduct env str_key model_dump cenv uuid now raised d db =
     (if raised \<or> d_is_error d then (Inr (), db)
      else case bind_result (total_price env d) (\<lambda>cost. bind_result (deduct_feature_price env d) (\<lambda>feature.
                  bind_result (deduct_custom_price env d) (\<lambda>custom. Inr (cost, feature, custom)))) of
             Inl e \<Rightarrow> (Inl e, db)
           | Inr (cost, feature, custom) \<Rightarrow>
               (case add_credit_by_user_id cenv uuid now (d_user_id d) (- cost)
                       (deduct_detail env str_key model_dump d cost feature custom) db of
                  (Inl e, db) \<Rightarrow> (Inl e, db)
                | (Inr _, db) \<Rightarrow> (Inr (), db)))"

text \<open>The usage shown to the caller with its cost.\<close>

definition usage_with_cost :: "price_env \<Rightarrow> (py \<Rightarrow> string) \<Rightarrow> deduct \<Rightarrow> pydict result" where
  "usage_with_cost env str_key d =
     bind_result (total_price env d) (\<lambda>cost. bind_result (deduct_feature_price env d) (\<lambda>feature.
     bind_result (deduct_custom_price env d) (\<lambda>custom.
     let f = \<lambda>x. PFloat (round_float env x)
     in Inr (dict_merge
          [(''total_cost'', f cost),
           (''cost_detail'', PDict [(''prompt_price'', f (deduct_prompt_price d)),
              (''completion_price'', f (deduct_completion_price d)), (''request_price'', f (deduct_request_price d)),
              (''feature_price'', f feature), (''features'', PList (map PStr (d_features d))), (''custom_fee'', f custom),
              (''custom_fee_detail'', PDict (map (\<lambda>(k, v). (str_key k, fee_float env v)) (d_custom_fees d))),
              (''is_calculate'', PBool (\<not> d_is_official_usage d)), (''is_error'', PBool (d_is_error d)),
              (''is_empty_response'', PBool (is_empty_response d)), (''empty_no_cost'', PBool (d_empty_no_cost d))])]
          (usage_dump (d_usage d))))))"

definition add_usage_to_resp :: "price_env \<Rightarrow> (py \<Rightarrow> string) \<Rightarrow> deduct \<Rightarrow> py \<Rightarrow> py result" where
  "add_usage_to_resp env str_key d response =
     (case response of
        PDict r \<Rightarrow> bind_result (usage_with_cost env str_key d) (\<lambda>u. Inr (PDict (AList.update ''usage'' (PDict u) r)))
      | v \<Rightarrow> Inr v)"

end
