(* ===== verification/Credit_Properties.thy ===== *)
theory Credit_Properties
  imports Credit_Usage
begin

text \<open>
  What the pricing and the accounting of completions guarantee together: a model is priced by the
  model at the end of its chain of base models; a stream is counted once; and a request that
  passed the check before the call can be charged after it.
\<close>

subsection \<open>The chain of base models\<close>

fun base_after :: "priced_model list \<Rightarrow> nat \<Rightarrow> priced_model \<Rightarrow> priced_model option" where
  "base_after models 0 m = Some m"
| "base_after models (Suc n) m = Option.bind (base_model models m) (base_after models n)"

lemma base_after_add: "base_after models (i + j) m = Option.bind (base_after models i m) (base_after models j)"
  by (induction i arbitrary: m) (auto split: bind_splits)

lemma base_after_mono: "base_after models (i + j) m \<noteq> None \<Longrightarrow> base_after models i m \<noteq> None"
  by (auto simp: base_after_add split: bind_splits)

lemma base_after_cycle:
  assumes "base_after models (Suc p) m = Some m"
  shows "base_after models n m \<noteq> None"
proof -
  have "base_after models (n * Suc p) m = Some m"
  proof (induction n)
    case (Suc n)
    have "base_after models (Suc n * Suc p) m = base_after models (Suc p + n * Suc p) m" by (simp only: mult_Suc)
    also have "\<dots> = base_after models (n * Suc p) m" unfolding base_after_add assms by simp
    finally show ?case using Suc.IH by simp
  qed simp
  moreover have "n * Suc p = n + n * p" by simp
  ultimately show ?thesis by (metis base_after_mono option.distinct(1))
qed

lemma model_price_root:
  "base_after models n m = Some r \<Longrightarrow> base_model models r = None \<Longrightarrow> n < frames \<Longrightarrow>
     get_model_price frames models (Some m) = own_price r"
proof (induction n arbitrary: m frames)
  case 0
  then show ?case by (cases frames) auto
next
  case (Suc n)
  then obtain b where "base_model models m = Some b" "base_after models n b = Some r"
    by (auto split: bind_splits)
  with Suc show ?case by (cases frames) auto
qed

lemma model_price_deep:
  "base_after models frames m \<noteq> None \<Longrightarrow> get_model_price frames models (Some m) = Inl RecursionError"
proof (induction frames arbitrary: m)
  case (Suc frames)
  then obtain b where "base_model models m = Some b" "base_after models frames b \<noteq> None"
    by (auto split: bind_splits)
  with Suc.IH show ?case by simp
qed simp

subsection \<open>Encoders\<close>

definition cache_ok :: "'e tokenizer \<Rightarrow> 'e encoders \<Rightarrow> bool" where
  "cache_ok tk cache \<longleftrightarrow> (\<forall>m e. map_of cache m = Some e \<longrightarrow> encoding_for_model tk m = Some e)"

text \<open>The encoder of a model: its own, that of the default model, or that of \<open>gpt-4o\<close>.\<close>

definition encoder_of :: "'e tokenizer \<Rightarrow> string \<Rightarrow> string \<Rightarrow> 'e option" where
  "encoder_of tk model_id default_model =
     (case encoding_for_model tk model_id of
        Some e \<Rightarrow> Some e
      | None \<Rightarrow> (case encoding_for_model tk default_model of Some e \<Rightarrow> Some e | None \<Rightarrow> encoding_for_model tk ''gpt-4o''))"

lemma cache_ok_update: "cache_ok tk cache \<Longrightarrow> encoding_for_model tk m = Some e \<Longrightarrow> cache_ok tk (AList.update m e cache)"
  by (auto simp: cache_ok_def update_conv')

lemma get_encoder_known:
  assumes "cache_ok tk cache" and "encoding_for_model tk m = Some e"
  shows "\<exists>cache'. get_encoder (Suc (Suc frames)) tk m [] dm cache = (Inr e, cache') \<and> cache_ok tk cache'"
proof (cases "map_of cache m")
  case None
  with assms show ?thesis by (simp add: update_conv' cache_ok_update)
next
  case (Some e')
  with assms show ?thesis by (auto simp: cache_ok_def)
qed

lemma get_encoder_unknown:
  assumes "cache_ok tk cache" and "encoding_for_model tk m = None"
  shows "get_encoder (Suc frames) tk m [] dm cache = get_encoder frames tk dm [] ''gpt-4o'' cache"
proof -
  have "map_of cache m = None" using assms by (cases "map_of cache m") (auto simp: cache_ok_def)
  with assms(2) show ?thesis by simp
qed

declare get_encoder.simps(2) [simp del]

lemma get_encoder_correct:
  assumes "cache_ok tk cache" and "encoding_for_model tk ''gpt-4o'' \<noteq> None" and "frames \<ge> 4"
  shows "\<exists>e cache'. get_encoder frames tk m [] dm cache = (Inr e, cache') \<and> cache_ok tk cache' \<and> encoder_of tk m dm = Some e"
proof -
  from assms(3) obtain f where "frames = 4 + f" using le_Suc_ex by blast
  then have f: "frames = Suc (Suc (Suc (Suc f)))" by simp
  obtain g where g: "encoding_for_model tk ''gpt-4o'' = Some g" using assms(2) by auto
  show ?thesis
  proof (cases "encoding_for_model tk m")
    case (Some e)
    with get_encoder_known [OF assms(1) Some] show ?thesis by (auto simp: f encoder_of_def)
  next
    case None
    note u = get_encoder_unknown [OF assms(1) None]
    show ?thesis
    proof (cases "encoding_for_model tk dm")
      case (Some e)
      with get_encoder_known [OF assms(1) Some] None show ?thesis unfolding f u by (auto simp: encoder_of_def)
    next
      case N: None
      from get_encoder_known [OF assms(1) g] None N g show ?thesis
        unfolding f u get_encoder_unknown [OF assms(1) N] by (auto simp: encoder_of_def)
    qed
  qed
qed

text \<open>
  With a prefix to remove, the encoder of the first call differs from that of the next: the
  recursive call drops the prefix and falls back to \<open>gpt-4o\<close>, the next one finds the cached entry.
\<close>

definition prefix_tokenizer :: "string tokenizer" where
  "prefix_tokenizer = \<lparr>encoding_for_model = (\<lambda>m. if m \<in> {''gpt-4'', ''gpt-4o''} then Some m else None),
     encode_length = (\<lambda>_ s. Inr (length s)), image_size = (\<lambda>_. Inr (1, 1))\<rparr>"

declare get_encoder.simps(2) [simp]

lemma prefix_encoder_changes:
  "fst (get_encoder 10 prefix_tokenizer ''x/gpt-4'' ''x/'' ''gpt-4o'' []) = Inr ''gpt-4o'' \<and>
   fst (get_encoder 10 prefix_tokenizer ''x/gpt-4'' ''x/'' ''gpt-4o''
     (snd (get_encoder 10 prefix_tokenizer ''x/gpt-4'' ''x/'' ''gpt-4o'' []))) = Inr ''gpt-4''"
  by code_simp

subsection \<open>Counting a stream\<close>

text \<open>The chunks of a stream as providers send them: a piece of content, or the usage.\<close>

datatype chunk = Content string | Usage py

fun chunk_response :: "chunk \<Rightarrow> raw_response" where
  "chunk_response (Content t) = Raw_dict [(''choices'', PList [PDict [(''delta'', PDict [(''content'', PStr t)])]])]"
| "chunk_response (Usage v) = Raw_dict [(''choices'', PList []), (''usage'', v)]"

definition run_stream :: "price_env \<Rightarrow> nat \<Rightarrow> 'e tokenizer \<Rightarrow> chunk list \<Rightarrow> deduct \<Rightarrow> 'e encoders \<Rightarrow> deduct \<times> 'e encoders" where
  "run_stream env frames tk chunks d cache =
     fold (\<lambda>c (d, cache). run env frames tk (chunk_response c) d cache) chunks (d, cache)"

text \<open>
  What a stream should count: the last usage the provider sent, or else the prompt once and the
  tokens of every piece of content, less a leading run of the characters of the think tag.
\<close>

definition content_tokens :: "(string \<Rightarrow> nat) \<Rightarrow> chunk list \<Rightarrow> int" where
  "content_tokens len chunks =
     sum_list (map (\<lambda>c. case c of Content t \<Rightarrow> int (len (py_lstrip ''<think>'' t)) | Usage _ \<Rightarrow> 0) chunks)"

definition official_usages :: "(py \<Rightarrow> usage) \<Rightarrow> chunk list \<Rightarrow> usage list" where
  "official_usages usage_of chunks = concat (map (\<lambda>c. case c of Usage v \<Rightarrow> [usage_of v] | Content _ \<Rightarrow> []) chunks)"

definition stream_usage :: "int \<Rightarrow> (string \<Rightarrow> nat) \<Rightarrow> (py \<Rightarrow> usage) \<Rightarrow> chunk list \<Rightarrow> usage" where
  "stream_usage p len usage_of chunks =
     (if official_usages usage_of chunks \<noteq> [] then last (official_usages usage_of chunks)
      else if chunks = [] then no_usage
      else no_usage\<lparr>prompt_tokens := p, completion_tokens := content_tokens len chunks,
             total_tokens := p + content_tokens len chunks\<rparr>)"

text \<open>What a request must provide for its chunks to be counted with the encoder \<open>e\<close>.\<close>

definition countable :: "price_env \<Rightarrow> 'e tokenizer \<Rightarrow> deduct \<Rightarrow> 'e \<Rightarrow> int \<Rightarrow> (string \<Rightarrow> nat) \<Rightarrow> bool" where
  "countable env tk d e p len \<longleftrightarrow>
     d_is_stream d \<and> truthy (dget (d_body d) ''messages'' (PList [])) \<and>
     setting_str env ''credit.calculate.model_prefix_to_remove'' ''USAGE_CALCULATE_MODEL_PREFIX_TO_REMOVE'' = [] \<and>
     encoding_for_model tk ''gpt-4o'' \<noteq> None \<and>
     encoder_of tk (d_model_id d) (setting_str env ''credit.calculate.encoding.default_model'' ''USAGE_DEFAULT_ENCODING_MODEL'') = Some e \<and>
     (\<forall>s. encode_length tk e s = Inr (len s)) \<and>
     count_prompt (round_float env) tk e (d_model_id d) (dget (d_body d) ''messages'' (PList [])) = Inr p"

lemma run_content:
  assumes c: "countable env tk d e p len" and "cache_ok tk cache" and "frames \<ge> 4"
    and p: "prompt_tokens (d_usage d) \<in> {0, p} \<or> d_is_official_usage d"
  shows "\<exists>u cache'. run env frames tk (chunk_response (Content t)) d cache =
      (take_usage False u (d\<lparr>d_remote_id := PStr []\<rparr>), cache') \<and> cache_ok tk cache' \<and>
      (\<not> d_is_official_usage d \<longrightarrow> prompt_tokens u = p \<and> completion_tokens u = int (len (py_lstrip ''<think>'' t)))"
proof -
  let ?dm = "setting_str env ''credit.calculate.encoding.default_model'' ''USAGE_DEFAULT_ENCODING_MODEL''"
  from get_encoder_correct [OF assms(2) _ assms(3), of "d_model_id d" ?dm] c obtain cache' where
    enc: "get_encoder frames tk (d_model_id d) [] ?dm cache = (Inr e, cache')" "cache_ok tk cache'"
    by (auto simp: countable_def)
  define u where "u = no_usage\<lparr>prompt_tokens := (if prompt_tokens (d_usage d) \<noteq> 0 then prompt_tokens (d_usage d) else p),
    completion_tokens := int (len (py_lstrip ''<think>'' t)),
    total_tokens := (if prompt_tokens (d_usage d) \<noteq> 0 then prompt_tokens (d_usage d) else p) + int (len (py_lstrip ''<think>'' t))\<rparr>"
  have "run env frames tk (chunk_response (Content t)) d cache = (take_usage False u (d\<lparr>d_remote_id := PStr []\<rparr>), cache')"
    using c enc(1)
    by (simp add: run_def run_response_def response_object_def clean_response_def countable_def py_simps
        validate_completion_def choice_field_def content_field_def Let_def calculate_usage_def count_completion_def u_def)
  moreover have "\<not> d_is_official_usage d \<Longrightarrow> prompt_tokens u = p" using p by (auto simp: u_def)
  ultimately show ?thesis using enc(2) by (auto simp: u_def)
qed

lemma run_usage:
  assumes "countable env tk d e p len" and "completion_usage (round_float env) v = Inr w"
  shows "run env frames tk (chunk_response (Usage v)) d cache = (take_usage True w (d\<lparr>d_remote_id := PStr []\<rparr>), cache)"
proof -
  obtain data where v: "v = PDict data" using assms(2) by (auto simp: completion_usage_def split: py.splits)
  from assms show ?thesis unfolding v
    by (simp add: run_def run_response_def response_object_def clean_response_def countable_def py_simps
        validate_completion_def Let_def calculate_usage_def)
qed

lemma stream_usage_snoc:
  "content_tokens len (cs @ [Content t]) = content_tokens len cs + int (len (py_lstrip ''<think>'' t))"
  "official_usages f (cs @ [Content t]) = official_usages f cs"
  "official_usages f (cs @ [Usage v]) = official_usages f cs @ [f v]"
  by (simp_all add: content_tokens_def official_usages_def)

lemma run_stream_snoc:
  "run_stream env frames tk (cs @ [c]) d cache =
     (case run_stream env frames tk cs d cache of (d, cache) \<Rightarrow> run env frames tk (chunk_response c) d cache)"
  by (simp add: run_stream_def)

lemma no_usage_simps [simp]: "prompt_tokens no_usage = 0" "completion_tokens no_usage = 0" "total_tokens no_usage = 0"
  by (simp_all add: no_usage_def)

lemma stream_counted:
  assumes c: "countable env tk d e p len" and "cache_ok tk cache" and "frames \<ge> 4"
    and d: "d_usage d = no_usage" "\<not> d_is_official_usage d"
    and u: "\<And>v. Usage v \<in> set chunks \<Longrightarrow> completion_usage (round_float env) v = Inr (usage_of v)"
  shows "\<exists>r cache'. run_stream env frames tk chunks d cache =
      (d\<lparr>d_remote_id := r, d_usage := stream_usage p len usage_of chunks,
         d_is_official_usage := (official_usages usage_of chunks \<noteq> [])\<rparr>, cache') \<and> cache_ok tk cache'"
  using u
proof (induction chunks rule: rev_induct)
  case Nil
  have "d\<lparr>d_remote_id := d_remote_id d, d_usage := no_usage, d_is_official_usage := False\<rparr> = d" using d by simp
  with assms(2) show ?case by (auto simp: run_stream_def stream_usage_def official_usages_def intro!: exI [of _ "d_remote_id d"])
next
  case (snoc ch chunks)
  then obtain r cache' where r: "run_stream env frames tk chunks d cache =
      (d\<lparr>d_remote_id := r, d_usage := stream_usage p len usage_of chunks,
         d_is_official_usage := (official_usages usage_of chunks \<noteq> [])\<rparr>, cache')" "cache_ok tk cache'" by fastforce
  let ?d = "d\<lparr>d_remote_id := r, d_usage := stream_usage p len usage_of chunks,
         d_is_official_usage := (official_usages usage_of chunks \<noteq> [])\<rparr>"
  have c': "countable env tk ?d e p len" using c by (simp add: countable_def)
  show ?case
  proof (cases ch)
    case (Content t)
    have "prompt_tokens (d_usage ?d) \<in> {0, p} \<or> d_is_official_usage ?d" by (simp add: stream_usage_def)
    from run_content [OF c' r(2) assms(3) this, of t] obtain w cache'' where
      w: "run env frames tk (chunk_response (Content t)) ?d cache' = (take_usage False w (?d\<lparr>d_remote_id := PStr []\<rparr>), cache'')"
      "cache_ok tk cache''" "official_usages usage_of chunks = [] \<longrightarrow> prompt_tokens w = p \<and> completion_tokens w = int (len (py_lstrip ''<think>'' t))"
      by auto
    have "take_usage False w (?d\<lparr>d_remote_id := PStr []\<rparr>) = d\<lparr>d_remote_id := PStr [],
        d_usage := stream_usage p len usage_of (chunks @ [Content t]),
        d_is_official_usage := (official_usages usage_of (chunks @ [Content t]) \<noteq> [])\<rparr>"
      using w(3) c by (auto simp: take_usage_def stream_usage_snoc stream_usage_def countable_def content_tokens_def no_usage_def)
    then show ?thesis using w(1,2) by (auto simp: run_stream_snoc r(1) Content)
  next
    case (Usage v)
    with snoc.prems have "completion_usage (round_float env) v = Inr (usage_of v)" by simp
    from run_usage [OF c' this, of frames cache'] show ?thesis
      using r(2) by (auto simp: run_stream_snoc r(1) Usage take_usage_def stream_usage_snoc stream_usage_def)
  qed
qed

subsection \<open>The check covers the charge\<close>

text \<open>All the flags of a request come from one of the three places, and are those of \<open>flags\<close>.\<close>

definition flags_from :: "pydict \<Rightarrow> pydict \<Rightarrow> bool" where
  "flags_from form flags \<longleftrightarrow>
     (truthy (pget form ''metadata'') \<longrightarrow> is_dict (pget form ''metadata'')) \<and> distinct (map fst flags) \<and>
     filter truthy (feature_sources form) = (if flags = [] then [] else [PDict flags])"

lemma dict_merge_Nil: "distinct (map fst d) \<Longrightarrow> dict_merge [] d = d"
proof (induction d rule: rev_induct)
  case (snoc x d)
  obtain k v where "x = (k, v)" by (cases x)
  with snoc show ?case by (simp add: dict_merge_def update_new)
qed (simp add: dict_merge_def)

lemma falsy_no_flags: "\<not> truthy v \<Longrightarrow> dict_or_empty v = []"
  by (cases v) (auto simp: dict_or_empty_def)

lemma merged_filter:
  "fold (\<lambda>source flags. dict_merge flags (dict_or_empty source)) srcs acc =
   fold (\<lambda>source flags. dict_merge flags (dict_or_empty source)) (filter truthy srcs) acc"
  by (induction srcs arbitrary: acc) (auto simp: falsy_no_flags dict_merge_def)

lemma flags_from_merged: "flags_from form flags \<Longrightarrow> merged_flags form = flags"
  unfolding merged_flags_def
  by (subst merged_filter) (auto simp: flags_from_def dict_or_empty_def dict_merge_Nil)

lemma flags_from_request:
  assumes "flags_from form flags"
  shows "request_flags form ''features'' ''features_for_credit'' = Inr flags"
    and "request_flags form ''features_for_credit'' ''features'' = Inr flags"
proof -
  define md where "md = (if truthy (pget form ''metadata'') then pget form ''metadata'' else PDict [])"
  obtain m where m: "md = PDict m" "m = dict_or_empty (pget form ''metadata'')"
    using assms by (cases "pget form ''metadata''") (auto simp: flags_from_def md_def is_dict_def dict_or_empty_def)
  let ?a = "pget form ''features''" and ?b = "pget m ''features''" and ?c = "pget m ''features_for_credit''"
  have f: "filter truthy [?a, ?b, ?c] = (if flags = [] then [] else [PDict flags])"
    using assms unfolding flags_from_def feature_sources_def m(2) Let_def by blast
  have "(\<not> truthy ?a \<and> \<not> truthy ?b \<and> \<not> truthy ?c \<and> flags = []) \<or>
      (flags \<noteq> [] \<and> (?a = PDict flags \<and> \<not> truthy ?b \<and> \<not> truthy ?c \<or> \<not> truthy ?a \<and> ?b = PDict flags \<and> \<not> truthy ?c \<or>
         \<not> truthy ?a \<and> \<not> truthy ?b \<and> ?c = PDict flags))"
    using f by (auto split: if_splits)
  then show "request_flags form ''features'' ''features_for_credit'' = Inr flags"
    "request_flags form ''features_for_credit'' ''features'' = Inr flags"
    by (auto simp: request_flags_def Let_def md_def [symmetric] m(1) py_get_def or_else_def py_items_def)
qed

text \<open>A fee whose cost is an integer costs as much when it is charged as when it was estimated.\<close>

definition integer_costs :: "py list \<Rightarrow> bool" where
  "integer_costs configs \<longleftrightarrow>
     (\<forall>c \<in> set configs. case c of PDict d \<Rightarrow> (case map_of d ''cost'' of Some (PFloat _) \<Rightarrow> False | _ \<Rightarrow> True) | _ \<Rightarrow> True)"

fun fee_cost :: "py \<Rightarrow> int" where
  "fee_cost (PInt i) = i"
| "fee_cost (PBool b) = (if b then 1 else 0)"
| "fee_cost _ = 0"

definition int_fees :: "(py \<times> py) list \<Rightarrow> bool" where
  "int_fees fees \<longleftrightarrow> (\<forall>(n, c) \<in> set fees. (\<exists>i. c = PInt i) \<or> c = PBool True) \<and> (\<forall>(n, c) \<in> set fees. fee_cost c \<ge> 0)"

definition fees_total :: "(py \<times> py) list \<Rightarrow> int" where
  "fees_total fees = sum_list (map (fee_cost \<circ> snd) fees)"

lemma int_fees_Cons:
  "int_fees ((n, c) # fees) \<longleftrightarrow> ((\<exists>i. c = PInt i) \<or> c = PBool True) \<and> fee_cost c \<ge> 0 \<and> int_fees fees"
  by (simp add: int_fees_def) blast

lemma fees_total_Cons: "fees_total ((n, c) # fees) = fee_cost c + fees_total fees"
  by (simp add: fees_total_def)

lemma set_fee_ok:
  assumes "int_fees fees" and "(\<exists>i. c = PInt i) \<or> c = PBool True" and "fee_cost c \<ge> 0"
  shows "int_fees (set_fee n c fees) \<and> fees_total (set_fee n c fees) \<le> fees_total fees + fee_cost c"
  using assms(1)
proof (induction fees)
  case Nil
  then show ?case using assms(2,3) by (simp add: int_fees_def fees_total_def)
next
  case (Cons f fees)
  obtain m b where f: "f = (m, b)" by (cases f)
  have "int_fees fees" "(\<exists>i. b = PInt i) \<or> b = PBool True" "fee_cost b \<ge> 0" using Cons.prems by (simp_all add: f int_fees_Cons)
  with Cons.IH assms(2,3) show ?case by (cases "py_eq m n") (simp_all add: f int_fees_Cons fees_total_Cons)
qed

lemma sum_fees_int:
  assumes "int_fees fees"
  shows "fold_result (\<lambda>(_, cost) acc. num_add fl acc cost) fees (PInt k) = Inr (PInt (k + fees_total fees))"
  using assms
proof (induction fees arbitrary: k)
  case (Cons f fees)
  obtain n c where f: "f = (n, c)" by (cases f)
  have "num_add fl (PInt k) c = Inr (PInt (k + fee_cost c))"
    using Cons.prems by (auto simp: f int_fees_Cons num_add_def)
  moreover have "int_fees fees" using Cons.prems by (simp add: f int_fees_Cons)
  ultimately show ?case using Cons.IH by (simp add: f fees_total_Cons add.assoc)
qed (simp add: fees_total_def)

lemma custom_cost_nonneg: "custom_cost env body c \<ge> 0"
  by (auto simp: custom_cost_def split: py.splits option.splits sum.splits)

lemma sum_custom_nonneg: "sum_list (map (custom_cost env body) configs) \<ge> 0"
  by (intro sum_list_nonneg) (auto simp: custom_cost_nonneg)

lemma cost_number:
  assumes "py_number cost = Some c" and "c > 0" and "\<nexists>r. cost = PFloat r"
  shows "to_int cost = Some (fee_cost cost)" and "fee_cost cost > 0" and "(\<exists>i. cost = PInt i) \<or> cost = PBool True"
  using assms by (cases cost; auto split: if_splits)+

lemma fee_step_le:
  assumes "fee_step env body d fees = Some fees'" and "int_fees fees" and "\<And>r. map_of d ''cost'' \<noteq> Some (PFloat r)"
  shows "int_fees fees' \<and> fees_total fees' \<le> fees_total fees + custom_cost env (PDict body) (PDict d)"
proof -
  have keep: ?thesis if "fees' = fees"
    using assms(2) custom_cost_nonneg [of env "PDict body" "PDict d"] that by simp
  from assms(1) obtain path name v ex cost where m: "map_of d ''path'' = Some path" "map_of d ''name'' = Some name"
    "map_of d ''value'' = Some v" "map_of d ''exists'' = Some ex" "map_of d ''cost'' = Some cost"
    by (simp add: fee_step_def split: option.splits)
  show ?thesis
  proof (cases "fees' = fees")
    case False
    then obtain c ms where c: "truthy path" "py_number cost = Some c" "c > 0" "jsonpath_find env path (PDict body) = Inr ms"
      "ms \<noteq> []" "truthy ex \<or> list_ex (\<lambda>m. py_eq m v) ms" "fees' = set_fee name cost fees"
      using assms(1) by (auto simp: fee_step_def m split: option.splits sum.splits if_splits)
    note k = cost_number [OF c(2,3)] assms(3)
    have "custom_cost env (PDict body) (PDict d) = fee_cost cost"
      using c k m by (auto simp: custom_cost_def pget_def dget_def)
    then show ?thesis using set_fee_ok [OF assms(2), of cost name] c(7) k m(5) by auto
  qed (rule keep)
qed

lemma fee_loop_le:
  assumes "integer_costs configs" and "int_fees fees"
  shows "int_fees (fee_loop env body configs fees) \<and>
    fees_total (fee_loop env body configs fees) \<le> fees_total fees + sum_list (map (custom_cost env (PDict body)) configs)"
  using assms
proof (induction configs arbitrary: fees)
  case (Cons config configs)
  have rest: "integer_costs configs" using Cons.prems(1) by (simp add: integer_costs_def)
  have go: ?case
    if "fee_loop env body (config # configs) fees = fee_loop env body configs fees'"
      "int_fees fees'" "fees_total fees' \<le> fees_total fees + custom_cost env (PDict body) config" for fees'
    using Cons.IH [OF rest that(2)] that(1,3) by simp
  have skip: "fees_total fees \<le> fees_total fees + custom_cost env (PDict body) config"
    using custom_cost_nonneg [of env "PDict body" config] by simp
  show ?case
  proof (cases config)
    case (PDict d)
    have "map_of d ''cost'' \<noteq> Some (PFloat r)" for r using Cons.prems(1) by (auto simp: integer_costs_def PDict)
    note step = fee_step_le [OF _ Cons.prems(2) this]
    show ?thesis
    proof (cases "fee_step env body d fees")
      case None
      then have "fee_loop env body (config # configs) fees = fees" by (simp add: PDict)
      then show ?thesis using Cons.prems(2) sum_custom_nonneg [of env "PDict body" "config # configs"] by simp
    next
      case (Some fees')
      with step [OF Some] show ?thesis by (intro go [of fees']) (simp_all add: PDict)
    qed
  qed (use go [OF _ Cons.prems(2) skip] in simp_all)
qed simp

text \<open>The fees are configured, with integer costs, so that the check and the charge read the same.\<close>

definition fees_configured :: "price_env \<Rightarrow> bool" where
  "fees_configured env \<longleftrightarrow>
     settings env ''credit.calculate.custom_price_config'' \<noteq> PNone \<and>
     (case load_fees env (settings env ''credit.calculate.custom_price_config'') of
        Inr (PList configs) \<Rightarrow> integer_costs configs | _ \<Rightarrow> True)"

lemma custom_charge_le:
  assumes "fees_configured env"
  shows "\<exists>t. sum_fees fl (build_custom_fees env form) = Inr (PInt t) \<and> of_int t / 1000 / 1000 \<le> get_custom_price env (PDict form)"
proof -
  let ?c = "settings env ''credit.calculate.custom_price_config''"
  have conf: "credit_config env ''credit.calculate.custom_price_config'' dflt = ?c" for dflt
    using assms by (auto simp: credit_config_def fees_configured_def split: py.splits)
  have none: "sum_fees fl [] = Inr (PInt 0)" by (simp add: sum_fees_def)
  show ?thesis
  proof (cases "\<not> truthy ?c \<or> ?c = PStr ''[]'' \<or> (\<nexists>cs. load_fees env ?c = Inr (PList cs))")
    case True
    then have "build_custom_fees env form = [] \<and> get_custom_price env (PDict form) = 0"
      by (auto simp: build_custom_fees_def get_custom_price_def conf Let_def split: sum.splits py.splits)
    with none show ?thesis by (intro exI [of _ 0]) simp
  next
    case False
    then obtain cs where cs: "load_fees env ?c = Inr (PList cs)" by blast
    have "integer_costs cs" using assms by (simp add: fees_configured_def cs)
    moreover have "int_fees []" by (simp add: int_fees_def)
    ultimately have le: "int_fees (fee_loop env form cs [])"
      "fees_total (fee_loop env form cs []) \<le> sum_list (map (custom_cost env (PDict form)) cs)"
      using fee_loop_le [of cs "[]" env form] by (simp_all add: fees_total_def)
    have "build_custom_fees env form = fee_loop env form cs []" using False by (simp add: build_custom_fees_def conf cs)
    moreover have "get_custom_price env (PDict form) = of_int (sum_list (map (custom_cost env (PDict form)) cs)) / 1000 / 1000"
      using False by (simp add: get_custom_price_def conf cs is_dict_def)
    ultimately show ?thesis
      using sum_fees_int [OF le(1), of fl 0] le(2)
      by (intro exI [of _ "fees_total (fee_loop env form cs [])"]) (simp add: sum_fees_def divide_right_mono)
  qed
qed

lemma model_price_calls: "get_model_price frames models m = Inr mp \<Longrightarrow> \<exists>call least. mp = call_prices call least"
proof (induction frames models m rule: get_model_price.induct)
  case (3 frames models m)
  then show ?case by (cases "base_model models m") (auto simp: own_price_def Let_def bind_result_Inr_iff)
qed auto

lemma call_prices_sel [simp]:
  "prompt_price (call_prices c l) = 0" "completion_price (call_prices c l) = 0" "prompt_long_ctx_price (call_prices c l) = 0"
  "completion_long_ctx_price (call_prices c l) = 0" "prompt_cache_price (call_prices c l) = 0"
  "prompt_long_ctx_cache_price (call_prices c l) = 0" "request_price (call_prices c l) = c" "minimum_credit (call_prices c l) = l"
  by (simp_all add: call_prices_def)

abbreviation minimum_cost :: "price_env \<Rightarrow> rat result" where
  "minimum_cost env \<equiv> to_decimal (credit_config env ''credit.calculate.minimum_cost'' (defaults env ''USAGE_CALCULATE_MINIMUM_COST''))"

lemma total_price_le:
  assumes "d_prices d = call_prices c l" and "get_feature_price env (d_features d) = Inr fp"
    and "sum_fees (round_float env) (d_custom_fees d) = Inr (PInt t)" and "of_int t / 1000 / 1000 \<le> cp"
    and "minimum_cost env = Inr mc"
  shows "\<exists>cost f u. total_price env d = Inr cost \<and> deduct_feature_price env d = Inr f \<and> deduct_custom_price env d = Inr u \<and>
    (cost = 0 \<or> cost \<le> max ((if c > 0 then c else 0) + fp + cp) mc)"
proof (cases "no_cost d")
  case True
  then show ?thesis by (simp add: total_price_def deduct_feature_price_def deduct_custom_price_def)
next
  case False
  have zero: "deduct_prompt_price d = 0" "deduct_completion_price d = 0"
    by (simp_all add: deduct_prompt_price_def deduct_completion_price_def prompt_unit_price_def prompt_cache_unit_price_def
        completion_unit_price_def Let_def assms(1))
  let ?u = "of_int t / 1000 / 1000 :: rat"
  have u: "deduct_custom_price env d = Inr ?u" using False by (simp add: deduct_custom_price_def assms(3))
  have f: "deduct_feature_price env d = Inr fp" using False by (simp add: deduct_feature_price_def assms(2))
  have "total_price env d = Inr (max (if c > 0 then c + fp + ?u else fp + ?u) mc)"
    using False by (simp add: total_price_def u f assms(5) zero deduct_request_price_def assms(1))
  moreover have "max (if c > 0 then c + fp + ?u else fp + ?u) mc \<le> max ((if c > 0 then c else 0) + fp + cp) mc"
    using assms(4) by (intro max.mono) auto
  ultimately show ?thesis using u f by blast
qed

text \<open>Responses change what is counted, never the prices, the features, the fees or the user.\<close>

definition run_all :: "price_env \<Rightarrow> nat \<Rightarrow> 'e tokenizer \<Rightarrow> raw_response list \<Rightarrow> deduct \<Rightarrow> 'e encoders \<Rightarrow> deduct \<times> 'e encoders" where
  "run_all env frames tk responses d cache = fold (\<lambda>r (d, cache). run env frames tk r d cache) responses (d, cache)"

lemma run_keeps:
  assumes "run env frames tk r d cache = (d', cache')"
  shows "d_prices d' = d_prices d \<and> d_features d' = d_features d \<and> d_custom_fees d' = d_custom_fees d \<and> d_user_id d' = d_user_id d"
  using assms by (auto simp: run_def run_response_def take_usage_def Let_def split: sum.splits prod.splits if_splits)

lemma run_all_keeps:
  "run_all env frames tk rs d cache = (d', cache') \<Longrightarrow>
     d_prices d' = d_prices d \<and> d_features d' = d_features d \<and> d_custom_fees d' = d_custom_fees d \<and> d_user_id d' = d_user_id d"
proof (induction rs arbitrary: d cache)
  case (Cons r rs)
  obtain d1 cache1 where r: "run env frames tk r d cache = (d1, cache1)" by fastforce
  with Cons.prems have "run_all env frames tk rs d1 cache1 = (d', cache')" by (simp add: run_all_def)
  from Cons.IH [OF this] run_keeps [OF r] show ?case by simp
qed (simp add: run_all_def)

text \<open>What an account that was just read or created holds.\<close>

lemma init_credit_balance:
  assumes "credits_ok db" and "init_credit_by_user_id cenv uuid now u db = (Inr r, db')"
    and "\<forall>dv. default_credit cenv = Some dv \<longrightarrow> store cenv dv = dv"
  shows "cr_credit r = balance cenv db' u"
proof (cases "get_credit_by_user_id db u")
  case (Some r')
  with assms(2) show ?thesis by (auto simp: init_credit_by_user_id_def balance_def)
next
  case None
  then have "cr_credit r = balance cenv db u"
    using assms(2,3) by (auto simp: init_credit_by_user_id_def insert_new_credit_def Let_def balance_def split: option.splits if_splits)
  with init_credit_ok(3) [OF assms(1,2)] show ?thesis by simp
qed

text \<open>Rounding to a float keeps the sign of a price.\<close>

definition keeps_sign :: "(rat \<Rightarrow> rat) \<Rightarrow> bool" where
  "keeps_sign fl \<longleftrightarrow> fl 0 = 0 \<and> (\<forall>x > 0. fl x > 0)"

lemma free_means_free:
  assumes "keeps_sign (round_float env)" and "flags_from form flags"
    and "is_free_request env (charged_prices (call_prices c l)) form = Inr True"
  shows "c \<le> 0 \<and> get_custom_price env (PDict form) \<le> 0 \<and> (\<exists>fp. get_feature_price env (enabled_keys flags) = Inr fp \<and> fp \<le> 0)"
proof -
  let ?fl = "round_float env"
  have z: "?fl 0 = 0" "\<And>x. x > 0 \<Longrightarrow> ?fl x > 0" using assms(1) by (auto simp: keeps_sign_def)
  from assms(3) have "?fl (?fl c) \<le> 0" by (auto simp: is_free_request_def Let_def charged_prices_def z(1) bind_result_Inr_iff)
  then have "c \<le> 0" using z(2) by (meson not_le)
  with assms(3) show ?thesis
    by (auto simp: is_free_request_def Let_def flags_from_request(1) [OF assms(2)] bind_result_Inr_iff)
qed

lemma check_passed:
  assumes "check_credit_by_user_id env frames models cenv uuid now u form db = (Inr (), notes, db1)"
    and "get_model_price frames models (requested_model models form) = Inr mp" and "credits_ok db"
    and "\<forall>dv. default_credit cenv = Some dv \<longrightarrow> store cenv dv = dv"
  shows "is_free_request env (charged_prices mp) form = Inr True \<or>
    (\<exists>req. required_credit env mp form = Inr req \<and> req \<le> balance cenv db1 u)"
proof (cases "is_free_request env (charged_prices mp) form")
  case (Inr free)
  show ?thesis
  proof (cases free)
    case False
    obtain x db2 where i: "init_credit_by_user_id cenv uuid now u db = (x, db2)" by fastforce
    show ?thesis
    proof (cases x)
      case R: (Inr r)
      from assms(1) show ?thesis
        using init_credit_balance [OF assms(3) i [unfolded R] assms(4)] False
        by (auto simp: check_credit_by_user_id_def assms(2) Inr i R Let_def split: sum.splits if_splits)
    qed (use assms(1) False in \<open>auto simp: check_credit_by_user_id_def assms(2) Inr i\<close>)
  qed (use Inr in simp)
qed (use assms(1) in \<open>auto simp: check_credit_by_user_id_def assms(2)\<close>)

lemma exit_deduct_succeeds:
  assumes "total_price env d = Inr cost" and "deduct_feature_price env d = Inr f" and "deduct_custom_price env d = Inr x"
    and "credits_ok db" and "default_credit cenv \<noteq> None" and "uuid 0 \<notin> cr_id ` set (credits db)"
    and "cost \<le> 0 \<or> cost \<le> balance cenv db (d_user_id d)"
  shows "fst (exit_deduct env str_key model_dump cenv uuid now raised d db) = Inr ()"
proof (cases "raised \<or> d_is_error d")
  case False
  obtain res db' where a: "add_credit_by_user_id cenv uuid now (d_user_id d) (- cost)
      (deduct_detail env str_key model_dump d cost f x) db = (res, db')" by fastforce
  have "\<exists>r. res = Inr r" using add_credit_spec(2) [OF assms(4-6) a] assms(7) by auto
  then show ?thesis using False a by (auto simp: exit_deduct_def assms(1-3))
qed (simp add: exit_deduct_def)

subsection \<open>Properties\<close>


definition demo_env :: "py \<Rightarrow> price_env" where
  "demo_env least = \<lparr>settings = (\<lambda>k. if k = ''credit.calculate.custom_price_config'' then PStr ''[]''
       else if k = ''credit.calculate.minimum_cost'' then least
       else if k = ''credit.calculate.feature.web_search_price'' then PInt 2000000 else PNone),
     defaults = (\<lambda>k. if k = ''CREDIT_NO_CREDIT_MSG'' then PStr ''no'' else if k = ''CREDIT_NO_CHARGE_EMPTY_RESPONSE'' then PBool False
       else if k = ''USAGE_DEFAULT_ENCODING_MODEL'' then PStr ''gpt-4o'' else if k = ''USAGE_CALCULATE_MODEL_PREFIX_TO_REMOVE'' then PStr [] else PStr ''0''),
     json_loads = (\<lambda>_. Inl (ValueError [])), jsonpath_find = (\<lambda>_ _. Inr []), round_float = (\<lambda>x. x)\<rparr>"

definition demo_models :: "priced_model list" where
  "demo_models = [\<lparr>pm_id = ''gpt-4'', pm_base_model_id = None, pm_price = Some [(''call_price'', PFloat 3)]\<rparr>,
     \<lparr>pm_id = ''mine'', pm_base_model_id = Some ''gpt-4'', pm_price = None\<rparr>,
     \<lparr>pm_id = ''free'', pm_base_model_id = None, pm_price = None\<rparr>,
     \<lparr>pm_id = ''loop'', pm_base_model_id = Some ''loop'', pm_price = None\<rparr>]"

definition demo_form :: "string \<Rightarrow> pydict" where
  "demo_form model = [(''model'', PStr model), (''messages'', PList [PDict [(''role'', PStr ''user''), (''content'', PStr ''hi'')]]),
     (''features'', PDict [(''web_search'', PBool True)])]"

definition demo_cenv :: credit_env where
  "demo_cenv = \<lparr>store = (\<lambda>x. x), default_credit = Some 0, no_credit_msg = ''no''\<rparr>"

definition demo_deduct :: deduct where
  "demo_deduct = (case init_deduct (demo_env (PStr ''1'')) 10 demo_models ''ann'' ''mine'' (demo_form ''mine'') True False of
     Inr d \<Rightarrow> d | Inl _ \<Rightarrow> \<lparr>d_is_error = True, d_empty_no_cost = True, d_remote_id = PNone, d_user_id = [], d_model_id = [], d_model = None,
       d_body = [], d_is_stream = True, d_usage = no_usage, d_prices = call_prices 0 0, d_features = [], d_custom_fees = [], d_is_official_usage = False\<rparr>)"

lemma demo_deduct_init:
  "init_deduct (demo_env (PStr ''1'')) 10 demo_models ''ann'' ''mine'' (demo_form ''mine'') True False = Inr demo_deduct"
proof -
  have "case init_deduct (demo_env (PStr ''1'')) 10 demo_models ''ann'' ''mine'' (demo_form ''mine'') True False of Inr _ \<Rightarrow> True | Inl _ \<Rightarrow> False"
    by code_simp
  then show ?thesis by (simp add: demo_deduct_def split: sum.splits)
qed


text \<open>With a positive minimum cost, a free request passes the check with no balance and is then refused its charge.\<close>

lemma free_request_charged_minimum:
  "fst (check_credit_by_user_id (demo_env (PStr ''1'')) 10 demo_models demo_cenv ''i'' 5 ''bob'' (AList.delete ''features'' (demo_form ''free'')) demo_credits) = Inr () \<and>
   (case init_deduct (demo_env (PStr ''1'')) 10 demo_models ''bob'' ''free'' (AList.delete ''features'' (demo_form ''free'')) False False of
      Inr d \<Rightarrow> fst (exit_deduct (demo_env (PStr ''1'')) (\<lambda>_. []) (\<lambda>_. PNone) demo_cenv (\<lambda>n. ''new'') 9 False d demo_credits)
        = Inl (HTTPException 403 ''no'')
    | Inl _ \<Rightarrow> False)"
  by code_simp



text \<open>
  A stream is counted once: after any sequence of chunks the usage is the last one the
  provider reported or, when it reported none, the prompt's tokens and the sum of the tokens of
  the pieces, with nothing else of the request changed but the provider's id.
\<close>

theorem stream_counted_once:
  assumes "countable env tk d e p len" and "cache_ok tk cache" and "frames \<ge> 4"
    and "d_usage d = no_usage" and "\<not> d_is_official_usage d"
    and "\<And>v. Usage v \<in> set chunks \<Longrightarrow> completion_usage (round_float env) v = Inr (usage_of v)"
  shows "\<exists>r. fst (run_stream env frames tk chunks d cache) =
      d\<lparr>d_remote_id := r, d_usage := stream_usage p len usage_of chunks,
         d_is_official_usage := (official_usages usage_of chunks \<noteq> [])\<rparr>"
  using stream_counted [OF assms] by force

theorem stream_counted_once_witness:
  "total_tokens (d_usage (fst (run_stream (demo_env (PStr ''1'')) 10 prefix_tokenizer [Content ''abc'', Content ''de''] demo_deduct []))) = 7"
proof -
  have c: "countable (demo_env (PStr ''1'')) prefix_tokenizer demo_deduct ''gpt-4o'' 2 length"
    unfolding countable_def by (intro conjI allI) (code_simp, code_simp, code_simp, code_simp, code_simp, simp add: prefix_tokenizer_def, code_simp)
  have "d_usage demo_deduct = no_usage" "\<not> d_is_official_usage demo_deduct" by code_simp+
  from stream_counted_once [OF c _ _ this, of "[]" 10 "[Content ''abc'', Content ''de'']" "\<lambda>_. no_usage"]
  obtain r where r: "fst (run_stream (demo_env (PStr ''1'')) 10 prefix_tokenizer [Content ''abc'', Content ''de''] demo_deduct [])
      = demo_deduct\<lparr>d_remote_id := r, d_usage := stream_usage 2 length (\<lambda>_. no_usage) [Content ''abc'', Content ''de''],
         d_is_official_usage := (official_usages (\<lambda>_. no_usage) [Content ''abc'', Content ''de''] \<noteq> [])\<rparr>"
    by (auto simp: cache_ok_def)
  have "total_tokens (stream_usage 2 length (\<lambda>_. no_usage) [Content ''abc'', Content ''de'']) = 7" by code_simp
  then show ?thesis unfolding r by simp
qed

end
