(* ===== verification/Checkin.thy ===== *)
theory Checkin
  imports Credits Py_Numbers
begin

text \<open>
  The daily check-in, \<^verbatim>\<open>models/checkin.py\<close> and \<^verbatim>\<open>routers/checkin.py\<close>: a user draws one reward per day,
  which is recorded and added to the credit balance in one transaction. The time, today's date in
  the configured zone, the random number, the fresh ids, the answer of the Redis lock and whether
  a zone exists are arguments; \<open>fl\<close> rounds to a float, \<open>float_repr\<close> is the decimal a float prints
  as, and \<open>json_loads\<close> parses a document.
\<close>

subsection \<open>Records\<close>

record checkin_record =
  ck_id :: string
  ck_user_id :: string
  ck_date :: string
  ck_reward :: rat
  ck_created_at :: int

record checkin_db =
  ck_records :: "checkin_record list"
  ck_credits :: credit_db

definition has_checked_in :: "checkin_db \<Rightarrow> string \<Rightarrow> string \<Rightarrow> bool" where
  "has_checked_in db u date = list_ex (\<lambda>r. ck_user_id r = u \<and> ck_date r = date) (ck_records db)"

text \<open>The primary key and the unique index on user and date.\<close>

definition record_conflict :: "checkin_db \<Rightarrow> checkin_record \<Rightarrow> bool" where
  "record_conflict db r \<longleftrightarrow> ck_id r \<in> ck_id ` set (ck_records db) \<or> has_checked_in db (ck_user_id r) (ck_date r)"

definition insert_record :: "credit_env \<Rightarrow> checkin_record \<Rightarrow> checkin_db \<Rightarrow> checkin_record option \<times> checkin_db" where
  "insert_record env r db =
     (if record_conflict db r then (None, db)
      else let r = r\<lparr>ck_reward := store env (ck_reward r)\<rparr> in (Some r, db\<lparr>ck_records := ck_records db @ [r]\<rparr>))"

definition newest_first :: "checkin_record list \<Rightarrow> checkin_record list" where
  "newest_first rs = sort_key (\<lambda>r. - ck_created_at r) rs"

definition get_records :: "string \<Rightarrow> nat \<Rightarrow> nat \<Rightarrow> checkin_db \<Rightarrow> nat \<times> checkin_record list" where
  "get_records keyword offset limit db =
     (let rows = newest_first (ck_records db);
          rows = (if keyword \<noteq> [] then filter (\<lambda>r. ck_user_id r = keyword) rows else rows);
          page = drop offset rows
      in (length rows, if limit \<noteq> 0 then take limit page else page))"

definition get_user_records :: "string \<Rightarrow> nat \<Rightarrow> checkin_db \<Rightarrow> checkin_record list" where
  "get_user_records u limit db = take limit (newest_first (filter (\<lambda>r. ck_user_id r = u) (ck_records db)))"

subsection \<open>Rewards\<close>

text \<open>\<open>Decimal(str(v))\<close>.\<close>

fun decimal_of_str :: "(rat \<Rightarrow> rat) \<Rightarrow> py \<Rightarrow> rat option" where
  "decimal_of_str float_repr (PInt i) = Some (of_int i)"
| "decimal_of_str float_repr (PFloat r) = Some (float_repr r)"
| "decimal_of_str float_repr (PStr s) = parse_numeral s"
| "decimal_of_str float_repr _ = None"

text \<open>
  The rewards of the items with a positive weight. \<open>None\<close> where an item is not a dict or lacks a
  number, which raises.
\<close>

fun reward_items :: "(rat \<Rightarrow> rat) \<Rightarrow> (rat \<Rightarrow> rat) \<Rightarrow> py list \<Rightarrow> (rat \<times> rat) list option" where
  "reward_items fl float_repr [] = Some []"
| "reward_items fl float_repr (item # items) =
     (case item of
        PDict d \<Rightarrow>
          (case to_float fl (dget d ''weight'' (PInt 0)) of
             None \<Rightarrow> None
           | Some w \<Rightarrow>
               if \<not> w > 0 then reward_items fl float_repr items
               else (case Option.bind (map_of d ''amount'') (decimal_of_str float_repr) of
                       None \<Rightarrow> None
                     | Some amount \<Rightarrow> map_option (\<lambda>rest. (amount, w) # rest) (reward_items fl float_repr items)))
      | _ \<Rightarrow> None)"

definition parse_rewards :: "(rat \<Rightarrow> rat) \<Rightarrow> (rat \<Rightarrow> rat) \<Rightarrow> (string \<Rightarrow> py result) \<Rightarrow> py \<Rightarrow> (rat \<times> rat) list" where
  "parse_rewards fl float_repr json_loads raw =
     (case (case (if truthy raw then raw else PStr []) of PStr s \<Rightarrow> json_loads s | _ \<Rightarrow> Inl TypeError) of
        Inr (PList data) \<Rightarrow>
          (case reward_items fl float_repr data of Some (r # rs) \<Rightarrow> r # rs | _ \<Rightarrow> [(1, 1)])
      | _ \<Rightarrow> [(1, 1)])"

text \<open>\<open>r\<close> is what \<open>random.uniform(0, total)\<close> drew.\<close>

fun pick_loop :: "(rat \<Rightarrow> rat) \<Rightarrow> rat \<Rightarrow> rat \<Rightarrow> (rat \<times> rat) list \<Rightarrow> rat option" where
  "pick_loop fl r cumulative [] = None"
| "pick_loop fl r cumulative ((amount, weight) # rewards) =
     (let cumulative = fl (cumulative + weight)
      in if r \<le> cumulative then Some amount else pick_loop fl r cumulative rewards)"

definition weighted_pick :: "(rat \<Rightarrow> rat) \<Rightarrow> rat \<Rightarrow> (rat \<times> rat) list \<Rightarrow> rat" where
  "weighted_pick fl r rewards = (case pick_loop fl r 0 rewards of Some amount \<Rightarrow> amount | None \<Rightarrow> fst (hd rewards))"

subsection \<open>Checking in\<close>

text \<open>
  The record, the account when the user has none, and the new balance are one transaction: any
  exception leaves the tables as they were.
\<close>

definition create_checkin_record ::
  "credit_env \<Rightarrow> (nat \<Rightarrow> string) \<Rightarrow> int \<Rightarrow> rat \<Rightarrow> string \<Rightarrow> string \<Rightarrow> string \<Rightarrow> checkin_db \<Rightarrow> rat result \<times> checkin_db" where
  "create_checkin_record env uuid now reward u today duplicate_detail db =
     (let r = \<lparr>ck_id = uuid 0, ck_user_id = u, ck_date = today, ck_reward = store env reward, ck_created_at = now\<rparr>;
          cdb = ck_credits db
      in if record_conflict db r then (Inl (HTTPException 400 duplicate_detail), db)
         else case (case get_credit_by_user_id cdb u of
                      Some c \<Rightarrow> Inr (cr_credit c, cdb)
                    | None \<Rightarrow>
                        (case default_credit env of
                           None \<Rightarrow> Inl (HTTPException 500 ''Failed to award check-in reward'')
                         | Some d \<Rightarrow>
                             if uuid 1 \<in> cr_id ` set (credits cdb) then Inl (HTTPException 400 duplicate_detail)
                             else Inr (d, cdb\<lparr>credits := credits cdb @
                               [\<lparr>cr_id = uuid 1, cr_user_id = u, cr_credit = store env d, cr_updated_at = now, cr_created_at = now\<rparr>]\<rparr>))) of
                Inl e \<Rightarrow> (Inl e, db)
              | Inr (current_credit, cdb) \<Rightarrow>
                  (Inr reward,
                   \<lparr>ck_records = ck_records db @ [r],
                    ck_credits = snd (update_credit (\<lambda>c. cr_user_id c = u) (\<lambda>_. store env (current_credit + reward)) now cdb)\<rparr>))"

record lottery_env =
  l_fl :: "rat \<Rightarrow> rat"
  l_float_repr :: "rat \<Rightarrow> rat"
  l_json_loads :: "string \<Rightarrow> py result"
  l_zone_exists :: "string \<Rightarrow> bool"

text \<open>The settings, saved or registered defaults.\<close>

type_synonym config = "(string \<times> py) list"

definition get_checkin_config :: "config \<Rightarrow> string \<Rightarrow> string \<Rightarrow> checkin_db \<Rightarrow> bool \<times> bool" where
  "get_checkin_config cfg today u db =
     (let enabled = truthy (dget cfg ''lottery.checkin.enable'' (PBool False))
      in (enabled, if enabled then has_checked_in db u today else False))"

text \<open>\<open>lock\<close> is what the Redis lock answered; None when there is no Redis or it failed.\<close>

definition checkin ::
  "lottery_env \<Rightarrow> credit_env \<Rightarrow> config \<Rightarrow> (nat \<Rightarrow> string) \<Rightarrow> int \<Rightarrow> string \<Rightarrow> rat \<Rightarrow> bool option \<Rightarrow> string \<Rightarrow> checkin_db
     \<Rightarrow> rat result \<times> checkin_db" where
  "checkin lenv env cfg uuid now today r lock u db =
     (if \<not> truthy (dget cfg ''lottery.checkin.enable'' (PBool False)) then (Inl (HTTPException 400 ''Check-in is not enabled''), db)
      else if has_checked_in db u today then (Inl (HTTPException 400 ''Already checked in today''), db)
      else if lock = Some False then (Inl (HTTPException 400 ''Too many requests''), db)
      else let rewards = parse_rewards (l_fl lenv) (l_float_repr lenv) (l_json_loads lenv) (dget cfg ''lottery.reward_config'' (PStr []));
               reward = weighted_pick (l_fl lenv) r rewards
           in case create_checkin_record env uuid now reward u today ''Already checked in today'' db of
                (Inl e, db) \<Rightarrow> (Inl e, db)
              | (Inr reward, db) \<Rightarrow> (Inr (l_fl lenv reward), db))"

definition my_history :: "(rat \<Rightarrow> rat) \<Rightarrow> string \<Rightarrow> checkin_db \<Rightarrow> py list" where
  "my_history fl u db =
     map (\<lambda>r. PDict [(''checkin_date'', PStr (ck_date r)), (''reward'', PFloat (fl (ck_reward r))),
            (''type'', PStr ''checkin''), (''created_at'', PInt (ck_created_at r))]) (get_user_records u 30 db)"

subsection \<open>Administration\<close>

record checkin_form =
  f_enable_daily_checkin :: bool
  f_reward_config :: string
  f_timezone :: string
  f_enable_daily_reset :: bool
  f_reset_credit :: string

definition admin_config :: "config \<Rightarrow> pydict" where
  "admin_config cfg =
     [(''ENABLE_DAILY_CHECKIN'', PBool (truthy (dget cfg ''lottery.checkin.enable'' (PBool False)))),
      (''DAILY_CHECKIN_REWARD_CONFIG'', dget cfg ''lottery.reward_config'' (PStr [])),
      (''CHECKIN_TIMEZONE'', dget cfg ''lottery.timezone'' (PStr ''Asia/Shanghai'')),
      (''ENABLE_DAILY_CREDIT_RESET'', PBool (truthy (dget cfg ''lottery.daily_reset.enable'' (PBool False)))),
      (''DAILY_RESET_CREDIT'', dget cfg ''lottery.daily_reset.credit'' (PStr ''3''))]"

text \<open>The two floats of an item, \<open>None\<close> where reading them raises.\<close>

definition item_floats :: "(rat \<Rightarrow> rat) \<Rightarrow> py \<Rightarrow> (rat \<times> rat) option" where
  "item_floats fl item =
     (case item of
        PDict d \<Rightarrow> Option.bind (Option.bind (map_of d ''amount'') (to_float fl)) (\<lambda>a.
                   Option.bind (Option.bind (map_of d ''weight'') (to_float fl)) (\<lambda>w. Some (a, w)))
      | _ \<Rightarrow> None)"

definition valid_rewards :: "lottery_env \<Rightarrow> string \<Rightarrow> bool" where
  "valid_rewards lenv raw =
     (case l_json_loads lenv (if raw \<noteq> [] then raw else ''[]'') of
        Inr (PList data) \<Rightarrow>
          data \<noteq> [] \<and> list_all (\<lambda>item. case item_floats (l_fl lenv) item of Some (a, w) \<Rightarrow> a \<ge> 0 \<and> w \<ge> 0 | None \<Rightarrow> False) data \<and>
          fold (\<lambda>item s. case item_floats (l_fl lenv) item of Some (_, w) \<Rightarrow> l_fl lenv (s + w) | None \<Rightarrow> s) data 0 > 0
      | _ \<Rightarrow> False)"

definition set_admin_checkin_config :: "lottery_env \<Rightarrow> checkin_form \<Rightarrow> config \<Rightarrow> pydict result \<times> config" where
  "set_admin_checkin_config lenv form cfg =
     (if \<not> valid_rewards lenv (f_reward_config form) then
        (Inl (HTTPException 400 ''Invalid reward config: expect [{\"amount\":N,\"weight\":W}, ...] with weight sum > 0''), cfg)
      else if \<not> l_zone_exists lenv (if f_timezone form \<noteq> [] then f_timezone form else ''Asia/Shanghai'') then
        (Inl (HTTPException 400 ''Invalid timezone''), cfg)
      else case parse_numeral (f_reset_credit form) of
             None \<Rightarrow> (Inl (HTTPException 400 ''Invalid daily reset credit''), cfg)
           | Some reset_credit \<Rightarrow>
               if reset_credit < 0 then (Inl (HTTPException 400 ''Invalid daily reset credit''), cfg)
               else let cfg = dict_merge cfg
                          [(''lottery.checkin.enable'', PBool (f_enable_daily_checkin form)),
                           (''lottery.reward_config'', PStr (f_reward_config form)),
                           (''lottery.timezone'', PStr (f_timezone form)),
                           (''lottery.daily_reset.enable'', PBool (f_enable_daily_reset form)),
                           (''lottery.daily_reset.credit'', PStr (f_reset_credit form))]
                    in (Inr (admin_config cfg), cfg))"

text \<open>A page of all records with the names of the users; \<open>page\<close> counts from one.\<close>

definition list_checkin_records ::
  "(rat \<Rightarrow> rat) \<Rightarrow> (string \<Rightarrow> (string \<times> string) option) \<Rightarrow> nat \<Rightarrow> string \<Rightarrow> checkin_db \<Rightarrow> nat \<times> nat \<times> py list" where
  "list_checkin_records fl get_user page keyword db =
     (let page = (if page = 0 then 1 else page);
          (tot, records) = get_records keyword ((page - 1) * 30) 30 db
      in (tot, page, map (\<lambda>r.
            let (name, email) = (case get_user (ck_user_id r) of Some ne \<Rightarrow> ne | None \<Rightarrow> (ck_user_id r, []))
            in PDict [(''id'', PStr (ck_id r)), (''user_id'', PStr (ck_user_id r)), (''name'', PStr name), (''email'', PStr email),
                 (''checkin_date'', PStr (ck_date r)), (''reward'', PFloat (fl (ck_reward r))), (''type'', PStr ''checkin''),
                 (''created_at'', PInt (ck_created_at r))]) records))"

subsection \<open>One check-in\<close>

definition records_ok :: "checkin_db \<Rightarrow> bool" where
  "records_ok db \<longleftrightarrow> distinct (map (\<lambda>r. (ck_user_id r, ck_date r)) (ck_records db)) \<and> distinct (map ck_id (ck_records db))"

lemma has_checked_in_iff: "has_checked_in db u date \<longleftrightarrow> (u, date) \<in> (\<lambda>r. (ck_user_id r, ck_date r)) ` set (ck_records db)"
  by (auto simp: has_checked_in_def list_ex_iff)

lemma create_error_keeps: "create_checkin_record env uuid now reward u today dup db = (Inl e, db') \<Longrightarrow> db' = db"
  by (auto simp: create_checkin_record_def Let_def split: if_splits option.splits sum.splits prod.splits)

lemma get_credit_append:
  "get_credit_by_user_id (cdb\<lparr>credits := credits cdb @ [c]\<rparr>) v =
     (case get_credit_by_user_id cdb v of Some x \<Rightarrow> Some x | None \<Rightarrow> if cr_user_id c = v then Some c else None)"
proof -
  have "find P (xs @ [x]) = (case find P xs of Some y \<Rightarrow> Some y | None \<Rightarrow> if P x then Some x else None)"
    for P :: "credit_row \<Rightarrow> bool" and xs x by (induction xs) auto
  then show ?thesis by (simp add: get_credit_by_user_id_def)
qed

lemma create_new:
  assumes "credits_ok (ck_credits db)" and "default_credit env = Some d" and "store env d = d"
    and "uuid 0 \<notin> ck_id ` set (ck_records db)" and "uuid 1 \<notin> cr_id ` set (credits (ck_credits db))"
    and "\<not> has_checked_in db u today"
  shows "\<exists>cdb. create_checkin_record env uuid now reward u today dup db =
      (Inr reward, \<lparr>ck_records = ck_records db @
         [\<lparr>ck_id = uuid 0, ck_user_id = u, ck_date = today, ck_reward = store env reward, ck_created_at = now\<rparr>], ck_credits = cdb\<rparr>) \<and>
      credits_ok cdb \<and> credit_logs cdb = credit_logs (ck_credits db) \<and>
      (\<forall>v. balance env cdb v = (if v = u then store env (balance env (ck_credits db) u + reward) else balance env (ck_credits db) v))"
proof -
  let ?cdb = "ck_credits db"
  define cdb1 where "cdb1 = (case get_credit_by_user_id ?cdb u of Some _ \<Rightarrow> ?cdb | None \<Rightarrow>
    ?cdb\<lparr>credits := credits ?cdb @ [\<lparr>cr_id = uuid 1, cr_user_id = u, cr_credit = store env d, cr_updated_at = now, cr_created_at = now\<rparr>]\<rparr>)"
  let ?new = "store env (balance env ?cdb u + reward)"
  obtain n cdb2 where up: "update_credit (\<lambda>c. cr_user_id c = u) (\<lambda>_. ?new) now cdb1 = (n, cdb2)" by fastforce
  have cur: "(case get_credit_by_user_id ?cdb u of Some c \<Rightarrow> cr_credit c | None \<Rightarrow> d) = balance env ?cdb u"
    by (simp add: balance_def assms(2,3) split: option.splits)
  have run: "create_checkin_record env uuid now reward u today dup db =
      (Inr reward, \<lparr>ck_records = ck_records db @
         [\<lparr>ck_id = uuid 0, ck_user_id = u, ck_date = today, ck_reward = store env reward, ck_created_at = now\<rparr>], ck_credits = cdb2\<rparr>)"
    using up cur assms(2,4-6) unfolding cdb1_def create_checkin_record_def Let_def
    by (simp add: record_conflict_def split: option.splits)
  have ok1: "credits_ok cdb1"
    using assms(1,5) get_credit_None [of ?cdb u] by (auto simp: cdb1_def credits_ok_def split: option.splits)
  have b1: "balance env cdb1 v = balance env ?cdb v" for v
    using assms(2) by (auto simp: cdb1_def balance_def get_credit_append split: option.splits)
  have u1: "u \<in> cr_user_id ` set (credits cdb1)"
    using get_credit_None [of ?cdb u] by (auto simp: cdb1_def split: option.splits)
  note k = update_credit_ok [OF ok1 up]
  have "balance env cdb2 v = (if v = u then ?new else balance env ?cdb v)" for v
  proof (cases "v \<in> cr_user_id ` set (credits cdb1)")
    case True
    then obtain r where r: "r \<in> set (credits cdb1)" "cr_user_id r = v" by auto
    then have "cr_credit r = balance env cdb1 v" using get_credit_Some [OF ok1, of v r] by (simp add: balance_def)
    with k(4) [OF r] r(2) b1 show ?thesis by simp
  next
    case False
    with u1 have "v \<noteq> u" by auto
    with k(5) [OF False] b1 show ?thesis by simp
  qed
  moreover have "credit_logs cdb2 = credit_logs ?cdb" using k(2) by (simp add: cdb1_def split: option.splits)
  ultimately show ?thesis using run k(1) by blast
qed

subsection \<open>Any number of check-ins\<close>

text \<open>Attempts in the order in which their transactions commit: user, date, reward drawn and time.\<close>

definition run_checkins ::
  "credit_env \<Rightarrow> (checkin_db \<Rightarrow> nat \<Rightarrow> string) \<Rightarrow> (string \<times> string \<times> rat \<times> int) list \<Rightarrow> checkin_db \<Rightarrow> checkin_db" where
  "run_checkins env ids ops db =
     fold (\<lambda>(u, date, reward, now) db. snd (create_checkin_record env (ids db) now reward u date ''Already checked in today'' db)) ops db"

definition earned :: "string \<Rightarrow> checkin_db \<Rightarrow> rat" where
  "earned u db = sum_list (map (\<lambda>r. if ck_user_id r = u then ck_reward r else 0) (ck_records db))"

locale checkin_column = credit_column env new_ids grid
  for env new_ids grid +
  fixes ck_ids :: "checkin_db \<Rightarrow> nat \<Rightarrow> string"
  assumes record_id_fresh: "ck_ids db 0 \<notin> ck_id ` set (ck_records db)"
    and account_id_fresh: "ck_ids db 1 \<notin> cr_id ` set (credits (ck_credits db))"
    and default_exact: "default_credit env = Some d \<Longrightarrow> store env d = d"
begin

lemma grid_add: "grid x \<Longrightarrow> grid y \<Longrightarrow> grid (x + y)"
  using grid_diff [of x "(y - y) - y"] grid_diff [of y y] grid_diff [of "y - y" y] by simp

lemma checkin_step:
  assumes "inv (ck_credits db)" and "records_ok db" and "grid reward"
    and "create_checkin_record env (ck_ids db) now reward u date dup db = (res, db')"
  shows "inv (ck_credits db') \<and> records_ok db' \<and>
    balance env (ck_credits db') v - earned v db' = balance env (ck_credits db) v - earned v db"
proof (cases "has_checked_in db u date")
  case True
  then have "db' = db" using assms(4) by (auto simp: create_checkin_record_def record_conflict_def Let_def)
  with assms(1,2) show ?thesis by simp
next
  case False
  obtain d where d: "default_credit env = Some d" using default_set by auto
  have i: "credits_ok (ck_credits db)" "\<And>u. grid (balance env (ck_credits db) u)" using assms(1) by (simp_all add: inv_def)
  from create_new [OF i(1) d default_exact [OF d] record_id_fresh account_id_fresh False, of now reward dup] assms(4)
  obtain cdb where db': "db' = \<lparr>ck_records = ck_records db @
         [\<lparr>ck_id = ck_ids db 0, ck_user_id = u, ck_date = date, ck_reward = store env reward, ck_created_at = now\<rparr>], ck_credits = cdb\<rparr>"
    and cdb: "credits_ok cdb" "\<And>v. balance env cdb v = (if v = u then store env (balance env (ck_credits db) u + reward) else balance env (ck_credits db) v)"
    by auto
  have ex: "store env reward = reward" "store env (balance env (ck_credits db) u + reward) = balance env (ck_credits db) u + reward"
    using store_exact [OF assms(3)] store_exact [OF grid_add [OF i(2) assms(3)]] by auto
  have "inv cdb" using cdb i(2) grid_add [OF i(2) assms(3)] by (simp add: inv_def ex)
  moreover have "records_ok db'" using assms(2) False record_id_fresh [of db] by (auto simp: records_ok_def db' has_checked_in_iff)
  moreover have "balance env cdb v - earned v db' = balance env (ck_credits db) v - earned v db"
    by (cases "v = u") (auto simp: cdb(2) ex earned_def db')
  ultimately show ?thesis by (simp add: db')
qed

lemma run_checkins_accounted:
  assumes "inv (ck_credits db)" and "records_ok db" and "\<forall>(u, date, reward, now) \<in> set ops. grid reward"
  shows "inv (ck_credits (run_checkins env ck_ids ops db)) \<and> records_ok (run_checkins env ck_ids ops db) \<and>
    balance env (ck_credits (run_checkins env ck_ids ops db)) v - earned v (run_checkins env ck_ids ops db)
      = balance env (ck_credits db) v - earned v db"
  using assms
proof (induction ops arbitrary: db)
  case (Cons op ops)
  obtain u date reward now where op: "op = (u, date, reward, now)" by (cases op)
  obtain res db1 where r: "create_checkin_record env (ck_ids db) now reward u date ''Already checked in today'' db = (res, db1)" by fastforce
  have "grid reward" using Cons.prems(3) by (auto simp: op)
  from checkin_step [OF Cons.prems(1,2) this r] Cons.IH [of db1] Cons.prems(3) show ?case
    by (simp add: run_checkins_def op r)
qed (simp add: run_checkins_def)

end

text \<open>Ids longer than every id of both tables.\<close>

definition longer_ck_id :: "checkin_db \<Rightarrow> nat \<Rightarrow> string" where
  "longer_ck_id db n = replicate (sum_list (map (\<lambda>r. length (ck_id r)) (ck_records db))) CHR ''f'' @ longer_id (ck_credits db) n"

lemma longer_ck_id_fresh:
  "longer_ck_id db n \<notin> ck_id ` set (ck_records db)" "longer_ck_id db n \<notin> cr_id ` set (credits (ck_credits db))"
proof -
  have "length (longer_ck_id db n) > length (ck_id r)" if "r \<in> set (ck_records db)" for r
    using member_le_sum_list [of "length (ck_id r)" "map (\<lambda>r. length (ck_id r)) (ck_records db)"] that
    by (auto simp: longer_ck_id_def longer_id_def)
  then show "longer_ck_id db n \<notin> ck_id ` set (ck_records db)" by force
  have "length (longer_ck_id db n) > length (cr_id r)" if "r \<in> set (credits (ck_credits db))" for r
    using member_le_sum_list [of "length (cr_id r)" "map (\<lambda>r. length (cr_id r)) (credits (ck_credits db))"] that
    by (auto simp: longer_ck_id_def longer_id_def)
  then show "longer_ck_id db n \<notin> cr_id ` set (credits (ck_credits db))" by force
qed

text \<open>The account column with a default balance that fits it.\<close>

interpretation numeric_checkin: checkin_column "numeric_env (numeric_12 d) msg" longer_id grid_12 longer_ck_id for d msg
  by unfold_locales (auto simp: longer_ck_id_fresh numeric_env_def numeric_12_exact grid_12_numeric_12)

subsection \<open>Drawing and configuring rewards\<close>

lemma pick_loop_mem: "pick_loop fl r c rewards = Some a \<Longrightarrow> a \<in> fst ` set rewards"
  by (induction fl r c rewards rule: pick_loop.induct) (auto simp: Let_def split: if_splits)

lemma weighted_pick_mem: "rewards \<noteq> [] \<Longrightarrow> weighted_pick fl r rewards \<in> fst ` set rewards"
  by (auto simp: weighted_pick_def split: option.splits dest: pick_loop_mem)

lemma pick_loop_interval:
  assumes "\<forall>w \<in> set (map snd rewards). w > 0" and "k < length rewards"
    and "r \<le> c + sum_list (take (Suc k) (map snd rewards))" and "k = 0 \<or> c + sum_list (take k (map snd rewards)) < r"
  shows "pick_loop (\<lambda>x. x) r c rewards = Some (fst (rewards ! k))"
  using assms
proof (induction rewards arbitrary: c k)
  case (Cons p rewards)
  obtain a w where p: "p = (a, w)" by (cases p)
  show ?case
  proof (cases k)
    case 0
    with Cons.prems show ?thesis by (simp add: p)
  next
    case (Suc j)
    have "0 \<le> sum_list (take j (map snd rewards))"
      using Cons.prems(1) by (intro sum_list_nonneg) (force dest!: in_set_takeD simp: less_imp_le)
    with Cons.prems(4) Suc have "\<not> r \<le> c + w" by (auto simp: p)
    with Cons.IH [of j "c + w"] Cons.prems Suc show ?thesis by (auto simp: p add.assoc)
  qed
qed simp

lemma parse_rewards_nonempty: "parse_rewards fl fr jl raw \<noteq> []"
  by (auto simp: parse_rewards_def split: sum.splits py.splits option.splits list.splits)

text \<open>Neither rounding nor printing a float changes which side of zero it is on.\<close>

definition sign_kept :: "lottery_env \<Rightarrow> bool" where
  "sign_kept lenv \<longleftrightarrow> (\<forall>x < 0. l_fl lenv x < 0) \<and> (\<forall>x \<ge> 0. l_float_repr lenv x \<ge> 0)"

lemma decimal_nonneg:
  assumes "sign_kept lenv" and "to_float (l_fl lenv) v = Some a" and "a \<ge> 0" and "decimal_of_str (l_float_repr lenv) v = Some x"
  shows "x \<ge> 0"
proof (rule ccontr)
  assume "\<not> x \<ge> 0"
  then have "\<not> l_fl lenv x \<ge> 0" using assms(1) by (auto simp: sign_kept_def not_le)
  with assms \<open>\<not> x \<ge> 0\<close> show False by (cases v) (auto simp: sign_kept_def)
qed

lemma reward_items_nonneg:
  assumes "sign_kept lenv"
    and "list_all (\<lambda>item. case item_floats (l_fl lenv) item of Some (a, w) \<Rightarrow> a \<ge> 0 \<and> w \<ge> 0 | None \<Rightarrow> False) data"
    and "reward_items (l_fl lenv) (l_float_repr lenv) data = Some rs"
  shows "\<forall>(a, w) \<in> set rs. a \<ge> 0"
  using assms(2,3)
proof (induction data arbitrary: rs)
  case (Cons item data)
  then obtain d where d: "item = PDict d" by (cases item) (auto simp: item_floats_def)
  from Cons.prems obtain a w am wm where f: "map_of d ''amount'' = Some am" "to_float (l_fl lenv) am = Some a" "a \<ge> 0"
    "map_of d ''weight'' = Some wm" "to_float (l_fl lenv) wm = Some w"
    by (auto simp: d item_floats_def split: option.splits bind_splits)
  have rest: "list_all (\<lambda>item. case item_floats (l_fl lenv) item of Some (a, w) \<Rightarrow> a \<ge> 0 \<and> w \<ge> 0 | None \<Rightarrow> False) data"
    using Cons.prems(1) by simp
  have w: "dget d ''weight'' (PInt 0) = wm" using f(4) by (simp add: dget_def)
  show ?case
  proof (cases "w > 0")
    case True
    with Cons.prems(2) f w obtain x rs' where x: "decimal_of_str (l_float_repr lenv) am = Some x"
      "reward_items (l_fl lenv) (l_float_repr lenv) data = Some rs'" "rs = (x, w) # rs'"
      by (auto simp: d split: option.splits)
    with Cons.IH [OF rest x(2)] decimal_nonneg [OF assms(1) f(2,3) x(1)] show ?thesis by simp
  next
    case False
    with Cons.prems(2) f w have "reward_items (l_fl lenv) (l_float_repr lenv) data = Some rs" by (simp add: d)
    then show ?thesis by (rule Cons.IH [OF rest])
  qed
qed simp

lemma valid_rewards_nonneg:
  assumes "sign_kept lenv" and "l_json_loads lenv ''[]'' = Inr (PList [])" and "valid_rewards lenv raw"
  shows "\<forall>(a, w) \<in> set (parse_rewards (l_fl lenv) (l_float_repr lenv) (l_json_loads lenv) (PStr raw)). a \<ge> 0"
proof -
  have "raw \<noteq> []" using assms(2,3) by (auto simp: valid_rewards_def)
  with assms(3) obtain data where data: "l_json_loads lenv raw = Inr (PList data)"
    "list_all (\<lambda>item. case item_floats (l_fl lenv) item of Some (a, w) \<Rightarrow> a \<ge> 0 \<and> w \<ge> 0 | None \<Rightarrow> False) data"
    by (auto simp: valid_rewards_def split: sum.splits py.splits)
  show ?thesis
  proof (cases "reward_items (l_fl lenv) (l_float_repr lenv) data")
    case None
    then show ?thesis by (simp add: parse_rewards_def \<open>raw \<noteq> []\<close> data(1))
  next
    case (Some rs)
    from reward_items_nonneg [OF assms(1) data(2) Some] show ?thesis
      by (cases rs) (simp_all add: parse_rewards_def \<open>raw \<noteq> []\<close> data(1) Some)
  qed
qed

subsection \<open>Properties\<close>

text \<open>
  Whatever the order of any number of check-ins, no user has two records of one day, and
  every balance is what it was plus the rewards recorded for its user since: a reward is awarded
  exactly when its record is kept.
\<close>

theorem rewards_accounted:
  assumes "credits_ok (ck_credits db)" and "\<forall>r \<in> set (credits (ck_credits db)). grid_12 (cr_credit r)" and "records_ok db"
    and "\<forall>(u, date, reward, now) \<in> set ops. grid_12 reward"
  shows "let env = numeric_env (numeric_12 d) msg; db' = run_checkins env longer_ck_id ops db
    in distinct (map (\<lambda>r. (ck_user_id r, ck_date r)) (ck_records db')) \<and>
       balance env (ck_credits db') v = balance env (ck_credits db) v + (earned v db' - earned v db)"
  using numeric_checkin.run_checkins_accounted [OF numeric_inv [OF assms(1,2)] assms(3,4), of d msg v]
  by (simp add: Let_def records_ok_def algebra_simps)

definition demo_checkins :: checkin_db where
  "demo_checkins = \<lparr>ck_records = [], ck_credits = demo_credits\<rparr>"

theorem rewards_accounted_witness:
  "let env = numeric_env (numeric_12 10) ''no'';
       db' = run_checkins env longer_ck_id [(''ann'', ''d1'', 2, 1), (''ann'', ''d1'', 3, 2), (''bob'', ''d1'', 1, 3)] demo_checkins
   in distinct (map (\<lambda>r. (ck_user_id r, ck_date r)) (ck_records db')) \<and>
      balance env (ck_credits db') ''ann'' = 5 + earned ''ann'' db'"
proof -
  have "\<forall>r \<in> set (credits (ck_credits demo_checkins)). grid_12 (cr_credit r)"
    by (simp add: demo_checkins_def demo_credits_def grid_12_def)
  moreover have "credits_ok (ck_credits demo_checkins)" "records_ok demo_checkins"
    using demo_credits_ok by (simp_all add: demo_checkins_def records_ok_def)
  moreover have "\<forall>(u, date, reward, now) \<in> set [(''ann'', ''d1'', 2, 1), (''ann'', ''d1'', 3, 2), (''bob'', ''d1'', 1, 3)]. grid_12 reward"
    by (simp add: grid_12_def)
  moreover have "balance (numeric_env (numeric_12 10) ''no'') (ck_credits demo_checkins) ''ann'' = 5"
    by (simp add: balance_def get_credit_by_user_id_def demo_checkins_def demo_credits_def)
  moreover have "earned ''ann'' demo_checkins = 0" by (simp add: earned_def demo_checkins_def)
  ultimately show ?thesis
    using rewards_accounted [of demo_checkins "[(''ann'', ''d1'', 2, 1), (''ann'', ''d1'', 3, 2), (''bob'', ''d1'', 1, 3)]" 10 "''no''" "''ann''"]
    by (simp add: Let_def)
qed



text \<open>
  The draw gives every reward the interval of its weight: a number in the interval that starts
  after the weights before a reward and is as long as its own weight draws that reward.
\<close>

theorem pick_by_weight:
  assumes "\<forall>w \<in> set (map snd rewards). w > 0" and "k < length rewards"
    and "r \<le> sum_list (take (Suc k) (map snd rewards))" and "k = 0 \<or> sum_list (take k (map snd rewards)) < r"
  shows "weighted_pick (\<lambda>x. x) r rewards = fst (rewards ! k)"
  using pick_loop_interval [OF assms(1,2), of r 0] assms(3,4) by (simp add: weighted_pick_def)

theorem pick_by_weight_witness: "weighted_pick (\<lambda>x. x) (5/2) [(1, 1), (7, 2), (9, 3)] = 7"
  using pick_by_weight [of "[(1, 1), (7, 2), (9, 3)]" 1 "5/2"] by simp

text \<open>
  A reward configuration the administration accepts never takes credit away: whatever is drawn
  under it, the reward of a check-in is not negative.
\<close>

theorem accepted_rewards_nonneg:
  assumes "sign_kept lenv" and "l_json_loads lenv ''[]'' = Inr (PList [])"
    and "set_admin_checkin_config lenv form cfg = (Inr shown, cfg')"
  shows "weighted_pick (l_fl lenv) r (parse_rewards (l_fl lenv) (l_float_repr lenv) (l_json_loads lenv)
      (dget cfg' ''lottery.reward_config'' (PStr []))) \<ge> 0"
proof -
  from assms(3) have v: "valid_rewards lenv (f_reward_config form)"
    and "cfg' = dict_merge cfg [(''lottery.checkin.enable'', PBool (f_enable_daily_checkin form)),
       (''lottery.reward_config'', PStr (f_reward_config form)), (''lottery.timezone'', PStr (f_timezone form)),
       (''lottery.daily_reset.enable'', PBool (f_enable_daily_reset form)), (''lottery.daily_reset.credit'', PStr (f_reset_credit form))]"
    by (auto simp: set_admin_checkin_config_def Let_def split: if_splits option.splits)
  then have c: "dget cfg' ''lottery.reward_config'' (PStr []) = PStr (f_reward_config form)" by (simp add: dict_merge_def)
  show ?thesis unfolding c
    using valid_rewards_nonneg [OF assms(1,2) v] weighted_pick_mem [OF parse_rewards_nonempty] by fastforce
qed

definition demo_lottery :: lottery_env where
  "demo_lottery = \<lparr>l_fl = (\<lambda>x. x), l_float_repr = (\<lambda>x. x),
     l_json_loads = (\<lambda>s. if s = ''[]'' then Inr (PList []) else Inr (PList [PDict [(''amount'', PInt 4), (''weight'', PInt 1)]])),
     l_zone_exists = (\<lambda>_. True)\<rparr>"

definition demo_lottery_form :: checkin_form where
  "demo_lottery_form = \<lparr>f_enable_daily_checkin = True, f_reward_config = ''[x]'', f_timezone = [], f_enable_daily_reset = False, f_reset_credit = ''3''\<rparr>"

theorem accepted_rewards_nonneg_witness:
  "weighted_pick (l_fl demo_lottery) 1 (parse_rewards (l_fl demo_lottery) (l_float_repr demo_lottery) (l_json_loads demo_lottery)
      (dget (snd (set_admin_checkin_config demo_lottery demo_lottery_form [])) ''lottery.reward_config'' (PStr []))) \<ge> 0"
proof -
  have "case set_admin_checkin_config demo_lottery demo_lottery_form [] of (Inr _, _) \<Rightarrow> True | _ \<Rightarrow> False" by code_simp
  then obtain shown cfg' where r: "set_admin_checkin_config demo_lottery demo_lottery_form [] = (Inr shown, cfg')"
    by (auto split: prod.splits sum.splits)
  have "sign_kept demo_lottery" "l_json_loads demo_lottery ''[]'' = Inr (PList [])" by (simp_all add: sign_kept_def demo_lottery_def)
  from accepted_rewards_nonneg [OF this r] show ?thesis by (simp add: r)
qed

end
