(* ===== verification/Auths.thy ===== *)
theory Auths
  imports Prelude
begin

text \<open>
  The credential table, \<^verbatim>\<open>models/auths.py\<close>: a row holds a password hash, a session stamp and the
  authenticator state of an account. Every write of the authenticator state is a compare-and-swap on
  the revision a request has read. Fresh uuids are arguments; a JSON column holds the record its
  \<open>model_dump\<close> encodes, and the empty value of a nullable column is \<^const>\<open>None\<close>, which SQLAlchemy
  compares with \<open>IS NULL\<close>.
\<close>

subsection \<open>Records\<close>

record mfa_limit =
  li_count :: int
  li_expires_at :: int

record mfa_reset_ticket =
  ti_token_hash :: string
  ti_expires_at :: int

datatype challenge_type = Type_enroll | Type_verify | Type_replace | Type_recover

record mfa_challenge =
  ch_token_hash :: string
  ch_type :: challenge_type
  ch_expires_at :: int
  ch_attempts :: int
  ch_auth_method :: string
  ch_auth_time :: int
  ch_session_stamp :: "string option"
  ch_secret :: "string option"
  ch_oauth_session_id :: "string option"
  ch_provider :: "string option"

record mfa_data =
  md_revision :: string
  md_secret :: "string option"
  md_last_step :: int
  md_recovery_hashes :: "string list"
  md_login_challenge :: "mfa_challenge option"
  md_manage_challenge :: "mfa_challenge option"
  md_reset_required :: bool
  md_reset_ticket :: "mfa_reset_ticket option"
  md_limits :: "string \<rightharpoonup> mfa_limit"

text \<open>\<open>MfaData()\<close> with the revision its default factory draws.\<close>

definition new_mfa_data :: "string \<Rightarrow> mfa_data" where
  "new_mfa_data uuid =
     \<lparr>md_revision = uuid, md_secret = None, md_last_step = - 1, md_recovery_hashes = [],
      md_login_challenge = None, md_manage_challenge = None, md_reset_required = False,
      md_reset_ticket = None, md_limits = (\<lambda>_. None)\<rparr>"

record auth_row =
  au_id :: string
  au_email :: string
  au_password :: string
  au_active :: bool
  au_mfa :: "mfa_data option"
  au_session_stamp :: "string option"

type_synonym auth_table = "auth_row list"

subsection \<open>Operations\<close>

definition get_auth_by_id :: "string \<Rightarrow> auth_table \<Rightarrow> auth_row option" where
  "get_auth_by_id user_id rows = find (\<lambda>r. au_id r = user_id) rows"

definition clear_challenges :: "mfa_data \<Rightarrow> mfa_data" where
  "clear_challenges m = m\<lparr>md_login_challenge := None, md_manage_challenge := None, md_reset_ticket := None\<rparr>"

definition clear_mfa_challenges :: "string \<Rightarrow> mfa_data option \<Rightarrow> mfa_data option" where
  "clear_mfa_challenges uuid value' = (case value' of None \<Rightarrow> None | Some m \<Rightarrow> Some ((clear_challenges m)\<lparr>md_revision := uuid\<rparr>))"

definition revision_of :: "auth_row \<Rightarrow> string option" where
  "revision_of r = map_option md_revision (au_mfa r)"

text \<open>
  An \<open>UPDATE\<close> with a condition: the new table when exactly one row matched (\<open>rowcount\<close> is 1). In
  every other case the caller raises and its transaction is rolled back.
\<close>

definition update_one :: "(auth_row \<Rightarrow> bool) \<Rightarrow> (auth_row \<Rightarrow> auth_row) \<Rightarrow> auth_table \<Rightarrow> auth_table option" where
  "update_one P f rows =
     (if length (filter P rows) = 1 then Some (map (\<lambda>r. if P r then f r else r) rows) else None)"

text \<open>The condition of the compare-and-swap on the complete credential state.\<close>

definition unchanged :: "auth_row \<Rightarrow> auth_row \<Rightarrow> bool" where
  "unchanged auth r \<longleftrightarrow> au_id r = au_id auth \<and> au_active r \<and> au_password r = au_password auth
     \<and> au_session_stamp r = au_session_stamp auth \<and> revision_of r = revision_of auth"

text \<open>The stored columns, and the model the caller goes on with.\<close>

definition swapped :: "auth_row \<Rightarrow> mfa_data \<Rightarrow> bool \<Rightarrow> string \<Rightarrow> string \<Rightarrow> auth_row \<Rightarrow> auth_row" where
  "swapped auth mfa revoke uuid stamp r =
     r\<lparr>au_mfa := Some (mfa\<lparr>md_revision := uuid\<rparr>),
       au_session_stamp := (if revoke then Some stamp else au_session_stamp auth)\<rparr>"

definition update_mfa_by_id ::
  "auth_row \<Rightarrow> mfa_data \<Rightarrow> bool \<Rightarrow> string \<Rightarrow> string \<Rightarrow> auth_table \<Rightarrow> auth_row option \<times> auth_table" where
  "update_mfa_by_id auth mfa revoke uuid stamp rows =
     (case update_one (unchanged auth) (swapped auth mfa revoke uuid stamp) rows of
        None \<Rightarrow> (None, rows)
      | Some rows' \<Rightarrow> (Some (swapped auth mfa revoke uuid stamp auth), rows'))"

text \<open>The second statement of a revocation, conditioned on what its first statement has read.\<close>

definition same_revision :: "auth_row \<Rightarrow> auth_row \<Rightarrow> bool" where
  "same_revision auth r \<longleftrightarrow> au_id r = au_id auth \<and> au_session_stamp r = au_session_stamp auth
     \<and> revision_of r = revision_of auth"

definition revoked :: "auth_row \<Rightarrow> string \<Rightarrow> string \<Rightarrow> auth_row \<Rightarrow> auth_row" where
  "revoked auth uuid stamp r =
     r\<lparr>au_session_stamp := Some stamp, au_mfa := clear_mfa_challenges uuid (au_mfa auth)\<rparr>"

definition clear_sessions :: "auth_row \<Rightarrow> string \<Rightarrow> string \<Rightarrow> auth_table \<Rightarrow> auth_table option" where
  "clear_sessions auth uuid stamp rows = update_one (same_revision auth) (revoked auth uuid stamp) rows"

text \<open>
  \<open>insert_new_auth\<close>'s credential; the primary key makes the insertion of a present id an integrity
  error, after which nothing is stored.
\<close>

definition insert_new_auth :: "string \<Rightarrow> string \<Rightarrow> string \<Rightarrow> string \<Rightarrow> auth_table \<Rightarrow> auth_table result" where
  "insert_new_auth new_id stamp email password rows =
     (if new_id \<in> au_id ` set rows then Inl IntegrityError
      else Inr (rows @ [\<lparr>au_id = new_id, au_email = email, au_password = password, au_active = True,
                        au_mfa = None, au_session_stamp = Some stamp\<rparr>]))"

definition update_email_by_id :: "string \<Rightarrow> string \<Rightarrow> auth_table \<Rightarrow> bool \<times> auth_table" where
  "update_email_by_id user_id email rows =
     (user_id \<in> au_id ` set rows, map (\<lambda>r. if au_id r = user_id then r\<lparr>au_email := email\<rparr> else r) rows)"

text \<open>
  The transaction of a password change: the swap with every challenge cleared and the sessions
  revoked, then the new hash on the row it has locked.
\<close>

definition change_password ::
  "string \<Rightarrow> auth_row \<Rightarrow> mfa_data \<Rightarrow> string \<Rightarrow> string \<Rightarrow> string \<Rightarrow> auth_table \<Rightarrow> bool \<times> auth_table" where
  "change_password user_id auth state new_password uuid stamp rows =
     (case update_mfa_by_id auth state True uuid stamp rows of
        (None, _) \<Rightarrow> (False, rows)
      | (Some _, rows') \<Rightarrow>
          (True, map (\<lambda>r. if au_id r = user_id then r\<lparr>au_password := new_password\<rparr> else r) rows'))"

definition delete_auth_by_id :: "string \<Rightarrow> auth_table \<Rightarrow> auth_table" where
  "delete_auth_by_id user_id rows = filter (\<lambda>r. au_id r \<noteq> user_id) rows"

subsection \<open>The effect of a conditional update\<close>

lemma get_auth_by_id_Some: "get_auth_by_id u rows = Some r \<Longrightarrow> r \<in> set rows \<and> au_id r = u"
  by (auto simp: get_auth_by_id_def dest: find_Some)

lemma get_auth_by_id_mem: "distinct (map au_id rows) \<Longrightarrow> r \<in> set rows \<Longrightarrow> get_auth_by_id (au_id r) rows = Some r"
  by (induction rows) (auto simp: get_auth_by_id_def)

lemma update_one_Some:
  assumes "update_one P f rows = Some rows'"
  obtains r where "r \<in> set rows" and "P r" and "f r \<in> set rows'"
proof -
  from assms have one: "length (filter P rows) = 1" and rows': "rows' = map (\<lambda>r. if P r then f r else r) rows"
    by (auto simp: update_one_def split: if_splits)
  from one obtain r where "filter P rows = [r]" by (auto simp: length_Suc_conv)
  then have "r \<in> set (filter P rows)" by simp
  then have "r \<in> set rows" "P r" by auto
  moreover from this have "f r \<in> set rows'" unfolding rows' by force
  ultimately show ?thesis by (rule that)
qed

lemma update_one_ids:
  assumes "update_one P f rows = Some rows'" and "\<And>r. au_id (f r) = au_id r"
  shows "map au_id rows' = map au_id rows"
  using assms by (auto simp: update_one_def split: if_splits)

lemma get_auth_by_id_map:
  assumes "\<And>r. au_id (f r) = au_id r"
  shows "get_auth_by_id u (map f rows) = map_option f (get_auth_by_id u rows)"
  using assms by (simp add: get_auth_by_id_def find_map comp_def)

lemma get_auth_by_id_delete:
  "get_auth_by_id v (delete_auth_by_id u rows) = (if v = u then None else get_auth_by_id v rows)"
  by (induction rows) (auto simp: get_auth_by_id_def delete_auth_by_id_def)

text \<open>A conditional update changes the one row it matched, and no other.\<close>

lemma update_one_lookup:
  assumes upd: "update_one P f rows = Some rows'" and keeps: "\<And>r. au_id (f r) = au_id r"
    and key: "\<And>r. P r \<Longrightarrow> au_id r = u" and distinct: "distinct (map au_id rows)"
  obtains r where "get_auth_by_id u rows = Some r" and "P r" and "get_auth_by_id u rows' = Some (f r)"
    and "\<And>v. v \<noteq> u \<Longrightarrow> get_auth_by_id v rows' = get_auth_by_id v rows"
proof -
  from upd have rows': "rows' = map (\<lambda>r. if P r then f r else r) rows" by (auto simp: update_one_def split: if_splits)
  from upd obtain r where r: "r \<in> set rows" "P r" by (rule update_one_Some)
  from get_auth_by_id_mem [OF distinct r(1)] key [OF r(2)] have at: "get_auth_by_id u rows = Some r" by simp
  have lookup: "get_auth_by_id v rows' = map_option (\<lambda>r. if P r then f r else r) (get_auth_by_id v rows)" for v
    unfolding rows' by (rule get_auth_by_id_map) (simp add: keeps)
  show ?thesis
  proof (rule that [OF at r(2)])
    show "get_auth_by_id u rows' = Some (f r)" by (simp add: lookup at r(2))
    show "get_auth_by_id v rows' = get_auth_by_id v rows" if "v \<noteq> u" for v
    proof (cases "get_auth_by_id v rows")
      case (Some x)
      with that key have "\<not> P x" by (auto dest: get_auth_by_id_Some)
      with Some show ?thesis by (simp add: lookup)
    qed (simp add: lookup)
  qed
qed

end
