(* ===== verification/Mfa.thy ===== *)
theory Mfa
  imports Auths
begin

text \<open>
  Authenticator logins, \<^verbatim>\<open>utils/mfa.py\<close>. A handler awaits the database, the clock and the random
  generator many times, and other requests run in between. It is therefore a program: a tree whose
  nodes are the awaited calls and whose branches are their answers. What the calls do to the shared
  state is the business of the theory of concurrent requests; here every function of the source is
  one definition over these calls. SHA-256, the one-time passwords of pyotp and Fernet are the
  parameters \<open>mfa_crypto\<close>.
\<close>

subsection \<open>Programs\<close>

text \<open>The roles and the addresses of users, and the settings this component reads.\<close>

record mfa_user =
  us_id :: string
  us_email :: string
  us_role :: string

record mfa_config =
  ENABLE_MFA :: bool
  MFA_ALLOW_OAUTH_BYPASS :: bool
  MFA_ALLOW_TRUSTED_HEADER_BYPASS :: bool

text \<open>\<open>HTTPException\<close> with its status, detail and \<open>Retry-After\<close> header, and the other exceptions.\<close>

datatype mfa_error =
    Http nat string "int option"
  | Value_error string
  | Key_error
  | Attribute_error

text \<open>A call of the database either answers or raises \<open>SQLAlchemyError\<close>.\<close>

datatype 'r reply = Fault | Reply 'r

text \<open>
  The awaited calls: reading a credential row, the compare-and-swap with its commit, the conditional
  update of a revocation, the transaction of a password change, reading a user by id and by email
  address, reading the settings and the clock, a fresh random token, and an emitted security event (\<open>record_mfa_event\<close>, \<open>publish_event\<close>).
\<close>

datatype 'a prog =
    Ret 'a
  | Raise mfa_error
  | Get_auth_by_id string "auth_row option reply \<Rightarrow> 'a prog"
  | Update_mfa_by_id auth_row mfa_data bool "auth_row option reply \<Rightarrow> 'a prog"
  | Clear_sessions auth_row "bool reply \<Rightarrow> 'a prog"
  | Change_password string auth_row mfa_data string "bool reply \<Rightarrow> 'a prog"
  | Get_user_by_id string "mfa_user option \<Rightarrow> 'a prog"
  | Get_user_by_email string "mfa_user option \<Rightarrow> 'a prog"
  | Get_mfa_config "mfa_config \<Rightarrow> 'a prog"
  | Time "int \<Rightarrow> 'a prog"
  | Random "string \<Rightarrow> 'a prog"
  | Emit string string "'a prog"

text \<open>Sequencing, and \<open>try ... except\<close>.\<close>

primrec bind_prog :: "'a prog \<Rightarrow> ('a \<Rightarrow> 'b prog) \<Rightarrow> 'b prog" where
  "bind_prog (Ret x) f = f x"
| "bind_prog (Raise e) f = Raise e"
| "bind_prog (Get_auth_by_id u k) f = Get_auth_by_id u (\<lambda>r. bind_prog (k r) f)"
| "bind_prog (Update_mfa_by_id a m rv k) f = Update_mfa_by_id a m rv (\<lambda>r. bind_prog (k r) f)"
| "bind_prog (Clear_sessions a k) f = Clear_sessions a (\<lambda>r. bind_prog (k r) f)"
| "bind_prog (Change_password u a m p k) f = Change_password u a m p (\<lambda>r. bind_prog (k r) f)"
| "bind_prog (Get_user_by_id u k) f = Get_user_by_id u (\<lambda>r. bind_prog (k r) f)"
| "bind_prog (Get_user_by_email e k) f = Get_user_by_email e (\<lambda>r. bind_prog (k r) f)"
| "bind_prog (Get_mfa_config k) f = Get_mfa_config (\<lambda>r. bind_prog (k r) f)"
| "bind_prog (Time k) f = Time (\<lambda>r. bind_prog (k r) f)"
| "bind_prog (Random k) f = Random (\<lambda>r. bind_prog (k r) f)"
| "bind_prog (Emit ev u p) f = Emit ev u (bind_prog p f)"

primrec catch_prog :: "'a prog \<Rightarrow> (mfa_error \<Rightarrow> 'a prog) \<Rightarrow> 'a prog" where
  "catch_prog (Ret x) h = Ret x"
| "catch_prog (Raise e) h = h e"
| "catch_prog (Get_auth_by_id u k) h = Get_auth_by_id u (\<lambda>r. catch_prog (k r) h)"
| "catch_prog (Update_mfa_by_id a m rv k) h = Update_mfa_by_id a m rv (\<lambda>r. catch_prog (k r) h)"
| "catch_prog (Clear_sessions a k) h = Clear_sessions a (\<lambda>r. catch_prog (k r) h)"
| "catch_prog (Change_password u a m p k) h = Change_password u a m p (\<lambda>r. catch_prog (k r) h)"
| "catch_prog (Get_user_by_id u k) h = Get_user_by_id u (\<lambda>r. catch_prog (k r) h)"
| "catch_prog (Get_user_by_email e k) h = Get_user_by_email e (\<lambda>r. catch_prog (k r) h)"
| "catch_prog (Get_mfa_config k) h = Get_mfa_config (\<lambda>r. catch_prog (k r) h)"
| "catch_prog (Time k) h = Time (\<lambda>r. catch_prog (k r) h)"
| "catch_prog (Random k) h = Random (\<lambda>r. catch_prog (k r) h)"
| "catch_prog (Emit ev u p) h = Emit ev u (catch_prog p h)"

definition lift_result :: "(mfa_error + 'a) \<Rightarrow> 'a prog" where
  "lift_result r = (case r of Inl e \<Rightarrow> Raise e | Inr x \<Rightarrow> Ret x)"

subsection \<open>Settings and cryptography\<close>

definition CHALLENGE_SECONDS :: int where
  "CHALLENGE_SECONDS = 300"

definition LIMIT_SECONDS :: int where
  "LIMIT_SECONDS = 900"

definition is_mfa_required :: "string \<Rightarrow> mfa_config \<Rightarrow> bool" where
  "is_mfa_required auth_method config =
     (if \<not> ENABLE_MFA config then False
      else if auth_method = ''oauth'' \<and> MFA_ALLOW_OAUTH_BYPASS config then False
      else \<not> (auth_method = ''trusted_header'' \<and> MFA_ALLOW_TRUSTED_HEADER_BYPASS config))"

text \<open>
  \<open>hash\<close> is \<open>token_hash\<close>, \<open>totp_at\<close> the password of a secret at a time, \<open>fernet_decrypt\<close> fails
  with \<open>InvalidToken\<close> or without a key, and \<open>fernet_encrypt\<close> of a text with the given random bytes
  fails without a key.
\<close>

record mfa_crypto =
  token_hash :: "string \<Rightarrow> string"
  totp_at :: "string \<Rightarrow> int \<Rightarrow> string"
  fernet_decrypt :: "string \<Rightarrow> string option"
  fernet_encrypt :: "string \<Rightarrow> string \<Rightarrow> string option"

definition decrypt_secret :: "mfa_crypto \<Rightarrow> string \<Rightarrow> mfa_error + string" where
  "decrypt_secret cr secret =
     (case fernet_decrypt cr secret of
        Some s \<Rightarrow> Inr s
      | None \<Rightarrow> Inl (Http 503 ''Authenticator configuration is unavailable. Contact the operator.'' None))"

definition six_digits :: "string \<Rightarrow> bool" where
  "six_digits code \<longleftrightarrow> length code = 6 \<and> list_all (\<lambda>c. CHR ''0'' \<le> c \<and> c \<le> CHR ''9'') code"

definition matching_step :: "mfa_crypto \<Rightarrow> int \<Rightarrow> string \<Rightarrow> string \<Rightarrow> int \<Rightarrow> int option" where
  "matching_step cr now secret code last_step =
     (if \<not> six_digits code then None
      else let current = now div 30
           in find (\<lambda>step. step > last_step \<and> totp_at cr secret (step * 30) = code)
                [current, current - 1, current + 1])"

text \<open>\<open>recovery_codes\<close>: ten random codes and their digests.\<close>

primrec random_tokens :: "nat \<Rightarrow> (string list \<Rightarrow> 'a prog) \<Rightarrow> 'a prog" where
  "random_tokens 0 k = k []"
| "random_tokens (Suc n) k = Random (\<lambda>t. random_tokens n (\<lambda>ts. k (t # ts)))"

definition recovery_codes :: "mfa_crypto \<Rightarrow> (string list \<times> string list) prog" where
  "recovery_codes cr = random_tokens 10 (\<lambda>codes. Ret (codes, map (token_hash cr) codes))"

subsection \<open>Rows and limits\<close>

definition get_auth :: "string \<Rightarrow> auth_row prog" where
  "get_auth user_id = Get_auth_by_id user_id (\<lambda>r. case r of
       Fault \<Rightarrow> Raise (Http 503 ''Authentication is temporarily unavailable.'' None)
     | Reply None \<Rightarrow> Raise (Http 401 ''Invalid authentication request.'' None)
     | Reply (Some auth) \<Rightarrow>
         if au_active auth then Ret auth else Raise (Http 401 ''Invalid authentication request.'' None))"

definition save_mfa :: "auth_row \<Rightarrow> mfa_data \<Rightarrow> bool \<Rightarrow> auth_row prog" where
  "save_mfa auth mfa revoke = Update_mfa_by_id auth mfa revoke (\<lambda>r. case r of
       Fault \<Rightarrow> Raise (Http 503 ''Authentication is temporarily unavailable.'' None)
     | Reply None \<Rightarrow> Raise (Http 409 ''Authentication changed in another request. Please start again.'' None)
     | Reply (Some updated) \<Rightarrow> Ret updated)"

text \<open>
  \<open>auth.mfa.model_copy(deep=True) if auth.mfa else MfaData()\<close>. The revision of a new value is never
  stored, since every write replaces it.
\<close>

definition mfa_copy :: "auth_row \<Rightarrow> mfa_data" where
  "mfa_copy auth = (case au_mfa auth of Some m \<Rightarrow> m | None \<Rightarrow> new_mfa_data [])"

text \<open>The stored limit of a kind while it lasts, and a new window otherwise.\<close>

definition current_limit :: "mfa_data \<Rightarrow> string \<Rightarrow> int \<Rightarrow> mfa_limit" where
  "current_limit mfa kind now =
     (case md_limits mfa kind of
        Some l \<Rightarrow> if li_expires_at l \<le> now then \<lparr>li_count = 0, li_expires_at = now + LIMIT_SECONDS\<rparr> else l
      | None \<Rightarrow> \<lparr>li_count = 0, li_expires_at = now + LIMIT_SECONDS\<rparr>)"

definition count_attempt :: "mfa_data \<Rightarrow> string \<Rightarrow> int \<Rightarrow> mfa_data" where
  "count_attempt mfa kind now =
     (let limit = current_limit mfa kind now
      in mfa\<lparr>md_limits := (md_limits mfa)(kind \<mapsto> limit\<lparr>li_count := li_count limit + 1\<rparr>)\<rparr>)"

definition is_conflict :: "mfa_error \<Rightarrow> bool" where
  "is_conflict e = (case e of Http code _ _ \<Rightarrow> code = 409 | _ \<Rightarrow> False)"

text \<open>The \<open>for _ in range(5)\<close> of \<open>limit_account\<close>; \<open>check\<close> is the expected stamp, when it is checked.\<close>

primrec limit_account_loop :: "string \<Rightarrow> string \<Rightarrow> string option option \<Rightarrow> nat \<Rightarrow> auth_row prog" where
  "limit_account_loop user_id kind check 0 = Raise (Http 409 ''Authentication is busy. Please try again.'' None)"
| "limit_account_loop user_id kind check (Suc n) =
     bind_prog (get_auth user_id) (\<lambda>auth.
       if check \<noteq> None \<and> check \<noteq> Some (au_session_stamp auth)
       then Raise (Http 401 ''Session expired. Please sign in again.'' None)
       else Time (\<lambda>now.
         let mfa = mfa_copy auth; limit = current_limit mfa kind now
         in if li_count limit \<ge> 10
            then Emit ''auth.mfa.throttled'' user_id
                   (Raise (Http 429 ''Too many attempts. Please try again later.'' (Some (li_expires_at limit - now))))
            else catch_prog (save_mfa auth (count_attempt mfa kind now) False)
                   (\<lambda>e. if is_conflict e then limit_account_loop user_id kind check n else Raise e)))"

definition limit_account :: "string \<Rightarrow> string \<Rightarrow> string option option \<Rightarrow> auth_row prog" where
  "limit_account user_id kind check = limit_account_loop user_id kind check 5"

subsection \<open>Challenges\<close>

definition new_challenge ::
  "mfa_crypto \<Rightarrow> auth_row \<Rightarrow> challenge_type \<Rightarrow> string \<Rightarrow> int \<Rightarrow> string option \<Rightarrow> string option
     \<Rightarrow> (string \<times> mfa_challenge) prog" where
  "new_challenge cr auth kind auth_method auth_time oauth_session_id provider =
     Random (\<lambda>random. Time (\<lambda>now.
       let token = au_id auth @ ''.'' @ random
       in Ret (token, \<lparr>ch_token_hash = token_hash cr token, ch_type = kind,
                       ch_expires_at = now + CHALLENGE_SECONDS, ch_attempts = 0,
                       ch_auth_method = auth_method, ch_auth_time = auth_time,
                       ch_session_stamp = au_session_stamp auth, ch_secret = None,
                       ch_oauth_session_id = oauth_session_id, ch_provider = provider\<rparr>)))"

text \<open>The \<open>next_step\<close>, the token and the remaining seconds of a challenge.\<close>

record challenge_reply =
  cr_next_step :: challenge_type
  cr_challenge_token :: string
  cr_expires_in :: int

definition challenge_response :: "string \<Rightarrow> mfa_challenge \<Rightarrow> challenge_reply prog" where
  "challenge_response token challenge = Time (\<lambda>now.
     Ret \<lparr>cr_next_step = (if ch_type challenge = Type_replace then Type_enroll else ch_type challenge),
          cr_challenge_token = token, cr_expires_in = max 0 (ch_expires_at challenge - now)\<rparr>)"

text \<open>The truth value of an optional string.\<close>

definition present :: "string option \<Rightarrow> bool" where
  "present v \<longleftrightarrow> v \<noteq> None \<and> v \<noteq> Some []"

definition login_kind :: "mfa_data \<Rightarrow> challenge_type" where
  "login_kind mfa = (if md_reset_required mfa then Type_recover
                     else if present (md_secret mfa) then Type_verify else Type_enroll)"

definition start_mfa_login ::
  "mfa_crypto \<Rightarrow> auth_row \<Rightarrow> string \<Rightarrow> string option \<Rightarrow> string option \<Rightarrow> challenge_reply prog" where
  "start_mfa_login cr auth auth_method oauth_session_id provider =
     (let mfa = mfa_copy auth
      in Time (\<lambda>now.
           bind_prog (new_challenge cr auth (login_kind mfa) auth_method now oauth_session_id provider)
             (\<lambda>(token, challenge).
                bind_prog (save_mfa auth (mfa\<lparr>md_login_challenge := Some challenge\<rparr>) False)
                  (\<lambda>_. challenge_response token challenge))))"

datatype slot = Login_challenge | Manage_challenge

definition get_slot :: "slot \<Rightarrow> mfa_data \<Rightarrow> mfa_challenge option" where
  "get_slot s mfa = (case s of Login_challenge \<Rightarrow> md_login_challenge mfa | Manage_challenge \<Rightarrow> md_manage_challenge mfa)"

definition set_slot :: "slot \<Rightarrow> mfa_challenge option \<Rightarrow> mfa_data \<Rightarrow> mfa_data" where
  "set_slot s c mfa = (case s of Login_challenge \<Rightarrow> mfa\<lparr>md_login_challenge := c\<rparr>
                                | Manage_challenge \<Rightarrow> mfa\<lparr>md_manage_challenge := c\<rparr>)"

definition pick_slot :: "mfa_crypto \<Rightarrow> string \<Rightarrow> challenge_type set \<Rightarrow> mfa_data \<Rightarrow> slot" where
  "pick_slot cr token kinds mfa =
     (if Type_replace \<in> kinds
           \<and> (case md_manage_challenge mfa of None \<Rightarrow> False | Some c \<Rightarrow> ch_token_hash c = token_hash cr token)
      then Manage_challenge
      else if kinds = {Type_replace} then Manage_challenge else Login_challenge)"

text \<open>The challenge in a slot when it answers to the token: of a wanted type, not expired and of this session.\<close>

definition live_challenge ::
  "mfa_crypto \<Rightarrow> string \<Rightarrow> challenge_type set \<Rightarrow> int \<Rightarrow> auth_row \<Rightarrow> mfa_challenge option \<Rightarrow> mfa_challenge option" where
  "live_challenge cr token kinds now auth ch =
     (case ch of
        None \<Rightarrow> None
      | Some c \<Rightarrow>
          if ch_type c \<notin> kinds \<or> ch_expires_at c \<le> now \<or> ch_session_stamp c \<noteq> au_session_stamp auth
             \<or> ch_token_hash c \<noteq> token_hash cr token
          then None else Some c)"

type_synonym loaded = "mfa_user \<times> auth_row \<times> mfa_data \<times> mfa_challenge \<times> slot"

text \<open>
  One more attempt on a challenge: the count of the challenge, which is the object in its slot, and
  of the factor limit.
\<close>

definition charge_attempt :: "slot \<Rightarrow> mfa_challenge \<Rightarrow> int \<Rightarrow> mfa_data \<Rightarrow> mfa_data" where
  "charge_attempt s c now mfa =
     set_slot s (Some (c\<lparr>ch_attempts := ch_attempts c + 1\<rparr>)) (count_attempt mfa ''factor'' now)"

primrec load_challenge_loop ::
  "mfa_crypto \<Rightarrow> string \<Rightarrow> string \<Rightarrow> challenge_type set \<Rightarrow> bool \<Rightarrow> nat \<Rightarrow> auth_row \<Rightarrow> loaded prog" where
  "load_challenge_loop cr user_id token kinds attempt 0 auth =
     Raise (Http 409 ''Authentication is busy. Please try again.'' None)"
| "load_challenge_loop cr user_id token kinds attempt (Suc n) auth =
     (let mfa = mfa_copy auth; s = pick_slot cr token kinds mfa
      in Time (\<lambda>now. case live_challenge cr token kinds now auth (get_slot s mfa) of
           None \<Rightarrow> Raise (Http 401 ''This authentication step expired. Please start again.'' None)
         | Some challenge \<Rightarrow> Get_user_by_id user_id (\<lambda>user. case user of
             None \<Rightarrow> Raise (Http 403 ''Account is awaiting approval.'' None)
           | Some user \<Rightarrow>
               if us_role user \<noteq> ''admin'' \<and> us_role user \<noteq> ''user''
               then Raise (Http 403 ''Account is awaiting approval.'' None)
               else Get_mfa_config (\<lambda>config.
                 if \<not> ENABLE_MFA config then Raise (Http 403 ''MFA is disabled. Please sign in again.'' None)
                 else if \<not> attempt then Ret (user, auth, mfa, challenge, s)
                 else Time (\<lambda>now.
                   if ch_attempts challenge \<ge> 5
                   then Raise (Http 429 ''Too many codes. Please sign in again.''
                                 (Some (max 1 (ch_expires_at challenge - now))))
                   else let limit = current_limit mfa ''factor'' now
                        in if li_count limit \<ge> 10
                           then Raise (Http 429 ''Too many attempts. Please try again later.''
                                         (Some (li_expires_at limit - now)))
                           else catch_prog
                             (bind_prog (save_mfa auth (charge_attempt s challenge now mfa) False)
                               (\<lambda>updated. Ret (user, updated, mfa_copy updated,
                                               challenge\<lparr>ch_attempts := ch_attempts challenge + 1\<rparr>, s)))
                             (\<lambda>e. if is_conflict e
                                  then bind_prog (get_auth user_id)
                                         (\<lambda>auth. load_challenge_loop cr user_id token kinds attempt n auth)
                                  else Raise e))))))"

text \<open>\<open>token.partition('.')\<close>: the part before the first dot, when there is one.\<close>

definition token_user :: "string \<Rightarrow> string option" where
  "token_user token = (if CHR ''.'' \<in> set token then Some (takeWhile (\<lambda>c. c \<noteq> CHR ''.'') token) else None)"

definition load_challenge :: "mfa_crypto \<Rightarrow> string \<Rightarrow> challenge_type set \<Rightarrow> bool \<Rightarrow> loaded prog" where
  "load_challenge cr token kinds attempt =
     (case token_user token of
        None \<Rightarrow> Raise (Http 401 ''This authentication step expired. Please start again.'' None)
      | Some user_id \<Rightarrow>
          if length user_id > 64
          then Raise (Http 401 ''This authentication step expired. Please start again.'' None)
          else bind_prog (get_auth user_id)
                 (\<lambda>auth. load_challenge_loop cr user_id token kinds attempt 5 auth))"

subsection \<open>Enrollment and verification\<close>

text \<open>\<open>setup_details\<close> shows the secret and the address; its QR code is drawn by a package.\<close>

definition start_mfa_enrollment :: "mfa_crypto \<Rightarrow> string \<Rightarrow> (string \<times> string) prog" where
  "start_mfa_enrollment cr token =
     bind_prog (load_challenge cr token {Type_enroll, Type_replace} False) (\<lambda>(user, auth, mfa, challenge, s).
       if present (ch_secret challenge)
       then bind_prog (lift_result (decrypt_secret cr (the (ch_secret challenge)))) (\<lambda>secret. Ret (secret, us_email user))
       else Random (\<lambda>secret. Random (\<lambda>iv. case fernet_encrypt cr secret iv of
              None \<Rightarrow> Raise (Value_error ''A persistent WEBUI_SECRET_KEY is required for MFA.'')
            | Some envelope \<Rightarrow>
                bind_prog (save_mfa auth (set_slot s (Some (challenge\<lparr>ch_secret := Some envelope\<rparr>)) mfa) False)
                  (\<lambda>_. Ret (secret, us_email user)))))"

definition recovery_digest :: "mfa_crypto \<Rightarrow> string \<Rightarrow> string" where
  "recovery_digest cr code = token_hash cr (map ascii_lower (py_strip code))"

definition invalid_code :: mfa_error where
  "invalid_code = Http 401 ''Invalid or already used code.'' None"

text \<open>
  \<open>consume_factor\<close> mutates its argument; here it returns the changed value. The clock is read only
  where a step is matched.
\<close>

definition consume_factor :: "mfa_crypto \<Rightarrow> mfa_data \<Rightarrow> string \<Rightarrow> bool \<Rightarrow> mfa_data prog" where
  "consume_factor cr mfa code recovery =
     (if recovery
      then let digest = recovery_digest cr code
           in if digest \<in> set (md_recovery_hashes mfa)
              then Ret (mfa\<lparr>md_recovery_hashes := remove1 digest (md_recovery_hashes mfa)\<rparr>)
              else Raise invalid_code
      else if present (md_secret mfa)
      then bind_prog (lift_result (decrypt_secret cr (the (md_secret mfa)))) (\<lambda>secret.
             Time (\<lambda>now. case matching_step cr now secret (py_strip code) (md_last_step mfa) of
                 Some step \<Rightarrow> Ret (mfa\<lparr>md_last_step := step\<rparr>)
               | None \<Rightarrow> Raise invalid_code))
      else Raise invalid_code)"

text \<open>\<open>try: consume_factor(...) except HTTPException: record; raise\<close>.\<close>

definition consume_recorded :: "mfa_crypto \<Rightarrow> string \<Rightarrow> mfa_data \<Rightarrow> string \<Rightarrow> bool \<Rightarrow> mfa_data prog" where
  "consume_recorded cr user_id mfa code recovery =
     catch_prog (consume_factor cr mfa code recovery)
       (\<lambda>e. case e of Http _ _ _ \<Rightarrow> Emit ''auth.mfa.failed'' user_id (Raise e) | _ \<Rightarrow> Raise e)"

text \<open>The state an enrollment stores.\<close>

definition enrolled :: "string option \<Rightarrow> int \<Rightarrow> string list \<Rightarrow> mfa_data \<Rightarrow> mfa_data" where
  "enrolled secret step hashes mfa =
     (clear_challenges mfa)\<lparr>md_secret := secret, md_last_step := step, md_recovery_hashes := hashes,
                           md_reset_required := False\<rparr>"

text \<open>\<open>matching_step(decrypt_secret(challenge.secret), code.strip()) if challenge.secret else None\<close>.\<close>

definition enrollment_step :: "mfa_crypto \<Rightarrow> mfa_challenge \<Rightarrow> string \<Rightarrow> int option prog" where
  "enrollment_step cr challenge code =
     (if present (ch_secret challenge)
      then bind_prog (lift_result (decrypt_secret cr (the (ch_secret challenge)))) (\<lambda>secret.
             Time (\<lambda>now. Ret (matching_step cr now secret (py_strip code) (- 1))))
      else Ret None)"

definition store_enrollment ::
  "mfa_crypto \<Rightarrow> mfa_user \<Rightarrow> auth_row \<Rightarrow> mfa_data \<Rightarrow> mfa_challenge \<Rightarrow> int
     \<Rightarrow> (mfa_user \<times> auth_row \<times> mfa_challenge \<times> string list) prog" where
  "store_enrollment cr user auth mfa challenge step =
     bind_prog (recovery_codes cr) (\<lambda>(codes, hashes).
       bind_prog (save_mfa auth (enrolled (ch_secret challenge) step hashes mfa) True) (\<lambda>updated.
         Emit (if ch_type challenge = Type_replace then ''auth.mfa.replaced'' else ''auth.mfa.enrolled'')
           (us_id user) (Ret (user, updated, challenge, codes))))"

definition confirm_mfa_enrollment ::
  "mfa_crypto \<Rightarrow> string \<Rightarrow> string \<Rightarrow> (mfa_user \<times> auth_row \<times> mfa_challenge \<times> string list) prog" where
  "confirm_mfa_enrollment cr token code =
     bind_prog (load_challenge cr token {Type_enroll, Type_replace} True) (\<lambda>(user, auth, mfa, challenge, _).
       bind_prog (enrollment_step cr challenge code) (\<lambda>matched. case matched of
            None \<Rightarrow> Emit ''auth.mfa.failed'' (us_id user)
                      (Raise (Http 401 ''Invalid code. Check your authenticator and try again.'' None))
          | Some step \<Rightarrow> store_enrollment cr user auth mfa challenge step))"

definition verify_mfa_challenge ::
  "mfa_crypto \<Rightarrow> string \<Rightarrow> string \<Rightarrow> bool \<Rightarrow> (mfa_user \<times> auth_row \<times> mfa_challenge) prog" where
  "verify_mfa_challenge cr token code recovery =
     bind_prog (load_challenge cr token {Type_verify} True) (\<lambda>(user, auth, mfa, challenge, _).
       bind_prog (consume_recorded cr (us_id user) mfa code recovery) (\<lambda>mfa.
         bind_prog (save_mfa auth (mfa\<lparr>md_login_challenge := None\<rparr>) False) (\<lambda>updated.
           if recovery then Emit ''auth.mfa.recovery_used'' (us_id user) (Ret (user, updated, challenge))
           else Ret (user, updated, challenge))))"

subsection \<open>Management, reset and revocation\<close>

text \<open>The claims of a session token: absent keys are \<^const>\<open>None\<close>.\<close>

record claims =
  cl_id :: string
  cl_typ :: "string option"
  cl_auth_method :: "string option"
  cl_auth_time :: "int option"
  cl_session_stamp :: "string option"
  cl_mfa_verified :: bool
  cl_jti :: "string option"
  cl_iat :: "int option"
  cl_exp :: "int option"

datatype manage_reply = Manage_challenge_reply challenge_reply | Recovery_codes "string list"

text \<open>The two endings of \<open>manage_mfa\<close>: a challenge for a new authenticator, or new recovery codes.\<close>

definition issue_replacement ::
  "mfa_crypto \<Rightarrow> string \<Rightarrow> claims \<Rightarrow> bool \<Rightarrow> auth_row \<Rightarrow> mfa_data \<Rightarrow> manage_reply prog" where
  "issue_replacement cr user_id cl recovery auth mfa =
     (case (cl_auth_method cl, cl_auth_time cl) of
        (Some auth_method, Some auth_time) \<Rightarrow>
          bind_prog (new_challenge cr auth Type_replace auth_method auth_time None None) (\<lambda>(token, challenge).
            bind_prog (save_mfa auth (mfa\<lparr>md_manage_challenge := Some challenge\<rparr>) False) (\<lambda>_.
              let answer = bind_prog (challenge_response token challenge) (\<lambda>c. Ret (Manage_challenge_reply c))
              in if recovery then Emit ''auth.mfa.recovery_used'' user_id answer else answer))
      | _ \<Rightarrow> Raise Key_error)"

definition regenerate_codes :: "mfa_crypto \<Rightarrow> string \<Rightarrow> auth_row \<Rightarrow> mfa_data \<Rightarrow> manage_reply prog" where
  "regenerate_codes cr user_id auth mfa =
     bind_prog (recovery_codes cr) (\<lambda>(codes, hashes).
       bind_prog (save_mfa auth ((clear_challenges mfa)\<lparr>md_recovery_hashes := hashes\<rparr>) True) (\<lambda>_.
         Emit ''auth.mfa.recovery_codes_regenerated'' user_id (Ret (Recovery_codes codes))))"

definition manage_mfa :: "mfa_crypto \<Rightarrow> string \<Rightarrow> claims \<Rightarrow> string \<Rightarrow> bool \<Rightarrow> bool \<Rightarrow> manage_reply prog" where
  "manage_mfa cr user_id cl code recovery replace = Time (\<lambda>now.
     if now - (case cl_auth_time cl of Some t \<Rightarrow> t | None \<Rightarrow> 0) > CHALLENGE_SECONDS
     then Raise (Http 403 ''reauthentication_required'' None)
     else Get_mfa_config (\<lambda>config.
       if \<not> ENABLE_MFA config then Raise (Http 403 ''MFA is disabled.'' None)
       else bind_prog (limit_account user_id ''factor'' (Some (cl_session_stamp cl))) (\<lambda>auth.
         bind_prog (consume_recorded cr user_id (mfa_copy auth) code recovery) (\<lambda>mfa.
           if replace then issue_replacement cr user_id cl recovery auth mfa
           else regenerate_codes cr user_id auth mfa))))"

definition redeem_mfa_reset_token :: "mfa_crypto \<Rightarrow> string \<Rightarrow> string \<Rightarrow> challenge_reply prog" where
  "redeem_mfa_reset_token cr token reset_token =
     bind_prog (load_challenge cr token {Type_recover} True) (\<lambda>(user, auth, mfa, challenge, _).
       Time (\<lambda>now.
         if \<not> md_reset_required mfa
            \<or> (case md_reset_ticket mfa of None \<Rightarrow> True
               | Some ticket \<Rightarrow> ti_expires_at ticket \<le> now \<or> ti_token_hash ticket \<noteq> token_hash cr reset_token)
         then Raise (Http 401 ''Invalid or expired operator recovery token.'' None)
         else bind_prog (new_challenge cr auth Type_enroll (ch_auth_method challenge) (ch_auth_time challenge)
                          (ch_oauth_session_id challenge) (ch_provider challenge)) (\<lambda>(new_token, enroll).
                bind_prog (save_mfa auth (mfa\<lparr>md_reset_ticket := None, md_login_challenge := Some enroll\<rparr>) False)
                  (\<lambda>_. challenge_response new_token enroll))))"

definition reset_state :: "mfa_reset_ticket \<Rightarrow> mfa_data \<Rightarrow> mfa_data" where
  "reset_state ticket mfa =
     mfa\<lparr>md_secret := None, md_last_step := - 1, md_recovery_hashes := [], md_login_challenge := None,
         md_manage_challenge := None, md_reset_required := True, md_reset_ticket := Some ticket\<rparr>"

definition reset_mfa :: "mfa_crypto \<Rightarrow> string \<Rightarrow> string \<Rightarrow> string prog" where
  "reset_mfa cr email reason =
     Get_user_by_email (map ascii_lower (py_strip email)) (\<lambda>user. case user of
         None \<Rightarrow> Raise (Value_error ''User not found.'')
       | Some user \<Rightarrow>
           if py_strip reason = [] then Raise (Value_error ''A nonempty reason is required.'')
           else Emit ''auth.mfa.reset_requested'' (us_id user)
             (bind_prog (get_auth (us_id user)) (\<lambda>auth.
               Random (\<lambda>ticket. Time (\<lambda>now.
                 bind_prog (save_mfa auth (reset_state \<lparr>ti_token_hash = token_hash cr ticket, ti_expires_at = now + 1800\<rparr>
                              (mfa_copy auth)) True)
                   (\<lambda>_. Emit ''auth.mfa.reset_completed'' (us_id user) (Ret ticket)))))))"

text \<open>\<open>AuthsTable.revoke_sessions_by_user_id\<close> and \<open>update_user_password_by_id\<close>.\<close>

definition stale_row :: mfa_error where
  "stale_row = Value_error ''Authentication changed in another request. Please try again.''"

definition database_error :: mfa_error where
  "database_error = Http 500 ''Internal Server Error'' None"

definition revoke_sessions_by_user_id :: "string \<Rightarrow> bool prog" where
  "revoke_sessions_by_user_id user_id = Get_auth_by_id user_id (\<lambda>r. case r of
       Fault \<Rightarrow> Raise database_error
     | Reply None \<Rightarrow> Ret False
     | Reply (Some auth) \<Rightarrow> Clear_sessions auth (\<lambda>r. case r of
           Fault \<Rightarrow> Raise database_error
         | Reply swapped_one \<Rightarrow> if swapped_one then Ret True else Raise stale_row))"

definition update_user_password_by_id :: "string \<Rightarrow> string \<Rightarrow> auth_row option \<Rightarrow> bool prog" where
  "update_user_password_by_id user_id new_password current_auth =
     (let change = (\<lambda>auth. Change_password user_id auth (clear_challenges (mfa_copy auth)) new_password (\<lambda>r. case r of
                      Fault \<Rightarrow> Raise database_error
                    | Reply done_one \<Rightarrow> if done_one then Ret True else Raise stale_row))
      in case current_auth of
           Some auth \<Rightarrow> change auth
         | None \<Rightarrow> Get_auth_by_id user_id (\<lambda>r. case r of
             Fault \<Rightarrow> Raise database_error
           | Reply None \<Rightarrow> Ret False
           | Reply (Some auth) \<Rightarrow> change auth))"

end
