(* ===== verification/Mfa_Spec.thy ===== *)
theory Mfa_Spec
  imports Mfa
begin

text \<open>
  What the authenticator promises, as atomic actions on the state of one account: an action either
  has its guard and changes the state or is impossible. The handlers of \<^verbatim>\<open>utils/mfa.py\<close> are shown
  elsewhere to implement runs of these actions under every interleaving; here runs of actions are
  shown to spend every recovery code, every password step and every attempt at most as often as they
  were issued. The argument is the same each time, so it is made once, in a locale: a potential that
  pays for the cost of an action.
\<close>

subsection \<open>Actions\<close>

text \<open>A second factor: the step of a one-time password under a stored secret, or a recovery digest.\<close>

datatype factor = Step string int | Recovery string

datatype action =
    Charge string int
  | Attempt slot string int
  | Begin mfa_challenge
  | Prepare slot string
  | Enroll slot string int "string list"
  | Pass factor
  | Replace factor mfa_challenge
  | Regenerate factor "string list"
  | Redeem mfa_challenge
  | Reset mfa_reset_ticket
  | Clear
  | Delete

fun spend :: "factor \<Rightarrow> mfa_data \<Rightarrow> mfa_data option" where
  "spend (Step envelope step) m =
     (if md_secret m = Some envelope \<and> step > md_last_step m then Some (m\<lparr>md_last_step := step\<rparr>) else None)"
| "spend (Recovery digest) m =
     (if digest \<in> set (md_recovery_hashes m)
      then Some (m\<lparr>md_recovery_hashes := remove1 digest (md_recovery_hashes m)\<rparr>) else None)"

text \<open>A challenge as it is issued.\<close>

definition unused :: "mfa_challenge \<Rightarrow> bool" where
  "unused c \<longleftrightarrow> ch_attempts c = 0 \<and> ch_secret c = None"

fun perform :: "action \<Rightarrow> mfa_data \<Rightarrow> mfa_data option" where
  "perform (Charge kind now) m =
     (if li_count (current_limit m kind now) < 10 then Some (count_attempt m kind now) else None)"
| "perform (Attempt s digest now) m =
     (case get_slot s m of
        None \<Rightarrow> None
      | Some c \<Rightarrow>
          if ch_token_hash c = digest \<and> ch_attempts c < 5 \<and> li_count (current_limit m ''factor'' now) < 10
          then Some (charge_attempt s c now m) else None)"
| "perform (Begin c) m = (if unused c then Some (m\<lparr>md_login_challenge := Some c\<rparr>) else None)"
| "perform (Prepare s envelope) m =
     (case get_slot s m of
        None \<Rightarrow> None
      | Some c \<Rightarrow> if present (ch_secret c) then None
                  else Some (set_slot s (Some (c\<lparr>ch_secret := Some envelope\<rparr>)) m))"
| "perform (Enroll s envelope step hashes) m =
     (case get_slot s m of
        None \<Rightarrow> None
      | Some c \<Rightarrow> if ch_secret c = Some envelope then Some (enrolled (Some envelope) step hashes m) else None)"
| "perform (Pass f) m = map_option (\<lambda>m. m\<lparr>md_login_challenge := None\<rparr>) (spend f m)"
| "perform (Replace f c) m =
     (if unused c then map_option (\<lambda>m. m\<lparr>md_manage_challenge := Some c\<rparr>) (spend f m) else None)"
| "perform (Regenerate f hashes) m =
     map_option (\<lambda>m. (clear_challenges m)\<lparr>md_recovery_hashes := hashes\<rparr>) (spend f m)"
| "perform (Redeem c) m =
     (if unused c \<and> md_reset_required m \<and> md_reset_ticket m \<noteq> None
      then Some (m\<lparr>md_reset_ticket := None, md_login_challenge := Some c\<rparr>) else None)"
| "perform (Reset ticket) m = Some (reset_state ticket m)"
| "perform Clear m = Some (clear_challenges m)"
| "perform Delete m = Some (new_mfa_data [])"

text \<open>The accounts, each in its initial state, and the effect of a sequence of actions on them.\<close>

type_synonym accounts = "string \<Rightarrow> mfa_data"

definition no_accounts :: accounts where
  "no_accounts = (\<lambda>_. new_mfa_data [])"

type_synonym deed = "string \<times> action"

definition perform_at :: "deed \<Rightarrow> accounts \<Rightarrow> accounts option" where
  "perform_at d A = (case perform (snd d) (A (fst d)) of None \<Rightarrow> None | Some m \<Rightarrow> Some (A(fst d := m)))"

primrec replay :: "deed list \<Rightarrow> accounts \<Rightarrow> accounts option" where
  "replay [] A = Some A"
| "replay (d # ds) A = Option.bind (perform_at d A) (replay ds)"

lemma replay_append: "replay (ds @ es) A = Option.bind (replay ds A) (replay es)"
  by (induction ds arbitrary: A) (simp_all split: Option.bind_split)

lemma perform_at_Some:
  "perform_at (u, a) A = Some A' \<longleftrightarrow> (\<exists>m. perform a (A u) = Some m \<and> A' = A(u := m))"
  by (auto simp: perform_at_def split: option.splits)

subsection \<open>Paying for actions\<close>

text \<open>The sum of a number over the actions on one account.\<close>

definition tally :: "(action \<Rightarrow> nat) \<Rightarrow> string \<Rightarrow> deed list \<Rightarrow> nat" where
  "tally f u ds = (\<Sum>d\<leftarrow>ds. if fst d = u then f (snd d) else 0)"

lemma tally_simps [simp]:
  "tally f u [] = 0"
  "tally f u (d # ds) = (if fst d = u then f (snd d) else 0) + tally f u ds"
  "tally f u (ds @ es) = tally f u ds + tally f u es"
  by (simp_all add: tally_def)

locale accounting =
  fixes potential :: "mfa_data \<Rightarrow> nat" and cost gain :: "action \<Rightarrow> nat"
  assumes start: "potential (new_mfa_data []) = 0"
    and pays: "perform a m = Some m' \<Longrightarrow> potential m' + cost a \<le> potential m + gain a"
begin

lemma replay_pays:
  "replay ds A = Some B \<Longrightarrow> potential (B u) + tally cost u ds \<le> potential (A u) + tally gain u ds"
proof (induction ds arbitrary: A)
  case (Cons d ds)
  obtain v a where d: "d = (v, a)" by (cases d)
  from Cons.prems obtain m where m: "perform a (A v) = Some m" and rest: "replay ds (A(v := m)) = Some B"
    by (auto simp: d bind_eq_Some_conv perform_at_Some)
  from Cons.IH [OF rest] pays [OF m] show ?case by (auto simp: d)
qed simp

theorem cost_bounded: "replay ds no_accounts = Some B \<Longrightarrow> tally cost u ds \<le> tally gain u ds"
  using replay_pays [of ds no_accounts B u] by (simp add: no_accounts_def start)

end

subsection \<open>Recovery codes\<close>

fun factor_of :: "action \<Rightarrow> factor option" where
  "factor_of (Pass f) = Some f"
| "factor_of (Replace f c) = Some f"
| "factor_of (Regenerate f hashes) = Some f"
| "factor_of _ = None"

definition accepts :: "factor \<Rightarrow> action \<Rightarrow> nat" where
  "accepts f a = (if factor_of a = Some f then 1 else 0)"

fun codes_of :: "action \<Rightarrow> string list" where
  "codes_of (Enroll s envelope step hashes) = hashes"
| "codes_of (Regenerate f hashes) = hashes"
| "codes_of _ = []"

definition issues_code :: "string \<Rightarrow> action \<Rightarrow> nat" where
  "issues_code digest a = count_list (codes_of a) digest"

lemmas state_simps = get_slot_def set_slot_def charge_attempt_def count_attempt_def clear_challenges_def
  enrolled_def reset_state_def new_mfa_data_def Let_def

lemma count_list_remove1: "count_list (remove1 y xs) x = count_list xs x - (if x = y then 1 else 0)"
  by (induction xs) auto

lemma spend_hashes:
  "spend f m = Some m' \<Longrightarrow>
     count_list (md_recovery_hashes m') digest + (if f = Recovery digest then 1 else 0)
       = count_list (md_recovery_hashes m) digest"
proof (cases f)
  case (Recovery d)
  assume "spend f m = Some m'"
  then have d: "d \<in> set (md_recovery_hashes m)" "m' = m\<lparr>md_recovery_hashes := remove1 d (md_recovery_hashes m)\<rparr>"
    by (auto simp: Recovery split: if_splits)
  from d(1) have "count_list (md_recovery_hashes m) d \<noteq> 0" by (simp add: count_list_0_iff)
  then show ?thesis by (auto simp: Recovery d(2) count_list_remove1)
qed (auto split: if_splits)

lemma slot_update_hashes [simp]: "md_recovery_hashes (set_slot s c m) = md_recovery_hashes m"
  by (cases s) (simp_all add: set_slot_def)

lemma hashes_pay:
  "perform a m = Some m' \<Longrightarrow>
     count_list (md_recovery_hashes m') digest + accepts (Recovery digest) a
       \<le> count_list (md_recovery_hashes m) digest + issues_code digest a"
  by (cases a)
     (auto simp: accepts_def issues_code_def charge_attempt_def count_attempt_def Let_def clear_challenges_def
        enrolled_def reset_state_def new_mfa_data_def dest!: spend_hashes [of _ _ _ digest] split: option.splits if_splits)

interpretation recovery: accounting "\<lambda>m. count_list (md_recovery_hashes m) digest" "accepts (Recovery digest)" "issues_code digest" for digest
  by unfold_locales (simp_all add: new_mfa_data_def hashes_pay)

subsection \<open>Password steps\<close>

definition installs :: "string \<Rightarrow> action \<Rightarrow> nat" where
  "installs envelope a = (case a of Enroll _ e _ _ \<Rightarrow> if e = envelope then 1 else 0 | _ \<Rightarrow> 0)"

definition prepares :: "string \<Rightarrow> action \<Rightarrow> nat" where
  "prepares envelope a = (case a of Prepare _ e \<Rightarrow> if e = envelope then 1 else 0 | _ \<Rightarrow> 0)"

definition step_left :: "string \<Rightarrow> int \<Rightarrow> mfa_data \<Rightarrow> nat" where
  "step_left envelope step m = (if md_secret m = Some envelope \<and> md_last_step m < step then 1 else 0)"

lemma step_left_keeps [simp]:
  "step_left e n (set_slot s c m) = step_left e n m"
  "step_left e n (m\<lparr>md_login_challenge := c\<rparr>) = step_left e n m"
  "step_left e n (m\<lparr>md_manage_challenge := c\<rparr>) = step_left e n m"
  "step_left e n (m\<lparr>md_reset_ticket := t\<rparr>) = step_left e n m"
  "step_left e n (m\<lparr>md_limits := l\<rparr>) = step_left e n m"
  "step_left e n (m\<lparr>md_recovery_hashes := hs\<rparr>) = step_left e n m"
  "step_left e n (clear_challenges m) = step_left e n m"
  by (cases s) (simp_all add: step_left_def set_slot_def clear_challenges_def)

lemma spend_step_left:
  "spend f m = Some m' \<Longrightarrow> step_left e n m' + (if f = Step e n then 1 else 0) \<le> step_left e n m"
  by (cases f) (auto simp: step_left_def split: if_splits)

lemma steps_pay:
  assumes "perform a m = Some m'"
  shows "step_left e n m' + accepts (Step e n) a \<le> step_left e n m + installs e a"
proof (cases a)
  case (Attempt s d now)
  with assms show ?thesis
    by (auto simp: accepts_def installs_def charge_attempt_def count_attempt_def Let_def split: option.splits if_splits)
next
  case (Enroll s envelope step hashes)
  with assms have "m' = enrolled (Some envelope) step hashes m" by (auto split: option.splits if_splits)
  then show ?thesis by (simp add: Enroll step_left_def enrolled_def accepts_def installs_def)
next
  case (Reset t)
  with assms show ?thesis by (auto simp: step_left_def reset_state_def accepts_def installs_def)
next
  case Delete
  with assms show ?thesis by (auto simp: step_left_def new_mfa_data_def accepts_def installs_def)
qed (use assms in \<open>auto simp: accepts_def installs_def count_attempt_def Let_def
       dest!: spend_step_left [of _ _ _ e n] split: option.splits if_splits\<close>)

lemma step_left_new [simp]: "step_left e n (new_mfa_data r) = 0"
  by (simp add: step_left_def new_mfa_data_def)

interpretation steps: accounting "step_left e n" "accepts (Step e n)" "installs e" for e n
  by unfold_locales (simp_all add: steps_pay)

text \<open>A prepared secret is installed at most once: an enrollment clears both challenges.\<close>

definition in_slot :: "(mfa_challenge \<Rightarrow> nat) \<Rightarrow> slot \<Rightarrow> mfa_data \<Rightarrow> nat" where
  "in_slot f s m = (case get_slot s m of None \<Rightarrow> 0 | Some c \<Rightarrow> f c)"

definition in_slots :: "(mfa_challenge \<Rightarrow> nat) \<Rightarrow> mfa_data \<Rightarrow> nat" where
  "in_slots f m = in_slot f Login_challenge m + in_slot f Manage_challenge m"

definition holds_envelope :: "string \<Rightarrow> mfa_challenge \<Rightarrow> nat" where
  "holds_envelope envelope c = (if ch_secret c = Some envelope then 1 else 0)"

definition other_slot :: "slot \<Rightarrow> slot" where
  "other_slot s = (case s of Login_challenge \<Rightarrow> Manage_challenge | Manage_challenge \<Rightarrow> Login_challenge)"

lemma in_slots_split: "in_slots f m = in_slot f s m + in_slot f (other_slot s) m"
  by (cases s) (simp_all add: in_slots_def other_slot_def)

lemma in_slots_set_slot:
  "in_slots f (set_slot s c m) = (case c of None \<Rightarrow> 0 | Some c \<Rightarrow> f c) + in_slot f (other_slot s) m"
  by (cases s) (simp_all add: in_slots_def in_slot_def other_slot_def set_slot_def get_slot_def)

lemma in_slots_login: "in_slots f (m\<lparr>md_login_challenge := c\<rparr>) = in_slots f (set_slot Login_challenge c m)"
  and in_slots_manage: "in_slots f (m\<lparr>md_manage_challenge := c\<rparr>) = in_slots f (set_slot Manage_challenge c m)"
  by (simp_all add: set_slot_def)

lemma in_slots_keeps [simp]:
  "in_slot f s (m\<lparr>md_limits := l\<rparr>) = in_slot f s m"
  "in_slots f (m\<lparr>md_limits := l\<rparr>) = in_slots f m"
  "in_slots f (m\<lparr>md_last_step := n\<rparr>) = in_slots f m"
  "in_slots f (m\<lparr>md_recovery_hashes := hs\<rparr>) = in_slots f m"
  "in_slots f (m\<lparr>md_reset_ticket := t\<rparr>) = in_slots f m"
  "in_slots f (clear_challenges m) = 0"
  "in_slots f (enrolled e n hs m) = 0"
  "in_slots f (reset_state ticket m) = 0"
  "in_slots f (new_mfa_data r) = 0"
  by (cases s) (simp_all add: in_slots_def in_slot_def get_slot_def clear_challenges_def enrolled_def reset_state_def
      new_mfa_data_def split: slot.split)

lemma spend_in_slots: "spend f m = Some m' \<Longrightarrow> in_slots g m' = in_slots g m"
  by (cases f) (auto split: if_splits)

text \<open>What an action puts into a slot, and takes out of it.\<close>

fun challenge_of :: "action \<Rightarrow> mfa_challenge option" where
  "challenge_of (Begin c) = Some c"
| "challenge_of (Replace f c) = Some c"
| "challenge_of (Redeem c) = Some c"
| "challenge_of _ = None"

text \<open>An action that issues a challenge fills a slot with it; what the other slot holds stays.\<close>

lemma issue_in_slots:
  assumes "perform a m = Some m'" and "challenge_of a = Some c"
  shows "in_slots f m' \<le> in_slots f m + f c" and "unused c"
proof -
  have le: "in_slots f (set_slot s (Some c) m) \<le> in_slots f m + f c" for s and m :: mfa_data
    unfolding in_slots_set_slot in_slots_split [of f m s] by simp
  show "in_slots f m' \<le> in_slots f m + f c"
  proof (cases a)
    case (Replace g c')
    with assms obtain z where z: "spend g m = Some z" "m' = z\<lparr>md_manage_challenge := Some c\<rparr>" by (auto split: if_splits)
    show ?thesis unfolding z(2) in_slots_manage using le [of Manage_challenge z] by (simp add: spend_in_slots [OF z(1)])
  next
    case (Redeem c')
    with assms have "m' = m\<lparr>md_reset_ticket := None, md_login_challenge := Some c\<rparr>" by (auto split: if_splits)
    then show ?thesis using le [of Login_challenge "m\<lparr>md_reset_ticket := None\<rparr>"] by (simp add: in_slots_login)
  qed (use assms le [of Login_challenge m] in \<open>auto simp: in_slots_login split: if_splits\<close>)
  show "unused c" using assms by (cases a) (auto split: if_splits)
qed

lemma hold_pays:
  assumes "perform a m = Some m'"
  shows "in_slots (holds_envelope e) m' + installs e a \<le> in_slots (holds_envelope e) m + prepares e a"
proof (cases "challenge_of a")
  case (Some c)
  from issue_in_slots(1) [OF assms Some, of "holds_envelope e"] issue_in_slots(2) [OF assms Some] have "in_slots (holds_envelope e) m' \<le> in_slots (holds_envelope e) m"
    by (simp add: holds_envelope_def unused_def)
  with Some show ?thesis by (cases a) (simp_all add: installs_def)
next
  case None
  show ?thesis
  proof (cases a)
    case (Attempt s d now)
    with assms obtain c where "get_slot s m = Some c" "m' = charge_attempt s c now m" by (auto split: option.splits if_splits)
    then show ?thesis
      by (simp add: Attempt installs_def charge_attempt_def in_slots_set_slot in_slots_split [of _ m s] in_slot_def [of _ s]
          holds_envelope_def [of _ "c\<lparr>ch_attempts := _\<rparr>"] holds_envelope_def [of _ c] count_attempt_def Let_def)
  next
    case (Prepare s x)
    with assms obtain c where "m' = set_slot s (Some (c\<lparr>ch_secret := Some x\<rparr>)) m" by (auto split: option.splits if_splits)
    then show ?thesis
      by (simp add: Prepare installs_def prepares_def in_slots_set_slot in_slots_split [of _ m s] holds_envelope_def [of _ "c\<lparr>ch_secret := _\<rparr>"])
  next
    case (Enroll s x n hs)
    with assms obtain c where "get_slot s m = Some c" "ch_secret c = Some x" "m' = enrolled (Some x) n hs m"
      by (auto split: option.splits if_splits)
    then show ?thesis by (simp add: Enroll installs_def in_slots_split [of _ m s] in_slot_def [of _ s] holds_envelope_def [of _ c])
  next
    case (Pass f)
    with assms obtain z where z: "spend f m = Some z" "m' = z\<lparr>md_login_challenge := None\<rparr>" by auto
    show ?thesis unfolding z(2) in_slots_login
      by (simp add: Pass installs_def in_slots_set_slot spend_in_slots [OF z(1), symmetric] in_slots_split [of _ z Login_challenge])
  qed (use assms None in \<open>auto simp: installs_def count_attempt_def Let_def split: if_splits\<close>)
qed

interpretation envelopes: accounting "in_slots (holds_envelope e)" "installs e" "prepares e" for e
  by unfold_locales (simp_all add: hold_pays)

subsection \<open>Attempts\<close>

definition attempts_left :: "string \<Rightarrow> mfa_challenge \<Rightarrow> nat" where
  "attempts_left digest c = (if ch_token_hash c = digest then nat (5 - ch_attempts c) else 0)"

definition tries :: "string \<Rightarrow> action \<Rightarrow> nat" where
  "tries digest a = (case a of Attempt _ d _ \<Rightarrow> if d = digest then 1 else 0 | _ \<Rightarrow> 0)"

definition allows :: "string \<Rightarrow> action \<Rightarrow> nat" where
  "allows digest a = (case challenge_of a of Some c \<Rightarrow> if ch_token_hash c = digest then 5 else 0 | None \<Rightarrow> 0)"

lemma attempts_pay:
  assumes "perform a m = Some m'"
  shows "in_slots (attempts_left d) m' + tries d a \<le> in_slots (attempts_left d) m + allows d a"
proof (cases "challenge_of a")
  case (Some c)
  from issue_in_slots(1) [OF assms Some, of "attempts_left d"] issue_in_slots(2) [OF assms Some] have "in_slots (attempts_left d) m' \<le> in_slots (attempts_left d) m + allows d a"
    by (auto simp: attempts_left_def [of d c] unused_def allows_def Some)
  with Some show ?thesis by (cases a) (simp_all add: tries_def)
next
  case None
  show ?thesis
  proof (cases a)
    case (Attempt s x now)
    with assms obtain c where c: "get_slot s m = Some c" "m' = charge_attempt s c now m" "ch_token_hash c = x" "ch_attempts c < 5"
      by (auto split: option.splits if_splits)
    have "attempts_left d (c\<lparr>ch_attempts := ch_attempts c + 1\<rparr>) + tries d a = attempts_left d c"
      using c(3,4) by (simp add: attempts_left_def tries_def Attempt Suc_nat_eq_nat_zadd1)
    with c(1,2) show ?thesis
      by (simp add: charge_attempt_def in_slots_set_slot in_slots_split [of _ m s] in_slot_def [of _ s] count_attempt_def Let_def)
  next
    case (Prepare s x)
    with assms obtain c where c: "get_slot s m = Some c" "m' = set_slot s (Some (c\<lparr>ch_secret := Some x\<rparr>)) m" by (auto split: option.splits if_splits)
    have "attempts_left d (c\<lparr>ch_secret := Some x\<rparr>) = attempts_left d c" by (simp add: attempts_left_def)
    with c show ?thesis
      by (simp add: Prepare tries_def in_slots_set_slot in_slots_split [of _ m s] in_slot_def [of _ s])
  next
    case (Enroll s x n hs)
    with assms have "m' = enrolled (Some x) n hs m" by (auto split: option.splits if_splits)
    then show ?thesis by (simp add: Enroll tries_def)
  next
    case (Pass f)
    with assms obtain z where z: "spend f m = Some z" "m' = z\<lparr>md_login_challenge := None\<rparr>" by auto
    show ?thesis unfolding z(2) in_slots_login
      by (simp add: Pass tries_def in_slots_set_slot spend_in_slots [OF z(1), symmetric] in_slots_split [of _ z Login_challenge])
  qed (use assms None in \<open>auto simp: tries_def count_attempt_def Let_def split: if_splits\<close>)
qed

interpretation attempts: accounting "in_slots (attempts_left d)" "tries d" "allows d" for d
  by unfold_locales (simp_all add: attempts_pay)

end
