(* ===== verification/Signin.thy ===== *)
theory Signin
  imports Mfa Py_Numbers
begin

text \<open>
  Sign-in and sessions: \<open>authenticate_user\<close> of \<^verbatim>\<open>models/auths.py\<close>, the session functions of
  \<^verbatim>\<open>utils/auth.py\<close>, the password branch of \<open>signin\<close> and \<open>update_password\<close> in \<^verbatim>\<open>routers/auths.py\<close>, and
  the endpoints of \<^verbatim>\<open>routers/mfa.py\<close> that end a login, as programs over the calls of the theory of
  authenticators. A session token stands for the claims its signature protects; the comparison of a
  password with its stored hash, the new hash and the answers of Redis are arguments. Cookies, the
  credit account and the permissions a response shows are not part of it.
\<close>

subsection \<open>Passwords\<close>

text \<open>\<open>matches\<close> is \<open>verify_password\<close> of the given password on a stored hash.\<close>

definition authenticate_user :: "(string \<Rightarrow> bool) \<Rightarrow> string \<Rightarrow> (mfa_user \<times> auth_row) option prog" where
  "authenticate_user matches email = Get_user_by_email email (\<lambda>resolved. case resolved of
       None \<Rightarrow> Ret None
     | Some user \<Rightarrow> Get_auth_by_id (us_id user) (\<lambda>r. case r of
         Fault \<Rightarrow> Raise database_error
       | Reply None \<Rightarrow> Ret None
       | Reply (Some credential) \<Rightarrow>
           if \<not> au_active credential then Ret None
           else if \<not> matches (au_password credential) then Ret None
           else Ret (Some (user, credential))))"

text \<open>
  \<open>rejected\<close> is the message with which \<open>validate_password\<close> refuses the new password, and \<open>hashed\<close>
  its hash.
\<close>

definition update_password :: "(string \<Rightarrow> bool) \<Rightarrow> string \<Rightarrow> string option \<Rightarrow> string \<Rightarrow> bool prog" where
  "update_password matches email rejected hashed =
     bind_prog (authenticate_user matches email) (\<lambda>authenticated. case authenticated of
         None \<Rightarrow> Raise (Http 400 ''The password provided is incorrect. Please check for typos and try again.'' None)
       | Some (user, auth) \<Rightarrow> (case rejected of
           Some detail \<Rightarrow> Raise (Http 400 detail None)
         | None \<Rightarrow>
             bind_prog (catch_prog (update_user_password_by_id (us_id user) hashed (Some auth))
                          (\<lambda>e. case e of Value_error _ \<Rightarrow> Raise (Http 409 ''Authentication changed. Please sign in again.'' None)
                                       | _ \<Rightarrow> Raise e))
               (\<lambda>success. if success then Emit ''auth.password_changed'' (us_id user) (Ret success) else Ret success)))"

subsection \<open>Session tokens\<close>

text \<open>\<open>now + expires_delta if expires_delta else None\<close>.\<close>

definition with_expiry :: "int option \<Rightarrow> (int option \<Rightarrow> 'a prog) \<Rightarrow> 'a prog" where
  "with_expiry expires_delta k =
     (case expires_delta of
        Some d \<Rightarrow> if d \<noteq> 0 then Time (\<lambda>now. k (Some (now + d))) else k None
      | None \<Rightarrow> k None)"

definition create_token :: "claims \<Rightarrow> int option \<Rightarrow> claims prog" where
  "create_token data expires_delta =
     with_expiry expires_delta (\<lambda>expire. Random (\<lambda>jti. Time (\<lambda>iat.
       Ret (data\<lparr>cl_exp := expire, cl_jti := Some jti, cl_iat := Some iat\<rparr>))))"

record session =
  se_token :: claims
  se_expires_at :: "int option"
  se_user :: mfa_user

definition session_claims :: "mfa_user \<Rightarrow> string \<Rightarrow> int \<Rightarrow> auth_row \<Rightarrow> bool \<Rightarrow> claims" where
  "session_claims user source auth_time auth mfa_verified =
     \<lparr>cl_id = us_id user, cl_typ = Some ''session'', cl_auth_method = Some source, cl_auth_time = Some auth_time,
      cl_session_stamp = au_session_stamp auth, cl_mfa_verified = mfa_verified,
      cl_jti = None, cl_iat = None, cl_exp = None\<rparr>"

definition create_session_response ::
  "int option \<Rightarrow> mfa_user \<Rightarrow> string \<Rightarrow> auth_row \<Rightarrow> bool \<Rightarrow> int option \<Rightarrow> session prog" where
  "create_session_response expires_delta user source auth mfa_verified auth_time =
     bind_prog (get_auth (us_id user)) (\<lambda>current.
       if au_session_stamp current \<noteq> au_session_stamp auth
       then Raise (Http 409 ''Authentication changed. Please sign in again.'' None)
       else Get_mfa_config (\<lambda>config.
         if is_mfa_required source config \<and> \<not> mfa_verified
         then Raise (Http 401 ''Authenticator verification is required.'' None)
         else with_expiry expires_delta (\<lambda>expires_at. Time (\<lambda>now.
           let auth_time = (case auth_time of Some t \<Rightarrow> if t \<noteq> 0 then t else now | None \<Rightarrow> now)
           in bind_prog (create_token (session_claims user source auth_time auth mfa_verified) expires_delta) (\<lambda>token.
                Emit ''auth.login'' (us_id user)
                  (Ret \<lparr>se_token = token, se_expires_at = expires_at, se_user = user\<rparr>))))))"

datatype signin_result = Session session | Challenge challenge_reply | Pending

definition create_signin_response ::
  "mfa_crypto \<Rightarrow> int option \<Rightarrow> mfa_user \<Rightarrow> string \<Rightarrow> auth_row option \<Rightarrow> string option \<Rightarrow> string option
     \<Rightarrow> signin_result prog" where
  "create_signin_response cr expires_delta user source auth oauth_session_id provider =
     bind_prog (case auth of Some auth \<Rightarrow> Ret auth | None \<Rightarrow> get_auth (us_id user)) (\<lambda>auth.
       bind_prog (get_auth (us_id user)) (\<lambda>current.
         if au_session_stamp current \<noteq> au_session_stamp auth \<or> au_password current \<noteq> au_password auth
         then Raise (Http 409 ''Authentication changed. Please sign in again.'' None)
         else Get_mfa_config (\<lambda>config.
           if ENABLE_MFA config \<and> us_role user \<noteq> ''admin'' \<and> us_role user \<noteq> ''user'' then Ret Pending
           else if is_mfa_required source config
           then bind_prog (start_mfa_login cr current source oauth_session_id provider) (\<lambda>c. Ret (Challenge c))
           else bind_prog (create_session_response expires_delta user source current False None) (\<lambda>s. Ret (Session s)))))"

text \<open>The password branch of \<open>signin\<close>; \<open>limited\<close> is the answer of the sign-in rate limiter.\<close>

definition signin :: "mfa_crypto \<Rightarrow> int option \<Rightarrow> bool \<Rightarrow> string \<Rightarrow> (string \<Rightarrow> bool) \<Rightarrow> signin_result prog" where
  "signin cr expires_delta limited email matches =
     (if limited then Raise (Http 429 ''API rate limit exceeded'' None)
      else Get_mfa_config (\<lambda>config.
        bind_prog (if ENABLE_MFA config
                   then Get_user_by_email (map ascii_lower email) (\<lambda>existing. case existing of
                       None \<Rightarrow> Ret ()
                     | Some user \<Rightarrow> bind_prog (limit_account (us_id user) ''password'' None) (\<lambda>_. Ret ()))
                   else Ret ())
          (\<lambda>_. bind_prog (authenticate_user matches (map ascii_lower email)) (\<lambda>authenticated. case authenticated of
               None \<Rightarrow> Raise (Http 400 ''The email or password provided is incorrect. Please check for typos and try logging in again.'' None)
             | Some (user, auth) \<Rightarrow>
                 create_signin_response cr expires_delta user ''password'' (Some auth) None None))))"

text \<open>The other callers (LDAP, OAuth, sign-up, trusted headers) reach the same gate with their source.\<close>

subsection \<open>The end of a login with a second factor\<close>

definition finish_login :: "int option \<Rightarrow> mfa_user \<Rightarrow> auth_row \<Rightarrow> mfa_challenge \<Rightarrow> session prog" where
  "finish_login expires_delta user auth challenge =
     create_session_response expires_delta user (ch_auth_method challenge) auth True (Some (ch_auth_time challenge))"

definition verify_route :: "mfa_crypto \<Rightarrow> int option \<Rightarrow> string \<Rightarrow> string \<Rightarrow> bool \<Rightarrow> session prog" where
  "verify_route cr expires_delta token code recovery =
     bind_prog (verify_mfa_challenge cr token code recovery)
       (\<lambda>(user, auth, challenge). finish_login expires_delta user auth challenge)"

definition confirm_route :: "mfa_crypto \<Rightarrow> int option \<Rightarrow> string \<Rightarrow> string \<Rightarrow> (session option \<times> string list) prog" where
  "confirm_route cr expires_delta token code =
     bind_prog (confirm_mfa_enrollment cr token code) (\<lambda>(user, auth, challenge, codes).
       if ch_type challenge = Type_replace then Ret (None, codes)
       else bind_prog (finish_login expires_delta user auth challenge) (\<lambda>s. Ret (Some s, codes)))"

text \<open>\<open>get_mfa_challenge\<close> without the check of the origin: what is left of a pending login.\<close>

definition pending_challenge :: "mfa_crypto \<Rightarrow> string \<Rightarrow> challenge_reply prog" where
  "pending_challenge cr token =
     catch_prog (bind_prog (load_challenge cr token {Type_enroll, Type_verify, Type_recover} False)
                   (\<lambda>(_, _, _, challenge, _). challenge_response token challenge))
       (\<lambda>e. case e of Http _ _ _ \<Rightarrow> Raise (Http 401 ''This authentication step expired. Please start again.'' None)
                    | _ \<Rightarrow> Raise e)"

record mfa_status =
  st_enabled :: bool
  st_required :: bool
  st_recovery_codes_remaining :: nat

definition get_mfa_status :: "string \<Rightarrow> claims \<Rightarrow> mfa_status prog" where
  "get_mfa_status user_id cl =
     bind_prog (get_auth user_id) (\<lambda>auth. Get_mfa_config (\<lambda>config.
       Ret \<lparr>st_enabled = (case au_mfa auth of Some m \<Rightarrow> present (md_secret m) | None \<Rightarrow> False),
            st_required = is_mfa_required (case cl_auth_method cl of Some a \<Rightarrow> a | None \<Rightarrow> []) config,
            st_recovery_codes_remaining = (case au_mfa auth of Some m \<Rightarrow> length (md_recovery_hashes m) | None \<Rightarrow> 0)\<rparr>))"

subsection \<open>Validity of a token\<close>

text \<open>
  The revocations in Redis, whose \<open>GET\<close> is the argument; an error of Redis, and a stored time that
  is not a number, accept the token.
\<close>

definition redis_accepts :: "string \<Rightarrow> (string \<Rightarrow> string option reply) \<Rightarrow> claims \<Rightarrow> bool" where
  "redis_accepts prefix redis_get cl =
     (let by_user = (\<lambda>_::unit. if cl_id cl = [] then True
            else case redis_get (prefix @ '':auth:user:'' @ cl_id cl @ '':revoked_at'') of
                Fault \<Rightarrow> True
              | Reply v \<Rightarrow> if \<not> present v then True
                  else (case parse_integer (the v) of
                          None \<Rightarrow> True
                        | Some revoked_at \<Rightarrow> (case cl_iat cl of None \<Rightarrow> False | Some iat \<Rightarrow> \<not> iat \<le> revoked_at)))
      in if present (cl_jti cl)
         then (case redis_get (prefix @ '':auth:token:'' @ the (cl_jti cl) @ '':revoked'') of
                 Fault \<Rightarrow> True
               | Reply v \<Rightarrow> if present v then False else by_user ())
         else by_user ())"

definition factor_verified :: "claims \<Rightarrow> auth_row \<Rightarrow> bool" where
  "factor_verified cl auth \<longleftrightarrow> cl_mfa_verified cl
     \<and> (case au_mfa auth of None \<Rightarrow> False | Some m \<Rightarrow> present (md_secret m) \<and> \<not> md_reset_required m)"

definition is_valid_token :: "string \<Rightarrow> (string \<Rightarrow> string option reply) option \<Rightarrow> claims \<Rightarrow> bool prog" where
  "is_valid_token prefix redis cl =
     bind_prog (get_auth (cl_id cl)) (\<lambda>auth.
       if cl_session_stamp cl \<noteq> au_session_stamp auth then Ret False
       else let token_type = (case cl_typ cl of Some t \<Rightarrow> t | None \<Rightarrow> ''session'');
                rest = (case redis of None \<Rightarrow> True | Some redis_get \<Rightarrow> redis_accepts prefix redis_get cl)
            in if token_type \<notin> {''session'', ''automation'', ''subagent''} then Ret False
               else if token_type = ''session''
               then Get_mfa_config (\<lambda>config.
                      if is_mfa_required (case cl_auth_method cl of Some a \<Rightarrow> a | None \<Rightarrow> []) config
                         \<and> \<not> factor_verified cl auth
                      then Ret False else Ret rest)
               else Ret rest)"

end
