(* ===== verification/Mfa_Guarantee.thy ===== *)
theory Mfa_Guarantee
  imports Mfa_Spec Signin
begin

text \<open>
  What a request guarantees to the requests that run beside it: every write it makes is one atomic
  action applied to a row it has read, and its result tells which actions it has performed. The
  guarantee is a weakest precondition over programs that quantifies over all answers of the calls,
  so it holds whatever the other requests do in between.
\<close>

subsection \<open>Guarantees\<close>

text \<open>
  The postcondition sees the actions performed (the last first), the rows read or written, and the
  random strings drawn (the last first). \<open>G\<close> holds of the actions and the draws after every write.
\<close>

type_synonym 'a post = "deed list \<Rightarrow> auth_row set \<Rightarrow> string list \<Rightarrow> mfa_error + 'a \<Rightarrow> bool"

primrec wp :: "(deed list \<Rightarrow> string list \<Rightarrow> bool) \<Rightarrow> 'a prog \<Rightarrow> 'a post \<Rightarrow> deed list \<Rightarrow> auth_row set \<Rightarrow> string list \<Rightarrow> bool" where
  "wp G (Ret x) Q ws K D = Q ws K D (Inr x)"
| "wp G (Raise e) Q ws K D = Q ws K D (Inl e)"
| "wp G (Get_auth_by_id u k) Q ws K D \<longleftrightarrow>
     wp G (k Fault) Q ws K D \<and> wp G (k (Reply None)) Q ws K D
     \<and> (\<forall>a. au_id a = u \<longrightarrow> wp G (k (Reply (Some a))) Q ws (insert a K) D)"
| "wp G (Update_mfa_by_id a m rv k) Q ws K D \<longleftrightarrow>
     a \<in> K \<and> wp G (k Fault) Q ws K D \<and> wp G (k (Reply None)) Q ws K D
     \<and> (\<exists>act. perform act (mfa_copy a) = Some m \<and> G ((au_id a, act) # ws) D
          \<and> wp G (k Fault) Q ((au_id a, act) # ws) K D
          \<and> (\<forall>x y. wp G (k (Reply (Some (swapped a m rv x y a)))) Q ((au_id a, act) # ws) (insert (swapped a m rv x y a) K) D))"
| "wp G (Clear_sessions a k) Q ws K D \<longleftrightarrow>
     a \<in> K \<and> wp G (k Fault) Q ws K D \<and> wp G (k (Reply False)) Q ws K D
     \<and> G ((au_id a, Clear) # ws) D \<and> (\<forall>r. wp G (k r) Q ((au_id a, Clear) # ws) K D)"
| "wp G (Change_password u a m p k) Q ws K D \<longleftrightarrow>
     a \<in> K \<and> wp G (k Fault) Q ws K D \<and> wp G (k (Reply False)) Q ws K D \<and> perform Clear (mfa_copy a) = Some m
     \<and> G ((au_id a, Clear) # ws) D \<and> (\<forall>r. wp G (k r) Q ((au_id a, Clear) # ws) K D)"
| "wp G (Get_user_by_id u k) Q ws K D \<longleftrightarrow> wp G (k None) Q ws K D \<and> (\<forall>x. us_id x = u \<longrightarrow> wp G (k (Some x)) Q ws K D)"
| "wp G (Get_user_by_email e k) Q ws K D \<longleftrightarrow> (\<forall>r. wp G (k r) Q ws K D)"
| "wp G (Get_mfa_config k) Q ws K D \<longleftrightarrow> (\<forall>r. wp G (k r) Q ws K D)"
| "wp G (Time k) Q ws K D \<longleftrightarrow> (\<forall>t. wp G (k t) Q ws K D)"
| "wp G (Random k) Q ws K D \<longleftrightarrow> (\<forall>t. t \<notin> set D \<longrightarrow> wp G (k t) Q ws K (t # D))"
| "wp G (Emit ev u p) Q ws K D \<longleftrightarrow> wp G p Q ws K D"

lemma wp_mono:
  "wp G p Q ws K D \<Longrightarrow> (\<And>ws K D r. Q ws K D r \<Longrightarrow> Q' ws K D r) \<Longrightarrow> wp G p Q' ws K D"
proof (induction p arbitrary: ws K D)
  case (Update_mfa_by_id a m rv k)
  then show ?case unfolding wp.simps by (metis rangeI)
qed auto

definition then_post :: "(deed list \<Rightarrow> string list \<Rightarrow> bool) \<Rightarrow> ('a \<Rightarrow> 'b prog) \<Rightarrow> 'b post \<Rightarrow> 'a post" where
  "then_post G f Q ws K D r = (case r of Inl e \<Rightarrow> Q ws K D (Inl e) | Inr x \<Rightarrow> wp G (f x) Q ws K D)"

definition except_post :: "(deed list \<Rightarrow> string list \<Rightarrow> bool) \<Rightarrow> (mfa_error \<Rightarrow> 'a prog) \<Rightarrow> 'a post \<Rightarrow> 'a post" where
  "except_post G h Q ws K D r = (case r of Inl e \<Rightarrow> wp G (h e) Q ws K D | Inr x \<Rightarrow> Q ws K D (Inr x))"

lemma then_post_simps [simp]:
  "then_post G f Q ws K D (Inl e) = Q ws K D (Inl e)" "then_post G f Q ws K D (Inr x) = wp G (f x) Q ws K D"
  by (simp_all add: then_post_def)

lemma except_post_simps [simp]:
  "except_post G h Q ws K D (Inl e) = wp G (h e) Q ws K D" "except_post G h Q ws K D (Inr x) = Q ws K D (Inr x)"
  by (simp_all add: except_post_def)

lemma wp_bind [simp]: "wp G (bind_prog p f) Q ws K D = wp G p (then_post G f Q) ws K D"
  by (induction p arbitrary: ws K D) simp_all

lemma wp_catch [simp]: "wp G (catch_prog p h) Q ws K D = wp G p (except_post G h Q) ws K D"
  by (induction p arbitrary: ws K D) simp_all

lemma wp_lift_result [simp]: "wp G (lift_result r) Q ws K D = Q ws K D r"
  by (cases r) (simp_all add: lift_result_def)

subsection \<open>Provenance of what is written\<close>

text \<open>
  Recovery codes, challenge tokens and the random part of an encrypted secret come from draws of the
  request that writes them, and a request writes such a value in at most one action.
\<close>

definition creative :: "action \<Rightarrow> bool" where
  "creative a \<longleftrightarrow> codes_of a \<noteq> [] \<or> challenge_of a \<noteq> None \<or> (\<exists>s e. a = Prepare s e)"

definition supported :: "mfa_crypto \<Rightarrow> string list \<Rightarrow> deed \<Rightarrow> bool" where
  "supported cr D d \<longleftrightarrow>
     (\<exists>ds. codes_of (snd d) = map (token_hash cr) ds \<and> distinct ds \<and> set ds \<subseteq> set D)
     \<and> (\<forall>c. challenge_of (snd d) = Some c \<longrightarrow> (\<exists>t \<in> set D. ch_token_hash c = token_hash cr (fst d @ ''.'' @ t)))
     \<and> (\<forall>s e. snd d = Prepare s e \<longrightarrow> (\<exists>iv \<in> set D. \<exists>secret. fernet_encrypt cr secret iv = Some e))"

definition thrifty :: "mfa_crypto \<Rightarrow> deed list \<Rightarrow> string list \<Rightarrow> bool" where
  "thrifty cr ws D \<longleftrightarrow> list_all (supported cr D) ws \<and> length (filter (\<lambda>d. creative (snd d)) ws) \<le> 1"

lemma supported_plain [simp]:
  "supported cr D (u, Charge k n)" "supported cr D (u, Attempt s h n)" "supported cr D (u, Pass f)"
  "supported cr D (u, Reset t)" "supported cr D (u, Clear)" "supported cr D (u, Delete)"
  by (simp_all add: supported_def)

lemma creative_plain [simp]:
  "\<not> creative (Charge k n)" "\<not> creative (Attempt s h n)" "\<not> creative (Pass f)" "\<not> creative (Reset t)"
  "\<not> creative Clear" "\<not> creative Delete"
  by (simp_all add: creative_def)

lemma supported_more: "supported cr D d \<Longrightarrow> set D \<subseteq> set D' \<Longrightarrow> supported cr D' d"
  unfolding supported_def by (meson subset_iff subset_trans)

lemma thrifty_more: "thrifty cr ws D \<Longrightarrow> set D \<subseteq> set D' \<Longrightarrow> thrifty cr ws D'"
  unfolding thrifty_def by (auto simp: list_all_iff intro: supported_more)

lemma thrifty_Nil [simp]: "thrifty cr [] D"
  by (simp add: thrifty_def)

lemma thrifty_plain [simp]:
  "supported cr D d \<Longrightarrow> \<not> creative (snd d) \<Longrightarrow> thrifty cr (d # ws) D \<longleftrightarrow> thrifty cr ws D"
  by (simp add: thrifty_def)

text \<open>One writing action after actions that are not.\<close>

lemma thrifty_one: "supported cr D d \<Longrightarrow> list_all (\<lambda>d. supported cr D d \<and> \<not> creative (snd d)) ws \<Longrightarrow> thrifty cr (d # ws) D"
  by (auto simp: thrifty_def list_all_iff filter_empty_conv)

lemma supported_issue:
  "challenge_of a = Some c \<Longrightarrow> codes_of a = [] \<Longrightarrow> ch_token_hash c = token_hash cr (u @ ''.'' @ t) \<Longrightarrow> t \<in> set D
     \<Longrightarrow> supported cr D (u, a)"
  by (cases a) (auto simp: supported_def)

lemma supported_codes:
  "codes_of a = map (token_hash cr) ds \<Longrightarrow> distinct ds \<Longrightarrow> set ds \<subseteq> set D \<Longrightarrow> challenge_of a = None
     \<Longrightarrow> \<nexists>s e. a = Prepare s e \<Longrightarrow> supported cr D (u, a)"
  by (auto simp: supported_def)

subsection \<open>Rows and limits\<close>

text \<open>The errors that say nothing about a code.\<close>

definition rejected_enrollment :: mfa_error where
  "rejected_enrollment = Http 401 ''Invalid code. Check your authenticator and try again.'' None"

definition tame :: "mfa_error \<Rightarrow> bool" where
  "tame e \<longleftrightarrow> e \<noteq> invalid_code \<and> e \<noteq> rejected_enrollment"

lemma tame_simps [simp]:
  "tame (Value_error s)" "tame Key_error"
  "tame (Http c s h) \<longleftrightarrow> c \<noteq> 401 \<or> s \<noteq> ''Invalid or already used code.'' \<and> s \<noteq> ''Invalid code. Check your authenticator and try again.'' \<or> h \<noteq> None"
  by (auto simp: tame_def invalid_code_def rejected_enrollment_def)

definition harmless :: "'a post \<Rightarrow> deed list \<Rightarrow> bool" where
  "harmless Q ws \<longleftrightarrow> (\<forall>e K D. tame e \<longrightarrow> Q ws K D (Inl e))"

lemma harmlessD: "harmless Q ws \<Longrightarrow> tame e \<Longrightarrow> Q ws K D (Inl e)"
  by (simp add: harmless_def)

lemma harmless_then [simp]: "harmless (then_post G f Q) ws = harmless Q ws"
  by (simp add: harmless_def)

text \<open>A write may be committed although its answer is lost.\<close>

definition unavailable :: mfa_error where
  "unavailable = Http 503 ''Authentication is temporarily unavailable.'' None"

definition lost :: "'a post \<Rightarrow> deed list \<Rightarrow> bool" where
  "lost Q ws \<longleftrightarrow> (\<forall>K D. Q ws K D (Inl unavailable))"

lemma lost_simps [simp]:
  "lost (then_post G f Q) ws = lost Q ws"
  "\<not> is_conflict unavailable"
  by (simp_all add: lost_def unavailable_def is_conflict_def)

lemma harmless_lost: "harmless Q ws \<Longrightarrow> lost Q ws"
  by (simp add: harmless_def lost_def unavailable_def)

lemma wp_get_auth:
  assumes "harmless Q ws" and "\<And>a. au_id a = u \<Longrightarrow> Q ws (insert a K) D (Inr a)"
  shows "wp G (get_auth u) Q ws K D"
proof -
  have "Q ws K' D (Inl (Http 503 ''Authentication is temporarily unavailable.'' None))"
    and "Q ws K' D (Inl (Http 401 ''Invalid authentication request.'' None))" for K'
    by (rule harmlessD [OF assms(1)], simp)+
  with assms(2) show ?thesis by (simp add: get_auth_def)
qed

lemma wp_save_mfa:
  assumes "a \<in> K" and "perform act (mfa_copy a) = Some m" and "G ((au_id a, act) # ws) D"
    and "harmless Q ws" and "lost Q ((au_id a, act) # ws)"
    and "\<And>x y K. swapped a m rv x y a \<in> K \<Longrightarrow> Q ((au_id a, act) # ws) K D (Inr (swapped a m rv x y a))"
  shows "wp G (save_mfa a m rv) Q ws K D"
proof -
  have "\<forall>x y. Q ((au_id a, act) # ws) (insert (swapped a m rv x y a) K) D (Inr (swapped a m rv x y a))"
    by (intro allI assms(6)) simp
  moreover have "Q ((au_id a, act) # ws) K D (Inl (Http 503 ''Authentication is temporarily unavailable.'' None))"
    using assms(5) by (simp add: lost_def unavailable_def)
  moreover have "Q ws K D (Inl (Http 503 ''Authentication is temporarily unavailable.'' None))"
    and "Q ws K D (Inl (Http 409 ''Authentication changed in another request. Please start again.'' None))"
    by (rule harmlessD [OF assms(4)], simp)+
  ultimately show ?thesis using assms(1-3) unfolding save_mfa_def wp.simps by auto
qed

lemma swapped_simps [simp]:
  "au_id (swapped a m rv x y r) = au_id r" "mfa_copy (swapped a m rv x y r) = m\<lparr>md_revision := x\<rparr>"
  "au_password (swapped a m rv x y r) = au_password r" "au_active (swapped a m rv x y r) = au_active r"
  by (simp_all add: swapped_def mfa_copy_def)

lemma get_set_slot [simp]: "get_slot s (set_slot s c m) = c"
  by (cases s) (simp_all add: get_slot_def set_slot_def)

lemma get_slot_revision [simp]: "get_slot s (m\<lparr>md_revision := x\<rparr>) = get_slot s m"
  by (cases s) (simp_all add: get_slot_def)

text \<open>A loop that tries again after a conflict, as \<open>limit_account\<close> and \<open>load_challenge\<close> do.\<close>

lemma harmless_retry:
  assumes "harmless Q ws" and "\<And>K D. wp G p Q ws K D"
  shows "harmless (except_post G (\<lambda>e. if is_conflict e then p else Raise e) Q) ws"
  unfolding harmless_def
proof (intro allI impI)
  fix e K D assume "tame e"
  then show "except_post G (\<lambda>e. if is_conflict e then p else Raise e) Q ws K D (Inl e)"
    using harmlessD [OF assms(1)] assms(2) by simp
qed

lemma lost_retry: "lost (except_post G (\<lambda>e. if is_conflict e then p else Raise e) Q) ws = lost Q ws"
  by (simp add: lost_def)

lemma wp_limit_account_loop:
  assumes "harmless Q ws" and "\<And>now. lost Q ((u, Charge kind now) # ws)"
    and "\<And>now D. G ((u, Charge kind now) # ws) D"
    and "\<And>a now K D. au_id a = u \<Longrightarrow> a \<in> K \<Longrightarrow> Q ((u, Charge kind now) # ws) K D (Inr a)"
  shows "wp G (limit_account_loop u kind check n) Q ws K D"
proof (induction n arbitrary: K D)
  case 0
  show ?case unfolding limit_account_loop.simps wp.simps by (rule harmlessD [OF assms(1)]) simp
next
  case (Suc n)
  let ?retry = "\<lambda>e. if is_conflict e then limit_account_loop u kind check n else Raise e"
  have save: "wp G (save_mfa a (count_attempt (mfa_copy a) kind now) False) (except_post G ?retry Q) ws K D"
    if a: "a \<in> K" "au_id a = u" and c: "li_count (current_limit (mfa_copy a) kind now) < 10" for a now K D
  proof (rule wp_save_mfa [of _ _ "Charge kind now"])
    show "harmless (except_post G ?retry Q) ws" by (rule harmless_retry [OF assms(1) Suc.IH])
  qed (use that assms in \<open>simp_all add: lost_retry\<close>)
  have expired: "Q ws K' D (Inl (Http 401 ''Session expired. Please sign in again.'' None))"
    and limited: "Q ws K' D (Inl (Http 429 ''Too many attempts. Please try again later.'' h))" for K' h D
    by (rule harmlessD [OF assms(1)], simp)+
  show ?case unfolding limit_account_loop.simps wp_bind
    by (rule wp_get_auth) (use assms(1) expired limited save in \<open>auto simp: Let_def not_le\<close>)
qed

subsection \<open>Challenges\<close>

lemma live_challenge_Some:
  "live_challenge cr token kinds now auth ch = Some c \<Longrightarrow>
     ch = Some c \<and> ch_token_hash c = token_hash cr token \<and> ch_type c \<in> kinds \<and> ch_session_stamp c = au_session_stamp auth"
  by (auto simp: live_challenge_def split: option.splits if_splits)

text \<open>The errors of a challenge that cannot be used.\<close>

lemma load_errors:
  assumes "harmless Q ws"
  shows "Q ws K D (Inl (Http 401 ''This authentication step expired. Please start again.'' h))"
    and "Q ws K D (Inl (Http 403 msg h))" and "Q ws K D (Inl (Http 429 msg h))" and "Q ws K D (Inl (Http 409 msg h))"
  by (rule harmlessD [OF assms], simp)+

lemma pick_slot_login: "Type_replace \<in> kinds \<or> pick_slot cr token kinds m = Login_challenge"
  by (auto simp: pick_slot_def)

lemma wp_load_attempt_loop:
  fixes Q :: "loaded post"
  assumes harmless: "harmless Q ws" and lost: "\<And>s now. lost Q ((u, Attempt s (token_hash cr token) now) # ws)"
    and G: "\<And>s now D. G ((u, Attempt s (token_hash cr token) now) # ws) D"
    and success: "\<And>user a c s now K D. \<lbrakk>us_id user = u; au_id a = u; a \<in> K; get_slot s (mfa_copy a) = Some c; Type_replace \<in> kinds \<or> s = Login_challenge\<rbrakk>
      \<Longrightarrow> Q ((u, Attempt s (token_hash cr token) now) # ws) K D (Inr (user, a, mfa_copy a, c, s))"
  shows "a \<in> K \<Longrightarrow> au_id a = u \<Longrightarrow> wp G (load_challenge_loop cr u token kinds True n a) Q ws K D"
proof (induction n arbitrary: K D a)
  case 0
  show ?case unfolding load_challenge_loop.simps wp.simps by (rule load_errors [OF harmless])
next
  case (Suc n)
  let ?s = "pick_slot cr token kinds (mfa_copy a)"
  let ?loop = "load_challenge_loop cr u token kinds True n"
  let ?retry = "\<lambda>e. if is_conflict e then bind_prog (get_auth u) ?loop else Raise e"
  have again: "wp G (bind_prog (get_auth u) ?loop) Q ws K D" for K D
    unfolding wp_bind by (rule wp_get_auth) (use harmless Suc.IH in auto)
  have save: "wp G (save_mfa a (charge_attempt ?s c now (mfa_copy a)) False)
      (then_post G (\<lambda>upd. Ret (user, upd, mfa_copy upd, c\<lparr>ch_attempts := ch_attempts c + 1\<rparr>, ?s)) (except_post G ?retry Q)) ws K D"
    if "get_slot ?s (mfa_copy a) = Some c" "ch_token_hash c = token_hash cr token" "ch_attempts c < 5"
      "li_count (current_limit (mfa_copy a) ''factor'' now) < 10" "us_id user = u" for c now and user :: mfa_user
  proof (rule wp_save_mfa [of _ _ "Attempt ?s (token_hash cr token) now"])
    show "harmless (then_post G (\<lambda>upd. Ret (user, upd, mfa_copy upd, c\<lparr>ch_attempts := ch_attempts c + 1\<rparr>, ?s)) (except_post G ?retry Q)) ws"
      unfolding harmless_then by (rule harmless_retry [OF harmless again])
    fix x y K
    let ?upd = "swapped a (charge_attempt ?s c now (mfa_copy a)) False x y a"
    assume "?upd \<in> K"
    then have "Q ((u, Attempt ?s (token_hash cr token) now) # ws) K D
        (Inr (user, ?upd, mfa_copy ?upd, c\<lparr>ch_attempts := ch_attempts c + 1\<rparr>, ?s))"
      by (intro success) (use Suc.prems that(5) in \<open>simp_all add: charge_attempt_def pick_slot_login\<close>)
    then show "then_post G (\<lambda>upd. Ret (user, upd, mfa_copy upd, c\<lparr>ch_attempts := ch_attempts c + 1\<rparr>, ?s)) (except_post G ?retry Q)
        ((au_id a, Attempt ?s (token_hash cr token) now) # ws) K D (Inr ?upd)"
      using Suc.prems by simp
  qed (use that Suc.prems lost G in \<open>simp_all add: lost_retry\<close>)
  show ?case unfolding load_challenge_loop.simps Let_def
    using load_errors [OF harmless] save
    by (auto simp: Let_def not_le split: option.split dest!: live_challenge_Some)
qed

lemma wp_load_attempt:
  fixes Q :: "loaded post"
  assumes harmless: "harmless Q ws"
    and lost: "\<And>u s now. token_user token = Some u \<Longrightarrow> lost Q ((u, Attempt s (token_hash cr token) now) # ws)"
    and G: "\<And>u s now D. G ((u, Attempt s (token_hash cr token) now) # ws) D"
    and success: "\<And>u user a c s now K D. \<lbrakk>token_user token = Some u; us_id user = u; au_id a = u; a \<in> K;
        get_slot s (mfa_copy a) = Some c; Type_replace \<in> kinds \<or> s = Login_challenge\<rbrakk>
      \<Longrightarrow> Q ((u, Attempt s (token_hash cr token) now) # ws) K D (Inr (user, a, mfa_copy a, c, s))"
  shows "wp G (load_challenge cr token kinds True) Q ws K D"
proof (cases "token_user token")
  case None
  then show ?thesis by (simp add: load_challenge_def load_errors [OF harmless])
next
  case (Some u)
  have "wp G (bind_prog (get_auth u) (load_challenge_loop cr u token kinds True 5)) Q ws K D"
    unfolding wp_bind
  proof (rule wp_get_auth)
    fix a :: auth_row assume "au_id a = u"
    then show "then_post G (load_challenge_loop cr u token kinds True 5) Q ws (insert a K) D (Inr a)"
      unfolding then_post_simps using harmless lost G success Some by (intro wp_load_attempt_loop) auto
  qed (simp add: harmless)
  then show ?thesis by (simp add: load_challenge_def Some load_errors [OF harmless] del: wp_bind)
qed

lemma wp_load_look:
  fixes Q :: "loaded post"
  assumes harmless: "harmless Q ws"
    and success: "\<And>u user a c s K D. \<lbrakk>token_user token = Some u; us_id user = u; au_id a = u; a \<in> K;
        get_slot s (mfa_copy a) = Some c\<rbrakk> \<Longrightarrow> Q ws K D (Inr (user, a, mfa_copy a, c, s))"
  shows "wp G (load_challenge cr token kinds False) Q ws K D"
proof (cases "token_user token")
  case None
  then show ?thesis by (simp add: load_challenge_def load_errors [OF harmless])
next
  case (Some u)
  have loop: "wp G (load_challenge_loop cr u token kinds False n a) Q ws K D" if "a \<in> K" "au_id a = u" for n a K D
    using load_errors [OF harmless] success [OF Some] that
    by (cases n) (auto simp: Let_def split: option.split dest!: live_challenge_Some)
  have "wp G (bind_prog (get_auth u) (load_challenge_loop cr u token kinds False 5)) Q ws K D"
    unfolding wp_bind by (rule wp_get_auth) (simp_all add: harmless loop)
  then show ?thesis by (simp add: load_challenge_def Some load_errors [OF harmless] del: wp_bind)
qed

subsection \<open>Factors, codes and challenges\<close>

text \<open>The factor a submitted code stands for.\<close>

definition answers :: "mfa_crypto \<Rightarrow> string \<Rightarrow> bool \<Rightarrow> factor \<Rightarrow> bool" where
  "answers cr code recovery f \<longleftrightarrow>
     (case f of
        Recovery digest \<Rightarrow> recovery \<and> digest = recovery_digest cr code
      | Step envelope step \<Rightarrow> \<not> recovery
          \<and> (case fernet_decrypt cr envelope of None \<Rightarrow> False | Some secret \<Rightarrow> totp_at cr secret (step * 30) = py_strip code))"

lemma matching_step_Some:
  "matching_step cr now secret code last_step = Some step \<Longrightarrow> step > last_step \<and> totp_at cr secret (step * 30) = code"
  by (auto simp: matching_step_def Let_def split: if_splits)

lemma wp_consume_recorded:
  assumes harmless: "harmless Q ws" and invalid: "\<And>K D. Q ws K D (Inl invalid_code)"
    and success: "\<And>f m'. spend f m = Some m' \<Longrightarrow> answers cr code recovery f \<Longrightarrow> Q ws K D (Inr m')"
  shows "wp G (consume_recorded cr u m code recovery) Q ws K D"
proof -
  have tame: "Q ws K D (Inl e)" if "decrypt_secret cr x = Inl e" for e x
    by (rule harmlessD [OF harmless]) (use that in \<open>auto simp: decrypt_secret_def split: option.splits\<close>)
  have http: "wp G (case e of Http c s h \<Rightarrow> Emit ev u (Raise e) | _ \<Rightarrow> Raise e) Q ws K D = Q ws K D (Inl e)" for e ev
    by (cases e) simp_all
  have recovery: "Q ws K D (Inr (m\<lparr>md_recovery_hashes := remove1 (recovery_digest cr code) (md_recovery_hashes m)\<rparr>))"
    if "recovery" "recovery_digest cr code \<in> set (md_recovery_hashes m)"
    by (rule success [of "Recovery (recovery_digest cr code)"]) (use that in \<open>simp_all add: answers_def\<close>)
  have step: "Q ws K D (Inr (m\<lparr>md_last_step := n\<rparr>))"
    if "\<not> recovery" "md_secret m = Some e" "decrypt_secret cr e = Inr secret"
      "matching_step cr now secret (py_strip code) (md_last_step m) = Some n" for e secret now n
    by (rule success [of "Step e n"])
       (use that matching_step_Some [OF that(4)] in \<open>auto simp: answers_def decrypt_secret_def split: option.splits\<close>)
  show ?thesis
  proof (cases "recovery")
    case True
    then show ?thesis using recovery invalid by (auto simp: consume_recorded_def consume_factor_def Let_def http)
  next
    case False
    show ?thesis
    proof (cases "present (md_secret m)")
      case True
      then obtain e where e: "md_secret m = Some e" by (auto simp: present_def)
      show ?thesis
      proof (cases "decrypt_secret cr e")
        case (Inl err)
        with tame [OF Inl] False True show ?thesis by (simp add: consume_recorded_def consume_factor_def e http)
      next
        case (Inr secret)
        have "Q ws K D (Inl invalid_code)" by (rule invalid)
        with step [OF False e Inr] Inr False True show ?thesis
          by (auto simp: consume_recorded_def consume_factor_def e http split: option.split)
      qed
    next
      case no_secret: False
      with False invalid show ?thesis by (simp add: consume_recorded_def consume_factor_def http)
    qed
  qed
qed

lemma wp_random_tokens:
  assumes "\<And>ts D'. distinct ts \<Longrightarrow> set ts \<inter> set D = {} \<Longrightarrow> set D' = set ts \<union> set D \<Longrightarrow> wp G (k ts) Q ws K D'"
  shows "wp G (random_tokens n k) Q ws K D"
  using assms
proof (induction n arbitrary: k D)
  case (Suc n)
  have "wp G (random_tokens n (\<lambda>ts. k (t # ts))) Q ws K (t # D)" if "t \<notin> set D" for t
    by (rule Suc.IH, rule Suc.prems) (use that in auto)
  then show ?case by simp
qed simp

lemma wp_recovery_codes:
  assumes "\<And>codes D'. distinct codes \<Longrightarrow> set codes \<subseteq> set D' \<Longrightarrow> Q ws K D' (Inr (codes, map (token_hash cr) codes))"
  shows "wp G (recovery_codes cr) Q ws K D"
  unfolding recovery_codes_def by (rule wp_random_tokens) (simp add: assms)

lemma wp_new_challenge:
  assumes "\<And>t c D'. unused c \<Longrightarrow> ch_token_hash c = token_hash cr (au_id auth @ ''.'' @ t) \<Longrightarrow> t \<in> set D'
      \<Longrightarrow> Q ws K D' (Inr (au_id auth @ ''.'' @ t, c))"
  shows "wp G (new_challenge cr auth kind meth t0 oid prov) Q ws K D"
  by (auto simp: new_challenge_def Let_def unused_def intro!: assms [simplified])

lemma wp_challenge_response: "(\<And>c. cr_challenge_token c = token \<Longrightarrow> Q ws K D (Inr c)) \<Longrightarrow> wp G (challenge_response token ch) Q ws K D"
  by (simp add: challenge_response_def)

end
