(* ===== verification/Mfa_Requests.thy ===== *)
theory Mfa_Requests
  imports Mfa_Guarantee
begin

text \<open>
  The requests that use credentials, the programs that answer them, and what each promises: which
  actions it has performed when it returns or raises a verdict on a code.
\<close>

subsection \<open>Requests\<close>

text \<open>The parameters of the application: cryptography, \<open>verify_password\<close> and the lifetime of a session.\<close>

record app =
  ap_crypto :: mfa_crypto
  ap_verify_password :: "string \<Rightarrow> string \<Rightarrow> bool"
  ap_expires_delta :: "int option"
  ap_redis_prefix :: string

datatype request =
    Sign_in bool string string
  | Sign_in_as mfa_user string "string option" "string option"
  | Enroll_start string
  | Enroll_confirm string string
  | Verify_code string string bool
  | Manage string claims string bool bool
  | Redeem_reset string string
  | Reset_account string string
  | Revoke_sessions string
  | Set_password string string
  | Update_password string string "string option" string
  | Pending_challenge string
  | Show_status string claims
  | Check_token claims "(string \<Rightarrow> string option reply) option"

datatype outcome =
    Signed_in signin_result
  | Setup string string
  | Verified session
  | Enrolled "session option" "string list"
  | Managed manage_reply
  | Redeemed challenge_reply
  | Ticket string
  | Answer bool
  | Shown challenge_reply
  | Status mfa_status

definition wrap_prog :: "('a \<Rightarrow> 'b) \<Rightarrow> 'a prog \<Rightarrow> 'b prog" where
  "wrap_prog f p = bind_prog p (\<lambda>x. Ret (f x))"

fun handle :: "app \<Rightarrow> request \<Rightarrow> outcome prog" where
  "handle ap (Sign_in limited email password) =
     wrap_prog Signed_in (signin (ap_crypto ap) (ap_expires_delta ap) limited email (ap_verify_password ap password))"
| "handle ap (Sign_in_as user source oauth_session_id provider) =
     wrap_prog Signed_in (create_signin_response (ap_crypto ap) (ap_expires_delta ap) user source None oauth_session_id provider)"
| "handle ap (Enroll_start token) = wrap_prog (case_prod Setup) (start_mfa_enrollment (ap_crypto ap) token)"
| "handle ap (Enroll_confirm token code) =
     wrap_prog (case_prod Enrolled) (confirm_route (ap_crypto ap) (ap_expires_delta ap) token code)"
| "handle ap (Verify_code token code recovery) =
     wrap_prog Verified (verify_route (ap_crypto ap) (ap_expires_delta ap) token code recovery)"
| "handle ap (Manage user_id cl code recovery replace) =
     wrap_prog Managed (manage_mfa (ap_crypto ap) user_id cl code recovery replace)"
| "handle ap (Redeem_reset token reset_token) = wrap_prog Redeemed (redeem_mfa_reset_token (ap_crypto ap) token reset_token)"
| "handle ap (Reset_account email reason) = wrap_prog Ticket (reset_mfa (ap_crypto ap) email reason)"
| "handle ap (Revoke_sessions user_id) = wrap_prog Answer (revoke_sessions_by_user_id user_id)"
| "handle ap (Set_password user_id hashed) = wrap_prog Answer (update_user_password_by_id user_id hashed None)"
| "handle ap (Update_password email password rejected hashed) =
     wrap_prog Answer (update_password (ap_verify_password ap password) email rejected hashed)"
| "handle ap (Pending_challenge token) = wrap_prog Shown (pending_challenge (ap_crypto ap) token)"
| "handle ap (Show_status user_id cl) = wrap_prog Status (get_mfa_status user_id cl)"
| "handle ap (Check_token cl redis) = wrap_prog Answer (is_valid_token (ap_redis_prefix ap) redis cl)"

subsection \<open>Promises\<close>

definition charged :: "mfa_crypto \<Rightarrow> string \<Rightarrow> string \<Rightarrow> slot \<Rightarrow> deed \<Rightarrow> bool" where
  "charged cr token u s d \<longleftrightarrow> token_user token = Some u \<and> (\<exists>now. d = (u, Attempt s (token_hash cr token) now))"

definition verify_promise :: "mfa_crypto \<Rightarrow> string \<Rightarrow> string \<Rightarrow> bool \<Rightarrow> deed list \<Rightarrow> mfa_error + session \<Rightarrow> bool" where
  "verify_promise cr token code recovery ws r \<longleftrightarrow>
     (case r of
        Inr s \<Rightarrow> \<exists>u f d. ws = [(u, Pass f), d] \<and> charged cr token u Login_challenge d \<and> answers cr code recovery f
                   \<and> cl_id (se_token s) = u
      | Inl e \<Rightarrow> e = invalid_code \<longrightarrow> (\<exists>u d. ws = [d] \<and> charged cr token u Login_challenge d))"

definition confirm_promise :: "mfa_crypto \<Rightarrow> string \<Rightarrow> string \<Rightarrow> deed list \<Rightarrow> mfa_error + session option \<times> string list \<Rightarrow> bool" where
  "confirm_promise cr token code ws r \<longleftrightarrow>
     (case r of
        Inr (s, codes) \<Rightarrow> \<exists>u sl e n d. ws = [(u, Enroll sl e n (map (token_hash cr) codes)), d] \<and> charged cr token u sl d
                   \<and> answers cr code False (Step e n) \<and> (\<forall>x. s = Some x \<longrightarrow> cl_id (se_token x) = u)
      | Inl e \<Rightarrow> e = rejected_enrollment \<longrightarrow> (\<exists>u sl d. ws = [d] \<and> charged cr token u sl d))"

definition manage_promise :: "mfa_crypto \<Rightarrow> string \<Rightarrow> string \<Rightarrow> bool \<Rightarrow> deed list \<Rightarrow> mfa_error + manage_reply \<Rightarrow> bool" where
  "manage_promise cr user_id code recovery ws r \<longleftrightarrow>
     (case r of
        Inr (Recovery_codes codes) \<Rightarrow> \<exists>f now. answers cr code recovery f
            \<and> ws = [(user_id, Regenerate f (map (token_hash cr) codes)), (user_id, Charge ''factor'' now)]
      | Inr (Manage_challenge_reply c) \<Rightarrow> \<exists>f ch now. answers cr code recovery f
            \<and> ws = [(user_id, Replace f ch), (user_id, Charge ''factor'' now)]
            \<and> ch_token_hash ch = token_hash cr (cr_challenge_token c)
      | Inl e \<Rightarrow> e = invalid_code \<longrightarrow> (\<exists>now. ws = [(user_id, Charge ''factor'' now)]))"

text \<open>A session without a second factor performs no action but counts on limits.\<close>

definition signin_promise :: "mfa_crypto \<Rightarrow> deed list \<Rightarrow> mfa_error + signin_result \<Rightarrow> bool" where
  "signin_promise cr ws r \<longleftrightarrow>
     (case r of
        Inr (Session s) \<Rightarrow> \<not> cl_mfa_verified (se_token s) \<and> list_all (\<lambda>d. \<exists>now. snd d = Charge ''password'' now) ws
      | Inr (Challenge c) \<Rightarrow> \<exists>u ch ds. ws = (u, Begin ch) # ds \<and> ch_token_hash ch = token_hash cr (cr_challenge_token c)
            \<and> list_all (\<lambda>d. \<exists>now. snd d = Charge ''password'' now) ds
      | Inr Pending \<Rightarrow> list_all (\<lambda>d. \<exists>now. snd d = Charge ''password'' now) ws
      | Inl _ \<Rightarrow> True)"

definition redeem_promise :: "mfa_crypto \<Rightarrow> string \<Rightarrow> deed list \<Rightarrow> mfa_error + challenge_reply \<Rightarrow> bool" where
  "redeem_promise cr token ws r \<longleftrightarrow>
     (case r of
        Inr c \<Rightarrow> \<exists>u ch d. ws = [(u, Redeem ch), d] \<and> charged cr token u Login_challenge d
                   \<and> ch_token_hash ch = token_hash cr (cr_challenge_token c)
      | Inl _ \<Rightarrow> True)"

definition reset_promise :: "mfa_crypto \<Rightarrow> deed list \<Rightarrow> mfa_error + string \<Rightarrow> bool" where
  "reset_promise cr ws r \<longleftrightarrow>
     (case r of Inr t \<Rightarrow> \<exists>u tk. ws = [(u, Reset tk)] \<and> ti_token_hash tk = token_hash cr t | Inl _ \<Rightarrow> True)"

definition start_promise :: "deed list \<Rightarrow> mfa_error + string \<times> string \<Rightarrow> bool" where
  "start_promise ws r \<longleftrightarrow> (case r of Inr _ \<Rightarrow> ws = [] \<or> (\<exists>u s e. ws = [(u, Prepare s e)]) | Inl _ \<Rightarrow> True)"

definition revoke_promise :: "(string \<Rightarrow> bool) \<Rightarrow> deed list \<Rightarrow> mfa_error + bool \<Rightarrow> bool" where
  "revoke_promise whose ws r \<longleftrightarrow>
     (case r of Inr b \<Rightarrow> if b then (\<exists>u. whose u \<and> ws = [(u, Clear)]) else ws = [] | Inl _ \<Rightarrow> True)"

text \<open>A promise about the answer of a handler, as a promise about the outcome of its request.\<close>

definition via :: "('a \<Rightarrow> outcome) \<Rightarrow> (mfa_error + 'a \<Rightarrow> bool) \<Rightarrow> mfa_error + outcome \<Rightarrow> bool" where
  "via f P r \<longleftrightarrow> (\<exists>r'. r = map_sum id f r' \<and> P r')"

fun promised :: "app \<Rightarrow> request \<Rightarrow> deed list \<Rightarrow> mfa_error + outcome \<Rightarrow> bool" where
  "promised ap (Sign_in l em pw) ws = via Signed_in (signin_promise (ap_crypto ap) ws)"
| "promised ap (Sign_in_as us src oid pr) ws = via Signed_in (signin_promise (ap_crypto ap) ws)"
| "promised ap (Enroll_start token) ws = via (case_prod Setup) (start_promise ws)"
| "promised ap (Enroll_confirm token code) ws = via (case_prod Enrolled) (confirm_promise (ap_crypto ap) token code ws)"
| "promised ap (Verify_code token code recovery) ws = via Verified (verify_promise (ap_crypto ap) token code recovery ws)"
| "promised ap (Manage u cl code recovery replace) ws = via Managed (manage_promise (ap_crypto ap) u code recovery ws)"
| "promised ap (Redeem_reset token t) ws = via Redeemed (redeem_promise (ap_crypto ap) token ws)"
| "promised ap (Reset_account em re) ws = via Ticket (reset_promise (ap_crypto ap) ws)"
| "promised ap (Revoke_sessions u) ws = via Answer (revoke_promise (\<lambda>v. v = u) ws)"
| "promised ap (Set_password u h) ws = via Answer (revoke_promise (\<lambda>v. v = u) ws)"
| "promised ap (Update_password em pw rej h) ws = via Answer (revoke_promise (\<lambda>_. True) ws)"
| "promised ap (Pending_challenge token) ws = via Shown (\<lambda>_. ws = [])"
| "promised ap (Show_status u cl) ws = via Status (\<lambda>_. ws = [])"
| "promised ap (Check_token cl redis) ws = via Answer (\<lambda>_. ws = [])"

lemma wp_wrap_prog:
  assumes "wp G p (\<lambda>ws K D. P ws) ws K D"
  shows "wp G (wrap_prog f p) (\<lambda>ws K D. via f (P ws)) ws K D"
  unfolding wrap_prog_def wp_bind
proof (rule wp_mono [OF assms])
  fix ws K D r assume "P ws r"
  then have "via f (P ws) (map_sum id f r)" unfolding via_def by blast
  then show "then_post G (\<lambda>x. Ret (f x)) (\<lambda>ws K D. via f (P ws)) ws K D r"
    by (cases r) simp_all
qed

subsection \<open>Logins\<close>

text \<open>A promise that says nothing about errors which are not a verdict on a code.\<close>

lemma harmless_promise:
  "harmless (\<lambda>ws K D. verify_promise cr token code recovery ws) ws"
  "harmless (\<lambda>ws K D. confirm_promise cr token code ws) ws"
  "harmless (\<lambda>ws K D. manage_promise cr u code recovery ws) ws"
  "harmless (\<lambda>ws K D. signin_promise cr ws) ws"
  "harmless (\<lambda>ws K D. redeem_promise cr token ws) ws"
  "harmless (\<lambda>ws K D. reset_promise cr ws) ws"
  "harmless (\<lambda>ws K D. start_promise ws) ws"
  "harmless (\<lambda>ws K D. revoke_promise whose ws) ws"
  by (auto simp: harmless_def tame_def verify_promise_def confirm_promise_def manage_promise_def signin_promise_def
      redeem_promise_def reset_promise_def start_promise_def revoke_promise_def)

lemmas lost_promise = harmless_promise [THEN harmless_lost]

lemma wp_with_expiry: "(\<And>x. wp G (k x) Q ws K D) \<Longrightarrow> wp G (with_expiry d k) Q ws K D"
  by (simp add: with_expiry_def split: option.split)

lemma wp_create_session_response:
  assumes "harmless Q ws"
    and "\<And>s K D. cl_id (se_token s) = us_id user \<Longrightarrow> cl_mfa_verified (se_token s) = v \<Longrightarrow> Q ws K D (Inr s)"
  shows "wp G (create_session_response ex user source auth v tm) Q ws K D"
proof -
  have err: "Q ws K D (Inl (Http 409 msg h))" "Q ws K D (Inl (Http 401 ''Authenticator verification is required.'' h))" for msg h K D
    by (rule harmlessD [OF assms(1)], simp)+
  show ?thesis unfolding create_session_response_def wp_bind
    by (rule wp_get_auth) (use assms err in \<open>auto simp: Let_def create_token_def session_claims_def intro!: wp_with_expiry\<close>)
qed

lemma verify_keeps:
  "wp (thrifty cr) (verify_route cr ex token code recovery) (\<lambda>ws K D. verify_promise cr token code recovery ws) [] K D"
proof -
  let ?P = "\<lambda>ws K D. verify_promise cr token code recovery ws"
  have pass: "wp (thrifty cr) (bind_prog (consume_recorded cr v m code recovery) (\<lambda>mfa.
        bind_prog (save_mfa auth (mfa\<lparr>md_login_challenge := None\<rparr>) False) (\<lambda>updated.
          if recovery then Emit ev v (Ret (user, updated, ch)) else Ret (user, updated, ch))))
      (then_post (thrifty cr) (\<lambda>(user, auth, challenge). finish_login ex user auth challenge) ?P)
      [(u, Attempt Login_challenge (token_hash cr token) now)] K D"
    if u: "token_user token = Some u" "us_id user = u" "au_id auth = u" "auth \<in> K" "m = mfa_copy auth"
    for u v m auth user ch ev now K D
    unfolding wp_bind
  proof (rule wp_consume_recorded)
    fix f m' assume f: "spend f m = Some m'" "answers cr code recovery f"
    show "then_post (thrifty cr) (\<lambda>mfa. bind_prog (save_mfa auth (mfa\<lparr>md_login_challenge := None\<rparr>) False) (\<lambda>updated.
          if recovery then Emit ev v (Ret (user, updated, ch)) else Ret (user, updated, ch)))
        (then_post (thrifty cr) (\<lambda>(user, auth, challenge). finish_login ex user auth challenge) ?P)
        [(u, Attempt Login_challenge (token_hash cr token) now)] K D (Inr m')"
      unfolding then_post_simps wp_bind
      by (rule wp_save_mfa [of _ _ "Pass f"])
         (use u f in \<open>auto simp: harmless_promise lost_promise finish_login_def verify_promise_def charged_def
            intro!: wp_create_session_response\<close>)
  qed (use u in \<open>auto simp: harmless_promise verify_promise_def charged_def\<close>)
  show ?thesis unfolding verify_route_def verify_mfa_challenge_def wp_bind
    by (rule wp_load_attempt) (use pass in \<open>auto simp: harmless_promise lost_promise\<close>)
qed

lemma wp_enrollment_step:
  assumes "harmless Q ws" and "\<And>K D. Q ws K D (Inr None)"
    and "\<And>e n. ch_secret c = Some e \<Longrightarrow> answers cr code False (Step e n) \<Longrightarrow> Q ws K D (Inr (Some n))"
  shows "wp G (enrollment_step cr c code) Q ws K D"
proof (cases "present (ch_secret c)")
  case True
  then obtain e where e: "ch_secret c = Some e" by (auto simp: present_def)
  have unreadable: "Q ws K D (Inl err)" if "decrypt_secret cr e = Inl err" for err
    by (rule harmlessD [OF assms(1)]) (use that in \<open>auto simp: decrypt_secret_def split: option.splits\<close>)
  have "Q ws K D (Inr (matching_step cr now secret (py_strip code) (- 1)))" if "decrypt_secret cr e = Inr secret" for secret now
  proof (cases "matching_step cr now secret (py_strip code) (- 1)")
    case (Some n)
    have "answers cr code False (Step e n)"
      using that matching_step_Some [OF Some] by (auto simp: answers_def decrypt_secret_def split: option.splits)
    then show ?thesis unfolding Some by (rule assms(3) [OF e])
  qed (simp add: assms(2))
  with True unreadable show ?thesis by (cases "decrypt_secret cr e") (simp_all add: enrollment_step_def e)
qed (simp add: enrollment_step_def assms(2))

lemma wp_store_enrollment:
  assumes auth: "auth \<in> K" "get_slot s (mfa_copy auth) = Some c" "ch_secret c = Some e"
    and plain: "list_all (\<lambda>d. supported cr D0 d \<and> \<not> creative (snd d)) ws" "\<And>D. list_all (supported cr D) ws"
    and "harmless Q ws" and "\<And>codes. lost Q ((au_id auth, Enroll s e n (map (token_hash cr) codes)) # ws)"
    and success: "\<And>codes upd K D. Q ((au_id auth, Enroll s e n (map (token_hash cr) codes)) # ws) K D (Inr (user, upd, c, codes))"
  shows "wp (thrifty cr) (store_enrollment cr user auth (mfa_copy auth) c n) Q ws K D"
  unfolding store_enrollment_def wp_bind
proof (rule wp_recovery_codes)
  fix codes D' :: "string list" assume codes: "distinct codes" "set codes \<subseteq> set D'"
  have "supported cr D' (au_id auth, Enroll s e n (map (token_hash cr) codes))"
    by (rule supported_codes [of _ _ codes]) (use codes in simp_all)
  then have "thrifty cr ((au_id auth, Enroll s e n (map (token_hash cr) codes)) # ws) D'"
    by (rule thrifty_one) (use plain in \<open>auto simp: list_all_iff\<close>)
  then show "then_post (thrifty cr) (\<lambda>(codes, hashes).
       bind_prog (save_mfa auth (enrolled (ch_secret c) n hashes (mfa_copy auth)) True) (\<lambda>updated.
         Emit (if ch_type c = Type_replace then ''auth.mfa.replaced'' else ''auth.mfa.enrolled'')
           (us_id user) (Ret (user, updated, c, codes)))) Q ws K D' (Inr (codes, map (token_hash cr) codes))"
    unfolding then_post_simps prod.case wp_bind
    by (intro wp_save_mfa [of _ _ "Enroll s e n (map (token_hash cr) codes)"]) (use assms in auto)
qed

lemma confirm_keeps:
  "wp (thrifty cr) (confirm_route cr ex token code) (\<lambda>ws K D. confirm_promise cr token code ws) [] K D"
proof -
  let ?P = "\<lambda>ws K D. confirm_promise cr token code ws"
  let ?rest = "\<lambda>(user, auth, challenge, codes). if ch_type challenge = Type_replace then Ret (None, codes)
       else bind_prog (finish_login ex user auth challenge) (\<lambda>s. Ret (Some s, codes))"
  have judge: "wp (thrifty cr) (bind_prog (enrollment_step cr c code) (\<lambda>matched. case matched of
            None \<Rightarrow> Emit ev v (Raise (Http 401 ''Invalid code. Check your authenticator and try again.'' None))
          | Some step \<Rightarrow> store_enrollment cr user auth (mfa_copy auth) c step))
      (then_post (thrifty cr) ?rest ?P) [(u, Attempt s (token_hash cr token) now)] K D"
    if u: "token_user token = Some u" "us_id user = u" "au_id auth = u" "auth \<in> K" "get_slot s (mfa_copy auth) = Some c"
    for u user auth c s now K D ev v
    unfolding wp_bind
  proof (rule wp_enrollment_step)
    fix e n assume e: "ch_secret c = Some e" "answers cr code False (Step e n)"
    have "wp (thrifty cr) (store_enrollment cr user auth (mfa_copy auth) c n) (then_post (thrifty cr) ?rest ?P)
        [(u, Attempt s (token_hash cr token) now)] K D"
      by (rule wp_store_enrollment [where s = s and e = e])
         (use u e in \<open>auto simp: harmless_promise lost_promise finish_login_def confirm_promise_def charged_def
            intro!: wp_create_session_response\<close>)
    then show "then_post (thrifty cr) (\<lambda>matched. case matched of
            None \<Rightarrow> Emit ev v (Raise (Http 401 ''Invalid code. Check your authenticator and try again.'' None))
          | Some step \<Rightarrow> store_enrollment cr user auth (mfa_copy auth) c step)
        (then_post (thrifty cr) ?rest ?P) [(u, Attempt s (token_hash cr token) now)] K D (Inr (Some n))" by simp
  qed (use u in \<open>auto simp: harmless_promise confirm_promise_def charged_def\<close>)
  show ?thesis unfolding confirm_route_def confirm_mfa_enrollment_def wp_bind
    by (rule wp_load_attempt) (use judge in \<open>auto simp: harmless_promise lost_promise\<close>)
qed

subsection \<open>Management, reset and revocation\<close>

lemma thrifty_issue:
  assumes "challenge_of a = Some c" "codes_of a = []" "ch_token_hash c = token_hash cr (u @ ''.'' @ t)" "t \<in> set D"
    and "list_all (\<lambda>d. supported cr D d \<and> \<not> creative (snd d)) ws"
  shows "thrifty cr ((u, a) # ws) D"
  by (rule thrifty_one [OF supported_issue [OF assms(1-4)] assms(5)])

lemma wp_issue_replacement:
  assumes "auth \<in> K" "spend f (mfa_copy auth) = Some m" "answers cr code recovery f" "au_id auth = u"
  shows "wp (thrifty cr) (issue_replacement cr u cl recovery auth m) (\<lambda>ws K D. manage_promise cr u code recovery ws)
           [(u, Charge ''factor'' now)] K D"
proof (cases "cl_auth_method cl"; cases "cl_auth_time cl")
  fix am tm assume cl: "cl_auth_method cl = Some am" "cl_auth_time cl = Some tm"
  let ?P = "\<lambda>ws K D. manage_promise cr u code recovery ws"
  show ?thesis unfolding issue_replacement_def cl prod.case option.case wp_bind
  proof (rule wp_new_challenge)
    fix t c and D' :: "string list"
    assume c: "unused c" "ch_token_hash c = token_hash cr (au_id auth @ ''.'' @ t)" "t \<in> set D'"
    have G: "thrifty cr ((u, Replace f c) # [(u, Charge ''factor'' now)]) D'"
      by (rule thrifty_issue [of _ c _ _ t]) (use c assms(4) in simp_all)
    show "then_post (thrifty cr) (\<lambda>(token, challenge).
            bind_prog (save_mfa auth (m\<lparr>md_manage_challenge := Some challenge\<rparr>) False) (\<lambda>_.
              let answer = bind_prog (challenge_response token challenge) (\<lambda>c. Ret (Manage_challenge_reply c))
              in if recovery then Emit ''auth.mfa.recovery_used'' u answer else answer))
          ?P [(u, Charge ''factor'' now)] K D' (Inr (au_id auth @ ''.'' @ t, c))"
      unfolding then_post_simps prod.case wp_bind
      by (rule wp_save_mfa [of _ _ "Replace f c"])
         (use assms c G in \<open>auto simp: harmless_promise lost_promise Let_def manage_promise_def intro!: wp_challenge_response\<close>)
  qed
qed (simp_all add: issue_replacement_def manage_promise_def invalid_code_def)

lemma wp_regenerate_codes:
  assumes "auth \<in> K" "spend f (mfa_copy auth) = Some m" "answers cr code recovery f" "au_id auth = u"
  shows "wp (thrifty cr) (regenerate_codes cr u auth m) (\<lambda>ws K D. manage_promise cr u code recovery ws)
           [(u, Charge ''factor'' now)] K D"
  unfolding regenerate_codes_def wp_bind
proof (rule wp_recovery_codes)
  fix codes D' :: "string list" assume codes: "distinct codes" "set codes \<subseteq> set D'"
  have "supported cr D' (u, Regenerate f (map (token_hash cr) codes))"
    by (rule supported_codes [of _ _ codes]) (use codes in simp_all)
  then have "thrifty cr [(u, Regenerate f (map (token_hash cr) codes)), (u, Charge ''factor'' now)] D'"
    by (rule thrifty_one) simp
  then show "then_post (thrifty cr) (\<lambda>(codes, hashes).
       bind_prog (save_mfa auth ((clear_challenges m)\<lparr>md_recovery_hashes := hashes\<rparr>) True) (\<lambda>_.
         Emit ''auth.mfa.recovery_codes_regenerated'' u (Ret (Recovery_codes codes))))
      (\<lambda>ws K D. manage_promise cr u code recovery ws) [(u, Charge ''factor'' now)] K D' (Inr (codes, map (token_hash cr) codes))"
    unfolding then_post_simps prod.case wp_bind
    by (intro wp_save_mfa [of _ _ "Regenerate f (map (token_hash cr) codes)"])
       (use assms in \<open>auto simp: harmless_promise lost_promise manage_promise_def\<close>)
qed

lemma manage_keeps:
  "wp (thrifty cr) (manage_mfa cr u cl code recovery replace) (\<lambda>ws K D. manage_promise cr u code recovery ws) [] K D"
proof -
  let ?P = "\<lambda>ws K D. manage_promise cr u code recovery ws"
  have factor: "wp (thrifty cr) (bind_prog (consume_recorded cr u (mfa_copy auth) code recovery) (\<lambda>mfa.
           if replace then issue_replacement cr u cl recovery auth mfa else regenerate_codes cr u auth mfa)) ?P
        [(u, Charge ''factor'' now)] K D" if "auth \<in> K" "au_id auth = u" for auth now K D
    unfolding wp_bind
    by (rule wp_consume_recorded)
       (use that in \<open>auto simp: harmless_promise manage_promise_def intro: wp_issue_replacement wp_regenerate_codes\<close>)
  have "wp (thrifty cr) (bind_prog (limit_account u ''factor'' (Some (cl_session_stamp cl))) (\<lambda>auth.
         bind_prog (consume_recorded cr u (mfa_copy auth) code recovery) (\<lambda>mfa.
           if replace then issue_replacement cr u cl recovery auth mfa
           else regenerate_codes cr u auth mfa))) ?P [] K D"
    unfolding limit_account_def wp_bind
    by (rule wp_limit_account_loop) (use factor in \<open>simp_all add: harmless_promise lost_promise del: wp_bind\<close>)
  moreover have "?P [] K D (Inl (Http 403 msg h))" for msg h by (simp add: manage_promise_def invalid_code_def)
  ultimately show ?thesis by (simp add: manage_mfa_def del: wp_bind)
qed

lemma redeem_keeps:
  "wp (thrifty cr) (redeem_mfa_reset_token cr token t) (\<lambda>ws K D. redeem_promise cr token ws) [] K D"
proof -
  let ?P = "\<lambda>ws K D. redeem_promise cr token ws"
  have issue: "wp (thrifty cr) (bind_prog (new_challenge cr auth Type_enroll am tm oid pr) (\<lambda>(new_token, enroll).
                bind_prog (save_mfa auth ((mfa_copy auth)\<lparr>md_reset_ticket := None, md_login_challenge := Some enroll\<rparr>) False)
                  (\<lambda>_. challenge_response new_token enroll))) ?P [(u, Attempt Login_challenge (token_hash cr token) now)] K D"
    if u: "token_user token = Some u" "au_id auth = u" "auth \<in> K" "md_reset_required (mfa_copy auth)" "md_reset_ticket (mfa_copy auth) \<noteq> None"
    for u auth am tm oid pr now K D
    unfolding wp_bind
  proof (rule wp_new_challenge)
    fix x c and D' :: "string list"
    assume c: "unused c" "ch_token_hash c = token_hash cr (au_id auth @ ''.'' @ x)" "x \<in> set D'"
    have G: "thrifty cr ((u, Redeem c) # [(u, Attempt Login_challenge (token_hash cr token) now)]) D'"
      by (rule thrifty_issue [of _ c _ _ x]) (use c u(2) in simp_all)
    show "then_post (thrifty cr) (\<lambda>(new_token, enroll).
                bind_prog (save_mfa auth ((mfa_copy auth)\<lparr>md_reset_ticket := None, md_login_challenge := Some enroll\<rparr>) False)
                  (\<lambda>_. challenge_response new_token enroll)) ?P
          [(u, Attempt Login_challenge (token_hash cr token) now)] K D' (Inr (au_id auth @ ''.'' @ x, c))"
      unfolding then_post_simps prod.case wp_bind
      by (rule wp_save_mfa [of _ _ "Redeem c"])
         (use u c G in \<open>auto simp: harmless_promise lost_promise redeem_promise_def charged_def intro!: wp_challenge_response\<close>)
  qed
  have refused: "?P ws K D (Inl e)" for ws K D e by (simp add: redeem_promise_def)
  show ?thesis unfolding redeem_mfa_reset_token_def wp_bind
    by (rule wp_load_attempt) (use refused in \<open>auto simp: harmless_promise lost_promise split: option.splits simp del: wp_bind intro!: issue\<close>)
qed

lemma reset_keeps: "wp (thrifty cr) (reset_mfa cr email reason) (\<lambda>ws K D. reset_promise cr ws) [] K D"
proof -
  have store: "wp (thrifty cr) (bind_prog (save_mfa auth (reset_state \<lparr>ti_token_hash = token_hash cr ticket, ti_expires_at = tm\<rparr>
                              (mfa_copy auth)) True) (\<lambda>_. Emit ev u (Ret ticket))) (\<lambda>ws K D. reset_promise cr ws) [] K D"
    if "auth \<in> K" for auth ticket tm ev u K D
    unfolding wp_bind
    by (rule wp_save_mfa [of _ _ "Reset \<lparr>ti_token_hash = token_hash cr ticket, ti_expires_at = tm\<rparr>"])
       (use that in \<open>auto simp: harmless_promise lost_promise reset_promise_def\<close>)
  have refused: "reset_promise cr ws (Inl e)" for ws e by (simp add: reset_promise_def)
  have "wp (thrifty cr) (bind_prog (get_auth u) (\<lambda>auth. Random (\<lambda>ticket. Time (\<lambda>now.
                 bind_prog (save_mfa auth (reset_state \<lparr>ti_token_hash = token_hash cr ticket, ti_expires_at = now + 1800\<rparr>
                              (mfa_copy auth)) True) (\<lambda>_. Emit ev u (Ret ticket)))))) (\<lambda>ws K D. reset_promise cr ws) [] K D" for u ev
    unfolding wp_bind [of _ "get_auth u"]
    by (rule wp_get_auth) (use store in \<open>auto simp: harmless_promise simp del: wp_bind\<close>)
  then show ?thesis by (simp add: reset_mfa_def refused split: option.split del: wp_bind)
qed

lemma start_keeps: "wp (thrifty cr) (start_mfa_enrollment cr token) (\<lambda>ws K D. start_promise ws) [] K D"
proof -
  have refused: "start_promise ws (Inl e)" for ws e by (simp add: start_promise_def)
  have prepare: "wp (thrifty cr) (save_mfa auth (set_slot s (Some (c\<lparr>ch_secret := Some e\<rparr>)) (mfa_copy auth)) False)
      (then_post (thrifty cr) (\<lambda>_. Ret (secret, us_email user)) (\<lambda>ws K D. start_promise ws)) [] K D"
    if "auth \<in> K" "get_slot s (mfa_copy auth) = Some c" "\<not> present (ch_secret c)" "fernet_encrypt cr secret iv = Some e" "iv \<in> set D"
    for auth s c e secret user iv K D
  proof (rule wp_save_mfa [of _ _ "Prepare s e"])
    show "thrifty cr [(au_id auth, Prepare s e)] D"
      using that(4,5) by (auto simp: thrifty_def supported_def)
  qed (use that in \<open>auto simp: harmless_promise lost_promise start_promise_def\<close>)
  show ?thesis unfolding start_mfa_enrollment_def wp_bind
    by (rule wp_load_look) (use refused in \<open>auto simp: harmless_promise start_promise_def then_post_def split: option.split sum.split intro!: prepare\<close>)
qed

lemma revoke_keeps:
  "wp (thrifty cr) (revoke_sessions_by_user_id u) (\<lambda>ws K D. revoke_promise (\<lambda>v. v = u) ws) [] K D"
  by (auto simp: revoke_sessions_by_user_id_def revoke_promise_def split: reply.split)

lemma wp_change:
  assumes "auth \<in> K" and "whose (au_id auth)"
  shows "wp (thrifty cr) (update_user_password_by_id v hashed (Some auth)) (\<lambda>ws K D. revoke_promise whose ws) [] K D"
  using assms by (auto simp: update_user_password_by_id_def revoke_promise_def split: reply.split)

lemma set_password_keeps:
  "wp (thrifty cr) (update_user_password_by_id u hashed None) (\<lambda>ws K D. revoke_promise (\<lambda>v. v = u) ws) [] K D"
  by (auto simp: update_user_password_by_id_def revoke_promise_def split: reply.split)

lemma wp_authenticate_user:
  assumes "harmless Q ws" and "\<And>K D. Q ws K D (Inr None)"
    and "\<And>user a K D. a \<in> K \<Longrightarrow> au_id a = us_id user \<Longrightarrow> Q ws K D (Inr (Some (user, a)))"
  shows "wp G (authenticate_user matches email) Q ws K D"
proof -
  have "Q ws K D (Inl database_error)" for K D by (rule harmlessD [OF assms(1)]) (simp add: database_error_def)
  then show ?thesis by (simp add: authenticate_user_def assms(2,3) split: option.split)
qed

lemma update_password_keeps:
  "wp (thrifty cr) (update_password matches email rejected hashed) (\<lambda>ws K D. revoke_promise (\<lambda>_. True) ws) [] K D"
proof -
  have refused: "revoke_promise whose ws (Inl e)" for whose ws e by (simp add: revoke_promise_def)
  have change: "wp (thrifty cr) (update_user_password_by_id v hashed (Some a))
      (except_post (thrifty cr) h (then_post (thrifty cr) (\<lambda>b. if b then Emit ev w (Ret b) else Ret b) (\<lambda>ws K D. revoke_promise (\<lambda>_. True) ws))) [] K D"
    if "a \<in> K" and h: "\<And>e. \<exists>e'. h e = Raise e'" for a v h ev w K D
  proof (rule wp_mono [OF wp_change [of a K "\<lambda>_. True"]])
    fix ws K D r assume r: "revoke_promise (\<lambda>_. True) ws r"
    show "except_post (thrifty cr) h (then_post (thrifty cr) (\<lambda>b. if b then Emit ev w (Ret b) else Ret b)
        (\<lambda>ws K D. revoke_promise (\<lambda>_. True) ws)) ws K D r"
    proof (cases r)
      case (Inl e)
      from h obtain e' where "h e = Raise e'" by blast
      then show ?thesis by (simp add: Inl refused)
    next
      case (Inr b)
      with r show ?thesis by (cases b) simp_all
    qed
  qed (use that in auto)
  show ?thesis unfolding update_password_def wp_bind
    by (rule wp_authenticate_user)
       (auto simp: harmless_promise refused split: option.split mfa_error.split intro!: change)
qed

lemma wp_start_mfa_login:
  assumes "auth \<in> K" and "list_all (\<lambda>d. \<exists>now. snd d = Charge ''password'' now) ws"
  shows "wp (thrifty cr) (start_mfa_login cr auth am oid pr) (then_post (thrifty cr) (\<lambda>c. Ret (Challenge c)) (\<lambda>ws K D. signin_promise cr ws)) ws K D"
proof -
  have "wp (thrifty cr) (new_challenge cr auth kind am now oid pr) (then_post (thrifty cr) (\<lambda>(token, challenge).
                bind_prog (save_mfa auth ((mfa_copy auth)\<lparr>md_login_challenge := Some challenge\<rparr>) False)
                  (\<lambda>_. challenge_response token challenge)) (then_post (thrifty cr) (\<lambda>c. Ret (Challenge c)) (\<lambda>ws K D. signin_promise cr ws))) ws K D" for kind now
  proof (rule wp_new_challenge)
    fix t c and D' :: "string list"
    assume c: "unused c" "ch_token_hash c = token_hash cr (au_id auth @ ''.'' @ t)" "t \<in> set D'"
    have "list_all (\<lambda>d. supported cr D' d \<and> \<not> creative (snd d)) ws"
      using assms(2) by (auto simp: list_all_iff elim!: ballE)
    then have "thrifty cr ((au_id auth, Begin c) # ws) D'"
      by (intro thrifty_issue [of _ c _ _ t]) (use c in simp_all)
    then show "then_post (thrifty cr) (\<lambda>(token, challenge).
                bind_prog (save_mfa auth ((mfa_copy auth)\<lparr>md_login_challenge := Some challenge\<rparr>) False)
                  (\<lambda>_. challenge_response token challenge)) (then_post (thrifty cr) (\<lambda>c. Ret (Challenge c)) (\<lambda>ws K D. signin_promise cr ws))
          ws K D' (Inr (au_id auth @ ''.'' @ t, c))"
      unfolding then_post_simps prod.case wp_bind
      by (intro wp_save_mfa [of _ _ "Begin c"])
         (use assms c in \<open>auto simp: harmless_promise lost_promise signin_promise_def intro!: wp_challenge_response\<close>)
  qed
  then show ?thesis by (simp add: start_mfa_login_def Let_def)
qed

abbreviation password_charges :: "deed list \<Rightarrow> bool" where
  "password_charges ws \<equiv> list_all (\<lambda>d. \<exists>now. snd d = Charge ''password'' now) ws"

lemma wp_create_signin_response:
  assumes "password_charges ws"
  shows "wp (thrifty cr) (create_signin_response cr ex user source auth oid pr) (\<lambda>ws K D. signin_promise cr ws) ws K D"
proof -
  let ?P = "\<lambda>ws K D. signin_promise cr ws"
  have refused: "signin_promise cr ws (Inl e)" for ws e by (simp add: signin_promise_def)
  have session: "wp (thrifty cr) (create_session_response ex user source a False None) (then_post (thrifty cr) (\<lambda>s. Ret (Session s)) ?P) ws K D" for a K D
    by (rule wp_create_session_response) (use assms in \<open>simp_all add: harmless_promise signin_promise_def\<close>)
  have gate: "wp (thrifty cr) (get_auth (us_id user)) (then_post (thrifty cr) (\<lambda>current.
         if au_session_stamp current \<noteq> au_session_stamp auth \<or> au_password current \<noteq> au_password auth
         then Raise (Http 409 ''Authentication changed. Please sign in again.'' None)
         else Get_mfa_config (\<lambda>config.
           if ENABLE_MFA config \<and> us_role user \<noteq> ''admin'' \<and> us_role user \<noteq> ''user'' then Ret Pending
           else if is_mfa_required source config
           then bind_prog (start_mfa_login cr current source oid pr) (\<lambda>c. Ret (Challenge c))
           else bind_prog (create_session_response ex user source current False None) (\<lambda>s. Ret (Session s)))) ?P) ws K D" for auth K D
    by (rule wp_get_auth)
       (use assms session in \<open>auto simp: harmless_promise refused signin_promise_def [of _ _ "Inr Pending"] intro!: wp_start_mfa_login\<close>)
  show ?thesis
  proof (cases auth)
    case None
    show ?thesis unfolding create_signin_response_def None option.case wp_bind
      by (rule wp_get_auth) (use gate in \<open>simp_all add: harmless_promise\<close>)
  next
    case (Some a)
    show ?thesis unfolding create_signin_response_def Some option.case wp_bind wp.simps then_post_simps by (rule gate)
  qed
qed

lemma signin_keeps:
  "wp (thrifty cr) (signin cr ex limited email matches) (\<lambda>ws K D. signin_promise cr ws) [] K D"
proof -
  let ?P = "\<lambda>ws K D. signin_promise cr ws"
  have refused: "signin_promise cr ws (Inl e)" for ws e by (simp add: signin_promise_def)
  have enter: "wp (thrifty cr) (bind_prog (authenticate_user matches x) (\<lambda>authenticated. case authenticated of
               None \<Rightarrow> Raise err
             | Some (user, auth) \<Rightarrow> create_signin_response cr ex user ''password'' (Some auth) None None)) ?P ws K D"
    if "password_charges ws" for ws x K D err
    unfolding wp_bind
    by (rule wp_authenticate_user) (use that in \<open>auto simp: harmless_promise refused intro!: wp_create_signin_response\<close>)
  have limit: "wp (thrifty cr) (limit_account u ''password'' None)
      (then_post (thrifty cr) (\<lambda>_. Ret ()) (then_post (thrifty cr) (\<lambda>_. bind_prog (authenticate_user matches x) (\<lambda>authenticated. case authenticated of
               None \<Rightarrow> Raise err
             | Some (user, auth) \<Rightarrow> create_signin_response cr ex user ''password'' (Some auth) None None)) ?P)) [] K D" for u x K D err
    unfolding limit_account_def
    by (rule wp_limit_account_loop) (use enter in \<open>simp_all add: harmless_promise lost_promise del: wp_bind\<close>)
  show ?thesis
    using limit enter [of "[]"] by (auto simp: signin_def refused split: option.split)
qed

lemma pending_keeps:
  "wp (thrifty cr) (pending_challenge cr token) (\<lambda>ws K D r. ws = []) [] K D"
  unfolding pending_challenge_def wp_catch wp_bind
  by (rule wp_load_look) (auto simp: harmless_def except_post_def split: mfa_error.split intro!: wp_challenge_response)

lemma status_keeps: "wp (thrifty cr) (get_mfa_status u cl) (\<lambda>ws K D r. ws = []) [] K D"
  unfolding get_mfa_status_def wp_bind by (rule wp_get_auth) (simp_all add: harmless_def)

lemma check_keeps: "wp (thrifty cr) (is_valid_token prefix redis cl) (\<lambda>ws K D r. ws = []) [] K D"
  unfolding is_valid_token_def wp_bind by (rule wp_get_auth) (auto simp: harmless_def Let_def)

text \<open>Every request keeps its promise, whatever runs beside it.\<close>

theorem handle_keeps:
  "wp (thrifty (ap_crypto ap)) (handle ap req) (\<lambda>ws K D. promised ap req ws) [] K D"
  by (cases req)
     (simp_all add: wp_wrap_prog signin_keeps wp_create_signin_response start_keeps confirm_keeps verify_keeps manage_keeps
       redeem_keeps reset_keeps revoke_keeps set_password_keeps update_password_keeps pending_keeps status_keeps check_keeps)

end
