(* ===== verification/Mfa_Concurrent.thy ===== *)
theory Mfa_Concurrent
  imports Mfa_Requests
begin

text \<open>
  Many requests at once on one credential table. A step lets one request continue to its next awaited
  call, or loses an answer of the database, or changes what the requests do not own: the clock, the
  settings, the users, new and deleted accounts. The order of the steps is any list of choices. The
  main theorem is that every such run is explained by a sequence of atomic actions.
\<close>

subsection \<open>The system\<close>

record mfa_system =
  sy_rows :: auth_table
  sy_users :: "mfa_user list"
  sy_config :: mfa_config
  sy_clock :: int
  sy_used :: "string list"
  sy_threads :: "(request \<times> outcome prog) list"
  sy_events :: "(string \<times> string) list"

definition start_system :: mfa_system where
  "start_system =
     \<lparr>sy_rows = [], sy_users = [],
      sy_config = \<lparr>ENABLE_MFA = False, MFA_ALLOW_OAUTH_BYPASS = False, MFA_ALLOW_TRUSTED_HEADER_BYPASS = False\<rparr>,
      sy_clock = 0, sy_used = [], sy_threads = [], sy_events = []\<rparr>"

text \<open>
  The choices of a schedule. \<open>Advance i x y\<close> answers the next call of request \<open>i\<close>, with \<open>x\<close> and
  \<open>y\<close> for the random values the call draws; \<open>Lose i\<close> lets a database call fail, and \<open>Lose_late\<close>
  lets it fail although its transaction was committed.
\<close>

datatype choice =
    Arrive request
  | Advance nat string string
  | Lose nat
  | Lose_late nat string string
  | Tick int
  | Configure mfa_config
  | Set_users "mfa_user list"
  | Create string string string string
  | Set_email string string
  | Remove string

text \<open>\<open>func.lower(User.email) == email.lower()\<close>.\<close>

definition user_by_email :: "string \<Rightarrow> mfa_user list \<Rightarrow> mfa_user option" where
  "user_by_email email us = find (\<lambda>u. map ascii_lower (us_email u) = map ascii_lower email) us"

definition user_by_id :: "string \<Rightarrow> mfa_user list \<Rightarrow> mfa_user option" where
  "user_by_id i us = find (\<lambda>u. us_id u = i) us"

text \<open>What a call does to the table, and its answer.\<close>

fun store :: "string \<Rightarrow> string \<Rightarrow> 'a prog \<Rightarrow> auth_table \<Rightarrow> auth_table" where
  "store x y (Update_mfa_by_id a m rv k) rows = snd (update_mfa_by_id a m rv x y rows)"
| "store x y (Clear_sessions a k) rows = (case clear_sessions a x y rows of None \<Rightarrow> rows | Some rows' \<Rightarrow> rows')"
| "store x y (Change_password u a m p k) rows = snd (change_password u a m p x y rows)"
| "store x y p rows = rows"

fun answer :: "string \<Rightarrow> string \<Rightarrow> 'a prog \<Rightarrow> mfa_system \<Rightarrow> 'a prog" where
  "answer x y (Get_auth_by_id u k) sys = k (Reply (get_auth_by_id u (sy_rows sys)))"
| "answer x y (Update_mfa_by_id a m rv k) sys = k (Reply (fst (update_mfa_by_id a m rv x y (sy_rows sys))))"
| "answer x y (Clear_sessions a k) sys = k (Reply (clear_sessions a x y (sy_rows sys) \<noteq> None))"
| "answer x y (Change_password u a m p k) sys = k (Reply (fst (change_password u a m p x y (sy_rows sys))))"
| "answer x y (Get_user_by_id u k) sys = k (user_by_id u (sy_users sys))"
| "answer x y (Get_user_by_email e k) sys = k (user_by_email e (sy_users sys))"
| "answer x y (Get_mfa_config k) sys = k (sy_config sys)"
| "answer x y (Time k) sys = k (sy_clock sys)"
| "answer x y (Random k) sys = k x"
| "answer x y (Emit ev u p) sys = p"
| "answer x y p sys = p"

fun fault :: "'a prog \<Rightarrow> 'a prog" where
  "fault (Get_auth_by_id u k) = k Fault"
| "fault (Update_mfa_by_id a m rv k) = k Fault"
| "fault (Clear_sessions a k) = k Fault"
| "fault (Change_password u a m p k) = k Fault"
| "fault p = p"

fun emitted :: "'a prog \<Rightarrow> (string \<times> string) list" where
  "emitted (Emit ev u p) = [(ev, u)]"
| "emitted p = []"

definition set_thread :: "nat \<Rightarrow> outcome prog \<Rightarrow> mfa_system \<Rightarrow> mfa_system" where
  "set_thread i p sys = sys\<lparr>sy_threads := (sy_threads sys)[i := (fst (sy_threads sys ! i), p)]\<rparr>"

definition thread :: "mfa_system \<Rightarrow> nat \<Rightarrow> outcome prog" where
  "thread sys i = snd (sy_threads sys ! i)"

definition fresh :: "string list \<Rightarrow> mfa_system \<Rightarrow> bool" where
  "fresh xs sys \<longleftrightarrow> distinct xs \<and> list_all (\<lambda>x. x \<notin> set (sy_used sys)) xs"

definition add_rows :: "auth_table result \<Rightarrow> mfa_system \<Rightarrow> mfa_system" where
  "add_rows r sys = (case r of Inl _ \<Rightarrow> sys | Inr rows \<Rightarrow> sys\<lparr>sy_rows := rows\<rparr>)"

fun exec :: "choice \<Rightarrow> app \<Rightarrow> mfa_system \<Rightarrow> mfa_system" where
  "exec (Arrive req) ap sys = sys\<lparr>sy_threads := sy_threads sys @ [(req, handle ap req)]\<rparr>"
| "exec (Advance i x y) ap sys =
     (if i < length (sy_threads sys) \<and> fresh [x, y] sys
      then (set_thread i (answer x y (thread sys i) sys) sys)
             \<lparr>sy_rows := store x y (thread sys i) (sy_rows sys), sy_used := x # y # sy_used sys,
              sy_events := sy_events sys @ emitted (thread sys i)\<rparr>
      else sys)"
| "exec (Lose i) ap sys =
     (if i < length (sy_threads sys) then set_thread i (fault (thread sys i)) sys else sys)"
| "exec (Lose_late i x y) ap sys =
     (if i < length (sy_threads sys) \<and> fresh [x, y] sys
      then (set_thread i (fault (thread sys i)) sys)
             \<lparr>sy_rows := store x y (thread sys i) (sy_rows sys), sy_used := x # y # sy_used sys\<rparr>
      else sys)"
| "exec (Tick t) ap sys = sys\<lparr>sy_clock := t\<rparr>"
| "exec (Configure c) ap sys = sys\<lparr>sy_config := c\<rparr>"
| "exec (Set_users us) ap sys = sys\<lparr>sy_users := us\<rparr>"
| "exec (Create new_id stamp email password) ap sys =
     (if fresh [new_id, stamp] sys
      then (add_rows (insert_new_auth new_id stamp email password (sy_rows sys)) sys)
             \<lparr>sy_used := new_id # stamp # sy_used sys\<rparr>
      else sys)"
| "exec (Set_email u email) ap sys = sys\<lparr>sy_rows := snd (update_email_by_id u email (sy_rows sys))\<rparr>"
| "exec (Remove u) ap sys = sys\<lparr>sy_rows := delete_auth_by_id u (sy_rows sys)\<rparr>"

definition run :: "app \<Rightarrow> choice list \<Rightarrow> mfa_system" where
  "run ap cs = fold (\<lambda>c. exec c ap) cs start_system"

fun result_of :: "'a prog \<Rightarrow> (mfa_error + 'a) option" where
  "result_of (Ret x) = Some (Inr x)"
| "result_of (Raise e) = Some (Inl e)"
| "result_of p = None"

subsection \<open>Explaining a run\<close>

text \<open>The abstract state of an account: its row without the revision.\<close>

definition erase :: "mfa_data \<Rightarrow> mfa_data" where
  "erase m = m\<lparr>md_revision := []\<rparr>"

definition state_of :: "auth_row option \<Rightarrow> mfa_data" where
  "state_of r = (case r of None \<Rightarrow> new_mfa_data [] | Some r \<Rightarrow> erase (mfa_copy r))"

definition accounts_of :: "auth_table \<Rightarrow> accounts" where
  "accounts_of rows = (\<lambda>u. state_of (get_auth_by_id u rows))"

text \<open>A log of actions with the request that performed each, and the actions of one request.\<close>

type_synonym mfa_log = "(nat option \<times> deed) list"

definition own :: "nat \<Rightarrow> mfa_log \<Rightarrow> deed list" where
  "own i trail = rev (map snd (filter (\<lambda>e. fst e = Some i) trail))"

lemma own_append [simp]: "own i (trail @ map (\<lambda>d. (Some i, d)) ds) = rev ds @ own i trail"
  by (simp add: own_def filter_map comp_def)

lemma own_other [simp]: "i \<noteq> j \<Longrightarrow> own j (trail @ map (\<lambda>d. (Some i, d)) ds) = own j trail"
  by (simp add: own_def filter_map comp_def)

lemma own_none [simp]: "own i (trail @ [(None, d)]) = own i trail"
  by (simp add: own_def)

text \<open>Actions do not look at the revision.\<close>

lemma erase_simps [simp]:
  "get_slot s (erase m) = get_slot s m" "erase (set_slot s c m) = set_slot s c (erase m)"
  "current_limit (erase m) = current_limit m"
  "erase (count_attempt m kind now) = count_attempt (erase m) kind now"
  "erase (clear_challenges m) = clear_challenges (erase m)"
  "erase (enrolled e n hs m) = enrolled e n hs (erase m)"
  "erase (reset_state t m) = reset_state t (erase m)"
  "erase (new_mfa_data []) = new_mfa_data []" "erase (m\<lparr>md_revision := x\<rparr>) = erase m" "erase (erase m) = erase m"
  by (cases s; simp add: erase_def get_slot_def set_slot_def current_limit_def fun_eq_iff count_attempt_def Let_def
      clear_challenges_def enrolled_def reset_state_def new_mfa_data_def)+

lemma erase_charge [simp]: "erase (charge_attempt s c now m) = charge_attempt s c now (erase m)"
  by (simp add: charge_attempt_def)

lemma spend_erase: "spend f (erase m) = map_option erase (spend f m)"
  by (cases f) (simp_all add: erase_def)

lemma perform_erase: "perform a (erase m) = map_option erase (perform a m)"
proof (cases a)
  case (Attempt s d now)
  then show ?thesis by (simp split: option.split)
next
  case (Prepare s e)
  then show ?thesis by (simp split: option.split)
next
  case (Enroll s e n hs)
  then show ?thesis by (simp split: option.split)
next
  case (Pass f)
  then show ?thesis by (cases "spend f m") (simp_all add: spend_erase, simp add: erase_def)
next
  case (Replace f c)
  then show ?thesis by (cases "spend f m") (simp_all add: spend_erase, simp add: erase_def)
next
  case (Regenerate f hs)
  then show ?thesis by (cases "spend f m") (simp_all add: spend_erase, simp add: erase_def clear_challenges_def)
qed (simp_all, simp_all add: erase_def)

subsection \<open>The invariant\<close>

text \<open>
  What is known beside the state: the trail of actions, the rows and the random strings each request
  holds, and every authenticator state ever stored. A revision names one stored state, so a swap that
  succeeds finds the row as its request has read it.
\<close>

record history =
  hi_trail :: mfa_log
  hi_known :: "nat \<Rightarrow> auth_row set"
  hi_draws :: "nat \<Rightarrow> string list"
  hi_seen :: "mfa_data set"

definition request_of :: "mfa_system \<Rightarrow> nat \<Rightarrow> request" where
  "request_of sys i = fst (sy_threads sys ! i)"

definition requests :: "mfa_system \<Rightarrow> nat" where
  "requests sys = length (sy_threads sys)"

definition explains :: "mfa_system \<Rightarrow> history \<Rightarrow> bool" where
  "explains sys h \<longleftrightarrow> replay (map snd (hi_trail h)) no_accounts = Some (accounts_of (sy_rows sys))
     \<and> (\<forall>e \<in> set (hi_trail h). \<forall>i. fst e = Some i \<longrightarrow> i < requests sys \<and> fst (snd e) \<in> set (sy_used sys))
     \<and> (\<forall>e \<in> set (hi_trail h). fst e = None \<longrightarrow> snd (snd e) = Delete)"

definition keeping :: "app \<Rightarrow> mfa_system \<Rightarrow> history \<Rightarrow> nat \<Rightarrow> bool" where
  "keeping ap sys h i \<longleftrightarrow>
     wp (thrifty (ap_crypto ap)) (thread sys i) (\<lambda>ws K D. promised ap (request_of sys i) ws)
       (own i (hi_trail h)) (hi_known h i) (hi_draws h i)
     \<and> thrifty (ap_crypto ap) (own i (hi_trail h)) (hi_draws h i)"

definition stored_in :: "mfa_data set \<Rightarrow> auth_row \<Rightarrow> bool" where
  "stored_in S a \<longleftrightarrow> (case au_mfa a of None \<Rightarrow> True | Some m \<Rightarrow> m \<in> S)"

definition seen_ok :: "mfa_system \<Rightarrow> history \<Rightarrow> bool" where
  "seen_ok sys h \<longleftrightarrow> distinct (map au_id (sy_rows sys)) \<and> au_id ` set (sy_rows sys) \<subseteq> set (sy_used sys) \<and> (\<forall>r \<in> set (sy_rows sys). stored_in (hi_seen h) r)
     \<and> (\<forall>i < requests sys. \<forall>a \<in> hi_known h i. stored_in (hi_seen h) a)
     \<and> inj_on md_revision (hi_seen h) \<and> md_revision ` hi_seen h \<subseteq> set (sy_used sys)"

definition draws_ok :: "mfa_system \<Rightarrow> history \<Rightarrow> bool" where
  "draws_ok sys h \<longleftrightarrow> (\<forall>i < requests sys. set (hi_draws h i) \<subseteq> set (sy_used sys))
     \<and> (\<forall>i < requests sys. \<forall>j < requests sys. i \<noteq> j \<longrightarrow> set (hi_draws h i) \<inter> set (hi_draws h j) = {})"

definition sound :: "app \<Rightarrow> mfa_system \<Rightarrow> history \<Rightarrow> bool" where
  "sound ap sys h \<longleftrightarrow> explains sys h \<and> (\<forall>i < requests sys. keeping ap sys h i) \<and> seen_ok sys h \<and> draws_ok sys h"

text \<open>A step of request \<open>i\<close>: its program, table, used values and history change together.\<close>

lemma nth_set_thread: "i < n \<Longrightarrow> n = length xs \<Longrightarrow> xs[i := y] ! j = (if j = i then y else xs ! j)"
  by (simp add: nth_list_update)

lemma thread_set_thread [simp]:
  assumes "i < requests sys"
  shows "thread (set_thread i p sys\<lparr>sy_rows := R, sy_used := U, sy_events := E\<rparr>) j = (if j = i then p else thread sys j)"
    and "request_of (set_thread i p sys\<lparr>sy_rows := R, sy_used := U, sy_events := E\<rparr>) j = request_of sys j"
    and "requests (set_thread i p sys\<lparr>sy_rows := R, sy_used := U, sy_events := E\<rparr>) = requests sys"
  using assms by (simp_all add: set_thread_def thread_def request_of_def requests_def nth_set_thread)

lemma sound_step:
  assumes sound: "sound ap sys h" and i: "i < requests sys" and p: "thread sys i = p0"
    and keeps: "wp (thrifty (ap_crypto ap)) p (\<lambda>ws K D. promised ap (request_of sys i) ws) (rev ds @ own i (hi_trail h)) K D"
      "thrifty (ap_crypto ap) (rev ds @ own i (hi_trail h)) D"
    and table: "replay ds (accounts_of (sy_rows sys)) = Some (accounts_of R)" "distinct (map au_id R)"
      "au_id ` set R \<subseteq> set U" "fst ` set ds \<subseteq> set U"
    and seen: "hi_seen h \<subseteq> S" "inj_on md_revision S" "md_revision ` S \<subseteq> set U" "\<forall>r \<in> set R. stored_in S r" "\<forall>a \<in> K. stored_in S a"
    and draws: "set (sy_used sys) \<subseteq> set U" "set D \<subseteq> set (hi_draws h i) \<union> (set U - set (sy_used sys))"
  shows "\<exists>h'. sound ap (set_thread i p sys\<lparr>sy_rows := R, sy_used := U, sy_events := E\<rparr>) h'"
proof -
  let ?sys = "set_thread i p sys\<lparr>sy_rows := R, sy_used := U, sy_events := E\<rparr>"
  let ?h = "\<lparr>hi_trail = hi_trail h @ map (\<lambda>d. (Some i, d)) ds, hi_known = (hi_known h)(i := K),
             hi_draws = (hi_draws h)(i := D), hi_seen = S\<rparr>"
  have rows: "sy_rows ?sys = R" and used: "sy_used ?sys = U" by simp_all
  from sound have old: "explains sys h" "\<And>j. j < requests sys \<Longrightarrow> keeping ap sys h j" "seen_ok sys h" "draws_ok sys h"
    by (auto simp: sound_def)
  have trail: "j < requests sys \<and> fst (snd e) \<in> set U" if "e \<in> set (hi_trail ?h)" "fst e = Some j" for e j
  proof (cases "e \<in> set (hi_trail h)")
    case True
    with that(2) old(1) draws(1) show ?thesis by (auto simp: explains_def)
  next
    case False
    with that have "j = i" "snd e \<in> set ds" by auto
    with table(4) i show ?thesis by auto
  qed
  have "replay (map snd (hi_trail ?h)) no_accounts = Some (accounts_of R)"
    using old(1) table(1) by (simp add: explains_def replay_append comp_def)
  moreover have "\<forall>e \<in> set (hi_trail ?h). fst e = None \<longrightarrow> snd (snd e) = Delete"
    using old(1) by (auto simp: explains_def)
  ultimately have "explains ?sys ?h" using trail unfolding explains_def rows used thread_set_thread(3) [OF i] by blast
  moreover have "keeping ap ?sys ?h j" if "j < requests sys" for j
    using old(2) [OF that] keeps i by (cases "j = i") (simp_all add: keeping_def)
  moreover have "stored_in S a" if "j < requests sys" "a \<in> hi_known h j" for j a
    using old(3) that seen(1) by (auto simp: seen_ok_def stored_in_def split: option.splits)
  then have "seen_ok ?sys ?h"
    using table(2,3) seen unfolding seen_ok_def rows used thread_set_thread(3) [OF i] by auto
  moreover have "draws_ok ?sys ?h"
    using old(4) draws i unfolding draws_ok_def used thread_set_thread(3) [OF i] by (auto split: if_splits) blast+
  ultimately show ?thesis unfolding sound_def thread_set_thread(3) [OF i] by blast
qed

subsection \<open>Reads and swaps\<close>

lemma sound_quiet:
  assumes "sound ap sys h" and "i < requests sys" and "thread sys i = p0"
    and "wp (thrifty (ap_crypto ap)) p (\<lambda>ws K D. promised ap (request_of sys i) ws) (own i (hi_trail h)) K D"
    and "\<forall>a \<in> K. stored_in (hi_seen h) a" and "set (sy_used sys) \<subseteq> set U"
    and "set (hi_draws h i) \<subseteq> set D" "set D \<subseteq> set (hi_draws h i) \<union> (set U - set (sy_used sys))"
  shows "\<exists>h'. sound ap (set_thread i p sys\<lparr>sy_rows := sy_rows sys, sy_used := U, sy_events := E\<rparr>) h'"
proof (rule sound_step [where ds = "[]" and S = "hi_seen h", OF assms(1-3)])
  from assms(1,2) have "keeping ap sys h i" "seen_ok sys h" by (auto simp: sound_def)
  then show "thrifty (ap_crypto ap) (rev [] @ own i (hi_trail h)) D"
    and "distinct (map au_id (sy_rows sys))" "au_id ` set (sy_rows sys) \<subseteq> set U" "inj_on md_revision (hi_seen h)" "md_revision ` hi_seen h \<subseteq> set U"
      "\<forall>r \<in> set (sy_rows sys). stored_in (hi_seen h) r"
    using assms(6,7) by (auto simp: keeping_def seen_ok_def intro: thrifty_more)
qed (use assms in simp_all)

lemma sound_idle:
  assumes "sound ap sys h" and "i < requests sys" and "thread sys i = p0"
    and "wp (thrifty (ap_crypto ap)) p (\<lambda>ws K D. promised ap (request_of sys i) ws) (own i (hi_trail h)) (hi_known h i) (hi_draws h i)"
    and "set (sy_used sys) \<subseteq> set U"
  shows "\<exists>h'. sound ap (set_thread i p sys\<lparr>sy_rows := sy_rows sys, sy_used := U, sy_events := E\<rparr>) h'"
  by (rule sound_quiet [OF assms(1-4) _ assms(5)]) (use assms(1,2) in \<open>auto simp: sound_def seen_ok_def\<close>)

text \<open>A conditional update on the revision a request has read finds the state it has read.\<close>

lemma swap_finds:
  assumes sound: "sound ap sys h" and i: "i < requests sys" and a: "a \<in> hi_known h i"
    and upd: "update_one P f (sy_rows sys) = Some R" and keeps: "\<And>r. au_id (f r) = au_id r"
    and P: "\<And>r. P r \<Longrightarrow> au_id r = au_id a \<and> revision_of r = revision_of a"
  obtains r where "get_auth_by_id (au_id a) (sy_rows sys) = Some r" and "P r" and "au_mfa r = au_mfa a"
    and "accounts_of R = (accounts_of (sy_rows sys))(au_id a := state_of (Some (f r)))"
    and "map au_id R = map au_id (sy_rows sys)" and "\<And>x. x \<in> set R \<Longrightarrow> x = f r \<or> x \<in> set (sy_rows sys)"
proof -
  from sound have seen: "seen_ok sys h" by (simp add: sound_def)
  then have distinct: "distinct (map au_id (sy_rows sys))" by (simp add: seen_ok_def)
  obtain r where r: "get_auth_by_id (au_id a) (sy_rows sys) = Some r" "P r" "get_auth_by_id (au_id a) R = Some (f r)"
      "\<And>v. v \<noteq> au_id a \<Longrightarrow> get_auth_by_id v R = get_auth_by_id v (sy_rows sys)"
    by (rule update_one_lookup [OF upd keeps _ distinct]) (use P in auto)
  from r(1) have "r \<in> set (sy_rows sys)" by (simp add: get_auth_by_id_Some)
  with seen a i have "stored_in (hi_seen h) r" "stored_in (hi_seen h) a" by (auto simp: seen_ok_def)
  with P [OF r(2)] seen have mfa: "au_mfa r = au_mfa a"
    by (auto simp: seen_ok_def stored_in_def revision_of_def inj_on_def split: option.splits)
  have R: "R = map (\<lambda>x. if P x then f x else x) (sy_rows sys)"
    using upd by (auto simp: update_one_def split: if_splits)
  have single: "x = r" if "x \<in> set (sy_rows sys)" "P x" for x
    using get_auth_by_id_mem [OF distinct that(1)] P [OF that(2)] r(1) by simp
  have "x = f r \<or> x \<in> set (sy_rows sys)" if "x \<in> set R" for x
    using that single unfolding R by (auto split: if_splits)
  moreover have "map au_id R = map au_id (sy_rows sys)" by (rule update_one_ids [OF upd keeps])
  moreover have "accounts_of R = (accounts_of (sy_rows sys))(au_id a := state_of (Some (f r)))"
    by (rule ext) (simp add: accounts_of_def r(3,4))
  ultimately show ?thesis using r(1,2) mfa by (intro that) auto
qed

text \<open>A stored state with a fresh revision keeps revisions unique.\<close>

lemma seen_insert:
  assumes "seen_ok sys h" and "x \<notin> set (sy_used sys)"
  shows "inj_on md_revision (insert (m\<lparr>md_revision := x\<rparr>) (hi_seen h))"
    and "md_revision ` insert (m\<lparr>md_revision := x\<rparr>) (hi_seen h) \<subseteq> set (x # y # sy_used sys)"
  using assms by (auto simp: seen_ok_def inj_on_insert)

lemma perform_state:
  assumes "perform act (mfa_copy a) = Some m" and "au_mfa r = au_mfa a"
  shows "perform act (state_of (Some r)) = Some (erase m)"
proof -
  have "mfa_copy r = mfa_copy a" using assms(2) by (simp add: mfa_copy_def)
  with assms(1) show ?thesis by (simp add: state_of_def perform_erase)
qed

lemma accounts_of_map:
  assumes "\<And>r. au_id (g r) = au_id r" and "\<And>r. au_mfa (g r) = au_mfa r"
  shows "accounts_of (map g R) = accounts_of R"
  by (rule ext) (auto simp: accounts_of_def get_auth_by_id_map [OF assms(1)] state_of_def mfa_copy_def assms(2) split: option.split)

text \<open>
  A committed write of request \<open>i\<close> is one action on the account: \<open>g\<close> is what the transaction does
  besides, which concerns neither keys nor authenticators.
\<close>

lemma sound_write:
  assumes sound: "sound ap sys h" and i: "i < requests sys" and p: "thread sys i = p0" and a: "a \<in> hi_known h i"
    and upd: "update_one P f (sy_rows sys) = Some R" and keeps: "\<And>r. au_id (f r) = au_id r"
    and P: "\<And>r. P r \<Longrightarrow> au_id r = au_id a \<and> revision_of r = revision_of a"
    and act: "perform act (mfa_copy a) = Some m" and x: "x \<notin> set (sy_used sys)"
    and f: "\<And>r. au_mfa r = au_mfa a \<Longrightarrow> erase (mfa_copy (f r)) = erase m \<and> stored_in {m\<lparr>md_revision := x\<rparr>} (f r)"
    and g: "\<And>r. au_id (g r) = au_id r" "\<And>r. au_mfa (g r) = au_mfa r"
    and wp: "wp (thrifty (ap_crypto ap)) p' (\<lambda>ws K D. promised ap (request_of sys i) ws) ((au_id a, act) # own i (hi_trail h)) K (hi_draws h i)"
    and G: "thrifty (ap_crypto ap) ((au_id a, act) # own i (hi_trail h)) (hi_draws h i)"
    and K: "\<And>b. b \<in> K \<Longrightarrow> b \<in> hi_known h i \<or> stored_in {m\<lparr>md_revision := x\<rparr>} b"
  shows "\<exists>h'. sound ap (set_thread i p' sys\<lparr>sy_rows := map g R, sy_used := x # y # sy_used sys, sy_events := E\<rparr>) h'"
proof -
  obtain r where r: "au_mfa r = au_mfa a" "get_auth_by_id (au_id a) (sy_rows sys) = Some r"
      "accounts_of R = (accounts_of (sy_rows sys))(au_id a := state_of (Some (f r)))"
      "map au_id R = map au_id (sy_rows sys)" "\<And>z. z \<in> set R \<Longrightarrow> z = f r \<or> z \<in> set (sy_rows sys)"
    by (rule swap_finds [OF sound i a upd keeps P]) auto
  let ?S = "insert (m\<lparr>md_revision := x\<rparr>) (hi_seen h)"
  from sound have seen: "seen_ok sys h" by (simp add: sound_def)
  have more: "stored_in ?S b" if "stored_in (hi_seen h) b \<or> stored_in {m\<lparr>md_revision := x\<rparr>} b" for b
    using that by (auto simp: stored_in_def split: option.splits)
  have new: "state_of (Some (f r)) = erase m" using f [OF r(1)] by (simp add: state_of_def)
  show ?thesis
  proof (rule sound_step [where ds = "[(au_id a, act)]" and S = ?S, OF sound i p])
    have "perform act (accounts_of (sy_rows sys) (au_id a)) = Some (erase m)"
      unfolding accounts_of_def r(2) by (rule perform_state [OF act r(1)])
    then show "replay [(au_id a, act)] (accounts_of (sy_rows sys)) = Some (accounts_of (map g R))"
      by (simp add: perform_at_def accounts_of_map g r(3) new)
    have ids: "map au_id (map g R) = map au_id (sy_rows sys)" using r(4) by (simp add: g comp_def)
    with seen show "distinct (map au_id (map g R))" by (simp add: seen_ok_def)
    have "au_id ` set (map g R) = au_id ` set (sy_rows sys)" by (metis ids set_map)
    with seen show "au_id ` set (map g R) \<subseteq> set (x # y # sy_used sys)" by (auto simp: seen_ok_def)
    from r(2) seen show "fst ` set [(au_id a, act)] \<subseteq> set (x # y # sy_used sys)"
      by (auto simp: seen_ok_def dest!: get_auth_by_id_Some)
    show "\<forall>z \<in> set (map g R). stored_in ?S z"
    proof
      fix z assume "z \<in> set (map g R)"
      then obtain q where q: "q \<in> set R" "z = g q" by auto
      from r(5) [OF q(1)] seen f [OF r(1)] have "stored_in ?S q" by (auto simp: seen_ok_def intro!: more)
      then show "stored_in ?S z" by (simp add: q(2) stored_in_def g)
    qed
    show "\<forall>b \<in> K. stored_in ?S b"
    proof
      fix b assume "b \<in> K"
      from K [OF this] seen i show "stored_in ?S b" by (intro more) (auto simp: seen_ok_def)
    qed
  qed (use wp G seen_insert [OF seen x] in auto)
qed

subsection \<open>Every step keeps the invariant\<close>

lemma fresh_two: "fresh [x, y] sys \<longleftrightarrow> x \<noteq> y \<and> x \<notin> set (sy_used sys) \<and> y \<notin> set (sy_used sys)"
  by (auto simp: fresh_def)

lemma map_id_rows: "R = map (\<lambda>r. r) R"
  by simp

lemma sound_update:
  assumes sound: "sound ap sys h" and i: "i < requests sys" and p: "thread sys i = Update_mfa_by_id a m rv k" and x: "fresh [x, y] sys"
    and ans: "p' = answer x y (thread sys i) sys \<or> p' = fault (thread sys i)"
  shows "\<exists>h'. sound ap (set_thread i p' sys\<lparr>sy_rows := store x y (thread sys i) (sy_rows sys), sy_used := x # y # sy_used sys, sy_events := E\<rparr>) h'"
proof -
  let ?Q = "\<lambda>ws K D. promised ap (request_of sys i) ws"
  let ?G = "thrifty (ap_crypto ap)"
  let ?ws = "own i (hi_trail h)" and ?K = "hi_known h i" and ?D = "hi_draws h i"
  let ?a' = "swapped a m rv x y a"
  from sound i p have wp: "wp ?G (Update_mfa_by_id a m rv k) ?Q ?ws ?K ?D" and seen: "seen_ok sys h" by (auto simp: sound_def keeping_def)
  from wp obtain act where a: "a \<in> ?K" and act: "perform act (mfa_copy a) = Some m" and G: "?G ((au_id a, act) # ?ws) ?D"
    and quiet: "wp ?G (k Fault) ?Q ?ws ?K ?D" "wp ?G (k (Reply None)) ?Q ?ws ?K ?D"
    and late: "wp ?G (k Fault) ?Q ((au_id a, act) # ?ws) ?K ?D"
    and fin: "wp ?G (k (Reply (Some ?a'))) ?Q ((au_id a, act) # ?ws) (insert ?a' ?K) ?D"
    by auto
  show ?thesis
  proof (cases "update_one (unchanged a) (swapped a m rv x y) (sy_rows sys)")
    case None
    have "wp ?G p' ?Q ?ws ?K ?D" using ans quiet by (auto simp: p update_mfa_by_id_def None)
    from sound_idle [OF sound i p this, of "x # y # sy_used sys"] show ?thesis
      by (auto simp: p update_mfa_by_id_def None)
  next
    case (Some R)
    obtain K where K: "wp ?G p' ?Q ((au_id a, act) # ?ws) K ?D" "K \<subseteq> insert ?a' ?K"
      using ans late fin by (auto simp: p update_mfa_by_id_def Some)
    have "\<exists>h'. sound ap (set_thread i p' sys\<lparr>sy_rows := map (\<lambda>r. r) R, sy_used := x # y # sy_used sys, sy_events := E\<rparr>) h'"
      by (rule sound_write [OF sound i p a Some _ _ act _ _ _ _ K(1) G])
         (use x K(2) in \<open>auto simp: unchanged_def fresh_two stored_in_def swapped_def mfa_copy_def\<close>)
    then show ?thesis by (simp add: p update_mfa_by_id_def Some)
  qed
qed

lemma sound_clear:
  assumes sound: "sound ap sys h" and i: "i < requests sys" and p: "thread sys i = Clear_sessions a k" and x: "fresh [x, y] sys"
    and ans: "p' = answer x y (thread sys i) sys \<or> p' = fault (thread sys i)"
  shows "\<exists>h'. sound ap (set_thread i p' sys\<lparr>sy_rows := store x y (thread sys i) (sy_rows sys), sy_used := x # y # sy_used sys, sy_events := E\<rparr>) h'"
proof -
  let ?Q = "\<lambda>ws K D. promised ap (request_of sys i) ws"
  let ?G = "thrifty (ap_crypto ap)"
  let ?ws = "own i (hi_trail h)" and ?K = "hi_known h i" and ?D = "hi_draws h i"
  from sound i p have wp: "wp ?G (Clear_sessions a k) ?Q ?ws ?K ?D" by (auto simp: sound_def keeping_def)
  show ?thesis
  proof (cases "clear_sessions a x y (sy_rows sys)")
    case None
    have "wp ?G p' ?Q ?ws ?K ?D" using ans wp by (auto simp: p None)
    from sound_idle [OF sound i p this, of "x # y # sy_used sys"] show ?thesis by (auto simp: p None)
  next
    case (Some R)
    have K: "wp ?G p' ?Q ((au_id a, Clear) # ?ws) ?K ?D" using ans wp by (auto simp: p Some)
    from wp have a: "a \<in> ?K" and G: "?G ((au_id a, Clear) # ?ws) ?D" by simp_all
    have "\<exists>h'. sound ap (set_thread i p' sys\<lparr>sy_rows := map (\<lambda>r. r) R, sy_used := x # y # sy_used sys, sy_events := E\<rparr>) h'"
      by (rule sound_write [OF sound i p a Some [unfolded clear_sessions_def] _ _ perform.simps(11) _ _ _ _ K G])
         (use x in \<open>auto simp: same_revision_def fresh_two stored_in_def revoked_def mfa_copy_def clear_mfa_challenges_def
            clear_challenges_def new_mfa_data_def split: option.splits\<close>)
    then show ?thesis by (simp add: p Some)
  qed
qed

lemma sound_change:
  assumes sound: "sound ap sys h" and i: "i < requests sys" and p: "thread sys i = Change_password u a m pw k" and x: "fresh [x, y] sys"
    and ans: "p' = answer x y (thread sys i) sys \<or> p' = fault (thread sys i)"
  shows "\<exists>h'. sound ap (set_thread i p' sys\<lparr>sy_rows := store x y (thread sys i) (sy_rows sys), sy_used := x # y # sy_used sys, sy_events := E\<rparr>) h'"
proof -
  let ?Q = "\<lambda>ws K D. promised ap (request_of sys i) ws"
  let ?G = "thrifty (ap_crypto ap)"
  let ?ws = "own i (hi_trail h)" and ?K = "hi_known h i" and ?D = "hi_draws h i"
  let ?g = "\<lambda>r. if au_id r = u then r\<lparr>au_password := pw\<rparr> else r"
  from sound i p have wp: "wp ?G (Change_password u a m pw k) ?Q ?ws ?K ?D" by (auto simp: sound_def keeping_def)
  show ?thesis
  proof (cases "update_one (unchanged a) (swapped a m True x y) (sy_rows sys)")
    case None
    have "wp ?G p' ?Q ?ws ?K ?D" using ans wp by (auto simp: p change_password_def update_mfa_by_id_def None)
    from sound_idle [OF sound i p this, of "x # y # sy_used sys"] show ?thesis
      by (auto simp: p change_password_def update_mfa_by_id_def None)
  next
    case (Some R)
    have K: "wp ?G p' ?Q ((au_id a, Clear) # ?ws) ?K ?D"
      using ans wp by (auto simp: p change_password_def update_mfa_by_id_def Some)
    from wp have a: "a \<in> ?K" and G: "?G ((au_id a, Clear) # ?ws) ?D" and act: "perform Clear (mfa_copy a) = Some m" by simp_all
    have "\<exists>h'. sound ap (set_thread i p' sys\<lparr>sy_rows := map ?g R, sy_used := x # y # sy_used sys, sy_events := E\<rparr>) h'"
      by (rule sound_write [OF sound i p a Some _ _ act _ _ _ _ K G])
         (use x in \<open>auto simp: unchanged_def fresh_two stored_in_def swapped_def mfa_copy_def\<close>)
    then show ?thesis by (simp add: p change_password_def update_mfa_by_id_def Some)
  qed
qed

lemma user_by_id_Some: "user_by_id u us = Some x \<Longrightarrow> us_id x = u"
  by (auto simp: user_by_id_def dest: find_Some)

lemma keeping_wp:
  assumes "sound ap sys h" and "i < requests sys"
  shows "wp (thrifty (ap_crypto ap)) (thread sys i) (\<lambda>ws K D. promised ap (request_of sys i) ws)
           (own i (hi_trail h)) (hi_known h i) (hi_draws h i)"
  using assms by (simp add: sound_def keeping_def)

lemma sound_advance:
  assumes sound: "sound ap sys h" and i: "i < requests sys" and x: "fresh [x, y] sys"
  shows "\<exists>h'. sound ap (set_thread i (answer x y (thread sys i) sys) sys
           \<lparr>sy_rows := store x y (thread sys i) (sy_rows sys), sy_used := x # y # sy_used sys, sy_events := E\<rparr>) h'"
proof -
  note wp = keeping_wp [OF sound i]
  have used: "set (sy_used sys) \<subseteq> set (x # y # sy_used sys)" by auto
  from sound i have seen: "\<forall>a \<in> hi_known h i. stored_in (hi_seen h) a" "\<forall>r \<in> set (sy_rows sys). stored_in (hi_seen h) r"
    by (auto simp: sound_def seen_ok_def)
  note idle = sound_idle [OF sound i _ _ used]
  show ?thesis
  proof (cases "thread sys i")
    case (Get_auth_by_id u k)
    show ?thesis
    proof (cases "get_auth_by_id u (sy_rows sys)")
      case None
      with wp Get_auth_by_id show ?thesis by (auto intro!: idle)
    next
      case (Some a)
      then have "a \<in> set (sy_rows sys)" "au_id a = u" by (simp_all add: get_auth_by_id_Some)
      with wp Get_auth_by_id Some seen show ?thesis
        by (auto intro!: sound_quiet [OF sound i Get_auth_by_id, where K = "insert a (hi_known h i)" and D = "hi_draws h i"])
    qed
  next
    case (Random k)
    from sound i x have "x \<notin> set (hi_draws h i)" by (auto simp: sound_def draws_ok_def fresh_two)
    with wp Random seen x show ?thesis
      by (auto simp: fresh_two intro!: sound_quiet [OF sound i Random, where K = "hi_known h i" and D = "x # hi_draws h i"])
  next
    case (Get_user_by_id u k)
    with wp show ?thesis
      by (cases "user_by_id u (sy_users sys)") (auto intro!: idle dest: user_by_id_Some)
  next
    case (Update_mfa_by_id a m rv k)
    show ?thesis by (rule sound_update [OF sound i Update_mfa_by_id x]) simp
  next
    case (Clear_sessions a k)
    show ?thesis by (rule sound_clear [OF sound i Clear_sessions x]) simp
  next
    case (Change_password u a m pw k)
    show ?thesis by (rule sound_change [OF sound i Change_password x]) simp
  qed (use wp in \<open>auto intro!: idle\<close>)
qed

lemma set_thread_same:
  "set_thread i p sys = set_thread i p sys\<lparr>sy_rows := sy_rows sys, sy_used := sy_used sys, sy_events := sy_events sys\<rparr>"
  "set_thread i p sys\<lparr>sy_rows := R, sy_used := U\<rparr> = set_thread i p sys\<lparr>sy_rows := R, sy_used := U, sy_events := sy_events sys\<rparr>"
  by (simp_all add: set_thread_def)

lemma wp_fault: "wp G p Q ws K D \<Longrightarrow> wp G (fault p) Q ws K D"
  by (cases p) auto

lemma sound_lose:
  assumes "sound ap sys h" and "i < requests sys"
  shows "\<exists>h'. sound ap (set_thread i (fault (thread sys i)) sys) h'"
proof -
  have "\<exists>h'. sound ap (set_thread i (fault (thread sys i)) sys
      \<lparr>sy_rows := sy_rows sys, sy_used := sy_used sys, sy_events := sy_events sys\<rparr>) h'"
    by (rule sound_idle [OF assms refl wp_fault [OF keeping_wp [OF assms]]]) simp
  then show ?thesis by (simp only: set_thread_same(1) [symmetric])
qed

lemma sound_lose_late:
  assumes sound: "sound ap sys h" and i: "i < requests sys" and x: "fresh [x, y] sys"
  shows "\<exists>h'. sound ap (set_thread i (fault (thread sys i)) sys
           \<lparr>sy_rows := store x y (thread sys i) (sy_rows sys), sy_used := x # y # sy_used sys\<rparr>) h'"
proof -
  have used: "set (sy_used sys) \<subseteq> set (x # y # sy_used sys)" by auto
  note idle = sound_idle [OF sound i refl wp_fault [OF keeping_wp [OF sound i]] used]
  have "\<exists>h'. sound ap (set_thread i (fault (thread sys i)) sys
      \<lparr>sy_rows := store x y (thread sys i) (sy_rows sys), sy_used := x # y # sy_used sys, sy_events := sy_events sys\<rparr>) h'"
  proof (cases "thread sys i")
    case (Update_mfa_by_id a m rv k)
    show ?thesis by (rule sound_update [OF sound i Update_mfa_by_id x]) simp
  next
    case (Clear_sessions a k)
    show ?thesis by (rule sound_clear [OF sound i Clear_sessions x]) simp
  next
    case (Change_password u a m pw k)
    show ?thesis by (rule sound_change [OF sound i Change_password x]) simp
  qed (use idle in auto)
  then show ?thesis by (simp only: set_thread_same(2) [symmetric])
qed

lemma sound_cong:
  assumes "sy_rows sys' = sy_rows sys" and "sy_threads sys' = sy_threads sys" and "sy_used sys' = sy_used sys"
  shows "sound ap sys' h = sound ap sys h"
  using assms
  by (simp add: sound_def explains_def keeping_def seen_ok_def draws_ok_def requests_def thread_def request_of_def)

lemma sound_arrive:
  assumes "sound ap sys h"
  shows "\<exists>h'. sound ap (sys\<lparr>sy_threads := sy_threads sys @ [(req, handle ap req)]\<rparr>) h'"
proof -
  let ?n = "requests sys"
  let ?sys = "sys\<lparr>sy_threads := sy_threads sys @ [(req, handle ap req)]\<rparr>"
  let ?h = "h\<lparr>hi_known := (hi_known h)(?n := {}), hi_draws := (hi_draws h)(?n := [])\<rparr>"
  have n: "requests ?sys = Suc ?n" by (simp add: requests_def)
  have old: "thread ?sys i = thread sys i" "request_of ?sys i = request_of sys i" if "i < ?n" for i
    using that by (simp_all add: thread_def request_of_def requests_def nth_append)
  have new: "thread ?sys ?n = handle ap req" "request_of ?sys ?n = req"
    by (simp_all add: thread_def request_of_def requests_def)
  from assms have "filter (\<lambda>e. fst e = Some ?n) (hi_trail h) = []"
    by (auto simp: sound_def explains_def filter_empty_conv)
  then have own: "own ?n (hi_trail h) = []" by (simp add: own_def)
  have "explains ?sys ?h" using assms by (auto simp: sound_def explains_def n less_SucI)
  moreover have "keeping ap ?sys ?h i" if "i < Suc ?n" for i
  proof (cases "i = ?n")
    case True
    then show ?thesis using handle_keeps by (simp add: keeping_def new own)
  next
    case False
    with that have "i < ?n" by simp
    with assms False show ?thesis by (simp add: sound_def keeping_def old)
  qed
  moreover have "seen_ok ?sys ?h" using assms by (auto simp: sound_def seen_ok_def n less_Suc_eq)
  moreover have "draws_ok ?sys ?h" using assms by (auto simp: sound_def draws_ok_def n less_Suc_eq)
  ultimately show ?thesis unfolding sound_def n by blast
qed

text \<open>Changes of the table outside the requests: they perform \<open>ds\<close> on the accounts.\<close>

lemma sound_rows:
  assumes "sound ap sys h" and "replay ds (accounts_of (sy_rows sys)) = Some (accounts_of R)" and "distinct (map au_id R)"
    and "\<And>r. r \<in> set R \<Longrightarrow> stored_in (hi_seen h) r \<and> au_id r \<in> set U" and "set (sy_used sys) \<subseteq> set U"
    and "list_all (\<lambda>d. snd d = Delete) ds"
  shows "\<exists>h'. sound ap (sys\<lparr>sy_rows := R, sy_used := U\<rparr>) h'"
proof -
  let ?h = "h\<lparr>hi_trail := hi_trail h @ map (\<lambda>d. (None, d)) ds\<rparr>"
  have own: "own i (hi_trail h @ map (\<lambda>d. (None, d)) ds) = own i (hi_trail h)" for i
    by (simp add: own_def filter_map comp_def)
  have trail: "j < requests sys \<and> fst (snd e) \<in> set U" if "e \<in> set (hi_trail ?h)" "fst e = Some j" for e j
  proof -
    from that have "e \<in> set (hi_trail h)" by auto
    with that(2) assms(1,5) show ?thesis by (auto simp: sound_def explains_def)
  qed
  have "replay (map snd (hi_trail ?h)) no_accounts = Some (accounts_of R)"
    using assms(1,2) by (simp add: sound_def explains_def replay_append comp_def)
  moreover have "\<forall>e \<in> set (hi_trail ?h). fst e = None \<longrightarrow> snd (snd e) = Delete"
    using assms(1,6) by (auto simp: sound_def explains_def list_all_iff)
  ultimately have "explains (sys\<lparr>sy_rows := R, sy_used := U\<rparr>) ?h" using trail by (simp add: explains_def requests_def)
  moreover have "keeping ap (sys\<lparr>sy_rows := R, sy_used := U\<rparr>) ?h i" if "i < requests sys" for i
    using assms(1) that by (simp add: sound_def keeping_def own thread_def request_of_def)
  moreover have "seen_ok (sys\<lparr>sy_rows := R, sy_used := U\<rparr>) ?h"
    using assms(1,3-5) by (auto simp: sound_def seen_ok_def requests_def)
  moreover have "draws_ok (sys\<lparr>sy_rows := R, sy_used := U\<rparr>) ?h"
    using assms(1,5) by (auto simp: sound_def draws_ok_def requests_def)
  moreover have "requests (sys\<lparr>sy_rows := R, sy_used := U\<rparr>) = requests sys" by (simp add: requests_def)
  ultimately show ?thesis unfolding sound_def by metis
qed

lemma sound_seen: "sound ap sys h \<Longrightarrow> seen_ok sys h"
  by (simp add: sound_def)

lemma accounts_of_insert:
  assumes "insert_new_auth new_id stamp email password rows = Inr R"
  shows "accounts_of R = accounts_of rows" and "distinct (map au_id rows) \<Longrightarrow> distinct (map au_id R)"
    and "r \<in> set R \<Longrightarrow> r \<in> set rows \<or> au_mfa r = None \<and> au_id r = new_id"
  using assms
  by (auto simp: insert_new_auth_def accounts_of_def fun_eq_iff get_auth_by_id_def find_append state_of_def mfa_copy_def
      split: if_splits option.splits)

lemma accounts_of_delete: "accounts_of (delete_auth_by_id u rows) = (accounts_of rows)(u := new_mfa_data [])"
  by (rule ext) (simp add: accounts_of_def state_of_def get_auth_by_id_delete)

lemma sound_create:
  assumes "sound ap sys h"
  shows "\<exists>h'. sound ap (add_rows (insert_new_auth new_id stamp email password (sy_rows sys)) sys\<lparr>sy_used := new_id # stamp # sy_used sys\<rparr>) h'"
proof (cases "insert_new_auth new_id stamp email password (sy_rows sys)")
  case (Inl e)
  have "\<exists>h'. sound ap (sys\<lparr>sy_rows := sy_rows sys, sy_used := new_id # stamp # sy_used sys\<rparr>) h'"
    by (rule sound_rows [where ds = "[]", OF assms]) (use sound_seen [OF assms] in \<open>auto simp: seen_ok_def\<close>)
  then show ?thesis by (simp add: Inl add_rows_def)
next
  case (Inr R)
  have "\<exists>h'. sound ap (sys\<lparr>sy_rows := R, sy_used := new_id # stamp # sy_used sys\<rparr>) h'"
    by (rule sound_rows [where ds = "[]", OF assms])
       (use sound_seen [OF assms] accounts_of_insert(1,2) [OF Inr] in
         \<open>auto simp: seen_ok_def stored_in_def dest!: accounts_of_insert(3) [OF Inr] split: option.splits\<close>)
  then show ?thesis by (simp add: Inr add_rows_def)
qed

lemma sound_email:
  assumes "sound ap sys h"
  shows "\<exists>h'. sound ap (sys\<lparr>sy_rows := snd (update_email_by_id u email (sy_rows sys))\<rparr>) h'"
proof -
  let ?g = "\<lambda>r. if au_id r = u then r\<lparr>au_email := email\<rparr> else r"
  have "\<exists>h'. sound ap (sys\<lparr>sy_rows := map ?g (sy_rows sys), sy_used := sy_used sys\<rparr>) h'"
  proof (rule sound_rows [where ds = "[]", OF assms])
    show "replay [] (accounts_of (sy_rows sys)) = Some (accounts_of (map ?g (sy_rows sys)))"
      by (subst accounts_of_map) auto
    show "distinct (map au_id (map ?g (sy_rows sys)))"
      using sound_seen [OF assms] by (simp add: seen_ok_def comp_def if_distrib cong: if_cong)
  qed (use sound_seen [OF assms] in \<open>auto simp: seen_ok_def stored_in_def split: if_splits option.splits\<close>)
  then show ?thesis by (simp add: update_email_by_id_def)
qed

lemma sound_remove:
  assumes "sound ap sys h"
  shows "\<exists>h'. sound ap (sys\<lparr>sy_rows := delete_auth_by_id u (sy_rows sys)\<rparr>) h'"
proof -
  have "\<exists>h'. sound ap (sys\<lparr>sy_rows := delete_auth_by_id u (sy_rows sys), sy_used := sy_used sys\<rparr>) h'"
  proof (rule sound_rows [where ds = "[(u, Delete)]", OF assms])
    show "replay [(u, Delete)] (accounts_of (sy_rows sys)) = Some (accounts_of (delete_auth_by_id u (sy_rows sys)))"
      by (simp add: perform_at_def accounts_of_delete)
  qed (use sound_seen [OF assms] in \<open>auto simp: seen_ok_def delete_auth_by_id_def distinct_map_filter\<close>)
  then show ?thesis by simp
qed

theorem exec_sound:
  assumes "sound ap sys h"
  shows "\<exists>h'. sound ap (exec c ap sys) h'"
proof (cases c)
  case (Arrive req)
  then show ?thesis using sound_arrive [OF assms] by simp
next
  case (Advance i x y)
  then show ?thesis using sound_advance [OF assms] assms by (auto simp: requests_def)
next
  case (Lose i)
  then show ?thesis using sound_lose [OF assms] assms by (auto simp: requests_def)
next
  case (Lose_late i x y)
  then show ?thesis using sound_lose_late [OF assms] assms by (auto simp: requests_def)
next
  case (Create new_id stamp email password)
  then show ?thesis using sound_create [OF assms] assms by auto
next
  case (Set_email u email)
  then show ?thesis using sound_email [OF assms] by simp
next
  case (Remove u)
  then show ?thesis using sound_remove [OF assms] by simp
next
  case (Tick t)
  have "sound ap (exec c ap sys) h" unfolding Tick by (subst sound_cong [of _ sys]) (use assms in simp_all)
  then show ?thesis ..
next
  case (Configure cfg)
  have "sound ap (exec c ap sys) h" unfolding Configure by (subst sound_cong [of _ sys]) (use assms in simp_all)
  then show ?thesis ..
next
  case (Set_users us)
  have "sound ap (exec c ap sys) h" unfolding Set_users by (subst sound_cong [of _ sys]) (use assms in simp_all)
  then show ?thesis ..
qed

theorem run_sound: "\<exists>h. sound ap (run ap cs) h"
proof -
  have start: "sound ap start_system \<lparr>hi_trail = [], hi_known = \<lambda>_. {}, hi_draws = \<lambda>_. [], hi_seen = {}\<rparr>"
    by (simp add: sound_def explains_def seen_ok_def draws_ok_def start_system_def requests_def accounts_of_def
        no_accounts_def get_auth_by_id_def state_of_def fun_eq_iff)
  have "\<exists>h. sound ap (fold (\<lambda>c. exec c ap) cs sys) h" if "\<exists>h. sound ap sys h" for sys
    using that
  proof (induction cs arbitrary: sys)
    case (Cons c cs)
    then have "\<exists>h. sound ap (exec c ap sys) h" by (blast intro: exec_sound)
    then show ?case by (simp add: Cons.IH)
  qed simp
  with start show ?thesis unfolding run_def by blast
qed

end
