(* ===== verification/Mfa_Properties.thy ===== *)
theory Mfa_Properties
  imports Mfa_Concurrent
begin

text \<open>
  The properties of concurrent logins: every run is explained by atomic actions, no second factor is
  accepted twice, a challenge judges at most five codes, a session of an older stamp stays refused,
  and every request finishes.
\<close>

subsection \<open>Runs are explained by atomic actions\<close>

definition linearizes :: "app \<Rightarrow> mfa_system \<Rightarrow> mfa_log \<Rightarrow> bool" where
  "linearizes ap sys trail \<longleftrightarrow>
     replay (map snd trail) no_accounts = Some (accounts_of (sy_rows sys))
     \<and> list_all (\<lambda>i. case result_of (thread sys i) of None \<Rightarrow> True | Some r \<Rightarrow> promised ap (request_of sys i) (own i trail) r)
         [0..<requests sys]"

lemma wp_result: "wp G p Q ws K D \<Longrightarrow> result_of p = Some r \<Longrightarrow> Q ws K D r"
  by (cases p) auto

lemma sound_linearizes: "sound ap sys h \<Longrightarrow> linearizes ap sys (hi_trail h)"
  unfolding linearizes_def list_all_iff
  by (auto simp: sound_def explains_def keeping_def split: option.split dest: wp_result)

text \<open>
  (C2) Every run of concurrent requests is linearizable: whatever the interleaving, the lost answers
  of the database, the clock, the settings, and the accounts created and deleted meanwhile, there is
  a sequence of atomic actions that replays from the empty table to the stored accounts, and in it
  every finished request has performed exactly the actions its answer promises.
\<close>

theorem mfa_linearizable: "\<exists>trail. linearizes ap (run ap cs) trail"
  using run_sound [of ap cs] sound_linearizes by blast

subsection \<open>Issued once\<close>

text \<open>
  No collisions among the values a run has drawn: of SHA-256 on the codes and on the tokens of one
  account, and of Fernet, whose tokens contain their random initialisation vector.
\<close>

definition collision_free :: "mfa_crypto \<Rightarrow> string set \<Rightarrow> bool" where
  "collision_free cr V \<longleftrightarrow> inj_on (token_hash cr) V \<and> (\<forall>u \<in> V. inj_on (\<lambda>t. token_hash cr (u @ ''.'' @ t)) V)
     \<and> (\<forall>iv \<in> V. \<forall>iv' \<in> V. \<forall>s s' e. fernet_encrypt cr s iv = Some e \<longrightarrow> fernet_encrypt cr s' iv' = Some e \<longrightarrow> iv = iv')"

lemma tally_le:
  assumes "\<And>d. d \<in> set ds \<Longrightarrow> f (snd d) \<le> c"
  shows "tally f u ds \<le> c * length (filter (\<lambda>d. fst d = u \<and> f (snd d) > 0) ds)"
  using assms
proof (induction ds)
  case (Cons d ds)
  then have "tally f u ds \<le> c * length (filter (\<lambda>d. fst d = u \<and> f (snd d) > 0) ds)" "f (snd d) \<le> c" by auto
  then show ?case by auto
qed simp

lemma count_list_distinct: "distinct xs \<Longrightarrow> count_list xs x \<le> 1"
  by (induction xs) (auto simp: count_list_0_iff)

lemma trail_entry:
  assumes "sound ap sys h" and "(Some i, d) \<in> set (hi_trail h)"
  shows "i < requests sys" and "fst d \<in> set (sy_used sys)" and "d \<in> set (own i (hi_trail h))"
    and "supported (ap_crypto ap) (hi_draws h i) d"
    and "length (filter (\<lambda>e. fst e = Some i \<and> creative (snd (snd e))) (hi_trail h)) \<le> 1"
proof -
  from assms show i: "i < requests sys" and "fst d \<in> set (sy_used sys)" by (auto simp: sound_def explains_def)
  from assms(2) show own: "d \<in> set (own i (hi_trail h))" by (force simp: own_def)
  from assms(1) i have thrifty: "thrifty (ap_crypto ap) (own i (hi_trail h)) (hi_draws h i)" by (auto simp: sound_def keeping_def)
  with own show "supported (ap_crypto ap) (hi_draws h i) d" by (auto simp: thrifty_def list_all_iff)
  have "length (filter (\<lambda>e. fst e = Some i \<and> creative (snd (snd e))) (hi_trail h))
      = length (filter (\<lambda>d. creative (snd d)) (own i (hi_trail h)))"
    by (simp add: own_def rev_filter [symmetric] filter_map comp_def conj_commute)
  with thrifty show "length (filter (\<lambda>e. fst e = Some i \<and> creative (snd (snd e))) (hi_trail h)) \<le> 1"
    by (simp add: thrifty_def)
qed

text \<open>
  A value that names the draw it was made from is written by one action: \<open>born t\<close> says that it
  was made from the draw \<open>t\<close>.
\<close>

lemma same_writer:
  assumes sound: "sound ap sys h"
    and source: "\<And>i d. (Some i, d) \<in> set (hi_trail h) \<Longrightarrow> P d \<Longrightarrow> \<exists>t \<in> set (hi_draws h i). born t"
    and one: "\<And>t t'. t \<in> set (sy_used sys) \<Longrightarrow> t' \<in> set (sy_used sys) \<Longrightarrow> born t \<Longrightarrow> born t' \<Longrightarrow> t = t'"
    and d: "(Some i, d) \<in> set (hi_trail h)" "P d" and d': "(Some j, d') \<in> set (hi_trail h)" "P d'"
  shows "i = j"
proof (rule ccontr)
  assume "i \<noteq> j"
  from source [OF d] obtain t where t: "t \<in> set (hi_draws h i)" "born t" by auto
  from source [OF d'] obtain t' where t': "t' \<in> set (hi_draws h j)" "born t'" by auto
  from sound trail_entry(1) [OF sound d(1)] trail_entry(1) [OF sound d'(1)] \<open>i \<noteq> j\<close>
  have draws: "set (hi_draws h i) \<inter> set (hi_draws h j) = {}" "set (hi_draws h i) \<subseteq> set (sy_used sys)" "set (hi_draws h j) \<subseteq> set (sy_used sys)"
    by (auto simp: sound_def draws_ok_def)
  have "t = t'" using t t' draws(2,3) by (intro one) auto
  with t t' draws(1) show False by auto
qed

lemma outside_deletes: "sound ap sys h \<Longrightarrow> (None, d) \<in> set (hi_trail h) \<Longrightarrow> snd d = Delete"
  by (auto simp: sound_def explains_def)

lemma written_once:
  assumes sound: "sound ap sys h" and creative: "\<And>d. P d \<Longrightarrow> creative (snd d)"
    and source: "\<And>i d. (Some i, d) \<in> set (hi_trail h) \<Longrightarrow> P d \<Longrightarrow> \<exists>t \<in> set (hi_draws h i). born t"
    and one: "\<And>t t'. t \<in> set (sy_used sys) \<Longrightarrow> t' \<in> set (sy_used sys) \<Longrightarrow> born t \<Longrightarrow> born t' \<Longrightarrow> t = t'"
  shows "length (filter P (map snd (hi_trail h))) \<le> 1"
proof (cases "filter (\<lambda>e. P (snd e)) (hi_trail h)")
  case Nil
  then show ?thesis by (simp add: filter_map comp_def)
next
  case (Cons e es)
  have tagged: "\<exists>i. x = (Some i, snd x)" if "x \<in> set (hi_trail h)" "P (snd x)" for x
  proof (cases "fst x")
    case None
    with that(1) have "snd (snd x) = Delete" by (intro outside_deletes [OF sound]) (metis prod.collapse)
    with creative [OF that(2)] show ?thesis by simp
  next
    case (Some i)
    then show ?thesis by (metis prod.collapse)
  qed
  from Cons have "e \<in> set (filter (\<lambda>e. P (snd e)) (hi_trail h))" by simp
  then have e: "e \<in> set (hi_trail h)" "P (snd e)" by simp_all
  then obtain i where i: "e = (Some i, snd e)" using tagged by blast
  have "length (filter (\<lambda>e. P (snd e)) (hi_trail h)) \<le> length (filter (\<lambda>e. fst e = Some i \<and> creative (snd (snd e))) (hi_trail h))"
  proof (rule length_filter_mono)
    fix x assume x: "x \<in> set (hi_trail h)" "P (snd x)"
    with tagged obtain j where j: "x = (Some j, snd x)" by blast
    have ends: "(Some i, snd e) \<in> set (hi_trail h)" "(Some j, snd x) \<in> set (hi_trail h)" using e(1) i x(1) j by simp_all
    have "i = j"
      by (rule same_writer [where P = P and born = born and d = "snd e" and d' = "snd x", OF sound])
         (use source one ends e(2) x(2) in auto)
    with j x(2) creative show "fst x = Some i \<and> creative (snd (snd x))" by (metis fst_conv)
  qed
  also have "\<dots> \<le> 1" by (rule trail_entry(5) [OF sound, of i "snd e"]) (use e(1) i in simp)
  finally show ?thesis by (simp add: filter_map comp_def)
qed

lemma issued_once:
  assumes sound: "sound ap sys h"
    and creative: "\<And>a. f a > 0 \<Longrightarrow> creative a"
    and bound: "\<And>i d. (Some i, d) \<in> set (hi_trail h) \<Longrightarrow> f (snd d) \<le> c"
    and source: "\<And>i d. (Some i, d) \<in> set (hi_trail h) \<Longrightarrow> fst d = u \<Longrightarrow> f (snd d) > 0 \<Longrightarrow> \<exists>t \<in> set (hi_draws h i). born t"
    and one: "\<And>t t'. t \<in> set (sy_used sys) \<Longrightarrow> t' \<in> set (sy_used sys) \<Longrightarrow> born t \<Longrightarrow> born t' \<Longrightarrow> t = t'"
  shows "tally f u (map snd (hi_trail h)) \<le> c"
proof -
  let ?n = "length (filter (\<lambda>d. fst d = u \<and> f (snd d) > 0) (map snd (hi_trail h)))"
  have n: "?n \<le> 1" by (rule written_once [OF sound _ _ one]) (use creative source in auto)
  have "f (snd d) \<le> c" if d: "d \<in> set (map snd (hi_trail h))" for d
  proof -
    from d obtain tag where tag: "(tag, d) \<in> set (hi_trail h)" by auto
    show ?thesis
    proof (cases tag)
      case None
      with tag outside_deletes [OF sound] have "\<not> creative (snd d)" by simp
      with creative [of "snd d"] show ?thesis by (cases "f (snd d)") simp_all
    qed (use tag bound in auto)
  qed
  then have "tally f u (map snd (hi_trail h)) \<le> c * ?n" by (rule tally_le)
  also have "\<dots> \<le> c * 1" using n by (rule mult_le_mono2)
  finally show ?thesis by simp
qed

lemma codes_issued_once:
  assumes "sound ap sys h" and "collision_free (ap_crypto ap) (set (sy_used sys))"
  shows "tally (issues_code digest) u (map snd (hi_trail h)) \<le> 1"
proof (rule issued_once [OF assms(1), where born = "\<lambda>t. token_hash (ap_crypto ap) t = digest"])
  fix i d assume d: "(Some i, d) \<in> set (hi_trail h)"
  note entry = trail_entry [OF assms(1) d]
  from entry(4) obtain ts where ts: "codes_of (snd d) = map (token_hash (ap_crypto ap)) ts" "distinct ts" "set ts \<subseteq> set (hi_draws h i)"
    by (auto simp: supported_def)
  from assms(1) entry(1) have "set (hi_draws h i) \<subseteq> set (sy_used sys)" by (auto simp: sound_def draws_ok_def)
  with ts assms(2) have "distinct (codes_of (snd d))"
    by (auto simp: collision_free_def distinct_map intro: inj_on_subset)
  then show "issues_code digest (snd d) \<le> 1" unfolding issues_code_def by (rule count_list_distinct)
  show "\<exists>t \<in> set (hi_draws h i). token_hash (ap_crypto ap) t = digest" if "issues_code digest (snd d) > 0"
  proof -
    from that have "count_list (codes_of (snd d)) digest \<noteq> 0" by (simp add: issues_code_def)
    then have "digest \<in> set (codes_of (snd d))" by (simp only: count_list_0_iff not_not)
    with ts show ?thesis by auto
  qed
qed (use assms(2) in \<open>auto simp: issues_code_def creative_def collision_free_def dest: inj_onD\<close>)

lemma secrets_prepared_once:
  assumes "sound ap sys h" and "collision_free (ap_crypto ap) (set (sy_used sys))"
  shows "tally (prepares e) u (map snd (hi_trail h)) \<le> 1"
proof (rule issued_once [OF assms(1), where born = "\<lambda>iv. \<exists>s. fernet_encrypt (ap_crypto ap) s iv = Some e"])
  fix i d assume d: "(Some i, d) \<in> set (hi_trail h)"
  show "\<exists>iv \<in> set (hi_draws h i). \<exists>s. fernet_encrypt (ap_crypto ap) s iv = Some e" if "prepares e (snd d) > 0"
    using that trail_entry(4) [OF assms(1) d] by (auto simp: prepares_def supported_def split: action.splits if_splits)
qed (use assms(2) in \<open>auto simp: prepares_def creative_def collision_free_def split: action.splits if_splits\<close>)

lemma challenges_issued_once:
  assumes "sound ap sys h" and "collision_free (ap_crypto ap) (set (sy_used sys))"
  shows "tally (allows digest) u (map snd (hi_trail h)) \<le> 5"
proof (rule issued_once [OF assms(1), where born = "\<lambda>t. u \<in> set (sy_used sys) \<and> token_hash (ap_crypto ap) (u @ ''.'' @ t) = digest"])
  fix i d assume d: "(Some i, d) \<in> set (hi_trail h)"
  show "\<exists>t \<in> set (hi_draws h i). u \<in> set (sy_used sys) \<and> token_hash (ap_crypto ap) (u @ ''.'' @ t) = digest"
    if "fst d = u" "allows digest (snd d) > 0"
    using that trail_entry(2,4) [OF assms(1) d] by (auto simp: allows_def supported_def split: option.splits if_splits)
qed (use assms(2) in \<open>auto simp: allows_def creative_def collision_free_def dest: inj_onD split: option.splits\<close>)

lemma sound_replay: "sound ap sys h \<Longrightarrow> \<exists>A. replay (map snd (hi_trail h)) no_accounts = Some A"
  by (auto simp: sound_def explains_def)

lemma accepted_once:
  assumes "sound ap sys h" and "collision_free (ap_crypto ap) (set (sy_used sys))"
  shows "tally (accepts f) u (map snd (hi_trail h)) \<le> 1"
proof -
  from sound_replay [OF assms(1)] obtain A where A: "replay (map snd (hi_trail h)) no_accounts = Some A" ..
  show ?thesis
  proof (cases f)
    case (Recovery digest)
    show ?thesis unfolding Recovery
      using recovery.cost_bounded [OF A, of digest u] codes_issued_once [OF assms, of digest u] by linarith
  next
    case (Step e n)
    show ?thesis unfolding Step
      using steps.cost_bounded [OF A, of e n u] envelopes.cost_bounded [OF A, of e u] secrets_prepared_once [OF assms, of e u]
      by linarith
  qed
qed

lemma tried_five_times:
  assumes "sound ap sys h" and "collision_free (ap_crypto ap) (set (sy_used sys))"
  shows "tally (tries digest) u (map snd (hi_trail h)) \<le> 5"
proof -
  from sound_replay [OF assms(1)] obtain A where A: "replay (map snd (hi_trail h)) no_accounts = Some A" ..
  show ?thesis using attempts.cost_bounded [OF A, of digest u] challenges_issued_once [OF assms, of digest u] by linarith
qed


subsection \<open>What requests see\<close>

lemma own_Cons: "own i (e # trail) = own i trail @ (if fst e = Some i then [snd e] else [])"
  by (simp add: own_def)

text \<open>The actions of different requests are different entries of the trail.\<close>

lemma tally_own_sum: "(\<Sum>i<n. tally f u (own i trail)) \<le> tally f u (map snd trail)"
proof (induction trail)
  case (Cons e trail)
  have "(\<Sum>i<n. tally f u (if fst e = Some i then [snd e] else [])) \<le> tally f u [snd e]"
  proof (cases "fst e")
    case (Some j)
    have "(\<Sum>i<n. tally f u (if fst e = Some i then [snd e] else [])) = (\<Sum>i<n. if i = j then tally f u [snd e] else 0)"
      by (intro sum.cong) (auto simp: Some)
    then show ?thesis by (simp add: sum.delta)
  qed simp
  with Cons.IH show ?case by (simp add: own_Cons sum.distrib)
qed (simp add: own_def)

lemma own_tally_le:
  assumes "finite I" and "I \<subseteq> {..<n}" and "\<And>i. i \<in> I \<Longrightarrow> 1 \<le> tally f u (own i trail)"
  shows "card I \<le> tally f u (map snd trail)"
proof -
  have "card I = (\<Sum>i\<in>I. 1)" by simp
  also have "\<dots> \<le> (\<Sum>i\<in>I. tally f u (own i trail))" by (rule sum_mono) (rule assms(3))
  also have "\<dots> \<le> (\<Sum>i<n. tally f u (own i trail))" by (rule sum_mono2) (use assms in auto)
  finally show ?thesis using tally_own_sum [where n = n and f = f and u = u and trail = trail] by linarith
qed

lemma tally_member: "d \<in> set ds \<Longrightarrow> f (snd d) \<le> tally f (fst d) ds"
  by (induction ds) (auto intro: trans_le_add2)

lemma finished_promise:
  assumes "sound ap sys h" and "i < requests sys" and "result_of (thread sys i) = Some r"
  shows "promised ap (request_of sys i) (own i (hi_trail h)) r"
  using keeping_wp [OF assms(1,2)] assms(3) by (rule wp_result)

lemma via_Inr: "via f P (Inr x) \<longleftrightarrow> (\<exists>y. x = f y \<and> P (Inr y))"
  by (auto simp: via_def map_sum_def split: sum.splits) (metis Inr_inject sum.exhaust)

lemma via_Inl: "via f P (Inl e) \<longleftrightarrow> P (Inl e)"
  by (auto simp: via_def map_sum_def split: sum.splits) (metis sum.exhaust)

lemma verified_answer:
  assumes "promised ap (Verify_code token code recovery) ws (Inr x)"
  obtains u f d where "ws = [(u, Pass f), d]" and "charged (ap_crypto ap) token u Login_challenge d"
    and "answers (ap_crypto ap) code recovery f"
  using assms by (auto simp: via_Inr verify_promise_def)

definition recovered_with :: "mfa_crypto \<Rightarrow> mfa_system \<Rightarrow> string \<Rightarrow> string \<Rightarrow> nat \<Rightarrow> bool" where
  "recovered_with cr sys u digest i \<longleftrightarrow> i < requests sys \<and>
     (case request_of sys i of
        Verify_code token code recovery \<Rightarrow> recovery \<and> token_user token = Some u \<and> recovery_digest cr code = digest
          \<and> (case result_of (thread sys i) of Some (Inr _) \<Rightarrow> True | _ \<Rightarrow> False)
      | _ \<Rightarrow> False)"

text \<open>
  (C7) A recovery code logs in at most once: of all requests ever made to verify a code with a given
  digest for an account, concurrent or not, at most one ends with a session.
\<close>

theorem recovery_code_once:
  assumes "collision_free (ap_crypto ap) (set (sy_used (run ap cs)))"
  shows "card {i. recovered_with (ap_crypto ap) (run ap cs) u digest i} \<le> 1"
proof -
  let ?sys = "run ap cs" and ?I = "{i. recovered_with (ap_crypto ap) (run ap cs) u digest i}"
  obtain h where h: "sound ap ?sys h" using run_sound by blast
  have I: "?I \<subseteq> {..<requests ?sys}" by (auto simp: recovered_with_def)
  have "1 \<le> tally (accepts (Recovery digest)) u (own i (hi_trail h))" if "i \<in> ?I" for i
  proof -
    from that obtain token code x where i: "i < requests ?sys" "request_of ?sys i = Verify_code token code True"
      "token_user token = Some u" "recovery_digest (ap_crypto ap) code = digest" "result_of (thread ?sys i) = Some (Inr x)"
      by (auto simp: recovered_with_def split: request.splits option.splits sum.splits)
    from finished_promise [OF h i(1,5)] obtain v f d where own: "own i (hi_trail h) = [(v, Pass f), d]"
      and "charged (ap_crypto ap) token v Login_challenge d" "answers (ap_crypto ap) code True f"
      unfolding i(2) by (rule verified_answer)
    with i(3,4) have "v = u" "f = Recovery digest" by (auto simp: charged_def answers_def split: factor.splits)
    then show ?thesis using tally_member [of "(v, Pass f)" "own i (hi_trail h)" "accepts (Recovery digest)"]
      by (simp add: own accepts_def)
  qed
  then have "card ?I \<le> tally (accepts (Recovery digest)) u (map snd (hi_trail h))"
    by (intro own_tally_le [where n = "requests ?sys"]) (use I finite_subset [OF I] in auto)
  also have "\<dots> \<le> 1" by (rule accepted_once [OF h assms])
  finally show ?thesis .
qed

definition judged :: "mfa_system \<Rightarrow> string \<Rightarrow> nat \<Rightarrow> bool" where
  "judged sys token i \<longleftrightarrow> i < requests sys \<and>
     (case request_of sys i of
        Verify_code tk code recovery \<Rightarrow> tk = token
          \<and> (case result_of (thread sys i) of Some (Inr _) \<Rightarrow> True | Some (Inl e) \<Rightarrow> e = invalid_code | None \<Rightarrow> False)
      | Enroll_confirm tk code \<Rightarrow> tk = token
          \<and> (case result_of (thread sys i) of Some (Inr _) \<Rightarrow> True | Some (Inl e) \<Rightarrow> e = rejected_enrollment | None \<Rightarrow> False)
      | _ \<Rightarrow> False)"

lemma judged_charged:
  assumes h: "sound ap sys h" and "judged sys token i"
  shows "\<exists>u s d. charged (ap_crypto ap) token u s d \<and> d \<in> set (own i (hi_trail h))"
proof -
  from assms(2) obtain r where r: "i < requests sys" "result_of (thread sys i) = Some r"
    by (auto simp: judged_def split: request.splits option.splits)
  note promise = finished_promise [OF h r]
  from assms(2) consider
      (verify) code recovery where "request_of sys i = Verify_code token code recovery" "r = Inl invalid_code \<or> (\<exists>x. r = Inr x)"
    | (confirm) code where "request_of sys i = Enroll_confirm token code" "r = Inl rejected_enrollment \<or> (\<exists>x. r = Inr x)"
    by (auto simp: judged_def r(2) split: request.splits sum.splits)
  then show ?thesis
  proof cases
    case verify
    with promise have "\<exists>u d. charged (ap_crypto ap) token u Login_challenge d \<and> d \<in> set (own i (hi_trail h))"
      by (elim disjE exE) (force simp: via_Inr via_Inl verify_promise_def)+
    then show ?thesis by blast
  next
    case confirm
    from confirm(2) show ?thesis
    proof (elim disjE exE)
      assume "r = Inl rejected_enrollment"
      with confirm(1) promise show ?thesis by (simp add: via_Inl confirm_promise_def) (metis list.set_intros(1))
    next
      fix x assume "r = Inr x"
      with confirm(1) promise obtain u sl e n hs d where "own i (hi_trail h) = [(u, Enroll sl e n hs), d]" "charged (ap_crypto ap) token u sl d"
        by (auto simp: via_Inr confirm_promise_def)
      then show ?thesis by (metis list.set_intros)
    qed
  qed
qed

text \<open>
  (C8) A challenge judges at most five codes: of all requests ever made with a challenge token, in
  any interleaving, at most five learn whether their code was right.
\<close>

theorem five_codes_per_challenge:
  assumes "collision_free (ap_crypto ap) (set (sy_used (run ap cs)))"
  shows "card {i. judged (run ap cs) token i} \<le> 5"
proof -
  let ?sys = "run ap cs" and ?I = "{i. judged (run ap cs) token i}" and ?d = "token_hash (ap_crypto ap) token"
  obtain h where h: "sound ap ?sys h" using run_sound by blast
  have I: "?I \<subseteq> {..<requests ?sys}" by (auto simp: judged_def)
  have "1 \<le> tally (tries ?d) (the (token_user token)) (own i (hi_trail h))" if judged: "judged ?sys token i" for i
  proof -
    obtain u s d where d: "charged (ap_crypto ap) token u s d" "d \<in> set (own i (hi_trail h))"
      using judged_charged [OF h judged] by blast
    then show ?thesis using tally_member [OF d(2), of "tries ?d"] by (auto simp: charged_def tries_def)
  qed
  then have "card ?I \<le> tally (tries ?d) (the (token_user token)) (map snd (hi_trail h))"
    by (intro own_tally_le [where n = "requests ?sys"]) (use I finite_subset [OF I] in auto)
  also have "\<dots> \<le> 5" by (rule tried_five_times [OF h assms])
  finally show ?thesis .
qed

subsection \<open>Session stamps\<close>

definition stamp_of :: "string \<Rightarrow> mfa_system \<Rightarrow> string option" where
  "stamp_of u sys = Option.bind (get_auth_by_id u (sy_rows sys)) au_session_stamp"

text \<open>A step keeps a stamp, draws a fresh one, or removes it with its row.\<close>

definition stamp_step :: "string list \<Rightarrow> string list \<Rightarrow> string option \<Rightarrow> string option \<Rightarrow> bool" where
  "stamp_step used used' st st' \<longleftrightarrow> st' = st \<or> st' = None \<or> (\<exists>x. st' = Some x \<and> x \<notin> set used \<and> x \<in> set used')"

lemma update_one_stamp:
  assumes "update_one P f rows = Some R" and "\<And>r. au_id (f r) = au_id r"
    and "\<And>r. P r \<Longrightarrow> au_session_stamp (f r) = au_session_stamp r \<or> au_session_stamp (f r) = Some y"
  shows "Option.bind (get_auth_by_id u R) au_session_stamp = Option.bind (get_auth_by_id u rows) au_session_stamp
       \<or> Option.bind (get_auth_by_id u R) au_session_stamp = Some y"
proof -
  from assms(1) have R: "R = map (\<lambda>r. if P r then f r else r) rows" by (auto simp: update_one_def split: if_splits)
  have "get_auth_by_id u R = map_option (\<lambda>r. if P r then f r else r) (get_auth_by_id u rows)"
    unfolding R by (rule get_auth_by_id_map) (simp add: assms(2))
  then show ?thesis using assms(3) by (cases "get_auth_by_id u rows") auto
qed

lemma store_stamp:
  assumes "y \<notin> set used"
  shows "stamp_step used (x # y # used) (Option.bind (get_auth_by_id u rows) au_session_stamp)
           (Option.bind (get_auth_by_id u (store x y p rows)) au_session_stamp)"
proof -
  have step: "stamp_step used (x # y # used) st st'" if "st' = st \<or> st' = Some y" for st st'
    using that assms by (auto simp: stamp_step_def)
  have same: "stamp_step used (x # y # used) st st" for st by (simp add: stamp_step_def)
  show ?thesis
  proof (cases p)
    case (Update_mfa_by_id a m rv k)
    show ?thesis
    proof (cases "update_one (unchanged a) (swapped a m rv x y) rows")
      case (Some R)
      have "Option.bind (get_auth_by_id u R) au_session_stamp = Option.bind (get_auth_by_id u rows) au_session_stamp
          \<or> Option.bind (get_auth_by_id u R) au_session_stamp = Some y"
        by (rule update_one_stamp [OF Some]) (auto simp: swapped_def unchanged_def)
      with Some show ?thesis by (simp add: Update_mfa_by_id update_mfa_by_id_def step)
    qed (simp add: Update_mfa_by_id update_mfa_by_id_def same)
  next
    case (Clear_sessions a k)
    show ?thesis
    proof (cases "clear_sessions a x y rows")
      case (Some R)
      have "Option.bind (get_auth_by_id u R) au_session_stamp = Option.bind (get_auth_by_id u rows) au_session_stamp
          \<or> Option.bind (get_auth_by_id u R) au_session_stamp = Some y"
        by (rule update_one_stamp [OF Some [unfolded clear_sessions_def]]) (auto simp: revoked_def)
      with Some show ?thesis by (simp add: Clear_sessions step)
    qed (simp add: Clear_sessions same)
  next
    case (Change_password v a m pw k)
    show ?thesis
    proof (cases "update_one (unchanged a) (swapped a m True x y) rows")
      case (Some R)
      have "Option.bind (get_auth_by_id u R) au_session_stamp = Option.bind (get_auth_by_id u rows) au_session_stamp
          \<or> Option.bind (get_auth_by_id u R) au_session_stamp = Some y"
        by (rule update_one_stamp [OF Some]) (auto simp: swapped_def unchanged_def)
      moreover have "Option.bind (get_auth_by_id u (map (\<lambda>r. if au_id r = v then r\<lparr>au_password := pw\<rparr> else r) R)) au_session_stamp
          = Option.bind (get_auth_by_id u R) au_session_stamp"
        by (subst get_auth_by_id_map) (auto split: Option.bind_split)
      ultimately show ?thesis using Some by (simp add: Change_password change_password_def update_mfa_by_id_def step)
    qed (simp add: Change_password change_password_def update_mfa_by_id_def same)
  qed (simp_all add: same)
qed

lemma exec_stamp:
  "stamp_step (sy_used sys) (sy_used (exec c ap sys)) (stamp_of u sys) (stamp_of u (exec c ap sys))"
  "set (sy_used sys) \<subseteq> set (sy_used (exec c ap sys))"
proof -
  have same: "stamp_step used used' st st" for used used' st by (simp add: stamp_step_def)
  show "set (sy_used sys) \<subseteq> set (sy_used (exec c ap sys))"
    by (cases c) (auto simp: set_thread_def add_rows_def split: sum.split)
  show "stamp_step (sy_used sys) (sy_used (exec c ap sys)) (stamp_of u sys) (stamp_of u (exec c ap sys))"
  proof (cases c)
    case (Advance i x y)
    then show ?thesis using store_stamp [of y "sy_used sys" x u "sy_rows sys"] by (auto simp: stamp_of_def same fresh_two)
  next
    case (Lose i)
    then show ?thesis by (simp add: same stamp_of_def set_thread_def)
  next
    case (Lose_late i x y)
    then show ?thesis using store_stamp [of y "sy_used sys" x u "sy_rows sys"] by (auto simp: stamp_of_def same fresh_two)
  next
    case (Create new_id stamp email password)
    then show ?thesis
      by (auto simp: stamp_of_def same fresh_two add_rows_def insert_new_auth_def get_auth_by_id_def find_append stamp_step_def
          split: option.split)
  next
    case (Set_email v email)
    have "Option.bind (get_auth_by_id u (map (\<lambda>r. if au_id r = v then r\<lparr>au_email := email\<rparr> else r) (sy_rows sys))) au_session_stamp
        = Option.bind (get_auth_by_id u (sy_rows sys)) au_session_stamp"
      by (subst get_auth_by_id_map) (auto split: Option.bind_split)
    then show ?thesis by (simp add: Set_email stamp_of_def update_email_by_id_def same)
  next
    case (Remove v)
    then show ?thesis by (auto simp: stamp_of_def stamp_step_def get_auth_by_id_delete)
  qed (simp_all add: stamp_of_def same)
qed

lemma run_append: "run ap (cs @ ds) = fold (\<lambda>c. exec c ap) ds (run ap cs)"
  by (simp add: run_def)

lemma stamp_used: "stamp_of u (run ap cs) = Some st \<Longrightarrow> st \<in> set (sy_used (run ap cs))"
proof (induction cs arbitrary: st rule: rev_induct)
  case Nil
  then show ?case by (simp add: run_def start_system_def stamp_of_def get_auth_by_id_def)
next
  case (snoc c cs)
  let ?sys = "run ap cs"
  from exec_stamp(1) [of ?sys c ap u] snoc.prems have "stamp_of u ?sys = Some st \<or> st \<in> set (sy_used (exec c ap ?sys))"
    by (auto simp: run_append stamp_step_def)
  with snoc.IH exec_stamp(2) [of ?sys c ap] show ?case by (auto simp: run_append)
qed

text \<open>A stamp that was left is never taken again.\<close>

definition left_behind :: "string \<Rightarrow> string \<Rightarrow> mfa_system \<Rightarrow> bool" where
  "left_behind u st sys \<longleftrightarrow> st \<in> set (sy_used sys) \<and> stamp_of u sys \<noteq> Some st"

lemma left_behind_exec: "left_behind u st sys \<Longrightarrow> left_behind u st (exec c ap sys)"
  using exec_stamp(1) [of sys c ap u] exec_stamp(2) [of sys c ap] by (auto simp: left_behind_def stamp_step_def)

text \<open>A check of a token with such a stamp has not read the row yet, or has refused.\<close>

definition refusing :: "app \<Rightarrow> claims \<Rightarrow> nat \<Rightarrow> mfa_system \<Rightarrow> bool" where
  "refusing ap cl n sys \<longleftrightarrow> (\<forall>i < requests sys. n \<le> i \<longrightarrow> (\<forall>redis. request_of sys i = Check_token cl redis \<longrightarrow>
      thread sys i = handle ap (Check_token cl redis) \<or> thread sys i = Ret (Answer False) \<or> (\<exists>e. thread sys i = Raise e)))"

lemma check_answer:
  assumes "stamp_of (cl_id cl) sys \<noteq> Some st" and "cl_session_stamp cl = Some st"
  shows "answer x y (handle ap (Check_token cl redis)) sys = Ret (Answer False) \<or> (\<exists>e. answer x y (handle ap (Check_token cl redis)) sys = Raise e)"
  using assms
  by (cases "get_auth_by_id (cl_id cl) (sy_rows sys)")
     (auto simp: wrap_prog_def is_valid_token_def get_auth_def stamp_of_def)

lemma check_fault: "\<exists>e. fault (handle ap (Check_token cl redis)) = Raise e"
  by (simp add: wrap_prog_def is_valid_token_def get_auth_def)

text \<open>What a step does to the program of a request.\<close>

lemma exec_threads:
  assumes "i < requests (exec c ap sys)"
  shows "i < requests sys \<and> request_of (exec c ap sys) i = request_of sys i
           \<and> (thread (exec c ap sys) i = thread sys i \<or> (\<exists>x y. thread (exec c ap sys) i = answer x y (thread sys i) sys)
              \<or> thread (exec c ap sys) i = fault (thread sys i))
       \<or> i = requests sys \<and> thread (exec c ap sys) i = handle ap (request_of (exec c ap sys) i)"
proof -
  have set: "requests (set_thread j p sys) = requests sys" "request_of (set_thread j p sys) i = request_of sys i"
    "thread (set_thread j p sys) i = (if i = j then p else thread sys i)" if "j < length (sy_threads sys)" for j p
    using that by (simp_all add: set_thread_def requests_def request_of_def thread_def nth_list_update)
  have rec: "requests (sys'\<lparr>sy_rows := R, sy_used := U, sy_events := E\<rparr>) = requests sys'"
    "request_of (sys'\<lparr>sy_rows := R, sy_used := U, sy_events := E\<rparr>) i = request_of sys' i"
    "thread (sys'\<lparr>sy_rows := R, sy_used := U, sy_events := E\<rparr>) i = thread sys' i"
    "requests (sys'\<lparr>sy_rows := R, sy_used := U\<rparr>) = requests sys'"
    "request_of (sys'\<lparr>sy_rows := R, sy_used := U\<rparr>) i = request_of sys' i"
    "thread (sys'\<lparr>sy_rows := R, sy_used := U\<rparr>) i = thread sys' i" for sys' R U E
    by (simp_all add: requests_def request_of_def thread_def)
  show ?thesis
  proof (cases c)
    case (Arrive req)
    with assms show ?thesis by (auto simp: requests_def request_of_def thread_def nth_append less_Suc_eq)
  next
    case (Advance j x y)
    with assms show ?thesis by (auto simp: set rec)
  next
    case (Lose j)
    with assms show ?thesis by (auto simp: set split: if_splits)
  next
    case (Lose_late j x y)
    with assms show ?thesis by (auto simp: set rec)
  qed (use assms in \<open>auto simp: requests_def request_of_def thread_def add_rows_def split: sum.splits if_splits\<close>)
qed

lemma refusing_exec:
  assumes "refusing ap cl n sys" and "stamp_of (cl_id cl) sys \<noteq> Some st" and "cl_session_stamp cl = Some st"
  shows "refusing ap cl n (exec c ap sys)"
  unfolding refusing_def
proof (intro allI impI)
  fix i redis assume i: "i < requests (exec c ap sys)" "n \<le> i" "request_of (exec c ap sys) i = Check_token cl redis"
  let ?p = "thread (exec c ap sys) i" and ?h = "handle ap (Check_token cl redis)"
  from exec_threads [OF i(1)] show "?p = ?h \<or> ?p = Ret (Answer False) \<or> (\<exists>e. ?p = Raise e)"
  proof (elim disjE conjE)
    assume old: "i < requests sys" "request_of (exec c ap sys) i = request_of sys i"
    from assms(1) old i have p: "thread sys i = ?h \<or> thread sys i = Ret (Answer False) \<or> (\<exists>e. thread sys i = Raise e)"
      unfolding refusing_def by metis
    show ?thesis if "?p = thread sys i" using p that by simp
    show ?thesis if "\<exists>x y. ?p = answer x y (thread sys i) sys" using p that check_answer [OF assms(2,3)] by fastforce
    show ?thesis if "?p = fault (thread sys i)" using p that check_fault by (metis fault.simps(5,6))
  next
    assume "?p = handle ap (request_of (exec c ap sys) i)"
    then show ?thesis unfolding i(3) by blast
  qed
qed

text \<open>
  (C13) A revoked session stays refused: once the stamp of an account differs from the stamp in a
  session token, which it had before, no check of that token that starts later answers that it is
  valid, whatever happens in between.
\<close>

theorem revoked_token_refused:
  assumes "stamp_of (cl_id cl) (run ap cs) = Some st" and "cl_session_stamp cl = Some st"
    and "stamp_of (cl_id cl) (run ap (cs @ ds)) \<noteq> Some st"
    and "requests (run ap (cs @ ds)) \<le> i" and "i < requests (run ap (cs @ ds @ es))"
    and "request_of (run ap (cs @ ds @ es)) i = Check_token cl redis"
  shows "result_of (thread (run ap (cs @ ds @ es)) i) \<noteq> Some (Inr (Answer True))"
proof -
  let ?n = "requests (run ap (cs @ ds))"
  have grow: "set (sy_used sys) \<subseteq> set (sy_used (fold (\<lambda>c. exec c ap) xs sys))" for xs sys
    by (induction xs arbitrary: sys) (auto dest: subsetD [OF exec_stamp(2)])
  have "left_behind (cl_id cl) st (run ap (cs @ ds))"
    using stamp_used [OF assms(1)] assms(3) grow by (auto simp: left_behind_def run_append)
  moreover have "refusing ap cl ?n (run ap (cs @ ds))" by (auto simp: refusing_def)
  ultimately have "left_behind (cl_id cl) st (run ap ((cs @ ds) @ es)) \<and> refusing ap cl ?n (run ap ((cs @ ds) @ es))"
  proof (induction es rule: rev_induct)
    case (snoc e es)
    then show ?case
      by (simp add: run_append [of ap "(cs @ ds) @ es", simplified] left_behind_exec refusing_exec [OF _ _ assms(2)] left_behind_def [of _ _ "run ap _"])
  qed simp
  then have "thread (run ap (cs @ ds @ es)) i = handle ap (Check_token cl redis) \<or> thread (run ap (cs @ ds @ es)) i = Ret (Answer False)
      \<or> (\<exists>e. thread (run ap (cs @ ds @ es)) i = Raise e)"
    using assms(4-6) by (simp add: refusing_def)
  then show ?thesis by (auto simp: wrap_prog_def is_valid_token_def get_auth_def)
qed

end
