(* ===== verification/Mfa_Progress.thy ===== *)
theory Mfa_Progress
  imports Mfa_Properties
begin

text \<open>
  Progress of the requests of \<^verbatim>\<open>utils/mfa.py\<close>: the loops that retry after a conflict are bounded, so a
  request ends after a bounded number of its own steps, however often the others interfere.
\<close>

subsection \<open>Bounded programs\<close>

text \<open>A program ends after at most so many awaited calls, whatever is answered.\<close>

primrec takes :: "'a prog \<Rightarrow> nat \<Rightarrow> bool" where
  "takes (Ret x) n = True"
| "takes (Raise e) n = True"
| "takes (Get_auth_by_id u k) n = (case n of 0 \<Rightarrow> False | Suc n \<Rightarrow> \<forall>r. takes (k r) n)"
| "takes (Update_mfa_by_id a m rv k) n = (case n of 0 \<Rightarrow> False | Suc n \<Rightarrow> \<forall>r. takes (k r) n)"
| "takes (Clear_sessions a k) n = (case n of 0 \<Rightarrow> False | Suc n \<Rightarrow> \<forall>r. takes (k r) n)"
| "takes (Change_password u a m p k) n = (case n of 0 \<Rightarrow> False | Suc n \<Rightarrow> \<forall>r. takes (k r) n)"
| "takes (Get_user_by_id u k) n = (case n of 0 \<Rightarrow> False | Suc n \<Rightarrow> \<forall>r. takes (k r) n)"
| "takes (Get_user_by_email e k) n = (case n of 0 \<Rightarrow> False | Suc n \<Rightarrow> \<forall>r. takes (k r) n)"
| "takes (Get_mfa_config k) n = (case n of 0 \<Rightarrow> False | Suc n \<Rightarrow> \<forall>r. takes (k r) n)"
| "takes (Time k) n = (case n of 0 \<Rightarrow> False | Suc n \<Rightarrow> \<forall>r. takes (k r) n)"
| "takes (Random k) n = (case n of 0 \<Rightarrow> False | Suc n \<Rightarrow> \<forall>r. takes (k r) n)"
| "takes (Emit ev u p) n = (case n of 0 \<Rightarrow> False | Suc n \<Rightarrow> takes p n)"

lemma takes_Suc: "takes p n \<Longrightarrow> takes p (Suc n)"
  by (induction p arbitrary: n) (auto split: nat.splits)

lemma takes_more: "takes p n \<Longrightarrow> takes p (n + k)"
  by (induction k) (simp_all add: takes_Suc)

lemma takes_mono: "takes p n \<Longrightarrow> n \<le> m \<Longrightarrow> takes p m"
  using takes_more [of p n "m - n"] by simp

lemma takes_bind:
  assumes "takes p n" and "\<And>x. takes (f x) k"
  shows "takes (bind_prog p f) (n + k)"
  using assms(1)
proof (induction p arbitrary: n)
  case (Ret x)
  show ?case using takes_more [OF assms(2), of x n] by (simp add: add.commute)
qed (auto split: nat.splits)

lemma takes_bind_le: "takes p n \<Longrightarrow> (\<And>x. takes (f x) k) \<Longrightarrow> n + k \<le> m \<Longrightarrow> takes (bind_prog p f) m"
  using takes_bind takes_mono by blast

lemma takes_catch:
  assumes "takes p n" and "\<And>e. takes (h e) k"
  shows "takes (catch_prog p h) (n + k)"
  using assms(1)
proof (induction p arbitrary: n)
  case (Raise e)
  show ?case using takes_more [OF assms(2), of e n] by (simp add: add.commute)
qed (auto split: nat.splits)

lemma takes_lift [simp]: "takes (lift_result r) n"
  by (cases r) (simp_all add: lift_result_def)

lemma takes_get_auth [simp]: "takes (get_auth u) (Suc n)"
  by (simp add: get_auth_def split: reply.split option.split)

lemma takes_save [simp]: "takes (save_mfa a m rv) (Suc n)"
  by (simp add: save_mfa_def split: reply.split option.split)

subsection \<open>The handlers\<close>

lemma takes_limit_account_loop: "takes (limit_account_loop u kind check n) (3 * n)"
proof (induction n)
  case (Suc n)
  have "takes (catch_prog (save_mfa a m False) (\<lambda>e. if is_conflict e then limit_account_loop u kind check n else Raise e)) (1 + 3 * n)" for a m
    by (rule takes_catch) (simp_all add: Suc.IH)
  then have body: "takes (Time (\<lambda>now.
         let mfa = mfa_copy auth; limit = current_limit mfa kind now
         in if li_count limit \<ge> 10
            then Emit ''auth.mfa.throttled'' u
                   (Raise (Http 429 ''Too many attempts. Please try again later.'' (Some (li_expires_at limit - now))))
            else catch_prog (save_mfa auth (count_attempt mfa kind now) False)
                   (\<lambda>e. if is_conflict e then limit_account_loop u kind check n else Raise e))) (2 + 3 * n)" for auth
    by (auto simp: Let_def)
  have "takes (limit_account_loop u kind check (Suc n)) (1 + (2 + 3 * n))"
    unfolding limit_account_loop.simps by (rule takes_bind) (use body in \<open>simp_all\<close>)
  then show ?case by (rule takes_mono) simp
qed simp

lemma takes_limit_account: "takes (limit_account u kind check) 15"
  using takes_limit_account_loop [of u kind check 5] by (simp add: limit_account_def)

lemma takes_load_challenge_loop: "takes (load_challenge_loop cr u token kinds attempt n a) (6 * n)"
proof (induction n arbitrary: a)
  case (Suc n)
  let ?again = "bind_prog (get_auth u) (\<lambda>auth. load_challenge_loop cr u token kinds attempt n auth)"
  have again: "takes ?again (1 + 6 * n)" by (rule takes_bind) (simp_all add: Suc.IH)
  have save: "takes (bind_prog (save_mfa a m False) (\<lambda>upd. Ret (f upd))) (1 + 0)" for m and f :: "auth_row \<Rightarrow> loaded"
    by (rule takes_bind) simp_all
  have "takes (catch_prog (bind_prog (save_mfa a m False) (\<lambda>upd. Ret (user, upd, mfa_copy upd, ch upd, s)))
      (\<lambda>e. if is_conflict e then ?again else Raise e)) (1 + (1 + 6 * n))" for m user s and ch :: "auth_row \<Rightarrow> mfa_challenge"
    by (rule takes_catch) (use again save in simp_all)
  then have "takes (load_challenge_loop cr u token kinds attempt (Suc n) a) (4 + (1 + (1 + 6 * n)))"
    by (auto simp: Let_def numeral_eq_Suc split: option.split)
  then show ?case by (rule takes_mono) simp
qed simp

lemma takes_load_challenge: "takes (load_challenge cr token kinds attempt) 31"
proof -
  have "takes (bind_prog (get_auth u) (load_challenge_loop cr u token kinds attempt 5)) (1 + 30)" for u
    by (rule takes_bind) (use takes_load_challenge_loop [of cr u token kinds attempt 5] in simp_all)
  then show ?thesis by (simp add: load_challenge_def split: option.split)
qed

lemma takes_random_tokens: "(\<And>ts. takes (k ts) m) \<Longrightarrow> takes (random_tokens n k) (n + m)"
  by (induction n arbitrary: k) simp_all

lemma takes_recovery_codes: "takes (recovery_codes cr) 10"
  unfolding recovery_codes_def by (rule takes_mono, rule takes_random_tokens [where m = 0]) simp_all

lemma takes_consume: "takes (consume_recorded cr u m code recovery) 2"
proof -
  have "takes (consume_factor cr m code recovery) 1"
  proof -
    have "takes (bind_prog (lift_result r) (\<lambda>secret. Time (\<lambda>now. case matching_step cr now secret c l of
        Some step \<Rightarrow> Ret (m\<lparr>md_last_step := step\<rparr>) | None \<Rightarrow> Raise invalid_code))) (0 + 1)" for r c l
      by (rule takes_bind) (simp_all split: option.split)
    then show ?thesis by (simp add: consume_factor_def Let_def)
  qed
  then have "takes (consume_recorded cr u m code recovery) (1 + 1)"
    unfolding consume_recorded_def by (rule takes_catch) (simp split: mfa_error.split)
  then show ?thesis by (simp add: numeral_2_eq_2)
qed

lemma takes_with_expiry: "(\<And>x. takes (k x) n) \<Longrightarrow> takes (with_expiry d k) (Suc n)"
  by (simp add: with_expiry_def takes_Suc split: option.split)

lemma takes_create_session_response: "takes (create_session_response ex user source auth v tm) 9"
proof -
  have token: "takes (create_token cl ex) 3" for cl
    unfolding create_token_def by (rule takes_mono, rule takes_with_expiry [where n = 2]) (simp_all add: numeral_2_eq_2)
  have "takes (bind_prog (create_token cl ex) (\<lambda>token. Emit ''auth.login'' (us_id user)
                  (Ret \<lparr>se_token = token, se_expires_at = x, se_user = user\<rparr>))) (3 + 1)" for cl x
    by (rule takes_bind [OF token]) simp
  then have "takes (with_expiry ex (\<lambda>expires_at. Time (\<lambda>now.
           let auth_time = (case tm of Some t \<Rightarrow> if t \<noteq> 0 then t else now | None \<Rightarrow> now)
           in bind_prog (create_token (session_claims user source auth_time auth v) ex) (\<lambda>token.
                Emit ''auth.login'' (us_id user)
                  (Ret \<lparr>se_token = token, se_expires_at = expires_at, se_user = user\<rparr>))))) (Suc 5)"
    by (intro takes_with_expiry) (simp add: Let_def numeral_eq_Suc)
  then have "takes (create_session_response ex user source auth v tm) (1 + (1 + Suc 5))"
    unfolding create_session_response_def by (intro takes_bind) auto
  then show ?thesis by (rule takes_mono) simp
qed

lemma takes_new_challenge: "takes (new_challenge cr auth kind am tm oid pr) 2"
  by (simp add: new_challenge_def Let_def numeral_2_eq_2)

lemma takes_challenge_response: "takes (challenge_response token c) 1"
  by (simp add: challenge_response_def)

lemma takes_start_mfa_login: "takes (start_mfa_login cr auth am oid pr) 5"
proof -
  have "takes (bind_prog (save_mfa auth m False) (\<lambda>_. challenge_response token c)) (1 + 1)" for m token c
    by (rule takes_bind) (simp_all add: takes_challenge_response [simplified])
  then have "takes (bind_prog (new_challenge cr auth kind am now oid pr) (\<lambda>(token, challenge).
                bind_prog (save_mfa auth (m\<lparr>md_login_challenge := Some challenge\<rparr>) False)
                  (\<lambda>_. challenge_response token challenge))) (2 + 2)" for kind now m
    by (intro takes_bind takes_new_challenge) (simp add: numeral_2_eq_2 split: prod.split)
  then show ?thesis by (simp add: start_mfa_login_def Let_def numeral_eq_Suc)
qed

lemma takes_create_signin_response: "takes (create_signin_response cr ex user source auth oid pr) 15"
proof -
  have challenge: "takes (bind_prog (start_mfa_login cr a source oid pr) (\<lambda>c. Ret (Challenge c))) (5 + 0)" for a
    by (rule takes_bind [OF takes_start_mfa_login]) simp
  have session: "takes (bind_prog (create_session_response ex user source a False None) (\<lambda>s. Ret (Session s))) (9 + 0)" for a
    by (rule takes_bind [OF takes_create_session_response]) simp
  have first: "takes (case auth of Some auth \<Rightarrow> Ret auth | None \<Rightarrow> get_auth (us_id user)) 1"
    by (simp split: option.split)
  have "takes (create_signin_response cr ex user source auth oid pr) (1 + (1 + (1 + 9)))"
    unfolding create_signin_response_def
    by (intro takes_bind first)
       (use takes_mono [OF challenge, of 9] session in \<open>auto intro!: takes_bind\<close>)
  then show ?thesis by (rule takes_mono) simp
qed

lemma takes_authenticate_user: "takes (authenticate_user matches email) 2"
  by (simp add: authenticate_user_def numeral_2_eq_2 split: option.split reply.split)

text \<open>A call that is awaited before the rest.\<close>

lemma takes_less: "takes p n \<Longrightarrow> n < Suc m \<Longrightarrow> takes p m"
  by (erule takes_mono) linarith

lemma takes_Get_user_by_email: "(\<And>r. takes (k r) n) \<Longrightarrow> n < m \<Longrightarrow> takes (Get_user_by_email e k) m"
  by (cases m) (auto intro: takes_less)

lemma takes_Get_mfa_config: "(\<And>r. takes (k r) n) \<Longrightarrow> n < m \<Longrightarrow> takes (Get_mfa_config k) m"
  by (cases m) (auto intro: takes_less)

lemma takes_Time: "(\<And>r. takes (k r) n) \<Longrightarrow> n < m \<Longrightarrow> takes (Time k) m"
  by (cases m) (auto intro: takes_less)

lemma takes_Random: "(\<And>r. takes (k r) n) \<Longrightarrow> n < m \<Longrightarrow> takes (Random k) m"
  by (cases m) (auto intro: takes_less)

lemma takes_Emit: "takes p n \<Longrightarrow> n < m \<Longrightarrow> takes (Emit ev u p) m"
  by (cases m) (auto intro: takes_less)

lemma takes_signin: "takes (signin cr ex limited email matches) 40"
proof -
  have limit: "takes (bind_prog (limit_account u kind check) (\<lambda>_. Ret ())) 15" for u kind check
    by (rule takes_bind_le [OF takes_limit_account, where k = 0]) simp_all
  have enter: "takes (bind_prog (authenticate_user matches x) (\<lambda>authenticated. case authenticated of
               None \<Rightarrow> Raise err
             | Some (user, auth) \<Rightarrow> create_signin_response cr ex user ''password'' (Some auth) None None)) 17" for x err
    by (rule takes_bind_le [OF takes_authenticate_user, where k = 15])
       (simp_all add: takes_create_signin_response split: option.split prod.split)
  have count: "takes (if ENABLE_MFA config then Get_user_by_email (map ascii_lower email) (\<lambda>existing. case existing of
                       None \<Rightarrow> Ret ()
                     | Some user \<Rightarrow> bind_prog (limit_account (us_id user) ''password'' None) (\<lambda>_. Ret ()))
                   else Ret ()) 16" for config
    using limit by (auto intro!: takes_Get_user_by_email [where n = 15] split: option.split)
  show ?thesis
  proof (cases limited)
    case False
    then show ?thesis unfolding signin_def if_not_P [OF False]
      by (intro takes_Get_mfa_config [where n = 33] takes_bind_le [OF count enter]) simp_all
  qed (simp add: signin_def)
qed

lemma takes_verify: "takes (verify_route cr ex token code recovery) 44"
proof -
  have save: "takes (bind_prog (save_mfa auth m False) (\<lambda>updated. if recovery then Emit ev u (Ret (user, updated, c)) else Ret (user, updated, c))) 2"
    for auth m ev u and user :: mfa_user and c :: mfa_challenge
    by (rule takes_bind_le [where n = 1 and k = 1]) simp_all
  have judge: "takes (bind_prog (consume_recorded cr u m code recovery) (\<lambda>mfa.
         bind_prog (save_mfa auth (mfa\<lparr>md_login_challenge := None\<rparr>) False) (\<lambda>updated.
           if recovery then Emit ev u (Ret (user, updated, c)) else Ret (user, updated, c)))) 4"
    for u m auth ev and user :: mfa_user and c :: mfa_challenge
    by (rule takes_bind_le [OF takes_consume save]) simp
  have "takes (verify_mfa_challenge cr token code recovery) 35"
    unfolding verify_mfa_challenge_def
    by (rule takes_bind_le [OF takes_load_challenge, where k = 4]) (use judge in \<open>auto split: prod.split\<close>)
  then show ?thesis unfolding verify_route_def
    by (rule takes_bind_le [where k = 9]) (simp_all add: finish_login_def takes_create_session_response split: prod.split)
qed

lemma takes_confirm: "takes (confirm_route cr ex token code) 60"
proof -
  have save: "takes (bind_prog (save_mfa auth m True) (\<lambda>updated. Emit ev u (Ret (user, updated, c, codes)))) 2"
    for auth m ev u and user :: mfa_user and c :: mfa_challenge and codes :: "string list"
    by (rule takes_bind_le [where n = 1 and k = 1]) simp_all
  have store: "takes (store_enrollment cr user auth m c step) 12" for user auth m c step
    unfolding store_enrollment_def
    by (rule takes_bind_le [OF takes_recovery_codes, where k = 2]) (use save in \<open>auto split: prod.split\<close>)
  have step: "takes (enrollment_step cr c code) 1" for c
    unfolding enrollment_step_def by (auto intro!: takes_bind_le [where n = 0 and k = 1])
  have judge: "takes (bind_prog (enrollment_step cr c code) (\<lambda>matched. case matched of
            None \<Rightarrow> Emit ev u (Raise e)
          | Some step \<Rightarrow> store_enrollment cr user auth m c step)) 13" for ev u e user auth m c
    by (rule takes_bind_le [OF step, where k = 12]) (use store in \<open>auto intro: takes_Emit [where n = 0] split: option.split\<close>)
  have finish: "takes (bind_prog (finish_login ex user auth c) (\<lambda>s. Ret (Some s, codes))) 9" for user auth c and codes :: "string list"
    by (rule takes_bind_le [where n = 9 and k = 0]) (simp_all add: finish_login_def takes_create_session_response)
  have "takes (confirm_mfa_enrollment cr token code) 44"
    unfolding confirm_mfa_enrollment_def
    by (rule takes_bind_le [OF takes_load_challenge, where k = 13]) (use judge in \<open>auto split: prod.split\<close>)
  then show ?thesis unfolding confirm_route_def
    by (rule takes_bind_le [where k = 9]) (use finish in \<open>auto split: prod.split\<close>)
qed

lemma takes_manage: "takes (manage_mfa cr u cl code recovery replace) 32"
proof -
  have reply: "takes (bind_prog (challenge_response token c) (\<lambda>c. Ret (Manage_challenge_reply c))) 1" for token c
    by (rule takes_bind_le [OF takes_challenge_response, where k = 0]) simp_all
  then have answer: "takes (let answer = bind_prog (challenge_response token c) (\<lambda>c. Ret (Manage_challenge_reply c))
      in if recovery then Emit ev u answer else answer) 2" for token c ev
    by (auto simp: Let_def intro: takes_Emit [where n = 1] takes_mono [where n = 1])
  have save: "takes (bind_prog (save_mfa auth m False) (\<lambda>_. let answer = bind_prog (challenge_response token c) (\<lambda>c. Ret (Manage_challenge_reply c))
      in if recovery then Emit ev u answer else answer)) 3" for auth m token c ev
    by (rule takes_bind_le [where n = 1, OF _ answer]) simp_all
  have replace: "takes (issue_replacement cr u cl recovery auth m) 12" for auth m
  proof (cases "cl_auth_method cl"; cases "cl_auth_time cl")
    fix am tm assume cl: "cl_auth_method cl = Some am" "cl_auth_time cl = Some tm"
    show ?thesis unfolding issue_replacement_def cl prod.case option.case
      by (rule takes_bind_le [OF takes_new_challenge, where k = 3]) (auto simp only: prod.case intro!: save split: prod.split)
  qed (simp_all add: issue_replacement_def)
  have codes: "takes (regenerate_codes cr u auth m) 12" for auth m
    unfolding regenerate_codes_def
    by (rule takes_bind_le [OF takes_recovery_codes, where k = 2]) (auto intro!: takes_bind_le [where n = 1 and k = 1])
  have factor: "takes (bind_prog (consume_recorded cr u m code recovery) (\<lambda>mfa.
           if replace then issue_replacement cr u cl recovery auth mfa else regenerate_codes cr u auth mfa)) 14" for auth m
    by (rule takes_bind_le [OF takes_consume, where k = 12]) (use replace codes in auto)
  show ?thesis unfolding manage_mfa_def
    by (rule takes_Time [where n = 31])
       (auto intro!: takes_Get_mfa_config [where n = 29] takes_bind_le [OF takes_limit_account factor] simp del: takes.simps(9))
qed

lemma takes_redeem: "takes (redeem_mfa_reset_token cr token t) 36"
proof -
  have save: "takes (bind_prog (save_mfa auth m False) (\<lambda>_. challenge_response x c)) 2" for auth m x c
    by (rule takes_bind_le [where n = 1, OF _ takes_challenge_response]) simp_all
  have issue: "takes (bind_prog (new_challenge cr auth kind am tm oid pr) (\<lambda>(x, enroll).
      bind_prog (save_mfa auth (m\<lparr>md_reset_ticket := None, md_login_challenge := Some enroll\<rparr>) False) (\<lambda>_. challenge_response x enroll))) 4"
    for auth kind am tm oid pr m
    by (rule takes_bind_le [OF takes_new_challenge, where k = 2]) (use save in \<open>auto split: prod.split\<close>)
  show ?thesis unfolding redeem_mfa_reset_token_def
    by (rule takes_bind_le [OF takes_load_challenge, where k = 5])
       (use issue in \<open>auto intro!: takes_Time [where n = 4] simp del: takes.simps(10) split: prod.split\<close>)
qed

lemma takes_reset: "takes (reset_mfa cr email reason) 7"
proof -
  have save: "takes (bind_prog (save_mfa auth m True) (\<lambda>_. Emit ev u (Ret ticket))) 2" for auth m ev u and ticket :: string
    by (rule takes_bind_le [where n = 1 and k = 1]) simp_all
  have "takes (bind_prog (get_auth u) (\<lambda>auth. Random (\<lambda>ticket. Time (\<lambda>now.
      bind_prog (save_mfa auth (reset_state \<lparr>ti_token_hash = token_hash cr ticket, ti_expires_at = now + 1800\<rparr> (mfa_copy auth)) True)
        (\<lambda>_. Emit ev u (Ret ticket)))))) 5" for u ev
    by (rule takes_bind_le [where n = 1 and k = 4]) (auto intro!: takes_Random [where n = 3] takes_Time [where n = 2] save simp del: takes.simps(10,11))
  then show ?thesis unfolding reset_mfa_def
    by (intro takes_Get_user_by_email [where n = 6]) (auto intro!: takes_Emit [where n = 5] simp del: takes.simps(12) split: option.split)
qed

lemma takes_start: "takes (start_mfa_enrollment cr token) 34"
proof -
  have save: "takes (bind_prog (save_mfa auth m False) (\<lambda>_. Ret (x, y))) 1" for auth m and x y :: string
    by (rule takes_bind_le [where n = 1 and k = 0]) simp_all
  have read: "takes (bind_prog (lift_result r) (\<lambda>x. Ret (x, y))) 3" for r and y :: string
    by (rule takes_bind_le [where n = 0 and k = 0]) simp_all
  have prepare: "takes (case fernet_encrypt cr secret iv of None \<Rightarrow> Raise err
      | Some e \<Rightarrow> bind_prog (save_mfa auth (m e) False) (\<lambda>_. Ret (secret, y))) 1" for secret iv err auth m and y :: string
    by (cases "fernet_encrypt cr secret iv") (simp_all only: option.case takes.simps save)
  show ?thesis unfolding start_mfa_enrollment_def
    by (rule takes_bind_le [OF takes_load_challenge, where k = 3])
       (auto simp only: prod.case split: prod.split if_split intro!: read takes_Random [where n = 2] takes_Random [where n = 1 and m = 2] prepare)
qed

lemma takes_update_password: "takes (update_password matches email rejected hashed) 4"
proof -
  have "takes (update_user_password_by_id u hashed (Some auth)) 1" for u auth
    by (simp add: update_user_password_by_id_def Let_def split: reply.split)
  then have "takes (catch_prog (update_user_password_by_id u hashed (Some auth))
      (\<lambda>e. case e of Value_error _ \<Rightarrow> Raise x | _ \<Rightarrow> Raise e)) (1 + 0)" for u auth x
    by (rule takes_catch) (simp split: mfa_error.split)
  then have "takes (bind_prog (catch_prog (update_user_password_by_id u hashed (Some auth)) (\<lambda>e. case e of Value_error _ \<Rightarrow> Raise x | _ \<Rightarrow> Raise e))
      (\<lambda>b. if b then Emit ev v (Ret b) else Ret b)) 2" for u auth x ev v
    by (intro takes_bind_le [where n = 1 and k = 1]) auto
  then show ?thesis unfolding update_password_def
    by (intro takes_bind_le [OF takes_authenticate_user, where k = 2]) (auto split: option.split)
qed

lemma takes_reads:
  "takes (revoke_sessions_by_user_id u) 2" "takes (update_user_password_by_id u hashed None) 2"
  "takes (get_mfa_status u cl) 2" "takes (is_valid_token prefix redis cl) 2" "takes (pending_challenge cr token) 32"
proof -
  show "takes (revoke_sessions_by_user_id u) 2" "takes (update_user_password_by_id u hashed None) 2"
    by (auto simp: revoke_sessions_by_user_id_def update_user_password_by_id_def Let_def numeral_2_eq_2 split: reply.split option.split)
  show "takes (get_mfa_status u cl) 2" unfolding get_mfa_status_def by (rule takes_bind_le [where n = 1 and k = 1]) simp_all
  show "takes (is_valid_token prefix redis cl) 2" unfolding is_valid_token_def
    by (rule takes_bind_le [where n = 1 and k = 1]) (simp_all add: Let_def)
  have "takes (bind_prog (load_challenge cr token {Type_enroll, Type_verify, Type_recover} False)
      (\<lambda>(_, _, _, challenge, _). challenge_response token challenge)) 32"
    by (rule takes_bind_le [OF takes_load_challenge, where k = 1]) (auto simp: takes_challenge_response [simplified])
  then have "takes (pending_challenge cr token) (32 + 0)"
    unfolding pending_challenge_def by (rule takes_catch) (simp split: mfa_error.split)
  then show "takes (pending_challenge cr token) 32" by simp
qed

theorem handle_takes: "takes (handle ap req) 60"
proof -
  have wrap: "takes (wrap_prog f p) 60" if "takes p n" "n \<le> 60" for f :: "'a \<Rightarrow> outcome" and p n
    unfolding wrap_prog_def by (rule takes_bind_le [OF that(1), where k = 0]) (use that(2) in simp_all)
  show ?thesis
    by (cases req)
       (simp_all add: wrap [OF takes_signin] wrap [OF takes_create_signin_response] wrap [OF takes_start] wrap [OF takes_confirm]
         wrap [OF takes_verify] wrap [OF takes_manage] wrap [OF takes_redeem] wrap [OF takes_reset] wrap [OF takes_update_password]
         wrap [OF takes_reads(1)] wrap [OF takes_reads(2)] wrap [OF takes_reads(3)] wrap [OF takes_reads(4)] wrap [OF takes_reads(5)])
qed

subsection \<open>Progress under every schedule\<close>

lemma takes_answer: "takes p (Suc n) \<Longrightarrow> takes (answer x y p sys) n"
  by (cases p) auto

lemma takes_fault: "takes p n \<Longrightarrow> takes (fault p) n"
  by (cases p) (auto split: nat.splits intro: takes_Suc)

lemma takes_zero: "takes p 0 \<Longrightarrow> result_of p \<noteq> None"
  by (cases p) auto

text \<open>The turns a schedule gives to request \<open>i\<close>.\<close>

fun turn :: "nat \<Rightarrow> choice \<Rightarrow> mfa_system \<Rightarrow> nat" where
  "turn i (Advance j x y) sys = (if j = i \<and> i < requests sys \<and> fresh [x, y] sys then 1 else 0)"
| "turn i c sys = 0"

fun turns :: "app \<Rightarrow> nat \<Rightarrow> choice list \<Rightarrow> mfa_system \<Rightarrow> nat" where
  "turns ap i [] sys = 0"
| "turns ap i (c # cs) sys = turn i c sys + turns ap i cs (exec c ap sys)"

text \<open>What is left of a request's sixty calls; a request that has not arrived has all of them.\<close>

definition calls_left :: "nat \<Rightarrow> mfa_system \<Rightarrow> nat \<Rightarrow> bool" where
  "calls_left i sys n \<longleftrightarrow> (if i < requests sys then takes (thread sys i) n else n = 60)"

lemma takes_answer_same: "takes p n \<Longrightarrow> takes (answer x y p sys) n"
  using takes_answer [OF takes_Suc] by blast

lemma calls_left_exec:
  assumes "calls_left i sys n"
  shows "calls_left i (exec c ap sys) (n - turn i c sys)"
proof (cases "turn i c sys")
  case 0
  show ?thesis
  proof (cases "i < requests (exec c ap sys)")
    case True
    from exec_threads [OF True] assms show ?thesis
      by (auto simp: calls_left_def 0 True handle_takes takes_answer_same takes_fault)
  next
    case False
    then have "\<not> i < requests sys"
      by (cases c) (auto simp: requests_def set_thread_def add_rows_def split: sum.splits if_splits)
    with assms False 0 show ?thesis by (simp add: calls_left_def)
  qed
next
  case (Suc k)
  then obtain x y where c: "c = Advance i x y" "i < requests sys" "fresh [x, y] sys" and k: "k = 0"
    by (cases c) (auto split: if_splits)
  then have thread: "thread (exec c ap sys) i = answer x y (thread sys i) sys" "requests (exec c ap sys) = requests sys"
    by (auto simp: set_thread_def requests_def thread_def)
  from assms c have "takes (thread sys i) n" by (simp add: calls_left_def)
  then have "takes (answer x y (thread sys i) sys) (n - 1)"
    by (cases n) (auto intro: takes_answer takes_answer_same)
  then show ?thesis using c(2) by (simp add: calls_left_def thread Suc k)
qed

lemma calls_left_fold:
  "calls_left i sys n \<Longrightarrow> calls_left i (fold (\<lambda>c. exec c ap) cs sys) (n - turns ap i cs sys)"
proof (induction cs arbitrary: sys n)
  case (Cons c cs)
  from Cons.IH [OF calls_left_exec [OF Cons.prems, of c ap]] show ?case by simp
qed simp

lemma turns_arrived: "0 < turns ap i cs sys \<Longrightarrow> i < requests (fold (\<lambda>c. exec c ap) cs sys)"
proof (induction cs arbitrary: sys)
  case (Cons c cs)
  have keep: "i < requests sys' \<Longrightarrow> i < requests (exec c' ap sys')" for c' sys'
    by (cases c') (auto simp: requests_def set_thread_def add_rows_def split: sum.splits)
  have stay: "i < requests sys' \<Longrightarrow> i < requests (fold (\<lambda>c. exec c ap) cs' sys')" for cs' sys'
    by (induction cs' arbitrary: sys') (simp_all add: keep)
  show ?case
  proof (cases "turn i c sys")
    case 0
    with Cons show ?thesis by simp
  next
    case (Suc k)
    then have "i < requests sys" by (cases c) (auto split: if_splits)
    then show ?thesis using stay [OF keep] by simp
  qed
qed simp

text \<open>
  (C21) Every request finishes: a request that is given sixty turns has an answer, whatever the other
  requests, the database and the administration do in between.
\<close>

theorem every_request_finishes:
  assumes "60 \<le> turns ap i cs start_system"
  shows "i < requests (run ap cs) \<and> result_of (thread (run ap cs) i) \<noteq> None"
proof
  show arrived: "i < requests (run ap cs)" unfolding run_def by (rule turns_arrived) (use assms in simp)
  have "calls_left i start_system 60" by (simp add: calls_left_def requests_def start_system_def)
  from calls_left_fold [OF this, of ap cs] arrived assms have "takes (thread (run ap cs) i) 0"
    by (simp add: calls_left_def run_def)
  then show "result_of (thread (run ap cs) i) \<noteq> None" by (rule takes_zero)
qed

end
