(* ===== verification/Mfa_Examples.thy ===== *)
theory Mfa_Examples
  imports Mfa_Progress
begin

text \<open>
  A run of the authenticator system from an empty table, with toy cryptography in place of SHA-256,
  pyotp and Fernet: an account signs in, enrolls, signs in again, and two requests race to log in
  with the same recovery code. It shows that the hypotheses of the properties hold and that the
  programs get through.
\<close>

definition demo_crypto :: mfa_crypto where
  "demo_crypto =
     \<lparr>token_hash = (\<lambda>t. t), totp_at = (\<lambda>secret t. ''000000''),
      fernet_decrypt = (\<lambda>e. Some (drop 2 e)), fernet_encrypt = (\<lambda>s iv. Some (iv @ s))\<rparr>"

definition demo_app :: app where
  "demo_app = \<lparr>ap_crypto = demo_crypto, ap_verify_password = (\<lambda>p h. p = h), ap_expires_delta = None, ap_redis_prefix = []\<rparr>"

fun pairs :: "char \<Rightarrow> string \<Rightarrow> (string \<times> string) list" where
  "pairs p (a # b # s) = ([p, a], [p, b]) # pairs p s"
| "pairs p s = []"

text \<open>Turns of request \<open>i\<close>, with random values that begin with \<open>p\<close>.\<close>

definition demo_turns :: "nat \<Rightarrow> char \<Rightarrow> nat \<Rightarrow> choice list" where
  "demo_turns i p n =
     map (\<lambda>(x, y). Advance i x y) (take n (pairs p ''abcdefghijklmnopqrstuvwxyzABCDEFGHIJKLMNOPQRSTUVWXYZ''))"

definition demo_start :: "choice list" where
  "demo_start =
     [Create ''id'' ''st'' ''e'' ''p'', Set_users [\<lparr>us_id = ''id'', us_email = ''e'', us_role = ''user''\<rparr>],
      Configure \<lparr>ENABLE_MFA = True, MFA_ALLOW_OAUTH_BYPASS = False, MFA_ALLOW_TRUSTED_HEADER_BYPASS = False\<rparr>,
      Tick 3000]"

definition demo_enroll :: "choice list" where
  "demo_enroll =
     demo_start @ Arrive (Sign_in False ''e'' ''p'') # demo_turns 0 (CHR ''0'') 14
     @ Arrive (Enroll_start ''id.0u'') # demo_turns 1 (CHR ''1'') 7
     @ Arrive (Enroll_confirm ''id.0u'' ''000000'') # demo_turns 2 (CHR ''2'') 25"

definition demo_race :: "choice list" where
  "demo_race =
     demo_enroll @ Arrive (Sign_in False ''e'' ''p'') # demo_turns 3 (CHR ''3'') 14
     @ [Arrive (Verify_code ''id.3u'' ''2q'' True), Arrive (Verify_code ''id.3u'' ''2q'' True)]
     @ demo_turns 4 (CHR ''4'') 5 @ demo_turns 5 (CHR ''5'') 5 @ demo_turns 4 (CHR ''6'') 10 @ demo_turns 5 (CHR ''7'') 6"

text \<open>The values a schedule draws.\<close>

fun drawn :: "choice \<Rightarrow> string list" where
  "drawn (Advance i x y) = [x, y]"
| "drawn (Lose_late i x y) = [x, y]"
| "drawn (Create i s e p) = [i, s]"
| "drawn c = []"

lemma used_drawn: "set (sy_used (fold (\<lambda>c. exec c ap) cs sys)) \<subseteq> set (sy_used sys) \<union> set (concat (map drawn cs))"
proof (induction cs arbitrary: sys)
  case (Cons c cs)
  have "set (sy_used (exec c ap sys)) \<subseteq> set (sy_used sys) \<union> set (drawn c)"
    by (cases c) (auto simp: set_thread_def add_rows_def split: sum.splits)
  with Cons.IH [of "exec c ap sys"] show ?case by auto
qed simp

lemma demo_collision_free:
  assumes "list_all (\<lambda>t. length t = 2) (concat (map drawn cs))"
  shows "collision_free (ap_crypto demo_app) (set (sy_used (run demo_app cs)))"
proof -
  have "length t = 2" if "t \<in> set (sy_used (run demo_app cs))" for t
    using that used_drawn [of demo_app cs start_system] assms by (auto simp: run_def start_system_def list_all_iff)
  then show ?thesis by (auto simp: collision_free_def inj_on_def demo_app_def demo_crypto_def)
qed

lemma demo_lengths:
  "list_all (\<lambda>t. length t = 2) (concat (map drawn demo_enroll))"
  "list_all (\<lambda>t. length t = 2) (concat (map drawn demo_race))"
  by code_simp+


theorem recovery_code_once_witness:
  "card {i. recovered_with demo_crypto (run demo_app demo_race) ''id'' ''2q'' i} \<le> 1"
  using recovery_code_once [OF demo_collision_free [OF demo_lengths(2)], of "''id''" "''2q''"] by (simp add: demo_app_def)

theorem five_codes_per_challenge_witness:
  "judged (run demo_app demo_enroll) ''id.0u'' 2 \<and> card {i. judged (run demo_app demo_enroll) ''id.0u'' i} \<le> 5"
proof
  show "judged (run demo_app demo_enroll) ''id.0u'' 2" by code_simp
qed (rule five_codes_per_challenge [OF demo_collision_free [OF demo_lengths(1)]])

text \<open>A revocation, and a check of the old session after it.\<close>

definition demo_claims :: claims where
  "demo_claims =
     \<lparr>cl_id = ''id'', cl_typ = Some ''session'', cl_auth_method = Some ''password'', cl_auth_time = Some 0,
      cl_session_stamp = Some ''st'', cl_mfa_verified = False, cl_jti = None, cl_iat = None, cl_exp = None\<rparr>"

definition demo_revoke :: "choice list" where
  "demo_revoke = [Arrive (Revoke_sessions ''id''), Advance 0 ''0a'' ''0b'', Advance 0 ''0c'' ''0d'']"

definition demo_check :: "choice list" where
  "demo_check = [Arrive (Check_token demo_claims None), Advance 1 ''1a'' ''1b'']"

fun arrived :: "choice \<Rightarrow> request list" where
  "arrived (Arrive req) = [req]"
| "arrived c = []"

lemma map_fst_set_thread: "map fst (sy_threads (set_thread i p sys)) = map fst (sy_threads sys)"
  by (cases "i < length (sy_threads sys)") (auto simp: set_thread_def map_update intro!: nth_equalityI simp: nth_list_update)

lemma requests_arrived: "map fst (sy_threads (fold (\<lambda>c. exec c ap) cs sys)) = map fst (sy_threads sys) @ concat (map arrived cs)"
proof (induction cs arbitrary: sys)
  case (Cons c cs)
  have "map fst (sy_threads (exec c ap sys)) = map fst (sy_threads sys) @ arrived c"
    by (cases c) (simp_all add: map_fst_set_thread add_rows_def split: sum.split)
  with Cons.IH [of "exec c ap sys"] show ?case by simp
qed simp

lemma request_of_run: "i < requests (run ap cs) \<Longrightarrow> request_of (run ap cs) i = concat (map arrived cs) ! i"
proof -
  assume "i < requests (run ap cs)"
  then have "request_of (run ap cs) i = map fst (sy_threads (run ap cs)) ! i" by (simp add: request_of_def requests_def)
  then show ?thesis using requests_arrived [of ap cs start_system] by (simp add: run_def start_system_def)
qed

theorem revoked_token_refused_witness:
  "result_of (thread (run demo_app (demo_start @ demo_revoke @ demo_check)) 1) \<noteq> Some (Inr (Answer True))"
proof (rule revoked_token_refused)
  show "stamp_of (cl_id demo_claims) (run demo_app demo_start) = Some ''st''" by code_simp
  show "cl_session_stamp demo_claims = Some ''st''" by code_simp
  show "stamp_of (cl_id demo_claims) (run demo_app (demo_start @ demo_revoke)) \<noteq> Some ''st''" by code_simp
  show "requests (run demo_app (demo_start @ demo_revoke)) \<le> 1" by code_simp
  show two: "1 < requests (run demo_app (demo_start @ demo_revoke @ demo_check))" by code_simp
  show "request_of (run demo_app (demo_start @ demo_revoke @ demo_check)) 1 = Check_token demo_claims None"
    unfolding request_of_run [OF two] by (simp add: demo_start_def demo_revoke_def demo_check_def)
qed

text \<open>Sixty turns of one request, with random values of different lengths.\<close>

definition demo_patience :: "choice list" where
  "demo_patience = Arrive (Verify_code ''id.x'' ''000000'' False)
     # map (\<lambda>n. Advance 0 (replicate (2 * n) (CHR ''x'')) (replicate (2 * n + 1) (CHR ''x''))) [0..<60]"

lemma turns_fresh:
  "0 < requests sys \<Longrightarrow> \<forall>t \<in> set (sy_used sys). length t < 2 * k \<Longrightarrow> k \<le> m \<Longrightarrow>
     turns ap 0 (map (\<lambda>n. Advance 0 (replicate (2 * n) (CHR ''x'')) (replicate (2 * n + 1) (CHR ''x''))) [k..<m]) sys = m - k"
proof (induction "m - k" arbitrary: k sys)
  case (Suc d)
  let ?c = "Advance 0 (replicate (2 * k) (CHR ''x'')) (replicate (2 * k + 1) (CHR ''x''))"
  from Suc.hyps(2) have k: "k < m" "d = m - Suc k" by simp_all
  from Suc.prems(2) have fresh: "fresh [replicate (2 * k) (CHR ''x''), replicate (2 * k + 1) (CHR ''x'')] sys"
    by (fastforce simp: fresh_two)
  let ?sys = "exec ?c ap sys"
  have "0 < requests ?sys" using Suc.prems(1) by (simp add: requests_def set_thread_def)
  moreover have "\<forall>t \<in> set (sy_used ?sys). length t < 2 * Suc k"
    using Suc.prems(1,2) fresh by (auto simp: requests_def)
  ultimately have "turns ap 0 (map (\<lambda>n. Advance 0 (replicate (2 * n) (CHR ''x'')) (replicate (2 * n + 1) (CHR ''x''))) [Suc k..<m]) ?sys = m - Suc k"
    using k by (intro Suc.hyps(1)) simp_all
  moreover have "[k..<m] = k # [Suc k..<m]" using k(1) by (rule upt_conv_Cons)
  ultimately show ?case using k Suc.prems(1) fresh by simp
qed simp

theorem every_request_finishes_witness:
  "0 < requests (run demo_app demo_patience) \<and> result_of (thread (run demo_app demo_patience) 0) \<noteq> None"
proof (rule every_request_finishes)
  have "turns demo_app 0 demo_patience start_system = 60"
    unfolding demo_patience_def turns.simps by (subst turns_fresh) (simp_all add: start_system_def requests_def)
  then show "60 \<le> turns demo_app 0 demo_patience start_system" by simp
qed

end
