(* ===== verification/Stream_Lines.thy ===== *)
theory Stream_Lines
  imports Py_Numbers
begin

text \<open>
  The line assembler of provider streams, \<open>stream_chunks_handler\<close> of \<^verbatim>\<open>utils/misc.py\<close>: the chunks of a
  response arrive at arbitrary boundaries, and the generator yields the stream line by line, without
  the lines over a configured size. A byte is a \<^typ>\<open>char\<close>. It is proved equal to splitting the whole
  text at once: what is yielded depends on the bytes, not on how the network has cut them.
\<close>

subsection \<open>The generator\<close>

definition newline :: char where
  "newline = CHR 0x0A"

text \<open>\<open>limit\<close> is \<open>CHAT_STREAM_RESPONSE_CHUNK_MAX_BUFFER_SIZE\<close>; unset or not positive, no line is too long.\<close>

definition too_long :: "int option \<Rightarrow> string \<Rightarrow> bool" where
  "too_long limit line = (case limit of None \<Rightarrow> False | Some m \<Rightarrow> 0 < m \<and> m < int (length line))"

text \<open>The loop over the completed lines: what it yields and the flag \<open>dropping_line_tail\<close> after it.\<close>

fun yield_lines :: "int option \<Rightarrow> bool \<Rightarrow> string list \<Rightarrow> string list \<times> bool" where
  "yield_lines limit dropping [] = ([], dropping)"
| "yield_lines limit dropping (line # lines) =
     (if dropping then yield_lines limit False lines
      else if too_long limit line then yield_lines limit False lines
      else (case yield_lines limit False lines of (ys, d) \<Rightarrow> ((line @ [newline]) # ys, d)))"

record line_state =
  ls_buffer :: string
  ls_dropping_line_tail :: bool
  ls_yielded :: "string list"

definition split_buffer :: "int option \<Rightarrow> line_state \<Rightarrow> line_state" where
  "split_buffer limit st =
     (let parts = py_split newline (ls_buffer st)
      in case yield_lines limit (ls_dropping_line_tail st) (butlast parts) of (ys, d) \<Rightarrow>
           \<lparr>ls_buffer = last parts, ls_dropping_line_tail = d, ls_yielded = ls_yielded st @ ys\<rparr>)"

definition take_chunk :: "int option \<Rightarrow> string \<Rightarrow> line_state \<Rightarrow> line_state" where
  "take_chunk limit data st =
     (if data = [] then st
      else let st = st\<lparr>ls_buffer := ls_buffer st @ data\<rparr>;
               st = (if newline \<in> set data then split_buffer limit st else st)
           in if too_long limit (ls_buffer st) then st\<lparr>ls_buffer := [], ls_dropping_line_tail := True\<rparr> else st)"

definition yield_safe_stream_chunks :: "int option \<Rightarrow> string list \<Rightarrow> string list" where
  "yield_safe_stream_chunks limit chunks =
     (let st = fold (take_chunk limit) chunks \<lparr>ls_buffer = [], ls_dropping_line_tail = False, ls_yielded = []\<rparr>
      in ls_yielded st @ (if ls_buffer st \<noteq> [] \<and> \<not> ls_dropping_line_tail st then [ls_buffer st] else []))"

subsection \<open>The reference\<close>

text \<open>The completed lines of a text and what follows its last line break.\<close>

definition full_lines :: "string \<Rightarrow> string list" where
  "full_lines input = butlast (py_split newline input)"

definition open_line :: "string \<Rightarrow> string" where
  "open_line input = last (py_split newline input)"

definition kept_lines :: "int option \<Rightarrow> string list \<Rightarrow> string list" where
  "kept_lines limit lines = map (\<lambda>l. l @ [newline]) (filter (\<lambda>l. \<not> too_long limit l) lines)"

definition stream_lines :: "int option \<Rightarrow> string \<Rightarrow> string list" where
  "stream_lines limit input =
     kept_lines limit (full_lines input)
     @ (if open_line input \<noteq> [] \<and> \<not> too_long limit (open_line input) then [open_line input] else [])"

subsection \<open>Splitting\<close>

lemma py_split_not_Nil [simp]: "py_split c s \<noteq> []"
  by (induction s) (auto split: list.splits)

lemma py_split_append:
  "py_split c (s @ t) = butlast (py_split c s) @ (last (py_split c s) @ hd (py_split c t)) # tl (py_split c t)"
proof (induction s)
  case (Cons x s)
  obtain y ys where y: "py_split c s = y # ys" by (cases "py_split c s") auto
  show ?case
  proof (cases "x = c")
    case True
    with Cons.IH y show ?thesis by simp
  next
    case False
    with Cons.IH y show ?thesis by (cases ys) simp_all
  qed
qed simp

lemma py_split_none: "c \<notin> set s \<Longrightarrow> py_split c s = [s]"
  by (induction s) auto

lemma py_split_some: "c \<in> set s \<Longrightarrow> tl (py_split c s) \<noteq> []"
  by (induction s) (auto split: list.splits)

lemma full_lines_append:
  "full_lines (s @ t) =
     (if newline \<in> set t then full_lines s @ (open_line s @ hd (py_split newline t)) # butlast (tl (py_split newline t))
      else full_lines s)"
  using py_split_some [of newline t]
  by (auto simp: full_lines_def open_line_def py_split_append py_split_none butlast_append)

lemma open_line_append:
  "open_line (s @ t) = (if newline \<in> set t then open_line t else open_line s @ t)"
  using py_split_some [of newline t]
  by (auto simp: open_line_def py_split_append py_split_none last_tl)

lemma open_line_no_newline: "newline \<notin> set (open_line s)"
  unfolding open_line_def
proof (induction s)
  case (Cons x s)
  then show ?case by (cases "py_split newline s") (auto split: if_splits)
qed simp

subsection \<open>The invariant of the generator\<close>

text \<open>
  After a prefix of the text: the lines so far are yielded, and the buffer holds the open line, or,
  when the open line is already too long, some bytes without a line break.
\<close>

definition assembling :: "int option \<Rightarrow> string \<Rightarrow> line_state \<Rightarrow> bool" where
  "assembling limit input st \<longleftrightarrow> ls_yielded st = kept_lines limit (full_lines input)
     \<and> (if ls_dropping_line_tail st
        then too_long limit (open_line input) \<and> newline \<notin> set (ls_buffer st)
             \<and> length (ls_buffer st) \<le> length (open_line input)
        else ls_buffer st = open_line input \<and> \<not> too_long limit (open_line input))"

lemma too_long_mono: "too_long limit a \<Longrightarrow> length a \<le> length b \<Longrightarrow> too_long limit b"
  by (auto simp: too_long_def split: option.splits)

lemma yield_lines_eq:
  "yield_lines limit dropping lines =
     (kept_lines limit (if dropping then tl lines else lines), dropping \<and> lines = [])"
proof (induction lines arbitrary: dropping)
  case (Cons l ls)
  then show ?case by (auto simp: kept_lines_def)
qed (simp add: kept_lines_def)

lemma kept_lines_append: "kept_lines limit (a @ b) = kept_lines limit a @ kept_lines limit b"
  by (simp add: kept_lines_def)

lemma kept_lines_too_long: "too_long limit l \<Longrightarrow> kept_lines limit (l # ls) = kept_lines limit ls"
  by (simp add: kept_lines_def)

lemma take_chunk_assembling:
  assumes inv: "assembling limit input st"
  shows "assembling limit (input @ data) (take_chunk limit data st)"
proof (cases "newline \<in> set data")
  case True
  then have "data \<noteq> []" by auto
  let ?st = "st\<lparr>ls_buffer := ls_buffer st @ data\<rparr>"
  let ?s = "split_buffer limit ?st"
  have flag: "newline \<notin> set (ls_buffer st)"
    using inv open_line_no_newline [of input] by (auto simp: assembling_def split: if_splits)
  have parts: "py_split newline (ls_buffer st @ data)
      = (ls_buffer st @ hd (py_split newline data)) # tl (py_split newline data)"
    by (simp add: py_split_append py_split_none [OF flag])
  from py_split_some [OF True] have tl: "tl (py_split newline data) \<noteq> []" .
  from True have now_open: "open_line (input @ data) = last (py_split newline data)"
    by (simp add: open_line_append) (simp add: open_line_def)
  have buffer: "ls_buffer ?s = open_line (input @ data)" and drop: "\<not> ls_dropping_line_tail ?s"
    and out: "ls_yielded ?s = ls_yielded st
      @ kept_lines limit ((if ls_dropping_line_tail st then [] else [ls_buffer st @ hd (py_split newline data)])
                          @ butlast (tl (py_split newline data)))"
    using tl now_open by (simp_all add: split_buffer_def parts yield_lines_eq last_tl Let_def)
  have "ls_yielded ?s = kept_lines limit (full_lines (input @ data))"
  proof (cases "ls_dropping_line_tail st")
    case dropping: True
    with inv have "too_long limit (open_line input @ hd (py_split newline data))"
      by (auto simp: assembling_def elim: too_long_mono)
    with inv dropping True out show ?thesis
      by (simp add: assembling_def full_lines_append kept_lines_append kept_lines_too_long)
  next
    case False
    with inv True out show ?thesis by (simp add: assembling_def full_lines_append kept_lines_append)
  qed
  with buffer drop True \<open>data \<noteq> []\<close> show ?thesis
    by (simp add: take_chunk_def Let_def assembling_def)
next
  case False
  show ?thesis
  proof (cases "data = []")
    case False': False
    from inv False show ?thesis
      by (auto simp: take_chunk_def Let_def assembling_def full_lines_append open_line_append False' split: if_splits
          elim: too_long_mono)
  qed (use inv in \<open>simp add: take_chunk_def\<close>)
qed

lemma fold_assembling:
  "assembling limit input st \<Longrightarrow> assembling limit (input @ concat chunks) (fold (take_chunk limit) chunks st)"
proof (induction chunks arbitrary: input st)
  case (Cons data chunks)
  from Cons.IH [OF take_chunk_assembling [OF Cons.prems, of data]] show ?case by simp
qed simp

text \<open>
  (C29) The lines a provider stream is cut into do not depend on the chunks it arrives in: they are the
  lines of the whole text that are not over the limit, the last one without its line break, if it is
  not empty.
\<close>

theorem stream_lines_exact:
  "yield_safe_stream_chunks limit chunks = stream_lines limit (concat chunks)"
proof -
  let ?st = "fold (take_chunk limit) chunks \<lparr>ls_buffer = [], ls_dropping_line_tail = False, ls_yielded = []\<rparr>"
  have "assembling limit [] \<lparr>ls_buffer = [], ls_dropping_line_tail = False, ls_yielded = []\<rparr>"
    by (simp add: assembling_def kept_lines_def full_lines_def open_line_def too_long_def split: option.splits)
  from fold_assembling [OF this, of chunks] have "assembling limit (concat chunks) ?st" by simp
  then show ?thesis
    by (auto simp: yield_safe_stream_chunks_def stream_lines_def assembling_def Let_def split: if_splits)
qed

end
