(* ===== verification/Py_Objects.thy ===== *)
theory Py_Objects
  imports Json
begin

text \<open>
  Operations of Python on values of unknown type, as the message code uses them: iteration, \<open>.get\<close>,
  hashing and membership in sets, string concatenation and formatting, each with the exception it
  raises. \<open>to_str\<close> is \<open>str\<close> on a value that is not a string.
\<close>

subsection \<open>Loops that may raise\<close>

lemma map_result_Inr: "(\<And>x. x \<in> set xs \<Longrightarrow> f x = Inr (g x)) \<Longrightarrow> map_result f xs = Inr (map g xs)"
  by (induction xs) simp_all

lemma map_result_InrD: "map_result f xs = Inr ys \<Longrightarrow> length ys = length xs \<and> (\<forall>i < length xs. f (xs ! i) = Inr (ys ! i))"
proof (induction xs arbitrary: ys)
  case (Cons x xs)
  then show ?case by (auto simp: bind_result_Inr_iff nth_Cons split: nat.splits)
qed simp

lemma map_result_mem: "map_result f xs = Inr ys \<Longrightarrow> y \<in> set ys \<longleftrightarrow> (\<exists>x \<in> set xs. f x = Inr y)"
proof (induction xs arbitrary: ys)
  case (Cons x xs)
  then show ?case by (auto simp: bind_result_Inr_iff)
qed simp

primrec concat_result :: "('a \<Rightarrow> 'b list result) \<Rightarrow> 'a list \<Rightarrow> 'b list result" where
  "concat_result f [] = Inr []"
| "concat_result f (x # xs) = bind_result (f x) (\<lambda>ys. bind_result (concat_result f xs) (\<lambda>zs. Inr (ys @ zs)))"

lemma concat_result_append:
  "concat_result f (xs @ ys) = bind_result (concat_result f xs) (\<lambda>as. bind_result (concat_result f ys) (\<lambda>bs. Inr (as @ bs)))"
  by (induction xs) (simp_all add: bind_result_def split: sum.splits)

lemma concat_result_Inr: "(\<And>x. x \<in> set xs \<Longrightarrow> f x = Inr (g x)) \<Longrightarrow> concat_result f xs = Inr (concat (map g xs))"
  by (induction xs) simp_all

lemma concat_result_InrD:
  "concat_result f xs = Inr ys \<Longrightarrow> x \<in> set xs \<Longrightarrow> \<exists>y. f x = Inr y"
  by (induction xs arbitrary: ys) (auto simp: bind_result_Inr_iff)

lemma concat_result_mem:
  "concat_result f xs = Inr ys \<Longrightarrow> y \<in> set ys \<longleftrightarrow> (\<exists>x \<in> set xs. \<exists>zs. f x = Inr zs \<and> y \<in> set zs)"
  by (induction xs arbitrary: ys) (auto simp: bind_result_Inr_iff)

subsection \<open>Values\<close>

text \<open>\<open>for x in v\<close>: the items of a list, the keys of a dict, the characters of a string.\<close>

definition py_iter :: "py \<Rightarrow> py list result" where
  "py_iter v = (case v of PList xs \<Rightarrow> Inr xs | PDict d \<Rightarrow> Inr (map (PStr \<circ> fst) d)
     | PStr s \<Rightarrow> Inr (map (\<lambda>c. PStr [c]) s) | _ \<Rightarrow> Inl TypeError)"

text \<open>The receiver of a \<open>.get\<close>.\<close>

definition dict_of :: "py \<Rightarrow> pydict result" where
  "dict_of v = (case v of PDict d \<Rightarrow> Inr d | _ \<Rightarrow> Inl AttributeError)"

definition py_or :: "py \<Rightarrow> py \<Rightarrow> py" where
  "py_or a b = (if truthy a then a else b)"

text \<open>The other operand of a \<open>+=\<close> on a string.\<close>

definition as_str :: "py \<Rightarrow> string result" where
  "as_str v = (case v of PStr s \<Rightarrow> Inr s | _ \<Rightarrow> Inl TypeError)"

definition py_isspace :: "string \<Rightarrow> bool" where
  "py_isspace s \<longleftrightarrow> s \<noteq> [] \<and> list_all is_space s"

text \<open>Elements of sets and keys: hashing a list or dict raises; equality is \<open>==\<close>.\<close>

definition hash_key :: "py \<Rightarrow> py result" where
  "hash_key v = (if hashable v then Inr v else Inl TypeError)"

definition py_in :: "py \<Rightarrow> py list \<Rightarrow> bool" where
  "py_in v xs = list_ex (py_eq v) xs"

lemma py_eq_str [simp]: "py_eq (PStr a) v \<longleftrightarrow> v = PStr a" "py_eq v (PStr a) \<longleftrightarrow> v = PStr a"
  by (cases v; auto)+

lemma hash_key_Inr: "hash_key v = Inr w \<longleftrightarrow> hashable v \<and> w = v"
  by (auto simp: hash_key_def)

text \<open>Equality of hashable values is equality of their keys.\<close>

fun key_of :: "py \<Rightarrow> (string + rat option) option" where
  "key_of (PStr s) = Some (Inl s)"
| "key_of PNone = Some (Inr None)"
| "key_of v = map_option (\<lambda>x. Inr (Some x)) (py_number v)"

lemma py_eq_key_left: "hashable a \<Longrightarrow> py_eq a b \<longleftrightarrow> key_of a = key_of b \<and> key_of a \<noteq> None"
  by (cases a; cases b) simp_all

lemma key_of_hashable: "key_of v \<noteq> None \<Longrightarrow> hashable v"
  by (cases v) simp_all

lemma key_of_truthy: "key_of v = key_of w \<Longrightarrow> key_of w \<noteq> None \<Longrightarrow> truthy v = truthy w"
  by (cases v; cases w) (auto split: if_splits)

lemma py_eq_key: "hashable b \<Longrightarrow> py_eq a b \<longleftrightarrow> key_of a = key_of b \<and> key_of b \<noteq> None"
  by (cases b; cases a) simp_all

end
