(* ===== verification/Messages.thy ===== *)
theory Messages
  imports Py_Objects "HOL-Library.Sublist"
begin

text \<open>
  Lists of chat messages, the message functions of \<^verbatim>\<open>utils/misc.py\<close>: the branch of a message in the
  stored history, the text of a message, the pairing of tool calls with their results, and the
  conversion of stored output items to the messages a provider is sent. A message is a dict as the
  client or a provider stored it, so every access has its exception.
\<close>

type_synonym message = pydict

definition has_role :: "string \<Rightarrow> message \<Rightarrow> bool" where
  "has_role r m \<longleftrightarrow> pget m ''role'' = PStr r"

definition has_type :: "string \<Rightarrow> pydict \<Rightarrow> bool" where
  "has_type t d \<longleftrightarrow> pget d ''type'' = PStr t"

subsection \<open>The branch of a message\<close>

text \<open>
  \<open>get_message_list\<close>: the loop follows \<open>parentId\<close> until a message is missing or empty, or its key was
  visited.
\<close>

function message_list_loop :: "pydict \<Rightarrow> string \<Rightarrow> string list \<Rightarrow> message list \<Rightarrow> message list result" where
  "message_list_loop messages_map i visited message_list =
     (case map_of messages_map i of
        None \<Rightarrow> Inr message_list
      | Some current \<Rightarrow>
          if \<not> truthy current \<or> i \<in> set visited then Inr message_list
          else case current of
                 PDict m \<Rightarrow>
                   (if \<not> truthy (pget m ''parentId'') then Inr (m # message_list)
                    else case pget m ''parentId'' of
                           PStr j \<Rightarrow> message_list_loop messages_map j (i # visited) (m # message_list)
                         | v \<Rightarrow> if hashable v then Inr (m # message_list) else Inl TypeError)
               | _ \<Rightarrow> Inl AttributeError)"
  by pat_completeness auto
termination
proof (relation "measure (\<lambda>(mm, _, visited, _). card (fst ` set mm - set visited))", goal_cases)
  case (2 mm i visited ms v m j)
  then have "i \<in> fst ` set mm" by (auto dest!: map_of_SomeD intro: rev_image_eqI)
  with 2 have "fst ` set mm - set (i # visited) \<subset> fst ` set mm - set visited" by auto
  from psubset_card_mono [OF _ this] show ?case by simp
qed simp

declare message_list_loop.simps [simp del]

definition get_message_list :: "pydict \<Rightarrow> py \<Rightarrow> message list result" where
  "get_message_list messages_map message_id =
     (if messages_map = [] then Inr []
      else case message_id of
             PStr i \<Rightarrow> message_list_loop messages_map i [] []
           | v \<Rightarrow> if hashable v then Inr [] else Inl TypeError)"

subsection \<open>The text of a message\<close>

definition output_part_text :: "(py \<Rightarrow> string) \<Rightarrow> py \<Rightarrow> string" where
  "output_part_text to_str part =
     (case part of PDict p \<Rightarrow> if pget p ''text'' \<noteq> PNone then py_str to_str (pget p ''text'') else [] | _ \<Rightarrow> [])"

definition output_item_texts :: "(py \<Rightarrow> string) \<Rightarrow> py \<Rightarrow> string list" where
  "output_item_texts to_str item =
     (case item of
        PDict d \<Rightarrow>
          if \<not> has_type ''message'' d then []
          else (case py_or (pget d ''content'') (PList []) of
                  PList parts \<Rightarrow> (let s = concat (map (output_part_text to_str) parts)
                                 in if s \<noteq> [] \<and> \<not> py_isspace s then [s] else [])
                | _ \<Rightarrow> [])
      | _ \<Rightarrow> [])"

definition get_output_text :: "(py \<Rightarrow> string) \<Rightarrow> py \<Rightarrow> string" where
  "get_output_text to_str output =
     (case output of PList items \<Rightarrow> join [CHR 0x0A] (concat (map (output_item_texts to_str) items)) | _ \<Rightarrow> [])"

definition is_text_part :: "py \<Rightarrow> bool" where
  "is_text_part item = (case item of PDict d \<Rightarrow> has_type ''text'' d | _ \<Rightarrow> False)"

definition get_content_from_message :: "(py \<Rightarrow> string) \<Rightarrow> message \<Rightarrow> py" where
  "get_content_from_message to_str m =
     (let content = pget m ''content'';
          rest = (let output_text = get_output_text to_str (pget m ''output'')
                  in if output_text \<noteq> [] then PStr output_text
                     else (case content of PStr _ \<Rightarrow> content | _ \<Rightarrow> PNone))
      in case content of
           PList items \<Rightarrow> (case find is_text_part items of
                             Some (PDict d) \<Rightarrow> pget d ''text''
                           | _ \<Rightarrow> rest)
         | _ \<Rightarrow> if truthy content then content else rest)"

subsection \<open>Tool calls and their results\<close>

text \<open>An assistant message that requests tools.\<close>

definition calls_tools :: "message \<Rightarrow> bool" where
  "calls_tools m \<longleftrightarrow> has_role ''assistant'' m \<and> truthy (pget m ''tool_calls'')"

definition block_end :: "message list \<Rightarrow> nat \<Rightarrow> nat" where
  "block_end messages index = Suc index + length (takeWhile (has_role ''tool'') (drop (Suc index) messages))"

text \<open>The ids a message requests, \<open>{c.get('id') for c in message['tool_calls'] if c.get('id')}\<close>.\<close>

definition requested_ids :: "message \<Rightarrow> py list result" where
  "requested_ids m =
     bind_result (py_iter (pget m ''tool_calls'')) (concat_result (\<lambda>c.
       bind_result (dict_of c) (\<lambda>d.
         if truthy (pget d ''id'') then bind_result (hash_key (pget d ''id'')) (\<lambda>i. Inr [i]) else Inr [])))"

definition completed_ids :: "message list \<Rightarrow> py list result" where
  "completed_ids ms = map_result (\<lambda>m. hash_key (pget m ''tool_call_id'')) ms"

definition assign_range :: "'a \<Rightarrow> nat list \<Rightarrow> 'a list \<Rightarrow> 'a list" where
  "assign_range x is xs = fold (\<lambda>i xs. xs[i := x]) is xs"

definition paired_step :: "message list \<Rightarrow> nat \<Rightarrow> py list list \<Rightarrow> py list list result" where
  "paired_step messages index paired =
     (if \<not> calls_tools (messages ! index) then Inr paired
      else let e = block_end messages index
           in bind_result (requested_ids (messages ! index)) (\<lambda>requested.
              bind_result (completed_ids (drop (Suc index) (take e messages))) (\<lambda>completed.
                Inr (assign_range (filter (\<lambda>i. py_in i completed) requested) [index..<e] paired))))"

definition get_paired_tool_call_ids :: "message list \<Rightarrow> py list list result" where
  "get_paired_tool_call_ids messages =
     fold_result (paired_step messages) [0..<length messages] (replicate (length messages) [])"

text \<open>One message of \<open>reconcile_tool_pairs\<close>: what is left of it.\<close>

definition valid_tool_calls :: "message \<Rightarrow> py list \<Rightarrow> py list result" where
  "valid_tool_calls m paired =
     bind_result (py_iter (pget m ''tool_calls'')) (concat_result (\<lambda>c.
       bind_result (dict_of c) (\<lambda>d. bind_result (hash_key (pget d ''id'')) (\<lambda>i.
         Inr (if py_in i paired then [c] else [])))))"

definition meaningful :: "py \<Rightarrow> bool" where
  "meaningful content = (case py_or content (PStr []) of PStr s \<Rightarrow> py_strip s \<noteq> [] | v \<Rightarrow> truthy v)"

definition reconcile_message :: "(py \<Rightarrow> string) \<Rightarrow> message \<times> py list \<Rightarrow> message list result" where
  "reconcile_message to_str mp =
     (case mp of (m, paired) \<Rightarrow>
        bind_result (if has_role ''tool'' m
                     then bind_result (hash_key (pget m ''tool_call_id'')) (\<lambda>i. Inr (\<not> py_in i paired))
                     else Inr False) (\<lambda>orphan.
          if orphan then Inr []
          else if \<not> calls_tools m then Inr [m]
          else bind_result (valid_tool_calls m paired) (\<lambda>valid.
            if valid \<noteq> [] then Inr [AList.update ''tool_calls'' (PList valid) m]
            else if meaningful (get_content_from_message to_str m) \<or> truthy (pget m ''reasoning_content'')
            then Inr [filter (\<lambda>(k, _). k \<noteq> ''tool_calls'') m]
            else Inr [])))"

definition reconcile_tool_pairs :: "(py \<Rightarrow> string) \<Rightarrow> message list \<Rightarrow> message list result" where
  "reconcile_tool_pairs to_str messages =
     bind_result (get_paired_tool_call_ids messages) (\<lambda>paired.
       concat_result (reconcile_message to_str) (zip messages paired))"


subsection \<open>Blocks\<close>

text \<open>
  The ids paired with every message, block by block: a message that calls tools and the tool results
  after it share one set.
\<close>

function block_ids :: "message list \<Rightarrow> py list list result" where
  "block_ids [] = Inr []"
| "block_ids (m # ms) =
     (if calls_tools m
      then bind_result (requested_ids m) (\<lambda>requested.
           bind_result (completed_ids (takeWhile (has_role ''tool'') ms)) (\<lambda>completed.
           bind_result (block_ids (dropWhile (has_role ''tool'') ms)) (\<lambda>rest.
             Inr (replicate (Suc (length (takeWhile (has_role ''tool'') ms))) (filter (\<lambda>i. py_in i completed) requested)
                  @ rest))))
      else bind_result (block_ids ms) (\<lambda>rest. Inr ([] # rest)))"
  by pat_completeness auto
termination
  by (relation "measure length") (auto simp: length_dropWhile_le less_Suc_eq_le)

lemma tool_calls_no_tools: "has_role ''tool'' m \<Longrightarrow> \<not> calls_tools m"
  by (simp add: has_role_def calls_tools_def)

lemma assign_range_append:
  "assign_range x [length as..<length as + length bs] (as @ bs @ cs) = as @ replicate (length bs) x @ cs"
proof (induction bs arbitrary: as)
  case (Cons b bs)
  have "[length as..<length as + length (b # bs)] = length as # [length (as @ [x])..<length (as @ [x]) + length bs]"
    by (simp add: upt_conv_Cons del: upt_Suc)
  then have "assign_range x [length as..<length as + length (b # bs)] (as @ (b # bs) @ cs)
      = assign_range x [length (as @ [x])..<length (as @ [x]) + length bs] ((as @ [x]) @ bs @ cs)"
    by (simp add: assign_range_def del: upt_Suc)
  also have "\<dots> = (as @ [x]) @ replicate (length bs) x @ cs" by (rule Cons.IH)
  finally show ?case by simp
qed (simp add: assign_range_def)

text \<open>A run of tool results changes nothing.\<close>

lemma paired_tools_idle:
  assumes "list_all (has_role ''tool'') ts"
  shows "fold_result (paired_step (pre @ ts @ post)) [length pre..<length pre + length ts] acc = Inr acc"
proof -
  have "fold_result (paired_step (pre @ ts @ post)) is acc = Inr acc"
    if "\<And>i. i \<in> set is \<Longrightarrow> \<not> calls_tools ((pre @ ts @ post) ! i)" for "is"
    using that by (induction "is") (simp_all add: paired_step_def)
  moreover have "\<not> calls_tools ((pre @ ts @ post) ! i)" if "i \<in> set [length pre..<length pre + length ts]" for i
  proof -
    from that have "(pre @ ts @ post) ! i \<in> set ts" by (auto simp: nth_append)
    with assms show ?thesis by (auto simp: list_all_iff tool_calls_no_tools)
  qed
  ultimately show ?thesis by blast
qed

lemma fold_result_append:
  "fold_result f (xs @ ys) s = bind_result (fold_result f xs s) (fold_result f ys)"
  by (induction xs arbitrary: s) (simp_all add: bind_result_def split: sum.splits)

lemma paired_blocks:
  assumes "length acc = length pre"
  shows "fold_result (paired_step (pre @ ms)) [length pre..<length pre + length ms] (acc @ replicate (length ms) [])
    = bind_result (block_ids ms) (\<lambda>rest. Inr (acc @ rest))"
  using assms
proof (induction ms arbitrary: pre acc rule: block_ids.induct)
  case (2 m ms)
  let ?ts = "takeWhile (has_role ''tool'') ms" and ?rest = "dropWhile (has_role ''tool'') ms"
  let ?all = "pre @ m # ms"
  have upt: "[length pre..<length pre + length (m # ms)] = length pre # [length (pre @ [m])..<length (pre @ [m]) + length ms]"
    by (simp add: upt_conv_Cons del: upt_Suc)
  show ?case
  proof (cases "calls_tools m")
    case False
    have "fold_result (paired_step ?all) [length pre..<length pre + length (m # ms)] (acc @ replicate (length (m # ms)) [])
        = fold_result (paired_step ((pre @ [m]) @ ms)) [length (pre @ [m])..<length (pre @ [m]) + length ms]
            ((acc @ [[]]) @ replicate (length ms) [])"
      unfolding upt using False by (simp add: paired_step_def del: upt_Suc)
    also have "\<dots> = bind_result (block_ids ms) (\<lambda>rest. Inr ((acc @ [[]]) @ rest))"
      by (rule "2.IH"(2) [OF False]) (use "2.prems" in simp)
    finally show ?thesis using False by (simp add: bind_result_def split: sum.splits)
  next
    case True
    have e: "block_end ?all (length pre) = length pre + Suc (length ?ts)"
      by (simp add: block_end_def)
    have ts: "drop (Suc (length pre)) (take (block_end ?all (length pre)) ?all) = ?ts"
      by (simp add: e takeWhile_eq_take [symmetric] take_append flip: takeWhile_eq_take)
    let ?P = "\<lambda>requested completed. filter (\<lambda>i. py_in i completed) requested"
    have step: "paired_step ?all (length pre) (acc @ replicate (length (m # ms)) [])
        = bind_result (requested_ids m) (\<lambda>requested. bind_result (completed_ids ?ts) (\<lambda>completed.
            Inr (acc @ replicate (Suc (length ?ts)) (?P requested completed) @ replicate (length ?rest) [])))"
    proof -
      have len: "length (m # ms) = Suc (length ?ts) + length ?rest"
        by (metis length_Cons add_Suc length_append takeWhile_dropWhile_id)
      have "assign_range x [length pre..<block_end ?all (length pre)] (acc @ replicate (length (m # ms)) [])
          = acc @ replicate (Suc (length ?ts)) x @ replicate (length ?rest) []" for x :: "py list"
        using assign_range_append [of x acc "replicate (Suc (length ?ts)) []" "replicate (length ?rest) []"] "2.prems"
        unfolding len e replicate_add by simp
      with True show ?thesis unfolding paired_step_def Let_def ts by (simp del: replicate.simps upt_Suc)
    qed
    have upt': "[length (pre @ [m])..<length (pre @ [m]) + length ms]
        = [length (pre @ [m])..<length (pre @ [m]) + length ?ts]
          @ [length (pre @ m # ?ts)..<length (pre @ m # ?ts) + length ?rest]"
    proof -
      have "length ms = length ?ts + length ?rest" by (metis length_append takeWhile_dropWhile_id)
      then show ?thesis
        using upt_add_eq_append [of "Suc (length pre)" "Suc (length pre) + length ?ts" "length ?rest"]
        by (simp add: add.assoc del: upt_Suc)
    qed
    have idle: "fold_result (paired_step ?all) [length (pre @ [m])..<length (pre @ [m]) + length ?ts] a = Inr a" for a
      using paired_tools_idle [of ?ts "pre @ [m]" ?rest a] set_takeWhileD by (fastforce simp: list_all_iff simp del: upt_Suc)
    have rest: "fold_result (paired_step ?all) [length (pre @ m # ?ts)..<length (pre @ m # ?ts) + length ?rest]
          ((acc @ replicate (Suc (length ?ts)) (?P requested completed)) @ replicate (length ?rest) [])
        = bind_result (block_ids ?rest) (\<lambda>r. Inr ((acc @ replicate (Suc (length ?ts)) (?P requested completed)) @ r))"
      for requested completed
      using "2.IH"(1) [OF True, where acc = "acc @ replicate (Suc (length ?ts)) (?P requested completed)" and pre = "pre @ m # ?ts"] "2.prems"
      by (simp del: upt_Suc replicate.simps)
    have tail: "fold_result (paired_step ?all) [length (pre @ [m])..<length (pre @ [m]) + length ms]
          (acc @ replicate (Suc (length ?ts)) (?P requested completed) @ replicate (length ?rest) [])
        = bind_result (block_ids ?rest) (\<lambda>r. Inr (acc @ replicate (Suc (length ?ts)) (?P requested completed) @ r))"
      for requested completed
      unfolding upt' fold_result_append idle using rest [of completed requested] by (simp only: bind_result_simps append_assoc)
    show ?thesis
      unfolding upt fold_result.simps step using True tail
      by (cases "requested_ids m"; cases "completed_ids ?ts"; cases "block_ids ?rest")
         (simp_all only: bind_result_simps block_ids.simps if_True)
  qed
qed simp

lemma get_paired_blocks: "get_paired_tool_call_ids ms = block_ids ms"
  using paired_blocks [of "[]" "[]" ms] by (simp add: get_paired_tool_call_ids_def bind_result_def split: sum.splits)


subsection \<open>Pairs that strict providers accept\<close>

text \<open>A call has a usable id, and a result answers a call.\<close>

definition call_ok :: "py \<Rightarrow> bool" where
  "call_ok c = (case c of PDict d \<Rightarrow> truthy (pget d ''id'') \<and> hashable (pget d ''id'') | _ \<Rightarrow> False)"

definition answers :: "message \<Rightarrow> py \<Rightarrow> bool" where
  "answers t c = (case c of PDict d \<Rightarrow> py_eq (pget d ''id'') (pget t ''tool_call_id'') | _ \<Rightarrow> False)"

definition answered :: "message \<Rightarrow> message list \<Rightarrow> bool" where
  "answered m ts =
     (case pget m ''tool_calls'' of
        PList cs \<Rightarrow> list_all (\<lambda>c. call_ok c \<and> list_ex (\<lambda>t. answers t c) ts) cs
                     \<and> list_all (\<lambda>t. list_ex (answers t) cs) ts
      | _ \<Rightarrow> False)"

text \<open>
  Every message that calls tools is followed by their results and by no others, and a tool result
  stands nowhere else.
\<close>

function strictly_paired :: "message list \<Rightarrow> bool" where
  "strictly_paired [] \<longleftrightarrow> True"
| "strictly_paired (m # ms) \<longleftrightarrow>
     \<not> has_role ''tool'' m
     \<and> (if calls_tools m
        then answered m (takeWhile (has_role ''tool'') ms) \<and> strictly_paired (dropWhile (has_role ''tool'') ms)
        else strictly_paired ms)"
  by pat_completeness auto
termination
  by (relation "measure length") (auto simp: length_dropWhile_le less_Suc_eq_le)

text \<open>The ids of a block, as sets of keys.\<close>

lemma requested_idsD:
  assumes "requested_ids m = Inr is"
  obtains cs where "py_iter (pget m ''tool_calls'') = Inr cs"
    and "\<And>c. c \<in> set cs \<Longrightarrow> \<exists>d. c = PDict d \<and> (truthy (pget d ''id'') \<longrightarrow> hashable (pget d ''id''))"
    and "\<And>i. i \<in> set is \<longleftrightarrow> (\<exists>d. PDict d \<in> set cs \<and> i = pget d ''id'' \<and> truthy i \<and> hashable i)"
proof -
  from assms obtain cs where cs: "py_iter (pget m ''tool_calls'') = Inr cs"
    and ids: "concat_result (\<lambda>c. bind_result (dict_of c) (\<lambda>d.
         if truthy (pget d ''id'') then bind_result (hash_key (pget d ''id'')) (\<lambda>i. Inr [i]) else Inr [])) cs = Inr is"
      (is "concat_result ?f cs = _")
    by (auto simp: requested_ids_def bind_result_Inr_iff)
  have f: "(\<exists>zs. ?f c = Inr zs) \<longleftrightarrow> (\<exists>d. c = PDict d \<and> (truthy (pget d ''id'') \<longrightarrow> hashable (pget d ''id'')))" for c
    by (cases c) (simp_all add: dict_of_def hash_key_def)
  have g: "(\<exists>zs. ?f c = Inr zs \<and> i \<in> set zs) \<longleftrightarrow> (\<exists>d. c = PDict d \<and> i = pget d ''id'' \<and> truthy i \<and> hashable i)" for c i
  proof (cases c)
    case (PDict d)
    then show ?thesis by (auto simp: dict_of_def hash_key_def)
  qed (simp_all add: dict_of_def)
  show ?thesis
  proof (rule that [OF cs])
    show "\<exists>d. c = PDict d \<and> (truthy (pget d ''id'') \<longrightarrow> hashable (pget d ''id''))" if "c \<in> set cs" for c
      using concat_result_InrD [OF ids that] f by blast
    show "i \<in> set is \<longleftrightarrow> (\<exists>d. PDict d \<in> set cs \<and> i = pget d ''id'' \<and> truthy i \<and> hashable i)" for i
      unfolding concat_result_mem [OF ids] g by auto
  qed
qed

lemma completed_idsD:
  assumes "completed_ids ts = Inr is"
  shows "i \<in> set is \<longleftrightarrow> (\<exists>t \<in> set ts. i = pget t ''tool_call_id'' \<and> hashable i)"
    and "t \<in> set ts \<Longrightarrow> hashable (pget t ''tool_call_id'')"
  using map_result_mem [OF assms [unfolded completed_ids_def]] map_result_InrD [OF assms [unfolded completed_ids_def]]
  by (auto simp: hash_key_Inr in_set_conv_nth)

lemma valid_tool_calls_eq:
  assumes "valid_tool_calls m P = Inr valid" and "py_iter (pget m ''tool_calls'') = Inr cs"
  shows "valid = filter (\<lambda>c. \<exists>d. c = PDict d \<and> hashable (pget d ''id'') \<and> py_in (pget d ''id'') P) cs"
proof -
  have "concat_result (\<lambda>c. bind_result (dict_of c) (\<lambda>d. bind_result (hash_key (pget d ''id'')) (\<lambda>i.
         Inr (if py_in i P then [c] else [])))) cs = Inr valid"
    using assms by (simp add: valid_tool_calls_def)
  then show ?thesis
  proof (induction cs arbitrary: valid)
    case (Cons c cs)
    then show ?case by (cases c) (auto simp: bind_result_Inr_iff dict_of_def hash_key_Inr)
  qed simp
qed

lemma py_in_keys:
  assumes "\<And>x. x \<in> set xs \<Longrightarrow> hashable x"
  shows "py_in v xs \<longleftrightarrow> key_of v \<noteq> None \<and> key_of v \<in> key_of ` set xs"
proof -
  have "py_in v xs \<longleftrightarrow> (\<exists>x \<in> set xs. key_of v = key_of x \<and> key_of x \<noteq> None)"
    using assms by (simp add: py_in_def list_ex_iff py_eq_key cong: bex_cong)
  then show ?thesis by (metis (no_types, lifting) image_iff)
qed


definition pairing :: "py list \<Rightarrow> py list \<Rightarrow> py list" where
  "pairing requested completed = filter (\<lambda>i. py_in i completed) requested"

lemma py_in_pairing:
  assumes "requested_ids m = Inr req" and "completed_ids ts = Inr com" and "py_iter (pget m ''tool_calls'') = Inr cs"
  shows "py_in v (pairing req com) \<longleftrightarrow>
    key_of v \<noteq> None \<and> (\<exists>d. PDict d \<in> set cs \<and> truthy (pget d ''id'') \<and> key_of (pget d ''id'') = key_of v)
    \<and> (\<exists>t \<in> set ts. key_of (pget t ''tool_call_id'') = key_of v)"
proof -
  obtain cs' where cs': "py_iter (pget m ''tool_calls'') = Inr cs'"
    and req: "\<And>i. i \<in> set req \<longleftrightarrow> (\<exists>d. PDict d \<in> set cs' \<and> i = pget d ''id'' \<and> truthy i \<and> hashable i)"
    using requested_idsD [OF assms(1)] by metis
  from cs' assms(3) have [simp]: "cs' = cs" by simp
  have com: "py_in i com \<longleftrightarrow> key_of i \<noteq> None \<and> (\<exists>t \<in> set ts. key_of (pget t ''tool_call_id'') = key_of i)" for i
  proof -
    have "py_in i com \<longleftrightarrow> key_of i \<noteq> None \<and> key_of i \<in> key_of ` set com"
      by (rule py_in_keys) (use completed_idsD(1) [OF assms(2)] in blast)
    moreover have "set com = (\<lambda>t. pget t ''tool_call_id'') ` set ts"
      using completed_idsD [OF assms(2)] by blast
    ultimately show ?thesis by (metis (no_types, lifting) image_iff)
  qed
  have "py_in v (pairing req com) \<longleftrightarrow> key_of v \<noteq> None \<and> key_of v \<in> key_of ` set (pairing req com)"
    by (rule py_in_keys) (auto simp: pairing_def req)
  also have "\<dots> \<longleftrightarrow> key_of v \<noteq> None \<and> (\<exists>i. i \<in> set req \<and> py_in i com \<and> key_of i = key_of v)"
    by (fastforce simp: pairing_def image_iff)
  finally show ?thesis unfolding req com using key_of_hashable by (metis \<open>cs' = cs\<close>)
qed


lemma map_of_without: "map_of (filter (\<lambda>(k, _). k \<noteq> a) d) b = (if b = a then None else map_of d b)"
  by (induction d) auto

lemma reconcile_tools:
  assumes "\<And>t. t \<in> set ts \<Longrightarrow> has_role ''tool'' t \<and> hashable (pget t ''tool_call_id'')"
  shows "concat_result (reconcile_message to_str) (zip ts (replicate (length ts) P))
    = Inr (filter (\<lambda>t. py_in (pget t ''tool_call_id'') P) ts)"
  using assms
proof (induction ts)
  case (Cons t ts)
  then have "reconcile_message to_str (t, P) = Inr (if py_in (pget t ''tool_call_id'') P then [t] else [])"
    by (simp add: reconcile_message_def hash_key_def tool_calls_no_tools)
  with Cons show ?case by simp
qed simp

text \<open>What is left of a block: the calls and results that belong together, or neither of them.\<close>

lemma reconcile_block:
  assumes calls: "calls_tools m" and tools: "\<And>t. t \<in> set ts \<Longrightarrow> has_role ''tool'' t"
    and req: "requested_ids m = Inr req" and com: "completed_ids ts = Inr com"
    and out: "concat_result (reconcile_message to_str) (zip (m # ts) (replicate (Suc (length ts)) (pairing req com))) = Inr out"
  shows "(\<exists>m' ks. out = m' # ks \<and> calls_tools m' \<and> answered m' ks \<and> (\<forall>k \<in> set ks. has_role ''tool'' k))
    \<or> (\<exists>m'. out = [m'] \<and> \<not> calls_tools m' \<and> \<not> has_role ''tool'' m') \<or> out = []"
proof -
  let ?P = "pairing req com"
  let ?ks = "filter (\<lambda>t. py_in (pget t ''tool_call_id'') ?P) ts"
  from calls have not_tool: "\<not> has_role ''tool'' m" using tool_calls_no_tools by blast
  have rest: "concat_result (reconcile_message to_str) (zip ts (replicate (length ts) ?P)) = Inr ?ks"
    by (rule reconcile_tools) (use tools completed_idsD(2) [OF com] in blast)
  obtain cs where cs: "py_iter (pget m ''tool_calls'') = Inr cs"
    and dicts: "\<And>c. c \<in> set cs \<Longrightarrow> \<exists>d. c = PDict d \<and> (truthy (pget d ''id'') \<longrightarrow> hashable (pget d ''id''))"
    using requested_idsD [OF req] by metis
  define left_over where "left_over valid = (if valid \<noteq> [] then [AList.update ''tool_calls'' (PList valid) m]
            else if meaningful (get_content_from_message to_str m) \<or> truthy (pget m ''reasoning_content'')
            then [filter (\<lambda>(k, _). k \<noteq> ''tool_calls'') m] else [])" for valid
  have "reconcile_message to_str (m, ?P) = bind_result (valid_tool_calls m ?P) (\<lambda>valid. Inr (left_over valid))"
    using not_tool calls by (simp add: reconcile_message_def left_over_def bind_result_def split: sum.splits)
  with out rest obtain valid where valid: "valid_tool_calls m ?P = Inr valid" and out': "out = left_over valid @ ?ks"
    by (auto simp: bind_result_Inr_iff)
  note in_P = py_in_pairing [OF req com cs]
  from valid_tool_calls_eq [OF valid cs]
  have valid_eq: "c \<in> set valid \<longleftrightarrow> c \<in> set cs \<and> (\<exists>d. c = PDict d \<and> py_in (pget d ''id'') ?P)" for c
    using key_of_hashable in_P by auto
  show ?thesis
  proof (cases "valid = []")
    case True
    have "?ks = []"
    proof (rule ccontr)
      assume "?ks \<noteq> []"
      then obtain t where "t \<in> set ts" "py_in (pget t ''tool_call_id'') ?P" by (auto simp: filter_empty_conv)
      then obtain d where "PDict d \<in> set cs" "py_in (pget d ''id'') ?P" unfolding in_P by metis
      with valid_eq [of "PDict d"] True show False by simp
    qed
    moreover have "\<not> has_role ''tool'' (filter (\<lambda>(k, _). k \<noteq> ''tool_calls'') m)"
      and "\<not> calls_tools (filter (\<lambda>(k, _). k \<noteq> ''tool_calls'') m)"
      using not_tool by (simp_all add: has_role_def calls_tools_def pget_def dget_def map_of_without)
    ultimately show ?thesis using True out' by (auto simp: left_over_def)
  next
    case False
    let ?m = "AList.update ''tool_calls'' (PList valid) m"
    have "calls_tools ?m" using calls False by (simp add: calls_tools_def has_role_def pget_def)
    moreover have "answered ?m ?ks"
    proof -
      have "call_ok c \<and> (\<exists>t \<in> set ?ks. answers t c)" if "c \<in> set valid" for c
      proof -
        from that valid_eq obtain d where c: "c = PDict d" "py_in (pget d ''id'') ?P" by blast
        from c(2) [unfolded in_P] obtain t where t: "t \<in> set ts" "key_of (pget t ''tool_call_id'') = key_of (pget d ''id'')" by blast
        with c(2) have "t \<in> set ?ks" by (simp add: in_P)
        moreover have "hashable (pget d ''id'')" and "truthy (pget d ''id'')"
          using c(2) [unfolded in_P] key_of_hashable key_of_truthy by metis+
        moreover from c(2) t(2) calculation(2) have "answers t c"
          by (simp add: c(1) answers_def py_eq_key_left in_P)
        ultimately show ?thesis using c(1) by (auto simp: call_ok_def)
      qed
      moreover have "\<exists>c \<in> set valid. answers t c" if "t \<in> set ?ks" for t
      proof -
        from that have t: "t \<in> set ts" "py_in (pget t ''tool_call_id'') ?P" by auto
        from t(2) [unfolded in_P] obtain d where d: "PDict d \<in> set cs" "key_of (pget d ''id'') = key_of (pget t ''tool_call_id'')"
          "key_of (pget t ''tool_call_id'') \<noteq> None" "truthy (pget d ''id'')" by blast
        with t have "PDict d \<in> set valid" unfolding valid_eq in_P by metis
        moreover from d have "answers t (PDict d)" by (simp add: answers_def py_eq_key completed_idsD(2) [OF com t(1)])
        ultimately show ?thesis by blast
      qed
      ultimately show ?thesis by (simp add: answered_def pget_def list_all_iff list_ex_iff)
    qed
    ultimately show ?thesis using False out' tools by (auto simp: left_over_def)
  qed
qed


lemma strictly_paired_head:
  assumes "strictly_paired ms"
  shows "takeWhile (has_role ''tool'') ms = []" and "dropWhile (has_role ''tool'') ms = ms"
  using assms by (cases ms; simp)+

text \<open>A message that is neither a tool result nor calls tools.\<close>

definition plain_message :: "message \<Rightarrow> bool" where
  "plain_message m \<longleftrightarrow> \<not> has_role ''tool'' m \<and> \<not> calls_tools m"

definition reconcile_blocks :: "(py \<Rightarrow> string) \<Rightarrow> message list \<Rightarrow> message list result" where
  "reconcile_blocks to_str ms = bind_result (block_ids ms) (\<lambda>p. concat_result (reconcile_message to_str) (zip ms p))"

lemma reconcile_blocks_simps:
  "reconcile_blocks to_str [] = Inr []"
  "\<not> calls_tools m \<Longrightarrow> reconcile_blocks to_str (m # ms)
     = bind_result (block_ids ms) (\<lambda>p. bind_result (reconcile_message to_str (m, [])) (\<lambda>a.
         bind_result (concat_result (reconcile_message to_str) (zip ms p)) (\<lambda>b. Inr (a @ b))))"
  by (simp_all add: reconcile_blocks_def bind_result_def split: sum.splits)

lemma reconcile_blocks_calls:
  assumes "calls_tools m" and "requested_ids m = Inr req"
    and "completed_ids (takeWhile (has_role ''tool'') ms) = Inr com"
    and "block_ids (dropWhile (has_role ''tool'') ms) = Inr p"
  shows "reconcile_blocks to_str (m # ms) =
    bind_result (concat_result (reconcile_message to_str)
        (zip (m # takeWhile (has_role ''tool'') ms)
             (replicate (Suc (length (takeWhile (has_role ''tool'') ms))) (pairing req com)))) (\<lambda>a.
      bind_result (reconcile_blocks to_str (dropWhile (has_role ''tool'') ms)) (\<lambda>b. Inr (a @ b)))"
proof -
  let ?ts = "takeWhile (has_role ''tool'') ms" and ?rest = "dropWhile (has_role ''tool'') ms"
  have "zip ((m # ?ts) @ ?rest) (replicate (Suc (length ?ts)) (pairing req com) @ p)
      = zip (m # ?ts) (replicate (Suc (length ?ts)) (pairing req com)) @ zip ?rest p"
    by (subst zip_append) simp_all
  then have zip: "zip (m # ms) (replicate (Suc (length ?ts)) (pairing req com) @ p)
      = zip (m # ?ts) (replicate (Suc (length ?ts)) (pairing req com)) @ zip ?rest p"
    by (simp only: append_Cons takeWhile_dropWhile_id)
  have "block_ids (m # ms) = Inr (replicate (Suc (length ?ts)) (pairing req com) @ p)"
    using assms by (simp add: pairing_def)
  then show ?thesis
    unfolding reconcile_blocks_def using assms(4) by (simp only: bind_result_simps zip concat_result_append)
qed

lemma reconcile_strict:
  "reconcile_blocks to_str ms = Inr out \<Longrightarrow> strictly_paired out \<and> subseq (filter plain_message ms) out"
proof (induction ms arbitrary: out rule: block_ids.induct)
  case (2 m ms)
  let ?ts = "takeWhile (has_role ''tool'') ms" and ?rest = "dropWhile (has_role ''tool'') ms"
  show ?case
  proof (cases "calls_tools m")
    case True
    from "2.prems" True obtain req com p where ids: "requested_ids m = Inr req" "completed_ids ?ts = Inr com" "block_ids ?rest = Inr p"
      by (auto simp: reconcile_blocks_def bind_result_Inr_iff)
    from "2.prems" [unfolded reconcile_blocks_calls [OF True ids]] obtain a b where
      a: "concat_result (reconcile_message to_str) (zip (m # ?ts) (replicate (Suc (length ?ts)) (pairing req com))) = Inr a"
      and b: "reconcile_blocks to_str ?rest = Inr b" and out: "out = a @ b"
      by (auto simp: bind_result_Inr_iff)
    from "2.IH"(1) [OF True b] have IH: "strictly_paired b" "subseq (filter plain_message ?rest) b" by auto
    have tools: "\<And>t. t \<in> set ?ts \<Longrightarrow> has_role ''tool'' t" by (auto dest: set_takeWhileD)
    have "filter plain_message ?ts = []" using tools by (auto simp: filter_empty_conv plain_message_def)
    then have "filter plain_message ms = filter plain_message ?rest"
      by (metis append_Nil filter_append takeWhile_dropWhile_id)
    with True have "filter plain_message (m # ms) = filter plain_message ?rest"
      by (simp add: plain_message_def)
    with IH(2) have "subseq (filter plain_message (m # ms)) out" by (simp add: out list_emb_append2)
    moreover have "strictly_paired out"
      using reconcile_block [OF True tools ids(1,2) a] IH(1) out
      by (auto simp: strictly_paired_head dest: tool_calls_no_tools)
    ultimately show ?thesis by blast
  next
    case False
    from "2.prems" False obtain a b where a: "reconcile_message to_str (m, []) = Inr a"
      and b: "reconcile_blocks to_str ms = Inr b" and out: "out = a @ b"
      by (auto simp: reconcile_blocks_simps reconcile_blocks_def bind_result_Inr_iff)
    from a False have "a = (if has_role ''tool'' m then [] else [m])"
      by (auto simp: reconcile_message_def bind_result_Inr_iff py_in_def split: if_splits)
    with "2.IH"(2) [OF False b] out False show ?thesis by (simp add: plain_message_def)
  qed
qed (simp add: reconcile_blocks_def)


text \<open>Lists that are paired already are left alone.\<close>

lemma call_okD: "call_ok c \<Longrightarrow> \<exists>d. c = PDict d \<and> truthy (pget d ''id'') \<and> hashable (pget d ''id'')"
  by (cases c) (simp_all add: call_ok_def)

lemma answered_ids:
  assumes "answered m ts"
  obtains cs req com where "pget m ''tool_calls'' = PList cs" and "requested_ids m = Inr req" and "completed_ids ts = Inr com"
    and "\<And>c. c \<in> set cs \<Longrightarrow> call_ok c \<and> (\<exists>t \<in> set ts. answers t c)"
    and "\<And>t. t \<in> set ts \<Longrightarrow> \<exists>c \<in> set cs. answers t c"
proof -
  from assms obtain cs where cs: "pget m ''tool_calls'' = PList cs"
    and calls: "\<And>c. c \<in> set cs \<Longrightarrow> call_ok c \<and> (\<exists>t \<in> set ts. answers t c)"
    and results: "\<And>t. t \<in> set ts \<Longrightarrow> \<exists>c \<in> set cs. answers t c"
    by (auto simp: answered_def list_all_iff list_ex_iff split: py.splits)
  have "requested_ids m = Inr (concat (map (\<lambda>c. case c of PDict d \<Rightarrow> [pget d ''id''] | _ \<Rightarrow> []) cs))"
    unfolding requested_ids_def cs py_iter_def py.case bind_result_simps
  proof (rule concat_result_Inr)
    fix c
    assume "c \<in> set cs"
    with calls obtain d where "c = PDict d" "truthy (pget d ''id'')" "hashable (pget d ''id'')" by (metis call_okD)
    then show "bind_result (dict_of c) (\<lambda>d. if truthy (pget d ''id'')
        then bind_result (hash_key (pget d ''id'')) (\<lambda>i. Inr [i]) else Inr [])
      = Inr (case c of PDict d \<Rightarrow> [pget d ''id''] | _ \<Rightarrow> [])"
      by (simp add: dict_of_def hash_key_def)
  qed
  moreover have "hashable (pget t ''tool_call_id'')" if "t \<in> set ts" for t
  proof -
    from results [OF that] obtain c where c: "c \<in> set cs" "answers t c" by blast
    moreover from calls [OF c(1)] obtain d where "c = PDict d" "hashable (pget d ''id'')" by (metis call_okD)
    ultimately have "key_of (pget t ''tool_call_id'') \<noteq> None" by (simp add: answers_def py_eq_key_left) metis
    then show ?thesis by (rule key_of_hashable)
  qed
  then have "completed_ids ts = Inr (map (\<lambda>t. pget t ''tool_call_id'') ts)"
    unfolding completed_ids_def by (intro map_result_Inr) (simp add: hash_key_def)
  ultimately show ?thesis using that cs calls results by blast
qed

lemma answered_paired:
  assumes "answered m ts" and "pget m ''tool_calls'' = PList cs" and "requested_ids m = Inr req" and "completed_ids ts = Inr com"
  shows "t \<in> set ts \<Longrightarrow> py_in (pget t ''tool_call_id'') (pairing req com)"
    and "PDict d \<in> set cs \<Longrightarrow> py_in (pget d ''id'') (pairing req com)"
proof -
  have iter: "py_iter (pget m ''tool_calls'') = Inr cs" by (simp add: assms(2) py_iter_def)
  note in_P = py_in_pairing [OF assms(3,4) iter]
  from assms(1,2) have calls: "\<And>c. c \<in> set cs \<Longrightarrow> call_ok c \<and> (\<exists>t \<in> set ts. answers t c)"
    and results: "\<And>t. t \<in> set ts \<Longrightarrow> \<exists>c \<in> set cs. answers t c"
    by (auto simp: answered_def list_all_iff list_ex_iff)
  have pair: "truthy (pget d ''id'') \<and> key_of (pget t ''tool_call_id'') \<noteq> None \<and> key_of (pget d ''id'') = key_of (pget t ''tool_call_id'')"
    if "PDict d \<in> set cs" "answers t (PDict d)" for t d
    using calls [OF that(1)] that(2) by (simp add: call_ok_def answers_def py_eq_key_left) metis
  show "py_in (pget t ''tool_call_id'') (pairing req com)" if t: "t \<in> set ts"
  proof -
    from results [OF t] obtain c where c: "c \<in> set cs" "answers t c" by blast
    then obtain d where "c = PDict d" by (metis calls call_okD)
    with c pair [of d t] have "PDict d \<in> set cs" "truthy (pget d ''id'')" "key_of (pget t ''tool_call_id'') \<noteq> None"
      "key_of (pget d ''id'') = key_of (pget t ''tool_call_id'')" by simp_all
    with t show ?thesis unfolding in_P by (intro conjI exI [of _ d] bexI [of _ t]) simp_all
  qed
  show "py_in (pget d ''id'') (pairing req com)" if d: "PDict d \<in> set cs"
  proof -
    from calls [OF d] obtain t where "t \<in> set ts" "answers t (PDict d)" by blast
    with pair [OF d this(2)] d show ?thesis unfolding in_P by (intro conjI exI [of _ d] bexI [of _ t]) simp_all
  qed
qed

lemma update_same: "map_of d k = Some v \<Longrightarrow> AList.update k v d = d"
  by (induction d) (auto split: if_splits)

lemma reconcile_answered:
  assumes calls: "calls_tools m" and ans: "answered m ts" and tools: "\<And>t. t \<in> set ts \<Longrightarrow> has_role ''tool'' t"
    and req: "requested_ids m = Inr req" and com: "completed_ids ts = Inr com"
  shows "concat_result (reconcile_message to_str) (zip (m # ts) (replicate (Suc (length ts)) (pairing req com))) = Inr (m # ts)"
proof -
  let ?P = "pairing req com"
  from ans obtain cs where cs: "pget m ''tool_calls'' = PList cs" by (auto simp: answered_def split: py.splits)
  note paired = answered_paired [OF ans cs req com]
  have "concat_result (reconcile_message to_str) (zip ts (replicate (length ts) ?P)) = Inr (filter (\<lambda>t. py_in (pget t ''tool_call_id'') ?P) ts)"
    by (rule reconcile_tools) (use tools completed_idsD(2) [OF com] in blast)
  also have "filter (\<lambda>t. py_in (pget t ''tool_call_id'') ?P) ts = ts" using paired(1) by simp
  finally have rest: "concat_result (reconcile_message to_str) (zip ts (replicate (length ts) ?P)) = Inr ts" .
  have "\<exists>d. c = PDict d \<and> hashable (pget d ''id'')" if "c \<in> set cs" for c
    using ans that by (cases c) (auto simp: answered_def cs list_all_iff call_ok_def)
  then have "valid_tool_calls m ?P = Inr (concat (map (\<lambda>c. [c]) cs))"
    unfolding valid_tool_calls_def cs py_iter_def py.case bind_result_simps
    by (intro concat_result_Inr) (use paired(2) in \<open>fastforce simp: dict_of_def hash_key_def\<close>)
  moreover have "cs \<noteq> []" using calls by (auto simp: calls_tools_def cs)
  moreover have "AList.update ''tool_calls'' (PList cs) m = m"
    using cs by (intro update_same) (auto simp: pget_def dget_def split: option.splits)
  ultimately have "reconcile_message to_str (m, ?P) = Inr [m]"
    using calls tool_calls_no_tools [of m] by (auto simp: reconcile_message_def)
  with rest show ?thesis by simp
qed

lemma reconcile_same: "strictly_paired ms \<Longrightarrow> (\<exists>p. block_ids ms = Inr p) \<and> reconcile_blocks to_str ms = Inr ms"
proof (induction ms rule: strictly_paired.induct)
  case (2 m ms)
  let ?ts = "takeWhile (has_role ''tool'') ms" and ?rest = "dropWhile (has_role ''tool'') ms"
  show ?case
  proof (cases "calls_tools m")
    case True
    from "2.prems" True have ans: "answered m ?ts" and "strictly_paired ?rest" by auto
    from "2.IH"(1) [OF True this(2)] obtain p where p: "block_ids ?rest = Inr p" and IH: "reconcile_blocks to_str ?rest = Inr ?rest" by blast
    from ans obtain req com where ids: "requested_ids m = Inr req" "completed_ids ?ts = Inr com" by (rule answered_ids)
    have tools: "\<And>t. t \<in> set ?ts \<Longrightarrow> has_role ''tool'' t" by (auto dest: set_takeWhileD)
    have "reconcile_blocks to_str (m # ms) = Inr ((m # ?ts) @ ?rest)"
      by (simp only: reconcile_blocks_calls [OF True ids p] reconcile_answered [OF True ans tools ids] IH bind_result_simps)
    moreover from True ids p have "\<exists>p. block_ids (m # ms) = Inr p" by simp
    ultimately show ?thesis by simp
  next
    case False
    with "2.prems" have "strictly_paired ms" and "\<not> has_role ''tool'' m" by auto
    with "2.IH"(2) [OF False] False show ?thesis
      by (auto simp: reconcile_blocks_simps reconcile_message_def) (auto simp: reconcile_blocks_def)
  qed
qed (simp add: reconcile_blocks_def)


lemma reconcile_tool_pairs_blocks: "reconcile_tool_pairs to_str ms = reconcile_blocks to_str ms"
  by (simp add: reconcile_tool_pairs_def reconcile_blocks_def get_paired_blocks)

subsection \<open>Histories\<close>

text \<open>A stored history: every message is a dict with entries, and its parent, if any, a string.\<close>

definition history_ok :: "pydict \<Rightarrow> bool" where
  "history_ok mm \<longleftrightarrow> list_all (\<lambda>(_, v). case v of
       PDict m \<Rightarrow> m \<noteq> [] \<and> (case pget m ''parentId'' of PStr _ \<Rightarrow> True | PNone \<Rightarrow> True | _ \<Rightarrow> False)
     | _ \<Rightarrow> False) mm"

definition message_at :: "pydict \<Rightarrow> string \<Rightarrow> message" where
  "message_at mm i = (case map_of mm i of Some (PDict m) \<Rightarrow> m | _ \<Rightarrow> [])"

definition parent_of :: "pydict \<Rightarrow> string \<Rightarrow> string option" where
  "parent_of mm i = (case pget (message_at mm i) ''parentId'' of PStr j \<Rightarrow> if j = [] then None else Some j | _ \<Rightarrow> None)"

text \<open>
  The keys from the first message of a branch to \<open>i\<close>: linked by their parents, without repetition, and
  as long as possible: the first message has no parent, or one that is not stored, or the branch is a
  cycle.
\<close>

definition is_branch :: "pydict \<Rightarrow> string \<Rightarrow> string list \<Rightarrow> bool" where
  "is_branch mm i ks \<longleftrightarrow> ks \<noteq> [] \<and> last ks = i \<and> distinct ks \<and> set ks \<subseteq> fst ` set mm
     \<and> list_all (\<lambda>(a, b). parent_of mm b = Some a) (zip ks (tl ks))
     \<and> (case parent_of mm (hd ks) of None \<Rightarrow> True | Some p \<Rightarrow> p \<notin> fst ` set mm \<or> p \<in> set ks)"

lemma history_okD:
  assumes "history_ok mm" and "map_of mm i = Some v"
  obtains m where "v = PDict m" and "m \<noteq> []"
    and "parent_of mm i = None \<and> \<not> truthy (pget m ''parentId'')
      \<or> (\<exists>j. parent_of mm i = Some j \<and> pget m ''parentId'' = PStr j \<and> j \<noteq> [])"
proof -
  from assms have "case v of PDict m \<Rightarrow> m \<noteq> [] \<and> (case pget m ''parentId'' of PStr _ \<Rightarrow> True | PNone \<Rightarrow> True | _ \<Rightarrow> False) | _ \<Rightarrow> False"
    using map_of_SomeD [OF assms(2)] by (fastforce simp: history_ok_def list_all_iff)
  then obtain m where m: "v = PDict m" "m \<noteq> []" "case pget m ''parentId'' of PStr _ \<Rightarrow> True | PNone \<Rightarrow> True | _ \<Rightarrow> False"
    by (cases v) simp_all
  have "message_at mm i = m" by (simp add: message_at_def assms(2) m(1))
  then have "parent_of mm i = (case pget m ''parentId'' of PStr j \<Rightarrow> if j = [] then None else Some j | _ \<Rightarrow> None)"
    by (simp add: parent_of_def)
  with m(3) have "parent_of mm i = None \<and> \<not> truthy (pget m ''parentId'')
      \<or> (\<exists>j. parent_of mm i = Some j \<and> pget m ''parentId'' = PStr j \<and> j \<noteq> [])"
    by (cases "pget m ''parentId''") simp_all
  with m(1,2) show ?thesis by (rule that)
qed

lemma zip_snoc_tl: "ks \<noteq> [] \<Longrightarrow> zip (ks @ [i]) (tl (ks @ [i])) = zip ks (tl ks) @ [(last ks, i)]"
proof (induction ks)
  case (Cons k ks)
  then show ?case by (cases ks) simp_all
qed simp

text \<open>The loop prepends the branch of its message, up to the messages visited before.\<close>

lemma message_list_loop_branch:
  assumes "history_ok mm" and "i \<in> fst ` set mm" and "i \<notin> set visited"
  shows "\<exists>ks. message_list_loop mm i visited acc = Inr (map (message_at mm) ks @ acc)
    \<and> ks \<noteq> [] \<and> last ks = i \<and> distinct ks \<and> set ks \<subseteq> fst ` set mm \<and> set ks \<inter> set visited = {}
    \<and> list_all (\<lambda>(a, b). parent_of mm b = Some a) (zip ks (tl ks))
    \<and> (case parent_of mm (hd ks) of None \<Rightarrow> True | Some p \<Rightarrow> p \<notin> fst ` set mm \<or> p \<in> set ks \<union> set visited)"
  using assms
proof (induction mm i visited acc rule: message_list_loop.induct)
  case (1 mm i visited acc)
  from "1.prems"(2) obtain v where v: "map_of mm i = Some v" by (metis map_of_eq_None_iff not_None_eq)
  from "1.prems"(1) v obtain m where m: "v = PDict m" "m \<noteq> []"
    and parent: "parent_of mm i = None \<and> \<not> truthy (pget m ''parentId'')
      \<or> (\<exists>j. parent_of mm i = Some j \<and> pget m ''parentId'' = PStr j \<and> j \<noteq> [])"
    by (rule history_okD)
  have at: "message_at mm i = m" by (simp add: message_at_def v m)
  let ?one = "\<lambda>j. parent_of mm i = Some j \<and> pget m ''parentId'' = PStr j \<and> j \<noteq> []"
  consider (top) "parent_of mm i = None" "\<not> truthy (pget m ''parentId'')"
    | (stop) j where "?one j" "j \<notin> fst ` set mm \<or> j \<in> set (i # visited)"
    | (up) j where "?one j" "j \<in> fst ` set mm" "j \<notin> set (i # visited)"
  proof -
    from parent consider "parent_of mm i = None \<and> \<not> truthy (pget m ''parentId'')" | j where "?one j" by metis
    then show ?thesis
    proof cases
      case (2 j)
      then show ?thesis using stop [of j] up [of j] by metis
    qed (use top in simp)
  qed
  then show ?case
  proof cases
    case top
    then have "message_list_loop mm i visited acc = Inr (m # acc)"
      by (subst message_list_loop.simps) (use "1.prems"(3) m v in simp)
    with top at "1.prems" show ?thesis by (intro exI [of _ "[i]"]) simp
  next
    case (stop j)
    have "message_list_loop mm j (i # visited) (m # acc) = Inr (m # acc)"
    proof -
      from stop(2) have "map_of mm j = None \<or> j \<in> set (i # visited)" by (metis map_of_eq_None_iff)
      then show ?thesis by (subst message_list_loop.simps) (auto split: option.splits)
    qed
    then have "message_list_loop mm i visited acc = Inr (m # acc)"
      by (subst message_list_loop.simps) (use "1.prems"(3) m v stop(1) in simp)
    with stop at "1.prems" show ?thesis by (intro exI [of _ "[i]"]) auto
  next
    case (up j)
    have step: "message_list_loop mm i visited acc = message_list_loop mm j (i # visited) (m # acc)"
      by (subst message_list_loop.simps) (use "1.prems"(3) m v up(1) in simp)
    from "1.IH" [of v m j] v m up "1.prems" obtain ks where
      ks: "message_list_loop mm j (i # visited) (m # acc) = Inr (map (message_at mm) ks @ m # acc)"
        "ks \<noteq> []" "last ks = j" "distinct ks" "set ks \<subseteq> fst ` set mm" "set ks \<inter> set (i # visited) = {}"
        "list_all (\<lambda>(a, b). parent_of mm b = Some a) (zip ks (tl ks))"
        "case parent_of mm (hd ks) of None \<Rightarrow> True | Some p \<Rightarrow> p \<notin> fst ` set mm \<or> p \<in> set ks \<union> set (i # visited)"
      by auto
    have "list_all (\<lambda>(a, b). parent_of mm b = Some a) (zip (ks @ [i]) (tl (ks @ [i])))"
      unfolding zip_snoc_tl [OF ks(2)] using ks(3,7) up(1) by simp
    with ks step at "1.prems"(2,3) show ?thesis
      by (intro exI [of _ "ks @ [i]"]) (auto split: option.splits)
  qed
qed


subsection \<open>Properties\<close>

text \<open>
  (C27) Tool calls and results are reconciled: what is left is paired as strict providers require,
  keeps every other message in order, and is not changed by a second pass; a list that was paired
  already is returned unchanged.
\<close>

theorem tool_pairs_reconciled:
  assumes "reconcile_tool_pairs to_str messages = Inr out"
  shows "strictly_paired out \<and> subseq (filter plain_message messages) out
    \<and> reconcile_tool_pairs to_str out = Inr out \<and> (strictly_paired messages \<longrightarrow> out = messages)"
  using assms reconcile_strict [of to_str messages out] reconcile_same [of out to_str] reconcile_same [of messages to_str]
  by (simp add: reconcile_tool_pairs_blocks)

definition demo_call :: "string \<Rightarrow> py" where
  "demo_call i = PDict [(''id'', PStr i), (''type'', PStr ''function'')]"

definition demo_messages :: "message list" where
  "demo_messages =
     [[(''role'', PStr ''tool''), (''tool_call_id'', PStr ''x'')],
      [(''role'', PStr ''user''), (''content'', PStr ''hi'')],
      [(''role'', PStr ''assistant''), (''tool_calls'', PList [demo_call ''a'', demo_call ''b''])],
      [(''role'', PStr ''tool''), (''tool_call_id'', PStr ''b'')],
      [(''role'', PStr ''assistant''), (''content'', PStr []), (''tool_calls'', PList [demo_call ''c''])]]"

definition demo_reconciled :: "message list" where
  "demo_reconciled =
     [[(''role'', PStr ''user''), (''content'', PStr ''hi'')],
      [(''role'', PStr ''assistant''), (''tool_calls'', PList [demo_call ''b''])],
      [(''role'', PStr ''tool''), (''tool_call_id'', PStr ''b'')]]"

lemma demo_reconcile: "reconcile_tool_pairs (\<lambda>_. []) demo_messages = Inr demo_reconciled"
  by code_simp

theorem tool_pairs_reconciled_witness:
  "strictly_paired demo_reconciled \<and> reconcile_tool_pairs (\<lambda>_. []) demo_reconciled = Inr demo_reconciled"
  using tool_pairs_reconciled [OF demo_reconcile] by simp

text \<open>
  The message list of a stored message is its branch: the messages from the first to it, linked
  by their parents, none twice, even where the stored history has a cycle or a missing parent.
\<close>

theorem message_list_is_branch:
  assumes "history_ok messages_map" and "message_id \<in> fst ` set messages_map"
  shows "\<exists>ks. is_branch messages_map message_id ks
    \<and> get_message_list messages_map (PStr message_id) = Inr (map (message_at messages_map) ks)"
proof -
  from assms(2) have "messages_map \<noteq> []" by auto
  moreover obtain ks where "message_list_loop messages_map message_id [] [] = Inr (map (message_at messages_map) ks)"
    and "is_branch messages_map message_id ks"
    using message_list_loop_branch [OF assms, of "[]" "[]"] by (auto simp: is_branch_def cong: option.case_cong)
  ultimately show ?thesis by (auto simp: get_message_list_def)
qed

definition demo_history :: pydict where
  "demo_history =
     [(''a'', PDict [(''parentId'', PStr ''b''), (''content'', PStr ''1'')]),
      (''b'', PDict [(''parentId'', PStr ''a''), (''content'', PStr ''2'')]),
      (''c'', PDict [(''parentId'', PStr ''b''), (''content'', PStr ''3'')])]"

theorem message_list_is_branch_witness:
  "\<exists>ks. is_branch demo_history ''c'' ks \<and> get_message_list demo_history (PStr ''c'') = Inr (map (message_at demo_history) ks)"
proof (rule message_list_is_branch)
  show "history_ok demo_history" by code_simp
  show "''c'' \<in> fst ` set demo_history" by (simp add: demo_history_def)
qed

end
