(* ===== verification/Output_Messages.thy ===== *)
theory Output_Messages
  imports Messages
begin

text \<open>
  \<open>convert_output_to_messages\<close> of \<^verbatim>\<open>utils/misc.py\<close>: the stored output items of a reply become the assistant,
  tool and user messages of a chat completion. Its pending lists and the nested functions that flush
  them are a state and operations on it. \<open>dumps\<close> is \<open>JSONCodec.dumps\<close>.
\<close>

subsection \<open>State\<close>

record convert_state =
  cv_messages :: "message list"
  cv_tool_calls :: "message list"
  cv_content :: "string list"
  cv_reasoning :: "string list"
  cv_reasoning_details :: "py list"
  cv_tool_image_urls :: "py list"
  cv_tool_outputs :: "pydict list"

record convert_options =
  co_raw :: bool
  co_reasoning_format :: "string option"
  co_flatten_tool_images :: bool
  co_to_str :: "py \<Rightarrow> string"
  co_dumps :: "py \<Rightarrow> string"

definition get_provider_function :: "(py \<Rightarrow> string) \<Rightarrow> pydict \<Rightarrow> pydict" where
  "get_provider_function dumps item =
     (let function = (case pget item ''provider_function'' of PDict f \<Rightarrow> f | _ \<Rightarrow> item);
          arguments = dget function ''arguments'' (PStr ''{}'')
      in [(''name'', dget function ''name'' (PStr [])),
          (''arguments'', case arguments of PStr _ \<Rightarrow> arguments | _ \<Rightarrow> PStr (dumps arguments))])"

subsection \<open>Flushing\<close>

definition lines_text :: "string list \<Rightarrow> py" where
  "lines_text xs = PStr (join [CHR 0x0A] xs)"

definition pending_message :: "convert_options \<Rightarrow> convert_state \<Rightarrow> message" where
  "pending_message opt st =
     [(''role'', PStr ''assistant''), (''content'', lines_text (cv_content st))]
     @ (if cv_tool_calls st \<noteq> [] then [(''tool_calls'', PList (map PDict (cv_tool_calls st)))] else [])
     @ (if cv_reasoning st \<noteq> []
        then [(if co_reasoning_format opt = Some ''thinking'' then ''thinking'' else ''reasoning_content'',
               lines_text (cv_reasoning st))] else [])
     @ (if cv_reasoning_details st \<noteq> [] then [(''reasoning_details'', PList (cv_reasoning_details st))] else [])"

definition flush_pending :: "convert_options \<Rightarrow> convert_state \<Rightarrow> convert_state" where
  "flush_pending opt st =
     (if cv_content st = [] \<and> cv_tool_calls st = [] \<and> cv_reasoning st = [] \<and> cv_reasoning_details st = [] then st
      else st\<lparr>cv_messages := cv_messages st @ [pending_message opt st],
              cv_content := [], cv_tool_calls := [], cv_reasoning := [], cv_reasoning_details := []\<rparr>)"

definition images_message :: "py list \<Rightarrow> message" where
  "images_message urls =
     [(''role'', PStr ''user''),
      (''content'', PList (PDict [(''type'', PStr ''text''),
                                (''text'', PStr ''Here are the images from the tool results above. Please analyze them.'')]
         # map (\<lambda>url. PDict [(''type'', PStr ''image_url''), (''image_url'', PDict [(''url'', url)])]) urls))]"

definition flush_tool_images :: "convert_state \<Rightarrow> convert_state" where
  "flush_tool_images st =
     (if cv_tool_image_urls st = [] then st
      else st\<lparr>cv_messages := cv_messages st @ [images_message (cv_tool_image_urls st)], cv_tool_image_urls := []\<rparr>)"

text \<open>The text and the image urls of a tool result.\<close>

definition result_part :: "(py \<Rightarrow> string) \<Rightarrow> py \<Rightarrow> string \<times> py list \<Rightarrow> (string \<times> py list) result" where
  "result_part to_str part acc =
     bind_result (dict_of part) (\<lambda>p.
       Inr (if has_type ''input_text'' p
            then (fst acc @ py_str to_str (dget p ''text'' (PStr [])), snd acc)
            else if has_type ''input_image'' p
            then (let url = dget p ''image_url'' (PStr []) in if truthy url then (fst acc, snd acc @ [url]) else acc)
            else acc))"

definition tool_message :: "py \<Rightarrow> py \<Rightarrow> message" where
  "tool_message call_id content =
     [(''role'', PStr ''tool''), (''tool_call_id'', call_id), (''content'', content)]"

definition add_tool_output :: "convert_options \<Rightarrow> pydict \<Rightarrow> convert_state \<Rightarrow> convert_state result" where
  "add_tool_output opt output_item st =
     bind_result (py_iter (dget output_item ''output'' (PList []))) (\<lambda>parts.
     bind_result (fold_result (result_part (co_to_str opt)) parts ([], [])) (\<lambda>(content, image_urls).
       let call_id = dget output_item ''call_id'' (PStr [])
       in Inr (if co_flatten_tool_images opt
               then st\<lparr>cv_messages := cv_messages st @ [tool_message call_id (PStr content)],
                       cv_tool_image_urls := cv_tool_image_urls st @ image_urls\<rparr>
               else if image_urls \<noteq> []
               then st\<lparr>cv_messages := cv_messages st @ [tool_message call_id
                        (PList (PDict [(''type'', PStr ''input_text''), (''text'', PStr content)]
                           # map (\<lambda>url. PDict [(''type'', PStr ''input_image''), (''image_url'', url)]) image_urls))]\<rparr>
               else st\<lparr>cv_messages := cv_messages st @ [tool_message call_id (PStr content)]\<rparr>)))"

definition flush_tool_outputs :: "convert_options \<Rightarrow> convert_state \<Rightarrow> convert_state result" where
  "flush_tool_outputs opt st =
     (if cv_tool_outputs st = [] then Inr st
      else let kept = filter (\<lambda>r. list_ex (\<lambda>c. py_eq (pget c ''id'') (pget r ''call_id'')) (cv_tool_calls st)) (cv_tool_outputs st)
           in bind_result (fold_result (add_tool_output opt) kept (flush_pending opt st)) (\<lambda>st.
                Inr (st\<lparr>cv_tool_outputs := []\<rparr>)))"

subsection \<open>Items\<close>

definition add_content :: "string \<Rightarrow> convert_state \<Rightarrow> convert_state" where
  "add_content s st = st\<lparr>cv_content := cv_content st @ [s]\<rparr>"

text \<open>The concatenated texts of the parts that satisfy a condition.\<close>

definition texts_of :: "(pydict \<Rightarrow> bool) \<Rightarrow> py \<Rightarrow> string result" where
  "texts_of P parts =
     bind_result (py_iter parts) (concat_result (\<lambda>part.
       bind_result (dict_of part) (\<lambda>p. if P p then as_str (dget p ''text'' (PStr [])) else Inr [])))"

definition convert_message_item :: "pydict \<Rightarrow> convert_state \<Rightarrow> convert_state result" where
  "convert_message_item item st =
     bind_result (texts_of (has_type ''output_text'') (dget item ''content'' (PList []))) (\<lambda>s.
       Inr (if s \<noteq> [] then add_content s st else st))"

definition convert_function_call :: "convert_options \<Rightarrow> pydict \<Rightarrow> convert_state \<Rightarrow> convert_state result" where
  "convert_function_call opt item st =
     (if \<not> truthy (pget item ''call_id'') then Inr st
      else bind_result (hash_key (pget item ''status'')) (\<lambda>status.
        if status \<notin> {PStr ''completed'', PStr ''failed'', PStr ''rejected''} then Inr st
        else Inr (st\<lparr>cv_tool_calls := cv_tool_calls st
               @ [[(''id'', dget item ''call_id'' (PStr [])), (''type'', PStr ''function''),
                   (''function'', PDict (get_provider_function (co_dumps opt) item))]]\<rparr>)))"

definition kept_reasoning_details :: "convert_options \<Rightarrow> pydict \<Rightarrow> py list" where
  "kept_reasoning_details opt item =
     (let details = (if co_raw opt then pget item ''reasoning_details'' else PNone)
      in if \<not> truthy details then []
         else filter (\<lambda>detail. case detail of
                  PDict d \<Rightarrow> pget d ''format'' \<noteq> PStr ''anthropic-claude-v1'' \<or> truthy (pget d ''signature'')
                | _ \<Rightarrow> False)
              (case details of PList ds \<Rightarrow> ds | _ \<Rightarrow> [details]))"

definition convert_reasoning :: "convert_options \<Rightarrow> pydict \<Rightarrow> convert_state \<Rightarrow> convert_state result" where
  "convert_reasoning opt item st =
     (let details = kept_reasoning_details opt item;
          format = co_reasoning_format opt
      in if (format = None \<or> format = Some []) \<and> details = [] then Inr st
         else bind_result (texts_of (\<lambda>p. has_type ''output_text'' p \<or> map_of p ''text'' \<noteq> None)
                  (py_or (dget item ''summary'' (PList [])) (dget item ''content'' (PList [])))) (\<lambda>s.
           let st = (if s = [] then st
                     else if format = Some ''think_tags''
                     then add_content (py_str (co_to_str opt) (dget item ''start_tag'' (PStr ''<think>'')) @ s
                                        @ py_str (co_to_str opt) (dget item ''end_tag'' (PStr ''</think>''))) st
                     else if format = Some ''thinking'' \<or> format = Some ''reasoning_content''
                     then st\<lparr>cv_reasoning := cv_reasoning st @ [s]\<rparr>
                     else st)
           in Inr (st\<lparr>cv_reasoning_details := cv_reasoning_details st @ details\<rparr>)))"

definition tagged :: "string \<Rightarrow> string \<Rightarrow> string" where
  "tagged tag s = ''<'' @ tag @ ''>'' @ [CHR 0x0A] @ s @ [CHR 0x0A] @ ''</'' @ tag @ ''>''"

definition convert_code_interpreter :: "convert_options \<Rightarrow> pydict \<Rightarrow> convert_state \<Rightarrow> convert_state" where
  "convert_code_interpreter opt item st =
     (let code = dget item ''code'' (PStr []);
          code_output = dget item ''output'' (PStr []);
          st = (if truthy code then add_content (tagged ''code_interpreter'' (py_str (co_to_str opt) code)) st else st)
      in if \<not> truthy code_output then st
         else let output_text = (case code_output of
                    PDict d \<Rightarrow> py_or (dget d ''stdout'' (PStr [])) (dget d ''result'' (PStr []))
                  | _ \<Rightarrow> PStr (py_str (co_to_str opt) code_output))
              in if truthy output_text
                 then add_content (tagged ''code_interpreter_output'' (py_str (co_to_str opt) output_text)) st
                 else st)"

text \<open>One round of the loop; an item of another type is skipped, if its type is a string.\<close>

definition convert_item :: "convert_options \<Rightarrow> py \<Rightarrow> convert_state \<Rightarrow> convert_state result" where
  "convert_item opt raw_item st =
     bind_result (dict_of raw_item) (\<lambda>item.
       let item_type = dget item ''type'' (PStr [])
       in bind_result (if item_type \<noteq> PStr ''function_call_output''
                       then bind_result (flush_tool_outputs opt st) (\<lambda>st. Inr (flush_tool_images st))
                       else Inr st) (\<lambda>st.
            if item_type = PStr ''message'' then convert_message_item item st
            else if item_type = PStr ''function_call'' then convert_function_call opt item st
            else if item_type = PStr ''function_call_output''
            then Inr (st\<lparr>cv_tool_outputs := cv_tool_outputs st @ [item]\<rparr>)
            else if item_type = PStr ''reasoning'' then convert_reasoning opt item st
            else if item_type = PStr ''open_webui:code_interpreter'' then Inr (convert_code_interpreter opt item st)
            else (case item_type of PStr _ \<Rightarrow> Inr st | _ \<Rightarrow> Inl AttributeError)))"

definition empty_state :: convert_state where
  "empty_state = \<lparr>cv_messages = [], cv_tool_calls = [], cv_content = [], cv_reasoning = [],
     cv_reasoning_details = [], cv_tool_image_urls = [], cv_tool_outputs = []\<rparr>"

definition convert_output_to_messages :: "convert_options \<Rightarrow> py \<Rightarrow> message list result" where
  "convert_output_to_messages opt output =
     (case output of
        PList items \<Rightarrow>
          if items = [] then Inr []
          else bind_result (fold_result (convert_item opt) items empty_state) (\<lambda>st.
               bind_result (flush_tool_outputs opt st) (\<lambda>st.
                 reconcile_tool_pairs (co_to_str opt) (cv_messages (flush_pending opt (flush_tool_images st)))))
      | _ \<Rightarrow> Inr [])"


subsection \<open>No exception on well-formed messages\<close>

definition message_ok :: "message \<Rightarrow> bool" where
  "message_ok m \<longleftrightarrow> (has_role ''tool'' m \<longrightarrow> hashable (pget m ''tool_call_id''))
     \<and> (calls_tools m \<longrightarrow> (case pget m ''tool_calls'' of
          PList cs \<Rightarrow> list_all (\<lambda>c. case c of PDict d \<Rightarrow> hashable (pget d ''id'') | _ \<Rightarrow> False) cs | _ \<Rightarrow> False))"

lemma message_ok_calls:
  assumes "message_ok m" and "calls_tools m"
  shows "\<exists>cs. pget m ''tool_calls'' = PList cs \<and> (\<forall>c \<in> set cs. \<exists>d. c = PDict d \<and> hashable (pget d ''id''))"
proof -
  from assms obtain cs where cs: "pget m ''tool_calls'' = PList cs"
    and all: "list_all (\<lambda>c. case c of PDict d \<Rightarrow> hashable (pget d ''id'') | _ \<Rightarrow> False) cs"
    by (cases "pget m ''tool_calls''") (simp_all add: message_ok_def)
  from all have "\<exists>d. c = PDict d \<and> hashable (pget d ''id'')" if "c \<in> set cs" for c
    using that by (cases c) (fastforce simp: list_all_iff)+
  with cs show ?thesis by blast
qed

lemma concat_result_returns: "(\<And>x. x \<in> set xs \<Longrightarrow> \<exists>y. f x = Inr y) \<Longrightarrow> \<exists>ys. concat_result f xs = Inr ys"
  by (induction xs) (fastforce simp: bind_result_Inr_iff)+

lemma requested_ids_returns:
  assumes "message_ok m" and "calls_tools m"
  shows "\<exists>req. requested_ids m = Inr req"
proof -
  from assms obtain cs where cs: "pget m ''tool_calls'' = PList cs"
    and all: "\<forall>c \<in> set cs. \<exists>d. c = PDict d \<and> hashable (pget d ''id'')" using message_ok_calls by blast
  show ?thesis unfolding requested_ids_def cs py_iter_def py.case bind_result_simps
    by (rule concat_result_returns) (use all in \<open>fastforce simp: dict_of_def hash_key_def\<close>)
qed

lemma reconcile_message_returns: "message_ok m \<Longrightarrow> \<exists>y. reconcile_message to_str (m, P) = Inr y"
proof (cases "calls_tools m")
  case True
  assume ok: "message_ok m"
  from ok True obtain cs where cs: "pget m ''tool_calls'' = PList cs"
    and all: "\<forall>c \<in> set cs. \<exists>d. c = PDict d \<and> hashable (pget d ''id'')" using message_ok_calls by blast
  have "\<exists>valid. valid_tool_calls m P = Inr valid"
    unfolding valid_tool_calls_def cs py_iter_def py.case bind_result_simps
    by (rule concat_result_returns) (use all in \<open>fastforce simp: dict_of_def hash_key_def\<close>)
  with True show ?thesis using tool_calls_no_tools [of m] by (auto simp: reconcile_message_def)
next
  case False
  assume "message_ok m"
  with False show ?thesis by (auto simp: reconcile_message_def message_ok_def hash_key_def)
qed

lemma block_ids_returns: "(\<And>m. m \<in> set ms \<Longrightarrow> message_ok m) \<Longrightarrow> \<exists>p. block_ids ms = Inr p"
proof (induction ms rule: block_ids.induct)
  case (2 m ms)
  let ?ts = "takeWhile (has_role ''tool'') ms"
  show ?case
  proof (cases "calls_tools m")
    case True
    then obtain req where "requested_ids m = Inr req" using requested_ids_returns "2.prems" by (meson list.set_intros(1))
    moreover have "completed_ids ?ts = Inr (map (\<lambda>t. pget t ''tool_call_id'') ?ts)"
      unfolding completed_ids_def
      by (rule map_result_Inr) (use "2.prems" in \<open>auto simp: message_ok_def hash_key_def dest!: set_takeWhileD\<close>)
    moreover obtain p where "block_ids (dropWhile (has_role ''tool'') ms) = Inr p"
      using "2.IH"(1) [OF True] "2.prems" set_dropWhileD by (metis list.set_intros(2))
    ultimately show ?thesis using True by simp
  next
    case False
    with "2.IH"(2) "2.prems" show ?thesis by fastforce
  qed
qed simp

lemma reconcile_returns:
  assumes "\<And>m. m \<in> set ms \<Longrightarrow> message_ok m"
  shows "\<exists>out. reconcile_tool_pairs to_str ms = Inr out"
proof -
  from block_ids_returns [OF assms] obtain p where "block_ids ms = Inr p" by blast
  moreover have "\<exists>out. concat_result (reconcile_message to_str) (zip ms p) = Inr out"
    by (rule concat_result_returns) (use reconcile_message_returns assms in \<open>auto dest!: set_zip_leftD\<close>)
  ultimately show ?thesis by (simp add: reconcile_tool_pairs_blocks reconcile_blocks_def)
qed

subsection \<open>No exception on well-formed items\<close>

text \<open>The items the application stores: dicts whose parts are dicts with texts, and ids that are strings.\<close>

definition parts_ok :: "(pydict \<Rightarrow> bool) \<Rightarrow> py \<Rightarrow> bool" where
  "parts_ok P v = (case v of PList xs \<Rightarrow> list_all (\<lambda>x. case x of PDict p \<Rightarrow> P p | _ \<Rightarrow> False) xs | _ \<Rightarrow> False)"

definition text_part :: "pydict \<Rightarrow> bool" where
  "text_part p = (case dget p ''text'' (PStr []) of PStr _ \<Rightarrow> True | _ \<Rightarrow> False)"

definition item_ok :: "py \<Rightarrow> bool" where
  "item_ok v = (case v of
     PDict item \<Rightarrow>
       (case dget item ''type'' (PStr []) of
          PStr t \<Rightarrow>
            if t = ''message'' then parts_ok text_part (dget item ''content'' (PList []))
            else if t = ''function_call'' then hashable (pget item ''status'') \<and> hashable (pget item ''call_id'')
            else if t = ''function_call_output''
            then parts_ok (\<lambda>_. True) (dget item ''output'' (PList [])) \<and> hashable (pget item ''call_id'')
            else if t = ''reasoning''
            then parts_ok text_part (dget item ''summary'' (PList [])) \<and> parts_ok text_part (dget item ''content'' (PList []))
            else True
        | _ \<Rightarrow> False)
   | _ \<Rightarrow> False)"

definition state_ok :: "convert_state \<Rightarrow> bool" where
  "state_ok st \<longleftrightarrow> list_all message_ok (cv_messages st) \<and> list_all (\<lambda>c. hashable (pget c ''id'')) (cv_tool_calls st)
     \<and> list_all (\<lambda>r. parts_ok (\<lambda>_. True) (dget r ''output'' (PList [])) \<and> hashable (pget r ''call_id'')) (cv_tool_outputs st)"

lemma parts_okD:
  assumes "parts_ok P v"
  shows "\<exists>xs. v = PList xs \<and> (\<forall>x \<in> set xs. \<exists>p. x = PDict p \<and> P p)"
proof -
  from assms obtain xs where xs: "v = PList xs" and all: "list_all (\<lambda>x. case x of PDict p \<Rightarrow> P p | _ \<Rightarrow> False) xs"
    by (cases v) (simp_all add: parts_ok_def)
  from all have "\<exists>p. x = PDict p \<and> P p" if "x \<in> set xs" for x
    using that by (cases x) (fastforce simp: list_all_iff)+
  with xs show ?thesis by blast
qed

lemma texts_of_returns: "parts_ok text_part v \<Longrightarrow> \<exists>s. texts_of P v = Inr s"
proof -
  assume "parts_ok text_part v"
  then obtain xs where xs: "v = PList xs" and all: "\<forall>x \<in> set xs. \<exists>p. x = PDict p \<and> text_part p"
    using parts_okD by blast
  have "\<exists>y. bind_result (dict_of x) (\<lambda>p. if P p then as_str (dget p ''text'' (PStr [])) else Inr []) = Inr y"
    if "x \<in> set xs" for x
  proof -
    from all that obtain p where "x = PDict p" "text_part p" by blast
    then show ?thesis by (cases "dget p ''text'' (PStr [])") (simp_all add: dict_of_def as_str_def text_part_def)
  qed
  then show ?thesis unfolding texts_of_def xs py_iter_def py.case bind_result_simps by (rule concat_result_returns)
qed

lemma result_parts_return:
  assumes "\<And>x. x \<in> set xs \<Longrightarrow> \<exists>p. x = PDict p"
  shows "\<exists>r. fold_result (result_part to_str) xs acc = Inr r"
proof -
  have "\<exists>r. fold_result (result_part to_str) xs acc = Inr r \<and> True"
    by (rule fold_result_succeeds) (use assms in \<open>fastforce simp: result_part_def dict_of_def\<close>)+
  then show ?thesis by simp
qed


lemma state_ok_simps [simp]:
  "state_ok (st\<lparr>cv_content := a\<rparr>) = state_ok st" "state_ok (st\<lparr>cv_reasoning := b\<rparr>) = state_ok st"
  "state_ok (st\<lparr>cv_reasoning_details := c\<rparr>) = state_ok st" "state_ok (st\<lparr>cv_tool_image_urls := d\<rparr>) = state_ok st"
  "state_ok (add_content s st) = state_ok st"
  by (simp_all add: state_ok_def add_content_def)

lemma pending_message_ok: "list_all (\<lambda>c. hashable (pget c ''id'')) (cv_tool_calls st) \<Longrightarrow> message_ok (pending_message opt st)"
  by (auto simp: message_ok_def pending_message_def has_role_def calls_tools_def py_simps list_all_iff)

lemma flush_pending_ok: "state_ok st \<Longrightarrow> state_ok (flush_pending opt st)"
  by (simp add: flush_pending_def state_ok_def pending_message_ok)

lemma flush_tool_images_ok: "state_ok st \<Longrightarrow> state_ok (flush_tool_images st)"
  by (simp add: flush_tool_images_def state_ok_def images_message_def message_ok_def has_role_def calls_tools_def py_simps)

lemma tool_message_ok: "hashable call_id \<Longrightarrow> message_ok (tool_message call_id content)"
  by (simp add: message_ok_def tool_message_def has_role_def calls_tools_def py_simps)

lemma add_tool_output_ok:
  assumes "state_ok st" and "parts_ok (\<lambda>_. True) (dget r ''output'' (PList []))" and "hashable (pget r ''call_id'')"
  shows "\<exists>st'. add_tool_output opt r st = Inr st' \<and> state_ok st'"
proof -
  from parts_okD [OF assms(2)] obtain xs where xs: "dget r ''output'' (PList []) = PList xs" and "\<forall>x \<in> set xs. \<exists>p. x = PDict p"
    by blast
  with result_parts_return obtain c us where "fold_result (result_part (co_to_str opt)) xs ([], []) = Inr (c, us)" by fastforce
  moreover have "message_ok (tool_message (dget r ''call_id'' (PStr [])) v)" for v
    by (rule tool_message_ok) (use assms(3) in \<open>simp add: pget_def dget_def split: option.splits\<close>)
  ultimately show ?thesis using assms(1) by (simp add: add_tool_output_def xs py_iter_def state_ok_def Let_def)
qed

lemma flush_tool_outputs_ok:
  assumes "state_ok st"
  shows "\<exists>st'. flush_tool_outputs opt st = Inr st' \<and> state_ok st'"
proof -
  let ?kept = "filter (\<lambda>r. list_ex (\<lambda>c. py_eq (pget c ''id'') (pget r ''call_id'')) (cv_tool_calls st)) (cv_tool_outputs st)"
  have "\<exists>st'. fold_result (add_tool_output opt) ?kept (flush_pending opt st) = Inr st' \<and> state_ok st'"
  proof (rule fold_result_succeeds [where I = state_ok])
    show "state_ok (flush_pending opt st)" by (rule flush_pending_ok [OF assms])
    show "\<exists>t'. add_tool_output opt r t = Inr t' \<and> state_ok t'" if "r \<in> set ?kept" "state_ok t" for r t
      by (rule add_tool_output_ok [OF that(2)]) (use that(1) assms in \<open>auto simp: state_ok_def list_all_iff\<close>)
  qed
  with assms show ?thesis by (auto simp: flush_tool_outputs_def state_ok_def)
qed

lemma convert_item_ok:
  assumes ok: "state_ok st" and item: "item_ok v"
  shows "\<exists>st'. convert_item opt v st = Inr st' \<and> state_ok st'"
proof -
  from item obtain d t where v: "v = PDict d" and t: "dget d ''type'' (PStr []) = PStr t"
    by (auto simp: item_ok_def split: py.splits)
  obtain st1 where st1: "flush_tool_outputs opt st = Inr st1" "state_ok st1" using flush_tool_outputs_ok [OF ok] by blast
  let ?st = "flush_tool_images st1"
  have st: "state_ok ?st" by (rule flush_tool_images_ok [OF st1(2)])
  consider (message) "t = ''message''" | (call) "t = ''function_call''" | (result) "t = ''function_call_output''"
    | (reasoning) "t = ''reasoning''" | (other) "t \<notin> {''message'', ''function_call'', ''function_call_output'', ''reasoning''}"
    by blast
  then show ?thesis
  proof cases
    case message
    with item v t obtain s where "texts_of (has_type ''output_text'') (dget d ''content'' (PList [])) = Inr s"
      using texts_of_returns by (fastforce simp: item_ok_def)
    with message v t st1(1) st show ?thesis by (simp add: convert_item_def dict_of_def convert_message_item_def)
  next
    case call
    with item v t have "hashable (pget d ''status'')" "hashable (pget d ''call_id'')" by (simp_all add: item_ok_def)
    then have "hashable (dget d ''call_id'' (PStr []))" by (simp add: pget_def dget_def split: option.splits)
    with call v t st1(1) st \<open>hashable (pget d ''status'')\<close> show ?thesis
      by (simp add: convert_item_def dict_of_def convert_function_call_def hash_key_def state_ok_def py_simps)
  next
    case result
    with item v t have "parts_ok (\<lambda>_. True) (dget d ''output'' (PList []))" "hashable (pget d ''call_id'')" by (simp_all add: item_ok_def)
    with result v t ok show ?thesis by (simp add: convert_item_def dict_of_def state_ok_def)
  next
    case reasoning
    with item v t have parts: "parts_ok text_part (dget d ''summary'' (PList []))" "parts_ok text_part (dget d ''content'' (PList []))"
      by (simp_all add: item_ok_def)
    then have "parts_ok text_part (py_or (dget d ''summary'' (PList [])) (dget d ''content'' (PList [])))" by (simp add: py_or_def)
    from texts_of_returns [OF this] obtain s where
      "texts_of (\<lambda>p. has_type ''output_text'' p \<or> map_of p ''text'' \<noteq> None)
         (py_or (dget d ''summary'' (PList [])) (dget d ''content'' (PList []))) = Inr s" by blast
    with reasoning v t st1(1) st show ?thesis by (simp add: convert_item_def dict_of_def convert_reasoning_def Let_def)
  next
    case other
    with v t st1(1) st show ?thesis
      by (auto simp: convert_item_def dict_of_def convert_code_interpreter_def Let_def)
  qed
qed



definition demo_items :: "py list" where
  "demo_items =
     [PDict [(''type'', PStr ''function_call''), (''call_id'', PStr ''a''), (''status'', PStr ''completed''), (''name'', PStr ''f'')],
      PDict [(''type'', PStr ''function_call_output''), (''call_id'', PStr ''a''),
             (''output'', PList [PDict [(''type'', PStr ''input_text''), (''text'', PStr ''42'')]])],
      PDict [(''type'', PStr ''message''), (''content'', PList [PDict [(''type'', PStr ''output_text''), (''text'', PStr ''hi'')]])]]"

definition demo_options :: convert_options where
  "demo_options = \<lparr>co_raw = False, co_reasoning_format = None, co_flatten_tool_images = False,
     co_to_str = (\<lambda>_. []), co_dumps = (\<lambda>_. [])\<rparr>"


end
