(* ===== verification/Tool_Approval.thy ===== *)
theory Tool_Approval
  imports Json
begin

text \<open>
  Approval of tool calls, \<^verbatim>\<open>utils/tool_approval.py\<close>, and the loop of \<^verbatim>\<open>utils/middleware.py\<close> that runs the
  approved calls. The calls of a reply are items of its stored output. A user approves, rejects or
  answers them while runners claim them, execute them and store their results; every access is a
  transaction under the lock of the chat (\<open>edit_message_output\<close>), which stores nothing when it raises.
  An item stands for a dict whose fields are strings; what a tool returns is an argument.
\<close>

subsection \<open>Items\<close>

record tool_item =
  ti_type :: string
  ti_id :: "string option"
  ti_call_id :: "string option"
  ti_name :: "string option"
  ti_status :: "string option"
  ti_approved :: bool
  ti_text :: string

text \<open>\<open>item.get('call_id') or item.get('id')\<close>.\<close>

definition call_key :: "tool_item \<Rightarrow> string option" where
  "call_key i = (if ti_call_id i \<noteq> None \<and> ti_call_id i \<noteq> Some [] then ti_call_id i else ti_id i)"

definition is_call :: "tool_item \<Rightarrow> bool" where
  "is_call i \<longleftrightarrow> ti_type i = ''function_call''"

definition is_result :: "tool_item \<Rightarrow> bool" where
  "is_result i \<longleftrightarrow> ti_type i = ''function_call_output''"

definition result_ids :: "tool_item list \<Rightarrow> string option list" where
  "result_ids output = map ti_call_id (filter is_result output)"

definition waiting_status :: "string option set" where
  "waiting_status = {Some ''pending'', Some ''queued'', Some ''requires_approval''}"

definition is_pending :: "tool_item list \<Rightarrow> tool_item \<Rightarrow> bool" where
  "is_pending output i \<longleftrightarrow> is_call i \<and> call_key i \<notin> set (result_ids output)
     \<and> ti_status i \<in> insert (Some ''in_progress'') waiting_status"

definition pending_tool_calls :: "tool_item list \<Rightarrow> tool_item list" where
  "pending_tool_calls output = filter (is_pending output) output"

definition tool_continuation :: "string \<Rightarrow> tool_item" where
  "tool_continuation uuid = \<lparr>ti_type = ''message'', ti_id = Some (''msg_'' @ uuid), ti_call_id = None, ti_name = None,
     ti_status = Some ''in_progress'', ti_approved = False, ti_text = []\<rparr>"

definition result_item :: "string option \<Rightarrow> string option \<Rightarrow> string \<Rightarrow> string \<Rightarrow> tool_item" where
  "result_item i call_id status text = \<lparr>ti_type = ''function_call_output'', ti_id = i, ti_call_id = call_id, ti_name = None,
     ti_status = Some status, ti_approved = False, ti_text = text\<rparr>"

text \<open>A write to the first item of a kind: \<open>next(item for item in output if ...)\<close> is a reference into the list.\<close>

fun update_first :: "(tool_item \<Rightarrow> bool) \<Rightarrow> (tool_item \<Rightarrow> tool_item) \<Rightarrow> tool_item list \<Rightarrow> tool_item list" where
  "update_first P f [] = []"
| "update_first P f (i # is) = (if P i then f i # is else i # update_first P f is)"

definition set_status :: "string \<Rightarrow> tool_item \<Rightarrow> tool_item" where
  "set_status s i = i\<lparr>ti_status := Some s\<rparr>"

record tool_reply =
  tm_output :: "tool_item list"
  tm_done :: bool

subsection \<open>Completing a call\<close>

text \<open>\<open>call\<close> is the runner's copy of the item, \<open>result\<close> the item with its result.\<close>

definition complete_tool_call ::
  "string \<Rightarrow> tool_item \<Rightarrow> tool_item \<Rightarrow> tool_reply \<Rightarrow> (tool_item list \<times> tool_reply) result" where
  "complete_tool_call uuid call result message =
     (let output = tm_output message;
          here = (\<lambda>i. is_pending output i \<and> ti_call_id i = ti_call_id call)
      in case find here output of
           None \<Rightarrow> Inl (HTTPException 409 ''Tool call is no longer running.'')
         | Some saved \<Rightarrow>
             if ti_status saved \<noteq> Some ''in_progress'' then Inl (HTTPException 409 ''Tool call is no longer running.'')
             else let output = update_first here (\<lambda>_. call) output @ [result];
                      pending = pending_tool_calls output
                  in if ti_status result = Some ''incomplete''
                     then Inr (output, message\<lparr>tm_output := output, tm_done := True\<rparr>)
                     else let output =
                            (if pending = [] then output @ [tool_continuation uuid]
                             else update_first (\<lambda>i. is_pending output i \<and> \<not> ti_approved i) (set_status ''pending'') output)
                          in Inr (output, message\<lparr>tm_output := output\<rparr>))"

subsection \<open>The decision of the user\<close>

datatype tool_action = Approve | Reject | Answer "py option" bool

datatype resume = Resume_tools | Resume_model

definition answer_payload :: "py option \<Rightarrow> bool \<Rightarrow> py" where
  "answer_payload answers timed_out =
     (if timed_out then PDict [(''status'', PStr ''cancelled''), (''answers'', PDict []), (''timed_out'', PBool True)]
      else PDict [(''status'', PStr ''answered''),
                  (''answers'', case answers of Some a \<Rightarrow> (if truthy a then a else PDict []) | None \<Rightarrow> PDict [])])"

text \<open>The item after the decision, and the result item it adds.\<close>

definition decide :: "(py \<Rightarrow> string) \<Rightarrow> string \<Rightarrow> tool_action \<Rightarrow> tool_item \<Rightarrow> (tool_item \<times> tool_item list) result" where
  "decide dumps call_id action call =
     (case action of
        Approve \<Rightarrow>
          if ti_name call = Some ''ask_user'' then Inl (HTTPException 400 ''ask_user requires an answer or deny.'')
          else Inr (call\<lparr>ti_status := Some ''queued'', ti_approved := True\<rparr>, [])
      | Reject \<Rightarrow>
          Inr (set_status ''rejected'' call,
               [result_item (Some (''fco_'' @ call_id)) (Some call_id) ''rejected'' ''Error: tool call rejected by user.''])
      | Answer answers timed_out \<Rightarrow>
          if ti_name call \<noteq> Some ''ask_user'' then Inl (HTTPException 400 ''Tool call does not accept answers.'')
          else if answers = None \<and> \<not> timed_out then Inl (HTTPException 400 ''Answers are required for ask_user.'')
          else Inr (set_status ''completed'' call,
                    [result_item (Some (''fco_'' @ call_id)) (Some call_id) ''completed'' (dumps (answer_payload answers timed_out))]))"

text \<open>
  \<open>resolve_tool_call_output\<close> after the chat was found writable; \<open>allowed\<close> says that the reply belongs
  to the user.
\<close>

definition resolve_tool_call_output ::
  "(py \<Rightarrow> string) \<Rightarrow> string \<Rightarrow> bool \<Rightarrow> string \<Rightarrow> tool_action \<Rightarrow> tool_reply \<Rightarrow> (resume option \<times> tool_reply) result" where
  "resolve_tool_call_output dumps uuid allowed call_id action message =
     (if \<not> allowed then Inl (HTTPException 403 ''ACCESS_PROHIBITED'')
      else let output = tm_output message;
               here = (\<lambda>i. is_call i \<and> call_key i = Some call_id)
           in case find here output of
                None \<Rightarrow> Inl (HTTPException 404 ''Tool call not found.'')
              | Some found \<Rightarrow>
                  let call = (if ti_call_id found = None then found\<lparr>ti_call_id := Some call_id\<rparr> else found)
                  in if Some call_id \<in> set (result_ids output) \<or> ti_status call \<notin> waiting_status \<or> ti_approved call
                     then Inl (HTTPException 409 ''Tool call has already been resolved.'')
                     else let active = list_ex (\<lambda>i. ti_approved i \<or> ti_status i = Some ''in_progress'') (pending_tool_calls output)
                          in bind_result (decide dumps call_id action call) (\<lambda>(call, results).
                               let output = update_first here (\<lambda>_. call) output @ results;
                                   pending = pending_tool_calls output;
                                   (resume, output) =
                                     (if active then (None, output)
                                      else if action = Approve then (Some Resume_tools, output)
                                      else if pending = [] then (Some Resume_model, output @ [tool_continuation uuid])
                                      else (None, update_first (is_pending output) (set_status ''pending'') output))
                               in Inr (resume, message\<lparr>tm_output := output, tm_done := False\<rparr>)))"

subsection \<open>Claiming a call\<close>

text \<open>
  The transaction at the head of the loop of \<open>resume_tool_calls\<close>: the runner stops, or takes a copy of
  the call it has marked. \<open>full\<close> says that the approval mode of the request is \<open>full\<close>.
\<close>

definition claimable :: "bool \<Rightarrow> tool_item list \<Rightarrow> tool_item \<Rightarrow> bool" where
  "claimable full output i \<longleftrightarrow> is_pending output i \<and> ti_name i \<noteq> Some ''ask_user'' \<and> (ti_approved i \<or> full)"

definition claim_tool_call :: "bool \<Rightarrow> tool_reply \<Rightarrow> (tool_item option \<times> tool_reply) result" where
  "claim_tool_call full message =
     (let output = tm_output message
      in if list_ex (\<lambda>i. ti_status i = Some ''in_progress'') (pending_tool_calls output) then Inr (None, message)
         else case find (claimable full output) output of
                None \<Rightarrow> Inr (None, message\<lparr>tm_output := update_first (is_pending output) (set_status ''pending'') output\<rparr>)
              | Some i \<Rightarrow>
                  (case call_key i of
                     None \<Rightarrow> Inl KeyError
                   | Some k \<Rightarrow>
                       let item = i\<lparr>ti_call_id := Some k, ti_status := Some ''in_progress''\<rparr>
                       in Inr (Some item,
                               message\<lparr>tm_output := update_first (claimable full output) (\<lambda>_. item) output, tm_done := False\<rparr>)))"

text \<open>After a call the runner goes on while calls are left that it may run.\<close>

datatype runner = Runner_model | Runner_stops | Runner_continues

definition after_call :: "bool \<Rightarrow> tool_item list \<Rightarrow> runner" where
  "after_call full output =
     (let pending = pending_tool_calls output
      in if pending = [] then Runner_model
         else if \<not> full \<and> \<not> list_ex ti_approved pending then Runner_stops
         else Runner_continues)"

subsection \<open>Pausing\<close>

text \<open>\<open>pause_for_tool_approval\<close>: the calls of a new reply without a result wait, the first one visibly.\<close>

fun pause_items :: "string option set \<Rightarrow> bool \<Rightarrow> tool_item list \<Rightarrow> tool_item list" where
  "pause_items results has_pending [] = []"
| "pause_items results has_pending (i # is) =
     (let i = (if is_call i \<and> (ti_call_id i = None \<or> ti_call_id i = Some []) \<and> ti_id i \<noteq> None \<and> ti_id i \<noteq> Some []
               then i\<lparr>ti_call_id := ti_id i\<rparr> else i)
      in if is_call i \<and> ti_call_id i \<noteq> None \<and> ti_call_id i \<noteq> Some [] \<and> ti_call_id i \<notin> results
             \<and> ti_status i \<noteq> Some ''rejected''
         then if \<not> has_pending then set_status ''pending'' i # pause_items results True is
              else if ti_status i = Some ''in_progress'' \<or> ti_status i = Some ''completed''
              then set_status ''queued'' i # pause_items results has_pending is
              else i # pause_items results has_pending is
         else i # pause_items results has_pending is)"

definition pause_for_tool_approval :: "tool_item list \<Rightarrow> tool_reply" where
  "pause_for_tool_approval output =
     \<lparr>tm_output = pause_items {c \<in> set (result_ids output). c \<noteq> None \<and> c \<noteq> Some []} False output, tm_done = False\<rparr>"

end
