(* ===== verification/Tool_Runs.thy ===== *)
theory Tool_Runs
  imports Tool_Approval
begin

text \<open>
  The calls of one reply under any interleaving of decisions and runners. A step is one transaction;
  a runner keeps its copy of the call between claiming and completing it, and may never come back.
\<close>

subsection \<open>The system\<close>

record approval_system =
  as_message :: tool_reply
  as_running :: "tool_item list"
  as_claimed :: "(string option \<times> bool) list"
  as_approved :: "string option list"
  as_declined :: "string option list"
  as_resumed :: nat

datatype approval_step =
    User_decides bool string tool_action string
  | Runner_claims bool
  | Runner_completes nat string string string string

definition start_approval :: "tool_reply \<Rightarrow> approval_system" where
  "start_approval m = \<lparr>as_message = m, as_running = [], as_claimed = [], as_approved = [], as_declined = [], as_resumed = 0\<rparr>"

text \<open>
  \<open>as_claimed\<close> records the calls that were claimed and whether in mode \<open>full\<close>, \<open>as_approved\<close> and
  \<open>as_declined\<close> the accepted decisions, \<open>as_resumed\<close> how often the model was started again. A runner
  ends a call with a status and a text; a completion that is refused ends the runner.
\<close>

definition run_status :: "string \<Rightarrow> string" where
  "run_status s = (if s \<in> {''completed'', ''failed''} then s else ''incomplete'')"

definition user_decides :: "(py \<Rightarrow> string) \<Rightarrow> bool \<Rightarrow> string \<Rightarrow> tool_action \<Rightarrow> string \<Rightarrow> approval_system \<Rightarrow> approval_system" where
  "user_decides dumps allowed call_id action uuid sys =
     (case resolve_tool_call_output dumps uuid allowed call_id action (as_message sys) of
        Inl _ \<Rightarrow> sys
      | Inr (r, m) \<Rightarrow> sys\<lparr>as_message := m,
            as_approved := (if action = Approve then [Some call_id] else []) @ as_approved sys,
            as_declined := (if action = Approve then [] else [Some call_id]) @ as_declined sys,
            as_resumed := as_resumed sys + (if r = Some Resume_model then 1 else 0)\<rparr>)"

definition runner_claims :: "bool \<Rightarrow> approval_system \<Rightarrow> approval_system" where
  "runner_claims full sys =
     (case claim_tool_call full (as_message sys) of
        Inl _ \<Rightarrow> sys
      | Inr (None, m) \<Rightarrow> sys\<lparr>as_message := m\<rparr>
      | Inr (Some i, m) \<Rightarrow> sys\<lparr>as_message := m, as_running := as_running sys @ [i],
            as_claimed := (ti_call_id i, full) # as_claimed sys\<rparr>)"

definition runner_completes :: "nat \<Rightarrow> string \<Rightarrow> string \<Rightarrow> string \<Rightarrow> string \<Rightarrow> approval_system \<Rightarrow> approval_system" where
  "runner_completes n status i text uuid sys =
     (if n < length (as_running sys)
      then let call = set_status (run_status status) (as_running sys ! n);
               rest = take n (as_running sys) @ drop (Suc n) (as_running sys);
               result = result_item (Some i) (ti_call_id call) (run_status status) text
           in case complete_tool_call uuid call result (as_message sys) of
                Inl _ \<Rightarrow> sys\<lparr>as_running := rest\<rparr>
              | Inr (output, m) \<Rightarrow> sys\<lparr>as_message := m, as_running := rest,
                    as_resumed := as_resumed sys
                      + (if run_status status \<noteq> ''incomplete'' \<and> after_call True output = Runner_model then 1 else 0)\<rparr>
      else sys)"

fun exec_approval :: "(py \<Rightarrow> string) \<Rightarrow> approval_step \<Rightarrow> approval_system \<Rightarrow> approval_system" where
  "exec_approval dumps (User_decides allowed call_id action uuid) sys = user_decides dumps allowed call_id action uuid sys"
| "exec_approval dumps (Runner_claims full) sys = runner_claims full sys"
| "exec_approval dumps (Runner_completes n status i text uuid) sys = runner_completes n status i text uuid sys"

definition run_approval :: "(py \<Rightarrow> string) \<Rightarrow> tool_reply \<Rightarrow> approval_step list \<Rightarrow> approval_system" where
  "run_approval dumps m steps = fold (exec_approval dumps) steps (start_approval m)"

subsection \<open>Calls and results\<close>

definition calls_of :: "tool_reply \<Rightarrow> tool_item list" where
  "calls_of m = filter is_call (tm_output m)"

definition results_of :: "tool_reply \<Rightarrow> string option list" where
  "results_of m = result_ids (tm_output m)"

definition open_call :: "string option list \<Rightarrow> tool_item \<Rightarrow> bool" where
  "open_call rs i \<longleftrightarrow> call_key i \<notin> set rs \<and> ti_status i \<in> insert (Some ''in_progress'') waiting_status"

definition running_call :: "string option list \<Rightarrow> tool_item \<Rightarrow> bool" where
  "running_call rs i \<longleftrightarrow> call_key i \<notin> set rs \<and> ti_status i = Some ''in_progress''"

lemma is_pending_open: "is_pending output i \<longleftrightarrow> is_call i \<and> open_call (result_ids output) i"
  by (simp add: is_pending_def open_call_def)

lemma pending_calls: "pending_tool_calls output = filter (open_call (result_ids output)) (filter is_call output)"
  unfolding pending_tool_calls_def filter_filter by (rule filter_cong) (simp_all add: is_pending_open)

lemma running_pending:
  "list_ex (\<lambda>i. ti_status i = Some ''in_progress'') (pending_tool_calls output)
   \<longleftrightarrow> (\<exists>i \<in> set (filter is_call output). running_call (result_ids output) i)"
  by (auto simp: pending_calls list_ex_iff open_call_def running_call_def)

lemma result_not_call: "is_result i \<Longrightarrow> \<not> is_call i"
  by (simp add: is_result_def is_call_def)

text \<open>Writing a call keeps the results, and appending a result keeps the calls.\<close>

lemma update_first_calls:
  assumes "\<And>i. P i \<Longrightarrow> is_call i" and "\<And>i. P i \<Longrightarrow> is_call (f i)"
  shows "filter is_call (update_first P f out) = update_first P f (filter is_call out)"
    and "result_ids (update_first P f out) = result_ids out"
proof -
  show "filter is_call (update_first P f out) = update_first P f (filter is_call out)"
    using assms by (induction out) auto
  show "result_ids (update_first P f out) = result_ids out"
    using assms result_not_call by (induction out) (auto simp: result_ids_def)
qed

lemma update_first_cong: "(\<And>i. i \<in> set xs \<Longrightarrow> P i = Q i) \<Longrightarrow> update_first P f xs = update_first Q f xs"
  by (induction xs) auto

lemma update_first_cases:
  obtains "update_first P f xs = xs" and "\<And>i. i \<in> set xs \<Longrightarrow> \<not> P i"
  | as i bs where "xs = as @ i # bs" and "P i" and "find P xs = Some i" and "update_first P f xs = as @ f i # bs"
proof -
  have "(update_first P f xs = xs \<and> (\<forall>i \<in> set xs. \<not> P i))
      \<or> (\<exists>as i bs. xs = as @ i # bs \<and> P i \<and> find P xs = Some i \<and> update_first P f xs = as @ f i # bs)"
  proof (induction xs)
    case (Cons x xs)
    show ?case
    proof (cases "P x")
      case True
      then show ?thesis by (intro disjI2 exI [of _ "[]"]) auto
    next
      case False
      from Cons.IH show ?thesis
      proof (elim disjE exE conjE)
        fix as i bs
        assume "xs = as @ i # bs" "P i" "find P xs = Some i" "update_first P f xs = as @ f i # bs"
        with False show ?thesis by (intro disjI2 exI [of _ "x # as"] exI [of _ i] exI [of _ bs]) simp
      qed (use False in simp)
    qed
  qed simp
  with that show ?thesis by blast
qed

lemma find_filter_call: "(\<And>i. P i \<Longrightarrow> is_call i) \<Longrightarrow> find P out = find P (filter is_call out)"
  by (induction out) auto

lemma append_result_simps [simp]:
  "is_call (result_item i c s t) = False" "is_result (result_item i c s t) = True" "ti_call_id (result_item i c s t) = c"
  "ti_status (result_item i c s t) = Some s"
  "is_call (tool_continuation u) = False" "is_result (tool_continuation u) = False"
  by (simp_all add: result_item_def tool_continuation_def is_call_def is_result_def)

lemma result_ids_append [simp]:
  "result_ids (out @ [r]) = result_ids out @ (if is_result r then [ti_call_id r] else [])"
  by (simp add: result_ids_def)

lemma set_status_simps [simp]:
  "is_call (set_status s i) = is_call i" "call_key (set_status s i) = call_key i" "ti_call_id (set_status s i) = ti_call_id i"
  "ti_status (set_status s i) = Some s" "ti_approved (set_status s i) = ti_approved i" "ti_name (set_status s i) = ti_name i"
  by (simp_all add: set_status_def is_call_def call_key_def)


subsection \<open>What the transactions do to the calls\<close>

definition replaced :: "tool_item list \<Rightarrow> tool_item \<Rightarrow> tool_item \<Rightarrow> tool_item list \<Rightarrow> bool" where
  "replaced cs i j cs' \<longleftrightarrow> (\<exists>as bs. cs = as @ i # bs \<and> cs' = as @ j # bs)"

text \<open>A call that does not run may be shown as the next one to decide.\<close>

definition nudged :: "string option list \<Rightarrow> tool_item list \<Rightarrow> tool_item list \<Rightarrow> bool" where
  "nudged rs cs cs' \<longleftrightarrow> cs' = cs \<or> (\<exists>i. replaced cs i (set_status ''pending'' i) cs' \<and> open_call rs i \<and> \<not> running_call rs i)"

lemma nudged_update_first:
  assumes "\<And>i. i \<in> set cs \<Longrightarrow> \<not> running_call rs i"
  shows "nudged rs cs (update_first (\<lambda>i. is_call i \<and> open_call rs i \<and> Q i) (set_status ''pending'') cs)"
proof (cases rule: update_first_cases [of "\<lambda>i. is_call i \<and> open_call rs i \<and> Q i" "set_status ''pending''" cs])
  case (2 as i bs)
  then have "\<not> running_call rs i" using assms [of i] by simp
  with 2 show ?thesis by (auto simp: nudged_def replaced_def)
qed (simp add: nudged_def)

lemma calls_of_nudge:
  assumes "\<And>i. i \<in> set (filter is_call out) \<Longrightarrow> \<not> running_call (result_ids out) i"
  shows "nudged (result_ids out) (filter is_call out)
      (filter is_call (update_first (\<lambda>i. is_pending out i \<and> Q i) (set_status ''pending'') out))"
    and "result_ids (update_first (\<lambda>i. is_pending out i \<and> Q i) (set_status ''pending'') out) = result_ids out"
proof -
  have P: "(\<lambda>i. is_pending out i \<and> Q i) = (\<lambda>i. is_call i \<and> open_call (result_ids out) i \<and> Q i)"
    by (simp add: is_pending_open fun_eq_iff)
  show "nudged (result_ids out) (filter is_call out)
      (filter is_call (update_first (\<lambda>i. is_pending out i \<and> Q i) (set_status ''pending'') out))"
    unfolding P by (subst update_first_calls(1)) (auto intro: nudged_update_first [OF assms])
  show "result_ids (update_first (\<lambda>i. is_pending out i \<and> Q i) (set_status ''pending'') out) = result_ids out"
    unfolding P by (rule update_first_calls(2)) auto
qed

lemma claim_none:
  assumes "claim_tool_call full m = Inr (None, m')"
  shows "results_of m' = results_of m \<and> nudged (results_of m) (calls_of m) (calls_of m')"
proof (cases "list_ex (\<lambda>i. ti_status i = Some ''in_progress'') (pending_tool_calls (tm_output m))")
  case True
  with assms have "m' = m" by (simp add: claim_tool_call_def)
  then show ?thesis by (simp add: nudged_def)
next
  case False
  let ?out = "tm_output m"
  from False assms have m': "tm_output m' = update_first (is_pending ?out) (set_status ''pending'') ?out"
    by (auto simp: claim_tool_call_def Let_def split: option.splits)
  from False have idle: "\<And>i. i \<in> set (filter is_call ?out) \<Longrightarrow> \<not> running_call (result_ids ?out) i" by (simp add: running_pending)
  from calls_of_nudge [OF idle, of "\<lambda>_. True"] m' show ?thesis by (simp add: results_of_def calls_of_def)
qed

lemma call_key_set: "call_key i = Some k \<Longrightarrow> call_key (i\<lparr>ti_call_id := Some k\<rparr>) = Some k"
  by (auto simp: call_key_def split: if_splits)

lemma call_key_status [simp]: "call_key (i\<lparr>ti_status := s\<rparr>) = call_key i" "is_call (i\<lparr>ti_status := s\<rparr>) = is_call i"
  "call_key (i\<lparr>ti_approved := a\<rparr>) = call_key i" "is_call (i\<lparr>ti_approved := a\<rparr>) = is_call i" "is_call (i\<lparr>ti_call_id := c\<rparr>) = is_call i"
  by (simp_all add: call_key_def is_call_def)

lemma claim_some:
  assumes "claim_tool_call full m = Inr (Some j, m')"
  obtains i where "replaced (calls_of m) i j (calls_of m')" and "results_of m' = results_of m"
    and "open_call (results_of m) i" and "\<And>x. x \<in> set (calls_of m) \<Longrightarrow> \<not> running_call (results_of m) x"
    and "is_call j" and "call_key j = call_key i" and "ti_call_id j = call_key i" and "ti_status j = Some ''in_progress''"
    and "ti_approved j = ti_approved i" and "ti_name j = ti_name i" and "ti_approved i \<or> full"
proof -
  let ?out = "tm_output m"
  from assms have idle: "\<not> list_ex (\<lambda>i. ti_status i = Some ''in_progress'') (pending_tool_calls ?out)"
    by (auto simp: claim_tool_call_def Let_def split: if_splits option.splits)
  with assms obtain i k where i: "find (claimable full ?out) ?out = Some i" and k: "call_key i = Some k"
    and j: "j = i\<lparr>ti_call_id := Some k, ti_status := Some ''in_progress''\<rparr>"
    and out: "tm_output m' = update_first (claimable full ?out) (\<lambda>_. j) ?out"
    by (auto simp: claim_tool_call_def Let_def split: option.splits)
  have call: "claimable full ?out x \<Longrightarrow> is_call x" for x by (simp add: claimable_def is_pending_open)
  from find_Some [OF i] have ci: "claimable full ?out i" by simp
  with call have "is_call i" by blast
  then have cj: "is_call j" by (simp add: j)
  have out': "calls_of m' = update_first (claimable full ?out) (\<lambda>_. j) (calls_of m)" "results_of m' = results_of m"
    using update_first_calls [of "claimable full ?out" "\<lambda>_. j" ?out] call cj out by (auto simp: calls_of_def results_of_def)
  have find: "find (claimable full ?out) (calls_of m) = Some i"
    using i find_filter_call [of "claimable full ?out" ?out] call by (simp add: calls_of_def)
  have "replaced (calls_of m) i j (calls_of m')"
  proof (cases rule: update_first_cases [of "claimable full ?out" "\<lambda>_. j" "calls_of m"])
    case 1
    with find show ?thesis using find_Some [OF find] by blast
  next
    case (2 as x bs)
    with find out'(1) show ?thesis by (auto simp: replaced_def)
  qed
  moreover have "open_call (results_of m) i" "ti_approved i \<or> full"
    using ci by (simp_all add: claimable_def is_pending_open results_of_def)
  moreover have "\<not> running_call (results_of m) x" if "x \<in> set (calls_of m)" for x
    using that idle by (simp add: running_pending calls_of_def results_of_def)
  moreover have "call_key j = call_key i" using call_key_set [OF k] by (simp add: j k)
  ultimately show ?thesis using out'(2) cj by (intro that) (simp_all add: j k)
qed


lemma update_first_replaced:
  assumes "find P out = Some i" and "\<And>x. P x \<Longrightarrow> is_call x" and "is_call j"
  shows "replaced (filter is_call out) i j (filter is_call (update_first P (\<lambda>_. j) out))"
    and "result_ids (update_first P (\<lambda>_. j) out) = result_ids out"
proof -
  have find: "find P (filter is_call out) = Some i" using assms(1) find_filter_call [of P out] assms(2) by simp
  have "replaced (filter is_call out) i j (update_first P (\<lambda>_. j) (filter is_call out))"
  proof (cases rule: update_first_cases [of P "\<lambda>_. j" "filter is_call out"])
    case 1
    with find show ?thesis using find_Some [OF find] by blast
  next
    case (2 as x bs)
    with find show ?thesis by (auto simp: replaced_def)
  qed
  with update_first_calls(1) [of P "\<lambda>_. j" out] assms(2,3)
  show "replaced (filter is_call out) i j (filter is_call (update_first P (\<lambda>_. j) out))" by simp
  show "result_ids (update_first P (\<lambda>_. j) out) = result_ids out" using assms(2,3) by (intro update_first_calls(2)) auto
qed

lemma replaced_set: "replaced cs i j cs' \<Longrightarrow> set cs' \<subseteq> insert j (set cs)"
  by (auto simp: replaced_def)

text \<open>The message after a step that may nudge, or start the model.\<close>

lemma continued:
  assumes "\<And>i. i \<in> set (filter is_call out) \<Longrightarrow> \<not> running_call (result_ids out) i"
    and "out' = (if pending_tool_calls out = [] then out @ [tool_continuation u]
                 else update_first (\<lambda>i. is_pending out i \<and> Q i) (set_status ''pending'') out)"
  shows "nudged (result_ids out) (filter is_call out) (filter is_call out')" and "result_ids out' = result_ids out"
  using calls_of_nudge [OF assms(1), of Q] by (auto simp: assms(2) nudged_def)

lemma complete_effect:
  assumes ends: "complete_tool_call u call result m = Inr (out', m')"
    and call: "is_call call" "ti_status call \<notin> insert (Some ''in_progress'') waiting_status"
    and result: "is_result result" "ti_call_id result = ti_call_id call"
    and only: "\<And>x. x \<in> set (calls_of m) \<Longrightarrow> running_call (results_of m) x \<Longrightarrow> call_key x = ti_call_id call"
  obtains i cs where "replaced (calls_of m) i call cs" and "ti_call_id i = ti_call_id call" and "running_call (results_of m) i"
    and "results_of m' = results_of m @ [ti_call_id call]" and "nudged (results_of m') cs (calls_of m')"
    and "tm_output m' = out'"
proof -
  let ?out = "tm_output m"
  let ?here = "\<lambda>i. is_pending ?out i \<and> ti_call_id i = ti_call_id call"
  from ends obtain i where i: "find ?here ?out = Some i" and running: "ti_status i = Some ''in_progress''"
    by (auto simp: complete_tool_call_def Let_def split: option.splits if_splits)
  from find_Some [OF i] have "?here i" by simp
  then have run: "running_call (results_of m) i" and same: "ti_call_id i = ti_call_id call"
    using running by (simp_all add: is_pending_open open_call_def running_call_def results_of_def)
  let ?out1 = "update_first ?here (\<lambda>_. call) ?out"
  let ?out2 = "?out1 @ [result]"
  have rep: "replaced (calls_of m) i call (filter is_call ?out1)" and ids: "result_ids ?out1 = results_of m"
    using update_first_replaced [OF i _ call(1)] by (auto simp: is_pending_open calls_of_def results_of_def)
  have calls2: "filter is_call ?out2 = filter is_call ?out1" and ids2: "result_ids ?out2 = results_of m @ [ti_call_id call]"
    using result result_not_call [of result] ids by simp_all
  have idle: "\<not> running_call (result_ids ?out2) x" if "x \<in> set (filter is_call ?out2)" for x
  proof
    assume x: "running_call (result_ids ?out2) x"
    from that calls2 replaced_set [OF rep] have "x = call \<or> x \<in> set (calls_of m)" by auto
    then show False using x [unfolded ids2] call(2) only [of x] by (auto simp: running_call_def)
  qed
  let ?out3 = "if ti_status result = Some ''incomplete'' then ?out2
      else if pending_tool_calls ?out2 = [] then ?out2 @ [tool_continuation u]
      else update_first (\<lambda>i. is_pending ?out2 i \<and> \<not> ti_approved i) (set_status ''pending'') ?out2"
  from ends i running have out': "tm_output m' = ?out3" "out' = ?out3"
    by (auto simp: complete_tool_call_def Let_def split: option.splits if_splits)
  have "nudged (result_ids ?out2) (filter is_call ?out2) (filter is_call ?out3) \<and> result_ids ?out3 = result_ids ?out2"
    using continued [OF idle refl, of u "\<lambda>i. \<not> ti_approved i"] by (auto simp: nudged_def)
  with out' calls2 ids2 have "nudged (results_of m') (filter is_call ?out1) (calls_of m')"
    and "results_of m' = results_of m @ [ti_call_id call]" by (simp_all only: results_of_def calls_of_def)
  with rep same run out' show ?thesis by (intro that) simp_all
qed


lemma nudged_count:
  assumes "nudged rs cs cs'"
  shows "length (filter (open_call rs) cs') = length (filter (open_call rs) cs)"
  using assms by (auto simp: nudged_def replaced_def open_call_def waiting_status_def)

definition settled_status :: "tool_item \<Rightarrow> bool" where
  "settled_status i \<longleftrightarrow> ti_status i \<notin> insert (Some ''in_progress'') waiting_status"

lemma decide_effect:
  assumes "decide dumps c action call = Inr (j, results)"
  shows "is_call j = is_call call \<and> call_key j = call_key call
    \<and> (if action = Approve then results = [] \<and> ti_approved j \<and> ti_status j = Some ''queued'' \<and> ti_name j \<noteq> Some ''ask_user''
       else (\<exists>r. results = [r] \<and> is_result r \<and> ti_call_id r = Some c) \<and> settled_status j \<and> ti_approved j = ti_approved call)"
  using assms
  by (cases action) (auto simp: decide_def set_status_def settled_status_def waiting_status_def split: if_splits)

lemma no_pending_continued:
  "pending_tool_calls out = [] \<Longrightarrow> tm_output m' = out @ [tool_continuation u]
   \<Longrightarrow> filter (open_call (results_of m')) (calls_of m') = []"
  by (simp add: pending_calls results_of_def calls_of_def)

lemma resolve_effect:
  assumes ends: "resolve_tool_call_output dumps u allowed c action m = Inr (r, m')"
  obtains i j cs where "replaced (calls_of m) i j cs" and "call_key i = Some c" and "is_call j" and "call_key j = Some c"
    and "Some c \<notin> set (results_of m)" and "ti_status i \<in> waiting_status" and "\<not> ti_approved i"
    and "action = Approve \<Longrightarrow> results_of m' = results_of m \<and> calls_of m' = cs \<and> ti_approved j \<and> ti_status j = Some ''queued''
       \<and> ti_name j \<noteq> Some ''ask_user'' \<and> r \<noteq> Some Resume_model"
    and "action \<noteq> Approve \<Longrightarrow> results_of m' = results_of m @ [Some c] \<and> settled_status j \<and> \<not> ti_approved j
       \<and> nudged (results_of m') cs (calls_of m')"
    and "r = Some Resume_model \<Longrightarrow> filter (open_call (results_of m')) (calls_of m') = []"
    and "action \<noteq> Approve \<Longrightarrow> \<forall>x \<in> set (calls_of m). open_call (results_of m) x \<longrightarrow> \<not> ti_approved x \<and> \<not> running_call (results_of m) x
       \<Longrightarrow> filter (open_call (results_of m')) (calls_of m') = [] \<Longrightarrow> r = Some Resume_model"
proof -
  let ?out = "tm_output m"
  let ?here = "\<lambda>i. is_call i \<and> call_key i = Some c"
  let ?set = "\<lambda>f. if ti_call_id f = None then f\<lparr>ti_call_id := Some c\<rparr> else f"
  from ends obtain i j results where i: "find ?here ?out = Some i"
    and fresh: "Some c \<notin> set (result_ids ?out)" "ti_status (?set i) \<in> waiting_status" "\<not> ti_approved (?set i)"
    and dec: "decide dumps c action (?set i) = Inr (j, results)"
    by (auto simp: resolve_tool_call_output_def Let_def bind_result_Inr_iff split: option.splits if_splits prod.splits)
  from fresh(2,3) have plain: "ti_status i \<in> waiting_status" "\<not> ti_approved i" by (simp_all split: if_splits)
  from find_Some [OF i] have key: "is_call i" "call_key i = Some c" by simp_all
  then have set_i: "is_call (?set i)" "call_key (?set i) = Some c" using call_key_set by auto
  from decide_effect [OF dec] set_i have j: "is_call j" "call_key j = Some c" by simp_all
  let ?out1 = "update_first ?here (\<lambda>_. j) ?out"
  let ?out2 = "?out1 @ results"
  let ?active = "list_ex (\<lambda>i. ti_approved i \<or> ti_status i = Some ''in_progress'') (pending_tool_calls ?out)"
  have rep: "replaced (calls_of m) i j (filter is_call ?out1)" and ids: "result_ids ?out1 = results_of m"
    using update_first_replaced [OF i _ j(1)] by (auto simp: calls_of_def results_of_def)
  have final: "r = (if ?active then None else if action = Approve then Some Resume_tools
        else if pending_tool_calls ?out2 = [] then Some Resume_model else None)
      \<and> tm_output m' = (if ?active \<or> action = Approve then ?out2
        else if pending_tool_calls ?out2 = [] then ?out2 @ [tool_continuation u]
        else update_first (is_pending ?out2) (set_status ''pending'') ?out2)"
    using ends i fresh dec
    by (auto simp: resolve_tool_call_output_def Let_def split: if_splits)
  show ?thesis
  proof (cases "action = Approve")
    case True
    with decide_effect [OF dec] have "results = []" "ti_approved j" "ti_status j = Some ''queued''" "ti_name j \<noteq> Some ''ask_user''" by simp_all
    with True final rep ids key j plain fresh(1) show ?thesis
      by (intro that [of i j "filter is_call ?out1"]) (auto simp: results_of_def calls_of_def split: if_splits)
  next
    case False
    with decide_effect [OF dec] fresh obtain x where x: "results = [x]" "is_result x" "ti_call_id x = Some c"
      and sj: "settled_status j" "\<not> ti_approved j" by auto
    have calls2: "filter is_call ?out2 = filter is_call ?out1" and ids2: "result_ids ?out2 = results_of m @ [Some c]"
      using x result_not_call [of x] ids by simp_all
    have nudge: "nudged (result_ids ?out2) (filter is_call ?out2) (filter is_call (tm_output m')) \<and> result_ids (tm_output m') = result_ids ?out2"
    proof (cases ?active)
      case True
      with final show ?thesis by (simp add: nudged_def)
    next
      case idle: False
      have "\<not> running_call (result_ids ?out2) y" if "y \<in> set (filter is_call ?out2)" for y
      proof
        assume y: "running_call (result_ids ?out2) y"
        from that [unfolded calls2] replaced_set [OF rep] have "y = j \<or> y \<in> set (calls_of m)" by blast
        then show False
          using y [unfolded ids2] sj(1) idle
          by (auto simp: running_call_def settled_status_def pending_calls list_ex_iff open_call_def calls_of_def results_of_def)
      qed
      moreover from final idle False have "tm_output m' = (if pending_tool_calls ?out2 = [] then ?out2 @ [tool_continuation u]
          else update_first (\<lambda>i. is_pending ?out2 i \<and> True) (set_status ''pending'') ?out2)" by (simp only: simp_thms if_False)
      ultimately show ?thesis using continued [where out = ?out2 and Q = "\<lambda>_. True" and u = u] by blast
    qed
    have none_open: "filter (open_call (results_of m')) (calls_of m') = []" if "r = Some Resume_model"
    proof -
      from that final have "pending_tool_calls ?out2 = []" "tm_output m' = ?out2 @ [tool_continuation u]" by (auto split: if_splits)
      then show ?thesis by (rule no_pending_continued)
    qed
    have resumes: "r = Some Resume_model"
      if "action \<noteq> Approve" and idle: "\<forall>x \<in> set (calls_of m). open_call (results_of m) x \<longrightarrow> \<not> ti_approved x \<and> \<not> running_call (results_of m) x"
        and none: "filter (open_call (results_of m')) (calls_of m') = []"
    proof -
      from idle have "\<not> ?active"
        by (auto simp: pending_calls list_ex_iff calls_of_def results_of_def running_call_def open_call_def)
      moreover have "length (pending_tool_calls ?out2) = length (filter (open_call (results_of m')) (calls_of m'))"
        using nudged_count [OF conjunct1 [OF nudge]] nudge by (simp only: pending_calls results_of_def calls_of_def)
      then have "pending_tool_calls ?out2 = []" using none by simp
      ultimately show ?thesis using final False by simp
    qed
    have ids': "results_of m' = results_of m @ [Some c]" and nudge': "nudged (results_of m') (filter is_call ?out1) (calls_of m')"
      using nudge calls2 ids2 by (simp_all only: results_of_def calls_of_def)
    have fresh': "Some c \<notin> set (results_of m)" using fresh(1) by (simp add: results_of_def)
    show ?thesis
      by (rule that [of i j "filter is_call ?out1", OF rep key(2) j fresh' plain _ _ none_open resumes])
        (use False ids' nudge' sj in blast)+
  qed
qed


subsection \<open>The invariant\<close>

text \<open>
  \<open>K\<close> are the calls of the reply, \<open>R\<close> the results it had and \<open>P\<close> the calls that were open when it was
  paused.
\<close>

record approval_view =
  av_calls :: "tool_item list"
  av_results :: "string option list"
  av_running :: "tool_item list"
  av_claimed :: "(string option \<times> bool) list"
  av_approved :: "string option list"
  av_declined :: "string option list"
  av_resumed :: nat

definition results_inv :: "string option list \<Rightarrow> string option list \<Rightarrow> string option set \<Rightarrow> approval_view \<Rightarrow> bool" where
  "results_inv K R P v \<longleftrightarrow> map call_key (av_calls v) = K
     \<and> (\<exists>new. av_results v = R @ new \<and> distinct new \<and> set new \<inter> set R = {} \<and> set new \<subseteq> set K)
     \<and> (\<forall>i \<in> set (av_calls v). call_key i \<in> P \<longrightarrow> call_key i \<in> set (av_results v) \<or> \<not> settled_status i)
     \<and> av_resumed v \<le> 1 \<and> (av_resumed v = 1 \<longrightarrow> filter (open_call (av_results v)) (av_calls v) = [])"

definition runners_inv :: "approval_view \<Rightarrow> bool" where
  "runners_inv v \<longleftrightarrow> av_running v = filter (running_call (av_results v)) (av_calls v) \<and> length (av_running v) \<le> 1
     \<and> (\<forall>i \<in> set (av_running v). ti_call_id i = call_key i)
     \<and> distinct (map fst (av_claimed v))
     \<and> fst ` set (av_claimed v) \<subseteq> set (av_results v) \<union> call_key ` set (av_running v)"

definition decisions_inv :: "approval_view \<Rightarrow> bool" where
  "decisions_inv v \<longleftrightarrow> (\<forall>i \<in> set (av_calls v). ti_approved i \<longrightarrow> call_key i \<in> set (av_results v)
       \<or> call_key i \<in> set (av_approved v) \<and> ti_name i \<noteq> Some ''ask_user'')
     \<and> (\<forall>(c, full) \<in> set (av_claimed v). full \<or> c \<in> set (av_approved v))
     \<and> (\<forall>c \<in> set (av_declined v). c \<in> set (av_results v) \<and> c \<notin> fst ` set (av_claimed v))"

definition approval_inv :: "string option list \<Rightarrow> string option list \<Rightarrow> string option set \<Rightarrow> approval_view \<Rightarrow> bool" where
  "approval_inv K R P v \<longleftrightarrow> distinct K \<and> None \<notin> set K \<and> Some [] \<notin> set K
     \<and> results_inv K R P v \<and> runners_inv v \<and> decisions_inv v"

lemma open_settled: "open_call rs i \<longleftrightarrow> call_key i \<notin> set rs \<and> \<not> settled_status i"
  by (simp add: open_call_def settled_status_def)

lemma settled_pending [simp]: "\<not> settled_status (set_status ''pending'' i)"
  by (simp add: settled_status_def waiting_status_def)

lemma nudge_inv:
  assumes "approval_inv K R P v" and "nudged (av_results v) (av_calls v) cs"
  shows "approval_inv K R P (v\<lparr>av_calls := cs\<rparr>)"
proof (cases "cs = av_calls v")
  case False
  with assms(2) obtain as i bs where cs: "av_calls v = as @ i # bs" "cs = as @ set_status ''pending'' i # bs"
    and i: "open_call (av_results v) i" "\<not> running_call (av_results v) i"
    by (auto simp: nudged_def replaced_def)
  from i have "\<not> running_call (av_results v) (set_status ''pending'' i)" by (simp add: running_call_def)
  with cs i have run: "filter (running_call (av_results v)) cs = filter (running_call (av_results v)) (av_calls v)" by simp
  from assms(1) i cs have "av_resumed v \<noteq> 1" by (auto simp: approval_inv_def results_inv_def)
  then show ?thesis using assms(1) cs i run
    by (auto simp: approval_inv_def results_inv_def runners_inv_def decisions_inv_def open_settled)
qed (use assms in simp)

lemma claim_inv:
  assumes inv: "approval_inv K R P v" and rep: "replaced (av_calls v) i j cs"
    and i: "open_call (av_results v) i" and idle: "\<And>x. x \<in> set (av_calls v) \<Longrightarrow> \<not> running_call (av_results v) x"
    and j: "call_key j = call_key i" "ti_call_id j = call_key i" "ti_status j = Some ''in_progress''"
      "ti_approved j = ti_approved i" "ti_name j = ti_name i" and full: "ti_approved i \<or> full"
  shows "approval_inv K R P (v\<lparr>av_calls := cs, av_running := av_running v @ [j], av_claimed := (ti_call_id j, full) # av_claimed v\<rparr>)"
proof -
  from rep obtain as bs where cs: "av_calls v = as @ i # bs" "cs = as @ j # bs" by (auto simp: replaced_def)
  from inv idle have none: "av_running v = []" by (auto simp: approval_inv_def runners_inv_def filter_empty_conv)
  have run: "filter (running_call (av_results v)) cs = [j]"
    using idle cs i j by (auto simp: running_call_def open_call_def filter_empty_conv)
  have fresh: "call_key i \<notin> fst ` set (av_claimed v)"
    using inv none i by (auto simp: approval_inv_def runners_inv_def open_call_def)
  have "\<not> settled_status j" using j(3) by (simp add: settled_status_def)
  moreover from inv i cs have "av_resumed v \<noteq> 1" by (auto simp: approval_inv_def results_inv_def)
  moreover from i have "call_key i \<notin> set (av_results v)" by (simp add: open_call_def)
  ultimately show ?thesis using inv cs j none run fresh full
    by (auto simp: approval_inv_def results_inv_def runners_inv_def decisions_inv_def)
qed


lemma approve_inv:
  assumes inv: "approval_inv K R P v" and rep: "replaced (av_calls v) i j cs"
    and i: "call_key i = Some c" "Some c \<notin> set (av_results v)" "ti_status i \<in> waiting_status"
    and j: "call_key j = Some c" "ti_status j = Some ''queued''" "ti_name j \<noteq> Some ''ask_user''"
  shows "approval_inv K R P (v\<lparr>av_calls := cs, av_approved := [Some c] @ av_approved v\<rparr>)"
proof -
  from rep obtain as bs where cs: "av_calls v = as @ i # bs" "cs = as @ j # bs" by (auto simp: replaced_def)
  have st: "\<not> settled_status j" "\<not> running_call (av_results v) j" "\<not> running_call (av_results v) i" "open_call (av_results v) i"
    using i j by (auto simp: settled_status_def running_call_def open_call_def waiting_status_def)
  from cs st have run: "filter (running_call (av_results v)) cs = filter (running_call (av_results v)) (av_calls v)" by simp
  from inv st cs have "av_resumed v \<noteq> 1" by (auto simp: approval_inv_def results_inv_def)
  then show ?thesis using inv cs i j st run
    by (auto simp: approval_inv_def results_inv_def runners_inv_def decisions_inv_def)
qed

text \<open>A call that gets its result: its key is new among the results, and no other call has it.\<close>

lemma distinct_keys_other:
  assumes "distinct (map call_key (as @ i # bs))" and "x \<in> set as \<or> x \<in> set bs"
  shows "call_key x \<noteq> call_key i"
  using assms by (auto simp: image_iff)

lemma settle_inv:
  assumes inv: "approval_inv K R P v" and cs: "av_calls v = as @ i # bs"
    and i: "call_key i = k" "k \<notin> set (av_results v)" and j: "call_key j = k" "settled_status j"
  shows "results_inv K R P (v\<lparr>av_calls := as @ j # bs, av_results := av_results v @ [k], av_resumed := n\<rparr>)
    \<longleftrightarrow> n \<le> 1 \<and> (n = 1 \<longrightarrow> filter (open_call (av_results v @ [k])) (as @ j # bs) = [])"
    and "filter (running_call (av_results v @ [k])) (as @ j # bs) = filter (running_call (av_results v)) (as @ bs)"
proof -
  from inv have K: "map call_key (av_calls v) = K" "distinct K" by (auto simp: approval_inv_def results_inv_def)
  from inv obtain new where new: "av_results v = R @ new" "distinct new" "set new \<inter> set R = {}" "set new \<subseteq> set K"
    by (auto simp: approval_inv_def results_inv_def)
  have "k \<in> set K" using K(1) cs i(1) by auto
  with new i(2) have "\<exists>new'. av_results v @ [k] = R @ new' \<and> distinct new' \<and> set new' \<inter> set R = {} \<and> set new' \<subseteq> set K"
    by (intro exI [of _ "new @ [k]"]) auto
  moreover have "map call_key (as @ j # bs) = K" using K(1) cs i(1) j(1) by simp
  moreover have "\<forall>x \<in> set (as @ j # bs). call_key x \<in> P \<longrightarrow> call_key x \<in> set (av_results v @ [k]) \<or> \<not> settled_status x"
    using inv cs j(1) by (auto simp: approval_inv_def results_inv_def)
  ultimately show "results_inv K R P (v\<lparr>av_calls := as @ j # bs, av_results := av_results v @ [k], av_resumed := n\<rparr>)
    \<longleftrightarrow> n \<le> 1 \<and> (n = 1 \<longrightarrow> filter (open_call (av_results v @ [k])) (as @ j # bs) = [])"
    by (simp add: results_inv_def)
  have "distinct (map call_key (as @ i # bs))" using K cs by metis
  then have "call_key x \<noteq> k" if "x \<in> set as \<or> x \<in> set bs" for x
    using distinct_keys_other [OF _ that] i(1) by metis
  then have "filter (running_call (av_results v @ [k])) as = filter (running_call (av_results v)) as"
    and "filter (running_call (av_results v @ [k])) bs = filter (running_call (av_results v)) bs"
    by (auto intro!: filter_cong simp: running_call_def)
  moreover have "\<not> running_call (av_results v @ [k]) j" using j(1) by (simp add: running_call_def)
  ultimately show "filter (running_call (av_results v @ [k])) (as @ j # bs) = filter (running_call (av_results v)) (as @ bs)" by simp
qed

lemma decline_inv:
  assumes inv: "approval_inv K R P v" and rep: "replaced (av_calls v) i j cs"
    and i: "call_key i = Some c" "Some c \<notin> set (av_results v)" "ti_status i \<in> waiting_status"
    and j: "call_key j = Some c" "settled_status j" "\<not> ti_approved j"
  shows "approval_inv K R P (v\<lparr>av_calls := cs, av_results := av_results v @ [Some c], av_declined := [Some c] @ av_declined v\<rparr>)"
    and "av_resumed v = 0"
proof -
  from rep obtain as bs where cs: "av_calls v = as @ i # bs" "cs = as @ j # bs" by (auto simp: replaced_def)
  have st: "\<not> running_call (av_results v) i" "open_call (av_results v) i"
    using i by (auto simp: running_call_def open_call_def waiting_status_def)
  from inv st(2) cs show resumed: "av_resumed v = 0" by (auto simp: approval_inv_def results_inv_def le_Suc_eq)
  have res: "results_inv K R P (v\<lparr>av_calls := cs, av_results := av_results v @ [Some c]\<rparr>)"
    using settle_inv(1) [OF inv cs(1) i(1,2) j(1,2), of 0] cs(2) resumed
    by (simp add: results_inv_def)
  have run: "filter (running_call (av_results v @ [Some c])) cs = av_running v"
    using settle_inv(2) [OF inv cs(1) i(1,2) j(1,2)] cs st(1) inv by (simp add: approval_inv_def runners_inv_def)
  have "call_key x \<noteq> Some c" if "x \<in> set (av_running v)" for x
  proof -
    from that inv st(1) cs have "x \<in> set as \<or> x \<in> set bs" by (auto simp: approval_inv_def runners_inv_def)
    moreover from inv cs have "distinct (map call_key (as @ i # bs))" by (simp add: approval_inv_def results_inv_def)
    ultimately show ?thesis using distinct_keys_other i(1) by metis
  qed
  then have new: "Some c \<notin> fst ` set (av_claimed v)" using inv i(2) by (fastforce simp: approval_inv_def runners_inv_def)
  let ?v = "v\<lparr>av_calls := cs, av_results := av_results v @ [Some c], av_declined := [Some c] @ av_declined v\<rparr>"
  have "results_inv K R P ?v" using res by (simp add: results_inv_def)
  moreover have "runners_inv ?v" using inv run by (auto simp: approval_inv_def runners_inv_def)
  moreover have "decisions_inv ?v" using inv new cs j(3) by (auto simp: approval_inv_def decisions_inv_def)
  ultimately show "approval_inv K R P ?v" using inv by (simp add: approval_inv_def)
qed

lemma complete_inv:
  assumes inv: "approval_inv K R P v" and rep: "replaced (av_calls v) x j cs" and x: "av_running v = [x]"
    and j: "call_key j = call_key x" "settled_status j"
  shows "approval_inv K R P (v\<lparr>av_calls := cs, av_results := av_results v @ [call_key x], av_running := []\<rparr>)"
    and "av_resumed v = 0"
proof -
  let ?v = "v\<lparr>av_calls := cs, av_results := av_results v @ [call_key x], av_running := []\<rparr>"
  from rep obtain as bs where cs: "av_calls v = as @ x # bs" "cs = as @ j # bs" by (auto simp: replaced_def)
  have run: "filter (running_call (av_results v)) (as @ x # bs) = [x]" using inv x cs by (simp add: approval_inv_def runners_inv_def)
  have "x \<in> set (filter (running_call (av_results v)) (as @ x # bs))" unfolding run by simp
  then have rx: "running_call (av_results v) x" by (simp only: set_filter mem_Collect_eq)
  then have new: "call_key x \<notin> set (av_results v)" and op: "open_call (av_results v) x"
    by (simp_all add: running_call_def open_call_def)
  from inv op cs show resumed: "av_resumed v = 0" by (auto simp: approval_inv_def results_inv_def le_Suc_eq)
  have "results_inv K R P ?v"
    using settle_inv(1) [OF inv cs(1) refl new j, of 0] cs(2) resumed by (simp add: results_inv_def)
  moreover have "filter (running_call (av_results v)) (as @ bs) = []"
    using run rx by (cases "filter (running_call (av_results v)) as") auto
  then have "filter (running_call (av_results v @ [call_key x])) cs = []"
    using settle_inv(2) [OF inv cs(1) refl new j] cs(2) by metis
  then have "runners_inv ?v" using inv x by (auto simp: approval_inv_def runners_inv_def)
  moreover have "decisions_inv ?v" using inv cs j(1) by (auto simp: approval_inv_def decisions_inv_def)
  ultimately show "approval_inv K R P ?v" using inv by (simp add: approval_inv_def)
qed

lemma resume_inv:
  "approval_inv K R P v \<Longrightarrow> filter (open_call (av_results v)) (av_calls v) = [] \<Longrightarrow> approval_inv K R P (v\<lparr>av_resumed := 1\<rparr>)"
  by (auto simp: approval_inv_def results_inv_def runners_inv_def decisions_inv_def)

subsection \<open>Reachable states\<close>

definition view_of :: "approval_system \<Rightarrow> approval_view" where
  "view_of sys = \<lparr>av_calls = calls_of (as_message sys), av_results = results_of (as_message sys), av_running = as_running sys,
     av_claimed = as_claimed sys, av_approved = as_approved sys, av_declined = as_declined sys, av_resumed = as_resumed sys\<rparr>"

lemma view_of_simps [simp]:
  "av_calls (view_of sys) = calls_of (as_message sys)" "av_results (view_of sys) = results_of (as_message sys)"
  "av_running (view_of sys) = as_running sys" "av_claimed (view_of sys) = as_claimed sys"
  "av_approved (view_of sys) = as_approved sys" "av_declined (view_of sys) = as_declined sys" "av_resumed (view_of sys) = as_resumed sys"
  by (simp_all add: view_of_def)

lemma claims_inv:
  assumes "approval_inv K R P (view_of sys)"
  shows "approval_inv K R P (view_of (runner_claims full sys))"
proof (cases "claim_tool_call full (as_message sys)")
  case (Inr r)
  obtain io m where r: "claim_tool_call full (as_message sys) = Inr (io, m)" using Inr by (cases r) auto
  show ?thesis
  proof (cases io)
    case None
    with r have e: "claim_tool_call full (as_message sys) = Inr (None, m)" by simp
    have "view_of (runner_claims full sys) = (view_of sys)\<lparr>av_calls := calls_of m\<rparr>"
      using claim_none [OF e] e by (simp add: runner_claims_def view_of_def)
    then show ?thesis using nudge_inv [OF assms, of "calls_of m"] claim_none [OF e] by simp
  next
    case (Some j)
    with r have e: "claim_tool_call full (as_message sys) = Inr (Some j, m)" by simp
    obtain i where i: "replaced (calls_of (as_message sys)) i j (calls_of m)" "results_of m = results_of (as_message sys)"
        "open_call (results_of (as_message sys)) i"
        "\<And>x. x \<in> set (calls_of (as_message sys)) \<Longrightarrow> \<not> running_call (results_of (as_message sys)) x"
        "call_key j = call_key i" "ti_call_id j = call_key i" "ti_status j = Some ''in_progress''"
        "ti_approved j = ti_approved i" "ti_name j = ti_name i" "ti_approved i \<or> full"
      by (rule claim_some [OF e]) blast
    have "view_of (runner_claims full sys) = (view_of sys)\<lparr>av_calls := calls_of m, av_running := as_running sys @ [j],
        av_claimed := (ti_call_id j, full) # as_claimed sys\<rparr>"
      using i(2) e by (simp add: runner_claims_def view_of_def)
    then show ?thesis using claim_inv [OF assms, of i j "calls_of m" full] i by simp
  qed
qed (use assms in \<open>simp add: runner_claims_def\<close>)

lemma decides_inv:
  assumes inv: "approval_inv K R P (view_of sys)"
  shows "approval_inv K R P (view_of (user_decides dumps allowed c action u sys))"
proof (cases "resolve_tool_call_output dumps u allowed c action (as_message sys)")
  case (Inr x)
  let ?sys = "user_decides dumps allowed c action u sys"
  obtain r m where e: "resolve_tool_call_output dumps u allowed c action (as_message sys) = Inr (r, m)" using Inr by (cases x) auto
  from resolve_effect [OF e] obtain i j cs where rep: "replaced (av_calls (view_of sys)) i j cs"
    and ij: "call_key i = Some c" "call_key j = Some c" "Some c \<notin> set (av_results (view_of sys))" "ti_status i \<in> waiting_status"
    and app: "action = Approve \<Longrightarrow> results_of m = results_of (as_message sys) \<and> calls_of m = cs \<and> ti_approved j
       \<and> ti_status j = Some ''queued'' \<and> ti_name j \<noteq> Some ''ask_user'' \<and> r \<noteq> Some Resume_model"
    and dec: "action \<noteq> Approve \<Longrightarrow> results_of m = results_of (as_message sys) @ [Some c] \<and> settled_status j \<and> \<not> ti_approved j
       \<and> nudged (results_of m) cs (calls_of m)"
    and res: "r = Some Resume_model \<Longrightarrow> filter (open_call (results_of m)) (calls_of m) = []"
    by (metis view_of_simps(1,2))
  show ?thesis
  proof (cases "action = Approve")
    case True
    have "view_of ?sys = (view_of sys)\<lparr>av_calls := cs, av_approved := [Some c] @ as_approved sys\<rparr>"
      using True app [OF True] e by (simp add: user_decides_def view_of_def)
    then show ?thesis using approve_inv [OF inv rep ij(1,3,4,2)] app [OF True] by simp
  next
    case False
    note d = dec [OF False]
    let ?v = "(view_of sys)\<lparr>av_calls := cs, av_results := results_of m, av_declined := [Some c] @ as_declined sys\<rparr>"
    have "approval_inv K R P ?v" and zero: "as_resumed sys = 0"
      using decline_inv [OF inv rep ij(1,3,4,2)] d by simp_all
    moreover from d have n: "nudged (results_of m) cs (calls_of m)" by blast
    ultimately have step: "approval_inv K R P (?v\<lparr>av_calls := calls_of m\<rparr>)" by (intro nudge_inv) (simp_all add: n)
    have "view_of ?sys = (if r = Some Resume_model then (?v\<lparr>av_calls := calls_of m\<rparr>)\<lparr>av_resumed := 1\<rparr> else ?v\<lparr>av_calls := calls_of m\<rparr>)"
      using False e zero by (simp add: user_decides_def view_of_def)
    then show ?thesis using step resume_inv [OF step] res by simp
  qed
qed (use inv in \<open>simp add: user_decides_def\<close>)

text \<open>The runner of a call can always store its result.\<close>

lemma same_key_same_call: "distinct (map call_key cs) \<Longrightarrow> x \<in> set cs \<Longrightarrow> y \<in> set cs \<Longrightarrow> call_key x = call_key y \<Longrightarrow> x = y"
  by (auto simp: distinct_map inj_on_def)

lemma running_is_call:
  assumes inv: "approval_inv K R P (view_of sys)" and x: "as_running sys = [x]"
  shows "x \<in> set (calls_of (as_message sys))" and "running_call (results_of (as_message sys)) x" and "is_call x"
    and "ti_call_id x = call_key x" and "call_key x \<noteq> None" and "call_key x \<noteq> Some []"
    and "\<And>y. y \<in> set (calls_of (as_message sys)) \<Longrightarrow> running_call (results_of (as_message sys)) y \<Longrightarrow> y = x"
proof -
  from inv have run: "[x] = filter (running_call (results_of (as_message sys))) (calls_of (as_message sys))"
    and key: "ti_call_id x = call_key x" and K: "map call_key (calls_of (as_message sys)) = K" "None \<notin> set K" "Some [] \<notin> set K"
    by (auto simp: approval_inv_def runners_inv_def results_inv_def x)
  have "x \<in> set (filter (running_call (results_of (as_message sys))) (calls_of (as_message sys)))" unfolding run [symmetric] by simp
  then show x: "x \<in> set (calls_of (as_message sys))" and "running_call (results_of (as_message sys)) x" and "is_call x"
    by (simp_all add: calls_of_def)
  show "ti_call_id x = call_key x" by (rule key)
  from x K show "call_key x \<noteq> None" "call_key x \<noteq> Some []" by (metis image_eqI image_set)+
  show "y = x" if "y \<in> set (calls_of (as_message sys))" "running_call (results_of (as_message sys)) y" for y
  proof -
    from that have "y \<in> set (filter (running_call (results_of (as_message sys))) (calls_of (as_message sys)))" by simp
    then show ?thesis unfolding run [symmetric] by simp
  qed
qed

lemma complete_accepted:
  assumes inv: "approval_inv K R P (view_of sys)" and x: "as_running sys = [x]" and call: "ti_call_id call = ti_call_id x"
  obtains out m where "complete_tool_call u call result (as_message sys) = Inr (out, m)"
proof -
  let ?out = "tm_output (as_message sys)"
  let ?here = "\<lambda>i. is_pending ?out i \<and> ti_call_id i = ti_call_id call"
  note r = running_is_call [OF inv x]
  from r(1,2) call have "?here x" "x \<in> set ?out"
    by (simp_all add: is_pending_open calls_of_def results_of_def running_call_def open_call_def)
  then obtain y where y: "find ?here ?out = Some y" using find_None_iff [of ?here ?out] by (cases "find ?here ?out") auto
  from find_Some [OF this] have hy: "?here y" "y \<in> set ?out" by simp_all
  from hy call r(4) have "ti_call_id y = call_key x" by metis
  with r(5,6) have "call_key y = call_key x" by (simp add: call_key_def [of y])
  moreover have "y \<in> set (calls_of (as_message sys))" using hy by (simp add: calls_of_def is_pending_open)
  moreover have "distinct (map call_key (calls_of (as_message sys)))" using inv by (simp add: approval_inv_def results_inv_def)
  ultimately have "y = x" using same_key_same_call r(1) by blast
  moreover have "complete_tool_call u call result (as_message sys) \<noteq> Inl e" for e
    using y calculation r(2) by (auto simp: complete_tool_call_def running_call_def Let_def)
  ultimately show ?thesis using that by (cases "complete_tool_call u call result (as_message sys)") auto
qed

lemma completes_effect:
  assumes inv: "approval_inv K R P (view_of sys)" and x: "as_running sys = [x]"
  obtains m cs where "replaced (calls_of (as_message sys)) x (set_status (run_status status) x) cs"
    and "results_of m = results_of (as_message sys) @ [call_key x]" and "nudged (results_of m) cs (calls_of m)"
    and "runner_completes 0 status i text u sys = sys\<lparr>as_message := m, as_running := [], as_resumed := as_resumed sys
      + (if run_status status \<noteq> ''incomplete'' \<and> filter (open_call (results_of m)) (calls_of m) = [] then 1 else 0)\<rparr>"
proof -
  note r = running_is_call [OF inv x]
  let ?s = "run_status status"
  let ?call = "set_status ?s x"
  let ?result = "result_item (Some i) (ti_call_id ?call) ?s text"
  obtain out m where e: "complete_tool_call u ?call ?result (as_message sys) = Inr (out, m)"
    using complete_accepted [OF inv x] by (metis set_status_simps(3))
  have s: "Some ?s \<notin> insert (Some ''in_progress'') waiting_status" by (auto simp: run_status_def waiting_status_def)
  have only: "call_key y = ti_call_id ?call" if "y \<in> set (calls_of (as_message sys))" "running_call (results_of (as_message sys)) y" for y
    using r(4) r(7) [OF that] by simp
  from complete_effect [OF e _ _ _ _ only] r(3) s obtain y cs where rep: "replaced (calls_of (as_message sys)) y ?call cs"
    and y: "ti_call_id y = ti_call_id ?call" "running_call (results_of (as_message sys)) y"
    and ids: "results_of m = results_of (as_message sys) @ [ti_call_id ?call]" and nudge: "nudged (results_of m) cs (calls_of m)"
    and out: "tm_output m = out" by (metis append_result_simps(2,3) set_status_simps(1,4))
  from rep have "y \<in> set (calls_of (as_message sys))" by (auto simp: replaced_def)
  with r(7) y(2) rep have rep_x: "replaced (calls_of (as_message sys)) x ?call cs" by metis
  have ids_x: "results_of m = results_of (as_message sys) @ [call_key x]" using ids r(4) by simp
  have "after_call True out = Runner_model \<longleftrightarrow> filter (open_call (results_of m)) (calls_of m) = []"
    by (auto simp: after_call_def Let_def pending_calls out [symmetric] results_of_def calls_of_def)
  then have "runner_completes 0 status i text u sys = sys\<lparr>as_message := m, as_running := [], as_resumed := as_resumed sys
      + (if ?s \<noteq> ''incomplete'' \<and> filter (open_call (results_of m)) (calls_of m) = [] then 1 else 0)\<rparr>"
    using e by (simp add: runner_completes_def x Let_def)
  with rep_x ids_x nudge show ?thesis by (rule that)
qed

lemma completes_inv:
  assumes inv: "approval_inv K R P (view_of sys)"
  shows "approval_inv K R P (view_of (runner_completes n status i text u sys))"
proof (cases "n < length (as_running sys)")
  case True
  from inv have "length (as_running sys) \<le> 1" by (auto simp: approval_inv_def runners_inv_def)
  with True obtain x where x: "as_running sys = [x]" and n: "n = 0" by (cases "as_running sys") auto
  let ?call = "set_status (run_status status) x"
  obtain m cs where rep: "replaced (calls_of (as_message sys)) x ?call cs"
    and ids: "results_of m = results_of (as_message sys) @ [call_key x]" and nudge: "nudged (results_of m) cs (calls_of m)"
    and ends: "runner_completes 0 status i text u sys = sys\<lparr>as_message := m, as_running := [], as_resumed := as_resumed sys
      + (if run_status status \<noteq> ''incomplete'' \<and> filter (open_call (results_of m)) (calls_of m) = [] then 1 else 0)\<rparr>"
    by (rule completes_effect [OF inv x]) blast
  let ?v = "(view_of sys)\<lparr>av_calls := cs, av_results := results_of m, av_running := []\<rparr>"
  have "settled_status ?call" by (auto simp: settled_status_def run_status_def waiting_status_def)
  then have "approval_inv K R P ?v" and zero: "as_resumed sys = 0"
    using complete_inv [OF inv, of x ?call cs] rep ids x by simp_all
  then have step: "approval_inv K R P (?v\<lparr>av_calls := calls_of m\<rparr>)" by (intro nudge_inv) (simp_all add: nudge)
  let ?resumes = "run_status status \<noteq> ''incomplete'' \<and> filter (open_call (results_of m)) (calls_of m) = []"
  have "view_of (runner_completes n status i text u sys)
      = (if ?resumes then (?v\<lparr>av_calls := calls_of m\<rparr>)\<lparr>av_resumed := 1\<rparr> else ?v\<lparr>av_calls := calls_of m\<rparr>)"
    unfolding n ends using zero by (simp add: view_of_def)
  then show ?thesis using step resume_inv [OF step] by simp
qed (use inv in \<open>simp add: runner_completes_def\<close>)

lemma exec_inv:
  "approval_inv K R P (view_of sys) \<Longrightarrow> approval_inv K R P (view_of (exec_approval dumps step sys))"
  by (cases step) (simp_all add: decides_inv claims_inv completes_inv)

lemma fold_exec_inv:
  "approval_inv K R P (view_of sys) \<Longrightarrow> approval_inv K R P (view_of (fold (exec_approval dumps) steps sys))"
  by (induction steps arbitrary: sys) (simp_all add: exec_inv)

end
