(* ===== verification/Tool_Safety.thy ===== *)
theory Tool_Safety
  imports Tool_Runs
begin

text \<open>
  What the approval of tool calls guarantees, from the moment a reply is paused: calls run with
  consent and once, every call gets at most one result, the model is started again once and only when
  every call has its result, and no reply is stuck.
\<close>

subsection \<open>The paused reply\<close>

text \<open>
  The calls of the reply have keys and the keys differ; a call that was approved earlier has its result.
\<close>

definition pausable :: "tool_item list \<Rightarrow> bool" where
  "pausable output \<longleftrightarrow> (let calls = filter is_call output; keys = map call_key calls
     in distinct keys \<and> None \<notin> set keys \<and> Some [] \<notin> set keys
        \<and> list_all (\<lambda>i. ti_approved i \<longrightarrow> call_key i \<in> set (result_ids output)) calls)"

text \<open>Pausing writes the id and the status of calls; a call without a result is left in no status of a runner.\<close>

definition paused_as :: "string option set \<Rightarrow> tool_item \<Rightarrow> tool_item \<Rightarrow> bool" where
  "paused_as rs i j \<longleftrightarrow> is_call j = is_call i \<and> is_result j = is_result i \<and> call_key j = call_key i \<and> ti_approved j = ti_approved i
     \<and> (is_result i \<longrightarrow> ti_call_id j = ti_call_id i)
     \<and> (is_call i \<and> call_key i \<noteq> None \<and> call_key i \<noteq> Some [] \<and> call_key i \<notin> rs \<longrightarrow> ti_status j \<noteq> Some ''in_progress'')"

lemma paused_as_status:
  "s \<noteq> ''in_progress'' \<Longrightarrow> paused_as rs i (set_status s i)"
  by (simp add: paused_as_def set_status_def call_key_def is_call_def is_result_def)

lemma paused_as_self: "\<not> is_call i \<or> call_key i = None \<or> call_key i = Some [] \<or> call_key i \<in> rs \<or> ti_status i \<noteq> Some ''in_progress'' \<Longrightarrow> paused_as rs i i"
  by (auto simp: paused_as_def)

lemma paused_as_named:
  assumes "paused_as rs (i\<lparr>ti_call_id := ti_id i\<rparr>) j" and "is_call i" and "ti_call_id i = None \<or> ti_call_id i = Some []"
  shows "paused_as rs i j"
proof -
  have "call_key (i\<lparr>ti_call_id := ti_id i\<rparr>) = call_key i" using assms(3) by (auto simp: call_key_def)
  moreover have "\<not> is_result i" using assms(2) by (simp add: is_call_def is_result_def)
  ultimately show ?thesis using assms(1) by (simp add: paused_as_def is_call_def is_result_def)
qed

lemma pause_items_paused: "list_all2 (paused_as rs) xs (pause_items rs h xs)"
proof (induction xs arbitrary: h)
  case (Cons i xs)
  let ?named = "is_call i \<and> (ti_call_id i = None \<or> ti_call_id i = Some []) \<and> ti_id i \<noteq> None \<and> ti_id i \<noteq> Some []"
  define k where "k = (if ?named then i\<lparr>ti_call_id := ti_id i\<rparr> else i)"
  let ?waits = "is_call k \<and> ti_call_id k \<noteq> None \<and> ti_call_id k \<noteq> Some [] \<and> ti_call_id k \<notin> rs \<and> ti_status k \<noteq> Some ''rejected''"
  have lift: "paused_as rs k j \<Longrightarrow> paused_as rs i j" for j
    using paused_as_named [of rs i j] by (auto simp: k_def split: if_splits)
  have keep: "\<not> is_call k \<or> call_key k = None \<or> call_key k = Some [] \<or> call_key k \<in> rs \<or> ti_status k \<noteq> Some ''in_progress''" if "\<not> ?waits"
    using that by (auto simp: k_def call_key_def is_call_def split: if_splits)
  have "pause_items rs h (i # xs) = (if ?waits
      then if \<not> h then set_status ''pending'' k # pause_items rs True xs
           else if ti_status k = Some ''in_progress'' \<or> ti_status k = Some ''completed'' then set_status ''queued'' k # pause_items rs h xs
           else k # pause_items rs h xs
      else k # pause_items rs h xs)" by (simp only: pause_items.simps Let_def k_def)
  then show ?case
    using Cons.IH lift keep paused_as_self [of k rs] by (auto simp: paused_as_status)
qed simp

lemma pause_items_keeps:
  "map call_key (filter is_call (pause_items rs h xs)) = map call_key (filter is_call xs)"
  "result_ids (pause_items rs h xs) = result_ids xs"
proof -
  have "list_all2 (paused_as rs) xs ys \<Longrightarrow> map call_key (filter is_call ys) = map call_key (filter is_call xs) \<and> result_ids ys = result_ids xs" for ys
    by (induction xs ys rule: list_all2_induct) (auto simp: paused_as_def result_ids_def)
  with pause_items_paused show "map call_key (filter is_call (pause_items rs h xs)) = map call_key (filter is_call xs)"
    and "result_ids (pause_items rs h xs) = result_ids xs" by blast+
qed

lemma pause_items_from: "j \<in> set (pause_items rs h xs) \<Longrightarrow> \<exists>i \<in> set xs. paused_as rs i j"
  using pause_items_paused [of rs xs h] by (metis list_all2_conv_all_nth in_set_conv_nth)

definition waiting_keys :: "tool_item list \<Rightarrow> string option list" where
  "waiting_keys output = map call_key (pending_tool_calls (tm_output (pause_for_tool_approval output)))"

lemma start_inv:
  assumes "pausable output"
  shows "approval_inv (map call_key (filter is_call output)) (result_ids output) (set (waiting_keys output))
    (view_of (start_approval (pause_for_tool_approval output)))"
proof -
  let ?K = "map call_key (filter is_call output)"
  let ?m = "pause_for_tool_approval output"
  let ?rs = "{c \<in> set (result_ids output). c \<noteq> None \<and> c \<noteq> Some []}"
  have m: "tm_output ?m = pause_items ?rs False output" by (simp add: pause_for_tool_approval_def)
  from assms have K: "distinct ?K" "None \<notin> set ?K" "Some [] \<notin> set ?K"
    and old: "\<And>i. i \<in> set output \<Longrightarrow> is_call i \<Longrightarrow> ti_approved i \<Longrightarrow> call_key i \<in> set (result_ids output)"
    unfolding pausable_def by (simp_all add: Let_def list_all_iff)
  have keys: "map call_key (calls_of ?m) = ?K" and ids: "results_of ?m = result_ids output"
    by (simp_all add: calls_of_def results_of_def m pause_items_keeps)
  have key: "call_key i \<noteq> None" "call_key i \<noteq> Some []" if "i \<in> set (calls_of ?m)" for i
    using that K(2,3) keys by (metis image_eqI image_set)+
  have made: "\<exists>j \<in> set output. paused_as ?rs j i" if "i \<in> set (calls_of ?m)" for i
    using that pause_items_from [of i ?rs False "output"] by (auto simp: calls_of_def m)
  have idle: "\<not> running_call (results_of ?m) i" if "i \<in> set (calls_of ?m)" for i
    using that key [OF that] made [OF that] by (auto simp: running_call_def ids calls_of_def paused_as_def)
  have approved: "call_key i \<in> set (results_of ?m)" if i: "i \<in> set (calls_of ?m)" "ti_approved i" for i
  proof -
    from made [OF i(1)] obtain j where j: "j \<in> set output" "paused_as ?rs j i" by blast
    with i have "is_call j" "ti_approved j" "call_key j = call_key i" by (auto simp: paused_as_def calls_of_def)
    with old [OF j(1)] show ?thesis by (simp add: ids)
  qed
  have waits: "call_key i \<in> set (results_of ?m) \<or> \<not> settled_status i"
    if i: "i \<in> set (calls_of ?m)" and w: "call_key i \<in> set (waiting_keys output)" for i
  proof -
    from w obtain j where j: "j \<in> set (calls_of ?m)" "open_call (results_of ?m) j" "call_key j = call_key i"
      by (auto simp: waiting_keys_def pending_calls calls_of_def results_of_def)
    with i K(1) keys have "j = i" by (metis same_key_same_call)
    with j(2) show ?thesis by (simp add: open_settled)
  qed
  have none: "filter (running_call (results_of ?m)) (calls_of ?m) = []" using idle by (simp add: filter_empty_conv)
  have "results_inv ?K (result_ids output) (set (waiting_keys output)) (view_of (start_approval ?m))"
    using waits keys ids by (auto simp: results_inv_def start_approval_def)
  moreover have "runners_inv (view_of (start_approval ?m))" using none by (simp add: runners_inv_def start_approval_def)
  moreover have "decisions_inv (view_of (start_approval ?m))" using approved by (auto simp: decisions_inv_def start_approval_def)
  ultimately show ?thesis using K by (simp add: approval_inv_def)
qed

lemma run_inv:
  "pausable output \<Longrightarrow> approval_inv (map call_key (filter is_call output)) (result_ids output) (set (waiting_keys output))
     (view_of (run_approval dumps (pause_for_tool_approval output) steps))"
  unfolding run_approval_def by (intro fold_exec_inv start_inv)

subsection \<open>Consent\<close>

text \<open>
  (C9) However decisions, runners and their completions interleave after a reply was paused, every
  tool call is started at most once, a call is started only if the user approved it before or its
  request runs in mode \<open>full\<close>, a call the user rejected or answered is never started, at most one
  runner is at work on the reply, and every call gets at most one result, which no step removes.
\<close>

theorem tool_calls_need_consent:
  assumes "pausable output"
  shows "distinct (map fst (as_claimed (run_approval dumps (pause_for_tool_approval output) steps)))
    \<and> (\<forall>c full. (c, full) \<in> set (as_claimed (run_approval dumps (pause_for_tool_approval output) steps))
         \<longrightarrow> full \<or> c \<in> set (as_approved (run_approval dumps (pause_for_tool_approval output) steps)))
    \<and> set (as_declined (run_approval dumps (pause_for_tool_approval output) steps))
        \<inter> fst ` set (as_claimed (run_approval dumps (pause_for_tool_approval output) steps)) = {}
    \<and> length (as_running (run_approval dumps (pause_for_tool_approval output) steps)) \<le> 1
    \<and> (\<exists>new. result_ids (tm_output (as_message (run_approval dumps (pause_for_tool_approval output) steps))) = result_ids output @ new
         \<and> distinct new \<and> set new \<inter> set (result_ids output) = {})"
proof -
  let ?sys = "run_approval dumps (pause_for_tool_approval output) steps"
  from run_inv [OF assms, of dumps steps]
  have res: "results_inv (map call_key (filter is_call output)) (result_ids output) (set (waiting_keys output)) (view_of ?sys)"
    and run: "runners_inv (view_of ?sys)" and dec: "decisions_inv (view_of ?sys)" by (simp_all add: approval_inv_def)
  show ?thesis
  proof (intro conjI)
    show "distinct (map fst (as_claimed ?sys))" using run by (simp add: runners_inv_def)
    show "\<forall>c full. (c, full) \<in> set (as_claimed ?sys) \<longrightarrow> full \<or> c \<in> set (as_approved ?sys)"
      using dec by (auto simp: decisions_inv_def)
    show "set (as_declined ?sys) \<inter> fst ` set (as_claimed ?sys) = {}" using dec by (auto simp: decisions_inv_def)
    show "length (as_running ?sys) \<le> 1" using run by (auto simp: runners_inv_def)
    show "\<exists>new. result_ids (tm_output (as_message ?sys)) = result_ids output @ new \<and> distinct new \<and> set new \<inter> set (result_ids output) = {}"
      using res by (auto simp: results_inv_def results_of_def)
  qed
qed

text \<open>
  (C24) The model is started again at most once after a pause, and when it is, every call that waited
  at the pause has its result.
\<close>

theorem model_resumed_once:
  assumes "pausable output"
  shows "as_resumed (run_approval dumps (pause_for_tool_approval output) steps) \<le> 1
    \<and> (as_resumed (run_approval dumps (pause_for_tool_approval output) steps) = 1
       \<longrightarrow> set (waiting_keys output)
           \<subseteq> set (result_ids (tm_output (as_message (run_approval dumps (pause_for_tool_approval output) steps)))))"
proof -
  let ?sys = "run_approval dumps (pause_for_tool_approval output) steps"
  from run_inv [OF assms, of dumps steps]
  have res: "results_inv (map call_key (filter is_call output)) (result_ids output) (set (waiting_keys output)) (view_of ?sys)"
    by (simp add: approval_inv_def)
  have "c \<in> set (results_of (as_message ?sys))" if r: "as_resumed ?sys = 1" and c: "c \<in> set (waiting_keys output)" for c
  proof -
    from c have "c \<in> set (map call_key (filter is_call (tm_output (pause_for_tool_approval output))))"
      by (auto simp: waiting_keys_def pending_calls)
    then have "c \<in> set (map call_key (calls_of (as_message ?sys)))"
      using res by (simp only: results_inv_def view_of_simps pause_items_keeps pause_for_tool_approval_def tool_reply.simps)
    then obtain i where i: "i \<in> set (calls_of (as_message ?sys))" "call_key i = c" by auto
    from res r i(1) have "\<not> open_call (results_of (as_message ?sys)) i" by (auto simp: results_inv_def filter_empty_conv)
    moreover from res i c have "c \<in> set (results_of (as_message ?sys)) \<or> \<not> settled_status i" by (auto simp: results_inv_def)
    ultimately show ?thesis using i(2) by (auto simp: open_settled)
  qed
  with res show ?thesis by (auto simp: results_inv_def results_of_def)
qed


subsection \<open>Progress\<close>

text \<open>The number of calls that wait for a decision or a result goes down to zero.\<close>

definition waiting_calls :: "approval_system \<Rightarrow> nat" where
  "waiting_calls sys = length (pending_tool_calls (tm_output (as_message sys)))"

lemma waiting_calls_open:
  "waiting_calls sys = length (filter (open_call (results_of (as_message sys))) (calls_of (as_message sys)))"
  by (simp add: waiting_calls_def pending_calls results_of_def calls_of_def)

lemma settle_count:
  assumes "replaced cs i j cs'" and "distinct (map call_key cs)" and "open_call rs i" and "call_key j = call_key i"
  shows "length (filter (open_call rs) cs) = Suc (length (filter (open_call (rs @ [call_key i])) cs'))"
proof -
  from assms(1) obtain as bs where cs: "cs = as @ i # bs" "cs' = as @ j # bs" by (auto simp: replaced_def)
  have other: "call_key x \<noteq> call_key i" if "x \<in> set as \<or> x \<in> set bs" for x
    using distinct_keys_other [OF _ that] assms(2) cs(1) by blast
  then have "filter (open_call (rs @ [call_key i])) as = filter (open_call rs) as"
    and "filter (open_call (rs @ [call_key i])) bs = filter (open_call rs) bs"
    by (auto intro!: filter_cong simp: open_call_def)
  moreover have "\<not> open_call (rs @ [call_key i]) j" using assms(4) by (simp add: open_call_def)
  ultimately show ?thesis using assms(3) by (simp add: cs)
qed

lemma distinct_calls: "approval_inv K R P (view_of sys) \<Longrightarrow> distinct (map call_key (calls_of (as_message sys)))"
  by (simp add: approval_inv_def results_inv_def)

lemma waiting_not_resumed: "approval_inv K R P (view_of sys) \<Longrightarrow> waiting_calls sys \<noteq> 0 \<Longrightarrow> as_resumed sys = 0"
  by (auto simp: approval_inv_def results_inv_def waiting_calls_open le_Suc_eq)

lemma no_runner_idle:
  "approval_inv K R P (view_of sys) \<Longrightarrow> as_running sys = [] \<Longrightarrow> x \<in> set (calls_of (as_message sys))
   \<Longrightarrow> \<not> running_call (results_of (as_message sys)) x"
  by (auto simp: approval_inv_def runners_inv_def empty_filter_conv)

lemma completing_progresses:
  assumes inv: "approval_inv K R P (view_of sys)" and x: "as_running sys = [x]"
  shows "waiting_calls sys = Suc (waiting_calls (runner_completes 0 ''completed'' i w u sys))
    \<and> (waiting_calls (runner_completes 0 ''completed'' i w u sys) = 0 \<longrightarrow> as_resumed (runner_completes 0 ''completed'' i w u sys) = 1)"
proof -
  have s: "run_status ''completed'' = ''completed''" by (simp add: run_status_def)
  obtain m cs where rep: "replaced (calls_of (as_message sys)) x (set_status ''completed'' x) cs"
    and ids: "results_of m = results_of (as_message sys) @ [call_key x]" and nudge: "nudged (results_of m) cs (calls_of m)"
    and ends: "runner_completes 0 ''completed'' i w u sys = sys\<lparr>as_message := m, as_running := [], as_resumed := as_resumed sys
      + (if filter (open_call (results_of m)) (calls_of m) = [] then 1 else 0)\<rparr>"
    by (rule completes_effect [OF inv x, of "''completed''" i w u, unfolded s]) simp
  have "open_call (results_of (as_message sys)) x"
    using running_is_call(2) [OF inv x] by (simp add: running_call_def open_call_def)
  from settle_count [OF rep distinct_calls [OF inv] this] nudged_count [OF nudge]
  have count: "waiting_calls sys = Suc (length (filter (open_call (results_of m)) (calls_of m)))"
    by (simp add: waiting_calls_open ids)
  then have "as_resumed sys = 0" using waiting_not_resumed [OF inv] by simp
  with count show ?thesis unfolding ends by (simp add: waiting_calls_open)
qed

lemma approved_is_claimed:
  assumes inv: "approval_inv K R P (view_of sys)" and none: "as_running sys = []"
    and i: "i \<in> set (calls_of (as_message sys))" "open_call (results_of (as_message sys)) i" "ti_approved i"
  obtains j where "as_running (runner_claims False sys) = [j]" and "waiting_calls (runner_claims False sys) = waiting_calls sys"
proof -
  let ?m = "as_message sys"
  let ?out = "tm_output ?m"
  from inv none have idle: "\<And>x. x \<in> set (calls_of ?m) \<Longrightarrow> \<not> running_call (results_of ?m) x"
    by (rule no_runner_idle)
  then have "\<not> list_ex (\<lambda>i. ti_status i = Some ''in_progress'') (pending_tool_calls ?out)"
    by (auto simp: running_pending calls_of_def results_of_def)
  moreover from inv i have "ti_name i \<noteq> Some ''ask_user''" by (auto simp: approval_inv_def decisions_inv_def open_call_def)
  with i have "claimable False ?out i" "i \<in> set ?out" by (simp_all add: claimable_def is_pending_open calls_of_def results_of_def)
  then obtain x where x: "find (claimable False ?out) ?out = Some x"
    using find_None_iff [of "claimable False ?out" ?out] by (cases "find (claimable False ?out) ?out") auto
  then have "claimable False ?out x" "x \<in> set ?out" using find_Some [OF x] by simp_all
  then have "x \<in> set (calls_of ?m)" by (simp add: claimable_def is_pending_open calls_of_def)
  then have "call_key x \<in> set K" using inv by (auto simp: approval_inv_def results_inv_def)
  with inv obtain k where "call_key x = Some k" by (cases "call_key x") (auto simp: approval_inv_def)
  ultimately obtain j m where e: "claim_tool_call False ?m = Inr (Some j, m)" using x by (simp add: claim_tool_call_def Let_def)
  then have run: "runner_claims False sys = sys\<lparr>as_message := m, as_running := [j], as_claimed := (ti_call_id j, False) # as_claimed sys\<rparr>"
    by (simp add: runner_claims_def none)
  obtain y where y: "replaced (calls_of ?m) y j (calls_of m)" "results_of m = results_of ?m" "open_call (results_of ?m) y"
      "call_key j = call_key y" "ti_status j = Some ''in_progress''"
    by (rule claim_some [OF e]) blast
  then have "open_call (results_of ?m) j" by (simp add: open_call_def)
  with y have "waiting_calls (runner_claims False sys) = waiting_calls sys"
    unfolding run by (auto simp: waiting_calls_open replaced_def)
  with run that show ?thesis by simp
qed

lemma rejecting_progresses:
  assumes inv: "approval_inv K R P (view_of sys)" and none: "as_running sys = []"
    and quiet: "\<And>x. x \<in> set (calls_of (as_message sys)) \<Longrightarrow> open_call (results_of (as_message sys)) x \<Longrightarrow> \<not> ti_approved x"
    and i: "i \<in> set (calls_of (as_message sys))" "open_call (results_of (as_message sys)) i" "call_key i = Some c"
  shows "waiting_calls sys = Suc (waiting_calls (user_decides dumps True c Reject u sys))
    \<and> (waiting_calls (user_decides dumps True c Reject u sys) = 0 \<longrightarrow> as_resumed (user_decides dumps True c Reject u sys) = 1)"
proof -
  let ?m = "as_message sys"
  let ?here = "\<lambda>i. is_call i \<and> call_key i = Some c"
  from inv none have idle: "\<And>x. x \<in> set (calls_of ?m) \<Longrightarrow> \<not> running_call (results_of ?m) x"
    by (rule no_runner_idle)
  from i have "?here i" "i \<in> set (tm_output ?m)" by (simp_all add: calls_of_def)
  then obtain x where x: "find ?here (tm_output ?m) = Some x"
    using find_None_iff [of ?here "tm_output ?m"] by (cases "find ?here (tm_output ?m)") auto
  from find_Some [OF x] have "x \<in> set (calls_of ?m)" "call_key x = Some c" by (simp_all add: calls_of_def)
  with i have "x = i" using same_key_same_call [OF distinct_calls [OF inv]] by metis
  have free: "Some c \<notin> set (result_ids (tm_output ?m))" "ti_status i \<in> waiting_status" "\<not> ti_approved i"
    using i quiet [OF i(1,2)] idle [OF i(1)] by (auto simp: open_call_def running_call_def results_of_def)
  have "resolve_tool_call_output dumps u True c Reject ?m \<noteq> Inl e" for e
    using x \<open>x = i\<close> free by (simp add: resolve_tool_call_output_def decide_def Let_def split: prod.splits)
  then obtain r m where e: "resolve_tool_call_output dumps u True c Reject ?m = Inr (r, m)"
    by (cases "resolve_tool_call_output dumps u True c Reject ?m") auto
  have quiet': "\<forall>x \<in> set (calls_of ?m). open_call (results_of ?m) x \<longrightarrow> \<not> ti_approved x \<and> \<not> running_call (results_of ?m) x"
    using quiet idle by blast
  obtain y j cs where y: "replaced (calls_of ?m) y j cs" "call_key y = Some c" "call_key j = Some c" "Some c \<notin> set (results_of ?m)"
      "ti_status y \<in> waiting_status" "results_of m = results_of ?m @ [Some c]" "nudged (results_of m) cs (calls_of m)"
    and r: "filter (open_call (results_of m)) (calls_of m) = [] \<Longrightarrow> r = Some Resume_model"
    by (rule resolve_effect [OF e]) (use quiet' in blast)
  have "open_call (results_of ?m) y" using y by (simp add: open_call_def)
  from settle_count [OF y(1) distinct_calls [OF inv] this] nudged_count [OF y(7)] y(2,3,6)
  have count: "waiting_calls sys = Suc (length (filter (open_call (results_of m)) (calls_of m)))" by (simp add: waiting_calls_open)
  then have zero: "as_resumed sys = 0" using waiting_not_resumed [OF inv] by simp
  have "user_decides dumps True c Reject u sys = sys\<lparr>as_message := m, as_declined := [Some c] @ as_declined sys,
      as_resumed := as_resumed sys + (if r = Some Resume_model then 1 else 0)\<rparr>"
    by (simp add: user_decides_def e)
  with count r zero show ?thesis by (simp add: waiting_calls_open)
qed

lemma approval_progresses:
  assumes inv: "approval_inv K R P (view_of sys)" and waits: "waiting_calls sys \<noteq> 0"
  obtains more where "length more \<le> 2" and "waiting_calls sys = Suc (waiting_calls (fold (exec_approval dumps) more sys))"
    and "waiting_calls (fold (exec_approval dumps) more sys) = 0 \<longrightarrow> as_resumed (fold (exec_approval dumps) more sys) = 1"
proof (cases "as_running sys")
  case (Cons x xs)
  with inv have x: "as_running sys = [x]" by (auto simp: approval_inv_def runners_inv_def)
  show ?thesis
    by (rule that [of "[Runner_completes 0 ''completed'' [] [] []]"]) (use completing_progresses [OF inv x] in simp_all)
next
  case Nil
  show ?thesis
  proof (cases "\<exists>i \<in> set (calls_of (as_message sys)). open_call (results_of (as_message sys)) i \<and> ti_approved i")
    case True
    then obtain i where "i \<in> set (calls_of (as_message sys))" "open_call (results_of (as_message sys)) i" "ti_approved i" by blast
    from approved_is_claimed [OF inv Nil this] obtain j where j: "as_running (runner_claims False sys) = [j]"
      and same: "waiting_calls (runner_claims False sys) = waiting_calls sys" by blast
    from completing_progresses [OF claims_inv [OF inv] j] same show ?thesis
      by (intro that [of "[Runner_claims False, Runner_completes 0 ''completed'' [] [] []]"]) simp_all
  next
    case False
    from waits obtain i where i: "i \<in> set (calls_of (as_message sys))" "open_call (results_of (as_message sys)) i"
      by (auto simp: waiting_calls_open filter_empty_conv)
    then have "call_key i \<in> set K" using inv by (auto simp: approval_inv_def results_inv_def)
    with inv obtain c where c: "call_key i = Some c" by (cases "call_key i") (auto simp: approval_inv_def)
    have "\<And>x. x \<in> set (calls_of (as_message sys)) \<Longrightarrow> open_call (results_of (as_message sys)) x \<Longrightarrow> \<not> ti_approved x" using False by blast
    from rejecting_progresses [OF inv Nil this i c] show ?thesis
      by (intro that [of "[User_decides True c Reject []]"]) simp_all
  qed
qed

lemma approval_finishes:
  assumes "approval_inv K R P (view_of sys)" and "waiting_calls sys = n" and "n \<noteq> 0"
  shows "\<exists>more. length more \<le> 2 * n \<and> waiting_calls (fold (exec_approval dumps) more sys) = 0
    \<and> as_resumed (fold (exec_approval dumps) more sys) = 1"
  using assms
proof (induction n arbitrary: sys)
  case (Suc n)
  from Suc.prems obtain more where more: "length more \<le> 2" "n = waiting_calls (fold (exec_approval dumps) more sys)"
    "n = 0 \<longrightarrow> as_resumed (fold (exec_approval dumps) more sys) = 1"
    by (metis approval_progresses nat.inject)
  show ?case
  proof (cases "n = 0")
    case True
    with more show ?thesis by (intro exI [of _ more]) simp
  next
    case False
    from Suc.IH [OF fold_exec_inv [OF Suc.prems(1)] more(2) [symmetric] False] obtain rest
      where rest: "length rest \<le> 2 * n" "waiting_calls (fold (exec_approval dumps) rest (fold (exec_approval dumps) more sys)) = 0"
        "as_resumed (fold (exec_approval dumps) rest (fold (exec_approval dumps) more sys)) = 1" by blast
    with more(1) show ?thesis by (intro exI [of _ "more @ rest"]) simp
  qed
qed simp



subsection \<open>An example\<close>

definition demo_tool_call :: "string \<Rightarrow> string \<Rightarrow> tool_item" where
  "demo_tool_call c name = \<lparr>ti_type = ''function_call'', ti_id = None, ti_call_id = Some c, ti_name = Some name,
     ti_status = Some ''completed'', ti_approved = False, ti_text = []\<rparr>"

definition demo_calls :: "tool_item list" where
  "demo_calls = [demo_tool_call ''c1'' ''search'', demo_tool_call ''c2'' ''ask_user'', demo_tool_call ''c3'' ''fetch'']"

definition demo_dumps :: "py \<Rightarrow> string" where
  "demo_dumps p = []"

definition demo_decisions :: "approval_step list" where
  "demo_decisions = [User_decides True ''c1'' Approve ''u1'', Runner_claims False, Runner_claims False,
     User_decides True ''c2'' (Answer (Some (PDict [])) False) ''u2'', Runner_completes 0 ''completed'' ''r1'' ''found'' ''u3'']"

definition demo_rejection :: "approval_step list" where
  "demo_rejection = demo_decisions @ [User_decides True ''c3'' Reject ''u4'']"

lemma demo_pausable: "pausable demo_calls"
  by code_simp

lemma demo_claimed:
  "as_claimed (run_approval demo_dumps (pause_for_tool_approval demo_calls) demo_rejection) = [(Some ''c1'', False)]"
  "as_resumed (run_approval demo_dumps (pause_for_tool_approval demo_calls) demo_rejection) = 1"
  by code_simp+

lemma demo_waiting:
  "map call_key (pending_tool_calls (tm_output (as_message (run_approval demo_dumps (pause_for_tool_approval demo_calls) demo_decisions))))
   = [Some ''c3'']"
  by code_simp

theorem tool_calls_need_consent_witness:
  "pausable demo_calls
   \<and> as_claimed (run_approval demo_dumps (pause_for_tool_approval demo_calls) demo_rejection) = [(Some ''c1'', False)]
   \<and> Some ''c1'' \<in> set (as_approved (run_approval demo_dumps (pause_for_tool_approval demo_calls) demo_rejection))"
  using tool_calls_need_consent [OF demo_pausable, of demo_dumps demo_rejection] demo_claimed demo_pausable by auto

theorem model_resumed_once_witness:
  "pausable demo_calls
   \<and> as_resumed (run_approval demo_dumps (pause_for_tool_approval demo_calls) demo_rejection) = 1
   \<and> set (waiting_keys demo_calls)
       \<subseteq> set (result_ids (tm_output (as_message (run_approval demo_dumps (pause_for_tool_approval demo_calls) demo_rejection))))"
  using model_resumed_once [OF demo_pausable, of demo_dumps demo_rejection] demo_claimed demo_pausable by blast


end
