(* ===== verification/Compaction.thy ===== *)
theory Compaction
  imports Messages
begin

text \<open>
  Context compaction, \<^verbatim>\<open>utils/context_compaction.py\<close>: older messages of a chat are replaced by a summary.
  The configuration, the estimate of tokens, the cut, the request and the branch that is compacted by
  hand. The language model that writes the summary, with the prompt it is given, is a parameter, and so
  is the JSON codec; events are left out.
\<close>

subsection \<open>Configuration\<close>

text \<open>\<open>int(value)\<close> where a failure is caught.\<close>

definition parse_positive_int :: "py \<Rightarrow> int option" where
  "parse_positive_int v = (case to_int v of Some i \<Rightarrow> if i > 0 then Some i else None | None \<Rightarrow> None)"

definition clamp_retention_percentage :: "py \<Rightarrow> int" where
  "clamp_retention_percentage v = min 50 (max 10 (case to_int v of Some i \<Rightarrow> i | None \<Rightarrow> 40))"

definition int_or :: "int option \<Rightarrow> int \<Rightarrow> int" where
  "int_or v d = (case v of Some i \<Rightarrow> i | None \<Rightarrow> d)"

record compaction_config =
  cc_enable :: bool
  cc_token_threshold :: int
  cc_token_cap :: int
  cc_retention_percentage :: int

definition load_config :: "pydict \<Rightarrow> compaction_config" where
  "load_config values =
     (let token_threshold = int_or (parse_positive_int (pget values ''chat.context_compaction.token_threshold'')) 80000
      in \<lparr>cc_enable = truthy (pget values ''chat.context_compaction.enable''),
          cc_token_threshold = token_threshold,
          cc_token_cap = int_or (parse_positive_int (pget values ''chat.context_compaction.token_cap'')) token_threshold,
          cc_retention_percentage = clamp_retention_percentage (pget values ''chat.context_compaction.retention_percentage'')\<rparr>)"

definition resolve_token_threshold :: "int \<Rightarrow> int \<Rightarrow> pydict \<Rightarrow> int result" where
  "resolve_token_threshold global_threshold global_cap metadata =
     bind_result (dict_of (py_or (pget metadata ''params'') (PDict []))) (\<lambda>params.
       Inr (min (int_or (parse_positive_int (pget params ''compact_token_threshold'')) global_threshold) global_cap))"

subsection \<open>Tokens\<close>

record compaction_env =
  ce_dumps :: "py \<Rightarrow> string"
  ce_to_str :: "py \<Rightarrow> string"

definition estimate_tokens :: "compaction_env \<Rightarrow> py \<Rightarrow> int" where
  "estimate_tokens env v =
     (if v = PNone then 0
      else let s = (case v of PStr s \<Rightarrow> s | _ \<Rightarrow> ce_dumps env v)
           in if s = [] then 0 else int (max 1 (length s div 4)))"

text \<open>
  \<open>BASE64_DATA_URI_RE.sub('', s)\<close>: the media type takes every character of its class, none of which is
  a comma, so a match ends it with \<open>;base64\<close> before the first other character.
\<close>

definition is_word :: "char \<Rightarrow> bool" where
  "is_word c \<longleftrightarrow> is_decimal_digit c \<or> c = CHR ''_'' \<or> (let n = of_char c :: nat in 65 \<le> n \<and> n \<le> 90 \<or> 97 \<le> n \<and> n \<le> 122)"

definition is_media_char :: "char \<Rightarrow> bool" where
  "is_media_char c \<longleftrightarrow> is_word c \<or> c \<in> set ''/+.;=%-''"

definition is_base64_char :: "char \<Rightarrow> bool" where
  "is_base64_char c \<longleftrightarrow> is_word c \<and> c \<noteq> CHR ''_'' \<or> c \<in> set ''+/=''"

definition after_data_uri :: "string \<Rightarrow> string option" where
  "after_data_uri s =
     (if take 5 s = ''data:''
      then let media = takeWhile is_media_char (drop 5 s); rest = dropWhile is_media_char (drop 5 s)
           in if suffix '';base64'' media \<and> rest \<noteq> [] \<and> hd rest = CHR '','' then Some (dropWhile is_base64_char (tl rest)) else None
      else None)"

lemma after_data_uri_shorter: "after_data_uri s = Some t \<Longrightarrow> length t < length s"
proof -
  assume "after_data_uri s = Some t"
  then have "take 5 s = ''data:''" "t = dropWhile is_base64_char (tl (dropWhile is_media_char (drop 5 s)))"
    by (auto simp: after_data_uri_def Let_def split: if_splits)
  moreover have "length (dropWhile is_base64_char (tl (dropWhile is_media_char (drop 5 s)))) \<le> length (drop 5 s)"
    using length_dropWhile_le [of is_base64_char "tl (dropWhile is_media_char (drop 5 s))"]
      length_dropWhile_le [of is_media_char "drop 5 s"] by simp
  moreover have "s \<noteq> []" using calculation(1) by auto
  ultimately show ?thesis by (cases s) auto
qed

function (sequential) strip_data_uris :: "string \<Rightarrow> string" where
  "strip_data_uris [] = []"
| "strip_data_uris (c # s) =
     (case after_data_uri (c # s) of Some t \<Rightarrow> strip_data_uris t | None \<Rightarrow> c # strip_data_uris s)"
  by pat_completeness auto
termination
  by (relation "measure length") (auto dest: after_data_uri_shorter)

definition content_item_tokens :: "compaction_env \<Rightarrow> py \<Rightarrow> int result" where
  "content_item_tokens env item =
     (case item of
        PDict d \<Rightarrow>
          bind_result (hash_key (pget d ''type'')) (\<lambda>t.
            Inr (if t = PStr ''image'' \<or> t = PStr ''image_url'' then 1000
                 else estimate_tokens env (py_or (pget d ''text'') (py_or (pget d ''content'') item))))
      | _ \<Rightarrow> Inr (estimate_tokens env item))"

definition message_tokens :: "compaction_env \<Rightarrow> message \<Rightarrow> int result" where
  "message_tokens env m =
     bind_result (case pget m ''content'' of
         PList items \<Rightarrow> bind_result (map_result (content_item_tokens env) items) (\<lambda>ts. Inr (sum_list ts))
       | content \<Rightarrow> Inr (estimate_tokens env content)) (\<lambda>t.
       Inr (4 + t + estimate_tokens env (pget m ''output'') + estimate_tokens env (pget m ''tool_calls'')
              + (if truthy (pget m ''files'')
                 then estimate_tokens env (PStr (strip_data_uris (ce_dumps env (pget m ''files'')))) else 0)))"

definition estimate_messages_tokens :: "compaction_env \<Rightarrow> message list \<Rightarrow> int result" where
  "estimate_messages_tokens env messages = bind_result (map_result (message_tokens env) messages) (\<lambda>ts. Inr (sum_list ts))"

text \<open>The tokens a provider reported; \<open>int\<close> raises on other texts and containers.\<close>

definition as_int :: "py \<Rightarrow> int result" where
  "as_int v = (case to_int v of Some i \<Rightarrow> Inr i | None \<Rightarrow> Inl (case v of PStr _ \<Rightarrow> ValueError ''int'' | _ \<Rightarrow> TypeError))"

fun first_truthy :: "pydict \<Rightarrow> string list \<Rightarrow> py" where
  "first_truthy d [] = PInt 0"
| "first_truthy d (k # ks) = py_or (pget d k) (first_truthy d ks)"

definition usage_token_count :: "pydict \<Rightarrow> int result" where
  "usage_token_count usage =
     bind_result (as_int (first_truthy usage [''prompt_tokens'', ''prompt_eval_count''])) (\<lambda>p.
     bind_result (if p = 0 \<and> (pget usage ''prompt_n'' \<noteq> PNone \<or> pget usage ''cache_n'' \<noteq> PNone)
                  then bind_result (as_int (first_truthy usage [''prompt_n''])) (\<lambda>a.
                       bind_result (as_int (first_truthy usage [''cache_n''])) (\<lambda>b. Inr (a + b)))
                  else Inr p) (\<lambda>p.
     bind_result (if p = 0 then as_int (first_truthy usage [''input_tokens'']) else Inr p) (\<lambda>p.
     bind_result (as_int (first_truthy usage [''completion_tokens'', ''output_tokens'', ''eval_count'', ''predicted_n''])) (\<lambda>c.
       Inr (p + c)))))"

definition reported_tokens :: "message \<Rightarrow> int result" where
  "reported_tokens m =
     bind_result (if truthy (pget m ''usage'') then Inr (pget m ''usage'')
                  else bind_result (dict_of (py_or (pget m ''info'') (PDict []))) (\<lambda>info. Inr (pget info ''usage''))) (\<lambda>usage.
       case usage of PDict d \<Rightarrow> usage_token_count d | _ \<Rightarrow> Inr 0)"

text \<open>
  The latest message with a reported usage, with the estimate of the messages after it. The list is
  taken from its end, \<open>after\<close> are the messages that were passed.
\<close>

fun reported_loop :: "compaction_env \<Rightarrow> message list \<Rightarrow> message list \<Rightarrow> int option result" where
  "reported_loop env [] after = Inr None"
| "reported_loop env (m # ms) after =
     bind_result (reported_tokens m) (\<lambda>t.
       if t \<noteq> 0 then bind_result (estimate_messages_tokens env after) (\<lambda>e. Inr (Some (t + e)))
       else reported_loop env ms (m # after))"

definition exceeds_token_threshold :: "compaction_env \<Rightarrow> message list \<Rightarrow> py \<Rightarrow> py \<Rightarrow> int \<Rightarrow> bool result" where
  "exceeds_token_threshold env messages system_prompt summary threshold =
     (if threshold \<le> 0 then Inr False
      else bind_result (reported_loop env (rev messages) []) (\<lambda>reported. case reported of
             Some t \<Rightarrow> Inr (t > threshold)
           | None \<Rightarrow>
               bind_result (estimate_messages_tokens env messages) (\<lambda>e.
                 Inr (estimate_tokens env system_prompt + estimate_tokens env (py_or summary (PStr []))
                        + e > threshold))))"


subsection \<open>Checkpoints\<close>

text \<open>\<open>next((item for item in items if ...), None)\<close> with \<open>.get\<close> on the items before the first match.\<close>

fun find_item :: "(pydict \<Rightarrow> bool result) \<Rightarrow> py list \<Rightarrow> nat \<Rightarrow> (nat \<times> pydict) option result" where
  "find_item P [] n = Inr None"
| "find_item P (x # xs) n =
     bind_result (dict_of x) (\<lambda>d. bind_result (P d) (\<lambda>b. if b then Inr (Some (n, d)) else find_item P xs (Suc n)))"

definition message_output :: "message \<Rightarrow> py list result" where
  "message_output m = py_iter (py_or (pget m ''output'') (PList []))"

definition latest_marker :: "message \<Rightarrow> pydict option result" where
  "latest_marker m =
     bind_result (message_output m) (\<lambda>items.
       bind_result (find_item (\<lambda>d. Inr (has_type ''open_webui:context_compaction'' d)) (rev items) 0) (\<lambda>r.
         Inr (map_option snd r)))"

definition subscript :: "pydict \<Rightarrow> string \<Rightarrow> py result" where
  "subscript d k = (case map_of d k of Some v \<Rightarrow> Inr v | None \<Rightarrow> Inl KeyError)"

text \<open>The first call of the marker in the output of a message, and the start of its batch.\<close>

definition marked_call :: "pydict \<Rightarrow> py list \<Rightarrow> nat option result" where
  "marked_call marker items =
     bind_result (find_item (\<lambda>d.
       if has_type ''function_call'' d
       then bind_result (subscript marker ''call_id'') (\<lambda>c. Inr (py_eq (pget d ''call_id'') c)) else Inr False) items 0) (\<lambda>r.
       Inr (map_option fst r))"

definition item_has_type :: "string \<Rightarrow> py \<Rightarrow> bool" where
  "item_has_type t item = (case item of PDict d \<Rightarrow> has_type t d | _ \<Rightarrow> False)"

fun batch_start :: "py list \<Rightarrow> nat \<Rightarrow> nat" where
  "batch_start items 0 = 0"
| "batch_start items (Suc n) = (if item_has_type ''function_call_output'' (items ! n) then Suc n else batch_start items n)"

text \<open>
  The loop over \<open>cut_idx\<close>: the messages up to the one with the marker are taken from their end,
  \<open>after\<close> are those behind. The items from the cut on must all be dicts.
\<close>

fun cut_loop :: "pydict \<Rightarrow> message list \<Rightarrow> message list \<Rightarrow> message list option result" where
  "cut_loop marker [] after = Inr None"
| "cut_loop marker (m # ms) after =
     bind_result (message_output m) (\<lambda>items.
     bind_result (marked_call marker items) (\<lambda>start. case start of
         None \<Rightarrow> cut_loop marker ms (m # after)
       | Some n \<Rightarrow>
           bind_result (map_result dict_of (drop n items)) (\<lambda>_.
             let kept = filter (\<lambda>item. \<not> item_has_type ''open_webui:context_compaction'' item) (drop (batch_start items n) items)
             in Inr (Some (rev (take 1 ms) @ AList.update ''output'' (PList kept) m # after)))))"

definition summary_of :: "message \<Rightarrow> string option" where
  "summary_of m = (case py_or (pget m ''contextSummary'') (pget m ''context_summary'') of
     PStr s \<Rightarrow> if py_strip s \<noteq> [] then Some s else None | _ \<Rightarrow> None)"

fun checkpoint_loop :: "message list \<Rightarrow> message list \<Rightarrow> (message list \<times> py) result" where
  "checkpoint_loop [] after = Inr (after, PNone)"
| "checkpoint_loop (m # ms) after =
     (case summary_of m of
        Some s \<Rightarrow> Inr (m # after, PStr s)
      | None \<Rightarrow>
          bind_result (latest_marker m) (\<lambda>marker. case marker of
              None \<Rightarrow> checkpoint_loop ms (m # after)
            | Some d \<Rightarrow>
                bind_result (cut_loop d (m # ms) after) (\<lambda>cut. case cut of
                    None \<Rightarrow> checkpoint_loop ms (m # after)
                  | Some messages \<Rightarrow> bind_result (subscript d ''summary'') (\<lambda>s. Inr (messages, s)))))"

definition apply_latest_summary_checkpoint :: "message list \<Rightarrow> (message list \<times> py) result" where
  "apply_latest_summary_checkpoint messages = checkpoint_loop (rev messages) []"

subsection \<open>The cut\<close>

definition indices :: "(message \<Rightarrow> bool) \<Rightarrow> message list \<Rightarrow> nat list" where
  "indices P messages = filter (\<lambda>i. P (messages ! i)) [0..<length messages]"

definition keep_count :: "message list \<Rightarrow> int \<Rightarrow> nat" where
  "keep_count messages p = max 2 (length messages * nat (clamp_retention_percentage (PInt p)) div 100)"

definition find_compaction_boundary :: "message list \<Rightarrow> int \<Rightarrow> nat" where
  "find_compaction_boundary messages p =
     (let target = max 1 (length messages - keep_count messages p);
          tools = list_ex (has_role ''tool'') messages;
          boundaries = tl (indices (if tools then calls_tools else has_role ''user'') messages);
          target = (if tools then target else max target (case boundaries of [] \<Rightarrow> 0 | b # _ \<Rightarrow> b))
      in case find (\<lambda>i. i \<le> target) (rev boundaries) of Some i \<Rightarrow> i | None \<Rightarrow> 0)"


subsection \<open>The summary\<close>

text \<open>What the model call returns: a value, or a JSON response with its body.\<close>

datatype model_response = Response_value py | Response_body string

record summary_env = compaction_env +
  se_loads :: "string \<Rightarrow> py option"
  se_models :: "(string \<times> pydict) list"
  se_compaction_model :: py
  se_complete :: "string \<Rightarrow> message list \<Rightarrow> message list \<Rightarrow> py \<Rightarrow> model_response result"

definition output_content_text :: "py \<Rightarrow> py list" where
  "output_content_text v = (case v of PDict d \<Rightarrow> [py_or (pget d ''text'') (py_or (pget d ''content'') (PStr []))] | _ \<Rightarrow> [])"

definition response_text :: "summary_env \<Rightarrow> model_response \<Rightarrow> py result" where
  "response_text env response =
     (let response = (case response of Response_value (PList [v]) \<Rightarrow> Response_value v | r \<Rightarrow> r)
      in case (case response of Response_value v \<Rightarrow> v
               | Response_body b \<Rightarrow> (case se_loads env b of Some v \<Rightarrow> v | None \<Rightarrow> PStr [])) of
           PDict d \<Rightarrow>
             (case py_or (pget d ''choices'') (PList []) of
                PList (c # _) \<Rightarrow>
                  bind_result (dict_of c) (\<lambda>c. bind_result (dict_of (py_or (pget c ''message'') (PDict []))) (\<lambda>m.
                    Inr (py_or (pget m ''content'') (py_or (pget m ''reasoning_content'') (PStr [])))))
              | PList [] \<Rightarrow>
                  bind_result (py_iter (py_or (pget d ''output'') (PList []))) (\<lambda>items.
                  bind_result (concat_result (\<lambda>item. bind_result (dict_of item) (\<lambda>i.
                    bind_result (py_iter (py_or (pget i ''content'') (PList []))) (\<lambda>cs.
                      Inr (concat (map output_content_text cs))))) items) (\<lambda>parts.
                  bind_result (map_result as_str (filter truthy parts)) (\<lambda>parts.
                    Inr (PStr (join [CHR 0x0A] parts)))))
              | PDict _ \<Rightarrow> Inl KeyError
              | PStr _ \<Rightarrow> Inl AttributeError
              | _ \<Rightarrow> Inl TypeError)
         | _ \<Rightarrow> Inr (PStr []))"

text \<open>The text of a message with its tool calls, and the lines kept where the model gave no summary.\<close>

definition with_tool_calls :: "summary_env \<Rightarrow> message \<Rightarrow> message" where
  "with_tool_calls env m =
     (if truthy (pget m ''tool_calls'')
      then AList.update ''content'' (PStr (py_str (ce_to_str env) (py_or (get_content_from_message (ce_to_str env) m) (PStr []))
             @ CHR 0x0A # ''[TOOL CALLS] '' @ ce_dumps env (pget m ''tool_calls''))) m
      else m)"

definition fallback_line :: "summary_env \<Rightarrow> message \<Rightarrow> string list result" where
  "fallback_line env m =
     (let content = get_content_from_message (ce_to_str env) m
      in if truthy content
         then bind_result (case content of PStr s \<Rightarrow> Inr (take 500 s)
                | PList xs \<Rightarrow> Inr (ce_to_str env (PList (take 500 xs))) | _ \<Rightarrow> Inl TypeError) (\<lambda>t.
                Inr [''- '' @ py_str (ce_to_str env) (dget m ''role'' (PStr ''unknown'')) @ '': '' @ t])
         else Inr [])"

definition generate_summary :: "summary_env \<Rightarrow> string \<Rightarrow> message list \<Rightarrow> message list \<Rightarrow> py \<Rightarrow> string result" where
  "generate_summary env model_id compacted recent previous =
     bind_result (hash_key (se_compaction_model env)) (\<lambda>configured.
       let task_model = (case configured of PStr s \<Rightarrow> if s \<in> fst ` set (se_models env) then s else model_id | _ \<Rightarrow> model_id)
       in if task_model \<notin> fst ` set (se_models env) then Inl (ValueError ''No available model for context compaction'')
          else let compacted = map (with_tool_calls env) compacted; recent = map (with_tool_calls env) recent
               in bind_result (se_complete env task_model compacted recent previous) (\<lambda>response.
                  bind_result (response_text env response) (\<lambda>t.
                  bind_result (case t of PStr s \<Rightarrow> Inr (py_strip s) | _ \<Rightarrow> Inl AttributeError) (\<lambda>summary.
                    if summary \<noteq> [] then Inr summary
                    else bind_result (if truthy previous then bind_result (as_str previous) (\<lambda>p. Inr [p]) else Inr []) (\<lambda>parts.
                         bind_result (concat_result (fallback_line env) compacted) (\<lambda>fall_back.
                           Inr (take 4000 (join [CHR 0x0A] (parts @ fall_back)))))))))"

subsection \<open>Compacting a request\<close>

definition NON_SAVED_CHAT_ID_PREFIXES :: "string list" where
  "NON_SAVED_CHAT_ID_PREFIXES = [''temporary:'', ''local:'', ''channel:'']"

definition is_saved_chat_id :: "string option \<Rightarrow> bool" where
  "is_saved_chat_id chat_id \<longleftrightarrow> (case chat_id of None \<Rightarrow> False
     | Some c \<Rightarrow> c \<noteq> [] \<and> \<not> list_ex (\<lambda>p. prefix p c) NON_SAVED_CHAT_ID_PREFIXES)"

record compaction_request =
  cq_bot_enabled :: bool
  cq_bot_force :: bool
  cq_metadata :: pydict
  cq_chat_id :: "string option"
  cq_model_id :: string
  cq_system_prompt :: py

text \<open>
  The messages to send, the summary, whether the request compacted, and the message whose
  \<open>contextSummary\<close> it stored.
\<close>

definition compact_messages_for_request ::
  "summary_env \<Rightarrow> compaction_config \<Rightarrow> compaction_request \<Rightarrow> message list \<Rightarrow> (message list \<times> py \<times> bool \<times> (py \<times> string) option) result" where
  "compact_messages_for_request env config req messages =
     (if \<not> cc_enable config \<and> \<not> cq_bot_enabled req then Inr (messages, PNone, False, None)
      else let sys = (case messages of m # _ \<Rightarrow> if has_role ''system'' m then [m] else [] | [] \<Rightarrow> []);
               messages = drop (length sys) messages
           in bind_result (apply_latest_summary_checkpoint messages) (\<lambda>(messages, previous).
              let prompt = py_or (cq_system_prompt req) (case sys of m # _ \<Rightarrow> get_content_from_message (ce_to_str env) m | [] \<Rightarrow> PStr [])
              in bind_result (resolve_token_threshold (cc_token_threshold config) (cc_token_cap config) (cq_metadata req)) (\<lambda>threshold.
                 bind_result (exceeds_token_threshold (compaction_env.truncate env) messages prompt previous threshold) (\<lambda>exceeds.
                   if \<not> (exceeds \<or> cq_bot_force req) then Inr (sys @ messages, previous, False, None)
                   else let boundary = find_compaction_boundary messages (cc_retention_percentage config);
                            compacted = take boundary messages; recent = drop boundary messages
                        in if compacted = [] \<or> recent = [] then Inr (sys @ messages, previous, False, None)
                           else bind_result (generate_summary env (cq_model_id req) compacted recent previous) (\<lambda>summary.
                             let checkpoint = py_or (pget (hd recent) ''id'') (py_or (pget (cq_metadata req) ''user_message_id'')
                                                (pget (cq_metadata req) ''message_id''))
                             in Inr (sys @ recent, PStr summary, True,
                                  if has_role ''user'' (hd recent) \<and> is_saved_chat_id (cq_chat_id req) \<and> truthy checkpoint
                                  then Some (checkpoint, summary) else None))))))"


subsection \<open>Compacting a branch by hand\<close>

definition branch_current_id :: "py \<Rightarrow> pydict \<Rightarrow> py result" where
  "branch_current_id current_message_id chat_data =
     bind_result (dict_of (py_or (pget chat_data ''history'') (PDict []))) (\<lambda>history.
       let c = py_or current_message_id (pget history ''currentId'');
           c = (if truthy c then c else py_or (pget chat_data ''currentId'') (pget chat_data ''branchPointMessageId''))
       in if truthy c then Inr c
          else case pget chat_data ''messages'' of
                 PList ms \<Rightarrow> if ms = [] then Inr c else bind_result (dict_of (last ms)) (\<lambda>m. Inr (pget m ''id''))
               | _ \<Rightarrow> Inr c)"

text \<open>The stored messages of the chat, or those in its history.\<close>

definition branch_messages :: "pydict \<Rightarrow> pydict \<Rightarrow> py \<Rightarrow> message list result" where
  "branch_messages db_messages chat_data current_id =
     bind_result (if db_messages \<noteq> [] then Inr db_messages
                  else bind_result (dict_of (py_or (pget chat_data ''history'') (PDict []))) (\<lambda>history.
                       dict_of (py_or (pget history ''messages'') (PDict [])))) (\<lambda>messages_map.
       get_message_list messages_map current_id)"

datatype branch_outcome = Branch_disabled | Branch_empty | Branch_too_short | Branch_compacted nat nat nat

definition compact_chat_branch ::
  "summary_env \<Rightarrow> compaction_config \<Rightarrow> pydict \<Rightarrow> pydict \<Rightarrow> py \<Rightarrow> string \<Rightarrow> (branch_outcome \<times> (py \<times> string) option) result" where
  "compact_chat_branch env config db_messages chat_data current_message_id model_id =
     (if \<not> cc_enable config then Inr (Branch_disabled, None)
      else bind_result (branch_current_id current_message_id chat_data) (\<lambda>current_id.
        if \<not> truthy current_id then Inr (Branch_empty, None)
        else bind_result (branch_messages db_messages chat_data current_id) (\<lambda>messages.
             bind_result (apply_latest_summary_checkpoint messages) (\<lambda>(messages, previous).
               let compacted = butlast messages; recent = drop (length messages - 1) messages
               in if compacted = [] \<or> recent = [] then Inr (Branch_too_short, None)
                  else bind_result (generate_summary env model_id compacted recent previous) (\<lambda>summary.
                    Inr (Branch_compacted (length compacted) (length recent) (length summary), Some (current_id, summary)))))))"

text \<open>\<open>round\<close>, and the tokens shown for a chat; \<open>fl\<close> rounds to a float.\<close>

definition py_round :: "rat \<Rightarrow> int" where
  "py_round x = (let f = \<lfloor>x\<rfloor>; d = x - of_int f in if d < 1/2 \<or> d = 1/2 \<and> even f then f else f + 1)"

record context_usage =
  cu_tokens :: int
  cu_threshold :: int
  cu_percent :: int

definition build_context_usage :: "(rat \<Rightarrow> rat) \<Rightarrow> int \<Rightarrow> int \<Rightarrow> context_usage" where
  "build_context_usage fl tokens threshold =
     \<lparr>cu_tokens = tokens, cu_threshold = threshold,
      cu_percent = (if threshold > 0 then py_round (fl (fl (of_int tokens / of_int threshold) * 100)) else 0)\<rparr>"

definition get_chat_context_usage ::
  "compaction_env \<Rightarrow> (rat \<Rightarrow> rat) \<Rightarrow> compaction_config \<Rightarrow> pydict \<Rightarrow> pydict \<Rightarrow> py \<Rightarrow> string option \<Rightarrow> context_usage option result" where
  "get_chat_context_usage env fl config db_messages chat_data current_message_id model_id =
     bind_result (branch_current_id current_message_id chat_data) (\<lambda>current_id.
       if \<not> truthy current_id then Inr None
       else bind_result (branch_messages db_messages chat_data current_id) (\<lambda>messages.
         if messages = [] \<or> \<not> cc_enable config then Inr None
         else bind_result (dict_of (py_or (pget chat_data ''params'') (PDict []))) (\<lambda>params.
              let params = (case model_id of Some m \<Rightarrow> if m \<noteq> [] then AList.update ''model'' (PStr m) params else params | None \<Rightarrow> params)
              in bind_result (resolve_token_threshold (cc_token_threshold config) (cc_token_cap config) [(''params'', PDict params)]) (\<lambda>threshold.
                 bind_result (apply_latest_summary_checkpoint messages) (\<lambda>(messages, previous).
                 bind_result (reported_loop env (rev messages) []) (\<lambda>reported.
                 bind_result (case reported of Some t \<Rightarrow> Inr t
                     | None \<Rightarrow> bind_result (estimate_messages_tokens env messages) (\<lambda>e.
                         Inr (estimate_tokens env (py_or previous (PStr [])) + e))) (\<lambda>tokens.
                   Inr (Some (build_context_usage fl tokens threshold)))))))))"

subsection \<open>Checkpoints without markers\<close>

text \<open>Messages as the history keeps them outside a tool loop: none carries a marker.\<close>

definition unmarked :: "message \<Rightarrow> bool" where
  "unmarked m \<longleftrightarrow> (case latest_marker m of Inr None \<Rightarrow> True | _ \<Rightarrow> False)"

lemma unmarkedD [simp]: "unmarked m \<Longrightarrow> latest_marker m = Inr None"
  by (simp add: unmarked_def split: sum.splits option.splits)

lemma checkpoint_loop_skip:
  "(\<And>m. m \<in> set ms \<Longrightarrow> unmarked m \<and> summary_of m = None) \<Longrightarrow> checkpoint_loop (rev ms @ rest) after = checkpoint_loop rest (ms @ after)"
  by (induction ms arbitrary: after rule: rev_induct) simp_all

lemma apply_checkpoint_at:
  assumes "summary_of m = Some s" and "\<And>x. x \<in> set ms \<Longrightarrow> unmarked x \<and> summary_of x = None"
  shows "apply_latest_summary_checkpoint (old @ m # ms) = Inr (m # ms, PStr s)"
  using checkpoint_loop_skip [of ms "m # rev old" "[]"] assms by (simp add: apply_latest_summary_checkpoint_def)

lemma apply_checkpoint_none:
  assumes "\<And>x. x \<in> set ms \<Longrightarrow> unmarked x \<and> summary_of x = None"
  shows "apply_latest_summary_checkpoint ms = Inr (ms, PNone)"
  using checkpoint_loop_skip [of ms "[]" "[]"] assms by (simp add: apply_latest_summary_checkpoint_def)

lemma applied_suffix:
  assumes "\<And>x. x \<in> set ms \<Longrightarrow> unmarked x" and "apply_latest_summary_checkpoint ms = Inr (new, previous)"
  shows "\<exists>old. ms = old @ new \<and> (\<forall>x \<in> set (tl new). summary_of x = None) \<and> (old \<noteq> [] \<longrightarrow> new \<noteq> [] \<and> summary_of (hd new) \<noteq> None)"
proof (cases "\<exists>x \<in> set ms. summary_of x \<noteq> None")
  case True
  then obtain old m newer where ms: "ms = old @ m # newer" "summary_of m \<noteq> None" "\<forall>x \<in> set newer. summary_of x = None"
    using split_list_last_prop [of ms "\<lambda>x. summary_of x \<noteq> None"] by blast
  then obtain s where s: "summary_of m = Some s" by blast
  from apply_checkpoint_at [OF s, of newer old] ms assms have "new = m # newer" by simp
  with ms show ?thesis by auto
next
  case False
  with assms apply_checkpoint_none [of ms] have "new = ms" by auto
  with False show ?thesis by (intro exI [of _ "[]"]) (cases ms; auto)
qed

subsection \<open>The cut keeps turns and pairs together\<close>

lemma takeWhile_stop: "\<not> P y \<Longrightarrow> takeWhile P (xs @ y # ys) = takeWhile P xs \<and> dropWhile P (xs @ y # ys) = dropWhile P xs @ y # ys"
  by (induction xs) auto

lemma strictly_paired_split:
  "strictly_paired (xs @ y # ys) \<Longrightarrow> \<not> has_role ''tool'' y \<Longrightarrow> strictly_paired xs \<and> strictly_paired (y # ys)"
proof (induction xs rule: strictly_paired.induct)
  case (2 m xs)
  note stop = takeWhile_stop [of "has_role ''tool''" y xs ys, OF 2(4)]
  show ?case
  proof (cases "calls_tools m")
    case True
    with 2(3) stop have "strictly_paired (dropWhile (has_role ''tool'') xs @ y # ys)"
      and "answered m (takeWhile (has_role ''tool'') xs)" and "\<not> has_role ''tool'' m" by simp_all
    with 2(1) [OF True] 2(4) True show ?thesis by simp
  next
    case False
    with 2(3) have "strictly_paired (xs @ y # ys)" "\<not> has_role ''tool'' m" by simp_all
    with 2(2) [OF False] 2(4) False show ?thesis by simp
  qed
qed simp

lemma sorted_indices: "sorted (indices P ms)" and distinct_indices: "distinct (indices P ms)"
  by (simp_all add: indices_def sorted_wrt_filter)

lemma tl_indices:
  assumes "i \<in> set (tl (indices P ms))"
  shows "0 < i" and "i < length ms" and "P (ms ! i)" and "hd (indices P ms) < i"
proof -
  from assms obtain j js where ind: "indices P ms = j # js" "i \<in> set js" by (cases "indices P ms") auto
  with sorted_indices [of P ms] distinct_indices [of P ms] show lt: "hd (indices P ms) < i" by (auto simp: less_le)
  then show "0 < i" by simp
  from ind have "i \<in> set (indices P ms)" by simp
  then show "i < length ms" "P (ms ! i)" by (simp_all add: indices_def)
qed

lemma first_later_index:
  assumes "indices P ms = a # b # bs"
  shows "length (filter P (take b ms)) = 1"
proof -
  have b: "b < length ms" using tl_indices(2) [of b P ms] assms by simp
  have "[0..<length ms] = [0..<b] @ [b..<length ms]" using b by (metis le0 less_imp_le upt_add_eq_append le_add_diff_inverse)
  then have split: "a # b # bs = filter (\<lambda>i. P (ms ! i)) [0..<b] @ filter (\<lambda>i. P (ms ! i)) [b..<length ms]"
    using assms by (simp add: indices_def)
  have "filter (\<lambda>i. P (ms ! i)) [0..<b] = [a]"
  proof (cases "filter (\<lambda>i. P (ms ! i)) [0..<b]")
    case Nil
    with split have "a \<in> set [b..<length ms]" by (metis append_Nil filter_is_subset list.set_intros(1) subsetD)
    moreover have "a < b" using tl_indices(4) [of b P ms] assms by simp
    ultimately show ?thesis by simp
  next
    case (Cons x xs)
    show ?thesis
    proof (cases xs)
      case (Cons y ys)
      with \<open>filter _ [0..<b] = x # xs\<close> split have "b \<in> set [0..<b]" by (metis append_Cons filter_is_subset list.inject list.set_intros subsetD)
      then show ?thesis by simp
    qed (use Cons split in simp)
  qed
  moreover have "length (filter P (take b ms)) = length (filter (\<lambda>i. P (ms ! i)) [0..<b])"
  proof -
    have "take b ms = map ((!) ms) [0..<b]" using b by (simp add: list_eq_iff_nth_eq)
    then show ?thesis by (simp add: filter_map o_def)
  qed
  ultimately show ?thesis by simp
qed

definition has_tools :: "message list \<Rightarrow> bool" where
  "has_tools ms \<longleftrightarrow> list_ex (has_role ''tool'') ms"

lemma boundary_mem:
  assumes "find_compaction_boundary ms p = b" and "b \<noteq> 0"
  shows "b \<in> set (tl (indices (if has_tools ms then calls_tools else has_role ''user'') ms))"
  using assms find_Some by (fastforce simp: find_compaction_boundary_def has_tools_def Let_def split: option.splits)

lemma boundary_turn:
  assumes "find_compaction_boundary ms p = b" and "b \<noteq> 0"
  shows "b < length ms" and "if has_tools ms then calls_tools (ms ! b) else has_role ''user'' (ms ! b)"
    and "\<not> has_role ''tool'' (ms ! b)"
proof -
  note b = tl_indices [OF boundary_mem [OF assms]]
  from b(2) show "b < length ms" .
  from b(3) show turn: "if has_tools ms then calls_tools (ms ! b) else has_role ''user'' (ms ! b)" by (simp split: if_splits)
  then show "\<not> has_role ''tool'' (ms ! b)" by (auto simp: calls_tools_def has_role_def split: if_splits)
qed

lemma boundary_pairs:
  assumes "strictly_paired ms"
  shows "strictly_paired (take (find_compaction_boundary ms p) ms) \<and> strictly_paired (drop (find_compaction_boundary ms p) ms)"
proof (cases "find_compaction_boundary ms p = 0")
  case False
  note b = boundary_turn [OF refl False]
  then have "ms = take (find_compaction_boundary ms p) ms @ ms ! find_compaction_boundary ms p # drop (Suc (find_compaction_boundary ms p)) ms"
    by (simp add: id_take_nth_drop)
  with assms b(3) strictly_paired_split show ?thesis by (metis b(1) Cons_nth_drop_Suc)
qed (use assms in simp)

lemma boundary_retains:
  assumes "find_compaction_boundary ms p = b"
  shows "b \<le> max 1 (length ms - keep_count ms p) \<or> \<not> has_tools ms \<and> length (filter (has_role ''user'') (take b ms)) = 1"
proof (cases "has_tools ms")
  case True
  with assms show ?thesis
    by (auto simp: find_compaction_boundary_def has_tools_def Let_def dest!: find_Some split: option.splits)
next
  case False
  let ?t = "max 1 (length ms - keep_count ms p)"
  let ?bs = "tl (indices (has_role ''user'') ms)"
  have b: "b = (case find (\<lambda>i. i \<le> max ?t (case ?bs of [] \<Rightarrow> 0 | b # _ \<Rightarrow> b)) (rev ?bs) of Some i \<Rightarrow> i | None \<Rightarrow> 0)"
    using assms False by (simp add: find_compaction_boundary_def has_tools_def Let_def)
  show ?thesis
  proof (cases "b \<le> ?t")
    case big: False
    with b obtain c cs where bs: "?bs = c # cs" by (cases ?bs) auto
    from b big have "b \<in> set ?bs" "b \<le> c" using bs by (auto dest!: find_Some split: option.splits)
    moreover obtain a where ind: "indices (has_role ''user'') ms = a # c # cs" using bs by (cases "indices (has_role ''user'') ms") auto
    ultimately have "b = c" using sorted_indices [of "has_role ''user''" ms] by auto
    with first_later_index [OF ind] False show ?thesis by simp
  qed simp
qed

lemma indices_length: "length (indices P ms) = length (filter P ms)"
proof -
  have "filter P ms = map ((!) ms) (indices P ms)"
    using arg_cong [OF map_nth [of ms], of "filter P"] by (simp add: filter_map o_def indices_def)
  then show ?thesis by simp
qed

lemma boundary_exists:
  assumes "\<not> has_tools ms" and "2 \<le> length (filter (has_role ''user'') ms)"
  shows "find_compaction_boundary ms p \<noteq> 0"
proof -
  from assms(2) obtain a c cs where ind: "indices (has_role ''user'') ms = a # c # cs"
    using indices_length [of "has_role ''user''" ms] by (cases "indices (has_role ''user'') ms" rule: remdups_adj.cases) auto
  have pos: "0 < i" if "i \<in> set (c # cs)" for i using tl_indices(1) [of i "has_role ''user''" ms] ind that by simp
  let ?t = "max (max 1 (length ms - keep_count ms p)) c"
  have "find (\<lambda>i. i \<le> ?t) (rev (c # cs)) \<noteq> None" unfolding find_None_iff by auto
  then obtain i where i: "find (\<lambda>i. i \<le> ?t) (rev (c # cs)) = Some i" by blast
  from find_Some [OF i] pos have "i \<noteq> 0" by auto
  with i ind assms(1) show ?thesis by (simp add: find_compaction_boundary_def has_tools_def Let_def)
qed


subsection \<open>What a request sends\<close>

definition system_messages :: "message list \<Rightarrow> message list" where
  "system_messages messages = (case messages of m # _ \<Rightarrow> if has_role ''system'' m then [m] else [] | [] \<Rightarrow> [])"

lemma system_messages_split: "messages = system_messages messages @ drop (length (system_messages messages)) messages"
  by (cases messages) (simp_all add: system_messages_def)

lemma strictly_paired_system:
  "strictly_paired (system_messages messages @ rest) \<longleftrightarrow> strictly_paired rest"
proof -
  have "has_role ''system'' m \<Longrightarrow> \<not> has_role ''tool'' m \<and> \<not> calls_tools m" for m by (simp add: has_role_def calls_tools_def)
  then show ?thesis by (cases messages) (auto simp: system_messages_def)
qed

text \<open>The stored checkpoint of a compaction that kept \<open>recent\<close>.\<close>

definition stored_checkpoint :: "compaction_request \<Rightarrow> message list \<Rightarrow> string \<Rightarrow> (py \<times> string) option" where
  "stored_checkpoint req recent summary =
     (let checkpoint = py_or (pget (hd recent) ''id'') (py_or (pget (cq_metadata req) ''user_message_id'') (pget (cq_metadata req) ''message_id''))
      in if has_role ''user'' (hd recent) \<and> is_saved_chat_id (cq_chat_id req) \<and> truthy checkpoint then Some (checkpoint, summary) else None)"

lemma compact_request_cases:
  assumes "compact_messages_for_request env config req messages = Inr (out, summary, compacted, stored)"
  obtains "out = messages" and "\<not> compacted" and "stored = None"
  | new previous where "apply_latest_summary_checkpoint (drop (length (system_messages messages)) messages) = Inr (new, previous)"
      and "\<not> compacted" and "out = system_messages messages @ new" and "stored = None"
  | new previous b s where "apply_latest_summary_checkpoint (drop (length (system_messages messages)) messages) = Inr (new, previous)"
      and "b = find_compaction_boundary new (cc_retention_percentage config)" and "take b new \<noteq> []" and "drop b new \<noteq> []"
      and "generate_summary env (cq_model_id req) (take b new) (drop b new) previous = Inr s" and "compacted"
      and "out = system_messages messages @ drop b new" and "summary = PStr s" and "stored = stored_checkpoint req (drop b new) s"
proof (cases "\<not> cc_enable config \<and> \<not> cq_bot_enabled req")
  case True
  with assms that(1) show ?thesis by (simp add: compact_messages_for_request_def)
next
  case False
  note unfolded = assms [unfolded compact_messages_for_request_def, folded system_messages_def] False
  from unfolded obtain new previous
    where new: "apply_latest_summary_checkpoint (drop (length (system_messages messages)) messages) = Inr (new, previous)"
    by (auto simp: Let_def bind_result_Inr_iff split: if_splits)
  let ?b = "find_compaction_boundary new (cc_retention_percentage config)"
  show ?thesis
  proof (cases "out = system_messages messages @ new \<and> \<not> compacted \<and> stored = None")
    case True
    with new that(2) show ?thesis by blast
  next
    case other: False
    with unfolded new have ne: "take ?b new \<noteq> []" "drop ?b new \<noteq> []"
      by (auto simp: Let_def bind_result_Inr_iff split: if_splits)
    with other unfolded new obtain s where "generate_summary env (cq_model_id req) (take ?b new) (drop ?b new) previous = Inr s"
      "compacted" "out = system_messages messages @ drop ?b new" "summary = PStr s" "stored = stored_checkpoint req (drop ?b new) s"
      by (auto simp: Let_def bind_result_Inr_iff stored_checkpoint_def split: if_splits)
    with new ne that(3) show ?thesis by blast
  qed
qed




text \<open>The checkpoint as the history keeps it: the message of that id gets the summary.\<close>

definition store_checkpoint :: "py \<Rightarrow> string \<Rightarrow> message \<Rightarrow> message" where
  "store_checkpoint i s m = (if pget m ''id'' = i then AList.update ''contextSummary'' (PStr s) m else m)"

lemma summary_stored: "py_strip s \<noteq> [] \<Longrightarrow> summary_of (AList.update ''contextSummary'' (PStr s) m) = Some s"
  by (auto simp: summary_of_def pget_def py_or_def py_strip_def)



definition demo_turn :: "string \<Rightarrow> string \<Rightarrow> message" where
  "demo_turn r i = [(''role'', PStr r), (''id'', PStr i), (''content'', PStr ''text'')]"

definition demo_chat :: "message list" where
  "demo_chat = [demo_turn ''system'' ''s'', demo_turn ''user'' ''m1'', demo_turn ''assistant'' ''m2'', demo_turn ''user'' ''m3'',
     demo_turn ''assistant'' ''m4'', demo_turn ''user'' ''m5'']"

definition demo_env :: summary_env where
  "demo_env = \<lparr>ce_dumps = (\<lambda>_. []), ce_to_str = (\<lambda>_. []), se_loads = (\<lambda>_. None), se_models = [(''m'', [])],
     se_compaction_model = PNone, se_complete = (\<lambda>_ _ _ _. Inr (Response_value (PDict
       [(''choices'', PList [PDict [(''message'', PDict [(''content'', PStr ''short'')])]])])))\<rparr>"

definition demo_request :: compaction_request where
  "demo_request = \<lparr>cq_bot_enabled = True, cq_bot_force = True, cq_metadata = [], cq_chat_id = Some ''c'', cq_model_id = ''m'',
     cq_system_prompt = PNone\<rparr>"

lemma demo_compacts:
  "compact_messages_for_request demo_env (load_config []) demo_request demo_chat
     = Inr ([demo_turn ''system'' ''s'', demo_turn ''user'' ''m3'', demo_turn ''assistant'' ''m4'', demo_turn ''user'' ''m5''], PStr ''short'', True,
            Some (PStr ''m3'', ''short''))"
  by code_simp

lemma demo_unmarked: "list_all unmarked demo_chat" "list_all (\<lambda>m. unmarked m \<and> (summary_of m \<noteq> None \<longrightarrow> \<not> has_role ''tool'' m)) demo_chat"
  "distinct (map (\<lambda>m. pget m ''id'') demo_chat)" "strictly_paired demo_chat"
  "list_all (\<lambda>m. unmarked m \<and> summary_of m = None) [demo_turn ''assistant'' ''m6'']"
  by code_simp+




end
