(* ===== verification/Settings.thy ===== *)
theory Settings
  imports Json "HOL-Library.Sublist"
begin

text \<open>
  The settings of the application, \<^verbatim>\<open>models/config.py\<close>: one row per key, over the defaults of the process.
  A key is read from the table where it is persistent, from the defaults otherwise. Values are JSON,
  which \<open>jsonable_encoder\<close> leaves alone. An operation is one transaction; \<open>ci\<close> says whether \<open>LIKE\<close> of
  the database ignores the case of letters, as in SQLite.
\<close>

subsection \<open>The store\<close>

record config_row =
  cf_value :: py
  cf_updated_at :: int

record config_store =
  cs_rows :: "(string \<times> config_row) list"
  cs_defaults :: pydict
  cs_persistent :: bool
  cs_oauth_persistent :: bool

definition configure :: "pydict \<Rightarrow> bool \<Rightarrow> bool \<Rightarrow> config_store \<Rightarrow> config_store" where
  "configure defaults enable_persistent enable_oauth_persistent st =
     st\<lparr>cs_defaults := defaults, cs_persistent := enable_persistent, cs_oauth_persistent := enable_oauth_persistent\<rparr>"

definition default_value :: "config_store \<Rightarrow> string \<Rightarrow> py \<Rightarrow> py" where
  "default_value st key dflt = dget (cs_defaults st) key dflt"

definition persistent_enabled_for :: "config_store \<Rightarrow> string \<Rightarrow> bool" where
  "persistent_enabled_for st key \<longleftrightarrow> cs_persistent st \<and> (prefix ''oauth.'' key \<longrightarrow> cs_oauth_persistent st)"

definition row_values :: "config_store \<Rightarrow> pydict" where
  "row_values st = map (\<lambda>(k, r). (k, cf_value r)) (cs_rows st)"

subsection \<open>Reading\<close>

definition get_config :: "config_store \<Rightarrow> string \<Rightarrow> py \<Rightarrow> py" where
  "get_config st key dflt =
     (if \<not> persistent_enabled_for st key then default_value st key dflt
      else case map_of (cs_rows st) key of Some r \<Rightarrow> cf_value r | None \<Rightarrow> default_value st key dflt)"

definition get_many :: "config_store \<Rightarrow> string list \<Rightarrow> pydict" where
  "get_many st keys =
     (let disabled = map (\<lambda>k. (k, default_value st k PNone))
            (filter (\<lambda>k. \<not> persistent_enabled_for st k \<and> k \<in> fst ` set (cs_defaults st)) (dict_fromkeys keys));
          enabled = filter (persistent_enabled_for st) keys
      in if enabled = [] then disabled
         else let values = filter (\<lambda>(k, v). k \<in> set enabled) (row_values st)
              in map (\<lambda>k. (k, dget values k (default_value st k PNone)))
                   (filter (\<lambda>k. k \<in> fst ` set values \<or> k \<in> fst ` set (cs_defaults st) \<or> k \<in> fst ` set disabled) (dict_fromkeys keys)))"

text \<open>\<open>LIKE\<close> of a pattern: \<open>%\<close> is any text, \<open>_\<close> any character.\<close>

fun sql_like :: "bool \<Rightarrow> string \<Rightarrow> string \<Rightarrow> bool" where
  "sql_like ci [] s \<longleftrightarrow> s = []"
| "sql_like ci (p # ps) s \<longleftrightarrow>
     (if p = CHR ''%'' then list_ex (\<lambda>n. sql_like ci ps (drop n s)) [0..<Suc (length s)]
      else case s of [] \<Rightarrow> False
           | c # cs \<Rightarrow> (p = CHR ''_'' \<or> p = c \<or> ci \<and> ascii_lower p = ascii_lower c) \<and> sql_like ci ps cs)"

definition under :: "string \<Rightarrow> string" where
  "under namespace = namespace @ ''.''"

definition rows_like :: "bool \<Rightarrow> string \<Rightarrow> config_store \<Rightarrow> (string \<times> config_row) list" where
  "rows_like ci namespace st = filter (\<lambda>(k, r). sql_like ci (under namespace @ ''%'') k) (cs_rows st)"

definition get_namespace :: "bool \<Rightarrow> config_store \<Rightarrow> string \<Rightarrow> pydict" where
  "get_namespace ci st namespace =
     (let default_values = filter (\<lambda>(k, v). prefix (under namespace) k \<and> \<not> persistent_enabled_for st k) (cs_defaults st)
      in if \<not> cs_persistent st then default_values
         else dict_merge (map (\<lambda>(k, r). (k, cf_value r)) (rows_like ci namespace st)) default_values)"

definition get_all :: "config_store \<Rightarrow> pydict" where
  "get_all st =
     (if \<not> cs_persistent st then cs_defaults st
      else if \<not> cs_oauth_persistent st
           then dict_merge (row_values st) (filter (\<lambda>(k, v). prefix ''oauth.'' k) (cs_defaults st))
           else row_values st)"

subsection \<open>Writing\<close>

definition put_row :: "int \<Rightarrow> string \<times> py \<Rightarrow> (string \<times> config_row) list \<Rightarrow> (string \<times> config_row) list" where
  "put_row now kv rows = (case kv of (k, v) \<Rightarrow> AList.update k \<lparr>cf_value = v, cf_updated_at = now\<rparr> rows)"

definition upsert :: "int \<Rightarrow> pydict \<Rightarrow> config_store \<Rightarrow> config_store" where
  "upsert now updates st =
     (let persistent = filter (\<lambda>(k, v). persistent_enabled_for st k) updates;
          others = filter (\<lambda>(k, v). \<not> persistent_enabled_for st k) updates
      in st\<lparr>cs_defaults := dict_merge (cs_defaults st) others, cs_rows := fold (put_row now) persistent (cs_rows st)\<rparr>)"

definition delete_config :: "string \<Rightarrow> config_store \<Rightarrow> bool \<times> config_store" where
  "delete_config key st =
     (if key \<in> fst ` set (cs_rows st) then (True, st\<lparr>cs_rows := AList.delete key (cs_rows st)\<rparr>) else (False, st))"

definition clear_config :: "config_store \<Rightarrow> config_store" where
  "clear_config st = st\<lparr>cs_rows := []\<rparr>"

definition seed_step :: "int \<Rightarrow> string \<times> py \<Rightarrow> config_store \<Rightarrow> config_store" where
  "seed_step now kv st =
     (case kv of (k, v) \<Rightarrow>
        if \<not> persistent_enabled_for st k \<or> k \<in> fst ` set (cs_rows st) then st
        else st\<lparr>cs_rows := cs_rows st @ [(k, \<lparr>cf_value = v, cf_updated_at = now\<rparr>)]\<rparr>)"

definition seed_defaults :: "int \<Rightarrow> pydict \<Rightarrow> config_store \<Rightarrow> config_store" where
  "seed_defaults now defaults st = fold (seed_step now) defaults st"

text \<open>
  \<open>rename_prefix\<close>: a new key that has a row keeps it. The lookups see the rows as they were; two rows
  that move to one new key break the primary key at the commit.
\<close>

definition removeprefix :: "string \<Rightarrow> string \<Rightarrow> string" where
  "removeprefix p s = (if prefix p s then drop (length p) s else s)"

definition rename_prefix :: "bool \<Rightarrow> int \<Rightarrow> string \<Rightarrow> string \<Rightarrow> config_store \<Rightarrow> config_store result" where
  "rename_prefix ci now old_prefix new_prefix st =
     (if \<not> cs_persistent st then Inr st
      else let rows = rows_like ci old_prefix st;
               moved = map (\<lambda>(k, r). (under new_prefix @ removeprefix (under old_prefix) k, r\<lparr>cf_updated_at := now\<rparr>)) rows;
               added = filter (\<lambda>(k, r). k \<notin> fst ` set (cs_rows st)) moved
           in if \<not> distinct (map fst added) then Inl IntegrityError
              else Inr (st\<lparr>cs_rows := filter (\<lambda>(k, r). k \<notin> fst ` set rows) (cs_rows st) @ added\<rparr>))"


subsection \<open>Repairing flattened rows\<close>

definition API_CONFIG_KEYS :: "string list" where
  "API_CONFIG_KEYS = [''openai.api_configs'', ''ollama.api_configs'']"

definition DICT_CONFIG_KEY_ALIASES :: "(string \<times> string list) list" where
  "DICT_CONFIG_KEY_ALIASES =
     [(''openai.api_configs'', [''OPENAI_API_CONFIGS'']),
      (''ollama.api_configs'', [''OLLAMA_API_CONFIGS'']),
      (''rag.mineru_params'', [''MINERU_PARAMS'']),
      (''rag.docling_params'', [''DOCLING_PARAMS'']),
      (''rag.mistral_ocr_params'', [''MISTRAL_OCR_PARAMS'']),
      (''web.search.linkup_search_params'', [''LINKUP_SEARCH_PARAMS'']),
      (''image_generation.automatic1111.api_params'', [''AUTOMATIC1111_PARAMS'']),
      (''image_generation.openai.params'', [''IMAGES_OPENAI_API_PARAMS'']),
      (''audio.tts.openai.params'', [''AUDIO_TTS_OPENAI_PARAMS'']),
      (''audio.realtime.input_params'', [''AUDIO_REALTIME_INPUT_PARAMS'']),
      (''models.default_metadata'', [''DEFAULT_MODEL_METADATA'']),
      (''models.default_params'', [''DEFAULT_MODEL_PARAMS'']),
      (''task.model.params'', [''TASK_MODEL_PARAMS'']),
      (''ui.default_interface_settings'', [''DEFAULT_INTERFACE_SETTINGS'']),
      (''user.permissions'', [''USER_PERMISSIONS''])]"

definition API_CONFIG_FIELDS :: "string list" where
  "API_CONFIG_FIELDS = [''enable'', ''key'', ''prefix_id'', ''tags'', ''model_ids'', ''connection_type'', ''provider'', ''auth_type'',
     ''headers'', ''azure'', ''api_type'', ''api_version'', ''extra_params'', ''passthrough_params'']"

text \<open>\<open>s.rfind(p)\<close> and \<open>s.partition(c)\<close>.\<close>

definition py_rfind :: "string \<Rightarrow> string \<Rightarrow> nat option" where
  "py_rfind p s = find (\<lambda>i. prefix p (drop i s)) (rev [0..<Suc (length s)])"

definition marker_step :: "string \<Rightarrow> string \<Rightarrow> nat option \<Rightarrow> nat option" where
  "marker_step fragment field match =
     (case py_rfind (''.'' @ field) fragment of
        None \<Rightarrow> match
      | Some i \<Rightarrow> (case match of None \<Rightarrow> Some i | Some j \<Rightarrow> if i > j then Some i else match))"

definition split_api_config_fragment :: "string \<Rightarrow> (string \<times> string list) option" where
  "split_api_config_fragment fragment =
     (let first = takeWhile (\<lambda>c. c \<noteq> CHR ''.'') fragment; rest = drop (Suc (length first)) fragment
      in if fragment = [] then None
         else if first \<noteq> [] \<and> list_all is_decimal_digit first \<and> rest \<noteq> [] then Some (first, py_split (CHR ''.'') rest)
         else case fold (marker_step fragment) API_CONFIG_FIELDS None of
                None \<Rightarrow> None
              | Some i \<Rightarrow> if i = 0 then None else Some (take i fragment, py_split (CHR ''.'') (drop (Suc i) fragment)))"

fun assign_path :: "string list \<Rightarrow> py \<Rightarrow> pydict \<Rightarrow> pydict" where
  "assign_path [] v d = d"
| "assign_path [k] v d = AList.update k v d"
| "assign_path (k # ks) v d =
     AList.update k (PDict (assign_path ks v (case map_of d k of Some (PDict e) \<Rightarrow> e | _ \<Rightarrow> []))) d"

definition fragment_of :: "string list \<Rightarrow> string \<Rightarrow> string option" where
  "fragment_of key_prefixes key = map_option (\<lambda>p. removeprefix (under p) key) (find (\<lambda>p. prefix (under p) key) key_prefixes)"

definition repair_row :: "string \<Rightarrow> string list \<Rightarrow> string \<times> config_row \<Rightarrow> pydict \<times> string list \<Rightarrow> pydict \<times> string list" where
  "repair_row config_key key_prefixes row acc =
     (case fragment_of key_prefixes (fst row) of
        None \<Rightarrow> acc
      | Some fragment \<Rightarrow>
          if config_key \<in> set API_CONFIG_KEYS
          then case split_api_config_fragment fragment of
                 None \<Rightarrow> acc
               | Some (object_key, path) \<Rightarrow>
                   (case dget (fst acc) object_key (PDict []) of
                      PDict target \<Rightarrow>
                        (AList.update object_key (PDict (assign_path path (cf_value (snd row)) target)) (fst acc), snd acc @ [fst row])
                    | _ \<Rightarrow> acc)
          else (assign_path (py_split (CHR ''.'') fragment) (cf_value (snd row)) (fst acc), snd acc @ [fst row]))"

text \<open>
  The dict of one key. \<open>tracks\<close> says whether the mapper notices that a JSON value it has loaded was
  changed in place: the code changes the loaded dict and assigns the same object again. A mapper that
  does not notice writes only the time.
\<close>

definition repair_key :: "bool \<Rightarrow> bool \<Rightarrow> int \<Rightarrow> config_store \<Rightarrow> string \<times> string list
    \<Rightarrow> (string \<times> config_row) list \<times> string list \<Rightarrow> (string \<times> config_row) list \<times> string list" where
  "repair_key ci tracks now st entry acc =
     (case entry of (config_key, aliases) \<Rightarrow>
        let key_prefixes = config_key # aliases;
            rows = concat (map (\<lambda>p. rows_like ci p st) key_prefixes);
            loaded = (case map_of (cs_rows st) config_key of Some r \<Rightarrow> (case cf_value r of PDict d \<Rightarrow> Some d | _ \<Rightarrow> None) | None \<Rightarrow> None);
            (repaired, orphans) = fold (repair_row config_key key_prefixes) rows (case loaded of Some d \<Rightarrow> d | None \<Rightarrow> [], [])
        in if orphans = [] then acc
           else let stored = (case loaded of Some d \<Rightarrow> if tracks then repaired else d | None \<Rightarrow> repaired)
                in (AList.update config_key \<lparr>cf_value = PDict stored, cf_updated_at = now\<rparr> (fst acc), snd acc @ orphans))"

definition repair_models :: "(py \<Rightarrow> string) \<Rightarrow> int \<Rightarrow> string \<Rightarrow> (string \<times> config_row) list \<Rightarrow> (string \<times> config_row) list" where
  "repair_models to_str now key rows =
     (case map_of rows key of
        None \<Rightarrow> rows
      | Some r \<Rightarrow> (case cf_value r of
            PList items \<Rightarrow>
              AList.update key \<lparr>cf_value = PStr (join '','' (filter (\<lambda>m. m \<noteq> []) (map (\<lambda>v. py_strip (py_str to_str v)) items))),
                cf_updated_at = now\<rparr> rows
          | _ \<Rightarrow> rows))"

definition repair_config_rows :: "bool \<Rightarrow> bool \<Rightarrow> (py \<Rightarrow> string) \<Rightarrow> int \<Rightarrow> config_store \<Rightarrow> config_store" where
  "repair_config_rows ci tracks to_str now st =
     (if \<not> cs_persistent st then st
      else let (rows, orphans) = fold (repair_key ci tracks now st) DICT_CONFIG_KEY_ALIASES (cs_rows st, []);
               rows = filter (\<lambda>(k, r). k \<notin> set orphans) rows
           in st\<lparr>cs_rows := fold (repair_models to_str now) [''ui.default_models'', ''ui.default_pinned_models''] rows\<rparr>)"

text \<open>\<open>config.py\<close>: what the application does with its settings when it starts.\<close>

definition seed_registered_defaults :: "bool \<Rightarrow> bool \<Rightarrow> (py \<Rightarrow> string) \<Rightarrow> int \<Rightarrow> config_store \<Rightarrow> config_store result" where
  "seed_registered_defaults ci tracks to_str now st =
     bind_result (rename_prefix ci now ''rag.web'' ''web'' st) (\<lambda>st.
       let st = repair_config_rows ci tracks to_str now st in Inr (seed_defaults now (cs_defaults st) st))"


subsection \<open>What a key has\<close>

definition lookup :: "config_store \<Rightarrow> string \<Rightarrow> py option" where
  "lookup st key =
     (if \<not> persistent_enabled_for st key then map_of (cs_defaults st) key
      else case map_of (cs_rows st) key of Some r \<Rightarrow> Some (cf_value r) | None \<Rightarrow> map_of (cs_defaults st) key)"

definition last_update :: "pydict list \<Rightarrow> string \<Rightarrow> py option" where
  "last_update hist k = fold (\<lambda>us v. case map_of us k of Some w \<Rightarrow> Some w | None \<Rightarrow> v) hist None"

lemma last_update_snoc: "last_update (hist @ [us]) k = (case map_of us k of Some w \<Rightarrow> Some w | None \<Rightarrow> last_update hist k)"
  by (simp add: last_update_def split: option.splits)

text \<open>A store of settings: a write of a dict is read back, and other keys are left alone.\<close>

locale setting_store =
  fixes look :: "'s \<Rightarrow> string \<Rightarrow> py option" and put :: "pydict \<Rightarrow> 's \<Rightarrow> 's"
  assumes look_put: "distinct (map fst us) \<Longrightarrow> look (put us st) k = (case map_of us k of Some v \<Rightarrow> Some v | None \<Rightarrow> look st k)"
begin

lemma look_history:
  assumes "\<And>us. us \<in> set hist \<Longrightarrow> distinct (map fst us)"
  shows "look (fold put hist st) k = (case last_update hist k of Some v \<Rightarrow> Some v | None \<Rightarrow> look st k)"
  using assms
  by (induction hist rule: rev_induct) (auto simp: last_update_snoc look_put last_update_def split: option.splits)

lemma independent_puts:
  assumes "distinct (map fst us)" and "distinct (map fst vs)" and "fst ` set us \<inter> fst ` set vs = {}"
  shows "look (put us (put vs st)) k = look (put vs (put us st)) k"
proof -
  have "map_of us k = None \<or> map_of vs k = None" using assms(3) by (auto simp: map_of_eq_None_iff)
  then show ?thesis using assms(1,2) by (auto simp: look_put split: option.splits)
qed

end

lemma map_of_put_rows:
  "distinct (map fst us) \<Longrightarrow> map_of (fold (put_row now) us rows) k
     = (case map_of us k of Some v \<Rightarrow> Some \<lparr>cf_value = v, cf_updated_at = now\<rparr> | None \<Rightarrow> map_of rows k)"
proof (induction us rule: rev_induct)
  case (snoc kv us)
  obtain k' v where kv: "kv = (k', v)" by (cases kv)
  have "map_of us k' = None" using snoc.prems kv by (simp add: map_of_eq_None_iff)
  with snoc kv show ?case by (auto simp: put_row_def update_conv' split: option.splits)
qed simp

lemma distinct_filter_keys: "distinct (map fst d) \<Longrightarrow> distinct (map fst (filter P d))"
  by (induction d) auto

lemma persistent_upsert [simp]: "persistent_enabled_for (upsert now us st) = persistent_enabled_for st"
  by (simp add: persistent_enabled_for_def upsert_def Let_def fun_eq_iff)

interpretation config_settings: setting_store lookup "upsert now"
proof
  fix us :: pydict and st k
  assume us: "distinct (map fst us)"
  note filtered = distinct_filter_keys [OF us]
  show "lookup (upsert now us st) k = (case map_of us k of Some v \<Rightarrow> Some v | None \<Rightarrow> lookup st k)"
    unfolding lookup_def persistent_upsert
    by (simp add: upsert_def Let_def map_of_dict_merge map_of_put_rows filtered map_of_filter_key split: option.splits)
qed

lemma get_config_lookup: "get_config st k d = (case lookup st k of Some v \<Rightarrow> v | None \<Rightarrow> d)"
  by (simp add: get_config_def lookup_def default_value_def dget_def split: option.splits)

lemma row_values_map: "map_of (row_values st) k = map_option cf_value (map_of (cs_rows st) k)"
  by (simp add: row_values_def map_of_map)


subsection \<open>The readers agree\<close>

definition config_ok :: "config_store \<Rightarrow> bool" where
  "config_ok st \<longleftrightarrow> distinct (map fst (cs_rows st)) \<and> distinct (map fst (cs_defaults st))"

text \<open>Every default the table is in charge of has a row.\<close>

definition seeded :: "config_store \<Rightarrow> bool" where
  "seeded st \<longleftrightarrow> list_all (\<lambda>(k, v). persistent_enabled_for st k \<longrightarrow> k \<in> fst ` set (cs_rows st)) (cs_defaults st)"

lemma map_of_tabulate: "map_of (map (\<lambda>k. (k, f k)) ks) k = (if k \<in> set ks then Some (f k) else None)"
  by (induction ks) auto

lemma mem_keys: "k \<in> fst ` set d \<longleftrightarrow> map_of d k \<noteq> None"
  by (simp add: map_of_eq_None_iff)

lemma map_of_get_many: "map_of (get_many st keys) k = (if k \<in> set keys then lookup st k else None)"
proof -
  let ?disabled = "map (\<lambda>k. (k, default_value st k PNone))
      (filter (\<lambda>k. \<not> persistent_enabled_for st k \<and> k \<in> fst ` set (cs_defaults st)) (dict_fromkeys keys))"
  have off: "map_of ?disabled k = (if k \<in> set keys \<and> \<not> persistent_enabled_for st k then map_of (cs_defaults st) k else None)"
    by (auto simp: map_of_tabulate mem_keys default_value_def dget_def)
  show ?thesis
  proof (cases "filter (persistent_enabled_for st) keys = []")
    case True
    then have "\<not> persistent_enabled_for st k" if "k \<in> set keys" using that by (simp add: filter_empty_conv)
    with True off show ?thesis by (auto simp: get_many_def Let_def lookup_def)
  next
    case False
    let ?vals = "filter (\<lambda>(k, v). k \<in> set (filter (persistent_enabled_for st) keys)) (row_values st)"
    have vals: "map_of ?vals k = (if k \<in> set keys \<and> persistent_enabled_for st k then map_option cf_value (map_of (cs_rows st) k) else None)"
      by (simp add: map_of_filter_key row_values_map)
    have "map_of (get_many st keys) k = (if k \<in> set keys \<and> (map_of ?vals k \<noteq> None \<or> map_of (cs_defaults st) k \<noteq> None \<or> map_of ?disabled k \<noteq> None)
        then Some (dget ?vals k (default_value st k PNone)) else None)"
      using False unfolding get_many_def Let_def mem_keys by (simp add: map_of_tabulate)
    then show ?thesis using vals off by (auto simp: lookup_def dget_def default_value_def split: option.splits)
  qed
qed

lemma sql_like_prefix: "prefix p k \<Longrightarrow> sql_like ci (p @ ''%'') k"
proof (induction p arbitrary: k)
  case Nil
  show ?case by (simp add: list_ex_iff Bex_def) (metis drop_all order_refl le_imp_less_Suc)
next
  case (Cons c p)
  from Cons.prems obtain s where k: "k = c # s" "prefix p s" by (cases k) auto
  have rest: "sql_like ci (p @ ''%'') s" using Cons.IH k(2) by simp
  then have "list_ex (\<lambda>n. sql_like ci (p @ ''%'') (drop n (c # s))) [0..<Suc (length (c # s))]"
    unfolding list_ex_iff by (intro bexI [of _ 1]) (simp_all del: upt_Suc)
  with rest k(1) show ?case by (auto simp del: upt_Suc)
qed

lemma map_of_rows_like:
  "prefix (under ns) k \<Longrightarrow> map_of (rows_like ci ns st) k = map_of (cs_rows st) k"
  by (simp add: rows_like_def map_of_filter_key sql_like_prefix)

lemma seeded_row: "seeded st \<Longrightarrow> map_of (cs_defaults st) k \<noteq> None \<Longrightarrow> persistent_enabled_for st k \<Longrightarrow> map_of (cs_rows st) k \<noteq> None"
proof -
  assume "seeded st" and d: "map_of (cs_defaults st) k \<noteq> None" and p: "persistent_enabled_for st k"
  from d obtain v where "(k, v) \<in> set (cs_defaults st)" by (auto dest: map_of_SomeD)
  with \<open>seeded st\<close> p have "k \<in> fst ` set (cs_rows st)" by (auto simp: seeded_def list_all_iff)
  then show ?thesis by (simp add: mem_keys)
qed


text \<open>
  (C5) After any history of writes, whether their keys live in the table or in the process, a key reads
  as the value written last, and as before where none was written; no write disturbs another key.
\<close>

theorem settings_last_write:
  assumes "list_all (\<lambda>us. distinct (map fst us)) hist"
  shows "get_config (fold (upsert now) hist st) k d = (case last_update hist k of Some v \<Rightarrow> v | None \<Rightarrow> get_config st k d)"
proof -
  have "\<And>us. us \<in> set hist \<Longrightarrow> distinct (map fst us)" using assms by (simp add: list_all_iff)
  from config_settings.look_history [OF this] show ?thesis by (simp add: get_config_lookup split: option.splits)
qed


subsection \<open>Seeding and renaming\<close>

lemma seed_step_keeps [simp]:
  "cs_defaults (seed_step now kv st) = cs_defaults st" "cs_persistent (seed_step now kv st) = cs_persistent st"
  "cs_oauth_persistent (seed_step now kv st) = cs_oauth_persistent st"
  "persistent_enabled_for (seed_step now kv st) = persistent_enabled_for st"
  by (cases kv; simp add: seed_step_def persistent_enabled_for_def fun_eq_iff)+

lemma seed_step_lookup:
  "map_of (cs_defaults st) k' = Some v \<Longrightarrow> lookup (seed_step now (k', v) st) k = lookup st k"
  unfolding lookup_def seed_step_keeps
  by (auto simp: seed_step_def mem_keys map_add_def split: option.splits)

lemma seed_fold:
  assumes "\<And>k v. (k, v) \<in> set ds \<Longrightarrow> map_of (cs_defaults st) k = Some v"
  shows "lookup (fold (seed_step now) ds st) k = lookup st k" and "cs_defaults (fold (seed_step now) ds st) = cs_defaults st"
    and "persistent_enabled_for (fold (seed_step now) ds st) = persistent_enabled_for st"
  using assms by (induction ds arbitrary: st) (auto simp: seed_step_lookup)

lemma seed_rows:
  "fst ` set (cs_rows (fold (seed_step now) ds st)) = fst ` set (cs_rows st) \<union> {k \<in> fst ` set ds. persistent_enabled_for st k}"
proof (induction ds arbitrary: st)
  case (Cons kv ds)
  have "fst ` set (cs_rows (seed_step now kv st)) = fst ` set (cs_rows st) \<union> {k. k = fst kv \<and> persistent_enabled_for st k}"
    by (cases kv) (auto simp: seed_step_def)
  with Cons.IH [of "seed_step now kv st"] show ?case by auto
qed simp

lemma seed_distinct: "distinct (map fst (cs_rows st)) \<Longrightarrow> distinct (map fst (cs_rows (fold (seed_step now) ds st)))"
proof (induction ds arbitrary: st)
  case (Cons kv ds)
  then have "distinct (map fst (cs_rows (seed_step now kv st)))" by (cases kv) (auto simp: seed_step_def)
  with Cons.IH [of "seed_step now kv st"] show ?case by simp
qed simp

text \<open>
  Seeding the defaults at the start changes no setting that can be read, however the table and the
  defaults differ, and afterwards every default that the table is in charge of has a row.
\<close>

theorem seeding_changes_nothing:
  assumes "config_ok st"
  shows "get_config (seed_defaults now (cs_defaults st) st) k d = get_config st k d
    \<and> seeded (seed_defaults now (cs_defaults st) st) \<and> config_ok (seed_defaults now (cs_defaults st) st)"
proof -
  have ds: "(k, v) \<in> set (cs_defaults st) \<Longrightarrow> map_of (cs_defaults st) k = Some v" for k v
    using assms by (simp add: config_ok_def)
  note seed = seed_fold [OF ds, of "cs_defaults st" now, simplified]
  have "seeded (seed_defaults now (cs_defaults st) st)"
    unfolding seeded_def seed_defaults_def seed(2,3) seed_rows by (force simp: list_all_iff)
  moreover have "config_ok (seed_defaults now (cs_defaults st) st)"
    using assms seed_distinct unfolding config_ok_def seed_defaults_def seed(2) by blast
  ultimately show ?thesis by (simp add: get_config_lookup seed_defaults_def seed(1))
qed

lemma sql_like_literal:
  assumes "CHR ''%'' \<notin> set p" and "CHR ''_'' \<notin> set p"
  shows "sql_like False (p @ ''%'') k \<longleftrightarrow> prefix p k"
  using assms
proof (induction p arbitrary: k)
  case Nil
  show ?case using sql_like_prefix [of "[]" k False] by simp
next
  case (Cons c p)
  then show ?case by (cases k) auto
qed

text \<open>
  Renaming a prefix moves every value under it to its new key, keeps a value that is there
  already, leaves no key of the old prefix and touches no other key.
\<close>

theorem prefix_renamed:
  assumes "config_ok st" and "cs_persistent st" and "CHR ''%'' \<notin> set old" and "CHR ''_'' \<notin> set old"
    and "\<not> prefix (under old) (under new)" and "\<not> prefix (under new) (under old)"
  shows "\<exists>st'. rename_prefix False now old new st = Inr st'
    \<and> map_of (row_values st') (under old @ x) = None
    \<and> map_of (row_values st') (under new @ x) = (case map_of (row_values st) (under new @ x) of
          Some v \<Rightarrow> Some v | None \<Rightarrow> map_of (row_values st) (under old @ x))
    \<and> (\<not> prefix (under old) k \<and> \<not> prefix (under new) k \<longrightarrow> map_of (cs_rows st') k = map_of (cs_rows st) k)"
proof -
  let ?move = "\<lambda>(k, r). (under new @ removeprefix (under old) k, r\<lparr>cf_updated_at := now\<rparr>)"
  have like: "rows_like False old st = filter (\<lambda>(k, r). prefix (under old) k) (cs_rows st)"
    using assms(3,4) sql_like_literal [of "under old"] by (simp add: rows_like_def under_def)
  define rows where "rows = filter (\<lambda>(k, r). prefix (under old) k) (cs_rows st)"
  define added where "added = filter (\<lambda>(k, r). k \<notin> fst ` set (cs_rows st)) (map ?move rows)"
  define kept where "kept = filter (\<lambda>(k, r). k \<notin> fst ` set rows) (cs_rows st)"
  have apart: "\<not> (prefix (under old) y \<and> prefix (under new) y)" for y
    using assms(5,6) prefix_same_cases by blast
  have keys: "map fst (map ?move rows) = map (\<lambda>k. under new @ drop (length (under old)) k) (map fst rows)"
    by (auto simp: rows_def removeprefix_def)
  have "distinct (map fst rows)" using assms(1) by (simp add: rows_def config_ok_def distinct_filter_keys)
  moreover have "inj_on (\<lambda>k. under new @ drop (length (under old)) k) (set (map fst rows))"
    by (auto simp: inj_on_def rows_def prefix_def)
  ultimately have dist: "distinct (map fst (map ?move rows))" unfolding keys by (subst distinct_map) blast
  then have "distinct (map fst added)" unfolding added_def by (rule distinct_filter_keys)
  then have ren: "rename_prefix False now old new st = Inr (st\<lparr>cs_rows := kept @ added\<rparr>)"
    using assms(2) like unfolding rename_prefix_def Let_def by (simp add: rows_def added_def kept_def)
  have kept: "map_of kept y = (if prefix (under old) y then None else map_of (cs_rows st) y)" for y
  proof -
    have "y \<in> fst ` set rows \<longleftrightarrow> prefix (under old) y \<and> map_of (cs_rows st) y \<noteq> None"
      unfolding mem_keys rows_def map_of_filter_key by simp
    then show ?thesis unfolding kept_def map_of_filter_key by auto
  qed
  have old_moved: "map_of (map ?move rows) (under new @ y) = map_option (cf_updated_at_update (\<lambda>_. now)) (map_of (cs_rows st) (under old @ y))" for y
  proof (cases "map_of (cs_rows st) (under old @ y)")
    case None
    then have "under old @ y \<notin> fst ` set (cs_rows st)" by (simp add: mem_keys)
    then have "under new @ y \<notin> fst ` set (map ?move rows)" by (force simp: rows_def removeprefix_def prefix_def)
    with None show ?thesis by (simp add: mem_keys del: set_map list.set_map)
  next
    case (Some r)
    then have "(under old @ y, r) \<in> set rows" by (auto simp: rows_def dest: map_of_SomeD)
    then have "(under new @ y, r\<lparr>cf_updated_at := now\<rparr>) \<in> set (map ?move rows)" by (force simp: removeprefix_def)
    with dist Some show ?thesis by (simp del: map_map)
  qed
  have none: "map_of (map ?move rows) y = None" if "\<not> prefix (under new) y" for y
    using that by (force simp: map_of_eq_None_iff)
  have added: "map_of added y = (if map_of (cs_rows st) y \<noteq> None then None else map_of (map ?move rows) y)" for y
    unfolding added_def map_of_filter_key mem_keys by simp
  let ?st = "st\<lparr>cs_rows := kept @ added\<rparr>"
  have rows': "map_of (cs_rows ?st) y = (case map_of kept y of Some r \<Rightarrow> Some r | None \<Rightarrow> map_of added y)" for y
    by (simp add: map_add_def)
  have "map_of (cs_rows ?st) (under old @ x) = None"
    using apart [of "under old @ x"] unfolding rows' kept added by (simp add: none)
  moreover have "map_of (row_values ?st) (under new @ x) = (case map_of (row_values st) (under new @ x) of
      Some v \<Rightarrow> Some v | None \<Rightarrow> map_of (row_values st) (under old @ x))"
    using apart [of "under new @ x"] unfolding row_values_map rows' kept added old_moved
    by (simp add: option.map_comp o_def split: option.splits)
  moreover have "map_of (cs_rows ?st) k = map_of (cs_rows st) k" if "\<not> prefix (under old) k" "\<not> prefix (under new) k"
    using that unfolding rows' kept added by (simp add: none split: option.splits)
  ultimately show ?thesis using ren by (auto simp: row_values_map)
qed


subsection \<open>Examples\<close>

definition demo_settings :: config_store where
  "demo_settings =
     \<lparr>cs_rows = [(''ui.name'', \<lparr>cf_value = PStr ''A'', cf_updated_at = 1\<rparr>), (''rag.web.key'', \<lparr>cf_value = PStr ''B'', cf_updated_at = 1\<rparr>)],
      cs_defaults = [(''ui.name'', PStr ''default''), (''oauth.id'', PStr ''O''), (''ui.limit'', PInt 5)],
      cs_persistent = True, cs_oauth_persistent = False\<rparr>"

definition demo_seeded :: config_store where
  "demo_seeded = seed_defaults 2 (cs_defaults demo_settings) demo_settings"


theorem settings_last_write_witness:
  "get_config (fold (upsert 3) [[(''ui.name'', PStr ''X''), (''oauth.id'', PStr ''Y'')], [(''ui.name'', PStr ''Z'')]] demo_settings) ''ui.name'' PNone = PStr ''Z''"
proof -
  have d: "list_all (\<lambda>us. distinct (map fst us)) [[(''ui.name'', PStr ''X''), (''oauth.id'', PStr ''Y'')], [(''ui.name'', PStr ''Z'')]]" by code_simp
  have l: "last_update [[(''ui.name'', PStr ''X''), (''oauth.id'', PStr ''Y'')], [(''ui.name'', PStr ''Z'')]] ''ui.name'' = Some (PStr ''Z'')" by code_simp
  show ?thesis using settings_last_write [OF d, of 3 demo_settings "''ui.name''" PNone] unfolding l by simp
qed

theorem seeding_changes_nothing_witness:
  "get_config (seed_defaults 2 (cs_defaults demo_settings) demo_settings) ''ui.name'' PNone = get_config demo_settings ''ui.name'' PNone
   \<and> get_config demo_settings ''ui.name'' PNone = PStr ''A''"
proof -
  have ok: "config_ok demo_settings" and val: "get_config demo_settings ''ui.name'' PNone = PStr ''A''" by code_simp+
  show ?thesis using seeding_changes_nothing [OF ok, of 2 "''ui.name''" PNone] val by simp
qed

theorem prefix_renamed_witness:
  "\<exists>st'. rename_prefix False 2 ''rag.web'' ''web'' demo_settings = Inr st' \<and> map_of (row_values st') ''web.key'' = Some (PStr ''B'')"
proof -
  have ok: "config_ok demo_settings" "cs_persistent demo_settings" and s: "under ''web'' @ ''key'' = ''web.key''" by code_simp+
  have v: "map_of (row_values demo_settings) ''web.key'' = None" "map_of (row_values demo_settings) (under ''rag.web'' @ ''key'') = Some (PStr ''B'')" by code_simp+
  have p: "CHR ''%'' \<notin> set ''rag.web''" "CHR ''_'' \<notin> set ''rag.web''" "\<not> prefix (under ''rag.web'') (under ''web'')" "\<not> prefix (under ''web'') (under ''rag.web'')"
    by (simp_all add: under_def)
  show ?thesis using prefix_renamed [OF ok p, of 2 "''key''" "[]"] unfolding s v by auto
qed

text \<open>
  The flattened rows of a dict that has a row of its own: the repair deletes them, and where the mapper
  does not notice a change in place their values are gone.
\<close>

definition demo_flattened :: config_store where
  "demo_flattened =
     \<lparr>cs_rows = [(''user.permissions'', \<lparr>cf_value = PDict [(''chat'', PDict [(''delete'', PBool True)])], cf_updated_at = 1\<rparr>),
                 (''user.permissions.chat.edit'', \<lparr>cf_value = PBool False, cf_updated_at = 1\<rparr>)],
      cs_defaults = [], cs_persistent = True, cs_oauth_persistent = False\<rparr>"

theorem repair_keeps_only_tracked_changes:
  "row_values (repair_config_rows False True (\<lambda>_. []) 2 demo_flattened)
     = [(''user.permissions'', PDict [(''chat'', PDict [(''delete'', PBool True), (''edit'', PBool False)])])]
   \<and> row_values (repair_config_rows False False (\<lambda>_. []) 2 demo_flattened)
     = [(''user.permissions'', PDict [(''chat'', PDict [(''delete'', PBool True)])])]"
  by code_simp

end
