(* ===== verification/Mfa_Policy.thy ===== *)
theory Mfa_Policy
  imports Signin Settings
begin

text \<open>
  The policy of second factors, the last functions of \<^verbatim>\<open>utils/mfa.py\<close>: the settings as they are stored,
  their validation against the stored secrets, and the transaction that changes them and revokes
  every session with them. Fresh uuids are arguments, two for every credential row.
\<close>

subsection \<open>Settings\<close>

definition MFA_CONFIG_KEYS :: "(string \<times> string) list" where
  "MFA_CONFIG_KEYS =
     [(''ENABLE_MFA'', ''auth.mfa.enable''), (''MFA_ALLOW_OAUTH_BYPASS'', ''auth.mfa.allow_oauth_bypass''),
      (''MFA_ALLOW_TRUSTED_HEADER_BYPASS'', ''auth.mfa.allow_trusted_header_bypass'')]"

text \<open>A \<open>StrictBool\<close> field with the default \<open>False\<close>: a value of another type is a validation error.\<close>

definition strict_bool :: "pydict \<Rightarrow> string \<Rightarrow> bool result" where
  "strict_bool d k = (case map_of d k of None \<Rightarrow> Inr False | Some (PBool b) \<Rightarrow> Inr b | Some _ \<Rightarrow> Inl (ValueError ''validation''))"

definition mfa_config_form :: "pydict \<Rightarrow> mfa_config result" where
  "mfa_config_form d =
     bind_result (strict_bool d ''ENABLE_MFA'') (\<lambda>a.
     bind_result (strict_bool d ''MFA_ALLOW_OAUTH_BYPASS'') (\<lambda>b.
     bind_result (strict_bool d ''MFA_ALLOW_TRUSTED_HEADER_BYPASS'') (\<lambda>c.
       Inr \<lparr>ENABLE_MFA = a, MFA_ALLOW_OAUTH_BYPASS = b, MFA_ALLOW_TRUSTED_HEADER_BYPASS = c\<rparr>)))"

text \<open>The fields whose keys a dict has, by field name.\<close>

definition fields_of :: "pydict \<Rightarrow> pydict" where
  "fields_of d = concat (map (\<lambda>(field, key). case map_of d key of None \<Rightarrow> [] | Some v \<Rightarrow> [(field, v)]) MFA_CONFIG_KEYS)"

text \<open>\<open>get_mfa_config\<close> also skips nulls.\<close>

definition get_mfa_config :: "config_store \<Rightarrow> mfa_config result" where
  "get_mfa_config st =
     mfa_config_form (filter (\<lambda>(k, v). v \<noteq> PNone) (fields_of (get_many st (map snd MFA_CONFIG_KEYS))))"

definition model_dump :: "mfa_config \<Rightarrow> pydict" where
  "model_dump c =
     [(''ENABLE_MFA'', PBool (ENABLE_MFA c)), (''MFA_ALLOW_OAUTH_BYPASS'', PBool (MFA_ALLOW_OAUTH_BYPASS c)),
      (''MFA_ALLOW_TRUSTED_HEADER_BYPASS'', PBool (MFA_ALLOW_TRUSTED_HEADER_BYPASS c))]"

subsection \<open>Validation\<close>

text \<open>
  \<open>deployed\<close> says that authentication and persistent settings are on, \<open>has_key\<close> that \<open>cipher()\<close>
  finds a key.
\<close>

definition validate_mfa_configuration :: "mfa_crypto \<Rightarrow> bool \<Rightarrow> bool \<Rightarrow> mfa_config \<Rightarrow> auth_table \<Rightarrow> unit result" where
  "validate_mfa_configuration cr deployed has_key config rows =
     (if \<not> ENABLE_MFA config then Inr ()
      else if \<not> deployed then Inl (ValueError ''MFA requires authentication and persistent configuration.'')
      else if \<not> has_key then Inl (ValueError ''A persistent WEBUI_SECRET_KEY is required for MFA.'')
      else if list_ex (\<lambda>r. case au_mfa r of None \<Rightarrow> False
                          | Some m \<Rightarrow> present (md_secret m) \<and> fernet_decrypt cr (the (md_secret m)) = None) rows
      then Inl (ValueError ''Stored MFA secrets cannot be decrypted. Restore the WEBUI_SECRET_KEY or MFA_ENCRYPTION_KEY they were encrypted with.'')
      else Inr ())"

subsection \<open>Changing the policy\<close>

text \<open>One account of \<open>revoke_all_sessions\<close>, whose reads and writes are in one transaction.\<close>

definition revoke_one :: "string \<times> string \<times> string \<Rightarrow> auth_table \<Rightarrow> auth_table result" where
  "revoke_one s rows =
     (case s of (user_id, uuid, stamp) \<Rightarrow>
       (case get_auth_by_id user_id rows of
          None \<Rightarrow> Inr rows
        | Some auth \<Rightarrow> (case clear_sessions auth uuid stamp rows of
            None \<Rightarrow> Inl (ValueError ''Authentication changed in another request. Please try again.'')
          | Some rows' \<Rightarrow> Inr rows')))"

definition revoke_all_sessions :: "(string \<times> string) list \<Rightarrow> auth_table \<Rightarrow> (string list \<times> auth_table) result" where
  "revoke_all_sessions uuids rows =
     (let user_ids = map au_id rows
      in bind_result (fold_result revoke_one (zip user_ids uuids) rows) (\<lambda>rows'. Inr (user_ids, rows')))"

text \<open>
  \<open>human\<close> says that the request carries a JWT of type \<open>session\<close>. The answer is whether the policy
  changed and whose sessions are disconnected. Settings that are not persistent are in the process,
  where the end of a failed transaction does not undo them.
\<close>

definition update_mfa_config ::
  "mfa_crypto \<Rightarrow> bool \<Rightarrow> bool \<Rightarrow> bool \<Rightarrow> int \<Rightarrow> pydict \<Rightarrow> (string \<times> string) list \<Rightarrow> config_store \<times> auth_table
     \<Rightarrow> (bool \<times> string list) result \<times> config_store \<times> auth_table" where
  "update_mfa_config cr web_auth has_key human now updates uuids db =
     (case db of (st, rows) \<Rightarrow>
        let relevant = fields_of updates; after = upsert now updates st;
            refused = HTTPException 409 ''Unable to update MFA policy. Check configuration and retry.''
        in if relevant = [] then (Inr (False, []), after, rows)
           else if \<not> human
           then (Inl (HTTPException 403 ''A human administrator session is required to change MFA settings.''), st, rows)
           else case bind_result (mfa_config_form (fields_of (row_values st))) (\<lambda>current.
                     bind_result (mfa_config_form (dict_merge (model_dump current) relevant)) (\<lambda>desired.
                     bind_result (validate_mfa_configuration cr (web_auth \<and> cs_persistent st) has_key desired rows) (\<lambda>_.
                       Inr (desired \<noteq> current)))) of
                  Inl _ \<Rightarrow> (Inl refused, st, rows)
                | Inr changed \<Rightarrow>
                    if \<not> changed then (Inr (False, []), after, rows)
                    else (case revoke_all_sessions uuids rows of
                            Inl _ \<Rightarrow> (Inl refused, st\<lparr>cs_defaults := cs_defaults after\<rparr>, rows)
                          | Inr (user_ids, rows') \<Rightarrow> (Inr (True, user_ids), after, rows')))"

text \<open>
  \<open>invalidate_token\<close> revokes in Redis what is still valid: the key it sets with its lifetime, and the user
  whose sessions it disconnects.
\<close>

definition invalidate_token ::
  "string \<Rightarrow> (string \<Rightarrow> string option reply) option \<Rightarrow> int \<Rightarrow> claims option \<Rightarrow> (string \<times> int \<times> string) option prog" where
  "invalidate_token key_prefix redis now decoded =
     (case decoded of
        None \<Rightarrow> Ret None
      | Some cl \<Rightarrow>
          if redis \<noteq> None \<and> present (cl_jti cl) \<and> (case cl_exp cl of Some e \<Rightarrow> e \<noteq> 0 | None \<Rightarrow> False)
          then let ttl = the (cl_exp cl) - now
               in if ttl > 0
                  then bind_prog (is_valid_token key_prefix redis cl) (\<lambda>ok.
                         Ret (if ok then Some (key_prefix @ '':auth:token:'' @ the (cl_jti cl) @ '':revoked'', ttl, cl_id cl) else None))
                  else Ret None
          else Ret None)"

subsection \<open>A change of policy ends every session\<close>

lemma revoke_one_row:
  assumes "distinct (map au_id rows)" and "u \<in> au_id ` set rows"
  shows "revoke_one (u, uuid, stamp) rows = Inr (map (\<lambda>r. if au_id r = u then revoked r uuid stamp r else r) rows)"
proof -
  from assms(2) obtain a where a: "a \<in> set rows" "au_id a = u" by auto
  with get_auth_by_id_mem [OF assms(1)] have find: "get_auth_by_id u rows = Some a" by blast
  have only: "au_id r = u \<longleftrightarrow> r = a" if "r \<in> set rows" for r
    using assms(1) a that by (auto simp: distinct_map inj_on_def)
  have same: "same_revision a r \<longleftrightarrow> r = a" if "r \<in> set rows" for r
    using only [OF that] a(2) by (auto simp: same_revision_def)
  have "filter (same_revision a) rows = filter (\<lambda>r. r = a) rows" by (rule filter_cong) (simp_all add: same)
  moreover have "distinct rows" using assms(1) by (simp add: distinct_map)
  then have "length (filter (\<lambda>r. r = a) rows) = 1" using a(1) by (simp add: distinct_length_filter Int_insert_left)
  ultimately have "clear_sessions a uuid stamp rows = Some (map (\<lambda>r. if same_revision a r then revoked a uuid stamp r else r) rows)"
    by (simp add: clear_sessions_def update_one_def)
  also have "map (\<lambda>r. if same_revision a r then revoked a uuid stamp r else r) rows
      = map (\<lambda>r. if au_id r = u then revoked r uuid stamp r else r) rows"
    by (rule map_cong) (auto simp: same only)
  finally show ?thesis by (simp add: revoke_one_def find)
qed

lemma revoked_id [simp]: "au_id (revoked a uuid stamp r) = au_id r"
  by (simp add: revoked_def)

lemma revoke_fold:
  assumes "distinct (map au_id rows)" and "distinct (map fst ss)" and "fst ` set ss \<subseteq> au_id ` set rows"
  shows "fold_result revoke_one ss rows
    = Inr (map (\<lambda>r. case map_of ss (au_id r) of Some (uuid, stamp) \<Rightarrow> revoked r uuid stamp r | None \<Rightarrow> r) rows)"
  using assms
proof (induction ss arbitrary: rows)
  case (Cons s ss)
  obtain u uuid stamp where s: "s = (u, uuid, stamp)" by (cases s)
  let ?rows = "map (\<lambda>r. if au_id r = u then revoked r uuid stamp r else r) rows"
  have ids: "map au_id ?rows = map au_id rows" by simp
  have one: "revoke_one s rows = Inr ?rows" using revoke_one_row [OF Cons.prems(1), of u] Cons.prems(3) s by simp
  have id_set: "au_id ` set ?rows = au_id ` set rows" using arg_cong [OF ids, of set] by (simp only: set_map)
  have "distinct (map au_id ?rows)" "distinct (map fst ss)" "fst ` set ss \<subseteq> au_id ` set ?rows"
    unfolding ids id_set using Cons.prems by simp_all
  from Cons.IH [OF this] have "fold_result revoke_one ss ?rows
      = Inr (map (\<lambda>r. case map_of ss (au_id r) of Some (uuid, stamp) \<Rightarrow> revoked r uuid stamp r | None \<Rightarrow> r) ?rows)" .
  moreover have "map_of ss u = None" using Cons.prems(2) s by (simp add: map_of_eq_None_iff)
  ultimately show ?case unfolding fold_result.simps one using s by (auto split: option.splits)
qed simp

lemma revoke_all:
  assumes "distinct (map au_id rows)" and "length uuids = length rows"
  obtains rows' where "revoke_all_sessions uuids rows = Inr (map au_id rows, rows')" and "length rows' = length rows"
    and "\<forall>i < length rows. rows' ! i = revoked (rows ! i) (fst (uuids ! i)) (snd (uuids ! i)) (rows ! i)"
proof -
  let ?ss = "zip (map au_id rows) uuids"
  let ?new = "\<lambda>r. case map_of ?ss (au_id r) of Some (uuid, stamp) \<Rightarrow> revoked r uuid stamp r | None \<Rightarrow> r"
  have "fold_result revoke_one ?ss rows = Inr (map ?new rows)"
    using assms by (intro revoke_fold) (auto simp: map_fst_zip dest: set_zip_leftD)
  moreover have "map_of ?ss (au_id (rows ! i)) = Some (uuids ! i)" if "i < length rows" for i
    using map_of_zip_nth [of "map au_id rows" uuids i] assms that by simp
  ultimately show ?thesis using that [of "map ?new rows"] by (simp add: revoke_all_sessions_def Let_def split: prod.splits)
qed

subsection \<open>The policy is read back\<close>

lemma fields_of_lookup:
  "map_of (fields_of d) ''ENABLE_MFA'' = map_of d ''auth.mfa.enable''"
  "map_of (fields_of d) ''MFA_ALLOW_OAUTH_BYPASS'' = map_of d ''auth.mfa.allow_oauth_bypass''"
  "map_of (fields_of d) ''MFA_ALLOW_TRUSTED_HEADER_BYPASS'' = map_of d ''auth.mfa.allow_trusted_header_bypass''"
  by (simp_all add: fields_of_def MFA_CONFIG_KEYS_def split: option.splits)

lemma distinct_fields: "distinct (map fst (fields_of d))"
proof -
  let ?get = "\<lambda>(field, key). case map_of d key of None \<Rightarrow> [] | Some v \<Rightarrow> [(field, v)]"
  have names: "fst ` set (concat (map ?get ks)) \<subseteq> fst ` set ks" for ks
  proof (induction ks)
    case (Cons fk ks)
    have "fst ` set (?get fk) \<subseteq> {fst fk}" by (cases fk) (auto split: option.splits)
    with Cons.IH show ?case by (simp only: list.map concat.simps set_append image_Un list.set image_insert) blast
  qed simp
  have "distinct (map fst ks) \<Longrightarrow> distinct (map fst (concat (map ?get ks)))" for ks
  proof (induction ks)
    case (Cons fk ks)
    with names [of ks] show ?case by (cases fk) (auto split: option.splits intro: rev_image_eqI)
  qed simp
  moreover have "distinct (map fst MFA_CONFIG_KEYS)" by code_simp
  ultimately show ?thesis unfolding fields_of_def by blast
qed

lemma mfa_config_form_cong:
  "(\<And>f. f \<in> fst ` set MFA_CONFIG_KEYS \<Longrightarrow> map_of d f = map_of e f) \<Longrightarrow> mfa_config_form d = mfa_config_form e"
  by (simp add: mfa_config_form_def strict_bool_def MFA_CONFIG_KEYS_def)

lemma strict_boolD: "strict_bool d k = Inr b \<Longrightarrow> map_of d k = Some v \<Longrightarrow> v = PBool b"
  by (auto simp: strict_bool_def split: py.splits)

lemma mfa_config_formD:
  assumes "mfa_config_form d = Inr c" and "f \<in> fst ` set MFA_CONFIG_KEYS" and "map_of d f = Some v"
  shows "map_of (model_dump c) f = Some v" and "v \<noteq> PNone"
proof -
  from assms(1) have c: "strict_bool d ''ENABLE_MFA'' = Inr (ENABLE_MFA c)" "strict_bool d ''MFA_ALLOW_OAUTH_BYPASS'' = Inr (MFA_ALLOW_OAUTH_BYPASS c)"
    "strict_bool d ''MFA_ALLOW_TRUSTED_HEADER_BYPASS'' = Inr (MFA_ALLOW_TRUSTED_HEADER_BYPASS c)"
    by (auto simp: mfa_config_form_def bind_result_Inr_iff)
  from assms(2) consider "f = ''ENABLE_MFA''" | "f = ''MFA_ALLOW_OAUTH_BYPASS''" | "f = ''MFA_ALLOW_TRUSTED_HEADER_BYPASS''"
    by (auto simp: MFA_CONFIG_KEYS_def)
  then show "map_of (model_dump c) f = Some v"
    by cases (use assms(3) strict_boolD c in \<open>auto simp: model_dump_def\<close>)
  then show "v \<noteq> PNone" by (auto simp: model_dump_def split: if_splits)
qed

definition policy_stored :: "config_store \<Rightarrow> bool" where
  "policy_stored st \<longleftrightarrow> cs_persistent st \<and> list_all (\<lambda>(field, key). key \<in> fst ` set (cs_rows st)) MFA_CONFIG_KEYS"

lemma policy_lookup:
  assumes "policy_stored st" and "(f, k) \<in> set MFA_CONFIG_KEYS"
  shows "persistent_enabled_for st k" and "lookup st k = map_of (row_values st) k" and "map_of (row_values st) k \<noteq> None"
proof -
  show p: "persistent_enabled_for st k"
    using assms by (auto simp: persistent_enabled_for_def policy_stored_def MFA_CONFIG_KEYS_def)
  have "map_of (cs_rows st) k \<noteq> None" using assms by (auto simp: policy_stored_def list_all_iff mem_keys)
  then show "lookup st k = map_of (row_values st) k" "map_of (row_values st) k \<noteq> None"
    using p by (auto simp: lookup_def row_values_map)
qed

lemma policy_read_back:
  assumes st: "policy_stored st" and us: "distinct (map fst updates)"
    and cur: "mfa_config_form (fields_of (row_values st)) = Inr current"
    and des: "mfa_config_form (dict_merge (model_dump current) (fields_of updates)) = Inr desired"
  shows "get_mfa_config (upsert now updates st) = Inr desired"
proof -
  let ?many = "get_many (upsert now updates st) (map snd MFA_CONFIG_KEYS)"
  have "map_of (filter (\<lambda>(k, v). v \<noteq> PNone) (fields_of ?many)) f = map_of (dict_merge (model_dump current) (fields_of updates)) f"
    if f: "f \<in> fst ` set MFA_CONFIG_KEYS" for f
  proof -
    from f obtain k where fk: "(f, k) \<in> set MFA_CONFIG_KEYS" by auto
    have field: "map_of (fields_of d) f = map_of d k" for d using fk by (auto simp: MFA_CONFIG_KEYS_def fields_of_lookup)
    have k: "k \<in> set (map snd MFA_CONFIG_KEYS)" using fk by force
    let ?v = "case map_of updates k of Some v \<Rightarrow> Some v | None \<Rightarrow> map_of (row_values st) k"
    have many: "map_of (fields_of ?many) f = ?v"
      unfolding field map_of_get_many using k policy_lookup(2) [OF st fk] config_settings.look_put [OF us] by (simp split: option.splits)
    have merged: "map_of (dict_merge (model_dump current) (fields_of updates)) f = ?v"
      unfolding map_of_dict_merge [OF distinct_fields] field
      using mfa_config_formD(1) [OF cur f, unfolded field] policy_lookup(3) [OF st fk] by (auto split: option.splits)
    obtain v where v: "?v = Some v" using policy_lookup(3) [OF st fk] by (cases "map_of updates k") auto
    have "v \<noteq> PNone" using mfa_config_formD(2) [OF des f, of v] merged v by simp
    moreover have "map_of (filter (\<lambda>(k, v). v \<noteq> PNone) d) f = Some v" if "map_of d f = Some v" "distinct (map fst d)" for d
      using that \<open>v \<noteq> PNone\<close> by (simp add: distinct_filter_keys)
    ultimately show ?thesis using many merged v distinct_fields by metis
  qed
  then show ?thesis unfolding get_mfa_config_def using mfa_config_form_cong des by metis
qed



subsection \<open>An example\<close>

definition demo_cipher :: mfa_crypto where
  "demo_cipher = \<lparr>token_hash = (\<lambda>t. t), totp_at = (\<lambda>_ _. []), fernet_decrypt = Some, fernet_encrypt = (\<lambda>_ s. Some s)\<rparr>"

definition demo_policy :: config_store where
  "demo_policy =
     \<lparr>cs_rows = map (\<lambda>(f, k). (k, \<lparr>cf_value = PBool False, cf_updated_at = 1\<rparr>)) MFA_CONFIG_KEYS,
      cs_defaults = [], cs_persistent = True, cs_oauth_persistent = False\<rparr>"

definition demo_credentials :: auth_table where
  "demo_credentials = [\<lparr>au_id = ''u'', au_email = [], au_password = [], au_active = True, au_mfa = None, au_session_stamp = Some ''old''\<rparr>]"

definition demo_change :: "(bool \<times> string list) result \<times> config_store \<times> auth_table" where
  "demo_change = update_mfa_config demo_cipher True True True 2 [(''auth.mfa.enable'', PBool True)] [(''u1'', ''new'')] (demo_policy, demo_credentials)"

lemma demo_change_accepted: "fst demo_change = Inr (True, [''u''])"
  by code_simp


end
