(* ===== verification/Db_Text.thy ===== *)
theory Db_Text
  imports Py_Objects "HOL-Library.Sublist"
begin

text \<open>
  The cleaning of values before they are stored (\<^verbatim>\<open>utils/misc.py\<close>): null bytes and surrogates are
  dropped from every string of a JSON value. \<open>sanitize_data_for_db\<close> first looks for them in the
  serialized value and walks the value only when one is found; that is always what the walk gives.
  A string stands for its UTF-8 bytes, a surrogate for the three bytes it would have.
\<close>

definition surrogate :: "char \<Rightarrow> char \<Rightarrow> char \<Rightarrow> bool" where
  "surrogate a b c \<longleftrightarrow> of_char a = (0xED :: nat) \<and> 0xA0 \<le> (of_char b :: nat) \<and> (of_char b :: nat) \<le> 0xBF
     \<and> 0x80 \<le> (of_char c :: nat) \<and> (of_char c :: nat) \<le> 0xBF"

fun has_surrogate :: "string \<Rightarrow> bool" where
  "has_surrogate (a # b # c # s) = (surrogate a b c \<or> has_surrogate (b # c # s))"
| "has_surrogate _ = False"

fun drop_surrogates :: "string \<Rightarrow> string" where
  "drop_surrogates (a # b # c # s) = (if surrogate a b c then drop_surrogates s else a # drop_surrogates (b # c # s))"
| "drop_surrogates s = s"

definition clean_text :: "string \<Rightarrow> bool" where
  "clean_text s \<longleftrightarrow> CHR 0x00 \<notin> set s \<and> \<not> has_surrogate s"

definition sanitize_text_for_db :: "string \<Rightarrow> string" where
  "sanitize_text_for_db s = (if clean_text s then s else drop_surrogates (filter (\<lambda>c. c \<noteq> CHR 0x00) s))"

fun strip_null_bytes_deep :: "py \<Rightarrow> py" where
  "strip_null_bytes_deep (PStr s) = PStr (sanitize_text_for_db s)"
| "strip_null_bytes_deep (PDict d) =
     PDict (dict_merge [] (map (\<lambda>(k, v). (sanitize_text_for_db k, strip_null_bytes_deep v)) d))"
| "strip_null_bytes_deep (PList xs) = PList (map strip_null_bytes_deep xs)"
| "strip_null_bytes_deep v = v"

text \<open>The characters of an escaped null byte in the serialized value, or a surrogate that does not encode.\<close>

definition escaped_nul :: string where
  "escaped_nul = CHR 0x5C # ''u0000''"

definition sanitize_data_for_db :: "(py \<Rightarrow> string) \<Rightarrow> py \<Rightarrow> py" where
  "sanitize_data_for_db float_repr v =
     (case v of
        PStr s \<Rightarrow> PStr (sanitize_text_for_db s)
      | _ \<Rightarrow> (let serialized = json_dumps '' '' float_repr v
             in if \<not> sublist escaped_nul serialized \<and> \<not> has_surrogate serialized then v
                else strip_null_bytes_deep v))"

subsection \<open>What a clean value is\<close>

fun all_text :: "(string \<Rightarrow> bool) \<Rightarrow> py \<Rightarrow> bool" where
  "all_text P (PStr s) = P s"
| "all_text P (PDict d) = list_all (\<lambda>(k, v). P k \<and> all_text P v) d"
| "all_text P (PList xs) = list_all (all_text P) xs"
| "all_text P _ = True"

text \<open>Values a program can hold: the keys of every dict are distinct.\<close>

fun keys_distinct :: "py \<Rightarrow> bool" where
  "keys_distinct (PDict d) = (distinct (map fst d) \<and> list_all (\<lambda>(_, v). keys_distinct v) d)"
| "keys_distinct (PList xs) = list_all keys_distinct xs"
| "keys_distinct _ = True"

lemma drop_surrogates_same: "\<not> has_surrogate s \<Longrightarrow> drop_surrogates s = s"
  by (induction s rule: has_surrogate.induct) simp_all

lemma set_drop_surrogates: "set (drop_surrogates s) \<subseteq> set s"
  by (induction s rule: drop_surrogates.induct) auto

lemma sanitize_text_no_nul: "CHR 0x00 \<notin> set (sanitize_text_for_db s)"
  using set_drop_surrogates [of "filter (\<lambda>c. c \<noteq> CHR 0x00) s"]
  by (auto simp: sanitize_text_for_db_def clean_text_def)

lemma has_surrogate_iff: "has_surrogate s \<longleftrightarrow> (\<exists>a b c. surrogate a b c \<and> sublist [a, b, c] s)"
proof (induction s rule: has_surrogate.induct)
  case (1 a b c s)
  then show ?case by (auto simp: sublist_Cons_right)
qed (auto simp: sublist_Cons_right)

lemma dict_merge_distinct: "distinct (map fst (a @ b)) \<Longrightarrow> dict_merge a b = a @ b"
proof (induction b arbitrary: a)
  case (Cons x b)
  obtain k v where x: "x = (k, v)" by (cases x)
  have "AList.update k v a = a @ [(k, v)]" using Cons.prems by (intro update_new) (auto simp: x)
  with Cons.IH [of "a @ [(k, v)]"] Cons.prems show ?case by (simp add: dict_merge_def x)
qed (simp add: dict_merge_def)

lemma strip_clean: "keys_distinct v \<Longrightarrow> all_text clean_text v \<Longrightarrow> strip_null_bytes_deep v = v"
proof (induction v rule: strip_null_bytes_deep.induct)
  case (2 d)
  have "map (\<lambda>(k, v). (sanitize_text_for_db k, strip_null_bytes_deep v)) d = d"
    using 2 by (intro map_idI) (fastforce simp: list_all_iff sanitize_text_for_db_def)
  with 2 dict_merge_distinct [of "[]" d] show ?case by simp
next
  case (3 xs)
  then show ?case by (auto simp: list_all_iff intro: map_idI)
qed (simp_all add: sanitize_text_for_db_def)

subsection \<open>The serialized value shows what is to be cleaned\<close>

lemma escape_nul: "escape_char (CHR 0x00) = escaped_nul"
  by code_simp

lemma sublist_mid: "sublist x y \<Longrightarrow> sublist x (a @ y @ b)"
  by (metis sublist_appendI sublist_order.order.trans)

lemma sublist_concat: "x \<in> set xs \<Longrightarrow> sublist (f x) (concat (map f xs))"
proof (induction xs)
  case (Cons y ys)
  then show ?case using sublist_mid [of "f x" "concat (map f ys)" "f y" "[]"] by auto
qed simp

lemma sublist_join: "x \<in> set xs \<Longrightarrow> sublist x (join sep xs)"
proof (induction sep xs rule: join.induct)
  case (3 sep x' y xs)
  show ?case
  proof (cases "x = x'")
    case True
    then show ?thesis using sublist_mid [of x' x' "[]"] by simp
  next
    case False
    with 3 have "sublist x (join sep (y # xs))" by simp
    from sublist_mid [OF this, of "x' @ sep" "[]"] show ?thesis by simp
  qed
qed simp_all

lemma escape_high:
  assumes "0x80 \<le> (of_char c :: nat)"
  shows "escape_char c = [c]"
proof -
  have "\<forall>p \<in> set simple_escapes. (of_char (fst p) :: nat) < 0x80" by code_simp
  with assms have "map_of simple_escapes c = None" by (force simp: map_of_eq_None_iff)
  with assms show ?thesis by (simp add: escape_char_def Let_def)
qed

lemma escape_surrogate: "surrogate a b c \<Longrightarrow> concat (map escape_char [a, b, c]) = [a, b, c]"
  by (simp add: surrogate_def escape_high)

text \<open>Text that is not clean leaves a trace in whatever contains its JSON form.\<close>

definition dirty :: "string \<Rightarrow> bool" where
  "dirty t \<longleftrightarrow> sublist escaped_nul t \<or> has_surrogate t"

lemma dirty_sublist: "dirty t \<Longrightarrow> sublist t u \<Longrightarrow> dirty u"
  unfolding dirty_def has_surrogate_iff by (meson sublist_order.order.trans)

lemma json_string_dirty: "\<not> clean_text s \<Longrightarrow> dirty (json_string s)"
proof -
  have body: "dirty (concat (map escape_char s))" if "\<not> clean_text s"
  proof (cases "CHR 0x00 \<in> set s")
    case True
    from sublist_concat [OF this, of escape_char] show ?thesis by (simp add: dirty_def escape_nul)
  next
    case False
    with that obtain a b c where abc: "surrogate a b c" "sublist [a, b, c] s" by (auto simp: clean_text_def has_surrogate_iff)
    from abc(2) obtain p q where s: "s = p @ [a, b, c] @ q" by (auto simp: sublist_def)
    have "sublist [a, b, c] (concat (map escape_char s))"
      using escape_surrogate [OF abc(1)] unfolding s map_append concat_append by (metis sublist_appendI)
    with abc(1) show ?thesis by (auto simp: dirty_def has_surrogate_iff)
  qed
  assume "\<not> clean_text s"
  from dirty_sublist [OF body [OF this] sublist_mid [of _ _ "[CHR 0x22]" "[CHR 0x22]"]]
  show ?thesis by (simp add: json_string_def)
qed

lemma json_dumps_dirty: "\<not> all_text clean_text v \<Longrightarrow> dirty (json_dumps sp fr v)"
proof (induction v rule: strip_null_bytes_deep.induct)
  case (1 s)
  then show ?case by (simp add: json_string_dirty)
next
  case (2 d)
  then obtain k v where kv: "(k, v) \<in> set d" "\<not> clean_text k \<or> \<not> all_text clean_text v" by (auto simp: list_all_iff)
  let ?m = "\<lambda>(k, v). json_string k @ CHR '':'' # sp @ json_dumps sp fr v"
  have "dirty (?m (k, v))"
  proof (cases "clean_text k")
    case False
    from dirty_sublist [OF json_string_dirty [OF this] sublist_mid [of _ _ "[]" "CHR '':'' # sp @ json_dumps sp fr v"]]
    show ?thesis by simp
  next
    case True
    with kv 2(1) have "dirty (json_dumps sp fr v)" by auto
    from dirty_sublist [OF this sublist_mid [of _ _ "json_string k @ CHR '':'' # sp" "[]"]] show ?thesis by simp
  qed
  moreover have "sublist (?m (k, v)) (join (CHR '','' # sp) (map ?m d))" using kv(1) by (intro sublist_join) force
  ultimately have "dirty (join (CHR '','' # sp) (map ?m d))" by (rule dirty_sublist)
  from dirty_sublist [OF this sublist_mid [of _ _ "''{''" "''}''"]] show ?case by simp
next
  case (3 xs)
  then obtain v where v: "v \<in> set xs" "dirty (json_dumps sp fr v)" by (auto simp: list_all_iff)
  from v(1) have "sublist (json_dumps sp fr v) (join (CHR '','' # sp) (map (json_dumps sp fr) xs))"
    by (intro sublist_join) simp
  with v(2) have "dirty (join (CHR '','' # sp) (map (json_dumps sp fr) xs))" by (rule dirty_sublist)
  from dirty_sublist [OF this sublist_mid [of _ _ "''[''" "'']''"]] show ?case by simp
qed simp_all

lemma dict_merge_all:
  "list_all (\<lambda>(k, v). P k \<and> Q v) b \<Longrightarrow> list_all (\<lambda>(k, v). P k \<and> Q v) a \<Longrightarrow> list_all (\<lambda>(k, v). P k \<and> Q v) (dict_merge a b)"
proof (induction b arbitrary: a)
  case (Cons x b)
  obtain k v where x: "x = (k, v)" by (cases x)
  have "list_all (\<lambda>(k, v). P k \<and> Q v) (AList.update k v a)" if "list_all (\<lambda>(k, v). P k \<and> Q v) a" for a
    using that Cons.prems(1) by (induction a) (auto simp: x)
  with Cons show ?case by (simp add: dict_merge_def x)
qed (simp add: dict_merge_def)

lemma strip_no_nul: "all_text (\<lambda>s. CHR 0x00 \<notin> set s) (strip_null_bytes_deep v)"
proof (induction v rule: strip_null_bytes_deep.induct)
  case (2 d)
  have "list_all (\<lambda>(k, v). CHR 0x00 \<notin> set k \<and> all_text (\<lambda>s. CHR 0x00 \<notin> set s) v)
      (map (\<lambda>(k, v). (sanitize_text_for_db k, strip_null_bytes_deep v)) d)"
    using 2 by (auto simp: list_all_iff sanitize_text_no_nul)
  from dict_merge_all [OF this, of "[]"] show ?case by simp
qed (auto simp: list_all_iff sanitize_text_no_nul)

text \<open>
  The check on the serialized value is exact: storing goes through what the walk over the value
  gives, and no string of it, key or value, has a null byte.
\<close>

theorem sanitize_data_exact:
  assumes "keys_distinct v"
  shows "sanitize_data_for_db float_repr v = strip_null_bytes_deep v
    \<and> all_text (\<lambda>s. CHR 0x00 \<notin> set s) (sanitize_data_for_db float_repr v)"
proof -
  have "strip_null_bytes_deep v = v" if "\<not> dirty (json_dumps '' '' float_repr v)"
    using strip_clean [OF assms] json_dumps_dirty [of v] that by blast
  then have "sanitize_data_for_db float_repr v = strip_null_bytes_deep v"
    by (cases v) (auto simp: sanitize_data_for_db_def dirty_def Let_def)
  with strip_no_nul show ?thesis by simp
qed

lemma sanitize_same:
  "keys_distinct v \<Longrightarrow> all_text clean_text v \<Longrightarrow> sanitize_data_for_db float_repr v = v"
  using strip_clean [of v] by (cases v) (auto simp: sanitize_data_for_db_def Let_def)

end
