(* ===== verification/Chat_History.thy ===== *)
theory Chat_History
  imports Messages Db_Text
begin

text \<open>
  The message tree of a chat, the history functions of \<^verbatim>\<open>models/chats.py\<close>. A history is the JSON dict
  \<open>{'messages': {...}, 'currentId': ...}\<close>; a message names its parent in \<open>parentId\<close>, and the parent
  lists it in \<open>childrenIds\<close>. Both directions are stored, by the server and by clients, so they can
  disagree. Here are the functions that read, write, merge and repair the tree, and what they keep
  of the agreement. Lists and dicts the code changes in place are returned changed: no two messages
  of a history share a list.
\<close>

subsection \<open>Reading\<close>

text \<open>\<open>d.get(k, dflt)\<close> and \<open>k in d\<close> for a key of unknown type.\<close>

definition get_item :: "pydict \<Rightarrow> py \<Rightarrow> py \<Rightarrow> py result" where
  "get_item d k dflt = (case k of PStr s \<Rightarrow> Inr (dget d s dflt) | _ \<Rightarrow> if hashable k then Inr dflt else Inl TypeError)"

definition has_key :: "pydict \<Rightarrow> py \<Rightarrow> bool result" where
  "has_key d k = (case k of PStr s \<Rightarrow> Inr (s \<in> fst ` set d) | _ \<Rightarrow> if hashable k then Inr False else Inl TypeError)"

definition as_list :: "py \<Rightarrow> py list" where
  "as_list v = (case v of PList xs \<Rightarrow> xs | _ \<Rightarrow> [])"

definition as_dict :: "py \<Rightarrow> pydict" where
  "as_dict v = (case v of PDict d \<Rightarrow> d | _ \<Rightarrow> [])"

text \<open>\<open>get_current_message_id\<close>; the chat is the JSON column.\<close>

definition get_current_message_id :: "pydict \<Rightarrow> py" where
  "get_current_message_id chat =
     (let history = as_dict (pget chat ''history'');
          current_id = py_or (pget history ''currentId'') (py_or (pget chat ''currentId'') (pget chat ''branchPointMessageId''))
      in if truthy current_id then current_id
         else case find (\<lambda>m. truthy (pget (as_dict m) ''id'')) (rev (as_list (pget chat ''messages''))) of
                Some m \<Rightarrow> pget (as_dict m) ''id''
              | None \<Rightarrow> PNone)"

definition parent_gap :: "pydict \<Rightarrow> py \<Rightarrow> py list result" where
  "parent_gap messages_map v =
     bind_result (dict_of v) (\<lambda>m.
       if truthy (pget m ''parentId'')
       then bind_result (has_key messages_map (pget m ''parentId'')) (\<lambda>known. Inr (if known then [] else [pget m ''parentId'']))
       else Inr [])"

definition get_unresolved_parent_ids :: "pydict \<Rightarrow> py list result" where
  "get_unresolved_parent_ids messages_map = concat_result (parent_gap messages_map) (map snd messages_map)"

subsection \<open>Repair\<close>

definition valid_child :: "pydict \<Rightarrow> string list \<Rightarrow> string \<Rightarrow> py \<Rightarrow> bool" where
  "valid_child messages seen_ids message_id child_id =
     (case child_id of
        PStr s \<Rightarrow> s \<notin> set seen_ids
          \<and> (case map_of messages s of
               Some (PDict child) \<Rightarrow> pget child ''id'' = PStr s \<and> truthy (pget child ''role'')
                 \<and> pget child ''parentId'' = PStr message_id
             | _ \<Rightarrow> False)
      | _ \<Rightarrow> False)"

function last_descendant :: "pydict \<Rightarrow> string \<Rightarrow> string list \<Rightarrow> string" where
  "last_descendant messages message_id seen_ids =
     (case map_of messages message_id of
        None \<Rightarrow> message_id
      | Some message \<Rightarrow>
          if message_id \<in> set seen_ids then message_id
          else case find (valid_child messages (message_id # seen_ids) message_id)
                      (rev (as_list (pget (as_dict message) ''childrenIds''))) of
                 Some (PStr next_id) \<Rightarrow>
                   if next_id = [] then message_id else last_descendant messages next_id (message_id # seen_ids)
               | _ \<Rightarrow> message_id)"
  by pat_completeness auto
termination
proof (relation "measure (\<lambda>(mm, _, seen). card (fst ` set mm - set seen))", goal_cases)
  case (2 mm i seen v c s)
  then have "i \<in> fst ` set mm" by (auto dest!: map_of_SomeD intro: rev_image_eqI)
  with 2 have "fst ` set mm - set (i # seen) \<subset> fst ` set mm - set seen" by auto
  from psubset_card_mono [OF _ this] show ?case by simp
qed simp

declare last_descendant.simps [simp del]

definition last_descendant_id :: "pydict \<Rightarrow> string \<Rightarrow> string" where
  "last_descendant_id messages message_id = last_descendant messages message_id []"

text \<open>\<open>_add_child_id_to_parent\<close>: the messages, and whether they changed.\<close>

definition add_child_id_to_parent :: "pydict \<Rightarrow> py \<Rightarrow> string \<Rightarrow> (pydict \<times> bool) result" where
  "add_child_id_to_parent messages parent_id child_id =
     bind_result (if truthy parent_id then get_item messages parent_id PNone else Inr PNone) (\<lambda>parent.
       case (parent_id, parent) of
         (PStr p, PDict m) \<Rightarrow>
           let child_ids = as_list (pget m ''childrenIds'')
           in if py_in (PStr child_id) child_ids then Inr (messages, False)
              else Inr (AList.update p (PDict (AList.update ''childrenIds'' (PList (child_ids @ [PStr child_id])) m)) messages, True)
       | _ \<Rightarrow> Inr (messages, False))"

definition repair_link :: "string \<times> py \<Rightarrow> pydict \<times> bool \<Rightarrow> (pydict \<times> bool) result" where
  "repair_link item st =
     (case (item, st) of ((message_id, message), (messages, changed)) \<Rightarrow>
        case message of
          PDict m \<Rightarrow> bind_result (add_child_id_to_parent messages (pget m ''parentId'') message_id)
                       (\<lambda>(messages, added). Inr (messages, added \<or> changed))
        | _ \<Rightarrow> Inr (messages, changed))"

text \<open>\<open>output_role\<close>: the first role an output item carries.\<close>

definition output_role :: "py \<Rightarrow> py result" where
  "output_role output =
     bind_result (py_iter output) (\<lambda>items.
       Inr (case find (\<lambda>item. truthy (pget (as_dict item) ''role'')) items of
              Some item \<Rightarrow> pget (as_dict item) ''role''
            | None \<Rightarrow> PNone))"

text \<open>\<open>a > b\<close> on timestamps; a non-finite one compares as a value that is not a number.\<close>

definition later_than :: "py \<Rightarrow> py \<Rightarrow> bool result" where
  "later_than a b =
     (case (py_number a, py_number b) of
        (Some x, Some y) \<Rightarrow> Inr (y < x)
      | _ \<Rightarrow> if (a = PNonFinite \<or> py_number a \<noteq> None) \<and> (b = PNonFinite \<or> py_number b \<noteq> None) then Inr False
             else Inl TypeError)"

definition leaf_step :: "string \<times> py \<Rightarrow> string option \<times> py \<Rightarrow> (string option \<times> py) result" where
  "leaf_step item st =
     (case (item, st) of ((message_id, message), (latest_leaf_id, latest_timestamp)) \<Rightarrow>
        case message of
          PDict m \<Rightarrow>
            let timestamp = py_or (pget m ''timestamp'') (PInt 0)
            in if \<not> truthy (pget m ''role'') \<or> as_list (pget m ''childrenIds'') \<noteq> [] then Inr st
               else bind_result (later_than timestamp latest_timestamp) (\<lambda>later.
                      Inr (if later then (Some message_id, timestamp) else st))
        | _ \<Rightarrow> Inr st)"

text \<open>
  The repair of a history whose \<open>messages\<close> is a dict: the links from parents are completed, then
  \<open>currentId\<close> moves to the last descendant, or to the latest leaf when it does not name a message.
\<close>

definition bad_leaf :: "pydict \<Rightarrow> py \<Rightarrow> bool result" where
  "bad_leaf messages current_message =
     bind_result (output_role (py_or (pget (as_dict current_message) ''output'') (PList []))) (\<lambda>role.
       Inr (is_dict current_message \<and> role = PStr ''assistant'' \<and> pget (as_dict current_message) ''parentId'' = PNone
            \<and> \<not> truthy (pget (as_dict current_message) ''timestamp'') \<and> 1 < length messages))"

definition repair_current :: "pydict \<Rightarrow> py \<Rightarrow> py result" where
  "repair_current messages current_id =
     bind_result (get_item messages current_id PNone) (\<lambda>current_message.
     bind_result (bad_leaf messages current_message) (\<lambda>bad.
       let m = as_dict current_message
       in if is_dict current_message \<and> truthy (pget m ''id'') \<and> truthy (pget m ''role'') \<and> \<not> bad
          then Inr (case current_id of PStr s \<Rightarrow> PStr (last_descendant_id messages s) | v \<Rightarrow> v)
          else bind_result (fold_result leaf_step messages (None, PInt (- 1))) (\<lambda>(latest_leaf_id, _).
                 Inr (case latest_leaf_id of
                        Some l \<Rightarrow> if l = [] then current_id else PStr l
                      | None \<Rightarrow> current_id))))"

definition repair_chat_current_id :: "pydict \<Rightarrow> (pydict \<times> bool) result" where
  "repair_chat_current_id chat =
     (case pget chat ''history'' of
        PDict history \<Rightarrow>
          (case pget history ''messages'' of
             PDict messages \<Rightarrow>
               bind_result (fold_result repair_link messages (messages, False)) (\<lambda>(messages, changed).
               bind_result (repair_current messages (pget history ''currentId'')) (\<lambda>current_id.
                 let history = AList.update ''messages'' (PDict messages) history;
                     moved = current_id \<noteq> pget history ''currentId'';
                     history = (if moved then AList.update ''currentId'' current_id history else history)
                 in Inr (AList.update ''history'' (PDict history) chat, moved \<or> changed)))
           | _ \<Rightarrow> Inr (chat, False))
      | _ \<Rightarrow> Inr (chat, False))"

subsection \<open>Merging\<close>

text \<open>\<open>(history or {}).get('messages') or {}\<close>, and \<open>{**v}\<close>.\<close>

definition history_messages :: "py \<Rightarrow> py result" where
  "history_messages history =
     bind_result (dict_of (py_or history (PDict []))) (\<lambda>h. Inr (py_or (pget h ''messages'') (PDict [])))"

definition spread :: "py \<Rightarrow> pydict result" where
  "spread v = (case v of PDict d \<Rightarrow> Inr d | _ \<Rightarrow> Inl TypeError)"

text \<open>The messages without their links, those that are dicts.\<close>

definition unlinked :: "pydict \<Rightarrow> pydict" where
  "unlinked ms =
     concat (map (\<lambda>(k, v). case v of PDict m \<Rightarrow> [(k, PDict (AList.update ''childrenIds'' (PList []) m))] | _ \<Rightarrow> []) ms)"

definition link_step :: "string \<times> py \<Rightarrow> pydict \<Rightarrow> pydict result" where
  "link_step item merged =
     (case item of (message_id, message) \<Rightarrow>
        let parent_id = pget (as_dict message) ''parentId''
        in bind_result (has_key merged parent_id) (\<lambda>known.
             case parent_id of
               PStr p \<Rightarrow>
                 if known then
                   let parent = as_dict (pget merged p)
                   in Inr (AList.update p (PDict (AList.update ''childrenIds''
                        (PList (as_list (pget parent ''childrenIds'') @ [PStr message_id])) parent)) merged)
                 else Inr merged
             | _ \<Rightarrow> Inr merged))"

definition merge_current :: "pydict \<Rightarrow> py \<Rightarrow> py \<Rightarrow> py result" where
  "merge_current merged incoming_id existing_id =
     bind_result (has_key merged incoming_id) (\<lambda>known.
       if known then Inr incoming_id
       else bind_result (has_key merged existing_id) (\<lambda>known. Inr (if known then existing_id else PNone)))"

definition merge_history :: "py \<Rightarrow> py \<Rightarrow> pydict result" where
  "merge_history existing_history incoming_history =
     bind_result (history_messages existing_history) (\<lambda>existing.
     bind_result (history_messages incoming_history) (\<lambda>incoming.
     bind_result (spread existing) (\<lambda>existing.
     bind_result (spread incoming) (\<lambda>incoming.
       let merged = unlinked (dict_merge existing incoming);
           old = as_dict existing_history; new = as_dict incoming_history
       in bind_result (fold_result link_step merged merged) (\<lambda>merged.
          bind_result (merge_current merged (pget new ''currentId'') (pget old ''currentId'')) (\<lambda>current_id.
            Inr (AList.update ''currentId'' current_id
                  (AList.update ''messages'' (PDict merged) (dict_merge old new)))))))))"

subsection \<open>Deleting\<close>

text \<open>\<open>[x for x in (v or []) if x in messages]\<close>.\<close>

definition known_ids :: "pydict \<Rightarrow> py \<Rightarrow> string list result" where
  "known_ids messages v =
     bind_result (py_iter (py_or v (PList []))) (concat_result (\<lambda>c.
       bind_result (has_key messages c) (\<lambda>known. Inr (case c of PStr s \<Rightarrow> if known then [s] else [] | _ \<Rightarrow> []))))"

definition child_ids_of :: "pydict \<Rightarrow> string \<Rightarrow> string list result" where
  "child_ids_of messages i =
     bind_result (dict_of (dget messages i (PDict []))) (\<lambda>m. known_ids messages (pget m ''childrenIds''))"

text \<open>\<open>messages[parent_id]['childrenIds'] = [...] + grandchild_ids\<close>.\<close>

definition adopt :: "py \<Rightarrow> string \<Rightarrow> string list \<Rightarrow> pydict \<Rightarrow> pydict result" where
  "adopt parent_id message_id grandchild_ids messages =
     bind_result (has_key messages parent_id) (\<lambda>known.
       case parent_id of
         PStr p \<Rightarrow>
           if known then
             bind_result (dict_of (pget messages p)) (\<lambda>parent.
             bind_result (py_iter (py_or (pget parent ''childrenIds'') (PList []))) (\<lambda>ids.
               Inr (AList.update p (PDict (AList.update ''childrenIds''
                 (PList (filter (\<lambda>c. \<not> py_eq c (PStr message_id)) ids @ map PStr grandchild_ids)) parent)) messages)))
           else Inr messages
       | _ \<Rightarrow> Inr messages)"

text \<open>\<open>messages[grandchild_id]['parentId'] = parent_id\<close>.\<close>

definition reparent :: "py \<Rightarrow> string \<Rightarrow> pydict \<Rightarrow> pydict result" where
  "reparent parent_id i messages =
     (case pget messages i of
        PDict m \<Rightarrow> Inr (AList.update i (PDict (AList.update ''parentId'' parent_id m)) messages)
      | _ \<Rightarrow> Inl TypeError)"

text \<open>\<open>v[-1]\<close>, where \<open>v\<close> is not empty.\<close>

definition last_item :: "py \<Rightarrow> py result" where
  "last_item v = (case v of PList xs \<Rightarrow> Inr (last xs) | PStr s \<Rightarrow> Inr (PStr [last s]) | PDict _ \<Rightarrow> Inl KeyError | _ \<Rightarrow> Inl TypeError)"

text \<open>The walk to the last message of the branch; an id that is not stored has no children.\<close>

function descend :: "pydict \<Rightarrow> py \<Rightarrow> string list \<Rightarrow> py \<Rightarrow> py result" where
  "descend messages child_ids visited_ids current_id =
     (if \<not> truthy child_ids then Inr current_id
      else case last_item child_ids of
             Inl e \<Rightarrow> Inl e
           | Inr c \<Rightarrow>
               (case c of
                  PStr s \<Rightarrow>
                    (if s \<in> set visited_ids then Inr current_id
                     else case map_of messages s of
                            None \<Rightarrow> Inr c
                          | Some (PDict m) \<Rightarrow> descend messages (pget m ''childrenIds'') (s # visited_ids) c
                          | Some _ \<Rightarrow> Inl AttributeError)
                | _ \<Rightarrow> if hashable c then Inr c else Inl TypeError))"
  by pat_completeness auto
termination
proof (relation "measure (\<lambda>(mm, _, seen, _). card (fst ` set mm - set seen))", goal_cases)
  case (2 mm ids seen cur c s v m)
  then have "s \<in> fst ` set mm" by (auto dest!: map_of_SomeD intro: rev_image_eqI)
  with 2 have "fst ` set mm - set (s # seen) \<subset> fst ` set mm - set seen" by auto
  from psubset_card_mono [OF _ this] show ?case by simp
qed simp

declare descend.simps [simp del]

definition root_ids :: "pydict \<Rightarrow> py list result" where
  "root_ids messages =
     concat_result (\<lambda>(k, v). bind_result (dict_of v) (\<lambda>m. Inr (if pget m ''parentId'' = PNone then [PStr k] else []))) messages"

definition branch_end :: "pydict \<Rightarrow> py \<Rightarrow> py result" where
  "branch_end messages parent_id =
     bind_result (if parent_id = PNone then bind_result (root_ids messages) (\<lambda>ids. Inr (PList ids))
                  else bind_result (get_item messages parent_id (PDict [])) (\<lambda>v.
                         bind_result (dict_of v) (\<lambda>m. Inr (dget m ''childrenIds'' (PList []))))) (\<lambda>child_ids.
     bind_result (descend messages child_ids [] parent_id) (\<lambda>current_id.
     bind_result (has_key messages current_id) (\<lambda>known. Inr (if known then current_id else PNone))))"

text \<open>The history, and the ids that were deleted.\<close>

definition delete_message_from_history :: "pydict \<Rightarrow> string \<Rightarrow> (pydict \<times> string list) result" where
  "delete_message_from_history history message_id =
     bind_result (dict_of (py_or (pget history ''messages'') (PDict []))) (\<lambda>messages.
       case pget messages message_id of
         PDict message \<Rightarrow>
           let parent_id = pget message ''parentId''
           in bind_result (known_ids messages (pget message ''childrenIds'')) (\<lambda>child_ids.
              bind_result (concat_result (child_ids_of messages) child_ids) (\<lambda>grandchild_ids.
              bind_result (adopt parent_id message_id grandchild_ids messages) (\<lambda>messages.
              bind_result (fold_result (reparent parent_id) grandchild_ids messages) (\<lambda>messages.
                let deleted_ids = dict_fromkeys (message_id # child_ids);
                    messages = filter (\<lambda>(k, _). k \<notin> set deleted_ids) messages
                in bind_result (branch_end messages parent_id) (\<lambda>current_id.
                     Inr (AList.update ''currentId'' current_id (AList.update ''messages'' (PDict messages) history),
                          deleted_ids))))))
       | _ \<Rightarrow> Inr (history, []))"

subsection \<open>Writing a message\<close>

definition voice_keys :: "string list" where
  "voice_keys = [''voice'', ''task_id'', ''response_started_at'', ''response_ended_at'']"

definition merge_meta :: "pydict \<Rightarrow> pydict \<Rightarrow> pydict" where
  "merge_meta existing incoming =
     (if set (map fst incoming) \<subseteq> set voice_keys then dict_merge existing incoming
      else dict_merge (map (\<lambda>k. (k, pget existing k)) (filter (\<lambda>k. k \<in> fst ` set existing) voice_keys)) incoming)"

text \<open>The fields of an existing message are overwritten by those the message carries.\<close>

definition updated_message :: "pydict \<Rightarrow> pydict \<Rightarrow> pydict" where
  "updated_message existing message =
     dict_merge existing
       (case pget message ''meta'' of
          PDict meta \<Rightarrow> AList.update ''meta'' (PDict (merge_meta (as_dict (pget existing ''meta'')) meta)) message
        | _ \<Rightarrow> message)"

text \<open>\<open>x in v\<close> for a string \<open>x\<close>.\<close>

definition py_contains :: "py \<Rightarrow> string \<Rightarrow> bool result" where
  "py_contains v s =
     (case v of
        PList xs \<Rightarrow> Inr (py_in (PStr s) xs)
      | PDict d \<Rightarrow> Inr (s \<in> fst ` set d)
      | PStr t \<Rightarrow> Inr (sublist s t)
      | _ \<Rightarrow> Inl TypeError)"

text \<open>The first message that lists the id as a child.\<close>

fun listed_parent :: "string \<Rightarrow> pydict \<Rightarrow> py result" where
  "listed_parent message_id [] = Inr PNone"
| "listed_parent message_id ((existing_id, v) # rest) =
     bind_result (dict_of v) (\<lambda>m.
     bind_result (py_contains (dget m ''childrenIds'' (PList [])) message_id) (\<lambda>listed.
       if listed then Inr (PStr existing_id) else listed_parent message_id rest))"

definition reply_role :: "py \<Rightarrow> py" where
  "reply_role parent_role = (if parent_role = PStr ''assistant'' then PStr ''user'' else PStr ''assistant'')"

definition message_role :: "pydict \<Rightarrow> py \<Rightarrow> py result" where
  "message_role message parent =
     bind_result (output_role (py_or (pget message ''output'') (PList []))) (\<lambda>from_output.
       let role = py_or (pget message ''role'') from_output
       in if truthy role then Inr role
          else if truthy parent then bind_result (dict_of parent) (\<lambda>p. Inr (reply_role (pget p ''role'')))
          else Inr (reply_role PNone))"

definition new_message :: "int \<Rightarrow> pydict \<Rightarrow> string \<Rightarrow> pydict \<Rightarrow> pydict result" where
  "new_message now messages message_id message =
     bind_result (if pget message ''parentId'' = PNone then listed_parent message_id messages
                  else Inr (pget message ''parentId'')) (\<lambda>parent_id.
     bind_result (if truthy parent_id then get_item messages parent_id PNone else Inr PNone) (\<lambda>parent.
     bind_result (message_role message parent) (\<lambda>role.
       Inr (AList.update ''timestamp'' (py_or (pget message ''timestamp'') (PInt now))
             (AList.update ''role'' role
             (AList.update ''childrenIds'' (PList (as_list (pget message ''childrenIds'')))
             (AList.update ''parentId'' parent_id
             (AList.update ''id'' (py_or (pget message ''id'') (PStr message_id)) message))))))))"

text \<open>
  \<open>upsert_message_to_history\<close>: the history and the message as saved. Where \<open>messages\<close> is not a dict
  the code raises, here always \<open>TypeError\<close>.
\<close>

definition upsert_message_to_history :: "int \<Rightarrow> pydict \<Rightarrow> string \<Rightarrow> pydict \<Rightarrow> (pydict \<times> pydict) result" where
  "upsert_message_to_history now history message_id message =
     (case dget history ''messages'' (PDict []) of
        PDict messages \<Rightarrow>
          bind_result
            (case map_of messages message_id of
               Some v \<Rightarrow> bind_result (dict_of v) (\<lambda>m. Inr (updated_message m message))
             | None \<Rightarrow> new_message now messages message_id message) (\<lambda>m.
          bind_result (add_child_id_to_parent (AList.update message_id (PDict m) messages) (pget m ''parentId'') message_id)
            (\<lambda>(messages', _).
               let history = AList.update ''messages'' (PDict messages') history
               in Inr (if message_id \<in> fst ` set messages then history
                       else AList.update ''currentId'' (PStr message_id) history,
                       as_dict (pget messages' message_id))))
      | _ \<Rightarrow> Inl TypeError)"

subsection \<open>Links in both directions\<close>

definition parent_link :: "py \<Rightarrow> py" where
  "parent_link v = pget (as_dict v) ''parentId''"

definition child_links :: "py \<Rightarrow> py" where
  "child_links v = pget (as_dict v) ''childrenIds''"

text \<open>The messages that name \<open>i\<close> as their parent.\<close>

definition children_of :: "pydict \<Rightarrow> string \<Rightarrow> string list" where
  "children_of ms i = map fst (filter (\<lambda>(_, v). parent_link v = PStr i) ms)"

text \<open>
  A sound tree: every message is a dict, and its \<open>childrenIds\<close> are the messages that name it as their
  parent, each once.
\<close>

definition links_exact :: "pydict \<Rightarrow> bool" where
  "links_exact ms \<longleftrightarrow> distinct (map fst ms)
     \<and> list_all (\<lambda>(i, v). is_dict v \<and> (case child_links v of
          PList xs \<Rightarrow> distinct xs \<and> set xs = PStr ` set (children_of ms i)
        | _ \<Rightarrow> False)) ms"

text \<open>A message with the given children.\<close>

definition with_children :: "string list \<Rightarrow> py \<Rightarrow> py" where
  "with_children is v = PDict (AList.update ''childrenIds'' (PList (map PStr is)) (as_dict v))"

definition relink :: "pydict \<Rightarrow> pydict" where
  "relink ms = map (\<lambda>(i, v). (i, with_children (children_of ms i) v)) ms"

text \<open>Two versions of a message that differ at most in their children.\<close>

definition same_but_children :: "py \<Rightarrow> py \<Rightarrow> bool" where
  "same_but_children v w \<longleftrightarrow> is_dict v \<and> is_dict w
     \<and> filter (\<lambda>(k, _). k \<noteq> ''childrenIds'') (as_dict v) = filter (\<lambda>(k, _). k \<noteq> ''childrenIds'') (as_dict w)"

lemma as_dict_PDict [simp]: "as_dict (PDict d) = d"
  by (simp add: as_dict_def)

lemma as_list_PList [simp]: "as_list (PList xs) = xs"
  by (simp add: as_list_def)

lemma is_dict_iff: "is_dict v \<longleftrightarrow> (\<exists>m. v = PDict m)"
  by (cases v) (simp_all add: is_dict_def)

lemma parent_link_with_children [simp]: "parent_link (with_children is v) = parent_link v"
  by (simp add: parent_link_def with_children_def pget_def)

lemma child_links_with_children [simp]: "child_links (with_children is v) = PList (map PStr is)"
  by (simp add: child_links_def with_children_def pget_def)

lemma is_dict_with_children [simp]: "is_dict (with_children is v)"
  by (simp add: with_children_def is_dict_def)

lemma with_children_twice [simp]: "with_children is (with_children js v) = with_children is v"
  by (simp add: with_children_def)

lemma filter_update_other: "filter (\<lambda>(k, _). k \<noteq> a) (AList.update a v d) = filter (\<lambda>(k, _). k \<noteq> a) d"
  by (induction d) auto

lemma same_but_children_refl: "is_dict v \<Longrightarrow> same_but_children v v"
  by (simp add: same_but_children_def)

lemma same_but_children_with [simp]: "is_dict v \<Longrightarrow> same_but_children (with_children is v) v"
  by (simp add: same_but_children_def with_children_def filter_update_other is_dict_def)

lemma same_but_children_trans: "same_but_children u v \<Longrightarrow> same_but_children v w \<Longrightarrow> same_but_children u w"
  by (simp add: same_but_children_def)

lemma same_but_children_get:
  assumes "same_but_children v w" and "k \<noteq> ''childrenIds''"
  shows "pget (as_dict v) k = pget (as_dict w) k"
proof -
  have "pget (filter (\<lambda>(k, _). k \<noteq> ''childrenIds'') d) k = pget d k" for d
    using assms(2) by (simp add: pget_def dget_def map_of_without)
  with assms(1) show ?thesis unfolding same_but_children_def by metis
qed

lemma set_children_of: "distinct (map fst ms) \<Longrightarrow> j \<in> set (children_of ms i) \<longleftrightarrow> (\<exists>v. map_of ms j = Some v \<and> parent_link v = PStr i)"
  by (force simp: children_of_def map_of_eq_Some_iff image_iff)

lemma distinct_children_of: "distinct (map fst ms) \<Longrightarrow> distinct (children_of ms i)"
  unfolding children_of_def by (rule distinct_map_filter)

text \<open>The same in terms of lookups.\<close>

lemma links_exact_iff:
  "links_exact ms \<longleftrightarrow> distinct (map fst ms) \<and>
     (\<forall>i v. map_of ms i = Some v \<longrightarrow> is_dict v \<and>
        (\<exists>is. child_links v = PList (map PStr is) \<and> distinct is \<and>
          (\<forall>j. j \<in> set is \<longleftrightarrow> (\<exists>w. map_of ms j = Some w \<and> parent_link w = PStr i))))"
proof (cases "distinct (map fst ms)")
  case True
  have ids: "(case c of PList xs \<Rightarrow> distinct xs \<and> set xs = PStr ` S | _ \<Rightarrow> False)
      \<longleftrightarrow> (\<exists>is. c = PList (map PStr is) \<and> distinct is \<and> set is = S)" for c S
  proof (cases c)
    case (PList xs)
    have "\<exists>is. xs = map PStr is" if "set xs = PStr ` S"
      using that by (intro ex_map_conv [THEN iffD2]) auto
    moreover have "PStr ` A = PStr ` B \<longleftrightarrow> A = B" for A B by (rule inj_image_eq_iff) (simp add: inj_def)
    ultimately show ?thesis using PList by (auto simp: distinct_map inj_on_def)
  qed simp_all
  show ?thesis
    unfolding links_exact_def ids using True
    by (fastforce simp: list_all_iff map_of_eq_Some_iff set_eq_iff set_children_of)
qed (simp add: links_exact_def)

lemma children_of_relink [simp]: "children_of (relink ms) i = children_of ms i"
  by (simp add: children_of_def relink_def filter_map o_def case_prod_unfold)

lemma map_fst_relink [simp]: "map fst (relink ms) = map fst ms"
  by (simp add: relink_def case_prod_unfold o_def)

lemma links_exact_relink: "distinct (map fst ms) \<Longrightarrow> links_exact (relink ms)"
  unfolding links_exact_def map_fst_relink children_of_relink
  by (auto simp: relink_def list_all_iff distinct_children_of distinct_map inj_on_def)

lemma map_of_relink: "map_of (relink ms) i = map_option (with_children (children_of ms i)) (map_of ms i)"
proof -
  have "map_of (map (\<lambda>(i, v). (i, f i v)) ms) i = map_option (f i) (map_of ms i)" for f :: "string \<Rightarrow> py \<Rightarrow> py"
    by (induction ms) auto
  then show ?thesis by (simp add: relink_def)
qed

subsection \<open>Merged histories\<close>

lemma update_map:
  "distinct (map fst ms) \<Longrightarrow> i \<in> fst ` set ms \<Longrightarrow> AList.update i w ms = map (\<lambda>(k, v). (k, if k = i then w else v)) ms"
proof (induction ms)
  case (Cons x ms)
  have "map (\<lambda>(k, v). (k, if k = i then w else v)) ms = ms" if "i \<notin> fst ` set ms"
    using that by (intro map_idI) force
  with Cons show ?case by (cases x) auto
qed simp

text \<open>The messages after the loop has linked \<open>items\<close>.\<close>

definition linked_to :: "pydict \<Rightarrow> string \<times> py \<Rightarrow> string \<times> py" where
  "linked_to items iv =
     (case iv of (i, v) \<Rightarrow> (i, PDict (AList.update ''childrenIds'' (PList (as_list (child_links v) @ map PStr (children_of items i))) (as_dict v))))"

definition listy :: "py \<Rightarrow> bool" where
  "listy v \<longleftrightarrow> is_dict v \<and> (\<exists>xs. child_links v = PList xs)"

lemma linked_to_Nil: "listy v \<Longrightarrow> linked_to [] (i, v) = (i, v)"
  by (auto simp: linked_to_def listy_def is_dict_iff children_of_def child_links_def pget_def dget_def
      intro: update_same split: option.splits)

lemma linked_to_append: "linked_to (xs @ ys) iv = linked_to ys (linked_to xs iv)"
  by (simp add: linked_to_def children_of_def child_links_def pget_def split: prod.split)

lemma linked_to_keeps [simp]: "fst (linked_to items iv) = fst iv" "listy (snd (linked_to items iv))"
  by (simp_all add: linked_to_def listy_def is_dict_iff child_links_def pget_def split: prod.split)

lemma link_step_eq:
  assumes "distinct (map fst ms)" and "\<forall>(i, v) \<in> set ms. listy v" and "link_step x ms = Inr ms'"
  shows "ms' = map (linked_to [x]) ms"
proof -
  obtain j w where x: "x = (j, w)" by (cases x)
  have other: "linked_to [x] (i, v) = (i, v)" if "(i, v) \<in> set ms" "parent_link w \<noteq> PStr i" for i v
    using linked_to_Nil [of v i] assms(2) that by (auto simp: linked_to_def children_of_def x)
  show ?thesis
  proof (cases "\<exists>p \<in> fst ` set ms. parent_link w = PStr p")
    case False
    then have "ms' = ms" using assms(3)
      by (auto simp: link_step_def x has_key_def parent_link_def Let_def split: py.splits if_splits)
    moreover have "map (linked_to [x]) ms = ms" using False other by (intro map_idI) force
    ultimately show ?thesis by simp
  next
    case True
    then obtain p where p: "p \<in> fst ` set ms" "parent_link w = PStr p" by blast
    have at: "pget ms p = v" if "(p, v) \<in> set ms" for v
      using assms(1) that by (simp add: pget_def dget_def map_of_is_SomeI)
    have "ms' = AList.update p (PDict (AList.update ''childrenIds''
        (PList (as_list (child_links (pget ms p)) @ [PStr j])) (as_dict (pget ms p)))) ms"
      using assms(3) p by (auto simp: link_step_def x has_key_def parent_link_def child_links_def Let_def)
    also have "\<dots> = map (linked_to [x]) ms"
      unfolding update_map [OF assms(1) p(1)]
    proof (intro map_cong refl, clarify)
      fix i v assume iv: "(i, v) \<in> set ms"
      show "(i, if i = p then PDict (AList.update ''childrenIds'' (PList (as_list (child_links (pget ms p)) @ [PStr j]))
          (as_dict (pget ms p))) else v) = linked_to [x] (i, v)"
        using other [OF iv] iv p(2) by (auto simp: linked_to_def children_of_def x at)
    qed
    finally show ?thesis .
  qed
qed

lemma link_loop:
  assumes "distinct (map fst ms)" and "\<forall>(i, v) \<in> set ms. listy v" and "fold_result link_step items ms = Inr ms'"
  shows "ms' = map (linked_to items) ms"
  using assms
proof (induction items arbitrary: ms)
  case Nil
  then show ?case by (auto simp: linked_to_Nil intro!: map_idI [symmetric])
next
  case (Cons x items)
  from Cons.prems(3) obtain ms1 where ms1: "link_step x ms = Inr ms1" "fold_result link_step items ms1 = Inr ms'"
    by (auto simp: bind_result_Inr_iff)
  have eq: "ms1 = map (linked_to [x]) ms" by (rule link_step_eq [OF Cons.prems(1,2) ms1(1)])
  have "distinct (map fst ms1)" using Cons.prems(1) by (simp add: eq o_def)
  moreover have "\<forall>(i, v) \<in> set ms1. listy v" unfolding eq by (auto simp: case_prod_unfold)
  ultimately have "ms' = map (linked_to items) ms1" using Cons.IH ms1(2) by blast
  also have "\<dots> = map (linked_to (x # items)) ms" using linked_to_append [of "[x]" items] by (simp add: eq)
  finally show ?case .
qed

text \<open>The messages that are dicts, in order.\<close>

definition only_dicts :: "pydict \<Rightarrow> pydict" where
  "only_dicts ms = filter (\<lambda>(_, v). is_dict v) ms"

lemma unlinked_eq: "unlinked ms = map (\<lambda>(i, v). (i, with_children [] v)) (only_dicts ms)"
  by (induction ms) (auto simp: unlinked_def only_dicts_def is_dict_def with_children_def split: py.splits)

lemma only_dicts_distinct: "distinct (map fst ms) \<Longrightarrow> distinct (map fst (only_dicts ms))"
  unfolding only_dicts_def by (rule distinct_map_filter)

lemma children_of_unlinked: "children_of (unlinked ms) = children_of (only_dicts ms)"
  by (rule ext) (simp add: unlinked_eq children_of_def filter_map o_def case_prod_unfold)

lemma link_unlinked:
  assumes "distinct (map fst ms)" and "fold_result link_step (unlinked ms) (unlinked ms) = Inr ms'"
  shows "ms' = relink (only_dicts ms)"
proof -
  have "distinct (map fst (unlinked ms))"
    using only_dicts_distinct [OF assms(1)] by (simp add: unlinked_eq o_def case_prod_unfold)
  moreover have "\<forall>(i, v) \<in> set (unlinked ms). listy v" by (auto simp: unlinked_eq listy_def)
  ultimately have "ms' = map (linked_to (unlinked ms)) (unlinked ms)" using assms(2) by (rule link_loop)
  also have "\<dots> = relink (only_dicts ms)"
    unfolding unlinked_eq [of ms] relink_def map_map children_of_unlinked [symmetric]
    by (intro map_cong refl) (auto simp: linked_to_def with_children_def child_links_def pget_def unlinked_eq)
  finally show ?thesis .
qed

definition messages_of :: "pydict \<Rightarrow> pydict" where
  "messages_of h = as_dict (pget h ''messages'')"

definition stored_messages :: "py \<Rightarrow> pydict" where
  "stored_messages history = messages_of (as_dict history)"

lemma history_messages_spread: "bind_result (history_messages history) spread = Inr ms \<Longrightarrow> ms = stored_messages history"
  by (auto simp: history_messages_def spread_def stored_messages_def messages_of_def bind_result_Inr_iff dict_of_def
      py_or_def as_dict_def split: py.splits if_splits)

text \<open>What a merge gives: the messages of both, linked anew; \<open>currentId\<close> names one of them or none.\<close>

lemma merge_historyD:
  assumes "merge_history old new = Inr h"
    and "distinct (map fst (dict_merge (stored_messages old) (stored_messages new)))"
  shows "messages_of h = relink (only_dicts (dict_merge (stored_messages old) (stored_messages new)))"
    and "pget h ''currentId'' = PNone \<or> (\<exists>i \<in> fst ` set (messages_of h). pget h ''currentId'' = PStr i)"
proof -
  from assms(1) obtain merged c where
    merged: "fold_result link_step (unlinked (dict_merge (stored_messages old) (stored_messages new)))
      (unlinked (dict_merge (stored_messages old) (stored_messages new))) = Inr merged"
    and c: "merge_current merged (pget (as_dict new) ''currentId'') (pget (as_dict old) ''currentId'') = Inr c"
    and h: "h = AList.update ''currentId'' c (AList.update ''messages'' (PDict merged) (dict_merge (as_dict old) (as_dict new)))"
    unfolding merge_history_def Let_def
    by (force simp: bind_result_Inr_iff dest: history_messages_spread [unfolded bind_result_Inr_iff, OF exI, OF conjI])
  have ms: "messages_of h = merged" by (simp add: messages_of_def h pget_def)
  then show "messages_of h = relink (only_dicts (dict_merge (stored_messages old) (stored_messages new)))"
    using link_unlinked [OF assms(2) merged] by simp
  have known: "\<exists>i \<in> fst ` set merged. k = PStr i" if "has_key merged k = Inr True" for k
    using that by (cases k) (auto simp: has_key_def)
  show "pget h ''currentId'' = PNone \<or> (\<exists>i \<in> fst ` set (messages_of h). pget h ''currentId'' = PStr i)"
    using c known unfolding ms by (auto simp: h pget_def merge_current_def bind_result_Inr_iff split: if_splits)
qed

subsection \<open>Repaired histories\<close>

text \<open>The same messages, each with at least the children it had.\<close>

definition more_children :: "pydict \<Rightarrow> pydict \<Rightarrow> bool" where
  "more_children ms ms' \<longleftrightarrow> map fst ms' = map fst ms \<and>
     (\<forall>i v. map_of ms i = Some v \<longrightarrow> (\<exists>v'. map_of ms' i = Some v' \<and> (v' = v \<or> same_but_children v' v)
        \<and> set (as_list (child_links v)) \<subseteq> set (as_list (child_links v'))))"

lemma more_children_refl: "more_children ms ms"
  by (simp add: more_children_def)

lemma more_children_trans:
  assumes "more_children a b" and "more_children b c"
  shows "more_children a c"
  unfolding more_children_def
proof (intro conjI allI impI)
  show "map fst c = map fst a" using assms by (simp add: more_children_def)
  fix i v assume "map_of a i = Some v"
  with assms(1) obtain v1 where v1: "map_of b i = Some v1" "v1 = v \<or> same_but_children v1 v"
    "set (as_list (child_links v)) \<subseteq> set (as_list (child_links v1))" unfolding more_children_def by blast
  with assms(2) obtain v2 where "map_of c i = Some v2" "v2 = v1 \<or> same_but_children v2 v1"
    "set (as_list (child_links v1)) \<subseteq> set (as_list (child_links v2))" unfolding more_children_def by blast
  with v1 show "\<exists>v'. map_of c i = Some v' \<and> (v' = v \<or> same_but_children v' v)
      \<and> set (as_list (child_links v)) \<subseteq> set (as_list (child_links v'))"
    by (intro exI [of _ v2]) (auto intro: same_but_children_trans)
qed

lemma more_childrenD:
  assumes "more_children ms ms'" and "map_of ms' i = Some v'"
  shows "\<exists>v. map_of ms i = Some v \<and> (v' = v \<or> same_but_children v' v) \<and> set (as_list (child_links v)) \<subseteq> set (as_list (child_links v'))"
proof -
  have "i \<in> set (map fst ms')" using assms(2) by (metis list.set_map map_of_eq_None_iff option.distinct(1))
  then have "i \<in> set (map fst ms)" using assms(1) by (simp only: more_children_def)
  then obtain v where "map_of ms i = Some v" by (metis list.set_map map_of_eq_None_iff not_None_eq)
  moreover from this assms obtain w where "map_of ms' i = Some w" "w = v \<or> same_but_children w v"
    "set (as_list (child_links v)) \<subseteq> set (as_list (child_links w))" unfolding more_children_def by blast
  ultimately show ?thesis using assms(2) by auto
qed

lemma py_in_str: "py_in (PStr s) xs \<longleftrightarrow> PStr s \<in> set xs"
  by (auto simp: py_in_def list_ex_iff)

lemma add_child_more:
  assumes "add_child_id_to_parent ms q c = Inr (ms', b)"
  shows "more_children ms ms'"
    and "q = PStr p \<Longrightarrow> p \<noteq> [] \<Longrightarrow> map_of ms p = Some (PDict m) \<Longrightarrow>
      \<exists>v'. map_of ms' p = Some v' \<and> PStr c \<in> set (as_list (child_links v'))"
proof -
  have "ms' = ms \<or> (\<exists>p m. q = PStr p \<and> map_of ms p = Some (PDict m)
      \<and> ms' = AList.update p (PDict (AList.update ''childrenIds'' (PList (as_list (pget m ''childrenIds'') @ [PStr c])) m)) ms)"
    using assms by (cases q) (auto simp: add_child_id_to_parent_def get_item_def dget_def bind_result_Inr_iff Let_def
        split: if_splits py.splits option.splits)
  then show "more_children ms ms'"
  proof
    assume "\<exists>p m. q = PStr p \<and> map_of ms p = Some (PDict m)
      \<and> ms' = AList.update p (PDict (AList.update ''childrenIds'' (PList (as_list (pget m ''childrenIds'') @ [PStr c])) m)) ms"
    then obtain p m where m: "map_of ms p = Some (PDict m)"
      and ms': "ms' = AList.update p (PDict (AList.update ''childrenIds'' (PList (as_list (pget m ''childrenIds'') @ [PStr c])) m)) ms"
      by blast
    have "p \<in> fst ` set ms" using m by (metis map_of_eq_None_iff option.distinct(1))
    with m show ?thesis unfolding more_children_def ms'
      by (auto simp: update_conv' update_keys child_links_def pget_def same_but_children_def is_dict_def filter_update_other)
  qed (simp add: more_children_refl)
  show "\<exists>v'. map_of ms' p = Some v' \<and> PStr c \<in> set (as_list (child_links v'))"
    if "q = PStr p" "p \<noteq> []" "map_of ms p = Some (PDict m)"
    using assms that by (auto simp: add_child_id_to_parent_def get_item_def dget_def Let_def py_in_str update_conv'
        child_links_def pget_def split: if_splits)
qed

text \<open>The children that \<open>items\<close> name are listed.\<close>

definition lists_children :: "pydict \<Rightarrow> pydict \<Rightarrow> bool" where
  "lists_children items ms \<longleftrightarrow> (\<forall>(i, v) \<in> set items. \<forall>p m. is_dict v \<longrightarrow> parent_link v = PStr p \<longrightarrow> p \<noteq> [] \<longrightarrow> map_of ms p = Some (PDict m) \<longrightarrow>
     PStr i \<in> set (as_list (child_links (PDict m))))"

lemma lists_children_more:
  assumes "lists_children items ms" and "more_children ms ms'"
  shows "lists_children items ms'"
  unfolding lists_children_def
proof (clarify, rename_tac i v p m)
  fix i v p m assume *: "(i, v) \<in> set items" "is_dict v" "parent_link v = PStr p" "p \<noteq> []" "map_of ms' p = Some (PDict m)"
  from more_childrenD [OF assms(2) *(5)] obtain w where w: "map_of ms p = Some w"
    and same: "PDict m = w \<or> same_but_children (PDict m) w" and sub: "set (as_list (child_links w)) \<subseteq> set (as_list (child_links (PDict m)))"
    by blast
  from same have "is_dict w" by (auto simp: same_but_children_def is_dict_def)
  with assms(1) * w sub show "PStr i \<in> set (as_list (child_links (PDict m)))"
    unfolding lists_children_def by (fastforce simp: is_dict_iff)
qed

lemma repair_links:
  assumes "fold_result repair_link items (ms, b) = Inr (ms', b')"
  shows "more_children ms ms' \<and> lists_children items ms'"
proof -
  have "more_children ms (fst (ms', b')) \<and> lists_children items (fst (ms', b'))"
    using assms
  proof (rule fold_result_induct [where I = "\<lambda>done st. more_children ms (fst st) \<and> lists_children done (fst st)"])
    show "more_children ms (fst (ms, b)) \<and> lists_children [] (fst (ms, b))" by (simp add: more_children_refl lists_children_def)
    fix ys x t t' assume I: "more_children ms (fst t) \<and> lists_children ys (fst t)" and step: "repair_link x t = Inr t'"
    obtain i v where x: "x = (i, v)" by (cases x)
    show "more_children ms (fst t') \<and> lists_children (ys @ [x]) (fst t')"
    proof (cases v)
      case (PDict m)
      with step obtain b1 where add: "add_child_id_to_parent (fst t) (pget m ''parentId'') i = Inr (fst t', b1)"
        by (auto simp: repair_link_def x bind_result_Inr_iff split: prod.splits)
      note more = add_child_more [OF add]
      have "PStr i \<in> set (as_list (child_links (PDict d)))"
        if "parent_link v = PStr p" "p \<noteq> []" "map_of (fst t') p = Some (PDict d)" for p d
      proof -
        from more_childrenD [OF more(1) that(3)] obtain w where w: "map_of (fst t) p = Some w"
          and "PDict d = w \<or> same_but_children (PDict d) w" by blast
        then obtain d0 where "w = PDict d0" by (auto simp: same_but_children_def is_dict_iff)
        with more(2) [of p d0] w that show ?thesis by (auto simp: parent_link_def PDict)
      qed
      with I more(1) lists_children_more [of ys] more_children_trans show ?thesis
        by (fastforce simp: lists_children_def x)
    qed (use I step in \<open>auto simp: repair_link_def x lists_children_def is_dict_def split: prod.splits\<close>)
  qed
  then show ?thesis by simp
qed

lemma last_descendant_stored: "map_of ms i \<noteq> None \<Longrightarrow> map_of ms (last_descendant ms i seen) \<noteq> None"
proof (induction ms i seen rule: last_descendant.induct)
  case (1 ms i seen)
  show ?case
  proof (cases "\<exists>v n. map_of ms i = Some v \<and> i \<notin> set seen \<and> n \<noteq> [] \<and>
      find (valid_child ms (i # seen) i) (rev (as_list (pget (as_dict v) ''childrenIds''))) = Some (PStr n)")
    case True
    then obtain v n where n: "map_of ms i = Some v" "i \<notin> set seen" "n \<noteq> []"
      "find (valid_child ms (i # seen) i) (rev (as_list (pget (as_dict v) ''childrenIds''))) = Some (PStr n)" by blast
    from find_Some [OF n(4)] have "map_of ms n \<noteq> None" by (auto simp: valid_child_def split: option.splits)
    then have "map_of ms (last_descendant ms n (i # seen)) \<noteq> None" using n by (intro "1.IH") auto
    with n show ?thesis by (simp add: last_descendant.simps [of _ i])
  next
    case False
    then have "last_descendant ms i seen = i"
      by (auto simp: last_descendant.simps [of _ i] split: option.splits py.splits)
    with "1.prems" show ?thesis by simp
  qed
qed

lemma leaf_loop_stored:
  assumes "fold_result leaf_step ms (None, PInt (- 1)) = Inr (Some l, t)"
  shows "l \<in> fst ` set ms"
proof -
  have "\<forall>k. fst (Some l, t) = Some k \<longrightarrow> k \<in> fst ` set ms"
    using assms
  proof (rule fold_result_induct [where I = "\<lambda>_ st. \<forall>l. fst st = Some l \<longrightarrow> l \<in> fst ` set ms"])
    fix ys x st st' assume "\<forall>l. fst st = Some l \<longrightarrow> l \<in> fst ` set ms" and "x \<in> set ms" and "leaf_step x st = Inr st'"
    then show "\<forall>l. fst st' = Some l \<longrightarrow> l \<in> fst ` set ms"
      by (cases "snd x") (auto simp: leaf_step_def Let_def bind_result_Inr_iff intro: rev_image_eqI split: prod.splits if_splits)
  qed simp
  then show ?thesis by simp
qed

lemma repair_current_stored:
  assumes "repair_current ms c = Inr c'"
  shows "c' = c \<or> (\<exists>i \<in> fst ` set ms. c' = PStr i)"
proof -
  have known: "i \<in> fst ` set ms \<longleftrightarrow> map_of ms i \<noteq> None" for i by (simp add: map_of_eq_None_iff)
  from assms obtain m where m: "get_item ms c PNone = Inr m" by (auto simp: repair_current_def bind_result_Inr_iff)
  show ?thesis
  proof (cases "\<exists>s. c = PStr s \<and> is_dict m \<and> c' = PStr (last_descendant_id ms s)")
    case True
    then obtain s where s: "c = PStr s" "is_dict m" "c' = PStr (last_descendant_id ms s)" by blast
    have "map_of ms s \<noteq> None" using m s(1,2) by (auto simp: get_item_def dget_def is_dict_def split: option.splits)
    from last_descendant_stored [OF this] s(3) show ?thesis by (simp add: known last_descendant_id_def)
  next
    case False
    then have "c' = c \<or> (\<exists>l t. fold_result leaf_step ms (None, PInt (- 1)) = Inr (Some l, t) \<and> c' = PStr l)"
      using assms m unfolding repair_current_def
      by (cases c) (auto simp: bind_result_Inr_iff Let_def split: if_splits option.splits)
    then show ?thesis using leaf_loop_stored by blast
  qed
qed

text \<open>
  Loading a chat repairs its tree: no message is added or lost or changed but for its children, every
  message whose parent is stored is listed among the parent's children, and if the current message
  changes it is a stored one.
\<close>

theorem repair_lists_children:
  assumes "repair_chat_current_id chat = Inr (chat', changed)"
    and "pget chat ''history'' = PDict history" and "pget history ''messages'' = PDict messages" and "distinct (map fst messages)"
  shows "\<exists>history' messages'. pget chat' ''history'' = PDict history' \<and> pget history' ''messages'' = PDict messages'
    \<and> more_children messages messages' \<and> lists_children messages' messages'
    \<and> (pget history' ''currentId'' = pget history ''currentId'' \<or> (\<exists>i \<in> fst ` set messages'. pget history' ''currentId'' = PStr i))"
proof -
  have "\<exists>st c. fold_result repair_link messages (messages, False) = Inr st \<and> repair_current (fst st) (pget history ''currentId'') = Inr c
    \<and> chat' = AList.update ''history'' (PDict (if c \<noteq> pget history ''currentId''
        then AList.update ''currentId'' c (AList.update ''messages'' (PDict (fst st)) history)
        else AList.update ''messages'' (PDict (fst st)) history)) chat"
    using assms(1) unfolding repair_chat_current_id_def assms(2,3) py.case bind_result_Inr_iff Let_def case_prod_unfold
    by - (elim exE conjE, intro exI conjI, assumption, assumption, simp add: pget_def)
  then obtain ms' b c where links: "fold_result repair_link messages (messages, False) = Inr (ms', b)"
    and c: "repair_current ms' (pget history ''currentId'') = Inr c"
    and chat': "chat' = AList.update ''history'' (PDict (if c \<noteq> pget history ''currentId''
        then AList.update ''currentId'' c (AList.update ''messages'' (PDict ms') history)
        else AList.update ''messages'' (PDict ms') history)) chat"
    by (metis prod.collapse)
  from repair_links [OF links] have more: "more_children messages ms'" and listed: "lists_children messages ms'" by auto
  have "lists_children ms' ms'"
    unfolding lists_children_def
  proof (clarify, rename_tac i v p m)
    fix i v p m assume *: "(i, v) \<in> set ms'" "is_dict v" "parent_link v = PStr p" "p \<noteq> []" "map_of ms' p = Some (PDict m)"
    have "distinct (map fst ms')" using more assms(4) by (simp add: more_children_def)
    with *(1) have "map_of ms' i = Some v" by simp
    from more_childrenD [OF more this] obtain w where w: "map_of messages i = Some w" "v = w \<or> same_but_children v w" by blast
    have "is_dict w" "parent_link w = parent_link v"
      using w(2) *(2) same_but_children_get [of v w "''parentId''"] by (auto simp: same_but_children_def parent_link_def)
    with listed map_of_SomeD [OF w(1)] * show "PStr i \<in> set (as_list (child_links (PDict m)))"
      unfolding lists_children_def by fastforce
  qed
  with more repair_current_stored [OF c] show ?thesis
    by (auto simp: chat' pget_def)
qed

end
