(* ===== verification/Chat_Delete.thy ===== *)
theory Chat_Delete
  imports Chat_History
begin

text \<open>
  Deleting a message from a sound tree (\<open>delete_message_from_history\<close> of \<^verbatim>\<open>models/chats.py\<close>): the message
  and its children go, the grandchildren move to its parent, the tree stays sound, and the chat
  continues at the end of a branch.
\<close>

subsection \<open>Reading the links of a sound tree\<close>

definition links_of :: "py \<Rightarrow> string list" where
  "links_of v = concat (map (\<lambda>c. case c of PStr s \<Rightarrow> [s] | _ \<Rightarrow> []) (as_list (child_links v)))"

lemma links_of_eq: "child_links v = PList (map PStr is) \<Longrightarrow> links_of v = is"
  by (simp add: links_of_def o_def)

lemma links_exactD:
  assumes "links_exact ms" and "map_of ms i = Some v"
  shows "is_dict v" and "child_links v = PList (map PStr (links_of v))" and "distinct (links_of v)"
    and "j \<in> set (links_of v) \<longleftrightarrow> (\<exists>w. map_of ms j = Some w \<and> parent_link w = PStr i)"
  using assms unfolding links_exact_iff by (fastforce simp: links_of_eq)+

lemma links_exact_distinct: "links_exact ms \<Longrightarrow> distinct (map fst ms)"
  by (simp add: links_exact_def)

lemma map_of_keys: "i \<in> fst ` set ms \<longleftrightarrow> (\<exists>v. map_of ms i = Some v)"
  by (metis map_of_eq_None_iff not_None_eq)

lemma known_ids_all: "set is \<subseteq> fst ` set ms \<Longrightarrow> known_ids ms (PList (map PStr is)) = Inr is"
proof -
  assume sub: "set is \<subseteq> fst ` set ms"
  have "concat_result (\<lambda>c. bind_result (has_key ms c) (\<lambda>known. Inr (case c of PStr s \<Rightarrow> if known then [s] else [] | _ \<Rightarrow> [])))
      (map PStr is) = Inr is"
    using sub by (induction "is") (simp_all add: has_key_def)
  then show ?thesis by (simp add: known_ids_def py_or_def py_iter_def)
qed

lemma known_ids_links:
  assumes "links_exact ms" and "map_of ms i = Some v"
  shows "known_ids ms (child_links v) = Inr (links_of v)"
  using links_exactD [OF assms] by (subst links_exactD(2) [OF assms]) (auto intro!: known_ids_all simp: map_of_keys)

lemma child_ids_of_links:
  assumes "links_exact ms" and "map_of ms i = Some v"
  shows "child_ids_of ms i = Inr (links_of v)"
  using known_ids_links [OF assms] links_exactD(1) [OF assms] assms(2)
  by (auto simp: child_ids_of_def dget_def dict_of_def is_dict_iff child_links_def)

subsection \<open>The changed tree\<close>

definition with_parent :: "py \<Rightarrow> py \<Rightarrow> py" where
  "with_parent p v = PDict (AList.update ''parentId'' p (as_dict v))"

lemma with_parent_simps [simp]:
  "parent_link (with_parent p v) = p" "child_links (with_parent p v) = child_links v" "is_dict (with_parent p v)"
  "links_of (with_parent p v) = links_of v"
  by (simp_all add: with_parent_def parent_link_def child_links_def pget_def is_dict_def links_of_def)

lemma with_parent_twice [simp]: "with_parent p (with_parent p v) = with_parent p v"
  by (simp add: with_parent_def)

definition adopted :: "py \<Rightarrow> string \<Rightarrow> string list \<Rightarrow> pydict \<Rightarrow> pydict" where
  "adopted p i gs ms = map (\<lambda>(k, v). (k, if p = PStr k then with_children (filter (\<lambda>c. c \<noteq> i) (links_of v) @ gs) v else v)) ms"

definition reparented :: "py \<Rightarrow> string list \<Rightarrow> pydict \<Rightarrow> pydict" where
  "reparented p gs ms = map (\<lambda>(k, v). (k, if k \<in> set gs then with_parent p v else v)) ms"

lemma map_fst_keyed: "map fst (map (\<lambda>(k, v). (k, f k v)) ms) = map fst ms"
  by (simp add: case_prod_unfold o_def)

lemma map_of_keyed: "map_of (map (\<lambda>(k, v). (k, f k v)) ms) i = map_option (f i) (map_of ms i)"
  by (induction ms) auto

lemma adopt_eq:
  assumes "links_exact ms" and "hashable p"
  shows "adopt p i gs ms = Inr (adopted p i gs ms)"
proof (cases "\<exists>k \<in> fst ` set ms. p = PStr k")
  case False
  then have "adopted p i gs ms = ms" unfolding adopted_def by (intro map_idI) force
  with False assms(2) show ?thesis by (auto simp: adopt_def has_key_def split: py.splits)
next
  case True
  then obtain k where k: "k \<in> fst ` set ms" "p = PStr k" by blast
  then obtain v where v: "map_of ms k = Some v" by (auto simp: map_of_keys)
  note D = links_exactD [OF assms(1) v]
  from D(1) obtain m where m: "v = PDict m" by (auto simp: is_dict_iff)
  have at: "pget ms k = PDict m" by (simp add: pget_def dget_def v m)
  have ids: "py_iter (py_or (pget m ''childrenIds'') (PList [])) = Inr (map PStr (links_of v))"
    using D(2) by (auto simp: child_links_def m py_iter_def py_or_def)
  have other: "filter (\<lambda>c. c \<noteq> PStr i) (map PStr is) = map PStr (filter (\<lambda>c. c \<noteq> i) is)" for "is"
    by (induction "is") auto
  have same: "map_of ms k' = Some v' \<Longrightarrow> k' = k \<Longrightarrow> v' = PDict m" for k' v' using v m by simp
  have "adopt p i gs ms = Inr (AList.update k (with_children (filter (\<lambda>c. c \<noteq> i) (links_of v) @ gs) v) ms)"
    using k by (simp add: adopt_def has_key_def at dict_of_def ids other with_children_def m)
  also have "AList.update k (with_children (filter (\<lambda>c. c \<noteq> i) (links_of v) @ gs) v) ms = adopted p i gs ms"
    unfolding update_map [OF links_exact_distinct [OF assms(1)] k(1)] adopted_def
    using same links_exact_distinct [OF assms(1)] by (intro map_cong) (auto simp: k(2) m map_of_is_SomeI)
  finally show ?thesis .
qed

lemma reparent_eq:
  assumes "distinct (map fst ms)" and "\<forall>(k, v) \<in> set ms. is_dict v" and "set gs \<subseteq> fst ` set ms"
  shows "fold_result (reparent p) gs ms = Inr (reparented p gs ms)"
  using assms
proof (induction gs arbitrary: ms)
  case Nil
  have "reparented p [] ms = ms" unfolding reparented_def by (intro map_idI) auto
  then show ?case by simp
next
  case (Cons g gs)
  from Cons.prems(3) obtain v where v: "map_of ms g = Some v" by (auto simp: map_of_keys)
  with Cons.prems(2) obtain m where m: "v = PDict m" by (fastforce simp: is_dict_iff dest: map_of_SomeD)
  have "reparent p g ms = Inr (AList.update g (with_parent p v) ms)"
    by (simp add: reparent_def pget_def dget_def v m with_parent_def)
  moreover have "AList.update g (with_parent p v) ms = reparented p [g] ms"
    unfolding reparented_def using update_map [OF Cons.prems(1), of g] Cons.prems(1,3) v
    by (auto intro!: map_cong dest: eq_key_imp_eq_value simp: map_of_is_SomeI)
  moreover have "fold_result (reparent p) gs (reparented p [g] ms) = Inr (reparented p gs (reparented p [g] ms))"
  proof (rule Cons.IH)
    show "distinct (map fst (reparented p [g] ms))" using Cons.prems(1) by (simp only: reparented_def map_fst_keyed)
    show "\<forall>(k, v) \<in> set (reparented p [g] ms). is_dict v" using Cons.prems(2) by (auto simp: reparented_def)
    show "set gs \<subseteq> fst ` set (reparented p [g] ms)" using Cons.prems(3) by (force simp: reparented_def)
  qed
  moreover have "reparented p gs (reparented p [g] ms) = reparented p (g # gs) ms"
    by (auto simp: reparented_def)
  ultimately show ?case by simp
qed

text \<open>The messages left once \<open>i\<close>, a child of \<open>p\<close> with children \<open>is\<close> and grandchildren \<open>gs\<close>, is deleted.\<close>

definition after_delete :: "py \<Rightarrow> string \<Rightarrow> string list \<Rightarrow> string list \<Rightarrow> pydict \<Rightarrow> pydict" where
  "after_delete p i is gs ms = filter (\<lambda>(k, _). k \<notin> set (i # is)) (reparented p gs (adopted p i gs ms))"

lemma map_of_after_delete:
  "map_of (after_delete p i is gs ms) k =
     (if k \<in> set (i # is) then None
      else map_option (\<lambda>v. let v = (if p = PStr k then with_children (filter (\<lambda>c. c \<noteq> i) (links_of v) @ gs) v else v)
                           in if k \<in> set gs then with_parent p v else v) (map_of ms k))"
  unfolding after_delete_def map_of_filter_key reparented_def adopted_def map_of_keyed
  by (auto simp: Let_def option.map_comp o_def)

lemma keys_after_delete: "map fst (after_delete p i is gs ms) = filter (\<lambda>k. k \<notin> set (i # is)) (map fst ms)"
  unfolding after_delete_def reparented_def adopted_def
  by (induction ms) auto

subsection \<open>The tree stays sound\<close>

text \<open>The message deleted, its place and its grandchildren.\<close>

definition deletes :: "pydict \<Rightarrow> string \<Rightarrow> py \<Rightarrow> string list \<Rightarrow> bool" where
  "deletes ms i v gs \<longleftrightarrow> links_exact ms \<and> map_of ms i = Some v
     \<and> gs = concat (map (\<lambda>c. links_of (the (map_of ms c))) (links_of v))"

text \<open>The parent of a message that is left.\<close>

definition new_parent :: "py \<Rightarrow> string list \<Rightarrow> string \<Rightarrow> py \<Rightarrow> py" where
  "new_parent p gs k w = (if k \<in> set gs then p else parent_link w)"

lemma deletesD:
  assumes "deletes ms i v gs"
  shows "links_exact ms" and "map_of ms i = Some v"
    and "gs = concat (map (\<lambda>c. links_of (the (map_of ms c))) (links_of v))"
  using assms by (simp_all add: deletes_def)

lemma child_iff:
  assumes "deletes ms i v gs"
  shows "j \<in> set (links_of v) \<longleftrightarrow> (\<exists>w. map_of ms j = Some w \<and> parent_link w = PStr i)"
  by (rule links_exactD(4) [OF deletesD(1,2) [OF assms]])

lemma child_links_iff:
  assumes "deletes ms i v gs" and "c \<in> set (links_of v)"
  shows "j \<in> set (links_of (the (map_of ms c))) \<longleftrightarrow> (\<exists>w. map_of ms j = Some w \<and> parent_link w = PStr c)"
    and "distinct (links_of (the (map_of ms c)))"
proof -
  from assms obtain u where "map_of ms c = Some u" by (auto simp: child_iff)
  from links_exactD(3,4) [OF deletesD(1) [OF assms(1)] this] this
  show "j \<in> set (links_of (the (map_of ms c))) \<longleftrightarrow> (\<exists>w. map_of ms j = Some w \<and> parent_link w = PStr c)"
    and "distinct (links_of (the (map_of ms c)))" by simp_all
qed

lemma grandchild_iff:
  assumes "deletes ms i v gs"
  shows "j \<in> set gs \<longleftrightarrow> (\<exists>c w. c \<in> set (links_of v) \<and> map_of ms j = Some w \<and> parent_link w = PStr c)"
  using child_links_iff(1) [OF assms] deletesD(3) [OF assms] by auto

lemma distinct_concat_map:
  assumes "distinct xs" and "\<And>c. c \<in> set xs \<Longrightarrow> distinct (f c)"
    and "\<And>c d j. c \<in> set xs \<Longrightarrow> d \<in> set xs \<Longrightarrow> j \<in> set (f c) \<Longrightarrow> j \<in> set (f d) \<Longrightarrow> c = d"
  shows "distinct (concat (map f xs))"
  using assms
proof (induction xs)
  case (Cons x xs)
  have "j \<notin> set (f c)" if "j \<in> set (f x)" "c \<in> set xs" for j c
    using Cons.prems(1) Cons.prems(3) [of x c j] that by auto
  moreover have "distinct (concat (map f xs))" by (rule Cons.IH) (use Cons.prems in auto)
  ultimately show ?case using Cons.prems(2) by auto
qed simp

lemma distinct_grandchildren:
  assumes "deletes ms i v gs"
  shows "distinct gs"
  unfolding deletesD(3) [OF assms]
proof (rule distinct_concat_map)
  show "distinct (links_of v)" by (rule links_exactD(3) [OF deletesD(1,2) [OF assms]])
qed (auto simp: child_links_iff [OF assms])

lemma rest_at:
  assumes "deletes ms i v gs" and "map_of (after_delete p i (links_of v) gs ms) k = Some w'"
  shows "\<exists>w. map_of ms k = Some w \<and> k \<noteq> i \<and> k \<notin> set (links_of v) \<and> parent_link w' = new_parent p gs k w \<and> is_dict w'
    \<and> links_of w' = (if p = PStr k then filter (\<lambda>c. c \<noteq> i) (links_of w) @ gs else links_of w)
    \<and> child_links w' = PList (map PStr (links_of w'))"
proof -
  from assms(2) have "\<exists>w. map_of ms k = Some w \<and> k \<noteq> i \<and> k \<notin> set (links_of v)
    \<and> w' = (let v = (if p = PStr k then with_children (filter (\<lambda>c. c \<noteq> i) (links_of w) @ gs) w else w)
                    in if k \<in> set gs then with_parent p v else v)"
    unfolding map_of_after_delete by (cases "map_of ms k") (auto simp: Let_def split: if_split_asm)
  then obtain w where w: "map_of ms k = Some w" "k \<noteq> i" "k \<notin> set (links_of v)"
    and w': "w' = (let v = (if p = PStr k then with_children (filter (\<lambda>c. c \<noteq> i) (links_of w) @ gs) w else w)
                    in if k \<in> set gs then with_parent p v else v)"
    by blast
  note D = links_exactD [OF deletesD(1) [OF assms(1)] w(1)]
  have ids: "child_links w' = PList (map PStr (if p = PStr k then filter (\<lambda>c. c \<noteq> i) (links_of w) @ gs else links_of w))"
    using D(2) by (simp add: w' Let_def)
  show ?thesis
    by (rule exI [of _ w]) (use w D(1) links_of_eq [OF ids] ids in \<open>simp add: w' Let_def new_parent_def\<close>)
qed

lemma rest_keys:
  "(\<exists>w'. map_of (after_delete p i is gs ms) k = Some w') \<longleftrightarrow> (\<exists>w. map_of ms k = Some w) \<and> k \<noteq> i \<and> k \<notin> set is"
  by (auto simp: map_of_after_delete)

lemma rest_child:
  assumes del: "deletes ms i v gs" and k: "map_of ms k = Some w" "k \<noteq> i" "k \<notin> set (links_of v)"
  shows "j \<in> set (if parent_link v = PStr k then filter (\<lambda>c. c \<noteq> i) (links_of w) @ gs else links_of w)
    \<longleftrightarrow> (\<exists>u. map_of ms j = Some u \<and> j \<noteq> i \<and> j \<notin> set (links_of v) \<and> new_parent (parent_link v) gs j u = PStr k)"
proof -
  have child: "j \<in> set (links_of w) \<longleftrightarrow> (\<exists>u. map_of ms j = Some u \<and> parent_link u = PStr k)"
    by (rule links_exactD(4) [OF deletesD(1) [OF del] k(1)])
  show ?thesis
    using k deletesD(2) [OF del] child_iff [OF del, of j] child_iff [OF del, of k] child_iff [OF del, of i]
      grandchild_iff [OF del, of j] child
    unfolding new_parent_def by (cases "parent_link v = PStr k") auto
qed

lemma rest_links:
  assumes del: "deletes ms i v gs"
  shows "links_exact (after_delete (parent_link v) i (links_of v) gs ms)" (is "links_exact ?rest")
  unfolding links_exact_iff
proof (intro conjI allI impI)
  note links = deletesD(1) [OF del]
  show "distinct (map fst ?rest)" using links_exact_distinct [OF links] unfolding keys_after_delete by (rule distinct_filter)
  fix k w' assume "map_of ?rest k = Some w'"
  from rest_at [OF del this] obtain w where w: "map_of ms k = Some w" "k \<noteq> i" "k \<notin> set (links_of v)" and "is_dict w'"
    and kids: "links_of w' = (if parent_link v = PStr k then filter (\<lambda>c. c \<noteq> i) (links_of w) @ gs else links_of w)"
    and ids: "child_links w' = PList (map PStr (links_of w'))"
    by blast
  show "is_dict w'" by fact
  have "set (links_of w) \<inter> set gs = {}"
    using w(3) grandchild_iff [OF del] links_exactD(4) [OF links w(1)] by auto
  then have "distinct (links_of w')"
    using links_exactD(3) [OF links w(1)] distinct_grandchildren [OF del] by (auto simp: kids)
  moreover have "j \<in> set (links_of w') \<longleftrightarrow> (\<exists>u'. map_of ?rest j = Some u' \<and> parent_link u' = PStr k)" for j
  proof -
    have at: "new_parent (parent_link v) gs j u = parent_link u'" if "map_of ?rest j = Some u'" "map_of ms j = Some u" for u u'
      using rest_at [OF del that(1)] that(2) by auto
    show ?thesis
      unfolding kids rest_child [OF del w] using rest_keys [of "parent_link v" i "links_of v" gs ms j] at by metis
  qed
  ultimately show "\<exists>is. child_links w' = PList (map PStr is) \<and> distinct is \<and>
      (\<forall>j. j \<in> set is \<longleftrightarrow> (\<exists>w. map_of ?rest j = Some w \<and> parent_link w = PStr k))"
    using ids by blast
qed

subsection \<open>The end of a branch\<close>

definition parent_pairs :: "pydict \<Rightarrow> (string \<times> string) list" where
  "parent_pairs ms = concat (map (\<lambda>(i, v). case parent_link v of PStr p \<Rightarrow> [(i, p)] | _ \<Rightarrow> []) ms)"

text \<open>No message is its own ancestor.\<close>

definition no_cycles :: "pydict \<Rightarrow> bool" where
  "no_cycles ms \<longleftrightarrow> acyclic (set (parent_pairs ms))"

lemma parent_pairs_iff:
  "distinct (map fst ms) \<Longrightarrow> (i, p) \<in> set (parent_pairs ms) \<longleftrightarrow> (\<exists>v. map_of ms i = Some v \<and> parent_link v = PStr p)"
  by (force simp: parent_pairs_def map_of_eq_Some_iff split: py.splits)

lemma descend_leaf:
  assumes links: "links_exact ms" and tree: "no_cycles ms"
  shows "map_of ms i = Some v \<Longrightarrow> \<forall>a \<in> set visited. (i, a) \<in> (set (parent_pairs ms))\<^sup>* \<Longrightarrow>
    \<exists>j w. descend ms (child_links v) visited (PStr i) = Inr (PStr j) \<and> map_of ms j = Some w \<and> links_of w = []"
proof (induction "card (fst ` set ms - set visited)" arbitrary: i v visited rule: less_induct)
  case less
  note D = links_exactD [OF links less.prems(1)]
  show ?case
  proof (cases "links_of v = []")
    case True
    then show ?thesis using less.prems(1) D(2) by (subst descend.simps) simp
  next
    case False
    define s where "s = last (links_of v)"
    have "s \<in> set (links_of v)" using False by (simp add: s_def)
    then obtain w where w: "map_of ms s = Some w" "parent_link w = PStr i" using D(4) by blast
    then have edge: "(s, i) \<in> set (parent_pairs ms)" using links_exact_distinct [OF links] by (auto simp: parent_pairs_iff)
    have new: "s \<notin> set visited"
    proof
      assume "s \<in> set visited"
      with less.prems(2) have "(i, s) \<in> (set (parent_pairs ms))\<^sup>*" by blast
      with edge have "(s, s) \<in> (set (parent_pairs ms))\<^sup>+" by (rule rtrancl_into_trancl2)
      with tree show False by (auto simp: no_cycles_def acyclic_def)
    qed
    from links_exactD(1) [OF links w(1)] obtain m where m: "w = PDict m" by (auto simp: is_dict_iff)
    have "descend ms (child_links v) visited (PStr i) = descend ms (child_links w) (s # visited) (PStr s)"
      using False new w(1) D(2)
      by (subst descend.simps) (simp add: last_item_def s_def [symmetric] last_map m child_links_def)
    moreover have "\<exists>j u. descend ms (child_links w) (s # visited) (PStr s) = Inr (PStr j) \<and> map_of ms j = Some u \<and> links_of u = []"
    proof (rule less.hyps [OF _ w(1)])
      have "s \<in> fst ` set ms" using w(1) by (auto simp: map_of_keys)
      with new have "fst ` set ms - set (s # visited) \<subset> fst ` set ms - set visited" by auto
      from psubset_card_mono [OF _ this] show "card (fst ` set ms - set (s # visited)) < card (fst ` set ms - set visited)" by simp
      show "\<forall>a \<in> set (s # visited). (s, a) \<in> (set (parent_pairs ms))\<^sup>*"
        using less.prems(2) edge by (auto intro: converse_rtrancl_into_rtrancl)
    qed
    ultimately show ?thesis by simp
  qed
qed

lemma root_ids_eq:
  assumes "links_exact ms"
  shows "root_ids ms = Inr (map (PStr \<circ> fst) (filter (\<lambda>(_, v). parent_link v = PNone) ms))"
proof -
  have "concat_result (\<lambda>(k, v). bind_result (dict_of v) (\<lambda>m. Inr (if pget m ''parentId'' = PNone then [PStr k] else []))) xs
      = Inr (map (PStr \<circ> fst) (filter (\<lambda>(_, v). parent_link v = PNone) xs))" if "\<forall>(k, v) \<in> set xs. is_dict v" for xs
    using that by (induction xs) (auto simp: dict_of_def is_dict_iff parent_link_def)
  moreover have "\<forall>(k, v) \<in> set ms. is_dict v" using assms by (auto simp: links_exact_def list_all_iff)
  ultimately show ?thesis by (simp add: root_ids_def)
qed

lemma branch_end_leaf:
  assumes links: "links_exact ms" and tree: "no_cycles ms" and "hashable p"
  shows "branch_end ms p = Inr PNone \<or> (\<exists>i w. branch_end ms p = Inr (PStr i) \<and> map_of ms i = Some w \<and> links_of w = [])"
proof -
  consider (root) s where "p = PNone" "last (map fst (filter (\<lambda>(_, v). parent_link v = PNone) ms)) = s"
      "filter (\<lambda>(_, v). parent_link v = PNone) ms \<noteq> []"
    | (none) "p = PNone" "filter (\<lambda>(_, v). parent_link v = PNone) ms = []"
    | (parent) k v where "p = PStr k" "map_of ms k = Some v"
    | (gap) "p \<noteq> PNone" "\<forall>k \<in> fst ` set ms. p \<noteq> PStr k"
    by (metis map_of_keys)
  then show ?thesis
  proof cases
    case root
    let ?ids = "map fst (filter (\<lambda>(_, v). parent_link v = PNone) ms)"
    have "s \<in> set ?ids" using root(2,3) by (metis last_in_set map_is_Nil_conv)
    then obtain w where w: "map_of ms s = Some w" using links_exact_distinct [OF links] by (force simp: map_of_keys [symmetric])
    from links_exactD(1) [OF links w] obtain m where m: "w = PDict m" by (auto simp: is_dict_iff)
    have "descend ms (PList (map PStr ?ids)) [] PNone = descend ms (child_links w) [s] (PStr s)"
      using root(2,3) w by (subst descend.simps) (simp add: last_item_def last_map m child_links_def)
    moreover obtain j u where j: "descend ms (child_links w) [s] (PStr s) = Inr (PStr j)" "map_of ms j = Some u" "links_of u = []"
      using descend_leaf [OF links tree w, of "[s]"] by auto
    moreover have "branch_end ms p = bind_result (descend ms (PList (map PStr ?ids)) [] PNone) (\<lambda>current_id.
        bind_result (has_key ms current_id) (\<lambda>known. Inr (if known then current_id else PNone)))"
      using root(1) by (simp add: branch_end_def root_ids_eq [OF links])
    moreover have "has_key ms (PStr j) = Inr True" using j(2) by (auto simp: has_key_def map_of_keys)
    ultimately show ?thesis by simp
  next
    case none
    have "descend ms (PList []) [] PNone = Inr PNone" by (subst descend.simps) simp
    with none show ?thesis by (simp add: branch_end_def root_ids_eq [OF links] has_key_def)
  next
    case parent
    from links_exactD(1,2) [OF links parent(2)] obtain m where m: "v = PDict m" "pget m ''childrenIds'' = PList (map PStr (links_of v))"
      by (auto simp: is_dict_iff child_links_def)
    have "dget m ''childrenIds'' (PList []) = child_links v"
      using m by (auto simp: child_links_def pget_def dget_def split: option.splits)
    then have "branch_end ms p = bind_result (descend ms (child_links v) [] p) (\<lambda>current_id.
        bind_result (has_key ms current_id) (\<lambda>known. Inr (if known then current_id else PNone)))"
      using parent m(1) by (simp add: branch_end_def get_item_def dget_def dict_of_def)
    moreover obtain j u where j: "descend ms (child_links v) [] (PStr k) = Inr (PStr j)" "map_of ms j = Some u" "links_of u = []"
      using descend_leaf [OF links tree parent(2), of "[]"] by auto
    moreover have "has_key ms (PStr j) = Inr True" using j(2) by (auto simp: has_key_def map_of_keys)
    ultimately show ?thesis using parent(1) by simp
  next
    case gap
    have "get_item ms p (PDict []) = Inr (PDict [])"
      using gap(2) assms(3) by (cases p) (force simp: get_item_def dget_def split: option.splits dest: map_of_SomeD)+
    moreover have "descend ms (PList []) [] p = Inr p" by (subst descend.simps) simp
    moreover have "has_key ms p = Inr False" using gap(2) assms(3) by (cases p) (auto simp: has_key_def)
    ultimately show ?thesis using gap(1) by (simp add: branch_end_def dict_of_def)
  qed
qed

lemma rest_no_cycles:
  assumes del: "deletes ms i v gs" and "no_cycles ms"
  shows "no_cycles (after_delete (parent_link v) i (links_of v) gs ms)" (is "no_cycles ?rest")
proof -
  let ?E = "set (parent_pairs ms)"
  note links = deletesD(1) [OF del]
  note dist = links_exact_distinct [OF links] links_exact_distinct [OF rest_links [OF del]]
  have "(j, k) \<in> ?E\<^sup>+" if "(j, k) \<in> set (parent_pairs ?rest)" for j k
  proof -
    from that obtain w' where w': "map_of ?rest j = Some w'" "parent_link w' = PStr k" by (auto simp: parent_pairs_iff dist)
    from rest_at [OF del w'(1)] w'(2) obtain w where w: "map_of ms j = Some w" "new_parent (parent_link v) gs j w = PStr k" by auto
    show ?thesis
    proof (cases "j \<in> set gs")
      case False
      with w have "(j, k) \<in> ?E" by (auto simp: parent_pairs_iff dist new_parent_def)
      then show ?thesis by blast
    next
      case True
      then obtain c where c: "c \<in> set (links_of v)" "(j, c) \<in> ?E" by (auto simp: grandchild_iff [OF del] parent_pairs_iff dist)
      moreover from c(1) have "(c, i) \<in> ?E" by (auto simp: child_iff [OF del] parent_pairs_iff dist)
      moreover from w(2) True deletesD(2) [OF del] have "(i, k) \<in> ?E" by (auto simp: parent_pairs_iff dist new_parent_def)
      ultimately show ?thesis by (meson trancl.simps)
    qed
  qed
  then have "(set (parent_pairs ?rest))\<^sup>+ \<subseteq> ?E\<^sup>+" by (metis subrelI trancl_id trancl_mono_subset trans_trancl)
  with assms(2) show ?thesis by (auto simp: no_cycles_def acyclic_def)
qed

subsection \<open>Deleting a message\<close>

lemma same_fields:
  assumes "map_of (after_delete p i is gs ms) k = Some w'" and "map_of ms k = Some w" and "f \<notin> {''childrenIds'', ''parentId''}"
  shows "pget (as_dict w') f = pget (as_dict w) f"
  using assms by (auto simp: map_of_after_delete Let_def with_children_def with_parent_def pget_def split: if_splits)

lemma delete_eq:
  assumes "deletes (messages_of history) i v gs" and "hashable (parent_link v)"
  shows "delete_message_from_history history i =
    bind_result (branch_end (after_delete (parent_link v) i (links_of v) gs (messages_of history)) (parent_link v)) (\<lambda>current_id.
      Inr (AList.update ''currentId'' current_id (AList.update ''messages''
             (PDict (after_delete (parent_link v) i (links_of v) gs (messages_of history))) history),
           dict_fromkeys (i # links_of v)))"
proof -
  let ?ms = "messages_of history"
  note D = deletesD [OF assms(1)]
  from links_exactD(1) [OF D(1,2)] obtain m where m: "v = PDict m" by (auto simp: is_dict_iff)
  have "?ms \<noteq> []" using D(2) by auto
  then have ms: "dict_of (py_or (pget history ''messages'') (PDict [])) = Inr ?ms"
    by (auto simp: messages_of_def as_dict_def dict_of_def py_or_def split: py.splits)
  have kids: "known_ids ?ms (pget m ''childrenIds'') = Inr (links_of v)"
    using known_ids_links [OF D(1,2)] by (simp add: child_links_def m)
  have "child_ids_of ?ms c = Inr (links_of (the (map_of ?ms c)))" if "c \<in> set (links_of v)" for c
    using that child_ids_of_links [OF D(1)] by (fastforce simp: child_iff [OF assms(1)])
  then have grandkids: "concat_result (child_ids_of ?ms) (links_of v) = Inr gs"
    unfolding D(3) by (rule concat_result_Inr)
  have adopt: "adopt (parent_link v) i gs ?ms = Inr (adopted (parent_link v) i gs ?ms)"
    by (rule adopt_eq [OF D(1) assms(2)])
  have move: "fold_result (reparent (parent_link v)) gs (adopted (parent_link v) i gs ?ms)
      = Inr (reparented (parent_link v) gs (adopted (parent_link v) i gs ?ms))"
  proof (rule reparent_eq)
    show "distinct (map fst (adopted (parent_link v) i gs ?ms))"
      unfolding adopted_def map_fst_keyed by (rule links_exact_distinct [OF D(1)])
    show "\<forall>(k, w) \<in> set (adopted (parent_link v) i gs ?ms). is_dict w"
      using D(1) by (auto simp: adopted_def links_exact_def list_all_iff)
    have "set gs \<subseteq> set (map fst ?ms)" by (auto simp: grandchild_iff [OF assms(1)] map_of_keys)
    then show "set gs \<subseteq> fst ` set (adopted (parent_link v) i gs ?ms)"
      unfolding set_map [symmetric] adopted_def map_fst_keyed .
  qed
  have "pget ?ms i = PDict m" by (simp add: pget_def dget_def D(2) m)
  moreover have "pget m ''parentId'' = parent_link v" by (simp add: parent_link_def m)
  ultimately show ?thesis
    unfolding delete_message_from_history_def ms bind_result_simps
    by (simp add: kids grandkids adopt move after_delete_def Let_def)
qed


definition demo_tree :: pydict where
  "demo_tree = [(''messages'', PDict
     [(''a'', PDict [(''id'', PStr ''a''), (''parentId'', PNone), (''childrenIds'', PList [PStr ''b''])]),
      (''b'', PDict [(''id'', PStr ''b''), (''parentId'', PStr ''a''), (''childrenIds'', PList [PStr ''c''])]),
      (''c'', PDict [(''id'', PStr ''c''), (''parentId'', PStr ''b''), (''childrenIds'', PList [PStr ''d''])]),
      (''d'', PDict [(''id'', PStr ''d''), (''parentId'', PStr ''c''), (''childrenIds'', PList [])])]),
     (''currentId'', PStr ''d'')]"


text \<open>
  A deletion trusts \<open>childrenIds\<close>, and a write that gives a stored message another parent leaves it in the
  list of the old one: here \<open>c\<close> has moved from \<open>a\<close> to \<open>b\<close>, and deleting \<open>a\<close> deletes it.
\<close>

definition demo_moved :: "pydict result" where
  "demo_moved = map_sum id fst (upsert_message_to_history 9
     [(''messages'', PDict
       [(''a'', PDict [(''id'', PStr ''a''), (''parentId'', PNone), (''childrenIds'', PList [PStr ''c''])]),
        (''b'', PDict [(''id'', PStr ''b''), (''parentId'', PNone), (''childrenIds'', PList [])]),
        (''c'', PDict [(''id'', PStr ''c''), (''parentId'', PStr ''a''), (''childrenIds'', PList [])])]),
      (''currentId'', PStr ''c'')] ''c'' [(''parentId'', PStr ''b'')])"

lemma moved_message_deleted:
  "(case demo_moved of Inr h \<Rightarrow> parent_link (pget (messages_of h) ''c'') = PStr ''b''
      \<and> (case delete_message_from_history h ''a'' of Inr (_, deleted) \<Rightarrow> deleted = [''a'', ''c''] | _ \<Rightarrow> False)
    | _ \<Rightarrow> False)"
  by code_simp

end
