(* ===== verification/Chat_Writes.thy ===== *)
theory Chat_Writes
  imports Chat_Delete
begin

text \<open>
  The handlers of \<^verbatim>\<open>models/chats.py\<close> that write the message tree of a chat. Each runs in one transaction
  on the locked chat row; an exception leaves the database as it was, so a handler returns the new
  row or the error. \<open>save_row\<close> is \<open>ChatMessages.upsert_message\<close> on the \<open>chat_message\<close> rows of the chat,
  for a message id, a user and the message; \<open>delete_rows\<close> is \<open>delete_message_ids_by_chat_id\<close>. Handlers
  that catch every exception have their result in \<open>chat_option\<close>.
\<close>

record chat_row =
  cr_user_id :: string
  cr_title :: py
  cr_chat :: pydict
  cr_current_message_id :: py
  cr_updated_at :: int

type_synonym 'r chat_state = "chat_row \<times> 'r"

text \<open>\<open>_chat_transaction\<close> in a \<open>try\<close> that returns \<open>None\<close>: no chat, or an exception and the rollback.\<close>

definition chat_option :: "(chat_row \<Rightarrow> 'a result) \<Rightarrow> chat_row option \<Rightarrow> 'a option" where
  "chat_option f row = (case row of None \<Rightarrow> None | Some r \<Rightarrow> (case f r of Inl _ \<Rightarrow> None | Inr x \<Rightarrow> Some x))"

text \<open>The fields of \<open>ChatModel\<close> that a write can spoil.\<close>

definition model_ok :: "chat_row \<Rightarrow> bool" where
  "model_ok row \<longleftrightarrow> (case cr_title row of PStr _ \<Rightarrow> True | _ \<Rightarrow> False)
     \<and> (case cr_current_message_id row of PStr _ \<Rightarrow> True | PNone \<Rightarrow> True | _ \<Rightarrow> False)"

definition validated :: "'r chat_state \<Rightarrow> 'r chat_state result" where
  "validated st = (if model_ok (fst st) then Inr st else Inl (ValueError ''validation error''))"

definition author :: "chat_row \<Rightarrow> pydict \<Rightarrow> py" where
  "author row message = py_or (pget message ''user_id'') (PStr (cr_user_id row))"

subsection \<open>A whole chat from a client\<close>

text \<open>A message the client must not replace: another user's, or a reply that is still being written.\<close>

definition restore_step :: "chat_row \<Rightarrow> string \<times> py \<Rightarrow> pydict \<Rightarrow> pydict result" where
  "restore_step row item messages =
     (case item of (mid, v) \<Rightarrow>
        bind_result (dict_of v) (\<lambda>message.
          if author row message \<noteq> PStr (cr_user_id row) then Inr (AList.update mid v messages)
          else if pget message ''role'' \<noteq> PStr ''assistant'' then Inr messages
          else if pget message ''done'' = PBool False then Inr (AList.update mid v messages)
          else (case map_of messages mid of
                  None \<Rightarrow> Inl KeyError
                | Some w \<Rightarrow> bind_result (dict_of w) (\<lambda>merged.
                    Inr (if pget merged ''done'' = PBool False then AList.update mid v messages else messages)))))"

text \<open>\<open>stored.get('history', {}).get('messages') or {}\<close>.\<close>

definition chat_messages :: "pydict \<Rightarrow> pydict result" where
  "chat_messages chat =
     bind_result (dict_of (dget chat ''history'' (PDict []))) (\<lambda>h. dict_of (py_or (pget h ''messages'') (PDict [])))"

definition merged_chat :: "chat_row \<Rightarrow> pydict \<Rightarrow> pydict result" where
  "merged_chat row chat =
     (let stored = cr_chat row; updated = dict_merge stored chat
      in if ''history'' \<notin> fst ` set chat then Inr updated
         else bind_result (merge_history (pget stored ''history'') (pget chat ''history'')) (\<lambda>history.
              bind_result (chat_messages stored) (\<lambda>items.
              bind_result (fold_result (restore_step row) items (messages_of history)) (\<lambda>messages.
              bind_result (merge_history (PDict (AList.update ''messages'' (PDict messages) history)) (PDict [])) (\<lambda>history.
                Inr (AList.update ''history'' (PDict history) updated))))))"

definition write_changed :: "(string \<Rightarrow> py \<Rightarrow> pydict \<Rightarrow> 'r \<Rightarrow> 'r result) \<Rightarrow> chat_row \<Rightarrow> pydict \<Rightarrow> pydict \<Rightarrow> string \<Rightarrow> 'r \<Rightarrow> 'r result" where
  "write_changed save_row row stored updated mid rows =
     bind_result (chat_messages updated) (\<lambda>messages.
       let v = pget messages mid
       in if \<not> truthy v then Inr rows
          else bind_result (dict_of v) (\<lambda>message.
            if \<not> truthy (pget message ''role'') then Inr rows
            else bind_result (chat_messages stored) (\<lambda>old.
              if py_eq v (pget old mid) then Inr rows else save_row mid (author row message) message rows)))"

definition update_chat :: "(py \<Rightarrow> string) \<Rightarrow> int \<Rightarrow> (string \<Rightarrow> py \<Rightarrow> pydict \<Rightarrow> 'r \<Rightarrow> 'r result) \<Rightarrow> pydict \<Rightarrow> bool \<Rightarrow> 'r
    \<Rightarrow> chat_row \<Rightarrow> 'r chat_state result" where
  "update_chat float_repr now save_row chat touch rows row =
     bind_result (merged_chat row chat) (\<lambda>updated.
       let updated = as_dict (sanitize_data_for_db float_repr (PDict updated));
           moved = list_ex (\<lambda>k. k \<in> fst ` set chat) [''history'', ''messages'', ''currentId'', ''branchPointMessageId''];
           row' = row\<lparr>cr_chat := updated, cr_title := dget updated ''title'' (PStr ''New Chat''),
                      cr_current_message_id := (if moved then get_current_message_id updated else cr_current_message_id row),
                      cr_updated_at := (if touch then now else cr_updated_at row)\<rparr>
       in bind_result (chat_messages chat) (\<lambda>incoming.
          bind_result (fold_result (write_changed save_row row (cr_chat row) updated) (map fst incoming) rows) (\<lambda>rows.
            validated (row', rows))))"

definition update_chat_by_id :: "(py \<Rightarrow> string) \<Rightarrow> int \<Rightarrow> (string \<Rightarrow> py \<Rightarrow> pydict \<Rightarrow> 'r \<Rightarrow> 'r result) \<Rightarrow> pydict \<Rightarrow> bool \<Rightarrow> 'r
    \<Rightarrow> chat_row option \<Rightarrow> 'r chat_state option" where
  "update_chat_by_id float_repr now save_row chat touch rows = chat_option (update_chat float_repr now save_row chat touch rows)"

definition update_chat_params_by_id :: "(py \<Rightarrow> string) \<Rightarrow> pydict \<Rightarrow> chat_row option \<Rightarrow> chat_row option result" where
  "update_chat_params_by_id float_repr params row =
     (case row of
        None \<Rightarrow> Inr None
      | Some row \<Rightarrow>
          bind_result (spread (py_or (pget (cr_chat row) ''params'') (PDict []))) (\<lambda>old.
          bind_result (validated (row\<lparr>cr_chat := AList.update ''params''
            (sanitize_data_for_db float_repr (PDict (dict_merge old params))) (cr_chat row)\<rparr>, ())) (\<lambda>(row, _). Inr (Some row))))"

definition update_chat_title_by_id :: "(py \<Rightarrow> string) \<Rightarrow> string \<Rightarrow> chat_row option \<Rightarrow> chat_row option" where
  "update_chat_title_by_id float_repr title =
     chat_option (\<lambda>row. let clean_title = sanitize_data_for_db float_repr (PStr title)
       in bind_result (validated (row\<lparr>cr_title := clean_title,
            cr_chat := AList.update ''title'' clean_title (cr_chat row)\<rparr>, ())) (\<lambda>(row, _). Inr row))"

subsection \<open>One message\<close>

text \<open>The row after a change of the history: \<open>title\<close> and \<open>current_message_id\<close> follow the JSON.\<close>

definition with_chat :: "(py \<Rightarrow> string) \<Rightarrow> pydict \<Rightarrow> chat_row \<Rightarrow> chat_row" where
  "with_chat float_repr chat row =
     row\<lparr>cr_chat := chat, cr_title := sanitize_data_for_db float_repr (dget chat ''title'' (PStr ''New Chat'')),
         cr_current_message_id := get_current_message_id chat\<rparr>"

definition repaired :: "chat_row \<Rightarrow> (pydict \<times> pydict) result" where
  "repaired row =
     bind_result (repair_chat_current_id (cr_chat row)) (\<lambda>(chat, _).
     bind_result (dict_of (dget chat ''history'' (PDict []))) (\<lambda>history. Inr (chat, history)))"

definition upsert_message_to_chat :: "(py \<Rightarrow> string) \<Rightarrow> (py \<Rightarrow> string) \<Rightarrow> int \<Rightarrow> (string \<Rightarrow> py \<Rightarrow> pydict \<Rightarrow> 'r \<Rightarrow> 'r result)
    \<Rightarrow> string \<Rightarrow> pydict \<Rightarrow> bool \<Rightarrow> 'r \<Rightarrow> chat_row \<Rightarrow> 'r chat_state result" where
  "upsert_message_to_chat float_repr to_str now save_row message_id message touch rows row =
     (let output_text = get_output_text to_str (pget message ''output'');
          message = (if \<not> truthy (pget message ''content'') \<and> output_text \<noteq> []
                     then AList.update ''content'' (PStr output_text) message else message);
          message = as_dict (sanitize_data_for_db float_repr (PDict message));
          message_id = sanitize_text_for_db message_id
      in bind_result (repaired row) (\<lambda>(chat, history).
         bind_result (upsert_message_to_history now history message_id message) (\<lambda>(history, saved).
         bind_result (save_row message_id (author row saved) saved rows) (\<lambda>rows.
           let row = with_chat float_repr (AList.update ''history'' (PDict history) chat) row
           in validated (row\<lparr>cr_updated_at := (if touch then now else cr_updated_at row)\<rparr>, rows)))))"

definition upsert_message_to_chat_by_id_and_message_id :: "(py \<Rightarrow> string) \<Rightarrow> (py \<Rightarrow> string) \<Rightarrow> int
    \<Rightarrow> (string \<Rightarrow> py \<Rightarrow> pydict \<Rightarrow> 'r \<Rightarrow> 'r result) \<Rightarrow> string \<Rightarrow> pydict \<Rightarrow> bool \<Rightarrow> 'r \<Rightarrow> chat_row option \<Rightarrow> 'r chat_state option" where
  "upsert_message_to_chat_by_id_and_message_id float_repr to_str now save_row message_id message touch rows =
     chat_option (upsert_message_to_chat float_repr to_str now save_row message_id message touch rows)"

definition add_message_status_to_chat :: "(py \<Rightarrow> string) \<Rightarrow> (string \<Rightarrow> py \<Rightarrow> pydict \<Rightarrow> 'r \<Rightarrow> 'r result)
    \<Rightarrow> string \<Rightarrow> pydict \<Rightarrow> 'r \<Rightarrow> chat_row \<Rightarrow> 'r chat_state result" where
  "add_message_status_to_chat float_repr save_row message_id status rows row =
     bind_result (repaired row) (\<lambda>(chat, history).
     bind_result (spread (dget history ''messages'' (PDict []))) (\<lambda>messages.
     bind_result
       (if message_id \<notin> fst ` set messages then Inr (history, rows)
        else bind_result (dict_of (pget messages message_id)) (\<lambda>m.
             case dget m ''statusHistory'' (PList []) of
               PList xs \<Rightarrow>
                 let m = AList.update ''statusHistory'' (PList (xs @ [sanitize_data_for_db float_repr (PDict status)])) m
                 in bind_result (save_row message_id (author row m) m rows) (\<lambda>rows.
                      Inr (AList.update ''messages'' (PDict (AList.update message_id (PDict m) messages)) history, rows))
             | _ \<Rightarrow> Inl AttributeError)) (\<lambda>(history, rows).
       validated (with_chat float_repr (AList.update ''history'' (PDict history) chat) row, rows))))"

definition add_message_status_to_chat_by_id_and_message_id :: "(py \<Rightarrow> string) \<Rightarrow> (string \<Rightarrow> py \<Rightarrow> pydict \<Rightarrow> 'r \<Rightarrow> 'r result)
    \<Rightarrow> string \<Rightarrow> pydict \<Rightarrow> 'r \<Rightarrow> chat_row option \<Rightarrow> 'r chat_state option" where
  "add_message_status_to_chat_by_id_and_message_id float_repr save_row message_id status rows =
     chat_option (add_message_status_to_chat float_repr save_row message_id status rows)"

definition write_sibling :: "(string \<Rightarrow> py \<Rightarrow> pydict \<Rightarrow> 'r \<Rightarrow> 'r result) \<Rightarrow> chat_row \<Rightarrow> py \<Rightarrow> string \<times> py \<Rightarrow> 'r \<Rightarrow> 'r result" where
  "write_sibling save_row row parent_id item rows =
     (case item of (mid, v) \<Rightarrow>
        bind_result (dict_of v) (\<lambda>message.
          if py_eq (pget message ''parentId'') parent_id then save_row mid (author row message) message rows else Inr rows))"

definition delete_message_from_chat :: "(py \<Rightarrow> string) \<Rightarrow> int \<Rightarrow> (string \<Rightarrow> py \<Rightarrow> pydict \<Rightarrow> 'r \<Rightarrow> 'r result)
    \<Rightarrow> (string list \<Rightarrow> 'r \<Rightarrow> 'r result) \<Rightarrow> string \<Rightarrow> 'r \<Rightarrow> chat_row \<Rightarrow> 'r chat_state result" where
  "delete_message_from_chat float_repr now save_row delete_rows message_id rows row =
     bind_result (repaired row) (\<lambda>(chat, history).
     bind_result (dict_of (py_or (pget history ''messages'') (PDict []))) (\<lambda>messages.
     bind_result (dict_of (py_or (pget messages message_id) (PDict []))) (\<lambda>message.
     bind_result (delete_message_from_history history message_id) (\<lambda>(history, deleted_ids).
     bind_result (delete_rows deleted_ids rows) (\<lambda>rows.
       if deleted_ids = [] then validated (with_chat float_repr chat row, rows)
       else bind_result (dict_of (py_or (pget history ''messages'') (PDict []))) (\<lambda>messages.
            bind_result (fold_result (write_sibling save_row row (pget message ''parentId'')) messages rows) (\<lambda>rows.
              validated ((with_chat float_repr (AList.update ''history'' (PDict history) chat) row)\<lparr>cr_updated_at := now\<rparr>, rows))))))))"

definition delete_message_from_chat_by_id_and_message_id :: "(py \<Rightarrow> string) \<Rightarrow> int \<Rightarrow> (string \<Rightarrow> py \<Rightarrow> pydict \<Rightarrow> 'r \<Rightarrow> 'r result)
    \<Rightarrow> (string list \<Rightarrow> 'r \<Rightarrow> 'r result) \<Rightarrow> string \<Rightarrow> 'r \<Rightarrow> chat_row option \<Rightarrow> 'r chat_state option" where
  "delete_message_from_chat_by_id_and_message_id float_repr now save_row delete_rows message_id rows =
     chat_option (delete_message_from_chat float_repr now save_row delete_rows message_id rows)"

subsection \<open>A turn\<close>

record turn_user =
  tu_id :: string
  tu_name :: string

definition conflict :: py_error where
  "conflict = HTTPException 409 ''Message already exists or has an invalid ID.''"

text \<open>A reply id that is taken: by anything but an empty reply of the same user prepared for this message.\<close>

definition reply_taken :: "chat_row \<Rightarrow> turn_user \<Rightarrow> pydict \<Rightarrow> pydict \<Rightarrow> bool" where
  "reply_taken row user user_message reply \<longleftrightarrow>
     pget reply ''role'' \<noteq> PStr ''assistant'' \<or> truthy (pget reply ''done'') \<or> truthy (pget reply ''content'')
     \<or> truthy (pget reply ''output'') \<or> author row reply \<noteq> PStr (tu_id user)
     \<or> (user_message \<noteq> [] \<and> \<not> py_eq (pget reply ''parentId'') (pget user_message ''id''))"

definition check_reply :: "chat_row \<Rightarrow> turn_user \<Rightarrow> pydict \<Rightarrow> pydict \<Rightarrow> py \<Rightarrow> unit \<Rightarrow> unit result" where
  "check_reply row user user_message messages mid _ =
     bind_result (get_item messages mid PNone) (\<lambda>v.
       if \<not> truthy v then Inr ()
       else bind_result (dict_of v) (\<lambda>reply. if reply_taken row user user_message reply then Inl conflict else Inr ()))"

text \<open>The message of the user as it is written: the stored one, or the new one with its server fields.\<close>

definition new_user_message :: "int \<Rightarrow> chat_row \<Rightarrow> turn_user \<Rightarrow> pydict \<Rightarrow> py \<Rightarrow> pydict" where
  "new_user_message now row user user_message parent_id =
     dict_merge (if cr_user_id row = tu_id user then user_message
                 else map (\<lambda>k. (k, pget user_message k))
                        (filter (\<lambda>k. k \<in> fst ` set user_message) [''content'', ''files'', ''models'']))
       [(''id'', pget user_message ''id''), (''parentId'', parent_id), (''role'', PStr ''user''), (''childrenIds'', PList []),
        (''timestamp'', PInt now), (''user_id'', PStr (tu_id user)),
        (''user'', PDict [(''id'', PStr (tu_id user)), (''name'', PStr (tu_name user))])]"

text \<open>The message to write, and its parent.\<close>

definition turn_message :: "int \<Rightarrow> chat_row \<Rightarrow> turn_user \<Rightarrow> pydict \<Rightarrow> pydict \<Rightarrow> string \<Rightarrow> (pydict \<times> py) result" where
  "turn_message now row user user_message messages uid =
     bind_result (dict_of (py_or (pget messages uid) (PDict []))) (\<lambda>existing.
       let parent_id = (if existing \<noteq> [] then pget existing ''parentId'' else pget user_message ''parentId'')
       in if existing \<noteq> [] \<and> pget existing ''role'' \<noteq> PStr ''user''
          then Inl (HTTPException 403 ''You can only regenerate replies to user messages.'')
          else bind_result (has_key messages parent_id) (\<lambda>known.
            if parent_id \<noteq> PNone \<and> \<not> known then Inl (HTTPException 409 ''Parent message no longer exists.'')
            else Inr (if existing = [] then new_user_message now row user user_message parent_id
                      else if ''models'' \<in> fst ` set user_message \<and> author row existing = PStr (tu_id user)
                      then AList.update ''models'' (pget user_message ''models'') existing
                      else existing, parent_id)))"

definition empty_reply :: "int \<Rightarrow> turn_user \<Rightarrow> py \<Rightarrow> string \<Rightarrow> py \<Rightarrow> py \<Rightarrow> pydict" where
  "empty_reply now user parent_id mid model_id modelIdx =
     [(''id'', PStr mid), (''parentId'', parent_id), (''childrenIds'', PList []), (''role'', PStr ''assistant''),
      (''content'', PStr []), (''done'', PBool False), (''model'', model_id), (''modelIdx'', modelIdx),
      (''timestamp'', PInt now), (''user_id'', PStr (tu_id user))]"

definition add_reply :: "int \<Rightarrow> turn_user \<Rightarrow> py \<Rightarrow> pydict \<Rightarrow> pydict \<Rightarrow> pydict result" where
  "add_reply now user parent_id entry history =
     (case (map_of entry ''message_id'', map_of entry ''model_id'') of
        (Some (PStr mid), Some model_id) \<Rightarrow>
          bind_result (upsert_message_to_history now history mid (empty_reply now user parent_id mid model_id (pget entry ''modelIdx'')))
            (\<lambda>(history, _). Inr history)
      | _ \<Rightarrow> Inl KeyError)"

text \<open>
  The body of the transaction: the new row, the message rows, and the messages of the turn. The turn
  holds the stored messages themselves, so it shows them as they are at the end.
\<close>

definition truthy_str :: "py \<Rightarrow> bool" where
  "truthy_str v = (case v of PStr s \<Rightarrow> s \<noteq> [] | _ \<Rightarrow> False)"

definition str_list :: "py list \<Rightarrow> string list" where
  "str_list vs = concat (map (\<lambda>v. case v of PStr s \<Rightarrow> [s] | _ \<Rightarrow> []) vs)"

definition turn_history :: "chat_row \<Rightarrow> pydict result" where
  "turn_history row =
     dict_of (py_or (pget (cr_chat row) ''history'') (PDict [(''messages'', PDict []), (''currentId'', PNone)]))"

definition write_turn :: "(py \<Rightarrow> string) \<Rightarrow> int \<Rightarrow> turn_user \<Rightarrow> pydict \<Rightarrow> pydict list \<Rightarrow> chat_row \<Rightarrow> pydict \<Rightarrow> pydict
    \<Rightarrow> (pydict \<times> py) result" where
  "write_turn float_repr now user user_message message_ids row messages history =
     bind_result
       (if user_message = [] then Inr (history, PNone)
        else case pget user_message ''id'' of
               PStr uid \<Rightarrow>
                 bind_result (turn_message now row user user_message messages uid) (\<lambda>(message, parent_id).
                 bind_result (upsert_message_to_history now history uid (as_dict (sanitize_data_for_db float_repr (PDict message))))
                   (\<lambda>(history, _). Inr (history, parent_id)))
             | _ \<Rightarrow> Inl TypeError)
       (\<lambda>(history, parent_id).
          bind_result (fold_result (add_reply now user (pget user_message ''id'')) message_ids history) (\<lambda>history.
            Inr (history, parent_id)))"

definition save_turn_row :: "(string \<Rightarrow> py \<Rightarrow> pydict \<Rightarrow> 'r \<Rightarrow> 'r result) \<Rightarrow> chat_row \<Rightarrow> pydict \<Rightarrow> string \<Rightarrow> 'r \<Rightarrow> 'r result" where
  "save_turn_row save_row row messages mid rows =
     (let message = as_dict (pget messages mid) in save_row mid (author row message) message rows)"

definition insert_chat_turn :: "(py \<Rightarrow> string) \<Rightarrow> int \<Rightarrow> (string \<Rightarrow> py \<Rightarrow> pydict \<Rightarrow> 'r \<Rightarrow> 'r result) \<Rightarrow> bool \<Rightarrow> turn_user
    \<Rightarrow> pydict \<Rightarrow> pydict list \<Rightarrow> 'r \<Rightarrow> chat_row option \<Rightarrow> (chat_row \<times> 'r \<times> pydict) result" where
  "insert_chat_turn float_repr now save_row writable user user_message message_ids rows row =
     (if \<not> writable then Inl (HTTPException 403 ''Chat continuation is not allowed.'')
      else case row of
             None \<Rightarrow> Inl (HTTPException 404 ''Chat not found.'')
           | Some row \<Rightarrow>
               bind_result (turn_history row) (\<lambda>history.
               bind_result (dict_of (py_or (pget history ''messages'') (PDict []))) (\<lambda>messages.
                 let assistant_ids = map (\<lambda>e. pget e ''message_id'') message_ids;
                     ids = (if user_message \<noteq> [] then pget user_message ''id'' # assistant_ids else assistant_ids)
                 in if \<not> list_all truthy_str ids \<or> \<not> distinct ids then Inl conflict
                    else bind_result (fold_result (check_reply row user user_message messages) assistant_ids ()) (\<lambda>_.
                    bind_result (write_turn float_repr now user user_message message_ids row messages history) (\<lambda>(history, parent_id).
                    case map_of history ''currentId'' of
                      None \<Rightarrow> Inl KeyError
                    | Some current_id \<Rightarrow>
                        let row' = row\<lparr>cr_chat := AList.update ''history'' (PDict history) (cr_chat row),
                                       cr_current_message_id := current_id, cr_updated_at := now\<rparr>;
                            turn = (if truthy parent_id then append_new parent_id ids else ids)
                        in bind_result (fold_result (save_turn_row save_row row (messages_of history)) (str_list ids) rows) (\<lambda>rows.
                             Inr (row', rows, [(''messages'', PDict (map (\<lambda>i. (i, pget (messages_of history) i)) (str_list turn))),
                                               (''currentId'', current_id)])))))))"

subsection \<open>Stale writers\<close>

lemma distinct_dict_merge: "distinct (map fst a) \<Longrightarrow> distinct (map fst (dict_merge a b))"
proof (induction b arbitrary: a)
  case (Cons x b)
  then show ?case by (cases x) (simp add: dict_merge_def distinct_update)
qed (simp add: dict_merge_def)

text \<open>The messages a client cannot replace: \<open>v\<close> is the stored version, \<open>w\<close> the one the client sent.\<close>

definition protected :: "chat_row \<Rightarrow> py \<Rightarrow> py \<Rightarrow> bool" where
  "protected row v w \<longleftrightarrow>
     author row (as_dict v) \<noteq> PStr (cr_user_id row)
     \<or> pget (as_dict v) ''role'' = PStr ''assistant''
       \<and> (pget (as_dict v) ''done'' = PBool False \<or> pget (as_dict w) ''done'' = PBool False)"

lemma restore_stepD:
  assumes "restore_step row (i, v) ms = Inr ms'" and "map_of ms i = Some w"
  shows "is_dict v \<and> ms' = (if protected row v w then AList.update i v ms else ms)"
  using assms by (cases v; cases w)
    (auto simp: restore_step_def protected_def dict_of_def is_dict_def bind_result_Inr_iff split: if_splits)

lemma restore_dicts: "fold_result (restore_step row) items ms = Inr ms' \<Longrightarrow> \<forall>(i, v) \<in> set items. is_dict v"
  by (induction items arbitrary: ms) (auto simp: bind_result_Inr_iff restore_step_def dict_of_def is_dict_def split: py.splits)

lemma restore_loop:
  assumes "fold_result (restore_step row) items ms = Inr ms'" and "distinct (map fst items)"
    and "set (map fst items) \<subseteq> set (map fst ms)" and "distinct (map fst ms)"
  shows "map fst ms' = map fst ms"
    and "map_of ms' i = (case (map_of items i, map_of ms i) of
          (Some v, Some w) \<Rightarrow> Some (if protected row v w then v else w) | (_, x) \<Rightarrow> x)"
proof -
  have "map fst ms' = map fst ms \<and> map_of ms' i = (case (map_of items i, map_of ms i) of
          (Some v, Some w) \<Rightarrow> Some (if protected row v w then v else w) | (_, x) \<Rightarrow> x)"
    using assms
  proof (induction items arbitrary: ms)
    case (Cons x items)
    obtain j v where x: "x = (j, v)" by (cases x)
    from Cons.prems(3) obtain w where w: "map_of ms j = Some w" by (auto simp: x map_of_keys)
    from Cons.prems(1) obtain ms1 where ms1: "restore_step row (j, v) ms = Inr ms1" "fold_result (restore_step row) items ms1 = Inr ms'"
      by (auto simp: x bind_result_Inr_iff)
    note step = restore_stepD [OF ms1(1) w]
    have "j \<in> fst ` set ms" using w by (auto simp: map_of_keys)
    then have keys: "map fst ms1 = map fst ms" using step by (simp add: update_keys)
    have at: "map_of ms1 i = (if i = j then Some (if protected row v w then v else w) else map_of ms i)"
      using step w by (simp add: update_conv')
    have "i = j \<Longrightarrow> map_of items i = None" using Cons.prems(2) by (auto simp: x map_of_eq_None_iff)
    moreover have IH: "map fst ms' = map fst ms1 \<and> map_of ms' i = (case (map_of items i, map_of ms1 i) of
          (Some v, Some w) \<Rightarrow> Some (if protected row v w then v else w) | (_, x) \<Rightarrow> x)"
      by (rule Cons.IH [OF ms1(2)]) (use Cons.prems(2,3,4) in \<open>simp_all add: keys x flip: set_map\<close>)
    ultimately show ?case using w by (simp add: keys at x)
  qed (auto split: option.splits)
  then show "map fst ms' = map fst ms"
    "map_of ms' i = (case (map_of items i, map_of ms i) of
          (Some v, Some w) \<Rightarrow> Some (if protected row v w then v else w) | (_, x) \<Rightarrow> x)"
    by blast+
qed

lemma only_dicts_all: "\<forall>(i, v) \<in> set ms. is_dict v \<Longrightarrow> only_dicts ms = ms"
  by (auto simp: only_dicts_def filter_id_conv)

definition history_map :: "pydict \<Rightarrow> pydict" where
  "history_map chat = stored_messages (pget chat ''history'')"

lemma chat_messages_map: "chat_messages chat = Inr ms \<Longrightarrow> ms = history_map chat"
  by (auto simp: chat_messages_def history_map_def stored_messages_def messages_of_def bind_result_Inr_iff dict_of_def
      py_or_def as_dict_def pget_def dget_def split: py.splits if_splits option.splits)

lemma merged_chatD:
  assumes "merged_chat row chat = Inr updated" and "''history'' \<in> fst ` set chat"
    and "distinct (map fst (history_map (cr_chat row)))" and "distinct (map fst (history_map chat))"
    and "\<forall>(i, v) \<in> set (history_map chat). is_dict v"
  shows "links_exact (history_map updated)"
    and "map_of (history_map (cr_chat row)) i = Some v \<Longrightarrow>
      \<exists>v'. map_of (history_map updated) i = Some v' \<and>
        same_but_children v' (case map_of (history_map chat) i of None \<Rightarrow> v | Some w \<Rightarrow> if protected row v w then v else w)"
    and "map_of (history_map (cr_chat row)) i = None \<Longrightarrow> map_of (history_map chat) i = Some w \<Longrightarrow>
      \<exists>v'. map_of (history_map updated) i = Some v' \<and> same_but_children v' w"
proof -
  let ?old = "history_map (cr_chat row)" and ?new = "history_map chat"
  from assms(1,2) obtain h items ms h' where
    h: "merge_history (pget (cr_chat row) ''history'') (pget chat ''history'') = Inr h"
    and items: "chat_messages (cr_chat row) = Inr items"
    and ms: "fold_result (restore_step row) items (messages_of h) = Inr ms"
    and h': "merge_history (PDict (AList.update ''messages'' (PDict ms) h)) (PDict []) = Inr h'"
    and updated: "updated = AList.update ''history'' (PDict h') (dict_merge (cr_chat row) chat)"
    by (auto simp: merged_chat_def Let_def bind_result_Inr_iff)
  have items_eq: "items = ?old" by (rule chat_messages_map [OF items])
  let ?m = "dict_merge ?old ?new"
  have dist: "distinct (map fst ?m)" by (rule distinct_dict_merge [OF assms(3)])
  have at: "map_of ?m j = (case map_of ?new j of Some w \<Rightarrow> Some w | None \<Rightarrow> map_of ?old j)" for j
    by (rule map_of_dict_merge [OF assms(4)])
  have dicts: "\<forall>(j, w) \<in> set ?m. is_dict w"
    using restore_dicts [OF ms] assms(5) dist unfolding items_eq
    by (fastforce simp: at split: option.splits dest: map_of_is_SomeI map_of_SomeD)
  have h_ms: "messages_of h = relink ?m"
    using merge_historyD(1) [OF h] dist only_dicts_all [OF dicts] by (simp add: history_map_def)
  have sub: "set (map fst ?old) \<subseteq> set (map fst (relink ?m))"
    by (auto simp: map_of_keys at split: option.split dest!: weak_map_of_SomeI)
  note loop = restore_loop [OF ms [unfolded items_eq h_ms] assms(3) sub, unfolded map_fst_relink, OF dist]
  have ms_at: "map_of ms j = (case (map_of ?old j, map_of ?m j) of
      (Some v, Some w) \<Rightarrow> Some (if protected row v (with_children (children_of ?m j) w) then v else with_children (children_of ?m j) w)
    | (_, x) \<Rightarrow> map_option (with_children (children_of ?m j)) x)" for j
    unfolding loop(2) map_of_relink by (simp split: option.split)
  have ms_dicts: "\<forall>(j, w) \<in> set ms. is_dict w"
  proof clarify
    fix j w assume "(j, w) \<in> set ms"
    then have "map_of ms j = Some w" using loop(1) dist by (simp add: map_of_is_SomeI)
    then show "is_dict w" using restore_dicts [OF ms] by (auto simp: ms_at items_eq split: option.splits if_splits dest: map_of_SomeD)
  qed
  have up: "history_map updated = relink ms"
  proof -
    have "dict_merge ms [] = ms" by (simp add: dict_merge_def)
    moreover have "messages_of h' = relink (only_dicts (dict_merge (stored_messages (PDict (AList.update ''messages'' (PDict ms) h))) (stored_messages (PDict []))))"
      using loop(1) dist by (intro merge_historyD(1) [OF h']) (simp add: stored_messages_def messages_of_def pget_def dict_merge_def as_dict_def)
    ultimately show ?thesis
      using only_dicts_all [OF ms_dicts] by (simp add: updated history_map_def stored_messages_def messages_of_def pget_def as_dict_def)
  qed
  show "links_exact (history_map updated)" unfolding up by (rule links_exact_relink) (use loop(1) dist in simp)
  have guard: "protected row v (with_children is w) \<longleftrightarrow> protected row v w" for v w "is"
    by (simp add: protected_def with_children_def pget_def)
  show "\<exists>v'. map_of (history_map updated) i = Some v' \<and>
        same_but_children v' (case map_of ?new i of None \<Rightarrow> v | Some w \<Rightarrow> if protected row v w then v else w)"
    if v: "map_of ?old i = Some v"
  proof -
    have d: "is_dict v" using restore_dicts [OF ms] map_of_SomeD [OF v] by (auto simp: items_eq)
    show ?thesis
    proof (cases "map_of ?new i")
      case None
      then show ?thesis unfolding up map_of_relink ms_at using v d by (auto simp: at)
    next
      case (Some w)
      then have "is_dict w" using assms(5) by (auto dest: map_of_SomeD)
      with Some show ?thesis unfolding up map_of_relink ms_at using v d by (auto simp: at guard)
    qed
  qed
  show "\<exists>v'. map_of (history_map updated) i = Some v' \<and> same_but_children v' w"
    if "map_of ?old i = None" "map_of ?new i = Some w"
  proof -
    have "is_dict w" using assms(5) that(2) by (auto dest: map_of_SomeD)
    with that show ?thesis unfolding up map_of_relink ms_at by (auto simp: at)
  qed
qed

text \<open>
  (C11) A client that writes back a whole chat it read earlier drops no message: every message stored since
  is still there, a message of another user and a reply that is being written stay as they are stored,
  a finished reply does not become an unfinished one, every other message is the one the client sent,
  and the links between all of them agree in both directions. Only the lists of children are renewed.
\<close>

theorem stale_writer_keeps_messages:
  assumes "update_chat float_repr now save_row chat touch rows row = Inr (row', rows')" and "''history'' \<in> fst ` set chat"
    and "distinct (map fst (history_map (cr_chat row)))" and "distinct (map fst (history_map chat))"
    and "\<forall>(i, v) \<in> set (history_map chat). is_dict v"
  shows "\<exists>updated. cr_chat row' = as_dict (sanitize_data_for_db float_repr (PDict updated))
    \<and> links_exact (history_map updated)
    \<and> (\<forall>i v. map_of (history_map (cr_chat row)) i = Some v \<longrightarrow> (\<exists>v'. map_of (history_map updated) i = Some v' \<and>
         same_but_children v' (case map_of (history_map chat) i of None \<Rightarrow> v | Some w \<Rightarrow> if protected row v w then v else w)))
    \<and> (\<forall>i w. map_of (history_map (cr_chat row)) i = None \<longrightarrow> map_of (history_map chat) i = Some w \<longrightarrow>
         (\<exists>v'. map_of (history_map updated) i = Some v' \<and> same_but_children v' w))"
proof -
  from assms(1) obtain updated where up: "merged_chat row chat = Inr updated"
    and row': "cr_chat row' = as_dict (sanitize_data_for_db float_repr (PDict updated))"
    by (auto simp: update_chat_def Let_def bind_result_Inr_iff validated_def split: if_splits)
  show ?thesis using merged_chatD [OF up assms(2-5)] row' by (intro exI [of _ updated]) simp
qed

definition demo_row :: chat_row where
  "demo_row = \<lparr>cr_user_id = ''u'', cr_title = PStr ''t'',
     cr_chat = [(''history'', PDict [(''messages'', PDict
       [(''a'', PDict [(''id'', PStr ''a''), (''role'', PStr ''user''), (''parentId'', PNone), (''childrenIds'', PList [PStr ''b''])]),
        (''b'', PDict [(''id'', PStr ''b''), (''role'', PStr ''assistant''), (''parentId'', PStr ''a''), (''done'', PBool False),
                       (''content'', PStr ''hi''), (''childrenIds'', PList [])])]), (''currentId'', PStr ''b'')])],
     cr_current_message_id = PStr ''b'', cr_updated_at = 1\<rparr>"

text \<open>A client that has not seen the reply and renames the question.\<close>

definition demo_stale :: pydict where
  "demo_stale = [(''history'', PDict [(''messages'', PDict
     [(''a'', PDict [(''id'', PStr ''a''), (''role'', PStr ''user''), (''parentId'', PNone), (''content'', PStr ''q''), (''childrenIds'', PList [])])]),
     (''currentId'', PStr ''a'')])]"

definition demo_updated :: pydict where
  "demo_updated = (case merged_chat demo_row demo_stale of Inr u \<Rightarrow> u | Inl _ \<Rightarrow> [])"

lemma demo_update:
  "\<exists>row' rows'. update_chat (\<lambda>_. []) 9 (\<lambda>_ _ _ n. Inr (Suc n)) demo_stale True 0 demo_row = Inr (row', rows')"
proof -
  have "\<not> isl (merged_chat demo_row demo_stale)" by code_simp
  then have merged: "merged_chat demo_row demo_stale = Inr demo_updated" by (auto simp: demo_updated_def isl_def split: sum.split)
  have "keys_distinct (PDict demo_updated)" "all_text clean_text (PDict demo_updated)" by code_simp+
  then have clean: "sanitize_data_for_db (\<lambda>_. []) (PDict demo_updated) = PDict demo_updated" by (rule sanitize_same)
  have "\<not> isl (update_chat (\<lambda>_. []) 9 (\<lambda>_ _ _ n. Inr (Suc n)) demo_stale True 0 demo_row)"
    unfolding update_chat_def merged bind_result_simps clean as_dict_PDict by code_simp
  then show ?thesis by (metis isl_def sum.exhaust prod.exhaust)
qed

theorem stale_writer_keeps_messages_witness:
  "\<exists>updated v'. links_exact (history_map updated) \<and> map_of (history_map updated) ''b'' = Some v'
     \<and> pget (as_dict v') ''content'' = PStr ''hi''"
proof -
  obtain row' rows' where run: "update_chat (\<lambda>_. []) 9 (\<lambda>_ _ _ n. Inr (Suc n)) demo_stale True 0 demo_row = Inr (row', rows')"
    using demo_update by blast
  have hyps: "''history'' \<in> fst ` set demo_stale" "distinct (map fst (history_map (cr_chat demo_row)))"
    "distinct (map fst (history_map demo_stale))" "\<forall>(i, v) \<in> set (history_map demo_stale). is_dict v"
    by code_simp+
  define v where "v = the (map_of (history_map (cr_chat demo_row)) ''b'')"
  have v: "map_of (history_map (cr_chat demo_row)) ''b'' = Some v" "map_of (history_map demo_stale) ''b'' = None"
    "pget (as_dict v) ''content'' = PStr ''hi''"
    unfolding v_def by code_simp+
  from stale_writer_keeps_messages [OF run hyps] obtain updated where up: "links_exact (history_map updated)"
    "\<forall>i v. map_of (history_map (cr_chat demo_row)) i = Some v \<longrightarrow> (\<exists>v'. map_of (history_map updated) i = Some v' \<and>
       same_but_children v' (case map_of (history_map demo_stale) i of None \<Rightarrow> v | Some w \<Rightarrow> if protected demo_row v w then v else w))"
    by (elim exE conjE)
  from up(2) [rule_format, OF v(1)] v(2)
  obtain v' where "map_of (history_map updated) ''b'' = Some v'" "same_but_children v' v" by auto
  with up(1) v(3) same_but_children_get [of v' v "''content''"] show ?thesis by auto
qed

end
