(* ===== verification/Chat_Turns.thy ===== *)
theory Chat_Turns
  imports Chat_Writes
begin

text \<open>
  A turn of a conversation (\<open>insert_chat_turn\<close> of \<^verbatim>\<open>models/chats.py\<close>) and the branch that the model is then
  sent (\<open>get_message_list\<close>): the new messages are leaves of a sound tree, the tree stays sound, and the
  branch of a reply is the branch of the parent, the question and the reply.
\<close>

subsection \<open>Adding a leaf\<close>

definition stored_parent :: "pydict \<Rightarrow> py \<Rightarrow> bool" where
  "stored_parent ms q = (case q of PNone \<Rightarrow> True | PStr p \<Rightarrow> p \<in> fst ` set ms | _ \<Rightarrow> False)"

text \<open>A sound tree in which every parent is a stored message, and no id is empty.\<close>

definition tree_ok :: "pydict \<Rightarrow> bool" where
  "tree_ok ms \<longleftrightarrow> links_exact ms \<and> list_all (\<lambda>(i, v). i \<noteq> [] \<and> stored_parent ms (parent_link v)) ms"

lemma stored_parent_iff: "stored_parent ms q \<longleftrightarrow> q = PNone \<or> (\<exists>p \<in> fst ` set ms. q = PStr p)"
  by (cases q) (simp_all add: stored_parent_def)

lemma tree_okD:
  assumes "tree_ok ms"
  shows "links_exact ms" and "map_of ms i = Some v \<Longrightarrow> stored_parent ms (parent_link v)" and "[] \<notin> fst ` set ms"
  using assms by (auto simp: tree_ok_def list_all_iff dest!: map_of_SomeD)

lemma tree_okI:
  assumes "links_exact ms" and "\<And>i v. map_of ms i = Some v \<Longrightarrow> stored_parent ms (parent_link v)" and "[] \<notin> fst ` set ms"
  shows "tree_ok ms"
  using assms links_exact_distinct [OF assms(1)] by (force simp: tree_ok_def list_all_iff map_of_is_SomeI)

definition leaf_added :: "string \<Rightarrow> py \<Rightarrow> pydict \<Rightarrow> pydict" where
  "leaf_added u m ms =
     map (\<lambda>(k, v). (k, if parent_link m = PStr k then with_children (links_of v @ [u]) v else v)) ms @ [(u, m)]"

lemma keys_leaf_added [simp]: "map fst (leaf_added u m ms) = map fst ms @ [u]"
  unfolding leaf_added_def map_append map_fst_keyed by simp

lemma map_of_leaf_added:
  "map_of (leaf_added u m ms) i =
     (case map_of ms i of
        Some v \<Rightarrow> Some (if parent_link m = PStr i then with_children (links_of v @ [u]) v else v)
      | None \<Rightarrow> if i = u then Some m else None)"
  unfolding leaf_added_def map_of_append map_add_def by (simp add: map_of_keyed split: option.split)

lemma add_child_leaf:
  assumes "tree_ok ms" and "u \<notin> fst ` set ms" and "is_dict m" and "stored_parent ms (parent_link m)"
  shows "\<exists>b. add_child_id_to_parent (AList.update u m ms) (parent_link m) u = Inr (leaf_added u m ms, b)"
proof (cases "parent_link m = PNone")
  case True
  have "map (\<lambda>(k, v). (k, if parent_link m = PStr k then with_children (links_of v @ [u]) v else v)) ms = ms"
    using True by (intro map_idI) auto
  with True show ?thesis by (intro exI [of _ False]) (simp add: add_child_id_to_parent_def update_new [OF assms(2)] leaf_added_def)
next
  case False
  with assms(4) obtain p where p: "p \<in> fst ` set ms" "parent_link m = PStr p" by (auto simp: stored_parent_iff)
  then obtain v where v: "map_of ms p = Some v" by (auto simp: map_of_keys)
  note D = links_exactD [OF tree_okD(1) [OF assms(1)] v] and dist = links_exact_distinct [OF tree_okD(1) [OF assms(1)]]
  from D(1) obtain d where d: "v = PDict d" by (auto simp: is_dict_iff)
  have ne: "p \<noteq> []" "p \<noteq> u" using p(1) tree_okD(3) [OF assms(1)] assms(2) by blast+
  have "u \<notin> set (links_of v)" using D(4) [of u] assms(2) by (auto simp: map_of_keys)
  then have fresh: "\<not> py_in (PStr u) (map PStr (links_of v))" by (auto simp: py_in_def list_ex_iff)
  have kids: "as_list (pget d ''childrenIds'') = map PStr (links_of v)" using D(2) by (simp add: child_links_def d)
  have "dget (ms @ [(u, m)]) p PNone = PDict d" by (simp add: dget_def v d)
  then have "add_child_id_to_parent (AList.update u m ms) (parent_link m) u
      = Inr (AList.update p (with_children (links_of v @ [u]) v) (ms @ [(u, m)]), True)"
    using ne fresh by (simp add: add_child_id_to_parent_def p(2) get_item_def update_new [OF assms(2)] kids with_children_def d)
  moreover have "AList.update p (with_children (links_of v @ [u]) v) (ms @ [(u, m)]) = leaf_added u m ms"
  proof -
    have "distinct (map fst (ms @ [(u, m)]))" "p \<in> fst ` set (ms @ [(u, m)])" using dist assms(2) p(1) by auto
    from update_map [OF this] have "AList.update p (with_children (links_of v @ [u]) v) (ms @ [(u, m)])
      = map (\<lambda>(k, w). (k, if k = p then with_children (links_of v @ [u]) v else w)) ms @ [(u, m)]" using ne by simp
    also have "\<dots> = leaf_added u m ms"
      unfolding leaf_added_def using v dist by (auto simp: p(2) map_of_is_SomeI intro!: map_cong dest: eq_key_imp_eq_value)
    finally show ?thesis .
  qed
  ultimately show ?thesis by (intro exI [of _ True]) simp
qed

lemma leaf_added_ok:
  assumes ok: "tree_ok ms" and u: "u \<notin> fst ` set ms" "u \<noteq> []" and m: "is_dict m" "child_links m = PList []"
    and q: "stored_parent ms (parent_link m)"
  shows "tree_ok (leaf_added u m ms)"
proof (rule tree_okI)
  note links = tree_okD(1) [OF ok]
  let ?new = "leaf_added u m ms"
  have no_u: "map_of ms u = None" using u(1) by (simp add: map_of_eq_None_iff)
  have parent: "parent_link w = PStr i \<Longrightarrow> map_of ms j = Some w \<Longrightarrow> i \<in> fst ` set ms" for i j w
    using tree_okD(2) [OF ok, of j w] by (auto simp: stored_parent_def)
  have at: "(\<exists>w. map_of ?new j = Some w \<and> parent_link w = PStr i) \<longleftrightarrow>
      (\<exists>w. map_of ms j = Some w \<and> parent_link w = PStr i) \<or> (j = u \<and> parent_link m = PStr i)" for i j
    using no_u by (cases "map_of ms j") (auto simp: map_of_leaf_added)
  show "links_exact ?new"
    unfolding links_exact_iff at
  proof (intro conjI allI impI)
    show "distinct (map fst ?new)" using links_exact_distinct [OF links] u(1) by simp
    fix i v' assume v': "map_of ?new i = Some v'"
    show "is_dict v'" using v' m(1) links_exactD(1) [OF links] by (auto simp: map_of_leaf_added split: option.splits if_splits)
    show "\<exists>is. child_links v' = PList (map PStr is) \<and> distinct is \<and> (\<forall>j. j \<in> set is \<longleftrightarrow>
        (\<exists>w. map_of ms j = Some w \<and> parent_link w = PStr i) \<or> (j = u \<and> parent_link m = PStr i))"
    proof (cases "map_of ms i")
      case None
      then have "i \<notin> fst ` set ms" by (simp add: map_of_eq_None_iff)
      moreover have "v' = m" using v' None by (auto simp: map_of_leaf_added split: if_splits)
      moreover have "parent_link m \<noteq> PStr i" using q calculation(1) by (auto simp: stored_parent_def)
      ultimately show ?thesis using m(2) parent by (intro exI [of _ "[]"]) auto
    next
      case (Some v)
      note D = links_exactD [OF links Some]
      have "u \<notin> set (links_of v)" using D(4) [of u] no_u by auto
      with D v' Some show ?thesis
        by (intro exI [of _ "if parent_link m = PStr i then links_of v @ [u] else links_of v"])
           (auto simp: map_of_leaf_added)
    qed
  qed
  have keys: "fst ` set ?new = insert u (fst ` set ms)"
    using arg_cong [OF keys_leaf_added [of u m ms], of set] by (simp del: keys_leaf_added)
  show "[] \<notin> fst ` set ?new" using tree_okD(3) [OF ok] u(2) by (simp add: keys)
  show "stored_parent ?new (parent_link v')" if "map_of ?new i = Some v'" for i v'
  proof -
    have "parent_link v' = parent_link m \<or> (\<exists>w. map_of ms i = Some w \<and> parent_link v' = parent_link w)"
      using that by (auto simp: map_of_leaf_added split: option.splits if_splits)
    then have "stored_parent ms (parent_link v')" using tree_okD(2) [OF ok] q by auto
    then show ?thesis by (auto simp: stored_parent_def keys split: py.splits)
  qed
qed

subsection \<open>Growing trees\<close>

definition grows :: "pydict \<Rightarrow> pydict \<Rightarrow> bool" where
  "grows ms ms' \<longleftrightarrow> (\<forall>i v. map_of ms i = Some v \<longrightarrow> (\<exists>v'. map_of ms' i = Some v' \<and> same_but_children v' v))"

lemma growsD: "grows ms ms' \<Longrightarrow> map_of ms i = Some v \<Longrightarrow> \<exists>v'. map_of ms' i = Some v' \<and> same_but_children v' v"
  by (simp add: grows_def)

lemma grows_trans: "grows ms ms' \<Longrightarrow> grows ms' ms'' \<Longrightarrow> grows ms ms''"
  unfolding grows_def by (meson same_but_children_trans)

lemma grows_leaf: "tree_ok ms \<Longrightarrow> grows ms (leaf_added u m ms)"
  using links_exactD(1) [OF tree_okD(1)] by (auto simp: grows_def map_of_leaf_added same_but_children_refl)

lemma grows_refl: "tree_ok ms \<Longrightarrow> grows ms ms"
  using links_exactD(1) [OF tree_okD(1)] by (auto simp: grows_def same_but_children_refl)

subsection \<open>Writing a new message\<close>

lemma listed_parent_none:
  assumes "links_exact ms" and "u \<notin> fst ` set ms"
  shows "listed_parent u ms = Inr PNone"
proof -
  have "listed_parent u xs = Inr PNone"
    if "\<forall>(i, v) \<in> set xs. \<exists>d is. v = PDict d \<and> dget d ''childrenIds'' (PList []) = PList (map PStr is) \<and> u \<notin> set is" for xs
    using that by (induction u xs rule: listed_parent.induct) (auto simp: dict_of_def py_contains_def py_in_def list_ex_iff)
  moreover have "\<exists>d is. v = PDict d \<and> dget d ''childrenIds'' (PList []) = PList (map PStr is) \<and> u \<notin> set is" if "(i, v) \<in> set ms" for i v
  proof -
    have v: "map_of ms i = Some v" using that links_exact_distinct [OF assms(1)] by simp
    note D = links_exactD [OF assms(1) v]
    from D(1) obtain d where d: "v = PDict d" by (auto simp: is_dict_iff)
    have "dget d ''childrenIds'' (PList []) = PList (map PStr (links_of v))"
      using D(2) by (auto simp: child_links_def d pget_def dget_def split: option.splits)
    moreover have "u \<notin> set (links_of v)" using D(4) [of u] assms(2) by (auto simp: map_of_keys)
    ultimately show ?thesis using d by blast
  qed
  ultimately show ?thesis by blast
qed

text \<open>A new message with a stored parent and a role becomes a leaf.\<close>

lemma upsert_leaf:
  assumes run: "upsert_message_to_history now history u message = Inr (history', saved)"
    and ok: "tree_ok (messages_of history)" and u: "u \<notin> fst ` set (messages_of history)" "u \<noteq> []"
    and message: "stored_parent (messages_of history) (pget message ''parentId'')" "pget message ''childrenIds'' = PList []"
      "truthy (pget message ''role'')" "pget message ''id'' = PStr u"
  shows "\<exists>m. messages_of history' = leaf_added u (PDict m) (messages_of history) \<and> child_links (PDict m) = PList []
    \<and> (\<forall>k. k \<noteq> ''timestamp'' \<longrightarrow> pget m k = pget message k)
    \<and> map_of history' ''currentId'' = Some (PStr u) \<and> (\<forall>k. k \<notin> {''messages'', ''currentId''} \<longrightarrow> map_of history' k = map_of history k)"
proof -
  let ?ms = "messages_of history"
  from run have ms: "dget history ''messages'' (PDict []) = PDict ?ms"
    by (auto simp: upsert_message_to_history_def messages_of_def pget_def dget_def as_dict_def split: option.splits py.splits)
  have no_u: "map_of ?ms u = None" using u(1) by (simp add: map_of_eq_None_iff)
  have parent: "(if pget message ''parentId'' = PNone then listed_parent u ?ms else Inr (pget message ''parentId''))
      = Inr (pget message ''parentId'')"
    by (simp add: listed_parent_none [OF tree_okD(1) [OF ok] u(1)])
  from run obtain m b ms' where m: "new_message now ?ms u message = Inr m"
    and add: "add_child_id_to_parent (AList.update u (PDict m) ?ms) (pget m ''parentId'') u = Inr (ms', b)"
    and h': "history' = AList.update ''currentId'' (PStr u) (AList.update ''messages'' (PDict ms') history)"
    using no_u u(1) by (auto simp: upsert_message_to_history_def ms bind_result_Inr_iff)
  from m have fields: "m = AList.update ''timestamp'' (py_or (pget message ''timestamp'') (PInt now))
      (AList.update ''role'' (pget message ''role'') (AList.update ''childrenIds'' (PList [])
        (AList.update ''parentId'' (pget message ''parentId'') (AList.update ''id'' (PStr u) message))))"
    unfolding new_message_def parent bind_result_simps
    using message(2-4) u(2) by (auto simp: bind_result_Inr_iff message_role_def py_or_def)
  then have m_link: "parent_link (PDict m) = pget message ''parentId''" "child_links (PDict m) = PList []"
    and get: "\<And>k. k \<noteq> ''timestamp'' \<Longrightarrow> pget m k = pget message k"
    using message by (auto simp: parent_link_def child_links_def pget_def)
  have "ms' = leaf_added u (PDict m) ?ms"
    using add_child_leaf [OF ok u(1), of "PDict m"] add message(1) m_link(1)
    by (auto simp: is_dict_def parent_link_def)
  with m_link(2) get show ?thesis
    by (intro exI [of _ m]) (auto simp: h' messages_of_def pget_def update_conv')
qed

subsection \<open>The replies\<close>

definition entry_id :: "pydict \<Rightarrow> string" where
  "entry_id e = (case pget e ''message_id'' of PStr s \<Rightarrow> s | _ \<Rightarrow> [])"

text \<open>An unfinished reply to \<open>u\<close>, without text.\<close>

definition open_reply :: "turn_user \<Rightarrow> string \<Rightarrow> string \<Rightarrow> py \<Rightarrow> bool" where
  "open_reply user u r v \<longleftrightarrow> is_dict v \<and> parent_link v = PStr u \<and> pget (as_dict v) ''id'' = PStr r
     \<and> pget (as_dict v) ''role'' = PStr ''assistant'' \<and> pget (as_dict v) ''content'' = PStr []
     \<and> pget (as_dict v) ''done'' = PBool False \<and> pget (as_dict v) ''user_id'' = PStr (tu_id user)"

lemma open_reply_same: "open_reply user u r v \<Longrightarrow> same_but_children v' v \<Longrightarrow> open_reply user u r v'"
  using same_but_children_get [of v' v] by (auto simp: open_reply_def parent_link_def same_but_children_def)

lemma replies_added:
  assumes "fold_result (add_reply now user (PStr u)) es history = Inr history'"
    and "tree_ok (messages_of history)" and "u \<in> fst ` set (messages_of history)"
    and "distinct (map entry_id es)" and "\<forall>e \<in> set es. entry_id e \<noteq> [] \<and> entry_id e \<notin> fst ` set (messages_of history)"
  shows "tree_ok (messages_of history') \<and> grows (messages_of history) (messages_of history')
    \<and> map fst (messages_of history') = map fst (messages_of history) @ map entry_id es
    \<and> (\<forall>e \<in> set es. \<exists>v. map_of (messages_of history') (entry_id e) = Some v \<and> open_reply user u (entry_id e) v)
    \<and> (es \<noteq> [] \<longrightarrow> map_of history' ''currentId'' = Some (PStr (entry_id (last es))))
    \<and> (es = [] \<longrightarrow> history' = history)"
  using assms
proof (induction es arbitrary: history)
  case Nil
  then show ?case by (simp add: grows_refl)
next
  case (Cons e es)
  let ?ms = "messages_of history"
  from Cons.prems(1) obtain h1 where step: "add_reply now user (PStr u) e history = Inr h1"
    and rest: "fold_result (add_reply now user (PStr u)) es h1 = Inr history'" by (auto simp: bind_result_Inr_iff)
  from step obtain model saved where
    up: "upsert_message_to_history now history (entry_id e)
      (empty_reply now user (PStr u) (entry_id e) model (pget e ''modelIdx'')) = Inr (h1, saved)"
    by (auto simp: add_reply_def bind_result_Inr_iff entry_id_def pget_def dget_def split: option.splits py.splits)
  have fresh: "entry_id e \<notin> fst ` set ?ms" "entry_id e \<noteq> []" using Cons.prems(5) by auto
  obtain m where m: "messages_of h1 = leaf_added (entry_id e) (PDict m) ?ms" "child_links (PDict m) = PList []"
    "\<And>k. k \<noteq> ''timestamp'' \<Longrightarrow> pget m k = pget (empty_reply now user (PStr u) (entry_id e) model (pget e ''modelIdx'')) k"
    "map_of h1 ''currentId'' = Some (PStr (entry_id e))"
    using upsert_leaf [OF up Cons.prems(2) fresh] Cons.prems(3)
    by (auto simp: empty_reply_def pget_Cons stored_parent_def)
  have link: "parent_link (PDict m) = PStr u" and reply: "open_reply user u (entry_id e) (PDict m)"
    by (simp_all add: open_reply_def parent_link_def is_dict_def m(3) empty_reply_def pget_Cons)
  have ok1: "tree_ok (messages_of h1)"
    unfolding m(1) by (rule leaf_added_ok [OF Cons.prems(2) fresh]) (use m(2) link Cons.prems(3) in \<open>simp_all add: is_dict_def stored_parent_def\<close>)
  have keys: "map fst (messages_of h1) = map fst ?ms @ [entry_id e]" by (simp add: m(1))
  have keys': "fst ` set (messages_of h1) = insert (entry_id e) (fst ` set ?ms)"
    using arg_cong [OF keys, of set] by auto
  have "tree_ok (messages_of history') \<and> grows (messages_of h1) (messages_of history')
    \<and> map fst (messages_of history') = map fst (messages_of h1) @ map entry_id es
    \<and> (\<forall>e \<in> set es. \<exists>v. map_of (messages_of history') (entry_id e) = Some v \<and> open_reply user u (entry_id e) v)
    \<and> (es \<noteq> [] \<longrightarrow> map_of history' ''currentId'' = Some (PStr (entry_id (last es))))
    \<and> (es = [] \<longrightarrow> history' = h1)"
    by (rule Cons.IH [OF rest ok1]) (use Cons.prems(3-5) in \<open>auto simp: keys' image_iff\<close>)
  then have IH': "tree_ok (messages_of history')" "grows (messages_of h1) (messages_of history')"
    "map fst (messages_of history') = map fst (messages_of h1) @ map entry_id es"
    "\<forall>e \<in> set es. \<exists>v. map_of (messages_of history') (entry_id e) = Some v \<and> open_reply user u (entry_id e) v"
    "es \<noteq> [] \<Longrightarrow> map_of history' ''currentId'' = Some (PStr (entry_id (last es)))" "es = [] \<Longrightarrow> history' = h1"
    by blast+
  have "map_of (messages_of h1) (entry_id e) = Some (PDict m)"
    using fresh(1) by (simp add: m(1) map_of_leaf_added map_of_eq_None_iff [THEN iffD2])
  from growsD [OF IH'(2) this] reply obtain v where
    "map_of (messages_of history') (entry_id e) = Some v" "open_reply user u (entry_id e) v"
    using open_reply_same by blast
  moreover have "grows ?ms (messages_of history')"
    using grows_trans [OF grows_leaf [OF Cons.prems(2)] IH'(2) [unfolded m(1)]] .
  ultimately show ?case using IH' keys m(4) by auto
qed

subsection \<open>The branch\<close>

abbreviation same_messages :: "message list \<Rightarrow> message list \<Rightarrow> bool" where
  "same_messages \<equiv> list_all2 (\<lambda>m' m. same_but_children (PDict m') (PDict m))"

lemma branch_grows:
  assumes "tree_ok ms" and "tree_ok ms'" and "grows ms ms'" and "set extra \<inter> fst ` set ms = {}"
    and "i \<in> fst ` set ms" and "same_messages acc' acc"
  shows "\<exists>L L'. message_list_loop ms i visited acc = Inr L \<and> same_messages L' L
      \<and> message_list_loop ms' i (visited @ extra) (acc' @ tail) = Inr (L' @ tail)"
  using assms
proof (induction ms i visited acc arbitrary: acc' rule: message_list_loop.induct)
  case (1 ms i visited acc)
  from "1.prems"(5) obtain v where v: "map_of ms i = Some v" by (auto simp: map_of_keys)
  from growsD [OF "1.prems"(3) v] obtain v' where v': "map_of ms' i = Some v'" "same_but_children v' v" by blast
  note D = links_exactD [OF tree_okD(1) [OF "1.prems"(1)] v] and D' = links_exactD [OF tree_okD(1) [OF "1.prems"(2)] v'(1)]
  from D(1) D'(1) obtain d d' where d: "v = PDict d" "v' = PDict d'" by (auto simp: is_dict_iff)
  have ne: "d \<noteq> []" "d' \<noteq> []" using D(2) D'(2) by (auto simp: d child_links_def)
  have same: "same_but_children (PDict d') (PDict d)" using v'(2) by (simp add: d)
  have parent: "pget d' ''parentId'' = pget d ''parentId''" using same_but_children_get [OF same, of "''parentId''"] by simp
  have link: "pget d ''parentId'' = PNone \<or> (\<exists>j \<in> fst ` set ms. pget d ''parentId'' = PStr j)"
    using tree_okD(2) [OF "1.prems"(1) v] by (simp add: stored_parent_iff parent_link_def d)
  show ?case
  proof (cases "i \<in> set visited")
    case True
    then show ?thesis using v v'(1) d ne "1.prems"(6) by (simp add: message_list_loop.simps [of _ i])
  next
    case False
    then have out: "i \<notin> set (visited @ extra)" using "1.prems"(4,5) by auto
    show ?thesis
    proof (cases "truthy (pget d ''parentId'')")
      case root: False
      have "message_list_loop ms i visited acc = Inr (d # acc)"
        using v d ne False root by (simp add: message_list_loop.simps [of _ i])
      moreover have "message_list_loop ms' i (visited @ extra) (acc' @ tail) = Inr ((d' # acc') @ tail)"
        using v' d ne out root parent by (simp add: message_list_loop.simps [of _ i])
      ultimately show ?thesis using "1.prems"(6) same by (intro exI conjI) auto
    next
      case True
      with link obtain j where j: "j \<in> fst ` set ms" "pget d ''parentId'' = PStr j" "j \<noteq> []" by (metis truthy.simps(1,6))
      have "message_list_loop ms i visited acc = message_list_loop ms j (i # visited) (d # acc)"
        using v d ne False j by (simp add: message_list_loop.simps [of _ i])
      moreover have "message_list_loop ms' i (visited @ extra) (acc' @ tail) = message_list_loop ms' j ((i # visited) @ extra) ((d' # acc') @ tail)"
        using v' d ne out j parent by (simp add: message_list_loop.simps [of _ i])
      moreover have "\<exists>L L'. message_list_loop ms j (i # visited) (d # acc) = Inr L \<and> same_messages L' L
          \<and> message_list_loop ms' j ((i # visited) @ extra) ((d' # acc') @ tail) = Inr (L' @ tail)"
        using v d ne False True j "1.prems" same by (intro "1.IH" [of v d j]) auto
      ultimately show ?thesis by simp
    qed
  qed
qed

text \<open>The list of a message is that of its parent and the message.\<close>

lemma message_list_grows:
  assumes "tree_ok ms" and "tree_ok ms'" and "grows ms ms'" and "u \<notin> fst ` set ms" and "r \<notin> fst ` set ms" and "u \<noteq> r"
    and "map_of ms' r = Some (PDict mr)" and "parent_link (PDict mr) = PStr u"
    and "map_of ms' u = Some (PDict mu)" and "stored_parent ms (parent_link (PDict mu))"
  shows "\<exists>L L'. get_message_list ms (parent_link (PDict mu)) = Inr L \<and> same_messages L' L
    \<and> get_message_list ms' (PStr r) = Inr (L' @ [mu, mr])"
proof -
  have ne: "mr \<noteq> []" "mu \<noteq> []" "u \<noteq> []" "ms' \<noteq> []"
    using links_exactD(2) [OF tree_okD(1) [OF assms(2)]] assms(7,9) tree_okD(3) [OF assms(2)]
    by (force simp: child_links_def map_of_keys)+
  have "get_message_list ms' (PStr r) = message_list_loop ms' r [] []" using ne(4) by (simp add: get_message_list_def)
  also have "\<dots> = message_list_loop ms' u [r] [mr]"
    using assms(7,8) ne by (simp add: message_list_loop.simps [of _ r] parent_link_def)
  finally have start: "get_message_list ms' (PStr r) = message_list_loop ms' u [r] [mr]" .
  show ?thesis
  proof (cases "parent_link (PDict mu) = PNone")
    case True
    then have "message_list_loop ms' u [r] [mr] = Inr [mu, mr]"
      using assms(6,9) ne by (simp add: message_list_loop.simps [of _ u] parent_link_def)
    moreover have "get_message_list ms PNone = Inr []" by (simp add: get_message_list_def)
    ultimately show ?thesis using True start by (intro exI [of _ "[]"]) simp
  next
    case False
    with assms(10) obtain p where p: "p \<in> fst ` set ms" "parent_link (PDict mu) = PStr p" by (auto simp: stored_parent_iff)
    have "p \<noteq> []" using p(1) tree_okD(3) [OF assms(1)] by blast
    then have "message_list_loop ms' u [r] [mr] = message_list_loop ms' p [u, r] [mu, mr]"
      using assms(6,9) ne p(2) by (simp add: message_list_loop.simps [of _ u] parent_link_def)
    moreover have "get_message_list ms (PStr p) = message_list_loop ms p [] []" using p(1) by (auto simp: get_message_list_def)
    moreover have "set [u, r] \<inter> fst ` set ms = {}" using assms(4,5) by simp
    note branch_grows [OF assms(1-3) this p(1), of "[]" "[]" "[]" "[mu, mr]"]
    ultimately show ?thesis using start p(2) by simp
  qed
qed

subsection \<open>A turn\<close>

lemma pget_dict_merge:
  "distinct (map fst b) \<Longrightarrow> pget (dict_merge a b) k = (case map_of b k of Some v \<Rightarrow> v | None \<Rightarrow> pget a k)"
  by (simp add: pget_def dget_def map_of_dict_merge split: option.split)

lemma pget_all_text: "all_text P (PDict d) \<Longrightarrow> all_text P (pget d k)"
  by (auto simp: pget_def dget_def list_all_iff split: option.split dest!: map_of_SomeD)

lemma pget_keys_distinct: "keys_distinct (PDict d) \<Longrightarrow> keys_distinct (pget d k)"
  by (auto simp: pget_def dget_def list_all_iff split: option.split dest!: map_of_SomeD)

definition user_message_base :: "chat_row \<Rightarrow> turn_user \<Rightarrow> pydict \<Rightarrow> pydict" where
  "user_message_base row user user_message =
     (if cr_user_id row = tu_id user then user_message
      else map (\<lambda>k. (k, pget user_message k)) (filter (\<lambda>k. k \<in> fst ` set user_message) [''content'', ''files'', ''models'']))"

definition user_message_fields :: "int \<Rightarrow> turn_user \<Rightarrow> pydict \<Rightarrow> py \<Rightarrow> pydict" where
  "user_message_fields now user user_message parent_id =
     [(''id'', pget user_message ''id''), (''parentId'', parent_id), (''role'', PStr ''user''), (''childrenIds'', PList []),
        (''timestamp'', PInt now), (''user_id'', PStr (tu_id user)),
        (''user'', PDict [(''id'', PStr (tu_id user)), (''name'', PStr (tu_name user))])]"

lemma new_user_message_eq:
  "new_user_message now row user um q = dict_merge (user_message_base row user um) (user_message_fields now user um q)"
  by (simp add: new_user_message_def user_message_base_def user_message_fields_def)

lemma clean_names:
  "list_all clean_text [''id'', ''parentId'', ''role'', ''childrenIds'', ''timestamp'', ''user_id'', ''user'', ''name'',
     ''content'', ''files'', ''models'']"
  by code_simp

lemma new_user_message_get:
  "pget (new_user_message now row user um q) ''id'' = pget um ''id''"
  "pget (new_user_message now row user um q) ''parentId'' = q"
  "pget (new_user_message now row user um q) ''role'' = PStr ''user''"
  "pget (new_user_message now row user um q) ''childrenIds'' = PList []"
  "pget (new_user_message now row user um q) ''user_id'' = PStr (tu_id user)"
  "pget (new_user_message now row user um q) ''content'' = pget um ''content''"
proof -
  have "distinct (map fst (user_message_fields now user um q))" by (simp add: user_message_fields_def)
  note get = pget_dict_merge [OF this, of "user_message_base row user um", folded new_user_message_eq]
  show "pget (new_user_message now row user um q) ''id'' = pget um ''id''"
    "pget (new_user_message now row user um q) ''parentId'' = q"
    "pget (new_user_message now row user um q) ''role'' = PStr ''user''"
    "pget (new_user_message now row user um q) ''childrenIds'' = PList []"
    "pget (new_user_message now row user um q) ''user_id'' = PStr (tu_id user)"
    by (simp_all add: get user_message_fields_def)
  have "pget (user_message_base row user um) ''content'' = pget um ''content''"
  proof (cases "''content'' \<in> fst ` set um")
    case True
    then show ?thesis by (simp add: user_message_base_def pget_Cons)
  next
    case False
    then have "pget um ''content'' = PNone" by (simp add: pget_def dget_def map_of_eq_None_iff [THEN iffD2])
    with False show ?thesis by (simp add: user_message_base_def pget_Cons)
  qed
  then show "pget (new_user_message now row user um q) ''content'' = pget um ''content''"
    by (simp add: get user_message_fields_def)
qed

lemma new_user_message_clean:
  assumes "keys_distinct (PDict um)" and "all_text clean_text (PDict um)"
    and "clean_text (tu_id user)" and "clean_text (tu_name user)"
  shows "sanitize_data_for_db fr (PDict (new_user_message now row user um (pget um k))) = PDict (new_user_message now row user um (pget um k))"
proof (rule sanitize_same)
  let ?b = "user_message_base row user um" and ?f = "user_message_fields now user um (pget um k)"
  note keys = pget_keys_distinct [OF assms(1)] and clean = pget_all_text [OF assms(2)]
  have "list_all (\<lambda>(k, v). clean_text k \<and> all_text clean_text v) ?b"
    using assms(2) clean clean_names by (auto simp: user_message_base_def)
  moreover have "list_all (\<lambda>(k, v). clean_text k \<and> all_text clean_text v) ?f"
    using assms(3,4) clean clean_names by (simp add: user_message_fields_def)
  ultimately show "all_text clean_text (PDict (new_user_message now row user um (pget um k)))"
    unfolding new_user_message_eq all_text.simps by (intro dict_merge_all)
  have "list_all (\<lambda>(k, v). True \<and> keys_distinct v) ?b" using assms(1) keys by (auto simp: user_message_base_def)
  moreover have "list_all (\<lambda>(k, v). True \<and> keys_distinct v) ?f" using keys by (simp add: user_message_fields_def)
  ultimately have "list_all (\<lambda>(k, v). True \<and> keys_distinct v) (dict_merge ?b ?f)" by (intro dict_merge_all)
  moreover have "distinct (map fst ?b)" using assms(1) by (simp add: user_message_base_def)
  ultimately show "keys_distinct (PDict (new_user_message now row user um (pget um k)))"
    unfolding new_user_message_eq by (simp add: distinct_dict_merge)
qed

lemma turn_message_new:
  assumes "turn_message now row user um ms u = Inr (m, q)" and "u \<notin> fst ` set ms"
  shows "q = pget um ''parentId'' \<and> m = new_user_message now row user um q \<and> stored_parent ms q"
proof -
  have "pget ms u = PNone" using assms(2) by (simp add: pget_def dget_def map_of_eq_None_iff [THEN iffD2])
  then show ?thesis using assms(1)
    by (auto simp: turn_message_def py_or_def dict_of_def Let_def bind_result_Inr_iff stored_parent_def has_key_def
        intro: rev_image_eqI split: if_splits py.splits)
qed

text \<open>The question and the replies of a turn, all new.\<close>

lemma write_turn_tree:
  assumes run: "write_turn fr now user um es row (messages_of history) history = Inr (history', q)"
    and ok: "tree_ok (messages_of history)" and um: "um \<noteq> []" "pget um ''id'' = PStr u" "u \<noteq> []" "u \<notin> fst ` set (messages_of history)"
    and es: "distinct (u # map entry_id es)" "\<forall>e \<in> set es. entry_id e \<noteq> [] \<and> entry_id e \<notin> fst ` set (messages_of history)"
    and clean: "keys_distinct (PDict um)" "all_text clean_text (PDict um)" "clean_text (tu_id user)" "clean_text (tu_name user)"
  shows "tree_ok (messages_of history') \<and> grows (messages_of history) (messages_of history')
    \<and> map fst (messages_of history') = map fst (messages_of history) @ u # map entry_id es
    \<and> map_of history' ''currentId'' = Some (PStr (last (u # map entry_id es)))
    \<and> (\<forall>e \<in> set es. \<exists>v. map_of (messages_of history') (entry_id e) = Some v \<and> open_reply user u (entry_id e) v)
    \<and> stored_parent (messages_of history) (pget um ''parentId'')
    \<and> (\<exists>mu. map_of (messages_of history') u = Some (PDict mu)
         \<and> (\<forall>k. k \<notin> {''timestamp'', ''childrenIds''} \<longrightarrow> pget mu k = pget (new_user_message now row user um (pget um ''parentId'')) k))"
proof -
  let ?ms = "messages_of history" and ?msg = "new_user_message now row user um (pget um ''parentId'')"
  from run um obtain message saved h1 where t: "turn_message now row user um ?ms u = Inr (message, q)"
    and up: "upsert_message_to_history now history u (as_dict (sanitize_data_for_db fr (PDict message))) = Inr (h1, saved)"
    and rest: "fold_result (add_reply now user (PStr u)) es h1 = Inr history'"
    by (auto simp: write_turn_def bind_result_Inr_iff)
  from turn_message_new [OF t um(4)] have q: "q = pget um ''parentId''" "message = ?msg" "stored_parent ?ms (pget um ''parentId'')" by auto
  have up': "upsert_message_to_history now history u ?msg = Inr (h1, saved)"
    using up by (simp add: q(2) new_user_message_clean [OF clean])
  obtain m where m: "messages_of h1 = leaf_added u (PDict m) ?ms" "child_links (PDict m) = PList []"
    "\<And>k. k \<noteq> ''timestamp'' \<Longrightarrow> pget m k = pget ?msg k" "map_of h1 ''currentId'' = Some (PStr u)"
    using upsert_leaf [OF up' ok um(4,3)] q(3) um(2) by (auto simp: new_user_message_get)
  have link: "parent_link (PDict m) = pget um ''parentId''" by (simp add: parent_link_def m(3) new_user_message_get)
  have ok1: "tree_ok (messages_of h1)"
    unfolding m(1) by (rule leaf_added_ok [OF ok um(4,3)]) (use m(2) link q(3) in \<open>simp_all add: is_dict_def\<close>)
  have keys: "map fst (messages_of h1) = map fst ?ms @ [u]" by (simp add: m(1))
  have keys': "fst ` set (messages_of h1) = insert u (fst ` set ?ms)" using arg_cong [OF keys, of set] by simp
  have R: "tree_ok (messages_of history') \<and> grows (messages_of h1) (messages_of history')
    \<and> map fst (messages_of history') = map fst (messages_of h1) @ map entry_id es
    \<and> (\<forall>e \<in> set es. \<exists>v. map_of (messages_of history') (entry_id e) = Some v \<and> open_reply user u (entry_id e) v)
    \<and> (es \<noteq> [] \<longrightarrow> map_of history' ''currentId'' = Some (PStr (entry_id (last es))))
    \<and> (es = [] \<longrightarrow> history' = h1)"
    by (rule replies_added [OF rest ok1]) (use es in \<open>auto simp: keys' image_iff\<close>)
  have "map_of (messages_of h1) u = Some (PDict m)"
    using um(4) by (simp add: m(1) map_of_leaf_added map_of_eq_None_iff [THEN iffD2])
  with R obtain v where v: "map_of (messages_of history') u = Some v" "same_but_children v (PDict m)" by (meson growsD)
  then obtain mu where mu: "v = PDict mu" by (auto simp: same_but_children_def is_dict_iff)
  have "pget mu k = pget ?msg k" if "k \<notin> {''timestamp'', ''childrenIds''}" for k
    using same_but_children_get [OF v(2), of k] that m(3) by (simp add: mu)
  moreover have "grows ?ms (messages_of history')" using R grows_trans [OF grows_leaf [OF ok]] m(1) by metis
  moreover have "map_of history' ''currentId'' = Some (PStr (last (u # map entry_id es)))"
    using R m(4) by (cases "es = []") (auto simp: last_map)
  ultimately show ?thesis using R keys q(3) v(1) mu by auto
qed

text \<open>The question and its replies are appended, and every reply has its branch.\<close>

lemma turn_appended:
  assumes "insert_chat_turn float_repr now save_row writable user user_message message_ids rows (Some row) = Inr (row', rows', turn)"
    and "tree_ok (history_map (cr_chat row))"
    and "pget user_message ''id'' = PStr u" and "u \<notin> fst ` set (history_map (cr_chat row))"
    and "\<forall>e \<in> set message_ids. entry_id e \<notin> fst ` set (history_map (cr_chat row))"
    and "keys_distinct (PDict user_message)" and "all_text clean_text (PDict user_message)"
    and "clean_text (tu_id user)" and "clean_text (tu_name user)"
  shows "writable \<and> tree_ok (history_map (cr_chat row')) \<and> grows (history_map (cr_chat row)) (history_map (cr_chat row'))
    \<and> map fst (history_map (cr_chat row')) = map fst (history_map (cr_chat row)) @ u # map entry_id message_ids
    \<and> cr_current_message_id row' = PStr (last (u # map entry_id message_ids))
    \<and> (\<forall>e \<in> set message_ids. \<exists>L L' question reply.
         get_message_list (history_map (cr_chat row)) (pget user_message ''parentId'') = Inr L \<and> same_messages L' L
         \<and> get_message_list (history_map (cr_chat row')) (PStr (entry_id e)) = Inr (L' @ [question, reply])
         \<and> pget question ''id'' = PStr u \<and> pget question ''role'' = PStr ''user''
         \<and> pget question ''content'' = pget user_message ''content'' \<and> pget question ''user_id'' = PStr (tu_id user)
         \<and> open_reply user u (entry_id e) (PDict reply))"
proof -
  have um: "user_message \<noteq> []" using assms(3) by auto
  let ?ids = "map (\<lambda>e. pget e ''message_id'') message_ids" and ?ms = "history_map (cr_chat row)"
  from assms(1) um obtain history messages history' q where
    history: "turn_history row = Inr history" "dict_of (py_or (pget history ''messages'') (PDict [])) = Inr messages"
    and ids: "list_all truthy_str (pget user_message ''id'' # ?ids)" "distinct (pget user_message ''id'' # ?ids)"
    and run: "write_turn float_repr now user user_message message_ids row messages history = Inr (history', q)"
    and row': "cr_chat row' = AList.update ''history'' (PDict history') (cr_chat row)"
      "map_of history' ''currentId'' = Some (cr_current_message_id row')"
    and writable: writable
    by (auto simp: insert_chat_turn_def Let_def bind_result_Inr_iff simp del: list.pred_inject distinct.simps
        split: if_split_asm option.split_asm)
  have ms: "messages = messages_of history" "messages_of history = ?ms"
    using history by (auto simp: turn_history_def history_map_def stored_messages_def messages_of_def as_dict_def dict_of_def
        py_or_def pget_def dget_def split: py.splits if_splits option.splits)
  have entry: "pget e ''message_id'' = PStr (entry_id e) \<and> entry_id e \<noteq> []" if "e \<in> set message_ids" for e
    using ids(1) that by (auto simp: list_all_iff truthy_str_def entry_id_def split: py.splits)
  have u: "u \<noteq> []" using ids(1) assms(3) by (simp add: truthy_str_def)
  have "?ids = map PStr (map entry_id message_ids)" using entry by simp
  then have dist: "distinct (u # map entry_id message_ids)"
    using ids(2) assms(3) by (auto simp: distinct_map inj_on_def entry)
  have T: "tree_ok (messages_of history') \<and> grows ?ms (messages_of history')
    \<and> map fst (messages_of history') = map fst ?ms @ u # map entry_id message_ids
    \<and> map_of history' ''currentId'' = Some (PStr (last (u # map entry_id message_ids)))
    \<and> (\<forall>e \<in> set message_ids. \<exists>v. map_of (messages_of history') (entry_id e) = Some v \<and> open_reply user u (entry_id e) v)
    \<and> stored_parent ?ms (pget user_message ''parentId'')
    \<and> (\<exists>mu. map_of (messages_of history') u = Some (PDict mu)
         \<and> (\<forall>k. k \<notin> {''timestamp'', ''childrenIds''} \<longrightarrow> pget mu k = pget (new_user_message now row user user_message (pget user_message ''parentId'')) k))"
    unfolding ms(2) [symmetric]
    by (rule write_turn_tree [OF run [unfolded ms(1)]]) (use assms um u dist entry in \<open>simp_all add: ms(2)\<close>)
  then obtain mu where mu: "map_of (messages_of history') u = Some (PDict mu)"
    "\<And>k. k \<notin> {''timestamp'', ''childrenIds''} \<Longrightarrow> pget mu k = pget (new_user_message now row user user_message (pget user_message ''parentId'')) k"
    by blast
  have ms': "history_map (cr_chat row') = messages_of history'"
    by (simp add: row'(1) history_map_def stored_messages_def pget_def)
  have link: "parent_link (PDict mu) = pget user_message ''parentId''"
    by (simp add: parent_link_def mu(2) new_user_message_get)
  have branch: "\<exists>L L' question reply.
         get_message_list ?ms (pget user_message ''parentId'') = Inr L \<and> same_messages L' L
         \<and> get_message_list (messages_of history') (PStr (entry_id e)) = Inr (L' @ [question, reply])
         \<and> pget question ''id'' = PStr u \<and> pget question ''role'' = PStr ''user''
         \<and> pget question ''content'' = pget user_message ''content'' \<and> pget question ''user_id'' = PStr (tu_id user)
         \<and> open_reply user u (entry_id e) (PDict reply)" if e: "e \<in> set message_ids" for e
  proof -
    from T e obtain v where v: "map_of (messages_of history') (entry_id e) = Some v" "open_reply user u (entry_id e) v" by blast
    then obtain mr where mr: "v = PDict mr" by (auto simp: open_reply_def is_dict_iff)
    have "\<exists>L L'. get_message_list ?ms (parent_link (PDict mu)) = Inr L \<and> same_messages L' L
        \<and> get_message_list (messages_of history') (PStr (entry_id e)) = Inr (L' @ [mu, mr])"
      using T v mu(1) assms(2,4,5) e dist
      by (intro message_list_grows) (auto simp: mr open_reply_def link)
    then show ?thesis unfolding link using v(2) assms(3) by (auto simp: mr mu(2) new_user_message_get)
  qed
  show ?thesis using T branch writable row'(2) unfolding ms' by simp
qed

subsection \<open>Any number of turns\<close>

text \<open>
  What readers of a chat rely on: a step of a writer keeps the tree sound and every message in it, up
  to the list of its children. Then no branch ever changes.
\<close>

locale growing_tree =
  fixes tree :: "'c \<Rightarrow> pydict" and step :: "'c \<Rightarrow> 'c \<Rightarrow> bool"
  assumes step_ok: "tree_ok (tree c) \<Longrightarrow> step c c' \<Longrightarrow> tree_ok (tree c')"
    and step_grows: "tree_ok (tree c) \<Longrightarrow> step c c' \<Longrightarrow> grows (tree c) (tree c')"
begin

lemma run_grows: "step\<^sup>*\<^sup>* c c' \<Longrightarrow> tree_ok (tree c) \<Longrightarrow> tree_ok (tree c') \<and> grows (tree c) (tree c')"
proof (induction rule: rtranclp_induct)
  case base
  then show ?case by (simp add: grows_refl)
next
  case (step c1 c2)
  then show ?case using step_ok step_grows grows_trans by blast
qed

lemma branch_kept:
  assumes "step\<^sup>*\<^sup>* c c'" and "tree_ok (tree c)" and "i \<in> fst ` set (tree c)"
  shows "\<exists>L L'. get_message_list (tree c) (PStr i) = Inr L \<and> get_message_list (tree c') (PStr i) = Inr L' \<and> same_messages L' L"
proof -
  from run_grows [OF assms(1,2)] have ok: "tree_ok (tree c')" "grows (tree c) (tree c')" by simp_all
  from assms(3) obtain v where "map_of (tree c) i = Some v" by (auto simp: map_of_keys)
  with growsD [OF ok(2) this] have "tree c \<noteq> []" "tree c' \<noteq> []" by auto
  moreover obtain L L' where "message_list_loop (tree c) i [] [] = Inr L" "same_messages L' L"
    "message_list_loop (tree c') i ([] @ []) ([] @ []) = Inr (L' @ [])"
    using branch_grows [OF assms(2) ok, of "[]" i "[]" "[]" "[]" "[]"] assms(3) by auto
  ultimately show ?thesis by (simp add: get_message_list_def)
qed

end

text \<open>An accepted turn with a new question and new reply ids.\<close>

inductive turn_step :: "(py \<Rightarrow> string) \<Rightarrow> (string \<Rightarrow> py \<Rightarrow> pydict \<Rightarrow> 'r \<Rightarrow> 'r result) \<Rightarrow> chat_row \<Rightarrow> chat_row \<Rightarrow> bool"
  for float_repr save_row where
  turn: "insert_chat_turn float_repr now save_row writable user user_message message_ids rows (Some row) = Inr (row', rows', turn) \<Longrightarrow>
    pget user_message ''id'' = PStr u \<Longrightarrow> u \<notin> fst ` set (history_map (cr_chat row)) \<Longrightarrow>
    \<forall>e \<in> set message_ids. entry_id e \<notin> fst ` set (history_map (cr_chat row)) \<Longrightarrow>
    keys_distinct (PDict user_message) \<Longrightarrow> all_text clean_text (PDict user_message) \<Longrightarrow>
    clean_text (tu_id user) \<Longrightarrow> clean_text (tu_name user) \<Longrightarrow> turn_step float_repr save_row row row'"

interpretation chat_turns: growing_tree "\<lambda>row. history_map (cr_chat row)" "turn_step float_repr save_row"
proof unfold_locales
  fix row row'
  assume ok: "tree_ok (history_map (cr_chat row))" and step: "turn_step float_repr save_row row row'"
  from step have "tree_ok (history_map (cr_chat row')) \<and> grows (history_map (cr_chat row)) (history_map (cr_chat row'))"
  proof cases
    case turn
    from turn_appended [OF turn(1) ok turn(2-)] show ?thesis by blast
  qed
  then show "tree_ok (history_map (cr_chat row'))" and "grows (history_map (cr_chat row)) (history_map (cr_chat row'))" by simp_all
qed



definition demo_chat_row :: chat_row where
  "demo_chat_row = \<lparr>cr_user_id = ''u'', cr_title = PStr ''t'',
     cr_chat = [(''history'', PDict [(''messages'', PDict
       [(''a'', PDict [(''id'', PStr ''a''), (''role'', PStr ''user''), (''parentId'', PNone), (''childrenIds'', PList [PStr ''b''])]),
        (''b'', PDict [(''id'', PStr ''b''), (''role'', PStr ''assistant''), (''parentId'', PStr ''a''), (''childrenIds'', PList [])])]),
        (''currentId'', PStr ''b'')])],
     cr_current_message_id = PStr ''b'', cr_updated_at = 1\<rparr>"

definition demo_asker :: turn_user where
  "demo_asker = \<lparr>tu_id = ''u'', tu_name = ''U''\<rparr>"

definition demo_question :: pydict where
  "demo_question = [(''id'', PStr ''q''), (''parentId'', PStr ''b''), (''content'', PStr ''why'')]"

definition demo_entries :: "pydict list" where
  "demo_entries = [[(''message_id'', PStr ''r''), (''model_id'', PStr ''m'')]]"

abbreviation demo_insert :: "(chat_row \<times> nat \<times> pydict) result" where
  "demo_insert \<equiv> insert_chat_turn (\<lambda>_. []) 9 (\<lambda>_ _ _ n. Inr (Suc n)) True demo_asker demo_question demo_entries 0 (Some demo_chat_row)"

lemma demo_question_clean:
  "keys_distinct (PDict demo_question)" "all_text clean_text (PDict demo_question)"
  "clean_text (tu_id demo_asker)" "clean_text (tu_name demo_asker)"
  by code_simp+

lemma demo_write:
  "\<not> isl (write_turn (\<lambda>_. []) 9 demo_asker demo_question demo_entries demo_chat_row
      (history_map (cr_chat demo_chat_row)) (as_dict (pget (cr_chat demo_chat_row) ''history'')))"
proof -
  have qid: "pget demo_question ''id'' = PStr ''q''" by code_simp
  have msg: "turn_message 9 demo_chat_row demo_asker demo_question (history_map (cr_chat demo_chat_row)) ''q''
      = Inr (new_user_message 9 demo_chat_row demo_asker demo_question (pget demo_question ''parentId''), PStr ''b'')"
    by code_simp
  show ?thesis
    unfolding write_turn_def qid py.case msg bind_result_simps prod.case new_user_message_clean [OF demo_question_clean] as_dict_PDict
    by code_simp
qed

lemma demo_tree_ok: "tree_ok (history_map (cr_chat demo_chat_row))"
  by code_simp

lemma demo_inserted: "\<exists>row' rows' turn. demo_insert = Inr (row', rows', turn)"
proof -
  define H where "H = as_dict (pget (cr_chat demo_chat_row) ''history'')"
  have hist: "turn_history demo_chat_row = Inr H" "dict_of (py_or (pget H ''messages'') (PDict [])) = Inr (history_map (cr_chat demo_chat_row))"
    "messages_of H = history_map (cr_chat demo_chat_row)"
    unfolding H_def by code_simp+
  have check: "fold_result (check_reply demo_chat_row demo_asker demo_question (history_map (cr_chat demo_chat_row))) [PStr ''r''] () = Inr ()"
    by code_simp
  have ids: "map (\<lambda>e. pget e ''message_id'') demo_entries = [PStr ''r'']" "pget demo_question ''id'' = PStr ''q''"
    "demo_question \<noteq> []" "list_all truthy_str [PStr ''q'', PStr ''r'']" "distinct [PStr ''q'', PStr ''r'']"
    by code_simp+
  obtain h q where written: "write_turn (\<lambda>_. []) 9 demo_asker demo_question demo_entries demo_chat_row
      (history_map (cr_chat demo_chat_row)) H = Inr (h, q)"
    using demo_write unfolding H_def by (metis isl_def sum.exhaust prod.exhaust)
  have fresh: "''q'' \<notin> fst ` set (history_map (cr_chat demo_chat_row))" "distinct (''q'' # map entry_id demo_entries)"
    "\<forall>e \<in> set demo_entries. entry_id e \<noteq> [] \<and> entry_id e \<notin> fst ` set (history_map (cr_chat demo_chat_row))"
    by code_simp+
  have "\<exists>c. map_of h ''currentId'' = Some c"
    using write_turn_tree [of "\<lambda>_. []" 9 demo_asker demo_question demo_entries demo_chat_row H h q "''q''", unfolded hist(3),
        OF written demo_tree_ok ids(3,2) _ fresh demo_question_clean] by blast
  then obtain c where cur: "map_of h ''currentId'' = Some c" ..
  have "\<exists>n'. fold_result (save_turn_row (\<lambda>_ _ _ n. Inr (Suc n)) demo_chat_row (messages_of h)) is n = Inr n'" for "is" n
    by (induction "is" arbitrary: n) (simp_all add: save_turn_row_def Let_def)
  then obtain n' where rows: "fold_result (save_turn_row (\<lambda>_ _ _ n. Inr (Suc n)) demo_chat_row (messages_of h))
      (str_list [PStr ''q'', PStr ''r'']) 0 = Inr n'" by blast
  show ?thesis
    using ids(3-5) by (simp add: insert_chat_turn_def hist(1,2) ids(1,2) check written cur rows Let_def del: fold_result.simps)
qed



end
