(* ===== verification/Spec2Isabelle.thy ===== *)
theory Spec2Isabelle
  imports Access_Properties Folders Rate_Limit Chat_Fork Bot_Scheduler Bot_Events Bot_Bindings Bot_Accounts Bot_Coordination Credit_Properties Checkin Mfa_Examples Stream_Lines Output_Messages Tool_Safety Compaction Mfa_Policy Chat_Turns
begin

text \<open>
  A verification library for the backend of RyanAI, a fork of Open WebUI: the Python package
  \<^verbatim>\<open>backend/open_webui\<close>. Paths below are relative to it.

  \<^bold>\<open>The program.\<close> A web application for chats with language models. Its own logic, apart from the glue
  around model providers, vector stores and the database, decides who may see and change what
  (grants, groups, permissions, folders), what a request costs and whether it can be paid (credits,
  pricing, usage, check-ins), who is logged in (credentials, second factors, sessions), what
  a model is shown and which of its tool calls run (messages, approvals), and how messages from external
  messengers reach it (the bot gateway).
  Every part keeps its state in tables; a handler reads and writes them in transactions. An operation
  of the model is one transaction: it takes the tables and returns the result and the new tables.
  Logins, which race with one another on one row, are programs of several transactions.

  \<^bold>\<open>Shared ground.\<close>
  \<^item> \<open>Prelude\<close>: JSON-like Python values (\<^typ>\<open>py\<close>), dicts as association lists in insertion order,
    exceptions as values (\<^typ>\<open>py_error\<close>, results of type \<open>'a result\<close>), recursive SQL unions.
  \<^item> \<open>Py_Numbers\<close>: numerals, \<open>int\<close>, \<open>float\<close> and \<open>Decimal\<close> of values, \<open>==\<close>, \<open>str.split\<close>, \<open>str.lstrip\<close>.
  \<^item> \<open>Json\<close>: \<open>json.dumps\<close> and \<open>json.loads\<close> with their round trip. The parser takes a bound on its calls
    and twice the length of the text is proved to be enough.

  \<^bold>\<open>Access.\<close>
  \<^item> \<open>Access_Grants\<close>, \<open>Access_Query\<close> (\<^verbatim>\<open>models/access_grants.py\<close>): the grant table, the legacy dict and its
    conversion, checks, listings of users, query filters.
  \<^item> \<open>User_Groups\<close> (\<^verbatim>\<open>models/groups.py\<close>): groups in a hierarchy, members, the recursive queries, every
    operation that changes them.
  \<^item> \<open>Permissions\<close>, \<open>Access_Control\<close> (\<^verbatim>\<open>utils/access_control/__init__.py\<close>): permission trees, dotted
    permissions, sharing policy, base model chains. \<open>Folders\<close> (\<^verbatim>\<open>models/folders.py\<close>,
    \<^verbatim>\<open>utils/access_control/folders.py\<close>): the folder tree and access inherited through it.
  \<^item> Shown (\<open>Access_Properties\<close>, \<open>Folders\<close>): the hierarchy stays a forest under every operation; checks,
    listings and filters agree with one another; deleting moves children up and reports everybody whose
    rights change; permission checks agree with the merged tree; deletion removes a subtree.

  \<^bold>\<open>Credits.\<close>
  \<^item> \<open>Credits\<close> (\<^verbatim>\<open>models/credits.py\<close>): balances and their log. The locale \<open>ledger\<close> states what a column of
    balances promises; it is interpreted on the table's operations, and \<open>credit_column\<close> extends it.
  \<^item> \<open>Credit_Pricing\<close>, \<open>Credit_Usage\<close> (\<^verbatim>\<open>utils/credit\<close>): prices of models, features and custom rules, the
    check before a request, the counting of streamed usage and the charge after it.
  \<^item> \<open>Checkin\<close> (\<^verbatim>\<open>models/checkin.py\<close>, \<^verbatim>\<open>routers/checkin.py\<close>): daily rewards.
  \<^item> Shown (\<open>Credits\<close>, \<open>Credit_Properties\<close>, \<open>Checkin\<close>): balances never become negative, concurrent charges
    implement a simple account, a request that passed the check can be charged, a stream is counted
    once, rewards are paid once a day. Amounts are exact rationals rounded to the scale of the column.

  \<^bold>\<open>Logins with a second factor.\<close>
  \<^item> \<open>Auths\<close> (\<^verbatim>\<open>models/auths.py\<close>): the credential table; every write of an authenticator state is a
    compare-and-swap on the revision the request has read.
  \<^item> \<open>Mfa\<close> (\<^verbatim>\<open>utils/mfa.py\<close>), \<open>Signin\<close> (\<^verbatim>\<open>utils/auth.py\<close>, \<^verbatim>\<open>routers/auths.py\<close>, \<^verbatim>\<open>routers/mfa.py\<close>): login,
    enrollment, verification, management, reset, sessions and their validity, as trees (\<open>'a prog\<close>) of
    calls of the database, the clock, the settings and the random generator.
  \<^item> \<open>Mfa_Spec\<close>: the contract, a state per account and atomic actions on it (accept a factor, enroll,
    charge an attempt, revoke). The locale \<open>accounting\<close> bounds how often an action can happen; it is
    interpreted for recovery codes, time steps, envelopes and attempts.
  \<^item> \<open>Mfa_Guarantee\<close>, \<open>Mfa_Requests\<close>: a calculus of what a program promises by the actions it performs, and
    the promises of every request.
  \<^item> \<open>Mfa_Concurrent\<close>: requests interleaved call by call; a step may lose the answer of a write that has
    happened, move the clock, change the settings, create or delete accounts.
  \<^item> Shown (\<open>Mfa_Properties\<close>, \<open>Mfa_Progress\<close>, \<open>Mfa_Examples\<close>): every run refines atomic actions; no factor is
    accepted twice; a recovery code logs in once; a challenge judges five codes; a revoked session
    stays refused; a request has answered after sixty of its own steps, the longest path through the
    two loops of five attempts. Where digests must differ the hypothesis \<open>collision_free\<close> asks it of the
    values the run has drawn only.
  \<^item> \<open>Mfa_Policy\<close>: the policy on second factors, its validation and the transaction that changes it and
    revokes every session, over the settings; shown: the change is read back and reaches every account.

  \<^bold>\<open>Bot gateway.\<close>
  \<^item> \<open>Bot_Gateway\<close>, \<open>Bot_Connections\<close> (\<^verbatim>\<open>models/bot_gateway.py\<close>): all tables and operations.
    \<open>Bot_Crypto\<close> (\<^verbatim>\<open>utils/bot_gateway_crypto.py\<close>): credential and checkpoint envelopes.
    \<open>Bot_Scheduler\<close> (\<^verbatim>\<open>utils/bot_gateway_scheduler.py\<close>): the rebalancing plan. \<open>Bot_Coordination\<close>
    (\<^verbatim>\<open>utils/bot_gateway_coordination.py\<close>, the admission of an event in \<^verbatim>\<open>routers/bot_gateway.py\<close>).
  \<^item> Shown: \<open>Bot_Events\<close>, a completed event is final and a lost lease is fenced, over every interleaving of
    workers; \<open>Bot_Bindings\<close>, a code binds once and a conversation stays with the user its identity is
    bound to; \<open>Bot_Accounts\<close>, credentials are read back, an envelope is bound to its connection, an
    account to one connection, and a deleted connection leaves nothing; \<open>Bot_Coordination\<close>, a moved
    connection fences off its old events and shard targets are live and sticky; \<open>Bot_Scheduler\<close>, a plan
    assigns every connection within the capacities and moves only what may move.

  \<^bold>\<open>Messages and tool calls.\<close>
  \<^item> \<open>Py_Objects\<close>: iteration, truth, hashing and membership of Python values, with the errors they raise.
  \<^item> \<open>Messages\<close>, \<open>Output_Messages\<close>, \<open>Stream_Lines\<close> (\<^verbatim>\<open>utils/misc.py\<close>): the branch of a message, the pairing
    of tool calls with their results, the conversion of a stored reply to the messages a provider
    takes, the lines of a stream that arrives in chunks.
  \<^item> \<open>Tool_Approval\<close> (\<^verbatim>\<open>utils/tool_approval.py\<close>, the loop and the pause in \<^verbatim>\<open>utils/middleware.py\<close>): the calls of
    a paused reply, the decisions of the user, claiming and completing a call. \<open>Tool_Runs\<close>: any
    interleaving of these transactions, with their invariant.
  \<^item> \<open>Compaction\<close> (\<^verbatim>\<open>utils/context_compaction.py\<close>): token estimates, checkpoints in the history, the cut, the
    request with its summary. Shown: a cut keeps calls with their results, a request sends an end of
    its messages, and the next one resumes at the checkpoint.
  \<^item> Shown: reconciling leaves paired calls and changes nothing else; stored replies convert without an
    error; the lines do not depend on the chunks (the reference \<open>stream_lines\<close> splits the whole text);
    \<open>Tool_Safety\<close>, a call runs with consent and once, the model is started again once and when every
    call has its result, and no reply is stuck.

  \<^bold>\<open>Chats.\<close>
  \<^item> \<open>Db_Text\<close> (\<^verbatim>\<open>utils/misc.py\<close>): the cleaning of values for the database; its check of the serialized
    value is exact.
  \<^item> \<open>Chat_History\<close> (\<^verbatim>\<open>models/chats.py\<close>): the tree of messages, linked from children to parents and back; its
    repair, merge, deletion and writes. \<open>links_exact\<close> says that both directions agree. Merged histories are
    linked anew (\<open>relink\<close>), repaired ones list every child.
  \<^item> \<open>Chat_Writes\<close>: the handlers, each a transaction on the chat row; an exception rolls it back.
  \<^item> Shown: \<open>Chat_Delete\<close>, a deletion keeps the tree sound; \<open>Chat_Writes\<close>, a stale client drops no message;
    \<open>Chat_Turns\<close>, a turn appends to its branch. The locale \<open>growing_tree\<close> states what readers rely on,
    interpreted on the turns of a chat: branches never change.

  \<^bold>\<open>Settings.\<close> \<open>Settings\<close> (\<^verbatim>\<open>models/config.py\<close>, the start sequence of \<^verbatim>\<open>config.py\<close>): rows over the defaults of the
  process. The locale \<open>setting_store\<close> states what a write promises and is interpreted on \<open>upsert\<close>. Shown:
  the last write is read, the readers agree, seeding changes nothing, a renamed prefix keeps its values.
  Whether the object-relational mapper notices a JSON value changed in place is an argument of the repair.

  \<^bold>\<open>Other components.\<close> \<open>Rate_Limit\<close> (\<^verbatim>\<open>utils/rate_limit.py\<close>): the rolling window, exact in memory.
  \<open>Chat_Fork\<close> (\<^verbatim>\<open>utils/chat_fork.py\<close>): forking copies exactly the branch of a message.

  \<^bold>\<open>Parameters.\<close> Code that is not in the repository is an argument: the tokenizer, JSONPath, Redis, HKDF,
  HMAC, AES-GCM, Fernet, TOTP and SHA-256; so are the clock, fresh identifiers, random numbers, the settings store and the
  rounding of floats (\<open>fl\<close>). Where a theorem relies on one of them its hypothesis says what the package
  documents, and a witness instantiates it.

  \<^bold>\<open>Loops.\<close> Recursion over tables and chains terminates by a measure or by a visited set; where the
  source recurses without a bound (base models of a model's price) the model counts the frames of the
  interpreter's stack and its theorem covers the case that they run out.

  \<^bold>\<open>Not modelled.\<close> Foreign keys, time-outs of the database, infinities and not-a-number as amounts,
  overflow of a numeric column, the interpreter's limit on the digits of integers, text outside ASCII
  in the case conversions. Routers, streams of model providers, retrieval, storage, the socket server
  and migrations are glue over external services; so are cookies, QR codes, the delivery
  of events, LDAP and OAuth flows around a login. Of the approval of tool calls, the finalization of a
  stopped reply (\<^verbatim>\<open>main.py\<close>), the payload of a resumed request and the tools themselves are left out. Of chats, the listings, tags, sharing and
  reading state are left out, and so are the tables of knowledge, notes and automations. The browser frontend (TypeScript), the messenger
  sidecar (TypeScript) and the browser's encryption module (Rust) are other programs.
\<close>

end
